(* ===== verification/Prelude.thy ===== *)
theory Prelude
  imports Main "HOL-Library.AList" "HOL-Library.Sublist" "HOL-Library.List_Lexorder"
    "HOL-Library.Char_ord" "HOL-Library.Product_Lexorder"
begin

text \<open>
  What every component of the development shares: the model of Go's times, 64-bit integers and
  strings, the error values of \<^verbatim>\<open>internal/agentruntime/errors.go\<close>, SQLite tables as
  association lists with distinct keys, and the small helpers at the end of
  \<^verbatim>\<open>internal/store/sqlite/stores_core.go\<close>.

  Conventions. A Go string is its list of bytes. A \<^verbatim>\<open>time.Time\<close> is the number of
  nanoseconds since Go's zero time, so that the zero time is \<open>0\<close> and \<open>After\<close>/\<open>Before\<close>
  are the order of integers; a \<^verbatim>\<open>time.Duration\<close> is an integer number of nanoseconds.
  A \<^verbatim>\<open>uint64\<close> is a natural number and an \<^verbatim>\<open>int64\<close> an integer, with the
  wrap-around written out at every increment and every sum the code computes. A fallible call
  returns \<open>Inl e\<close> for an error \<open>e\<close> and \<open>Inr v\<close> for a value; an operation on a table
  returns its result together with the new table.
\<close>

type_synonym time = int
type_synonym duration = int

named_theorems store_simps "rewriting of table lookups and updates"
named_theorems inv_intros "introduction rules for component invariants"

section \<open>Errors\<close>

text \<open>
  The sentinel errors the modelled code returns or wraps. \<open>ErrMessage\<close> stands for an error
  built with \<^verbatim>\<open>fmt.Errorf\<close> or \<^verbatim>\<open>errors.New\<close> that wraps no sentinel.
\<close>

datatype error =
    ErrNotFound
  | ErrConflict
  | ErrBusy
  | ErrTerminalState
  | ErrStaleTaskVersion
  | ErrLeaseHolderMismatch
  | ErrLeaseNotActive
  | ErrOwnerMismatch
  | ErrActionTaskRequired
  | ErrActionReconcileRequired
  | ErrIdempotencyConflict
  | ErrResponseTaskRequired
  | ErrPolicyDenied
  | ErrPolicyObligationFailed
  | ErrHandoffCycle
  | ErrHandoffDepthExceeded
  | ErrInvalidCommand
  | ErrInvalidTransition
  | ErrCompletionCriteriaUnmet
  | ErrDependencyUnmet
  | ErrDependencyFailed
  | ErrCheckpointLimitExceeded
  | ErrInvalidConfiguration
  | ErrCapabilityNameReserved
  | ErrInvalidAddress
  | ErrNoRecipients
  | ErrSubscriptionClosed
  | ErrWaitTimeout
  | ErrMessage string

text \<open>Sequencing of fallible computations: the early return on the first error.\<close>

definition bindE :: "'e + 'a \<Rightarrow> ('a \<Rightarrow> 'e + 'b) \<Rightarrow> 'e + 'b" where
  "bindE r f = (case r of Inl e \<Rightarrow> Inl e | Inr v \<Rightarrow> f v)"

lemma bindE_Inl [simp]: "bindE (Inl e) f = Inl e"
  by (simp add: bindE_def)

lemma bindE_Inr [simp]: "bindE (Inr v) f = f v"
  by (simp add: bindE_def)

lemma bindE_eq_Inr: "bindE r f = Inr w \<longleftrightarrow> (\<exists>v. r = Inr v \<and> f v = Inr w)"
  by (cases r) auto

lemma bindE_eq_Inl: "bindE r f = Inl e \<longleftrightarrow> r = Inl e \<or> (\<exists>v. r = Inr v \<and> f v = Inl e)"
  by (cases r) auto

section \<open>64-bit integers\<close>

definition u64_limit :: nat where
  "u64_limit = 2 ^ 64"

definition u64_inc :: "nat \<Rightarrow> nat" where
  "u64_inc v = (v + 1) mod 2 ^ 64"

lemma u64_inc_less: "v + 1 < 2 ^ 64 \<Longrightarrow> u64_inc v = v + 1"
  by (simp add: u64_inc_def)

text \<open>Evaluation on concrete values goes through binary integers.\<close>

lemma u64_inc_code [code]: "u64_inc v = nat ((int v + 1) mod 18446744073709551616)"
proof -
  have "int ((v + 1) mod 2 ^ 64) = (int v + 1) mod 2 ^ 64"
    by (simp add: zmod_int add.commute)
  then have "(v + 1) mod 2 ^ 64 = nat ((int v + 1) mod 2 ^ 64)" by (metis nat_int)
  then show ?thesis by (simp add: u64_inc_def)
qed

definition s64_wrap :: "int \<Rightarrow> int" where
  "s64_wrap x = (x + 2 ^ 63) mod 2 ^ 64 - 2 ^ 63"

lemma s64_wrap_id: "- (2 ^ 63) \<le> x \<Longrightarrow> x < 2 ^ 63 \<Longrightarrow> s64_wrap x = x"
  unfolding s64_wrap_def by (simp add: mod_pos_pos_trivial)

lemma s64_wrap_bounds: "- (2 ^ 63) \<le> s64_wrap x \<and> s64_wrap x < 2 ^ 63"
proof -
  have "0 \<le> (x + 2 ^ 63) mod 2 ^ 64" and "(x + 2 ^ 63) mod 2 ^ 64 < (2 ^ 64 :: int)"
    by simp_all
  then show ?thesis unfolding s64_wrap_def by simp
qed

lemma s64_wrap_add: "s64_wrap (s64_wrap x + y) = s64_wrap (x + y)"
proof -
  have "(s64_wrap x + y + 2 ^ 63) mod 2 ^ 64 = ((x + 2 ^ 63) mod 2 ^ 64 + y) mod (2 ^ 64 :: int)"
    unfolding s64_wrap_def by (simp add: algebra_simps)
  also have "\<dots> = (x + 2 ^ 63 + y) mod 2 ^ 64"
    by (rule mod_add_left_eq)
  finally show ?thesis unfolding s64_wrap_def by (simp add: algebra_simps)
qed

text \<open>\<^verbatim>\<open>int64FromUint64\<close>: a version that does not fit a SQLite INTEGER is an error.\<close>

definition int64FromUint64 :: "nat \<Rightarrow> error + int" where
  "int64FromUint64 value =
     (if value > 2 ^ 63 - 1 then Inl (ErrMessage ''value overflows SQLite INTEGER'')
      else Inr (int value))"

lemma int64FromUint64_code [code]:
  "int64FromUint64 v =
     (if int v > 9223372036854775807 then Inl (ErrMessage ''value overflows SQLite INTEGER'')
      else Inr (int v))"
  by (auto simp: int64FromUint64_def)

definition uint64FromInt64 :: "int \<Rightarrow> error + nat" where
  "uint64FromInt64 value =
     (if value < 0 then Inl (ErrMessage ''negative SQLite INTEGER'') else Inr (nat value))"

lemma int64FromUint64_roundtrip:
  "int64FromUint64 v = Inr i \<Longrightarrow> uint64FromInt64 i = Inr v"
  by (auto simp: int64FromUint64_def uint64FromInt64_def split: if_splits)

section \<open>Times and selectors\<close>

definition IsZero :: "time \<Rightarrow> bool" where
  "IsZero t \<longleftrightarrow> t = 0"

definition within :: "time \<Rightarrow> time \<Rightarrow> time \<Rightarrow> bool" where
  "within value since until \<longleftrightarrow>
     (IsZero since \<or> \<not> value < since) \<and> (IsZero until \<or> \<not> value > until)"

text \<open>\<^verbatim>\<open>Time.Sub\<close> saturates at the range of \<^verbatim>\<open>time.Duration\<close>.\<close>

definition time_sub :: "time \<Rightarrow> time \<Rightarrow> duration" where
  "time_sub a b = max (- 9223372036854775808) (min 9223372036854775807 (a - b))"

text \<open>The conversion of \<^verbatim>\<open>nanos\<close> in \<^verbatim>\<open>internal/store/sqlite/stores_core.go\<close>: the zero
  time is stored as 0, any other as its \<^verbatim>\<open>UnixNano\<close>, an \<^verbatim>\<open>int64\<close> that wraps for times before
  1678 and after 2262. \<open>UnixEpoch\<close> is 1970-01-01 on the scale of \<open>time\<close>.\<close>

definition UnixEpoch :: time where
  "UnixEpoch = 62135596800000000000"

definition nanos :: "time \<Rightarrow> int" where
  "nanos t = (if IsZero t then 0 else s64_wrap (t - UnixEpoch))"

definition stored_time :: "time \<Rightarrow> bool" where
  "stored_time t \<longleftrightarrow> - (2 ^ 63) \<le> t - UnixEpoch \<and> t - UnixEpoch < 2 ^ 63"

lemma nanos_stored: "stored_time t \<Longrightarrow> nanos t = t - UnixEpoch"
  by (auto simp: nanos_def stored_time_def s64_wrap_id IsZero_def UnixEpoch_def)

lemma nanos_less_iff: "stored_time a \<Longrightarrow> stored_time b \<Longrightarrow> nanos a < nanos b \<longleftrightarrow> a < b"
  by (simp add: nanos_stored)

fun contains :: "'a list \<Rightarrow> 'a \<Rightarrow> bool" where
  "contains [] target = False"
| "contains (x # xs) target = (x = target \<or> contains xs target)"

lemma contains_iff [simp]: "contains xs target \<longleftrightarrow> target \<in> set xs"
  by (induction xs) auto

lemma find_ex: "x \<in> set xs \<Longrightarrow> P x \<Longrightarrow> \<exists>y. List.find P xs = Some y"
  by (cases "List.find P xs") (auto simp: find_None_iff)

lemma find_SomeD: "List.find P xs = Some y \<Longrightarrow> y \<in> set xs \<and> P y"
  by (auto simp: find_Some_iff)

definition limit :: "'a list \<Rightarrow> int \<Rightarrow> 'a list" where
  "limit values count =
     (if count > 0 \<and> int (length values) > count then take (nat count) values else values)"

lemma set_limit_subset: "set (limit values count) \<subseteq> set values"
  by (auto simp: limit_def dest: in_set_takeD)

lemma length_limit: "count > 0 \<Longrightarrow> int (length (limit values count)) \<le> count"
  by (auto simp: limit_def)

section \<open>Strings\<close>

text \<open>
  \<^verbatim>\<open>strings.TrimSpace\<close> removes leading and trailing Unicode white space. On the bytes of a
  UTF-8 string these are the six ASCII characters and the encodings of U+0085, U+00A0, U+1680,
  U+2000 to U+200A, U+2028, U+2029, U+202F, U+205F and U+3000.
\<close>

definition space_seqs :: "nat list list" where
  "space_seqs = [[9], [10], [11], [12], [13], [32], [194, 133], [194, 160], [225, 154, 128],
     [226, 128, 128], [226, 128, 129], [226, 128, 130], [226, 128, 131], [226, 128, 132],
     [226, 128, 133], [226, 128, 134], [226, 128, 135], [226, 128, 136], [226, 128, 137],
     [226, 128, 138], [226, 128, 168], [226, 128, 169], [226, 128, 175], [226, 129, 159],
     [227, 128, 128]]"

fun strip_prefix :: "nat list \<Rightarrow> string \<Rightarrow> string option" where
  "strip_prefix [] s = Some s"
| "strip_prefix (b # bs) [] = None"
| "strip_prefix (b # bs) (c # s) = (if of_char c = b then strip_prefix bs s else None)"

fun strip_one :: "nat list list \<Rightarrow> string \<Rightarrow> string option" where
  "strip_one [] s = None"
| "strip_one (q # qs) s = (case strip_prefix q s of Some r \<Rightarrow> Some r | None \<Rightarrow> strip_one qs s)"

lemma strip_prefix_length: "strip_prefix q s = Some r \<Longrightarrow> length r + length q = length s"
  by (induction q s rule: strip_prefix.induct) (auto split: if_splits)

function trim_left :: "nat list list \<Rightarrow> string \<Rightarrow> string" where
  "trim_left qs s =
     (case strip_one qs s of
        None \<Rightarrow> s
      | Some r \<Rightarrow> if length r < length s then trim_left qs r else s)"
  by pat_completeness auto
termination
  by (relation "measure (\<lambda>(qs, s). length s)") auto

declare trim_left.simps [simp del]

definition TrimSpace :: "string \<Rightarrow> string" where
  "TrimSpace s = rev (trim_left (map rev space_seqs) (rev (trim_left space_seqs s)))"

definition blank :: "string \<Rightarrow> bool" where
  "blank s \<longleftrightarrow> TrimSpace s = []"

lemma trim_left_id: "strip_one qs s = None \<Longrightarrow> trim_left qs s = s"
  by (simp add: trim_left.simps)

lemma strip_one_None:
  "\<forall>q \<in> set qs. \<exists>b bs. q = b # bs \<and> of_char c \<noteq> b \<Longrightarrow> strip_one qs (c # s) = None"
  by (induction qs) auto

lemma trim_left_Nil [simp]: "trim_left qs [] = []"
  by (auto simp: trim_left.simps split: option.split)

lemma TrimSpace_Nil [simp]: "TrimSpace [] = []"
  by (simp add: TrimSpace_def)

lemma blank_Nil [simp]: "blank []"
  by (simp add: blank_def)

lemma strip_prefix_Cons:
  "strip_prefix (b # bs) (c # s) = Some r \<longleftrightarrow> b = of_char c \<and> strip_prefix bs s = Some r"
  by (metis option.distinct(1) strip_prefix.simps(3))

lemma strip_prefix_iff: "strip_prefix q s = Some r \<longleftrightarrow> (\<exists>p. s = p @ r \<and> map of_char p = q)"
proof (induction q arbitrary: s)
  case (Cons b bs)
  show ?case
  proof (cases s)
    case Nil
    then show ?thesis by auto
  next
    case (Cons c t)
    have "strip_prefix (b # bs) (c # t) = Some r \<longleftrightarrow>
        b = of_char c \<and> (\<exists>p. t = p @ r \<and> map of_char p = bs)"
      by (simp only: strip_prefix_Cons \<open>\<And>s. (strip_prefix bs s = Some r) = (\<exists>p. s = p @ r \<and> map of_char p = bs)\<close>)
    also have "\<dots> \<longleftrightarrow> (\<exists>p. c # t = p @ r \<and> map of_char p = b # bs)"
      by (fastforce simp: Cons_eq_append_conv)
    finally show ?thesis using Cons by simp
  qed
qed auto

lemma strip_one_None_iff:
  "strip_one qs s = None \<longleftrightarrow> (\<forall>q \<in> set qs. \<forall>p r. s = p @ r \<longrightarrow> map of_char p \<noteq> q)"
proof (induction qs)
  case (Cons q qs)
  have "strip_prefix q s = None \<longleftrightarrow> (\<forall>p r. s = p @ r \<longrightarrow> map of_char p \<noteq> q)"
    using strip_prefix_iff [of q s] by (metis not_Some_eq)
  with Cons show ?case by (auto split: option.splits)
qed simp

lemma strip_one_length:
  "strip_one qs s = Some r \<Longrightarrow> [] \<notin> set qs \<Longrightarrow> length r < length s"
proof (induction qs)
  case (Cons q qs)
  then show ?case using strip_prefix_length [of q s r] by (cases q) (auto split: option.splits)
qed simp

lemma trim_left_done: "[] \<notin> set qs \<Longrightarrow> strip_one qs (trim_left qs s) = None"
proof (induction qs s rule: trim_left.induct)
  case (1 qs s)
  then show ?case
    by (cases "strip_one qs s") (auto simp: trim_left.simps [of qs s] dest: strip_one_length)
qed

lemma trim_left_suffix: "\<exists>p. s = p @ trim_left qs s"
proof (induction qs s rule: trim_left.induct)
  case (1 qs s)
  show ?case
  proof (cases "strip_one qs s")
    case None
    then show ?thesis by (simp add: trim_left.simps [of qs s])
  next
    case (Some r)
    have suf: "\<exists>p. s = p @ r" using Some
      by (induction qs) (auto simp: strip_prefix_iff split: option.splits)
    show ?thesis
    proof (cases "length r < length s")
      case True
      from 1 [OF Some True] suf show ?thesis using Some True
        by (auto simp: trim_left.simps [of qs s]) (metis append_assoc)
    next
      case False
      with Some show ?thesis by (simp add: trim_left.simps [of qs s])
    qed
  qed
qed

lemma strip_one_prefix: "strip_one qs (s @ t) = None \<Longrightarrow> strip_one qs s = None"
  unfolding strip_one_None_iff by (metis append_assoc)

lemma TrimSpace_idem [simp]: "TrimSpace (TrimSpace s) = TrimSpace s"
proof -
  let ?l = "trim_left space_seqs s" and ?R = "map rev space_seqs"
  let ?t = "TrimSpace s"
  have ne: "[] \<notin> set space_seqs" "[] \<notin> set ?R" by (auto simp: space_seqs_def)
  have rt: "rev ?t = trim_left ?R (rev ?l)" by (simp add: TrimSpace_def)
  obtain p where "rev ?l = p @ rev ?t" using trim_left_suffix [of "rev ?l" ?R] rt by auto
  then have "?l = ?t @ rev p" by (metis rev_append rev_rev_ident)
  then have "strip_one space_seqs ?t = None"
    using strip_one_prefix trim_left_done [OF ne(1), of s] by metis
  then have "trim_left space_seqs ?t = ?t" by (rule trim_left_id)
  moreover have "trim_left ?R (rev ?t) = rev ?t"
    using trim_left_done [OF ne(2), of "rev ?l"] rt by (simp add: trim_left_id)
  ultimately show ?thesis by (simp add: TrimSpace_def [of ?t])
qed

text \<open>Printable ASCII is never trimmed.\<close>

definition printable :: "char \<Rightarrow> bool" where
  "printable c \<longleftrightarrow> 33 \<le> (of_char c :: nat) \<and> (of_char c :: nat) \<le> 126"

lemma trim_left_printable:
  assumes "\<forall>q \<in> set qs. q \<noteq> [] \<and> \<not> (33 \<le> hd q \<and> hd q \<le> 126)" and "\<forall>c \<in> set s. printable c"
  shows "trim_left qs s = s"
proof (cases s)
  case (Cons c t)
  have "strip_one qs (c # t) = None"
  proof (rule strip_one_None, rule ballI)
    fix q assume q: "q \<in> set qs"
    then obtain b bs where b: "q = b # bs" using assms(1) by (auto simp: neq_Nil_conv)
    with q assms(1) have "\<not> (33 \<le> b \<and> b \<le> 126)" by fastforce
    moreover have "33 \<le> (of_char c :: nat)" "(of_char c :: nat) \<le> 126"
      using assms(2) Cons by (auto simp: printable_def)
    ultimately show "\<exists>b bs. q = b # bs \<and> of_char c \<noteq> b" using b by metis
  qed
  with Cons show ?thesis by (simp add: trim_left_id)
qed simp

lemma TrimSpace_printable:
  assumes "\<forall>c \<in> set s. printable c"
  shows "TrimSpace s = s"
proof -
  have "\<forall>q \<in> set space_seqs. q \<noteq> [] \<and> \<not> (33 \<le> hd q \<and> hd q \<le> 126)"
    "\<forall>q \<in> set (map rev space_seqs). q \<noteq> [] \<and> \<not> (33 \<le> hd q \<and> hd q \<le> 126)"
    by (simp_all add: space_seqs_def)
  note trim = trim_left_printable [OF this(1)] trim_left_printable [OF this(2)]
  show ?thesis using assms by (simp add: TrimSpace_def trim)
qed

text \<open>Evaluation looks for white space only in strings that may have some.\<close>

lemma printable_code [code]: "printable c \<longleftrightarrow> 33 \<le> (of_char c :: int) \<and> (of_char c :: int) \<le> 126"
proof -
  have "(of_char c :: int) = int (of_char c :: nat)" by (simp add: of_char_def)
  then show ?thesis by (simp add: printable_def)
qed

lemma TrimSpace_code [code]:
  "TrimSpace s = (if list_all printable s then s
     else rev (trim_left (map rev space_seqs) (rev (trim_left space_seqs s))))"
  using TrimSpace_printable [of s] by (auto simp: list_all_iff TrimSpace_def)

section \<open>Decimal numbers\<close>

text \<open>\<^verbatim>\<open>strconv.Itoa\<close> of a number that is not negative, and of any integer.\<close>

fun Itoa :: "nat \<Rightarrow> string" where
  "Itoa n = (if n < 10 then [char_of (48 + n)] else Itoa (n div 10) @ [char_of (48 + n mod 10)])"

declare Itoa.simps [simp del]

definition FormatInt :: "int \<Rightarrow> string" where
  "FormatInt v = (if v < 0 then CHR ''-'' # Itoa (nat (- v)) else Itoa (nat v))"

definition un_Itoa :: "string \<Rightarrow> nat" where
  "un_Itoa s = foldl (\<lambda>a c. 10 * a + (of_char c - 48)) 0 s"

lemma un_Itoa_Itoa: "un_Itoa (Itoa n) = n"
proof (induction n rule: Itoa.induct)
  case (1 n)
  show ?case
  proof (cases "n < 10")
    case True
    then show ?thesis by (simp add: Itoa.simps un_Itoa_def)
  next
    case False
    with 1 have "un_Itoa (Itoa (n div 10)) = n div 10" by simp
    with False show ?thesis by (subst Itoa.simps) (simp add: un_Itoa_def)
  qed
qed

lemma Itoa_inj: "Itoa n = Itoa m \<Longrightarrow> n = m"
  by (metis un_Itoa_Itoa)

lemma Itoa_digits: "c \<in> set (Itoa n) \<Longrightarrow> 48 \<le> (of_char c :: nat) \<and> (of_char c :: nat) < 58"
proof (induction n rule: Itoa.induct)
  case (1 n)
  then show ?case by (cases "n < 10") (auto simp: Itoa.simps [of n])
qed

lemma TrimSpace_Itoa: "TrimSpace (Itoa n) = Itoa n"
  by (rule TrimSpace_printable) (use Itoa_digits in \<open>fastforce simp: printable_def\<close>)

end
