(* ===== verification/Store_Interfaces.thy ===== *)
theory Store_Interfaces
  imports Prelude
begin

text \<open>
  The interfaces between the components and the store below them.

  A SQLite table with a primary key is an association list with distinct keys; \<open>tget\<close>,
  \<open>tput\<close>, \<open>tinsert_ignore\<close> and \<open>tupdate_where\<close> are the statements the code issues on
  one row (\<^verbatim>\<open>SELECT ... WHERE key=?\<close>, an upsert, \<^verbatim>\<open>INSERT OR IGNORE\<close> and
  \<^verbatim>\<open>UPDATE ... WHERE key=? AND ...\<close> with its number of affected rows). The locale
  \<open>keyed_table\<close> states what a client may rely on, and is interpreted on these definitions.

  \<open>versioned_store\<close> is the contract of optimistic concurrency that five components of the
  code implement: a write names the version it read, and is refused unless that is still the
  current one. Its lemmas say that concurrent writers never overwrite each other, whatever the
  order in which the serialised transactions run.

  \<open>guarded_system\<close> is the induction over reachable states that the component invariants use.
\<close>

section \<open>Tables\<close>

type_synonym ('k, 'v) table = "('k \<times> 'v) list"

definition table_ok :: "('k, 'v) table \<Rightarrow> bool" where
  "table_ok t \<longleftrightarrow> distinct (map fst t)"

definition tget :: "('k, 'v) table \<Rightarrow> 'k \<Rightarrow> 'v option" where
  "tget t k = map_of t k"

definition tput :: "'k \<Rightarrow> 'v \<Rightarrow> ('k, 'v) table \<Rightarrow> ('k, 'v) table" where
  "tput k v t = AList.update k v t"

definition tdelete :: "'k \<Rightarrow> ('k, 'v) table \<Rightarrow> ('k, 'v) table" where
  "tdelete k t = filter (\<lambda>row. fst row \<noteq> k) t"

definition trows :: "('k, 'v) table \<Rightarrow> 'v list" where
  "trows t = map snd t"

text \<open>\<^verbatim>\<open>INSERT OR IGNORE\<close> on the primary key and on one more uniqueness constraint.\<close>

definition tinsert_ignore ::
  "('v \<Rightarrow> bool) \<Rightarrow> 'k \<Rightarrow> 'v \<Rightarrow> ('k, 'v) table \<Rightarrow> nat \<times> ('k, 'v) table" where
  "tinsert_ignore clash k v t =
     (if tget t k \<noteq> None \<or> (\<exists>row \<in> set (trows t). clash row) then (0, t) else (1, tput k v t))"

text \<open>\<^verbatim>\<open>UPDATE ... WHERE key=k AND cond\<close> with the number of rows it changed.\<close>

definition tupdate_where ::
  "'k \<Rightarrow> ('v \<Rightarrow> bool) \<Rightarrow> 'v \<Rightarrow> ('k, 'v) table \<Rightarrow> nat \<times> ('k, 'v) table" where
  "tupdate_where k cond v t =
     (case tget t k of
        None \<Rightarrow> (0, t)
      | Some old \<Rightarrow> if cond old then (1, tput k v t) else (0, t))"

lemma tget_tput [simp, store_simps]:
  "tget (tput k v t) k' = (if k' = k then Some v else tget t k')"
  by (simp add: tget_def tput_def update_conv')

lemma tget_tdelete [simp, store_simps]:
  "tget (tdelete k t) k' = (if k' = k then None else tget t k')"
  by (induction t) (auto simp: tget_def tdelete_def)

lemma table_ok_tput [simp, inv_intros]: "table_ok t \<Longrightarrow> table_ok (tput k v t)"
  by (simp add: table_ok_def tput_def distinct_update)

lemma table_ok_tdelete [simp, inv_intros]: "table_ok t \<Longrightarrow> table_ok (tdelete k t)"
  by (auto simp: table_ok_def tdelete_def distinct_map inj_on_def)

lemma table_ok_Nil [simp]: "table_ok []"
  by (simp add: table_ok_def)

lemma tget_Nil [simp]: "tget [] k = None"
  by (simp add: tget_def)

lemma tget_Cons: "tget ((k', v) # t) k = (if k = k' then Some v else tget t k)"
  by (simp add: tget_def)

lemma in_set_tget: "table_ok t \<Longrightarrow> (k, v) \<in> set t \<longleftrightarrow> tget t k = Some v"
  by (auto simp: table_ok_def tget_def dest: map_of_SomeD)

lemma tget_in_trows: "tget t k = Some v \<Longrightarrow> v \<in> set (trows t)"
  by (auto simp: tget_def trows_def dest: map_of_SomeD intro!: rev_image_eqI)

lemma trows_tget: "table_ok t \<Longrightarrow> v \<in> set (trows t) \<Longrightarrow> \<exists>k. tget t k = Some v"
  by (auto simp: table_ok_def tget_def trows_def intro: map_of_is_SomeI)

lemma tput_new: "tget t k = None \<Longrightarrow> tput k v t = t @ [(k, v)]"
proof (induction t)
  case (Cons a t)
  then show ?case by (cases a) (auto simp: tput_def tget_def split: if_splits)
qed (simp add: tput_def)

lemma tput_old:
  "tget t k = Some u \<Longrightarrow> \<exists>xs ys. t = xs @ (k, u) # ys \<and> k \<notin> fst ` set xs \<and>
     tput k v t = xs @ (k, v) # ys"
proof (induction t)
  case (Cons a t)
  obtain k' u' where a: "a = (k', u')" by (cases a)
  show ?case
  proof (cases "k' = k")
    case True
    with Cons.prems a have "a # t = [] @ (k, u) # t \<and> k \<notin> fst ` set [] \<and>
        tput k v (a # t) = [] @ (k, v) # t"
      by (simp add: tget_def tput_def)
    then show ?thesis by blast
  next
    case False
    with Cons.prems a have "tget t k = Some u" by (simp add: tget_def)
    from Cons.IH [OF this] obtain xs ys where "t = xs @ (k, u) # ys" and "k \<notin> fst ` set xs"
      and "tput k v t = xs @ (k, v) # ys" by blast
    with False a have "a # t = (a # xs) @ (k, u) # ys \<and> k \<notin> fst ` set (a # xs) \<and>
        tput k v (a # t) = (a # xs) @ (k, v) # ys"
      by (simp add: tput_def)
    then show ?thesis by blast
  qed
qed simp

lemma trows_tput_new: "tget t k = None \<Longrightarrow> trows (tput k v t) = trows t @ [v]"
  by (simp add: tput_new trows_def)

lemma trows_tput_old:
  assumes "tget t k = Some u"
  shows "\<exists>xs ys. trows t = xs @ u # ys \<and> trows (tput k v t) = xs @ v # ys"
proof -
  from tput_old [OF assms, of v] obtain xs ys
    where "t = xs @ (k, u) # ys" and "tput k v t = xs @ (k, v) # ys" by blast
  then have "trows t = map snd xs @ u # map snd ys"
    and "trows (tput k v t) = map snd xs @ v # map snd ys"
    by (simp_all add: trows_def)
  then show ?thesis by blast
qed

lemma set_trows_tput: "set (trows (tput k v t)) \<subseteq> insert v (set (trows t))"
proof (cases "tget t k")
  case None
  then show ?thesis by (simp add: trows_tput_new)
next
  case (Some u)
  then obtain xs ys where "trows t = xs @ u # ys" and "trows (tput k v t) = xs @ v # ys"
    using trows_tput_old by metis
  then show ?thesis by auto
qed

text \<open>A map over the rows keeps the keys.\<close>

lemma tget_map: "tget (map (\<lambda>(k, v). (k, f v)) t) k = map_option f (tget t k)"
  by (induction t) (auto simp: tget_def)

lemma keys_map: "map fst (map (\<lambda>(k, v). (k, f v)) t) = map fst t"
  by (induction t) auto

text \<open>Counting the rows that satisfy a predicate, across an upsert.\<close>

lemma count_rows_tput_new:
  "tget t k = None \<Longrightarrow> length (filter P (trows (tput k v t))) =
     length (filter P (trows t)) + (if P v then 1 else 0)"
  by (simp add: trows_tput_new)

lemma count_rows_tput_old:
  assumes "tget t k = Some u"
  shows "length (filter P (trows (tput k v t))) + (if P u then 1 else 0) =
     length (filter P (trows t)) + (if P v then 1 else 0)"
proof -
  obtain xs ys where "trows t = xs @ u # ys" and "trows (tput k v t) = xs @ v # ys"
    using trows_tput_old [OF assms] by blast
  then show ?thesis by simp
qed

lemma length_filter_mono: "(\<And>x. x \<in> set xs \<Longrightarrow> P x \<Longrightarrow> Q x) \<Longrightarrow>
    length (filter P xs) \<le> length (filter Q xs)"
  by (induction xs) auto

locale keyed_table =
  fixes get :: "'t \<Rightarrow> 'k \<Rightarrow> 'v option"
    and put :: "'k \<Rightarrow> 'v \<Rightarrow> 't \<Rightarrow> 't"
    and del :: "'k \<Rightarrow> 't \<Rightarrow> 't"
    and ok :: "'t \<Rightarrow> bool"
  assumes get_put: "get (put k v t) k' = (if k' = k then Some v else get t k')"
    and get_del: "get (del k t) k' = (if k' = k then None else get t k')"
    and ok_put: "ok t \<Longrightarrow> ok (put k v t)"
    and ok_del: "ok t \<Longrightarrow> ok (del k t)"
begin

lemma put_put: "get (put k v (put k u t)) = get (put k v t)"
  by (rule ext) (simp add: get_put)

lemma put_commute: "k \<noteq> k' \<Longrightarrow> get (put k v (put k' u t)) = get (put k' u (put k v t))"
  by (rule ext) (simp add: get_put)

lemma del_put: "get t k = None \<Longrightarrow> get (del k (put k v t)) = get t"
  by (rule ext) (simp add: get_put get_del)

lemma put_foldr_ok: "ok t \<Longrightarrow> ok (foldr (\<lambda>(k, v). put k v) xs t)"
  by (induction xs) (auto simp: ok_put)

lemma put_foldl_frame:
  "k \<notin> fst ` set xs \<Longrightarrow> get (foldl (\<lambda>t (k, v). put k v t) t xs) k = get t k"
  by (induction xs arbitrary: t) (auto simp: get_put)

end

interpretation tbl: keyed_table tget tput tdelete table_ok
  by unfold_locales simp_all

section \<open>Transactions\<close>

text \<open>
  A unit of work is one SQLite transaction: the caller commits when the operation returned no
  error and rolls back otherwise, so a failed operation leaves the tables as they were.
\<close>

definition in_tx :: "('s \<Rightarrow> ('e + 'a) \<times> 's) \<Rightarrow> 's \<Rightarrow> ('e + 'a) \<times> 's" where
  "in_tx work s =
     (case work s of (Inl e, _) \<Rightarrow> (Inl e, s) | (Inr v, s') \<Rightarrow> (Inr v, s'))"

lemma in_tx_Inl: "in_tx f s = (Inl e, s') \<Longrightarrow> s' = s"
  by (auto simp: in_tx_def split: prod.splits sum.splits)

lemma in_tx_Inr: "in_tx f s = (Inr v, s') \<longleftrightarrow> f s = (Inr v, s')"
  by (auto simp: in_tx_def split: prod.splits sum.splits)

section \<open>Optimistic concurrency\<close>

locale versioned_store =
  fixes inv :: "'s \<Rightarrow> bool"
    and current :: "'s \<Rightarrow> 'k \<Rightarrow> nat"
    and cas :: "'s \<Rightarrow> 'k \<Rightarrow> nat \<Rightarrow> 'r \<Rightarrow> 's option"
  assumes cas_expected: "inv s \<Longrightarrow> cas s k n r = Some s' \<Longrightarrow> current s k = n"
    and cas_advances: "inv s \<Longrightarrow> cas s k n r = Some s' \<Longrightarrow> current s' k = n + 1"
    and cas_frame: "inv s \<Longrightarrow> cas s k n r = Some s' \<Longrightarrow> k' \<noteq> k \<Longrightarrow> current s' k' = current s k'"
    and cas_inv: "inv s \<Longrightarrow> cas s k n r = Some s' \<Longrightarrow> inv s'"
begin

text \<open>
  A schedule is the order in which the writers' transactions are serialised. \<open>run_writes\<close>
  gives the final state, \<open>committed\<close> the writes that went through.
\<close>

fun run_writes :: "'s \<Rightarrow> ('k \<times> nat \<times> 'r) list \<Rightarrow> 's" where
  "run_writes s [] = s"
| "run_writes s ((k, n, r) # ws) =
     (case cas s k n r of None \<Rightarrow> run_writes s ws | Some s' \<Rightarrow> run_writes s' ws)"

fun committed :: "'s \<Rightarrow> ('k \<times> nat \<times> 'r) list \<Rightarrow> ('k \<times> nat) list" where
  "committed s [] = []"
| "committed s ((k, n, r) # ws) =
     (case cas s k n r of
        None \<Rightarrow> committed s ws
      | Some s' \<Rightarrow> (k, n) # committed s' ws)"

lemma no_lost_update: "inv s \<Longrightarrow> cas s k n r = Some s' \<Longrightarrow> cas s' k n r' = None"
proof (rule ccontr)
  assume inv: "inv s" and c: "cas s k n r = Some s'" and "cas s' k n r' \<noteq> None"
  then obtain s'' where c': "cas s' k n r' = Some s''" by auto
  from cas_expected [OF cas_inv [OF inv c] c'] cas_advances [OF inv c] show False by simp
qed

lemma committed_bounds:
  "inv s \<Longrightarrow> (k, n) \<in> set (committed s ws) \<Longrightarrow>
     current s k \<le> n \<and> n < current (run_writes s ws) k"
proof (induction ws arbitrary: s)
  case (Cons w ws)
  obtain k' n' r where w: "w = (k', n', r)" by (cases w)
  show ?case
  proof (cases "cas s k' n' r")
    case None
    with Cons w show ?thesis by simp
  next
    case (Some s')
    have inv': "inv s'" using Cons.prems(1) Some by (rule cas_inv)
    have mono: "current s' k \<le> current (run_writes s' ws) k" for k
      using inv'
    proof (induction ws arbitrary: s')
      case (Cons v vs)
      obtain k2 n2 r2 where v: "v = (k2, n2, r2)" by (cases v)
      show ?case
      proof (cases "cas s' k2 n2 r2")
        case None
        with Cons v show ?thesis by simp
      next
        case (Some t)
        from Cons.prems Some have "inv t" by (rule cas_inv)
        then have "current t k \<le> current (run_writes t vs) k" by (rule Cons.IH)
        moreover have "current s' k \<le> current t k"
          using cas_expected [OF Cons.prems Some] cas_advances [OF Cons.prems Some]
            cas_frame [OF Cons.prems Some] by (cases "k = k2") auto
        ultimately show ?thesis using v Some by simp
      qed
    qed simp
    from Cons.prems w Some consider "k = k'" "n = n'" | "(k, n) \<in> set (committed s' ws)"
      by auto
    then show ?thesis
    proof cases
      case 1
      with cas_expected [OF Cons.prems(1) Some] cas_advances [OF Cons.prems(1) Some] mono [of k]
      show ?thesis using w Some by simp
    next
      case 2
      from Cons.IH [OF inv' 2] have "current s' k \<le> n" "n < current (run_writes s' ws) k"
        by auto
      moreover have "current s k \<le> current s' k"
        using cas_expected [OF Cons.prems(1) Some] cas_advances [OF Cons.prems(1) Some]
          cas_frame [OF Cons.prems(1) Some] by (cases "k = k'") auto
      ultimately show ?thesis using w Some by simp
    qed
  qed
qed simp

text \<open>
  Under every schedule each version of each key is written at most once: of all the writers
  that read version \<open>n\<close>, exactly one wins.
\<close>

lemma committed_distinct: "inv s \<Longrightarrow> distinct (committed s ws)"
proof (induction ws arbitrary: s)
  case (Cons w ws)
  obtain k n r where w: "w = (k, n, r)" by (cases w)
  show ?case
  proof (cases "cas s k n r")
    case None
    with Cons w show ?thesis by simp
  next
    case (Some s')
    have inv': "inv s'" using Cons.prems Some by (rule cas_inv)
    have "(k, n) \<notin> set (committed s' ws)"
      using committed_bounds [OF inv', of k n ws] cas_advances [OF Cons.prems Some] by auto
    with Cons.IH [OF inv'] w Some show ?thesis by simp
  qed
qed simp

lemma run_writes_inv: "inv s \<Longrightarrow> inv (run_writes s ws)"
proof (induction ws arbitrary: s)
  case (Cons w ws)
  obtain k n r where "w = (k, n, r)" by (cases w)
  with Cons show ?case by (auto split: option.splits dest: cas_inv)
qed simp

text \<open>The version of a key counts the writes that were committed on it.\<close>

lemma version_counts_commits:
  "inv s \<Longrightarrow> current (run_writes s ws) k =
     current s k + length (filter (\<lambda>w. fst w = k) (committed s ws))"
proof (induction ws arbitrary: s)
  case (Cons w ws)
  obtain k' n r where w: "w = (k', n, r)" by (cases w)
  show ?case
  proof (cases "cas s k' n r")
    case None
    with Cons w show ?thesis by simp
  next
    case (Some s')
    from Cons.IH [OF cas_inv [OF Cons.prems Some]] w Some
      cas_expected [OF Cons.prems Some] cas_advances [OF Cons.prems Some]
      cas_frame [OF Cons.prems Some]
    show ?thesis by (cases "k = k'") auto
  qed
qed simp

end

section \<open>Reachable states\<close>

locale guarded_system =
  fixes init :: "'s \<Rightarrow> bool"
    and step :: "'s \<Rightarrow> 'e \<Rightarrow> 's"
    and inv :: "'s \<Rightarrow> bool"
  assumes inv_init: "init s \<Longrightarrow> inv s"
    and inv_step: "inv s \<Longrightarrow> inv (step s e)"
begin

definition run_events :: "'s \<Rightarrow> 'e list \<Rightarrow> 's" where
  "run_events s es = foldl step s es"

lemma inv_run_events: "inv s \<Longrightarrow> inv (run_events s es)"
  by (induction es arbitrary: s) (auto simp: run_events_def inv_step)

lemma reachable_inv: "init s \<Longrightarrow> inv (run_events s es)"
  by (blast intro: inv_init inv_run_events)

end

end
