(* ===== verification/Admission.thy ===== *)
theory Admission
  imports Store_Interfaces "HOL-Library.Multiset"
begin

text \<open>
  Admission reservations: \<^verbatim>\<open>internal/agentruntime/admission.go\<close> (the records) and the
  first half of \<^verbatim>\<open>internal/store/sqlite/stores_control_plane.go\<close> (the operations).

  The table \<^verbatim>\<open>admission_reservations\<close> maps a reservation's id to the reservation; the
  columns the queries filter and order by are written from the same record as the
  \<^verbatim>\<open>data\<close> blob, so a row is the record. Credits are \<^verbatim>\<open>int64\<close>: the sums
  of \<open>admissionUsage\<close> and \<open>evaluateAdmission\<close> wrap.
\<close>

section \<open>Data\<close>

datatype admission_state =
    AdmissionReserved
  | AdmissionActive
  | AdmissionSuspended
  | AdmissionSettled
  | AdmissionReleased
  | AdmissionExpired
  | AdmissionStateOther string

datatype admission_denial =
    AdmissionDeniedNone
  | AdmissionDeniedConcurrency
  | AdmissionDeniedRunWindow
  | AdmissionDeniedCredits
  | AdmissionDeniedFailureBreaker
  | AdmissionDeniedVersionConflict

record admission_limits =
  lim_Window :: duration
  lim_MaxConcurrentRuns :: int
  lim_MaxRunsPerWindow :: int
  lim_MaxCredits :: int
  lim_PauseOnExcessFailures :: int

record admission_reservation =
  res_ID :: string
  res_AgentID :: string
  res_AgentVersion :: string
  res_RunID :: string
  res_State :: admission_state
  res_Limits :: admission_limits
  res_ReservedCredits :: int
  res_ConsumedCredits :: int
  res_Failed :: bool
  res_Version :: nat
  res_CreatedAt :: time
  res_UpdatedAt :: time
  res_ActivatedAt :: time
  res_SettledAt :: time
  res_ExpiresAt :: time

record admission_request =
  areq_ReservationID :: string
  areq_AgentID :: string
  areq_AgentVersion :: string
  areq_RunID :: string
  areq_Limits :: admission_limits
  areq_ReservedCredits :: int
  areq_RequestedAt :: time
  areq_ExpiresAt :: time

record admission_usage =
  use_ConcurrentRuns :: int
  use_RunsInWindow :: int
  use_ReservedCredits :: int
  use_CommittedCredits :: int
  use_TrailingFailures :: int

record admission_decision =
  dec_Allowed :: bool
  dec_Reason :: admission_denial
  dec_Usage :: admission_usage
  dec_Reservation :: "admission_reservation option"

record admission_transition =
  atr_ReservationID :: string
  atr_ExpectedVersion :: nat
  atr_To :: admission_state
  atr_At :: time
  atr_ExpiresAt :: time
  atr_ConsumedCredits :: int
  atr_Failed :: bool

record admission_selector =
  asel_AgentIDs :: "string list"
  asel_RunIDs :: "string list"
  asel_States :: "admission_state list"
  asel_Since :: time
  asel_ExpiresBefore :: time
  asel_Limit :: int

type_synonym admission_table = "(string, admission_reservation) table"

definition zero_usage :: admission_usage where
  "zero_usage = \<lparr>use_ConcurrentRuns = 0, use_RunsInWindow = 0, use_ReservedCredits = 0,
     use_CommittedCredits = 0, use_TrailingFailures = 0\<rparr>"

section \<open>Validation\<close>

definition validateAdmissionRequest :: "admission_request \<Rightarrow> error option" where
  "validateAdmissionRequest request =
     (if areq_ReservationID request = [] \<or> areq_AgentID request = [] \<or> areq_RunID request = []
      then Some ErrInvalidCommand
      else if IsZero (areq_RequestedAt request) \<or>
              \<not> areq_ExpiresAt request > areq_RequestedAt request
      then Some ErrInvalidCommand
      else if areq_ReservedCredits request < 0 \<or>
              lim_MaxConcurrentRuns (areq_Limits request) < 0 \<or>
              lim_MaxRunsPerWindow (areq_Limits request) < 0 \<or>
              lim_MaxCredits (areq_Limits request) < 0 \<or>
              lim_PauseOnExcessFailures (areq_Limits request) < 0
      then Some ErrInvalidCommand
      else let usesWindow = lim_MaxRunsPerWindow (areq_Limits request) > 0 \<or>
             lim_MaxCredits (areq_Limits request) > 0 \<or>
             lim_PauseOnExcessFailures (areq_Limits request) > 0
        in if usesWindow \<and> lim_Window (areq_Limits request) \<le> 0
           then Some ErrInvalidCommand
           else None)"

fun validAdmissionTransition :: "admission_state \<Rightarrow> admission_state \<Rightarrow> bool" where
  "validAdmissionTransition AdmissionReserved to =
     (to = AdmissionActive \<or> to = AdmissionReleased \<or> to = AdmissionExpired)"
| "validAdmissionTransition AdmissionActive to =
     (to = AdmissionSuspended \<or> to = AdmissionSettled \<or> to = AdmissionReleased \<or>
      to = AdmissionExpired)"
| "validAdmissionTransition AdmissionSuspended to =
     (to = AdmissionActive \<or> to = AdmissionSettled \<or> to = AdmissionReleased \<or>
      to = AdmissionExpired)"
| "validAdmissionTransition _ to = False"

definition validateAdmissionTransition ::
  "admission_reservation \<Rightarrow> admission_transition \<Rightarrow> error option" where
  "validateAdmissionTransition reservation transition =
     (if IsZero (atr_At transition) \<or> atr_At transition < res_UpdatedAt reservation
      then Some ErrInvalidTransition
      else if atr_ConsumedCredits transition < 0
      then Some ErrInvalidTransition
      else if \<not> IsZero (atr_ExpiresAt transition) \<and>
              \<not> atr_ExpiresAt transition > atr_At transition
      then Some ErrInvalidTransition
      else if \<not> validAdmissionTransition (res_State reservation) (atr_To transition)
      then Some ErrInvalidTransition
      else if \<not> res_ExpiresAt reservation > atr_At transition \<and>
              atr_To transition \<noteq> AdmissionExpired \<and> atr_To transition \<noteq> AdmissionSettled
      then Some ErrInvalidTransition
      else if atr_To transition \<noteq> AdmissionSettled \<and>
              (atr_ConsumedCredits transition \<noteq> 0 \<or> atr_Failed transition)
      then Some ErrInvalidTransition
      else None)"

section \<open>Aggregate usage\<close>

text \<open>One iteration of the loop over the agent's reservations.\<close>

definition usage_step ::
  "string \<Rightarrow> admission_limits \<Rightarrow> time \<Rightarrow> string \<Rightarrow>
   admission_usage \<times> admission_reservation list \<Rightarrow> admission_reservation \<Rightarrow>
   admission_usage \<times> admission_reservation list" where
  "usage_step agentID limits now excludeID = (\<lambda>(usage, settled) reservation.
     if res_ID reservation = excludeID \<or> res_AgentID reservation \<noteq> agentID \<or>
        res_State reservation = AdmissionReleased \<or> res_State reservation = AdmissionExpired
     then (usage, settled)
     else
       let expired = \<not> res_ExpiresAt reservation > now \<and>
             res_State reservation \<noteq> AdmissionSettled;
           usage1 = (if \<not> expired \<and> (res_State reservation = AdmissionReserved \<or>
                          res_State reservation = AdmissionActive)
                     then usage\<lparr>use_ConcurrentRuns := use_ConcurrentRuns usage + 1\<rparr>
                     else usage)
       in if lim_Window limits \<le> 0 \<or> res_CreatedAt reservation < now - lim_Window limits
          then (usage1, settled)
          else
            let usage2 = usage1\<lparr>use_RunsInWindow := use_RunsInWindow usage1 + 1\<rparr>
            in case res_State reservation of
                 AdmissionReserved \<Rightarrow>
                   (if \<not> expired
                    then usage2\<lparr>use_ReservedCredits := s64_wrap (use_ReservedCredits usage2 +
                           res_ReservedCredits reservation)\<rparr>
                    else usage2, settled)
               | AdmissionActive \<Rightarrow>
                   (if \<not> expired
                    then usage2\<lparr>use_ReservedCredits := s64_wrap (use_ReservedCredits usage2 +
                           res_ReservedCredits reservation)\<rparr>
                    else usage2, settled)
               | AdmissionSuspended \<Rightarrow>
                   (if \<not> expired
                    then usage2\<lparr>use_ReservedCredits := s64_wrap (use_ReservedCredits usage2 +
                           res_ReservedCredits reservation)\<rparr>
                    else usage2, settled)
               | AdmissionSettled \<Rightarrow>
                   (usage2\<lparr>use_CommittedCredits := s64_wrap (use_CommittedCredits usage2 +
                      res_ConsumedCredits reservation)\<rparr>, settled @ [reservation])
               | _ \<Rightarrow> (usage2, settled))"

definition admissionUsage ::
  "admission_reservation list \<Rightarrow> string \<Rightarrow> admission_limits \<Rightarrow> time \<Rightarrow> string \<Rightarrow>
   admission_usage" where
  "admissionUsage reservations agentID limits now excludeID =
     (let (usage, settled) =
            foldl (usage_step agentID limits now excludeID) (zero_usage, []) reservations;
          newest_first = rev (sort_key (\<lambda>r. (res_SettledAt r, res_ID r)) settled)
      in usage\<lparr>use_TrailingFailures := int (length (takeWhile res_Failed newest_first))\<rparr>)"

definition denied :: "admission_denial \<Rightarrow> admission_usage \<Rightarrow> admission_decision" where
  "denied reason usage =
     \<lparr>dec_Allowed = False, dec_Reason = reason, dec_Usage = usage, dec_Reservation = None\<rparr>"

definition evaluateAdmission ::
  "admission_reservation list \<Rightarrow> admission_request \<Rightarrow> string \<Rightarrow> admission_decision" where
  "evaluateAdmission reservations request excludeID =
     (let limits = areq_Limits request;
          usage = admissionUsage reservations (areq_AgentID request) limits
                    (areq_RequestedAt request) excludeID
      in if lim_MaxConcurrentRuns limits > 0 \<and>
            use_ConcurrentRuns usage + 1 > lim_MaxConcurrentRuns limits
         then denied AdmissionDeniedConcurrency usage
         else if lim_MaxRunsPerWindow limits > 0 \<and>
            use_RunsInWindow usage + 1 > lim_MaxRunsPerWindow limits
         then denied AdmissionDeniedRunWindow usage
         else if lim_MaxCredits limits > 0 \<and>
            s64_wrap (s64_wrap (use_CommittedCredits usage + use_ReservedCredits usage) +
              areq_ReservedCredits request) > lim_MaxCredits limits
         then denied AdmissionDeniedCredits usage
         else if lim_PauseOnExcessFailures limits > 0 \<and>
            use_TrailingFailures usage \<ge> lim_PauseOnExcessFailures limits
         then denied AdmissionDeniedFailureBreaker usage
         else \<lparr>dec_Allowed = True, dec_Reason = AdmissionDeniedNone, dec_Usage = usage,
                dec_Reservation = None\<rparr>)"

definition admissionRequestMatches :: "admission_reservation \<Rightarrow> admission_request \<Rightarrow> bool" where
  "admissionRequestMatches reservation request \<longleftrightarrow>
     res_ID reservation = areq_ReservationID request \<and>
     res_AgentID reservation = areq_AgentID request \<and>
     res_AgentVersion reservation = areq_AgentVersion request \<and>
     res_RunID reservation = areq_RunID request \<and>
     res_Limits reservation = areq_Limits request \<and>
     res_ReservedCredits reservation = areq_ReservedCredits request"

definition matchesAdmissionSelector ::
  "admission_reservation \<Rightarrow> admission_selector \<Rightarrow> bool" where
  "matchesAdmissionSelector reservation selector \<longleftrightarrow>
     (asel_AgentIDs selector = [] \<or> contains (asel_AgentIDs selector) (res_AgentID reservation)) \<and>
     (asel_RunIDs selector = [] \<or> contains (asel_RunIDs selector) (res_RunID reservation)) \<and>
     (asel_States selector = [] \<or> contains (asel_States selector) (res_State reservation)) \<and>
     (IsZero (asel_Since selector) \<or> \<not> res_CreatedAt reservation < asel_Since selector) \<and>
     (IsZero (asel_ExpiresBefore selector) \<or>
      \<not> res_ExpiresAt reservation > asel_ExpiresBefore selector)"

section \<open>Operations\<close>

definition LoadAdmissionReservation ::
  "admission_table \<Rightarrow> string \<Rightarrow> error + admission_reservation" where
  "LoadAdmissionReservation t rid =
     (case tget t rid of None \<Rightarrow> Inl ErrNotFound | Some r \<Rightarrow> Inr r)"

definition admissionReservationsForAgent ::
  "admission_table \<Rightarrow> string \<Rightarrow> admission_reservation list" where
  "admissionReservationsForAgent t agentID =
     sort_key (\<lambda>r. (nanos (res_CreatedAt r), res_ID r))
       (filter (\<lambda>r. res_AgentID r = agentID) (trows t))"

definition ListAdmissionReservations ::
  "admission_table \<Rightarrow> admission_selector \<Rightarrow> admission_reservation list" where
  "ListAdmissionReservations t selector =
     limit (sort_key (\<lambda>r. (res_CreatedAt r, res_ID r))
              (filter (\<lambda>r. matchesAdmissionSelector r selector) (trows t)))
           (asel_Limit selector)"

definition PreviewAdmission ::
  "admission_table \<Rightarrow> admission_request \<Rightarrow> error + admission_decision" where
  "PreviewAdmission t request =
     (case validateAdmissionRequest request of
        Some e \<Rightarrow> Inl e
      | None \<Rightarrow> Inr (evaluateAdmission
          (admissionReservationsForAgent t (areq_AgentID request)) request []))"

definition new_reservation :: "admission_request \<Rightarrow> admission_reservation" where
  "new_reservation request =
     \<lparr>res_ID = areq_ReservationID request, res_AgentID = areq_AgentID request,
      res_AgentVersion = areq_AgentVersion request, res_RunID = areq_RunID request,
      res_State = AdmissionReserved, res_Limits = areq_Limits request,
      res_ReservedCredits = areq_ReservedCredits request, res_ConsumedCredits = 0,
      res_Failed = False, res_Version = 1, res_CreatedAt = areq_RequestedAt request,
      res_UpdatedAt = areq_RequestedAt request, res_ActivatedAt = 0, res_SettledAt = 0,
      res_ExpiresAt = areq_ExpiresAt request\<rparr>"

definition same_run :: "admission_request \<Rightarrow> admission_reservation \<Rightarrow> bool" where
  "same_run request r \<longleftrightarrow> res_AgentID r = areq_AgentID request \<and> res_RunID r = areq_RunID request"

definition ReserveAdmission ::
  "admission_table \<Rightarrow> admission_request \<Rightarrow> (error + admission_decision) \<times> admission_table" where
  "ReserveAdmission t request =
     (case validateAdmissionRequest request of
        Some e \<Rightarrow> (Inl e, t)
      | None \<Rightarrow>
        (case LoadAdmissionReservation t (areq_ReservationID request) of
           Inr existing \<Rightarrow>
             (if admissionRequestMatches existing request
              then (Inr \<lparr>dec_Allowed = True, dec_Reason = AdmissionDeniedNone,
                      dec_Usage = zero_usage, dec_Reservation = Some existing\<rparr>, t)
              else (Inl ErrIdempotencyConflict, t))
         | Inl _ \<Rightarrow>
             (case List.find (same_run request) (trows t) of
                Some _ \<Rightarrow> (Inl ErrIdempotencyConflict, t)
              | None \<Rightarrow>
                (let decision = evaluateAdmission
                       (admissionReservationsForAgent t (areq_AgentID request)) request []
                 in if \<not> dec_Allowed decision then (Inr decision, t)
                    else
                      let reservation = new_reservation request;
                          (inserted, t') = tinsert_ignore (same_run request)
                            (res_ID reservation) reservation t
                      in if inserted \<noteq> 1 then (Inl ErrIdempotencyConflict, t')
                         else (Inr (decision\<lparr>dec_Reservation := Some reservation\<rparr>), t')))))"

definition apply_admission_transition ::
  "admission_reservation \<Rightarrow> admission_transition \<Rightarrow> admission_reservation" where
  "apply_admission_transition reservation transition =
     (let r1 = reservation\<lparr>res_State := atr_To transition,
                 res_Version := u64_inc (res_Version reservation),
                 res_UpdatedAt := atr_At transition\<rparr>;
          r2 = (if \<not> IsZero (atr_ExpiresAt transition)
                then r1\<lparr>res_ExpiresAt := atr_ExpiresAt transition\<rparr> else r1)
      in case atr_To transition of
           AdmissionActive \<Rightarrow>
             (if IsZero (res_ActivatedAt r2) then r2\<lparr>res_ActivatedAt := atr_At transition\<rparr> else r2)
         | AdmissionSettled \<Rightarrow>
             r2\<lparr>res_ConsumedCredits := atr_ConsumedCredits transition,
                res_Failed := atr_Failed transition, res_SettledAt := atr_At transition\<rparr>
         | _ \<Rightarrow> r2)"

definition TransitionAdmission ::
  "admission_table \<Rightarrow> admission_transition \<Rightarrow> (error + admission_decision) \<times> admission_table" where
  "TransitionAdmission t transition =
     (case LoadAdmissionReservation t (atr_ReservationID transition) of
        Inl e \<Rightarrow> (Inl e, t)
      | Inr reservation \<Rightarrow>
        (let reservations = admissionReservationsForAgent t (res_AgentID reservation)
         in if res_Version reservation \<noteq> atr_ExpectedVersion transition
            then (Inr (denied AdmissionDeniedVersionConflict
                    (admissionUsage reservations (res_AgentID reservation)
                       (res_Limits reservation) (atr_At transition) [])), t)
            else case validateAdmissionTransition reservation transition of
              Some e \<Rightarrow> (Inl e, t)
            | None \<Rightarrow>
              (let usage = admissionUsage reservations (res_AgentID reservation)
                     (res_Limits reservation) (atr_At transition) (res_ID reservation)
               in if res_State reservation = AdmissionSuspended \<and>
                     atr_To transition = AdmissionActive \<and>
                     lim_MaxConcurrentRuns (res_Limits reservation) > 0 \<and>
                     use_ConcurrentRuns usage + 1 > lim_MaxConcurrentRuns (res_Limits reservation)
                  then (Inr (denied AdmissionDeniedConcurrency usage), t)
                  else
                    let previousVersion = res_Version reservation;
                        updated = apply_admission_transition reservation transition
                    in case int64FromUint64 (res_Version updated) of
                         Inl e \<Rightarrow> (Inl e, t)
                       | Inr _ \<Rightarrow>
                         (case int64FromUint64 previousVersion of
                            Inl e \<Rightarrow> (Inl e, t)
                          | Inr _ \<Rightarrow>
                            (let (changed, t') = tupdate_where (res_ID updated)
                                   (\<lambda>row. res_Version row = previousVersion) updated t
                             in if changed \<noteq> 1
                                then (Inr (denied AdmissionDeniedVersionConflict usage), t')
                                else (Inr \<lparr>dec_Allowed = True, dec_Reason = AdmissionDeniedNone,
                                        dec_Usage = usage, dec_Reservation = Some updated\<rparr>,
                                      t'))))))"

section \<open>What the usage counts\<close>

definition live :: "time \<Rightarrow> admission_reservation \<Rightarrow> bool" where
  "live now r \<longleftrightarrow> (res_State r = AdmissionReserved \<or> res_State r = AdmissionActive) \<and>
     res_ExpiresAt r > now"

definition live_count :: "admission_table \<Rightarrow> string \<Rightarrow> time \<Rightarrow> nat" where
  "live_count t agentID now =
     length (filter (\<lambda>r. res_AgentID r = agentID \<and> live now r) (trows t))"

text \<open>The credits a reservation holds or has spent in the window, without wrap-around.\<close>

definition held_credits :: "admission_limits \<Rightarrow> time \<Rightarrow> admission_reservation \<Rightarrow> int" where
  "held_credits limits now r =
     (if lim_Window limits \<le> 0 \<or> res_CreatedAt r < now - lim_Window limits then 0
      else if res_State r = AdmissionSettled then res_ConsumedCredits r
      else if res_State r \<in> {AdmissionReserved, AdmissionActive, AdmissionSuspended} \<and>
              res_ExpiresAt r > now then res_ReservedCredits r
      else 0)"

definition window_credits :: "admission_table \<Rightarrow> string \<Rightarrow> admission_limits \<Rightarrow> time \<Rightarrow> int" where
  "window_credits t agentID limits now =
     sum_list (map (held_credits limits now)
       (filter (\<lambda>r. res_AgentID r = agentID) (trows t)))"

lemma usage_step_concurrency:
  "use_ConcurrentRuns (fst (usage_step a l n ex us r)) =
     use_ConcurrentRuns (fst us) +
     (if res_ID r \<noteq> ex \<and> res_AgentID r = a \<and> live n r then 1 else 0)"
  by (cases us) (auto simp: usage_step_def live_def Let_def split: admission_state.split)

lemma foldl_concurrency:
  "use_ConcurrentRuns (fst (foldl (usage_step a l n ex) us rs)) =
     use_ConcurrentRuns (fst us) +
     int (length (filter (\<lambda>r. res_ID r \<noteq> ex \<and> res_AgentID r = a \<and> live n r) rs))"
  by (induction rs arbitrary: us) (auto simp: usage_step_concurrency)

lemma admissionUsage_concurrency:
  "use_ConcurrentRuns (admissionUsage rs a l n ex) =
     int (length (filter (\<lambda>r. res_ID r \<noteq> ex \<and> res_AgentID r = a \<and> live n r) rs))"
  using foldl_concurrency [of a l n ex "(zero_usage, [])" rs]
  by (simp add: admissionUsage_def Let_def case_prod_beta zero_usage_def)

lemma usage_step_credits:
  "s64_wrap (use_CommittedCredits (fst (usage_step a l n ex us r)) +
             use_ReservedCredits (fst (usage_step a l n ex us r))) =
   s64_wrap (use_CommittedCredits (fst us) + use_ReservedCredits (fst us) +
     (if res_ID r \<noteq> ex \<and> res_AgentID r = a then held_credits l n r else 0))"
proof -
  have add1: "s64_wrap (s64_wrap (x + y) + z) = s64_wrap (x + z + y)" for x y z
    using s64_wrap_add [of "x + y" z] by (simp only: add.commute add.left_commute)
  have add2: "s64_wrap (z + s64_wrap (x + y)) = s64_wrap (z + x + y)" for x y z
    using s64_wrap_add [of "x + y" z] by (simp only: add.commute add.left_commute)
  show ?thesis
    by (cases us)
       (auto simp: usage_step_def held_credits_def Let_def add1 add2 split: admission_state.split)
qed

lemma foldl_credits:
  "s64_wrap (use_CommittedCredits (fst (foldl (usage_step a l n ex) us rs)) +
             use_ReservedCredits (fst (foldl (usage_step a l n ex) us rs))) =
   s64_wrap (use_CommittedCredits (fst us) + use_ReservedCredits (fst us) +
     sum_list (map (held_credits l n)
       (filter (\<lambda>r. res_ID r \<noteq> ex \<and> res_AgentID r = a) rs)))"
proof (induction rs arbitrary: us)
  case (Cons r rs)
  have "s64_wrap (use_CommittedCredits (fst (foldl (usage_step a l n ex) us (r # rs))) +
             use_ReservedCredits (fst (foldl (usage_step a l n ex) us (r # rs)))) =
    s64_wrap (s64_wrap (use_CommittedCredits (fst (usage_step a l n ex us r)) +
        use_ReservedCredits (fst (usage_step a l n ex us r))) +
      sum_list (map (held_credits l n) (filter (\<lambda>r. res_ID r \<noteq> ex \<and> res_AgentID r = a) rs)))"
    using Cons.IH [of "usage_step a l n ex us r"] by (simp add: s64_wrap_add)
  then show ?case
    unfolding usage_step_credits s64_wrap_add by (simp add: algebra_simps)
qed simp

lemma admissionUsage_credits:
  "s64_wrap (use_CommittedCredits (admissionUsage rs a l n ex) +
             use_ReservedCredits (admissionUsage rs a l n ex)) =
   s64_wrap (sum_list (map (held_credits l n)
     (filter (\<lambda>r. res_ID r \<noteq> ex \<and> res_AgentID r = a) rs)))"
  using foldl_credits [of a l n ex "(zero_usage, [])" rs]
  by (simp add: admissionUsage_def Let_def case_prod_beta zero_usage_def)

text \<open>Sorting and filtering by agent do not change a count over the agent's rows.\<close>

lemma count_sort_key: "length (filter P (sort_key f xs)) = length (filter P xs)"
  by (metis mset_filter mset_sort size_mset)

lemma count_agent_rows:
  "length (filter (\<lambda>q. Q q \<and> res_AgentID q = a \<and> P q) (admissionReservationsForAgent t a)) =
   length (filter (\<lambda>q. Q q \<and> res_AgentID q = a \<and> P q) (trows t))"
  by (simp add: admissionReservationsForAgent_def count_sort_key conj_commute conj_left_commute)

lemma sum_agent_rows:
  "sum_list (map h (filter Q (admissionReservationsForAgent t a))) =
   (sum_list (map h (filter (\<lambda>q. res_AgentID q = a \<and> Q q) (trows t))) :: int)"
proof -
  have "mset (map h (filter Q (admissionReservationsForAgent t a))) =
      mset (map h (filter (\<lambda>q. res_AgentID q = a \<and> Q q) (trows t)))"
    by (simp add: admissionReservationsForAgent_def mset_filter filter_filter_mset conj_commute)
  then show ?thesis by (metis sum_mset_sum_list)
qed

section \<open>The table invariant\<close>

definition admission_ok :: "admission_table \<Rightarrow> bool" where
  "admission_ok t \<longleftrightarrow> table_ok t \<and>
     (\<forall>k r. tget t k = Some r \<longrightarrow> res_ID r = k \<and> k \<noteq> [] \<and> 1 \<le> res_Version r) \<and>
     (\<forall>k k' r r'. tget t k = Some r \<longrightarrow> tget t k' = Some r' \<longrightarrow>
        res_AgentID r = res_AgentID r' \<longrightarrow> res_RunID r = res_RunID r' \<longrightarrow> k = k')"

lemma admission_ok_Nil [simp]: "admission_ok []"
  by (simp add: admission_ok_def)

lemma admission_ok_row: "admission_ok t \<Longrightarrow> r \<in> set (trows t) \<Longrightarrow> tget t (res_ID r) = Some r"
  by (metis admission_ok_def trows_tget)

lemma admission_ok_nonempty: "admission_ok t \<Longrightarrow> r \<in> set (trows t) \<Longrightarrow> res_ID r \<noteq> []"
  by (metis admission_ok_def admission_ok_row)

lemma ReserveAdmission_cases:
  assumes "ReserveAdmission t request = (out, t')"
  shows "t' = t \<or> (tget t (areq_ReservationID request) = None \<and>
     (\<forall>r \<in> set (trows t). \<not> same_run request r) \<and>
     validateAdmissionRequest request = None \<and>
     t' = tput (areq_ReservationID request) (new_reservation request) t \<and>
     dec_Allowed (evaluateAdmission
       (admissionReservationsForAgent t (areq_AgentID request)) request []) \<and>
     out = Inr ((evaluateAdmission
       (admissionReservationsForAgent t (areq_AgentID request)) request [])
         \<lparr>dec_Reservation := Some (new_reservation request)\<rparr>))"
  using assms
  by (auto simp: ReserveAdmission_def LoadAdmissionReservation_def tinsert_ignore_def Let_def
        new_reservation_def find_None_iff split: option.splits if_splits sum.splits)

lemma apply_admission_transition_frame [simp]:
  "res_ID (apply_admission_transition r tr) = res_ID r"
  "res_AgentID (apply_admission_transition r tr) = res_AgentID r"
  "res_RunID (apply_admission_transition r tr) = res_RunID r"
  "res_Limits (apply_admission_transition r tr) = res_Limits r"
  "res_State (apply_admission_transition r tr) = atr_To tr"
  "res_Version (apply_admission_transition r tr) = u64_inc (res_Version r)"
  "res_ExpiresAt (apply_admission_transition r tr) =
     (if IsZero (atr_ExpiresAt tr) then res_ExpiresAt r else atr_ExpiresAt tr)"
  by (auto simp: apply_admission_transition_def Let_def split: admission_state.split)

lemma TransitionAdmission_cases:
  assumes "TransitionAdmission t tr = (out, t')"
  shows "(t' = t \<and> (\<forall>d. out = Inr d \<longrightarrow> \<not> dec_Allowed d)) \<or>
    (\<exists>r u. tget t (atr_ReservationID tr) = Some r \<and> res_Version r = atr_ExpectedVersion tr \<and>
       validateAdmissionTransition r tr = None \<and> res_Version r < 2 ^ 63 \<and>
       (res_ID r = atr_ReservationID tr \<longrightarrow>
          t' = tput (atr_ReservationID tr) (apply_admission_transition r tr) t) \<and>
       u = admissionUsage (admissionReservationsForAgent t (res_AgentID r)) (res_AgentID r)
             (res_Limits r) (atr_At tr) (res_ID r) \<and>
       \<not> (res_State r = AdmissionSuspended \<and> atr_To tr = AdmissionActive \<and>
           lim_MaxConcurrentRuns (res_Limits r) > 0 \<and>
           use_ConcurrentRuns u + 1 > lim_MaxConcurrentRuns (res_Limits r)) \<and>
       out = Inr \<lparr>dec_Allowed = True, dec_Reason = AdmissionDeniedNone, dec_Usage = u,
              dec_Reservation = Some (apply_admission_transition r tr)\<rparr>)"
proof (cases "tget t (atr_ReservationID tr)")
  case None
  with assms show ?thesis by (auto simp: TransitionAdmission_def LoadAdmissionReservation_def)
next
  case (Some r)
  with assms show ?thesis
    by (auto simp: TransitionAdmission_def LoadAdmissionReservation_def Let_def tupdate_where_def
          int64FromUint64_def denied_def split: option.splits if_splits sum.splits)
qed

section \<open>Operations keep the table well formed\<close>

lemma ReserveAdmission_ok [inv_intros]:
  assumes "admission_ok t" and "ReserveAdmission t request = (out, t')"
  shows "admission_ok t'"
proof (cases "t' = t")
  case False
  with ReserveAdmission_cases [OF assms(2)]
  have fresh: "tget t (areq_ReservationID request) = None"
    and other: "\<forall>r \<in> set (trows t). \<not> same_run request r"
    and valid: "validateAdmissionRequest request = None"
    and t': "t' = tput (areq_ReservationID request) (new_reservation request) t"
    by auto
  from valid have "areq_ReservationID request \<noteq> []"
    by (auto simp: validateAdmissionRequest_def split: if_splits)
  moreover have "\<forall>k r. tget t k = Some r \<longrightarrow> \<not> same_run request r"
    using other by (blast dest: tget_in_trows)
  ultimately show ?thesis
    using assms(1) fresh unfolding admission_ok_def t'
    by (simp add: new_reservation_def same_run_def) metis
qed (use assms in simp)

lemma TransitionAdmission_update:
  assumes "admission_ok t" and "TransitionAdmission t tr = (out, t')"
  obtains (same) "t' = t" "\<And>d. out = Inr d \<Longrightarrow> \<not> dec_Allowed d"
  | (updated) r u where "tget t (atr_ReservationID tr) = Some r"
      "res_ID r = atr_ReservationID tr"
      "res_Version r = atr_ExpectedVersion tr" "validateAdmissionTransition r tr = None"
      "t' = tput (atr_ReservationID tr) (apply_admission_transition r tr) t"
      "res_Version (apply_admission_transition r tr) = res_Version r + 1"
      "use_ConcurrentRuns u =
         int (length (filter (\<lambda>q. res_ID q \<noteq> res_ID r \<and> res_AgentID q = res_AgentID r \<and>
           live (atr_At tr) q) (trows t)))"
      "res_State r = AdmissionSuspended \<Longrightarrow> atr_To tr = AdmissionActive \<Longrightarrow>
         lim_MaxConcurrentRuns (res_Limits r) > 0 \<Longrightarrow>
         use_ConcurrentRuns u + 1 \<le> lim_MaxConcurrentRuns (res_Limits r)"
      "out = Inr \<lparr>dec_Allowed = True, dec_Reason = AdmissionDeniedNone, dec_Usage = u,
              dec_Reservation = Some (apply_admission_transition r tr)\<rparr>"
proof -
  from TransitionAdmission_cases [OF assms(2)] consider
    (1) "t' = t" "\<forall>d. out = Inr d \<longrightarrow> \<not> dec_Allowed d"
  | (2) r u where "tget t (atr_ReservationID tr) = Some r"
      "res_Version r = atr_ExpectedVersion tr"
      "validateAdmissionTransition r tr = None" "res_Version r < 2 ^ 63"
      "res_ID r = atr_ReservationID tr \<longrightarrow>
          t' = tput (atr_ReservationID tr) (apply_admission_transition r tr) t"
      "u = admissionUsage (admissionReservationsForAgent t (res_AgentID r)) (res_AgentID r)
             (res_Limits r) (atr_At tr) (res_ID r)"
      "\<not> (res_State r = AdmissionSuspended \<and> atr_To tr = AdmissionActive \<and>
           lim_MaxConcurrentRuns (res_Limits r) > 0 \<and>
           use_ConcurrentRuns u + 1 > lim_MaxConcurrentRuns (res_Limits r))"
      "out = Inr \<lparr>dec_Allowed = True, dec_Reason = AdmissionDeniedNone, dec_Usage = u,
              dec_Reservation = Some (apply_admission_transition r tr)\<rparr>"
    by blast
  then show thesis
  proof cases
    case 1
    then show thesis by (intro same) auto
  next
    case 2
    have "res_ID r = atr_ReservationID tr" using assms(1) 2(1) by (simp add: admission_ok_def)
    moreover have "res_Version (apply_admission_transition r tr) = res_Version r + 1"
      using 2(4) by (simp add: u64_inc_less)
    moreover have "use_ConcurrentRuns u =
         int (length (filter (\<lambda>q. res_ID q \<noteq> res_ID r \<and> res_AgentID q = res_AgentID r \<and>
           live (atr_At tr) q) (trows t)))"
      unfolding 2(6) admissionUsage_concurrency by (rule arg_cong [of _ _ int], rule count_agent_rows)
    ultimately show thesis using 2 by (intro updated [of r u]) auto
  qed
qed

lemma TransitionAdmission_ok [inv_intros]:
  assumes "admission_ok t" and "TransitionAdmission t tr = (out, t')"
  shows "admission_ok t'"
  using assms
proof (cases rule: TransitionAdmission_update)
  case (updated r u)
  then show ?thesis using assms(1) unfolding admission_ok_def by auto
qed (use assms in simp)

text \<open>
  A run of the component: reservations and transitions in any order, from the empty table.
\<close>

datatype admission_op = Reserve admission_request | Transition admission_transition

fun admission_step :: "admission_table \<Rightarrow> admission_op \<Rightarrow> admission_table" where
  "admission_step t (Reserve request) = snd (ReserveAdmission t request)"
| "admission_step t (Transition transition) = snd (TransitionAdmission t transition)"

fun op_time :: "admission_op \<Rightarrow> time" where
  "op_time (Reserve request) = areq_RequestedAt request"
| "op_time (Transition transition) = atr_At transition"

interpretation adm_sys: guarded_system "\<lambda>t. t = []" admission_step admission_ok
proof
  fix t :: admission_table and e
  assume "admission_ok t"
  then show "admission_ok (admission_step t e)"
    by (cases e) (metis ReserveAdmission_ok TransitionAdmission_ok admission_step.simps prod.collapse)+
qed simp

definition admission_version :: "admission_table \<Rightarrow> string \<Rightarrow> nat" where
  "admission_version t k = (case tget t k of None \<Rightarrow> 0 | Some r \<Rightarrow> res_Version r)"

text \<open>A transition that names the version the caller read; \<open>None\<close> when it is refused.\<close>

definition admission_cas ::
  "admission_table \<Rightarrow> string \<Rightarrow> nat \<Rightarrow> admission_transition \<Rightarrow> admission_table option" where
  "admission_cas t k n transition =
     (case TransitionAdmission t
             (transition\<lparr>atr_ReservationID := k, atr_ExpectedVersion := n\<rparr>) of
        (Inr decision, t') \<Rightarrow> if dec_Allowed decision then Some t' else None
      | (Inl _, _) \<Rightarrow> None)"

lemma admission_casE:
  assumes "admission_ok t" and "admission_cas t k n tr = Some t'"
  obtains r r' where "tget t k = Some r" "res_Version r = n" "t' = tput k r' t"
    "res_Version r' = n + 1" "admission_ok t'"
proof -
  let ?tr = "tr\<lparr>atr_ReservationID := k, atr_ExpectedVersion := n\<rparr>"
  from assms(2) obtain d where run: "TransitionAdmission t ?tr = (Inr d, t')" "dec_Allowed d"
    by (auto simp: admission_cas_def split: prod.splits sum.splits if_splits)
  have "admission_ok t'" using assms(1) run(1) by (rule TransitionAdmission_ok)
  from assms(1) run(1) show thesis
  proof (cases rule: TransitionAdmission_update)
    case same
    with run(2) show thesis by blast
  next
    case (updated r u)
    with \<open>admission_ok t'\<close> show thesis by (intro that) auto
  qed
qed

interpretation adm: versioned_store admission_ok admission_version admission_cas
proof
  fix s k n r s' k'
  assume ok: "admission_ok s" and c: "admission_cas s k n r = Some s'"
  from ok c obtain q q' where upd: "tget s k = Some q" "res_Version q = n" "s' = tput k q' s"
    "res_Version q' = n + 1" "admission_ok s'" by (rule admission_casE)
  then show "admission_version s k = n" "admission_version s' k = n + 1" "admission_ok s'"
    by (simp_all add: admission_version_def)
  from upd show "admission_version s' k' = admission_version s k'" if "k' \<noteq> k"
    using that by (simp add: admission_version_def)
qed

section \<open>Correctness\<close>

lemma evaluateAdmission_allowed:
  assumes "dec_Allowed (evaluateAdmission rs request ex)"
  defines "usage \<equiv> admissionUsage rs (areq_AgentID request) (areq_Limits request)
    (areq_RequestedAt request) ex"
  shows "lim_MaxConcurrentRuns (areq_Limits request) > 0 \<Longrightarrow>
      use_ConcurrentRuns usage + 1 \<le> lim_MaxConcurrentRuns (areq_Limits request)"
    and "lim_MaxCredits (areq_Limits request) > 0 \<Longrightarrow>
      s64_wrap (s64_wrap (use_CommittedCredits usage + use_ReservedCredits usage) +
        areq_ReservedCredits request) \<le> lim_MaxCredits (areq_Limits request)"
  using assms by (auto simp: evaluateAdmission_def denied_def Let_def split: if_splits)

lemma usage_live_count:
  assumes "admission_ok t"
  shows "use_ConcurrentRuns (admissionUsage (admissionReservationsForAgent t a) a l n []) =
     int (live_count t a n)"
proof -
  have "filter (\<lambda>r. res_ID r \<noteq> [] \<and> res_AgentID r = a \<and> live n r) (trows t) =
      filter (\<lambda>r. res_AgentID r = a \<and> live n r) (trows t)"
    using admission_ok_nonempty [OF assms] by (intro filter_cong) auto
  then show ?thesis
    by (simp add: admissionUsage_concurrency count_agent_rows live_count_def)
qed

lemma usage_window_credits:
  assumes "admission_ok t"
  defines "u \<equiv> \<lambda>l n a. admissionUsage (admissionReservationsForAgent t a) a l n []"
  shows "s64_wrap (use_CommittedCredits (u l n a) + use_ReservedCredits (u l n a)) =
     s64_wrap (window_credits t a l n)"
proof -
  have "filter (\<lambda>q. res_AgentID q = a \<and> res_ID q \<noteq> [] \<and> res_AgentID q = a) (trows t) =
      filter (\<lambda>r. res_AgentID r = a) (trows t)"
    using admission_ok_nonempty [OF assms(1)] by (intro filter_cong) auto
  then show ?thesis
    by (simp add: u_def admissionUsage_credits sum_agent_rows window_credits_def)
qed

lemma new_reservation_live:
  "validateAdmissionRequest request = None \<Longrightarrow> live (areq_RequestedAt request) (new_reservation request)"
  by (auto simp: validateAdmissionRequest_def live_def new_reservation_def Let_def split: if_splits)

lemma fresh_reservation:
  assumes "ReserveAdmission t request = (Inr decision, t')" and "dec_Allowed decision"
    and "tget t (areq_ReservationID request) = None"
  shows "validateAdmissionRequest request = None"
    and "t' = tput (areq_ReservationID request) (new_reservation request) t"
    and "dec_Allowed (evaluateAdmission
       (admissionReservationsForAgent t (areq_AgentID request)) request [])"
  using assms
  by (auto simp: ReserveAdmission_def LoadAdmissionReservation_def tinsert_ignore_def Let_def
        new_reservation_def find_None_iff split: option.splits if_splits sum.splits)

lemma reserve_live_count:
  assumes "admission_ok t" and "ReserveAdmission t request = (Inr decision, t')"
    and "dec_Allowed decision" and "tget t (areq_ReservationID request) = None"
    and "lim_MaxConcurrentRuns (areq_Limits request) > 0"
  shows "int (live_count t' (areq_AgentID request) (areq_RequestedAt request))
    \<le> lim_MaxConcurrentRuns (areq_Limits request)"
proof -
  note fresh = fresh_reservation [OF assms(2-4)]
  have "int (live_count t (areq_AgentID request) (areq_RequestedAt request)) + 1
      \<le> lim_MaxConcurrentRuns (areq_Limits request)"
    using evaluateAdmission_allowed(1) [OF fresh(3) assms(5)] usage_live_count [OF assms(1)]
    by simp
  then show ?thesis
    unfolding fresh(2) live_count_def count_rows_tput_new [OF assms(4)]
    by (auto simp: new_reservation_def)
qed

definition terminal :: "admission_state \<Rightarrow> bool" where
  "terminal st \<longleftrightarrow> st \<in> {AdmissionSettled, AdmissionReleased, AdmissionExpired}"

lemma terminal_no_transition: "terminal st \<Longrightarrow> \<not> validAdmissionTransition st to"
  by (auto simp: terminal_def)

lemma validateAdmissionTransition_None:
  assumes "validateAdmissionTransition r tr = None"
  shows "validAdmissionTransition (res_State r) (atr_To tr)"
    and "atr_To tr = AdmissionActive \<Longrightarrow> res_ExpiresAt r > atr_At tr"
  using assms by (auto simp: validateAdmissionTransition_def split: if_splits)

lemma admission_step_terminal:
  assumes "admission_ok t" and "tget t k = Some r" and "terminal (res_State r)"
  shows "tget (admission_step t e) k = Some r"
proof (cases e)
  case (Reserve req)
  then show ?thesis
    using ReserveAdmission_cases [of t req, OF surjective_pairing] assms(2) by auto
next
  case (Transition tr)
  obtain out t' where run: "TransitionAdmission t tr = (out, t')" by (cases "TransitionAdmission t tr")
  from assms(1) run show ?thesis
  proof (cases rule: TransitionAdmission_update)
    case same
    with run Transition assms(2) show ?thesis by simp
  next
    case (updated q u)
    have "k \<noteq> atr_ReservationID tr"
      using updated(1,4) assms(2,3) validateAdmissionTransition_None(1) terminal_no_transition
      by (metis option.inject)
    with run Transition updated(5) assms(2) show ?thesis by simp
  qed
qed

text \<open>The limit holds for an agent: its rows carry it, and its live rows are within it.\<close>

definition within_limit :: "string \<Rightarrow> int \<Rightarrow> time \<Rightarrow> admission_table \<Rightarrow> bool" where
  "within_limit a n now t \<longleftrightarrow> admission_ok t \<and>
     (\<forall>k r. tget t k = Some r \<longrightarrow> res_AgentID r = a \<longrightarrow> lim_MaxConcurrentRuns (res_Limits r) = n) \<and>
     int (live_count t a now) \<le> n"

fun uses_limit :: "string \<Rightarrow> int \<Rightarrow> admission_op \<Rightarrow> bool" where
  "uses_limit a n (Reserve request) \<longleftrightarrow>
     (areq_AgentID request = a \<longrightarrow> lim_MaxConcurrentRuns (areq_Limits request) = n)"
| "uses_limit a n (Transition _) \<longleftrightarrow> True"

lemma live_count_antimono: "now \<le> later \<Longrightarrow> live_count t a later \<le> live_count t a now"
  unfolding live_count_def by (rule length_filter_mono) (auto simp: live_def)

lemma live_count_others:
  assumes "admission_ok t" and "tget t k = Some r" and "res_ID r = k" and "res_AgentID r = a"
  shows "live_count (tput k r' t) a now =
    length (filter (\<lambda>q. res_ID q \<noteq> k \<and> res_AgentID q = a \<and> live now q) (trows t)) +
    (if res_AgentID r' = a \<and> live now r' then 1 else 0)"
proof -
  obtain xs ys where eq: "t = xs @ (k, r) # ys" "tput k r' t = xs @ (k, r') # ys"
    using tput_old [OF assms(2)] by blast
  have distinct: "k \<notin> fst ` set (xs @ ys)"
    using assms(1) unfolding admission_ok_def table_ok_def eq by auto
  have "res_ID q \<noteq> k" if "q \<in> set (map snd (xs @ ys))" for q
  proof -
    from that obtain k' where k': "(k', q) \<in> set (xs @ ys)"
      by (metis imageE list.set_map prod.collapse)
    with assms(1) have "tget t k' = Some q"
      unfolding admission_ok_def table_ok_def tget_def eq(1) by (intro map_of_is_SomeI) auto
    with assms(1) have "res_ID q = k'" by (simp add: admission_ok_def)
    with k' distinct show ?thesis by force
  qed
  then have "filter (\<lambda>q. res_ID q \<noteq> k \<and> res_AgentID q = a \<and> live now q) (map snd (xs @ ys)) =
      filter (\<lambda>q. res_AgentID q = a \<and> live now q) (map snd (xs @ ys))"
    by (intro filter_cong) auto
  with assms(3) show ?thesis
    unfolding live_count_def trows_def eq(2) unfolding eq(1) by simp
qed

lemma within_limit_reserve:
  assumes "within_limit a n now t" and "now \<le> areq_RequestedAt request" and "n > 0"
    and "uses_limit a n (Reserve request)" and "ReserveAdmission t request = (out, t')"
  shows "within_limit a n (areq_RequestedAt request) t'"
proof -
  let ?at = "areq_RequestedAt request"
  have ok: "admission_ok t" and rows: "\<forall>k r. tget t k = Some r \<longrightarrow> res_AgentID r = a \<longrightarrow>
      lim_MaxConcurrentRuns (res_Limits r) = n" and cnt: "int (live_count t a ?at) \<le> n"
    using assms(1) live_count_antimono [OF assms(2), of t a] by (auto simp: within_limit_def)
  show ?thesis
  proof (cases "t' = t")
    case False
    with ReserveAdmission_cases [OF assms(5)] obtain d where new:
      "tget t (areq_ReservationID request) = None"
      "t' = tput (areq_ReservationID request) (new_reservation request) t"
      "out = Inr d" "dec_Allowed d" by auto
    have "int (live_count t' a ?at) \<le> n"
    proof (cases "areq_AgentID request = a")
      case True
      with reserve_live_count [OF ok assms(5) [unfolded new(3)] new(4,1)] assms(3,4) show ?thesis
        by simp
    next
      case other: False
      then show ?thesis
        using cnt unfolding new(2) live_count_def count_rows_tput_new [OF new(1)]
        by (simp add: new_reservation_def)
    qed
    then show ?thesis
      using rows assms(4) ReserveAdmission_ok [OF ok assms(5)] new(2)
      by (auto simp: within_limit_def new_reservation_def)
  qed (use ok rows cnt in \<open>simp add: within_limit_def\<close>)
qed

text \<open>A row that is live after a transition was live before it, or was suspended.\<close>

lemma live_after_transition:
  assumes "validateAdmissionTransition r tr = None"
    and "live (atr_At tr) (apply_admission_transition r tr)"
  shows "live (atr_At tr) r \<or> (res_State r = AdmissionSuspended \<and> atr_To tr = AdmissionActive)"
  using validateAdmissionTransition_None [OF assms(1)] assms(2)
  by (cases "res_State r") (auto simp: live_def split: if_splits)

lemma within_limit_transition:
  assumes "within_limit a n now t" and "now \<le> atr_At tr" and "n > 0"
    and "TransitionAdmission t tr = (out, t')"
  shows "within_limit a n (atr_At tr) t'"
proof -
  have ok: "admission_ok t" and rows: "\<forall>k r. tget t k = Some r \<longrightarrow> res_AgentID r = a \<longrightarrow>
      lim_MaxConcurrentRuns (res_Limits r) = n" and cnt: "int (live_count t a (atr_At tr)) \<le> n"
    using assms(1) live_count_antimono [OF assms(2), of t a] by (auto simp: within_limit_def)
  from ok assms(4) show ?thesis
  proof (cases rule: TransitionAdmission_update)
    case same
    with ok rows cnt show ?thesis by (simp add: within_limit_def)
  next
    case (updated r u)
    let ?r' = "apply_admission_transition r tr"
    have "int (live_count t' a (atr_At tr)) \<le> n"
    proof (cases "res_AgentID r = a \<and> live (atr_At tr) ?r' \<and> \<not> live (atr_At tr) r")
      case True
      with live_after_transition [OF updated(4)] updated(7,8) rows updated(1) assms(3)
      show ?thesis
        unfolding updated(5)
        by (subst live_count_others [OF ok updated(1)]) (auto simp: updated(2))
    next
      case False
      then show ?thesis
        using cnt count_rows_tput_old [OF updated(1),
            of "\<lambda>q. res_AgentID q = a \<and> live (atr_At tr) q" ?r']
        unfolding updated(5) live_count_def by (auto split: if_splits)
    qed
    then show ?thesis
      using rows updated(1,5) TransitionAdmission_ok [OF ok assms(4)]
      by (auto simp: within_limit_def)
  qed
qed

lemma within_limit_run:
  assumes "within_limit a n now t" and "n > 0" and "sorted (now # map op_time ops)"
    and "\<forall>e \<in> set ops. uses_limit a n e"
  shows "within_limit a n (last (now # map op_time ops)) (foldl admission_step t ops)"
  using assms
proof (induction ops arbitrary: now t)
  case (Cons e ops)
  have "within_limit a n (op_time e) (admission_step t e)"
    using Cons.prems within_limit_reserve within_limit_transition
    by (cases e) (simp, metis prod.collapse)+
  then have "within_limit a n (last (op_time e # map op_time ops))
      (foldl admission_step (admission_step t e) ops)"
    using Cons.prems by (intro Cons.IH) auto
  then show ?case by simp
qed simp

text \<open>Examples used by the witnesses: one agent, at most two concurrent run, ten credits.\<close>

definition ex_limits :: admission_limits where
  "ex_limits = \<lparr>lim_Window = 100, lim_MaxConcurrentRuns = 2, lim_MaxRunsPerWindow = 0,
     lim_MaxCredits = 10, lim_PauseOnExcessFailures = 0\<rparr>"

definition ex_request :: "string \<Rightarrow> string \<Rightarrow> int \<Rightarrow> admission_request" where
  "ex_request rid run credits = \<lparr>areq_ReservationID = rid, areq_AgentID = ''a'',
     areq_AgentVersion = ''v1'', areq_RunID = run, areq_Limits = ex_limits,
     areq_ReservedCredits = credits, areq_RequestedAt = 5, areq_ExpiresAt = 50\<rparr>"

definition ex_table :: admission_table where
  "ex_table = [(''r1'', new_reservation (ex_request ''r1'' ''run1'' 4))]"

definition ex_transition :: "admission_state \<Rightarrow> nat \<Rightarrow> admission_transition" where
  "ex_transition st v = \<lparr>atr_ReservationID = ''r1'', atr_ExpectedVersion = v, atr_To = st,
     atr_At = 7, atr_ExpiresAt = 0, atr_ConsumedCredits = 0, atr_Failed = False\<rparr>"

lemma ex_table_ok: "admission_ok ex_table"
  by (auto simp: admission_ok_def ex_table_def table_ok_def tget_def new_reservation_def
        ex_request_def split: if_splits)

text \<open>A successful new reservation never takes an agent over its concurrency limit: after
  it commits, the live (reserved or active, unexpired) reservations of the agent are at most
  the request's \<^verbatim>\<open>MaxConcurrentRuns\<close>.\<close>

theorem reserve_within_concurrency:
  assumes "admission_ok t" and "ReserveAdmission t request = (Inr decision, t')"
    and "dec_Allowed decision" and "tget t (areq_ReservationID request) = None"
    and "lim_MaxConcurrentRuns (areq_Limits request) > 0"
  shows "int (live_count t' (areq_AgentID request) (areq_RequestedAt request))
    \<le> lim_MaxConcurrentRuns (areq_Limits request)"
  using assms by (rule reserve_live_count)

definition ex_reserved :: admission_table where
  "ex_reserved = snd (ReserveAdmission ex_table (ex_request ''r2'' ''run2'' 3))"

definition ex_decision :: admission_decision where
  "ex_decision = projr (fst (ReserveAdmission ex_table (ex_request ''r2'' ''run2'' 3)))"

lemma ex_reserve:
  "ReserveAdmission ex_table (ex_request ''r2'' ''run2'' 3) = (Inr ex_decision, ex_reserved)"
  "dec_Allowed ex_decision"
  "tget ex_table (areq_ReservationID (ex_request ''r2'' ''run2'' 3)) = None"
  by code_simp+

theorem reserve_within_concurrency_witness:
  "int (live_count ex_reserved ''a'' 5) \<le> 2"
  using reserve_within_concurrency [OF ex_table_ok ex_reserve]
  by (simp add: ex_request_def ex_limits_def)

text \<open>A successful new reservation keeps the credits the agent holds or has spent in the
  window at most \<^verbatim>\<open>MaxCredits\<close>, provided the true sum fits \<^verbatim>\<open>int64\<close>.\<close>

theorem reserve_within_credits:
  assumes "admission_ok t" and "ReserveAdmission t request = (Inr decision, t')"
    and "dec_Allowed decision" and "tget t (areq_ReservationID request) = None"
    and "lim_MaxCredits (areq_Limits request) > 0"
    and "- (2 ^ 63) \<le> window_credits t (areq_AgentID request) (areq_Limits request)
           (areq_RequestedAt request) + areq_ReservedCredits request"
    and "window_credits t (areq_AgentID request) (areq_Limits request)
           (areq_RequestedAt request) + areq_ReservedCredits request < 2 ^ 63"
  shows "window_credits t' (areq_AgentID request) (areq_Limits request) (areq_RequestedAt request)
    \<le> lim_MaxCredits (areq_Limits request)"
proof -
  note fresh = fresh_reservation [OF assms(2-4)]
  let ?w = "window_credits t (areq_AgentID request) (areq_Limits request) (areq_RequestedAt request)"
  have "s64_wrap (?w + areq_ReservedCredits request) \<le> lim_MaxCredits (areq_Limits request)"
    using evaluateAdmission_allowed(2) [OF fresh(3) assms(5)] usage_window_credits [OF assms(1)]
    by (simp add: s64_wrap_add)
  then have "?w + areq_ReservedCredits request \<le> lim_MaxCredits (areq_Limits request)"
    using s64_wrap_id [OF assms(6,7)] by simp
  moreover have "held_credits (areq_Limits request) (areq_RequestedAt request)
      (new_reservation request) \<le> areq_ReservedCredits request"
    using fresh(1) by (auto simp: held_credits_def new_reservation_def validateAdmissionRequest_def
        split: if_splits)
  ultimately show ?thesis
    unfolding fresh(2) window_credits_def trows_tput_new [OF assms(4)]
    by (simp add: new_reservation_def)
qed

theorem reserve_within_credits_witness:
  "window_credits ex_reserved ''a'' ex_limits 5 \<le> 10"
proof -
  have "window_credits ex_table ''a'' ex_limits 5 = 4" by code_simp
  then show ?thesis
    using reserve_within_credits [OF ex_table_ok ex_reserve]
    by (simp add: ex_request_def ex_limits_def)
qed

text \<open>The credit limit fails on large requests: \<^verbatim>\<open>evaluateAdmission\<close> adds
  \<^verbatim>\<open>int64\<close> credits and \<^verbatim>\<open>ReservedCredits\<close> has no upper bound, so with four
  credits held a request for \<open>2 ^ 63 - 1\<close> more wraps to a negative sum and is admitted under
  a limit of ten, leaving the agent with far more than its limit.\<close>

theorem reserve_credit_overflow_admits:
  "case ReserveAdmission ex_table (ex_request ''r2'' ''run2'' (2 ^ 63 - 1)) of
     (Inr decision, t') \<Rightarrow> dec_Allowed decision \<and>
       window_credits t' ''a'' ex_limits 5 > 9000000000000000000 \<and>
       lim_MaxCredits (areq_Limits (ex_request ''r2'' ''run2'' (2 ^ 63 - 1))) = 10
   | (Inl _, _) \<Rightarrow> False"
  by code_simp

text \<open>Reserving is idempotent: once a request was allowed, repeating it returns the same
  reservation and leaves the table as it is, whatever the usage has become.\<close>

theorem reserve_idempotent:
  assumes "ReserveAdmission t request = (Inr decision, t')" and "dec_Allowed decision"
  shows "ReserveAdmission t' request =
    (Inr \<lparr>dec_Allowed = True, dec_Reason = AdmissionDeniedNone, dec_Usage = zero_usage,
       dec_Reservation = dec_Reservation decision\<rparr>, t')"
proof (cases "tget t (areq_ReservationID request)")
  case None
  note fresh = fresh_reservation [OF assms None]
  have "dec_Reservation decision = Some (new_reservation request)"
    using ReserveAdmission_cases [OF assms(1)] None fresh(2) tget_tput
    by (metis Inr_inject admission_decision.select_convs(4) admission_decision.surjective
        admission_decision.update_convs(4) option.distinct(1))
  then show ?thesis
    using fresh by (simp add: ReserveAdmission_def LoadAdmissionReservation_def
        admissionRequestMatches_def new_reservation_def)
next
  case (Some r)
  with assms show ?thesis
    by (auto simp: ReserveAdmission_def LoadAdmissionReservation_def split: option.splits if_splits)
qed

theorem reserve_idempotent_witness:
  "snd (ReserveAdmission ex_reserved (ex_request ''r2'' ''run2'' 3)) = ex_reserved"
  using reserve_idempotent [OF ex_reserve(1,2)] by simp

text \<open>Every table that reservations and transitions reach from the empty one, in any
  order and with any arguments, is well formed: rows sit under their own id, versions start
  at one and no two reservations belong to the same run of an agent.\<close>

theorem admission_reachable_ok: "admission_ok (foldl admission_step [] ops)"
  using adm_sys.reachable_inv [of "[]" ops] by (simp add: adm_sys.run_events_def)

text \<open>Concurrent transitions never overwrite each other: in every serialisation of any
  writers' transitions, each version of each reservation is consumed by at most one of them,
  and the final version counts the committed ones.\<close>

theorem admission_no_lost_update:
  assumes "admission_ok t"
  shows "distinct (adm.committed t ws) \<and>
    admission_version (adm.run_writes t ws) k =
      admission_version t k + length (filter (\<lambda>w. fst w = k) (adm.committed t ws))"
  using adm.committed_distinct [OF assms] adm.version_counts_commits [OF assms] by simp

theorem admission_no_lost_update_witness:
  "distinct (adm.committed ex_table
     [(''r1'', 1, ex_transition AdmissionActive 0), (''r1'', 1, ex_transition AdmissionReleased 0)]) \<and>
   admission_cas ex_table ''r1'' 1 (ex_transition AdmissionActive 0) \<noteq> None"
proof -
  have "admission_cas ex_table ''r1'' 1 (ex_transition AdmissionActive 0) \<noteq> None" by code_simp
  then show ?thesis using admission_no_lost_update [OF ex_table_ok] by blast
qed

text \<open>C23. The concurrency limit is a global invariant: when every request of an agent carries
  the same positive limit \<open>n\<close> and operations are applied in the order of their timestamps,
  then after any history of reservations, activations, suspensions, reactivations and
  expirations the agent has at most \<open>n\<close> live reservations.\<close>

theorem concurrency_limit_invariant:
  assumes "n > 0" and "sorted (0 # map op_time ops)" and "\<forall>e \<in> set ops. uses_limit a n e"
  shows "int (live_count (foldl admission_step [] ops) a (last (0 # map op_time ops))) \<le> n"
  using within_limit_run [of a n 0 "[]" ops] assms
  by (simp add: within_limit_def live_count_def trows_def)

definition ex_history :: "admission_op list" where
  "ex_history = [Reserve (ex_request ''r1'' ''run1'' 1), Reserve (ex_request ''r2'' ''run2'' 1),
     Reserve (ex_request ''r3'' ''run3'' 1), Transition (ex_transition AdmissionActive 1),
     Transition (ex_transition AdmissionSuspended 2)]"

theorem concurrency_limit_invariant_witness:
  "int (live_count (foldl admission_step [] ex_history) ''a'' 7) \<le> 2"
proof -
  have "last (0 # map op_time ex_history) = 7" "sorted (0 # map op_time ex_history)"
    "\<forall>e \<in> set ex_history. uses_limit ''a'' 2 e"
    by code_simp+
  with concurrency_limit_invariant [of 2 ex_history "''a''"] show ?thesis by simp
qed

text \<open>Settled, released and expired reservations are final: no sequence of operations
  changes or removes one.\<close>

theorem terminal_reservation_final:
  assumes "admission_ok t" and "tget t k = Some r" and "terminal (res_State r)"
  shows "tget (foldl admission_step t ops) k = Some r"
  using assms
proof (induction ops arbitrary: t)
  case (Cons e ops)
  have "admission_ok (admission_step t e)" using Cons.prems(1) by (rule adm_sys.inv_step)
  with Cons admission_step_terminal show ?case by simp
qed simp

theorem terminal_reservation_final_witness:
  "tget (foldl admission_step
     [(''r1'', (new_reservation (ex_request ''r1'' ''run1'' 4))\<lparr>res_State := AdmissionReleased\<rparr>)]
     [Transition (ex_transition AdmissionActive 1)]) ''r1'' =
   Some ((new_reservation (ex_request ''r1'' ''run1'' 4))\<lparr>res_State := AdmissionReleased\<rparr>)"
  by (rule terminal_reservation_final)
     (auto simp: admission_ok_def table_ok_def tget_def new_reservation_def
        ex_request_def terminal_def split: if_splits)

end
