(* ===== verification/Leases.thy ===== *)
theory Leases
  imports Store_Interfaces
begin

text \<open>
  Task execution leases: \<^verbatim>\<open>TaskExecutionLease\<close> of
  \<^verbatim>\<open>internal/agentruntime/types.go\<close> and the lease operations of
  \<^verbatim>\<open>internal/store/sqlite/stores_governance.go\<close>.

  The table \<^verbatim>\<open>leases\<close> maps a lease id to the lease. Its partial unique index
  \<^verbatim>\<open>leases_active_slot\<close> allows one active lease per run and task (a slot); a statement
  that would break it, or insert an id twice, fails with a constraint error. The clock
  \<^verbatim>\<open>time.Now()\<close> is an argument. Time zones are not modelled, so \<^verbatim>\<open>UTC()\<close> is the
  identity.
\<close>

section \<open>Data\<close>

datatype lease_status =
  LeaseStatusActive | LeaseStatusReleased | LeaseStatusExpired | LeaseStatusOther string

record lease =
  l_ID :: string
  l_RunID :: string
  l_TaskID :: string
  l_EnvelopeID :: string
  l_HolderType :: string
  l_HolderID :: string
  l_TaskVersion :: int
  l_AcquiredAt :: time
  l_ExpiresAt :: time
  l_HeartbeatAt :: time
  l_Status :: lease_status
  l_Version :: nat
  l_Expiry :: time

type_synonym lease_table = "(string, lease) table"
type_synonym slot = "string \<times> string"

abbreviation l_slot :: "lease \<Rightarrow> slot" where
  "l_slot l \<equiv> (l_RunID l, l_TaskID l)"

definition syncLeaseExpiry :: "lease \<Rightarrow> lease" where
  "syncLeaseExpiry l =
     (let l1 = (if IsZero (l_ExpiresAt l) then l\<lparr>l_ExpiresAt := l_Expiry l\<rparr> else l)
      in l1\<lparr>l_Expiry := l_ExpiresAt l1\<rparr>)"

section \<open>Queries\<close>

definition slot_rows :: "lease_table \<Rightarrow> slot \<Rightarrow> lease list" where
  "slot_rows t s = filter (\<lambda>l. l_slot l = s) (trows t)"

definition MaxLeaseVersion :: "lease_table \<Rightarrow> slot \<Rightarrow> nat" where
  "MaxLeaseVersion t s = foldr max (map l_Version (slot_rows t s)) 0"

text \<open>\<^verbatim>\<open>ORDER BY version DESC LIMIT 1\<close>.\<close>

fun newest :: "lease list \<Rightarrow> lease option" where
  "newest [] = None"
| "newest (l # ls) =
     (case newest ls of
        None \<Rightarrow> Some l
      | Some m \<Rightarrow> if l_Version m > l_Version l then Some m else Some l)"

definition GetLatestLease :: "lease_table \<Rightarrow> slot \<Rightarrow> lease option" where
  "GetLatestLease t s = newest (slot_rows t s)"

definition LoadLease :: "lease_table \<Rightarrow> string \<Rightarrow> error + lease" where
  "LoadLease t lid = (case tget t lid of None \<Rightarrow> Inl ErrNotFound | Some l \<Rightarrow> Inr l)"

definition ActiveLeaseForTask :: "lease_table \<Rightarrow> string \<Rightarrow> string \<Rightarrow> lease option" where
  "ActiveLeaseForTask t runID taskID = GetLatestLease t (runID, taskID)"

text \<open>Would the row break \<^verbatim>\<open>leases_active_slot\<close>?\<close>

definition slot_taken :: "lease_table \<Rightarrow> lease \<Rightarrow> bool" where
  "slot_taken t l \<longleftrightarrow> l_Status l = LeaseStatusActive \<and>
     (\<exists>row \<in> set (trows t). l_ID row \<noteq> l_ID l \<and> l_slot row = l_slot l \<and>
        l_Status row = LeaseStatusActive)"

section \<open>Operations\<close>

definition SaveLease :: "lease \<Rightarrow> lease_table \<Rightarrow> (error + unit) \<times> lease_table" where
  "SaveLease value0 t =
     (let value1 = syncLeaseExpiry value0;
          currentVersion = MaxLeaseVersion t (l_slot value1);
          value2 = (if l_Version value1 \<le> currentVersion
                    then value1\<lparr>l_Version := u64_inc currentVersion\<rparr> else value1)
      in case int64FromUint64 (l_Version value2) of
           Inl e \<Rightarrow> (Inl e, t)
         | Inr _ \<Rightarrow>
             if slot_taken t value2 then (Inl (ErrMessage ''save lease''), t)
             else (Inr (), tput (l_ID value2) value2 t))"

definition insert_lease :: "lease \<Rightarrow> nat \<Rightarrow> lease_table \<Rightarrow> (error + bool) \<times> lease_table" where
  "insert_lease value0 expected t =
     (let value1 = syncLeaseExpiry
            (value0\<lparr>l_Version := u64_inc expected, l_Status := LeaseStatusActive\<rparr>)
      in case int64FromUint64 (l_Version value1) of
           Inl e \<Rightarrow> (Inl e, t)
         | Inr _ \<Rightarrow>
             if tget t (l_ID value1) \<noteq> None \<or> slot_taken t value1 then (Inr False, t)
             else (Inr True, tput (l_ID value1) value1 t))"

definition AcquireWithExpectedVersion ::
  "time \<Rightarrow> lease \<Rightarrow> nat \<Rightarrow> lease_table \<Rightarrow> (error + bool) \<times> lease_table" where
  "AcquireWithExpectedVersion now value0 expected t =
     (let row = GetLatestLease t (l_slot value0);
          currentVersion = (case row of None \<Rightarrow> 0 | Some l \<Rightarrow> l_Version l)
      in if currentVersion \<noteq> expected then (Inr False, t)
         else case row of
           None \<Rightarrow> insert_lease value0 expected t
         | Some previous \<Rightarrow>
             if l_Status previous = LeaseStatusActive \<and> l_ExpiresAt previous > now
             then (Inr False, t)
             else if l_Status previous = LeaseStatusActive then
               let expired = previous\<lparr>l_Status := LeaseStatusExpired\<rparr>
               in case int64FromUint64 (l_Version expired) of
                    Inl e \<Rightarrow> (Inl e, t)
                  | Inr _ \<Rightarrow>
                      insert_lease value0 expected
                        (snd (tupdate_where (l_ID expired)
                           (\<lambda>l. l_Version l = l_Version expired) expired t))
             else insert_lease value0 expected t)"

definition ExtendLease ::
  "time \<Rightarrow> string \<Rightarrow> string \<Rightarrow> time \<Rightarrow> lease_table \<Rightarrow> (error + bool) \<times> lease_table" where
  "ExtendLease now leaseID workerID newExpiry t =
     (case LoadLease t leaseID of
        Inl _ \<Rightarrow> (Inr False, t)
      | Inr l \<Rightarrow>
        (case ActiveLeaseForTask t (l_RunID l) (l_TaskID l) of
           None \<Rightarrow> (Inr False, t)
         | Some latest \<Rightarrow>
             if l_ID latest \<noteq> leaseID \<or> l_HolderID l \<noteq> workerID \<or>
                l_Status l \<noteq> LeaseStatusActive \<or> \<not> l_ExpiresAt l > now
             then (Inr False, t)
             else case int64FromUint64 (l_Version l) of
               Inl e \<Rightarrow> (Inl e, t)
             | Inr _ \<Rightarrow>
                 let l' = l\<lparr>l_Version := u64_inc (l_Version l), l_ExpiresAt := newExpiry,
                           l_Expiry := newExpiry, l_HeartbeatAt := now\<rparr>
                 in case int64FromUint64 (l_Version l') of
                      Inl e \<Rightarrow> (Inl e, t)
                    | Inr _ \<Rightarrow>
                        let (changed, t') = tupdate_where leaseID
                              (\<lambda>row. l_HolderID row = workerID \<and> l_Status row = LeaseStatusActive \<and>
                                     l_Version row = l_Version l) l' t
                        in (Inr (changed = 1), t')))"

definition ReleaseExpiredLease ::
  "string \<Rightarrow> nat \<Rightarrow> time \<Rightarrow> lease_table \<Rightarrow> (error + bool) \<times> lease_table" where
  "ReleaseExpiredLease leaseID expectedVersion releasedAt t =
     (case LoadLease t leaseID of
        Inl _ \<Rightarrow> (Inr False, t)
      | Inr l0 \<Rightarrow>
        (let l = syncLeaseExpiry l0
         in if l_Status l \<noteq> LeaseStatusActive \<or> l_Version l \<noteq> expectedVersion \<or>
               IsZero (l_ExpiresAt l) \<or> l_ExpiresAt l > releasedAt
            then (Inr False, t)
            else case int64FromUint64 (l_Version l) of
              Inl e \<Rightarrow> (Inl e, t)
            | Inr _ \<Rightarrow>
                let l' = l\<lparr>l_Status := LeaseStatusReleased, l_Version := u64_inc (l_Version l)\<rparr>
                in case int64FromUint64 (l_Version l') of
                     Inl e \<Rightarrow> (Inl e, t)
                   | Inr _ \<Rightarrow>
                       let (changed, t') = tupdate_where leaseID
                             (\<lambda>row. l_Status row = LeaseStatusActive \<and>
                                l_Version row = l_Version l \<and> nanos (l_ExpiresAt row) \<le> nanos releasedAt \<and>
                                l_Version row = MaxLeaseVersion t (l_slot row)) l' t
                       in (Inr (changed = 1), t')))"

section \<open>The table invariant\<close>

text \<open>
  Rows sit under their own id, versions are positive and fit a SQLite INTEGER, no two leases
  of a slot share a version, and at most one of them is active.
\<close>

definition leases_ok :: "lease_table \<Rightarrow> bool" where
  "leases_ok t \<longleftrightarrow> table_ok t \<and>
     (\<forall>k l. tget t k = Some l \<longrightarrow> l_ID l = k \<and> 1 \<le> l_Version l \<and> l_Version l < 2 ^ 63) \<and>
     (\<forall>k k' l l'. tget t k = Some l \<longrightarrow> tget t k' = Some l' \<longrightarrow> k \<noteq> k' \<longrightarrow> l_slot l = l_slot l' \<longrightarrow>
        l_Version l \<noteq> l_Version l' \<and>
        \<not> (l_Status l = LeaseStatusActive \<and> l_Status l' = LeaseStatusActive))"

lemma leases_ok_Nil [simp]: "leases_ok []"
  by (simp add: leases_ok_def)

lemma leases_okD:
  assumes "leases_ok t" and "tget t k = Some l"
  shows "l_ID l = k" and "1 \<le> l_Version l" and "l_Version l < 2 ^ 63"
  using assms by (auto simp: leases_ok_def)

lemma in_slot_rows:
  "leases_ok t \<Longrightarrow> l \<in> set (slot_rows t s) \<longleftrightarrow> tget t (l_ID l) = Some l \<and> l_slot l = s"
  unfolding slot_rows_def leases_ok_def by (auto dest: trows_tget tget_in_trows)

lemma in_trows_lease: "leases_ok t \<Longrightarrow> l \<in> set (trows t) \<longleftrightarrow> tget t (l_ID l) = Some l"
  using in_slot_rows [of t l "l_slot l"] by (simp add: slot_rows_def)

lemma newest_None [simp]: "newest ls = None \<longleftrightarrow> ls = []"
  by (cases ls) (auto split: option.splits)

lemma newest_Some: "newest ls = Some m \<Longrightarrow> m \<in> set ls \<and> (\<forall>l \<in> set ls. l_Version l \<le> l_Version m)"
  by (induction ls arbitrary: m) (force split: option.splits if_splits)+

lemma foldr_max_newest:
  "foldr max (map l_Version ls) 0 = (case newest ls of None \<Rightarrow> 0 | Some m \<Rightarrow> l_Version m)"
  by (induction ls) (auto split: option.splits)

lemma MaxLeaseVersion_latest:
  "MaxLeaseVersion t s = (case GetLatestLease t s of None \<Rightarrow> 0 | Some l \<Rightarrow> l_Version l)"
  by (simp add: MaxLeaseVersion_def GetLatestLease_def foldr_max_newest)

lemma MaxLeaseVersion_upper:
  assumes "leases_ok t" and "tget t k = Some l" and "l_slot l = s"
  shows "l_Version l \<le> MaxLeaseVersion t s"
proof -
  have "l \<in> set (slot_rows t s)" using assms leases_okD(1) [OF assms(1,2)] by (simp add: in_slot_rows)
  then show ?thesis
    by (cases "GetLatestLease t s")
       (auto simp: MaxLeaseVersion_latest GetLatestLease_def dest: newest_Some)
qed

lemma GetLatestLease_Some:
  assumes "leases_ok t" and "GetLatestLease t s = Some m"
  shows "tget t (l_ID m) = Some m" and "l_slot m = s" and "l_Version m = MaxLeaseVersion t s"
  using newest_Some [of "slot_rows t s" m] assms
  by (auto simp: in_slot_rows MaxLeaseVersion_latest GetLatestLease_def)

lemma MaxLeaseVersion_bound:
  assumes "leases_ok t"
  shows "MaxLeaseVersion t s < 2 ^ 63"
proof (cases "GetLatestLease t s")
  case None
  then show ?thesis by (simp add: MaxLeaseVersion_latest)
next
  case (Some m)
  from leases_okD(3) [OF assms GetLatestLease_Some(1) [OF assms Some]] Some show ?thesis
    by (simp add: MaxLeaseVersion_latest)
qed

lemma MaxLeaseVersion_eqI:
  assumes "leases_ok t" and "tget t k = Some l" and "l_slot l = s" and "l_Version l = v"
    and "\<And>k' l'. tget t k' = Some l' \<Longrightarrow> l_slot l' = s \<Longrightarrow> l_Version l' \<le> v"
  shows "MaxLeaseVersion t s = v"
proof (cases "GetLatestLease t s")
  case None
  then have "slot_rows t s = []" by (simp add: GetLatestLease_def)
  moreover have "l \<in> set (slot_rows t s)"
    using assms leases_okD(1) [OF assms(1,2)] by (simp add: in_slot_rows)
  ultimately show ?thesis by simp
next
  case (Some m)
  from GetLatestLease_Some [OF assms(1) Some] assms(5) have "MaxLeaseVersion t s \<le> v" by metis
  with MaxLeaseVersion_upper [OF assms(1-3)] assms(4) show ?thesis by simp
qed

text \<open>The version of a slot depends only on the versions of its rows.\<close>

lemma MaxLeaseVersion_cong:
  assumes "leases_ok t" and "leases_ok t'"
    and "\<And>k. map_option l_Version (case tget t k of Some l \<Rightarrow> if l_slot l = s then Some l else None | None \<Rightarrow> None)
            = map_option l_Version (case tget t' k of Some l \<Rightarrow> if l_slot l = s then Some l else None | None \<Rightarrow> None)"
  shows "MaxLeaseVersion t s = MaxLeaseVersion t' s"
proof -
  have le: "MaxLeaseVersion u s \<le> MaxLeaseVersion u' s"
    if ok: "leases_ok u" "leases_ok u'" and
      eq: "\<And>k. map_option l_Version (case tget u k of Some l \<Rightarrow> if l_slot l = s then Some l else None | None \<Rightarrow> None)
            = map_option l_Version (case tget u' k of Some l \<Rightarrow> if l_slot l = s then Some l else None | None \<Rightarrow> None)"
    for u u'
  proof (cases "GetLatestLease u s")
    case None
    then show ?thesis by (simp add: MaxLeaseVersion_latest)
  next
    case (Some m)
    note m = GetLatestLease_Some [OF ok(1) Some]
    from eq [of "l_ID m"] m(1,2) obtain m' where "tget u' (l_ID m) = Some m'" "l_slot m' = s"
      "l_Version m' = l_Version m" by (auto split: option.splits if_splits)
    with MaxLeaseVersion_upper [OF ok(2)] m(3) show ?thesis by metis
  qed
  show ?thesis using le [OF assms(1,2)] le [OF assms(2,1)] assms(3) by (simp add: le_antisym)
qed

section \<open>Operations keep the table well formed\<close>

lemma leases_ok_tput [inv_intros]:
  assumes "leases_ok t" and "l_ID l = k" and "1 \<le> l_Version l" and "l_Version l < 2 ^ 63"
    and "\<And>k' l'. tget t k' = Some l' \<Longrightarrow> k' \<noteq> k \<Longrightarrow> l_slot l' = l_slot l \<Longrightarrow>
      l_Version l' \<noteq> l_Version l \<and>
      \<not> (l_Status l' = LeaseStatusActive \<and> l_Status l = LeaseStatusActive)"
  shows "leases_ok (tput k l t)"
  using assms unfolding leases_ok_def
  by (intro conjI allI impI) (simp_all split: if_splits, metis+)

lemma slot_takenD:
  assumes "\<not> slot_taken t l" and "tget t k = Some l'" and "leases_ok t" and "k \<noteq> l_ID l"
    and "l_slot l' = l_slot l"
  shows "\<not> (l_Status l' = LeaseStatusActive \<and> l_Status l = LeaseStatusActive)"
proof
  assume a: "l_Status l' = LeaseStatusActive \<and> l_Status l = LeaseStatusActive"
  have "l' \<in> set (trows t)" using assms(2) by (rule tget_in_trows)
  moreover have "l_ID l' \<noteq> l_ID l" using leases_okD(1) [OF assms(3,2)] assms(4) by simp
  ultimately show False using a assms(1,5) unfolding slot_taken_def by blast
qed

lemma syncLeaseExpiry_frame [simp]:
  "l_ID (syncLeaseExpiry l) = l_ID l" "l_RunID (syncLeaseExpiry l) = l_RunID l"
  "l_TaskID (syncLeaseExpiry l) = l_TaskID l" "l_Status (syncLeaseExpiry l) = l_Status l"
  "l_Version (syncLeaseExpiry l) = l_Version l" "l_HolderID (syncLeaseExpiry l) = l_HolderID l"
  by (simp_all add: syncLeaseExpiry_def Let_def)

text \<open>Writing a row whose version is above the slot's keeps the table well formed and makes it
  the slot's version.\<close>

lemma tput_newer:
  assumes "leases_ok t" and "l_Version l > MaxLeaseVersion t (l_slot l)" and "l_Version l < 2 ^ 63"
    and "\<not> slot_taken t l"
  shows "leases_ok (tput (l_ID l) l t)"
    and "MaxLeaseVersion (tput (l_ID l) l t) (l_slot l) = l_Version l"
proof -
  have above: "l_Version l' < l_Version l" if "tget t k' = Some l'" "l_slot l' = l_slot l" for k' l'
    using MaxLeaseVersion_upper [OF assms(1) that] assms(2) by simp
  show ok: "leases_ok (tput (l_ID l) l t)"
    using assms above slot_takenD [OF assms(4) _ assms(1)]
    by (intro leases_ok_tput) (auto dest: order_less_imp_not_eq)
  show "MaxLeaseVersion (tput (l_ID l) l t) (l_slot l) = l_Version l"
    by (rule MaxLeaseVersion_eqI [OF ok, of "l_ID l" l])
       (auto split: if_splits dest: above [THEN less_imp_le])
qed

lemma SaveLease_ok [inv_intros]:
  assumes "leases_ok t" and "SaveLease l t = (out, t')"
  shows "leases_ok t'"
proof -
  let ?l1 = "syncLeaseExpiry l"
  let ?m = "MaxLeaseVersion t (l_slot ?l1)"
  let ?l2 = "if l_Version ?l1 \<le> ?m then ?l1\<lparr>l_Version := u64_inc ?m\<rparr> else ?l1"
  have slot: "l_slot ?l2 = l_slot ?l1" by simp
  from assms(2) consider "t' = t" | "t' = tput (l_ID ?l2) ?l2 t" "l_Version ?l2 < 2 ^ 63"
    "\<not> slot_taken t ?l2"
    unfolding SaveLease_def Let_def by (auto simp: int64FromUint64_def split: if_splits)
  then show ?thesis
  proof cases
    case 2
    have "?m < 2 ^ 63" by (rule MaxLeaseVersion_bound [OF assms(1)])
    then have "l_Version ?l2 > MaxLeaseVersion t (l_slot ?l2)"
      unfolding slot by (simp add: u64_inc_less)
    from tput_newer(1) [OF assms(1) this 2(2,3)] 2(1) show ?thesis by simp
  qed (use assms in simp)
qed

lemma insert_lease_cases:
  assumes "leases_ok t" and "MaxLeaseVersion t (l_slot l) = n" and "insert_lease l n t = (out, t')"
  obtains (same) "t' = t" "out \<noteq> Inr True"
  | (inserted) l' where "out = Inr True" "tget t (l_ID l) = None" "t' = tput (l_ID l) l' t"
      "l_ID l' = l_ID l" "l_slot l' = l_slot l" "l_Version l' = n + 1" "l_Status l' = LeaseStatusActive"
      "l_HolderID l' = l_HolderID l"
      "leases_ok t'" "MaxLeaseVersion t' (l_slot l) = n + 1" "\<not> slot_taken t l'"
proof (cases "out = Inr True")
  case False
  with assms(3) have "t' = t"
    by (auto simp: insert_lease_def Let_def split: sum.splits if_splits)
  with False show thesis by (rule same [rotated])
next
  case True
  let ?l' = "syncLeaseExpiry (l\<lparr>l_Version := u64_inc n, l_Status := LeaseStatusActive\<rparr>)"
  from True assms(3) have new: "tget t (l_ID l) = None" "t' = tput (l_ID l) ?l' t"
    "u64_inc n < 2 ^ 63" "\<not> slot_taken t ?l'"
    by (auto simp: insert_lease_def Let_def int64FromUint64_def split: if_splits)
  have "n < 2 ^ 63" using MaxLeaseVersion_bound [OF assms(1)] assms(2) by blast
  then have v: "l_Version ?l' = n + 1" by (simp add: u64_inc_less)
  have newer: "l_Version ?l' > MaxLeaseVersion t (l_slot ?l')" using v assms(2) by simp
  have "leases_ok t'" "MaxLeaseVersion t' (l_slot l) = n + 1"
    using tput_newer [OF assms(1) newer _ new(4)] new(2,3) v by simp_all
  with new v True show thesis by (intro inserted) simp_all
qed

text \<open>Marking a lease expired keeps its version, so the slot's version too.\<close>

lemma expire_row:
  assumes "leases_ok t" and "tget t k = Some l"
  shows "leases_ok (tput k (l\<lparr>l_Status := LeaseStatusExpired\<rparr>) t)"
    and "MaxLeaseVersion (tput k (l\<lparr>l_Status := LeaseStatusExpired\<rparr>) t) s = MaxLeaseVersion t s"
proof -
  show ok: "leases_ok (tput k (l\<lparr>l_Status := LeaseStatusExpired\<rparr>) t)"
    using assms by (intro leases_ok_tput) (auto simp: leases_ok_def)
  show "MaxLeaseVersion (tput k (l\<lparr>l_Status := LeaseStatusExpired\<rparr>) t) s = MaxLeaseVersion t s"
    by (rule MaxLeaseVersion_cong [OF ok assms(1)]) (auto simp: assms(2) split: option.splits)
qed

text \<open>What an acquisition did: nothing, or it expired a stale lease, or it installed the new
  one (after expiring a stale one).\<close>

lemma AcquireWithExpectedVersion_cases:
  assumes "leases_ok t" and "AcquireWithExpectedVersion now l n t = (out, t')"
  obtains (same) "t' = t" "out \<noteq> Inr True"
  | (expired) m where "out \<noteq> Inr True" "GetLatestLease t (l_slot l) = Some m"
      "t' = tput (l_ID m) (m\<lparr>l_Status := LeaseStatusExpired\<rparr>) t"
  | (acquired) t1 l' where "out = Inr True" "MaxLeaseVersion t (l_slot l) = n"
      "t1 = t \<or> (\<exists>m. GetLatestLease t (l_slot l) = Some m \<and> l_Status m = LeaseStatusActive \<and>
         \<not> l_ExpiresAt m > now \<and> t1 = tput (l_ID m) (m\<lparr>l_Status := LeaseStatusExpired\<rparr>) t)"
      "leases_ok t1" "tget t1 (l_ID l) = None" "t' = tput (l_ID l) l' t1"
      "l_ID l' = l_ID l" "l_slot l' = l_slot l" "l_Version l' = n + 1" "l_Status l' = LeaseStatusActive"
      "l_HolderID l' = l_HolderID l"
      "leases_ok t'" "MaxLeaseVersion t' (l_slot l) = n + 1" "\<not> slot_taken t1 l'"
proof -
  consider (no) "t' = t" "out \<noteq> Inr True"
  | (fresh) "MaxLeaseVersion t (l_slot l) = n" "insert_lease l n t = (out, t')"
  | (stale) m where "MaxLeaseVersion t (l_slot l) = n" "GetLatestLease t (l_slot l) = Some m"
      "l_Status m = LeaseStatusActive" "\<not> l_ExpiresAt m > now"
      "insert_lease l n (tput (l_ID m) (m\<lparr>l_Status := LeaseStatusExpired\<rparr>) t) = (out, t')"
    using assms(2) GetLatestLease_Some(1) [OF assms(1)]
    by (auto simp: AcquireWithExpectedVersion_def Let_def MaxLeaseVersion_latest tupdate_where_def
        split: if_splits option.splits sum.splits)
  then show thesis
  proof cases
    case no
    then show thesis by (rule same)
  next
    case fresh
    from assms(1) fresh show thesis
      by (cases rule: insert_lease_cases) (use fresh assms(1) same acquired [of t] in auto)
  next
    case (stale m)
    let ?t1 = "tput (l_ID m) (m\<lparr>l_Status := LeaseStatusExpired\<rparr>) t"
    note m = GetLatestLease_Some(1) [OF assms(1) stale(2)]
    have "MaxLeaseVersion ?t1 (l_slot l) = n" using expire_row(2) [OF assms(1) m] stale(1) by simp
    from expire_row(1) [OF assms(1) m] this stale(5) show thesis
      by (cases rule: insert_lease_cases)
         (use stale expire_row(1) [OF assms(1) m] expired acquired [of ?t1] in auto)
  qed
qed

lemma AcquireWithExpectedVersion_ok [inv_intros]:
  assumes "leases_ok t" and "AcquireWithExpectedVersion now l n t = (out, t')"
  shows "leases_ok t'"
  using assms
proof (cases rule: AcquireWithExpectedVersion_cases)
  case (expired m)
  then show ?thesis using expire_row(1) [OF assms(1) GetLatestLease_Some(1) [OF assms(1)]] by blast
qed (use assms in auto)

lemma ExtendLease_cases:
  assumes "leases_ok t" and "ExtendLease now k w e t = (out, t')"
  obtains (same) "t' = t" "out \<noteq> Inr True"
  | (extended) l l' where "out = Inr True" "tget t k = Some l" "t' = tput k l' t"
      "l_Status l = LeaseStatusActive" "l_HolderID l = w" "l_ExpiresAt l > now"
      "l_Version l = MaxLeaseVersion t (l_slot l)"
      "l' = l\<lparr>l_Version := l_Version l + 1, l_ExpiresAt := e, l_Expiry := e, l_HeartbeatAt := now\<rparr>"
      "l_Version l + 1 < 2 ^ 63"
proof (cases "out = Inr True")
  case False
  with assms(2) have "t' = t"
    by (auto simp: ExtendLease_def Let_def tupdate_where_def split: sum.splits option.splits if_splits)
  with False show thesis by (rule same [rotated])
next
  case True
  with assms(2) obtain l latest where l: "tget t k = Some l" "l_Status l = LeaseStatusActive"
    "l_HolderID l = w" "l_ExpiresAt l > now" "u64_inc (l_Version l) < 2 ^ 63"
    "GetLatestLease t (l_slot l) = Some latest" "l_ID latest = k"
    "t' = tput k (l\<lparr>l_Version := u64_inc (l_Version l), l_ExpiresAt := e, l_Expiry := e,
       l_HeartbeatAt := now\<rparr>) t"
    by (auto simp: ExtendLease_def LoadLease_def ActiveLeaseForTask_def Let_def tupdate_where_def
        int64FromUint64_def split: sum.splits option.splits if_splits)
  have v: "u64_inc (l_Version l) = l_Version l + 1"
    using leases_okD(3) [OF assms(1) l(1)] by (simp add: u64_inc_less)
  have "l_Version l = MaxLeaseVersion t (l_slot l)"
    using GetLatestLease_Some [OF assms(1) l(6)] l(1,7) by simp
  with True l v show thesis by (intro extended [of l]) simp_all
qed

lemma ReleaseExpiredLease_cases:
  assumes "leases_ok t" and "ReleaseExpiredLease k n at t = (out, t')"
  obtains (same) "t' = t" "out \<noteq> Inr True"
  | (released) l l' where "out = Inr True" "tget t k = Some l" "t' = tput k l' t"
      "l_Status l = LeaseStatusActive" "l_Version l = n" "\<not> l_ExpiresAt (syncLeaseExpiry l) > at"
      "l_Version l = MaxLeaseVersion t (l_slot l)"
      "l' = (syncLeaseExpiry l)\<lparr>l_Status := LeaseStatusReleased, l_Version := n + 1\<rparr>"
      "n + 1 < 2 ^ 63"
proof (cases "out = Inr True")
  case False
  with assms(2) have "t' = t"
    by (auto simp: ReleaseExpiredLease_def Let_def tupdate_where_def
        split: sum.splits option.splits if_splits)
  with False show thesis by (rule same [rotated])
next
  case True
  with assms(2) obtain l where l: "tget t k = Some l" "l_Status l = LeaseStatusActive"
    "l_Version l = n" "u64_inc n < 2 ^ 63" "l_ExpiresAt (syncLeaseExpiry l) \<le> at"
    "l_Version l = MaxLeaseVersion t (l_slot l)"
    "t' = tput k ((syncLeaseExpiry l)\<lparr>l_Status := LeaseStatusReleased, l_Version := u64_inc n\<rparr>) t"
    by (auto simp: ReleaseExpiredLease_def LoadLease_def Let_def tupdate_where_def
        int64FromUint64_def split: sum.splits option.splits if_splits)
  have v: "u64_inc n = n + 1" using leases_okD(3) [OF assms(1) l(1)] l(3) by (simp add: u64_inc_less)
  with True l show thesis by (intro released [of l]) simp_all
qed

text \<open>Both replace the newest row of its slot by one with the next version.\<close>

lemma tput_next_version:
  assumes "leases_ok t" and "tget t k = Some l" and "l_Version l = MaxLeaseVersion t (l_slot l)"
    and "l_ID l' = l_ID l" and "l_slot l' = l_slot l" and "l_Version l' = l_Version l + 1"
    and "l_Version l' < 2 ^ 63" and "l_Status l = LeaseStatusActive"
  shows "leases_ok (tput k l' t)" and "MaxLeaseVersion (tput k l' t) (l_slot l) = l_Version l + 1"
proof -
  have k: "k = l_ID l'" using leases_okD(1) [OF assms(1,2)] assms(4) by simp
  have "\<not> slot_taken t l'"
  proof
    assume "slot_taken t l'"
    then obtain row where row: "row \<in> set (trows t)" "l_ID row \<noteq> k" "l_slot row = l_slot l"
      "l_Status row = LeaseStatusActive"
      unfolding slot_taken_def k by (auto simp: assms(5))
    from row(1) have "tget t (l_ID row) = Some row" using in_trows_lease [OF assms(1)] by simp
    with row assms(1,2,8) show False unfolding leases_ok_def by metis
  qed
  moreover have "l_Version l' > MaxLeaseVersion t (l_slot l')" using assms(3,5,6) by simp
  ultimately show "leases_ok (tput k l' t)" "MaxLeaseVersion (tput k l' t) (l_slot l) = l_Version l + 1"
    using tput_newer [OF assms(1) _ assms(7)] assms(5,6) k by simp_all
qed

lemma ExtendLease_ok [inv_intros]:
  assumes "leases_ok t" and "ExtendLease now k w e t = (out, t')"
  shows "leases_ok t'"
  using assms
proof (cases rule: ExtendLease_cases)
  case (extended l l')
  then show ?thesis using tput_next_version(1) [OF assms(1) extended(2,7)] by simp
qed (use assms in auto)

lemma ReleaseExpiredLease_ok [inv_intros]:
  assumes "leases_ok t" and "ReleaseExpiredLease k n at t = (out, t')"
  shows "leases_ok t'"
  using assms
proof (cases rule: ReleaseExpiredLease_cases)
  case (released l l')
  then show ?thesis using tput_next_version(1) [OF assms(1) released(2,7)] by simp
qed (use assms in auto)

section \<open>Histories\<close>

datatype lease_op =
    Save lease
  | Acquire time lease nat
  | Extend time string string time
  | ReleaseExpired string nat time

fun lease_step :: "lease_table \<Rightarrow> lease_op \<Rightarrow> lease_table" where
  "lease_step t (Save l) = snd (SaveLease l t)"
| "lease_step t (Acquire now l n) = snd (AcquireWithExpectedVersion now l n t)"
| "lease_step t (Extend now k w e) = snd (ExtendLease now k w e t)"
| "lease_step t (ReleaseExpired k n at) = snd (ReleaseExpiredLease k n at t)"

interpretation lease_sys: guarded_system "\<lambda>t. t = []" lease_step leases_ok
proof
  fix t :: lease_table and e
  assume "leases_ok t"
  then show "leases_ok (lease_step t e)"
    by (cases e) (metis SaveLease_ok AcquireWithExpectedVersion_ok ExtendLease_ok
      ReleaseExpiredLease_ok lease_step.simps prod.collapse)+
qed simp

definition lease_cas ::
  "lease_table \<Rightarrow> slot \<Rightarrow> nat \<Rightarrow> time \<times> lease \<Rightarrow> lease_table option" where
  "lease_cas t s n = (\<lambda>(now, l).
     case AcquireWithExpectedVersion now (l\<lparr>l_RunID := fst s, l_TaskID := snd s\<rparr>) n t of
       (Inr True, t') \<Rightarrow> Some t'
     | _ \<Rightarrow> None)"

lemma lease_casD:
  assumes "leases_ok t" and "lease_cas t s n r = Some t'"
  shows "MaxLeaseVersion t s = n" and "MaxLeaseVersion t' s = n + 1" and "leases_ok t'"
    and "s' \<noteq> s \<Longrightarrow> MaxLeaseVersion t' s' = MaxLeaseVersion t s'"
proof -
  obtain now l where r: "r = (now, l)" by (cases r)
  let ?l = "l\<lparr>l_RunID := fst s, l_TaskID := snd s\<rparr>"
  have slot: "l_slot ?l = s" by simp
  from assms(2) r have run: "AcquireWithExpectedVersion now ?l n t = (Inr True, t')"
    by (auto simp: lease_cas_def split: prod.splits sum.splits bool.splits)
  from assms(1) run show "leases_ok t'" by (rule AcquireWithExpectedVersion_ok)
  from assms(1) run have "MaxLeaseVersion t s = n \<and> MaxLeaseVersion t' s = n + 1 \<and>
      (s' \<noteq> s \<longrightarrow> MaxLeaseVersion t' s' = MaxLeaseVersion t s')"
  proof (cases rule: AcquireWithExpectedVersion_cases)
    case (acquired t1 l')
    have "MaxLeaseVersion t' s' = MaxLeaseVersion t1 s'" if "s' \<noteq> s"
      by (rule MaxLeaseVersion_cong [OF acquired(12,4)])
         (use acquired(5,6,8) that slot in \<open>auto split: option.splits\<close>)
    moreover have "MaxLeaseVersion t1 s' = MaxLeaseVersion t s'"
      using acquired(3) expire_row(2) [OF assms(1) GetLatestLease_Some(1) [OF assms(1)]] by metis
    ultimately show ?thesis using acquired(2,13) slot by simp
  qed simp_all
  then show "MaxLeaseVersion t s = n" "MaxLeaseVersion t' s = n + 1"
    "s' \<noteq> s \<Longrightarrow> MaxLeaseVersion t' s' = MaxLeaseVersion t s'" by blast+
qed

interpretation lease_slots: versioned_store leases_ok MaxLeaseVersion lease_cas
  by unfold_locales (blast dest: lease_casD)+

section \<open>Fencing\<close>

definition inactive :: "lease_table \<Rightarrow> string \<Rightarrow> bool" where
  "inactive t k \<longleftrightarrow> (\<exists>l. tget t k = Some l \<and> l_Status l \<noteq> LeaseStatusActive)"

fun is_save :: "lease_op \<Rightarrow> bool" where
  "is_save (Save _) = True"
| "is_save _ = False"

lemma inactive_step:
  assumes "leases_ok t" and "inactive t k" and "\<not> is_save e"
  shows "inactive (lease_step t e) k"
proof (cases e)
  case (Acquire now l n)
  obtain out t' where run: "AcquireWithExpectedVersion now l n t = (out, t')" by fastforce
  from assms(1) run have "inactive t' k"
  proof (cases rule: AcquireWithExpectedVersion_cases)
    case (acquired t1 l')
    have "inactive t1 k" using acquired(3) assms(2) by (auto simp: inactive_def)
    with acquired(5,6) show ?thesis by (auto simp: inactive_def)
  qed (use assms(2) in \<open>auto simp: inactive_def\<close>)
  with run Acquire show ?thesis by simp
next
  case (Extend now k' w e')
  obtain out t' where run: "ExtendLease now k' w e' t = (out, t')" by fastforce
  from assms(1) run have "inactive t' k"
    by (cases rule: ExtendLease_cases) (use assms(2) in \<open>auto simp: inactive_def\<close>)
  with run Extend show ?thesis by simp
next
  case (ReleaseExpired k' n at)
  obtain out t' where run: "ReleaseExpiredLease k' n at t = (out, t')" by fastforce
  from assms(1) run have "inactive t' k"
    by (cases rule: ReleaseExpiredLease_cases) (use assms(2) in \<open>auto simp: inactive_def\<close>)
  with run ReleaseExpired show ?thesis by simp
qed (use assms(3) in simp)

lemma inactive_run:
  "leases_ok t \<Longrightarrow> inactive t k \<Longrightarrow> \<forall>e \<in> set es. \<not> is_save e \<Longrightarrow>
     inactive (foldl lease_step t es) k"
  by (induction es arbitrary: t) (auto intro: inactive_step lease_sys.inv_step)

lemma inactive_not_extended:
  "inactive t k \<Longrightarrow> ExtendLease now k w e t = (Inr False, t)"
  by (auto simp: inactive_def ExtendLease_def LoadLease_def split: option.splits)

lemma acquired_supersedes:
  assumes "leases_ok t" and "AcquireWithExpectedVersion now l n t = (Inr True, t')"
    and "tget t k = Some old" and "l_slot old = l_slot l"
  shows "inactive t' k"
  using assms(1,2)
proof (cases rule: AcquireWithExpectedVersion_cases)
  case (acquired t1 l')
  have kn: "k \<noteq> l_ID l" using acquired(3,5) assms(3) by (auto split: if_splits)
  obtain old' where old': "tget t1 k = Some old'" "l_slot old' = l_slot old"
    using acquired(3) assms(3) GetLatestLease_Some(1) [OF assms(1)]
    by (cases "t1 = t") (fastforce split: if_splits)+
  have "\<not> (l_Status old' = LeaseStatusActive \<and> l_Status l' = LeaseStatusActive)"
    by (rule slot_takenD [OF acquired(14) old'(1) acquired(4)]) (use kn old' acquired(7,8) assms(4) in auto)
  with acquired(6,10) old'(1) kn show ?thesis by (simp add: inactive_def)
qed simp_all

section \<open>Correctness\<close>

definition ex_lease :: "string \<Rightarrow> string \<Rightarrow> lease" where
  "ex_lease lid holder = \<lparr>l_ID = lid, l_RunID = ''run'', l_TaskID = ''task'', l_EnvelopeID = [],
     l_HolderType = ''agent'', l_HolderID = holder, l_TaskVersion = 1, l_AcquiredAt = 1,
     l_ExpiresAt = 10, l_HeartbeatAt = 1, l_Status = LeaseStatusActive, l_Version = 0, l_Expiry = 0\<rparr>"

definition ex_leases :: lease_table where
  "ex_leases = snd (AcquireWithExpectedVersion 1 (ex_lease ''l1'' ''w1'') 0 [])"

definition ex_takeover :: lease_table where
  "ex_takeover = snd (AcquireWithExpectedVersion 20 (ex_lease ''l2'' ''w2'') 1 ex_leases)"

lemma ex_leases_ok: "leases_ok ex_leases"
  unfolding ex_leases_def
  by (rule AcquireWithExpectedVersion_ok [OF leases_ok_Nil]) (rule surjective_pairing)

lemma ex_takeover_run:
  "AcquireWithExpectedVersion 20 (ex_lease ''l2'' ''w2'') 1 ex_leases = (Inr True, ex_takeover)"
  by code_simp

text \<open>At every point of every history of saves, acquisitions, extensions and releases a
  run's task has at most one active lease, and no two of its leases share a version.\<close>

theorem leases_one_active:
  assumes "tget (foldl lease_step [] ops) k = Some l" and "tget (foldl lease_step [] ops) k' = Some l'"
    and "l_slot l = l_slot l'"
    and "l_Version l = l_Version l' \<or>
      l_Status l = LeaseStatusActive \<and> l_Status l' = LeaseStatusActive"
  shows "k = k'"
proof -
  have "leases_ok (foldl lease_step [] ops)"
    using lease_sys.reachable_inv [of "[]" ops] by (simp add: lease_sys.run_events_def)
  with assms show ?thesis unfolding leases_ok_def by metis
qed

theorem leases_one_active_witness:
  "\<exists>l. tget (foldl lease_step [] [Acquire 1 (ex_lease ''l1'' ''w1'') 0]) ''l1'' = Some l"
proof -
  let ?t = "foldl lease_step [] [Acquire 1 (ex_lease ''l1'' ''w1'') 0]"
  have "tget ?t ''l1'' \<noteq> None" by code_simp
  then obtain l where "tget ?t ''l1'' = Some l" by blast
  with leases_one_active [of "[Acquire 1 (ex_lease ''l1'' ''w1'') 0]" "''l1''" l "''l1''" l]
  show ?thesis by blast
qed

text \<open>A lease that is active and not yet expired cannot be taken over: an acquisition
  succeeds only when no lease of the slot is live, and then the new lease is the slot's only
  active one, held by the caller at the next version.\<close>

theorem acquire_respects_live_lease:
  assumes "leases_ok t" and "AcquireWithExpectedVersion now l n t = (Inr True, t')"
  shows "(\<forall>k old. tget t k = Some old \<longrightarrow> l_slot old = l_slot l \<longrightarrow>
      l_Status old = LeaseStatusActive \<longrightarrow> \<not> l_ExpiresAt old > now) \<and>
    (\<exists>new. tget t' (l_ID l) = Some new \<and> l_slot new = l_slot l \<and>
      l_Status new = LeaseStatusActive \<and> l_HolderID new = l_HolderID l \<and> l_Version new = n + 1) \<and>
    (\<forall>k old. tget t k = Some old \<longrightarrow> l_slot old = l_slot l \<longrightarrow> inactive t' k)"
proof -
  have "\<not> l_ExpiresAt old > now" if old: "tget t k = Some old" "l_slot old = l_slot l"
    "l_Status old = LeaseStatusActive" for k old
    using assms
  proof (cases rule: AcquireWithExpectedVersion_cases)
    case (acquired t1 l')
    have "t1 \<noteq> t"
      using slot_takenD [OF acquired(14)] acquired(4,5,7,8,10) old by (metis option.distinct(1))
    then obtain m where m: "GetLatestLease t (l_slot l) = Some m" "l_Status m = LeaseStatusActive"
      "\<not> l_ExpiresAt m > now" using acquired(3) by blast
    note gm = GetLatestLease_Some [OF assms(1) m(1)]
    have "k = l_ID m" using assms(1) old gm(1,2) m(2) unfolding leases_ok_def by metis
    with gm(1) old(1) m(3) show ?thesis by simp
  qed simp_all
  moreover have "\<exists>new. tget t' (l_ID l) = Some new \<and> l_slot new = l_slot l \<and>
      l_Status new = LeaseStatusActive \<and> l_HolderID new = l_HolderID l \<and> l_Version new = n + 1"
    using assms by (cases rule: AcquireWithExpectedVersion_cases) auto
  ultimately show ?thesis using acquired_supersedes [OF assms] by blast
qed

theorem acquire_respects_live_lease_witness:
  "\<exists>new. tget ex_takeover ''l2'' = Some new \<and> l_HolderID new = ''w2'' \<and> l_Version new = 2"
  using acquire_respects_live_lease [OF ex_leases_ok ex_takeover_run]
  by (auto simp: ex_lease_def)

text \<open>Fencing: once another worker has acquired the slot, the superseded lease can never
  be extended again, whatever acquisitions, extensions and releases follow: the old holder's
  heartbeat is refused and changes nothing.\<close>

theorem superseded_lease_fenced:
  assumes "leases_ok t" and "AcquireWithExpectedVersion now l n t = (Inr True, t')"
    and "tget t k = Some old" and "l_slot old = l_slot l" and "\<forall>e \<in> set es. \<not> is_save e"
  shows "ExtendLease now' k w expiry (foldl lease_step t' es) = (Inr False, foldl lease_step t' es)"
  by (intro inactive_not_extended inactive_run acquired_supersedes [OF assms(1-4)] assms(5)
        AcquireWithExpectedVersion_ok [OF assms(1,2)])

theorem superseded_lease_fenced_witness:
  "ExtendLease 21 ''l1'' ''w1'' 50 (foldl lease_step ex_takeover [Extend 21 ''l2'' ''w2'' 60]) =
     (Inr False, foldl lease_step ex_takeover [Extend 21 ''l2'' ''w2'' 60])"
proof -
  obtain old where old: "tget ex_leases ''l1'' = Some old" "l_slot old = (''run'', ''task'')"
  proof -
    have "case tget ex_leases ''l1'' of Some old \<Rightarrow> l_slot old = (''run'', ''task'') | None \<Rightarrow> False"
      by code_simp
    then show thesis using that by (auto split: option.splits)
  qed
  show ?thesis
    by (rule superseded_lease_fenced [OF ex_leases_ok ex_takeover_run old(1)])
       (simp_all add: old(2) ex_lease_def)
qed

text \<open>A heartbeat succeeds only for the current holder of the slot's newest, active,
  unexpired lease, and it advances the slot's version by one.\<close>

theorem extend_only_current_holder:
  assumes "leases_ok t" and "ExtendLease now k w expiry t = (Inr True, t')"
  shows "\<exists>l. tget t k = Some l \<and> l_HolderID l = w \<and> l_Status l = LeaseStatusActive \<and>
    l_ExpiresAt l > now \<and> l_Version l = MaxLeaseVersion t (l_slot l) \<and>
    tget t' k = Some (l\<lparr>l_Version := l_Version l + 1, l_ExpiresAt := expiry, l_Expiry := expiry,
      l_HeartbeatAt := now\<rparr>) \<and>
    MaxLeaseVersion t' (l_slot l) = l_Version l + 1"
  using assms
proof (cases rule: ExtendLease_cases)
  case (extended l l')
  then show ?thesis using tput_next_version(2) [OF assms(1) extended(2,7)] by auto
qed simp

theorem extend_only_current_holder_witness:
  "\<exists>l. tget ex_leases ''l1'' = Some l \<and> l_HolderID l = ''w1''"
proof -
  have "ExtendLease 5 ''l1'' ''w1'' 30 ex_leases =
      (Inr True, snd (ExtendLease 5 ''l1'' ''w1'' 30 ex_leases))"
    by code_simp
  from extend_only_current_holder [OF ex_leases_ok this] show ?thesis by blast
qed

text \<open>Racing acquisitions are linearised: in every serialisation each version of each
  slot is granted to at most one worker.\<close>

theorem lease_grants_distinct:
  assumes "leases_ok t"
  shows "distinct (lease_slots.committed t ws) \<and>
    MaxLeaseVersion (lease_slots.run_writes t ws) s =
      MaxLeaseVersion t s + length (filter (\<lambda>w. fst w = s) (lease_slots.committed t ws))"
  using lease_slots.committed_distinct [OF assms] lease_slots.version_counts_commits [OF assms]
  by simp

theorem lease_grants_distinct_witness:
  "distinct (lease_slots.committed [] [((''run'', ''task''), 0, 1, ex_lease ''l1'' ''w1''),
     ((''run'', ''task''), 0, 1, ex_lease ''l2'' ''w2'')]) \<and>
   lease_cas [] (''run'', ''task'') 0 (1, ex_lease ''l1'' ''w1'') \<noteq> None"
proof -
  have "lease_cas [] (''run'', ''task'') 0 (1, ex_lease ''l1'' ''w1'') \<noteq> None" by code_simp
  then show ?thesis using lease_grants_distinct [OF leases_ok_Nil] by blast
qed

end
