(* ===== verification/Action_Attempts.thy ===== *)
theory Action_Attempts
  imports Store_Interfaces
begin

text \<open>
  The side-effect ledger: \<^verbatim>\<open>ActionAttempt\<close> of
  \<^verbatim>\<open>internal/agentruntime/types.go\<close>, its operations in
  \<^verbatim>\<open>internal/store/sqlite/stores_governance.go\<close> and
  \<^verbatim>\<open>internal/store/sqlite/recovery.go\<close>, and the record storage of
  \<^verbatim>\<open>stores_core.go\<close> and \<^verbatim>\<open>payloads.go\<close> they go through.

  A row of \<^verbatim>\<open>records\<close> of kind \<^verbatim>\<open>action_attempt\<close> has the columns the queries
  use, the inline \<^verbatim>\<open>data\<close> and the digest of an external blob. \<^verbatim>\<open>preparePayload\<close>
  moves an encoding of more than 4096 bytes to a blob and leaves \<^verbatim>\<open>{}\<close> inline, which
  decodes to the zero attempt. \<open>json_len\<close> is the length of an attempt's JSON encoding; it
  is an argument of every operation that depends on it. The blob store is addressed by
  content, so a digest is represented by the payload it names.
\<close>

section \<open>Data\<close>

datatype attempt_status =
    ActionAttemptCreated
  | ActionAttemptRunning
  | ActionAttemptSucceeded
  | ActionAttemptFailed
  | ActionAttemptTimeout
  | ActionAttemptUnknown
  | ActionAttemptCancelled
  | ActionAttemptRetry
  | ActionAttemptOther string

record action_attempt =
  a_AttemptID :: string
  a_ActionID :: string
  a_RunID :: string
  a_TaskID :: string
  a_LeaseID :: string
  a_ToolName :: string
  a_Status :: attempt_status
  a_IdempotencyKey :: string
  a_InputHash :: string
  a_ExternalRequestID :: string
  a_ExternalResultRef :: string
  a_ToolResult :: string
  a_RequiresReconcile :: bool
  a_ExecutionID :: string
  a_OperationID :: string
  a_AttemptNumber :: int
  a_AttemptVersion :: nat
  a_AttemptKind :: string
  a_CheckpointSequence :: nat
  a_ContinuationPhase :: string

record attempt_selector =
  as_RunID :: string
  as_TaskID :: string
  as_ToolName :: string
  as_Statuses :: "attempt_status list"
  as_RequiresReconcile :: "bool option"
  as_Limit :: int

text \<open>The value \<^verbatim>\<open>json.Unmarshal\<close> gives for \<^verbatim>\<open>{}\<close>.\<close>

definition zero_attempt :: action_attempt where
  "zero_attempt = \<lparr>a_AttemptID = [], a_ActionID = [], a_RunID = [], a_TaskID = [], a_LeaseID = [],
     a_ToolName = [], a_Status = ActionAttemptOther [], a_IdempotencyKey = [], a_InputHash = [],
     a_ExternalRequestID = [], a_ExternalResultRef = [], a_ToolResult = [],
     a_RequiresReconcile = False, a_ExecutionID = [], a_OperationID = [], a_AttemptNumber = 0,
     a_AttemptVersion = 0, a_AttemptKind = [], a_CheckpointSequence = 0, a_ContinuationPhase = []\<rparr>"

record action_row =
  row_RunID :: string
  row_TaskID :: string
  row_Status :: attempt_status
  row_ToolName :: string
  row_IdempotencyKey :: string
  row_Data :: action_attempt
  row_DataSha256 :: "action_attempt option"

type_synonym action_table = "(string, action_row) table"

section \<open>Record storage\<close>

definition inlinePayloadLimit :: nat where
  "inlinePayloadLimit = 4096"

definition preparePayload ::
  "(action_attempt \<Rightarrow> nat) \<Rightarrow> action_attempt \<Rightarrow> action_attempt \<times> action_attempt option" where
  "preparePayload json_len payload =
     (if json_len payload \<le> inlinePayloadLimit then (payload, None)
      else (zero_attempt, Some payload))"

definition loadPayload :: "action_row \<Rightarrow> action_attempt" where
  "loadPayload row =
     (case row_DataSha256 row of None \<Rightarrow> row_Data row | Some payload \<Rightarrow> payload)"

text \<open>The unique index \<^verbatim>\<open>action_attempt_idempotency\<close> and its columns.\<close>

definition ikey :: "action_row \<Rightarrow> string \<times> string \<times> string \<times> string" where
  "ikey r = (row_RunID r, row_TaskID r, row_ToolName r, row_IdempotencyKey r)"

definition idempotency_clash :: "action_table \<Rightarrow> string \<Rightarrow> action_row \<Rightarrow> bool" where
  "idempotency_clash t k row \<longleftrightarrow> row_IdempotencyKey row \<noteq> [] \<and>
     (\<exists>(k', r) \<in> set t. k' \<noteq> k \<and> ikey r = ikey row)"

definition SaveActionAttempt ::
  "(action_attempt \<Rightarrow> nat) \<Rightarrow> action_attempt \<Rightarrow> action_table \<Rightarrow> (error + unit) \<times> action_table" where
  "SaveActionAttempt json_len a t =
     (let (inline, digest) = preparePayload json_len a;
          row = \<lparr>row_RunID = a_RunID a, row_TaskID = a_TaskID a, row_Status = a_Status a,
                 row_ToolName = a_ToolName a, row_IdempotencyKey = a_IdempotencyKey a,
                 row_Data = inline, row_DataSha256 = digest\<rparr>
      in if idempotency_clash t (a_AttemptID a) row
         then (Inl (ErrMessage ''save action_attempt''), t)
         else (Inr (), tput (a_AttemptID a) row t))"

definition LoadActionAttempt :: "action_table \<Rightarrow> string \<Rightarrow> error + action_attempt" where
  "LoadActionAttempt t aid =
     (case tget t aid of None \<Rightarrow> Inl ErrNotFound | Some row \<Rightarrow> Inr (loadPayload row))"

definition LoadActionAttemptByIdempotencyKey ::
  "action_table \<Rightarrow> string \<Rightarrow> string \<Rightarrow> string \<Rightarrow> string \<Rightarrow> error + action_attempt" where
  "LoadActionAttemptByIdempotencyKey t runID taskID toolName key =
     (case List.find (\<lambda>r. row_RunID r = runID \<and> row_TaskID r = taskID \<and>
              row_ToolName r = toolName \<and> row_IdempotencyKey r = key) (trows t) of
        None \<Rightarrow> Inl ErrNotFound
      | Some row \<Rightarrow> Inr (loadPayload row))"

text \<open>\<^verbatim>\<open>listRecords\<close>: all rows of the kind, or those of a run, in the order of the key.\<close>

definition list_attempts :: "action_table \<Rightarrow> string \<Rightarrow> action_attempt list" where
  "list_attempts t runID =
     map (loadPayload \<circ> snd) (sort_key fst
       (filter (\<lambda>(k, r). runID = [] \<or> row_RunID r = runID) t))"

definition ListActionAttempts :: "action_table \<Rightarrow> attempt_selector \<Rightarrow> action_attempt list" where
  "ListActionAttempts t selector =
     limit (sort_key a_AttemptID (filter (\<lambda>a.
       \<not> (as_TaskID selector \<noteq> [] \<and> a_TaskID a \<noteq> as_TaskID selector \<or>
          as_ToolName selector \<noteq> [] \<and> a_ToolName a \<noteq> as_ToolName selector \<or>
          as_Statuses selector \<noteq> [] \<and> \<not> contains (as_Statuses selector) (a_Status a) \<or>
          (case as_RequiresReconcile selector of
             None \<Rightarrow> False | Some b \<Rightarrow> a_RequiresReconcile a \<noteq> b)))
       (list_attempts t (as_RunID selector)))) (as_Limit selector)"

text \<open>The fields a resolution must keep.\<close>

definition same_identity :: "action_attempt \<Rightarrow> action_attempt \<Rightarrow> bool" where
  "same_identity a current \<longleftrightarrow>
     a_ActionID a = a_ActionID current \<and> a_RunID a = a_RunID current \<and>
     a_TaskID a = a_TaskID current \<and> a_LeaseID a = a_LeaseID current \<and>
     a_ToolName a = a_ToolName current \<and> a_IdempotencyKey a = a_IdempotencyKey current \<and>
     a_InputHash a = a_InputHash current \<and> a_ExternalRequestID a = a_ExternalRequestID current"

definition ResolveActionAttempt ::
  "action_attempt \<Rightarrow> action_table \<Rightarrow> (error + bool) \<times> action_table" where
  "ResolveActionAttempt a t =
     (case LoadActionAttempt t (a_AttemptID a) of
        Inl e \<Rightarrow> (Inl e, t)
      | Inr current \<Rightarrow>
          if a_Status current \<noteq> ActionAttemptUnknown \<or> \<not> a_RequiresReconcile current
          then (Inr False, t)
          else if a_Status a \<notin> {ActionAttemptSucceeded, ActionAttemptFailed, ActionAttemptTimeout,
                 ActionAttemptCancelled}
          then (Inr False, t)
          else if a_RequiresReconcile a \<or> \<not> same_identity a current then (Inr False, t)
          else case tget t (a_AttemptID a) of
            None \<Rightarrow> (Inr False, t)
          | Some row \<Rightarrow>
              if row_Status row = ActionAttemptUnknown
              then (Inr True, tput (a_AttemptID a)
                      (row\<lparr>row_Status := a_Status a, row_Data := a\<rparr>) t)
              else (Inr False, t))"

section \<open>The ledger as recovery reads it\<close>

definition ListReconcileAttempts :: "action_table \<Rightarrow> action_attempt list" where
  "ListReconcileAttempts t =
     filter (\<lambda>a. a_RequiresReconcile a \<or> a_Status a = ActionAttemptUnknown)
       (map (row_Data \<circ> snd) (sort_key fst
         (filter (\<lambda>(k, r). row_Status r = ActionAttemptUnknown) t)))"

definition ListSucceededActionAttempts ::
  "action_table \<Rightarrow> string \<Rightarrow> string \<Rightarrow> action_attempt list" where
  "ListSucceededActionAttempts t runID taskID =
     map (row_Data \<circ> snd) (sort_key fst
       (filter (\<lambda>(k, r). row_RunID r = runID \<and> row_TaskID r = taskID \<and>
          row_Status r = ActionAttemptSucceeded) t))"

text \<open>The loop of \<^verbatim>\<open>PrepareRecovery\<close> over created and running attempts: the inline data is
  decoded, marked unknown and written back, the digest stays.\<close>

definition incomplete :: "attempt_status \<Rightarrow> bool" where
  "incomplete st \<longleftrightarrow> st = ActionAttemptCreated \<or> st = ActionAttemptRunning"

definition quarantine_row :: "action_row \<Rightarrow> action_row" where
  "quarantine_row row = row\<lparr>row_Status := ActionAttemptUnknown,
     row_Data := (row_Data row)\<lparr>a_Status := ActionAttemptUnknown, a_RequiresReconcile := True\<rparr>\<rparr>"

fun quarantine_attempts ::
  "(string \<times> action_row) list \<Rightarrow> action_table \<Rightarrow> nat \<times> action_table" where
  "quarantine_attempts [] t = (0, t)"
| "quarantine_attempts ((k, row) # rows) t =
     (let (changed, t') = tupdate_where k (\<lambda>r. incomplete (row_Status r)) (quarantine_row row) t;
          (n, t'') = quarantine_attempts rows t'
      in (changed + n, t''))"

section \<open>Tool call charges\<close>

record charge =
  ch_ToolName :: string
  ch_InputHash :: string

type_synonym charge_table = "(string \<times> string \<times> string, charge) table"

definition RecordToolCallCharge ::
  "string \<Rightarrow> string \<Rightarrow> string \<Rightarrow> string \<Rightarrow> string \<Rightarrow> charge_table \<Rightarrow> (error + bool) \<times> charge_table" where
  "RecordToolCallCharge runID taskID callID toolName inputHash t =
     (let (changed, t') = tinsert_ignore (\<lambda>_. False) (runID, taskID, callID)
            \<lparr>ch_ToolName = toolName, ch_InputHash = inputHash\<rparr> t
      in if changed = 1 then (Inr True, t')
         else case tget t' (runID, taskID, callID) of
           None \<Rightarrow> (Inl (ErrMessage ''no rows''), t')
         | Some recorded \<Rightarrow>
             if ch_ToolName recorded \<noteq> toolName \<or> ch_InputHash recorded \<noteq> inputHash
             then (Inl (ErrMessage ''already charged with different input''), t')
             else (Inr False, t'))"

definition CountToolCallCharges :: "charge_table \<Rightarrow> string \<Rightarrow> string \<Rightarrow> nat" where
  "CountToolCallCharges t runID taskID =
     length (filter (\<lambda>((r, k, c), _). r = runID \<and> k = taskID) t)"

section \<open>The table invariant\<close>

text \<open>
  The columns of a row are those of the attempt it stores, and an idempotency key names at most
  one attempt of a tool in a task.
\<close>

definition row_ok :: "string \<Rightarrow> action_row \<Rightarrow> bool" where
  "row_ok k row \<longleftrightarrow> (let a = loadPayload row in a_AttemptID a = k \<and> a_RunID a = row_RunID row \<and>
     a_TaskID a = row_TaskID row \<and> a_ToolName a = row_ToolName row \<and>
     a_IdempotencyKey a = row_IdempotencyKey row \<and> a_Status a = row_Status row)"

definition idem_ok :: "action_table \<Rightarrow> bool" where
  "idem_ok t \<longleftrightarrow> table_ok t \<and> (\<forall>k k' r r'. tget t k = Some r \<longrightarrow> tget t k' = Some r' \<longrightarrow>
     row_IdempotencyKey r \<noteq> [] \<longrightarrow> ikey r = ikey r' \<longrightarrow> k = k')"

definition actions_ok :: "action_table \<Rightarrow> bool" where
  "actions_ok t \<longleftrightarrow> idem_ok t \<and>
     (\<forall>k row. tget t k = Some row \<longrightarrow> row_DataSha256 row = None \<longrightarrow> row_ok k row)"

lemma tget_set: "tget t k = Some v \<Longrightarrow> (k, v) \<in> set t"
  by (simp add: tget_def map_of_SomeD)

lemma ikey_key: "ikey r = ikey r' \<Longrightarrow> row_IdempotencyKey r = row_IdempotencyKey r'"
  by (simp add: ikey_def)

lemma idem_ok_tput:
  assumes "idem_ok t" and "\<And>k' r'. tget t k' = Some r' \<Longrightarrow> row_IdempotencyKey r \<noteq> [] \<Longrightarrow>
      ikey r' = ikey r \<Longrightarrow> k' = k"
  shows "idem_ok (tput k r t)"
  unfolding idem_ok_def
proof (intro conjI allI impI)
  show "table_ok (tput k r t)" using assms(1) by (simp add: idem_ok_def)
  fix j j' q q'
  assume a: "tget (tput k r t) j = Some q" "tget (tput k r t) j' = Some q'"
    "row_IdempotencyKey q \<noteq> []" "ikey q = ikey q'"
  have key: "row_IdempotencyKey q' \<noteq> []" using a(3) ikey_key [OF a(4)] by simp
  consider "j = k" "j' = k" | "j = k" "j' \<noteq> k" | "j \<noteq> k" "j' = k" | "j \<noteq> k" "j' \<noteq> k" by blast
  then show "j = j'"
  proof cases
    case 2
    then show ?thesis using a assms(2) [of j' q'] by simp
  next
    case 3
    then show ?thesis using a key assms(2) [of j q] by simp
  next
    case 4
    then have "tget t j = Some q" "tget t j' = Some q'" using a(1,2) by simp_all
    then show ?thesis using a(3,4) assms(1) unfolding idem_ok_def by blast
  qed simp
qed

lemma idem_ok_same_columns:
  "idem_ok t \<Longrightarrow> tget t k = Some r \<Longrightarrow> ikey r' = ikey r \<Longrightarrow> idem_ok (tput k r' t)"
  by (rule idem_ok_tput) (assumption, metis idem_ok_def ikey_key)

lemma idem_ok_save: "idem_ok t \<Longrightarrow> \<not> idempotency_clash t k r \<Longrightarrow> idem_ok (tput k r t)"
  by (rule idem_ok_tput) (auto simp: idempotency_clash_def dest: tget_set)

lemma SaveActionAttempt_ok [inv_intros]:
  assumes "actions_ok t" and "SaveActionAttempt json_len a t = (out, t')"
  shows "actions_ok t'"
proof (cases "out = Inr ()")
  case True
  with assms(2) obtain row where row: "\<not> idempotency_clash t (a_AttemptID a) row"
    "t' = tput (a_AttemptID a) row t" "row_ok (a_AttemptID a) row"
    by (auto simp: SaveActionAttempt_def Let_def preparePayload_def row_ok_def loadPayload_def
        split: if_splits)
  with assms(1) idem_ok_save show ?thesis by (auto simp: actions_ok_def)
next
  case False
  with assms show ?thesis
    by (auto simp: SaveActionAttempt_def Let_def split: if_splits prod.splits)
qed

lemma ResolveActionAttempt_cases:
  assumes "ResolveActionAttempt a t = (out, t')"
  obtains (same) "t' = t" "out \<noteq> Inr True"
  | (resolved) row where "out = Inr True" "tget t (a_AttemptID a) = Some row"
      "t' = tput (a_AttemptID a) (row\<lparr>row_Status := a_Status a, row_Data := a\<rparr>) t"
      "row_Status row = ActionAttemptUnknown" "a_Status (loadPayload row) = ActionAttemptUnknown"
      "a_RequiresReconcile (loadPayload row)" "same_identity a (loadPayload row)"
      "a_Status a \<in> {ActionAttemptSucceeded, ActionAttemptFailed, ActionAttemptTimeout,
         ActionAttemptCancelled}"
      "\<not> a_RequiresReconcile a"
proof (cases "out = Inr True")
  case False
  with assms have "t' = t"
    by (auto simp: ResolveActionAttempt_def split: sum.splits if_splits option.splits)
  with False show thesis by (rule same [rotated])
next
  case True
  with assms show thesis
    by (auto simp: ResolveActionAttempt_def LoadActionAttempt_def intro!: resolved
        split: sum.splits if_splits option.splits)
qed

lemma ResolveActionAttempt_ok [inv_intros]:
  assumes "actions_ok t" and "ResolveActionAttempt a t = (out, t')"
  shows "actions_ok t'"
  using assms(2)
proof (cases rule: ResolveActionAttempt_cases)
  case (resolved row)
  let ?row = "row\<lparr>row_Status := a_Status a, row_Data := a\<rparr>"
  have "idem_ok t'" unfolding resolved(3)
    using assms(1) by (intro idem_ok_same_columns [OF _ resolved(2)]) (simp_all add: actions_ok_def ikey_def)
  moreover have "row_ok (a_AttemptID a) ?row" if "row_DataSha256 row = None"
    using that assms(1) resolved(2,7)
    by (auto simp: actions_ok_def row_ok_def loadPayload_def same_identity_def Let_def)
  ultimately show ?thesis using assms(1) resolved(3) by (auto simp: actions_ok_def)
qed (use assms in simp)

section \<open>Correctness\<close>

definition ex_attempt :: "attempt_status \<Rightarrow> bool \<Rightarrow> action_attempt" where
  "ex_attempt st reconcile = zero_attempt\<lparr>a_AttemptID := ''a1'', a_RunID := ''run'',
     a_TaskID := ''task'', a_ToolName := ''shell'', a_Status := st, a_IdempotencyKey := ''k'',
     a_InputHash := ''h'', a_RequiresReconcile := reconcile\<rparr>"

definition ex_unknown :: action_table where
  "ex_unknown = snd (SaveActionAttempt (\<lambda>_. 100) (ex_attempt ActionAttemptUnknown True) [])"

lemma actions_ok_Nil [simp]: "actions_ok []"
  by (simp add: actions_ok_def idem_ok_def)

lemma ex_unknown_ok: "actions_ok ex_unknown"
  unfolding ex_unknown_def
  by (rule SaveActionAttempt_ok [OF actions_ok_Nil]) (rule surjective_pairing)

lemma saved_row:
  assumes "SaveActionAttempt json_len a t = (Inr (), t')"
  obtains row where "\<not> idempotency_clash t (a_AttemptID a) row" "t' = tput (a_AttemptID a) row t"
    "row_RunID row = a_RunID a" "row_TaskID row = a_TaskID a" "row_ToolName row = a_ToolName a"
    "row_IdempotencyKey row = a_IdempotencyKey a" "row_Status row = a_Status a"
    "row_Data row = (if json_len a \<le> inlinePayloadLimit then a else zero_attempt)"
    "row_DataSha256 row = (if json_len a \<le> inlinePayloadLimit then None else Some a)"
  using assms
  by (auto simp: SaveActionAttempt_def Let_def preparePayload_def split: if_splits
      intro!: that)

text \<open>A saved attempt is found again, by its id and by its idempotency key, whether its
  encoding is stored inline or moved to a blob.\<close>

theorem attempt_roundtrip:
  assumes "idem_ok t" and "SaveActionAttempt json_len a t = (Inr (), t')"
    and "a_IdempotencyKey a \<noteq> []"
  shows "LoadActionAttempt t' (a_AttemptID a) = Inr a \<and>
    LoadActionAttemptByIdempotencyKey t' (a_RunID a) (a_TaskID a) (a_ToolName a)
      (a_IdempotencyKey a) = Inr a"
proof -
  from assms(2) obtain row where row: "\<not> idempotency_clash t (a_AttemptID a) row"
    "t' = tput (a_AttemptID a) row t" "ikey row = (a_RunID a, a_TaskID a, a_ToolName a, a_IdempotencyKey a)"
    "loadPayload row = a"
    by (rule saved_row) (auto simp: ikey_def loadPayload_def split: if_splits)
  have get: "tget t' (a_AttemptID a) = Some row" using row(2) by simp
  have idem: "idem_ok t'" using idem_ok_save [OF assms(1) row(1)] row(2) by simp
  let ?P = "\<lambda>r. row_RunID r = a_RunID a \<and> row_TaskID r = a_TaskID a \<and>
      row_ToolName r = a_ToolName a \<and> row_IdempotencyKey r = a_IdempotencyKey a"
  have "?P row" using row(3) by (simp add: ikey_def)
  with tget_in_trows [OF get] obtain r where r: "List.find ?P (trows t') = Some r"
    using find_ex [of row "trows t'" ?P] by blast
  then have "r \<in> set (trows t')" "?P r" by (auto simp: find_Some_iff)
  then obtain k where k: "tget t' k = Some r" using trows_tget [of t' r] idem idem_ok_def by blast
  have "k = a_AttemptID a"
    using idem k get row(3) \<open>?P r\<close> assms(3) unfolding idem_ok_def by (simp add: ikey_def)
  with k get r row(4) show ?thesis
    by (simp add: LoadActionAttempt_def LoadActionAttemptByIdempotencyKey_def)
qed

theorem attempt_roundtrip_witness:
  "LoadActionAttempt ex_unknown ''a1'' = Inr (ex_attempt ActionAttemptUnknown True)"
proof -
  have run: "SaveActionAttempt (\<lambda>_. 100) (ex_attempt ActionAttemptUnknown True) [] = (Inr (), ex_unknown)"
    by code_simp
  have "idem_ok []" by (simp add: idem_ok_def)
  from attempt_roundtrip [OF this run] show ?thesis by (simp add: ex_attempt_def)
qed

text \<open>A quarantined attempt that is stored inline is resolved exactly once: a resolution
  goes through only from the unknown state, keeps the identity of the attempt, is what later
  reads return, and every later resolution is refused.\<close>

theorem resolve_once:
  assumes "ResolveActionAttempt a t = (Inr True, t')" and "tget t (a_AttemptID a) = Some row"
    and "row_DataSha256 row = None"
  shows "a_Status (row_Data row) = ActionAttemptUnknown \<and> a_RequiresReconcile (row_Data row) \<and>
    same_identity a (row_Data row) \<and> LoadActionAttempt t' (a_AttemptID a) = Inr a \<and>
    (\<forall>b \<in> {b. a_AttemptID b = a_AttemptID a}. ResolveActionAttempt b t' = (Inr False, t'))"
  using assms(1)
proof (cases rule: ResolveActionAttempt_cases)
  case (resolved r)
  with assms(2,3) have load: "LoadActionAttempt t' (a_AttemptID a) = Inr a"
    by (simp add: LoadActionAttempt_def loadPayload_def)
  then have "\<forall>b \<in> {b. a_AttemptID b = a_AttemptID a}. ResolveActionAttempt b t' = (Inr False, t')"
    using resolved(8) by (auto simp: ResolveActionAttempt_def)
  with load resolved assms(2,3) show ?thesis by (simp add: loadPayload_def)
qed simp

theorem resolve_once_witness:
  "LoadActionAttempt (snd (ResolveActionAttempt (ex_attempt ActionAttemptSucceeded False) ex_unknown))
     ''a1'' = Inr (ex_attempt ActionAttemptSucceeded False)"
proof -
  let ?a = "ex_attempt ActionAttemptSucceeded False"
  have run: "ResolveActionAttempt ?a ex_unknown = (Inr True, snd (ResolveActionAttempt ?a ex_unknown))"
    by code_simp
  have "case tget ex_unknown (a_AttemptID ?a) of Some r \<Rightarrow> row_DataSha256 r = None | None \<Rightarrow> False"
    by code_simp
  then obtain r where "tget ex_unknown (a_AttemptID ?a) = Some r" "row_DataSha256 r = None"
    by (auto split: option.splits)
  from resolve_once [OF run this] show ?thesis by (simp add: ex_attempt_def)
qed

text \<open>The resolution of an attempt whose encoding was moved to a blob is lost:
  \<^verbatim>\<open>ResolveReconcileAttemptCAS\<close> writes the status and the inline data but leaves the
  digest, so \<^verbatim>\<open>ResolveActionAttempt\<close> reports success and every later read still returns the
  unknown attempt.\<close>

theorem resolve_external_lost:
  assumes "SaveActionAttempt json_len a t = (Inr (), t1)" and "json_len a > inlinePayloadLimit"
    and "ResolveActionAttempt b t1 = (Inr True, t2)" and "a_AttemptID b = a_AttemptID a"
  shows "LoadActionAttempt t2 (a_AttemptID a) = Inr a \<and> a_Status a = ActionAttemptUnknown"
proof -
  from assms(1) obtain row where row: "t1 = tput (a_AttemptID a) row t"
    "row_DataSha256 row = Some a"
    by (rule saved_row) (use assms(2) in auto)
  from assms(3) show ?thesis
  proof (cases rule: ResolveActionAttempt_cases)
    case (resolved r)
    with row assms(4) show ?thesis by (simp add: LoadActionAttempt_def loadPayload_def)
  qed simp
qed

theorem resolve_external_lost_witness:
  "LoadActionAttempt (snd (ResolveActionAttempt (ex_attempt ActionAttemptSucceeded False)
     (snd (SaveActionAttempt (\<lambda>_. 5000) (ex_attempt ActionAttemptUnknown True) [])))) ''a1'' =
   Inr (ex_attempt ActionAttemptUnknown True)"
proof -
  let ?t1 = "snd (SaveActionAttempt (\<lambda>_. 5000) (ex_attempt ActionAttemptUnknown True) [])"
  let ?b = "ex_attempt ActionAttemptSucceeded False"
  have ids: "a_AttemptID (ex_attempt st r) = ''a1''" for st r by (simp add: ex_attempt_def)
  have save: "SaveActionAttempt (\<lambda>_. 5000) (ex_attempt ActionAttemptUnknown True) [] = (Inr (), ?t1)"
    by (simp add: SaveActionAttempt_def idempotency_clash_def preparePayload_def)
  have "tget ?t1 ''a1'' = Some \<lparr>row_RunID = ''run'', row_TaskID = ''task'',
      row_Status = ActionAttemptUnknown, row_ToolName = ''shell'', row_IdempotencyKey = ''k'',
      row_Data = zero_attempt, row_DataSha256 = Some (ex_attempt ActionAttemptUnknown True)\<rparr>"
    by (simp add: SaveActionAttempt_def idempotency_clash_def preparePayload_def
        inlinePayloadLimit_def ex_attempt_def)
  then have resolve: "ResolveActionAttempt ?b ?t1 = (Inr True, snd (ResolveActionAttempt ?b ?t1))"
    by (simp add: ResolveActionAttempt_def LoadActionAttempt_def ids loadPayload_def)
       (simp add: ex_attempt_def same_identity_def)
  show ?thesis
    using resolve_external_lost [OF save _ resolve] by (simp add: ids inlinePayloadLimit_def)
qed

text \<open>The anti-replay ledger drops large results: \<^verbatim>\<open>ListSucceededActionAttempts\<close>
  decodes the inline column only, so a succeeded attempt whose encoding was moved to a blob is
  listed as an empty attempt, without its tool name and input hash.\<close>

theorem succeeded_external_unreadable:
  assumes "table_ok t" and "SaveActionAttempt json_len a t = (Inr (), t')"
    and "json_len a > inlinePayloadLimit" and "a_Status a = ActionAttemptSucceeded"
  shows "zero_attempt \<in> set (ListSucceededActionAttempts t' (a_RunID a) (a_TaskID a))"
proof -
  from assms(2) obtain row where row: "t' = tput (a_AttemptID a) row t" "row_RunID row = a_RunID a"
    "row_TaskID row = a_TaskID a" "row_Status row = ActionAttemptSucceeded" "row_Data row = zero_attempt"
    by (rule saved_row) (use assms(3,4) in auto)
  then have "(a_AttemptID a, row) \<in> set t'" by (intro tget_set) simp
  then have "zero_attempt \<in> (row_Data \<circ> snd) ` {x \<in> set t'. row_RunID (snd x) = a_RunID a \<and>
      row_TaskID (snd x) = a_TaskID a \<and> row_Status (snd x) = ActionAttemptSucceeded}"
    using row(2-5) by force
  then show ?thesis
    by (auto simp: ListSucceededActionAttempts_def case_prod_beta)
qed

theorem succeeded_external_unreadable_witness:
  "zero_attempt \<in> set (ListSucceededActionAttempts
     (snd (SaveActionAttempt (\<lambda>_. 5000) (ex_attempt ActionAttemptSucceeded False) [])) ''run'' ''task'')"
proof -
  let ?a = "ex_attempt ActionAttemptSucceeded False"
  have save: "SaveActionAttempt (\<lambda>_. 5000) ?a [] = (Inr (), snd (SaveActionAttempt (\<lambda>_. 5000) ?a []))"
    by (simp add: SaveActionAttempt_def idempotency_clash_def preparePayload_def)
  from succeeded_external_unreadable [OF table_ok_Nil save] show ?thesis
    by (simp add: ex_attempt_def inlinePayloadLimit_def)
qed

text \<open>A tool call is charged once: the first charge of a call id returns true and raises
  the task's count by one, repeating it with the same tool and input returns false and changes
  nothing, and repeating it with another tool or input is an error that changes nothing.\<close>

theorem charge_exactly_once:
  assumes "RecordToolCallCharge run task call tool hash t = (Inr True, t')"
  shows "CountToolCallCharges t' run task = CountToolCallCharges t run task + 1 \<and>
    RecordToolCallCharge run task call tool hash t' = (Inr False, t') \<and>
    (\<forall>tool' hash'. (tool', hash') \<in> - {(tool, hash)} \<longrightarrow>
       RecordToolCallCharge run task call tool' hash' t' =
         (Inl (ErrMessage ''already charged with different input''), t'))"
proof -
  let ?c = "\<lparr>ch_ToolName = tool, ch_InputHash = hash\<rparr>"
  from assms have t': "tget t (run, task, call) = None" "t' = tput (run, task, call) ?c t"
    by (auto simp: RecordToolCallCharge_def tinsert_ignore_def Let_def
        split: if_splits option.splits)
  then have "t' = t @ [((run, task, call), ?c)]" using tput_new [OF t'(1)] by metis
  moreover have "tget t' (run, task, call) = Some ?c" using t'(2) by simp
  ultimately show ?thesis
    by (auto simp: CountToolCallCharges_def RecordToolCallCharge_def tinsert_ignore_def)
qed

theorem charge_exactly_once_witness:
  "CountToolCallCharges (snd (RecordToolCallCharge ''r'' ''t'' ''c'' ''shell'' ''h'' [])) ''r'' ''t'' = 1"
proof -
  have "RecordToolCallCharge ''r'' ''t'' ''c'' ''shell'' ''h'' [] =
      (Inr True, snd (RecordToolCallCharge ''r'' ''t'' ''c'' ''shell'' ''h'' []))"
    by code_simp
  from charge_exactly_once [OF this] show ?thesis by (simp add: CountToolCallCharges_def)
qed

end
