(* ===== verification/Resource_Claims.thy ===== *)
theory Resource_Claims
  imports Store_Interfaces
begin

text \<open>
  Resource claims: \<^verbatim>\<open>internal/agentruntime/resource_claim.go\<close> (the records) and the
  second half of \<^verbatim>\<open>internal/store/sqlite/stores_control_plane.go\<close> (the operations). A
  claim gives a task lease shared or exclusive use of an opaque key until it expires.

  The table \<^verbatim>\<open>resource_claims\<close> maps a claim's id to the claim. \<open>in_tx\<close> wraps the
  two batch operations the way their callers run them, in one transaction that is rolled back
  when the operation returns an error.
\<close>

section \<open>Data\<close>

datatype claim_mode = ResourceClaimShared | ResourceClaimExclusive | ResourceClaimModeOther string

datatype claim_state =
  ResourceClaimActive | ResourceClaimReleased | ResourceClaimExpired | ResourceClaimStateOther string

datatype claim_denial =
  ResourceClaimDeniedNone | ResourceClaimDeniedConflict | ResourceClaimDeniedVersionConflict

record claim_spec =
  spec_ID :: string
  spec_Key :: string
  spec_Mode :: claim_mode

record resource_claim =
  rc_ID :: string
  rc_Key :: string
  rc_Mode :: claim_mode
  rc_RunID :: string
  rc_TaskID :: string
  rc_LeaseID :: string
  rc_HolderID :: string
  rc_State :: claim_state
  rc_Version :: nat
  rc_CreatedAt :: time
  rc_UpdatedAt :: time
  rc_ExpiresAt :: time

record claim_request =
  creq_RunID :: string
  creq_TaskID :: string
  creq_LeaseID :: string
  creq_HolderID :: string
  creq_Claims :: "claim_spec list"
  creq_RequestedAt :: time
  creq_ExpiresAt :: time

record claim_transition =
  ctr_ClaimID :: string
  ctr_ExpectedVersion :: nat
  ctr_To :: claim_state
  ctr_At :: time
  ctr_ExpiresAt :: time

record claim_decision =
  cdec_Acquired :: bool
  cdec_Reason :: claim_denial
  cdec_Claims :: "resource_claim list"
  cdec_Conflicts :: "resource_claim list"

record claim_selector =
  csel_IDs :: "string list"
  csel_Keys :: "string list"
  csel_RunIDs :: "string list"
  csel_TaskIDs :: "string list"
  csel_LeaseIDs :: "string list"
  csel_HolderIDs :: "string list"
  csel_Modes :: "claim_mode list"
  csel_States :: "claim_state list"
  csel_ExpiresBefore :: time
  csel_Limit :: int

type_synonym claim_table = "(string, resource_claim) table"

section \<open>Validation\<close>

text \<open>The loop over the specifications, with the ids and the keys seen so far.\<close>

fun validateClaimSpecs ::
  "string list \<Rightarrow> string list \<Rightarrow> claim_spec list \<Rightarrow> error option" where
  "validateClaimSpecs ids keys [] = None"
| "validateClaimSpecs ids keys (claim # claims) =
     (if blank (spec_ID claim) \<or> blank (spec_Key claim) then Some ErrInvalidCommand
      else if spec_Mode claim \<noteq> ResourceClaimShared \<and> spec_Mode claim \<noteq> ResourceClaimExclusive
      then Some ErrInvalidCommand
      else if spec_ID claim \<in> set ids then Some ErrInvalidCommand
      else if spec_Key claim \<in> set keys then Some ErrInvalidCommand
      else validateClaimSpecs (spec_ID claim # ids) (spec_Key claim # keys) claims)"

definition validateResourceClaimRequest :: "claim_request \<Rightarrow> error option" where
  "validateResourceClaimRequest request =
     (if creq_RunID request = [] \<or> creq_TaskID request = [] \<or> creq_LeaseID request = [] \<or>
         creq_HolderID request = []
      then Some ErrInvalidCommand
      else if IsZero (creq_RequestedAt request) \<or>
              \<not> creq_ExpiresAt request > creq_RequestedAt request
      then Some ErrInvalidCommand
      else if creq_Claims request = [] then Some ErrInvalidCommand
      else validateClaimSpecs [] [] (creq_Claims request))"

definition validateResourceClaimTransition ::
  "resource_claim \<Rightarrow> claim_transition \<Rightarrow> error option" where
  "validateResourceClaimTransition claim transition =
     (if IsZero (ctr_At transition) \<or> ctr_At transition < rc_UpdatedAt claim
      then Some ErrInvalidTransition
      else if rc_State claim \<noteq> ResourceClaimActive then Some ErrInvalidTransition
      else case ctr_To transition of
        ResourceClaimActive \<Rightarrow>
          (if \<not> rc_ExpiresAt claim > ctr_At transition then Some ErrInvalidTransition
           else if \<not> ctr_ExpiresAt transition > ctr_At transition then Some ErrInvalidTransition
           else None)
      | ResourceClaimReleased \<Rightarrow>
          (if \<not> IsZero (ctr_ExpiresAt transition) then Some ErrInvalidTransition else None)
      | ResourceClaimExpired \<Rightarrow>
          (if \<not> IsZero (ctr_ExpiresAt transition) then Some ErrInvalidTransition else None)
      | ResourceClaimStateOther _ \<Rightarrow> Some ErrInvalidTransition)"

definition resourceClaimRequestMatches ::
  "resource_claim \<Rightarrow> claim_request \<Rightarrow> claim_spec \<Rightarrow> bool" where
  "resourceClaimRequestMatches claim request spec \<longleftrightarrow>
     rc_ID claim = spec_ID spec \<and> rc_Key claim = spec_Key spec \<and> rc_Mode claim = spec_Mode spec \<and>
     rc_RunID claim = creq_RunID request \<and> rc_TaskID claim = creq_TaskID request \<and>
     rc_LeaseID claim = creq_LeaseID request \<and> rc_HolderID claim = creq_HolderID request \<and>
     rc_State claim = ResourceClaimActive \<and> rc_ExpiresAt claim > creq_RequestedAt request \<and>
     time_sub (rc_ExpiresAt claim) (rc_CreatedAt claim) =
       time_sub (creq_ExpiresAt request) (creq_RequestedAt request)"

definition matchesResourceClaimSelector :: "resource_claim \<Rightarrow> claim_selector \<Rightarrow> bool" where
  "matchesResourceClaimSelector claim selector \<longleftrightarrow>
     (csel_IDs selector = [] \<or> contains (csel_IDs selector) (rc_ID claim)) \<and>
     (csel_Keys selector = [] \<or> contains (csel_Keys selector) (rc_Key claim)) \<and>
     (csel_RunIDs selector = [] \<or> contains (csel_RunIDs selector) (rc_RunID claim)) \<and>
     (csel_TaskIDs selector = [] \<or> contains (csel_TaskIDs selector) (rc_TaskID claim)) \<and>
     (csel_LeaseIDs selector = [] \<or> contains (csel_LeaseIDs selector) (rc_LeaseID claim)) \<and>
     (csel_HolderIDs selector = [] \<or> contains (csel_HolderIDs selector) (rc_HolderID claim)) \<and>
     (csel_Modes selector = [] \<or> contains (csel_Modes selector) (rc_Mode claim)) \<and>
     (csel_States selector = [] \<or> contains (csel_States selector) (rc_State claim)) \<and>
     (IsZero (csel_ExpiresBefore selector) \<or>
      \<not> rc_ExpiresAt claim > csel_ExpiresBefore selector)"

definition sortResourceClaims :: "resource_claim list \<Rightarrow> resource_claim list" where
  "sortResourceClaims claims = sort_key (\<lambda>c. (rc_CreatedAt c, rc_ID c)) claims"

text \<open>The order of the queries, \<^verbatim>\<open>ORDER BY created_at,id\<close> on the stored column.\<close>

definition ListResourceClaimData :: "claim_table \<Rightarrow> resource_claim list" where
  "ListResourceClaimData t = sort_key (\<lambda>c. (nanos (rc_CreatedAt c), rc_ID c)) (trows t)"

section \<open>Operations\<close>

definition LoadResourceClaim :: "claim_table \<Rightarrow> string \<Rightarrow> error + resource_claim" where
  "LoadResourceClaim t cid = (case tget t cid of None \<Rightarrow> Inl ErrNotFound | Some c \<Rightarrow> Inr c)"

text \<open>The rows of a key that are active and unexpired, in the order of creation. The query
  compares the stored columns.\<close>

definition active_by_key :: "claim_table \<Rightarrow> string \<Rightarrow> time \<Rightarrow> resource_claim list" where
  "active_by_key t key at =
     filter (\<lambda>c. rc_Key c = key \<and> rc_State c = ResourceClaimActive \<and>
       nanos (rc_ExpiresAt c) > nanos at) (ListResourceClaimData t)"

text \<open>The listing stops as soon as it has \<^verbatim>\<open>Limit\<close> matches.\<close>

definition ListResourceClaims :: "claim_table \<Rightarrow> claim_selector \<Rightarrow> resource_claim list" where
  "ListResourceClaims t selector =
     (let matching = filter (\<lambda>c. matchesResourceClaimSelector c selector)
            (ListResourceClaimData t)
      in if csel_Limit selector > 0 then take (nat (csel_Limit selector)) matching else matching)"

definition new_claim :: "claim_request \<Rightarrow> claim_spec \<Rightarrow> resource_claim" where
  "new_claim request spec =
     \<lparr>rc_ID = spec_ID spec, rc_Key = spec_Key spec, rc_Mode = spec_Mode spec,
      rc_RunID = creq_RunID request, rc_TaskID = creq_TaskID request,
      rc_LeaseID = creq_LeaseID request, rc_HolderID = creq_HolderID request,
      rc_State = ResourceClaimActive, rc_Version = 1, rc_CreatedAt = creq_RequestedAt request,
      rc_UpdatedAt = creq_RequestedAt request, rc_ExpiresAt = creq_ExpiresAt request\<rparr>"

text \<open>The first loop of \<^verbatim>\<open>AcquireResourceClaims\<close>: all the claims, and the new ones.\<close>

fun collect_claims ::
  "claim_table \<Rightarrow> claim_request \<Rightarrow> claim_spec list \<Rightarrow>
   error + (resource_claim list \<times> resource_claim list)" where
  "collect_claims t request [] = Inr ([], [])"
| "collect_claims t request (spec # specs) =
     (case LoadResourceClaim t (spec_ID spec) of
        Inr existing \<Rightarrow>
          (if \<not> resourceClaimRequestMatches existing request spec
           then Inl ErrIdempotencyConflict
           else bindE (collect_claims t request specs)
             (\<lambda>(claims, news). Inr (existing # claims, news)))
      | Inl _ \<Rightarrow>
          bindE (collect_claims t request specs)
            (\<lambda>(claims, news). Inr (new_claim request spec # claims,
                                   new_claim request spec # news)))"

definition claim_conflicts ::
  "claim_table \<Rightarrow> claim_request \<Rightarrow> resource_claim list" where
  "claim_conflicts t request =
     (let requestedIDs = map spec_ID (creq_Claims request)
      in concat (map (\<lambda>spec. filter (\<lambda>existing. rc_ID existing \<notin> set requestedIDs \<and>
             (rc_Mode existing = ResourceClaimExclusive \<or> spec_Mode spec = ResourceClaimExclusive))
           (active_by_key t (spec_Key spec) (creq_RequestedAt request))) (creq_Claims request)))"

fun insert_claims ::
  "resource_claim list \<Rightarrow> claim_table \<Rightarrow> (error + unit) \<times> claim_table" where
  "insert_claims [] t = (Inr (), t)"
| "insert_claims (claim # claims) t =
     (let (inserted, t') = tinsert_ignore (\<lambda>_. False) (rc_ID claim) claim t
      in if inserted \<noteq> 1 then (Inl ErrIdempotencyConflict, t') else insert_claims claims t')"

definition AcquireResourceClaims ::
  "claim_request \<Rightarrow> claim_table \<Rightarrow> (error + claim_decision) \<times> claim_table" where
  "AcquireResourceClaims request t =
     (case validateResourceClaimRequest request of
        Some e \<Rightarrow> (Inl e, t)
      | None \<Rightarrow>
        (case collect_claims t request (creq_Claims request) of
           Inl e \<Rightarrow> (Inl e, t)
         | Inr (claims, newClaims) \<Rightarrow>
           (let conflicts = claim_conflicts t request
            in if conflicts \<noteq> []
               then (Inr \<lparr>cdec_Acquired = False, cdec_Reason = ResourceClaimDeniedConflict,
                       cdec_Claims = [], cdec_Conflicts = sortResourceClaims conflicts\<rparr>, t)
               else case insert_claims newClaims t of
                 (Inl e, t') \<Rightarrow> (Inl e, t')
               | (Inr _, t') \<Rightarrow>
                   (Inr \<lparr>cdec_Acquired = True, cdec_Reason = ResourceClaimDeniedNone,
                      cdec_Claims = claims, cdec_Conflicts = []\<rparr>, t'))))"

text \<open>The first loop of \<^verbatim>\<open>TransitionResourceClaims\<close>: the claims in the order of the
  request, and those whose version is not the expected one.\<close>

fun check_transitions ::
  "claim_table \<Rightarrow> string list \<Rightarrow> claim_transition list \<Rightarrow>
   error + (resource_claim list \<times> resource_claim list)" where
  "check_transitions t seen [] = Inr ([], [])"
| "check_transitions t seen (transition # transitions) =
     (if blank (ctr_ClaimID transition) then Inl ErrInvalidCommand
      else if ctr_ClaimID transition \<in> set seen then Inl ErrInvalidCommand
      else case LoadResourceClaim t (ctr_ClaimID transition) of
        Inl e \<Rightarrow> Inl e
      | Inr claim \<Rightarrow>
          (if rc_Version claim \<noteq> ctr_ExpectedVersion transition
           then bindE (check_transitions t (ctr_ClaimID transition # seen) transitions)
                  (\<lambda>(claims, stale). Inr (claim # claims, claim # stale))
           else case validateResourceClaimTransition claim transition of
             Some e \<Rightarrow> Inl e
           | None \<Rightarrow>
               bindE (check_transitions t (ctr_ClaimID transition # seen) transitions)
                 (\<lambda>(claims, stale). Inr (claim # claims, stale))))"

text \<open>The second loop: active claims that conflict with a renewal, each once.\<close>

definition renewal_skips ::
  "claim_transition list \<Rightarrow> resource_claim \<Rightarrow> claim_transition \<Rightarrow> resource_claim list \<Rightarrow>
   resource_claim \<Rightarrow> bool" where
  "renewal_skips transitions requested transition conflicts existing \<longleftrightarrow>
     (case map_of (rev (map (\<lambda>tr. (ctr_ClaimID tr, tr)) transitions)) (rc_ID existing) of
        Some candidate \<Rightarrow> ctr_To candidate \<noteq> ResourceClaimActive
      | None \<Rightarrow> False) \<or>
     rc_ID existing = ctr_ClaimID transition \<or>
     (rc_Mode existing \<noteq> ResourceClaimExclusive \<and> rc_Mode requested \<noteq> ResourceClaimExclusive) \<or>
     rc_ID existing \<in> rc_ID ` set conflicts"

definition renewal_conflicts ::
  "claim_table \<Rightarrow> claim_transition list \<Rightarrow> resource_claim list \<Rightarrow> resource_claim list" where
  "renewal_conflicts t transitions claims =
     foldl (\<lambda>conflicts transition.
       if ctr_To transition \<noteq> ResourceClaimActive then conflicts
       else
         let requested = (case List.find (\<lambda>(tr, c). ctr_ClaimID tr = ctr_ClaimID transition)
                                 (zip transitions claims) of
                            Some (_, c) \<Rightarrow> c
                          | None \<Rightarrow> hd claims)
         in foldl (\<lambda>acc existing.
              if renewal_skips transitions requested transition acc existing then acc
              else acc @ [existing]) conflicts
              (active_by_key t (rc_Key requested) (ctr_At transition)))
       [] transitions"

definition apply_claim_transition :: "resource_claim \<Rightarrow> claim_transition \<Rightarrow> resource_claim" where
  "apply_claim_transition claim transition =
     (let c = claim\<lparr>rc_State := ctr_To transition, rc_Version := u64_inc (rc_Version claim),
                rc_UpdatedAt := ctr_At transition\<rparr>
      in if ctr_To transition = ResourceClaimActive
         then c\<lparr>rc_ExpiresAt := ctr_ExpiresAt transition\<rparr> else c)"

fun apply_transitions ::
  "(claim_transition \<times> resource_claim) list \<Rightarrow> claim_table \<Rightarrow>
   (error + resource_claim list) \<times> claim_table" where
  "apply_transitions [] t = (Inr [], t)"
| "apply_transitions ((transition, claim) # rest) t =
     (let updated = apply_claim_transition claim transition
      in case int64FromUint64 (rc_Version updated) of
           Inl e \<Rightarrow> (Inl e, t)
         | Inr _ \<Rightarrow>
           (case int64FromUint64 (rc_Version claim) of
              Inl e \<Rightarrow> (Inl e, t)
            | Inr _ \<Rightarrow>
              (let (changed, t') = tupdate_where (rc_ID updated)
                     (\<lambda>row. rc_Version row = rc_Version claim) updated t
               in if changed \<noteq> 1 then (Inl ErrIdempotencyConflict, t')
                  else case apply_transitions rest t' of
                    (Inl e, t'') \<Rightarrow> (Inl e, t'')
                  | (Inr claims, t'') \<Rightarrow> (Inr (updated # claims), t''))))"

definition TransitionResourceClaims ::
  "claim_transition list \<Rightarrow> claim_table \<Rightarrow> (error + claim_decision) \<times> claim_table" where
  "TransitionResourceClaims transitions t =
     (if transitions = [] then (Inl ErrInvalidCommand, t)
      else case check_transitions t [] transitions of
        Inl e \<Rightarrow> (Inl e, t)
      | Inr (claims, versionConflicts) \<Rightarrow>
        (if versionConflicts \<noteq> []
         then (Inr \<lparr>cdec_Acquired = False, cdec_Reason = ResourceClaimDeniedVersionConflict,
                 cdec_Claims = [], cdec_Conflicts = sortResourceClaims versionConflicts\<rparr>, t)
         else
           let conflicts = renewal_conflicts t transitions claims
           in if conflicts \<noteq> []
              then (Inr \<lparr>cdec_Acquired = False, cdec_Reason = ResourceClaimDeniedConflict,
                      cdec_Claims = [], cdec_Conflicts = sortResourceClaims conflicts\<rparr>, t)
              else case apply_transitions (zip transitions claims) t of
                (Inl e, t') \<Rightarrow> (Inl e, t')
              | (Inr updated, t') \<Rightarrow>
                  (Inr \<lparr>cdec_Acquired = True, cdec_Reason = ResourceClaimDeniedNone,
                     cdec_Claims = updated, cdec_Conflicts = []\<rparr>, t')))"

section \<open>What the loops compute\<close>

definition claims_ok :: "claim_table \<Rightarrow> bool" where
  "claims_ok t \<longleftrightarrow> table_ok t \<and> (\<forall>k c. tget t k = Some c \<longrightarrow> rc_ID c = k \<and> 1 \<le> rc_Version c)"

lemma set_ListResourceClaimData [simp]: "set (ListResourceClaimData t) = set (trows t)"
  by (simp add: ListResourceClaimData_def)

lemma claims_ok_Nil [simp]: "claims_ok []"
  by (simp add: claims_ok_def)

lemma validateClaimSpecs_distinct:
  "validateClaimSpecs ids keys specs = None \<Longrightarrow>
     distinct (map spec_ID specs) \<and> distinct (map spec_Key specs) \<and>
     set (map spec_ID specs) \<inter> set ids = {} \<and> set (map spec_Key specs) \<inter> set keys = {}"
  by (induction ids keys specs rule: validateClaimSpecs.induct) (auto split: if_splits)

lemma validateResourceClaimRequest_None:
  assumes "validateResourceClaimRequest request = None"
  shows "distinct (map spec_ID (creq_Claims request))"
    and "distinct (map spec_Key (creq_Claims request))"
    and "creq_ExpiresAt request > creq_RequestedAt request"
  using assms validateClaimSpecs_distinct [of "[]" "[]" "creq_Claims request"]
  by (auto simp: validateResourceClaimRequest_def split: if_splits)

lemma collect_claims_Inr:
  "collect_claims t request specs = Inr (claims, news) \<Longrightarrow>
     news = map (new_claim request) (filter (\<lambda>s. tget t (spec_ID s) = None) specs) \<and>
     claims = map (\<lambda>s. case tget t (spec_ID s) of None \<Rightarrow> new_claim request s | Some c \<Rightarrow> c) specs \<and>
     (\<forall>s \<in> set specs. \<forall>c. tget t (spec_ID s) = Some c \<longrightarrow> resourceClaimRequestMatches c request s)"
  by (induction specs arbitrary: claims news)
     (auto simp: LoadResourceClaim_def bindE_eq_Inr split: option.splits if_splits)

lemma insert_claims_fresh:
  "distinct (map rc_ID cs) \<Longrightarrow> \<forall>c \<in> set cs. tget t (rc_ID c) = None \<Longrightarrow>
     insert_claims cs t = (Inr (), t @ map (\<lambda>c. (rc_ID c, c)) cs)"
proof (induction cs arbitrary: t)
  case (Cons c cs)
  then have "tget t (rc_ID c) = None" by simp
  then have "tput (rc_ID c) c t = t @ [(rc_ID c, c)]" by (rule tput_new)
  moreover have "\<forall>d \<in> set cs. tget (t @ [(rc_ID c, c)]) (rc_ID d) = None"
    using Cons.prems by (auto simp: tget_def map_add_def) (metis image_eqI)
  ultimately show ?case using Cons by (simp add: tinsert_ignore_def)
qed simp

lemma tget_append_new:
  "tget (t @ map (\<lambda>c. (rc_ID c, c)) cs) k =
     (case tget t k of Some c \<Rightarrow> Some c | None \<Rightarrow> List.find (\<lambda>c. rc_ID c = k) cs)"
proof -
  have "map_of (map (\<lambda>c. (rc_ID c, c)) cs) k = List.find (\<lambda>c. rc_ID c = k) cs"
    by (induction cs) auto
  then show ?thesis by (auto simp: tget_def map_add_def split: option.splits)
qed

text \<open>The table after a batch was acquired: the old rows and one new row for each requested
  id that had none.\<close>

lemma acquired_rows:
  assumes "AcquireResourceClaims request t = (Inr decision, t')" and "cdec_Acquired decision"
  shows "validateResourceClaimRequest request = None"
    and "claim_conflicts t request = []"
    and "t' = t @ map (\<lambda>s. (spec_ID s, new_claim request s))
      (filter (\<lambda>s. tget t (spec_ID s) = None) (creq_Claims request))"
    and "\<forall>s \<in> set (creq_Claims request). \<forall>c. tget t (spec_ID s) = Some c \<longrightarrow>
      resourceClaimRequestMatches c request s"
proof -
  from assms show valid: "validateResourceClaimRequest request = None"
    by (auto simp: AcquireResourceClaims_def split: option.splits)
  from assms valid obtain claims news
    where coll: "collect_claims t request (creq_Claims request) = Inr (claims, news)"
    and none: "claim_conflicts t request = []"
    and ins: "t' = snd (insert_claims news t)"
    by (auto simp: AcquireResourceClaims_def Let_def split: sum.splits prod.splits if_splits)
  show "claim_conflicts t request = []" by (rule none)
  note c = collect_claims_Inr [OF coll]
  then show "\<forall>s \<in> set (creq_Claims request). \<forall>c. tget t (spec_ID s) = Some c \<longrightarrow>
      resourceClaimRequestMatches c request s" by blast
  have ids: "map rc_ID news =
      map spec_ID (filter (\<lambda>s. tget t (spec_ID s) = None) (creq_Claims request))"
    using c by (simp add: new_claim_def)
  have "distinct (map rc_ID news)"
    unfolding ids using validateResourceClaimRequest_None(1) [OF valid] by (rule distinct_map_filter)
  moreover have "\<forall>d \<in> set news. tget t (rc_ID d) = None" using c by (auto simp: new_claim_def)
  ultimately have "insert_claims news t = (Inr (), t @ map (\<lambda>c. (rc_ID c, c)) news)"
    by (rule insert_claims_fresh)
  with ins c show "t' = t @ map (\<lambda>s. (spec_ID s, new_claim request s))
      (filter (\<lambda>s. tget t (spec_ID s) = None) (creq_Claims request))"
    by (simp add: new_claim_def comp_def)
qed

lemma acquired_tget:
  assumes "AcquireResourceClaims request t = (Inr decision, t')" and "cdec_Acquired decision"
  shows "tget t' k = Some c \<longleftrightarrow> tget t k = Some c \<or>
    (tget t k = None \<and> (\<exists>s \<in> set (creq_Claims request). spec_ID s = k \<and> c = new_claim request s))"
proof -
  let ?specs = "creq_Claims request"
  let ?new = "map (\<lambda>s. (spec_ID s, new_claim request s)) (filter (\<lambda>s. tget t (spec_ID s) = None) ?specs)"
  have dist: "distinct (map fst ?new)"
    using distinct_map_filter [OF validateResourceClaimRequest_None(1) [OF acquired_rows(1) [OF assms]]]
    by (simp add: comp_def)
  have "map_of ?new k = Some c \<longleftrightarrow>
      tget t k = None \<and> (\<exists>s \<in> set ?specs. spec_ID s = k \<and> c = new_claim request s)"
    using map_of_eq_Some_iff [OF dist, of k c] by (auto 0 3)
  then show ?thesis
    unfolding acquired_rows(3) [OF assms] tget_def
    by (auto simp: map_add_def tget_def split: option.splits)
qed

lemma apply_claim_transition_frame [simp]:
  "rc_ID (apply_claim_transition c tr) = rc_ID c"
  "rc_Key (apply_claim_transition c tr) = rc_Key c"
  "rc_Mode (apply_claim_transition c tr) = rc_Mode c"
  "rc_State (apply_claim_transition c tr) = ctr_To tr"
  "rc_Version (apply_claim_transition c tr) = u64_inc (rc_Version c)"
  "rc_ExpiresAt (apply_claim_transition c tr) =
     (if ctr_To tr = ResourceClaimActive then ctr_ExpiresAt tr else rc_ExpiresAt c)"
  by (simp_all add: apply_claim_transition_def Let_def)

lemma check_transitions_Inr:
  "check_transitions t seen trs = Inr (claims, []) \<Longrightarrow>
     distinct (map ctr_ClaimID trs) \<and> set (map ctr_ClaimID trs) \<inter> set seen = {} \<and>
     map Some claims = map (\<lambda>tr. tget t (ctr_ClaimID tr)) trs \<and>
     (\<forall>(tr, c) \<in> set (zip trs claims). rc_Version c = ctr_ExpectedVersion tr \<and>
        validateResourceClaimTransition c tr = None)"
proof (induction trs arbitrary: seen claims)
  case (Cons tr trs)
  then obtain c cs where "tget t (ctr_ClaimID tr) = Some c" "claims = c # cs"
    "ctr_ClaimID tr \<notin> set seen" "rc_Version c = ctr_ExpectedVersion tr"
    "validateResourceClaimTransition c tr = None"
    "check_transitions t (ctr_ClaimID tr # seen) trs = Inr (cs, [])"
    by (auto simp: LoadResourceClaim_def bindE_eq_Inr split: option.splits if_splits)
  with Cons.IH [of "ctr_ClaimID tr # seen" cs] show ?case by auto
qed simp

lemma apply_transitions_Inr:
  assumes "apply_transitions ps t = (Inr cs, t')"
    and "distinct (map (rc_ID \<circ> snd) ps)"
  shows "tget t' k = (case List.find (\<lambda>p. rc_ID (snd p) = k) ps of
      None \<Rightarrow> tget t k | Some (tr, c) \<Rightarrow> Some (apply_claim_transition c tr)) \<and>
    (\<forall>(tr, c) \<in> set ps. rc_Version (apply_claim_transition c tr) = rc_Version c + 1) \<and>
    (table_ok t \<longrightarrow> table_ok t')"
  using assms
proof (induction ps arbitrary: t cs)
  case (Cons p ps)
  obtain tr c where p: "p = (tr, c)" by (cases p)
  from Cons.prems p obtain t1 cs' where
    t1: "t1 = tput (rc_ID c) (apply_claim_transition c tr) t"
    and run: "apply_transitions ps t1 = (Inr cs', t')" and v: "rc_Version c < 2 ^ 63"
    by (auto simp: Let_def tupdate_where_def int64FromUint64_def
        split: sum.splits option.splits if_splits prod.splits)
  have "List.find (\<lambda>p. rc_ID (snd p) = rc_ID c) ps = None"
    using Cons.prems(2) p by (force simp: find_None_iff)
  moreover have "u64_inc (rc_Version c) = rc_Version c + 1" using v by (simp add: u64_inc_less)
  ultimately show ?case
    using Cons.IH [OF run] Cons.prems(2) p t1 by (auto split: option.splits)
qed simp

text \<open>The table after a batch of transitions: each named row replaced, the others kept.\<close>

lemma transitioned_tget:
  assumes "claims_ok t" and "TransitionResourceClaims trs t = (Inr decision, t')"
    and "cdec_Acquired decision"
  shows "table_ok t'"
    and "tget t' k = (case List.find (\<lambda>tr. ctr_ClaimID tr = k) trs of
       None \<Rightarrow> tget t k
     | Some tr \<Rightarrow> map_option (\<lambda>c. apply_claim_transition c tr) (tget t k))"
    and "\<forall>tr \<in> set trs. \<exists>c. tget t (ctr_ClaimID tr) = Some c \<and>
       rc_Version c = ctr_ExpectedVersion tr \<and> validateResourceClaimTransition c tr = None \<and>
       rc_Version (apply_claim_transition c tr) = rc_Version c + 1"
proof -
  from assms(2,3) obtain claims cs where
    check: "check_transitions t [] trs = Inr (claims, [])" and
    run: "apply_transitions (zip trs claims) t = (Inr cs, t')"
    by (auto simp: TransitionResourceClaims_def Let_def
        split: if_splits sum.splits prod.splits)
  note c = check_transitions_Inr [OF check]
  have len: "length claims = length trs" using c by (metis length_map)
  have nth: "tget t (ctr_ClaimID (trs ! i)) = Some (claims ! i)" if "i < length trs" for i
    using c len that by (metis nth_map)
  have "rc_ID (claims ! i) = ctr_ClaimID (trs ! i)" if "i < length trs" for i
    using nth [OF that] assms(1) by (simp add: claims_ok_def)
  then have ids: "map (rc_ID \<circ> snd) (zip trs claims) = map ctr_ClaimID trs"
    using len by (simp add: list_eq_iff_nth_eq)
  have find: "List.find (\<lambda>p. rc_ID (snd p) = k) (zip trs claims) =
      (case List.find (\<lambda>tr. ctr_ClaimID tr = k) trs of
         None \<Rightarrow> None | Some tr \<Rightarrow> Some (tr, the (tget t k)))"
    using len nth ids
  proof (induction trs claims rule: list_induct2')
    case (4 tr trs c cs)
    have "tget t (ctr_ClaimID (trs ! i)) = Some (cs ! i)" if "i < length trs" for i
      using 4(3) [of "Suc i"] that by simp
    moreover have "tget t (ctr_ClaimID tr) = Some c" using 4(3) [of 0] by simp
    ultimately show ?case using 4 by auto
  qed simp_all
  note app = apply_transitions_Inr [OF run, unfolded ids]
  from app c assms(1) show "table_ok t'" by (auto simp: claims_ok_def)
  have some: "\<exists>c. tget t k = Some c" if "List.find (\<lambda>tr. ctr_ClaimID tr = k) trs = Some tr" for tr
    using that nth by (auto simp: find_Some_iff)
  show "tget t' k = (case List.find (\<lambda>tr. ctr_ClaimID tr = k) trs of
       None \<Rightarrow> tget t k
     | Some tr \<Rightarrow> map_option (\<lambda>c. apply_claim_transition c tr) (tget t k))"
    using app [of k] c some unfolding find by (auto split: option.splits)
  show "\<forall>tr \<in> set trs. \<exists>c. tget t (ctr_ClaimID tr) = Some c \<and>
       rc_Version c = ctr_ExpectedVersion tr \<and> validateResourceClaimTransition c tr = None \<and>
       rc_Version (apply_claim_transition c tr) = rc_Version c + 1"
  proof
    fix tr assume "tr \<in> set trs"
    then obtain i where i: "i < length trs" "tr = trs ! i" by (auto simp: in_set_conv_nth)
    then have "(tr, claims ! i) \<in> set (zip trs claims)" using len by (auto simp: set_zip)
    with app c nth [OF i(1)] i(2) show "\<exists>c. tget t (ctr_ClaimID tr) = Some c \<and>
       rc_Version c = ctr_ExpectedVersion tr \<and> validateResourceClaimTransition c tr = None \<and>
       rc_Version (apply_claim_transition c tr) = rc_Version c + 1" by fastforce
  qed
qed

section \<open>Operations keep the table well formed\<close>

lemma AcquireResourceClaims_cases:
  assumes "in_tx (AcquireResourceClaims request) t = (out, t')"
  obtains (same) "t' = t" "\<And>d. out = Inr d \<Longrightarrow> \<not> cdec_Acquired d"
  | (acquired) d where "out = Inr d" "cdec_Acquired d" "AcquireResourceClaims request t = (Inr d, t')"
proof (cases out)
  case (Inl e)
  with assms have "t' = t" using in_tx_Inl by metis
  with Inl show thesis by (intro same) simp_all
next
  case (Inr d)
  with assms have run: "AcquireResourceClaims request t = (Inr d, t')" by (simp add: in_tx_Inr)
  show thesis
  proof (cases "cdec_Acquired d")
    case False
    with run have "t' = t"
      by (auto simp: AcquireResourceClaims_def Let_def
          split: option.splits sum.splits prod.splits if_splits)
    with False Inr show thesis by (intro same) simp_all
  qed (use Inr run acquired in blast)
qed

lemma TransitionResourceClaims_cases:
  assumes "in_tx (TransitionResourceClaims trs) t = (out, t')"
  obtains (same) "t' = t" "\<And>d. out = Inr d \<Longrightarrow> \<not> cdec_Acquired d"
  | (applied) d where "out = Inr d" "cdec_Acquired d" "TransitionResourceClaims trs t = (Inr d, t')"
proof (cases out)
  case (Inl e)
  with assms have "t' = t" using in_tx_Inl by metis
  with Inl show thesis by (intro same) simp_all
next
  case (Inr d)
  with assms have run: "TransitionResourceClaims trs t = (Inr d, t')" by (simp add: in_tx_Inr)
  show thesis
  proof (cases "cdec_Acquired d")
    case False
    with run have "t' = t"
      by (auto simp: TransitionResourceClaims_def Let_def
          split: sum.splits prod.splits if_splits)
    with False Inr show thesis by (intro same) simp_all
  qed (use Inr run applied in blast)
qed

lemma AcquireResourceClaims_ok [inv_intros]:
  assumes "claims_ok t" and "in_tx (AcquireResourceClaims request) t = (out, t')"
  shows "claims_ok t'"
  using assms(2)
proof (cases rule: AcquireResourceClaims_cases)
  case (acquired d)
  have "table_ok t'"
    using assms(1) distinct_map_filter [OF validateResourceClaimRequest_None(1)
        [OF acquired_rows(1) [OF acquired(3,2)]], of "\<lambda>s. tget t (spec_ID s) = None"]
    unfolding acquired_rows(3) [OF acquired(3,2)] claims_ok_def table_ok_def
    by (auto simp: comp_def tget_def map_of_eq_None_iff) force
  moreover have "rc_ID c = k \<and> 1 \<le> rc_Version c" if "tget t' k = Some c" for k c
    using that assms(1) unfolding acquired_tget [OF acquired(3,2)] claims_ok_def
    by (auto simp: new_claim_def)
  ultimately show ?thesis by (auto simp: claims_ok_def)
qed (use assms in simp)

lemma TransitionResourceClaims_ok [inv_intros]:
  assumes "claims_ok t" and "in_tx (TransitionResourceClaims trs) t = (out, t')"
  shows "claims_ok t'"
  using assms(2)
proof (cases rule: TransitionResourceClaims_cases)
  case (applied d)
  note tr = transitioned_tget [OF assms(1) applied(3,2)]
  have "rc_ID c = k \<and> 1 \<le> rc_Version c" if c: "tget t' k = Some c" for k c
  proof (cases "List.find (\<lambda>tr. ctr_ClaimID tr = k) trs")
    case None
    with c tr(2) [of k] assms(1) show ?thesis by (simp add: claims_ok_def)
  next
    case (Some x)
    then have "x \<in> set trs" "ctr_ClaimID x = k" by (auto simp: find_Some_iff)
    with Some c tr(2) [of k] tr(3) assms(1) show ?thesis by (fastforce simp: claims_ok_def)
  qed
  with tr(1) show ?thesis by (simp add: claims_ok_def)
qed (use assms in simp)

section \<open>Mutual exclusion\<close>

definition held :: "time \<Rightarrow> resource_claim \<Rightarrow> bool" where
  "held now c \<longleftrightarrow> rc_State c = ResourceClaimActive \<and> rc_ExpiresAt c > now"

text \<open>The expiry of every active claim survives its conversion to the stored column.\<close>

definition expiries_stored :: "claim_table \<Rightarrow> bool" where
  "expiries_stored t \<longleftrightarrow> (\<forall>k c. tget t k = Some c \<longrightarrow> rc_State c = ResourceClaimActive \<longrightarrow>
     stored_time (rc_ExpiresAt c))"

text \<open>Two different claims that are held on one key are both non-exclusive.\<close>

definition exclusion :: "time \<Rightarrow> claim_table \<Rightarrow> bool" where
  "exclusion now t \<longleftrightarrow> (\<forall>k k' c d. tget t k = Some c \<longrightarrow> tget t k' = Some d \<longrightarrow> k \<noteq> k' \<longrightarrow>
     held now c \<longrightarrow> held now d \<longrightarrow> rc_Key c = rc_Key d \<longrightarrow>
     rc_Mode c \<noteq> ResourceClaimExclusive)"

lemma exclusion_later: "exclusion now t \<Longrightarrow> now \<le> later \<Longrightarrow> exclusion later t"
  unfolding exclusion_def held_def by (meson order_le_less_trans)

lemma no_claim_conflict:
  assumes "claim_conflicts t request = []" and "claims_ok t" and "tget t k = Some c"
    and "expiries_stored t" and "stored_time (creq_RequestedAt request)"
    and "held (creq_RequestedAt request) c" and "s \<in> set (creq_Claims request)"
    and "rc_Key c = spec_Key s" and "k \<notin> spec_ID ` set (creq_Claims request)"
  shows "rc_Mode c \<noteq> ResourceClaimExclusive \<and> spec_Mode s \<noteq> ResourceClaimExclusive"
proof -
  have "c \<in> set (active_by_key t (spec_Key s) (creq_RequestedAt request))"
    using assms(3-6,8) tget_in_trows [OF assms(3)]
    by (simp add: active_by_key_def held_def expiries_stored_def nanos_less_iff)
  moreover have "rc_ID c = k" using assms(2,3) by (simp add: claims_ok_def)
  ultimately show ?thesis
    using assms(1,7,9) unfolding claim_conflicts_def Let_def
    by (auto simp: filter_empty_conv)
qed

lemma acquire_exclusion:
  assumes "claims_ok t" and "exclusion (creq_RequestedAt request) t"
    and "AcquireResourceClaims request t = (Inr decision, t')" and "cdec_Acquired decision"
    and "expiries_stored t" and "stored_time (creq_RequestedAt request)"
  shows "exclusion (creq_RequestedAt request) t'"
  unfolding exclusion_def
proof (intro allI impI)
  fix k k' c d
  assume c: "tget t' k = Some c" and d: "tget t' k' = Some d" and "k \<noteq> k'"
    and held: "held (creq_RequestedAt request) c" "held (creq_RequestedAt request) d"
    and key: "rc_Key c = rc_Key d"
  let ?specs = "creq_Claims request"
  note rows = acquired_rows [OF assms(3,4)]
  note get = acquired_tget [OF assms(3,4)]
  have uniq: "s = s'" if "s \<in> set ?specs" "s' \<in> set ?specs" "spec_Key s = spec_Key s'" for s s'
    using that validateResourceClaimRequest_None(2) [OF rows(1)]
    by (auto simp: distinct_map inj_on_def)
  have old_new: "rc_Mode x \<noteq> ResourceClaimExclusive \<and> spec_Mode s \<noteq> ResourceClaimExclusive"
    if x: "tget t j = Some x" "held (creq_RequestedAt request) x" and s: "s \<in> set ?specs"
      and "tget t (spec_ID s) = None" and "rc_Key x = spec_Key s" for x j s
  proof -
    have "j \<notin> spec_ID ` set ?specs"
    proof
      assume "j \<in> spec_ID ` set ?specs"
      then obtain s' where s': "s' \<in> set ?specs" "j = spec_ID s'" by blast
      then have "resourceClaimRequestMatches x request s'" using rows(4) x(1) by blast
      then have "spec_Key s' = spec_Key s" using that(5)
        by (simp add: resourceClaimRequestMatches_def)
      with uniq [OF s'(1) s] s'(2) x(1) that(4) show False by simp
    qed
    then show ?thesis using no_claim_conflict [OF rows(2) assms(1) x(1) assms(5,6) x(2) s that(5)] by blast
  qed
  show "rc_Mode c \<noteq> ResourceClaimExclusive"
    using c d assms(2) \<open>k \<noteq> k'\<close> held key old_new uniq unfolding get exclusion_def
    by (auto simp: new_claim_def) metis
qed

lemma transition_exclusion:
  assumes "claims_ok t" and "exclusion now t" and "\<forall>tr \<in> set trs. now \<le> ctr_At tr"
    and "TransitionResourceClaims trs t = (Inr decision, t')" and "cdec_Acquired decision"
  shows "exclusion now t'"
proof -
  note tr = transitioned_tget [OF assms(1,4,5)]
  text \<open>A row that is held afterwards was held before, on the same key and in the same mode.\<close>
  have before: "\<exists>c. tget t k = Some c \<and> held now c \<and> rc_Key c = rc_Key c' \<and> rc_Mode c = rc_Mode c'"
    if c': "tget t' k = Some c'" "held now c'" for k c'
  proof (cases "List.find (\<lambda>tr. ctr_ClaimID tr = k) trs")
    case None
    with that tr(2) [of k] show ?thesis by simp
  next
    case (Some x)
    then have x: "x \<in> set trs" "ctr_ClaimID x = k" by (auto simp: find_Some_iff)
    with tr(3) obtain c where c: "tget t k = Some c" "validateResourceClaimTransition c x = None"
      by blast
    with Some c' tr(2) [of k] have eq: "c' = apply_claim_transition c x" by simp
    with c'(2) have "ctr_To x = ResourceClaimActive" by (simp add: held_def)
    with c(2) assms(3) x(1) have "held now c"
      by (auto simp: validateResourceClaimTransition_def held_def split: if_splits)
    with c(1) eq show ?thesis by simp
  qed
  show ?thesis
    unfolding exclusion_def
  proof (intro allI impI)
    fix k k' c d
    assume "tget t' k = Some c" "tget t' k' = Some d" "k \<noteq> k'" "held now c" "held now d"
      "rc_Key c = rc_Key d"
    with before [of k c] before [of k' d] assms(2) show "rc_Mode c \<noteq> ResourceClaimExclusive"
      unfolding exclusion_def by metis
  qed
qed

datatype claim_op = Acquire claim_request | TransitionClaims "claim_transition list"

fun claim_step :: "claim_table \<Rightarrow> claim_op \<Rightarrow> claim_table" where
  "claim_step t (Acquire request) = snd (in_tx (AcquireResourceClaims request) t)"
| "claim_step t (TransitionClaims transitions) = snd (in_tx (TransitionResourceClaims transitions) t)"

text \<open>An operation issued when the runtime's clock shows \<open>now\<close>.\<close>

fun claim_op_at :: "time \<Rightarrow> claim_op \<Rightarrow> bool" where
  "claim_op_at now (Acquire request) \<longleftrightarrow> creq_RequestedAt request = now"
| "claim_op_at now (TransitionClaims transitions) \<longleftrightarrow> (\<forall>tr \<in> set transitions. ctr_At tr = now)"

text \<open>The times an operation compares or stores lie in the range of \<^verbatim>\<open>UnixNano\<close>.\<close>

fun claim_op_stored :: "claim_op \<Rightarrow> bool" where
  "claim_op_stored (Acquire request) \<longleftrightarrow>
     stored_time (creq_RequestedAt request) \<and> stored_time (creq_ExpiresAt request)"
| "claim_op_stored (TransitionClaims transitions) \<longleftrightarrow>
     (\<forall>tr \<in> set transitions. ctr_To tr = ResourceClaimActive \<longrightarrow> stored_time (ctr_ExpiresAt tr))"

interpretation claim_sys: guarded_system "\<lambda>t. t = []" claim_step claims_ok
proof
  fix t :: claim_table and e
  assume "claims_ok t"
  then show "claims_ok (claim_step t e)"
    by (cases e)
       (metis AcquireResourceClaims_ok TransitionResourceClaims_ok claim_step.simps prod.collapse)+
qed simp

lemma claim_step_stored:
  assumes "claims_ok t" and "expiries_stored t" and "claim_op_stored e"
  shows "expiries_stored (claim_step t e)"
proof (cases e)
  case (Acquire request)
  obtain out t' where run: "in_tx (AcquireResourceClaims request) t = (out, t')"
    by (cases "in_tx (AcquireResourceClaims request) t")
  then show ?thesis
  proof (cases rule: AcquireResourceClaims_cases)
    case same
    with run Acquire assms(2) show ?thesis by simp
  next
    case (acquired d)
    have "expiries_stored t'"
      using assms(2,3) Acquire unfolding expiries_stored_def acquired_tget [OF acquired(3,2)]
      by (auto simp: new_claim_def)
    with run Acquire show ?thesis by simp
  qed
next
  case (TransitionClaims trs)
  obtain out t' where run: "in_tx (TransitionResourceClaims trs) t = (out, t')"
    by (cases "in_tx (TransitionResourceClaims trs) t")
  then show ?thesis
  proof (cases rule: TransitionResourceClaims_cases)
    case same
    with run TransitionClaims assms(2) show ?thesis by simp
  next
    case (applied d)
    have "stored_time (rc_ExpiresAt c)"
      if c: "tget t' k = Some c" "rc_State c = ResourceClaimActive" for k c
    proof (cases "List.find (\<lambda>tr. ctr_ClaimID tr = k) trs")
      case None
      with c transitioned_tget(2) [OF assms(1) applied(3,2), of k] assms(2) show ?thesis
        by (simp add: expiries_stored_def)
    next
      case (Some x)
      then have "x \<in> set trs" by (auto simp: find_Some_iff)
      with Some c transitioned_tget(2) [OF assms(1) applied(3,2), of k] assms(3) TransitionClaims
      show ?thesis by auto
    qed
    then have "expiries_stored t'" unfolding expiries_stored_def by blast
    with run TransitionClaims show ?thesis by simp
  qed
qed

lemma claim_step_exclusion:
  assumes "claims_ok t" and "exclusion now t" and "claim_op_at now e"
    and "expiries_stored t" and "claim_op_stored e"
  shows "exclusion now (claim_step t e)"
proof (cases e)
  case (Acquire request)
  obtain out t' where run: "in_tx (AcquireResourceClaims request) t = (out, t')"
    by (cases "in_tx (AcquireResourceClaims request) t")
  then show ?thesis
  proof (cases rule: AcquireResourceClaims_cases)
    case same
    with run Acquire assms(2) show ?thesis by simp
  next
    case (acquired d)
    with acquire_exclusion [OF assms(1) _ acquired(3,2) assms(4)] run Acquire assms(2,3,5)
    show ?thesis by simp
  qed
next
  case (TransitionClaims trs)
  obtain out t' where run: "in_tx (TransitionResourceClaims trs) t = (out, t')"
    by (cases "in_tx (TransitionResourceClaims trs) t")
  then show ?thesis
  proof (cases rule: TransitionResourceClaims_cases)
    case same
    with run TransitionClaims assms(2) show ?thesis by simp
  next
    case (applied d)
    with transition_exclusion [OF assms(1,2) _ applied(3,2)] run TransitionClaims assms(3)
    show ?thesis by simp
  qed
qed

text \<open>A history is a list of operations with the clock values at which they run.\<close>

definition run_claims :: "claim_table \<Rightarrow> (time \<times> claim_op) list \<Rightarrow> claim_table" where
  "run_claims t hist = foldl claim_step t (map snd hist)"

lemma run_claims_exclusion:
  assumes "claims_ok t" and "exclusion now t" and "sorted (now # map fst hist)"
    and "\<forall>(at, e) \<in> set hist. claim_op_at at e \<and> claim_op_stored e" and "expiries_stored t"
  shows "exclusion (last (now # map fst hist)) (run_claims t hist)"
  using assms
proof (induction hist arbitrary: now t)
  case (Cons h hist)
  obtain at e where h: "h = (at, e)" by (cases h)
  have "exclusion at t" using Cons.prems(2,3) h exclusion_later by simp
  then have "exclusion at (claim_step t e)"
    using Cons.prems(1,4,5) h by (intro claim_step_exclusion) auto
  moreover have "expiries_stored (claim_step t e)"
    using Cons.prems(1,4,5) h by (intro claim_step_stored) auto
  moreover have "claims_ok (claim_step t e)" using Cons.prems(1) by (rule claim_sys.inv_step)
  ultimately have "exclusion (last (at # map fst hist)) (run_claims (claim_step t e) hist)"
    using Cons.prems(3,4) h by (intro Cons.IH) auto
  then show ?case using h by (simp add: run_claims_def)
qed (simp add: run_claims_def)

section \<open>Versions\<close>

definition claim_version :: "claim_table \<Rightarrow> string \<Rightarrow> nat" where
  "claim_version t k = (case tget t k of None \<Rightarrow> 0 | Some c \<Rightarrow> rc_Version c)"

definition claim_cas ::
  "claim_table \<Rightarrow> string \<Rightarrow> nat \<Rightarrow> claim_transition \<Rightarrow> claim_table option" where
  "claim_cas t k n transition =
     (case in_tx (TransitionResourceClaims
             [transition\<lparr>ctr_ClaimID := k, ctr_ExpectedVersion := n\<rparr>]) t of
        (Inr decision, t') \<Rightarrow> if cdec_Acquired decision then Some t' else None
      | (Inl _, _) \<Rightarrow> None)"

lemma claim_casD:
  assumes "claims_ok t" and "claim_cas t k n tr = Some t'"
  shows "\<exists>c. tget t k = Some c \<and> rc_Version c = n \<and>
    tget t' k = Some (apply_claim_transition c (tr\<lparr>ctr_ClaimID := k, ctr_ExpectedVersion := n\<rparr>)) \<and>
    u64_inc n = n + 1" and "k' \<noteq> k \<Longrightarrow> tget t' k' = tget t k'" and "claims_ok t'"
proof -
  let ?tr = "tr\<lparr>ctr_ClaimID := k, ctr_ExpectedVersion := n\<rparr>"
  from assms(2) obtain d where run: "in_tx (TransitionResourceClaims [?tr]) t = (Inr d, t')"
    "cdec_Acquired d"
    by (auto simp: claim_cas_def split: prod.splits sum.splits if_splits)
  from assms(1) run(1) show "claims_ok t'" by (rule TransitionResourceClaims_ok)
  note tr = transitioned_tget [OF assms(1) run(1) [unfolded in_tx_Inr] run(2)]
  from tr(2) [of k] tr(3) show "\<exists>c. tget t k = Some c \<and> rc_Version c = n \<and>
    tget t' k = Some (apply_claim_transition c ?tr) \<and> u64_inc n = n + 1" by auto
  from tr(2) [of k'] show "k' \<noteq> k \<Longrightarrow> tget t' k' = tget t k'" by simp
qed

interpretation claims: versioned_store claims_ok claim_version claim_cas
proof
  fix s k n r s' k'
  assume ok: "claims_ok s" and c: "claim_cas s k n r = Some s'"
  from claim_casD [OF ok c] show "claim_version s k = n" "claim_version s' k = n + 1" "claims_ok s'"
    by (auto simp: claim_version_def)
  from claim_casD(2) [OF ok c] show "claim_version s' k' = claim_version s k'" if "k' \<noteq> k"
    using that by (simp add: claim_version_def)
qed

section \<open>Correctness\<close>

definition ex_specs :: "string \<Rightarrow> claim_spec list" where
  "ex_specs h = [\<lparr>spec_ID = h @ ''-1'', spec_Key = ''repo'', spec_Mode = ResourceClaimExclusive\<rparr>,
     \<lparr>spec_ID = h @ ''-2'', spec_Key = ''docs'', spec_Mode = ResourceClaimShared\<rparr>]"

definition ex_claim_request :: "string \<Rightarrow> time \<Rightarrow> claim_request" where
  "ex_claim_request h at = \<lparr>creq_RunID = ''run'', creq_TaskID = h, creq_LeaseID = h,
     creq_HolderID = h, creq_Claims = ex_specs h, creq_RequestedAt = UnixEpoch + at,
     creq_ExpiresAt = UnixEpoch + at + 10\<rparr>"

definition ex_claims :: claim_table where
  "ex_claims = snd (AcquireResourceClaims (ex_claim_request ''t1'' 1) [])"

definition ex_claim_decision :: claim_decision where
  "ex_claim_decision = projr (fst (AcquireResourceClaims (ex_claim_request ''t1'' 1) []))"

definition ex_release :: claim_transition where
  "ex_release = \<lparr>ctr_ClaimID = ''t1-1'', ctr_ExpectedVersion = 1, ctr_To = ResourceClaimReleased,
     ctr_At = UnixEpoch + 5, ctr_ExpiresAt = 0\<rparr>"

lemma ex_acquire:
  "AcquireResourceClaims (ex_claim_request ''t1'' 1) [] = (Inr ex_claim_decision, ex_claims)"
  "cdec_Acquired ex_claim_decision"
  by code_simp+

lemma ex_claims_ok: "claims_ok ex_claims"
  using AcquireResourceClaims_ok [of "[]" "ex_claim_request ''t1'' 1" "Inr ex_claim_decision" ex_claims]
  by (simp add: in_tx_Inr ex_acquire)


definition ex_claim_history :: "(time \<times> claim_op) list" where
  "ex_claim_history = [(UnixEpoch + 1, Acquire (ex_claim_request ''t1'' 1)),
     (UnixEpoch + 2, Acquire (ex_claim_request ''t2'' 2)), (UnixEpoch + 5, TransitionClaims [ex_release]),
     (UnixEpoch + 6, Acquire (ex_claim_request ''t3'' 6))]"


text \<open>An exclusive claim that expires in the year 2300 is stored with a negative expiry: a second
  task is granted the same key exclusively one nanosecond later.\<close>

definition year_2300 :: time where
  "year_2300 = UnixEpoch + 10413792000000000000"

definition ex_long_request :: "string \<Rightarrow> time \<Rightarrow> claim_request" where
  "ex_long_request h at = (ex_claim_request h at)\<lparr>creq_ExpiresAt := year_2300\<rparr>"

theorem claim_expiry_wraps:
  "case run_claims [] [(UnixEpoch + 1, Acquire (ex_long_request ''t1'' 1)),
        (UnixEpoch + 2, Acquire (ex_long_request ''t2'' 2))] of t \<Rightarrow>
     (case (tget t ''t1-1'', tget t ''t2-1'') of
        (Some c, Some d) \<Rightarrow> rc_Key c = rc_Key d \<and> held (UnixEpoch + 2) c \<and> held (UnixEpoch + 2) d \<and>
          rc_Mode c = ResourceClaimExclusive \<and> rc_Mode d = ResourceClaimExclusive
      | _ \<Rightarrow> False)"
  by code_simp

text \<open>Acquisition is all or nothing: a request that is denied or fails leaves the table as
  it was, and a granted one leaves every requested key held by the requester in the requested
  mode.\<close>

theorem acquire_all_or_nothing:
  assumes "in_tx (AcquireResourceClaims request) t = (out, t')"
  shows "if (\<exists>d. out = Inr d \<and> cdec_Acquired d)
    then (\<forall>s \<in> set (creq_Claims request). \<exists>c. tget t' (spec_ID s) = Some c \<and>
            held (creq_RequestedAt request) c \<and> rc_Key c = spec_Key s \<and> rc_Mode c = spec_Mode s \<and>
            rc_LeaseID c = creq_LeaseID request \<and> rc_HolderID c = creq_HolderID request)
    else t' = t"
  using assms
proof (cases rule: AcquireResourceClaims_cases)
  case same
  then show ?thesis by auto
next
  case (acquired d)
  note rows = acquired_rows [OF acquired(3,2)]
  have "\<exists>c. tget t' (spec_ID s) = Some c \<and>
      held (creq_RequestedAt request) c \<and> rc_Key c = spec_Key s \<and> rc_Mode c = spec_Mode s \<and>
      rc_LeaseID c = creq_LeaseID request \<and> rc_HolderID c = creq_HolderID request"
    if s: "s \<in> set (creq_Claims request)" for s
  proof (cases "tget t (spec_ID s)")
    case None
    then have "tget t' (spec_ID s) = Some (new_claim request s)"
      using s acquired_tget [OF acquired(3,2)] by auto
    then show ?thesis
      using validateResourceClaimRequest_None(3) [OF rows(1)] by (simp add: new_claim_def held_def)
  next
    case (Some c)
    then have "tget t' (spec_ID s) = Some c" using acquired_tget [OF acquired(3,2)] by auto
    moreover have "resourceClaimRequestMatches c request s" using rows(4) s Some by blast
    ultimately show ?thesis by (auto simp: resourceClaimRequestMatches_def held_def)
  qed
  with acquired(1,2) show ?thesis by simp
qed

theorem acquire_all_or_nothing_witness:
  "in_tx (AcquireResourceClaims (ex_claim_request ''t2'' 2)) ex_claims =
     (fst (in_tx (AcquireResourceClaims (ex_claim_request ''t2'' 2)) ex_claims), ex_claims)"
proof -
  let ?r = "in_tx (AcquireResourceClaims (ex_claim_request ''t2'' 2)) ex_claims"
  have "case fst ?r of Inr d \<Rightarrow> \<not> cdec_Acquired d | Inl _ \<Rightarrow> False" by code_simp
  then have "\<not> (\<exists>d. fst ?r = Inr d \<and> cdec_Acquired d)" by (auto split: sum.splits)
  with acquire_all_or_nothing [of "ex_claim_request ''t2'' 2" ex_claims "fst ?r" "snd ?r"]
  have "snd ?r = ex_claims" by simp
  then show ?thesis by (metis prod.collapse)
qed

text \<open>Acquisition is idempotent: repeating a granted request grants it again with the same
  claims and adds no row.\<close>

theorem acquire_idempotent:
  assumes "claims_ok t" and "AcquireResourceClaims request t = (Inr decision, t')"
    and "cdec_Acquired decision"
  shows "AcquireResourceClaims request t' = (Inr decision, t')"
proof -
  let ?specs = "creq_Claims request"
  note rows = acquired_rows [OF assms(2,3)]
  note get = acquired_tget [OF assms(2,3)]
  define row where "row s = (case tget t (spec_ID s) of None \<Rightarrow> new_claim request s | Some c \<Rightarrow> c)" for s
  have row: "tget t' (spec_ID s) = Some (row s)" if "s \<in> set ?specs" for s
    using that get [of "spec_ID s"] by (cases "tget t (spec_ID s)") (auto simp: row_def)
  have matches: "resourceClaimRequestMatches (row s) request s" if "s \<in> set ?specs" for s
    using that rows(4) validateResourceClaimRequest_None(3) [OF rows(1)]
    by (cases "tget t (spec_ID s)")
       (auto simp: row_def resourceClaimRequestMatches_def new_claim_def)
  have coll': "collect_claims t' request specs = Inr (map row specs, [])"
    if "set specs \<subseteq> set ?specs" for specs
    using that row matches by (induction specs) (auto simp: LoadResourceClaim_def)
  have dec: "decision = \<lparr>cdec_Acquired = True, cdec_Reason = ResourceClaimDeniedNone,
      cdec_Claims = map row ?specs, cdec_Conflicts = []\<rparr>"
    using assms(2,3) collect_claims_Inr [of t request ?specs] rows(1,2)
    unfolding row_def
    by (auto simp: AcquireResourceClaims_def Let_def split: sum.splits prod.splits if_splits)
  have none: "claim_conflicts t' request = []"
  proof -
    have "rc_ID c \<in> spec_ID ` set ?specs"
      if "c \<in> set (trows t')" "c \<notin> set (trows t)" for c
      using that unfolding rows(3) by (auto simp: trows_def new_claim_def)
    then show ?thesis
      using rows(2) unfolding claim_conflicts_def Let_def
      by (fastforce simp: active_by_key_def filter_empty_conv)
  qed
  show ?thesis
    using rows(1) coll' [of ?specs] none dec by (simp add: AcquireResourceClaims_def)
qed

theorem acquire_idempotent_witness:
  "AcquireResourceClaims (ex_claim_request ''t1'' 1) ex_claims = (Inr ex_claim_decision, ex_claims)"
  by (rule acquire_idempotent [OF claims_ok_Nil ex_acquire])

text \<open>Renewals and releases of one claim never overwrite each other: in every
  serialisation each version of a claim is consumed at most once, and the version counts the
  committed transitions.\<close>

theorem claims_no_lost_update:
  assumes "claims_ok t"
  shows "distinct (claims.committed t ws) \<and>
    claim_version (claims.run_writes t ws) k =
      claim_version t k + length (filter (\<lambda>w. fst w = k) (claims.committed t ws))"
  using claims.committed_distinct [OF assms] claims.version_counts_commits [OF assms] by simp

theorem claims_no_lost_update_witness:
  "distinct (claims.committed ex_claims [(''t1-1'', 1, ex_release), (''t1-1'', 1, ex_release)]) \<and>
   claim_cas ex_claims ''t1-1'' 1 ex_release \<noteq> None"
proof -
  have "claim_cas ex_claims ''t1-1'' 1 ex_release \<noteq> None" by code_simp
  then show ?thesis using claims_no_lost_update [OF ex_claims_ok] by blast
qed

end
