(* ===== verification/Recovery.thy ===== *)
theory Recovery
  imports Leases Action_Attempts Resource_Claims
begin

text \<open>
  Startup recovery: \<^verbatim>\<open>PrepareRecovery\<close> and \<^verbatim>\<open>expireActiveResourceClaims\<close> of
  \<^verbatim>\<open>internal/store/sqlite/recovery.go\<close>. In one transaction every lease of the previous
  process is expired, every attempt it left incomplete is quarantined, every provider request it
  had started becomes unknown and every active resource claim is expired. The lemmas of the
  three stores carry over: recovery keeps their invariants.

  The state is an extensible record: it names the four tables the function writes, and its
  extension stands for the other tables of the same database (durable executions with their own
  leases and attempts, subagent runs, tool rows), which the function leaves as they are; they are
  quiesced elsewhere, when a run is resumed.
\<close>

section \<open>State and loops\<close>

record recovery_state =
  rs_leases :: lease_table
  rs_attempts :: action_table
  rs_provider_requests :: "(string, string) table"
  rs_claims :: claim_table

definition expire_lease_row :: "lease \<Rightarrow> lease" where
  "expire_lease_row l = l\<lparr>l_Status := LeaseStatusExpired\<rparr>"

fun expire_leases :: "(string \<times> lease) list \<Rightarrow> lease_table \<Rightarrow> nat \<times> lease_table" where
  "expire_leases [] t = (0, t)"
| "expire_leases ((k, l) # rows) t =
     (let (changed, t') = tupdate_where k
            (\<lambda>r. l_Version r = l_Version l \<and> l_Status r = LeaseStatusActive) (expire_lease_row l) t;
          (n, t'') = expire_leases rows t'
      in (changed + n, t''))"

definition expire_claim :: "time \<Rightarrow> resource_claim \<Rightarrow> resource_claim" where
  "expire_claim at claim = claim\<lparr>rc_State := ResourceClaimExpired,
     rc_Version := u64_inc (rc_Version claim), rc_UpdatedAt := at\<rparr>"

fun expireActiveResourceClaims ::
  "time \<Rightarrow> resource_claim list \<Rightarrow> claim_table \<Rightarrow> (error + unit) \<times> claim_table" where
  "expireActiveResourceClaims at [] t = (Inr (), t)"
| "expireActiveResourceClaims at (claim # rows) t =
     (if rc_State claim \<noteq> ResourceClaimActive then expireActiveResourceClaims at rows t
      else
        case int64FromUint64 (rc_Version (expire_claim at claim)) of
          Inl e \<Rightarrow> (Inl e, t)
        | Inr _ \<Rightarrow>
          (case int64FromUint64 (rc_Version claim) of
             Inl e \<Rightarrow> (Inl e, t)
           | Inr _ \<Rightarrow> expireActiveResourceClaims at rows
               (snd (tupdate_where (rc_ID claim) (\<lambda>r. rc_Version r = rc_Version claim)
                  (expire_claim at claim) t))))"

definition PrepareRecovery ::
  "time \<Rightarrow> 'o recovery_state_scheme \<Rightarrow> (error + (nat \<times> nat)) \<times> 'o recovery_state_scheme" where
  "PrepareRecovery at = in_tx (\<lambda>s.
     let leaseRows = filter (\<lambda>(k, l). l_Status l = LeaseStatusActive) (rs_leases s);
         (expired, leases') = expire_leases leaseRows (rs_leases s);
         attemptRows = filter (\<lambda>(k, r). incomplete (row_Status r)) (rs_attempts s);
         (quarantined, attempts') = quarantine_attempts attemptRows (rs_attempts s);
         requests' = map (\<lambda>(k, st). (k, if st = ''started'' then ''unknown'' else st))
           (rs_provider_requests s);
         (claimsOut, claims') = expireActiveResourceClaims at
           (ListResourceClaimData (rs_claims s)) (rs_claims s);
         s' = s\<lparr>rs_leases := leases', rs_attempts := attempts', rs_provider_requests := requests',
                rs_claims := claims'\<rparr>
     in case claimsOut of
          Inl e \<Rightarrow> (Inl e, s')
        | Inr _ \<Rightarrow> (Inr (expired, quarantined), s'))"

section \<open>What the loops compute\<close>

text \<open>Each loop updates the rows it selected, once each: it is a map over the table.\<close>

lemma map_split_tput:
  assumes "distinct (map fst (xs @ (k, v) # ys))"
  shows "tput k w (xs @ (k, v) # ys) = xs @ (k, w) # ys"
proof -
  have "tput k w (xs @ (k, v) # ys) = xs @ tput k w ((k, v) # ys)"
    using assms by (induction xs) (auto simp: tput_def)
  then show ?thesis by (simp add: tput_def)
qed

lemma tget_split: "distinct (map fst (xs @ (k, v) # ys)) \<Longrightarrow> tget (xs @ (k, v) # ys) k = Some v"
  by (induction xs) (auto simp: tget_def)

lemma expire_leases_map:
  assumes "distinct (map fst (done @ todo))"
  shows "expire_leases (filter (\<lambda>(k, l). l_Status l = LeaseStatusActive) todo) (done @ todo) =
    (length (filter (\<lambda>(k, l). l_Status l = LeaseStatusActive) todo),
     done @ map (\<lambda>(k, l). (k, if l_Status l = LeaseStatusActive then expire_lease_row l else l)) todo)"
  using assms
proof (induction todo arbitrary: "done")
  case (Cons x todo)
  obtain k l where x: "x = (k, l)" by (cases x)
  let ?l = "if l_Status l = LeaseStatusActive then expire_lease_row l else l"
  have "distinct (map fst ((done @ [(k, ?l)]) @ todo))" using Cons.prems x by simp
  from Cons.IH [OF this] show ?case
    using x map_split_tput [OF Cons.prems [unfolded x]] tget_split [OF Cons.prems [unfolded x]]
    by (cases "l_Status l = LeaseStatusActive") (simp_all add: tupdate_where_def)
qed simp

lemma quarantine_attempts_map:
  assumes "distinct (map fst (done @ todo))"
  shows "quarantine_attempts (filter (\<lambda>(k, r). incomplete (row_Status r)) todo) (done @ todo) =
    (length (filter (\<lambda>(k, r). incomplete (row_Status r)) todo),
     done @ map (\<lambda>(k, r). (k, if incomplete (row_Status r) then quarantine_row r else r)) todo)"
  using assms
proof (induction todo arbitrary: "done")
  case (Cons x todo)
  obtain k r where x: "x = (k, r)" by (cases x)
  let ?r = "if incomplete (row_Status r) then quarantine_row r else r"
  have "distinct (map fst ((done @ [(k, ?r)]) @ todo))" using Cons.prems x by simp
  from Cons.IH [OF this] show ?case
    using x map_split_tput [OF Cons.prems [unfolded x]] tget_split [OF Cons.prems [unfolded x]]
    by (cases "incomplete (row_Status r)") (simp_all add: tupdate_where_def)
qed simp

lemma expireActiveResourceClaims_get:
  assumes "expireActiveResourceClaims at rows t = (Inr (), t')" and "table_ok t"
    and "distinct (map rc_ID rows)" and "\<forall>c \<in> set rows. tget t (rc_ID c) = Some c"
  shows "table_ok t' \<and> (\<forall>k. tget t' k = (case List.find (\<lambda>c. rc_ID c = k) rows of
      None \<Rightarrow> tget t k
    | Some c \<Rightarrow> Some (if rc_State c = ResourceClaimActive then expire_claim at c else c))) \<and>
    (\<forall>c \<in> set rows. rc_State c = ResourceClaimActive \<longrightarrow> u64_inc (rc_Version c) < 2 ^ 63 \<and>
       rc_Version c < 2 ^ 63)"
  using assms
proof (induction rows arbitrary: t)
  case (Cons c rows)
  let ?t = "if rc_State c = ResourceClaimActive then tput (rc_ID c) (expire_claim at c) t else t"
  from Cons.prems have run: "expireActiveResourceClaims at rows ?t = (Inr (), t')"
    and v: "rc_State c = ResourceClaimActive \<Longrightarrow>
      u64_inc (rc_Version c) < 2 ^ 63 \<and> rc_Version c < 2 ^ 63"
    by (auto simp: tupdate_where_def int64FromUint64_def expire_claim_def split: if_splits)
  have notin: "rc_ID d \<noteq> rc_ID c" if "d \<in> set rows" for d 
    using Cons.prems(3) that by (simp add: image_iff) metis
  then have rest: "\<forall>d \<in> set rows. tget ?t (rc_ID d) = Some d" using Cons.prems(4) by auto
  have none: "List.find (\<lambda>d. rc_ID d = rc_ID c) rows = None" using notin by (auto simp: find_None_iff)
  have "table_ok ?t" using Cons.prems(2) by simp
  from Cons.IH [OF run this _ rest] Cons.prems(3,4) v none show ?case
    by (auto split: option.splits)
qed simp

definition recovery_ok :: "'o recovery_state_scheme \<Rightarrow> bool" where
  "recovery_ok s \<longleftrightarrow> leases_ok (rs_leases s) \<and> actions_ok (rs_attempts s) \<and> claims_ok (rs_claims s)"

definition recover_lease :: "lease \<Rightarrow> lease" where
  "recover_lease l = (if l_Status l = LeaseStatusActive then expire_lease_row l else l)"

definition recover_attempt :: "action_row \<Rightarrow> action_row" where
  "recover_attempt r = (if incomplete (row_Status r) then quarantine_row r else r)"

definition recover_claim :: "time \<Rightarrow> resource_claim \<Rightarrow> resource_claim" where
  "recover_claim at c = (if rc_State c = ResourceClaimActive then expire_claim at c else c)"

lemma claim_rows:
  assumes "claims_ok t"
  shows "distinct (map rc_ID (ListResourceClaimData t))"
    and "\<forall>c \<in> set (ListResourceClaimData t). tget t (rc_ID c) = Some c"
    and "List.find (\<lambda>c. rc_ID c = k) (ListResourceClaimData t) = tget t k"
proof -
  have "rc_ID (snd x) = fst x" if "x \<in> set t" for x
    using assms that map_of_is_SomeI [of t "fst x" "snd x"]
    by (simp add: claims_ok_def table_ok_def tget_def)
  then have fst: "map rc_ID (trows t) = map fst t" by (simp add: trows_def)
  have inj: "distinct (map rc_ID (trows t))" unfolding fst using assms
    by (simp add: claims_ok_def table_ok_def)
  then show "distinct (map rc_ID (ListResourceClaimData t))"
    unfolding ListResourceClaimData_def distinct_map by simp
  have get: "tget t (rc_ID c) = Some c" if "c \<in> set (trows t)" for c
  proof -
    have "table_ok t" using assms by (simp add: claims_ok_def)
    from trows_tget [OF this that] obtain k where "tget t k = Some c" ..
    with assms show ?thesis by (simp add: claims_ok_def)
  qed
  then show "\<forall>c \<in> set (ListResourceClaimData t). tget t (rc_ID c) = Some c"
    by (auto simp: ListResourceClaimData_def)
  show "List.find (\<lambda>c. rc_ID c = k) (ListResourceClaimData t) = tget t k"
  proof (cases "tget t k")
    case None
    then show ?thesis using get by (force simp: find_None_iff ListResourceClaimData_def)
  next
    case (Some c)
    then have c: "c \<in> set (ListResourceClaimData t)" "rc_ID c = k"
      using assms by (auto simp: ListResourceClaimData_def claims_ok_def dest: tget_in_trows)
    then obtain d where d: "List.find (\<lambda>c. rc_ID c = k) (ListResourceClaimData t) = Some d"
      using find_ex [of c "ListResourceClaimData t" "\<lambda>c. rc_ID c = k"] by metis
    then have "d \<in> set (trows t)" "rc_ID d = k"
      by (auto simp: ListResourceClaimData_def dest!: find_SomeD)
    with d Some get show ?thesis by fastforce
  qed
qed

text \<open>A recovery that commits rewrites every row independently.\<close>

lemma PrepareRecovery_Inr:
  assumes "recovery_ok s" and "PrepareRecovery at s = (Inr (n, q), s')"
  shows "tget (rs_leases s') k = map_option recover_lease (tget (rs_leases s) k)"
    and "n = length (filter (\<lambda>l. l_Status l = LeaseStatusActive) (trows (rs_leases s)))"
    and "rs_leases s' = map (\<lambda>(k, l). (k, recover_lease l)) (rs_leases s)"
    and "rs_attempts s' = map (\<lambda>(k, r). (k, recover_attempt r)) (rs_attempts s)"
    and "q = length (filter (\<lambda>r. incomplete (row_Status r)) (trows (rs_attempts s)))"
    and "rs_provider_requests s' = map (\<lambda>(k, st). (k, if st = ''started'' then ''unknown'' else st))
           (rs_provider_requests s)"
    and "table_ok (rs_claims s')"
    and "tget (rs_claims s') k = map_option (recover_claim at) (tget (rs_claims s) k)"
    and "\<forall>c \<in> set (trows (rs_claims s)). rc_State c = ResourceClaimActive \<longrightarrow>
       u64_inc (rc_Version c) < 2 ^ 63 \<and> rc_Version c < 2 ^ 63"
    and "recovery_state.more s' = recovery_state.more s"
proof -
  have dist: "distinct (map fst (rs_leases s))" "distinct (map fst (rs_attempts s))"
    and claims: "claims_ok (rs_claims s)"
    using assms(1) by (auto simp: recovery_ok_def leases_ok_def actions_ok_def idem_ok_def table_ok_def)
  let ?rows = "ListResourceClaimData (rs_claims s)"
  note el = expire_leases_map [of "[]" "rs_leases s", simplified, OF dist(1)]
  note qa = quarantine_attempts_map [of "[]" "rs_attempts s", simplified, OF dist(2)]
  have cl: "expireActiveResourceClaims at ?rows (rs_claims s) = (Inr (), rs_claims s')"
    and l: "rs_leases s' = map (\<lambda>(k, l). (k, recover_lease l)) (rs_leases s)"
    and n: "n = length (filter (\<lambda>(k, l). l_Status l = LeaseStatusActive) (rs_leases s))"
    and q: "q = length (filter (\<lambda>(k, r). incomplete (row_Status r)) (rs_attempts s))"
    and a: "rs_attempts s' = map (\<lambda>(k, r). (k, recover_attempt r)) (rs_attempts s)"
    and p: "rs_provider_requests s' = map (\<lambda>(k, st). (k, if st = ''started'' then ''unknown'' else st))
           (rs_provider_requests s)"
    and m: "recovery_state.more s' = recovery_state.more s"
    using assms(2) unfolding PrepareRecovery_def in_tx_Inr recover_lease_def recover_attempt_def
    by (auto simp: el qa Let_def split: prod.splits sum.splits)
  show "recovery_state.more s' = recovery_state.more s" by (rule m)
  show "rs_leases s' = map (\<lambda>(k, l). (k, recover_lease l)) (rs_leases s)" by (rule l)
  then show "tget (rs_leases s') k = map_option recover_lease (tget (rs_leases s) k)"
    by (simp add: tget_map)
  show "rs_attempts s' = map (\<lambda>(k, r). (k, recover_attempt r)) (rs_attempts s)" by (rule a)
  show "rs_provider_requests s' = map (\<lambda>(k, st). (k, if st = ''started'' then ''unknown'' else st))
           (rs_provider_requests s)" by (rule p)
  show "n = length (filter (\<lambda>l. l_Status l = LeaseStatusActive) (trows (rs_leases s)))"
    using n by (simp add: trows_def filter_map comp_def case_prod_unfold)
  show "q = length (filter (\<lambda>r. incomplete (row_Status r)) (trows (rs_attempts s)))"
    using q by (simp add: trows_def filter_map comp_def case_prod_unfold)
  have "table_ok (rs_claims s)" using claims by (simp add: claims_ok_def)
  note cr = expireActiveResourceClaims_get [OF cl this claim_rows(1,2) [OF claims]]
  then show "table_ok (rs_claims s')" by blast
  from cr show "tget (rs_claims s') k = map_option (recover_claim at) (tget (rs_claims s) k)"
    by (auto simp: claim_rows(3) [OF claims] recover_claim_def split: option.splits)
  from cr show "\<forall>c \<in> set (trows (rs_claims s)). rc_State c = ResourceClaimActive \<longrightarrow>
       u64_inc (rc_Version c) < 2 ^ 63 \<and> rc_Version c < 2 ^ 63"
    by (simp add: ListResourceClaimData_def)
qed

section \<open>Correctness\<close>

lemma recovery_attempts_ok:
  assumes "actions_ok t"
  shows "actions_ok (map (\<lambda>(k, r). (k, recover_attempt r)) t)"
proof -
  let ?t = "map (\<lambda>(k, r). (k, recover_attempt r)) t"
  have cols: "ikey (recover_attempt r) = ikey r"
    "row_IdempotencyKey (recover_attempt r) = row_IdempotencyKey r"
    "row_DataSha256 (recover_attempt r) = row_DataSha256 r" for r
    by (simp_all add: recover_attempt_def quarantine_row_def ikey_def)
  have "row_ok k (recover_attempt r)" if "row_ok k r" "row_DataSha256 r = None" for k r
    using that by (simp add: row_ok_def recover_attempt_def quarantine_row_def loadPayload_def Let_def)
  then show ?thesis
    using assms unfolding actions_ok_def idem_ok_def table_ok_def tget_map keys_map
    by (auto simp: cols)
qed

lemma recovery_leases_ok:
  assumes "leases_ok t"
  shows "leases_ok (map (\<lambda>(k, l). (k, recover_lease l)) t)"
  unfolding leases_ok_def
proof (intro conjI)
  let ?t = "map (\<lambda>(k, l). (k, recover_lease l)) t"
  show "table_ok ?t" using assms by (simp only: leases_ok_def table_ok_def keys_map)
  have row: "\<exists>l. tget t k = Some l \<and> l_ID l' = l_ID l \<and> l_slot l' = l_slot l \<and>
      l_Version l' = l_Version l \<and> l_Status l' \<noteq> LeaseStatusActive"
    if "tget ?t k = Some l'" for k l'
    using that unfolding tget_map by (auto simp: recover_lease_def expire_lease_row_def)
  show "\<forall>k l. tget ?t k = Some l \<longrightarrow> l_ID l = k \<and> 1 \<le> l_Version l \<and> l_Version l < 2 ^ 63"
  proof (intro allI impI)
    fix k l' assume "tget ?t k = Some l'"
    from row [OF this] obtain l where "tget t k = Some l" "l_ID l' = l_ID l"
      "l_Version l' = l_Version l" by blast
    with leases_okD [OF assms] show "l_ID l' = k \<and> 1 \<le> l_Version l' \<and> l_Version l' < 2 ^ 63"
      by metis
  qed
  show "\<forall>k k' l l'. tget ?t k = Some l \<longrightarrow> tget ?t k' = Some l' \<longrightarrow> k \<noteq> k' \<longrightarrow> l_slot l = l_slot l' \<longrightarrow>
      l_Version l \<noteq> l_Version l' \<and>
      \<not> (l_Status l = LeaseStatusActive \<and> l_Status l' = LeaseStatusActive)"
  proof (intro allI impI)
    fix k k' l l' assume a: "tget ?t k = Some l" "tget ?t k' = Some l'" "k \<noteq> k'" "l_slot l = l_slot l'"
    from row [OF a(1)] row [OF a(2)] obtain m m' where "tget t k = Some m" "tget t k' = Some m'"
      "l_slot m = l_slot m'" "l_Version l = l_Version m" "l_Version l' = l_Version m'"
      "l_Status l \<noteq> LeaseStatusActive" using a(4) by auto
    with assms a(3) show "l_Version l \<noteq> l_Version l' \<and>
      \<not> (l_Status l = LeaseStatusActive \<and> l_Status l' = LeaseStatusActive)"
      unfolding leases_ok_def by metis
  qed
qed

lemma recovery_keeps_ok:
  assumes "recovery_ok s" and "PrepareRecovery at s = (Inr (n, q), s')"
  shows "recovery_ok s'"
proof -
  note r = PrepareRecovery_Inr [OF assms]
  have "leases_ok (rs_leases s')"
    unfolding r(3) using assms(1) by (intro recovery_leases_ok) (simp add: recovery_ok_def)
  moreover have "actions_ok (rs_attempts s')"
    unfolding r(4) using assms(1) by (intro recovery_attempts_ok) (simp add: recovery_ok_def)
  moreover have "rc_ID c' = k \<and> 1 \<le> rc_Version c'" if c': "tget (rs_claims s') k = Some c'" for k c'
  proof -
    from c' r(8) [of k] obtain c where c: "tget (rs_claims s) k = Some c" "c' = recover_claim at c"
      by auto
    with assms(1) have "rc_ID c = k" "1 \<le> rc_Version c" by (auto simp: recovery_ok_def claims_ok_def)
    moreover have "u64_inc (rc_Version c) = rc_Version c + 1" if "rc_State c = ResourceClaimActive"
      using r(9) tget_in_trows [OF c(1)] that by (auto simp: u64_inc_less)
    ultimately show ?thesis using c(2) by (simp add: recover_claim_def expire_claim_def)
  qed
  ultimately show ?thesis using r(7) by (simp add: recovery_ok_def claims_ok_def)
qed

definition quiescent :: "'o recovery_state_scheme \<Rightarrow> bool" where
  "quiescent s \<longleftrightarrow>
     (\<forall>l \<in> set (trows (rs_leases s)). l_Status l \<noteq> LeaseStatusActive) \<and>
     (\<forall>r \<in> set (trows (rs_attempts s)). \<not> incomplete (row_Status r)) \<and>
     (\<forall>st \<in> set (trows (rs_provider_requests s)). st \<noteq> ''started'') \<and>
     (\<forall>c \<in> set (trows (rs_claims s)). rc_State c \<noteq> ResourceClaimActive)"

lemma PrepareRecovery_quiescent:
  assumes "recovery_ok s" and "PrepareRecovery at s = (Inr (n, q), s')"
  shows "quiescent s'"
proof -
  note r = PrepareRecovery_Inr [OF assms]
  have "rc_State c' \<noteq> ResourceClaimActive" if "c' \<in> set (trows (rs_claims s'))" for c'
  proof -
    from trows_tget [OF r(7) that] obtain k where "tget (rs_claims s') k = Some c'" ..
    with r(8) [of k] show ?thesis
      by (cases "tget (rs_claims s) k") (auto simp: recover_claim_def expire_claim_def split: if_splits)
  qed
  then show ?thesis
    unfolding quiescent_def r(3,4,6)
    by (auto simp: trows_def recover_lease_def expire_lease_row_def recover_attempt_def
        quarantine_row_def incomplete_def split: if_splits)
qed

definition ex_recovery :: recovery_state where
  "ex_recovery = \<lparr>rs_leases = ex_leases,
     rs_attempts = snd (SaveActionAttempt (\<lambda>_. 100) (ex_attempt ActionAttemptRunning False) []),
     rs_provider_requests = [(''req'', ''started'')], rs_claims = ex_claims\<rparr>"

lemma ex_recovery_ok: "recovery_ok ex_recovery"
  unfolding recovery_ok_def ex_recovery_def
  using ex_leases_ok ex_claims_ok SaveActionAttempt_ok [OF actions_ok_Nil surjective_pairing]
  by simp

lemma ex_recovery_run:
  "PrepareRecovery 9 ex_recovery = (Inr (1, 1), snd (PrepareRecovery 9 ex_recovery))"
  by code_simp



text \<open>Recovery is all or nothing and idempotent: a recovery that fails changes nothing,
  and running it again after it committed expires nothing, quarantines nothing and leaves every
  row as it is.\<close>

theorem recovery_idempotent:
  assumes "recovery_ok s" and "PrepareRecovery at s = (out, s')"
  shows "case out of
      Inl _ \<Rightarrow> s' = s
    | Inr _ \<Rightarrow> PrepareRecovery at' s' = (Inr (0, 0), s')"
proof (cases out)
  case (Inl e)
  then show ?thesis using assms(2) in_tx_Inl by (auto simp: PrepareRecovery_def)
next
  case (Inr nq)
  obtain n q where nq: "nq = (n, q)" by (cases nq)
  from assms Inr nq have quiet: "quiescent s'" and ok: "recovery_ok s'"
    using PrepareRecovery_quiescent [of s at n q s'] recovery_keeps_ok [of s at n q s'] by auto
  have leases: "filter (\<lambda>(k, l). l_Status l = LeaseStatusActive) (rs_leases s') = []"
    and attempts: "filter (\<lambda>(k, r). incomplete (row_Status r)) (rs_attempts s') = []"
    and requests: "map (\<lambda>(k, st). (k, if st = ''started'' then ''unknown'' else st))
        (rs_provider_requests s') = rs_provider_requests s'"
    using quiet by (auto simp: quiescent_def trows_def filter_empty_conv intro!: map_idI)
  have "expireActiveResourceClaims at' rows t = (Inr (), t)"
    if "\<forall>c \<in> set rows. rc_State c \<noteq> ResourceClaimActive" for rows t
    using that by (induction rows) auto
  then have claims: "expireActiveResourceClaims at' (ListResourceClaimData (rs_claims s'))
      (rs_claims s') = (Inr (), rs_claims s')"
    using quiet by (simp add: quiescent_def ListResourceClaimData_def)
  show ?thesis
    using Inr by (simp add: PrepareRecovery_def in_tx_def leases attempts requests claims)
qed

theorem recovery_idempotent_witness:
  "PrepareRecovery 10 (snd (PrepareRecovery 9 ex_recovery)) =
     (Inr (0, 0), snd (PrepareRecovery 9 ex_recovery))"
  using recovery_idempotent [OF ex_recovery_ok ex_recovery_run, of 10] by simp

text \<open>After recovery no task waits for the lease of the dead process to run out: an
  acquisition that names the slot's version and a fresh lease id succeeds at once, whatever the
  expiry the old lease had.\<close>

theorem recovery_unblocks_tasks:
  assumes "recovery_ok s" and "PrepareRecovery at s = (Inr (n, q), s')"
    and "tget (rs_leases s') (l_ID l) = None"
    and "MaxLeaseVersion (rs_leases s') (l_slot l) + 1 < 2 ^ 63"
  shows "fst (AcquireWithExpectedVersion now l (MaxLeaseVersion (rs_leases s') (l_slot l))
    (rs_leases s')) = Inr True"
proof -
  let ?t = "rs_leases s'"
  have ok: "leases_ok ?t" using recovery_keeps_ok [OF assms(1,2)] by (simp add: recovery_ok_def)
  have dead: "l_Status row \<noteq> LeaseStatusActive" if "row \<in> set (trows ?t)" for row
    using that PrepareRecovery_quiescent [OF assms(1,2)] by (simp add: quiescent_def)
  have "l_Status m \<noteq> LeaseStatusActive" if "GetLatestLease ?t (l_slot l) = Some m" for m
    using dead tget_in_trows [OF GetLatestLease_Some(1) [OF ok that]] by blast
  moreover have "\<not> slot_taken ?t x" for x using dead by (auto simp: slot_taken_def)
  ultimately show ?thesis
    using assms(3,4)
    by (auto simp: AcquireWithExpectedVersion_def insert_lease_def Let_def MaxLeaseVersion_latest
        int64FromUint64_def u64_inc_less split: option.splits)
qed

theorem recovery_unblocks_tasks_witness:
  "fst (AcquireWithExpectedVersion 2 (ex_lease ''l9'' ''w9'') 1
     (rs_leases (snd (PrepareRecovery 9 ex_recovery)))) = Inr True"
proof -
  let ?t = "rs_leases (snd (PrepareRecovery 9 ex_recovery))"
  have "MaxLeaseVersion ?t (l_slot (ex_lease ''l9'' ''w9'')) = 1"
    "tget ?t (l_ID (ex_lease ''l9'' ''w9'')) = None"
    by code_simp+
  with recovery_unblocks_tasks [OF ex_recovery_ok ex_recovery_run, of "ex_lease ''l9'' ''w9''" 2]
  show ?thesis by simp
qed

end
