(* ===== verification/Durable_Model.thy ===== *)
theory Durable_Model
  imports Store_Interfaces
begin

text \<open>
  The durable execution backend: the data of \<^verbatim>\<open>internal/store/sqlite/durable_backend.go\<close>,
  its validators and the load and save of a record in one transaction.

  The package \<^verbatim>\<open>github.com/Viking602/venat/durable\<close> is not part of the repository. Of its
  types the model has the fields the code uses; a specification, a continuation and a failure
  are opaque strings. Its functions \<^verbatim>\<open>HashExecutionSpec\<close>, \<^verbatim>\<open>HashResult\<close> and
  \<^verbatim>\<open>ValidateCheckpoint\<close>, and the SHA-256 digests of requests and owner ids, are the
  fields of the argument \<open>env\<close>. A 32-byte hash and a 16-byte claim id are natural numbers,
  \<open>0\<close> the all-zero array. \<^verbatim>\<open>cloneJSON\<close> is the identity on values, cancellation of the
  context and failures of SQLite, of the blob store and of JSON are not modelled. An error that
  \<^verbatim>\<open>executionError\<close> or \<^verbatim>\<open>attemptError\<close> wraps is the sentinel it wraps.
\<close>

section \<open>Data\<close>

datatype derror =
    DInvalidArgument
  | DConflict
  | DBusy
  | DLeaseLost
  | DNotFound
  | DReconcileRequired
  | DMessage string

datatype execution_status =
    ExecutionStatusRunning
  | ExecutionStatusSuspended
  | ExecutionStatusCompleted
  | ExecutionStatusFailed
  | ExecutionStatusOther string

datatype effect_status =
    AttemptStatusRunning
  | AttemptStatusSucceeded
  | AttemptStatusFailed
  | AttemptStatusUnknown
  | AttemptStatusAbandoned
  | AttemptStatusOther string

datatype effect_kind = AttemptKindModel | AttemptKindTool | AttemptKindOther string

record lease_ref =
  ref_OwnerID :: string
  ref_Token :: nat

record dlease =
  dl_OwnerID :: string
  dl_ClaimID :: nat
  dl_Token :: nat
  dl_ExpiresAt :: time

record checkpoint =
  cp_Sequence :: nat
  cp_ContinuationHash :: nat
  cp_Continuation :: string

record dresult =
  dr_Body :: string
  dr_Failure :: "string option"

record execution =
  ex_ID :: string
  ex_Spec :: string
  ex_SpecHash :: nat
  ex_Status :: execution_status
  ex_Version :: nat
  ex_Lease :: "dlease option"
  ex_Checkpoint :: "checkpoint option"
  ex_Result :: "dresult option"
  ex_ResultHash :: nat

record effect_attempt =
  ea_ExecutionID :: string
  ea_OperationID :: string
  ea_Kind :: effect_kind
  ea_Number :: int
  ea_InputHash :: nat
  ea_Status :: effect_status
  ea_Lease :: "lease_ref option"
  ea_Payload :: string
  ea_Failure :: "string option"
  ea_Version :: nat

text \<open>
  The key of a receipt: \<^verbatim>\<open>claimReceiptID\<close> prints the claim id, \<^verbatim>\<open>leaseReceiptID\<close> the
  owner's digest, the token and a suffix; the model keeps the printed values.
\<close>

datatype receipt_suffix = NoSuffix | VersionSuffix nat | ResultSuffix nat nat

datatype receipt_key = ClaimKey nat | LeaseKey nat nat receipt_suffix

type_synonym receipt_id = "string \<times> receipt_key"

record start_result =
  st_Execution :: execution
  st_Created :: bool
  st_Reconcile :: "effect_attempt list"

record resume_result =
  rm_Execution :: execution
  rm_Reconcile :: "effect_attempt list"

record release_result =
  rl_Execution :: execution
  rl_Reconcile :: "effect_attempt list"

datatype response =
    RStart start_result
  | RResume resume_result
  | RLease dlease
  | RExecution execution
  | RRelease release_result

record receipt_record =
  rr_requestHash :: nat
  rr_leaseToken :: nat
  rr_response :: response

record durable_record =
  d_execution :: execution
  d_nextToken :: nat
  d_attempts :: "(string, effect_attempt list) table"
  d_receipts :: "(receipt_id, receipt_record) table"

type_synonym durable_db = "(string, durable_record) table"

section \<open>Requests\<close>

record start_request =
  sreq_ExecutionID :: string
  sreq_Spec :: string
  sreq_SpecHash :: nat
  sreq_OwnerID :: string
  sreq_ClaimID :: nat
  sreq_LeaseTTL :: duration

record resume_request =
  rreq_ExecutionID :: string
  rreq_OwnerID :: string
  rreq_ClaimID :: nat
  rreq_LeaseTTL :: duration

record renew_request =
  nreq_ExecutionID :: string
  nreq_Lease :: lease_ref
  nreq_LeaseTTL :: duration

record checkpoint_request =
  kreq_ExecutionID :: string
  kreq_Lease :: lease_ref
  kreq_ExpectedVersion :: nat
  kreq_Checkpoint :: checkpoint

record suspend_request =
  ureq_ExecutionID :: string
  ureq_Lease :: lease_ref
  ureq_ExpectedVersion :: nat

record finish_request =
  freq_ExecutionID :: string
  freq_Lease :: lease_ref
  freq_ExpectedVersion :: nat
  freq_Result :: dresult
  freq_ResultHash :: nat

record release_request =
  lreq_ExecutionID :: string
  lreq_Lease :: lease_ref

record attempt_start_request =
  areq_ExecutionID :: string
  areq_Lease :: lease_ref
  areq_OperationID :: string
  areq_Kind :: effect_kind
  areq_InputHash :: nat

record attempt_settle_request =
  mreq_ExecutionID :: string
  mreq_Lease :: lease_ref
  mreq_OperationID :: string
  mreq_AttemptNumber :: int
  mreq_ExpectedAttemptVersion :: nat
  mreq_Payload :: string
  mreq_Failure :: "string option"

datatype resolution =
    ReconcileResolutionSucceed
  | ReconcileResolutionFail
  | ReconcileResolutionRetry
  | ReconcileResolutionOther string

record reconcile_request =
  creq_ExecutionID :: string
  creq_OperationID :: string
  creq_AttemptNumber :: int
  creq_ExpectedAttemptVersion :: nat
  creq_Resolution :: resolution
  creq_Payload :: string
  creq_Failure :: "string option"

datatype hashed_request =
    HStart start_request
  | HResume resume_request
  | HRenew renew_request
  | HSuspend suspend_request
  | HFinish finish_request
  | HRelease release_request

record durable_env =
  HashExecutionSpec :: "string \<Rightarrow> nat option"
  HashResult :: "dresult \<Rightarrow> nat option"
  ValidateCheckpoint :: "checkpoint \<Rightarrow> derror option"
  requestHash :: "hashed_request \<Rightarrow> nat"
  ownerDigest :: "string \<Rightarrow> nat"

section \<open>Small predicates\<close>

definition validExecutionID :: "string \<Rightarrow> bool" where
  "validExecutionID executionID \<longleftrightarrow> \<not> blank executionID"

definition validLeaseInput :: "string \<Rightarrow> nat \<Rightarrow> duration \<Rightarrow> bool" where
  "validLeaseInput ownerID claimID ttl \<longleftrightarrow> \<not> blank ownerID \<and> claimID \<noteq> 0 \<and> ttl > 0"

definition leaseMatches :: "dlease option \<Rightarrow> lease_ref \<Rightarrow> bool" where
  "leaseMatches lease reference \<longleftrightarrow> (case lease of
     None \<Rightarrow> False
   | Some l \<Rightarrow> dl_OwnerID l = ref_OwnerID reference \<and> dl_Token l = ref_Token reference)"

definition leaseActive :: "dlease option \<Rightarrow> time \<Rightarrow> bool" where
  "leaseActive lease now \<longleftrightarrow> (case lease of None \<Rightarrow> False | Some l \<Rightarrow> dl_ExpiresAt l > now)"

definition requireActiveLease :: "durable_record \<Rightarrow> lease_ref \<Rightarrow> time \<Rightarrow> derror option" where
  "requireActiveLease r reference now =
     (if \<not> leaseMatches (ex_Lease (d_execution r)) reference \<or>
         \<not> leaseActive (ex_Lease (d_execution r)) now
      then Some DLeaseLost else None)"

definition terminal_status :: "execution_status \<Rightarrow> bool" where
  "terminal_status status \<longleftrightarrow>
     status = ExecutionStatusCompleted \<or> status = ExecutionStatusFailed"

definition zeroHash :: "nat \<Rightarrow> bool" where
  "zeroHash hash \<longleftrightarrow> hash = 0"

section \<open>Validation\<close>

definition validateExecutionHashes :: "durable_env \<Rightarrow> execution \<Rightarrow> derror option" where
  "validateExecutionHashes env e =
     (if \<not> validExecutionID (ex_ID e) \<or> ex_Version e = 0
      then Some (DMessage ''invalid durable execution identity or version'')
      else case HashExecutionSpec env (ex_Spec e) of
        None \<Rightarrow> Some (DMessage ''hash execution spec'')
      | Some specHash \<Rightarrow>
        if specHash \<noteq> ex_SpecHash e then Some (DMessage ''execution spec hash mismatch'')
        else case (case ex_Checkpoint e of None \<Rightarrow> None | Some c \<Rightarrow> ValidateCheckpoint env c) of
          Some err \<Rightarrow> Some err
        | None \<Rightarrow>
          case (case ex_Status e of
              ExecutionStatusOther _ \<Rightarrow> Some (DMessage ''invalid durable execution status'')
            | ExecutionStatusRunning \<Rightarrow>
                if ex_Result e \<noteq> None \<or> \<not> zeroHash (ex_ResultHash e)
                then Some (DMessage ''non-terminal execution contains a result'') else None
            | ExecutionStatusSuspended \<Rightarrow>
                if ex_Result e \<noteq> None \<or> \<not> zeroHash (ex_ResultHash e)
                then Some (DMessage ''non-terminal execution contains a result'')
                else if ex_Lease e \<noteq> None
                then Some (DMessage ''suspended execution contains a lease'') else None
            | _ \<Rightarrow>
                (case ex_Result e of
                   None \<Rightarrow> Some (DMessage ''terminal execution has invalid result or lease'')
                 | Some res \<Rightarrow>
                   if ex_Lease e \<noteq> None
                   then Some (DMessage ''terminal execution has invalid result or lease'')
                   else case HashResult env res of
                     None \<Rightarrow> Some (DMessage ''hash execution result'')
                   | Some h \<Rightarrow>
                     if h \<noteq> ex_ResultHash e then Some (DMessage ''execution result hash mismatch'')
                     else if (ex_Status e = ExecutionStatusCompleted) \<noteq> (dr_Failure res = None)
                     then Some (DMessage ''execution status disagrees with result failure'')
                     else None)) of
            Some err \<Rightarrow> Some err
          | None \<Rightarrow>
            (case ex_Lease e of
               None \<Rightarrow> None
             | Some l \<Rightarrow>
               if blank (dl_OwnerID l) \<or> dl_ClaimID l = 0 \<or> dl_Token l = 0 \<or> IsZero (dl_ExpiresAt l)
               then Some (DMessage ''invalid durable execution lease'') else None))"

definition validateAttemptPayload :: "effect_attempt \<Rightarrow> nat \<Rightarrow> derror option" where
  "validateAttemptPayload a nextToken =
     (if ea_Version a = 0 \<or> zeroHash (ea_InputHash a)
      then Some (DMessage ''invalid attempt version or input hash'')
      else if ea_Kind a \<noteq> AttemptKindModel \<and> ea_Kind a \<noteq> AttemptKindTool
      then Some (DMessage ''invalid attempt kind'')
      else if (case ea_Lease a of None \<Rightarrow> False
               | Some l \<Rightarrow> blank (ref_OwnerID l) \<or> ref_Token l = 0 \<or> ref_Token l > nextToken)
      then Some (DMessage ''invalid attempt lease'')
      else case ea_Status a of
        AttemptStatusRunning \<Rightarrow>
          if ea_Lease a = None \<or> ea_Payload a \<noteq> [] \<or> ea_Failure a \<noteq> None
          then Some (DMessage ''running attempt has invalid settlement'') else None
      | AttemptStatusSucceeded \<Rightarrow>
          if ea_Lease a \<noteq> None \<or> ea_Failure a \<noteq> None
          then Some (DMessage ''succeeded attempt has invalid settlement'') else None
      | AttemptStatusFailed \<Rightarrow>
          if ea_Lease a \<noteq> None \<or> ea_Failure a = None
          then Some (DMessage ''failed attempt has invalid settlement'') else None
      | AttemptStatusUnknown \<Rightarrow>
          if ea_Lease a \<noteq> None then Some (DMessage ''unknown attempt retains a lease'') else None
      | AttemptStatusAbandoned \<Rightarrow>
          if ea_Lease a \<noteq> None \<or> ea_Payload a \<noteq> [] \<or> ea_Failure a \<noteq> None
          then Some (DMessage ''abandoned attempt has invalid settlement'') else None
      | AttemptStatusOther _ \<Rightarrow> Some (DMessage ''invalid attempt status''))"

text \<open>The inner loop of \<^verbatim>\<open>validateDurableRecord\<close>, from the index \<open>i\<close> on.\<close>

fun validateAttempts ::
  "string \<Rightarrow> string \<Rightarrow> nat \<Rightarrow> int \<Rightarrow> effect_attempt list \<Rightarrow> derror option" where
  "validateAttempts eid op tok i [] = None"
| "validateAttempts eid op tok i (a # as) =
     (if ea_ExecutionID a \<noteq> eid \<or> ea_OperationID a \<noteq> op \<or> ea_Number a \<noteq> i + 1
      then Some (DMessage ''attempt identity disagrees with durable record'')
      else case validateAttemptPayload a tok of
        Some err \<Rightarrow> Some err
      | None \<Rightarrow> validateAttempts eid op tok (i + 1) as)"

fun validateOperations ::
  "string \<Rightarrow> nat \<Rightarrow> (string, effect_attempt list) table \<Rightarrow> derror option" where
  "validateOperations eid tok [] = None"
| "validateOperations eid tok ((op, as) # rest) =
     (if blank op then Some (DMessage ''empty durable operation identity'')
      else case validateAttempts eid op tok 0 as of
        Some err \<Rightarrow> Some err
      | None \<Rightarrow> validateOperations eid tok rest)"

fun validateReceipts :: "nat \<Rightarrow> (receipt_id, receipt_record) table \<Rightarrow> derror option" where
  "validateReceipts tok [] = None"
| "validateReceipts tok (((kind, key), rr) # rest) =
     (if kind = [] \<or> rr_requestHash rr = 0 \<or> rr_leaseToken rr = 0 \<or> rr_leaseToken rr > tok
      then Some (DMessage ''invalid durable receipt'')
      else validateReceipts tok rest)"

definition token_fence :: "durable_record \<Rightarrow> bool" where
  "token_fence r \<longleftrightarrow> d_nextToken r \<noteq> 0 \<and>
     (case ex_Lease (d_execution r) of None \<Rightarrow> True | Some l \<Rightarrow> dl_Token l \<le> d_nextToken r)"

definition validateDurableRecord :: "durable_env \<Rightarrow> durable_record \<Rightarrow> derror option" where
  "validateDurableRecord env r =
     (if \<not> token_fence r then Some (DMessage ''invalid durable execution token fence'')
      else case validateExecutionHashes env (d_execution r) of
        Some err \<Rightarrow> Some err
      | None \<Rightarrow>
        case validateOperations (ex_ID (d_execution r)) (d_nextToken r) (d_attempts r) of
          Some err \<Rightarrow> Some err
        | None \<Rightarrow> validateReceipts (d_nextToken r) (d_receipts r))"

section \<open>Load and save\<close>

text \<open>
  \<^verbatim>\<open>loadForMutation\<close>: the whole record for a command on the execution, the execution and
  the attempts of one operation for a command on an attempt.
\<close>

definition attempts_of :: "durable_record \<Rightarrow> string \<Rightarrow> effect_attempt list" where
  "attempts_of r op = (case tget (d_attempts r) op of None \<Rightarrow> [] | Some as \<Rightarrow> as)"

definition load :: "durable_env \<Rightarrow> durable_db \<Rightarrow> string \<Rightarrow> derror + durable_record" where
  "load env db eid =
     (case tget db eid of
        None \<Rightarrow> Inl DNotFound
      | Some r \<Rightarrow>
        if \<not> token_fence r then Inl (DMessage ''invalid lease token fence'')
        else case validateDurableRecord env r of
          Some err \<Rightarrow> Inl err
        | None \<Rightarrow> Inr r)"

definition loadForMutation ::
  "durable_env \<Rightarrow> durable_db \<Rightarrow> string \<Rightarrow> string \<Rightarrow> derror + durable_record" where
  "loadForMutation env db eid op =
     (if op = [] then load env db eid
      else case tget db eid of
        None \<Rightarrow> Inl DNotFound
      | Some r \<Rightarrow>
        if \<not> token_fence r then Inl (DMessage ''invalid lease token fence'')
        else case validateExecutionHashes env (d_execution r) of
          Some err \<Rightarrow> Inl err
        | None \<Rightarrow>
          case validateAttempts eid op (d_nextToken r) 0 (attempts_of r op) of
            Some err \<Rightarrow> Inl err
          | None \<Rightarrow>
              Inr (r\<lparr>d_attempts := (case tget (d_attempts r) op of
                                      None \<Rightarrow> [] | Some as \<Rightarrow> [(op, as)]),
                     d_receipts := []\<rparr>))"

definition tmerge :: "('k, 'v) table \<Rightarrow> ('k, 'v) table \<Rightarrow> ('k, 'v) table" where
  "tmerge new old = foldl (\<lambda>t (k, v). tput k v t) old new"

definition save ::
  "durable_env \<Rightarrow> durable_record \<Rightarrow> durable_db \<Rightarrow> derror + durable_db" where
  "save env r db =
     (case validateDurableRecord env r of
        Some err \<Rightarrow> Inl err
      | None \<Rightarrow>
        let eid = ex_ID (d_execution r)
        in Inr (case tget db eid of
             None \<Rightarrow> tput eid r db
           | Some old \<Rightarrow>
               tput eid (r\<lparr>d_attempts := tmerge (d_attempts r) (d_attempts old),
                           d_receipts := tmerge (d_receipts r) (d_receipts old)\<rparr>) db))"

definition withRecord ::
  "durable_env \<Rightarrow> time \<Rightarrow> string \<Rightarrow> string \<Rightarrow>
   (durable_record \<Rightarrow> derror + ('a \<times> durable_record)) \<Rightarrow> durable_db \<Rightarrow> (derror + 'a) \<times> durable_db" where
  "withRecord env now eid op mutate db =
     (case loadForMutation env db eid op of
        Inl e \<Rightarrow> (Inl e, db)
      | Inr r \<Rightarrow>
        (case mutate r of
           Inl e \<Rightarrow> (Inl e, db)
         | Inr (v, r') \<Rightarrow>
           (case save env r' db of
              Inl e \<Rightarrow> (Inl e, db)
            | Inr db' \<Rightarrow> (Inr v, db'))))"

definition LoadExecution :: "durable_env \<Rightarrow> durable_db \<Rightarrow> string \<Rightarrow> derror + execution" where
  "LoadExecution env db eid =
     (if \<not> validExecutionID eid then Inl DInvalidArgument
      else case load env db eid of Inl e \<Rightarrow> Inl e | Inr r \<Rightarrow> Inr (d_execution r))"

text \<open>\<^verbatim>\<open>LoadExecutionState\<close> reads the execution without its attempts and receipts.\<close>

definition LoadExecutionState :: "durable_db \<Rightarrow> string \<Rightarrow> derror + execution" where
  "LoadExecutionState db eid =
     (if \<not> validExecutionID eid then Inl DInvalidArgument
      else case tget db eid of
        None \<Rightarrow> Inl DNotFound
      | Some r \<Rightarrow>
        if \<not> token_fence r then Inl (DMessage ''invalid lease token fence'') else Inr (d_execution r))"

definition PeekExecutionStatus :: "durable_db \<Rightarrow> string \<Rightarrow> derror + execution_status" where
  "PeekExecutionStatus db eid =
     (if \<not> validExecutionID eid then Inl DInvalidArgument
      else case tget db eid of None \<Rightarrow> Inl DNotFound | Some r \<Rightarrow> Inr (ex_Status (d_execution r)))"

section \<open>Receipts\<close>

definition putReceipt ::
  "receipt_id \<Rightarrow> nat \<Rightarrow> nat \<Rightarrow> response \<Rightarrow> durable_record \<Rightarrow> durable_record" where
  "putReceipt rid hash token resp r =
     r\<lparr>d_receipts := tput rid \<lparr>rr_requestHash = hash, rr_leaseToken = token, rr_response = resp\<rparr>
        (d_receipts r)\<rparr>"

text \<open>No receipt, a receipt of another request, or the stored response.\<close>

datatype receipt_lookup = NoReceipt | ReceiptConflict | ReceiptFound response

definition getReceipt :: "durable_record \<Rightarrow> receipt_id \<Rightarrow> nat \<Rightarrow> receipt_lookup" where
  "getReceipt r rid hash =
     (case tget (d_receipts r) rid of
        None \<Rightarrow> NoReceipt
      | Some rr \<Rightarrow> if rr_requestHash rr \<noteq> hash then ReceiptConflict else ReceiptFound (rr_response rr))"

definition claimReceiptID :: "string \<Rightarrow> nat \<Rightarrow> receipt_id" where
  "claimReceiptID mode claim = (mode, ClaimKey claim)"

definition leaseReceiptID :: "durable_env \<Rightarrow> string \<Rightarrow> lease_ref \<Rightarrow> receipt_suffix \<Rightarrow> receipt_id" where
  "leaseReceiptID env kind lease sfx =
     (kind, LeaseKey (ownerDigest env (ref_OwnerID lease)) (ref_Token lease) sfx)"

end
