(* ===== verification/Durable_Execution.thy ===== *)
theory Durable_Execution
  imports Durable_Model
begin

text \<open>
  The commands on an execution, \<^verbatim>\<open>internal/store/sqlite/durable_execution.go\<close>: start,
  resume, renew, checkpoint, suspend, finish and release. The closure each command passes to
  \<^verbatim>\<open>withRecord\<close> is the definition \<open>..._mut\<close>. The database clock is the argument
  \<open>now\<close>. A replayed receipt holds the response type its command wrote; another one is a
  decoding error.
\<close>

section \<open>Reconciliation\<close>

definition reconciles :: "nat \<Rightarrow> effect_attempt \<Rightarrow> bool" where
  "reconciles token a \<longleftrightarrow> \<not> (ea_Status a \<noteq> AttemptStatusRunning \<or> ea_Lease a = None \<or>
     (token \<noteq> 0 \<and> (case ea_Lease a of None \<Rightarrow> True | Some l \<Rightarrow> ref_Token l \<noteq> token)))"

definition mark_unknown :: "effect_attempt \<Rightarrow> effect_attempt" where
  "mark_unknown a = a\<lparr>ea_Status := AttemptStatusUnknown, ea_Lease := None,
     ea_Version := u64_inc (ea_Version a)\<rparr>"

definition sortAttempts :: "effect_attempt list \<Rightarrow> effect_attempt list" where
  "sortAttempts attempts = sort_key (\<lambda>a. (ea_OperationID a, ea_Number a)) attempts"

definition reconcileRunning ::
  "durable_record \<Rightarrow> nat \<Rightarrow> effect_attempt list \<times> durable_record" where
  "reconcileRunning r token =
     (sortAttempts (map mark_unknown (filter (reconciles token)
        (concat (map snd (d_attempts r))))),
      r\<lparr>d_attempts := map (\<lambda>(op, as). (op, map (\<lambda>a. if reconciles token a then mark_unknown a else a) as))
          (d_attempts r)\<rparr>)"

definition reconcileForClaim :: "durable_record \<Rightarrow> effect_attempt list \<times> durable_record" where
  "reconcileForClaim r =
     (let (_, r') = reconcileRunning r 0
      in (sortAttempts (filter (\<lambda>a. ea_Status a = AttemptStatusUnknown)
            (concat (map snd (d_attempts r')))), r'))"

definition hasUncertainAttempts :: "durable_record \<Rightarrow> bool" where
  "hasUncertainAttempts r \<longleftrightarrow>
     (\<exists>(op, as) \<in> set (d_attempts r). \<exists>a \<in> set as.
        ea_Status a = AttemptStatusRunning \<or> ea_Status a = AttemptStatusUnknown)"

section \<open>Claims\<close>

definition grant_lease :: "string \<Rightarrow> nat \<Rightarrow> time \<Rightarrow> durable_record \<Rightarrow> durable_record" where
  "grant_lease owner claim expires r =
     (let token = u64_inc (d_nextToken r)
      in r\<lparr>d_nextToken := token,
           d_execution := (d_execution r)\<lparr>ex_Status := ExecutionStatusRunning,
             ex_Lease := Some \<lparr>dl_OwnerID = owner, dl_ClaimID = claim, dl_Token = token,
                               dl_ExpiresAt = expires\<rparr>\<rparr>\<rparr>)"

definition holds_claim :: "durable_record \<Rightarrow> nat \<Rightarrow> time \<Rightarrow> bool" where
  "holds_claim r claim now \<longleftrightarrow> leaseActive (ex_Lease (d_execution r)) now \<and>
     (case ex_Lease (d_execution r) of None \<Rightarrow> False | Some l \<Rightarrow> dl_ClaimID l = claim)"

definition claimForStart ::
  "durable_env \<Rightarrow> time \<Rightarrow> start_request \<Rightarrow> durable_record \<Rightarrow>
   derror + (start_result \<times> durable_record)" where
  "claimForStart env now request r =
     (let rid = claimReceiptID ''start'' (sreq_ClaimID request);
          digest = requestHash env (HStart request);
          claim = (if leaseActive (ex_Lease (d_execution r)) now then Inl DBusy
                   else
                     let (reconcile, r1) = reconcileForClaim r;
                         r2 = grant_lease (sreq_OwnerID request) (sreq_ClaimID request)
                                (now + sreq_LeaseTTL request) r1;
                         result = \<lparr>st_Execution = d_execution r2, st_Created = False,
                                   st_Reconcile = reconcile\<rparr>
                     in Inr (result, putReceipt rid digest (d_nextToken r2) (RStart result) r2))
      in case tget (d_receipts r) rid of
           None \<Rightarrow> claim
         | Some prior \<Rightarrow>
             if d_nextToken r > rr_leaseToken prior then Inl DLeaseLost
             else case getReceipt r rid digest of
               ReceiptConflict \<Rightarrow> Inl DConflict
             | ReceiptFound (RStart result) \<Rightarrow>
                 if holds_claim r (sreq_ClaimID request) now then Inr (result, r) else claim
             | _ \<Rightarrow> Inl (DMessage ''decode durable receipt''))"

definition new_execution :: "start_request \<Rightarrow> time \<Rightarrow> durable_record" where
  "new_execution request now =
     \<lparr>d_execution = \<lparr>ex_ID = sreq_ExecutionID request, ex_Spec = sreq_Spec request,
        ex_SpecHash = sreq_SpecHash request, ex_Status = ExecutionStatusRunning, ex_Version = 1,
        ex_Lease = Some \<lparr>dl_OwnerID = sreq_OwnerID request, dl_ClaimID = sreq_ClaimID request,
          dl_Token = 1, dl_ExpiresAt = now + sreq_LeaseTTL request\<rparr>,
        ex_Checkpoint = None, ex_Result = None, ex_ResultHash = 0\<rparr>,
      d_nextToken = 1, d_attempts = [], d_receipts = []\<rparr>"

definition StartExecution ::
  "durable_env \<Rightarrow> time \<Rightarrow> start_request \<Rightarrow> durable_db \<Rightarrow> (derror + start_result) \<times> durable_db" where
  "StartExecution env now request db =
     (if \<not> validExecutionID (sreq_ExecutionID request) \<or>
         \<not> validLeaseInput (sreq_OwnerID request) (sreq_ClaimID request) (sreq_LeaseTTL request)
      then (Inl DInvalidArgument, db)
      else case HashExecutionSpec env (sreq_Spec request) of
        None \<Rightarrow> (Inl DInvalidArgument, db)
      | Some hash \<Rightarrow>
        if hash \<noteq> sreq_SpecHash request then (Inl DConflict, db)
        else case load env db (sreq_ExecutionID request) of
          Inr r \<Rightarrow>
            if ex_SpecHash (d_execution r) \<noteq> sreq_SpecHash request then (Inl DConflict, db)
            else if terminal_status (ex_Status (d_execution r))
            then (Inr \<lparr>st_Execution = d_execution r, st_Created = False, st_Reconcile = []\<rparr>, db)
            else (case claimForStart env now request r of
                Inl e \<Rightarrow> (Inl e, db)
              | Inr (result, r') \<Rightarrow>
                (case save env r' db of Inl e \<Rightarrow> (Inl e, db) | Inr db' \<Rightarrow> (Inr result, db')))
        | Inl e \<Rightarrow>
            if e \<noteq> DNotFound then (Inl e, db)
            else
              let r = new_execution request now;
                  result = \<lparr>st_Execution = d_execution r, st_Created = True, st_Reconcile = []\<rparr>;
                  r' = putReceipt (claimReceiptID ''start'' (sreq_ClaimID request))
                         (requestHash env (HStart request)) (d_nextToken r) (RStart result) r
              in case save env r' db of Inl e \<Rightarrow> (Inl e, db) | Inr db' \<Rightarrow> (Inr result, db'))"

definition resume_mut ::
  "durable_env \<Rightarrow> time \<Rightarrow> resume_request \<Rightarrow> durable_record \<Rightarrow>
   derror + (resume_result \<times> durable_record)" where
  "resume_mut env now request r =
     (if terminal_status (ex_Status (d_execution r))
      then Inr (\<lparr>rm_Execution = d_execution r, rm_Reconcile = []\<rparr>, r)
      else
        let rid = claimReceiptID ''resume'' (rreq_ClaimID request);
            digest = requestHash env (HResume request);
            claim = (if leaseActive (ex_Lease (d_execution r)) now then Inl DBusy
                     else
                       let (reconcile, r1) = reconcileForClaim r;
                           r2 = grant_lease (rreq_OwnerID request) (rreq_ClaimID request)
                                  (now + rreq_LeaseTTL request) r1;
                           result = \<lparr>rm_Execution = d_execution r2, rm_Reconcile = reconcile\<rparr>
                       in Inr (result, putReceipt rid digest (d_nextToken r2) (RResume result) r2))
        in case tget (d_receipts r) rid of
             None \<Rightarrow> claim
           | Some prior \<Rightarrow>
               if d_nextToken r > rr_leaseToken prior then Inl DLeaseLost
               else case getReceipt r rid digest of
                 ReceiptConflict \<Rightarrow> Inl DConflict
               | ReceiptFound (RResume result) \<Rightarrow>
                   if holds_claim r (rreq_ClaimID request) now then Inr (result, r) else claim
               | _ \<Rightarrow> Inl (DMessage ''decode durable receipt''))"

definition ResumeExecution ::
  "durable_env \<Rightarrow> time \<Rightarrow> resume_request \<Rightarrow> durable_db \<Rightarrow> (derror + resume_result) \<times> durable_db" where
  "ResumeExecution env now request db =
     (if \<not> validExecutionID (rreq_ExecutionID request) \<or>
         \<not> validLeaseInput (rreq_OwnerID request) (rreq_ClaimID request) (rreq_LeaseTTL request)
      then (Inl DInvalidArgument, db)
      else withRecord env now (rreq_ExecutionID request) [] (resume_mut env now request) db)"

section \<open>Commands of the lease holder\<close>

definition set_expiry :: "time \<Rightarrow> durable_record \<Rightarrow> durable_record" where
  "set_expiry at r = r\<lparr>d_execution := (d_execution r)\<lparr>ex_Lease :=
     map_option (\<lambda>l. l\<lparr>dl_ExpiresAt := at\<rparr>) (ex_Lease (d_execution r))\<rparr>\<rparr>"

definition renew_mut ::
  "durable_env \<Rightarrow> time \<Rightarrow> renew_request \<Rightarrow> durable_record \<Rightarrow> derror + (dlease \<times> durable_record)" where
  "renew_mut env now request r =
     (if d_nextToken r > ref_Token (nreq_Lease request) then Inl DLeaseLost
      else
        let rid = leaseReceiptID env ''renew'' (nreq_Lease request) NoSuffix;
            digest = requestHash env (HRenew request)
        in case getReceipt r rid digest of
             ReceiptConflict \<Rightarrow> Inl DConflict
           | ReceiptFound (RLease replayed) \<Rightarrow>
               Inr (replayed,
                    if leaseActive (ex_Lease (d_execution r)) now
                    then set_expiry (now + nreq_LeaseTTL request) r else r)
           | ReceiptFound _ \<Rightarrow> Inl (DMessage ''decode durable receipt'')
           | NoReceipt \<Rightarrow>
               (case requireActiveLease r (nreq_Lease request) now of
                  Some e \<Rightarrow> Inl e
                | None \<Rightarrow>
                  (let r' = set_expiry (now + nreq_LeaseTTL request) r
                   in case ex_Lease (d_execution r') of
                        None \<Rightarrow> Inl DLeaseLost
                      | Some l \<Rightarrow>
                          Inr (l, putReceipt rid digest (ref_Token (nreq_Lease request))
                                    (RLease l) r'))))"

definition RenewExecution ::
  "durable_env \<Rightarrow> time \<Rightarrow> renew_request \<Rightarrow> durable_db \<Rightarrow> (derror + dlease) \<times> durable_db" where
  "RenewExecution env now request db =
     (if \<not> validExecutionID (nreq_ExecutionID request) \<or> ref_OwnerID (nreq_Lease request) = [] \<or>
         ref_Token (nreq_Lease request) = 0 \<or> nreq_LeaseTTL request \<le> 0
      then (Inl DInvalidArgument, db)
      else withRecord env now (nreq_ExecutionID request) [] (renew_mut env now request) db)"

definition checkpoint_mut ::
  "time \<Rightarrow> checkpoint_request \<Rightarrow> durable_record \<Rightarrow> derror + (execution \<times> durable_record)" where
  "checkpoint_mut now request r =
     (case requireActiveLease r (kreq_Lease request) now of
        Some e \<Rightarrow> Inl e
      | None \<Rightarrow>
        (let cp = kreq_Checkpoint request;
             advance =
               (if ex_Version (d_execution r) \<noteq> kreq_ExpectedVersion request then Inl DConflict
                else
                  let e = (d_execution r)\<lparr>ex_Checkpoint := Some cp,
                            ex_Version := u64_inc (ex_Version (d_execution r))\<rparr>
                  in Inr (e, r\<lparr>d_execution := e\<rparr>))
         in case ex_Checkpoint (d_execution r) of
              None \<Rightarrow> advance
            | Some current \<Rightarrow>
                if cp_Sequence current = cp_Sequence cp then
                  (if cp_ContinuationHash current \<noteq> cp_ContinuationHash cp then Inl DConflict
                   else Inr (d_execution r, r))
                else if cp_Sequence cp < cp_Sequence current then Inl DConflict
                else advance))"

definition valid_lease_ref :: "string \<Rightarrow> lease_ref \<Rightarrow> bool" where
  "valid_lease_ref eid l \<longleftrightarrow> validExecutionID eid \<and> ref_OwnerID l \<noteq> [] \<and> ref_Token l \<noteq> 0"

definition SaveCheckpoint ::
  "durable_env \<Rightarrow> time \<Rightarrow> checkpoint_request \<Rightarrow> durable_db \<Rightarrow> (derror + execution) \<times> durable_db" where
  "SaveCheckpoint env now request db =
     (if \<not> valid_lease_ref (kreq_ExecutionID request) (kreq_Lease request)
      then (Inl DInvalidArgument, db)
      else case ValidateCheckpoint env (kreq_Checkpoint request) of
        Some e \<Rightarrow> (Inl e, db)
      | None \<Rightarrow> withRecord env now (kreq_ExecutionID request) [] (checkpoint_mut now request) db)"

definition suspend_mut ::
  "durable_env \<Rightarrow> time \<Rightarrow> suspend_request \<Rightarrow> durable_record \<Rightarrow>
   derror + (execution \<times> durable_record)" where
  "suspend_mut env now request r =
     (if d_nextToken r > ref_Token (ureq_Lease request) then Inl DLeaseLost
      else
        let rid = leaseReceiptID env ''suspend'' (ureq_Lease request)
                    (VersionSuffix (ureq_ExpectedVersion request));
            digest = requestHash env (HSuspend request)
        in case getReceipt r rid digest of
             ReceiptConflict \<Rightarrow> Inl DConflict
           | ReceiptFound (RExecution replayed) \<Rightarrow> Inr (replayed, r)
           | ReceiptFound _ \<Rightarrow> Inl (DMessage ''decode durable receipt'')
           | NoReceipt \<Rightarrow>
               (case requireActiveLease r (ureq_Lease request) now of
                  Some e \<Rightarrow> Inl e
                | None \<Rightarrow>
                    if ex_Version (d_execution r) \<noteq> ureq_ExpectedVersion request then Inl DConflict
                    else
                      let (_, r1) = reconcileRunning r (ref_Token (ureq_Lease request));
                          e = (d_execution r1)\<lparr>ex_Status := ExecutionStatusSuspended, ex_Lease := None,
                                ex_Version := u64_inc (ex_Version (d_execution r1))\<rparr>
                      in Inr (e, putReceipt rid digest (ref_Token (ureq_Lease request))
                               (RExecution e) (r1\<lparr>d_execution := e\<rparr>))))"

definition SuspendExecution ::
  "durable_env \<Rightarrow> time \<Rightarrow> suspend_request \<Rightarrow> durable_db \<Rightarrow> (derror + execution) \<times> durable_db" where
  "SuspendExecution env now request db =
     (if \<not> valid_lease_ref (ureq_ExecutionID request) (ureq_Lease request)
      then (Inl DInvalidArgument, db)
      else withRecord env now (ureq_ExecutionID request) [] (suspend_mut env now request) db)"

definition finish_mut ::
  "durable_env \<Rightarrow> time \<Rightarrow> finish_request \<Rightarrow> durable_record \<Rightarrow>
   derror + (execution \<times> durable_record)" where
  "finish_mut env now request r =
     (if d_nextToken r > ref_Token (freq_Lease request) then Inl DLeaseLost
      else
        let rid = leaseReceiptID env ''finish'' (freq_Lease request)
                    (ResultSuffix (freq_ExpectedVersion request) (freq_ResultHash request));
            digest = requestHash env (HFinish request)
        in case getReceipt r rid digest of
             ReceiptConflict \<Rightarrow> Inl DConflict
           | ReceiptFound (RExecution replayed) \<Rightarrow> Inr (replayed, r)
           | ReceiptFound _ \<Rightarrow> Inl (DMessage ''decode durable receipt'')
           | NoReceipt \<Rightarrow>
               if terminal_status (ex_Status (d_execution r)) then Inl DConflict
               else case requireActiveLease r (freq_Lease request) now of
                 Some e \<Rightarrow> Inl e
               | None \<Rightarrow>
                   if ex_Version (d_execution r) \<noteq> freq_ExpectedVersion request then Inl DConflict
                   else if hasUncertainAttempts r then Inl DReconcileRequired
                   else
                     let e = (d_execution r)\<lparr>ex_Result := Some (freq_Result request),
                               ex_ResultHash := freq_ResultHash request,
                               ex_Status := (if dr_Failure (freq_Result request) \<noteq> None
                                             then ExecutionStatusFailed else ExecutionStatusCompleted),
                               ex_Lease := None,
                               ex_Version := u64_inc (ex_Version (d_execution r))\<rparr>
                     in Inr (e, putReceipt rid digest (ref_Token (freq_Lease request))
                              (RExecution e) (r\<lparr>d_execution := e\<rparr>)))"

definition FinishExecution ::
  "durable_env \<Rightarrow> time \<Rightarrow> finish_request \<Rightarrow> durable_db \<Rightarrow> (derror + execution) \<times> durable_db" where
  "FinishExecution env now request db =
     (if \<not> valid_lease_ref (freq_ExecutionID request) (freq_Lease request)
      then (Inl DInvalidArgument, db)
      else case HashResult env (freq_Result request) of
        None \<Rightarrow> (Inl DInvalidArgument, db)
      | Some hash \<Rightarrow>
          if hash \<noteq> freq_ResultHash request then (Inl DConflict, db)
          else withRecord env now (freq_ExecutionID request) [] (finish_mut env now request) db)"

definition release_mut ::
  "durable_env \<Rightarrow> release_request \<Rightarrow> durable_record \<Rightarrow> derror + (release_result \<times> durable_record)" where
  "release_mut env request r =
     (if d_nextToken r > ref_Token (lreq_Lease request) then Inl DLeaseLost
      else
        let rid = leaseReceiptID env ''release'' (lreq_Lease request) NoSuffix;
            digest = requestHash env (HRelease request)
        in case getReceipt r rid digest of
             ReceiptConflict \<Rightarrow> Inl DConflict
           | ReceiptFound (RRelease replayed) \<Rightarrow> Inr (replayed, r)
           | ReceiptFound _ \<Rightarrow> Inl (DMessage ''decode durable receipt'')
           | NoReceipt \<Rightarrow>
               if \<not> leaseMatches (ex_Lease (d_execution r)) (lreq_Lease request) then Inl DLeaseLost
               else
                 let (reconcile, r1) = reconcileRunning r (ref_Token (lreq_Lease request));
                     e = (d_execution r1)\<lparr>ex_Lease := None\<rparr>;
                     result = \<lparr>rl_Execution = e, rl_Reconcile = reconcile\<rparr>
                 in Inr (result, putReceipt rid digest (ref_Token (lreq_Lease request))
                           (RRelease result) (r1\<lparr>d_execution := e\<rparr>)))"

definition ReleaseExecution ::
  "durable_env \<Rightarrow> time \<Rightarrow> release_request \<Rightarrow> durable_db \<Rightarrow> (derror + release_result) \<times> durable_db" where
  "ReleaseExecution env now request db =
     (if \<not> valid_lease_ref (lreq_ExecutionID request) (lreq_Lease request)
      then (Inl DInvalidArgument, db)
      else withRecord env now (lreq_ExecutionID request) [] (release_mut env request) db)"

end
