(* ===== verification/Durable_Attempts.thy ===== *)
theory Durable_Attempts
  imports Durable_Execution
begin

text \<open>
  The commands on an effect attempt, \<^verbatim>\<open>internal/store/sqlite/durable_attempt.go\<close>: start,
  finish, mark unknown and reconcile, and the listing of attempts by status. An attempt command
  loads only the attempts of its operation.
\<close>

section \<open>Helpers\<close>

datatype attempt_decision =
  AttemptDecisionExecute | AttemptDecisionReplay | AttemptDecisionReconcile

record attempt_start =
  asr_Attempt :: effect_attempt
  asr_Decision :: attempt_decision

definition newAttempt :: "attempt_start_request \<Rightarrow> int \<Rightarrow> effect_attempt" where
  "newAttempt request number =
     \<lparr>ea_ExecutionID = areq_ExecutionID request, ea_OperationID = areq_OperationID request,
      ea_Kind = areq_Kind request, ea_Number = number, ea_InputHash = areq_InputHash request,
      ea_Status = AttemptStatusRunning, ea_Lease = Some (areq_Lease request), ea_Payload = [],
      ea_Failure = None, ea_Version = 1\<rparr>"

definition set_attempts :: "string \<Rightarrow> effect_attempt list \<Rightarrow> durable_record \<Rightarrow> durable_record" where
  "set_attempts op as r = r\<lparr>d_attempts := tput op as (d_attempts r)\<rparr>"

text \<open>\<^verbatim>\<open>attemptByNumber\<close> returns a pointer into the list: here the position.\<close>

fun attempt_index :: "effect_attempt list \<Rightarrow> int \<Rightarrow> nat option" where
  "attempt_index [] number = None"
| "attempt_index (a # as) number =
     (if ea_Number a = number then Some 0 else map_option Suc (attempt_index as number))"

definition attemptByNumber :: "durable_record \<Rightarrow> string \<Rightarrow> int \<Rightarrow> (nat \<times> effect_attempt) option" where
  "attemptByNumber r op number =
     map_option (\<lambda>i. (i, attempts_of r op ! i)) (attempt_index (attempts_of r op) number)"

definition sameFailure :: "string option \<Rightarrow> string option \<Rightarrow> bool" where
  "sameFailure left right \<longleftrightarrow> left = right"

definition validateAttemptIdentity :: "string \<Rightarrow> string \<Rightarrow> int \<Rightarrow> derror option" where
  "validateAttemptIdentity eid op number =
     (if \<not> validExecutionID eid \<or> blank op \<or> number < 1 then Some DInvalidArgument else None)"

definition validateAttemptMutation :: "attempt_settle_request \<Rightarrow> derror option" where
  "validateAttemptMutation request =
     (case validateAttemptIdentity (mreq_ExecutionID request) (mreq_OperationID request)
             (mreq_AttemptNumber request) of
        Some e \<Rightarrow> Some e
      | None \<Rightarrow>
          if ref_OwnerID (mreq_Lease request) = [] \<or> ref_Token (mreq_Lease request) = 0 \<or>
             mreq_ExpectedAttemptVersion request = 0
          then Some DInvalidArgument else None)"

definition validateReconcileRequest :: "reconcile_request \<Rightarrow> derror option" where
  "validateReconcileRequest request =
     (case validateAttemptIdentity (creq_ExecutionID request) (creq_OperationID request)
             (creq_AttemptNumber request) of
        Some e \<Rightarrow> Some e
      | None \<Rightarrow>
          if creq_ExpectedAttemptVersion request = 0 then Some DInvalidArgument
          else case creq_Resolution request of
            ReconcileResolutionSucceed \<Rightarrow>
              if creq_Payload request = [] \<or> creq_Failure request \<noteq> None
              then Some DInvalidArgument else None
          | ReconcileResolutionFail \<Rightarrow>
              if creq_Failure request = None then Some DInvalidArgument else None
          | ReconcileResolutionRetry \<Rightarrow>
              if creq_Payload request \<noteq> [] \<or> creq_Failure request \<noteq> None
              then Some DInvalidArgument else None
          | ReconcileResolutionOther _ \<Rightarrow> Some DInvalidArgument)"

definition reconcileExact :: "effect_attempt \<Rightarrow> reconcile_request \<Rightarrow> bool" where
  "reconcileExact a request \<longleftrightarrow>
     ea_Version a = u64_inc (creq_ExpectedAttemptVersion request) \<and>
     (case creq_Resolution request of
        ReconcileResolutionSucceed \<Rightarrow> ea_Status a = AttemptStatusSucceeded \<and>
          ea_Payload a = creq_Payload request \<and> ea_Failure a = None
      | ReconcileResolutionFail \<Rightarrow> ea_Status a = AttemptStatusFailed \<and>
          ea_Payload a = creq_Payload request \<and> sameFailure (ea_Failure a) (creq_Failure request)
      | ReconcileResolutionRetry \<Rightarrow> ea_Status a = AttemptStatusAbandoned \<and>
          ea_Payload a = [] \<and> ea_Failure a = None
      | ReconcileResolutionOther _ \<Rightarrow> False)"

section \<open>Start\<close>

definition start_attempt_mut ::
  "time \<Rightarrow> attempt_start_request \<Rightarrow> durable_record \<Rightarrow> derror + (attempt_start \<times> durable_record)" where
  "start_attempt_mut now request r =
     (case requireActiveLease r (areq_Lease request) now of
        Some _ \<Rightarrow> Inl DLeaseLost
      | None \<Rightarrow>
        (let op = areq_OperationID request;
             attempts = attempts_of r op
         in if attempts = [] then
              (let a = newAttempt request 1
               in Inr (\<lparr>asr_Attempt = a, asr_Decision = AttemptDecisionExecute\<rparr>,
                       set_attempts op [a] r))
            else
              let latest = last attempts
              in if ea_Kind latest \<noteq> areq_Kind request \<or>
                    ea_InputHash latest \<noteq> areq_InputHash request
                 then Inl DConflict
                 else case ea_Status latest of
                   AttemptStatusSucceeded \<Rightarrow>
                     Inr (\<lparr>asr_Attempt = latest, asr_Decision = AttemptDecisionReplay\<rparr>, r)
                 | AttemptStatusFailed \<Rightarrow>
                     Inr (\<lparr>asr_Attempt = latest, asr_Decision = AttemptDecisionReplay\<rparr>, r)
                 | AttemptStatusUnknown \<Rightarrow>
                     Inr (\<lparr>asr_Attempt = latest, asr_Decision = AttemptDecisionReconcile\<rparr>, r)
                 | AttemptStatusRunning \<Rightarrow>
                     if ea_Lease latest = Some (areq_Lease request)
                     then Inr (\<lparr>asr_Attempt = latest, asr_Decision = AttemptDecisionExecute\<rparr>, r)
                     else Inr (\<lparr>asr_Attempt = mark_unknown latest,
                                asr_Decision = AttemptDecisionReconcile\<rparr>,
                               set_attempts op (butlast attempts @ [mark_unknown latest]) r)
                 | AttemptStatusAbandoned \<Rightarrow>
                     (let a = newAttempt request (ea_Number latest + 1)
                      in Inr (\<lparr>asr_Attempt = a, asr_Decision = AttemptDecisionExecute\<rparr>,
                              set_attempts op (attempts @ [a]) r))
                 | AttemptStatusOther _ \<Rightarrow> Inl DConflict))"

definition StartAttempt ::
  "durable_env \<Rightarrow> time \<Rightarrow> attempt_start_request \<Rightarrow> durable_db \<Rightarrow> (derror + attempt_start) \<times> durable_db" where
  "StartAttempt env now request db =
     (if \<not> valid_lease_ref (areq_ExecutionID request) (areq_Lease request) \<or>
         blank (areq_OperationID request) \<or> zeroHash (areq_InputHash request) \<or>
         (areq_Kind request \<noteq> AttemptKindModel \<and> areq_Kind request \<noteq> AttemptKindTool)
      then (Inl DInvalidArgument, db)
      else withRecord env now (areq_ExecutionID request) (areq_OperationID request)
             (start_attempt_mut now request) db)"

section \<open>Settlement\<close>

definition settled_status :: "effect_status \<Rightarrow> bool" where
  "settled_status st \<longleftrightarrow> st = AttemptStatusSucceeded \<or> st = AttemptStatusFailed"

definition same_settlement :: "effect_attempt \<Rightarrow> attempt_settle_request \<Rightarrow> bool" where
  "same_settlement a request \<longleftrightarrow>
     ea_Version a = u64_inc (mreq_ExpectedAttemptVersion request) \<and>
     ea_Payload a = mreq_Payload request \<and> sameFailure (ea_Failure a) (mreq_Failure request)"

definition settle :: "effect_status \<Rightarrow> attempt_settle_request \<Rightarrow> effect_attempt \<Rightarrow> effect_attempt" where
  "settle st request a = a\<lparr>ea_Status := st, ea_Lease := None, ea_Payload := mreq_Payload request,
     ea_Failure := mreq_Failure request, ea_Version := u64_inc (ea_Version a)\<rparr>"

definition replace_attempt ::
  "string \<Rightarrow> nat \<Rightarrow> effect_attempt \<Rightarrow> durable_record \<Rightarrow> durable_record" where
  "replace_attempt op i a r = set_attempts op ((attempts_of r op)[i := a]) r"

definition finish_attempt_mut ::
  "time \<Rightarrow> attempt_settle_request \<Rightarrow> durable_record \<Rightarrow> derror + (effect_attempt \<times> durable_record)" where
  "finish_attempt_mut now request r =
     (case requireActiveLease r (mreq_Lease request) now of
        Some _ \<Rightarrow> Inl DLeaseLost
      | None \<Rightarrow>
        (case attemptByNumber r (mreq_OperationID request) (mreq_AttemptNumber request) of
           None \<Rightarrow> Inl DNotFound
         | Some (i, a) \<Rightarrow>
             if settled_status (ea_Status a) then
               (if same_settlement a request then Inr (a, r) else Inl DConflict)
             else if ea_Status a \<noteq> AttemptStatusRunning \<or>
                     ea_Version a \<noteq> mreq_ExpectedAttemptVersion request \<or>
                     ea_Lease a \<noteq> Some (mreq_Lease request)
             then Inl DConflict
             else
               let a' = settle (if mreq_Failure request \<noteq> None then AttemptStatusFailed
                                else AttemptStatusSucceeded) request a
               in Inr (a', replace_attempt (mreq_OperationID request) i a' r)))"

definition FinishAttempt ::
  "durable_env \<Rightarrow> time \<Rightarrow> attempt_settle_request \<Rightarrow> durable_db \<Rightarrow> (derror + effect_attempt) \<times> durable_db" where
  "FinishAttempt env now request db =
     (case validateAttemptMutation request of
        Some e \<Rightarrow> (Inl e, db)
      | None \<Rightarrow> withRecord env now (mreq_ExecutionID request) (mreq_OperationID request)
          (finish_attempt_mut now request) db)"

definition mark_unknown_mut ::
  "time \<Rightarrow> attempt_settle_request \<Rightarrow> durable_record \<Rightarrow> derror + (effect_attempt \<times> durable_record)" where
  "mark_unknown_mut now request r =
     (case requireActiveLease r (mreq_Lease request) now of
        Some _ \<Rightarrow> Inl DLeaseLost
      | None \<Rightarrow>
        (case attemptByNumber r (mreq_OperationID request) (mreq_AttemptNumber request) of
           None \<Rightarrow> Inl DNotFound
         | Some (i, a) \<Rightarrow>
             if ea_Status a = AttemptStatusUnknown then
               (if same_settlement a request then Inr (a, r) else Inl DConflict)
             else if ea_Status a \<noteq> AttemptStatusRunning \<or>
                     ea_Version a \<noteq> mreq_ExpectedAttemptVersion request \<or>
                     ea_Lease a \<noteq> Some (mreq_Lease request)
             then Inl DConflict
             else
               let a' = settle AttemptStatusUnknown request a
               in Inr (a', replace_attempt (mreq_OperationID request) i a' r)))"

definition MarkAttemptUnknown ::
  "durable_env \<Rightarrow> time \<Rightarrow> attempt_settle_request \<Rightarrow> durable_db \<Rightarrow> (derror + effect_attempt) \<times> durable_db" where
  "MarkAttemptUnknown env now request db =
     (case validateAttemptMutation request of
        Some e \<Rightarrow> (Inl e, db)
      | None \<Rightarrow> withRecord env now (mreq_ExecutionID request) (mreq_OperationID request)
          (mark_unknown_mut now request) db)"

section \<open>Reconciliation by the operator\<close>

definition resolve_attempt :: "reconcile_request \<Rightarrow> effect_attempt \<Rightarrow> effect_attempt" where
  "resolve_attempt request a =
     (let b = (case creq_Resolution request of
                 ReconcileResolutionSucceed \<Rightarrow> a\<lparr>ea_Status := AttemptStatusSucceeded,
                   ea_Payload := creq_Payload request, ea_Failure := None\<rparr>
               | ReconcileResolutionFail \<Rightarrow> a\<lparr>ea_Status := AttemptStatusFailed,
                   ea_Payload := creq_Payload request, ea_Failure := creq_Failure request\<rparr>
               | ReconcileResolutionRetry \<Rightarrow> a\<lparr>ea_Status := AttemptStatusAbandoned,
                   ea_Payload := [], ea_Failure := None\<rparr>
               | ReconcileResolutionOther _ \<Rightarrow> a)
      in b\<lparr>ea_Lease := None, ea_Version := u64_inc (ea_Version b)\<rparr>)"

definition reconcile_mut ::
  "time \<Rightarrow> reconcile_request \<Rightarrow> durable_record \<Rightarrow> derror + (effect_attempt \<times> durable_record)" where
  "reconcile_mut now request r =
     (if leaseActive (ex_Lease (d_execution r)) now then Inl DBusy
      else case attemptByNumber r (creq_OperationID request) (creq_AttemptNumber request) of
        None \<Rightarrow> Inl DNotFound
      | Some (i, a) \<Rightarrow>
          if reconcileExact a request then Inr (a, r)
          else if ea_Status a \<noteq> AttemptStatusUnknown \<or>
                  ea_Version a \<noteq> creq_ExpectedAttemptVersion request
          then Inl DConflict
          else
            let a' = resolve_attempt request a
            in Inr (a', replace_attempt (creq_OperationID request) i a' r))"

definition ReconcileAttempt ::
  "durable_env \<Rightarrow> time \<Rightarrow> reconcile_request \<Rightarrow> durable_db \<Rightarrow> (derror + effect_attempt) \<times> durable_db" where
  "ReconcileAttempt env now request db =
     (case validateReconcileRequest request of
        Some e \<Rightarrow> (Inl e, db)
      | None \<Rightarrow> withRecord env now (creq_ExecutionID request) (creq_OperationID request)
          (reconcile_mut now request) db)"

section \<open>Listing\<close>

text \<open>All attempts, or those with a status, in the order of execution, operation and number. The rows
  are joined with the next token of their execution; each is validated as it is read, and the first
  invalid one ends the listing with an error.\<close>

type_synonym attempt_row = "string \<times> string \<times> nat \<times> effect_attempt"

definition attempt_rows :: "durable_db \<Rightarrow> attempt_row list" where
  "attempt_rows db =
     concat (map (\<lambda>(eid, r).
       concat (map (\<lambda>(op, as). map (\<lambda>a. (eid, op, d_nextToken r, a)) (sort_key ea_Number as))
         (sort_key fst (d_attempts r)))) (sort_key fst db))"

fun scan_attempts :: "attempt_row list \<Rightarrow> derror + effect_attempt list" where
  "scan_attempts [] = Inr []"
| "scan_attempts ((eid, op, nextToken, a) # rows) =
     (if ea_ExecutionID a \<noteq> eid \<or> ea_OperationID a \<noteq> op
      then Inl (DMessage ''durable attempt catalog disagrees with payload'')
      else case validateAttemptPayload a nextToken of
        Some e \<Rightarrow> Inl e
      | None \<Rightarrow> (case scan_attempts rows of Inl e \<Rightarrow> Inl e | Inr as \<Rightarrow> Inr (a # as)))"

definition listAttemptsByStatus :: "durable_db \<Rightarrow> effect_status option \<Rightarrow> derror + effect_attempt list" where
  "listAttemptsByStatus db status =
     scan_attempts (filter (\<lambda>(eid, op, nextToken, a). case status of None \<Rightarrow> True | Some st \<Rightarrow> ea_Status a = st)
       (attempt_rows db))"

end
