(* ===== verification/Durable_Safety.thy ===== *)
theory Durable_Safety
  imports Durable_Attempts
begin

text \<open>
  What the durable backend guarantees. \<open>rec_step\<close> describes how any command may change the
  record of an execution: tokens never go back, a terminal execution is frozen, attempts follow
  their state machine. Every command is shown to be such a step, once for its closure; the
  lemmas on load and save lift that to the database, and the theorems follow for every history
  of commands.
\<close>

section \<open>Validators as predicates\<close>

lemma validateAttempts_None:
  "validateAttempts eid op tok i as = None \<longleftrightarrow>
     (\<forall>j < length as. ea_ExecutionID (as ! j) = eid \<and> ea_OperationID (as ! j) = op \<and>
        ea_Number (as ! j) = i + int j + 1 \<and> validateAttemptPayload (as ! j) tok = None)"
proof (induction as arbitrary: i)
  case (Cons a as)
  have "(\<forall>j < length (a # as). P (a # as) j) \<longleftrightarrow> P (a # as) 0 \<and> (\<forall>j < length as. P (a # as) (Suc j))"
    for P :: "effect_attempt list \<Rightarrow> nat \<Rightarrow> bool"
    using less_Suc_eq_0_disj by auto
  from this [of "\<lambda>xs j. ea_ExecutionID (xs ! j) = eid \<and> ea_OperationID (xs ! j) = op \<and>
      ea_Number (xs ! j) = i + int j + 1 \<and> validateAttemptPayload (xs ! j) tok = None"] Cons.IH [of "i + 1"]
  show ?case by (auto simp: algebra_simps split: option.splits)
qed simp

lemma validateOperations_None:
  "validateOperations eid tok t = None \<longleftrightarrow>
     (\<forall>(op, as) \<in> set t. \<not> blank op \<and> validateAttempts eid op tok 0 as = None)"
  by (induction eid tok t rule: validateOperations.induct) (auto split: option.splits)

definition receipt_valid :: "nat \<Rightarrow> receipt_id \<Rightarrow> receipt_record \<Rightarrow> bool" where
  "receipt_valid tok rid rr \<longleftrightarrow> fst rid \<noteq> [] \<and> rr_requestHash rr \<noteq> 0 \<and> rr_leaseToken rr \<noteq> 0 \<and>
     rr_leaseToken rr \<le> tok"

lemma validateReceipts_None:
  "validateReceipts tok t = None \<longleftrightarrow> (\<forall>(rid, rr) \<in> set t. receipt_valid tok rid rr)"
  by (induction tok t rule: validateReceipts.induct) (auto simp: receipt_valid_def)

lemma validateDurableRecord_None:
  "validateDurableRecord env r = None \<longleftrightarrow> token_fence r \<and>
     validateExecutionHashes env (d_execution r) = None \<and>
     (\<forall>(op, as) \<in> set (d_attempts r). \<not> blank op \<and>
        validateAttempts (ex_ID (d_execution r)) op (d_nextToken r) 0 as = None) \<and>
     (\<forall>(rid, rr) \<in> set (d_receipts r). receipt_valid (d_nextToken r) rid rr)"
  by (auto simp: validateDurableRecord_def validateOperations_None [symmetric]
      validateReceipts_None [symmetric] split: option.splits)

lemma validateAttemptPayload_mono:
  "validateAttemptPayload a tok = None \<Longrightarrow> tok \<le> tok' \<Longrightarrow> validateAttemptPayload a tok' = None"
  by (auto simp: validateAttemptPayload_def split: if_splits option.splits)

lemma validateAttempts_mono:
  "validateAttempts eid op tok i as = None \<Longrightarrow> tok \<le> tok' \<Longrightarrow>
     validateAttempts eid op tok' i as = None"
  unfolding validateAttempts_None by (blast dest: validateAttemptPayload_mono)

lemma receipt_valid_mono: "receipt_valid tok rid rr \<Longrightarrow> tok \<le> tok' \<Longrightarrow> receipt_valid tok' rid rr"
  by (auto simp: receipt_valid_def)

section \<open>Steps of a record\<close>

definition uncertain :: "effect_attempt \<Rightarrow> bool" where
  "uncertain a \<longleftrightarrow> ea_Status a = AttemptStatusRunning \<or> ea_Status a = AttemptStatusUnknown"

text \<open>The state machine of an attempt.\<close>

definition att_step :: "effect_attempt \<Rightarrow> effect_attempt \<Rightarrow> bool" where
  "att_step a b \<longleftrightarrow> b = a \<or>
     (ea_Status a = AttemptStatusRunning \<and>
        ea_Status b \<in> {AttemptStatusSucceeded, AttemptStatusFailed, AttemptStatusUnknown}) \<or>
     (ea_Status a = AttemptStatusUnknown \<and>
        ea_Status b \<in> {AttemptStatusSucceeded, AttemptStatusFailed, AttemptStatusAbandoned})"

definition atts_step :: "effect_attempt list \<Rightarrow> effect_attempt list \<Rightarrow> bool" where
  "atts_step as bs \<longleftrightarrow> list_all2 att_step as bs \<or>
     (\<exists>b. bs = as @ [b] \<and> ea_Status b = AttemptStatusRunning \<and>
        (as \<noteq> [] \<longrightarrow> ea_Status (last as) = AttemptStatusAbandoned))"

definition lease_current :: "durable_record \<Rightarrow> bool" where
  "lease_current r \<longleftrightarrow> (case ex_Lease (d_execution r) of None \<Rightarrow> True | Some l \<Rightarrow> dl_Token l = d_nextToken r)"

abbreviation is_terminal :: "durable_record \<Rightarrow> bool" where
  "is_terminal r \<equiv> terminal_status (ex_Status (d_execution r))"

text \<open>
  A command on the operation \<open>op\<close> (\<open>[]\<close> for a command on the execution) may turn the
  record \<open>r\<close> into \<open>r'\<close>.
\<close>

definition rec_step :: "string \<Rightarrow> durable_record \<Rightarrow> durable_record \<Rightarrow> bool" where
  "rec_step op r r' \<longleftrightarrow>
     ex_ID (d_execution r') = ex_ID (d_execution r) \<and>
     ex_SpecHash (d_execution r') = ex_SpecHash (d_execution r) \<and>
     (d_nextToken r' = d_nextToken r \<or> d_nextToken r' = u64_inc (d_nextToken r)) \<and>
     (lease_current r \<longrightarrow> lease_current r') \<and>
     (is_terminal r \<longrightarrow> d_execution r' = d_execution r \<and> d_nextToken r' = d_nextToken r) \<and>
     (is_terminal r \<longrightarrow> (\<forall>op'. list_all2 att_step (attempts_of r op') (attempts_of r' op'))) \<and>
     (\<forall>op'. atts_step (attempts_of r op') (attempts_of r' op')) \<and>
     (\<forall>op'. op' \<noteq> op \<longrightarrow> (tget (d_attempts r') op' = None \<longleftrightarrow> tget (d_attempts r) op' = None)) \<and>
     (tget (d_attempts r) op \<noteq> None \<longrightarrow> tget (d_attempts r') op \<noteq> None) \<and>
     (\<not> is_terminal r \<longrightarrow> is_terminal r' \<longrightarrow> op = [] \<and> d_attempts r' = d_attempts r \<and>
        \<not> hasUncertainAttempts r) \<and>
     (table_ok (d_attempts r) \<longrightarrow> table_ok (d_attempts r')) \<and>
     (table_ok (d_receipts r) \<longrightarrow> table_ok (d_receipts r'))"

lemma att_step_refl [simp]: "att_step a a"
  by (simp add: att_step_def)

lemma list_all2_att_refl [simp]: "list_all2 att_step as as"
  by (simp add: list_all2_refl)

lemma atts_step_refl [simp]: "atts_step as as"
  by (simp add: atts_step_def)

lemma rec_step_refl [simp]: "rec_step op r r"
  by (simp add: rec_step_def)

lemma att_step_mark_unknown: "reconciles token a \<Longrightarrow> att_step a (mark_unknown a)"
  by (simp add: att_step_def mark_unknown_def reconciles_def)

lemma attempts_of_frame [simp]:
  "attempts_of (r\<lparr>d_execution := e\<rparr>) op = attempts_of r op"
  "attempts_of (r\<lparr>d_nextToken := n\<rparr>) op = attempts_of r op"
  "attempts_of (r\<lparr>d_receipts := t\<rparr>) op = attempts_of r op"
  by (simp_all add: attempts_of_def)

lemma putReceipt_frame [simp]:
  "d_execution (putReceipt rid h tok resp r) = d_execution r"
  "d_nextToken (putReceipt rid h tok resp r) = d_nextToken r"
  "d_attempts (putReceipt rid h tok resp r) = d_attempts r"
  "attempts_of (putReceipt rid h tok resp r) op = attempts_of r op"
  "lease_current (putReceipt rid h tok resp r) = lease_current r"
  "table_ok (d_receipts r) \<Longrightarrow> table_ok (d_receipts (putReceipt rid h tok resp r))"
  by (simp_all add: putReceipt_def attempts_of_def lease_current_def split: option.split)

lemma rec_step_putReceipt:
  "rec_step op r r' \<Longrightarrow> rec_step op r (putReceipt rid h tok resp r')"
  by (simp add: rec_step_def)

lemma attempts_reconcileRunning:
  "attempts_of (snd (reconcileRunning r token)) op =
     map (\<lambda>a. if reconciles token a then mark_unknown a else a) (attempts_of r op)"
  "tget (d_attempts (snd (reconcileRunning r token))) op = None \<longleftrightarrow> tget (d_attempts r) op = None"
  "table_ok (d_attempts r) \<Longrightarrow> table_ok (d_attempts (snd (reconcileRunning r token)))"
  "d_execution (snd (reconcileRunning r token)) = d_execution r"
  "d_nextToken (snd (reconcileRunning r token)) = d_nextToken r"
  "d_receipts (snd (reconcileRunning r token)) = d_receipts r"
proof -
  let ?f = "\<lambda>as. map (\<lambda>a. if reconciles token a then mark_unknown a else a) as"
  show "attempts_of (snd (reconcileRunning r token)) op = ?f (attempts_of r op)"
    "tget (d_attempts (snd (reconcileRunning r token))) op = None \<longleftrightarrow> tget (d_attempts r) op = None"
    by (simp_all add: attempts_of_def reconcileRunning_def tget_map split: option.splits)
  show "table_ok (d_attempts r) \<Longrightarrow> table_ok (d_attempts (snd (reconcileRunning r token)))"
    by (simp add: table_ok_def reconcileRunning_def keys_map del: map_map)
qed (simp_all add: reconcileRunning_def)

lemma list_all2_reconciled:
  "list_all2 att_step as (map (\<lambda>a. if reconciles token a then mark_unknown a else a) as)"
  by (induction as) (auto simp: att_step_mark_unknown)

text \<open>After reconciling, a command may replace the execution of a live record.\<close>

lemma rec_step_reconciled:
  assumes "r1 = snd (reconcileRunning r token)"
    and "\<not> is_terminal r" and "ex_ID e = ex_ID (d_execution r)"
    and "ex_SpecHash e = ex_SpecHash (d_execution r)" and "\<not> terminal_status (ex_Status e)"
    and "tok = d_nextToken r \<or> tok = u64_inc (d_nextToken r)"
    and "case ex_Lease e of None \<Rightarrow> True | Some l \<Rightarrow> dl_Token l = tok"
  shows "rec_step [] r (r1\<lparr>d_execution := e, d_nextToken := tok\<rparr>)"
proof -
  show ?thesis
    using assms(2-7) attempts_reconcileRunning [of r token] unfolding rec_step_def assms(1)
    by (auto simp: lease_current_def atts_step_def list_all2_reconciled split: option.splits)
qed

lemma rec_step_reconciled_same:
  assumes "\<not> is_terminal r" and "ex_ID e = ex_ID (d_execution r)"
    and "ex_SpecHash e = ex_SpecHash (d_execution r)" and "\<not> terminal_status (ex_Status e)"
    and "ex_Lease e = None"
  shows "rec_step [] r (snd (reconcileRunning r token)\<lparr>d_execution := e\<rparr>)"
proof -
  let ?r1 = "snd (reconcileRunning r token)"
  have "?r1\<lparr>d_execution := e, d_nextToken := d_nextToken r\<rparr> = ?r1\<lparr>d_execution := e\<rparr>"
    by (rule durable_record.equality) (simp_all add: attempts_reconcileRunning)
  with rec_step_reconciled [OF refl assms(1-4), of "d_nextToken r" token] assms(5)
  show ?thesis by simp
qed

lemma reconcileForClaim_snd: "snd (reconcileForClaim r) = snd (reconcileRunning r 0)"
  by (simp add: reconcileForClaim_def case_prod_beta)

lemma rec_step_grant:
  assumes "\<not> is_terminal r" and "r1 = snd (reconcileForClaim r)"
  shows "rec_step [] r (grant_lease owner claim expires r1)"
proof -
  let ?tok = "u64_inc (d_nextToken r)"
  let ?e = "(d_execution r)\<lparr>ex_Status := ExecutionStatusRunning, ex_Lease := Some
    \<lparr>dl_OwnerID = owner, dl_ClaimID = claim, dl_Token = ?tok, dl_ExpiresAt = expires\<rparr>\<rparr>"
  have "grant_lease owner claim expires r1 = r1\<lparr>d_execution := ?e, d_nextToken := ?tok\<rparr>"
    using attempts_reconcileRunning(4,5) [of r 0] assms(2)
    by (simp add: grant_lease_def Let_def reconcileForClaim_snd)
  then show ?thesis
    using rec_step_reconciled [of r1 r 0 ?e ?tok] assms
    by (simp add: reconcileForClaim_snd terminal_status_def)
qed

section \<open>Every command is a step\<close>

definition live_ok :: "durable_record \<Rightarrow> bool" where
  "live_ok r \<longleftrightarrow> (is_terminal r \<longrightarrow> ex_Lease (d_execution r) = None)"

lemma requireActiveLease_None:
  assumes "requireActiveLease r l now = None"
  obtains dl where "ex_Lease (d_execution r) = Some dl" "dl_OwnerID dl = ref_OwnerID l"
    "dl_Token dl = ref_Token l" "dl_ExpiresAt dl > now"
  using assms
  by (cases "ex_Lease (d_execution r)")
     (auto simp: requireActiveLease_def leaseMatches_def leaseActive_def split: if_splits)

lemma live_not_terminal: "live_ok r \<Longrightarrow> requireActiveLease r l now = None \<Longrightarrow> \<not> is_terminal r"
  by (auto simp: live_ok_def elim: requireActiveLease_None)

lemma rec_step_execution:
  assumes "\<not> is_terminal r" and "ex_ID e = ex_ID (d_execution r)"
    and "ex_SpecHash e = ex_SpecHash (d_execution r)" and "\<not> terminal_status (ex_Status e)"
    and "case ex_Lease e of None \<Rightarrow> True
         | Some l \<Rightarrow> lease_current r \<longrightarrow> dl_Token l = d_nextToken r"
  shows "rec_step [] r (r\<lparr>d_execution := e\<rparr>)"
  using assms by (auto simp: rec_step_def lease_current_def split: option.splits)

lemma claimForStart_step:
  assumes "claimForStart env now request r = Inr (v, r')" and "\<not> is_terminal r"
  shows "rec_step [] r r'"
proof -
  have grant: "rec_step [] r (putReceipt rid h tok resp (grant_lease o1 c x (snd (reconcileForClaim r))))"
    for rid h tok resp o1 c x
    by (intro rec_step_putReceipt rec_step_grant) (use assms(2) in auto)
  from assms(1) show ?thesis
    by (auto simp: claimForStart_def Let_def case_prod_beta intro: grant
        split: if_splits option.splits receipt_lookup.splits response.splits)
qed

lemma resume_step:
  assumes "resume_mut env now request r = Inr (v, r')"
  shows "rec_step [] r r'"
proof (cases "is_terminal r")
  case True
  with assms show ?thesis by (simp add: resume_mut_def)
next
  case False
  have grant: "rec_step [] r (putReceipt rid h tok resp (grant_lease o1 c x (snd (reconcileForClaim r))))"
    for rid h tok resp o1 c x
    by (intro rec_step_putReceipt rec_step_grant) (use False in auto)
  from assms False show ?thesis
    by (auto simp: resume_mut_def Let_def case_prod_beta intro: grant
        split: if_splits option.splits receipt_lookup.splits response.splits)
qed

lemma set_expiry_step:
  assumes "live_ok r"
  shows "rec_step [] r (set_expiry at r)"
proof (cases "is_terminal r")
  case True
  with assms have "set_expiry at r = r" by (simp add: set_expiry_def live_ok_def)
  then show ?thesis by simp
next
  case False
  then show ?thesis
    unfolding set_expiry_def
    by (intro rec_step_execution) (auto simp: lease_current_def split: option.splits)
qed

lemma renew_step:
  assumes "renew_mut env now request r = Inr (v, r')" and "live_ok r"
  shows "rec_step [] r r'"
  using assms(1)
  by (auto simp: renew_mut_def Let_def intro!: rec_step_putReceipt set_expiry_step [OF assms(2)]
      split: if_splits option.splits receipt_lookup.splits response.splits)

lemma checkpoint_step:
  assumes "checkpoint_mut now request r = Inr (v, r')" and "live_ok r"
  shows "rec_step [] r r'"
proof -
  have "requireActiveLease r (kreq_Lease request) now = None"
    using assms(1) by (auto simp: checkpoint_mut_def split: option.splits)
  then have live: "\<not> is_terminal r" using live_not_terminal [OF assms(2)] by blast
  have "rec_step [] r (r\<lparr>d_execution := (d_execution r)\<lparr>ex_Checkpoint := c, ex_Version := n\<rparr>\<rparr>)" for c n
    by (intro rec_step_execution) (use live in \<open>auto simp: lease_current_def split: option.splits\<close>)
  then show ?thesis
    using assms(1) by (auto simp: checkpoint_mut_def Let_def split: option.splits if_splits)
qed

lemma suspend_step:
  assumes "suspend_mut env now request r = Inr (v, r')" and "live_ok r"
  shows "rec_step [] r r'"
proof -
  let ?r1 = "snd (reconcileRunning r (ref_Token (ureq_Lease request)))"
  let ?e = "(d_execution r)\<lparr>ex_Status := ExecutionStatusSuspended, ex_Lease := None,
      ex_Version := u64_inc (ex_Version (d_execution r))\<rparr>"
  have "rec_step [] r (?r1\<lparr>d_execution := ?e\<rparr>)" if "\<not> is_terminal r"
    by (rule rec_step_reconciled_same [OF that]) (simp_all add: terminal_status_def)
  then show ?thesis
    using assms(1) live_not_terminal [OF assms(2)] attempts_reconcileRunning(4)
    by (auto simp: suspend_mut_def Let_def case_prod_beta intro!: rec_step_putReceipt
        split: if_splits option.splits receipt_lookup.splits response.splits)
qed

lemma release_step:
  assumes "release_mut env request r = Inr (v, r')" and "live_ok r"
  shows "rec_step [] r r'"
proof -
  let ?r1 = "snd (reconcileRunning r (ref_Token (lreq_Lease request)))"
  let ?e = "(d_execution r)\<lparr>ex_Lease := None\<rparr>"
  have "rec_step [] r (?r1\<lparr>d_execution := ?e\<rparr>)" if "\<not> is_terminal r"
    by (rule rec_step_reconciled_same [OF that]) (use that in simp_all)
  moreover have "\<not> is_terminal r" if "leaseMatches (ex_Lease (d_execution r)) (lreq_Lease request)"
    using that assms(2) by (auto simp: live_ok_def leaseMatches_def)
  ultimately show ?thesis
    using assms(1) attempts_reconcileRunning(4)
    by (auto simp: release_mut_def Let_def case_prod_beta intro!: rec_step_putReceipt
        split: if_splits option.splits receipt_lookup.splits response.splits)
qed

lemma finish_step:
  assumes "finish_mut env now request r = Inr (v, r')"
  shows "rec_step [] r r'"
proof -
  have "rec_step [] r (r\<lparr>d_execution := (d_execution r)\<lparr>ex_Result := res, ex_ResultHash := h,
      ex_Status := st, ex_Lease := None, ex_Version := n\<rparr>\<rparr>)"
    if "\<not> is_terminal r" "\<not> hasUncertainAttempts r" for res h st n
    using that by (auto simp: rec_step_def lease_current_def)
  then show ?thesis
    using assms
    by (auto simp: finish_mut_def Let_def intro!: rec_step_putReceipt
        split: if_splits option.splits receipt_lookup.splits response.splits)
qed

lemma rec_step_set_attempts:
  assumes "atts_step (attempts_of r op) bs"
    and "is_terminal r \<Longrightarrow> list_all2 att_step (attempts_of r op) bs"
  shows "rec_step op r (set_attempts op bs r)"
proof -
  have "attempts_of (set_attempts op bs r) op' = (if op' = op then bs else attempts_of r op')" for op'
    by (simp add: attempts_of_def set_attempts_def)
  then show ?thesis
    using assms by (auto simp: rec_step_def set_attempts_def lease_current_def split: option.splits)
qed

lemma attempt_index_Some:
  "attempt_index as n = Some i \<Longrightarrow> i < length as \<and> ea_Number (as ! i) = n"
  by (induction as arbitrary: i) (auto split: if_splits)

lemma list_all2_update:
  "i < length as \<Longrightarrow> att_step (as ! i) b \<Longrightarrow> list_all2 att_step as (as[i := b])"
  by (simp add: list_all2_conv_all_nth nth_list_update)

lemma replace_attempt_step:
  assumes "attemptByNumber r op n = Some (i, a)" and "att_step a b"
  shows "rec_step op r (replace_attempt op i b r)"
proof -
  have "i < length (attempts_of r op)" "a = attempts_of r op ! i"
    using assms(1) attempt_index_Some by (auto simp: attemptByNumber_def)
  with assms(2) have "list_all2 att_step (attempts_of r op) ((attempts_of r op)[i := b])"
    by (simp add: list_all2_update)
  then show ?thesis
    unfolding replace_attempt_def by (intro rec_step_set_attempts) (simp_all add: atts_step_def)
qed

lemma start_attempt_step:
  assumes "start_attempt_mut now request r = Inr (v, r')" and "live_ok r"
  shows "rec_step (areq_OperationID request) r r'"
proof -
  let ?op = "areq_OperationID request"
  let ?as = "attempts_of r ?op"
  have live: "\<not> is_terminal r"
    using assms live_not_terminal [OF assms(2)]
    by (auto simp: start_attempt_mut_def split: option.splits)
  have new: "rec_step ?op r (set_attempts ?op (?as @ [newAttempt request n]) r)"
    if "?as \<noteq> [] \<longrightarrow> ea_Status (last ?as) = AttemptStatusAbandoned" for n
    by (intro rec_step_set_attempts) (use that live in \<open>auto simp: atts_step_def newAttempt_def\<close>)
  have unknown: "rec_step ?op r (set_attempts ?op (butlast ?as @ [mark_unknown (last ?as)]) r)"
    if "?as \<noteq> []" "ea_Status (last ?as) = AttemptStatusRunning"
  proof -
    have "?as = butlast ?as @ [last ?as]" using that(1) by simp
    moreover have "att_step (last ?as) (mark_unknown (last ?as))"
      using that(2) by (simp add: att_step_def mark_unknown_def)
    ultimately have "list_all2 att_step ?as (butlast ?as @ [mark_unknown (last ?as)])"
      by (metis list_all2_appendI list_all2_att_refl list_all2_Cons list_all2_Nil)
    then show ?thesis by (intro rec_step_set_attempts) (simp_all add: atts_step_def)
  qed
  show ?thesis
    using assms(1) new unknown
    by (fastforce simp: start_attempt_mut_def Let_def
        split: option.splits if_splits effect_status.splits)
qed

lemma finish_attempt_step:
  assumes "finish_attempt_mut now request r = Inr (v, r')"
  shows "rec_step (mreq_OperationID request) r r'"
  using assms
  by (auto simp: finish_attempt_mut_def Let_def settle_def att_step_def intro!: replace_attempt_step
      split: option.splits if_splits prod.splits)

lemma mark_unknown_step:
  assumes "mark_unknown_mut now request r = Inr (v, r')"
  shows "rec_step (mreq_OperationID request) r r'"
  using assms
  by (auto simp: mark_unknown_mut_def Let_def settle_def att_step_def intro!: replace_attempt_step
      split: option.splits if_splits prod.splits)

lemma reconcile_step:
  assumes "reconcile_mut now request r = Inr (v, r')" and "validateReconcileRequest request = None"
  shows "rec_step (creq_OperationID request) r r'"
proof -
  have "att_step a (resolve_attempt request a)" if "ea_Status a = AttemptStatusUnknown" for a
    using that assms(2)
    by (auto simp: att_step_def resolve_attempt_def validateReconcileRequest_def Let_def
        split: resolution.splits option.splits if_splits)
  then show ?thesis
    using assms(1)
    by (auto simp: reconcile_mut_def Let_def intro!: replace_attempt_step
        split: option.splits if_splits prod.splits)
qed

section \<open>Load and save\<close>

lemma tput_same: "tget t k = Some v \<Longrightarrow> tput k v t = t"
  using tput_old [of t k v v] by auto

lemma tmerge_Nil [simp]: "tmerge [] old = old"
  by (simp add: tmerge_def)

lemma tget_tmerge:
  "table_ok new \<Longrightarrow>
     tget (tmerge new old) k = (case tget new k of Some v \<Rightarrow> Some v | None \<Rightarrow> tget old k)"
proof (induction new arbitrary: old)
  case (Cons kv new)
  obtain j v where kv: "kv = (j, v)" by (cases kv)
  have "tget new j = None" using Cons.prems kv
    by (auto simp: table_ok_def tget_def map_of_eq_None_iff)
  moreover have "tmerge (kv # new) old = tmerge new (tput j v old)" using kv by (simp add: tmerge_def)
  moreover have "table_ok new" using Cons.prems by (simp add: table_ok_def)
  ultimately show ?case using Cons.IH [of "tput j v old"] kv
    by (auto simp: tget_Cons split: option.splits)
qed simp

lemma table_ok_tmerge: "table_ok old \<Longrightarrow> table_ok (tmerge new old)"
  by (induction new arbitrary: old) (auto simp: tmerge_def)

lemma tmerge_self: "(\<And>k v. (k, v) \<in> set new \<Longrightarrow> tget t k = Some v) \<Longrightarrow> tmerge new t = t"
  by (induction new) (auto simp: tmerge_def tput_same)

lemma tmerge_same: "table_ok t \<Longrightarrow> tmerge t t = t"
  by (rule tmerge_self) (simp add: table_ok_def tget_def)

definition open_last :: "effect_attempt list \<Rightarrow> bool" where
  "open_last as \<longleftrightarrow> (\<forall>a \<in> set (butlast as). ea_Status a = AttemptStatusAbandoned)"

definition settled_record :: "durable_record \<Rightarrow> bool" where
  "settled_record r \<longleftrightarrow> (\<forall>op. \<forall>a \<in> set (attempts_of r op). \<not> uncertain a)"

definition rec_inv :: "durable_env \<Rightarrow> string \<Rightarrow> durable_record \<Rightarrow> bool" where
  "rec_inv env eid r \<longleftrightarrow> ex_ID (d_execution r) = eid \<and> validateDurableRecord env r = None \<and>
     table_ok (d_attempts r) \<and> table_ok (d_receipts r) \<and> d_nextToken r < 2 ^ 64 \<and>
     lease_current r \<and> (is_terminal r \<longrightarrow> settled_record r) \<and> (\<forall>op. open_last (attempts_of r op))"

definition durable_inv :: "durable_env \<Rightarrow> durable_db \<Rightarrow> bool" where
  "durable_inv env db \<longleftrightarrow> table_ok db \<and> (\<forall>eid r. tget db eid = Some r \<longrightarrow> rec_inv env eid r)"

lemma settled_iff:
  assumes "table_ok (d_attempts r)"
  shows "settled_record r \<longleftrightarrow> \<not> hasUncertainAttempts r"
proof -
  have "settled_record r \<longleftrightarrow> (\<forall>op as. tget (d_attempts r) op = Some as \<longrightarrow> (\<forall>a \<in> set as. \<not> uncertain a))"
  proof
    assume settled: "settled_record r"
    show "\<forall>op as. tget (d_attempts r) op = Some as \<longrightarrow> (\<forall>a \<in> set as. \<not> uncertain a)"
    proof (intro allI impI)
      fix op as assume "tget (d_attempts r) op = Some as"
      then have "attempts_of r op = as" by (simp add: attempts_of_def)
      with settled show "\<forall>a \<in> set as. \<not> uncertain a" unfolding settled_record_def by blast
    qed
  next
    assume all: "\<forall>op as. tget (d_attempts r) op = Some as \<longrightarrow> (\<forall>a \<in> set as. \<not> uncertain a)"
    show "settled_record r"
      unfolding settled_record_def attempts_of_def
    proof
      fix op show "\<forall>a \<in> set (case tget (d_attempts r) op of None \<Rightarrow> [] | Some as \<Rightarrow> as). \<not> uncertain a"
        using all by (cases "tget (d_attempts r) op") simp_all
    qed
  qed
  also have "\<dots> \<longleftrightarrow> (\<forall>(op, as) \<in> set (d_attempts r). \<forall>a \<in> set as. \<not> uncertain a)"
    using in_set_tget [OF assms] by blast
  finally show ?thesis by (auto simp: hasUncertainAttempts_def uncertain_def)
qed

lemma att_step_frozen: "att_step a b \<Longrightarrow> \<not> uncertain a \<Longrightarrow> b = a"
  by (auto simp: att_step_def uncertain_def)

lemma list_all2_frozen:
  "list_all2 att_step as bs \<Longrightarrow> \<forall>a \<in> set as. \<not> uncertain a \<Longrightarrow> bs = as"
  by (induction as bs rule: list_all2_induct) (auto dest: att_step_frozen)

lemma list_all2_open_last: "list_all2 att_step as bs \<Longrightarrow> open_last as \<Longrightarrow> open_last bs"
proof (induction as bs rule: list_all2_induct)
  case (Cons a as b bs)
  have "as = [] \<longleftrightarrow> bs = []" using Cons(2) by auto
  moreover have "ea_Status b = AttemptStatusAbandoned" if "ea_Status a = AttemptStatusAbandoned"
    using Cons(1) that by (auto simp: att_step_def)
  ultimately show ?case using Cons by (auto simp: open_last_def)
qed (simp add: open_last_def)

lemma atts_step_open_last: "atts_step as bs \<Longrightarrow> open_last as \<Longrightarrow> open_last bs"
proof (unfold atts_step_def, elim disjE exE conjE)
  fix b assume "open_last as" "bs = as @ [b]" "as \<noteq> [] \<longrightarrow> ea_Status (last as) = AttemptStatusAbandoned"
  then show "open_last bs"
    by (cases as rule: rev_cases) (auto simp: open_last_def butlast_append)
qed (rule list_all2_open_last)

lemma validateExecutionHashes_live: "validateExecutionHashes env (d_execution r) = None \<Longrightarrow> live_ok r"
  by (auto simp: validateExecutionHashes_def live_ok_def terminal_status_def
      split: if_splits option.splits execution_status.splits)

definition merged :: "durable_record \<Rightarrow> durable_record \<Rightarrow> durable_record" where
  "merged r old = r\<lparr>d_attempts := tmerge (d_attempts r) (d_attempts old),
     d_receipts := tmerge (d_receipts r) (d_receipts old)\<rparr>"

text \<open>What a load returns: the row, or its projection to one operation.\<close>

lemma loadForMutation_Inr:
  assumes "loadForMutation env db eid op = Inr r"
  obtains R where "tget db eid = Some R" "d_execution r = d_execution R"
    "d_nextToken r = d_nextToken R" "validateExecutionHashes env (d_execution R) = None"
    "op = [] \<Longrightarrow> r = R"
    "op \<noteq> [] \<Longrightarrow> d_receipts r = [] \<and> (\<forall>op'. tget (d_attempts r) op' =
       (if op' = op then tget (d_attempts R) op else None)) \<and> table_ok (d_attempts r)"
proof (cases "op = []")
  case True
  with assms show thesis
    by (auto simp: loadForMutation_def load_def validateDurableRecord_None intro!: that
        split: option.splits if_splits)
next
  case False
  from assms False obtain R where R: "tget db eid = Some R"
    "validateExecutionHashes env (d_execution R) = None"
    "r = R\<lparr>d_attempts := (case tget (d_attempts R) op of None \<Rightarrow> [] | Some as \<Rightarrow> [(op, as)]),
           d_receipts := []\<rparr>"
    by (auto simp: loadForMutation_def split: option.splits if_splits)
  then show thesis
    by (intro that [OF R(1)])
       (use False in \<open>auto simp: tget_def table_ok_def split: option.splits\<close>)
qed

lemma withRecord_Inr:
  assumes "withRecord env now eid op mutate db = (Inr v, db')"
  obtains r r' where "loadForMutation env db eid op = Inr r" "mutate r = Inr (v, r')"
    "save env r' db = Inr db'"
  using assms by (auto simp: withRecord_def split: sum.splits prod.splits)

lemma withRecord_Inl: "withRecord env now eid op mutate db = (Inl e, db') \<Longrightarrow> db' = db"
  by (auto simp: withRecord_def split: sum.splits prod.splits)

text \<open>A step on the projection is a step on the row once it is merged back.\<close>

lemma rec_step_merged:
  assumes "rec_step op r r'" and "op = [] \<Longrightarrow> r = R" and "d_execution r = d_execution R"
    and "d_nextToken r = d_nextToken R" and "table_ok (d_attempts R)" and "table_ok (d_receipts R)"
    and "op \<noteq> [] \<Longrightarrow> d_receipts r = [] \<and> (\<forall>op'. tget (d_attempts r) op' =
       (if op' = op then tget (d_attempts R) op else None)) \<and> table_ok (d_attempts r)"
  shows "rec_step op R (merged r' R)"
    and "attempts_of (merged r' R) op' = (if op = [] \<or> op' = op then attempts_of r' op' else attempts_of R op')"
    and "table_ok (d_attempts r')" and "table_ok (d_receipts r')"
proof -
  have ok: "table_ok (d_attempts r)" "table_ok (d_receipts r)"
    using assms(2,5-7) table_ok_Nil by (metis)+
  show ok': "table_ok (d_attempts r')" "table_ok (d_receipts r')"
    using assms(1) ok by (auto simp: rec_step_def)
  have get: "tget (d_attempts (merged r' R)) k =
      (case tget (d_attempts r') k of Some as \<Rightarrow> Some as | None \<Rightarrow> tget (d_attempts R) k)" for k
    by (simp add: merged_def tget_tmerge [OF ok'(1)])
  have kp: "k \<noteq> op \<Longrightarrow> tget (d_attempts r') k = None \<longleftrightarrow> tget (d_attempts r) k = None"
    and kop: "tget (d_attempts r) op \<noteq> None \<Longrightarrow> tget (d_attempts r') op \<noteq> None" for k
    using assms(1) by (simp_all add: rec_step_def)
  have proj: "op \<noteq> [] \<Longrightarrow> tget (d_attempts r) k = (if k = op then tget (d_attempts R) op else None)" for k
    using assms(7) by blast
  have keys: "tget (d_attempts R) k = None"
    if none: "tget (d_attempts r') k = None" and k: "k = op \<or> op = []" for k
  proof (cases "op = []")
    case True
    from assms(2) [OF True] kp [of k] kop none show ?thesis by metis
  next
    case False
    with k have "k = op" by simp
    with kop none have "tget (d_attempts r) op = None" by metis
    with proj [OF False, of op] \<open>k = op\<close> show ?thesis by simp
  qed
  have other: "k \<noteq> op \<Longrightarrow> op \<noteq> [] \<Longrightarrow> tget (d_attempts r') k = None" for k
    using kp [of k] proj [of k] by simp
  have att: "attempts_of (merged r' R) k = (if op = [] \<or> k = op then attempts_of r' k else attempts_of R k)" for k
    using keys [of k] other [of k] by (auto simp: attempts_of_def get split: option.splits)
  then show "attempts_of (merged r' R) op' = (if op = [] \<or> op' = op then attempts_of r' op' else attempts_of R op')" .
  have attR: "attempts_of r k = attempts_of R k" if "op = [] \<or> k = op" for k
  proof (cases "op = []")
    case True
    from assms(2) [OF True] show ?thesis by simp
  next
    case False
    with that have "k = op" by simp
    with proj [OF False, of op] show ?thesis by (simp add: attempts_of_def)
  qed
  have same: "d_attempts (merged r' R) = d_attempts R"
    if "op = []" "d_attempts r' = d_attempts r"
    using that assms(2) [OF that(1)] tmerge_same [OF assms(5)] by (simp add: merged_def)
  have merged: "d_execution (merged r' R) = d_execution r'" "d_nextToken (merged r' R) = d_nextToken r'"
    "lease_current (merged r' R) = lease_current r'" "lease_current R = lease_current r"
    "table_ok (d_attempts (merged r' R))" "table_ok (d_receipts (merged r' R))"
    using assms(3,4) table_ok_tmerge [OF assms(5)] table_ok_tmerge [OF assms(6)]
    by (auto simp: merged_def lease_current_def split: option.splits)
  have step: "atts_step (attempts_of r k) (attempts_of r' k)"
    "is_terminal r \<Longrightarrow> list_all2 att_step (attempts_of r k) (attempts_of r' k)" for k
    using assms(1) by (simp_all add: rec_step_def)
  have some: "tget (d_attempts (merged r' R)) k = None \<longleftrightarrow> tget (d_attempts R) k = None" if "k \<noteq> op" for k
  proof (cases "op = []")
    case True
    from assms(2) [OF True] kp [OF that] show ?thesis
      by (cases "tget (d_attempts r') k") (auto simp: get)
  next
    case False
    with other [OF that] show ?thesis by (simp add: get)
  qed
  have some_op: "tget (d_attempts (merged r' R)) op \<noteq> None" if "tget (d_attempts R) op \<noteq> None"
    using that by (simp add: get split: option.splits)
  have lists: "atts_step (attempts_of R k) (attempts_of (merged r' R) k)"
    "is_terminal r \<Longrightarrow> list_all2 att_step (attempts_of R k) (attempts_of (merged r' R) k)" for k
    using step [of k] attR [of k] by (cases "op = [] \<or> k = op"; simp add: att)+
  have rest: "ex_ID (d_execution r') = ex_ID (d_execution r)"
    "ex_SpecHash (d_execution r') = ex_SpecHash (d_execution r)"
    "d_nextToken r' = d_nextToken r \<or> d_nextToken r' = u64_inc (d_nextToken r)"
    "lease_current r \<Longrightarrow> lease_current r'"
    "is_terminal r \<Longrightarrow> d_execution r' = d_execution r \<and> d_nextToken r' = d_nextToken r"
    using assms(1) by (simp_all add: rec_step_def)
  have turn: "op = [] \<and> d_attempts (merged r' R) = d_attempts R \<and> \<not> hasUncertainAttempts R"
    if "\<not> is_terminal r" "is_terminal r'"
  proof -
    have t: "op = []" "d_attempts r' = d_attempts r" "\<not> hasUncertainAttempts r"
      using that assms(1) by (simp_all add: rec_step_def)
    with same [OF t(1,2)] assms(2) [OF t(1)] show ?thesis by simp
  qed
  show "rec_step op R (merged r' R)"
    unfolding rec_step_def merged(1-4) assms(3,4) [symmetric]
    using lists some some_op rest turn merged(5,6) by blast
qed

lemma u64_inc_mono: "u64_inc n \<noteq> 0 \<Longrightarrow> n < 2 ^ 64 \<Longrightarrow> u64_inc n = n + 1"
proof (cases "n + 1 = 2 ^ 64")
  case True
  then have "u64_inc n = 0" unfolding u64_inc_def by (metis mod_self)
  then show "u64_inc n \<noteq> 0 \<Longrightarrow> u64_inc n = n + 1" by simp
qed (simp add: u64_inc_less)

lemma u64_inc_bound: "u64_inc n < 2 ^ 64"
  unfolding u64_inc_def by (rule mod_less_divisor) simp

lemma rec_step_token:
  assumes "rec_step op R R'" and "token_fence R'" and "d_nextToken R < 2 ^ 64"
  shows "d_nextToken R \<le> d_nextToken R'" and "d_nextToken R' < 2 ^ 64"
proof -
  have "d_nextToken R' = d_nextToken R \<or> d_nextToken R' = u64_inc (d_nextToken R)"
    using assms(1) by (simp add: rec_step_def)
  moreover have "d_nextToken R' \<noteq> 0" using assms(2) by (simp add: token_fence_def)
  ultimately show "d_nextToken R \<le> d_nextToken R'" "d_nextToken R' < 2 ^ 64"
    using u64_inc_mono [OF _ assms(3)] u64_inc_bound [of "d_nextToken R"] assms(3)
    by (metis le_add1 order_refl)+
qed

lemma merged_frame [simp]:
  "d_execution (merged r' R) = d_execution r'" "d_nextToken (merged r' R) = d_nextToken r'"
  "token_fence (merged r' R) = token_fence r'"
  by (simp_all add: merged_def token_fence_def split: option.split)

lemma valid_parts:
  assumes "validateDurableRecord env r = None"
  shows "(op, as) \<in> set (d_attempts r) \<Longrightarrow>
      \<not> blank op \<and> validateAttempts (ex_ID (d_execution r)) op (d_nextToken r) 0 as = None"
    and "(rid, rr) \<in> set (d_receipts r) \<Longrightarrow> receipt_valid (d_nextToken r) rid rr"
    and "token_fence r" and "validateExecutionHashes env (d_execution r) = None"
  using assms unfolding validateDurableRecord_None by auto

text \<open>The merged row is valid: its own part was validated before the write, the rest under a
  token that has not gone back.\<close>

lemma merged_valid:
  assumes "validateDurableRecord env r' = None" and "validateDurableRecord env R = None"
    and "ex_ID (d_execution r') = ex_ID (d_execution R)" and "d_nextToken R \<le> d_nextToken r'"
    and "table_ok (d_attempts r')" and "table_ok (d_receipts r')"
    and "table_ok (d_attempts R)" and "table_ok (d_receipts R)"
  shows "validateDurableRecord env (merged r' R) = None"
proof -
  let ?eid = "ex_ID (d_execution r')"
  have atts: "\<not> blank op \<and> validateAttempts ?eid op (d_nextToken r') 0 as = None"
    if "(op, as) \<in> set (d_attempts r') \<or> (op, as) \<in> set (d_attempts R)" for op as
    using that valid_parts(1) [OF assms(1)] valid_parts(1) [OF assms(2)]
      validateAttempts_mono [OF _ assms(4)] unfolding assms(3) by blast
  have recs: "receipt_valid (d_nextToken r') rid rr"
    if "(rid, rr) \<in> set (d_receipts r') \<or> (rid, rr) \<in> set (d_receipts R)" for rid rr
    using that valid_parts(2) [OF assms(1)] valid_parts(2) [OF assms(2)]
      receipt_valid_mono [OF _ assms(4)] by blast
  have "(op, as) \<in> set (d_attempts r') \<or> (op, as) \<in> set (d_attempts R)"
    if "(op, as) \<in> set (d_attempts (merged r' R))" for op as
    using that table_ok_tmerge [OF assms(7)] tget_tmerge [OF assms(5)]
      in_set_tget [OF assms(5)] in_set_tget [OF assms(7)]
    by (auto simp: merged_def in_set_tget split: option.splits)
  moreover have "(rid, rr) \<in> set (d_receipts r') \<or> (rid, rr) \<in> set (d_receipts R)"
    if "(rid, rr) \<in> set (d_receipts (merged r' R))" for rid rr
    using that table_ok_tmerge [OF assms(8)] tget_tmerge [OF assms(6)]
      in_set_tget [OF assms(6)] in_set_tget [OF assms(8)]
    by (auto simp: merged_def in_set_tget split: option.splits)
  moreover have "token_fence r'" "validateExecutionHashes env (d_execution r') = None"
    using assms(1) by (simp_all add: validateDurableRecord_None)
  ultimately show ?thesis
    using atts recs unfolding validateDurableRecord_None merged_frame by blast
qed

lemma rec_inv_step:
  assumes "rec_inv env eid R" and "rec_step op R R'" and "validateDurableRecord env R' = None"
  shows "rec_inv env eid R'"
proof -
  have fence: "token_fence R'" using assms(3) by (simp add: validateDurableRecord_None)
  have tok: "d_nextToken R' < 2 ^ 64"
    using rec_step_token(2) [OF assms(2) fence] assms(1) by (simp add: rec_inv_def)
  have ok: "table_ok (d_attempts R')" "table_ok (d_receipts R')" "lease_current R'"
    "ex_ID (d_execution R') = eid"
    using assms(1,2) by (simp_all add: rec_inv_def rec_step_def)
  have "atts_step (attempts_of R op') (attempts_of R' op')" "open_last (attempts_of R op')" for op'
    using assms(1,2) by (simp_all add: rec_inv_def rec_step_def)
  then have last: "open_last (attempts_of R' op')" for op' using atts_step_open_last by metis
  have "settled_record R'" if "is_terminal R'"
  proof (cases "is_terminal R")
    case True
    then have settled: "settled_record R" using assms(1) by (simp add: rec_inv_def)
    have "list_all2 att_step (attempts_of R op') (attempts_of R' op')" for op'
      using assms(2) True by (simp add: rec_step_def)
    then have "attempts_of R' op' = attempts_of R op'" for op'
      using list_all2_frozen settled unfolding settled_record_def by metis
    with settled show ?thesis by (simp add: settled_record_def)
  next
    case False
    with assms(2) that have "d_attempts R' = d_attempts R" "\<not> hasUncertainAttempts R"
      by (simp_all add: rec_step_def)
    then show ?thesis
      using settled_iff [of R] assms(1)
      by (simp add: rec_inv_def settled_record_def attempts_of_def)
  qed
  with ok tok last assms(3) show ?thesis by (simp add: rec_inv_def)
qed

text \<open>The lifting: a command whose closure is a step takes the database to one that differs in
  one row, by a step.\<close>

definition db_step :: "durable_env \<Rightarrow> string \<Rightarrow> durable_db \<Rightarrow> durable_db \<Rightarrow> bool" where
  "db_step env eid db db' \<longleftrightarrow> db' = db \<or>
     (\<exists>R R' op. tget db eid = Some R \<and> db' = tput eid R' db \<and> rec_step op R R' \<and> rec_inv env eid R') \<or>
     (\<exists>R'. tget db eid = None \<and> db' = tput eid R' db \<and> rec_inv env eid R')"

lemma save_Inr:
  assumes "save env r' db = Inr db'" and "tget db eid = Some R" and "ex_ID (d_execution r') = eid"
  shows "db' = tput eid (merged r' R) db" and "validateDurableRecord env r' = None"
  using assms by (auto simp: save_def merged_def Let_def split: option.splits)

lemma merge_step:
  assumes "durable_inv env db" and "tget db eid = Some R" and "rec_step op r r'"
    and "save env r' db = Inr db'" and "op = [] \<Longrightarrow> r = R" and "d_execution r = d_execution R"
    and "d_nextToken r = d_nextToken R"
    and "op \<noteq> [] \<Longrightarrow> d_receipts r = [] \<and> (\<forall>op'. tget (d_attempts r) op' =
       (if op' = op then tget (d_attempts R) op else None)) \<and> table_ok (d_attempts r)"
  shows "db' = tput eid (merged r' R) db \<and> rec_step op R (merged r' R) \<and> rec_inv env eid (merged r' R)"
proof -
  have R: "rec_inv env eid R" using assms(1,2) by (simp add: durable_inv_def)
  then have ok: "table_ok (d_attempts R)" "table_ok (d_receipts R)" and id: "ex_ID (d_execution R) = eid"
    by (simp_all add: rec_inv_def)
  have id': "ex_ID (d_execution r') = eid" using assms(3,6) id by (simp add: rec_step_def)
  note sv = save_Inr [OF assms(4,2) id']
  note m = rec_step_merged [OF assms(3,5-7) ok assms(8)]
  have "token_fence (merged r' R)"
    using sv(2) by (simp add: validateDurableRecord_None)
  from rec_step_token(1) [OF m(1) this] R have "d_nextToken R \<le> d_nextToken r'"
    by (simp add: rec_inv_def)
  then have "validateDurableRecord env (merged r' R) = None"
    using merged_valid [OF sv(2) _ _ _ m(3,4) ok] R id' by (simp add: rec_inv_def)
  with rec_inv_step [OF R m(1)] sv(1) m(1) show ?thesis by blast
qed

lemma withRecord_step:
  assumes "durable_inv env db" and "withRecord env now eid op mutate db = (out, db')"
    and "\<And>r r' v. live_ok r \<Longrightarrow> mutate r = Inr (v, r') \<Longrightarrow> rec_step op r r'"
  shows "db_step env eid db db'"
proof (cases out)
  case (Inl e)
  with withRecord_Inl [of env now eid op mutate db e db'] assms(2) show ?thesis by (simp add: db_step_def)
next
  case (Inr v)
  with assms(2) obtain r r' where run: "loadForMutation env db eid op = Inr r"
    "mutate r = Inr (v, r')" "save env r' db = Inr db'" by (auto elim: withRecord_Inr)
  from run(1) show ?thesis
  proof (rule loadForMutation_Inr)
    fix R assume R: "tget db eid = Some R" "d_execution r = d_execution R"
      "d_nextToken r = d_nextToken R" "validateExecutionHashes env (d_execution R) = None"
      "op = [] \<Longrightarrow> r = R" "op \<noteq> [] \<Longrightarrow> d_receipts r = [] \<and> (\<forall>op'. tget (d_attempts r) op' =
       (if op' = op then tget (d_attempts R) op else None)) \<and> table_ok (d_attempts r)"
    have "live_ok r" using validateExecutionHashes_live [OF R(4)] R(2) by (simp add: live_ok_def)
    from merge_step [OF assms(1) R(1) assms(3) [OF this run(2)] run(3) R(5,2,3,6)] R(1)
    show ?thesis unfolding db_step_def by blast
  qed
qed

lemma db_step_inv: "durable_inv env db \<Longrightarrow> db_step env eid db db' \<Longrightarrow> durable_inv env db'"
  by (auto simp: db_step_def durable_inv_def split: if_splits)

section \<open>Commands and histories\<close>

datatype durable_cmd =
    CStart start_request
  | CResume resume_request
  | CRenew renew_request
  | CCheckpoint checkpoint_request
  | CSuspend suspend_request
  | CFinish finish_request
  | CRelease release_request
  | CStartAttempt attempt_start_request
  | CFinishAttempt attempt_settle_request
  | CMarkUnknown attempt_settle_request
  | CReconcile reconcile_request

definition ignore :: "('e + 'a) \<times> 's \<Rightarrow> ('e + unit) \<times> 's" where
  "ignore p = (map_sum id (\<lambda>_. ()) (fst p), snd p)"

fun run_cmd :: "durable_env \<Rightarrow> time \<Rightarrow> durable_cmd \<Rightarrow> durable_db \<Rightarrow> (derror + unit) \<times> durable_db" where
  "run_cmd env now (CStart q) db = ignore (StartExecution env now q db)"
| "run_cmd env now (CResume q) db = ignore (ResumeExecution env now q db)"
| "run_cmd env now (CRenew q) db = ignore (RenewExecution env now q db)"
| "run_cmd env now (CCheckpoint q) db = ignore (SaveCheckpoint env now q db)"
| "run_cmd env now (CSuspend q) db = ignore (SuspendExecution env now q db)"
| "run_cmd env now (CFinish q) db = ignore (FinishExecution env now q db)"
| "run_cmd env now (CRelease q) db = ignore (ReleaseExecution env now q db)"
| "run_cmd env now (CStartAttempt q) db = ignore (StartAttempt env now q db)"
| "run_cmd env now (CFinishAttempt q) db = ignore (FinishAttempt env now q db)"
| "run_cmd env now (CMarkUnknown q) db = ignore (MarkAttemptUnknown env now q db)"
| "run_cmd env now (CReconcile q) db = ignore (ReconcileAttempt env now q db)"

fun cmd_execution :: "durable_cmd \<Rightarrow> string" where
  "cmd_execution (CStart q) = sreq_ExecutionID q"
| "cmd_execution (CResume q) = rreq_ExecutionID q"
| "cmd_execution (CRenew q) = nreq_ExecutionID q"
| "cmd_execution (CCheckpoint q) = kreq_ExecutionID q"
| "cmd_execution (CSuspend q) = ureq_ExecutionID q"
| "cmd_execution (CFinish q) = freq_ExecutionID q"
| "cmd_execution (CRelease q) = lreq_ExecutionID q"
| "cmd_execution (CStartAttempt q) = areq_ExecutionID q"
| "cmd_execution (CFinishAttempt q) = mreq_ExecutionID q"
| "cmd_execution (CMarkUnknown q) = mreq_ExecutionID q"
| "cmd_execution (CReconcile q) = creq_ExecutionID q"

text \<open>The lease a command acts under; starting, resuming and reconciling need none.\<close>

fun cmd_lease :: "durable_cmd \<Rightarrow> lease_ref option" where
  "cmd_lease (CRenew q) = Some (nreq_Lease q)"
| "cmd_lease (CCheckpoint q) = Some (kreq_Lease q)"
| "cmd_lease (CSuspend q) = Some (ureq_Lease q)"
| "cmd_lease (CFinish q) = Some (freq_Lease q)"
| "cmd_lease (CRelease q) = Some (lreq_Lease q)"
| "cmd_lease (CStartAttempt q) = Some (areq_Lease q)"
| "cmd_lease (CFinishAttempt q) = Some (mreq_Lease q)"
| "cmd_lease (CMarkUnknown q) = Some (mreq_Lease q)"
| "cmd_lease _ = None"

lemma new_execution_inv:
  assumes "validateDurableRecord env (putReceipt rid h 1 resp (new_execution request now)) = None"
  shows "rec_inv env (sreq_ExecutionID request) (putReceipt rid h 1 resp (new_execution request now))"
  using assms
  by (auto simp: rec_inv_def new_execution_def attempts_of_def open_last_def lease_current_def
      putReceipt_def terminal_status_def)

lemma StartExecution_step:
  assumes "durable_inv env db" and "StartExecution env now request db = (out, db')"
  shows "db_step env (sreq_ExecutionID request) db db'"
proof -
  let ?eid = "sreq_ExecutionID request"
  consider (same) "db' = db"
  | (claim) r v r' where "load env db ?eid = Inr r" "\<not> is_terminal r"
      "claimForStart env now request r = Inr (v, r')" "save env r' db = Inr db'"
  | (new) resp where "load env db ?eid = Inl DNotFound"
      "save env (putReceipt (claimReceiptID ''start'' (sreq_ClaimID request))
         (requestHash env (HStart request)) 1 resp (new_execution request now)) db = Inr db'"
    using assms(2)
    by (auto simp: StartExecution_def Let_def new_execution_def
        split: if_splits option.splits sum.splits prod.splits)
  then show ?thesis
  proof cases
    case same
    then show ?thesis by (simp add: db_step_def)
  next
    case claim
    have R: "tget db ?eid = Some r" using claim(1) by (auto simp: load_def split: option.splits if_splits)
    have step: "rec_step [] r r'" using claimForStart_step [OF claim(3,2)] .
    from merge_step [OF assms(1) R step claim(4)] R show ?thesis unfolding db_step_def by blast
  next
    case new
    let ?r = "putReceipt (claimReceiptID ''start'' (sreq_ClaimID request))
         (requestHash env (HStart request)) 1 resp (new_execution request now)"
    have "tget db ?eid = None"
    proof (rule ccontr)
      assume "tget db ?eid \<noteq> None"
      then obtain r where r: "tget db ?eid = Some r" by blast
      then have "rec_inv env ?eid r" using assms(1) by (simp add: durable_inv_def)
      then have "validateDurableRecord env r = None" by (simp add: rec_inv_def)
      with new(1) r valid_parts(3) show False by (simp add: load_def)
    qed
    moreover have "ex_ID (d_execution ?r) = ?eid" by (simp add: new_execution_def)
    ultimately have "db' = tput ?eid ?r db" "validateDurableRecord env ?r = None"
      using new(2) by (auto simp: save_def Let_def split: option.splits)
    with new_execution_inv \<open>tget db ?eid = None\<close> show ?thesis unfolding db_step_def by blast
  qed
qed

lemma guard_step: "db_step env eid db db"
  by (simp add: db_step_def)

lemma run_cmd_step:
  assumes "durable_inv env db" and "run_cmd env now cmd db = (out, db')"
  shows "db_step env (cmd_execution cmd) db db'"
proof -
  note lift = withRecord_step [OF assms(1) surjective_pairing]
  have db': "db' = snd (run_cmd env now cmd db)" using assms(2) by simp
  show ?thesis
  proof (cases cmd)
    case (CStart q)
    then show ?thesis using StartExecution_step [OF assms(1) surjective_pairing] db' by (simp add: ignore_def)
  next
    case (CResume q)
    have "db_step env eid db (snd (withRecord env now eid [] (resume_mut env now q) db))" for eid
      by (rule lift) (erule resume_step)
    with CResume show ?thesis using db'
      by (simp add: ResumeExecution_def ignore_def guard_step)
  next
    case (CRenew q)
    have "db_step env eid db (snd (withRecord env now eid [] (renew_mut env now q) db))" for eid
      by (rule lift) (erule (1) renew_step)
    with CRenew show ?thesis using db'
      by (simp add: RenewExecution_def ignore_def guard_step)
  next
    case (CCheckpoint q)
    have "db_step env eid db (snd (withRecord env now eid [] (checkpoint_mut now q) db))" for eid
      by (rule lift) (erule (1) checkpoint_step)
    with CCheckpoint show ?thesis using db'
      by (simp add: SaveCheckpoint_def ignore_def guard_step split: option.splits)
  next
    case (CSuspend q)
    have "db_step env eid db (snd (withRecord env now eid [] (suspend_mut env now q) db))" for eid
      by (rule lift) (erule (1) suspend_step)
    with CSuspend show ?thesis using db'
      by (simp add: SuspendExecution_def ignore_def guard_step)
  next
    case (CFinish q)
    have "db_step env eid db (snd (withRecord env now eid [] (finish_mut env now q) db))" for eid
      by (rule lift) (erule finish_step)
    with CFinish show ?thesis using db'
      by (simp add: FinishExecution_def ignore_def guard_step split: option.splits)
  next
    case (CRelease q)
    have "db_step env eid db (snd (withRecord env now eid [] (release_mut env q) db))" for eid
      by (rule lift) (erule (1) release_step)
    with CRelease show ?thesis using db'
      by (simp add: ReleaseExecution_def ignore_def guard_step)
  next
    case (CStartAttempt q)
    have "db_step env eid db (snd (withRecord env now eid (areq_OperationID q) (start_attempt_mut now q) db))" for eid
      by (rule lift) (erule (1) start_attempt_step)
    with CStartAttempt show ?thesis using db'
      by (simp add: StartAttempt_def ignore_def guard_step)
  next
    case (CFinishAttempt q)
    have "db_step env eid db (snd (withRecord env now eid (mreq_OperationID q) (finish_attempt_mut now q) db))" for eid
      by (rule lift) (erule finish_attempt_step)
    with CFinishAttempt show ?thesis using db'
      by (simp add: FinishAttempt_def ignore_def guard_step split: option.splits)
  next
    case (CMarkUnknown q)
    have "db_step env eid db (snd (withRecord env now eid (mreq_OperationID q) (mark_unknown_mut now q) db))" for eid
      by (rule lift) (erule mark_unknown_step)
    with CMarkUnknown show ?thesis using db'
      by (simp add: MarkAttemptUnknown_def ignore_def guard_step split: option.splits)
  next
    case (CReconcile q)
    have "db_step env eid db (snd (withRecord env now eid (creq_OperationID q) (reconcile_mut now q) db))"
      if "validateReconcileRequest q = None" for eid
      by (rule lift) (erule reconcile_step [OF _ that])
    with CReconcile show ?thesis using db'
      by (simp add: ReconcileAttempt_def ignore_def guard_step split: option.splits)
  qed
qed

fun durable_step :: "durable_env \<Rightarrow> durable_db \<Rightarrow> time \<times> durable_cmd \<Rightarrow> durable_db" where
  "durable_step env db (now, cmd) = snd (run_cmd env now cmd db)"

interpretation durable_sys: guarded_system "\<lambda>db. db = []" "durable_step env" "durable_inv env" for env
proof
  fix db e
  assume "durable_inv env db"
  then show "durable_inv env (durable_step env db e)"
    using run_cmd_step db_step_inv by (cases e) (metis durable_step.simps prod.collapse)
qed (simp add: durable_inv_def)

end
