(* ===== verification/Durable_Takeover.thy ===== *)
theory Durable_Takeover
  imports Durable_Theorems
begin

text \<open>
  How the ownership of a durable execution moves: a live lease excludes other claims, an expired
  one is taken over under the next token with every effect in flight quarantined as unknown, a
  new effect starts only once the earlier attempts are abandoned, and a repeated request is
  answered from its receipt.
\<close>

section \<open>Validity of a takeover\<close>

lemma valid_regrant:
  assumes "validateExecutionHashes env e = None" and "\<not> terminal_status (ex_Status e)"
    and "\<not> blank (dl_OwnerID l)" and "dl_ClaimID l \<noteq> 0" and "dl_Token l \<noteq> 0"
    and "\<not> IsZero (dl_ExpiresAt l)"
  shows "validateExecutionHashes env (e\<lparr>ex_Status := ExecutionStatusRunning, ex_Lease := Some l\<rparr>) = None"
proof -
  have "ex_Status e = ExecutionStatusRunning \<or> ex_Status e = ExecutionStatusSuspended"
    using assms(1,2)
    by (cases "ex_Status e")
       (auto simp: validateExecutionHashes_def terminal_status_def split: if_splits option.splits)
  with assms show ?thesis
    by (auto simp: validateExecutionHashes_def split: if_splits option.splits)
qed

lemma valid_mark_unknown:
  assumes "validateAttemptPayload a tok = None" and "ea_Version a + 1 < 2 ^ 64"
  shows "validateAttemptPayload (mark_unknown a) tok = None"
  using assms u64_inc_less [OF assms(2)]
  by (auto simp: validateAttemptPayload_def mark_unknown_def split: if_splits option.splits)

lemma valid_reconciled:
  assumes "validateAttempts eid op tok i as = None" and "\<forall>a \<in> set as. ea_Version a + 1 < 2 ^ 64"
  shows "validateAttempts eid op tok i (map (\<lambda>a. if reconciles t a then mark_unknown a else a) as) = None"
  using assms unfolding validateAttempts_None
  by (auto simp: mark_unknown_def [of "as ! j" for j] intro!: valid_mark_unknown [unfolded mark_unknown_def])

lemma set_tput:
  assumes "(k', v') \<in> set (tput k v t)"
  shows "(k', v') = (k, v) \<or> (k', v') \<in> set t"
proof (cases "tget t k")
  case None
  with assms show ?thesis by (auto simp: tput_new)
next
  case (Some u)
  then obtain xs ys where "t = xs @ (k, u) # ys" "tput k v t = xs @ (k, v) # ys"
    using tput_old by metis
  with assms show ?thesis by auto
qed

text \<open>A running attempt of a valid record has a lease, so a claim quarantines all of them.\<close>

lemma reconciles_all:
  "validateAttemptPayload a tok = None \<Longrightarrow> reconciles 0 a \<longleftrightarrow> ea_Status a = AttemptStatusRunning"
  by (auto simp: reconciles_def validateAttemptPayload_def split: if_splits)

lemma valid_attempt:
  assumes "validateDurableRecord env R = None" and "a \<in> set (attempts_of R op)"
  shows "validateAttemptPayload a (d_nextToken R) = None"
proof -
  obtain as where as: "tget (d_attempts R) op = Some as" "a \<in> set as"
    using assms(2) by (cases "tget (d_attempts R) op") (auto simp: attempts_of_def)
  then have "(op, as) \<in> set (d_attempts R)" by (auto simp: tget_def dest: map_of_SomeD)
  with valid_parts(1) [OF assms(1)] as(2) show ?thesis
    unfolding validateAttempts_None by (metis in_set_conv_nth)
qed

lemma regrant_valid:
  assumes "validateDurableRecord env R = None" and "\<not> is_terminal R"
    and "\<not> blank owner" and "claim \<noteq> 0" and "\<not> IsZero expires" and "d_nextToken R + 1 < 2 ^ 64"
    and "\<forall>(op, as) \<in> set (d_attempts R). \<forall>a \<in> set as. ea_Version a + 1 < 2 ^ 64"
    and "h \<noteq> 0" and "fst rid \<noteq> []"
  shows "validateDurableRecord env (putReceipt rid h (d_nextToken R + 1) resp
           (grant_lease owner claim expires (snd (reconcileForClaim R)))) = None" (is "validateDurableRecord env ?r = None")
proof -
  note frame = attempts_reconcileRunning(4-6) [of R 0]
  have r: "d_nextToken ?r = d_nextToken R + 1" "d_attempts ?r = d_attempts (snd (reconcileRunning R 0))"
    "d_execution ?r = (d_execution R)\<lparr>ex_Status := ExecutionStatusRunning, ex_Lease := Some
       \<lparr>dl_OwnerID = owner, dl_ClaimID = claim, dl_Token = d_nextToken R + 1, dl_ExpiresAt = expires\<rparr>\<rparr>"
    using frame u64_inc_less [OF assms(6)] by (simp_all add: grant_lease_def Let_def reconcileForClaim_snd)
  have "\<not> blank op \<and> validateAttempts (ex_ID (d_execution ?r)) op (d_nextToken ?r) 0 as = None"
    if "(op, as) \<in> set (d_attempts ?r)" for op as
  proof -
    from that obtain as0 where as0: "(op, as0) \<in> set (d_attempts R)"
      "as = map (\<lambda>a. if reconciles 0 a then mark_unknown a else a) as0"
      unfolding r by (auto simp: reconcileRunning_def)
    have "\<not> blank op" "validateAttempts (ex_ID (d_execution R)) op (d_nextToken R + 1) 0 as0 = None"
      "\<forall>a \<in> set as0. ea_Version a + 1 < 2 ^ 64"
      using valid_parts(1) [OF assms(1) as0(1)] assms(7) as0(1) by (auto intro: validateAttempts_mono)
    then show ?thesis unfolding r as0(2) using valid_reconciled by simp
  qed
  moreover have "receipt_valid (d_nextToken ?r) rid' rr" if "(rid', rr) \<in> set (d_receipts ?r)" for rid' rr
  proof -
    have "(rid', rr) \<in> set (tput rid \<lparr>rr_requestHash = h, rr_leaseToken = d_nextToken R + 1,
        rr_response = resp\<rparr> (d_receipts R))"
      using that frame(3) by (simp add: putReceipt_def grant_lease_def Let_def reconcileForClaim_snd)
    then consider "rid' = rid" "rr = \<lparr>rr_requestHash = h, rr_leaseToken = d_nextToken R + 1, rr_response = resp\<rparr>"
      | "(rid', rr) \<in> set (d_receipts R)" by (auto dest: set_tput)
    then show ?thesis
    proof cases
      case 1
      with assms(8,9) show ?thesis unfolding r by (simp add: receipt_valid_def)
    next
      case 2
      with valid_parts(2) [OF assms(1) 2] show ?thesis unfolding r by (auto intro: receipt_valid_mono)
    qed
  qed
  moreover have "validateExecutionHashes env (d_execution ?r) = None"
    unfolding r using valid_parts(4) [OF assms(1)] assms(2-5) by (intro valid_regrant) simp_all
  ultimately show ?thesis
    unfolding validateDurableRecord_None using r(1,3) by (auto simp: token_fence_def)
qed

lemma attempt_rows_kept:
  assumes "table_ok (d_attempts r)"
  shows "a \<in> set (concat (map snd (d_attempts r))) \<longleftrightarrow> (\<exists>op. a \<in> set (attempts_of r op))"
proof -
  have "a \<in> set (concat (map snd (d_attempts r))) \<longleftrightarrow> (\<exists>op as. tget (d_attempts r) op = Some as \<and> a \<in> set as)"
    unfolding in_set_tget [OF assms, symmetric] by force
  also have "\<dots> \<longleftrightarrow> (\<exists>op. a \<in> set (attempts_of r op))"
  proof -
    have "(\<exists>as. tget (d_attempts r) op = Some as \<and> a \<in> set as) \<longleftrightarrow> a \<in> set (attempts_of r op)" for op
      by (cases "tget (d_attempts r) op") (simp_all add: attempts_of_def)
    then show ?thesis by simp
  qed
  finally show ?thesis .
qed

lemma reconcileForClaim_fst:
  assumes "table_ok (d_attempts r)"
  shows "set (fst (reconcileForClaim r)) =
    {a. \<exists>op. a \<in> set (attempts_of (snd (reconcileForClaim r)) op) \<and> ea_Status a = AttemptStatusUnknown}"
  using attempt_rows_kept [OF attempts_reconcileRunning(3) [OF assms, of 0]]
  by (auto simp: reconcileForClaim_def case_prod_beta sortAttempts_def)

section \<open>Ownership\<close>

text \<open>C14. While a lease is active, a claim under any other claim id is refused, through start as
  through resume, and nothing changes: an execution has at most one owner.\<close>

theorem durable_exclusive_claim:
  assumes "tget (durable_run env [] hist) eid = Some R"
    and "ex_Lease (d_execution R) = Some l" and "dl_ExpiresAt l > now"
    and "rreq_ExecutionID q = eid" and "rreq_ClaimID q \<noteq> dl_ClaimID l"
    and "sreq_ExecutionID s = eid" and "sreq_ClaimID s \<noteq> dl_ClaimID l"
  shows "(\<exists>e. ResumeExecution env now q (durable_run env [] hist) = (Inl e, durable_run env [] hist)) \<and>
    (\<exists>e. StartExecution env now s (durable_run env [] hist) = (Inl e, durable_run env [] hist))"
proof -
  let ?db = "durable_run env [] hist"
  have inv: "rec_inv env eid R" using durable_run_inv assms(1) unfolding durable_inv_def by blast
  note ld = load_valid [OF inv assms(1)]
  have live: "\<not> is_terminal R"
    using validateExecutionHashes_live [OF valid_parts(4) [OF rec_invD(2) [OF inv]]] assms(2)
    by (auto simp: live_ok_def)
  have act: "leaseActive (ex_Lease (d_execution R)) now"
    "\<not> holds_claim R (rreq_ClaimID q) now" "\<not> holds_claim R (sreq_ClaimID s) now"
    using assms(2,3,5,7) by (auto simp: leaseActive_def holds_claim_def)
  have "\<exists>e. resume_mut env now q R = Inl e" "\<exists>e. claimForStart env now s R = Inl e"
    using live act
    by (auto simp: resume_mut_def claimForStart_def Let_def
        split: option.split receipt_lookup.split response.split)
  with ld live assms(4,6) show ?thesis
    by (auto simp: ResumeExecution_def StartExecution_def withRecord_def loadForMutation_def
        split: option.split)
qed

text \<open>C4. Takeover: when no lease is active, resuming a live execution succeeds; the new lease has
  the next token, every attempt that was running is unknown from then on, no attempt is left
  running, and the caller gets exactly the unknown attempts to reconcile.\<close>

theorem durable_takeover:
  fixes q :: resume_request
  assumes db_def: "db = durable_run env [] hist"
    and "tget db (rreq_ExecutionID q) = Some R"
    and "\<not> terminal_status (ex_Status (d_execution R))"
    and "\<not> leaseActive (ex_Lease (d_execution R)) now"
    and "validExecutionID (rreq_ExecutionID q)"
    and "validLeaseInput (rreq_OwnerID q) (rreq_ClaimID q) (rreq_LeaseTTL q)"
    and "tget (d_receipts R) (claimReceiptID ''resume'' (rreq_ClaimID q)) = None"
    and "requestHash env (HResume q) \<noteq> 0" and "\<not> IsZero (now + rreq_LeaseTTL q)"
    and "d_nextToken R + 1 < 2 ^ 64"
    and "\<forall>(op, as) \<in> set (d_attempts R). \<forall>a \<in> set as. ea_Version a + 1 < 2 ^ 64"
  shows "\<exists>v db' R'. ResumeExecution env now q db = (Inr v, db') \<and>
    tget db' (rreq_ExecutionID q) = Some R' \<and> rm_Execution v = d_execution R' \<and>
    ex_Lease (d_execution R') = Some \<lparr>dl_OwnerID = rreq_OwnerID q, dl_ClaimID = rreq_ClaimID q,
      dl_Token = d_nextToken R + 1, dl_ExpiresAt = now + rreq_LeaseTTL q\<rparr> \<and>
    (\<forall>op. attempts_of R' op =
       map (\<lambda>a. if ea_Status a = AttemptStatusRunning then mark_unknown a else a) (attempts_of R op)) \<and>
    set (rm_Reconcile v) = {a. \<exists>op. a \<in> set (attempts_of R' op) \<and> ea_Status a = AttemptStatusUnknown}"
proof -
  let ?eid = "rreq_ExecutionID q" and ?R1 = "snd (reconcileForClaim R)"
  let ?R2 = "grant_lease (rreq_OwnerID q) (rreq_ClaimID q) (now + rreq_LeaseTTL q) ?R1"
  let ?v = "\<lparr>rm_Execution = d_execution ?R2, rm_Reconcile = fst (reconcileForClaim R)\<rparr>"
  let ?r = "putReceipt (claimReceiptID ''resume'' (rreq_ClaimID q)) (requestHash env (HResume q))
    (d_nextToken R + 1) (RResume ?v) ?R2"
  have inv: "rec_inv env ?eid R" using durable_run_inv assms(2) unfolding durable_inv_def db_def by blast
  have tok: "d_nextToken ?R2 = d_nextToken R + 1"
    using u64_inc_less [OF assms(10)] attempts_reconcileRunning(5) [of R 0]
    by (simp add: grant_lease_def Let_def reconcileForClaim_snd)
  have mut: "resume_mut env now q R = Inr (?v, ?r)"
    using assms(3,4,7) tok by (simp add: resume_mut_def Let_def case_prod_beta)
  have val: "validateDurableRecord env ?r = None"
    using rec_invD(2) [OF inv] assms(3,6,8-11)
    by (intro regrant_valid) (auto simp: validLeaseInput_def claimReceiptID_def)
  note m = rec_step_merged [OF resume_step [OF mut] _ _ _ rec_invD(3) [OF inv] rec_invD(4) [OF inv]]
  have "ex_ID (d_execution ?r) = ?eid"
    using resume_step [OF mut] rec_invD(1) [OF inv] by (simp add: rec_step_def)
  then have "save env ?r db = Inr (tput ?eid (merged ?r R) db)"
    using val assms(2) by (simp add: save_def merged_def)
  then have "ResumeExecution env now q db = (Inr ?v, tput ?eid (merged ?r R) db)"
    using mut load_valid [OF inv assms(2)] assms(5,6)
    by (simp add: ResumeExecution_def withRecord_def loadForMutation_def)
  moreover have "attempts_of (merged ?r R) op = attempts_of ?R1 op" for op
    using m(2) by (simp add: grant_lease_def Let_def)
  moreover have "attempts_of ?R1 op =
      map (\<lambda>a. if ea_Status a = AttemptStatusRunning then mark_unknown a else a) (attempts_of R op)" for op
    using reconciles_all [OF valid_attempt [OF rec_invD(2) [OF inv]]]
    by (simp add: reconcileForClaim_snd attempts_reconcileRunning)
  moreover have "ex_Lease (d_execution ?r) = Some \<lparr>dl_OwnerID = rreq_OwnerID q,
      dl_ClaimID = rreq_ClaimID q, dl_Token = d_nextToken R + 1, dl_ExpiresAt = now + rreq_LeaseTTL q\<rparr>"
    using tok by (simp add: grant_lease_def Let_def)
  moreover have "tget (tput ?eid (merged ?r R) db) ?eid = Some (merged ?r R)" by simp
  ultimately show ?thesis
    using reconcileForClaim_fst [OF rec_invD(3) [OF inv]]
    by (intro exI [of _ ?v] exI [of _ "tput ?eid (merged ?r R) db"] exI [of _ "merged ?r R"]) simp
qed

section \<open>Effects and replays\<close>

text \<open>The row a successful command leaves.\<close>

lemma withRecord_row:
  assumes "durable_inv env db" and "tget db eid = Some R"
    and "withRecord env now eid op mutate db = (Inr v, db')"
    and "\<And>r r' v. live_ok r \<Longrightarrow> mutate r = Inr (v, r') \<Longrightarrow> rec_step op r r'"
  obtains r r' where "mutate r = Inr (v, r')" "db' = tput eid (merged r' R) db"
    "rec_inv env eid (merged r' R)" "attempts_of r op = attempts_of R op"
    "attempts_of (merged r' R) op = attempts_of r' op" "op = [] \<Longrightarrow> r = R"
proof -
  have inv: "rec_inv env eid R" using assms(1,2) by (simp add: durable_inv_def)
  from assms(3) obtain r r' where run: "loadForMutation env db eid op = Inr r"
    "mutate r = Inr (v, r')" "save env r' db = Inr db'" by (rule withRecord_Inr)
  from run(1) show thesis
  proof (rule loadForMutation_Inr)
    fix R1 assume R1: "tget db eid = Some R1" "d_execution r = d_execution R1"
      "d_nextToken r = d_nextToken R1" "validateExecutionHashes env (d_execution R1) = None"
      "op = [] \<Longrightarrow> r = R1" "op \<noteq> [] \<Longrightarrow> d_receipts r = [] \<and> (\<forall>op'. tget (d_attempts r) op' =
       (if op' = op then tget (d_attempts R1) op else None)) \<and> table_ok (d_attempts r)"
    have eq: "R1 = R" using R1(1) assms(2) by simp
    note R = R1 [unfolded eq]
    have "live_ok r" using validateExecutionHashes_live [OF R(4)] R(2) by (simp add: live_ok_def)
    note step = assms(4) [OF this run(2)]
    note m = merge_step [OF assms(1) R(1) step run(3) R(5,2,3,6)]
    show thesis
      using m rec_step_merged(2) [OF step R(5,2,3) rec_invD(3) [OF inv] rec_invD(4) [OF inv] R(6)]
        loadForMutation_attempts [OF run(1) assms(2)] R(5)
      by (intro that [OF run(2)]) simp_all
  qed
qed

text \<open>A command that changes nothing leaves the table as it is.\<close>

lemma withRecord_stable:
  assumes "rec_inv env eid R" and "tget db eid = Some R" and "mutate R = Inr (v, R)"
  shows "withRecord env now eid [] mutate db = (Inr v, db)"
  using assms load_valid [OF assms(1,2)] rec_invD(1-4) [OF assms(1)]
  by (simp add: withRecord_def loadForMutation_def save_def tmerge_same tput_same)

text \<open>Starting an operation tells the caller to execute it only as a running attempt under the
  caller's own lease after every earlier attempt was abandoned; it replays only a recorded
  outcome; an attempt whose outcome is open must be reconciled. The answer is what is stored.\<close>

theorem durable_start_attempt:
  assumes "tget (durable_run env [] hist) (areq_ExecutionID q) = Some R"
    and "StartAttempt env now q (durable_run env [] hist) = (Inr v, db')"
  shows "\<exists>R'. tget db' (areq_ExecutionID q) = Some R' \<and>
    attempts_of R' (areq_OperationID q) \<noteq> [] \<and>
    last (attempts_of R' (areq_OperationID q)) = asr_Attempt v \<and>
    (\<forall>a \<in> set (butlast (attempts_of R' (areq_OperationID q))). ea_Status a = AttemptStatusAbandoned) \<and>
    ea_Kind (asr_Attempt v) = areq_Kind q \<and> ea_InputHash (asr_Attempt v) = areq_InputHash q \<and>
    (case asr_Decision v of
       AttemptDecisionExecute \<Rightarrow> ea_Status (asr_Attempt v) = AttemptStatusRunning \<and>
         ea_Lease (asr_Attempt v) = Some (areq_Lease q)
     | AttemptDecisionReplay \<Rightarrow> settled_status (ea_Status (asr_Attempt v)) \<and>
         attempts_of R' (areq_OperationID q) = attempts_of R (areq_OperationID q)
     | AttemptDecisionReconcile \<Rightarrow> ea_Status (asr_Attempt v) = AttemptStatusUnknown)"
proof -
  let ?eid = "areq_ExecutionID q" and ?op = "areq_OperationID q" and ?db = "durable_run env [] hist"
  have "withRecord env now ?eid ?op (start_attempt_mut now q) ?db = (Inr v, db')"
    using assms(2) by (simp add: StartAttempt_def split: if_splits)
  with durable_run_inv assms(1) obtain r r' where row: "start_attempt_mut now q r = Inr (v, r')"
    "db' = tput ?eid (merged r' R) ?db" "rec_inv env ?eid (merged r' R)"
    "attempts_of r ?op = attempts_of R ?op" "attempts_of (merged r' R) ?op = attempts_of r' ?op"
    by (rule withRecord_row) (erule (1) start_attempt_step)
  have "open_last (attempts_of r' ?op)" using rec_invD(8) [OF row(3), of ?op] row(5) by simp
  moreover have "attempts_of (set_attempts ?op as r) ?op = as" for as
    by (simp add: set_attempts_def attempts_of_def)
  ultimately show ?thesis
    using row(1,4,5) row(2)
    by (auto simp: start_attempt_mut_def Let_def open_last_def newAttempt_def mark_unknown_def settled_status_def
        split: option.splits if_splits effect_status.splits)
qed

text \<open>Finishing is idempotent: a repeated finish request, at any later time of the clock, returns
  the execution the first one returned and changes nothing.\<close>

theorem durable_finish_replay:
  assumes "FinishExecution env now q (durable_run env [] hist) = (Inr e, db')"
  shows "FinishExecution env now' q db' = (Inr e, db')"
proof -
  let ?eid = "freq_ExecutionID q" and ?db = "durable_run env [] hist"
  let ?rid = "leaseReceiptID env ''finish'' (freq_Lease q)
    (ResultSuffix (freq_ExpectedVersion q) (freq_ResultHash q))"
  have guard: "valid_lease_ref ?eid (freq_Lease q)" "HashResult env (freq_Result q) = Some (freq_ResultHash q)"
    and run: "withRecord env now ?eid [] (finish_mut env now q) ?db = (Inr e, db')"
    using assms by (auto simp: FinishExecution_def split: if_splits option.splits)
  obtain R where R: "tget ?db ?eid = Some R"
    using withRecord_Inr [OF run] loadForMutation_Inr by metis
  have "\<exists>r'. finish_mut env now q R = Inr (e, r') \<and> db' = tput ?eid (merged r' R) ?db \<and>
      rec_inv env ?eid (merged r' R)"
    by (rule withRecord_row [OF durable_run_inv R run]) (erule finish_step, auto)
  then obtain r' where row: "finish_mut env now q R = Inr (e, r')" "db' = tput ?eid (merged r' R) ?db"
    "rec_inv env ?eid (merged r' R)" by blast
  have inv: "rec_inv env ?eid R" using durable_run_inv R unfolding durable_inv_def by blast
  have "\<exists>rr. tget (d_receipts r') ?rid = Some rr \<and> rr_requestHash rr = requestHash env (HFinish q) \<and>
      rr_response rr = RExecution e" "table_ok (d_receipts r')"
    "d_nextToken r' = d_nextToken R" "\<not> d_nextToken R > ref_Token (freq_Lease q)"
    using row(1) rec_invD(4) [OF inv]
    by (auto simp: finish_mut_def Let_def getReceipt_def putReceipt_def
        split: if_splits option.splits receipt_lookup.splits response.splits)
  then have mut: "finish_mut env now' q (merged r' R) = Inr (e, merged r' R)"
    by (auto simp: finish_mut_def Let_def getReceipt_def merged_def tget_tmerge)
  have "tget db' ?eid = Some (merged r' R)" using row(2) by simp
  from withRecord_stable [of env ?eid _ db' "finish_mut env now' q", OF row(3) this mut] guard show ?thesis by (simp add: FinishExecution_def)
qed

section \<open>A renewal after expiry\<close>

text \<open>A renewal whose receipt exists is answered from the receipt even when the lease has
  expired: the caller gets the first expiry, in the past, as a success, and the stored record is
  unchanged; without the receipt the same request is refused as a lost lease.\<close>

theorem renew_replays_expired_lease:
  assumes db_def: "db = durable_run env [] hist" and "tget db (nreq_ExecutionID q) = Some R"
    and "validExecutionID (nreq_ExecutionID q)" and "ref_OwnerID (nreq_Lease q) \<noteq> []"
    and "ref_Token (nreq_Lease q) = d_nextToken R" and "nreq_LeaseTTL q > 0"
    and "\<not> leaseActive (ex_Lease (d_execution R)) now"
  shows "(\<forall>l. getReceipt R (leaseReceiptID env ''renew'' (nreq_Lease q) NoSuffix)
             (requestHash env (HRenew q)) = ReceiptFound (RLease l) \<longrightarrow>
           RenewExecution env now q db = (Inr l, db)) \<and>
    (getReceipt R (leaseReceiptID env ''renew'' (nreq_Lease q) NoSuffix)
             (requestHash env (HRenew q)) = NoReceipt \<longrightarrow>
           RenewExecution env now q db = (Inl DLeaseLost, db))"
proof (intro conjI allI impI)
  have inv: "rec_inv env (nreq_ExecutionID q) R"
    using durable_run_inv assms(2) unfolding durable_inv_def db_def by blast
  have "d_nextToken R \<noteq> 0"
    using valid_parts(3) [OF rec_invD(2) [OF inv]] by (simp add: token_fence_def)
  then have guard: "RenewExecution env now q db =
      withRecord env now (nreq_ExecutionID q) [] (renew_mut env now q) db"
    using assms(3-6) by (simp add: RenewExecution_def)
  {
    fix l assume "getReceipt R (leaseReceiptID env ''renew'' (nreq_Lease q) NoSuffix)
      (requestHash env (HRenew q)) = ReceiptFound (RLease l)"
    then have "renew_mut env now q R = Inr (l, R)" using assms(5,7) by (simp add: renew_mut_def)
    then show "RenewExecution env now q db = (Inr l, db)"
      unfolding guard by (rule withRecord_stable [OF inv assms(2)])
  next
    assume "getReceipt R (leaseReceiptID env ''renew'' (nreq_Lease q) NoSuffix)
      (requestHash env (HRenew q)) = NoReceipt"
    then have "renew_mut env now q R = Inl DLeaseLost"
      using assms(5,7) by (simp add: renew_mut_def requireActiveLease_def)
    with load_valid [OF inv assms(2)] show "RenewExecution env now q db = (Inl DLeaseLost, db)"
      unfolding guard by (simp add: withRecord_def loadForMutation_def)
  }
qed

end
