(* ===== verification/Durable_Witnesses.thy ===== *)
theory Durable_Witnesses
  imports Durable_Takeover
begin

text \<open>
  Concrete histories of the durable backend: an owner starts an execution and an effect, a second
  owner takes over after the lease expired, an effect and an execution are finished. The theorems
  on the backend are applied to them.
\<close>

section \<open>A concrete environment and its requests\<close>

definition ex_env :: durable_env where
  "ex_env = \<lparr>HashExecutionSpec = (\<lambda>_. Some 7), HashResult = (\<lambda>_. Some 9),
     ValidateCheckpoint = (\<lambda>_. None), requestHash = (\<lambda>_. 5), ownerDigest = (\<lambda>_. 3)\<rparr>"

definition ex_lease :: lease_ref where
  "ex_lease = \<lparr>ref_OwnerID = ''o1'', ref_Token = 1\<rparr>"

definition ex_start :: start_request where
  "ex_start = \<lparr>sreq_ExecutionID = ''e1'', sreq_Spec = ''s'', sreq_SpecHash = 7,
     sreq_OwnerID = ''o1'', sreq_ClaimID = 11, sreq_LeaseTTL = 10\<rparr>"

definition ex_attempt :: attempt_start_request where
  "ex_attempt = \<lparr>areq_ExecutionID = ''e1'', areq_Lease = ex_lease, areq_OperationID = ''op'',
     areq_Kind = AttemptKindTool, areq_InputHash = 4\<rparr>"

definition ex_settle :: attempt_settle_request where
  "ex_settle = \<lparr>mreq_ExecutionID = ''e1'', mreq_Lease = ex_lease, mreq_OperationID = ''op'',
     mreq_AttemptNumber = 1, mreq_ExpectedAttemptVersion = 1, mreq_Payload = ''p'', mreq_Failure = None\<rparr>"

definition ex_resume :: resume_request where
  "ex_resume = \<lparr>rreq_ExecutionID = ''e1'', rreq_OwnerID = ''o2'', rreq_ClaimID = 12, rreq_LeaseTTL = 10\<rparr>"

definition ex_finish :: finish_request where
  "ex_finish = \<lparr>freq_ExecutionID = ''e1'', freq_Lease = ex_lease, freq_ExpectedVersion = 1,
     freq_Result = \<lparr>dr_Body = ''r'', dr_Failure = None\<rparr>, freq_ResultHash = 9\<rparr>"

definition ex_renew :: renew_request where
  "ex_renew = \<lparr>nreq_ExecutionID = ''e1'', nreq_Lease = ex_lease, nreq_LeaseTTL = 10\<rparr>"

definition hist_running :: "(time \<times> durable_cmd) list" where
  "hist_running = [(100, CStart ex_start), (101, CStartAttempt ex_attempt)]"

definition hist_taken :: "(time \<times> durable_cmd) list" where
  "hist_taken = hist_running @ [(200, CResume ex_resume)]"

definition hist_settled :: "(time \<times> durable_cmd) list" where
  "hist_settled = hist_running @ [(102, CFinishAttempt ex_settle)]"

definition hist_finished :: "(time \<times> durable_cmd) list" where
  "hist_finished = hist_settled @ [(103, CFinish ex_finish)]"

definition hist_renewed :: "(time \<times> durable_cmd) list" where
  "hist_renewed = [(100, CStart ex_start), (101, CRenew ex_renew)]"

definition ex_row :: "(time \<times> durable_cmd) list \<Rightarrow> durable_record" where
  "ex_row hist = the (tget (durable_run ex_env [] hist) ''e1'')"

lemma ex_not_blank: "\<not> blank ''e1''" "\<not> blank ''o1''" "\<not> blank ''o2''" "\<not> blank ''op''"
  by code_simp+

text \<open>The definitions a concrete history runs through, for the simplifier.\<close>

lemmas durable_eval = durable_run_def ignore_def Let_def validExecutionID_def validLeaseInput_def load_def
  loadForMutation_def withRecord_def new_execution_def save_def tmerge_def validateDurableRecord_def
  validateExecutionHashes_def validateAttemptPayload_def token_fence_def putReceipt_def getReceipt_def
  claimReceiptID_def leaseReceiptID_def terminal_status_def zeroHash_def valid_lease_ref_def
  requireActiveLease_def leaseMatches_def leaseActive_def holds_claim_def attempts_of_def
  StartExecution_def ResumeExecution_def RenewExecution_def FinishExecution_def StartAttempt_def
  FinishAttempt_def claimForStart_def resume_mut_def renew_mut_def finish_mut_def start_attempt_mut_def
  finish_attempt_mut_def set_expiry_def grant_lease_def reconcileForClaim_def reconcileRunning_def
  reconciles_def mark_unknown_def sortAttempts_def hasUncertainAttempts_def newAttempt_def set_attempts_def
  attemptByNumber_def validateAttemptMutation_def validateAttemptIdentity_def settle_def settled_status_def
  replace_attempt_def tput_def tget_def u64_inc_def IsZero_def
  ex_env_def ex_lease_def ex_start_def ex_attempt_def ex_settle_def ex_resume_def ex_finish_def ex_renew_def
  hist_running_def hist_taken_def hist_settled_def hist_finished_def hist_renewed_def ex_row_def ex_not_blank

lemma ex_rows:
  "tget (durable_run ex_env [] hist_running) ''e1'' = Some (ex_row hist_running)"
  "tget (durable_run ex_env [] hist_taken) ''e1'' = Some (ex_row hist_taken)"
  "tget (durable_run ex_env [] hist_settled) ''e1'' = Some (ex_row hist_settled)"
  "tget (durable_run ex_env [] hist_finished) ''e1'' = Some (ex_row hist_finished)"
  "tget (durable_run ex_env [] hist_renewed) ''e1'' = Some (ex_row hist_renewed)"
  by (simp_all add: durable_eval)

lemma ex_states:
  "d_nextToken (ex_row hist_taken) = 2"
  "ex_Status (d_execution (ex_row hist_finished)) = ExecutionStatusCompleted"
  "map ea_Status (attempts_of (ex_row hist_settled) ''op'') = [AttemptStatusSucceeded]"
  "map ea_Status (attempts_of (ex_row hist_taken) ''op'') = [AttemptStatusUnknown]"
  by (simp_all add: durable_eval)

section \<open>The theorems at these histories\<close>

theorem durable_reachable_valid_witness:
  "load ex_env (durable_run ex_env [] hist_finished) ''e1'' = Inr (ex_row hist_finished) \<and>
   terminal_status (ex_Status (d_execution (ex_row hist_finished))) \<and>
   \<not> hasUncertainAttempts (ex_row hist_finished)"
  using durable_reachable_valid [OF ex_rows(4)] ex_states(2) by (simp add: terminal_status_def)

theorem durable_fencing_witness:
  "\<exists>e. run_cmd ex_env 201 (CFinishAttempt ex_settle) (durable_run ex_env [] hist_taken) =
     (Inl e, durable_run ex_env [] hist_taken)"
  using durable_fencing [of ex_env hist_taken "CFinishAttempt ex_settle" "ex_row hist_taken" ex_lease 201 "[]"]
    ex_rows(2) ex_states(1)
  by (simp add: ex_settle_def ex_lease_def)

theorem durable_terminal_frozen_witness:
  "\<exists>R'. tget (durable_run ex_env [] (hist_finished @ [(300, CResume ex_resume)])) ''e1'' = Some R' \<and>
     ex_Status (d_execution R') = ExecutionStatusCompleted"
  using durable_terminal_frozen [OF ex_rows(4), of "[(300, CResume ex_resume)]"] ex_states(2)
  by (auto simp: terminal_status_def)

theorem durable_outcome_immutable_witness:
  "\<exists>R'. tget (durable_run ex_env [] (hist_settled @ [(300, CResume ex_resume)])) ''e1'' = Some R' \<and>
     attempts_of R' ''op'' ! 0 = attempts_of (ex_row hist_settled) ''op'' ! 0"
  using durable_outcome_immutable [OF ex_rows(3), of 0 "''op''" "[(300, CResume ex_resume)]"] ex_states(3)
  by (auto simp: map_eq_Cons_conv)

theorem durable_effect_once_witness:
  "case StartAttempt ex_env 103 ex_attempt (durable_run ex_env [] (hist_settled @ [(102, CRenew ex_renew)])) of
      (Inl _, db') \<Rightarrow> db' = durable_run ex_env [] (hist_settled @ [(102, CRenew ex_renew)])
    | (Inr v, db') \<Rightarrow> v = \<lparr>asr_Attempt = last (attempts_of (ex_row hist_settled) ''op''),
                         asr_Decision = AttemptDecisionReplay\<rparr>"
proof -
  have fields: "areq_ExecutionID ex_attempt = ''e1''" "areq_OperationID ex_attempt = ''op''"
    by (simp_all add: ex_attempt_def)
  have "attempts_of (ex_row hist_settled) ''op'' \<noteq> []"
    "settled_status (ea_Status (last (attempts_of (ex_row hist_settled) ''op'')))"
    using ex_states(3) by (auto simp: settled_status_def map_eq_Cons_conv)
  then show ?thesis
    using durable_effect_once [of ex_env hist_settled ex_attempt "ex_row hist_settled"] ex_rows(3)
    unfolding fields by presburger
qed

theorem durable_exclusive_claim_witness:
  "(\<exists>e. ResumeExecution ex_env 105 ex_resume (durable_run ex_env [] hist_running) =
      (Inl e, durable_run ex_env [] hist_running)) \<and>
   (\<exists>e. StartExecution ex_env 105 (ex_start\<lparr>sreq_ClaimID := 13\<rparr>) (durable_run ex_env [] hist_running) =
      (Inl e, durable_run ex_env [] hist_running))"
proof (rule durable_exclusive_claim [OF ex_rows(1)])
  show "ex_Lease (d_execution (ex_row hist_running)) =
      Some \<lparr>dl_OwnerID = ''o1'', dl_ClaimID = 11, dl_Token = 1, dl_ExpiresAt = 110\<rparr>"
    by (simp add: durable_eval)
qed (simp_all add: ex_resume_def ex_start_def)

theorem durable_takeover_witness:
  "\<exists>v db' R'. ResumeExecution ex_env 200 ex_resume (durable_run ex_env [] hist_running) = (Inr v, db') \<and>
     tget db' ''e1'' = Some R' \<and> rm_Reconcile v \<noteq> []"
proof -
  from durable_takeover [OF refl, of ex_env hist_running ex_resume "ex_row hist_running" 200] ex_rows(1)
  have "\<exists>v db' R'. ResumeExecution ex_env 200 ex_resume (durable_run ex_env [] hist_running) = (Inr v, db') \<and>
     tget db' ''e1'' = Some R' \<and> (\<forall>op. attempts_of R' op = map (\<lambda>a. if ea_Status a = AttemptStatusRunning
       then mark_unknown a else a) (attempts_of (ex_row hist_running) op)) \<and>
     set (rm_Reconcile v) = {a. \<exists>op. a \<in> set (attempts_of R' op) \<and> ea_Status a = AttemptStatusUnknown}"
    by (simp add: durable_eval)
  then obtain v db' R' where run: "ResumeExecution ex_env 200 ex_resume (durable_run ex_env [] hist_running) = (Inr v, db')"
    "tget db' ''e1'' = Some R'" "attempts_of R' ''op'' = map (\<lambda>a. if ea_Status a = AttemptStatusRunning
       then mark_unknown a else a) (attempts_of (ex_row hist_running) ''op'')"
     "set (rm_Reconcile v) = {a. \<exists>op. a \<in> set (attempts_of R' op) \<and> ea_Status a = AttemptStatusUnknown}"
    by blast
  have "map ea_Status (attempts_of (ex_row hist_running) ''op'') = [AttemptStatusRunning]"
    by (simp add: durable_eval)
  then obtain a where a: "attempts_of R' ''op'' = [mark_unknown a]" using run(3) by auto
  have "mark_unknown a \<in> set (attempts_of R' ''op'')" "ea_Status (mark_unknown a) = AttemptStatusUnknown"
    by (simp_all only: a) (simp_all add: mark_unknown_def)
  then have "mark_unknown a \<in> set (rm_Reconcile v)" unfolding run(4) by blast
  with run(1,2) show ?thesis by auto
qed

theorem durable_start_attempt_witness:
  "StartAttempt ex_env 103 ex_attempt (durable_run ex_env [] hist_settled) =
     (Inr \<lparr>asr_Attempt = last (attempts_of (ex_row hist_settled) ''op''), asr_Decision = AttemptDecisionReplay\<rparr>,
      durable_run ex_env [] hist_settled) \<and>
   settled_status (ea_Status (last (attempts_of (ex_row hist_settled) ''op'')))"
proof -
  have run: "StartAttempt ex_env 103 ex_attempt (durable_run ex_env [] hist_settled) =
     (Inr \<lparr>asr_Attempt = last (attempts_of (ex_row hist_settled) ''op''), asr_Decision = AttemptDecisionReplay\<rparr>,
      durable_run ex_env [] hist_settled)"
    by (simp add: durable_eval)
  with durable_start_attempt [OF _ run] ex_rows(3) show ?thesis by (auto simp: ex_attempt_def)
qed

theorem durable_finish_replay_witness:
  "\<exists>e. FinishExecution ex_env 103 ex_finish (durable_run ex_env [] hist_settled) =
         (Inr e, durable_run ex_env [] hist_finished) \<and>
       FinishExecution ex_env 900 ex_finish (durable_run ex_env [] hist_finished) =
         (Inr e, durable_run ex_env [] hist_finished)"
proof -
  have "FinishExecution ex_env 103 ex_finish (durable_run ex_env [] hist_settled) =
         (Inr (d_execution (ex_row hist_finished)), durable_run ex_env [] hist_finished)"
    by (simp add: durable_eval)
  with durable_finish_replay [OF this] show ?thesis by blast
qed

theorem renew_replays_expired_lease_witness:
  "\<exists>l. RenewExecution ex_env 500 ex_renew (durable_run ex_env [] hist_renewed) =
     (Inr l, durable_run ex_env [] hist_renewed) \<and> dl_ExpiresAt l = 111"
  using renew_replays_expired_lease [OF refl, of ex_env hist_renewed ex_renew "ex_row hist_renewed" 500]
    ex_rows(5) by (simp add: durable_eval)

end
