(* ===== verification/Event_Hub.thy ===== *)
theory Event_Hub
  imports Store_Interfaces
begin

text \<open>
  The event hub of the desktop daemon, \<^verbatim>\<open>internal/desktopipc/event_hub.go\<close>: a numbered
  replay log of bounded size, and one bounded, coalescing queue per connected client.

  Every method of \<^verbatim>\<open>EventHub\<close> and of \<^verbatim>\<open>clientEventQueue\<close> runs under its mutex, so
  a method is one step. The goroutine \<^verbatim>\<open>pump\<close> is the step \<open>pump_step\<close>: one
  \<^verbatim>\<open>dequeue\<close> followed by the send on the client's channel; \<open>cq_sent\<close> is what was sent so
  far. The signalling channels \<^verbatim>\<open>notify\<close> and \<^verbatim>\<open>done\<close> carry no data and are not
  modelled. Byte counters are integers, sequence numbers and client ids are \<^verbatim>\<open>uint64\<close>.
\<close>

section \<open>Data\<close>

datatype channel =
  ChannelRuntime | ChannelPullRequest | ChannelTerminal | ChannelDaemon | ChannelOther string

record binary_metadata =
  bm_TransferID :: string
  bm_Purpose :: string
  bm_Channel :: channel
  bm_Sequence :: nat
  bm_Name :: string
  bm_MediaType :: string
  bm_ByteLength :: int
  bm_SHA256 :: string
  bm_Index :: int
  bm_Count :: int

record event_record =
  ev_Sequence :: nat
  ev_Channel :: channel
  ev_Payload :: string
  ev_Binary :: "binary_metadata option"
  ev_Data :: string
  ev_ReplaceKey :: string
  ev_Lossless :: bool
  ev_bytes :: int

record replay_result =
  rp_Events :: "event_record list"
  rp_CurrentSequence :: nat
  rp_ResyncRequired :: bool

record client_queue =
  cq_buffer :: int
  cq_bytes :: int
  cq_maxBytes :: int
  cq_closed :: bool
  cq_resync :: bool
  cq_pending :: "event_record list"
  cq_replaceAt :: "(string, nat) table"
  cq_sent :: "event_record list"

record event_hub =
  hub_sequence :: nat
  hub_replayBytes :: int
  hub_maxReplayBytes :: int
  hub_maxClientBytes :: int
  hub_replay :: "event_record list"
  hub_replayHead :: nat
  hub_nextClient :: nat
  hub_clients :: "(nat, client_queue) table"

definition DefaultReplayBytes :: int where "DefaultReplayBytes = 67108864"
definition DefaultClientQueueBytes :: int where "DefaultClientQueueBytes = 8388608"

text \<open>\<^verbatim>\<open>EventRecord{}\<close>, the value of an evicted slot.\<close>

definition zero_event :: event_record where
  "zero_event = \<lparr>ev_Sequence = 0, ev_Channel = ChannelOther [], ev_Payload = [], ev_Binary = None,
     ev_Data = [], ev_ReplaceKey = [], ev_Lossless = False, ev_bytes = 0\<rparr>"

definition NewEventHub :: "int \<Rightarrow> int \<Rightarrow> event_hub" where
  "NewEventHub maxReplayBytes maxClientBytes =
     \<lparr>hub_sequence = 0, hub_replayBytes = 0,
      hub_maxReplayBytes = (if maxReplayBytes \<le> 0 then DefaultReplayBytes else maxReplayBytes),
      hub_maxClientBytes = (if maxClientBytes \<le> 0 then DefaultClientQueueBytes else maxClientBytes),
      hub_replay = [], hub_replayHead = 0, hub_nextClient = 0, hub_clients = []\<rparr>"

section \<open>Client queues\<close>

text \<open>A record that a newer one with the same key replaces.\<close>

definition keyed :: "event_record \<Rightarrow> bool" where
  "keyed record \<longleftrightarrow> ev_ReplaceKey record \<noteq> [] \<and> \<not> ev_Lossless record"

fun rebuild_from :: "nat \<Rightarrow> event_record list \<Rightarrow> (string, nat) table \<Rightarrow> (string, nat) table" where
  "rebuild_from i [] t = t"
| "rebuild_from i (r # rs) t = rebuild_from (i + 1) rs (if keyed r then tput (ev_ReplaceKey r) i t else t)"

definition rebuildReplaceIndexes :: "client_queue \<Rightarrow> client_queue" where
  "rebuildReplaceIndexes c = c\<lparr>cq_replaceAt := rebuild_from 0 (cq_pending c) []\<rparr>"

definition drop_replaced :: "event_record \<Rightarrow> client_queue \<Rightarrow> client_queue" where
  "drop_replaced record c =
     (if keyed record then
        (case tget (cq_replaceAt c) (ev_ReplaceKey record) of
           None \<Rightarrow> c
         | Some index \<Rightarrow>
             if index < length (cq_pending c)
             then rebuildReplaceIndexes
                    (c\<lparr>cq_bytes := cq_bytes c - ev_bytes (cq_pending c ! index),
                       cq_pending := take index (cq_pending c) @ drop (Suc index) (cq_pending c)\<rparr>)
             else c)
      else c)"

definition enqueue :: "event_record \<Rightarrow> client_queue \<Rightarrow> client_queue" where
  "enqueue record c =
     (if cq_closed c then c
      else
        let c1 = drop_replaced record c
        in if cq_bytes c1 + ev_bytes record > cq_maxBytes c1
           then c1\<lparr>cq_pending := [], cq_replaceAt := [], cq_bytes := 0, cq_resync := True\<rparr>
           else
             c1\<lparr>cq_pending := cq_pending c1 @ [record],
                cq_bytes := cq_bytes c1 + ev_bytes record,
                cq_replaceAt := (if keyed record
                                 then tput (ev_ReplaceKey record) (length (cq_pending c1)) (cq_replaceAt c1)
                                 else cq_replaceAt c1)\<rparr>)"

text \<open>The notice \<^verbatim>\<open>{"reason":"client_queue_overflow"}\<close> carries no sequence number.\<close>

definition overflow_payload :: string where
  "overflow_payload = [CHR ''{'', CHR 0x22] @ ''reason'' @ [CHR 0x22, CHR '':'', CHR 0x22] @
     ''client_queue_overflow'' @ [CHR 0x22, CHR ''}'']"

definition overflow_notice :: event_record where
  "overflow_notice = zero_event\<lparr>ev_Channel := ChannelDaemon, ev_Payload := overflow_payload,
     ev_Lossless := True, ev_bytes := int (length overflow_payload)\<rparr>"

definition dequeue :: "client_queue \<Rightarrow> event_record option \<times> client_queue" where
  "dequeue c =
     (if cq_closed c then (None, c)
      else if cq_resync c then (Some overflow_notice, c\<lparr>cq_resync := False\<rparr>)
      else case cq_pending c of
        [] \<Rightarrow> (None, c)
      | record # rest \<Rightarrow>
          (Some record, rebuildReplaceIndexes
             (c\<lparr>cq_pending := rest, cq_bytes := cq_bytes c - ev_bytes record\<rparr>)))"

definition pump_step :: "client_queue \<Rightarrow> client_queue" where
  "pump_step c =
     (case dequeue c of
        (None, c') \<Rightarrow> c'
      | (Some record, c') \<Rightarrow> c'\<lparr>cq_sent := cq_sent c' @ [record]\<rparr>)"

definition close_client :: "client_queue \<Rightarrow> client_queue" where
  "close_client c = c\<lparr>cq_closed := True\<rparr>"

section \<open>Publishing\<close>

text \<open>The eviction loop.\<close>

function evict :: "event_hub \<Rightarrow> event_hub" where
  "evict hub =
     (if hub_replayBytes hub > hub_maxReplayBytes hub \<and> hub_replayHead hub < length (hub_replay hub)
      then evict (hub\<lparr>hub_replayBytes := hub_replayBytes hub - ev_bytes (hub_replay hub ! hub_replayHead hub),
                      hub_replay := (hub_replay hub)[hub_replayHead hub := zero_event],
                      hub_replayHead := hub_replayHead hub + 1\<rparr>)
      else hub)"
  by pat_completeness auto

termination
  by (relation "measure (\<lambda>hub. length (hub_replay hub) - hub_replayHead hub)") auto

declare evict.simps [simp del]

definition compact :: "event_hub \<Rightarrow> event_hub" where
  "compact hub =
     (if hub_replayHead hub > 4096 \<and> hub_replayHead hub * 2 \<ge> length (hub_replay hub)
      then hub\<lparr>hub_replay := drop (hub_replayHead hub) (hub_replay hub), hub_replayHead := 0\<rparr>
      else hub)"

definition number :: "nat \<Rightarrow> event_record \<Rightarrow> event_record" where
  "number n record = record\<lparr>ev_Sequence := n,
     ev_Binary := map_option (\<lambda>m. m\<lparr>bm_Sequence := n\<rparr>) (ev_Binary record)\<rparr>"

definition publishRecord :: "event_record \<Rightarrow> event_hub \<Rightarrow> nat \<times> event_hub" where
  "publishRecord record hub =
     (let n = u64_inc (hub_sequence hub);
          r = number n record;
          hub1 = compact (evict (hub\<lparr>hub_sequence := n, hub_replay := hub_replay hub @ [r],
                   hub_replayBytes := hub_replayBytes hub + ev_bytes r\<rparr>))
      in (n, hub1\<lparr>hub_clients := map (\<lambda>(cid, c). (cid, enqueue r c)) (hub_clients hub1)\<rparr>))"

definition json_record :: "channel \<Rightarrow> string \<Rightarrow> string \<Rightarrow> bool \<Rightarrow> event_record" where
  "json_record ch payload replaceKey lossless =
     zero_event\<lparr>ev_Channel := ch, ev_Payload := payload, ev_ReplaceKey := replaceKey,
       ev_Lossless := lossless, ev_bytes := int (length payload) + int (length replaceKey) + 64\<rparr>"

definition PublishJSON ::
  "channel \<Rightarrow> string \<Rightarrow> string \<Rightarrow> bool \<Rightarrow> event_hub \<Rightarrow> nat \<times> event_hub" where
  "PublishJSON ch payload replaceKey lossless hub =
     publishRecord (json_record ch payload replaceKey lossless) hub"

text \<open>\<^verbatim>\<open>Publish\<close> encodes first: \<open>None\<close> is a value \<^verbatim>\<open>json.Marshal\<close> rejects.\<close>

definition Publish ::
  "channel \<Rightarrow> string option \<Rightarrow> string \<Rightarrow> bool \<Rightarrow> event_hub \<Rightarrow> (error + nat) \<times> event_hub" where
  "Publish ch encoded replaceKey lossless hub =
     (case encoded of
        None \<Rightarrow> (Inl (ErrMessage ''json''), hub)
      | Some payload \<Rightarrow> (let (n, hub') = PublishJSON ch payload replaceKey lossless hub in (Inr n, hub')))"

definition binary_record :: "channel \<Rightarrow> binary_metadata \<Rightarrow> string \<Rightarrow> bool \<Rightarrow> event_record" where
  "binary_record ch metadata data lossless =
     zero_event\<lparr>ev_Channel := ch, ev_Binary := Some (metadata\<lparr>bm_Channel := ch\<rparr>),
       ev_Data := data, ev_Lossless := lossless,
       ev_bytes := int (length data) + int (length (bm_TransferID metadata)) + 128\<rparr>"

definition PublishBinary ::
  "channel \<Rightarrow> binary_metadata \<Rightarrow> string \<Rightarrow> bool \<Rightarrow> event_hub \<Rightarrow> nat \<times> event_hub" where
  "PublishBinary ch metadata data lossless hub =
     publishRecord (binary_record ch metadata data lossless) hub"

section \<open>Replay and subscription\<close>

text \<open>\<^verbatim>\<open>sort.Search\<close>: the binary search of the standard library between \<open>i\<close> and \<open>j\<close>.\<close>

function sort_search :: "(nat \<Rightarrow> bool) \<Rightarrow> nat \<Rightarrow> nat \<Rightarrow> nat" where
  "sort_search f i j =
     (if i < j then
        (let h = (i + j) div 2 in if \<not> f h then sort_search f (h + 1) j else sort_search f i h)
      else i)"
  by pat_completeness auto

termination
  by (relation "measure (\<lambda>(f, i, j). j - i)") auto

declare sort_search.simps [simp del]

definition replayStart :: "event_hub \<Rightarrow> nat \<Rightarrow> nat" where
  "replayStart hub after =
     hub_replayHead hub +
     sort_search (\<lambda>index. ev_Sequence (hub_replay hub ! (hub_replayHead hub + index)) > after)
       0 (length (hub_replay hub) - hub_replayHead hub)"

definition replayUnavailable :: "event_hub \<Rightarrow> nat \<Rightarrow> bool" where
  "replayUnavailable hub after =
     (if after \<ge> hub_sequence hub then False
      else if hub_replayHead hub \<ge> length (hub_replay hub) then True
      else ev_Sequence (hub_replay hub ! hub_replayHead hub) > u64_inc after)"

definition Replay :: "event_hub \<Rightarrow> nat \<Rightarrow> replay_result" where
  "Replay hub after =
     (if replayUnavailable hub after
      then \<lparr>rp_Events = [], rp_CurrentSequence = hub_sequence hub, rp_ResyncRequired = True\<rparr>
      else \<lparr>rp_Events = drop (replayStart hub after) (hub_replay hub),
            rp_CurrentSequence = hub_sequence hub, rp_ResyncRequired = False\<rparr>)"

definition new_client :: "nat \<Rightarrow> int \<Rightarrow> client_queue" where
  "new_client buffer maxBytes =
     (let size = s64_wrap (int buffer)
      in \<lparr>cq_buffer = (if size \<le> 0 \<or> size > 4096 then 256 else size), cq_bytes = 0,
          cq_maxBytes = maxBytes, cq_closed = False, cq_resync = False,
          cq_pending = [], cq_replaceAt = [], cq_sent = []\<rparr>)"

definition Subscribe :: "nat \<Rightarrow> nat \<Rightarrow> event_hub \<Rightarrow> (nat \<times> replay_result) \<times> event_hub" where
  "Subscribe buffer lastSequence hub =
     (let cid = u64_inc (hub_nextClient hub)
      in ((cid, Replay hub lastSequence),
          hub\<lparr>hub_nextClient := cid,
              hub_clients := tput cid (new_client buffer (hub_maxClientBytes hub)) (hub_clients hub)\<rparr>))"

text \<open>The client leaves the hub and is closed: it neither takes nor hands out records any more.\<close>

definition unsubscribe :: "nat \<Rightarrow> event_hub \<Rightarrow> client_queue option \<times> event_hub" where
  "unsubscribe cid hub =
     (map_option close_client (tget (hub_clients hub) cid),
      hub\<lparr>hub_clients := tdelete cid (hub_clients hub)\<rparr>)"

definition pump_client :: "nat \<Rightarrow> event_hub \<Rightarrow> event_hub" where
  "pump_client cid hub =
     (case tget (hub_clients hub) cid of
        None \<Rightarrow> hub
      | Some c \<Rightarrow> hub\<lparr>hub_clients := tput cid (pump_step c) (hub_clients hub)\<rparr>)"

section \<open>The replay log as a specification\<close>

text \<open>The longest tail of a log that fits a budget.\<close>

definition bytes_of :: "event_record list \<Rightarrow> int" where
  "bytes_of rs = sum_list (map ev_bytes rs)"

fun retained :: "int \<Rightarrow> event_record list \<Rightarrow> event_record list" where
  "retained m [] = []"
| "retained m (r # rs) = (if bytes_of (r # rs) \<le> m then r # rs else retained m rs)"

definition live :: "event_hub \<Rightarrow> event_record list" where
  "live hub = drop (hub_replayHead hub) (hub_replay hub)"

fun numbered :: "nat \<Rightarrow> event_record list \<Rightarrow> event_record list" where
  "numbered n [] = []"
| "numbered n (r # rs) = number (n + 1) r # numbered (n + 1) rs"

lemma length_numbered [simp]: "length (numbered n rs) = length rs"
  by (induction rs arbitrary: n) auto

lemma numbered_append: "numbered n (xs @ ys) = numbered n xs @ numbered (n + length xs) ys"
  by (induction xs arbitrary: n) auto

lemma numbered_nth: "i < length rs \<Longrightarrow> numbered n rs ! i = number (n + i + 1) (rs ! i)"
  by (induction rs arbitrary: n i) (auto simp: nth_Cons split: nat.split)

lemma number_fields [simp]:
  "ev_Sequence (number n r) = n" "ev_bytes (number n r) = ev_bytes r"
  "ev_Lossless (number n r) = ev_Lossless r" "ev_ReplaceKey (number n r) = ev_ReplaceKey r"
  by (simp_all add: number_def)

lemma bytes_of_simps [simp]:
  "bytes_of [] = 0" "bytes_of (r # rs) = ev_bytes r + bytes_of rs"
  "bytes_of (xs @ ys) = bytes_of xs + bytes_of ys"
  by (simp_all add: bytes_of_def)

lemma bytes_of_nonneg: "\<forall>r \<in> set rs. 0 \<le> ev_bytes r \<Longrightarrow> 0 \<le> bytes_of rs"
  by (induction rs) auto

lemma retained_drop: "\<exists>k \<le> length xs. retained m xs = drop k xs"
proof (induction xs)
  case (Cons r rs)
  then obtain k where "k \<le> length rs" "retained m rs = drop k rs" by blast
  then show ?case by (cases "bytes_of (r # rs) \<le> m") (auto intro: exI [of _ 0] exI [of _ "Suc k"])
qed simp

lemma retained_fits: "0 \<le> m \<Longrightarrow> bytes_of (retained m xs) \<le> m"
  by (induction xs) auto

text \<open>Trimming early does not change what is kept later: the log may be trimmed at every publish.\<close>

lemma retained_trim:
  assumes "\<forall>r \<in> set (xs @ ys). 0 \<le> ev_bytes r"
  shows "retained m (retained m xs @ ys) = retained m (xs @ ys)"
  using assms
proof (induction xs)
  case (Cons r rs)
  show ?case
  proof (cases "bytes_of (r # rs) \<le> m")
    case False
    have "0 \<le> bytes_of ys" using Cons.prems by (intro bytes_of_nonneg) auto
    with False have "\<not> bytes_of ((r # rs) @ ys) \<le> m" by simp
    then show ?thesis using Cons False by simp
  qed simp
qed simp

lemma retained_keeps:
  assumes "\<forall>r \<in> set xs. 0 \<le> ev_bytes r" and "bytes_of (drop k xs) \<le> m" and "k \<le> length xs"
  shows "length xs - k \<le> length (retained m xs)"
  using assms
proof (induction xs arbitrary: k)
  case (Cons r rs)
  show ?case
  proof (cases k)
    case 0
    with Cons.prems show ?thesis by simp
  next
    case (Suc j)
    with Cons.IH [of j] Cons.prems show ?thesis by auto
  qed
qed simp

lemma evict_live:
  assumes "hub_replayBytes hub = bytes_of (live hub)" and "hub_replayHead hub \<le> length (hub_replay hub)"
  shows "live (evict hub) = retained (hub_maxReplayBytes hub) (live hub) \<and>
    hub_replayBytes (evict hub) = bytes_of (live (evict hub)) \<and>
    hub_replayHead (evict hub) \<le> length (hub_replay (evict hub)) \<and>
    hub_sequence (evict hub) = hub_sequence hub \<and> hub_maxReplayBytes (evict hub) = hub_maxReplayBytes hub \<and>
    hub_maxClientBytes (evict hub) = hub_maxClientBytes hub \<and> hub_clients (evict hub) = hub_clients hub \<and>
    hub_nextClient (evict hub) = hub_nextClient hub"
  using assms
proof (induction hub rule: evict.induct)
  case (1 hub)
  let ?h = "hub_replayHead hub" and ?rs = "hub_replay hub"
  let ?next = "hub\<lparr>hub_replayBytes := hub_replayBytes hub - ev_bytes (?rs ! ?h),
     hub_replay := ?rs[?h := zero_event], hub_replayHead := ?h + 1\<rparr>"
  show ?case
  proof (cases "hub_replayBytes hub > hub_maxReplayBytes hub \<and> ?h < length ?rs")
    case True
    have live: "live hub = ?rs ! ?h # live ?next"
      using True by (simp add: live_def Cons_nth_drop_Suc [symmetric])
    have "hub_replayBytes ?next = bytes_of (live ?next)" using "1.prems"(1) live by simp
    then have IH: "live (evict ?next) = retained (hub_maxReplayBytes hub) (live ?next) \<and>
      hub_replayBytes (evict ?next) = bytes_of (live (evict ?next)) \<and>
      hub_replayHead (evict ?next) \<le> length (hub_replay (evict ?next)) \<and>
      hub_sequence (evict ?next) = hub_sequence hub \<and>
      hub_maxReplayBytes (evict ?next) = hub_maxReplayBytes hub \<and>
      hub_maxClientBytes (evict ?next) = hub_maxClientBytes hub \<and>
      hub_clients (evict ?next) = hub_clients hub \<and> hub_nextClient (evict ?next) = hub_nextClient hub"
      using "1.IH" [OF True] True by simp
    have "evict hub = evict ?next" using True by (subst evict.simps) simp
    moreover have "retained (hub_maxReplayBytes hub) (live hub) =
        retained (hub_maxReplayBytes hub) (live ?next)"
      using True "1.prems"(1) unfolding live by simp
    ultimately show ?thesis using IH by simp
  next
    case False
    then have ev: "evict hub = hub" by (subst evict.simps) auto
    have "retained (hub_maxReplayBytes hub) (live hub) = live hub"
      using False "1.prems"(1) by (cases "live hub") (auto simp: live_def)
    with ev "1.prems" show ?thesis by simp
  qed
qed

lemma compact_fields [simp]:
  "live (compact hub) = live hub" "hub_replayBytes (compact hub) = hub_replayBytes hub"
  "hub_sequence (compact hub) = hub_sequence hub" "hub_clients (compact hub) = hub_clients hub"
  "hub_maxReplayBytes (compact hub) = hub_maxReplayBytes hub"
  "hub_maxClientBytes (compact hub) = hub_maxClientBytes hub"
  "hub_nextClient (compact hub) = hub_nextClient hub"
  "hub_replayHead hub \<le> length (hub_replay hub) \<Longrightarrow>
     hub_replayHead (compact hub) \<le> length (hub_replay (compact hub))"
  by (simp_all add: compact_def live_def)

lemma live_clients [simp]: "live (hub\<lparr>hub_clients := cs\<rparr>) = live hub"
  "live (hub\<lparr>hub_nextClient := i\<rparr>) = live hub"
  by (simp_all add: live_def)

text \<open>The log the hub has published, and what the hub holds of it.\<close>

definition log_inv :: "event_record list \<Rightarrow> event_hub \<Rightarrow> bool" where
  "log_inv ps hub \<longleftrightarrow> hub_sequence hub = length ps \<and>
     live hub = retained (hub_maxReplayBytes hub) (numbered 0 ps) \<and>
     hub_replayBytes hub = bytes_of (live hub) \<and> hub_replayHead hub \<le> length (hub_replay hub) \<and>
     (\<forall>r \<in> set ps. 0 \<le> ev_bytes r)"

lemma numbered_bytes: "\<forall>r \<in> set ps. 0 \<le> ev_bytes r \<Longrightarrow> \<forall>r \<in> set (numbered n ps). 0 \<le> ev_bytes r"
  by (induction ps arbitrary: n) auto

lemma publishRecord_log:
  assumes "log_inv ps hub" and "0 \<le> ev_bytes r" and "length ps + 1 < 2 ^ 64"
  shows "log_inv (ps @ [r]) (snd (publishRecord r hub))"
    and "fst (publishRecord r hub) = length ps + 1"
    and "hub_clients (snd (publishRecord r hub)) =
      map (\<lambda>(cid, c). (cid, enqueue (number (length ps + 1) r) c)) (hub_clients hub)"
    and "hub_maxReplayBytes (snd (publishRecord r hub)) = hub_maxReplayBytes hub"
    and "hub_maxClientBytes (snd (publishRecord r hub)) = hub_maxClientBytes hub"
    and "hub_nextClient (snd (publishRecord r hub)) = hub_nextClient hub"
proof -
  have n: "u64_inc (hub_sequence hub) = length ps + 1"
    using assms(1,3) u64_inc_less by (simp add: log_inv_def)
  let ?r = "number (length ps + 1) r"
  let ?h = "hub\<lparr>hub_sequence := length ps + 1, hub_replay := hub_replay hub @ [?r],
    hub_replayBytes := hub_replayBytes hub + ev_bytes ?r\<rparr>"
  have live: "live ?h = live hub @ [?r]" using assms(1) by (simp add: live_def log_inv_def)
  obtain H where H: "H = evict ?h" by simp
  have e: "live H = retained (hub_maxReplayBytes hub) (live hub @ [?r]) \<and>
    hub_replayBytes H = bytes_of (live H) \<and>
    hub_replayHead H \<le> length (hub_replay H) \<and>
    hub_sequence H = length ps + 1 \<and> hub_maxReplayBytes H = hub_maxReplayBytes hub \<and>
    hub_maxClientBytes H = hub_maxClientBytes hub \<and> hub_clients H = hub_clients hub \<and>
    hub_nextClient H = hub_nextClient hub"
    using evict_live [of ?h] live assms(1) unfolding H by (simp add: log_inv_def)
  have "retained (hub_maxReplayBytes hub) (live hub @ [?r]) =
      retained (hub_maxReplayBytes hub) (numbered 0 (ps @ [r]))"
    using assms(1,2) numbered_bytes [of ps 0] unfolding log_inv_def numbered_append
    by (simp add: retained_trim)
  moreover have pub: "publishRecord r hub = (length ps + 1, (compact H)\<lparr>hub_clients :=
      map (\<lambda>(cid, c). (cid, enqueue ?r c)) (hub_clients (compact H))\<rparr>)"
    unfolding H using n by (simp add: publishRecord_def Let_def)
  ultimately show "log_inv (ps @ [r]) (snd (publishRecord r hub))"
    using e assms(1,2) by (simp add: log_inv_def)
  show "fst (publishRecord r hub) = length ps + 1"
    "hub_clients (snd (publishRecord r hub)) = map (\<lambda>(cid, c). (cid, enqueue ?r c)) (hub_clients hub)"
    "hub_maxReplayBytes (snd (publishRecord r hub)) = hub_maxReplayBytes hub"
    "hub_maxClientBytes (snd (publishRecord r hub)) = hub_maxClientBytes hub"
    "hub_nextClient (snd (publishRecord r hub)) = hub_nextClient hub"
    using e pub by simp_all
qed

lemma sort_search_threshold:
  assumes "i \<le> t" and "t \<le> j" and "\<And>k. i \<le> k \<Longrightarrow> k < j \<Longrightarrow> f k \<longleftrightarrow> t \<le> k"
  shows "sort_search f i j = t"
  using assms
proof (induction f i j rule: sort_search.induct)
  case (1 f i j)
  let ?h = "(i + j) div 2"
  show ?case
  proof (cases "i < j")
    case True
    then have h: "i \<le> ?h" "?h < j" by auto
    show ?thesis
    proof (cases "f ?h")
      case fh: True
      with "1.prems"(3) [OF h] have "t \<le> ?h" by blast
      with "1.IH"(2) [OF True refl] fh "1.prems" h have "sort_search f i ?h = t" by simp
      with True fh show ?thesis by (subst sort_search.simps) (simp add: Let_def)
    next
      case fh: False
      with "1.prems"(3) [OF h] have "?h + 1 \<le> t" by simp
      with "1.IH"(1) [OF True refl] fh "1.prems" h have "sort_search f (?h + 1) j = t" by simp
      with True fh show ?thesis by (subst sort_search.simps) (simp add: Let_def)
    qed
  next
    case False
    with "1.prems" show ?thesis by (subst sort_search.simps) simp
  qed
qed

text \<open>What a replay must return: the records after the client's position, or a request to
  resynchronise when one of them is no longer retained.\<close>

definition replay_spec :: "int \<Rightarrow> event_record list \<Rightarrow> nat \<Rightarrow> replay_result" where
  "replay_spec m log after =
     (if after + length (retained m log) < length log
      then \<lparr>rp_Events = [], rp_CurrentSequence = length log, rp_ResyncRequired = True\<rparr>
      else \<lparr>rp_Events = drop after log, rp_CurrentSequence = length log, rp_ResyncRequired = False\<rparr>)"

lemma Replay_spec:
  assumes "log_inv ps hub" and "length ps < 2 ^ 64"
  shows "Replay hub after = replay_spec (hub_maxReplayBytes hub) (numbered 0 ps) after"
proof -
  let ?log = "numbered 0 ps" and ?n = "length ps" and ?h = "hub_replayHead hub"
  obtain k where k: "k \<le> ?n" "live hub = drop k ?log"
    using retained_drop [of ?log "hub_maxReplayBytes hub"] assms(1) by (auto simp: log_inv_def)
  have len: "length (live hub) = ?n - k" "length (retained (hub_maxReplayBytes hub) ?log) = ?n - k"
    using arg_cong [OF k(2), of length] assms(1) by (simp_all add: log_inv_def)
  have head: "length (hub_replay hub) - ?h = ?n - k" "?h \<le> length (hub_replay hub)"
    using len(1) assms(1) by (simp_all add: live_def log_inv_def)
  have seq: "ev_Sequence (hub_replay hub ! (?h + i)) = k + i + 1" if "i < ?n - k" for i
  proof -
    have "hub_replay hub ! (?h + i) = live hub ! i" using that head by (simp add: live_def)
    also have "\<dots> = number (k + i + 1) (ps ! (k + i))"
      using that k numbered_nth [of "k + i" ps 0] by simp
    finally show ?thesis by simp
  qed
  have unavail: "replayUnavailable hub after \<longleftrightarrow> after < k"
  proof (cases "after < ?n")
    case True
    then have inc: "u64_inc after = after + 1" using assms(2) by (intro u64_inc_less) simp
    show ?thesis
    proof (cases "k < ?n")
      case True
      with \<open>after < ?n\<close> seq [of 0] head inc assms(1) show ?thesis
        by (auto simp: replayUnavailable_def log_inv_def)
    next
      case False
      with \<open>after < ?n\<close> head k(1) assms(1) show ?thesis by (simp add: replayUnavailable_def log_inv_def)
    qed
  next
    case False
    with k(1) assms(1) show ?thesis by (simp add: replayUnavailable_def log_inv_def)
  qed
  have "drop (replayStart hub after) (hub_replay hub) = drop after ?log" if "k \<le> after"
  proof -
    have "sort_search (\<lambda>i. ev_Sequence (hub_replay hub ! (?h + i)) > after) 0 (?n - k) = min (after - k) (?n - k)"
      using that seq by (intro sort_search_threshold) auto
    then have "drop (replayStart hub after) (hub_replay hub) = drop (min (after - k) (?n - k)) (live hub)"
      using head by (simp add: replayStart_def live_def add.commute)
    also have "\<dots> = drop after ?log" using that k by (cases "after \<le> ?n") (auto simp: min_def)
    finally show ?thesis .
  qed
  then show ?thesis
    using unavail len(2) k(1) assms(1) by (auto simp: Replay_def replay_spec_def log_inv_def)
qed

section \<open>The invariant of a client queue\<close>

definition keys_of :: "event_record list \<Rightarrow> string list" where
  "keys_of rs = map ev_ReplaceKey (filter keyed rs)"

text \<open>The replacement index lists exactly the replaceable records that are pending.\<close>

definition index_ok :: "event_record list \<Rightarrow> (string, nat) table \<Rightarrow> bool" where
  "index_ok rs t \<longleftrightarrow> (\<forall>k i. tget t k = Some i \<longleftrightarrow>
     i < length rs \<and> keyed (rs ! i) \<and> ev_ReplaceKey (rs ! i) = k)"

lemma in_keys_of: "k \<in> set (keys_of rs) \<longleftrightarrow> (\<exists>i < length rs. keyed (rs ! i) \<and> ev_ReplaceKey (rs ! i) = k)"
  by (auto simp: keys_of_def in_set_conv_nth image_iff)

lemma distinct_keys:
  "distinct (keys_of rs) \<longleftrightarrow> (\<forall>i < length rs. \<forall>j < length rs. keyed (rs ! i) \<longrightarrow> keyed (rs ! j) \<longrightarrow>
     ev_ReplaceKey (rs ! i) = ev_ReplaceKey (rs ! j) \<longrightarrow> i = j)" (is "_ \<longleftrightarrow> ?P rs")
proof (induction rs)
  case (Cons r rs)
  have "?P (r # rs) \<longleftrightarrow> ?P rs \<and> (keyed r \<longrightarrow> ev_ReplaceKey r \<notin> set (keys_of rs))"
    unfolding in_keys_of by (auto simp: All_less_Suc2)
  with Cons show ?case by (auto simp: keys_of_def)
qed (simp add: keys_of_def)

lemma index_ok_distinct: "index_ok rs t \<Longrightarrow> distinct (keys_of rs)"
  unfolding distinct_keys index_ok_def by (metis option.inject)

lemma rebuild_get:
  assumes "distinct (keys_of rs)"
  shows "tget (rebuild_from n rs t) k = Some i \<longleftrightarrow>
    (n \<le> i \<and> i - n < length rs \<and> keyed (rs ! (i - n)) \<and> ev_ReplaceKey (rs ! (i - n)) = k) \<or>
    (k \<notin> set (keys_of rs) \<and> tget t k = Some i)"
  using assms
proof (induction rs arbitrary: n t)
  case (Cons r rs)
  have d: "distinct (keys_of rs)" "keyed r \<Longrightarrow> ev_ReplaceKey r \<notin> set (keys_of rs)"
    using Cons.prems by (auto simp: keys_of_def split: if_splits)
  note IH = Cons.IH [OF d(1), of "n + 1" "if keyed r then tput (ev_ReplaceKey r) n t else t"]
  have nth: "n \<le> i \<and> i - n < length (r # rs) \<and> P ((r # rs) ! (i - n)) \<longleftrightarrow>
      (i = n \<and> P r) \<or> (n + 1 \<le> i \<and> i - (n + 1) < length rs \<and> P (rs ! (i - (n + 1))))" for P
    by (cases "i = n") (auto simp: nth_Cons')
  have keys: "set (keys_of (r # rs)) = (if keyed r then insert (ev_ReplaceKey r) (set (keys_of rs)) else set (keys_of rs))"
    by (simp add: keys_of_def)
  have absent: "\<not> (n + 1 \<le> i \<and> i - (n + 1) < length rs \<and> keyed (rs ! (i - (n + 1))) \<and>
      ev_ReplaceKey (rs ! (i - (n + 1))) = k)" if "k \<notin> set (keys_of rs)"
    using that unfolding in_keys_of by blast
  show ?case
    using IH absent d(2) nth [of "\<lambda>x. keyed x \<and> ev_ReplaceKey x = k"] unfolding keys
    by (auto split: if_splits)
qed (simp add: keys_of_def)

lemma rebuild_ok: "distinct (keys_of rs) \<Longrightarrow> index_ok rs (rebuild_from 0 rs [])"
  by (simp add: index_ok_def rebuild_get)

definition client_ok :: "event_record list \<Rightarrow> client_queue \<Rightarrow> bool" where
  "client_ok E c \<longleftrightarrow> \<not> cq_closed c \<and> cq_bytes c = bytes_of (cq_pending c) \<and>
     cq_bytes c \<le> cq_maxBytes c \<and> 0 \<le> cq_maxBytes c \<and> index_ok (cq_pending c) (cq_replaceAt c) \<and>
     (\<forall>r \<in> set (cq_pending c). 0 \<le> ev_bytes r \<and> ev_Sequence r \<noteq> 0) \<and>
     subseq (filter (\<lambda>r. ev_Sequence r \<noteq> 0) (cq_sent c) @ cq_pending c) E \<and>
     (cq_resync c \<or> overflow_notice \<in> set (cq_sent c) \<or>
      filter ev_Lossless (cq_sent c @ cq_pending c) = filter ev_Lossless E)"


lemma client_okD:
  assumes "client_ok E c"
  shows "\<not> cq_closed c" "cq_bytes c = bytes_of (cq_pending c)" "cq_bytes c \<le> cq_maxBytes c"
    "0 \<le> cq_maxBytes c" "index_ok (cq_pending c) (cq_replaceAt c)"
    "r \<in> set (cq_pending c) \<Longrightarrow> 0 \<le> ev_bytes r \<and> ev_Sequence r \<noteq> 0"
    "subseq (filter (\<lambda>r. ev_Sequence r \<noteq> 0) (cq_sent c) @ cq_pending c) E"
    "cq_resync c \<or> overflow_notice \<in> set (cq_sent c) \<or>
      filter ev_Lossless (cq_sent c @ cq_pending c) = filter ev_Lossless E"
  using assms by (auto simp: client_ok_def)

text \<open>Dropping a replaceable record keeps the invariant.\<close>

lemma client_ok_remove:
  assumes "client_ok E c" and "cq_pending c = xs @ x # ys" and "\<not> ev_Lossless x"
  shows "client_ok E (rebuildReplaceIndexes
    (c\<lparr>cq_bytes := cq_bytes c - ev_bytes x, cq_pending := xs @ ys\<rparr>))"
proof -
  have "distinct (keys_of (xs @ x # ys))" using index_ok_distinct [OF client_okD(5) [OF assms(1)]] assms(2) by simp
  then have "index_ok (xs @ ys) (rebuild_from 0 (xs @ ys) [])"
    by (intro rebuild_ok) (auto simp: keys_of_def split: if_splits)
  moreover have "subseq (filter (\<lambda>r. ev_Sequence r \<noteq> 0) (cq_sent c) @ xs @ ys) E"
  proof (rule subseq_order.trans)
    show "subseq (filter (\<lambda>r. ev_Sequence r \<noteq> 0) (cq_sent c) @ xs @ ys)
      (filter (\<lambda>r. ev_Sequence r \<noteq> 0) (cq_sent c) @ xs @ x # ys)"
      by (intro list_emb_append_mono) auto
  qed (use client_okD(7) [OF assms(1)] assms(2) in simp)
  moreover have "bytes_of xs + bytes_of ys \<le> cq_maxBytes c"
    using client_okD(6) [OF assms(1), of x] client_okD(2,3) [OF assms(1)] assms(2) by simp
  ultimately show ?thesis
    using assms client_okD(1-4,6,8) [OF assms(1)]
    by (auto simp: client_ok_def rebuildReplaceIndexes_def)
qed

lemma client_ok_drop_replaced:
  assumes "client_ok E c"
  shows "client_ok E (drop_replaced r c)"
    and "keyed r \<Longrightarrow> ev_ReplaceKey r \<notin> set (keys_of (cq_pending (drop_replaced r c)))"
proof -
  note ix = client_okD(5) [OF assms, unfolded index_ok_def]
  consider (none) "\<not> keyed r \<or> tget (cq_replaceAt c) (ev_ReplaceKey r) = None" "drop_replaced r c = c"
    | (some) i where "keyed r" "i < length (cq_pending c)" "keyed (cq_pending c ! i)"
        "ev_ReplaceKey (cq_pending c ! i) = ev_ReplaceKey r"
        "drop_replaced r c = rebuildReplaceIndexes (c\<lparr>cq_bytes := cq_bytes c - ev_bytes (cq_pending c ! i),
           cq_pending := take i (cq_pending c) @ drop (Suc i) (cq_pending c)\<rparr>)"
  proof (cases "keyed r")
    case True
    show thesis
    proof (cases "tget (cq_replaceAt c) (ev_ReplaceKey r)")
      case None
      then show thesis using that(1) by (simp add: drop_replaced_def)
    next
      case (Some i)
      with ix have i: "i < length (cq_pending c)" "keyed (cq_pending c ! i)"
        "ev_ReplaceKey (cq_pending c ! i) = ev_ReplaceKey r" by blast+
      show thesis by (rule that(2) [OF True i]) (simp add: drop_replaced_def True Some i(1))
    qed
  qed (use that(1) in \<open>simp add: drop_replaced_def\<close>)
  then show "client_ok E (drop_replaced r c)"
    "keyed r \<Longrightarrow> ev_ReplaceKey r \<notin> set (keys_of (cq_pending (drop_replaced r c)))"
  proof (atomize (full), cases)
    case none
    have "keyed r \<longrightarrow> ev_ReplaceKey r \<notin> set (keys_of (cq_pending c))"
      using none(1) ix unfolding in_keys_of by (metis option.distinct(1))
    with assms none(2) show "client_ok E (drop_replaced r c) \<and>
        (keyed r \<longrightarrow> ev_ReplaceKey r \<notin> set (keys_of (cq_pending (drop_replaced r c))))"
      by simp
  next
    case (some i)
    note split = id_take_nth_drop [OF some(2)]
    have "\<not> ev_Lossless (cq_pending c ! i)" using some(3) by (simp add: keyed_def)
    from client_ok_remove [OF assms split this] some(5) have "client_ok E (drop_replaced r c)" by simp
    moreover have "distinct (keys_of (cq_pending c))" using client_okD(5) [OF assms] by (rule index_ok_distinct)
    then have "ev_ReplaceKey r \<notin> set (keys_of (take i (cq_pending c) @ drop (Suc i) (cq_pending c)))"
      using some(3,4) by (subst (asm) split) (auto simp: keys_of_def)
    ultimately show "client_ok E (drop_replaced r c) \<and>
        (keyed r \<longrightarrow> ev_ReplaceKey r \<notin> set (keys_of (cq_pending (drop_replaced r c))))"
      unfolding some(5) by (simp add: rebuildReplaceIndexes_def)
  qed
qed

lemma index_ok_append:
  assumes "index_ok rs t" and "keyed r \<Longrightarrow> ev_ReplaceKey r \<notin> set (keys_of rs)"
  shows "index_ok (rs @ [r]) (if keyed r then tput (ev_ReplaceKey r) (length rs) t else t)"
  using assms unfolding index_ok_def in_keys_of by (auto simp: nth_append less_Suc_eq)

lemma client_ok_enqueue:
  assumes "client_ok E c" and "0 \<le> ev_bytes r" and "ev_Sequence r \<noteq> 0"
  shows "client_ok (E @ [r]) (enqueue r c)"
proof -
  let ?c = "drop_replaced r c"
  have ok: "client_ok E ?c" using client_ok_drop_replaced(1) [OF assms(1)] .
  note d = client_okD [OF ok]
  have open': "\<not> cq_closed c" using client_okD(1) [OF assms(1)] .
  show ?thesis
  proof (cases "cq_bytes ?c + ev_bytes r > cq_maxBytes ?c")
    case True
    have "subseq (filter (\<lambda>r. ev_Sequence r \<noteq> 0) (cq_sent ?c)) (E @ [r])"
      by (intro list_emb_prefix subseq_order.trans [OF list_emb_prefix d(7)]) simp
    with True open' d(1,4) show ?thesis
      by (simp add: enqueue_def Let_def client_ok_def index_ok_def)
  next
    case False
    have "index_ok (cq_pending ?c @ [r])
        (if keyed r then tput (ev_ReplaceKey r) (length (cq_pending ?c)) (cq_replaceAt ?c) else cq_replaceAt ?c)"
      by (rule index_ok_append [OF d(5) client_ok_drop_replaced(2) [OF assms(1)]])
    moreover have "subseq (filter (\<lambda>r. ev_Sequence r \<noteq> 0) (cq_sent ?c) @ cq_pending ?c @ [r]) (E @ [r])"
      using list_emb_append_mono [OF d(7), of "[r]" "[r]"] by simp
    ultimately show ?thesis
      using False open' d(1-4,6,8) assms(2,3) by (auto simp: enqueue_def Let_def client_ok_def)
  qed
qed

lemma client_ok_pump:
  assumes "client_ok E c"
  shows "client_ok E (pump_step c)"
proof -
  note d = client_okD [OF assms]
  show ?thesis
  proof (cases "cq_resync c")
    case True
    then show ?thesis
      using d by (auto simp: pump_step_def dequeue_def client_ok_def overflow_notice_def zero_event_def)
  next
    case res: False
    show ?thesis
    proof (cases "cq_pending c")
      case Nil
      with res d(1) assms show ?thesis by (simp add: pump_step_def dequeue_def)
    next
      case (Cons r rs)
      have "distinct (keys_of rs)"
        using index_ok_distinct [OF d(5)] Cons by (auto simp: keys_of_def split: if_splits)
      moreover have "bytes_of rs \<le> cq_maxBytes c" using d(6) [of r] d(2,3) Cons by simp
      ultimately show ?thesis using d d(6) [of r] Cons res
        by (auto simp: pump_step_def dequeue_def client_ok_def rebuildReplaceIndexes_def rebuild_ok)
    qed
  qed
qed

section \<open>Histories of a hub\<close>

datatype hub_op =
    HPublishJSON channel string string bool
  | HPublishBinary channel binary_metadata string bool
  | HPump nat
  | HSubscribe nat nat
  | HUnsubscribe nat

fun hub_step :: "event_hub \<Rightarrow> hub_op \<Rightarrow> event_hub" where
  "hub_step hub (HPublishJSON ch payload key lossless) = snd (PublishJSON ch payload key lossless hub)"
| "hub_step hub (HPublishBinary ch metadata data lossless) = snd (PublishBinary ch metadata data lossless hub)"
| "hub_step hub (HPump cid) = pump_client cid hub"
| "hub_step hub (HSubscribe buffer lastSequence) = snd (Subscribe buffer lastSequence hub)"
| "hub_step hub (HUnsubscribe cid) = snd (unsubscribe cid hub)"

definition hub_run :: "event_hub \<Rightarrow> hub_op list \<Rightarrow> event_hub" where
  "hub_run hub ops = foldl hub_step hub ops"

fun published :: "hub_op list \<Rightarrow> event_record list" where
  "published [] = []"
| "published (HPublishJSON ch payload key lossless # ops) = json_record ch payload key lossless # published ops"
| "published (HPublishBinary ch metadata data lossless # ops) = binary_record ch metadata data lossless # published ops"
| "published (_ # ops) = published ops"

lemma published_append: "published (xs @ ys) = published xs @ published ys"
  by (induction xs rule: published.induct) auto

lemma length_published: "length (published ops) \<le> length ops"
  by (induction ops rule: published.induct) auto

text \<open>The hub after \<open>ps\<close> was published; \<open>seen\<close> gives what each client was offered.\<close>

definition hub_ok :: "event_record list \<Rightarrow> (nat \<Rightarrow> event_record list) \<Rightarrow> event_hub \<Rightarrow> bool" where
  "hub_ok ps seen hub \<longleftrightarrow> log_inv ps hub \<and> 0 < hub_maxClientBytes hub \<and>
     (\<forall>cid c. tget (hub_clients hub) cid = Some c \<longrightarrow> cid \<le> hub_nextClient hub \<and>
        cq_maxBytes c = hub_maxClientBytes hub \<and> client_ok (seen cid) c)"

lemma hub_ok_new: "hub_ok [] seen (NewEventHub a b)"
  by (simp add: hub_ok_def log_inv_def NewEventHub_def live_def DefaultReplayBytes_def DefaultClientQueueBytes_def)

lemma enqueue_maxBytes [simp]: "cq_maxBytes (enqueue r c) = cq_maxBytes c"
  by (simp add: enqueue_def Let_def drop_replaced_def rebuildReplaceIndexes_def split: option.split)

lemma hub_ok_publish:
  assumes "hub_ok ps seen hub" and "0 \<le> ev_bytes r" and "length ps + 1 < 2 ^ 64"
  shows "hub_ok (ps @ [r]) (\<lambda>cid. seen cid @ [number (length ps + 1) r]) (snd (publishRecord r hub))"
proof -
  note pub = publishRecord_log [OF _ assms(2,3)]
  have log: "log_inv ps hub" using assms(1) by (simp add: hub_ok_def)
  have "cid \<le> hub_nextClient hub \<and> cq_maxBytes c = hub_maxClientBytes hub \<and>
      client_ok (seen cid @ [number (length ps + 1) r]) c"
    if get: "tget (hub_clients (snd (publishRecord r hub))) cid = Some c" for cid c
  proof -
    obtain c0 where c0: "tget (hub_clients hub) cid = Some c0" "c = enqueue (number (length ps + 1) r) c0"
      using get unfolding pub(3) [OF log] tget_map by auto
    with assms(1,2) show ?thesis by (auto simp: hub_ok_def intro: client_ok_enqueue)
  qed
  with pub(1,5,6) [OF log] assms(1) show ?thesis by (simp add: hub_ok_def)
qed

lemma pump_maxBytes [simp]: "cq_maxBytes (pump_step c) = cq_maxBytes c"
  by (auto simp: pump_step_def dequeue_def rebuildReplaceIndexes_def split: list.split)

lemma log_inv_frame [simp]:
  "log_inv ps (hub\<lparr>hub_clients := cs\<rparr>) = log_inv ps hub"
  "log_inv ps (hub\<lparr>hub_nextClient := i\<rparr>) = log_inv ps hub"
  by (simp_all add: log_inv_def)

lemma hub_ok_pump: "hub_ok ps seen hub \<Longrightarrow> hub_ok ps seen (pump_client cid hub)"
  by (auto simp: hub_ok_def pump_client_def intro: client_ok_pump split: option.split)

lemma hub_ok_unsubscribe: "hub_ok ps seen hub \<Longrightarrow> hub_ok ps seen (snd (unsubscribe cid hub))"
  by (auto simp: hub_ok_def unsubscribe_def split: if_splits)

lemma client_ok_new: "0 < m \<Longrightarrow> client_ok [] (new_client buffer m)"
  by (simp add: client_ok_def new_client_def Let_def index_ok_def)

lemma hub_ok_subscribe:
  assumes "hub_ok ps seen hub" and "hub_nextClient hub + 1 < 2 ^ 64"
  shows "hub_ok ps (seen(hub_nextClient hub + 1 := [])) (snd (Subscribe buffer lastSequence hub))"
proof -
  let ?new = "new_client buffer (hub_maxClientBytes hub)" and ?cid = "hub_nextClient hub + 1"
  have sub: "snd (Subscribe buffer lastSequence hub) =
      hub\<lparr>hub_nextClient := ?cid, hub_clients := tput ?cid ?new (hub_clients hub)\<rparr>"
    using u64_inc_less [OF assms(2)] by (simp add: Subscribe_def Let_def)
  have "cq_maxBytes ?new = hub_maxClientBytes hub" by (simp add: new_client_def Let_def)
  moreover have "client_ok [] ?new" using assms(1) by (intro client_ok_new) (simp add: hub_ok_def)
  moreover have old: "cid \<le> hub_nextClient hub \<and> cq_maxBytes c = hub_maxClientBytes hub \<and> client_ok (seen cid) c"
    if "tget (hub_clients hub) cid = Some c" for cid c
    using that assms(1) by (simp add: hub_ok_def)
  moreover have "tget (hub_clients hub) ?cid = None"
    using old [of ?cid] by (cases "tget (hub_clients hub) ?cid") auto
  ultimately show ?thesis
    using assms(1) unfolding sub by (auto simp: hub_ok_def dest: old split: if_splits)
qed

text \<open>One step of a history, within the range of the counters.\<close>

definition step_seen :: "event_hub \<Rightarrow> nat \<Rightarrow> hub_op \<Rightarrow> (nat \<Rightarrow> event_record list) \<Rightarrow> nat \<Rightarrow> event_record list" where
  "step_seen hub n op seen = (case op of
     HSubscribe _ _ \<Rightarrow> seen(hub_nextClient hub + 1 := [])
   | _ \<Rightarrow> (\<lambda>cid. seen cid @ numbered n (published [op])))"

lemma published_bytes: "\<forall>r \<in> set (published ops). 0 \<le> ev_bytes r"
  by (induction ops rule: published.induct) (auto simp: json_record_def binary_record_def)

lemma hub_ok_step:
  assumes "hub_ok ps seen hub" and "length ps + 1 < 2 ^ 64" and "hub_nextClient hub + 1 < 2 ^ 64"
  shows "hub_ok (ps @ published [op]) (step_seen hub (length ps) op seen) (hub_step hub op)"
  using assms hub_ok_publish [OF assms(1) _ assms(2)] published_bytes [of "[op]"]
  by (cases op) (auto simp: step_seen_def PublishJSON_def PublishBinary_def hub_ok_pump
      hub_ok_unsubscribe hub_ok_subscribe [simplified])

lemma hub_step_nextClient:
  assumes "hub_ok ps seen hub" and "length ps + 1 < 2 ^ 64" and "hub_nextClient hub + 1 < 2 ^ 64"
  shows "hub_nextClient hub \<le> hub_nextClient (hub_step hub op) \<and>
    hub_nextClient (hub_step hub op) \<le> hub_nextClient hub + 1"
  using publishRecord_log(6) [OF _ _ assms(2)] assms published_bytes [of "[op]"] u64_inc_less [OF assms(3)]
  by (cases op) (auto simp: PublishJSON_def PublishBinary_def pump_client_def unsubscribe_def
      Subscribe_def Let_def hub_ok_def split: option.split)

lemma hub_step_keeps:
  assumes "hub_ok ps seen hub" and "length ps + 1 < 2 ^ 64"
  shows "tget (hub_clients hub) cid \<noteq> None \<Longrightarrow> op \<noteq> HUnsubscribe cid \<Longrightarrow>
      tget (hub_clients (hub_step hub op)) cid \<noteq> None"
    and "hub_maxReplayBytes (hub_step hub op) = hub_maxReplayBytes hub"
    and "hub_maxClientBytes (hub_step hub op) = hub_maxClientBytes hub"
  using publishRecord_log(3-5) [OF _ _ assms(2)] assms(1) published_bytes [of "[op]"]
  by (cases op; auto simp: PublishJSON_def PublishBinary_def pump_client_def unsubscribe_def
      Subscribe_def Let_def hub_ok_def tget_map split: option.split)+

lemma hub_run_ok:
  assumes "hub_ok ps seen hub" and "length ps + length ops < 2 ^ 64" and "hub_nextClient hub + length ops < 2 ^ 64"
  shows "\<exists>seen'. hub_ok (ps @ published ops) seen' (hub_run hub ops) \<and>
    (\<forall>cid \<le> hub_nextClient hub. seen' cid = seen cid @ numbered (length ps) (published ops) \<and>
       (tget (hub_clients hub) cid \<noteq> None \<longrightarrow> HUnsubscribe cid \<notin> set ops \<longrightarrow>
        tget (hub_clients (hub_run hub ops)) cid \<noteq> None)) \<and>
    hub_maxReplayBytes (hub_run hub ops) = hub_maxReplayBytes hub \<and>
    hub_maxClientBytes (hub_run hub ops) = hub_maxClientBytes hub \<and>
    hub_nextClient (hub_run hub ops) \<le> hub_nextClient hub + length ops"
  using assms
proof (induction ops arbitrary: ps seen hub)
  case Nil
  then show ?case by (auto simp: hub_run_def)
next
  case (Cons op ops)
  let ?hub = "hub_step hub op" and ?ps = "ps @ published [op]" and ?seen = "step_seen hub (length ps) op seen"
  have b: "length ps + 1 < 2 ^ 64" "hub_nextClient hub + 1 < 2 ^ 64" using Cons.prems(2,3) by simp_all
  have ok: "hub_ok ?ps ?seen ?hub" by (rule hub_ok_step [OF Cons.prems(1) b])
  note nc = hub_step_nextClient [OF Cons.prems(1) b, of op]
  have "length (published [op]) \<le> 1" using length_published [of "[op]"] by simp
  then have "length ?ps + length ops < 2 ^ 64" "hub_nextClient ?hub + length ops < 2 ^ 64"
    using Cons.prems(2,3) nc by auto
  from Cons.IH [OF ok this] obtain seen' where IH: "hub_ok (?ps @ published ops) seen' (hub_run ?hub ops)"
    "\<And>cid. cid \<le> hub_nextClient ?hub \<Longrightarrow> seen' cid = ?seen cid @ numbered (length ?ps) (published ops) \<and>
       (tget (hub_clients ?hub) cid \<noteq> None \<longrightarrow> HUnsubscribe cid \<notin> set ops \<longrightarrow>
        tget (hub_clients (hub_run ?hub ops)) cid \<noteq> None)"
    "hub_maxReplayBytes (hub_run ?hub ops) = hub_maxReplayBytes ?hub"
    "hub_maxClientBytes (hub_run ?hub ops) = hub_maxClientBytes ?hub"
    "hub_nextClient (hub_run ?hub ops) \<le> hub_nextClient ?hub + length ops" by blast
  have pub: "published (op # ops) = published [op] @ published ops" using published_append [of "[op]" ops] by simp
  have run: "hub_run hub (op # ops) = hub_run ?hub ops" by (simp add: hub_run_def)
  have "seen' cid = seen cid @ numbered (length ps) (published (op # ops))" if "cid \<le> hub_nextClient hub" for cid
    using IH(2) [of cid] that nc unfolding pub numbered_append
    by (auto simp: step_seen_def split: hub_op.splits)
  moreover have "tget (hub_clients (hub_run ?hub ops)) cid \<noteq> None"
    if "cid \<le> hub_nextClient hub" "tget (hub_clients hub) cid \<noteq> None" "HUnsubscribe cid \<notin> set (op # ops)" for cid
    using IH(2) [of cid] nc hub_step_keeps(1) [OF Cons.prems(1) b(1) that(2), of op] that by auto
  moreover have "hub_ok (ps @ published (op # ops)) seen' (hub_run ?hub ops)" using IH(1) unfolding pub by simp
  ultimately show ?case
    unfolding run using IH(3-5) hub_step_keeps(2,3) [OF Cons.prems(1) b(1)] nc
    by (intro exI [of _ seen']) auto
qed

section \<open>Guarantees\<close>

text \<open>C15. After any history of publications, subscriptions and deliveries, a replay from a position
  returns exactly the records published after it, in order, or asks for a resynchronisation; it
  asks for one only when the missing records do not fit the replay budget.\<close>

theorem hub_replay_exact:
  assumes "length ops < 2 ^ 64" and "hub = hub_run (NewEventHub maxReplay maxClient) ops"
    and "log = numbered 0 (published ops)"
  shows "Replay hub after = replay_spec (hub_maxReplayBytes hub) log after \<and>
    (bytes_of (drop after log) \<le> hub_maxReplayBytes hub \<longrightarrow> \<not> rp_ResyncRequired (Replay hub after))"
proof -
  have "hub_nextClient (NewEventHub maxReplay maxClient) = 0" by (simp add: NewEventHub_def)
  with hub_run_ok [OF hub_ok_new, of ops maxReplay maxClient] assms(1,2)
  have log: "log_inv (published ops) hub" by (auto simp: hub_ok_def)
  have len: "length (published ops) < 2 ^ 64" using length_published [of ops] assms(1) by linarith
  have rep: "Replay hub after = replay_spec (hub_maxReplayBytes hub) log after"
    unfolding assms(3) by (rule Replay_spec [OF log len])
  have "length log \<le> after + length (retained (hub_maxReplayBytes hub) log)"
    if "bytes_of (drop after log) \<le> hub_maxReplayBytes hub"
  proof (cases "after \<le> length log")
    case True
    with retained_keeps [OF numbered_bytes [OF published_bytes] _, of after 0 ops "hub_maxReplayBytes hub"] that
    show ?thesis unfolding assms(3) by simp
  qed simp
  with rep show ?thesis by (auto simp: replay_spec_def)
qed

text \<open>A subscriber never loses a lossless event silently: what it got at subscription, what was
  sent to it and what is still queued for it is a subsequence, in order, of the records published
  after its position (after the subscription, when its position is ahead of the hub); and unless a resynchronisation was requested, all lossless ones are there.\<close>

theorem subscriber_no_silent_loss:
  assumes "length ops + length later + 1 < 2 ^ 64"
    and "Subscribe buffer lastSequence (hub_run (NewEventHub maxReplay maxClient) ops) = ((cid, replay), hub)"
    and "HUnsubscribe cid \<notin> set later" and "\<not> rp_ResyncRequired replay"
    and "log = numbered 0 (published (ops @ later))"
    and "missed = drop (min lastSequence (rp_CurrentSequence replay)) log"
  shows "\<exists>c. tget (hub_clients (hub_run hub later)) cid = Some c \<and>
    subseq (rp_Events replay @ filter (\<lambda>r. ev_Sequence r \<noteq> 0) (cq_sent c) @ cq_pending c) missed \<and>
    (cq_resync c \<or> overflow_notice \<in> set (cq_sent c) \<or>
     filter ev_Lossless (rp_Events replay @ cq_sent c @ cq_pending c) = filter ev_Lossless missed)"
proof -
  let ?hub0 = "hub_run (NewEventHub maxReplay maxClient) ops" and ?n = "length (published ops)"
  have n: "?n \<le> length ops" by (rule length_published)
  have "hub_nextClient (NewEventHub maxReplay maxClient) = 0" by (simp add: NewEventHub_def)
  with hub_run_ok [OF hub_ok_new, of ops maxReplay maxClient] assms(1) obtain seen where
    ok0: "hub_ok (published ops) seen ?hub0" and nc: "hub_nextClient ?hub0 \<le> length ops" by auto
  have nc1: "hub_nextClient ?hub0 + 1 < 2 ^ 64" using nc assms(1) by simp
  have hub: "hub = snd (Subscribe buffer lastSequence ?hub0)" using assms(2) by simp
  have sub: "cid = hub_nextClient ?hub0 + 1" "replay = Replay ?hub0 lastSequence"
    "hub_nextClient hub = hub_nextClient ?hub0 + 1" "tget (hub_clients hub) cid \<noteq> None"
    using assms(2) u64_inc_less [OF nc1] by (auto simp: Subscribe_def Let_def)
  have ok1: "hub_ok (published ops) (seen(cid := [])) hub"
    using hub_ok_subscribe [OF ok0 nc1, of buffer lastSequence] unfolding hub sub(1) .
  have "?n + length later < 2 ^ 64" "hub_nextClient hub + length later < 2 ^ 64"
    using n nc sub(3) assms(1) by simp_all
  from hub_run_ok [OF ok1 this] sub(1,3,4) assms(3) obtain seen' c where
    fin: "hub_ok (published ops @ published later) seen' (hub_run hub later)"
    "seen' cid = numbered ?n (published later)" "tget (hub_clients (hub_run hub later)) cid = Some c"
    by (auto simp: fun_upd_same)
  have "client_ok (seen' cid) c" using fin(1,3) by (simp add: hub_ok_def)
  then have c: "client_ok (numbered ?n (published later)) c" unfolding fin(2) .
  have "log_inv (published ops) ?hub0" using ok0 by (simp add: hub_ok_def)
  from Replay_spec [OF this, of lastSequence] n assms(1,4) sub(2)
  have ev: "rp_Events replay = drop lastSequence (numbered 0 (published ops))" "rp_CurrentSequence replay = ?n"
    by (simp_all add: replay_spec_def split: if_splits)
  have missed: "missed = rp_Events replay @ numbered ?n (published later)"
    unfolding assms(5,6) ev published_append numbered_append by (simp add: min_def)
  show ?thesis
    using fin(3) client_okD(7,8) [OF c] unfolding missed
    by (auto intro: list_emb_append_mono)
qed

text \<open>However slow a client is, the queue held for it never exceeds the client budget, its byte
  counter is exact, and at most one snapshot per replacement key is pending.\<close>

theorem client_queue_bounded:
  assumes "length ops < 2 ^ 64" and "hub = hub_run (NewEventHub maxReplay maxClient) ops"
    and "tget (hub_clients hub) cid = Some c"
  shows "cq_bytes c = bytes_of (cq_pending c) \<and> cq_bytes c \<le> hub_maxClientBytes hub \<and>
    distinct (keys_of (cq_pending c))"
proof -
  have "hub_nextClient (NewEventHub maxReplay maxClient) = 0" by (simp add: NewEventHub_def)
  with hub_run_ok [OF hub_ok_new, of ops maxReplay maxClient] assms(1) obtain seen where
    "hub_ok (published ops) seen hub" unfolding assms(2) by auto
  with assms(3) have c: "client_ok (seen cid) c" "cq_maxBytes c = hub_maxClientBytes hub"
    by (simp_all add: hub_ok_def)
  then show ?thesis using client_okD(2,3,5) [OF c(1)] index_ok_distinct by simp
qed

section \<open>Witnesses\<close>

definition ex_ops :: "hub_op list" where
  "ex_ops = [HPublishJSON ChannelRuntime ''a'' [] True, HPublishJSON ChannelRuntime ''b'' ''k'' False]"

definition ex_later :: "hub_op list" where
  "ex_later = [HPublishJSON ChannelRuntime ''c'' ''k'' False, HPump 1, HPublishJSON ChannelRuntime ''d'' [] True]"

theorem hub_replay_exact_witness:
  "rp_Events (Replay (hub_run (NewEventHub 1000 1000) ex_ops) 1) = drop 1 (numbered 0 (published ex_ops)) \<and>
   length (drop 1 (numbered 0 (published ex_ops))) = 1"
proof -
  let ?hub = "hub_run (NewEventHub 1000 1000) ex_ops" and ?log = "numbered 0 (published ex_ops)"
  have "bytes_of (drop 1 ?log) \<le> hub_maxReplayBytes ?hub" "length ?log = 2" by code_simp+
  moreover have "length ex_ops < 2 ^ 64" by (simp add: ex_ops_def)
  note hub_replay_exact [OF this refl refl, of 1000 1000 1]
  ultimately show ?thesis by (auto simp: replay_spec_def split: if_splits)
qed

theorem subscriber_no_silent_loss_witness:
  "\<exists>c. tget (hub_clients (hub_run (snd (Subscribe 16 1 (hub_run (NewEventHub 1000 1000) ex_ops))) ex_later)) 1 = Some c \<and>
     filter ev_Lossless (rp_Events (Replay (hub_run (NewEventHub 1000 1000) ex_ops) 1) @ cq_sent c @ cq_pending c) =
     filter ev_Lossless (drop 1 (numbered 0 (published (ex_ops @ ex_later))))"
proof -
  let ?hub0 = "hub_run (NewEventHub 1000 1000) ex_ops"
  let ?c = "the (tget (hub_clients (hub_run (snd (Subscribe 16 1 ?hub0)) ex_later)) 1)"
  have pre: "fst (Subscribe 16 1 ?hub0) = (1, Replay ?hub0 1)" "\<not> rp_ResyncRequired (Replay ?hub0 1)"
    "rp_CurrentSequence (Replay ?hub0 1) = 2" "\<not> cq_resync ?c" "overflow_notice \<notin> set (cq_sent ?c)"
    by code_simp+
  have "length ex_ops + length ex_later + 1 < 2 ^ 64" "HUnsubscribe 1 \<notin> set ex_later"
    by (simp_all add: ex_ops_def ex_later_def)
  from subscriber_no_silent_loss [OF this(1) _ this(2) pre(2) refl refl, of 16 1 1000 1000 "snd (Subscribe 16 1 ?hub0)"]
    pre(1,3) obtain c where
    "tget (hub_clients (hub_run (snd (Subscribe 16 1 ?hub0)) ex_later)) 1 = Some c"
    "cq_resync c \<or> overflow_notice \<in> set (cq_sent c) \<or>
       filter ev_Lossless (rp_Events (Replay ?hub0 1) @ cq_sent c @ cq_pending c) =
       filter ev_Lossless (drop 1 (numbered 0 (published (ex_ops @ ex_later))))"
    by (auto simp: prod_eq_iff)
  with pre(4,5) show ?thesis by auto
qed

theorem client_queue_bounded_witness:
  "\<exists>c. tget (hub_clients (hub_run (NewEventHub 1000 1000) (HSubscribe 16 0 # ex_ops @ ex_later))) 1 = Some c \<and>
     cq_bytes c \<le> 1000 \<and> cq_bytes c = bytes_of (cq_pending c) \<and> cq_pending c \<noteq> []"
proof -
  let ?ops = "HSubscribe 16 0 # ex_ops @ ex_later" and ?hub = "hub_run (NewEventHub 1000 1000) (HSubscribe 16 0 # ex_ops @ ex_later)"
  have ev: "hub_maxClientBytes ?hub = 1000" "tget (hub_clients ?hub) 1 \<noteq> None"
    "cq_pending (the (tget (hub_clients ?hub) 1)) \<noteq> []"
    by code_simp+
  then obtain c where c: "tget (hub_clients ?hub) 1 = Some c" by blast
  have "length ?ops < 2 ^ 64" by (simp add: ex_ops_def ex_later_def)
  from client_queue_bounded [OF this refl c] ev c show ?thesis by auto
qed

end
