(* ===== verification/Team_Scheduler.thy ===== *)
theory Team_Scheduler
  imports Resource_Claims
begin

text \<open>
  The coding team: the scheduler of \<^verbatim>\<open>internal/agent/scheduler.go\<close>, which derives the next
  dispatch from a snapshot of the team, and \<^verbatim>\<open>foldTeamOrchestration\<close> of
  \<^verbatim>\<open>internal/agent/team_runtime.go\<close>, which derives that snapshot from the outcomes of the
  earlier dispatches. Together they are the control loop of a team run.

  JSON and SHA-256 are fields of \<open>team_env\<close>: the encoding of a task's input (\<open>None\<close> when
  \<^verbatim>\<open>json.Marshal\<close> fails), the object a structured result decodes to, and the first eight
  bytes of a digest in hexadecimal. Of a task, a class and a result the model has the fields the
  scheduler reads and writes; a JSON value is a string or something else. An outcome carries the
  dispatch \<^verbatim>\<open>decodeTeamDispatch\<close> returns, \<open>None\<close> for an error.
\<close>

section \<open>Data\<close>

datatype json_value = JString string | JOther string

datatype report_status = ReportStatusSuccess | ReportStatusFailed | ReportStatusOther string

record typed_report =
  tr_Status :: report_status
  tr_Summary :: string
  tr_Kind :: string
  tr_Structured :: "(string, json_value) table option"

datatype input_value = InText string | InReport "typed_report option" | InInt int | InBool bool

type_synonym input_map = "(string, input_value) table"

datatype instance_state =
  TeamInstancePending | TeamInstanceRunning | TeamInstanceFinished | TeamInstanceFailed

record team_instance =
  ti_ID :: string
  ti_ClassName :: string
  ti_AgentClassName :: string
  ti_RunID :: string
  ti_TaskID :: string
  ti_State :: instance_state

record retry_policy =
  rp_MaxAttempts :: int
  rp_Backoff :: duration
  rp_MaxBackoff :: duration

datatype team_task_status = TaskStatusCreated | TaskStatusCompleted | TaskStatusFailed

record team_task =
  tk_ID :: string
  tk_RunID :: string
  tk_AllowsAction :: bool
  tk_Goal :: string
  tk_Input :: string
  tk_Status :: team_task_status
  tk_InputSchema :: string
  tk_OutputSchema :: string
  tk_RetryPolicy :: retry_policy
  tk_ResourceClaims :: "claim_spec list"
  tk_Result :: "typed_report option"
  tk_Error :: string

record team_handoff =
  th_RunID :: string
  th_From :: string
  th_To :: string
  th_Reason :: string
  th_Payload :: string
  th_RequiredOutputSchema :: string

record team_dispatch =
  td_To :: string
  td_ClassName :: string
  td_AgentClassName :: string
  td_Task :: team_task
  td_Input :: string
  td_Validate :: bool
  td_Handoff :: "team_handoff option"

record team_class =
  tc_Name :: string
  tc_Tools :: "string list"
  tc_InputSchema :: string
  tc_OutputSchema :: string

record team_state =
  ts_RunID :: string
  ts_Tick :: int
  ts_Tasks :: "team_task list"
  ts_Instances :: "team_instance list"

record agent_failure =
  af_Kind :: string
  af_Error :: string

record agent_result =
  ar_Text :: string
  ar_Structured :: string
  ar_Failure :: "agent_failure option"

record team_outcome =
  oc_Dispatch :: "team_dispatch option"
  oc_Result :: agent_result

record team_env =
  marshal :: "input_map \<Rightarrow> string option"
  unmarshal :: "string \<Rightarrow> (string, json_value) table option"
  sha8 :: "string \<Rightarrow> string"
  json_compact :: "string \<Rightarrow> string option"
  ValidateJSON :: "string \<Rightarrow> string \<Rightarrow> error option"

record coding_scheduler =
  cs_Prompt :: string
  cs_Classes :: "(string, team_class) table"
  cs_RetryPolicy :: retry_policy
  cs_ResourceClaims :: "claim_spec list"

definition PlannerClass :: string where "PlannerClass = ''planner''"
definition ImplementerClass :: string where "ImplementerClass = ''implementer''"
definition ReviewerClass :: string where "ReviewerClass = ''reviewer''"
definition ReporterClass :: string where "ReporterClass = ''reporter''"

lemmas class_names = PlannerClass_def ImplementerClass_def ReviewerClass_def ReporterClass_def

section \<open>Reading the snapshot\<close>

definition activeOrFailed :: "team_state \<Rightarrow> bool" where
  "activeOrFailed state \<longleftrightarrow>
     (\<exists>i \<in> set (ts_Instances state). ti_State i = TeamInstancePending \<or>
        ti_State i = TeamInstanceRunning \<or> ti_State i = TeamInstanceFailed)"

definition finishedForClass :: "team_state \<Rightarrow> string \<Rightarrow> team_instance list" where
  "finishedForClass state className =
     filter (\<lambda>i. ti_ClassName i = className \<and> ti_State i = TeamInstanceFinished) (ts_Instances state)"

definition classAttemptCount :: "team_state \<Rightarrow> string \<Rightarrow> nat" where
  "classAttemptCount state className =
     length (filter (\<lambda>i. ti_ClassName i = className) (ts_Instances state))"

definition reportForTask :: "team_state \<Rightarrow> string \<Rightarrow> typed_report option" where
  "reportForTask state taskID =
     (case find (\<lambda>t. tk_ID t = taskID) (rev (ts_Tasks state)) of
        None \<Rightarrow> None
      | Some t \<Rightarrow> tk_Result t)"

text \<open>No other letter has a lower-case form in \<open>''accept''\<close>, the only verdict that is compared.\<close>

definition to_lower :: "char \<Rightarrow> char" where
  "to_lower c = (if CHR ''A'' \<le> c \<and> c \<le> CHR ''Z'' then char_of (of_char c + 32 :: nat) else c)"

definition reviewVerdict :: "typed_report option \<Rightarrow> string" where
  "reviewVerdict report =
     (case report of
        None \<Rightarrow> ''revise''
      | Some r \<Rightarrow>
        (case tr_Structured r of
           None \<Rightarrow> ''revise''
         | Some fs \<Rightarrow>
             let verdict = (case tget fs ''verdict'' of Some (JString s) \<Rightarrow> s | _ \<Rightarrow> []);
                 verdict = map to_lower (TrimSpace verdict)
             in if verdict = ''accept'' then verdict else ''revise''))"

section \<open>Dispatch\<close>


definition ComputeTeamInstanceID ::
  "team_env \<Rightarrow> string \<Rightarrow> string \<Rightarrow> string \<Rightarrow> string \<Rightarrow> string" where
  "ComputeTeamInstanceID env className runID taskID sfx =
     ''ai-'' @ sha8 env (TrimSpace className @ ''|'' @ TrimSpace runID @ ''|'' @ TrimSpace taskID @
       ''|'' @ TrimSpace sfx)"

definition codingTaskGoal :: "string \<Rightarrow> string" where
  "codingTaskGoal className =
     (if className = PlannerClass then ''Plan the requested workspace change.''
      else if className = ImplementerClass then ''Implement the approved workspace change.''
      else if className = ReviewerClass then ''Review the implementation against the request.''
      else if className = ReporterClass then ''Report the verified result to the user.''
      else ''Complete the assigned team task.'')"

definition codingClassMayMutateWorkspace :: "team_class \<Rightarrow> bool" where
  "codingClassMayMutateWorkspace class \<longleftrightarrow>
     (\<exists>name \<in> set (tc_Tools class). name = ''coding.edit_hashline'' \<or> name = ''coding.write_file'' \<or>
        name = ''coding.gofmt'' \<or> name = ''coding.shell'')"

definition team_task_id :: "team_state \<Rightarrow> string \<Rightarrow> string" where
  "team_task_id state className =
     (let attempt = classAttemptCount state className + 1
      in ts_RunID state @ ''-'' @ className @ (if attempt > 1 then ''-attempt-'' @ Itoa attempt else []))"

definition dispatch ::
  "team_env \<Rightarrow> coding_scheduler \<Rightarrow> team_state \<Rightarrow> string \<Rightarrow> team_instance option \<Rightarrow> input_map \<Rightarrow>
   error + team_dispatch list" where
  "dispatch env s state className from input =
     (case tget (cs_Classes s) className of
        None \<Rightarrow> Inl (ErrMessage ''coding scheduler: class is not configured'')
      | Some class \<Rightarrow>
        (case marshal env input of
           None \<Rightarrow> Inl (ErrMessage ''coding scheduler: encode input'')
         | Some raw \<Rightarrow>
             let taskID = team_task_id state className;
                 instanceID = ComputeTeamInstanceID env className (ts_RunID state) taskID
                                (Itoa (length (ts_Instances state)))
             in Inr [\<lparr>td_To = instanceID, td_ClassName = className, td_AgentClassName = className,
                  td_Task = \<lparr>tk_ID = taskID, tk_RunID = ts_RunID state,
                    tk_AllowsAction = (className = ImplementerClass \<or> className = ReviewerClass),
                    tk_Goal = codingTaskGoal className, tk_Input = raw, tk_Status = TaskStatusCreated,
                    tk_InputSchema = tc_InputSchema class, tk_OutputSchema = tc_OutputSchema class,
                    tk_RetryPolicy = cs_RetryPolicy s,
                    tk_ResourceClaims = (if codingClassMayMutateWorkspace class
                                         then cs_ResourceClaims s else []),
                    tk_Result = None, tk_Error = []\<rparr>,
                  td_Input = raw, td_Validate = (tc_OutputSchema class \<noteq> []),
                  td_Handoff = map_option (\<lambda>f. \<lparr>th_RunID = ts_RunID state, th_From = ti_ID f,
                    th_To = instanceID, th_Reason = ti_ClassName f @ '' completed'', th_Payload = raw,
                    th_RequiredOutputSchema = tc_OutputSchema class\<rparr>) from\<rparr>]))"

definition Next ::
  "team_env \<Rightarrow> coding_scheduler \<Rightarrow> team_state \<Rightarrow> error + team_dispatch list" where
  "Next env s state =
     (if activeOrFailed state then Inr []
      else
        let planner = finishedForClass state PlannerClass;
            implementers = finishedForClass state ImplementerClass;
            reviewers = finishedForClass state ReviewerClass;
            reporters = finishedForClass state ReporterClass;
            request = (''request'', InText (cs_Prompt s))
        in if planner = [] then dispatch env s state PlannerClass None [request]
           else if implementers = [] then
             dispatch env s state ImplementerClass (Some (last planner))
               [request, (''previous'', InReport (reportForTask state (ti_TaskID (last planner))))]
           else if reviewers = [] then
             dispatch env s state ReviewerClass (Some (last implementers))
               [request, (''previous'', InReport (reportForTask state (ti_TaskID (last implementers))))]
           else
             let latestReview = reportForTask state (ti_TaskID (last reviewers))
             in if reviewVerdict latestReview = ''revise'' \<and> length implementers = 1 then
                  dispatch env s state ImplementerClass (Some (last reviewers))
                    [request, (''previous'', InReport latestReview), (''revision'', InInt 1)]
                else if length implementers = 2 \<and> length reviewers = 1 then
                  dispatch env s state ReviewerClass (Some (last implementers))
                    [request, (''previous'', InReport (reportForTask state (ti_TaskID (last implementers)))),
                     (''revision'', InInt 1)]
                else if reporters \<noteq> [] then Inr []
                else
                  dispatch env s state ReporterClass (Some (last reviewers))
                    ([request, (''previous'', InReport latestReview)] @
                     (if reviewVerdict latestReview = ''revise''
                      then [(''revision_limit_reached'', InBool True)] else [])))"

section \<open>Folding outcomes into the snapshot\<close>

definition teamResultReport :: "team_env \<Rightarrow> agent_result \<Rightarrow> typed_report" where
  "teamResultReport env result =
     (let report = \<lparr>tr_Status = ReportStatusSuccess, tr_Summary = ar_Text result, tr_Kind = [],
            tr_Structured = (if ar_Structured result \<noteq> [] then unmarshal env (ar_Structured result) else None)\<rparr>
      in case ar_Failure result of
           None \<Rightarrow> report
         | Some f \<Rightarrow> report\<lparr>tr_Status := ReportStatusFailed, tr_Kind := af_Kind f, tr_Summary := af_Error f\<rparr>)"

definition finished_task :: "team_env \<Rightarrow> team_dispatch \<Rightarrow> agent_result \<Rightarrow> team_task" where
  "finished_task env d result =
     (let t = (td_Task d)\<lparr>tk_Result := Some (teamResultReport env result), tk_Status := TaskStatusCompleted\<rparr>
      in case ar_Failure result of
           None \<Rightarrow> t
         | Some f \<Rightarrow> t\<lparr>tk_Status := TaskStatusFailed, tk_Error := af_Error f\<rparr>)"

definition finished_instance :: "team_dispatch \<Rightarrow> agent_result \<Rightarrow> team_instance" where
  "finished_instance d result =
     \<lparr>ti_ID = td_To d, ti_ClassName = td_ClassName d, ti_AgentClassName = td_AgentClassName d,
      ti_RunID = tk_RunID (td_Task d), ti_TaskID = tk_ID (td_Task d),
      ti_State = (if ar_Failure result \<noteq> None then TeamInstanceFailed else TeamInstanceFinished)\<rparr>"

text \<open>One iteration of the loop; the sets of known ids are those of the state.\<close>

definition fold_outcome :: "team_env \<Rightarrow> team_dispatch \<Rightarrow> agent_result \<Rightarrow> team_state \<Rightarrow> team_state" where
  "fold_outcome env d result state =
     (let state = (if \<exists>t \<in> set (ts_Tasks state). tk_ID t = tk_ID (td_Task d) then state
                   else state\<lparr>ts_Tasks := ts_Tasks state @ [finished_task env d result]\<rparr>)
      in if \<exists>i \<in> set (ts_Instances state). ti_ID i = td_To d then state
         else state\<lparr>ts_Instances := ts_Instances state @ [finished_instance d result]\<rparr>)"

fun fold_outcomes ::
  "team_env \<Rightarrow> team_outcome list \<Rightarrow> team_state \<Rightarrow> error option \<times> team_state" where
  "fold_outcomes env [] state = (None, state)"
| "fold_outcomes env (oc # ocs) state =
     (case oc_Dispatch oc of
        None \<Rightarrow> (Some (ErrMessage ''decode team dispatch''), state)
      | Some d \<Rightarrow> fold_outcomes env ocs (fold_outcome env d (oc_Result oc) state))"

definition foldTeamOrchestration ::
  "team_env \<Rightarrow> team_state \<Rightarrow> int \<Rightarrow> team_outcome list \<Rightarrow> error option \<times> team_state" where
  "foldTeamOrchestration env base tick outcomes = fold_outcomes env outcomes (base\<lparr>ts_Tick := tick\<rparr>)"

section \<open>Validation of a dispatch\<close>

text \<open>The loop over the task's, the dispatch's and the handoff's input; it returns the first
  input that is not empty.\<close>

fun agreed_input :: "team_env \<Rightarrow> string \<Rightarrow> string list \<Rightarrow> error + string" where
  "agreed_input env input [] = Inr input"
| "agreed_input env input (candidate # rest) =
     (if candidate = [] then agreed_input env input rest
      else if json_compact env candidate = None
      then Inl (ErrMessage ''team dispatch: input is not valid JSON'')
      else if input = [] then agreed_input env candidate rest
      else if json_compact env input \<noteq> json_compact env candidate
      then Inl (ErrMessage ''team dispatch: task, dispatch, and handoff inputs do not match'')
      else agreed_input env input rest)"

definition ValidateTeamDispatch :: "team_env \<Rightarrow> team_dispatch \<Rightarrow> error option" where
  "ValidateTeamDispatch env d =
     (case (case td_Handoff d of
              None \<Rightarrow> None
            | Some h \<Rightarrow>
                if th_RunID h \<noteq> [] \<and> th_RunID h \<noteq> tk_RunID (td_Task d)
                then Some (ErrMessage ''team dispatch: handoff run does not match task run'')
                else if th_To h \<noteq> [] \<and> th_To h \<noteq> td_To d
                then Some (ErrMessage ''team dispatch: handoff target does not match dispatch target'')
                else None) of
        Some e \<Rightarrow> Some e
      | None \<Rightarrow>
        (case agreed_input env [] ([tk_Input (td_Task d), td_Input d] @
                (case td_Handoff d of None \<Rightarrow> [] | Some h \<Rightarrow> [th_Payload h])) of
           Inl e \<Rightarrow> Some e
         | Inr input \<Rightarrow> ValidateJSON env (tk_InputSchema (td_Task d)) input))"

text \<open>\<^verbatim>\<open>teamSchedulerAdapter.Next\<close>: fold, schedule, then validate every dispatch before it is
  encoded for the orchestrator.\<close>

fun validated :: "team_env \<Rightarrow> team_dispatch list \<Rightarrow> error + team_dispatch list" where
  "validated env [] = Inr []"
| "validated env (d # ds) =
     (case ValidateTeamDispatch env d of
        Some e \<Rightarrow> Inl e
      | None \<Rightarrow> (case validated env ds of Inl e \<Rightarrow> Inl e | Inr ds' \<Rightarrow> Inr (d # ds')))"

definition adapter_next ::
  "team_env \<Rightarrow> coding_scheduler \<Rightarrow> team_state \<Rightarrow> int \<Rightarrow> team_outcome list \<Rightarrow> error + team_dispatch list" where
  "adapter_next env s base tick outcomes =
     (case foldTeamOrchestration env base tick outcomes of
        (Some e, _) \<Rightarrow> Inl e
      | (None, state) \<Rightarrow>
          (case Next env s state of Inl e \<Rightarrow> Inl e | Inr ds \<Rightarrow> validated env ds))"

section \<open>The plan\<close>

text \<open>
  The abstract scheduler sees the classes that finished, each with the verdict of its report:
  plan, implement, review, one revision and its review when the verdict is not an acceptance,
  then report.
\<close>

definition accepted :: "(string \<times> bool) list \<Rightarrow> bool" where
  "accepted rs = snd (last (filter (\<lambda>(c, v). c = ReviewerClass) rs))"

definition team_plan :: "(string \<times> bool) list \<Rightarrow> string option" where
  "team_plan rs =
     (let cs = map fst rs
      in if PlannerClass \<notin> set cs then Some PlannerClass
         else if ImplementerClass \<notin> set cs then Some ImplementerClass
         else if ReviewerClass \<notin> set cs then Some ReviewerClass
         else if \<not> accepted rs \<and> count_list cs ImplementerClass = 1 then Some ImplementerClass
         else if count_list cs ImplementerClass = 2 \<and> count_list cs ReviewerClass = 1 then Some ReviewerClass
         else if ReporterClass \<in> set cs then None
         else Some ReporterClass)"

text \<open>The order of the roles: with or without the revision.\<close>

definition team_order :: "bool \<Rightarrow> string list" where
  "team_order accept =
     (if accept then [PlannerClass, ImplementerClass, ReviewerClass, ReporterClass]
      else [PlannerClass, ImplementerClass, ReviewerClass, ImplementerClass, ReviewerClass, ReporterClass])"

section \<open>The control loop\<close>

text \<open>
  \<^verbatim>\<open>driveTeam\<close>: at most \<^verbatim>\<open>teamMaxTicks\<close> ticks, 64 when it is not configured. A tick is one call of
  the orchestrator's \<^verbatim>\<open>Drive\<close> with a limit of one tick: it asks the scheduler, is done when there
  is nothing to dispatch, and otherwise executes the dispatch and stops with \<^verbatim>\<open>ErrMaxTicks\<close>. The
  outcomes are folded into the snapshot after every tick, and the next tick starts from that
  snapshot. \<open>results n\<close> is the result of the agent dispatched in tick \<open>n\<close>.
\<close>

datatype team_end = TeamCompleted | TeamFailed error | TeamMaxTicks

definition team_max_ticks :: "int \<Rightarrow> nat" where
  "team_max_ticks configured = (if configured \<le> 0 then 64 else nat configured)"

fun drive_team ::
  "team_env \<Rightarrow> coding_scheduler \<Rightarrow> (nat \<Rightarrow> agent_result) \<Rightarrow> nat \<Rightarrow> team_state \<Rightarrow> team_outcome list \<Rightarrow>
   team_end \<times> team_state \<times> team_outcome list" where
  "drive_team env s results 0 state outs = (TeamMaxTicks, state, outs)"
| "drive_team env s results (Suc ticks) state outs =
     (case adapter_next env s state (int (length outs)) outs of
        Inl e \<Rightarrow> (TeamFailed e, snd (foldTeamOrchestration env state (int (length outs)) outs), outs)
      | Inr ds \<Rightarrow>
          (case ds of
             [] \<Rightarrow>
               (case foldTeamOrchestration env state (int (length outs)) outs of
                  (Some e, state) \<Rightarrow> (TeamFailed e, state, outs)
                | (None, state) \<Rightarrow> (TeamCompleted, state, outs))
           | d # _ \<Rightarrow>
               (let outs = outs @ [\<lparr>oc_Dispatch = Some d, oc_Result = results (length outs)\<rparr>]
                in case foldTeamOrchestration env state (int (length outs)) outs of
                     (Some e, state) \<Rightarrow> (TeamFailed e, state, outs)
                   | (None, state) \<Rightarrow> drive_team env s results ticks state outs)))"

section \<open>Identifiers\<close>

lemma last_part_eq:
  assumes "xs @ c # s = ys @ c # t" and "c \<notin> set s" and "c \<notin> set t"
  shows "s = t"
proof -
  have "takeWhile (\<lambda>x. x \<noteq> c) (rev (xs @ c # s)) = rev s" "takeWhile (\<lambda>x. x \<noteq> c) (rev (ys @ c # t)) = rev t"
    using assms(2,3) by (simp_all add: takeWhile_append)
  with assms(1) show ?thesis by simp
qed

definition task_id :: "string \<Rightarrow> string \<Rightarrow> nat \<Rightarrow> string" where
  "task_id run c n = run @ ''-'' @ c @ (if n > 1 then ''-attempt-'' @ Itoa n else [])"

definition team_classes :: "string set" where
  "team_classes = {PlannerClass, ImplementerClass, ReviewerClass, ReporterClass}"

lemma task_id_inj:
  assumes "task_id run c n = task_id run d m" and "c \<in> team_classes" and "d \<in> team_classes"
    and "n > 0" and "m > 0"
  shows "c = d \<and> n = m"
proof -
  let ?sfx = "\<lambda>n. if n > 1 then ''-attempt-'' @ Itoa n else []"
  have eq: "c @ ?sfx n = d @ ?sfx m" using assms(1) by (simp add: task_id_def)
  have cls: "takeWhile (\<lambda>x. x \<noteq> CHR ''-'') (e @ ?sfx k) = e" if "e \<in> team_classes" for e k
    using that by (auto simp: team_classes_def class_names)
  have cd: "c = d" using arg_cong [OF eq, of "takeWhile (\<lambda>x. x \<noteq> CHR ''-'')"] cls assms(2,3) by simp
  with eq have "?sfx n = ?sfx m" by simp
  then have "n = m" using assms(4,5) Itoa_inj by (auto split: if_splits)
  with cd show ?thesis ..
qed

text \<open>What is hashed to the ids of the instances of a run: six instances of the four roles.\<close>

definition instance_name :: "string \<Rightarrow> string \<Rightarrow> nat \<Rightarrow> nat \<Rightarrow> string" where
  "instance_name run c n i =
     (TrimSpace c @ ''|'' @ TrimSpace run @ ''|'' @ TrimSpace (task_id run c n)) @ CHR ''|'' # Itoa i"

definition run_names :: "string \<Rightarrow> string set" where
  "run_names run = {instance_name run c n i | c n i. c \<in> team_classes \<and> n \<le> 6 \<and> i < 6}"

lemma run_names_finite: "finite (run_names run)"
proof -
  have "run_names run = (\<lambda>(c, n, i). instance_name run c n i) ` (team_classes \<times> {..6} \<times> {..<6})"
    by (auto simp: run_names_def image_iff) blast
  moreover have "finite team_classes" by (simp add: team_classes_def)
  ultimately show ?thesis by simp
qed

lemma instance_id_name:
  "ComputeTeamInstanceID env c run (task_id run c n) (Itoa i) = ''ai-'' @ sha8 env (instance_name run c n i)"
  by (simp add: ComputeTeamInstanceID_def instance_name_def TrimSpace_Itoa)

lemma instance_id_inj:
  assumes "inj_on (sha8 env) (run_names run)"
    and "ComputeTeamInstanceID env c run (task_id run c n) (Itoa i) =
         ComputeTeamInstanceID env d run (task_id run d m) (Itoa j)"
    and "c \<in> team_classes" "d \<in> team_classes" "n \<le> 6" "m \<le> 6" "i < 6" "j < 6"
  shows "i = j"
proof -
  have "instance_name run c n i \<in> run_names run" "instance_name run d m j \<in> run_names run"
    using assms(3-8) unfolding run_names_def by blast+
  then have eq: "instance_name run c n i = instance_name run d m j"
    using assms(1,2) by (simp add: instance_id_name inj_on_eq_iff)
  have bar: "CHR ''|'' \<notin> set (Itoa n)" for n using Itoa_digits [of "CHR ''|''" n] by auto
  have "Itoa i = Itoa j" by (rule last_part_eq [OF eq [unfolded instance_name_def] bar bar])
  then show ?thesis by (rule Itoa_inj)
qed

section \<open>The state of a run\<close>

definition task_ids :: "string \<Rightarrow> string list \<Rightarrow> string list" where
  "task_ids run cs = map (\<lambda>k. task_id run (cs ! k) (count_list (take (Suc k) cs) (cs ! k))) [0..<length cs]"

lemma task_ids_snoc:
  "task_ids run (cs @ [c]) = task_ids run cs @ [task_id run c (count_list cs c + 1)]"
  by (auto simp: task_ids_def nth_append)

lemma count_take: "count_list (take k cs) c \<le> count_list cs c"
  by (metis append_take_drop_id count_list_append le_add1)

lemma count_take_pos: "k < length cs \<Longrightarrow> count_list (take (Suc k) cs) (cs ! k) > 0"
  by (simp add: take_Suc_conv_app_nth)

lemma task_id_fresh:
  assumes "set cs \<subseteq> team_classes" and "c \<in> team_classes"
  shows "task_id run c (count_list cs c + 1) \<notin> set (task_ids run cs)"
proof
  assume "task_id run c (count_list cs c + 1) \<in> set (task_ids run cs)"
  then obtain k where k: "k < length cs"
    "task_id run c (count_list cs c + 1) = task_id run (cs ! k) (count_list (take (Suc k) cs) (cs ! k))"
    by (auto simp: task_ids_def)
  have "cs ! k \<in> team_classes" using assms(1) k(1) by auto
  from task_id_inj [OF k(2) assms(2) this _ count_take_pos [OF k(1)]]
  have "count_list cs c + 1 = count_list (take (Suc k) cs) c" by auto
  with count_take [of "Suc k" cs c] show False by linarith
qed

lemma distinct_task_ids: "set cs \<subseteq> team_classes \<Longrightarrow> distinct (task_ids run cs)"
  by (induction cs rule: rev_induct) (auto simp: task_ids_snoc task_id_fresh [simplified], simp add: task_ids_def)

definition result_accepts :: "team_env \<Rightarrow> agent_result \<Rightarrow> bool" where
  "result_accepts env r \<longleftrightarrow> reviewVerdict (Some (teamResultReport env r)) = ''accept''"

text \<open>The snapshot after rounds of the classes \<open>cs\<close> with the results \<open>rs\<close>, all successful.\<close>

definition team_ok :: "team_env \<Rightarrow> string \<Rightarrow> string list \<Rightarrow> agent_result list \<Rightarrow> team_state \<Rightarrow> bool" where
  "team_ok env run cs rs st \<longleftrightarrow> ts_RunID st = run \<and> set cs \<subseteq> team_classes \<and> length rs = length cs \<and>
     map ti_ClassName (ts_Instances st) = cs \<and> (\<forall>i \<in> set (ts_Instances st). ti_State i = TeamInstanceFinished) \<and>
     map ti_TaskID (ts_Instances st) = task_ids run cs \<and> map tk_ID (ts_Tasks st) = task_ids run cs \<and>
     map tk_Result (ts_Tasks st) = map (\<lambda>r. Some (teamResultReport env r)) rs \<and>
     (\<forall>k < length cs. ti_ID (ts_Instances st ! k) = ComputeTeamInstanceID env (cs ! k) run
        (task_id run (cs ! k) (count_list (take (Suc k) cs) (cs ! k))) (Itoa k))"

lemma team_ok_fold:
  assumes "team_ok env run cs rs st" and "inj_on (sha8 env) (run_names run)" and "c \<in> team_classes"
    and "dispatch env s st c from input = Inr [d]" and "ar_Failure r = None" and "length cs < 6"
  shows "team_ok env run (cs @ [c]) (rs @ [r]) (fold_outcome env d r st)"
proof -
  have run: "ts_RunID st = run" and cls: "map ti_ClassName (ts_Instances st) = cs" "set cs \<subseteq> team_classes"
    using assms(1) by (simp_all add: team_ok_def)
  have len: "length (ts_Instances st) = length cs" using arg_cong [OF cls(1), of length] by simp
  have cnt: "classAttemptCount st c = count_list cs c"
    using cls(1) by (simp add: classAttemptCount_def count_list_eq_length_filter filter_map o_def eq_commute flip: cls(1))
  have d: "td_ClassName d = c" "tk_ID (td_Task d) = task_id run c (count_list cs c + 1)"
    "td_To d = ComputeTeamInstanceID env c run (tk_ID (td_Task d)) (Itoa (length cs))"
    using assms(4) run cnt len
    by (auto simp: dispatch_def team_task_id_def task_id_def Let_def split: option.splits)
  have "tk_ID (td_Task d) \<notin> set (map tk_ID (ts_Tasks st))"
    using assms(1) task_id_fresh [OF cls(2) assms(3)] d(2) by (simp add: team_ok_def)
  moreover have "td_To d \<notin> set (map ti_ID (ts_Instances st))"
  proof
    assume "td_To d \<in> set (map ti_ID (ts_Instances st))"
    then obtain k where k: "k < length cs" "td_To d = ti_ID (ts_Instances st ! k)"
      using len by (auto simp: in_set_conv_nth)
    let ?n = "count_list (take (Suc k) cs) (cs ! k)"
    from assms(1) k have "td_To d = ComputeTeamInstanceID env (cs ! k) run (task_id run (cs ! k) ?n) (Itoa k)"
      unfolding team_ok_def by metis
    then have eq: "ComputeTeamInstanceID env c run (task_id run c (count_list cs c + 1)) (Itoa (length cs)) =
        ComputeTeamInstanceID env (cs ! k) run (task_id run (cs ! k) ?n) (Itoa k)" using d(2,3) by simp
    have "cs ! k \<in> team_classes" using cls(2) nth_mem [OF k(1)] by blast
    moreover have "count_list cs c + 1 \<le> 6" using count_le_length [of cs c] assms(6) by simp
    moreover have "?n \<le> 6" using count_le_length [of "take (Suc k) cs" "cs ! k"] k(1) assms(6) by simp
    ultimately have "length cs = k" using instance_id_inj [OF assms(2) eq assms(3)] k(1) assms(6) by simp
    with k(1) show False by simp
  qed
  ultimately have "\<not> (\<exists>t \<in> set (ts_Tasks st). tk_ID t = tk_ID (td_Task d))"
    "\<not> (\<exists>i \<in> set (ts_Instances st). ti_ID i = td_To d)" by (auto simp: image_iff)
  then have fold: "fold_outcome env d r st =
      st\<lparr>ts_Tasks := ts_Tasks st @ [finished_task env d r],
         ts_Instances := ts_Instances st @ [finished_instance d r]\<rparr>"
    by (simp add: fold_outcome_def Let_def)
  show ?thesis
    using assms(1,3,5) d len unfolding fold team_ok_def
    by (auto simp: task_ids_snoc finished_task_def finished_instance_def nth_append less_Suc_eq)
qed

section \<open>The scheduler refines the plan\<close>

lemma last_filter_nth:
  assumes "filter P xs \<noteq> []"
  shows "\<exists>k < length xs. P (xs ! k) \<and> last (filter P xs) = xs ! k \<and> (\<forall>j. k < j \<longrightarrow> j < length xs \<longrightarrow> \<not> P (xs ! j))"
  using assms
proof (induction xs rule: rev_induct)
  case (snoc x xs)
  show ?case
  proof (cases "P x")
    case True
    then show ?thesis by (intro exI [of _ "length xs"]) (auto simp: nth_append)
  next
    case False
    with snoc obtain k where "k < length xs" "P (xs ! k)" "last (filter P xs) = xs ! k"
      "\<forall>j. k < j \<longrightarrow> j < length xs \<longrightarrow> \<not> P (xs ! j)" by auto
    with False show ?thesis by (intro exI [of _ k]) (auto simp: nth_append less_Suc_eq)
  qed
qed simp

lemma find_by_key:
  assumes "distinct (map f xs)" and "k < length xs"
  shows "find (\<lambda>x. f x = f (xs ! k)) (rev xs) = Some (xs ! k)"
proof -
  have "find (\<lambda>x. f x = f (xs ! k)) (rev xs) \<noteq> None"
    unfolding find_None_iff using nth_mem [OF assms(2)] by auto
  then obtain y where y: "find (\<lambda>x. f x = f (xs ! k)) (rev xs) = Some y" by blast
  then have "f y = f (xs ! k)" "y \<in> set xs" by (auto dest: find_SomeD)
  with assms have "y = xs ! k" by (auto simp: distinct_map inj_on_def)
  with y show ?thesis by simp
qed

text \<open>The report the scheduler reads is that of the last reviewer.\<close>

lemma latest_review:
  assumes "team_ok env run cs rs st" and "ReviewerClass \<in> set cs"
  shows "reviewVerdict (reportForTask st (ti_TaskID (last (finishedForClass st ReviewerClass)))) = ''accept'' \<longleftrightarrow>
    accepted (zip cs (map (result_accepts env) rs))"
proof -
  let ?is = "ts_Instances st" and ?P = "\<lambda>i. ti_ClassName i = ReviewerClass \<and> ti_State i = TeamInstanceFinished"
  let ?zs = "zip cs (map (result_accepts env) rs)" and ?Q = "\<lambda>(c, v). c = ReviewerClass"
  have ok: "map ti_ClassName ?is = cs" "\<forall>i \<in> set ?is. ti_State i = TeamInstanceFinished" "length rs = length cs"
    "map ti_TaskID ?is = task_ids run cs" "map tk_ID (ts_Tasks st) = task_ids run cs"
    "map tk_Result (ts_Tasks st) = map (\<lambda>r. Some (teamResultReport env r)) rs" "set cs \<subseteq> team_classes"
    using assms(1) by (simp_all add: team_ok_def)
  have len: "length ?is = length cs" "length (ts_Tasks st) = length cs"
    using arg_cong [OF ok(1), of length] arg_cong [OF ok(6), of length] ok(3) by simp_all
  have cls: "ti_ClassName (?is ! j) = cs ! j" "ti_State (?is ! j) = TeamInstanceFinished" if "j < length cs" for j
    using arg_cong [OF ok(1), of "\<lambda>xs. xs ! j"] that len ok(2) by simp_all
  obtain m where m: "m < length cs" "cs ! m = ReviewerClass" using assms(2) by (auto simp: in_set_conv_nth)
  have "?is ! m \<in> set (filter ?P ?is)" using m cls [of m] len by simp
  then have "filter ?P ?is \<noteq> []" by (metis empty_iff list.set(1))
  from last_filter_nth [OF this] obtain k where k: "k < length cs" "cs ! k = ReviewerClass"
    "last (filter ?P ?is) = ?is ! k" "\<forall>j. k < j \<longrightarrow> j < length cs \<longrightarrow> cs ! j \<noteq> ReviewerClass"
    using len cls by auto
  have "?zs ! m \<in> set (filter ?Q ?zs)" using m ok(3) by (simp add: in_set_conv_nth exI [of _ m])
  then have "filter ?Q ?zs \<noteq> []" by (metis empty_iff list.set(1))
  from last_filter_nth [OF this] obtain k' where k': "k' < length cs" "cs ! k' = ReviewerClass"
    "last (filter ?Q ?zs) = ?zs ! k'" "\<forall>j. k' < j \<longrightarrow> j < length cs \<longrightarrow> cs ! j \<noteq> ReviewerClass"
    using ok(3) by auto
  have eq: "k' = k" using k k' by (metis linorder_neqE_nat)
  have acc: "accepted ?zs = result_accepts env (rs ! k)" using k'(3) eq k(1) ok(3) by (simp add: accepted_def)
  have "ti_TaskID (?is ! k) = tk_ID (ts_Tasks st ! k)"
    using arg_cong [OF ok(4), of "\<lambda>xs. xs ! k"] arg_cong [OF ok(5), of "\<lambda>xs. xs ! k"] len k(1) by simp
  moreover have "distinct (map tk_ID (ts_Tasks st))" using distinct_task_ids [OF ok(7)] ok(5) by simp
  ultimately have "find (\<lambda>t. tk_ID t = ti_TaskID (?is ! k)) (rev (ts_Tasks st)) = Some (ts_Tasks st ! k)"
    using find_by_key len k(1) by metis
  moreover have "tk_Result (ts_Tasks st ! k) = Some (teamResultReport env (rs ! k))"
    using arg_cong [OF ok(6), of "\<lambda>xs. xs ! k"] len k(1) ok(3) by simp
  ultimately have "reportForTask st (ti_TaskID (last (finishedForClass st ReviewerClass))) =
      Some (teamResultReport env (rs ! k))"
    using k(3) by (simp add: reportForTask_def finishedForClass_def)
  with acc show ?thesis by (simp add: result_accepts_def)
qed

text \<open>Every finished class has a report.\<close>

lemma report_known:
  assumes "team_ok env run cs rs st" and "c \<in> set cs"
  shows "\<exists>r. reportForTask st (ti_TaskID (last (finishedForClass st c))) = Some r"
proof -
  have ok: "map ti_ClassName (ts_Instances st) = cs" "\<forall>i \<in> set (ts_Instances st). ti_State i = TeamInstanceFinished"
    "map ti_TaskID (ts_Instances st) = task_ids run cs" "map tk_ID (ts_Tasks st) = task_ids run cs"
    "map tk_Result (ts_Tasks st) = map (\<lambda>r. Some (teamResultReport env r)) rs"
    using assms(1) by (simp_all add: team_ok_def)
  have "finishedForClass st c \<noteq> []"
    using assms(2) ok(2) unfolding ok(1) [symmetric] by (auto simp: finishedForClass_def filter_empty_conv)
  then have "last (finishedForClass st c) \<in> set (ts_Instances st)"
    using last_in_set by (fastforce simp: finishedForClass_def)
  then have "ti_TaskID (last (finishedForClass st c)) \<in> set (map tk_ID (ts_Tasks st))"
    unfolding ok(4) ok(3) [symmetric] by simp
  then obtain t where "t \<in> set (rev (ts_Tasks st))" "tk_ID t = ti_TaskID (last (finishedForClass st c))" by auto
  from find_ex [OF this(1), of "\<lambda>t. tk_ID t = ti_TaskID (last (finishedForClass st c))"] this(2)
  obtain u where u: "find (\<lambda>t. tk_ID t = ti_TaskID (last (finishedForClass st c))) (rev (ts_Tasks st)) = Some u" by blast
  then have "tk_Result u \<in> set (map tk_Result (ts_Tasks st))" by (auto dest: find_SomeD)
  then show ?thesis unfolding ok(5) using u by (auto simp: reportForTask_def)
qed

text \<open>The inputs the scheduler dispatches: the request, the previous report and what is said of the
  revision.\<close>

definition team_input :: "coding_scheduler \<Rightarrow> input_map \<Rightarrow> bool" where
  "team_input s input \<longleftrightarrow> (\<exists>previous extra.
     input = (''request'', InText (cs_Prompt s)) # previous @ extra \<and>
     (previous = [] \<or> (\<exists>r. previous = [(''previous'', InReport (Some r))])) \<and>
     extra \<in> {[], [(''revision'', InInt 1)], [(''revision_limit_reached'', InBool True)]})"

lemma team_input_intros:
  "team_input s [(''request'', InText (cs_Prompt s))]"
  "team_input s [(''request'', InText (cs_Prompt s)), (''previous'', InReport (Some r))]"
  "team_input s [(''request'', InText (cs_Prompt s)), (''previous'', InReport (Some r)), (''revision'', InInt 1)]"
  "team_input s [(''request'', InText (cs_Prompt s)), (''previous'', InReport (Some r)),
     (''revision_limit_reached'', InBool True)]"
proof -
  let ?p = "[(''previous'', InReport (Some r))]" and ?r = "(''request'', InText (cs_Prompt s))"
  show "team_input s [?r]" unfolding team_input_def by (intro exI [of _ "[]"]) simp
  show "team_input s (?r # ?p)" unfolding team_input_def by (intro exI [of _ ?p] exI [of _ "[]"]) simp
  show "team_input s [?r, (''previous'', InReport (Some r)), (''revision'', InInt 1)]" unfolding team_input_def
    by (intro exI [of _ ?p] exI [of _ "[(''revision'', InInt 1)]"]) simp
  show "team_input s [?r, (''previous'', InReport (Some r)), (''revision_limit_reached'', InBool True)]" unfolding team_input_def
    by (intro exI [of _ ?p] exI [of _ "[(''revision_limit_reached'', InBool True)]"]) simp
qed

definition dispatches ::
  "team_env \<Rightarrow> coding_scheduler \<Rightarrow> team_state \<Rightarrow> string \<Rightarrow> (error + team_dispatch list) \<Rightarrow> bool" where
  "dispatches env s st c out \<longleftrightarrow> (\<exists>from input. team_input s input \<and> out = dispatch env s st c from input)"

lemma dispatchesI: "team_input s input \<Longrightarrow> dispatches env s st c (dispatch env s st c frm input)"
  unfolding dispatches_def by blast

lemma reviewVerdict_cases: "reviewVerdict r = ''revise'' \<longleftrightarrow> reviewVerdict r \<noteq> ''accept''"
  by (auto simp: reviewVerdict_def Let_def split: option.split)

lemma Next_plan:
  assumes "team_ok env run cs rs st"
  shows "case team_plan (zip cs (map (result_accepts env) rs)) of
      None \<Rightarrow> Next env s st = Inr []
    | Some c \<Rightarrow> c \<in> team_classes \<and> dispatches env s st c (Next env s st)"
proof -
  have ok: "map ti_ClassName (ts_Instances st) = cs" "length rs = length cs"
    "\<forall>i \<in> set (ts_Instances st). ti_State i = TeamInstanceFinished"
    using assms by (simp_all add: team_ok_def)
  have fin: "finishedForClass st c = filter (\<lambda>i. ti_ClassName i = c) (ts_Instances st)" for c
    unfolding finishedForClass_def using ok(3) by (intro filter_cong) auto
  have empty: "finishedForClass st c = [] \<longleftrightarrow> c \<notin> set cs" for c
    unfolding fin ok(1) [symmetric] by (auto simp: filter_empty_conv)
  have cnt: "length (finishedForClass st c) = count_list cs c" for c
    unfolding fin ok(1) [symmetric] by (simp add: count_list_eq_length_filter filter_map o_def eq_commute)
  have act: "\<not> activeOrFailed st" using ok(3) by (auto simp: activeOrFailed_def)
  have fst: "map fst (zip cs (map (result_accepts env) rs)) = cs" using ok(2) by simp
  obtain rp where rp: "reportForTask st (ti_TaskID (last (finishedForClass st c))) = Some (rp c)" if "c \<in> set cs" for c
    using report_known [OF assms] by metis
  note review = latest_review [OF assms]
  show ?thesis
  proof (cases "PlannerClass \<in> set cs \<and> ImplementerClass \<in> set cs \<and> ReviewerClass \<in> set cs")
    case False
    then show ?thesis
      using act rp
      by (auto simp: team_plan_def Next_def Let_def empty fst team_classes_def intro!: dispatchesI team_input_intros)
  next
    case True
    then show ?thesis
      using act review rp
      by (auto simp: team_plan_def Next_def Let_def empty cnt fst reviewVerdict_cases team_classes_def intro!: dispatchesI team_input_intros)
  qed
qed

text \<open>What a run needs: the digests of the run's instance names do not collide, and the inputs the
  scheduler dispatches encode to JSON that satisfies the input schemas of the four configured
  classes.\<close>

definition team_ready :: "team_env \<Rightarrow> coding_scheduler \<Rightarrow> string \<Rightarrow> bool" where
  "team_ready env s run \<longleftrightarrow> inj_on (sha8 env) (run_names run) \<and>
     (\<forall>input. team_input s input \<longrightarrow> (\<exists>raw. marshal env input = Some raw \<and> json_compact env raw \<noteq> None \<and>
        (\<forall>c \<in> team_classes. \<exists>cl. tget (cs_Classes s) c = Some cl \<and>
           ValidateJSON env (tc_InputSchema cl) raw = None)))"

definition fresh_team :: "string \<Rightarrow> team_state" where
  "fresh_team run = \<lparr>ts_RunID = run, ts_Tick = 0, ts_Tasks = [], ts_Instances = []\<rparr>"

lemma dispatch_ready:
  assumes "team_ready env s run" and "c \<in> team_classes" and "team_input s input"
  obtains d where "dispatch env s st c from input = Inr [d]" "td_ClassName d = c"
    "ValidateTeamDispatch env d = None"
proof -
  obtain cl raw where "tget (cs_Classes s) c = Some cl" "marshal env input = Some raw"
    "json_compact env raw \<noteq> None" "ValidateJSON env (tc_InputSchema cl) raw = None"
    using assms unfolding team_ready_def by metis
  then have "\<exists>d. dispatch env s st c from input = Inr [d] \<and> td_ClassName d = c \<and>
      ValidateTeamDispatch env d = None"
    by (cases "raw = []")
       (auto simp: dispatch_def Let_def ValidateTeamDispatch_def split: option.split)
  with that show thesis by blast
qed

lemma tick_irrelevant [simp]:
  "team_ok env run cs rs (st\<lparr>ts_Tick := t\<rparr>) = team_ok env run cs rs st"
  "dispatch env s (st\<lparr>ts_Tick := t\<rparr>) c from input = dispatch env s st c from input"
  "fold_outcome env d r (st\<lparr>ts_Tick := t\<rparr>) = (fold_outcome env d r st)\<lparr>ts_Tick := t\<rparr>"
  by (simp_all add: team_ok_def dispatch_def team_task_id_def classAttemptCount_def fold_outcome_def Let_def
      split: option.split)

lemma fold_outcomes_tick:
  "fold_outcomes env ocs (st\<lparr>ts_Tick := t\<rparr>) =
     (fst (fold_outcomes env ocs st), (snd (fold_outcomes env ocs st))\<lparr>ts_Tick := t\<rparr>)"
  by (induction ocs arbitrary: st) (auto split: option.split)

lemma fold_outcomes_append:
  "fold_outcomes env (xs @ ys) st =
     (case fold_outcomes env xs st of (None, st') \<Rightarrow> fold_outcomes env ys st' | r \<Rightarrow> r)"
  by (induction xs arbitrary: st) (auto split: option.split)

section \<open>Replay\<close>

text \<open>Folding is monotone in the known ids, and an outcome whose ids are known changes nothing.\<close>

definition folded :: "team_dispatch \<Rightarrow> team_state \<Rightarrow> bool" where
  "folded d st \<longleftrightarrow> (\<exists>t \<in> set (ts_Tasks st). tk_ID t = tk_ID (td_Task d)) \<and>
     (\<exists>i \<in> set (ts_Instances st). ti_ID i = td_To d)"

lemma folded_fold: "folded d (fold_outcome env d r st)"
  by (auto simp: folded_def fold_outcome_def Let_def finished_task_def finished_instance_def split: option.split)

lemma folded_mono: "folded d st \<Longrightarrow> folded d (fold_outcome env d' r st)"
  by (auto simp: folded_def fold_outcome_def Let_def)

lemma fold_known: "folded d st \<Longrightarrow> fold_outcome env d r st = st"
  by (auto simp: folded_def fold_outcome_def Let_def)

lemma folded_fold_outcomes:
  "fold_outcomes env ocs st = (None, st') \<Longrightarrow> folded d st \<Longrightarrow> folded d st'"
  by (induction ocs arbitrary: st) (auto simp: folded_mono split: option.splits)

lemma fold_outcomes_folded:
  "fold_outcomes env ocs st = (None, st') \<Longrightarrow> oc \<in> set ocs \<Longrightarrow>
     \<exists>d. oc_Dispatch oc = Some d \<and> folded d st'"
  by (induction ocs arbitrary: st)
     (auto split: option.splits dest: folded_fold_outcomes [OF _ folded_fold])

lemma refold_same:
  "\<forall>oc \<in> set ocs. \<exists>d. oc_Dispatch oc = Some d \<and> folded d st \<Longrightarrow> fold_outcomes env ocs st = (None, st)"
  by (induction ocs) (auto simp: fold_known)

text \<open>Replay safety: folding the whole list of outcomes into a snapshot that already contains a
  prefix of them gives the same snapshot as folding it into the original one.\<close>

theorem team_fold_replay:
  assumes "foldTeamOrchestration env base tick0 done_outcomes = (None, st)"
  shows "foldTeamOrchestration env st tick (done_outcomes @ new_outcomes) =
    foldTeamOrchestration env base tick (done_outcomes @ new_outcomes)"
proof -
  let ?b = "base\<lparr>ts_Tick := tick\<rparr>"
  have st: "fold_outcomes env done_outcomes (base\<lparr>ts_Tick := tick0\<rparr>) = (None, st)"
    using assms by (simp add: foldTeamOrchestration_def)
  have b: "fold_outcomes env done_outcomes ?b = (None, st\<lparr>ts_Tick := tick\<rparr>)"
    using st fold_outcomes_tick [of env done_outcomes tick base] fold_outcomes_tick [of env done_outcomes tick0 base]
    by (auto simp: prod_eq_iff)
  have "fold_outcomes env done_outcomes (st\<lparr>ts_Tick := tick\<rparr>) = (None, st\<lparr>ts_Tick := tick\<rparr>)"
    using fold_outcomes_folded [OF b] by (intro refold_same) blast
  with b show ?thesis by (simp add: foldTeamOrchestration_def fold_outcomes_append)
qed

section \<open>A run ends\<close>

text \<open>The outcomes so far are all in the snapshot.\<close>

definition all_folded :: "team_outcome list \<Rightarrow> team_state \<Rightarrow> bool" where
  "all_folded outs st \<longleftrightarrow> (\<forall>oc \<in> set outs. \<exists>d. oc_Dispatch oc = Some d \<and> folded d st)"

lemma folded_tick [simp]: "folded d (st\<lparr>ts_Tick := t\<rparr>) = folded d st"
  by (simp add: folded_def)

lemma fold_all_folded: "all_folded outs st \<Longrightarrow> foldTeamOrchestration env st t outs = (None, st\<lparr>ts_Tick := t\<rparr>)"
  unfolding foldTeamOrchestration_def by (rule refold_same) (simp add: all_folded_def)

lemma fold_next:
  assumes "all_folded outs st"
  shows "foldTeamOrchestration env st t (outs @ [\<lparr>oc_Dispatch = Some d, oc_Result = r\<rparr>]) =
      (None, (fold_outcome env d r st)\<lparr>ts_Tick := t\<rparr>)"
    and "all_folded (outs @ [\<lparr>oc_Dispatch = Some d, oc_Result = r\<rparr>]) ((fold_outcome env d r st)\<lparr>ts_Tick := t\<rparr>)"
  using fold_all_folded [OF assms, of env t] folded_mono [of _ st env d r] folded_fold [of d env r st] assms
  by (auto simp: foldTeamOrchestration_def fold_outcomes_append all_folded_def)

lemma adapter_plan:
  assumes "team_ready env s run" and "all_folded outs st" and "team_ok env run cs rs st"
  shows "case team_plan (zip cs (map (result_accepts env) rs)) of
      None \<Rightarrow> adapter_next env s st t outs = Inr []
    | Some c \<Rightarrow> c \<in> team_classes \<and> (\<exists>from input d. dispatch env s st c from input = Inr [d] \<and>
        td_ClassName d = c \<and> adapter_next env s st t outs = Inr [d])"
proof -
  have nx: "adapter_next env s st t outs =
      (case Next env s (st\<lparr>ts_Tick := t\<rparr>) of Inl e \<Rightarrow> Inl e | Inr ds \<Rightarrow> validated env ds)"
    by (simp add: adapter_next_def fold_all_folded [OF assms(2)])
  have "team_ok env run cs rs (st\<lparr>ts_Tick := t\<rparr>)" using assms(3) by simp
  note plan = Next_plan [OF this, of s]
  show ?thesis
  proof (cases "team_plan (zip cs (map (result_accepts env) rs))")
    case None
    with plan nx show ?thesis by simp
  next
    case (Some c)
    with plan obtain frm input where
      c: "c \<in> team_classes" "team_input s input" "Next env s (st\<lparr>ts_Tick := t\<rparr>) = dispatch env s st c frm input" by (auto simp: dispatches_def)
    moreover obtain d where "dispatch env s st c frm input = Inr [d]" "td_ClassName d = c"
      "ValidateTeamDispatch env d = None" using dispatch_ready [OF assms(1) c(1,2)] by blast
    ultimately show ?thesis using Some nx by auto
  qed
qed

lemma plan_order:
  assumes "n \<le> length (team_order (a 2))"
  shows "team_plan (zip (take n (team_order (a 2))) (map a [0..<n])) =
    (if n < length (team_order (a 2)) then Some (team_order (a 2) ! n) else None)"
proof -
  have "n \<le> 6" using assms by (auto simp: team_order_def split: if_splits)
  then consider "n = 0" | "n = 1" | "n = 2" | "n = 3" | "n = 4" | "n = 5" | "n = 6" by linarith
  then show ?thesis
    using assms
    by cases (cases "a 2"; simp add: team_order_def team_plan_def accepted_def class_names upt_rec numeral_eq_Suc)+
qed

lemma team_order_length: "length (team_order b) \<le> 6" "set (team_order b) \<subseteq> team_classes"
  by (auto simp: team_order_def team_classes_def)

lemma drive_team_order:
  assumes "team_ready env s run" and "\<forall>n. ar_Failure (results n) = None"
    and "all_folded outs st" and "n = length outs" and "n \<le> length order"
    and "team_ok env run (take n order) (map results [0..<n]) st"
    and "map (\<lambda>oc. map_option td_ClassName (oc_Dispatch oc)) outs = map Some (take n order)"
    and "order = team_order (result_accepts env (results 2))"
  shows "\<exists>st' outs'. drive_team env s results ticks st outs =
      (if length order < n + ticks then TeamCompleted else TeamMaxTicks, st', outs') \<and>
    map (\<lambda>oc. map_option td_ClassName (oc_Dispatch oc)) outs' = map Some (take (n + ticks) order)"
  using assms(3-7)
proof (induction ticks arbitrary: st outs n)
  case 0
  then show ?case by simp
next
  case (Suc ticks)
  let ?a = "\<lambda>i. result_accepts env (results i)"
  have plan: "team_plan (zip (take n order) (map (result_accepts env) (map results [0..<n]))) =
      (if n < length order then Some (order ! n) else None)"
    using plan_order [of n ?a] Suc.prems(3) assms(8) by (simp add: comp_def)
  note step = adapter_plan [OF assms(1) Suc.prems(1,4), of "int n", unfolded plan]
  show ?case
  proof (cases "n < length order")
    case False
    then have "adapter_next env s st (int (length outs)) outs = Inr []" using step Suc.prems(2) by simp
    with False Suc.prems fold_all_folded [OF Suc.prems(1), of env "int (length outs)"] show ?thesis by auto
  next
    case True
    with step obtain frm input d where c: "order ! n \<in> team_classes" "dispatch env s st (order ! n) frm input = Inr [d]"
      "td_ClassName d = order ! n" "adapter_next env s st (int (length outs)) outs = Inr [d]"
      using Suc.prems(2) by auto
    let ?outs = "outs @ [\<lparr>oc_Dispatch = Some d, oc_Result = results n\<rparr>]"
    let ?st = "(fold_outcome env d (results n) st)\<lparr>ts_Tick := int (length ?outs)\<rparr>"
    have snoc: "take (Suc n) order = take n order @ [order ! n]" using True by (rule take_Suc_conv_app_nth)
    have "length (take n order) < 6" using True team_order_length(1) [of "?a 2"] assms(8) by simp
    moreover have "inj_on (sha8 env) (run_names run)" using assms(1) by (simp add: team_ready_def)
    ultimately have "team_ok env run (take n order @ [order ! n]) (map results [0..<n] @ [results n])
        (fold_outcome env d (results n) st)"
      using team_ok_fold [OF Suc.prems(4) _ c(1,2)] assms(2) by blast
    then have ok: "team_ok env run (take (Suc n) order) (map results [0..<Suc n]) ?st" by (simp add: snoc)
    have cls: "map (\<lambda>oc. map_option td_ClassName (oc_Dispatch oc)) ?outs = map Some (take (Suc n) order)"
      using Suc.prems(5) c(3) by (simp add: snoc)
    have "drive_team env s results (Suc ticks) st outs = drive_team env s results ticks ?st ?outs"
      using c(4) fold_next(1) [OF Suc.prems(1), of env "int (length ?outs)" d "results n"] Suc.prems(2) by simp
    with Suc.IH [OF fold_next(2) [OF Suc.prems(1)] _ _ ok cls] Suc.prems(2) True show ?thesis by simp
  qed
qed

section \<open>Guarantees\<close>


section \<open>Witnesses\<close>

text \<open>An encoding of the inputs as the list of their keys, and schemas that require the request.\<close>

definition ex_team_env :: team_env where
  "ex_team_env = \<lparr>marshal = (\<lambda>m. Some (concat (map (\<lambda>(k, v). k @ '';'') m))),
     unmarshal = (\<lambda>s. Some [(''verdict'', JString s)]), sha8 = id, json_compact = Some,
     ValidateJSON = (\<lambda>schema raw. if take 8 raw = ''request;'' then None else Some (ErrMessage ''request is required''))\<rparr>"

definition ex_class :: "string \<Rightarrow> team_class" where
  "ex_class name = \<lparr>tc_Name = name, tc_Tools = [''coding.shell''], tc_InputSchema = [], tc_OutputSchema = []\<rparr>"

definition ex_scheduler :: coding_scheduler where
  "ex_scheduler = \<lparr>cs_Prompt = ''p'',
     cs_Classes = map (\<lambda>c. (c, ex_class c)) [PlannerClass, ImplementerClass, ReviewerClass, ReporterClass],
     cs_RetryPolicy = \<lparr>rp_MaxAttempts = 1, rp_Backoff = 0, rp_MaxBackoff = 0\<rparr>, cs_ResourceClaims = []\<rparr>"

definition ex_result :: "string \<Rightarrow> agent_result" where
  "ex_result verdict = \<lparr>ar_Text = [], ar_Structured = verdict, ar_Failure = None\<rparr>"

lemma ex_team_ready: "team_ready ex_team_env ex_scheduler run"
proof -
  have classes: "\<exists>cl. tget (cs_Classes ex_scheduler) c = Some cl" if "c \<in> team_classes" for c
    using that by (auto simp: ex_scheduler_def team_classes_def tget_def class_names)
  have "ValidateJSON ex_team_env schema (concat (map (\<lambda>(k, v). k @ '';'') input)) = None"
    if "team_input ex_scheduler input" for input schema
    using that unfolding team_input_def by (auto simp: ex_team_env_def)
  with classes show ?thesis unfolding team_ready_def by (fastforce simp: ex_team_env_def)
qed

lemma ex_verdicts:
  "result_accepts ex_team_env (ex_result '' Accept '')" "\<not> result_accepts ex_team_env (ex_result ''no'')"
  by code_simp+


theorem team_fold_replay_witness:
  "\<exists>st outs. foldTeamOrchestration ex_team_env (fresh_team ''r'') 4 outs = (None, st) \<and> length (ts_Instances st) = 1 \<and>
    foldTeamOrchestration ex_team_env st 5 outs = foldTeamOrchestration ex_team_env (fresh_team ''r'') 5 outs"
proof -
  let ?outs = "snd (snd (drive_team ex_team_env ex_scheduler (\<lambda>_. ex_result ''no'') 1 (fresh_team ''r'') []))"
  have fst: "fst (foldTeamOrchestration ex_team_env (fresh_team ''r'') 4 ?outs) = None"
    "length (ts_Instances (snd (foldTeamOrchestration ex_team_env (fresh_team ''r'') 4 ?outs))) = 1"
    by code_simp+
  then have st: "foldTeamOrchestration ex_team_env (fresh_team ''r'') 4 ?outs =
      (None, snd (foldTeamOrchestration ex_team_env (fresh_team ''r'') 4 ?outs))"
    by (simp add: prod_eq_iff)
  from team_fold_replay [OF this, of 5 "[]"] st fst(2) show ?thesis by (metis append_Nil2)
qed

end
