(* ===== verification/Event_Broker.thy ===== *)
theory Event_Broker
  imports Prelude
begin

text \<open>
  The broker between the event producers of the application and its consumer,
  \<^verbatim>\<open>internal/app/event_broker.go\<close>, with the event kinds of
  \<^verbatim>\<open>internal/app/events.go\<close> and \<^verbatim>\<open>internal/app/contracts.go\<close>: an ordered queue in which
  adjacent stream deltas are merged, live agent snapshots replaced, and stream deltas dropped
  under pressure behind a resynchronisation notice.

  The mutex makes every call of \<open>Publish\<close> and \<open>Close\<close> and every round of the loop of \<open>Next\<close> one
  step; a history is the sequence of these steps. The notification channel only wakes the
  consumer and carries no data. A clone of an event is the event, since values are not shared
  here. The 35 payload fields of an event the broker only copies are one field, \<open>be_payload\<close>.
\<close>

section \<open>Events\<close>

datatype event_kind =
    EventBootstrapDone | EventSessionLoaded | EventRunState | EventSessionProjection |
  EventPromptQueueState | EventTodoUpdated | EventRunStarted | EventContextUsage |
  EventContextProfile | EventAgentState | EventAgentDetail | EventProviderRetry |
  EventThinkingDelta | EventTextDelta | EventProjectionResync | EventToolStarted |
  EventToolUpdate | EventToolFinished | EventDiffReady | EventApprovalRequested |
  EventApprovalResolved | EventUserInputRequested | EventUserInputResolved |
  EventPlanProposed | EventPlanResolved | EventApprovalMode | EventModelCatalog |
  EventModelProviders | EventSkillCatalog | EventPluginCatalog | EventMarketplaceCatalog |
  EventCommandCatalog | EventThemeCatalog | EventHookCatalog | EventAuthState |
  EventMCPState | EventRecoveryState | EventRunFinished | EventRunFailed |
  EventRunCancelled | EventHookStarted | EventHookFinished | EventHookDiagnostic |
  EventMemoryState | EventRecapState | EventModelRoutes | EventBackgroundState |
  EventBackgroundLogs | EventGitBranches | EventUsageReport | EventSecurityConfig |
  EventSecurityScanState | EventSecurityScanList | EventSecurityFindings |
  EventSecurityFinding | EventSecurityPatch | EventSecurityPublish
  | OtherEventKind string

definition AllEventKinds :: "event_kind list" where
  "AllEventKinds =
    [EventBootstrapDone, EventSessionLoaded, EventRunState, EventSessionProjection,
     EventPromptQueueState, EventTodoUpdated, EventRunStarted, EventContextUsage,
     EventContextProfile, EventAgentState, EventAgentDetail, EventProviderRetry,
     EventThinkingDelta, EventTextDelta, EventProjectionResync, EventToolStarted,
     EventToolUpdate, EventToolFinished, EventDiffReady, EventApprovalRequested,
     EventApprovalResolved, EventUserInputRequested, EventUserInputResolved, EventPlanProposed,
     EventPlanResolved, EventApprovalMode, EventModelCatalog, EventModelProviders,
     EventSkillCatalog, EventPluginCatalog, EventHookCatalog, EventAuthState,
     EventMarketplaceCatalog, EventCommandCatalog, EventThemeCatalog, EventSecurityConfig,
     EventMCPState, EventRecoveryState, EventRunFinished, EventRunFailed, EventRunCancelled,
     EventHookStarted, EventHookFinished, EventHookDiagnostic, EventMemoryState,
     EventRecapState, EventModelRoutes, EventBackgroundState, EventBackgroundLogs,
     EventGitBranches, EventUsageReport, EventSecurityScanState, EventSecurityScanList,
     EventSecurityFindings, EventSecurityFinding, EventSecurityPatch, EventSecurityPublish]"

record 'p broker_event =
  be_Kind :: event_kind
  be_SessionID :: string
  be_RunID :: string
  be_AgentID :: string
  be_ToolCallID :: string
  be_ApprovalID :: string
  be_UserInputID :: string
  be_PlanID :: string
  be_Text :: string
  be_TextPhase :: string
  be_State :: string
  be_Data :: "(string \<times> string) list option"
  be_payload :: "'p option"
  be_At :: time

record run_key =
  rk_sessionID :: string
  rk_runID :: string

record stream_key =
  sk_kind :: event_kind
  sk_sessionID :: string
  sk_runID :: string
  sk_agentID :: string
  sk_toolCallID :: string
  sk_textPhase :: string

definition runKey :: "'p broker_event \<Rightarrow> run_key" where
  "runKey event = \<lparr>rk_sessionID = be_SessionID event, rk_runID = be_RunID event\<rparr>"

definition streamKey :: "'p broker_event \<Rightarrow> stream_key" where
  "streamKey event = \<lparr>sk_kind = be_Kind event, sk_sessionID = be_SessionID event,
     sk_runID = be_RunID event, sk_agentID = be_AgentID event,
     sk_toolCallID = be_ToolCallID event, sk_textPhase = be_TextPhase event\<rparr>"

definition isCoalescibleEvent :: "event_kind \<Rightarrow> bool" where
  "isCoalescibleEvent kind = (case kind of
     EventTextDelta \<Rightarrow> True | EventThinkingDelta \<Rightarrow> True | EventToolUpdate \<Rightarrow> True | _ \<Rightarrow> False)"

definition isReplaceableEvent :: "'p broker_event \<Rightarrow> bool" where
  "isReplaceableEvent event =
     (if be_Kind event \<noteq> EventAgentState then False
      else if be_State event \<in> {''completed'', ''failed'', ''cancelled''} then False
      else True)"

definition isDeferrableQueuedEvent :: "'p broker_event \<Rightarrow> bool" where
  "isDeferrableQueuedEvent event \<longleftrightarrow> isCoalescibleEvent (be_Kind event) \<or> isReplaceableEvent event"

definition isTerminalEvent :: "event_kind \<Rightarrow> bool" where
  "isTerminalEvent kind = (case kind of
     EventRunFinished \<Rightarrow> True | EventRunFailed \<Rightarrow> True | EventRunCancelled \<Rightarrow> True | _ \<Rightarrow> False)"

section \<open>Queued events\<close>

text \<open>
  What the broker takes from the Go runtime: \<open>env_marshal\<close> is the length of the JSON encoding of
  an event (\<open>None\<close> when encoding fails), \<open>env_grow\<close> the capacity \<^verbatim>\<open>append\<close> gives a slice of the
  first capacity that must hold the second number of bytes, and \<open>env_range\<close> the order in which
  \<^verbatim>\<open>range\<close> visits the keys of a map. Sizes are lengths of data in memory, so that the
  \<^verbatim>\<open>int\<close> arithmetic on them does not wrap.
\<close>

record 'p go_env =
  env_marshal :: "'p broker_event \<Rightarrow> nat option"
  env_grow :: "nat \<Rightarrow> nat \<Rightarrow> nat"
  env_range :: "run_key list \<Rightarrow> run_key list"

text \<open>\<^verbatim>\<open>range\<close> visits every key of the map once, in any order.\<close>

definition range_visits :: "'p go_env \<Rightarrow> bool" where
  "range_visits env \<longleftrightarrow> (\<forall>ks. distinct ks \<longrightarrow> distinct (env_range env ks) \<and> set (env_range env ks) = set ks)"

definition append_cap :: "'p go_env \<Rightarrow> nat \<Rightarrow> nat \<Rightarrow> nat" where
  "append_cap env cap needed = (if needed \<le> cap then cap else env_grow env cap needed)"

text \<open>The text buffer of a queued event: \<open>q_text\<close> is \<open>None\<close> for a nil slice.\<close>

record 'p queued_event =
  q_event :: "'p broker_event"
  q_text :: "string option"
  q_cap :: nat
  q_readyAt :: time
  q_size :: int

definition string_size :: "string \<Rightarrow> int" where
  "string_size s = int (length s)"

definition data_size :: "(string \<times> string) list option \<Rightarrow> int" where
  "data_size d = (case d of None \<Rightarrow> 0
     | Some kvs \<Rightarrow> sum_list (map (\<lambda>(key, val). string_size key + string_size val) kvs))"

definition newQueuedEvent :: "'p go_env \<Rightarrow> 'p broker_event \<Rightarrow> time \<Rightarrow> bool \<Rightarrow> 'p queued_event" where
  "newQueuedEvent env event readyAt coalescible =
     (let marshalled = (if \<not> coalescible then env_marshal env event else None) in
      case marshalled of
        Some n \<Rightarrow> \<lparr>q_event = event, q_text = None, q_cap = 0, q_readyAt = readyAt, q_size = int n\<rparr>
      | None \<Rightarrow>
         (let sz = string_size (be_SessionID event) + string_size (be_RunID event) +
                string_size (be_AgentID event) + string_size (be_ToolCallID event) +
                string_size (be_ApprovalID event) + string_size (be_Text event) +
                string_size (be_State event) + data_size (be_Data event);
              current = \<lparr>q_event = event, q_text = None, q_cap = 0, q_readyAt = readyAt, q_size = sz\<rparr>
          in if coalescible then
               (let cap = append_cap env 0 (length (be_Text event)) in
                current\<lparr>q_text := (if be_Text event = [] then None else Some (be_Text event)),
                  q_cap := cap, q_event := event\<lparr>be_Text := []\<rparr>,
                  q_size := sz + (int cap - string_size (be_Text event))\<rparr>)
             else current))"

definition materializeQueuedEvent :: "'p queued_event \<Rightarrow> 'p broker_event" where
  "materializeQueuedEvent current = (case q_text current of
     None \<Rightarrow> q_event current
   | Some t \<Rightarrow> (q_event current)\<lparr>be_Text := t\<rparr>)"

text \<open>One round of the loop over the data of a merged event.\<close>

definition merge_entry :: "string \<times> string \<Rightarrow> (string \<times> string) list \<times> int \<Rightarrow> (string \<times> string) list \<times> int" where
  "merge_entry kv acc = (case kv of (key, val) \<Rightarrow> (case acc of (kvs, sz) \<Rightarrow>
     (AList.update key val kvs,
      case map_of kvs key of
        Some previous \<Rightarrow> sz + (string_size val - string_size previous)
      | None \<Rightarrow> sz + (string_size key + string_size val))))"

definition newline :: char where
  "newline = CHR 0x0A"

definition merge_text :: "'p go_env \<Rightarrow> 'p queued_event \<Rightarrow> string \<Rightarrow> 'p queued_event" where
  "merge_text env target text =
     (let old = (case q_text target of None \<Rightarrow> [] | Some t \<Rightarrow> t);
          sep = (be_Kind (q_event target) = EventToolUpdate \<and> old \<noteq> [] \<and> last old \<noteq> newline);
          t1 = (if sep then old @ [newline] else old);
          c1 = (if sep then append_cap env (q_cap target) (length t1) else q_cap target);
          t2 = t1 @ text;
          c2 = append_cap env c1 (length t2)
      in target\<lparr>q_text := Some t2, q_cap := c2, q_size := q_size target + (int c2 - int (q_cap target))\<rparr>)"

definition merge_state :: "'p queued_event \<Rightarrow> 'p broker_event \<Rightarrow> 'p queued_event" where
  "merge_state target nxt = target\<lparr>q_size := q_size target +
       (string_size (be_State nxt) - string_size (be_State (q_event target))),
     q_event := (q_event target)\<lparr>be_State := be_State nxt, be_At := be_At nxt\<rparr>\<rparr>"

definition merge_data :: "'p queued_event \<Rightarrow> (string \<times> string) list \<Rightarrow> 'p queued_event" where
  "merge_data target kvs =
     (let old = (case be_Data (q_event target) of None \<Rightarrow> [] | Some d \<Rightarrow> d);
          merged = fold merge_entry kvs (old, q_size target)
      in target\<lparr>q_event := (q_event target)\<lparr>be_Data := Some (fst merged)\<rparr>, q_size := snd merged\<rparr>)"

definition mergeCoalescibleEvent :: "'p go_env \<Rightarrow> 'p queued_event \<Rightarrow> 'p broker_event \<Rightarrow> 'p queued_event" where
  "mergeCoalescibleEvent env target nxt =
     (let target = (if be_Text nxt \<noteq> [] then merge_text env target (be_Text nxt) else target);
          target = merge_state target nxt
      in case be_Data nxt of None \<Rightarrow> target | Some kvs \<Rightarrow> merge_data target kvs)"

section \<open>The broker\<close>

record 'p event_broker =
  eb_queue :: "'p queued_event list"
  eb_head :: nat
  eb_queuedBytes :: int
  eb_closed :: bool
  eb_window :: duration
  eb_maxBytes :: int
  eb_maxEvents :: int
  eb_pending :: "stream_key \<Rightarrow> nat option"
  eb_degraded :: "run_key set"

definition maxQueuedEventBytes :: int where
  "maxQueuedEventBytes = 8 * 2 ^ 20"

definition maxQueuedEventCount :: int where
  "maxQueuedEventCount = 4096"

definition newEventBroker :: "duration \<Rightarrow> 'p event_broker" where
  "newEventBroker window = \<lparr>eb_queue = [], eb_head = 0, eb_queuedBytes = 0, eb_closed = False,
     eb_window = window, eb_maxBytes = maxQueuedEventBytes, eb_maxEvents = maxQueuedEventCount,
     eb_pending = Map.empty, eb_degraded = {}\<rparr>"

text \<open>The slot of the pending event a new event of the stream may join.\<close>

definition pending_slot :: "'p event_broker \<Rightarrow> stream_key \<Rightarrow> nat option" where
  "pending_slot b key = (case eb_pending b key of
     Some index \<Rightarrow> if eb_head b \<le> index \<and> index < length (eb_queue b) then Some index else None
   | None \<Rightarrow> None)"

definition append_queued :: "'p event_broker \<Rightarrow> 'p queued_event \<Rightarrow> 'p event_broker" where
  "append_queued b current = b\<lparr>eb_queue := eb_queue b @ [current],
     eb_queuedBytes := eb_queuedBytes b + q_size current\<rparr>"

definition append_pending :: "'p event_broker \<Rightarrow> stream_key \<Rightarrow> 'p queued_event \<Rightarrow> 'p event_broker" where
  "append_pending b key current =
     (append_queued b current)\<lparr>eb_pending := (eb_pending b)(key \<mapsto> length (eb_queue b))\<rparr>"

definition set_queued :: "'p event_broker \<Rightarrow> nat \<Rightarrow> 'p queued_event \<Rightarrow> 'p event_broker" where
  "set_queued b index current = b\<lparr>eb_queue := (eb_queue b)[index := current],
     eb_queuedBytes := eb_queuedBytes b + (q_size current - q_size (eb_queue b ! index))\<rparr>"

definition appendCoalescible :: "'p go_env \<Rightarrow> time \<Rightarrow> 'p broker_event \<Rightarrow> 'p event_broker \<Rightarrow> 'p event_broker" where
  "appendCoalescible env now event b = (case pending_slot b (streamKey event) of
     Some index \<Rightarrow> set_queued b index (mergeCoalescibleEvent env (eb_queue b ! index) event)
   | None \<Rightarrow> append_pending b (streamKey event) (newQueuedEvent env event (now + eb_window b) True))"

definition appendReplaceable :: "'p go_env \<Rightarrow> time \<Rightarrow> 'p broker_event \<Rightarrow> 'p event_broker \<Rightarrow> 'p event_broker" where
  "appendReplaceable env now event b =
     (let fresh = append_pending b (streamKey event) (newQueuedEvent env event (now + eb_window b) False)
      in case pending_slot b (streamKey event) of
           Some index \<Rightarrow>
             (if be_State (q_event (eb_queue b ! index)) = be_State event
              then set_queued b index (newQueuedEvent env event (q_readyAt (eb_queue b ! index)) False)
              else fresh)
         | None \<Rightarrow> fresh)"

definition appendResync :: "'p go_env \<Rightarrow> run_key \<Rightarrow> string \<Rightarrow> string \<Rightarrow> 'p event_broker \<Rightarrow> 'p event_broker" where
  "appendResync env key state agentID b =
     (if rk_sessionID key = [] then b
      else append_queued b (newQueuedEvent env
        \<lparr>be_Kind = EventProjectionResync, be_SessionID = rk_sessionID key, be_RunID = rk_runID key,
         be_AgentID = agentID, be_ToolCallID = [], be_ApprovalID = [], be_UserInputID = [],
         be_PlanID = [], be_Text = [], be_TextPhase = [], be_State = state, be_Data = None,
         be_payload = None, be_At = 0\<rparr> 0 False))"

text \<open>
  The loop of \<open>compactOverLimit\<close> over the remaining events: the events kept, the degraded runs,
  the runs degraded now (in the order they were met) and the last agent of each run.
\<close>

record 'p limit_acc =
  ol_queue :: "'p queued_event list"
  ol_degraded :: "run_key set"
  ol_affected :: "run_key list"
  ol_agentIDs :: "run_key \<Rightarrow> string option"

definition over_limit_step :: "'p queued_event \<Rightarrow> 'p limit_acc \<Rightarrow> 'p limit_acc" where
  "over_limit_step current acc =
     (if isCoalescibleEvent (be_Kind (q_event current)) then
        (let key = runKey (q_event current) in
         if rk_sessionID key \<noteq> [] then
           acc\<lparr>ol_affected := (if key \<notin> ol_degraded acc then ol_affected acc @ [key] else ol_affected acc),
               ol_degraded := insert key (ol_degraded acc),
               ol_agentIDs := (if be_AgentID (q_event current) \<noteq> []
                 then (ol_agentIDs acc)(key \<mapsto> be_AgentID (q_event current)) else ol_agentIDs acc)\<rparr>
         else acc)
      else acc\<lparr>ol_queue := ol_queue acc @ [current]\<rparr>)"

definition queue_size :: "'p queued_event list \<Rightarrow> int" where
  "queue_size q = sum_list (map q_size q)"

definition over_limit :: "'p event_broker \<Rightarrow> bool" where
  "over_limit b \<longleftrightarrow> \<not> (eb_queuedBytes b \<le> eb_maxBytes b \<and>
     int (length (eb_queue b)) - int (eb_head b) \<le> eb_maxEvents b)"

definition compactOverLimit :: "'p go_env \<Rightarrow> 'p event_broker \<Rightarrow> 'p event_broker" where
  "compactOverLimit env b =
     (if \<not> over_limit b then b
      else let acc = fold over_limit_step (drop (eb_head b) (eb_queue b))
                 \<lparr>ol_queue = [], ol_degraded = eb_degraded b, ol_affected = [], ol_agentIDs = Map.empty\<rparr>;
               b' = b\<lparr>eb_queue := ol_queue acc, eb_head := 0, eb_queuedBytes := queue_size (ol_queue acc),
                      eb_pending := Map.empty, eb_degraded := ol_degraded acc\<rparr>
           in fold (\<lambda>key. appendResync env key ''degraded'' (case ol_agentIDs acc key of None \<Rightarrow> [] | Some a \<Rightarrow> a))
                (env_range env (ol_affected acc)) b')"

text \<open>The backward loop of \<open>Publish\<close> that makes the deltas before a barrier visible at once.\<close>

fun release_tail :: "nat \<Rightarrow> nat \<Rightarrow> 'p queued_event list \<Rightarrow> 'p queued_event list" where
  "release_tail head 0 q = q"
| "release_tail head (Suc index) q =
     (if index < head \<or> \<not> isDeferrableQueuedEvent (q_event (q ! index)) then q
      else release_tail head index (q[index := (q ! index)\<lparr>q_readyAt := 0\<rparr>]))"

datatype publish_status = eventPublishAccepted | eventPublishClosed

definition publish_barrier :: "'p go_env \<Rightarrow> 'p broker_event \<Rightarrow> 'p event_broker \<Rightarrow> 'p event_broker" where
  "publish_barrier env event b =
     (let b = b\<lparr>eb_queue := release_tail (eb_head b) (length (eb_queue b)) (eb_queue b), eb_pending := Map.empty\<rparr>;
          b = compactOverLimit env (append_queued b (newQueuedEvent env event 0 False))
      in if isTerminalEvent (be_Kind event) \<and> runKey event \<in> eb_degraded b then
           (appendResync env (runKey event) ''final'' (be_AgentID event) b)
             \<lparr>eb_degraded := eb_degraded b - {runKey event}\<rparr>
         else b)"

definition broker_publish :: "'p go_env \<Rightarrow> time \<Rightarrow> 'p broker_event \<Rightarrow> 'p event_broker \<Rightarrow> publish_status \<times> 'p event_broker" where
  "broker_publish env now event b =
     (if eb_closed b then (eventPublishClosed, b)
      else if isCoalescibleEvent (be_Kind event) then
        (eventPublishAccepted, compactOverLimit env (appendCoalescible env now event b))
      else if isReplaceableEvent event then
        (eventPublishAccepted, compactOverLimit env (appendReplaceable env now event b))
      else (eventPublishAccepted, publish_barrier env event b))"

text \<open>\<open>rebuildPending\<close>: the newest deferrable event of every stream behind the last barrier.\<close>

fun rebuild_pending :: "nat \<Rightarrow> nat \<Rightarrow> 'p queued_event list \<Rightarrow> (stream_key \<Rightarrow> nat option) \<Rightarrow> stream_key \<Rightarrow> nat option" where
  "rebuild_pending head 0 q pending = pending"
| "rebuild_pending head (Suc index) q pending =
     (if index < head \<or> \<not> isDeferrableQueuedEvent (q_event (q ! index)) then pending
      else let key = streamKey (q_event (q ! index)) in
           rebuild_pending head index q (if pending key = None then pending(key \<mapsto> index) else pending))"

definition broker_compact :: "'p event_broker \<Rightarrow> 'p event_broker" where
  "broker_compact b =
     (if eb_head b = length (eb_queue b) then b\<lparr>eb_queue := [], eb_head := 0\<rparr>
      else if eb_head b \<ge> 64 \<and> eb_head b * 2 \<ge> length (eb_queue b) then
        (let q = drop (eb_head b) (eb_queue b) in
         b\<lparr>eb_queue := q, eb_head := 0, eb_pending := rebuild_pending 0 (length q) q Map.empty\<rparr>)
      else b)"

text \<open>The zero \<^verbatim>\<open>queuedEvent{}\<close> left in the slot of a delivered event.\<close>

definition zero_queued :: "'p queued_event" where
  "zero_queued = \<lparr>q_event = \<lparr>be_Kind = OtherEventKind [], be_SessionID = [], be_RunID = [], be_AgentID = [],
     be_ToolCallID = [], be_ApprovalID = [], be_UserInputID = [], be_PlanID = [], be_Text = [],
     be_TextPhase = [], be_State = [], be_Data = None, be_payload = None, be_At = 0\<rparr>,
     q_text = None, q_cap = 0, q_readyAt = 0, q_size = 0\<rparr>"

text \<open>
  One round of the loop of \<open>Next\<close>: an event is delivered, or the consumer has to wait until the
  head of the queue is ready (\<open>NextWait\<close>) or something is published (\<open>NextIdle\<close>), or the broker
  is closed and drained.
\<close>

datatype 'p next_result = NextEvent "'p broker_event" | NextWait duration | NextIdle | NextEOF

definition broker_next :: "time \<Rightarrow> 'p event_broker \<Rightarrow> 'p next_result \<times> 'p event_broker" where
  "broker_next now b =
     (if eb_head b < length (eb_queue b) then
        (let current = eb_queue b ! eb_head b;
             wait = time_sub (q_readyAt current) now
         in if IsZero (q_readyAt current) \<or> wait \<le> 0 then
              (let b = b\<lparr>eb_queue := (eb_queue b)[eb_head b := zero_queued], eb_head := eb_head b + 1,
                     eb_queuedBytes := eb_queuedBytes b - q_size current\<rparr>;
                   key = streamKey (q_event current);
                   index = (case eb_pending b key of None \<Rightarrow> 0 | Some i \<Rightarrow> i);
                   b = (if isDeferrableQueuedEvent (q_event current) \<and> index < eb_head b
                        then b\<lparr>eb_pending := (eb_pending b)(key := None)\<rparr> else b)
               in (NextEvent (materializeQueuedEvent current), broker_compact b))
            else (NextWait wait, b))
      else if eb_closed b then (NextEOF, b) else (NextIdle, b))"

definition broker_close :: "'p event_broker \<Rightarrow> 'p event_broker" where
  "broker_close b =
     (if eb_closed b then b
      else b\<lparr>eb_closed := True,
        eb_queue := take (eb_head b) (eb_queue b) @ map (\<lambda>q. q\<lparr>q_readyAt := 0\<rparr>) (drop (eb_head b) (eb_queue b))\<rparr>)"


section \<open>Histories\<close>

text \<open>
  A history carries the broker, the events delivered to the consumer and the events accepted from
  the producers, in the order in which the steps took the mutex.
\<close>

datatype 'p broker_op = BPublish "'p broker_event" time | BNext time | BClose

type_synonym 'p broker_state = "'p event_broker \<times> 'p broker_event list \<times> 'p broker_event list"

fun broker_op_step :: "'p go_env \<Rightarrow> 'p broker_op \<Rightarrow> 'p broker_state \<Rightarrow> 'p broker_state" where
  "broker_op_step env (BPublish e now) (b, out, acc) =
     (case broker_publish env now e b of
        (eventPublishAccepted, b') \<Rightarrow> (b', out, acc @ [e])
      | (eventPublishClosed, b') \<Rightarrow> (b', out, acc))"
| "broker_op_step env (BNext now) (b, out, acc) =
     (case broker_next now b of
        (NextEvent e, b') \<Rightarrow> (b', out @ [e], acc)
      | (_, b') \<Rightarrow> (b', out, acc))"
| "broker_op_step env BClose (b, out, acc) = (broker_close b, out, acc)"

definition broker_history :: "'p go_env \<Rightarrow> 'p event_broker \<Rightarrow> 'p broker_op list \<Rightarrow> 'p broker_state" where
  "broker_history env b ops = fold (broker_op_step env) ops (b, [], [])"

definition live_queue :: "'p event_broker \<Rightarrow> 'p queued_event list" where
  "live_queue b = drop (eb_head b) (eb_queue b)"

text \<open>What the consumer has seen and will still see.\<close>

definition in_queue :: "'p event_broker \<Rightarrow> 'p broker_event list" where
  "in_queue b = map materializeQueuedEvent (live_queue b)"

text \<open>
  The consumer's view of one stream: the characters of its deltas between the lifecycle events.
  Merged tool updates are separated by line breaks, which the view of such a stream ignores.
  Resynchronisation notices, which the broker adds itself, are not lifecycle events.
\<close>

definition visible :: "event_kind \<Rightarrow> string \<Rightarrow> string" where
  "visible kind text = (if kind = EventToolUpdate then filter (\<lambda>c. c \<noteq> newline) text else text)"

definition lifecycle :: "'p broker_event \<Rightarrow> bool" where
  "lifecycle e \<longleftrightarrow> \<not> isDeferrableQueuedEvent e \<and> be_Kind e \<noteq> EventProjectionResync"

definition view_event :: "stream_key \<Rightarrow> 'p broker_event \<Rightarrow> (char + 'p broker_event) list" where
  "view_event k e =
     (if isCoalescibleEvent (be_Kind e)
      then if streamKey e = k then map Inl (visible (be_Kind e) (be_Text e)) else []
      else if lifecycle e then [Inr e] else [])"

definition stream_view :: "stream_key \<Rightarrow> 'p broker_event list \<Rightarrow> (char + 'p broker_event) list" where
  "stream_view k es = concat (map (view_event k) es)"

text \<open>The snapshots of one agent.\<close>

definition agent_states :: "stream_key \<Rightarrow> 'p broker_event list \<Rightarrow> 'p broker_event list" where
  "agent_states k es = filter (\<lambda>e. streamKey e = k) es"

text \<open>A resynchronisation notice for a run, in the given state.\<close>

definition resync_of :: "run_key \<Rightarrow> string \<Rightarrow> 'p broker_event \<Rightarrow> bool" where
  "resync_of r st e \<longleftrightarrow> be_Kind e = EventProjectionResync \<and> runKey e = r \<and> be_State e = st"

section \<open>Basic facts\<close>

lemma kind_classes [simp]:
  "isCoalescibleEvent EventTextDelta" "isCoalescibleEvent EventThinkingDelta" "isCoalescibleEvent EventToolUpdate"
  "\<not> isCoalescibleEvent EventProjectionResync" "\<not> isCoalescibleEvent EventAgentState"
  by (simp_all add: isCoalescibleEvent_def)

lemma replaceable_iff: "isReplaceableEvent e \<longleftrightarrow>
    be_Kind e = EventAgentState \<and> be_State e \<notin> {''completed'', ''failed'', ''cancelled''}"
  by (simp add: isReplaceableEvent_def)

lemma replaceable_not_coalescible: "isReplaceableEvent e \<Longrightarrow> \<not> isCoalescibleEvent (be_Kind e)"
  by (auto simp: isReplaceableEvent_def split: if_splits)

lemma stream_view_simps [simp]:
  "stream_view k [] = []" "stream_view k (e # es) = view_event k e @ stream_view k es"
  "stream_view k (es @ fs) = stream_view k es @ stream_view k fs"
  by (simp_all add: stream_view_def)

lemma agent_states_simps [simp]:
  "agent_states k [] = []"
  "agent_states k (e # es) = (if streamKey e = k then e # agent_states k es else agent_states k es)"
  "agent_states k (es @ fs) = agent_states k es @ agent_states k fs"
  by (simp_all add: agent_states_def)

lemma visible_append [simp]: "visible kind (s @ t) = visible kind s @ visible kind t"
  by (simp add: visible_def)

lemma visible_Nil [simp]: "visible kind [] = []"
  by (simp add: visible_def)

definition text_of :: "'p queued_event \<Rightarrow> string" where
  "text_of q = (case q_text q of None \<Rightarrow> [] | Some t \<Rightarrow> t)"

text \<open>The size of a queued stream delta: its strings and the capacity of its buffer.\<close>

definition base_size :: "'p broker_event \<Rightarrow> int" where
  "base_size e = string_size (be_SessionID e) + string_size (be_RunID e) + string_size (be_AgentID e) +
     string_size (be_ToolCallID e) + string_size (be_ApprovalID e) + string_size (be_State e) + data_size (be_Data e)"

definition entry_ok :: "'p queued_event \<Rightarrow> bool" where
  "entry_ok q \<longleftrightarrow> 0 \<le> q_size q \<and>
     (if isCoalescibleEvent (be_Kind (q_event q))
      then be_Text (q_event q) = [] \<and> q_size q = base_size (q_event q) + int (q_cap q)
      else q_text q = None)"

lemma data_size_nonneg: "0 \<le> data_size d"
  by (auto simp: data_size_def string_size_def split: option.split intro!: sum_list_nonneg)

lemma base_size_nonneg: "0 \<le> base_size e"
  using data_size_nonneg [of "be_Data e"] by (simp add: base_size_def string_size_def)

lemma streamKey_update [simp]:
  "streamKey (e\<lparr>be_Text := t\<rparr>) = streamKey e" "streamKey (e\<lparr>be_Data := d\<rparr>) = streamKey e"
  "streamKey (e\<lparr>be_State := s, be_At := a\<rparr>) = streamKey e" "runKey (e\<lparr>be_Text := t\<rparr>) = runKey e"
  by (simp_all add: streamKey_def runKey_def)

lemma materialize_simps [simp]:
  "be_Kind (materializeQueuedEvent q) = be_Kind (q_event q)"
  "be_State (materializeQueuedEvent q) = be_State (q_event q)"
  "streamKey (materializeQueuedEvent q) = streamKey (q_event q)"
  "runKey (materializeQueuedEvent q) = runKey (q_event q)"
  "isReplaceableEvent (materializeQueuedEvent q) = isReplaceableEvent (q_event q)"
  "isDeferrableQueuedEvent (materializeQueuedEvent q) = isDeferrableQueuedEvent (q_event q)"
  "lifecycle (materializeQueuedEvent q) = lifecycle (q_event q)"
  "resync_of r st (materializeQueuedEvent q) = resync_of r st (q_event q)"
  by (auto simp: materializeQueuedEvent_def isReplaceableEvent_def isDeferrableQueuedEvent_def lifecycle_def
      resync_of_def split: option.split)

lemma materialize_text: "entry_ok q \<Longrightarrow> isCoalescibleEvent (be_Kind (q_event q)) \<Longrightarrow>
    be_Text (materializeQueuedEvent q) = text_of q"
  by (auto simp: materializeQueuedEvent_def entry_ok_def text_of_def split: option.split)

lemma materialize_plain: "entry_ok q \<Longrightarrow> \<not> isCoalescibleEvent (be_Kind (q_event q)) \<Longrightarrow>
    materializeQueuedEvent q = q_event q"
  by (auto simp: materializeQueuedEvent_def entry_ok_def)

lemma view_materialize: "entry_ok q \<Longrightarrow> view_event k (materializeQueuedEvent q) =
    (if isCoalescibleEvent (be_Kind (q_event q))
     then if streamKey (q_event q) = k then map Inl (visible (be_Kind (q_event q)) (text_of q)) else []
     else if lifecycle (q_event q) then [Inr (q_event q)] else [])"
  by (auto simp: view_event_def materialize_text materialize_plain)

lemma append_cap_nil [simp]: "append_cap env 0 0 = 0"
  by (simp add: append_cap_def)

lemma newQueuedEvent_ok: "coalescible = isCoalescibleEvent (be_Kind e) \<Longrightarrow> entry_ok (newQueuedEvent env e t coalescible)"
  using base_size_nonneg [of e]
  by (auto simp: newQueuedEvent_def entry_ok_def base_size_def string_size_def Let_def split: option.split)

lemma newQueuedEvent_simps [simp]:
  "be_Kind (q_event (newQueuedEvent env e t c)) = be_Kind e"
  "be_State (q_event (newQueuedEvent env e t c)) = be_State e"
  "streamKey (q_event (newQueuedEvent env e t c)) = streamKey e"
  "runKey (q_event (newQueuedEvent env e t c)) = runKey e"
  "q_event (newQueuedEvent env e t False) = e"
  "text_of (newQueuedEvent env e t True) = be_Text e"
  by (auto simp: newQueuedEvent_def text_of_def Let_def split: option.split)

lemma newQueuedEvent_plain [simp]: "materializeQueuedEvent (newQueuedEvent env e t False) = e"
  by (auto simp: newQueuedEvent_def materializeQueuedEvent_def Let_def split: option.split)

lemma newQueuedEvent_deferrable [simp]:
  "isDeferrableQueuedEvent (q_event (newQueuedEvent env e t c)) = isDeferrableQueuedEvent e"
  "lifecycle (q_event (newQueuedEvent env e t c)) = lifecycle e"
  by (auto simp: isDeferrableQueuedEvent_def isReplaceableEvent_def lifecycle_def)

section \<open>Merging\<close>

lemma data_size_update:
  "data_size (Some (AList.update key val kvs)) = data_size (Some kvs) +
     (case map_of kvs key of Some previous \<Rightarrow> string_size val - string_size previous
      | None \<Rightarrow> string_size key + string_size val)"
  by (induction kvs) (auto simp: data_size_def split: option.splits)

lemma fold_merge_entry:
  "fold merge_entry kvs (old, sz) = (old', sz') \<Longrightarrow> sz' - data_size (Some old') = sz - data_size (Some old)"
proof (induction kvs arbitrary: old sz)
  case (Cons kv kvs)
  obtain key val where kv: "kv = (key, val)" by fastforce
  then show ?case
    using Cons.IH [of "fst (merge_entry kv (old, sz))" "snd (merge_entry kv (old, sz))"] Cons.prems
      data_size_update [of key val old]
    by (auto simp: merge_entry_def split: option.splits)
qed simp

lemma merge_text_simps [simp]:
  "q_event (merge_text env q t) = q_event q"
  by (simp add: merge_text_def Let_def)

lemma merge_text_visible:
  "visible (be_Kind (q_event q)) (text_of (merge_text env q t)) =
   visible (be_Kind (q_event q)) (text_of q) @ visible (be_Kind (q_event q)) t"
  by (auto simp: merge_text_def text_of_def Let_def visible_def split: option.split)

lemma merge_text_size: "q_size (merge_text env q t) - int (q_cap (merge_text env q t)) = q_size q - int (q_cap q)"
  by (simp add: merge_text_def Let_def)

lemma merge_state_simps [simp]:
  "be_Kind (q_event (merge_state q e)) = be_Kind (q_event q)"
  "streamKey (q_event (merge_state q e)) = streamKey (q_event q)"
  "be_Text (q_event (merge_state q e)) = be_Text (q_event q)"
  "text_of (merge_state q e) = text_of q" "q_cap (merge_state q e) = q_cap q"
  by (simp_all add: merge_state_def text_of_def streamKey_def)

lemma merge_state_size: "q_size (merge_state q e) - base_size (q_event (merge_state q e)) = q_size q - base_size (q_event q)"
  by (simp add: merge_state_def base_size_def)

lemma merge_data_simps [simp]:
  "be_Kind (q_event (merge_data q kvs)) = be_Kind (q_event q)"
  "streamKey (q_event (merge_data q kvs)) = streamKey (q_event q)"
  "be_Text (q_event (merge_data q kvs)) = be_Text (q_event q)"
  "text_of (merge_data q kvs) = text_of q" "q_cap (merge_data q kvs) = q_cap q"
  by (simp_all add: merge_data_def text_of_def streamKey_def Let_def)

lemma merge_data_size: "q_size (merge_data q kvs) - base_size (q_event (merge_data q kvs)) = q_size q - base_size (q_event q)"
proof -
  define old where "old = (case be_Data (q_event q) of None \<Rightarrow> [] | Some d \<Rightarrow> d)"
  obtain kvs' sz' where f: "fold merge_entry kvs (old, q_size q) = (kvs', sz')" by fastforce
  have "data_size (Some old) = data_size (be_Data (q_event q))"
    by (simp add: old_def data_size_def split: option.split)
  with fold_merge_entry [OF f] f show ?thesis
    by (simp add: merge_data_def Let_def base_size_def flip: old_def)
qed

lemma merge_event:
  "be_Kind (q_event (mergeCoalescibleEvent env q e)) = be_Kind (q_event q)"
  "streamKey (q_event (mergeCoalescibleEvent env q e)) = streamKey (q_event q)"
  "be_Text (q_event (mergeCoalescibleEvent env q e)) = be_Text (q_event q)"
  "text_of (mergeCoalescibleEvent env q e) =
     text_of (if be_Text e \<noteq> [] then merge_text env q (be_Text e) else q)"
  by (simp_all add: mergeCoalescibleEvent_def Let_def split: option.split)

lemma merge_size:
  "q_size (mergeCoalescibleEvent env q e) - base_size (q_event (mergeCoalescibleEvent env q e)) -
     int (q_cap (mergeCoalescibleEvent env q e)) = q_size q - base_size (q_event q) - int (q_cap q)"
proof -
  define q1 where "q1 = (if be_Text e \<noteq> [] then merge_text env q (be_Text e) else q)"
  have "q_event q1 = q_event q" "q_size q1 - int (q_cap q1) = q_size q - int (q_cap q)"
    by (simp_all add: q1_def merge_text_size)
  then show ?thesis
    using merge_state_size [of q1 e] merge_data_size [of "merge_state q1 e" "the (be_Data e)"]
    by (cases "be_Data e") (simp_all add: mergeCoalescibleEvent_def flip: q1_def)
qed

lemma merge_ok:
  assumes "entry_ok q" and "isCoalescibleEvent (be_Kind (q_event q))"
  shows "entry_ok (mergeCoalescibleEvent env q e)"
  using assms merge_size [of env q e] base_size_nonneg [of "q_event (mergeCoalescibleEvent env q e)"]
  by (simp add: entry_ok_def merge_event)

lemma merge_view:
  assumes "entry_ok q" and "isCoalescibleEvent (be_Kind (q_event q))" and "streamKey (q_event q) = streamKey e"
  shows "view_event k (materializeQueuedEvent (mergeCoalescibleEvent env q e)) =
    view_event k (materializeQueuedEvent q) @ view_event k e"
proof -
  have "be_Kind (q_event q) = be_Kind e" using assms(3) by (simp add: streamKey_def)
  then show ?thesis
    using assms merge_ok [OF assms(1,2), of env e] merge_text_visible [of q env "be_Text e"]
    by (auto simp: view_materialize merge_event view_event_def [of k e])
qed


section \<open>The invariant of the broker\<close>

definition stream_slot :: "stream_key \<Rightarrow> nat \<Rightarrow> 'p queued_event list \<Rightarrow> bool" where
  "stream_slot k n q \<longleftrightarrow> n < length q \<and> streamKey (q_event (q ! n)) = k \<and>
     (\<forall>j. n \<le> j \<longrightarrow> j < length q \<longrightarrow> isDeferrableQueuedEvent (q_event (q ! j))) \<and>
     (\<forall>j. n < j \<longrightarrow> j < length q \<longrightarrow> streamKey (q_event (q ! j)) \<noteq> k)"

definition broker_ok :: "'p event_broker \<Rightarrow> bool" where
  "broker_ok b \<longleftrightarrow> eb_head b \<le> length (eb_queue b) \<and>
     (\<forall>k n. eb_pending b k = Some n \<longrightarrow> eb_head b \<le> n \<and> stream_slot k n (eb_queue b)) \<and>
     (\<forall>q \<in> set (live_queue b). entry_ok q) \<and> eb_queuedBytes b = queue_size (live_queue b)"

lemma broker_okI:
  assumes "eb_head b \<le> length (eb_queue b)"
    and "\<And>k n. eb_pending b k = Some n \<Longrightarrow> eb_head b \<le> n \<and> stream_slot k n (eb_queue b)"
    and "\<And>q. q \<in> set (live_queue b) \<Longrightarrow> entry_ok q" and "eb_queuedBytes b = queue_size (live_queue b)"
  shows "broker_ok b"
  using assms by (simp add: broker_ok_def)

lemma broker_okD:
  assumes "broker_ok b"
  shows "eb_head b \<le> length (eb_queue b)" "eb_pending b k = Some n \<Longrightarrow> eb_head b \<le> n"
    "eb_pending b k = Some n \<Longrightarrow> stream_slot k n (eb_queue b)"
    "q \<in> set (live_queue b) \<Longrightarrow> entry_ok q" "eb_queuedBytes b = queue_size (live_queue b)"
  using assms by (auto simp: broker_ok_def)

lemma queue_size_simps [simp]:
  "queue_size [] = 0" "queue_size (q # qs) = q_size q + queue_size qs"
  "queue_size (qs @ rs) = queue_size qs + queue_size rs"
  by (simp_all add: queue_size_def)

lemma slot_append: "stream_slot k n q \<Longrightarrow> isDeferrableQueuedEvent (q_event x) \<Longrightarrow> streamKey (q_event x) \<noteq> k \<Longrightarrow> stream_slot k n (q @ [x])"
  by (auto simp: stream_slot_def nth_append less_Suc_eq)

lemma slot_new: "isDeferrableQueuedEvent (q_event x) \<Longrightarrow> stream_slot (streamKey (q_event x)) (length q) (q @ [x])"
  by (auto simp: stream_slot_def nth_append less_Suc_eq)

lemma slot_update: "stream_slot k n q \<Longrightarrow> stream_slot k' m q \<Longrightarrow> streamKey (q_event x) = k' \<Longrightarrow>
    isDeferrableQueuedEvent (q_event x) \<Longrightarrow> stream_slot k n (q[m := x])"
  by (auto simp: stream_slot_def nth_list_update)

lemma slot_split:
  assumes "stream_slot k n q" and "head \<le> n"
  obtains pre x post where "drop head q = pre @ x # post" "x = q ! n"
    "\<And>y. drop head (q[n := y]) = pre @ y # post" "streamKey (q_event x) = k" "isDeferrableQueuedEvent (q_event x)"
    "\<And>y. y \<in> set post \<Longrightarrow> isDeferrableQueuedEvent (q_event y) \<and> streamKey (q_event y) \<noteq> k"
proof
  have n: "n < length q" using assms(1) by (simp add: stream_slot_def)
  let ?pre = "drop head (take n q)" and ?post = "drop (Suc n) q"
  show "drop head q = ?pre @ q ! n # ?post"
    using assms(2) n by (subst id_take_nth_drop [OF n]) (simp add: drop_take)
  show "drop head (q[n := y]) = ?pre @ y # ?post" for y
    using assms(2) n by (simp add: upd_conv_take_nth_drop drop_take)
  show "isDeferrableQueuedEvent (q_event y) \<and> streamKey (q_event y) \<noteq> k" if "y \<in> set ?post" for y
  proof -
    from that obtain i where "i < length ?post" "y = ?post ! i" by (auto simp: in_set_conv_nth)
    then show ?thesis using assms(1) by (simp add: stream_slot_def)
  qed
qed (use assms in \<open>auto simp: stream_slot_def\<close>)

section \<open>Appending\<close>

lemma append_queued_simps [simp]:
  "eb_head (append_queued b q) = eb_head b" "eb_queue (append_queued b q) = eb_queue b @ [q]"
  "eb_queuedBytes (append_queued b q) = eb_queuedBytes b + q_size q"
  "eb_pending (append_queued b q) = eb_pending b" "eb_degraded (append_queued b q) = eb_degraded b"
  "eb_maxBytes (append_queued b q) = eb_maxBytes b" "eb_maxEvents (append_queued b q) = eb_maxEvents b"
  "eb_closed (append_queued b q) = eb_closed b"
  by (simp_all add: append_queued_def)

lemma live_append_queued: "eb_head b \<le> length (eb_queue b) \<Longrightarrow> live_queue (append_queued b q) = live_queue b @ [q]"
  by (simp add: live_queue_def)

lemma append_queued_ok: "broker_ok b \<Longrightarrow> eb_pending b = Map.empty \<Longrightarrow> entry_ok q \<Longrightarrow> broker_ok (append_queued b q)"
  by (rule broker_okI) (auto simp: live_append_queued broker_okD dest: broker_okD(1))

text \<open>
  The two ways a deferrable event enters the queue: as a new last entry, or in the place of the
  entry of its stream, behind which no event of the stream and no barrier is queued.
\<close>

definition appended :: "'p event_broker \<Rightarrow> 'p event_broker \<Rightarrow> 'p queued_event \<Rightarrow> bool" where
  "appended b b' q \<longleftrightarrow> live_queue b' = live_queue b @ [q]"

definition replaced :: "'p event_broker \<Rightarrow> 'p event_broker \<Rightarrow> 'p queued_event \<Rightarrow> 'p queued_event \<Rightarrow> bool" where
  "replaced b b' x y \<longleftrightarrow> (\<exists>pre post. live_queue b = pre @ x # post \<and> live_queue b' = pre @ y # post \<and>
     isDeferrableQueuedEvent (q_event x) \<and>
     (\<forall>z \<in> set post. isDeferrableQueuedEvent (q_event z) \<and> streamKey (q_event z) \<noteq> streamKey (q_event x)))"

definition same_settings :: "'p event_broker \<Rightarrow> 'p event_broker \<Rightarrow> bool" where
  "same_settings b b' \<longleftrightarrow> eb_maxBytes b' = eb_maxBytes b \<and> eb_maxEvents b' = eb_maxEvents b \<and> eb_closed b' = eb_closed b"

lemma same_settings_refl [simp]: "same_settings b b"
  by (simp add: same_settings_def)

lemma same_settings_trans: "same_settings a b \<Longrightarrow> same_settings b c \<Longrightarrow> same_settings a c"
  by (simp add: same_settings_def)

lemma append_pending_ok:
  assumes "broker_ok b" and "entry_ok q" and "isDeferrableQueuedEvent (q_event q)" and "key = streamKey (q_event q)"
  shows "broker_ok (append_pending b key q)" "appended b (append_pending b key q) q"
    "eb_degraded (append_pending b key q) = eb_degraded b" "same_settings b (append_pending b key q)"
proof -
  have l: "live_queue (append_pending b key q) = live_queue b @ [q]"
    using broker_okD(1) [OF assms(1)] by (simp add: live_queue_def append_pending_def)
  then show "appended b (append_pending b key q) q" by (simp add: appended_def)
  show "broker_ok (append_pending b key q)"
    using broker_okD [OF assms(1)] assms(2-4) l slot_append [OF broker_okD(3) [OF assms(1)] assms(3)] slot_new [OF assms(3)]
    by (intro broker_okI) (auto simp: append_pending_def live_append_queued split: if_splits)
qed (simp_all add: append_pending_def same_settings_def)

lemma set_queued_ok:
  assumes "broker_ok b" and "pending_slot b key = Some n" and "entry_ok q"
    and "isDeferrableQueuedEvent (q_event q)" and "streamKey (q_event q) = key"
  shows "broker_ok (set_queued b n q)" "replaced b (set_queued b n q) (eb_queue b ! n) q"
    "eb_degraded (set_queued b n q) = eb_degraded b" "same_settings b (set_queued b n q)"
proof -
  have p: "eb_pending b key = Some n" "eb_head b \<le> n"
    using assms(2) by (auto simp: pending_slot_def split: option.splits if_splits)
  note sl = broker_okD(3) [OF assms(1) p(1)]
  from sl p(2) obtain pre x post where s: "drop (eb_head b) (eb_queue b) = pre @ x # post" "x = eb_queue b ! n"
    "\<And>y. drop (eb_head b) ((eb_queue b)[n := y]) = pre @ y # post" "streamKey (q_event x) = key" "isDeferrableQueuedEvent (q_event x)"
    "\<And>y. y \<in> set post \<Longrightarrow> isDeferrableQueuedEvent (q_event y) \<and> streamKey (q_event y) \<noteq> key"
    by (rule slot_split) blast
  then show "replaced b (set_queued b n q) (eb_queue b ! n) q"
    unfolding replaced_def live_queue_def set_queued_def by (intro exI [of _ pre] exI [of _ post]) auto
  have l: "live_queue (set_queued b n q) = pre @ q # post" "live_queue b = pre @ x # post"
    using s by (simp_all add: live_queue_def set_queued_def)
  show "broker_ok (set_queued b n q)"
  proof (rule broker_okI)
    fix k m assume "eb_pending (set_queued b n q) k = Some m"
    then show "eb_head (set_queued b n q) \<le> m \<and> stream_slot k m (eb_queue (set_queued b n q))"
      using broker_okD(2,3) [OF assms(1), of k m] slot_update [OF _ sl assms(5,4)] by (simp add: set_queued_def)
  qed (use broker_okD [OF assms(1)] l assms(3) s(2) in \<open>auto simp: set_queued_def\<close>)
qed (simp_all add: set_queued_def same_settings_def)

lemma pending_slot_entry:
  assumes "broker_ok b" and "pending_slot b key = Some n"
  shows "eb_queue b ! n \<in> set (live_queue b)" "streamKey (q_event (eb_queue b ! n)) = key"
    "isDeferrableQueuedEvent (q_event (eb_queue b ! n))"
proof -
  have p: "eb_pending b key = Some n" "eb_head b \<le> n" "n < length (eb_queue b)"
    using assms(2) by (auto simp: pending_slot_def split: option.splits if_splits)
  then show "eb_queue b ! n \<in> set (live_queue b)"
    by (auto simp: live_queue_def in_set_conv_nth intro!: exI [of _ "n - eb_head b"])
  show "streamKey (q_event (eb_queue b ! n)) = key" "isDeferrableQueuedEvent (q_event (eb_queue b ! n))"
    using broker_okD(3) [OF assms(1) p(1)] by (auto simp: stream_slot_def)
qed

lemma appendCoalescible_ok:
  assumes "broker_ok b" and "isCoalescibleEvent (be_Kind e)"
  shows "broker_ok (appendCoalescible env now e b)" "eb_degraded (appendCoalescible env now e b) = eb_degraded b"
    "same_settings b (appendCoalescible env now e b)"
    "appended b (appendCoalescible env now e b) (newQueuedEvent env e (now + eb_window b) True) \<or>
     (\<exists>x. x \<in> set (live_queue b) \<and> streamKey (q_event x) = streamKey e \<and>
        replaced b (appendCoalescible env now e b) x (mergeCoalescibleEvent env x e))"
proof -
  let ?b = "appendCoalescible env now e b" and ?q = "newQueuedEvent env e (now + eb_window b) True"
  have "broker_ok ?b \<and> eb_degraded ?b = eb_degraded b \<and> same_settings b ?b \<and>
    (appended b ?b ?q \<or> (\<exists>x. x \<in> set (live_queue b) \<and> streamKey (q_event x) = streamKey e \<and>
        replaced b ?b x (mergeCoalescibleEvent env x e)))"
  proof (cases "pending_slot b (streamKey e)")
    case None
    then show ?thesis
      using append_pending_ok [OF assms(1) newQueuedEvent_ok [of True e env "now + eb_window b"]] assms(2)
      by (simp add: appendCoalescible_def isDeferrableQueuedEvent_def)
  next
    case (Some n)
    let ?x = "eb_queue b ! n"
    note x = pending_slot_entry [OF assms(1) Some]
    have kind: "isCoalescibleEvent (be_Kind (q_event ?x))" using x(2) assms(2) by (simp add: streamKey_def)
    from x have "entry_ok (mergeCoalescibleEvent env ?x e)"
      by (intro merge_ok kind broker_okD(4) [OF assms(1)])
    from set_queued_ok [OF assms(1) Some this] x kind show ?thesis
      by (auto simp: appendCoalescible_def Some merge_event isDeferrableQueuedEvent_def)
  qed
  then show "broker_ok ?b" "eb_degraded ?b = eb_degraded b" "same_settings b ?b"
    "appended b ?b ?q \<or> (\<exists>x. x \<in> set (live_queue b) \<and> streamKey (q_event x) = streamKey e \<and>
        replaced b ?b x (mergeCoalescibleEvent env x e))" by blast+
qed

lemma appendReplaceable_ok:
  assumes "broker_ok b" and "isReplaceableEvent e"
  shows "broker_ok (appendReplaceable env now e b)" "eb_degraded (appendReplaceable env now e b) = eb_degraded b"
    "same_settings b (appendReplaceable env now e b)"
    "\<exists>t. appended b (appendReplaceable env now e b) (newQueuedEvent env e t False) \<or>
     (\<exists>x. x \<in> set (live_queue b) \<and> streamKey (q_event x) = streamKey e \<and> be_State (q_event x) = be_State e \<and>
        replaced b (appendReplaceable env now e b) x (newQueuedEvent env e t False))"
proof -
  let ?b = "appendReplaceable env now e b"
  have q: "entry_ok (newQueuedEvent env e t False)" "isDeferrableQueuedEvent e" for t
    using newQueuedEvent_ok [of False e env t] replaceable_not_coalescible [OF assms(2)] assms(2)
    by (simp_all add: isDeferrableQueuedEvent_def)
  note ap = append_pending_ok [OF assms(1) q(1), of "now + eb_window b" "streamKey e"]
  have "broker_ok ?b \<and> eb_degraded ?b = eb_degraded b \<and> same_settings b ?b \<and>
    (\<exists>t. appended b ?b (newQueuedEvent env e t False) \<or>
     (\<exists>x. x \<in> set (live_queue b) \<and> streamKey (q_event x) = streamKey e \<and> be_State (q_event x) = be_State e \<and>
        replaced b ?b x (newQueuedEvent env e t False)))"
  proof (cases "pending_slot b (streamKey e)")
    case None
    then show ?thesis using ap q(2) by (auto simp: appendReplaceable_def Let_def)
  next
    case (Some n)
    let ?x = "eb_queue b ! n"
    note x = pending_slot_entry [OF assms(1) Some]
    show ?thesis
    proof (cases "be_State (q_event ?x) = be_State e")
      case True
      with set_queued_ok [OF assms(1) Some q(1), of "q_readyAt ?x"] q(2) x show ?thesis
        by (auto simp: appendReplaceable_def Some Let_def)
    next
      case False
      with ap q(2) show ?thesis by (auto simp: appendReplaceable_def Some Let_def)
    qed
  qed
  then show "broker_ok ?b" "eb_degraded ?b = eb_degraded b" "same_settings b ?b"
    "\<exists>t. appended b ?b (newQueuedEvent env e t False) \<or>
     (\<exists>x. x \<in> set (live_queue b) \<and> streamKey (q_event x) = streamKey e \<and> be_State (q_event x) = be_State e \<and>
        replaced b ?b x (newQueuedEvent env e t False))" by blast+
qed

section \<open>Dropping under pressure\<close>

definition stream_delta :: "'p queued_event \<Rightarrow> bool" where
  "stream_delta q \<longleftrightarrow> isCoalescibleEvent (be_Kind (q_event q))"

lemma fold_over_limit:
  "ol_queue (fold over_limit_step q acc) = ol_queue acc @ filter (\<lambda>x. \<not> stream_delta x) q"
  "ol_degraded (fold over_limit_step q acc) = ol_degraded acc \<union>
     {runKey (q_event x) | x. x \<in> set q \<and> stream_delta x \<and> be_SessionID (q_event x) \<noteq> []}"
  by (induction q arbitrary: acc)
     (auto simp: over_limit_step_def stream_delta_def Let_def runKey_def)

text \<open>The runs degraded now are met once each.\<close>

lemma fold_over_limit_affected:
  assumes "distinct (ol_affected acc)" and "set (ol_affected acc) \<subseteq> ol_degraded acc"
  shows "distinct (ol_affected (fold over_limit_step q acc)) \<and>
    ol_degraded (fold over_limit_step q acc) - set (ol_affected (fold over_limit_step q acc)) \<subseteq>
      ol_degraded acc - set (ol_affected acc)"
  using assms
proof (induction q arbitrary: acc)
  case (Cons x q)
  let ?acc = "over_limit_step x acc"
  have "distinct (ol_affected ?acc)" "set (ol_affected ?acc) \<subseteq> ol_degraded ?acc"
    "ol_degraded ?acc - set (ol_affected ?acc) \<subseteq> ol_degraded acc - set (ol_affected acc)"
    using Cons.prems by (auto simp: over_limit_step_def Let_def)
  with Cons.IH [of ?acc] show ?case by auto
qed simp

definition resync_entry :: "'p queued_event \<Rightarrow> bool" where
  "resync_entry q \<longleftrightarrow> be_Kind (q_event q) = EventProjectionResync \<and> q_text q = None \<and> 0 \<le> q_size q"

lemma appendResync_cases:
  assumes "eb_head b \<le> length (eb_queue b)"
  shows "\<exists>rs. live_queue (appendResync env key state a b) = live_queue b @ rs \<and> length rs \<le> 1 \<and>
      eb_queuedBytes (appendResync env key state a b) = eb_queuedBytes b + queue_size rs \<and>
      (\<forall>q \<in> set rs. resync_entry q \<and> runKey (q_event q) = key \<and> be_State (q_event q) = state) \<and>
      (rk_sessionID key \<noteq> [] \<longrightarrow> rs \<noteq> [])"
    "eb_head (appendResync env key state a b) = eb_head b" "eb_pending (appendResync env key state a b) = eb_pending b"
    "eb_degraded (appendResync env key state a b) = eb_degraded b" "same_settings b (appendResync env key state a b)"
    "length (eb_queue b) \<le> length (eb_queue (appendResync env key state a b))"
proof -
  let ?e = "\<lparr>be_Kind = EventProjectionResync, be_SessionID = rk_sessionID key, be_RunID = rk_runID key,
         be_AgentID = a, be_ToolCallID = [], be_ApprovalID = [], be_UserInputID = [],
         be_PlanID = [], be_Text = [], be_TextPhase = [], be_State = state, be_Data = None,
         be_payload = None, be_At = 0\<rparr>"
  let ?q = "newQueuedEvent env ?e 0 False"
  have "entry_ok ?q" by (rule newQueuedEvent_ok) simp
  then have "resync_entry ?q" by (simp add: resync_entry_def entry_ok_def)
  moreover have "runKey ?e = key" by (simp add: runKey_def)
  ultimately show "\<exists>rs. live_queue (appendResync env key state a b) = live_queue b @ rs \<and> length rs \<le> 1 \<and>
      eb_queuedBytes (appendResync env key state a b) = eb_queuedBytes b + queue_size rs \<and>
      (\<forall>q \<in> set rs. resync_entry q \<and> runKey (q_event q) = key \<and> be_State (q_event q) = state) \<and>
      (rk_sessionID key \<noteq> [] \<longrightarrow> rs \<noteq> [])"
    using assms
    by (cases "rk_sessionID key = []")
       (auto simp: appendResync_def live_append_queued intro: exI [of _ "[]"] exI [of _ "[?q]"])
qed (simp_all add: appendResync_def same_settings_def)

lemma fold_appendResync:
  assumes "eb_head b \<le> length (eb_queue b)"
  shows "\<exists>rs. live_queue (fold (\<lambda>key. appendResync env key state (f key)) keys b) = live_queue b @ rs \<and>
      eb_queuedBytes (fold (\<lambda>key. appendResync env key state (f key)) keys b) = eb_queuedBytes b + queue_size rs \<and>
      (\<forall>q \<in> set rs. resync_entry q) \<and>
      (\<forall>key \<in> set keys. rk_sessionID key \<noteq> [] \<longrightarrow> (\<exists>q \<in> set rs. runKey (q_event q) = key \<and> be_State (q_event q) = state))"
    "eb_head (fold (\<lambda>key. appendResync env key state (f key)) keys b) = eb_head b \<and>
     eb_pending (fold (\<lambda>key. appendResync env key state (f key)) keys b) = eb_pending b \<and>
     eb_degraded (fold (\<lambda>key. appendResync env key state (f key)) keys b) = eb_degraded b \<and>
     same_settings b (fold (\<lambda>key. appendResync env key state (f key)) keys b) \<and>
     eb_head b \<le> length (eb_queue (fold (\<lambda>key. appendResync env key state (f key)) keys b))"
  using assms
proof (induction keys arbitrary: b)
  case Nil
  { case 1 then show ?case by (auto intro: exI [of _ "[]"]) }
  { case 2 then show ?case by simp }
next
  case (Cons key keys)
  { case 1
    let ?b = "appendResync env key state (f key) b"
    note s = appendResync_cases [OF 1, of env key state "f key"]
    from s(1) obtain rs where r: "live_queue ?b = live_queue b @ rs" "eb_queuedBytes ?b = eb_queuedBytes b + queue_size rs"
      "\<forall>q \<in> set rs. resync_entry q \<and> runKey (q_event q) = key \<and> be_State (q_event q) = state"
      "rk_sessionID key \<noteq> [] \<longrightarrow> rs \<noteq> []" by blast
    have new: "\<exists>q \<in> set rs. runKey (q_event q) = key \<and> be_State (q_event q) = state" if "rk_sessionID key \<noteq> []"
      using r(3,4) that by (cases rs) auto
    have "eb_head ?b \<le> length (eb_queue ?b)" using s(2,6) 1 by simp
    from Cons.IH(1) [OF this] obtain rs' where
      "live_queue (fold (\<lambda>key. appendResync env key state (f key)) keys ?b) = live_queue ?b @ rs'"
      "eb_queuedBytes (fold (\<lambda>key. appendResync env key state (f key)) keys ?b) = eb_queuedBytes ?b + queue_size rs'"
      "\<forall>q \<in> set rs'. resync_entry q"
      "\<forall>key \<in> set keys. rk_sessionID key \<noteq> [] \<longrightarrow> (\<exists>q \<in> set rs'. runKey (q_event q) = key \<and> be_State (q_event q) = state)"
      by blast
    with r new show ?case by (intro exI [of _ "rs @ rs'"]) auto }
  { case 2
    note s = appendResync_cases [OF 2, of env key state "f key"]
    have "eb_head (appendResync env key state (f key) b) \<le> length (eb_queue (appendResync env key state (f key) b))"
      using s(2,6) 2 by simp
    from Cons.IH(2) [OF this] s show ?case by (auto intro: same_settings_trans) }
qed

lemma live_length: "eb_head b \<le> length (eb_queue b) \<Longrightarrow>
    int (length (eb_queue b)) - int (eb_head b) = int (length (live_queue b))"
  by (simp add: live_queue_def)

lemma compactOverLimit_cases:
  assumes "broker_ok b" and b'_def: "b' = compactOverLimit env b"
  shows "broker_ok b' \<and> same_settings b b' \<and>
    (b' = b \<and> eb_queuedBytes b \<le> eb_maxBytes b \<and> int (length (live_queue b)) \<le> eb_maxEvents b \<or>
     (\<exists>rs. live_queue b' = filter (\<lambda>x. \<not> stream_delta x) (live_queue b) @ rs \<and> (\<forall>q \<in> set rs. resync_entry q)) \<and>
     eb_pending b' = Map.empty \<and>
     eb_degraded b' = eb_degraded b \<union>
       {runKey (q_event x) | x. x \<in> set (live_queue b) \<and> stream_delta x \<and> be_SessionID (q_event x) \<noteq> []}) \<and>
    (range_visits env \<longrightarrow> (\<forall>r \<in> eb_degraded b' - eb_degraded b. rk_sessionID r \<noteq> [] \<longrightarrow>
       (\<exists>q \<in> set (live_queue b'). resync_entry q \<and> resync_of r ''degraded'' (q_event q))))"
proof (cases "over_limit b")
  case False
  then show ?thesis
    using assms(1) live_length [OF broker_okD(1) [OF assms(1)]] by (auto simp: b'_def compactOverLimit_def over_limit_def)
next
  case True
  define acc where "acc = fold over_limit_step (live_queue b)
                 \<lparr>ol_queue = [], ol_degraded = eb_degraded b, ol_affected = [], ol_agentIDs = Map.empty\<rparr>"
  define b1 where "b1 = b\<lparr>eb_queue := ol_queue acc, eb_head := 0, eb_queuedBytes := queue_size (ol_queue acc),
                      eb_pending := Map.empty, eb_degraded := ol_degraded acc\<rparr>"
  define f where "f = (\<lambda>key. case ol_agentIDs acc key of None \<Rightarrow> [] | Some a \<Rightarrow> a)"
  have b': "b' = fold (\<lambda>key. appendResync env key ''degraded'' (f key)) (env_range env (ol_affected acc)) b1"
    using True by (simp add: b'_def compactOverLimit_def Let_def acc_def b1_def f_def live_queue_def)
  have l1: "live_queue b1 = filter (\<lambda>x. \<not> stream_delta x) (live_queue b)"
    by (simp add: b1_def live_queue_def [of b1] acc_def fold_over_limit) (simp add: live_queue_def)
  have q1: "eb_queuedBytes b1 = queue_size (live_queue b1)" by (simp add: b1_def live_queue_def)
  have h1: "eb_head b1 \<le> length (eb_queue b1)" by (simp add: b1_def)
  from fold_appendResync(1) [OF h1] obtain rs where rs: "live_queue b' = live_queue b1 @ rs"
    "eb_queuedBytes b' = eb_queuedBytes b1 + queue_size rs" "\<forall>q \<in> set rs. resync_entry q"
    "\<forall>key \<in> set (env_range env (ol_affected acc)). rk_sessionID key \<noteq> [] \<longrightarrow>
       (\<exists>q \<in> set rs. runKey (q_event q) = key \<and> be_State (q_event q) = ''degraded'')"
    unfolding b' by blast
  note s = fold_appendResync(2) [OF h1, of env "''degraded''" f "env_range env (ol_affected acc)", folded b']
  have "broker_ok b'"
  proof (rule broker_okI)
    show "entry_ok q" if "q \<in> set (live_queue b')" for q
      using that rs(1,3) l1 broker_okD(4) [OF assms(1)] by (auto simp: resync_entry_def entry_ok_def)
  qed (use s rs q1 in \<open>auto simp: b1_def\<close>)
  moreover have "same_settings b b'" using s by (simp add: b1_def same_settings_def)
  moreover have "eb_degraded b' = eb_degraded b \<union>
       {runKey (q_event x) | x. x \<in> set (live_queue b) \<and> stream_delta x \<and> be_SessionID (q_event x) \<noteq> []}"
    using s by (simp add: b1_def acc_def fold_over_limit)
  moreover have "\<exists>q \<in> set (live_queue b'). resync_entry q \<and> resync_of r ''degraded'' (q_event q)"
    if v: "range_visits env" and r: "r \<in> eb_degraded b'" "r \<notin> eb_degraded b" "rk_sessionID r \<noteq> []" for r
  proof -
    have a: "distinct (ol_affected acc) \<and> ol_degraded acc - set (ol_affected acc) \<subseteq> eb_degraded b"
      using fold_over_limit_affected [of "\<lparr>ol_queue = [], ol_degraded = eb_degraded b, ol_affected = [], ol_agentIDs = Map.empty\<rparr>" "live_queue b"]
      by (simp add: acc_def)
    have "r \<in> ol_degraded acc" using r(1) s by (simp add: b1_def)
    with a r(2) have "r \<in> set (ol_affected acc)" by blast
    with a v have "r \<in> set (env_range env (ol_affected acc))" by (simp add: range_visits_def)
    with rs(4) r(3) obtain q where "q \<in> set rs" "runKey (q_event q) = r" "be_State (q_event q) = ''degraded''" by blast
    with rs(1,3) show ?thesis by (intro bexI [of _ q]) (auto simp: resync_of_def resync_entry_def)
  qed
  ultimately show ?thesis using s rs l1 by (auto simp: b1_def)
qed


section \<open>Barriers, delivery and closing\<close>

text \<open>An entry apart from the moment it becomes visible.\<close>

definition bare :: "'p queued_event \<Rightarrow> 'p queued_event" where
  "bare q = q\<lparr>q_readyAt := 0\<rparr>"

lemma bare_simps [simp]:
  "q_event (bare q) = q_event q" "q_size (bare q) = q_size q" "entry_ok (bare q) = entry_ok q"
  "materializeQueuedEvent (bare q) = materializeQueuedEvent q" "bare (q\<lparr>q_readyAt := t\<rparr>) = bare q"
  by (simp_all add: bare_def entry_ok_def materializeQueuedEvent_def split: option.split)

lemma same_bare:
  assumes "map bare q = map bare q'"
  shows "map materializeQueuedEvent q = map materializeQueuedEvent q'" "queue_size q = queue_size q'"
    "(\<forall>x \<in> set q. entry_ok x) = (\<forall>x \<in> set q'. entry_ok x)" "length q = length q'"
proof -
  have "map materializeQueuedEvent (map bare q) = map materializeQueuedEvent (map bare q')"
    "map q_size (map bare q) = map q_size (map bare q')" using assms by simp_all
  then show "map materializeQueuedEvent q = map materializeQueuedEvent q'" "queue_size q = queue_size q'"
    by (simp_all add: comp_def queue_size_def)
  have "(\<forall>x \<in> set (map bare q). entry_ok x) = (\<forall>x \<in> set (map bare q'). entry_ok x)" using assms by simp
  then show "(\<forall>x \<in> set q. entry_ok x) = (\<forall>x \<in> set q'. entry_ok x)" by simp
  show "length q = length q'" using assms by (rule map_eq_imp_length_eq)
qed

lemma release_tail_bare: "n \<le> length q \<Longrightarrow> map bare (release_tail h n q) = map bare q"
  by (induction h n q rule: release_tail.induct) (auto simp: map_update list_update_same_conv)

lemma release_tail_length [simp]: "length (release_tail h n q) = length q"
  by (induction h n q rule: release_tail.induct) auto

lemma publish_barrier_cases:
  assumes "broker_ok b" and "\<not> isDeferrableQueuedEvent e" and b'_def: "b' = publish_barrier env e b"
  obtains b1 rs where "broker_ok b1" "in_queue b1 = in_queue b @ [e]" "eb_degraded b1 = eb_degraded b"
    "same_settings b b1" "broker_ok b'" "same_settings b b'" "length rs \<le> 1"
    "live_queue b' = live_queue (compactOverLimit env b1) @ rs" "\<forall>q \<in> set rs. resync_entry q \<and> resync_of (runKey e) ''final'' (q_event q)"
    "if isTerminalEvent (be_Kind e) \<and> runKey e \<in> eb_degraded (compactOverLimit env b1)
     then eb_degraded b' = eb_degraded (compactOverLimit env b1) - {runKey e} \<and> (be_SessionID e \<noteq> [] \<longrightarrow> rs \<noteq> [])
     else eb_degraded b' = eb_degraded (compactOverLimit env b1) \<and> rs = []"
proof -
  define b0 where "b0 = b\<lparr>eb_queue := release_tail (eb_head b) (length (eb_queue b)) (eb_queue b), eb_pending := Map.empty\<rparr>"
  define b1 where "b1 = append_queued b0 (newQueuedEvent env e 0 False)"
  define b2 where "b2 = compactOverLimit env b1"
  have b': "b' = (if isTerminalEvent (be_Kind e) \<and> runKey e \<in> eb_degraded b2 then
           (appendResync env (runKey e) ''final'' (be_AgentID e) b2)\<lparr>eb_degraded := eb_degraded b2 - {runKey e}\<rparr> else b2)"
    by (simp add: b'_def publish_barrier_def Let_def b2_def b1_def b0_def)
  have bare0: "map bare (live_queue b0) = map bare (live_queue b)"
    unfolding b0_def live_queue_def by (simp flip: drop_map add: release_tail_bare)
  note sb = same_bare [OF bare0]
  have ok0: "broker_ok b0"
    using broker_okD [OF assms(1)] sb by (intro broker_okI) (auto simp: b0_def)
  have nd: "\<not> isCoalescibleEvent (be_Kind e)" using assms(2) by (simp add: isDeferrableQueuedEvent_def)
  have ok1: "broker_ok b1"
    unfolding b1_def by (intro append_queued_ok ok0 newQueuedEvent_ok) (simp_all add: b0_def nd)
  have in1: "in_queue b1 = in_queue b @ [e]"
    using sb(1) broker_okD(1) [OF ok0] by (simp add: b1_def in_queue_def live_append_queued)
  have deg1: "eb_degraded b1 = eb_degraded b" "same_settings b b1" by (simp_all add: b1_def b0_def same_settings_def)
  note c = compactOverLimit_cases [OF ok1 b2_def]
  have ok2: "broker_ok b2" and set2: "same_settings b b2" using c deg1(2) by (auto intro: same_settings_trans)
  show thesis
  proof (cases "isTerminalEvent (be_Kind e) \<and> runKey e \<in> eb_degraded b2")
    case False
    then have eq: "b' = b2" unfolding b' by (rule if_not_P)
    show ?thesis
      by (rule that [of b1 "[]"]) (use ok1 ok2 set2 deg1 in1 eq False in \<open>auto simp: b2_def\<close>)
  next
    case True
    let ?b = "appendResync env (runKey e) ''final'' (be_AgentID e) b2"
    have eq: "b' = ?b\<lparr>eb_degraded := eb_degraded b2 - {runKey e}\<rparr>" unfolding b' using True by simp
    note s = appendResync_cases [OF broker_okD(1) [OF ok2], of env "runKey e" "''final''" "be_AgentID e"]
    from s(1) obtain rs where rs: "live_queue ?b = live_queue b2 @ rs" "length rs \<le> 1" "eb_queuedBytes ?b = eb_queuedBytes b2 + queue_size rs"
      "\<forall>q \<in> set rs. resync_entry q \<and> resync_of (runKey e) ''final'' (q_event q)" "be_SessionID e \<noteq> [] \<longrightarrow> rs \<noteq> []"
      by (auto simp: runKey_def resync_of_def resync_entry_def)
    have l: "live_queue b' = live_queue b2 @ rs" using rs(1) by (simp add: eq live_queue_def)
    have pend: "eb_pending b2 = Map.empty"
    proof (cases "b2 = b1")
      case True then show ?thesis by (simp add: b1_def b0_def)
    next
      case False then show ?thesis using c by blast
    qed
    have ok': "broker_ok b'"
    proof (rule broker_okI)
      show "entry_ok q" if "q \<in> set (live_queue b')" for q
        using that l rs(4) broker_okD(4) [OF ok2] by (auto simp: resync_entry_def entry_ok_def)
    qed (use l s(2-6) pend rs(3) broker_okD [OF ok2] in \<open>auto simp: eq\<close>)
    have "same_settings b b'" using s(5) set2 by (auto simp: eq same_settings_def)
    then show ?thesis
      using that [of b1 rs] ok1 in1 deg1 ok' l rs(2,4,5) True by (auto simp: eq b2_def)
  qed
qed

lemma rebuild_pending_slots:
  assumes "n \<le> length q" and "\<And>k i. p k = Some i \<Longrightarrow> stream_slot k i q"
    and "\<And>j. n \<le> j \<Longrightarrow> j < length q \<Longrightarrow> isDeferrableQueuedEvent (q_event (q ! j))"
    and "\<And>k j. p k = None \<Longrightarrow> n \<le> j \<Longrightarrow> j < length q \<Longrightarrow> streamKey (q_event (q ! j)) \<noteq> k"
    and "rebuild_pending 0 n q p k = Some i"
  shows "stream_slot k i q"
  using assms
proof (induction n arbitrary: p)
  case 0
  then show ?case by simp
next
  case (Suc n)
  let ?e = "q_event (q ! n)" and ?p = "\<lambda>p. if p (streamKey (q_event (q ! n))) = None then p(streamKey (q_event (q ! n)) \<mapsto> n) else p"
  show ?case
  proof (cases "isDeferrableQueuedEvent ?e")
    case False
    then show ?thesis using Suc.prems(2,5) by simp
  next
    case True
    have d: "isDeferrableQueuedEvent (q_event (q ! j))" if "n \<le> j" "j < length q" for j
      using Suc.prems(3) that True by (cases "j = n") auto
    have s: "stream_slot (streamKey ?e) n q" if "p (streamKey ?e) = None"
      using Suc.prems(1) d Suc.prems(4) [OF that] by (auto simp: stream_slot_def)
    have nk: "streamKey (q_event (q ! j)) \<noteq> k'" if "?p p k' = None" "n \<le> j" "j < length q" for k' j
      using Suc.prems(4) [of k' j] that by (cases "j = n") (auto split: if_splits)
    show ?thesis
      by (rule Suc.IH [of "?p p", OF _ _ d nk])
         (use Suc.prems(1,2,5) s True in \<open>auto simp: Let_def split: if_splits\<close>)
  qed
qed

lemma broker_compact_ok:
  assumes "broker_ok b"
  shows "broker_ok (broker_compact b)" "live_queue (broker_compact b) = live_queue b"
    "eb_degraded (broker_compact b) = eb_degraded b" "same_settings b (broker_compact b)"
proof -
  show l: "live_queue (broker_compact b) = live_queue b" by (simp add: broker_compact_def live_queue_def Let_def)
  have p: "eb_pending b k = None" if "eb_head b = length (eb_queue b)" for k
    using broker_okD(2,3) [OF assms, of k] that by (cases "eb_pending b k") (auto simp: stream_slot_def)
  have r: "stream_slot k n (live_queue b)" if "rebuild_pending 0 (length (live_queue b)) (live_queue b) Map.empty k = Some n" for k n
    by (rule rebuild_pending_slots [OF _ _ _ _ that]) auto
  show "broker_ok (broker_compact b)"
    using broker_okD [OF assms] p r l
    by (intro broker_okI) (auto simp: broker_compact_def Let_def live_queue_def split: if_splits)
  show "eb_degraded (broker_compact b) = eb_degraded b" "same_settings b (broker_compact b)"
    by (simp_all add: broker_compact_def Let_def same_settings_def)
qed

lemma broker_next_cases:
  assumes "broker_ok b" and "broker_next now b = (r, b')"
  shows "broker_ok b' \<and> eb_degraded b' = eb_degraded b \<and> same_settings b b' \<and>
    (case r of NextEvent e \<Rightarrow> \<exists>q. live_queue b = q # live_queue b' \<and> e = materializeQueuedEvent q | _ \<Rightarrow> b' = b)"
proof (cases "eb_head b < length (eb_queue b) \<and>
    (IsZero (q_readyAt (eb_queue b ! eb_head b)) \<or> time_sub (q_readyAt (eb_queue b ! eb_head b)) now \<le> 0)")
  case False
  then show ?thesis using assms by (auto simp: broker_next_def Let_def split: if_splits)
next
  case True
  let ?q = "eb_queue b ! eb_head b" and ?h = "eb_head b"
  define b0 where "b0 = b\<lparr>eb_queue := (eb_queue b)[?h := zero_queued], eb_head := ?h + 1, eb_queuedBytes := eb_queuedBytes b - q_size ?q\<rparr>"
  define b1 where "b1 = (if isDeferrableQueuedEvent (q_event ?q) \<and>
      (case eb_pending b0 (streamKey (q_event ?q)) of None \<Rightarrow> 0 | Some i \<Rightarrow> i) < eb_head b0
      then b0\<lparr>eb_pending := (eb_pending b0)(streamKey (q_event ?q) := None)\<rparr> else b0)"
  have res: "r = NextEvent (materializeQueuedEvent ?q)" "b' = broker_compact b1"
    using assms(2) True by (auto simp: broker_next_def Let_def b0_def b1_def)
  have l: "live_queue b = ?q # live_queue b1"
    using True by (simp add: b1_def b0_def live_queue_def Cons_nth_drop_Suc)
  have pend: "?h + 1 \<le> n \<and> stream_slot k n ((eb_queue b)[?h := zero_queued])" if "eb_pending b1 k = Some n" for k n
  proof -
    have p: "eb_pending b k = Some n" using that by (auto simp: b1_def b0_def split: if_splits)
    note s = broker_okD(2,3) [OF assms(1) p]
    have "n \<noteq> ?h"
    proof
      assume n: "n = ?h"
      then have "streamKey (q_event ?q) = k" "isDeferrableQueuedEvent (q_event ?q)" using s(2) True by (auto simp: stream_slot_def)
      with that p n show False by (auto simp: b1_def b0_def split: if_splits)
    qed
    then show ?thesis using s by (auto simp: stream_slot_def)
  qed
  have "broker_ok b1"
  proof (rule broker_okI)
    have "eb_queuedBytes b1 = eb_queuedBytes b - q_size ?q" by (simp add: b1_def b0_def)
    moreover have "queue_size (live_queue b) = q_size ?q + queue_size (live_queue b1)" unfolding l by simp
    ultimately show "eb_queuedBytes b1 = queue_size (live_queue b1)"
      using broker_okD(5) [OF assms(1)] by simp
    show "entry_ok q" if "q \<in> set (live_queue b1)" for q
      by (rule broker_okD(4) [OF assms(1)]) (simp only: l list.set_intros that)
  qed (use True pend in \<open>auto simp: b1_def b0_def split: if_splits\<close>)
  note c = broker_compact_ok [OF this]
  have "eb_degraded b1 = eb_degraded b" "same_settings b b1" by (simp_all add: b1_def b0_def same_settings_def)
  with c l show ?thesis unfolding res by (auto intro: same_settings_trans)
qed

lemma broker_close_ok:
  assumes "broker_ok b"
  shows "broker_ok (broker_close b)" "in_queue (broker_close b) = in_queue b"
    "eb_degraded (broker_close b) = eb_degraded b" "map bare (live_queue (broker_close b)) = map bare (live_queue b)"
proof -
  let ?f = "\<lambda>q. q\<lparr>q_readyAt := 0\<rparr>"
  have q: "eb_queue (broker_close b) = take (eb_head b) (eb_queue b) @ map ?f (drop (eb_head b) (eb_queue b)) \<or> broker_close b = b"
    by (simp add: broker_close_def)
  have h: "eb_head (broker_close b) = eb_head b" "eb_pending (broker_close b) = eb_pending b"
    "eb_queuedBytes (broker_close b) = eb_queuedBytes b" by (simp_all add: broker_close_def)
  show bare: "map bare (live_queue (broker_close b)) = map bare (live_queue b)"
    using q h(1) broker_okD(1) [OF assms] by (auto simp: live_queue_def comp_def)
  have ev: "length (eb_queue (broker_close b)) = length (eb_queue b)"
    "q_event (eb_queue (broker_close b) ! j) = q_event (eb_queue b ! j)" if "j < length (eb_queue b)" for j
    using q broker_okD(1) [OF assms] that by (auto simp: nth_append)
  note sb = same_bare [OF bare]
  have len: "length (eb_queue (broker_close b)) = length (eb_queue b)"
    using q broker_okD(1) [OF assms] by auto
  show "broker_ok (broker_close b)"
  proof (rule broker_okI)
    fix k n assume "eb_pending (broker_close b) k = Some n"
    then show "eb_head (broker_close b) \<le> n \<and> stream_slot k n (eb_queue (broker_close b))"
      using broker_okD(2,3) [OF assms, of k n] h ev len by (auto simp: stream_slot_def)
  qed (use broker_okD [OF assms] sb h len in auto)
  show "in_queue (broker_close b) = in_queue b" using sb(1) by (simp add: in_queue_def)
  show "eb_degraded (broker_close b) = eb_degraded b" by (simp add: broker_close_def)
qed


section \<open>What the consumer sees\<close>

lemma in_queue_compact:
  assumes "live_queue b' = filter (\<lambda>x. \<not> stream_delta x) (live_queue b) @ rs" and "\<forall>q \<in> set rs. resync_entry q"
    and "broker_ok b"
  shows "filter lifecycle (in_queue b') = filter lifecycle (in_queue b)"
    "isCoalescibleEvent kind = False \<Longrightarrow> kind \<noteq> EventProjectionResync \<Longrightarrow> sk_kind k = kind \<Longrightarrow>
       agent_states k (in_queue b') = agent_states k (in_queue b)"
    "(\<forall>x \<in> set (live_queue b). stream_delta x \<longrightarrow> streamKey (q_event x) \<noteq> k) \<Longrightarrow>
       stream_view k (in_queue b') = stream_view k (in_queue b)"
    "\<And>r st. (\<exists>e \<in> set (in_queue b). resync_of r st e) \<Longrightarrow> \<exists>e \<in> set (in_queue b'). resync_of r st e"
proof -
  have rs: "filter lifecycle (map materializeQueuedEvent rs) = []" "stream_view k (map materializeQueuedEvent rs) = []"
    "sk_kind k \<noteq> EventProjectionResync \<Longrightarrow> agent_states k (map materializeQueuedEvent rs) = []" for k
    using assms(2)
    by (induction rs) (auto simp: resync_entry_def lifecycle_def view_event_def streamKey_def)
  have f: "filter lifecycle (map materializeQueuedEvent (filter (\<lambda>x. \<not> stream_delta x) q)) = filter lifecycle (map materializeQueuedEvent q)"
    for q :: "'a queued_event list"
    by (induction q) (auto simp: lifecycle_def stream_delta_def isDeferrableQueuedEvent_def)
  have a: "agent_states k (map materializeQueuedEvent (filter (\<lambda>x. \<not> stream_delta x) q)) = agent_states k (map materializeQueuedEvent q)"
    if "\<not> isCoalescibleEvent (sk_kind k)" for k and q :: "'a queued_event list"
    using that by (induction q) (auto simp: stream_delta_def streamKey_def)
  have v: "stream_view k (map materializeQueuedEvent (filter (\<lambda>x. \<not> stream_delta x) q)) = stream_view k (map materializeQueuedEvent q)"
    if "\<forall>x \<in> set q. stream_delta x \<longrightarrow> streamKey (q_event x) \<noteq> k" for k and q :: "'a queued_event list"
    using that by (induction q) (auto simp: stream_delta_def view_event_def)
  show "filter lifecycle (in_queue b') = filter lifecycle (in_queue b)"
    "isCoalescibleEvent kind = False \<Longrightarrow> kind \<noteq> EventProjectionResync \<Longrightarrow> sk_kind k = kind \<Longrightarrow>
       agent_states k (in_queue b') = agent_states k (in_queue b)"
    "(\<forall>x \<in> set (live_queue b). stream_delta x \<longrightarrow> streamKey (q_event x) \<noteq> k) \<Longrightarrow>
       stream_view k (in_queue b') = stream_view k (in_queue b)"
    by (simp_all add: in_queue_def assms(1) rs f a v)
  show "\<exists>e \<in> set (in_queue b'). resync_of r st e" if "\<exists>e \<in> set (in_queue b). resync_of r st e" for r st
  proof -
    from that obtain x where x: "x \<in> set (live_queue b)" "resync_of r st (q_event x)" by (auto simp: in_queue_def)
    then have "\<not> stream_delta x" by (auto simp: resync_of_def stream_delta_def)
    with x have "materializeQueuedEvent x \<in> set (in_queue b')" by (simp add: in_queue_def assms(1))
    with x show ?thesis by (auto intro: bexI [of _ "materializeQueuedEvent x"])
  qed
qed

text \<open>The step of a publication on the three views, before a possible compaction.\<close>

lemma replaced_views:
  assumes "replaced b b' x y" and "streamKey (q_event y) = streamKey (q_event x)"
    and "isDeferrableQueuedEvent (q_event y)"
  shows "filter lifecycle (in_queue b') = filter lifecycle (in_queue b)"
    "\<exists>pre. agent_states (streamKey (q_event x)) (in_queue b) = pre @ [materializeQueuedEvent x] \<and>
           agent_states (streamKey (q_event x)) (in_queue b') = pre @ [materializeQueuedEvent y]"
    "k \<noteq> streamKey (q_event x) \<Longrightarrow> agent_states k (in_queue b') = agent_states k (in_queue b)"
    "view_event k (materializeQueuedEvent y) = view_event k (materializeQueuedEvent x) @ zs \<Longrightarrow>
     zs = [] \<or> k = streamKey (q_event x) \<Longrightarrow>
     stream_view k (in_queue b') = stream_view k (in_queue b) @ zs"
proof -
  from assms(1) obtain pre post where s: "live_queue b = pre @ x # post" "live_queue b' = pre @ y # post" "isDeferrableQueuedEvent (q_event x)"
    "\<forall>z \<in> set post. isDeferrableQueuedEvent (q_event z) \<and> streamKey (q_event z) \<noteq> streamKey (q_event x)"
    by (auto simp: replaced_def)
  show "filter lifecycle (in_queue b') = filter lifecycle (in_queue b)"
    using s(3) assms(3) by (simp add: in_queue_def s(1,2) lifecycle_def)
  have post: "agent_states (streamKey (q_event x)) (map materializeQueuedEvent post) = []"
    using s(4) by (induction post) auto
  then show "\<exists>pre. agent_states (streamKey (q_event x)) (in_queue b) = pre @ [materializeQueuedEvent x] \<and>
           agent_states (streamKey (q_event x)) (in_queue b') = pre @ [materializeQueuedEvent y]"
    by (simp add: in_queue_def s(1,2) assms(2))
  show "agent_states k (in_queue b') = agent_states k (in_queue b)" if "k \<noteq> streamKey (q_event x)"
    using that by (simp add: in_queue_def s(1,2) assms(2))
  have "stream_view k (map materializeQueuedEvent post) = []" if "k = streamKey (q_event x)"
    using s(4) that by (induction post) (auto simp: view_event_def lifecycle_def)
  then show "stream_view k (in_queue b') = stream_view k (in_queue b) @ zs"
    if "view_event k (materializeQueuedEvent y) = view_event k (materializeQueuedEvent x) @ zs"
      "zs = [] \<or> k = streamKey (q_event x)"
    using that by (auto simp: in_queue_def s(1,2))
qed

definition states_agree :: "'p broker_event list \<Rightarrow> 'p broker_event list \<Rightarrow> bool" where
  "states_agree xs ys \<longleftrightarrow> remdups_adj (map be_State xs) = remdups_adj (map be_State ys) \<and>
     (ys \<noteq> [] \<longrightarrow> xs \<noteq> [] \<and> last xs = last ys)"

lemma states_agree_snoc: "states_agree xs ys \<Longrightarrow> states_agree (xs @ [e]) (ys @ [e])"
proof -
  assume a: "states_agree xs ys"
  have "remdups_adj (us @ [s]) = (if us \<noteq> [] \<and> last us = s then remdups_adj us else remdups_adj us @ [s])" for us :: "string list" and s
    by (induction us rule: remdups_adj.induct) auto
  moreover have "xs = [] \<longleftrightarrow> ys = []" using a by (auto simp: states_agree_def dest: arg_cong [of _ _ length])
  ultimately show ?thesis using a by (auto simp: states_agree_def last_map)
qed

lemma states_agree_replace: "states_agree (xs @ [x]) ys \<Longrightarrow> be_State x = be_State e \<Longrightarrow> states_agree (xs @ [e]) (ys @ [e])"
proof -
  assume a: "states_agree (xs @ [x]) ys" and e: "be_State x = be_State e"
  have "remdups_adj (us @ [s]) = (if us \<noteq> [] \<and> last us = s then remdups_adj us else remdups_adj us @ [s])" for us :: "string list" and s
    by (induction us rule: remdups_adj.induct) auto
  moreover have "ys \<noteq> []" using a by (auto simp: states_agree_def)
  ultimately show ?thesis using a e by (auto simp: states_agree_def last_map)
qed

lemma newQueuedEvent_materialize [simp]: "materializeQueuedEvent (newQueuedEvent env e t c) = e"
  by (cases c) (auto simp: newQueuedEvent_def materializeQueuedEvent_def Let_def split: option.split)

definition run_of :: "stream_key \<Rightarrow> run_key" where
  "run_of k = \<lparr>rk_sessionID = sk_sessionID k, rk_runID = sk_runID k\<rparr>"

lemma rk_run_of: "rk_sessionID (run_of k) = sk_sessionID k"
  by (simp add: run_of_def)

lemma run_of_streamKey [simp]: "run_of (streamKey e) = runKey e"
  by (simp add: run_of_def streamKey_def runKey_def)

text \<open>The stream was shown as published, or a notice for its run is due or queued or delivered.\<close>

definition view_ok :: "'p event_broker \<Rightarrow> 'p broker_event list \<Rightarrow> 'p broker_event list \<Rightarrow> bool" where
  "view_ok b out acc \<longleftrightarrow>
     filter lifecycle (out @ in_queue b) = filter lifecycle acc \<and>
     (\<forall>k. sk_kind k = EventAgentState \<longrightarrow> states_agree (agent_states k (out @ in_queue b)) (agent_states k acc)) \<and>
     (\<forall>k. sk_sessionID k \<noteq> [] \<longrightarrow> run_of k \<in> eb_degraded b \<or>
        (\<exists>e \<in> set (out @ in_queue b). resync_of (run_of k) ''final'' e) \<or>
        stream_view k (out @ in_queue b) = stream_view k acc)"

lemma view_okD:
  assumes "view_ok b out acc"
  shows "filter lifecycle (out @ in_queue b) = filter lifecycle acc"
    "sk_kind k = EventAgentState \<Longrightarrow> states_agree (agent_states k (out @ in_queue b)) (agent_states k acc)"
    "sk_sessionID k \<noteq> [] \<Longrightarrow> run_of k \<in> eb_degraded b \<or>
        (\<exists>e \<in> set (out @ in_queue b). resync_of (run_of k) ''final'' e) \<or>
        stream_view k (out @ in_queue b) = stream_view k acc"
  using assms by (auto simp: view_ok_def)

lemma view_ok_appended:
  assumes "view_ok b out acc" and "in_queue b' = in_queue b @ [e]" and "eb_degraded b' = eb_degraded b"
  shows "view_ok b' out (acc @ [e])"
proof -
  have "states_agree (agent_states k (out @ in_queue b')) (agent_states k (acc @ [e]))" if "sk_kind k = EventAgentState" for k
    using view_okD(2) [OF assms(1) that] states_agree_snoc [of "agent_states k (out @ in_queue b)" "agent_states k acc" e]
    by (simp add: assms(2))
  moreover have "filter lifecycle (out @ in_queue b') = filter lifecycle (acc @ [e])"
    using view_okD(1) [OF assms(1)] by (auto simp: assms(2) simp flip: append_assoc)
  moreover have "run_of k \<in> eb_degraded b' \<or> (\<exists>e \<in> set (out @ in_queue b'). resync_of (run_of k) ''final'' e) \<or>
      stream_view k (out @ in_queue b') = stream_view k (acc @ [e])" if "sk_sessionID k \<noteq> []" for k
    using view_okD(3) [OF assms(1) that] by (auto simp: assms(2,3))
  ultimately show ?thesis by (simp add: view_ok_def)
qed

lemma view_ok_replaced:
  assumes "view_ok b out acc" and "replaced b b' x y" and "streamKey (q_event y) = streamKey (q_event x)"
    and "streamKey (q_event x) = streamKey e" and "isDeferrableQueuedEvent (q_event y)" and "isDeferrableQueuedEvent e"
    and "\<And>k. view_event k (materializeQueuedEvent y) = view_event k (materializeQueuedEvent x) @ view_event k e"
    and "be_Kind e = EventAgentState \<Longrightarrow> be_State (q_event x) = be_State e \<and> materializeQueuedEvent y = e"
    and "eb_degraded b' = eb_degraded b"
  shows "view_ok b' out (acc @ [e])"
proof -
  note r = replaced_views [OF assms(2,3,5)]
  have life: "\<not> lifecycle e" using assms(6) by (simp add: lifecycle_def)
  have "states_agree (agent_states k (out @ in_queue b')) (agent_states k (acc @ [e]))" if k: "sk_kind k = EventAgentState" for k
  proof (cases "k = streamKey e")
    case False
    then show ?thesis using view_okD(2) [OF assms(1) k] r(3) [of k] assms(4) by simp
  next
    case True
    then have e: "be_Kind e = EventAgentState" using k by (simp add: streamKey_def)
    from r(2) obtain pre where p: "agent_states k (in_queue b) = pre @ [materializeQueuedEvent x]"
      "agent_states k (in_queue b') = pre @ [materializeQueuedEvent y]" using True assms(4) by auto
    have "states_agree ((agent_states k out @ pre) @ [materializeQueuedEvent x]) (agent_states k acc)"
      using view_okD(2) [OF assms(1) k] by (simp add: p)
    from states_agree_replace [OF this, of e] assms(8) [OF e] show ?thesis by (simp add: True p [unfolded True])
  qed
  moreover have "filter lifecycle (out @ in_queue b') = filter lifecycle (acc @ [e])"
    using view_okD(1) [OF assms(1)] r(1) life by simp
  moreover have "run_of k \<in> eb_degraded b' \<or> (\<exists>e \<in> set (out @ in_queue b'). resync_of (run_of k) ''final'' e) \<or>
      stream_view k (out @ in_queue b') = stream_view k (acc @ [e])" if k: "sk_sessionID k \<noteq> []" for k
  proof -
    have "view_event k e = [] \<or> k = streamKey (q_event x)"
      using life assms(4) by (auto simp: view_event_def)
    from r(4) [OF assms(7) this] have v: "stream_view k (in_queue b') = stream_view k (in_queue b) @ view_event k e" .
    have "\<exists>e \<in> set (in_queue b'). resync_of r st e" if "\<exists>e \<in> set (in_queue b). resync_of r st e" for r st
      using that assms(2) by (auto simp: replaced_def in_queue_def resync_of_def isDeferrableQueuedEvent_def isReplaceableEvent_def)
    with view_okD(3) [OF assms(1) k] v show ?thesis by (auto simp: assms(9))
  qed
  ultimately show ?thesis by (simp add: view_ok_def)
qed

lemma view_ok_compact:
  assumes "view_ok b out acc" and "broker_ok b" and "b' = compactOverLimit env b"
  shows "view_ok b' out acc"
proof -
  from compactOverLimit_cases [OF assms(2,3)] consider "b' = b" | rs where
    "live_queue b' = filter (\<lambda>x. \<not> stream_delta x) (live_queue b) @ rs" "\<forall>q \<in> set rs. resync_entry q"
    "eb_degraded b' = eb_degraded b \<union>
       {runKey (q_event x) | x. x \<in> set (live_queue b) \<and> stream_delta x \<and> be_SessionID (q_event x) \<noteq> []}" by blast
  then show ?thesis
  proof cases
    case 1 with assms(1) show ?thesis by simp
  next
    case 2
    note c = in_queue_compact [OF 2(1,2) assms(2)]
    have "run_of k \<in> eb_degraded b' \<or> (\<exists>e \<in> set (out @ in_queue b'). resync_of (run_of k) ''final'' e) \<or>
      stream_view k (out @ in_queue b') = stream_view k acc" if k: "sk_sessionID k \<noteq> []" for k
    proof (cases "\<forall>x \<in> set (live_queue b). stream_delta x \<longrightarrow> streamKey (q_event x) \<noteq> k")
      case True
      then show ?thesis using view_okD(3) [OF assms(1) k] c(3) [OF True] c(4) [of "run_of k" "''final''"] by (auto simp: 2(3))
    next
      case False
      then obtain x where x: "x \<in> set (live_queue b)" "stream_delta x" "streamKey (q_event x) = k" by blast
      then have "run_of k = runKey (q_event x)" by auto
      moreover have "be_SessionID (q_event x) \<noteq> []" using k x(3) by (auto simp: streamKey_def)
      ultimately show ?thesis using x by (auto simp: 2(3))
    qed
    moreover have "agent_states k (in_queue b') = agent_states k (in_queue b)" if "sk_kind k = EventAgentState" for k
      by (rule c(2) [OF _ _ that]) simp_all
    ultimately show ?thesis using view_okD(1,2) [OF assms(1)] c(1) by (simp add: view_ok_def)
  qed
qed

lemma view_ok_notices:
  assumes "view_ok b out acc" and "live_queue b' = live_queue b @ rs" and "\<forall>q \<in> set rs. resync_entry q \<and> resync_of r ''final'' (q_event q)"
    and "eb_degraded b' = eb_degraded b \<or> eb_degraded b' = eb_degraded b - {r} \<and> (rk_sessionID r \<noteq> [] \<longrightarrow> rs \<noteq> [])"
  shows "view_ok b' out acc"
proof -
  have e: "filter lifecycle (map materializeQueuedEvent rs) = []" "stream_view k (map materializeQueuedEvent rs) = []"
    "sk_kind k = EventAgentState \<Longrightarrow> agent_states k (map materializeQueuedEvent rs) = []" for k
    using assms(3) by (induction rs) (auto simp: resync_entry_def lifecycle_def view_event_def streamKey_def)
  have i: "in_queue b' = in_queue b @ map materializeQueuedEvent rs" by (simp add: in_queue_def assms(2))
  have "run_of k \<in> eb_degraded b' \<or> (\<exists>e \<in> set (out @ in_queue b'). resync_of (run_of k) ''final'' e) \<or>
      stream_view k (out @ in_queue b') = stream_view k acc" if k: "sk_sessionID k \<noteq> []" for k
  proof (cases "rs \<noteq> [] \<and> run_of k = r")
    case True
    then obtain q qs where "rs = q # qs" by (cases rs) auto
    then have "resync_of (run_of k) ''final'' (materializeQueuedEvent q)" "materializeQueuedEvent q \<in> set (in_queue b')"
      using assms(3) True by (auto simp: resync_of_def resync_entry_def i)
    then have "\<exists>e \<in> set (out @ in_queue b'). resync_of (run_of k) ''final'' e"
      by (intro bexI [of _ "materializeQueuedEvent q"]) simp_all
    then show ?thesis by blast
  next
    case False
    then have "run_of k \<in> eb_degraded b \<longrightarrow> run_of k \<in> eb_degraded b'"
      using assms(4) k rk_run_of [of k] by (cases "run_of k = r") auto
    with view_okD(3) [OF assms(1) k] show ?thesis by (auto simp: i e)
  qed
  with view_okD(1,2) [OF assms(1)] show ?thesis by (simp add: view_ok_def i e)
qed

text \<open>Every degraded run with a session has its notice, delivered or queued.\<close>

definition announced :: "'p event_broker \<Rightarrow> 'p broker_event list \<Rightarrow> bool" where
  "announced b out \<longleftrightarrow> (\<forall>r \<in> eb_degraded b. rk_sessionID r \<noteq> [] \<longrightarrow>
     (\<exists>e \<in> set (out @ in_queue b). resync_of r ''degraded'' e))"

lemma announced_mono:
  assumes "announced b out" and "eb_degraded b' \<subseteq> eb_degraded b"
    and "\<And>e. e \<in> set (out @ in_queue b) \<Longrightarrow> be_Kind e = EventProjectionResync \<Longrightarrow> e \<in> set (out' @ in_queue b')"
  shows "announced b' out'"
  using assms unfolding announced_def resync_of_def by blast

lemma announced_compact:
  assumes "announced b out" and "broker_ok b" and "range_visits env"
  shows "announced (compactOverLimit env b) out"
proof -
  let ?b = "compactOverLimit env b"
  have old: "\<exists>e \<in> set (in_queue ?b). resync_of r st e" if "\<exists>e \<in> set (in_queue b). resync_of r st e" for r st
  proof (cases "?b = b")
    case False
    then obtain rs where "live_queue ?b = filter (\<lambda>x. \<not> stream_delta x) (live_queue b) @ rs" "\<forall>q \<in> set rs. resync_entry q"
      using compactOverLimit_cases [OF assms(2) refl, of env] by blast
    from in_queue_compact(4) [OF this assms(2) that] show ?thesis .
  qed (use that in simp)
  have new: "\<exists>e \<in> set (in_queue ?b). resync_of r ''degraded'' e"
    if "r \<in> eb_degraded ?b" "r \<notin> eb_degraded b" "rk_sessionID r \<noteq> []" for r
  proof -
    from compactOverLimit_cases [OF assms(2) refl, of env] assms(3) that
    obtain q where "q \<in> set (live_queue ?b)" "resync_of r ''degraded'' (q_event q)" by blast
    then show ?thesis by (intro bexI [of _ "materializeQueuedEvent q"]) (simp_all add: in_queue_def)
  qed
  show ?thesis unfolding announced_def
  proof (intro ballI impI)
    fix r assume r: "r \<in> eb_degraded ?b" "rk_sessionID r \<noteq> []"
    show "\<exists>e \<in> set (out @ in_queue ?b). resync_of r ''degraded'' e"
    proof (cases "r \<in> eb_degraded b")
      case True
      with assms(1) r(2) obtain e where "e \<in> set (out @ in_queue b)" "resync_of r ''degraded'' e"
        unfolding announced_def by blast
      with old [of r "''degraded''"] show ?thesis unfolding set_append by blast
    next
      case False
      with new [OF r(1) False r(2)] show ?thesis unfolding set_append by blast
    qed
  qed
qed

section \<open>Bounds\<close>

definition bounded :: "'p event_broker \<Rightarrow> bool" where
  "bounded b \<longleftrightarrow> ((\<exists>x \<in> set (live_queue b). stream_delta x) \<longrightarrow>
     int (length (live_queue b)) \<le> eb_maxEvents b + 1 \<and> eb_queuedBytes b - q_size (last (live_queue b)) \<le> eb_maxBytes b)"

lemma bounded_compact:
  assumes "broker_ok b" and "b' = compactOverLimit env b" and "broker_ok b''" and "same_settings b b''"
    and "live_queue b'' = live_queue b' @ rs" and "length rs \<le> 1" and "\<forall>q \<in> set rs. resync_entry q"
  shows "bounded b''"
proof -
  note s = broker_okD(5) [OF assms(3)] broker_okD(5) [OF assms(1)]
  have rs: "\<not> stream_delta q" if "q \<in> set rs" for q
    using that assms(7) by (auto simp: resync_entry_def stream_delta_def)
  have "\<forall>x \<in> set (live_queue b'). \<not> stream_delta x"
    if "\<exists>rs. live_queue b' = filter (\<lambda>x. \<not> stream_delta x) (live_queue b) @ rs \<and> (\<forall>q \<in> set rs. resync_entry q)"
    using that by (force simp: resync_entry_def stream_delta_def)
  with compactOverLimit_cases [OF assms(1,2)] consider
    "b' = b" "eb_queuedBytes b \<le> eb_maxBytes b" "int (length (live_queue b)) \<le> eb_maxEvents b"
    | "\<forall>x \<in> set (live_queue b'). \<not> stream_delta x"
    by blast
  then show ?thesis
  proof cases
    case 2
    with rs assms(5) show ?thesis by (auto simp: bounded_def)
  next
    case 1
    show ?thesis
    proof (cases rs)
      case Nil
      have "0 \<le> q_size (last (live_queue b))" if "live_queue b \<noteq> []"
        using broker_okD(4) [OF assms(1) last_in_set [OF that]] by (simp add: entry_ok_def)
      moreover have "live_queue b'' = live_queue b" "eb_queuedBytes b'' = eb_queuedBytes b"
        "eb_maxBytes b'' = eb_maxBytes b" "eb_maxEvents b'' = eb_maxEvents b"
        using 1(1) Nil assms(4,5) s by (simp_all add: same_settings_def)
      ultimately show ?thesis using 1(2,3) by (cases "live_queue b = []") (simp_all add: bounded_def)
    next
      case (Cons q qs)
      then have "rs = [q]" using assms(6) by simp
      then show ?thesis using 1 assms(4,5) s by (auto simp: bounded_def same_settings_def)
    qed
  qed
qed

lemma bounded_next:
  assumes "bounded b" and "broker_ok b" and "broker_ok b'" and "live_queue b = q # live_queue b'" and "same_settings b b'"
  shows "bounded b'"
proof (cases "live_queue b'")
  case (Cons x xs)
  have "0 \<le> q_size q" using broker_okD(4) [OF assms(2), of q] assms(4) by (simp add: entry_ok_def)
  with Cons assms(1,4,5) broker_okD(5) [OF assms(2)] broker_okD(5) [OF assms(3)] show ?thesis
    by (auto simp: bounded_def same_settings_def)
qed (simp add: bounded_def)

section \<open>Histories keep the invariant\<close>

definition history_ok :: "'p broker_state \<Rightarrow> bool" where
  "history_ok s = (case s of (b, out, acc) \<Rightarrow> broker_ok b \<and> view_ok b out acc \<and> bounded b)"

lemma publish_ok:
  assumes "broker_ok b" and "view_ok b out acc" and "bounded b" and "broker_publish env now e b = (eventPublishAccepted, b')"
  shows "broker_ok b' \<and> view_ok b' out (acc @ [e]) \<and> bounded b' \<and> same_settings b b'"
proof -
  have compacted: "broker_ok (compactOverLimit env b1) \<and> view_ok (compactOverLimit env b1) out (acc @ [e]) \<and>
      bounded (compactOverLimit env b1) \<and> same_settings b (compactOverLimit env b1)"
    if "broker_ok b1" "view_ok b1 out (acc @ [e])" "same_settings b b1" for b1
    using compactOverLimit_cases [OF that(1) refl, of env] view_ok_compact [OF that(2,1) refl, of env]
      bounded_compact [OF that(1) refl, of "compactOverLimit env b1" env "[]"] that(3) same_settings_trans [OF that(3)]
    by (auto simp: same_settings_def)
  consider (coalescible) "isCoalescibleEvent (be_Kind e)" "b' = compactOverLimit env (appendCoalescible env now e b)"
    | (replaceable) "isReplaceableEvent e" "b' = compactOverLimit env (appendReplaceable env now e b)"
    | (barrier) "\<not> isDeferrableQueuedEvent e" "b' = publish_barrier env e b"
    using assms(4) by (auto simp: broker_publish_def isDeferrableQueuedEvent_def split: if_splits)
  then show ?thesis
  proof cases
    case coalescible
    let ?b = "appendCoalescible env now e b"
    note a = appendCoalescible_ok [OF assms(1) coalescible(1), of env now]
    have "view_ok ?b out (acc @ [e])"
      using a(4)
    proof (elim disjE exE conjE)
      assume "appended b ?b (newQueuedEvent env e (now + eb_window b) True)"
      then show ?thesis by (intro view_ok_appended [OF assms(2)] a(2)) (simp add: in_queue_def appended_def)
    next
      fix x assume x: "x \<in> set (live_queue b)" "streamKey (q_event x) = streamKey e" "replaced b ?b x (mergeCoalescibleEvent env x e)"
      have k: "isCoalescibleEvent (be_Kind (q_event x))" using coalescible(1) x(2) by (simp add: streamKey_def)
      show ?thesis
        using x(2) k coalescible(1) broker_okD(4) [OF assms(1) x(1)]
        by (intro view_ok_replaced [OF assms(2) x(3)] a(2))
           (auto simp: merge_event isDeferrableQueuedEvent_def merge_view)
    qed
    from compacted [OF a(1) this a(3)] show ?thesis by (simp add: coalescible(2))
  next
    case replaceable
    let ?b = "appendReplaceable env now e b"
    note a = appendReplaceable_ok [OF assms(1) replaceable(1), of env now]
    have d: "isDeferrableQueuedEvent e" "be_Kind e = EventAgentState"
      using replaceable(1) by (simp_all add: isDeferrableQueuedEvent_def replaceable_iff)
    from a(4) obtain t where t: "appended b ?b (newQueuedEvent env e t False) \<or>
     (\<exists>x. x \<in> set (live_queue b) \<and> streamKey (q_event x) = streamKey e \<and> be_State (q_event x) = be_State e \<and>
        replaced b ?b x (newQueuedEvent env e t False))" by blast
    have "view_ok ?b out (acc @ [e])"
      using t
    proof (elim disjE exE conjE)
      assume "appended b ?b (newQueuedEvent env e t False)"
      then show ?thesis by (intro view_ok_appended [OF assms(2)] a(2)) (simp add: in_queue_def appended_def)
    next
      fix x assume x: "x \<in> set (live_queue b)" "streamKey (q_event x) = streamKey e" "be_State (q_event x) = be_State e"
        "replaced b ?b x (newQueuedEvent env e t False)"
      have k: "be_Kind (q_event x) = EventAgentState" using d(2) x(2) by (simp add: streamKey_def)
      have "\<not> lifecycle (q_event x)" using replaceable(1) k x(3)
        by (simp add: lifecycle_def isDeferrableQueuedEvent_def replaceable_iff)
      then show ?thesis
        using x(2,3) k d
        by (intro view_ok_replaced [OF assms(2) x(4)] a(2)) (auto simp: view_event_def lifecycle_def)
    qed
    from compacted [OF a(1) this a(3)] show ?thesis by (simp add: replaceable(2))
  next
    case barrier
    obtain b1 rs where p: "broker_ok b1" "in_queue b1 = in_queue b @ [e]" "eb_degraded b1 = eb_degraded b"
      "same_settings b b1" "broker_ok b'" "same_settings b b'" "length rs \<le> 1"
      "live_queue b' = live_queue (compactOverLimit env b1) @ rs" "\<forall>q \<in> set rs. resync_entry q \<and> resync_of (runKey e) ''final'' (q_event q)"
      "if isTerminalEvent (be_Kind e) \<and> runKey e \<in> eb_degraded (compactOverLimit env b1)
       then eb_degraded b' = eb_degraded (compactOverLimit env b1) - {runKey e} \<and> (be_SessionID e \<noteq> [] \<longrightarrow> rs \<noteq> [])
       else eb_degraded b' = eb_degraded (compactOverLimit env b1) \<and> rs = []"
      using publish_barrier_cases [OF assms(1) barrier] by blast
    have v: "view_ok (compactOverLimit env b1) out (acc @ [e])"
      by (rule view_ok_compact [OF view_ok_appended [OF assms(2) p(2,3)] p(1) refl])
    have "view_ok b' out (acc @ [e])"
      using p(10) by (intro view_ok_notices [OF v p(8,9)]) (auto simp: runKey_def split: if_splits)
    moreover have "bounded b'"
      using p(9) p(4,6) by (intro bounded_compact [OF p(1) refl p(5) _ p(8,7)]) (auto simp: same_settings_def)
    ultimately show ?thesis using p(5,6) by simp
  qed
qed

lemma history_ok_step:
  assumes "history_ok s"
  shows "history_ok (broker_op_step env op s)"
proof -
  obtain b out acc where s: "s = (b, out, acc)" by (cases s)
  have ok: "broker_ok b" "view_ok b out acc" "bounded b" using assms by (simp_all add: s history_ok_def)
  show ?thesis
  proof (cases op)
    case (BPublish e now)
    show ?thesis
    proof (cases "broker_publish env now e b")
      case (Pair st b')
      then show ?thesis
        using publish_ok [OF ok, of env now e b'] ok
        by (cases st) (auto simp: s BPublish history_ok_def broker_publish_def split: if_splits)
    qed
  next
    case (BNext now)
    obtain r b' where n: "broker_next now b = (r, b')" by fastforce
    note c = broker_next_cases [OF ok(1) n]
    show ?thesis
    proof (cases r)
      case (NextEvent e)
      with c obtain q where q: "live_queue b = q # live_queue b'" "e = materializeQueuedEvent q" by auto
      then have "out @ in_queue b = (out @ [e]) @ in_queue b'" by (simp add: in_queue_def)
      then have "view_ok b' (out @ [e]) acc" using ok(2) c by (simp add: view_ok_def)
      with bounded_next [OF ok(3,1) _ q(1)] c show ?thesis by (simp add: s BNext n NextEvent history_ok_def)
    qed (use c ok in \<open>auto simp: s BNext n history_ok_def\<close>)
  next
    case BClose
    note c = broker_close_ok [OF ok(1)]
    have sb: "length (live_queue (broker_close b)) = length (live_queue b)" using same_bare(4) [OF c(4)] .
    have ev: "map q_event (live_queue (broker_close b)) = map q_event (live_queue b)" "map q_size (live_queue (broker_close b)) = map q_size (live_queue b)"
      using arg_cong [OF c(4), of "map q_event"] arg_cong [OF c(4), of "map q_size"] by (simp_all add: comp_def)
    have delta: "(\<exists>x \<in> set q. stream_delta x) = (\<exists>e \<in> set (map q_event q). isCoalescibleEvent (be_Kind e))"
      for q :: "'a queued_event list" by (simp add: stream_delta_def)
    have "q_size (last (live_queue (broker_close b))) = q_size (last (live_queue b))" if "live_queue b \<noteq> []"
      using ev(2) that by (metis last_map map_is_Nil_conv)
    moreover have "eb_maxBytes (broker_close b) = eb_maxBytes b" "eb_maxEvents (broker_close b) = eb_maxEvents b"
      "eb_queuedBytes (broker_close b) = eb_queuedBytes b" by (simp_all add: broker_close_def)
    ultimately have "bounded (broker_close b)"
      using ok(3) sb ev(1) unfolding bounded_def delta by (cases "live_queue b = []") auto
    then show ?thesis using c ok(2) by (simp add: s BClose history_ok_def view_ok_def)
  qed
qed

lemma history_ok_new: "history_ok (newEventBroker window, [], [])"
  by (simp add: history_ok_def newEventBroker_def broker_ok_def live_queue_def view_ok_def in_queue_def states_agree_def bounded_def)

lemma history_ok_run: "history_ok (broker_history env (newEventBroker window) ops)"
proof -
  have "history_ok s \<Longrightarrow> history_ok (fold (broker_op_step env) ops s)" for s :: "'a broker_state"
    by (induction ops arbitrary: s) (simp_all only: fold_simps history_ok_step)
  then show ?thesis unfolding broker_history_def by (simp add: history_ok_new)
qed


lemma replaced_resync:
  assumes "replaced b b' x y" and "isDeferrableQueuedEvent (q_event x)" and "e \<in> set (in_queue b)"
    and "be_Kind e = EventProjectionResync"
  shows "e \<in> set (in_queue b')"
  using assms
  by (auto simp: replaced_def in_queue_def isDeferrableQueuedEvent_def isReplaceableEvent_def)

lemma announced_publish:
  assumes "announced b out" and "broker_ok b" and "range_visits env"
    and "broker_publish env now e b = (eventPublishAccepted, b')"
  shows "announced b' out"
proof -
  consider (coalescible) "isCoalescibleEvent (be_Kind e)" "b' = compactOverLimit env (appendCoalescible env now e b)"
    | (replaceable) "isReplaceableEvent e" "b' = compactOverLimit env (appendReplaceable env now e b)"
    | (barrier) "\<not> isDeferrableQueuedEvent e" "b' = publish_barrier env e b"
    using assms(4) by (auto simp: broker_publish_def isDeferrableQueuedEvent_def split: if_splits)
  then show ?thesis
  proof cases
    case coalescible
    let ?b = "appendCoalescible env now e b"
    note a = appendCoalescible_ok [OF assms(2) coalescible(1), of env now]
    have "e' \<in> set (in_queue ?b)" if "e' \<in> set (in_queue b)" "be_Kind e' = EventProjectionResync" for e'
      using a(4)
    proof (elim disjE exE conjE)
      fix x assume x: "streamKey (q_event x) = streamKey e" "replaced b ?b x (mergeCoalescibleEvent env x e)"
      have "isDeferrableQueuedEvent (q_event x)" using coalescible(1) x(1) by (simp add: streamKey_def isDeferrableQueuedEvent_def)
      from replaced_resync [OF x(2) this that] show ?thesis .
    qed (use that in \<open>auto simp: appended_def in_queue_def\<close>)
    then have "announced ?b out" using a(2) by (intro announced_mono [OF assms(1)]) auto
    then show ?thesis unfolding coalescible(2) by (rule announced_compact [OF _ a(1) assms(3)])
  next
    case replaceable
    let ?b = "appendReplaceable env now e b"
    note a = appendReplaceable_ok [OF assms(2) replaceable(1), of env now]
    from a(4) obtain t where t: "appended b ?b (newQueuedEvent env e t False) \<or>
     (\<exists>x. x \<in> set (live_queue b) \<and> streamKey (q_event x) = streamKey e \<and> be_State (q_event x) = be_State e \<and>
        replaced b ?b x (newQueuedEvent env e t False))" by blast
    have "e' \<in> set (in_queue ?b)" if "e' \<in> set (in_queue b)" "be_Kind e' = EventProjectionResync" for e'
      using t
    proof (elim disjE exE conjE)
      fix x assume x: "streamKey (q_event x) = streamKey e" "be_State (q_event x) = be_State e"
        "replaced b ?b x (newQueuedEvent env e t False)"
      have "isReplaceableEvent (q_event x)" using replaceable(1) x(1,2) by (simp add: streamKey_def replaceable_iff)
      then have "isDeferrableQueuedEvent (q_event x)" by (simp add: isDeferrableQueuedEvent_def)
      from replaced_resync [OF x(3) this that] show ?thesis .
    qed (use that in \<open>auto simp: appended_def in_queue_def\<close>)
    then have "announced ?b out" using a(2) by (intro announced_mono [OF assms(1)]) auto
    then show ?thesis unfolding replaceable(2) by (rule announced_compact [OF _ a(1) assms(3)])
  next
    case barrier
    obtain b1 rs where p: "broker_ok b1" "in_queue b1 = in_queue b @ [e]" "eb_degraded b1 = eb_degraded b"
      "same_settings b b1" "broker_ok b'" "same_settings b b'" "length rs \<le> 1"
      "live_queue b' = live_queue (compactOverLimit env b1) @ rs" "\<forall>q \<in> set rs. resync_entry q \<and> resync_of (runKey e) ''final'' (q_event q)"
      "if isTerminalEvent (be_Kind e) \<and> runKey e \<in> eb_degraded (compactOverLimit env b1)
       then eb_degraded b' = eb_degraded (compactOverLimit env b1) - {runKey e} \<and> (be_SessionID e \<noteq> [] \<longrightarrow> rs \<noteq> [])
       else eb_degraded b' = eb_degraded (compactOverLimit env b1) \<and> rs = []"
      using publish_barrier_cases [OF assms(2) barrier] by blast
    have "eb_degraded b' \<subseteq> eb_degraded (compactOverLimit env b1)" using p(10) by (auto split: if_splits)
    have "announced b1 out" using p(2,3) by (intro announced_mono [OF assms(1)]) auto
    from announced_compact [OF this p(1) assms(3)] \<open>eb_degraded b' \<subseteq> _\<close> show ?thesis
      by (rule announced_mono) (auto simp: in_queue_def p(8))
  qed
qed

lemma announced_step:
  assumes "history_ok (b, out, acc)" and "announced b out" and "range_visits env"
    and "broker_op_step env op (b, out, acc) = (b', out', acc')"
  shows "announced b' out'"
proof -
  have ok: "broker_ok b" using assms(1) by (simp add: history_ok_def)
  show ?thesis
  proof (cases op)
    case (BPublish e now)
    show ?thesis
    proof (cases "broker_publish env now e b")
      case (Pair st c)
      with assms(2,4) announced_publish [OF assms(2) ok assms(3), of now e c] show ?thesis
        by (cases st) (auto simp: BPublish broker_publish_def split: if_splits)
    qed
  next
    case (BNext now)
    obtain r c where n: "broker_next now b = (r, c)" by fastforce
    note k = broker_next_cases [OF ok n]
    show ?thesis
    proof (cases r)
      case (NextEvent e)
      with k obtain q where "live_queue b = q # live_queue c" "e = materializeQueuedEvent q" by auto
      then have "set ((out @ [e]) @ in_queue c) = set (out @ in_queue b)" by (simp add: in_queue_def)
      with k assms(2,4) show ?thesis by (auto simp: BNext n NextEvent announced_def)
    qed (use k assms(2,4) in \<open>auto simp: BNext n\<close>)
  next
    case BClose
    note c = broker_close_ok [OF ok]
    with assms(2,4) show ?thesis by (auto simp: BClose announced_def)
  qed
qed

lemma announced_run:
  assumes "range_visits env" and "broker_history env (newEventBroker window) ops = (b, out, acc)"
  shows "announced b out"
proof -
  have "history_ok (b', out', acc') \<and> announced b' out'"
    if "fold (broker_op_step env) ops (b0, out0, acc0) = (b', out', acc')" "history_ok (b0, out0, acc0)" "announced b0 out0"
    for b0 out0 acc0 b' and out' acc' :: "'a broker_event list"
    using that
  proof (induction ops arbitrary: b0 out0 acc0)
    case (Cons op ops)
    obtain b1 out1 acc1 where s: "broker_op_step env op (b0, out0, acc0) = (b1, out1, acc1)"
      by (cases "broker_op_step env op (b0, out0, acc0)") auto
    have "announced b1 out1" by (rule announced_step [OF Cons.prems(2,3) assms(1) s])
    moreover have "history_ok (b1, out1, acc1)" using history_ok_step [OF Cons.prems(2), of env op] s by simp
    ultimately show ?case using Cons.IH [of b1 out1 acc1] Cons.prems(1) s by simp
  qed simp
  from this [OF assms(2) [unfolded broker_history_def] history_ok_new] show ?thesis
    by (simp add: announced_def newEventBroker_def)
qed

section \<open>Guarantees\<close>

text \<open>C22. Nothing but stream deltas is ever lost: whatever is published and delivered, the lifecycle
  events seen or still queued are exactly those published, in order; and the snapshots of an
  agent show the same sequence of states as those published and end with the newest one.\<close>

theorem broker_keeps_lifecycle:
  assumes "broker_history env (newEventBroker window) ops = (b, out, acc)"
  shows "filter lifecycle (out @ in_queue b) = filter lifecycle acc \<and>
    (sk_kind k = EventAgentState \<longrightarrow>
       remdups_adj (map be_State (agent_states k (out @ in_queue b))) = remdups_adj (map be_State (agent_states k acc)) \<and>
       (agent_states k acc \<noteq> [] \<longrightarrow> agent_states k (out @ in_queue b) \<noteq> [] \<and>
          last (agent_states k (out @ in_queue b)) = last (agent_states k acc)))"
proof -
  have "view_ok b out acc" using history_ok_run [of env window ops] assms by (simp add: history_ok_def)
  from view_okD(1,2) [OF this] show ?thesis by (simp add: states_agree_def)
qed

text \<open>C0. A stream is shown exactly or the loss is announced. For every stream of a session, whatever
  is published and delivered: either the consumer sees every character of the stream, in order
  and on the right side of every lifecycle event; or a final resynchronisation notice for its run
  was delivered or is queued; or the run is still marked degraded and the notice that it is
  degraded was delivered or is queued. Once the terminal event of the run is accepted the mark is
  gone, so that the stream is exact or the final notice is there. All that is assumed is that
  ranging over a map visits each of its keys once. Deltas without a session id are dropped without
  a notice and are not covered.\<close>

theorem broker_stream_exact:
  assumes "broker_history env (newEventBroker window) ops = (b, out, acc)" and "range_visits env"
    and "sk_sessionID k \<noteq> []"
  shows "(stream_view k (out @ in_queue b) = stream_view k acc \<or>
      (\<exists>e \<in> set (out @ in_queue b). resync_of (run_of k) ''final'' e) \<or>
      (run_of k \<in> eb_degraded b \<and> (\<exists>e \<in> set (out @ in_queue b). resync_of (run_of k) ''degraded'' e))) \<and>
    ((\<exists>ops' e now. ops = ops' @ [BPublish e now] \<and> isTerminalEvent (be_Kind e) \<and> runKey e = run_of k \<and> \<not> eb_closed b) \<longrightarrow>
      run_of k \<notin> eb_degraded b)"
proof (intro conjI impI)
  have v: "view_ok b out acc" using history_ok_run [of env window ops] assms(1) by (simp add: history_ok_def)
  have "rk_sessionID (run_of k) \<noteq> []" using assms(3) by (simp add: rk_run_of)
  with view_okD(3) [OF v assms(3)] announced_run [OF assms(2,1)]
  show "stream_view k (out @ in_queue b) = stream_view k acc \<or>
      (\<exists>e \<in> set (out @ in_queue b). resync_of (run_of k) ''final'' e) \<or>
      (run_of k \<in> eb_degraded b \<and> (\<exists>e \<in> set (out @ in_queue b). resync_of (run_of k) ''degraded'' e))"
    unfolding announced_def by blast
next
  assume "\<exists>ops' e now. ops = ops' @ [BPublish e now] \<and> isTerminalEvent (be_Kind e) \<and> runKey e = run_of k \<and> \<not> eb_closed b"
  then obtain ops' e now where o: "ops = ops' @ [BPublish e now]" "isTerminalEvent (be_Kind e)" "runKey e = run_of k" "\<not> eb_closed b"
    by blast
  obtain b0 out0 acc0 where h: "broker_history env (newEventBroker window) ops' = (b0, out0, acc0)"
    by (cases "broker_history env (newEventBroker window) ops'") auto
  have s: "broker_op_step env (BPublish e now) (b0, out0, acc0) = (b, out, acc)"
    using assms(1) h by (simp add: broker_history_def o(1))
  have ok: "broker_ok b0" using history_ok_run [of env window ops'] h by (simp add: history_ok_def)
  have k: "\<not> isCoalescibleEvent (be_Kind e)" "\<not> isReplaceableEvent e"
    using o(2) by (auto simp: isTerminalEvent_def isCoalescibleEvent_def isReplaceableEvent_def split: event_kind.splits if_splits)
  then have nd: "\<not> isDeferrableQueuedEvent e" by (simp add: isDeferrableQueuedEvent_def)
  have b: "b = publish_barrier env e b0"
    using s o(4) k by (auto simp: broker_publish_def split: if_splits)
  obtain b1 where "if isTerminalEvent (be_Kind e) \<and> runKey e \<in> eb_degraded (compactOverLimit env b1)
      then eb_degraded b = eb_degraded (compactOverLimit env b1) - {runKey e}
      else eb_degraded b = eb_degraded (compactOverLimit env b1)"
    using publish_barrier_cases [OF ok nd b] by metis
  then show "run_of k \<notin> eb_degraded b" using o(2,3) by (auto split: if_splits)
qed

text \<open>The broker's byte counter is exact, and its limits hold: as long as a stream delta is
  queued, the queue is within the byte and event limits but for one closing notice.\<close>

theorem broker_bounded:
  assumes "broker_history env (newEventBroker window) ops = (b, out, acc)"
  shows "eb_queuedBytes b = queue_size (live_queue b) \<and>
    (\<forall>x \<in> set (live_queue b). stream_delta x \<longrightarrow>
       int (length (live_queue b)) \<le> eb_maxEvents b + 1 \<and>
       queue_size (butlast (live_queue b)) \<le> eb_maxBytes b)"
proof -
  have ok: "broker_ok b" "bounded b" using history_ok_run [of env window ops] assms by (simp_all add: history_ok_def)
  have "queue_size (butlast q) = queue_size q - q_size (last q)" if "q \<noteq> []" for q :: "'a queued_event list"
    using that by (induction q) auto
  then have "queue_size (butlast (live_queue b)) = eb_queuedBytes b - q_size (last (live_queue b))" if "x \<in> set (live_queue b)" for x
    using broker_okD(5) [OF ok(1)] that by (cases "live_queue b") auto
  with ok(2) broker_okD(5) [OF ok(1)] show ?thesis unfolding bounded_def by metis
qed

text \<open>The contract list names every declared event kind exactly once.\<close>

theorem event_kinds_exactly_once:
  "distinct AllEventKinds \<and> (set AllEventKinds = {kind. \<forall>s. kind \<noteq> OtherEventKind s})"
proof
  show "distinct AllEventKinds" by (simp add: AllEventKinds_def)
  have "kind \<in> set AllEventKinds \<longleftrightarrow> (\<forall>s. kind \<noteq> OtherEventKind s)" for kind
    by (cases kind) (simp_all add: AllEventKinds_def)
  then show "set AllEventKinds = {kind. \<forall>s. kind \<noteq> OtherEventKind s}" by blast
qed

section \<open>Witnesses\<close>

definition ex_go_env :: "unit go_env" where
  "ex_go_env = \<lparr>env_marshal = (\<lambda>e. Some 10), env_grow = (\<lambda>c n. n), env_range = (\<lambda>ks. ks)\<rparr>"

definition ex_event :: "event_kind \<Rightarrow> string \<Rightarrow> string \<Rightarrow> unit broker_event" where
  "ex_event kind text state = \<lparr>be_Kind = kind, be_SessionID = ''s'', be_RunID = ''r'', be_AgentID = [],
     be_ToolCallID = [], be_ApprovalID = [], be_UserInputID = [], be_PlanID = [], be_Text = text,
     be_TextPhase = [], be_State = state, be_Data = None, be_payload = None, be_At = 0\<rparr>"

definition ex_broker_ops :: "unit broker_op list" where
  "ex_broker_ops = [BPublish (ex_event EventTextDelta ''he'' []) 1, BPublish (ex_event EventAgentState [] ''running'') 2,
     BPublish (ex_event EventTextDelta ''llo'' []) 3, BNext 4, BPublish (ex_event EventAgentState [] ''running'') 5,
     BPublish (ex_event EventToolStarted [] []) 6, BNext 7, BPublish (ex_event EventTextDelta ''!'' []) 8,
     BPublish (ex_event EventRunFinished [] ''completed'') 9]"

definition ex_stream :: stream_key where
  "ex_stream = streamKey (ex_event EventTextDelta [] [])"

definition ex_broker_result :: "unit broker_state" where
  "ex_broker_result = broker_history ex_go_env (newEventBroker 20) ex_broker_ops"

lemma ex_broker_result_eval:
  "stream_view ex_stream (fst (snd ex_broker_result) @ in_queue (fst ex_broker_result)) =
    map Inl ''hello'' @ [Inr (ex_event EventToolStarted [] []), Inl CHR ''!'', Inr (ex_event EventRunFinished [] ''completed'')]"
  "map be_Text (fst (snd ex_broker_result)) = [''hello'']"
  by code_simp+


lemma ex_broker_result_split: "broker_history ex_go_env (newEventBroker 20) ex_broker_ops =
    (fst ex_broker_result, fst (snd ex_broker_result), snd (snd ex_broker_result))"
  by (simp add: ex_broker_result_def)

theorem broker_keeps_lifecycle_witness:
  "filter lifecycle (fst (snd ex_broker_result) @ in_queue (fst ex_broker_result)) = filter lifecycle (snd (snd ex_broker_result)) \<and>
   length (filter lifecycle (snd (snd ex_broker_result))) = 2"
proof -
  have "length (filter lifecycle (snd (snd ex_broker_result))) = 2" by code_simp
  with broker_keeps_lifecycle [OF ex_broker_result_split] show ?thesis by blast
qed

theorem broker_stream_exact_witness:
  "stream_view ex_stream (snd (snd ex_broker_result)) =
     map Inl ''hello'' @ [Inr (ex_event EventToolStarted [] []), Inl CHR ''!'', Inr (ex_event EventRunFinished [] ''completed'')]"
proof -
  have "sk_sessionID ex_stream \<noteq> []" "run_of ex_stream \<notin> eb_degraded (fst ex_broker_result)"
    "\<forall>e \<in> set (fst (snd ex_broker_result) @ in_queue (fst ex_broker_result)). \<not> resync_of (run_of ex_stream) ''final'' e"
    by code_simp+
  moreover have "range_visits ex_go_env" by (simp add: range_visits_def ex_go_env_def)
  ultimately show ?thesis
    using broker_stream_exact [OF ex_broker_result_split _, of ex_stream] ex_broker_result_eval(1) by metis
qed

text \<open>A run whose deltas are dropped under pressure: the notice is queued behind what remains, and the
  terminal event brings the final one.\<close>

definition ex_pressed :: "unit event_broker" where
  "ex_pressed = (newEventBroker 20)\<lparr>eb_maxEvents := 2\<rparr>"

lemma ex_pressed_eval:
  "map (\<lambda>e. (be_Kind e, be_State e)) (in_queue (fst (broker_history ex_go_env ex_pressed
     [BPublish (ex_event EventTextDelta ''he'' []) 1, BPublish (ex_event EventToolStarted [] []) 2,
      BPublish (ex_event EventTextDelta ''llo'' []) 3, BPublish (ex_event EventRunFinished [] ''completed'') 4]))) =
   [(EventToolStarted, []), (EventProjectionResync, ''degraded''), (EventRunFinished, ''completed''),
    (EventProjectionResync, ''final'')]"
  by code_simp

theorem broker_bounded_witness:
  "(\<exists>x \<in> set (live_queue (fst ex_broker_result)). stream_delta x) \<and> length (live_queue (fst ex_broker_result)) = 4 \<and>
   eb_queuedBytes (fst ex_broker_result) = queue_size (live_queue (fst ex_broker_result)) \<and>
   queue_size (butlast (live_queue (fst ex_broker_result))) \<le> maxQueuedEventBytes"
proof -
  have "\<exists>x \<in> set (live_queue (fst ex_broker_result)). stream_delta x" "length (live_queue (fst ex_broker_result)) = 4"
    "eb_maxBytes (fst ex_broker_result) = maxQueuedEventBytes"
    by code_simp+
  with broker_bounded [OF ex_broker_result_split] show ?thesis by auto
qed

end
