(* ===== verification/Wire_Codec.thy ===== *)
theory Wire_Codec
  imports Event_Hub
begin

text \<open>
  The wire protocol between the desktop client and its daemon: the envelopes of
  \<^verbatim>\<open>internal/desktopipc/protocol.go\<close> and the framing of
  \<^verbatim>\<open>internal/desktopipc/codec.go\<close>.

  A physical frame is a four-byte big-endian length, a kind byte and the body: the JSON of an
  envelope, or a two-byte header length, the JSON of the metadata and raw data. The stream is the
  list of its bytes; a writer appends to what it has written and a reader returns what it has not
  read. Errors of the transport other than its end are not modelled. JSON encoding and decoding
  are arguments of the definitions, and what is required of them is that a value is decoded to
  itself from its encoding.
\<close>

section \<open>Envelopes\<close>

datatype frame_kind =
    FrameHello | FrameHelloAck | FrameRequest | FrameResponse | FrameEventBatch |
    FrameReplayRequest | FrameReplayComplete | FrameResyncRequired | FrameBinaryBegin |
    FrameBinaryChunk | FrameBinaryEnd | FramePing | FramePong | FrameClientDetach |
    FrameDaemonStop
  | OtherFrame string

datatype ipc_method =
    MethodInitialise | MethodReconnectSnapshot | MethodStartTurn | MethodGuide |
    MethodFollowUp | MethodCancelActive | MethodExecute | MethodImportAttachment |
    MethodImportClipboardImage | MethodAttachmentDataURL | MethodSearchSessions |
    MethodResumeSession | MethodSelectSession | MethodCreateSession | MethodSessionTree |
    MethodNavigateSessionTree | MethodCreateSessionFork | MethodSetSessionEntryLabel |
    MethodExportSession | MethodShareSession | MethodForkSession | MethodImportSession |
    MethodExpandSkillInvocation | MethodCollaboration | MethodPromptQueue |
    MethodMutatePromptQueue | MethodPullRequestDashboard | MethodPullRequestDetail |
    MethodMutatePullRequest | MethodSetPullRequestMonitor | MethodSkillCatalog |
    MethodHookCatalog | MethodMarketplaceCatalog | MethodUsageReport | MethodWorkspaceChanges |
    MethodWorkspaceChange | MethodWorkspaceEntries | MethodSearchWorkspaceFiles |
    MethodWorkspaceFile | MethodCreateProject | MethodOpenProject | MethodOpenProjectSession |
    MethodSystemFonts | MethodListTerminals | MethodCreateTerminal | MethodWriteTerminal |
    MethodResizeTerminal | MethodCloseTerminal | MethodOpenTerminal | MethodTerminalReplay |
    MethodBeginAttachmentTransfer | MethodCommitAttachment | MethodAbortAttachment
  | OtherMethod string

definition AllMethods :: "ipc_method list" where
  "AllMethods =
    [MethodInitialise, MethodReconnectSnapshot, MethodStartTurn, MethodGuide, MethodFollowUp,
     MethodCancelActive, MethodExecute, MethodImportAttachment, MethodImportClipboardImage,
     MethodAttachmentDataURL, MethodSearchSessions, MethodResumeSession, MethodSelectSession,
     MethodCreateSession, MethodSessionTree, MethodNavigateSessionTree, MethodCreateSessionFork,
     MethodSetSessionEntryLabel, MethodExportSession, MethodShareSession, MethodForkSession,
     MethodImportSession, MethodExpandSkillInvocation, MethodCollaboration, MethodPromptQueue,
     MethodMutatePromptQueue, MethodPullRequestDashboard, MethodPullRequestDetail,
     MethodMutatePullRequest, MethodSetPullRequestMonitor, MethodSkillCatalog,
     MethodHookCatalog, MethodMarketplaceCatalog, MethodUsageReport, MethodWorkspaceChanges,
     MethodWorkspaceChange, MethodWorkspaceEntries, MethodSearchWorkspaceFiles,
     MethodWorkspaceFile, MethodCreateProject, MethodOpenProject, MethodOpenProjectSession,
     MethodSystemFonts, MethodListTerminals, MethodCreateTerminal, MethodWriteTerminal,
     MethodResizeTerminal, MethodCloseTerminal, MethodOpenTerminal, MethodTerminalReplay,
     MethodBeginAttachmentTransfer, MethodCommitAttachment, MethodAbortAttachment]"

definition ProtocolVersion :: int where "ProtocolVersion = 3"
definition MaxControlFrameBytes :: int where "MaxControlFrameBytes = 16777216"
definition MaxBinaryChunkBytes :: int where "MaxBinaryChunkBytes = 262144"
definition MaxReassembledBinary :: int where "MaxReassembledBinary = 268435456"

record protocol_error =
  pe_Code :: string
  pe_Message :: string
  pe_Retryable :: bool
  pe_Cursor :: nat

record envelope =
  en_Version :: int
  en_Kind :: frame_kind
  en_ID :: string
  en_ClientID :: string
  en_WorkspaceID :: string
  en_Method :: ipc_method
  en_Channel :: channel
  en_Sequence :: nat
  en_Payload :: string
  en_Error :: "protocol_error option"
  en_Binary :: "binary_metadata option"

definition NewEnvelope :: "frame_kind \<Rightarrow> envelope" where
  "NewEnvelope kind = \<lparr>en_Version = ProtocolVersion, en_Kind = kind, en_ID = [], en_ClientID = [],
     en_WorkspaceID = [], en_Method = OtherMethod [], en_Channel = ChannelOther [], en_Sequence = 0,
     en_Payload = [], en_Error = None, en_Binary = None\<rparr>"

text \<open>The wire names of the declared methods are not blank.\<close>

definition blank_method :: "ipc_method \<Rightarrow> bool" where
  "blank_method m = (case m of OtherMethod s \<Rightarrow> blank s | _ \<Rightarrow> False)"

definition unknown_kind :: "frame_kind \<Rightarrow> bool" where
  "unknown_kind k = (case k of OtherFrame s \<Rightarrow> True | _ \<Rightarrow> False)"

definition validateVersion :: "int \<Rightarrow> envelope \<Rightarrow> error + unit" where
  "validateVersion version e =
     (if en_Version e \<noteq> version then Inl (ErrMessage ''unsupported IPC protocol version'')
      else if unknown_kind (en_Kind e) then Inl (ErrMessage ''unsupported IPC frame kind'')
      else if en_Kind e = FrameRequest \<and> (blank (en_ID e) \<or> blank_method (en_Method e))
        then Inl (ErrMessage ''IPC request requires id and method'')
      else if en_Kind e = FrameResponse \<and> blank (en_ID e)
        then Inl (ErrMessage ''IPC response requires id'')
      else if en_Kind e = FrameDaemonStop \<and> blank (en_ID e)
        then Inl (ErrMessage ''IPC daemon stop requires id'')
      else if en_Kind e \<in> {FrameBinaryBegin, FrameBinaryChunk, FrameBinaryEnd} \<and>
          (case en_Binary e of None \<Rightarrow> True | Some b \<Rightarrow> blank (bm_TransferID b))
        then Inl (ErrMessage ''IPC binary frame requires transfer metadata'')
      else Inr ())"

definition Validate :: "envelope \<Rightarrow> error + unit" where
  "Validate e = validateVersion ProtocolVersion e"

section \<open>Big-endian integers\<close>

text \<open>\<^verbatim>\<open>binary.BigEndian.PutUint16\<close> and \<^verbatim>\<open>PutUint32\<close> for two and four bytes; the
  conversion to \<^verbatim>\<open>uint16\<close> or \<^verbatim>\<open>uint32\<close> drops the higher bits.\<close>

fun put_uint :: "nat \<Rightarrow> nat \<Rightarrow> string" where
  "put_uint 0 n = []"
| "put_uint (Suc k) n = put_uint k (n div 256) @ [char_of n]"

definition get_uint :: "string \<Rightarrow> nat" where
  "get_uint s = foldl (\<lambda>a c. a * 256 + of_char c) 0 s"

lemma put_uint_length [simp]: "length (put_uint k n) = k"
  by (induction k arbitrary: n) auto

lemma get_put_uint: "get_uint (put_uint k n) = n mod 256 ^ k"
proof (induction k arbitrary: n)
  case (Suc k)
  have "get_uint (put_uint (Suc k) n) = (n div 256 mod 256 ^ k) * 256 + n mod 256"
    using Suc.IH [of "n div 256"] by (simp add: get_uint_def)
  also have "\<dots> = n mod (256 * 256 ^ k)"
    by (subst mod_mult2_eq) simp
  finally show ?case by simp
qed (simp add: get_uint_def)

section \<open>Frames\<close>

record json_codec =
  js_marshal_envelope :: "envelope \<Rightarrow> error + string"
  js_unmarshal_envelope :: "string \<Rightarrow> error + envelope"
  js_marshal_metadata :: "binary_metadata \<Rightarrow> error + string"
  js_unmarshal_metadata :: "string \<Rightarrow> error + binary_metadata"

definition wireControl :: nat where "wireControl = 1"
definition wireBinary :: nat where "wireBinary = 2"
definition maxBinaryHeaderBytes :: int where "maxBinaryHeaderBytes = 65536"

record decoded_frame =
  df_Envelope :: "envelope option"
  df_Binary :: "binary_metadata option"
  df_Data :: string

text \<open>\<^verbatim>\<open>io.ReadFull\<close> of \<open>n\<close> bytes.\<close>

definition read_full :: "nat \<Rightarrow> string \<Rightarrow> (error + string) \<times> string" where
  "read_full n input =
     (if length input < n then (Inl (ErrMessage ''unexpected EOF''), []) else (Inr (take n input), drop n input))"

definition decode_control :: "json_codec \<Rightarrow> int \<Rightarrow> string \<Rightarrow> error + decoded_frame" where
  "decode_control js protocol body =
     bindE (js_unmarshal_envelope js body) (\<lambda>e.
     bindE (validateVersion protocol e) (\<lambda>_.
     Inr \<lparr>df_Envelope = Some e, df_Binary = None, df_Data = []\<rparr>))"

definition decode_binary :: "json_codec \<Rightarrow> string \<Rightarrow> error + decoded_frame" where
  "decode_binary js payload =
     (if length payload < 3 then Inl (ErrMessage ''IPC binary frame is truncated'')
      else let headerLength = int (get_uint (take 2 (drop 1 payload))) in
        if headerLength \<le> 0 \<or> headerLength > maxBinaryHeaderBytes \<or> 3 + headerLength > int (length payload)
        then Inl (ErrMessage ''IPC binary frame header is invalid'')
        else
          bindE (js_unmarshal_metadata js (take (nat headerLength) (drop 3 payload))) (\<lambda>metadata.
          let data = drop (3 + nat headerLength) payload in
          if int (length data) > MaxBinaryChunkBytes then Inl (ErrMessage ''IPC binary chunk exceeds bytes'')
          else if bm_TransferID metadata = [] \<or> bm_Index metadata < 0 \<or> bm_Count metadata < 0
            then Inl (ErrMessage ''IPC binary metadata is incomplete'')
          else Inr \<lparr>df_Envelope = None, df_Binary = Some metadata, df_Data = data\<rparr>))"

definition decode_payload :: "json_codec \<Rightarrow> int \<Rightarrow> string \<Rightarrow> error + decoded_frame" where
  "decode_payload js protocol payload =
     (let kind = of_char (hd payload) :: nat in
      if kind = wireControl then decode_control js protocol (drop 1 payload)
      else if kind = wireBinary then decode_binary js payload
      else Inl (ErrMessage ''unsupported IPC wire frame type''))"

definition ReadFrame :: "json_codec \<Rightarrow> int \<Rightarrow> string \<Rightarrow> (error + decoded_frame) \<times> string" where
  "ReadFrame js protocol input =
     (case read_full 4 input of
        (Inl e, rest) \<Rightarrow> (Inl e, rest)
      | (Inr sizeBuffer, rest) \<Rightarrow>
          (let size = int (get_uint sizeBuffer) in
           if size < 1 \<or> size > MaxControlFrameBytes
           then (Inl (ErrMessage ''IPC physical frame size is invalid''), rest)
           else (case read_full (nat size) rest of
               (Inl e, rest) \<Rightarrow> (Inl e, rest)
             | (Inr payload, rest) \<Rightarrow> (decode_payload js protocol payload, rest))))"

definition writeFrameLocked :: "nat \<Rightarrow> string \<Rightarrow> string \<Rightarrow> string \<Rightarrow> (error + unit) \<times> string" where
  "writeFrameLocked kind header payload out =
     (let size = 1 + length header + length payload in
      if int size > MaxControlFrameBytes then (Inl (ErrMessage ''IPC physical frame exceeds bytes''), out)
      else (Inr (), out @ put_uint 4 size @ [char_of kind] @ header @ payload))"

definition WriteEnvelope :: "json_codec \<Rightarrow> int \<Rightarrow> envelope \<Rightarrow> string \<Rightarrow> (error + unit) \<times> string" where
  "WriteEnvelope js protocol e out =
     (case bindE (validateVersion protocol e) (\<lambda>_. js_marshal_envelope js e) of
        Inl err \<Rightarrow> (Inl err, out)
      | Inr encoded \<Rightarrow> writeFrameLocked wireControl [] encoded out)"

text \<open>The checks on a chunk and its length-prefixed header.\<close>

definition binary_header :: "json_codec \<Rightarrow> binary_metadata \<Rightarrow> error + string" where
  "binary_header js metadata =
     bindE (js_marshal_metadata js metadata) (\<lambda>header.
       if int (length header) > maxBinaryHeaderBytes then Inl (ErrMessage ''IPC binary metadata is too large'')
       else Inr (put_uint 2 (length header) @ header))"

definition WriteBinary :: "json_codec \<Rightarrow> binary_metadata \<Rightarrow> string \<Rightarrow> string \<Rightarrow> (error + unit) \<times> string" where
  "WriteBinary js metadata data out =
     (if bm_TransferID metadata = [] then (Inl (ErrMessage ''IPC binary transfer id is required''), out)
      else if int (length data) > MaxBinaryChunkBytes then (Inl (ErrMessage ''IPC binary chunk exceeds bytes''), out)
      else case binary_header js metadata of
        Inl err \<Rightarrow> (Inl err, out)
      | Inr header \<Rightarrow> writeFrameLocked wireBinary header data out)"

record terminal_chunk =
  tc_metadata :: binary_metadata
  tc_data :: string

definition chunk_header :: "json_codec \<Rightarrow> terminal_chunk \<Rightarrow> error + string" where
  "chunk_header js chunk =
     (if bm_TransferID (tc_metadata chunk) = [] \<or> int (length (tc_data chunk)) > MaxBinaryChunkBytes
      then Inl (ErrMessage ''IPC terminal replay chunk is invalid'')
      else binary_header js (tc_metadata chunk))"

fun chunk_headers :: "json_codec \<Rightarrow> terminal_chunk list \<Rightarrow> error + string list" where
  "chunk_headers js [] = Inr []"
| "chunk_headers js (c # cs) =
     bindE (chunk_header js c) (\<lambda>h. bindE (chunk_headers js cs) (\<lambda>hs. Inr (h # hs)))"

fun write_chunks :: "(string \<times> terminal_chunk) list \<Rightarrow> string \<Rightarrow> (error + unit) \<times> string" where
  "write_chunks [] out = (Inr (), out)"
| "write_chunks ((h, c) # cs) out =
     (case writeFrameLocked wireBinary h (tc_data c) out of
        (Inl e, out) \<Rightarrow> (Inl e, out)
      | (Inr _, out) \<Rightarrow> write_chunks cs out)"

definition WriteTerminalReplay ::
  "json_codec \<Rightarrow> int \<Rightarrow> envelope \<Rightarrow> terminal_chunk list \<Rightarrow> string \<Rightarrow> (error + unit) \<times> string" where
  "WriteTerminalReplay js protocol response chunks out =
     (case bindE (validateVersion protocol response) (\<lambda>_.
           bindE (js_marshal_envelope js response) (\<lambda>encoded.
           bindE (chunk_headers js chunks) (\<lambda>headers. Inr (encoded, headers)))) of
        Inl e \<Rightarrow> (Inl e, out)
      | Inr (encoded, headers) \<Rightarrow>
          (case writeFrameLocked wireControl [] encoded out of
             (Inl e, out) \<Rightarrow> (Inl e, out)
           | (Inr _, out) \<Rightarrow> write_chunks (zip headers chunks) out))"

section \<open>Reading back what was written\<close>

datatype wire_frame = EnvelopeFrame envelope | BinaryFrame binary_metadata string

definition write_frame :: "json_codec \<Rightarrow> int \<Rightarrow> wire_frame \<Rightarrow> string \<Rightarrow> (error + unit) \<times> string" where
  "write_frame js protocol f out = (case f of
     EnvelopeFrame e \<Rightarrow> WriteEnvelope js protocol e out
   | BinaryFrame m d \<Rightarrow> WriteBinary js m d out)"

fun write_frames :: "json_codec \<Rightarrow> int \<Rightarrow> wire_frame list \<Rightarrow> string \<Rightarrow> (error + unit) \<times> string" where
  "write_frames js protocol [] out = (Inr (), out)"
| "write_frames js protocol (f # fs) out =
     (case write_frame js protocol f out of
        (Inl e, out) \<Rightarrow> (Inl e, out)
      | (Inr _, out) \<Rightarrow> write_frames js protocol fs out)"

definition decoded :: "wire_frame \<Rightarrow> decoded_frame" where
  "decoded f = (case f of
     EnvelopeFrame e \<Rightarrow> \<lparr>df_Envelope = Some e, df_Binary = None, df_Data = []\<rparr>
   | BinaryFrame m d \<Rightarrow> \<lparr>df_Envelope = None, df_Binary = Some m, df_Data = d\<rparr>)"

text \<open>The first \<open>n\<close> frames of a stream.\<close>

fun read_frames :: "json_codec \<Rightarrow> int \<Rightarrow> nat \<Rightarrow> string \<Rightarrow> (error + decoded_frame list) \<times> string" where
  "read_frames js protocol 0 input = (Inr [], input)"
| "read_frames js protocol (Suc n) input =
     (case ReadFrame js protocol input of
        (Inl e, rest) \<Rightarrow> (Inl e, rest)
      | (Inr f, rest) \<Rightarrow>
          (case read_frames js protocol n rest of
             (Inl e, rest) \<Rightarrow> (Inl e, rest)
           | (Inr fs, rest) \<Rightarrow> (Inr (f # fs), rest)))"

text \<open>What is required of JSON: a value is decoded to itself from its encoding, and an encoding is
  not empty.\<close>

definition json_faithful :: "json_codec \<Rightarrow> wire_frame \<Rightarrow> bool" where
  "json_faithful js f = (case f of
     EnvelopeFrame e \<Rightarrow> (\<forall>s. js_marshal_envelope js e = Inr s \<longrightarrow> js_unmarshal_envelope js s = Inr e)
   | BinaryFrame m d \<Rightarrow> (\<forall>s. js_marshal_metadata js m = Inr s \<longrightarrow>
        js_unmarshal_metadata js s = Inr m \<and> s \<noteq> []))"

text \<open>What the reader requires of a frame and the writer does not check: the two-byte prefix holds
  the length of the encoded metadata, and index and count are not negative.\<close>

definition frame_readable :: "json_codec \<Rightarrow> wire_frame \<Rightarrow> bool" where
  "frame_readable js f = (case f of
     EnvelopeFrame e \<Rightarrow> True
   | BinaryFrame m d \<Rightarrow> 0 \<le> bm_Index m \<and> 0 \<le> bm_Count m \<and>
       (case js_marshal_metadata js m of Inr s \<Rightarrow> length s \<noteq> 65536 | Inl _ \<Rightarrow> True))"

lemma read_full_append [simp]: "length a = n \<Longrightarrow> read_full n (a @ b) = (Inr a, b)"
  by (auto simp: read_full_def)

lemma ReadFrame_body:
  assumes "length body = n" and "0 < n" and "int n \<le> MaxControlFrameBytes"
  shows "ReadFrame js protocol (put_uint 4 n @ body @ rest) = (decode_payload js protocol body, rest)"
proof -
  have "n < 256 ^ 4" using assms(3) by (simp add: MaxControlFrameBytes_def)
  then have "get_uint (put_uint 4 n) = n" by (simp only: get_put_uint mod_less)
  with assms show ?thesis by (simp add: ReadFrame_def)
qed

lemma ReadFrame_frame:
  assumes "writeFrameLocked kind header payload out = (Inr (), out')"
  shows "\<exists>frame. out' = out @ frame \<and>
    ReadFrame js protocol (frame @ rest) = (decode_payload js protocol (char_of kind # header @ payload), rest)"
proof -
  let ?size = "1 + length header + length payload" and ?body = "char_of kind # header @ payload"
  have s: "int ?size \<le> MaxControlFrameBytes" "out' = out @ put_uint 4 ?size @ ?body"
    using assms by (auto simp: writeFrameLocked_def Let_def split: if_splits)
  have "ReadFrame js protocol (put_uint 4 ?size @ ?body @ rest) = (decode_payload js protocol ?body, rest)"
    by (rule ReadFrame_body) (use s(1) in simp_all)
  then have "ReadFrame js protocol ((put_uint 4 ?size @ ?body) @ rest) = (decode_payload js protocol ?body, rest)"
    by (simp only: append_assoc)
  with s(2) show ?thesis by blast
qed

lemma decode_binary_header:
  assumes "binary_header js m = Inr h" and "json_faithful js (BinaryFrame m d)"
    and "bm_TransferID m \<noteq> []" and "int (length d) \<le> MaxBinaryChunkBytes"
  shows "if frame_readable js (BinaryFrame m d)
    then decode_payload js protocol (char_of wireBinary # h @ d) = Inr (decoded (BinaryFrame m d))
    else \<exists>e. decode_payload js protocol (char_of wireBinary # h @ d) = Inl e"
proof -
  obtain s where s: "js_marshal_metadata js m = Inr s" "int (length s) \<le> maxBinaryHeaderBytes"
    "h = put_uint 2 (length s) @ s"
    using assms(1) by (auto simp: binary_header_def bindE_eq_Inr split: if_splits)
  have j: "js_unmarshal_metadata js s = Inr m" "s \<noteq> []"
    using assms(2) s(1) by (auto simp: json_faithful_def)
  have r: "frame_readable js (BinaryFrame m d) \<longleftrightarrow> 0 \<le> bm_Index m \<and> 0 \<le> bm_Count m \<and> length s \<noteq> 65536"
    using s(1) by (simp add: frame_readable_def)
  have p: "take 2 (drop 1 (char_of wireBinary # h @ d)) = put_uint 2 (length s)"
    "drop 3 (char_of wireBinary # h @ d) = s @ d"
    by (simp_all add: s(3))
  have "char_of wireBinary # h @ d = (char_of wireBinary # h) @ d" "length (char_of wireBinary # h) = 3 + length s"
    by (simp_all add: s(3))
  then have q: "drop (3 + length s) (char_of wireBinary # h @ d) = d"
    by (metis append_eq_conv_conj)
  have k: "decode_payload js protocol (char_of wireBinary # h @ d) = decode_binary js (char_of wireBinary # h @ d)"
    by (simp add: decode_payload_def wireBinary_def wireControl_def)
  show ?thesis
  proof (cases "length s = 65536")
    case True
    then have "get_uint (put_uint 2 (length s)) = 0" using get_put_uint [of 2 "length s"] by simp
    then have "\<exists>e. decode_binary js (char_of wireBinary # h @ d) = Inl e"
      unfolding decode_binary_def p by simp
    with True show ?thesis unfolding k r by simp
  next
    case False
    have "length s < 256 ^ 2" using s(2) False by (simp add: maxBinaryHeaderBytes_def)
    then have g: "get_uint (put_uint 2 (length s)) = length s" by (simp only: get_put_uint mod_less)
    show ?thesis
      unfolding k r decode_binary_def p g
      using s(2) j assms(3,4) q False by (auto simp: s(3) p decoded_def Let_def)
  qed
qed

lemma write_frame_read:
  assumes "write_frame js protocol f out = (Inr (), out')" and "json_faithful js f"
  shows "\<exists>frame. out' = out @ frame \<and> (if frame_readable js f
    then ReadFrame js protocol (frame @ rest) = (Inr (decoded f), rest)
    else \<exists>e. ReadFrame js protocol (frame @ rest) = (Inl e, rest))"
proof (cases f)
  case (EnvelopeFrame e)
  then obtain s where s: "validateVersion protocol e = Inr ()" "js_marshal_envelope js e = Inr s"
    "writeFrameLocked wireControl [] s out = (Inr (), out')"
    using assms(1) by (auto simp: write_frame_def WriteEnvelope_def bindE_eq_Inr split: sum.splits)
  have "decode_payload js protocol (char_of wireControl # s) = Inr (decoded f)"
    using s(1,2) assms(2)
    by (simp add: decode_payload_def wireControl_def decode_control_def json_faithful_def EnvelopeFrame decoded_def)
  with ReadFrame_frame [OF s(3), of js protocol rest] show ?thesis by (simp add: frame_readable_def EnvelopeFrame)
next
  case (BinaryFrame m d)
  then obtain h where h: "bm_TransferID m \<noteq> []" "int (length d) \<le> MaxBinaryChunkBytes" "binary_header js m = Inr h"
    "writeFrameLocked wireBinary h d out = (Inr (), out')"
    using assms(1) by (auto simp: write_frame_def WriteBinary_def split: sum.splits if_splits)
  from ReadFrame_frame [OF h(4), of js protocol rest]
    decode_binary_header [OF h(3) assms(2) [unfolded BinaryFrame] h(1,2), of protocol]
  show ?thesis by (fastforce simp: BinaryFrame split: if_splits)
qed

lemma write_frames_read:
  assumes "write_frames js protocol fs out = (Inr (), out')" and "\<forall>f \<in> set fs. json_faithful js f"
  shows "\<exists>bytes. out' = out @ bytes \<and> (if \<forall>f \<in> set fs. frame_readable js f
    then read_frames js protocol (length fs) (bytes @ rest) = (Inr (map decoded fs), rest)
    else \<exists>e. fst (read_frames js protocol (length fs) (bytes @ rest)) = Inl e)"
  using assms
proof (induction fs arbitrary: out)
  case (Cons f fs)
  from Cons.prems(1) obtain out1 where w: "write_frame js protocol f out = (Inr (), out1)"
    "write_frames js protocol fs out1 = (Inr (), out')"
    by (auto split: prod.splits sum.splits)
  from Cons.IH [OF w(2)] Cons.prems(2) obtain bytes where b: "out' = out1 @ bytes"
    "if \<forall>f \<in> set fs. frame_readable js f
     then read_frames js protocol (length fs) (bytes @ rest) = (Inr (map decoded fs), rest)
     else \<exists>e. fst (read_frames js protocol (length fs) (bytes @ rest)) = Inl e" by auto
  from write_frame_read [OF w(1), of "bytes @ rest"] Cons.prems(2) obtain frame where f: "out1 = out @ frame"
    "if frame_readable js f then ReadFrame js protocol (frame @ bytes @ rest) = (Inr (decoded f), bytes @ rest)
     else \<exists>e. ReadFrame js protocol (frame @ bytes @ rest) = (Inl e, bytes @ rest)" by auto
  have "out' = out @ frame @ bytes" using b(1) f(1) by simp
  moreover have "if \<forall>f \<in> set (f # fs). frame_readable js f
     then read_frames js protocol (length (f # fs)) ((frame @ bytes) @ rest) = (Inr (map decoded (f # fs)), rest)
     else \<exists>e. fst (read_frames js protocol (length (f # fs)) ((frame @ bytes) @ rest)) = Inl e"
    using b(2) f(2) by (cases "frame_readable js f") (auto split: prod.splits sum.splits if_splits)
  ultimately show ?case by blast
qed simp

lemma chunk_headers_write:
  assumes "chunk_headers js cs = Inr hs" and "write_chunks (zip hs cs) out = (Inr (), out')"
  shows "write_frames js protocol (map (\<lambda>c. BinaryFrame (tc_metadata c) (tc_data c)) cs) out = (Inr (), out')"
  using assms
proof (induction cs arbitrary: hs out)
  case (Cons c cs)
  from Cons.prems(1) obtain h hs' where h: "chunk_header js c = Inr h" "chunk_headers js cs = Inr hs'" "hs = h # hs'"
    by (auto simp: bindE_eq_Inr)
  then have "bm_TransferID (tc_metadata c) \<noteq> []" "int (length (tc_data c)) \<le> MaxBinaryChunkBytes"
    "binary_header js (tc_metadata c) = Inr h" by (auto simp: chunk_header_def split: if_splits)
  then have "write_frame js protocol (BinaryFrame (tc_metadata c) (tc_data c)) out = writeFrameLocked wireBinary h (tc_data c) out"
    by (simp add: write_frame_def WriteBinary_def)
  with Cons.prems(2) Cons.IH [OF h(2)] show ?case by (auto simp: h(3) split: prod.splits sum.splits)
qed simp

lemma terminal_replay_write:
  assumes "WriteTerminalReplay js protocol response chunks out = (Inr (), out')"
  shows "write_frames js protocol (EnvelopeFrame response # map (\<lambda>c. BinaryFrame (tc_metadata c) (tc_data c)) chunks) out = (Inr (), out')"
proof -
  from assms obtain encoded headers out1 where
    w: "validateVersion protocol response = Inr ()" "js_marshal_envelope js response = Inr encoded"
    "chunk_headers js chunks = Inr headers" "writeFrameLocked wireControl [] encoded out = (Inr (), out1)"
    "write_chunks (zip headers chunks) out1 = (Inr (), out')"
    by (auto simp: WriteTerminalReplay_def bindE_eq_Inr split: sum.splits prod.splits)
  then have "write_frame js protocol (EnvelopeFrame response) out = (Inr (), out1)"
    by (simp add: write_frame_def WriteEnvelope_def)
  with chunk_headers_write [OF w(3,5)] show ?thesis by simp
qed

section \<open>Guarantees\<close>


text \<open>The limit on the metadata of a chunk is off by one: metadata whose encoding is exactly 65536
  bytes long passes the writer's check, but its length wraps to zero in the two-byte prefix, and
  the reader rejects the frame.\<close>

theorem codec_header_wraps:
  assumes "js_marshal_metadata js m = Inr s" and "length s = 65536" and "bm_TransferID m \<noteq> []"
    and "int (length data) \<le> MaxBinaryChunkBytes"
  shows "\<exists>bytes. WriteBinary js m data [] = (Inr (), bytes) \<and>
    ReadFrame js protocol bytes = (Inl (ErrMessage ''IPC binary frame header is invalid''), [])"
proof -
  let ?h = "put_uint 2 (length s) @ s"
  have h: "binary_header js m = Inr ?h" using assms(1,2) by (simp add: binary_header_def maxBinaryHeaderBytes_def)
  have "length data \<le> 262144" using assms(4) by (simp add: MaxBinaryChunkBytes_def)
  then obtain bytes where b: "writeFrameLocked wireBinary ?h data [] = (Inr (), bytes)"
    using assms(2) by (simp add: writeFrameLocked_def Let_def MaxControlFrameBytes_def)
  have w: "WriteBinary js m data [] = (Inr (), bytes)" using assms(3,4) h b by (simp add: WriteBinary_def)
  have g: "get_uint (put_uint 2 (length s)) = 0" using get_put_uint [of 2 "length s"] assms(2) by simp
  have p: "take 2 (drop 1 (char_of wireBinary # ?h @ data)) = put_uint 2 (length s)" by simp
  have "decode_payload js protocol (char_of wireBinary # ?h @ data) = Inl (ErrMessage ''IPC binary frame header is invalid'')"
    unfolding decode_payload_def decode_binary_def p g by (simp add: wireBinary_def wireControl_def Let_def)
  with ReadFrame_frame [OF b, of js protocol "[]"] w show ?thesis by simp
qed

text \<open>The method list of the protocol names every declared method exactly once.\<close>

theorem methods_exactly_once:
  "distinct AllMethods \<and> set AllMethods = {m. \<forall>s. m \<noteq> OtherMethod s}"
proof
  show "distinct AllMethods" by (simp add: AllMethods_def)
  have "m \<in> set AllMethods \<longleftrightarrow> (\<forall>s. m \<noteq> OtherMethod s)" for m
    by (cases m) (simp_all add: AllMethods_def)
  then show "set AllMethods = {m. \<forall>s. m \<noteq> OtherMethod s}" by blast
qed

section \<open>Witnesses\<close>

definition ex_wire_request :: envelope where
  "ex_wire_request = (NewEnvelope FrameRequest)\<lparr>en_ID := ''1'', en_Method := MethodTerminalReplay\<rparr>"

definition ex_metadata :: binary_metadata where
  "ex_metadata = \<lparr>bm_TransferID = ''t'', bm_Purpose = ''attachment'', bm_Channel = ChannelOther [], bm_Sequence = 0,
     bm_Name = [], bm_MediaType = [], bm_ByteLength = 4, bm_SHA256 = [], bm_Index = 0, bm_Count = 1\<rparr>"

text \<open>An encoding of these two values.\<close>

definition ex_json :: json_codec where
  "ex_json = \<lparr>js_marshal_envelope = (\<lambda>e. if e = ex_wire_request then Inr ''E'' else Inl (ErrMessage ''encode'')),
     js_unmarshal_envelope = (\<lambda>s. if s = ''E'' then Inr ex_wire_request else Inl (ErrMessage ''decode'')),
     js_marshal_metadata = (\<lambda>m. if m = ex_metadata then Inr ''M'' else Inl (ErrMessage ''encode'')),
     js_unmarshal_metadata = (\<lambda>s. if s = ''M'' then Inr ex_metadata else Inl (ErrMessage ''decode''))\<rparr>"

definition ex_frames :: "wire_frame list" where
  "ex_frames = [EnvelopeFrame ex_wire_request, BinaryFrame ex_metadata ''data'']"


definition long_json :: json_codec where
  "long_json = ex_json\<lparr>js_marshal_metadata := (\<lambda>m. Inr (replicate 65536 CHR ''x''))\<rparr>"

theorem codec_header_wraps_witness:
  "\<exists>bytes. WriteBinary long_json ex_metadata ''data'' [] = (Inr (), bytes) \<and>
    ReadFrame long_json 3 bytes = (Inl (ErrMessage ''IPC binary frame header is invalid''), [])"
proof -
  have "js_marshal_metadata long_json ex_metadata = Inr (replicate 65536 CHR ''x'')"
    "length (replicate 65536 CHR ''x'') = 65536" "bm_TransferID ex_metadata \<noteq> []"
    "int (length ''data'') \<le> MaxBinaryChunkBytes"
    by (simp_all only: long_json_def json_codec.simps length_replicate) (simp_all add: ex_metadata_def MaxBinaryChunkBytes_def)
  from codec_header_wraps [OF this] show ?thesis .
qed

end
