(* ===== verification/Terminal_Replay.thy ===== *)
theory Terminal_Replay
  imports Wire_Codec
begin

text \<open>
  The replay buffers of the desktop's terminals,
  \<^verbatim>\<open>internal/desktopipc/terminal_replay.go\<close>: the output of a terminal is cut into chunks,
  kept in a bounded buffer, and published on the event hub; a reconnecting client gets a snapshot
  of the buffer through the codec.

  A call holds the mutex for each chunk it adds and publishes the chunk outside of it; calls of
  \<open>Sink\<close> for one terminal come from its reader and do not overlap, so that a call is one step.
  The receiver is not nil.
\<close>

section \<open>Data\<close>

definition DefaultTerminalReplayBytes :: int where "DefaultTerminalReplayBytes = 4194304"

record terminal_buffer =
  tb_chunks :: "terminal_chunk list"
  tb_bytes :: int

record terminal_replay =
  tr_hub :: "event_hub option"
  tr_maxBytes :: int
  tr_buffers :: "(string, terminal_buffer) table"

text \<open>The fields of a \<^verbatim>\<open>desktop.TerminalEvent\<close> the replay reads.\<close>

record terminal_event =
  te_Kind :: string
  te_SessionID :: string

definition NewTerminalReplay :: "event_hub option \<Rightarrow> int \<Rightarrow> terminal_replay" where
  "NewTerminalReplay hub maxBytes =
     \<lparr>tr_hub = hub, tr_maxBytes = (if maxBytes \<le> 0 then DefaultTerminalReplayBytes else maxBytes), tr_buffers = []\<rparr>"

section \<open>Operations\<close>

definition terminal_remove :: "string \<Rightarrow> terminal_replay \<Rightarrow> terminal_replay" where
  "terminal_remove terminalID r = r\<lparr>tr_buffers := tdelete terminalID (tr_buffers r)\<rparr>"

definition chunk_metadata :: "string \<Rightarrow> int \<Rightarrow> int \<Rightarrow> binary_metadata" where
  "chunk_metadata terminalID len index =
     \<lparr>bm_TransferID = terminalID, bm_Purpose = ''terminal_output'', bm_Channel = ChannelTerminal, bm_Sequence = 0,
      bm_Name = terminalID, bm_MediaType = [], bm_ByteLength = len, bm_SHA256 = [], bm_Index = index, bm_Count = 0\<rparr>"

text \<open>The eviction loop.\<close>

fun trim_chunks :: "int \<Rightarrow> int \<Rightarrow> terminal_chunk list \<Rightarrow> terminal_chunk list \<times> int" where
  "trim_chunks maxBytes bytes [] = ([], bytes)"
| "trim_chunks maxBytes bytes (c # cs) =
     (if bytes > maxBytes then trim_chunks maxBytes (bytes - int (length (tc_data c))) cs else (c # cs, bytes))"

definition add_chunk :: "string \<Rightarrow> int \<Rightarrow> string \<Rightarrow> terminal_replay \<Rightarrow> terminal_replay" where
  "add_chunk terminalID index chunkData r =
     (let metadata = chunk_metadata terminalID (int (length chunkData)) index;
          buffer = (case tget (tr_buffers r) terminalID of None \<Rightarrow> \<lparr>tb_chunks = [], tb_bytes = 0\<rparr> | Some b \<Rightarrow> b);
          trimmed = trim_chunks (tr_maxBytes r) (tb_bytes buffer + int (length chunkData))
            (tb_chunks buffer @ [\<lparr>tc_metadata = metadata, tc_data = chunkData\<rparr>])
      in r\<lparr>tr_buffers := tput terminalID \<lparr>tb_chunks = fst trimmed, tb_bytes = snd trimmed\<rparr> (tr_buffers r),
           tr_hub := map_option (\<lambda>hub. snd (PublishBinary ChannelTerminal metadata chunkData False hub)) (tr_hub r)\<rparr>)"

text \<open>The loop over the chunks of one write; \<open>index\<close> counts them.\<close>

function sink_chunks :: "string \<Rightarrow> int \<Rightarrow> string \<Rightarrow> terminal_replay \<Rightarrow> terminal_replay" where
  "sink_chunks terminalID index data r =
     (if data = [] then r
      else let n = nat (min MaxBinaryChunkBytes (int (length data)))
           in sink_chunks terminalID (index + 1) (drop n data) (add_chunk terminalID index (take n data) r))"
  by pat_completeness auto
termination
  by (relation "measure (\<lambda>(_, _, data, _). length data)") (auto simp: MaxBinaryChunkBytes_def)

declare sink_chunks.simps [simp del]

definition Sink :: "terminal_event \<Rightarrow> string \<Rightarrow> terminal_replay \<Rightarrow> terminal_replay" where
  "Sink event data r =
     (if te_SessionID event = [] then r
      else if te_Kind event = ''terminal_exit'' then terminal_remove (te_SessionID event) r
      else if data = [] then r
      else sink_chunks (te_SessionID event) 0 data r)"

text \<open>The snapshot renumbers the chunks.\<close>

definition renumber :: "nat \<Rightarrow> nat \<times> terminal_chunk \<Rightarrow> terminal_chunk" where
  "renumber n ic = (snd ic)\<lparr>tc_metadata := (tc_metadata (snd ic))\<lparr>bm_Index := int (fst ic), bm_Count := int n\<rparr>\<rparr>"

definition terminal_snapshot :: "terminal_replay \<Rightarrow> string \<Rightarrow> terminal_chunk list" where
  "terminal_snapshot r terminalID = (case tget (tr_buffers r) terminalID of
     None \<Rightarrow> []
   | Some b \<Rightarrow> map (renumber (length (tb_chunks b))) (enumerate 0 (tb_chunks b)))"

section \<open>Histories\<close>

datatype terminal_op = TSink terminal_event string | TRemove string

fun terminal_step :: "terminal_op \<Rightarrow> terminal_replay \<Rightarrow> terminal_replay" where
  "terminal_step (TSink event data) r = Sink event data r"
| "terminal_step (TRemove terminalID) r = terminal_remove terminalID r"

definition terminal_run :: "terminal_op list \<Rightarrow> terminal_replay \<Rightarrow> terminal_replay" where
  "terminal_run ops r = fold terminal_step ops r"

text \<open>What a terminal has printed since it was started or removed.\<close>

fun output_step :: "string \<Rightarrow> terminal_op \<Rightarrow> string \<Rightarrow> string" where
  "output_step terminalID (TSink event data) printed =
     (if terminalID = [] \<or> te_SessionID event \<noteq> terminalID then printed
      else if te_Kind event = ''terminal_exit'' then [] else printed @ data)"
| "output_step terminalID (TRemove removed) printed = (if removed = terminalID then [] else printed)"

definition terminal_output :: "string \<Rightarrow> terminal_op list \<Rightarrow> string" where
  "terminal_output terminalID ops = fold (output_step terminalID) ops []"

section \<open>The buffers\<close>

definition chunk_bytes :: "terminal_chunk list \<Rightarrow> string" where
  "chunk_bytes cs = concat (map tc_data cs)"

lemma chunk_bytes_simps [simp]:
  "chunk_bytes [] = []" "chunk_bytes (c # cs) = tc_data c @ chunk_bytes cs"
  "chunk_bytes (cs @ ds) = chunk_bytes cs @ chunk_bytes ds"
  by (simp_all add: chunk_bytes_def)

definition chunk_ok :: "string \<Rightarrow> terminal_chunk \<Rightarrow> bool" where
  "chunk_ok terminalID c \<longleftrightarrow> bm_TransferID (tc_metadata c) = terminalID \<and> tc_data c \<noteq> [] \<and>
     int (length (tc_data c)) \<le> MaxBinaryChunkBytes \<and> bm_ByteLength (tc_metadata c) = int (length (tc_data c)) \<and>
     bm_Index (tc_metadata c) \<ge> 0"

text \<open>A buffer holds the end of the output: all of it, or as many chunks as the budget allows.\<close>

definition keeps_tail :: "int \<Rightarrow> string \<Rightarrow> string \<Rightarrow> bool" where
  "keeps_tail maxBytes kept printed \<longleftrightarrow> (\<exists>lost. printed = lost @ kept \<and>
     (lost = [] \<or> int (length kept) + MaxBinaryChunkBytes > maxBytes)) \<and> int (length kept) \<le> maxBytes"

definition buffer_ok :: "int \<Rightarrow> string \<Rightarrow> string \<Rightarrow> terminal_buffer \<Rightarrow> bool" where
  "buffer_ok maxBytes terminalID printed b \<longleftrightarrow>
     (\<forall>c \<in> set (tb_chunks b). chunk_ok terminalID c) \<and> tb_bytes b = int (length (chunk_bytes (tb_chunks b))) \<and>
     keeps_tail maxBytes (chunk_bytes (tb_chunks b)) printed"

lemma trim_chunks_spec:
  assumes "trim_chunks maxBytes bytes cs = (ds, left)" and "bytes = int (length (chunk_bytes cs))" and "0 \<le> maxBytes"
    and "\<forall>c \<in> set cs. chunk_ok terminalID c"
  shows "(\<exists>lost. chunk_bytes cs = lost @ chunk_bytes ds \<and>
      (lost = [] \<or> int (length (chunk_bytes ds)) + MaxBinaryChunkBytes > maxBytes)) \<and>
    left = int (length (chunk_bytes ds)) \<and> left \<le> maxBytes \<and> set ds \<subseteq> set cs"
  using assms
proof (induction cs arbitrary: bytes)
  case (Cons c cs)
  show ?case
  proof (cases "bytes > maxBytes")
    case False
    then show ?thesis using Cons.prems by (auto intro: exI [of _ "[]"])
  next
    case True
    then have t: "trim_chunks maxBytes (bytes - int (length (tc_data c))) cs = (ds, left)" using Cons.prems(1) by simp
    have b: "bytes - int (length (tc_data c)) = int (length (chunk_bytes cs))" using Cons.prems(2) by simp
    from Cons.IH [OF t b Cons.prems(3)] Cons.prems(4) obtain lost where l: "chunk_bytes cs = lost @ chunk_bytes ds"
      "lost = [] \<or> int (length (chunk_bytes ds)) + MaxBinaryChunkBytes > maxBytes"
      "left = int (length (chunk_bytes ds))" "left \<le> maxBytes" "set ds \<subseteq> set cs" by auto
    have "int (length (tc_data c)) \<le> MaxBinaryChunkBytes" using Cons.prems(4) by (simp add: chunk_ok_def)
    then have "lost = [] \<longrightarrow> int (length (chunk_bytes ds)) + MaxBinaryChunkBytes > maxBytes"
      using True b l(1) by auto
    with l show ?thesis by (intro conjI exI [of _ "tc_data c @ lost"]) auto
  qed
qed simp

lemma keeps_tail_append:
  assumes "keeps_tail maxBytes kept printed" and "kept @ data = lost @ kept'"
    and "lost = [] \<or> int (length kept') + MaxBinaryChunkBytes > maxBytes" and "int (length kept') \<le> maxBytes"
  shows "keeps_tail maxBytes kept' (printed @ data)"
proof -
  from assms(1) obtain l where l: "printed = l @ kept" "l = [] \<or> int (length kept) + MaxBinaryChunkBytes > maxBytes"
    by (auto simp: keeps_tail_def)
  have "length kept \<le> length kept'" if "lost = []" using assms(2) that by (metis append_Nil le_add1 length_append)
  then have "l @ lost = [] \<or> int (length kept') + MaxBinaryChunkBytes > maxBytes" using l(2) assms(3) by auto
  moreover have "printed @ data = (l @ lost) @ kept'" using l(1) assms(2) by simp
  ultimately show ?thesis using assms(4) unfolding keeps_tail_def by blast
qed

text \<open>The buffer of a terminal, empty before its first output.\<close>

definition buffer_of :: "terminal_replay \<Rightarrow> string \<Rightarrow> terminal_buffer" where
  "buffer_of r terminalID = (case tget (tr_buffers r) terminalID of None \<Rightarrow> \<lparr>tb_chunks = [], tb_bytes = 0\<rparr> | Some b \<Rightarrow> b)"

lemma add_chunk_ok:
  assumes "buffer_ok (tr_maxBytes r) terminalID printed (buffer_of r terminalID)" and "0 \<le> tr_maxBytes r"
    and "data \<noteq> []" and "int (length data) \<le> MaxBinaryChunkBytes" and "0 \<le> index"
  shows "buffer_ok (tr_maxBytes r) terminalID (printed @ data) (buffer_of (add_chunk terminalID index data r) terminalID)"
    "tr_maxBytes (add_chunk terminalID index data r) = tr_maxBytes r"
    "other \<noteq> terminalID \<Longrightarrow> buffer_of (add_chunk terminalID index data r) other = buffer_of r other"
proof -
  let ?b = "buffer_of r terminalID"
  let ?c = "\<lparr>tc_metadata = chunk_metadata terminalID (int (length data)) index, tc_data = data\<rparr>"
  obtain ds left where t: "trim_chunks (tr_maxBytes r) (tb_bytes ?b + int (length data)) (tb_chunks ?b @ [?c]) = (ds, left)"
    by fastforce
  have ok: "\<forall>c \<in> set (tb_chunks ?b @ [?c]). chunk_ok terminalID c"
    using assms by (auto simp: buffer_ok_def chunk_ok_def chunk_metadata_def)
  have "tb_bytes ?b + int (length data) = int (length (chunk_bytes (tb_chunks ?b @ [?c])))"
    using assms(1) by (simp add: buffer_ok_def)
  from trim_chunks_spec [OF t this assms(2) ok] obtain lost where s:
    "chunk_bytes (tb_chunks ?b) @ data = lost @ chunk_bytes ds"
    "lost = [] \<or> int (length (chunk_bytes ds)) + MaxBinaryChunkBytes > tr_maxBytes r"
    "left = int (length (chunk_bytes ds))" "left \<le> tr_maxBytes r" "set ds \<subseteq> set (tb_chunks ?b @ [?c])" by auto
  have "keeps_tail (tr_maxBytes r) (chunk_bytes ds) (printed @ data)"
    using assms(1) s by (intro keeps_tail_append [OF _ s(1,2)]) (auto simp: buffer_ok_def)
  moreover have "buffer_of (add_chunk terminalID index data r) terminalID = \<lparr>tb_chunks = ds, tb_bytes = left\<rparr>"
    using t by (simp add: add_chunk_def Let_def buffer_of_def tget_tput)
  ultimately show "buffer_ok (tr_maxBytes r) terminalID (printed @ data) (buffer_of (add_chunk terminalID index data r) terminalID)"
    using s(3,5) ok by (auto simp: buffer_ok_def)
  show "tr_maxBytes (add_chunk terminalID index data r) = tr_maxBytes r"
    "other \<noteq> terminalID \<Longrightarrow> buffer_of (add_chunk terminalID index data r) other = buffer_of r other"
    by (simp_all add: add_chunk_def Let_def buffer_of_def tget_tput)
qed

lemma sink_chunks_ok:
  assumes "buffer_ok (tr_maxBytes r) terminalID printed (buffer_of r terminalID)" and "0 \<le> tr_maxBytes r" and "0 \<le> index"
  shows "buffer_ok (tr_maxBytes r) terminalID (printed @ data) (buffer_of (sink_chunks terminalID index data r) terminalID) \<and>
    tr_maxBytes (sink_chunks terminalID index data r) = tr_maxBytes r \<and>
    (\<forall>other. other \<noteq> terminalID \<longrightarrow> buffer_of (sink_chunks terminalID index data r) other = buffer_of r other)"
  using assms
proof (induction terminalID index data r arbitrary: printed rule: sink_chunks.induct)
  case (1 terminalID index data r)
  show ?case
  proof (cases "data = []")
    case True
    then show ?thesis using "1.prems" by (simp add: sink_chunks.simps [of _ _ "[]"])
  next
    case False
    let ?n = "nat (min MaxBinaryChunkBytes (int (length data)))"
    let ?r = "add_chunk terminalID index (take ?n data) r"
    have n: "take ?n data \<noteq> []" "int (length (take ?n data)) \<le> MaxBinaryChunkBytes"
      using False by (cases data; auto simp: MaxBinaryChunkBytes_def min_def)+
    note a = add_chunk_ok [OF "1.prems"(1,2) n "1.prems"(3)]
    have "buffer_ok (tr_maxBytes ?r) terminalID (printed @ take ?n data) (buffer_of ?r terminalID)"
      "0 \<le> tr_maxBytes ?r" "0 \<le> index + 1" using a(1,2) "1.prems"(2,3) by simp_all
    from "1.IH" [OF False refl this] show ?thesis
      using False a(2,3) by (subst (1 2 3) sink_chunks.simps) (simp add: Let_def)
  qed
qed

definition replay_ok :: "(string \<Rightarrow> string) \<Rightarrow> terminal_replay \<Rightarrow> bool" where
  "replay_ok printed r \<longleftrightarrow> 0 \<le> tr_maxBytes r \<and>
     (\<forall>terminalID. buffer_ok (tr_maxBytes r) terminalID (printed terminalID) (buffer_of r terminalID))"

lemma buffer_ok_empty: "0 \<le> m \<Longrightarrow> buffer_ok m terminalID [] \<lparr>tb_chunks = [], tb_bytes = 0\<rparr>"
  by (simp add: buffer_ok_def keeps_tail_def)

lemma terminal_step_ok:
  assumes "replay_ok printed r" and "printed [] = []"
  shows "replay_ok (\<lambda>t. output_step t op (printed t)) (terminal_step op r) \<and>
    tr_maxBytes (terminal_step op r) = tr_maxBytes r \<and> output_step [] op (printed []) = []"
proof (cases op)
  case (TRemove t)
  then show ?thesis
    using assms buffer_ok_empty [of "tr_maxBytes r"]
    by (auto simp: replay_ok_def terminal_remove_def buffer_of_def tget_tdelete)
next
  case (TSink event data)
  let ?t = "te_SessionID event"
  have m: "0 \<le> tr_maxBytes r" and b: "buffer_ok (tr_maxBytes r) t (printed t) (buffer_of r t)" for t
    using assms(1) by (simp_all add: replay_ok_def)
  consider "?t = []" | "?t \<noteq> []" "te_Kind event = ''terminal_exit''"
    | "?t \<noteq> []" "te_Kind event \<noteq> ''terminal_exit''" "data = []"
    | "?t \<noteq> []" "te_Kind event \<noteq> ''terminal_exit''" "data \<noteq> []" by blast
  then show ?thesis
  proof cases
    case 2
    then show ?thesis
      using assms m b b [of "[]"] buffer_ok_empty [OF m, of ?t]
      by (auto simp: TSink Sink_def replay_ok_def terminal_remove_def buffer_of_def tget_tdelete)
  next
    case 4
    note s = sink_chunks_ok [OF b [of ?t] m, of 0 data]
    have e: "terminal_step op r = sink_chunks ?t 0 data r" using 4 by (simp add: TSink Sink_def)
    have "buffer_ok (tr_maxBytes r) t (output_step t op (printed t)) (buffer_of (sink_chunks ?t 0 data r) t)" for t
      using s b [of t] assms(2) 4 by (cases "t = ?t") (auto simp: TSink)
    then show ?thesis using s m assms(2) unfolding replay_ok_def e by (auto simp: TSink)
  qed (use assms in \<open>auto simp: TSink Sink_def replay_ok_def\<close>)
qed

lemma terminal_run_ok:
  assumes "replay_ok printed r" and "printed [] = []"
  shows "replay_ok (\<lambda>t. fold (output_step t) ops (printed t)) (terminal_run ops r) \<and>
    tr_maxBytes (terminal_run ops r) = tr_maxBytes r"
  using assms
proof (induction ops arbitrary: r printed)
  case (Cons op ops)
  note s = terminal_step_ok [OF Cons.prems, of op]
  from Cons.IH [of "\<lambda>t. output_step t op (printed t)" "terminal_step op r"] s
  show ?case by (simp add: terminal_run_def)
qed (simp add: terminal_run_def)

lemma terminal_buffer_ok:
  assumes "r = terminal_run ops (NewTerminalReplay hub maxBytes)"
  shows "buffer_ok (tr_maxBytes r) terminalID (terminal_output terminalID ops) (buffer_of r terminalID)"
proof -
  have "replay_ok (\<lambda>t. []) (NewTerminalReplay hub maxBytes)"
    using buffer_ok_empty
    by (simp add: replay_ok_def NewTerminalReplay_def buffer_of_def DefaultTerminalReplayBytes_def)
  from terminal_run_ok [OF this refl, of ops] show ?thesis
    unfolding assms replay_ok_def terminal_output_def by blast
qed

lemma snapshot_buffer: "terminal_snapshot r terminalID =
    map (renumber (length (tb_chunks (buffer_of r terminalID)))) (enumerate 0 (tb_chunks (buffer_of r terminalID)))"
  by (simp add: terminal_snapshot_def buffer_of_def split: option.split)

lemma snapshot_bytes: "chunk_bytes (terminal_snapshot r terminalID) = chunk_bytes (tb_chunks (buffer_of r terminalID))"
proof -
  have "map tc_data (map (renumber n) (enumerate k cs)) = map tc_data cs" for n k cs
    by (induction cs arbitrary: k) (simp_all add: renumber_def)
  then show ?thesis by (simp only: chunk_bytes_def snapshot_buffer)
qed

lemma snapshot_chunk:
  assumes "i < length (terminal_snapshot r terminalID)" and "\<forall>c \<in> set (tb_chunks (buffer_of r terminalID)). chunk_ok terminalID c"
  shows "chunk_ok terminalID (terminal_snapshot r terminalID ! i) \<and>
    bm_Index (tc_metadata (terminal_snapshot r terminalID ! i)) = int i \<and>
    bm_Count (tc_metadata (terminal_snapshot r terminalID ! i)) = int (length (terminal_snapshot r terminalID))"
  using assms by (auto simp: snapshot_buffer renumber_def chunk_ok_def nth_enumerate_eq)

section \<open>Guarantees\<close>

text \<open>A snapshot refines the terminal's output: it is the end of what was printed since the
  terminal was started or removed, never more than the budget; output is missing only when
  another chunk would not fit; and the chunks carry the terminal's id and are numbered in order.\<close>

theorem terminal_snapshot_tail:
  assumes "r = terminal_run ops (NewTerminalReplay hub maxBytes)" and "s = terminal_snapshot r terminalID"
  shows "keeps_tail (tr_maxBytes r) (chunk_bytes s) (terminal_output terminalID ops) \<and>
    (\<forall>i < length s. chunk_ok terminalID (s ! i) \<and> bm_Index (tc_metadata (s ! i)) = int i \<and>
       bm_Count (tc_metadata (s ! i)) = int (length s))"
  using terminal_buffer_ok [OF assms(1), of terminalID] snapshot_chunk [of _ r terminalID] snapshot_bytes [of r terminalID]
  by (auto simp: assms(2) buffer_ok_def)

text \<open>C31. A reconnecting client sees the end of the terminal's output: when the daemon has written a
  terminal replay, the client reads the response and then exactly the chunks of the snapshot,
  whose data is the end of what the terminal printed. JSON is assumed to decode each value to
  itself, and no metadata is encoded in the 65536 bytes whose length does not fit its prefix.\<close>

theorem terminal_replay_delivered:
  assumes "r = terminal_run ops (NewTerminalReplay hub maxBytes)" and "s = terminal_snapshot r terminalID"
    and "WriteTerminalReplay js protocol response s [] = (Inr (), bytes)"
    and "json_faithful js (EnvelopeFrame response)"
    and "\<forall>c \<in> set s. json_faithful js (BinaryFrame (tc_metadata c) (tc_data c))"
    and "\<forall>c \<in> set s. \<forall>h. js_marshal_metadata js (tc_metadata c) = Inr h \<longrightarrow> length h \<noteq> 65536"
  shows "\<exists>frames. read_frames js protocol (1 + length s) (bytes @ rest) = (Inr frames, rest) \<and>
    df_Envelope (hd frames) = Some response \<and>
    keeps_tail (tr_maxBytes r) (concat (map df_Data (tl frames))) (terminal_output terminalID ops)"
proof -
  let ?fs = "EnvelopeFrame response # map (\<lambda>c. BinaryFrame (tc_metadata c) (tc_data c)) s"
  have "0 \<le> bm_Index (tc_metadata c) \<and> 0 \<le> bm_Count (tc_metadata c)" if "c \<in> set s" for c
  proof -
    from that obtain i where "i < length s" "c = s ! i" by (auto simp: in_set_conv_nth)
    with snapshot_chunk [of i r terminalID] terminal_buffer_ok [OF assms(1), of terminalID] assms(2)
    show ?thesis by (auto simp: buffer_ok_def)
  qed
  then have "\<forall>f \<in> set ?fs. frame_readable js f"
    using assms(6) by (auto simp: frame_readable_def split: sum.split)
  with write_frames_read [OF terminal_replay_write [OF assms(3)], of rest] assms(4,5)
  have "read_frames js protocol (length ?fs) (bytes @ rest) = (Inr (map decoded ?fs), rest)" by auto
  moreover have "concat (map df_Data (tl (map decoded ?fs))) = chunk_bytes s"
    by (simp add: chunk_bytes_def decoded_def comp_def)
  moreover have "keeps_tail (tr_maxBytes r) (chunk_bytes s) (terminal_output terminalID ops)"
    using terminal_buffer_ok [OF assms(1), of terminalID] snapshot_bytes [of r terminalID] by (simp add: assms(2) buffer_ok_def)
  ultimately show ?thesis by (intro exI [of _ "map decoded ?fs"]) (simp add: decoded_def)
qed

section \<open>Witnesses\<close>

definition ex_terminal_ops :: "terminal_op list" where
  "ex_terminal_ops =
     [TSink \<lparr>te_Kind = ''terminal_output'', te_SessionID = ''t''\<rparr> ''ab'', TSink \<lparr>te_Kind = ''terminal_output'', te_SessionID = ''u''\<rparr> ''x'',
      TSink \<lparr>te_Kind = ''terminal_output'', te_SessionID = ''t''\<rparr> ''cd'', TSink \<lparr>te_Kind = ''terminal_output'', te_SessionID = ''t''\<rparr> ''e'']"

definition ex_terminal :: terminal_replay where
  "ex_terminal = terminal_run ex_terminal_ops (NewTerminalReplay (Some (NewEventHub 0 0)) 4)"

lemma ex_terminal_eval:
  "map tc_data (terminal_snapshot ex_terminal ''t'') = [''cd'', ''e'']"
  "terminal_output ''t'' ex_terminal_ops = ''abcde''"
  "map (bm_Index \<circ> tc_metadata) (terminal_snapshot ex_terminal ''t'') = [0, 1]"
  by code_simp+

theorem terminal_snapshot_tail_witness:
  "keeps_tail 4 ''cde'' ''abcde''"
proof -
  have "tr_maxBytes ex_terminal = 4" by code_simp
  moreover have "chunk_bytes (terminal_snapshot ex_terminal ''t'') = ''cde''"
    by (simp add: chunk_bytes_def ex_terminal_eval)
  ultimately show ?thesis
    using terminal_snapshot_tail [OF ex_terminal_def refl, of "''t''"] ex_terminal_eval(2) by simp
qed

text \<open>An encoding of metadata by its index, and of one response.\<close>

definition ex_response :: envelope where
  "ex_response = (NewEnvelope FrameResponse)\<lparr>en_ID := ''7''\<rparr>"

definition ex_chunk :: "nat \<Rightarrow> terminal_chunk" where
  "ex_chunk i = terminal_snapshot ex_terminal ''t'' ! i"

definition ex_terminal_json :: json_codec where
  "ex_terminal_json = \<lparr>js_marshal_envelope = (\<lambda>e. if e = ex_response then Inr ''E'' else Inl (ErrMessage ''encode'')),
     js_unmarshal_envelope = (\<lambda>s. if s = ''E'' then Inr ex_response else Inl (ErrMessage ''decode'')),
     js_marshal_metadata = (\<lambda>m. if m = tc_metadata (ex_chunk 0) then Inr ''0''
       else if m = tc_metadata (ex_chunk 1) then Inr ''1'' else Inl (ErrMessage ''encode'')),
     js_unmarshal_metadata = (\<lambda>s. if s = ''0'' then Inr (tc_metadata (ex_chunk 0))
       else if s = ''1'' then Inr (tc_metadata (ex_chunk 1)) else Inl (ErrMessage ''decode''))\<rparr>"

theorem terminal_replay_delivered_witness:
  "\<exists>frames. read_frames ex_terminal_json 3 (1 + length (terminal_snapshot ex_terminal ''t''))
      (snd (WriteTerminalReplay ex_terminal_json 3 ex_response (terminal_snapshot ex_terminal ''t'') []) @ ''next'') =
      (Inr frames, ''next'') \<and> df_Envelope (hd frames) = Some ex_response \<and>
    keeps_tail 4 (concat (map df_Data (tl frames))) ''abcde''"
proof -
  let ?s = "terminal_snapshot ex_terminal ''t''"
  have "fst (WriteTerminalReplay ex_terminal_json 3 ex_response ?s []) = Inr ()" by code_simp
  then have w: "WriteTerminalReplay ex_terminal_json 3 ex_response ?s [] =
      (Inr (), snd (WriteTerminalReplay ex_terminal_json 3 ex_response ?s []))" by (simp add: prod_eq_iff)
  have len: "length ?s = 2" "tr_maxBytes ex_terminal = 4" by code_simp+
  have idx: "bm_Index (tc_metadata (ex_chunk 0)) = 0" "bm_Index (tc_metadata (ex_chunk 1)) = 1"
    "bm_Count (tc_metadata (ex_chunk 0)) = 2" "bm_Count (tc_metadata (ex_chunk 1)) = 2" by code_simp+
  have e: "json_faithful ex_terminal_json (EnvelopeFrame ex_response)"
    by (simp add: json_faithful_def ex_terminal_json_def)
  have "?s = [ex_chunk 0, ex_chunk 1]"
    using len(1) by (auto simp: ex_chunk_def list_eq_iff_nth_eq nth_Cons numeral_2_eq_2 split: nat.split)
  moreover have "json_faithful ex_terminal_json (BinaryFrame (tc_metadata (ex_chunk i)) d)" if "i = 0 \<or> i = 1" for i d
    using that idx by (auto simp: json_faithful_def ex_terminal_json_def)
  ultimately have c: "\<forall>c \<in> set ?s. json_faithful ex_terminal_json (BinaryFrame (tc_metadata c) (tc_data c))" by simp
  have h: "\<forall>c \<in> set ?s. \<forall>h. js_marshal_metadata ex_terminal_json (tc_metadata c) = Inr h \<longrightarrow> length h \<noteq> 65536"
    by (auto simp: ex_terminal_json_def split: if_splits)
  from terminal_replay_delivered [OF ex_terminal_def refl w e c h, of "''next''"]
  show ?thesis unfolding len(2) ex_terminal_eval(2) .
qed

end
