(* ===== verification/Attachment_Transfer.thy ===== *)
theory Attachment_Transfer
  imports Wire_Codec
begin

text \<open>
  The reassembly of attachments sent in binary chunks,
  \<^verbatim>\<open>internal/desktopipc/transfer.go\<close>.

  A transfer's temporary file is the list of bytes written to it and whether it is still open; a
  write to or a sync of a closed file fails, as documented for \<^verbatim>\<open>os.File\<close>. The outcome of the
  other file operations of a call is its argument \<open>io\<close>. The JSON parameters of a request arrive
  decoded. The hexadecimal SHA-256 of data is the function \<open>sha\<close>, the importer of the client's
  dispatcher the function \<open>dispatcher\<close>.
\<close>

section \<open>Data\<close>

record begin_params =
  bp_TransferID :: string
  bp_SessionID :: string
  bp_Name :: string
  bp_MIMEType :: string
  bp_ByteLength :: int
  bp_SHA256 :: string
  bp_ChunkCount :: int

record transfer_state =
  ts_params :: begin_params
  ts_file :: string
  ts_open :: bool
  ts_nextIndex :: int
  ts_bytes :: int

type_synonym transfer_manager = "(string, transfer_state) table"

section \<open>Operations\<close>

definition transfer_begin :: "error + unit \<Rightarrow> error + begin_params \<Rightarrow> transfer_manager \<Rightarrow> (error + unit) \<times> transfer_manager" where
  "transfer_begin io payload m = (case payload of
     Inl e \<Rightarrow> (Inl e, m)
   | Inr raw \<Rightarrow>
      (let params = raw\<lparr>bp_TransferID := TrimSpace (bp_TransferID raw)\<rparr> in
       if bp_TransferID params = [] \<or> bp_SessionID params = [] \<or> bp_Name params = [] \<or> bp_MIMEType params = []
         then (Inl (ErrMessage ''attachment transfer identity is incomplete''), m)
       else if bp_ByteLength params < 0 \<or> bp_ByteLength params > MaxReassembledBinary
         then (Inl (ErrMessage ''attachment transfer size is invalid''), m)
       else if length (bp_SHA256 params) \<noteq> 64
         then (Inl (ErrMessage ''attachment transfer SHA-256 is invalid''), m)
       else if bp_ChunkCount params \<noteq> (bp_ByteLength params + MaxBinaryChunkBytes - 1) div MaxBinaryChunkBytes
         then (Inl (ErrMessage ''attachment transfer chunk count''), m)
       else if tget m (bp_TransferID params) \<noteq> None
         then (Inl (ErrMessage ''attachment transfer already exists''), m)
       else case io of
         Inl e \<Rightarrow> (Inl e, m)
       | Inr _ \<Rightarrow> (Inr (), tput (bp_TransferID params)
           \<lparr>ts_params = params, ts_file = [], ts_open = True, ts_nextIndex = 0, ts_bytes = 0\<rparr> m)))"

definition transfer_write :: "error + unit \<Rightarrow> binary_metadata \<Rightarrow> string \<Rightarrow> transfer_manager \<Rightarrow> (error + unit) \<times> transfer_manager" where
  "transfer_write io metadata data m = (case tget m (bm_TransferID metadata) of
     None \<Rightarrow> (Inl (ErrMessage ''attachment transfer is unknown''), m)
   | Some state \<Rightarrow>
       if bm_Index metadata \<noteq> ts_nextIndex state \<or> bm_Count metadata \<noteq> bp_ChunkCount (ts_params state)
         then (Inl (ErrMessage ''attachment chunk index is out of order''), m)
       else if int (length data) > MaxBinaryChunkBytes \<or> ts_bytes state + int (length data) > bp_ByteLength (ts_params state)
         then (Inl (ErrMessage ''attachment chunk exceeds declared size''), m)
       else case (if ts_open state then io else Inl (ErrMessage ''file already closed'')) of
         Inl e \<Rightarrow> (Inl e, tdelete (bm_TransferID metadata) m)
       | Inr _ \<Rightarrow> (Inr (), tput (bm_TransferID metadata)
           (state\<lparr>ts_file := ts_file state @ data, ts_bytes := ts_bytes state + int (length data),
              ts_nextIndex := ts_nextIndex state + 1\<rparr>) m))"

text \<open>\<^verbatim>\<open>strings.EqualFold\<close> on a hexadecimal digest, which has no letter with a non-ASCII variant.\<close>

definition ascii_lower :: "char \<Rightarrow> char" where
  "ascii_lower c = (let n = of_char c :: nat in if 65 \<le> n \<and> n \<le> 90 then char_of (n + 32) else c)"

definition equal_fold :: "string \<Rightarrow> string \<Rightarrow> bool" where
  "equal_fold a b \<longleftrightarrow> map ascii_lower a = map ascii_lower b"

type_synonym 'a importer = "string \<Rightarrow> string \<Rightarrow> string \<Rightarrow> string \<Rightarrow> error + 'a"

text \<open>
  The transfer is looked up under its trimmed id and removed under the id as given; its file is
  closed and removed whatever follows.
\<close>

definition transfer_commit ::
  "(string \<Rightarrow> string) \<Rightarrow> error + unit \<Rightarrow> string \<Rightarrow> 'a importer option \<Rightarrow> transfer_manager \<Rightarrow> (error + 'a) \<times> transfer_manager" where
  "transfer_commit sha io transferID dispatcher m = (case tget m (TrimSpace transferID) of
     None \<Rightarrow> (Inl (ErrMessage ''attachment transfer is unknown''), m)
   | Some state \<Rightarrow>
      (let closed = (\<lambda>t. case tget t (TrimSpace transferID) of None \<Rightarrow> t
              | Some s \<Rightarrow> tput (TrimSpace transferID) (s\<lparr>ts_open := False\<rparr>) t);
           m = closed (tdelete transferID m);
           params = ts_params state
       in (case (if ts_open state then io else Inl (ErrMessage ''file already closed'')) of
           Inl e \<Rightarrow> Inl e
         | Inr _ \<Rightarrow>
             if ts_bytes state \<noteq> bp_ByteLength params \<or> ts_nextIndex state \<noteq> bp_ChunkCount params
               then Inl (ErrMessage ''attachment transfer is incomplete'')
             else if int (length (ts_file state)) > MaxReassembledBinary
               then Inl (ErrMessage ''attachment transfer exceeds reassembly limit'')
             else if \<not> equal_fold (sha (ts_file state)) (bp_SHA256 params)
               then Inl (ErrMessage ''attachment transfer digest mismatch'')
             else case dispatcher of
               None \<Rightarrow> Inl (ErrMessage ''attachment dispatcher is unavailable'')
             | Some handover \<Rightarrow> handover (bp_SessionID params) (bp_Name params) (bp_MIMEType params) (ts_file state), m)))"

definition transfer_abort :: "string \<Rightarrow> transfer_manager \<Rightarrow> transfer_manager" where
  "transfer_abort transferID m = tdelete (TrimSpace transferID) m"

definition transfer_close :: "transfer_manager \<Rightarrow> transfer_manager" where
  "transfer_close m = fold (\<lambda>row t. tdelete (fst row) t) m m"

section \<open>Histories\<close>

text \<open>The chunks accepted for a transfer since it was begun are logged beside the manager.\<close>

datatype transfer_op =
    XBegin "error + unit" "error + begin_params"
  | XWrite "error + unit" binary_metadata string
  | XCommit "error + unit" string
  | XAbort string
  | XClose

type_synonym chunk_log = "string \<Rightarrow> (int \<times> string) list"

fun transfer_step :: "transfer_op \<Rightarrow> transfer_manager \<times> chunk_log \<Rightarrow> transfer_manager \<times> chunk_log" where
  "transfer_step (XBegin io payload) (m, log) = (case transfer_begin io payload m of
     (Inl _, m') \<Rightarrow> (m', log)
   | (Inr _, m') \<Rightarrow> (m', case payload of Inr p \<Rightarrow> log(TrimSpace (bp_TransferID p) := []) | Inl _ \<Rightarrow> log))"
| "transfer_step (XWrite io metadata data) (m, log) = (case transfer_write io metadata data m of
     (Inl _, m') \<Rightarrow> (m', log)
   | (Inr _, m') \<Rightarrow> (m', log(bm_TransferID metadata := log (bm_TransferID metadata) @ [(bm_Index metadata, data)])))"
| "transfer_step (XCommit io transferID) (m, log) =
     (snd (transfer_commit (\<lambda>_. []) io transferID (None :: unit importer option) m), log)"
| "transfer_step (XAbort transferID) (m, log) = (transfer_abort transferID m, log)"
| "transfer_step XClose (m, log) = (transfer_close m, log)"

definition transfer_run :: "transfer_op list \<Rightarrow> transfer_manager \<times> chunk_log" where
  "transfer_run ops = fold transfer_step ops ([], \<lambda>_. [])"

text \<open>What a commit leaves does not depend on the digest or the importer.\<close>

lemma transfer_commit_state:
  "snd (transfer_commit sha io transferID dispatcher m) = snd (transfer_commit sha' io' transferID dispatcher' m)"
  by (simp add: transfer_commit_def Let_def split: option.split)

definition transfer_ok :: "(int \<times> string) list \<Rightarrow> transfer_state \<Rightarrow> bool" where
  "transfer_ok log s \<longleftrightarrow> ts_file s = concat (map snd log) \<and> map fst log = map int [0..<length log] \<and>
     ts_nextIndex s = int (length log) \<and> ts_bytes s = int (length (ts_file s)) \<and>
     ts_bytes s \<le> bp_ByteLength (ts_params s) \<and>
     (\<forall>c \<in> set log. int (length (snd c)) \<le> MaxBinaryChunkBytes)"

definition transfers_ok :: "transfer_manager \<times> chunk_log \<Rightarrow> bool" where
  "transfers_ok ml \<longleftrightarrow> (\<forall>t s. tget (fst ml) t = Some s \<longrightarrow> transfer_ok (snd ml t) s)"

lemma transfer_ok_open [simp]: "transfer_ok log (s\<lparr>ts_open := b\<rparr>) = transfer_ok log s"
  by (simp add: transfer_ok_def)

lemma transfer_ok_snoc:
  assumes "transfer_ok log s" and "i = ts_nextIndex s" and "int (length data) \<le> MaxBinaryChunkBytes"
    and "ts_bytes s + int (length data) \<le> bp_ByteLength (ts_params s)"
  shows "transfer_ok (log @ [(i, data)])
    (s\<lparr>ts_file := ts_file s @ data, ts_bytes := ts_bytes s + int (length data), ts_nextIndex := ts_nextIndex s + 1\<rparr>)"
  using assms by (auto simp: transfer_ok_def)

lemma tget_fold_delete: "tget (fold (\<lambda>row t. tdelete (fst row) t) rows m) k = (if k \<in> fst ` set rows then None else tget m k)"
  by (induction rows arbitrary: m) auto

lemma transfer_begin_cases:
  assumes "transfer_begin io payload m = (r, m')"
  shows "(\<exists>e. r = Inl e) \<and> m' = m \<or>
    (\<exists>raw s. r = Inr () \<and> payload = Inr raw \<and> m' = tput (TrimSpace (bp_TransferID raw)) s m \<and> transfer_ok [] s)"
proof (cases payload)
  case (Inr raw)
  show ?thesis
  proof (cases "\<exists>e. r = Inl e")
    case True
    then show ?thesis using assms by (auto simp: transfer_begin_def Inr Let_def split: sum.splits if_splits)
  next
    case False
    then show ?thesis
      using assms by (auto simp: transfer_begin_def Inr Let_def transfer_ok_def split: sum.splits if_splits)
  qed
qed (use assms in \<open>auto simp: transfer_begin_def\<close>)

lemma transfers_ok_step:
  assumes "transfers_ok ml"
  shows "transfers_ok (transfer_step op ml)"
proof -
  obtain m log where ml: "ml = (m, log)" by (cases ml)
  have ok: "tget m t = Some s \<Longrightarrow> transfer_ok (log t) s" for t s using assms by (simp add: transfers_ok_def ml)
  show ?thesis
  proof (cases op)
    case (XBegin io payload)
    obtain r m' where b: "transfer_begin io payload m = (r, m')" by fastforce
    from transfer_begin_cases [OF b] show ?thesis
    proof (elim disjE exE conjE)
      fix raw s assume n: "r = Inr ()" "payload = Inr raw" "m' = tput (TrimSpace (bp_TransferID raw)) s m" "transfer_ok [] s"
      then show ?thesis using ok b [unfolded n(2)] by (simp add: XBegin ml transfers_ok_def)
    qed (use ok in \<open>auto simp: XBegin ml b transfers_ok_def\<close>)
  next
    case (XWrite io metadata data)
    let ?t = "bm_TransferID metadata"
    show ?thesis
    proof (cases "tget m ?t")
      case None
      then show ?thesis using ok by (auto simp: XWrite ml transfer_write_def transfers_ok_def)
    next
      case (Some s)
      have snoc: "transfer_ok (log ?t @ [(bm_Index metadata, data)])
          (s\<lparr>ts_file := ts_file s @ data, ts_bytes := ts_bytes s + int (length data), ts_nextIndex := ts_nextIndex s + 1\<rparr>)"
        if "bm_Index metadata = ts_nextIndex s" "int (length data) \<le> MaxBinaryChunkBytes"
          "ts_bytes s + int (length data) \<le> bp_ByteLength (ts_params s)"
        by (rule transfer_ok_snoc [OF ok [OF Some] that])
      show ?thesis
        using ok snoc by (auto simp: XWrite ml transfer_write_def Some transfers_ok_def split: sum.splits if_splits)
    qed
  next
    case (XCommit io transferID)
    then show ?thesis
      using ok by (auto simp: ml transfer_commit_def Let_def transfers_ok_def split: option.splits if_splits)
  next
    case (XAbort t)
    then show ?thesis using ok by (auto simp: ml transfer_abort_def transfers_ok_def split: if_splits)
  next
    case XClose
    then show ?thesis using ok by (auto simp: ml transfer_close_def transfers_ok_def tget_fold_delete split: if_splits)
  qed
qed

lemma transfers_ok_run: "transfers_ok (transfer_run ops)"
proof -
  have "transfers_ok ml \<Longrightarrow> transfers_ok (fold transfer_step ops ml)" for ml
    by (induction ops arbitrary: ml) (simp_all only: fold_simps transfers_ok_step)
  then show ?thesis by (simp add: transfer_run_def transfers_ok_def)
qed

section \<open>Sending an attachment\<close>

fun send_chunks :: "string \<Rightarrow> int \<Rightarrow> int \<Rightarrow> string list \<Rightarrow> transfer_manager \<Rightarrow> (error + unit) \<times> transfer_manager" where
  "send_chunks t cnt index [] m = (Inr (), m)"
| "send_chunks t cnt index (d # ds) m =
     (case transfer_write (Inr ()) \<lparr>bm_TransferID = t, bm_Purpose = [], bm_Channel = ChannelOther [], bm_Sequence = 0,
          bm_Name = [], bm_MediaType = [], bm_ByteLength = int (length d), bm_SHA256 = [], bm_Index = index, bm_Count = cnt\<rparr> d m of
        (Inl e, m') \<Rightarrow> (Inl e, m')
      | (Inr _, m') \<Rightarrow> send_chunks t cnt (index + 1) ds m')"

lemma send_chunks_ok:
  assumes "tget m t = Some s" and "ts_open s" and "ts_nextIndex s = index" and "bp_ChunkCount (ts_params s) = cnt"
    and "\<forall>d \<in> set ds. int (length d) \<le> MaxBinaryChunkBytes" and "ts_bytes s + int (length (concat ds)) \<le> bp_ByteLength (ts_params s)"
  shows "\<exists>m'. send_chunks t cnt index ds m = (Inr (), m') \<and>
    tget m' t = Some (s\<lparr>ts_file := ts_file s @ concat ds, ts_bytes := ts_bytes s + int (length (concat ds)),
      ts_nextIndex := index + int (length ds)\<rparr>) \<and> (\<forall>u. u \<noteq> t \<longrightarrow> tget m' u = tget m u)"
  using assms
proof (induction ds arbitrary: m s index)
  case (Cons d ds)
  let ?s = "s\<lparr>ts_file := ts_file s @ d, ts_bytes := ts_bytes s + int (length d), ts_nextIndex := index + 1\<rparr>"
  let ?m = "tput t ?s m"
  have "\<exists>m'. send_chunks t cnt (index + 1) ds ?m = (Inr (), m') \<and>
    tget m' t = Some (?s\<lparr>ts_file := ts_file ?s @ concat ds, ts_bytes := ts_bytes ?s + int (length (concat ds)),
      ts_nextIndex := index + 1 + int (length ds)\<rparr>) \<and> (\<forall>u. u \<noteq> t \<longrightarrow> tget m' u = tget ?m u)"
    using Cons.prems by (intro Cons.IH) auto
  then obtain m' where "send_chunks t cnt (index + 1) ds ?m = (Inr (), m')"
    "tget m' t = Some (?s\<lparr>ts_file := ts_file ?s @ concat ds, ts_bytes := ts_bytes ?s + int (length (concat ds)),
      ts_nextIndex := index + 1 + int (length ds)\<rparr>)" "\<forall>u. u \<noteq> t \<longrightarrow> tget m' u = tget ?m u" by blast
  then show ?case using Cons.prems by (auto simp: transfer_write_def)
qed simp

section \<open>Guarantees\<close>

text \<open>What is imported is what was sent: after any history of begins, chunks, commits and aborts,
  when a commit reaches the importer it hands over the concatenation of the chunks accepted for
  the transfer, which are numbered from zero in order, as many as declared and together as long
  as declared, and whose digest is the declared one.\<close>

theorem transfer_imports_exact:
  assumes "transfer_run ops = (m, log)" and "tget m (TrimSpace t) = Some s"
    and "fst (transfer_commit sha io t (Some (\<lambda>session name mime data. Inr (session, data))) m) = Inr (session, data)"
  shows "session = bp_SessionID (ts_params s) \<and> data = concat (map snd (log (TrimSpace t))) \<and>
    map fst (log (TrimSpace t)) = map int [0..<nat (bp_ChunkCount (ts_params s))] \<and>
    int (length data) = bp_ByteLength (ts_params s) \<and> equal_fold (sha data) (bp_SHA256 (ts_params s))"
proof -
  have ok: "transfer_ok (log (TrimSpace t)) s"
    using transfers_ok_run [of ops] assms(1,2) by (simp add: transfers_ok_def)
  have c: "ts_bytes s = bp_ByteLength (ts_params s)" "ts_nextIndex s = bp_ChunkCount (ts_params s)"
    "equal_fold (sha (ts_file s)) (bp_SHA256 (ts_params s))" "session = bp_SessionID (ts_params s)" "data = ts_file s"
    using assms(3) by (auto simp: transfer_commit_def assms(2) Let_def split: sum.splits if_splits)
  with ok show ?thesis by (auto simp: transfer_ok_def)
qed

text \<open>An attachment cut into chunks of at most 256 KiB arrives: begun under a fresh id with its
  true length, digest and chunk count, its chunks are accepted in order, the commit hands exactly
  its bytes to the importer, the id is free again and no other transfer is touched.\<close>

theorem transfer_roundtrip:
  assumes "tget m t = None" and "TrimSpace t = t" and "t \<noteq> []" and "session \<noteq> []" and "name \<noteq> []" and "mime \<noteq> []"
    and "data = concat ds" and "\<forall>d \<in> set ds. int (length d) \<le> MaxBinaryChunkBytes"
    and "int (length ds) = (int (length data) + MaxBinaryChunkBytes - 1) div MaxBinaryChunkBytes"
    and "int (length data) \<le> MaxReassembledBinary" and "length (sha data) = 64"
  shows "\<exists>m1 m2. transfer_begin (Inr ()) (Inr \<lparr>bp_TransferID = t, bp_SessionID = session, bp_Name = name, bp_MIMEType = mime,
        bp_ByteLength = int (length data), bp_SHA256 = sha data, bp_ChunkCount = int (length ds)\<rparr>) m = (Inr (), m1) \<and>
    send_chunks t (int (length ds)) 0 ds m1 = (Inr (), m2) \<and>
    fst (transfer_commit sha (Inr ()) t (Some handover) m2) = handover session name mime data \<and>
    (\<forall>u. tget (snd (transfer_commit sha (Inr ()) t (Some handover) m2)) u = tget m u)"
proof -
  let ?p = "\<lparr>bp_TransferID = t, bp_SessionID = session, bp_Name = name, bp_MIMEType = mime,
        bp_ByteLength = int (length data), bp_SHA256 = sha data, bp_ChunkCount = int (length ds)\<rparr>"
  let ?s = "\<lparr>ts_params = ?p, ts_file = [], ts_open = True, ts_nextIndex = 0, ts_bytes = 0\<rparr>"
  have b: "transfer_begin (Inr ()) (Inr ?p) m = (Inr (), tput t ?s m)"
    using assms by (simp add: transfer_begin_def Let_def)
  obtain m2 where m2: "send_chunks t (int (length ds)) 0 ds (tput t ?s m) = (Inr (), m2)"
    "tget m2 t = Some (?s\<lparr>ts_file := concat ds, ts_bytes := int (length (concat ds)), ts_nextIndex := int (length ds)\<rparr>)"
    "\<forall>u. u \<noteq> t \<longrightarrow> tget m2 u = tget m u"
    using send_chunks_ok [of "tput t ?s m" t ?s 0 "int (length ds)" ds] assms(7,8) by auto
  have c: "fst (transfer_commit sha (Inr ()) t (Some handover) m2) = handover session name mime data"
    using assms(7,10) by (simp add: transfer_commit_def assms(2) m2(2) Let_def equal_fold_def)
  have "tget (snd (transfer_commit sha (Inr ()) t (Some handover) m2)) u = tget m u" for u
    using m2(3) assms(1) by (simp add: transfer_commit_def assms(2) m2(2) Let_def)
  with b m2(1) c show ?thesis by blast
qed

text \<open>A commit whose id has surrounding white space imports the attachment but leaves the
  transfer behind with a closed file: the id cannot be begun again, and committing it again fails.\<close>

theorem commit_untrimmed_id_leaks:
  assumes "tget m (TrimSpace t) = Some s" and "TrimSpace t \<noteq> t" and "TrimSpace (TrimSpace t) = TrimSpace t"
    and "m' = snd (transfer_commit sha io t dispatcher m)"
  shows "tget m' (TrimSpace t) = Some (s\<lparr>ts_open := False\<rparr>) \<and>
    (\<exists>e. fst (transfer_begin io' (Inr (ts_params s\<lparr>bp_TransferID := TrimSpace t\<rparr>)) m') = Inl e) \<and>
    fst (transfer_commit sha io' (TrimSpace t) dispatcher m') = Inl (ErrMessage ''file already closed'')"
proof -
  have m': "tget m' (TrimSpace t) = Some (s\<lparr>ts_open := False\<rparr>)"
    using assms(1,2) by (simp add: assms(4) transfer_commit_def Let_def)
  then show ?thesis by (simp add: transfer_begin_def transfer_commit_def assms(3) Let_def)
qed

section \<open>Witnesses\<close>

definition ex_sha :: "string \<Rightarrow> string" where
  "ex_sha data = replicate 64 CHR ''a''"

definition ex_begin :: begin_params where
  "ex_begin = \<lparr>bp_TransferID = ''t'', bp_SessionID = ''s'', bp_Name = ''f.txt'', bp_MIMEType = ''text/plain'',
     bp_ByteLength = 5, bp_SHA256 = replicate 64 CHR ''A'', bp_ChunkCount = 1\<rparr>"

definition ex_transfer_ops :: "transfer_op list" where
  "ex_transfer_ops = [XBegin (Inr ()) (Inr ex_begin),
     XWrite (Inr ()) \<lparr>bm_TransferID = ''t'', bm_Purpose = [], bm_Channel = ChannelOther [], bm_Sequence = 0, bm_Name = [],
       bm_MediaType = [], bm_ByteLength = 5, bm_SHA256 = [], bm_Index = 0, bm_Count = 1\<rparr> ''hello'']"

definition ex_transfer :: transfer_manager where
  "ex_transfer = fst (transfer_run ex_transfer_ops)"

definition ex_transfer_state :: transfer_state where
  "ex_transfer_state = the (tget ex_transfer ''t'')"

lemma ex_transfer_eval:
  "tget ex_transfer ''t'' = Some ex_transfer_state" "ts_file ex_transfer_state = ''hello''"
  "bp_ByteLength (ts_params ex_transfer_state) = 5" "TrimSpace ''t'' = ''t''" "TrimSpace '' t'' = ''t''"
  by code_simp+

theorem transfer_imports_exact_witness:
  "concat (map snd (snd (transfer_run ex_transfer_ops) ''t'')) = ''hello'' \<and>
   bp_ByteLength (ts_params ex_transfer_state) = 5"
proof -
  have r: "transfer_run ex_transfer_ops = (ex_transfer, snd (transfer_run ex_transfer_ops))"
    by (simp add: ex_transfer_def)
  have "fst (transfer_commit ex_sha (Inr ()) ''t'' (Some (\<lambda>session name mime data. Inr (session, data))) ex_transfer) =
      Inr (''s'', ''hello'')"
    by code_simp
  from transfer_imports_exact [OF r _ this, of ex_transfer_state] ex_transfer_eval(1,4)
  have "''hello'' = concat (map snd (snd (transfer_run ex_transfer_ops) ''t''))"
    by simp_all
  with ex_transfer_eval(3) show ?thesis by simp
qed

theorem transfer_roundtrip_witness:
  "\<exists>m1 m2. send_chunks ''t'' 1 0 [''hello''] m1 = (Inr (), m2) \<and>
    fst (transfer_commit ex_sha (Inr ()) ''t'' (Some (\<lambda>session name mime data. Inr data)) m2) = Inr ''hello''"
proof -
  have h: "tget [] ''t'' = None" "''t'' \<noteq> []" "''s'' \<noteq> []" "''f'' \<noteq> []" "''m'' \<noteq> []" "''hello'' = concat [''hello'']"
    "\<forall>d \<in> set [''hello'']. int (length d) \<le> MaxBinaryChunkBytes"
    "int (length [''hello'']) = (int (length ''hello'') + MaxBinaryChunkBytes - 1) div MaxBinaryChunkBytes"
    "int (length ''hello'') \<le> MaxReassembledBinary" "length (ex_sha ''hello'') = 64"
    by (simp_all add: MaxBinaryChunkBytes_def MaxReassembledBinary_def ex_sha_def)
  from transfer_roundtrip [where ds = "[''hello'']" and sha = ex_sha, OF h(1) ex_transfer_eval(4) h(2-10), of "\<lambda>session name mime data. Inr data"]
  show ?thesis by auto
qed

theorem commit_untrimmed_id_leaks_witness:
  "tget (snd (transfer_commit ex_sha (Inr ()) '' t'' (None :: unit importer option) ex_transfer)) ''t'' \<noteq> None \<and>
   tget (snd (transfer_commit ex_sha (Inr ()) ''t'' (None :: unit importer option) ex_transfer)) ''t'' = None"
proof -
  have "tget ex_transfer (TrimSpace '' t'') = Some ex_transfer_state" "TrimSpace '' t'' \<noteq> '' t''"
    "TrimSpace (TrimSpace '' t'') = TrimSpace '' t''" by (simp_all add: ex_transfer_eval)
  from commit_untrimmed_id_leaks [OF this refl, where sha = ex_sha and io = "Inr ()" and dispatcher = "None :: unit importer option"]
  have "tget (snd (transfer_commit ex_sha (Inr ()) '' t'' (None :: unit importer option) ex_transfer)) ''t'' \<noteq> None"
    by (simp add: ex_transfer_eval)
  moreover have "tget (snd (transfer_commit ex_sha (Inr ()) ''t'' (None :: unit importer option) ex_transfer)) ''t'' = None"
    by code_simp
  ultimately show ?thesis by blast
qed

end
