(* ===== verification/Prompt_Queue.thy ===== *)
theory Prompt_Queue
  imports Store_Interfaces
begin

text \<open>
  The durable prompt queues: \<^verbatim>\<open>internal/session/prompt_queue.go\<close> and
  \<^verbatim>\<open>internal/app/prompt_queue.go\<close>.

  A session has one queue of prompts that wait for their turn. Clients change it through
  \<open>MutatePromptQueue\<close>, the coordinator of the daemon claims the oldest head of all queues when no
  run is active and starts a turn for it, and after a restart it repairs the items whose dispatch
  was cut off. All of them read a queue, compute the next one and write it back with a
  compare-and-swap on the revision.

  The document column of a row is the list of items it decodes to, \<open>bytes\<close> the length of its
  JSON text; the blob store that holds large documents is not modelled. Strings are UTF-8 without
  invalid bytes, as the JSON decoder of the clients' requests delivers them. The outcome of the
  database calls of an operation that can fail for reasons of its own (\<open>io\<close>), the clock, the
  ownership of an attachment by a session and the expansion of mentioned sessions are arguments.
\<close>

section \<open>Data\<close>

definition PromptQueueVersion :: int where
  "PromptQueueVersion = 1"

definition MaxPromptQueueItems :: nat where
  "MaxPromptQueueItems = 64"

definition MaxPromptQueueDocument :: int where
  "MaxPromptQueueDocument = 8388608"

datatype prompt_state =
    QueuedPromptQueued
  | QueuedPromptDispatching
  | QueuedPromptFailed
  | QueuedPromptOther string

datatype queue_state = PromptQueueActive | PromptQueuePaused | PromptQueueOther string

record attachment =
  at_ID :: string
  at_Name :: string
  at_MIME :: string
  at_Path :: string
  at_Size :: int

record queued_prompt =
  qp_ID :: string
  qp_Text :: string
  qp_Attachments :: "attachment list"
  qp_State :: prompt_state
  qp_RunID :: string
  qp_Error :: string
  qp_Attempts :: int
  qp_CreatedAt :: time
  qp_UpdatedAt :: time

record prompt_queue =
  pq_Version :: int
  pq_SessionID :: string
  pq_Revision :: int
  pq_State :: queue_state
  pq_PauseReason :: string
  pq_Items :: "queued_prompt list"
  pq_UpdatedAt :: time

datatype queue_error =
    PromptQueueRevisionConflict int prompt_queue
  | ErrInvalidPromptQueueAction string
  | ErrStaleRun
  | ErrGuidanceClosed
  | QueueError string

text \<open>A block of a session's transcript, as far as the queue reads and writes it.\<close>

record session_block =
  sb_Kind :: string
  sb_State :: string
  sb_RunID :: string
  sb_Content :: string
  sb_Attachments :: "attachment list"
  sb_Data :: "(string \<times> string) list"
  sb_Sequence :: int

text \<open>The row of a session in \<^verbatim>\<open>session_prompt_queues\<close>. The store keeps every block of a session, and
  which of them lie on the active branch of its graph, by their sequence numbers.\<close>

record queue_row =
  qr_Revision :: int
  qr_State :: queue_state
  qr_PauseReason :: string
  qr_Items :: "queued_prompt list"
  qr_UpdatedAt :: time

record queue_store =
  qs_sessions :: "string list"
  qs_rows :: "(string, queue_row) table"
  qs_blocks :: "string \<Rightarrow> session_block list"
  qs_branch :: "string \<Rightarrow> int list"

section \<open>Validation\<close>

definition id_char :: "char \<Rightarrow> bool" where
  "id_char c \<longleftrightarrow> (let n = of_char c :: nat in
     97 \<le> n \<and> n \<le> 122 \<or> 65 \<le> n \<and> n \<le> 90 \<or> 48 \<le> n \<and> n \<le> 57 \<or> c \<in> set ''-_.:'')"

lemma id_char_code [code]:
  "id_char c \<longleftrightarrow> (let n = of_char c :: int in
     97 \<le> n \<and> n \<le> 122 \<or> 65 \<le> n \<and> n \<le> 90 \<or> 48 \<le> n \<and> n \<le> 57 \<or> c \<in> set ''-_.:'')"
proof -
  have "(of_char c :: int) = int (of_char c :: nat)" by (simp add: of_char_def)
  then show ?thesis by (simp add: id_char_def Let_def)
qed

definition validPromptQueueItemID :: "string \<Rightarrow> bool" where
  "validPromptQueueItemID raw \<longleftrightarrow> (let text = TrimSpace raw in
     text \<noteq> [] \<and> \<not> length text > 128 \<and> (\<forall>c \<in> set text. id_char c))"

definition valid_attachment :: "attachment \<Rightarrow> bool" where
  "valid_attachment a \<longleftrightarrow> \<not> (blank (at_ID a) \<or> blank (at_Name a) \<or> blank (at_MIME a) \<or>
     blank (at_Path a) \<or> at_Size a \<le> 0)"

definition validate_queue_item :: "string list \<Rightarrow> queued_prompt \<Rightarrow> queue_error option" where
  "validate_queue_item ids item =
     (let iid = TrimSpace (qp_ID item) in
      if \<not> validPromptQueueItemID iid \<or> blank (qp_Text item) \<or> qp_Attempts item < 0 \<or>
         IsZero (qp_CreatedAt item) \<or> IsZero (qp_UpdatedAt item)
      then Some (QueueError ''prompt queue item is invalid'')
      else if iid \<in> set ids then Some (QueueError ''prompt queue item is duplicated'')
      else case (case qp_State item of
            QueuedPromptQueued \<Rightarrow>
              if qp_RunID item \<noteq> [] then Some (QueueError ''queued prompt cannot have a run'') else None
          | QueuedPromptDispatching \<Rightarrow> None
          | QueuedPromptFailed \<Rightarrow>
              if blank (qp_Error item) then Some (QueueError ''failed prompt requires an error'') else None
          | QueuedPromptOther _ \<Rightarrow> Some (QueueError ''prompt queue item has invalid state'')) of
        Some e \<Rightarrow> Some e
      | None \<Rightarrow> if list_all valid_attachment (qp_Attachments item) then None
          else Some (QueueError ''prompt queue item has an invalid attachment''))"

fun validate_queue_items :: "string list \<Rightarrow> queued_prompt list \<Rightarrow> queue_error option" where
  "validate_queue_items ids [] = None"
| "validate_queue_items ids (item # items) =
     (case validate_queue_item ids item of
        Some e \<Rightarrow> Some e
      | None \<Rightarrow> validate_queue_items (TrimSpace (qp_ID item) # ids) items)"

definition validatePromptQueue :: "prompt_queue \<Rightarrow> queue_error option" where
  "validatePromptQueue queue =
     (if pq_Version queue \<noteq> PromptQueueVersion \<or> blank (pq_SessionID queue) \<or> pq_Revision queue < 0
      then Some (QueueError ''prompt queue identity is invalid'')
      else if pq_State queue \<noteq> PromptQueueActive \<and> pq_State queue \<noteq> PromptQueuePaused
      then Some (QueueError ''prompt queue state is invalid'')
      else if length (pq_Items queue) > MaxPromptQueueItems
      then Some (QueueError ''prompt queue exceeds items'')
      else validate_queue_items [] (pq_Items queue))"

section \<open>The store\<close>

definition emptyPromptQueue :: "string \<Rightarrow> prompt_queue" where
  "emptyPromptQueue sessionID =
     \<lparr>pq_Version = PromptQueueVersion, pq_SessionID = sessionID, pq_Revision = 0,
      pq_State = PromptQueueActive, pq_PauseReason = [], pq_Items = [], pq_UpdatedAt = 0\<rparr>"

type_synonym doc_size = "queued_prompt list \<Rightarrow> int"

definition decodePromptQueueRow :: "doc_size \<Rightarrow> string \<Rightarrow> queue_row \<Rightarrow> queue_error + prompt_queue" where
  "decodePromptQueueRow bytes sessionID row =
     (if bytes (qr_Items row) > MaxPromptQueueDocument
      then Inl (QueueError ''prompt queue document exceeds bytes'')
      else
        let queue = \<lparr>pq_Version = PromptQueueVersion, pq_SessionID = sessionID,
              pq_Revision = qr_Revision row, pq_State = qr_State row,
              pq_PauseReason = qr_PauseReason row, pq_Items = qr_Items row,
              pq_UpdatedAt = qr_UpdatedAt row\<rparr>
        in case validatePromptQueue queue of
             Some _ \<Rightarrow> Inl (QueueError ''validate stored prompt queue'')
           | None \<Rightarrow> Inr queue)"

definition loadPromptQueueWithQueries :: "doc_size \<Rightarrow> string \<Rightarrow> queue_store \<Rightarrow> queue_error + prompt_queue" where
  "loadPromptQueueWithQueries bytes sessionID st =
     (case tget (qs_rows st) sessionID of
        None \<Rightarrow> Inr (emptyPromptQueue sessionID)
      | Some row \<Rightarrow> decodePromptQueueRow bytes sessionID row)"

definition LoadPromptQueue :: "doc_size \<Rightarrow> string \<Rightarrow> queue_store \<Rightarrow> queue_error + prompt_queue" where
  "LoadPromptQueue bytes sessionID st =
     (let sid = TrimSpace sessionID in
      if sid = [] then Inl (QueueError ''prompt queue session is required'')
      else loadPromptQueueWithQueries bytes sid st)"

fun load_queues :: "doc_size \<Rightarrow> string list \<Rightarrow> queue_store \<Rightarrow> queue_error + prompt_queue list" where
  "load_queues bytes [] st = Inr []"
| "load_queues bytes (sid # sids) st =
     bindE (LoadPromptQueue bytes sid st) (\<lambda>queue.
     bindE (load_queues bytes sids st) (\<lambda>queues. Inr (queue # queues)))"

text \<open>The session ids come \<^verbatim>\<open>ORDER BY session_id\<close>.\<close>

definition ListPromptQueues :: "doc_size \<Rightarrow> queue_store \<Rightarrow> queue_error + prompt_queue list" where
  "ListPromptQueues bytes st = load_queues bytes (sort (map fst (qs_rows st))) st"

text \<open>A trigger of the database makes a new block the leaf of the active branch.\<close>

definition append_block :: "string \<Rightarrow> session_block \<Rightarrow> queue_store \<Rightarrow> int \<times> queue_store" where
  "append_block sessionID block st =
     (let seq = fold max (map sb_Sequence (qs_blocks st sessionID)) 0 + 1
      in (seq, st\<lparr>qs_blocks := (qs_blocks st)(sessionID := qs_blocks st sessionID @ [block\<lparr>sb_Sequence := seq\<rparr>]),
          qs_branch := (qs_branch st)(sessionID := qs_branch st sessionID @ [seq])\<rparr>))"

text \<open>The blocks that the display projection shows: \<^verbatim>\<open>filterBlocksToActiveSessionBranch\<close>.\<close>

definition visible_blocks :: "queue_store \<Rightarrow> string \<Rightarrow> session_block list" where
  "visible_blocks st sessionID = filter (\<lambda>b. sb_Sequence b \<in> set (qs_branch st sessionID)) (qs_blocks st sessionID)"

text \<open>
  The insert is refused by the foreign key for a session that does not exist. The second
  component of the result is the sequence number of the guidance block.
\<close>

definition savePromptQueueCAS ::
  "doc_size \<Rightarrow> string option \<Rightarrow> time \<Rightarrow> string \<Rightarrow> int \<Rightarrow> prompt_queue \<Rightarrow> session_block option \<Rightarrow> queue_store \<Rightarrow>
   (queue_error + prompt_queue \<times> int) \<times> queue_store" where
  "savePromptQueueCAS bytes io now sessionID expected queue0 guidance st =
     (let sid = TrimSpace sessionID in
      if sid = [] \<or> expected < 0
      then (Inl (QueueError ''prompt queue session and non-negative revision are required''), st)
      else
        let queue = queue0\<lparr>pq_Version := PromptQueueVersion, pq_SessionID := sid,
              pq_Revision := s64_wrap (expected + 1), pq_UpdatedAt := now,
              pq_State := (if pq_State queue0 = PromptQueueOther [] then PromptQueueActive
                           else pq_State queue0)\<rparr>;
            row = \<lparr>qr_Revision = pq_Revision queue, qr_State = pq_State queue,
              qr_PauseReason = pq_PauseReason queue, qr_Items = pq_Items queue, qr_UpdatedAt = now\<rparr>;
            written = (if expected = 0
              then tinsert_ignore (\<lambda>_. False) sid row (qs_rows st)
              else tupdate_where sid (\<lambda>old. qr_Revision old = expected) row (qs_rows st))
        in case validatePromptQueue queue of
             Some e \<Rightarrow> (Inl e, st)
           | None \<Rightarrow>
        if bytes (pq_Items queue) > MaxPromptQueueDocument
        then (Inl (QueueError ''prompt queue document exceeds bytes''), st)
        else case io of Some e \<Rightarrow> (Inl (QueueError e), st) | None \<Rightarrow>
        if expected = 0 \<and> fst written = 1 \<and> sid \<notin> set (qs_sessions st)
        then (Inl (QueueError ''insert prompt queue''), st)
        else if fst written = 0
        then (case loadPromptQueueWithQueries bytes sid st of
               Inl e \<Rightarrow> (Inl e, st)
             | Inr current \<Rightarrow> (Inl (PromptQueueRevisionConflict expected current), st))
        else let st' = st\<lparr>qs_rows := snd written\<rparr>
             in case guidance of
                  None \<Rightarrow> (Inr (queue, 0), st')
                | Some block \<Rightarrow> let (seq, st'') = append_block sid block st' in (Inr (queue, seq), st''))"

definition SavePromptQueueCAS ::
  "doc_size \<Rightarrow> string option \<Rightarrow> time \<Rightarrow> string \<Rightarrow> int \<Rightarrow> prompt_queue \<Rightarrow> queue_store \<Rightarrow>
   (queue_error + prompt_queue) \<times> queue_store" where
  "SavePromptQueueCAS bytes io now sessionID expected queue st =
     (case savePromptQueueCAS bytes io now sessionID expected queue None st of
        (Inl e, st') \<Rightarrow> (Inl e, st')
      | (Inr (saved, _), st') \<Rightarrow> (Inr saved, st'))"

definition SavePromptQueueWithGuidance ::
  "doc_size \<Rightarrow> string option \<Rightarrow> time \<Rightarrow> string \<Rightarrow> int \<Rightarrow> prompt_queue \<Rightarrow> session_block \<Rightarrow> queue_store \<Rightarrow>
   (queue_error + prompt_queue \<times> int) \<times> queue_store" where
  "SavePromptQueueWithGuidance bytes io now sessionID expected queue block st =
     (if sb_Kind block \<noteq> ''user'' \<or> sb_State block \<noteq> ''guidance'' \<or> sb_RunID block = []
      then (Inl (QueueError ''invalid queued guidance block''), st)
      else savePromptQueueCAS bytes io now sessionID expected queue (Some block) st)"

section \<open>Mutations by clients\<close>

record queue_mutation =
  qm_Operation :: string
  qm_SessionID :: string
  qm_MutationID :: string
  qm_ExpectedRevision :: int
  qm_Item :: queued_prompt
  qm_ItemID :: string
  qm_BeforeID :: string
  qm_PauseReason :: string
  qm_RunID :: string

text \<open>
  What the model takes from its surroundings: the length of a document, whether a session owns an
  attachment (\<open>validatePromptQueueAttachments\<close> reads the file), and the expansion of the sessions
  a prompt mentions into its text and their references.
\<close>

record queue_config =
  qc_bytes :: doc_size
  qc_owns :: "string \<Rightarrow> attachment \<Rightarrow> bool"
  qc_resolve :: "string \<Rightarrow> string \<Rightarrow> string + string \<times> string"

fun promptQueueItemIndex_from :: "nat \<Rightarrow> queued_prompt list \<Rightarrow> string \<Rightarrow> nat option" where
  "promptQueueItemIndex_from i [] iid = None"
| "promptQueueItemIndex_from i (item # items) iid =
     (if qp_ID item = iid then Some i else promptQueueItemIndex_from (Suc i) items iid)"

definition promptQueueItemIndex :: "queued_prompt list \<Rightarrow> string \<Rightarrow> nat option" where
  "promptQueueItemIndex items itemID = promptQueueItemIndex_from 0 items (TrimSpace itemID)"

definition editableQueuedPrompt :: "prompt_state \<Rightarrow> bool" where
  "editableQueuedPrompt state \<longleftrightarrow> state = QueuedPromptQueued \<or> state = QueuedPromptFailed"

definition remove_at :: "nat \<Rightarrow> 'a list \<Rightarrow> 'a list" where
  "remove_at i xs = take i xs @ drop (Suc i) xs"

definition insert_at :: "nat \<Rightarrow> 'a \<Rightarrow> 'a list \<Rightarrow> 'a list" where
  "insert_at i x xs = take i xs @ x # drop i xs"

definition validatePromptQueueAttachments :: "queue_config \<Rightarrow> string \<Rightarrow> attachment list \<Rightarrow> queue_error option" where
  "validatePromptQueueAttachments cfg sessionID attachments =
     (if list_all (qc_owns cfg sessionID) attachments then None
      else Some (QueueError ''queue attachment is not owned by session''))"

definition firstNonempty :: "string list \<Rightarrow> string" where
  "firstNonempty values = (case List.find (\<lambda>v. v \<noteq> []) values of None \<Rightarrow> [] | Some v \<Rightarrow> v)"

text \<open>
  The branches of the switch in \<open>MutatePromptQueue\<close>: an early return of the current queue with or
  without an error, or the queue to save and whether to wake the coordinator.
\<close>

datatype queue_plan = PlanReject queue_error | PlanUnchanged | PlanSave prompt_queue bool

definition enqueue_plan :: "queue_config \<Rightarrow> time \<Rightarrow> queue_mutation \<Rightarrow> prompt_queue \<Rightarrow> queue_plan" where
  "enqueue_plan cfg now m current =
     (let item = (qm_Item m)\<lparr>qp_ID := TrimSpace (qp_ID (qm_Item m)), qp_Text := TrimSpace (qp_Text (qm_Item m))\<rparr>
      in if qp_ID item = [] \<or> qp_Text item = []
         then PlanReject (ErrInvalidPromptQueueAction ''queued item ID and text are required'')
         else case promptQueueItemIndex (pq_Items current) (qp_ID item) of
           Some i \<Rightarrow>
             if qp_Text (pq_Items current ! i) = qp_Text item \<and>
                qp_Attachments (pq_Items current ! i) = qp_Attachments item
             then PlanUnchanged
             else PlanReject (ErrInvalidPromptQueueAction ''queue item already exists'')
         | None \<Rightarrow>
             (case validatePromptQueueAttachments cfg (qm_SessionID m) (qp_Attachments item) of
                Some e \<Rightarrow> PlanReject e
              | None \<Rightarrow> PlanSave (current\<lparr>pq_Items := pq_Items current @
                    [item\<lparr>qp_State := QueuedPromptQueued, qp_RunID := [], qp_Error := [], qp_Attempts := 0,
                       qp_CreatedAt := now, qp_UpdatedAt := now\<rparr>]\<rparr>) True))"

definition update_plan :: "queue_config \<Rightarrow> time \<Rightarrow> queue_mutation \<Rightarrow> prompt_queue \<Rightarrow> queue_plan" where
  "update_plan cfg now m current =
     (case promptQueueItemIndex (pq_Items current) (firstNonempty [qm_ItemID m, qp_ID (qm_Item m)]) of
        None \<Rightarrow> PlanReject (ErrInvalidPromptQueueAction ''queue item was not found'')
      | Some i \<Rightarrow>
          if \<not> editableQueuedPrompt (qp_State (pq_Items current ! i))
          then PlanReject (ErrInvalidPromptQueueAction ''dispatching queue item is immutable'')
          else if blank (qp_Text (qm_Item m))
          then PlanReject (ErrInvalidPromptQueueAction ''updated queue text is required'')
          else case validatePromptQueueAttachments cfg (qm_SessionID m) (qp_Attachments (qm_Item m)) of
            Some e \<Rightarrow> PlanReject e
          | None \<Rightarrow> PlanSave (current\<lparr>pq_Items := (pq_Items current)[i := (pq_Items current ! i)
              \<lparr>qp_Text := TrimSpace (qp_Text (qm_Item m)), qp_Attachments := qp_Attachments (qm_Item m),
               qp_UpdatedAt := now\<rparr>]\<rparr>) False)"

definition remove_plan :: "queue_mutation \<Rightarrow> prompt_queue \<Rightarrow> queue_plan" where
  "remove_plan m current =
     (case promptQueueItemIndex (pq_Items current) (qm_ItemID m) of
        None \<Rightarrow> PlanReject (ErrInvalidPromptQueueAction ''queue item was not found'')
      | Some i \<Rightarrow>
          if \<not> editableQueuedPrompt (qp_State (pq_Items current ! i))
          then PlanReject (ErrInvalidPromptQueueAction ''dispatching queue item is immutable'')
          else PlanSave (current\<lparr>pq_Items := remove_at i (pq_Items current)\<rparr>) False)"

definition reorder_plan :: "time \<Rightarrow> queue_mutation \<Rightarrow> prompt_queue \<Rightarrow> queue_plan" where
  "reorder_plan now m current =
     (case promptQueueItemIndex (pq_Items current) (qm_ItemID m) of
        None \<Rightarrow> PlanReject (ErrInvalidPromptQueueAction ''queue item cannot be reordered'')
      | Some i \<Rightarrow>
          if \<not> editableQueuedPrompt (qp_State (pq_Items current ! i))
          then PlanReject (ErrInvalidPromptQueueAction ''queue item cannot be reordered'')
          else if qm_ItemID m = qm_BeforeID m then PlanUnchanged
          else
            let item = pq_Items current ! i; rest = remove_at i (pq_Items current)
            in case (if qm_BeforeID m = [] then Some (length rest)
                     else promptQueueItemIndex rest (qm_BeforeID m)) of
                 None \<Rightarrow> PlanReject (ErrInvalidPromptQueueAction ''reorder target was not found'')
               | Some b \<Rightarrow> PlanSave (current\<lparr>pq_Items := insert_at b (item\<lparr>qp_UpdatedAt := now\<rparr>) rest\<rparr>) False)"

definition retry_plan :: "time \<Rightarrow> queue_mutation \<Rightarrow> prompt_queue \<Rightarrow> queue_plan" where
  "retry_plan now m current =
     (case promptQueueItemIndex (pq_Items current) (qm_ItemID m) of
        None \<Rightarrow> PlanReject (ErrInvalidPromptQueueAction ''queue item is not failed'')
      | Some i \<Rightarrow>
          if qp_State (pq_Items current ! i) \<noteq> QueuedPromptFailed
          then PlanReject (ErrInvalidPromptQueueAction ''queue item is not failed'')
          else PlanSave (current\<lparr>pq_Items := (pq_Items current)[i := (pq_Items current ! i)
              \<lparr>qp_State := QueuedPromptQueued, qp_RunID := [], qp_Error := [], qp_UpdatedAt := now\<rparr>]\<rparr>) True)"

definition mutation_plan :: "queue_config \<Rightarrow> time \<Rightarrow> queue_mutation \<Rightarrow> prompt_queue \<Rightarrow> queue_plan" where
  "mutation_plan cfg now m current =
     (let op = TrimSpace (qm_Operation m)
      in if op = ''enqueue'' then enqueue_plan cfg now m current
         else if op = ''update'' then update_plan cfg now m current
         else if op = ''remove'' then remove_plan m current
         else if op = ''reorder'' then reorder_plan now m current
         else if op = ''retry'' then retry_plan now m current
         else if op = ''pause'' then PlanSave (current\<lparr>pq_State := PromptQueuePaused,
              pq_PauseReason := TrimSpace (qm_PauseReason m)\<rparr>) False
         else if op = ''resume'' then PlanSave (current\<lparr>pq_State := PromptQueueActive,
              pq_PauseReason := []\<rparr>) True
         else PlanReject (ErrInvalidPromptQueueAction ''unsupported operation''))"

text \<open>
  The live turn of the service: the active session and run, whether guidance is open, and the
  pending controls of each run's \<^verbatim>\<open>turnControlQueue\<close>. A control of a guidance is identified by
  its run and the sequence number of its block, the others by the counter of their queue.
\<close>

datatype control_id = GuideControl string int | NumberedControl nat

record turn_control =
  tc_id :: control_id
  tc_text :: string
  tc_references :: string
  tc_attachments :: "attachment list"

record live_turn =
  lt_shuttingDown :: bool
  lt_activeSession :: string
  lt_activeRun :: string
  lt_guidanceOpen :: bool
  lt_controls :: "(string, turn_control list) table"

definition control_enqueue :: "turn_control \<Rightarrow> turn_control list \<Rightarrow> queue_error + turn_control list" where
  "control_enqueue control pending =
     (if \<exists>p \<in> set pending. tc_id p = tc_id control then Inl (QueueError ''duplicate turn control id'')
      else Inr (pending @ [control]))"

definition guideQueuedPrompt ::
  "queue_config \<Rightarrow> string option \<Rightarrow> time \<Rightarrow> queue_mutation \<Rightarrow> prompt_queue \<Rightarrow> live_turn \<times> queue_store \<Rightarrow>
   (queue_error + prompt_queue) \<times> live_turn \<times> queue_store" where
  "guideQueuedPrompt cfg io now m current = (\<lambda>(turn, st).
     case promptQueueItemIndex (pq_Items current) (qm_ItemID m) of
        None \<Rightarrow> (Inl (ErrInvalidPromptQueueAction ''queue item cannot be guided''), turn, st)
      | Some i \<Rightarrow>
        let item = pq_Items current ! i in
        if \<not> editableQueuedPrompt (qp_State item)
        then (Inl (ErrInvalidPromptQueueAction ''queue item cannot be guided''), turn, st)
        else case validatePromptQueueAttachments cfg (qm_SessionID m) (qp_Attachments item) of
          Some e \<Rightarrow> (Inl e, turn, st)
        | None \<Rightarrow>
        case qc_resolve cfg (qm_SessionID m) (qp_Text item) of
          Inl e \<Rightarrow> (Inl (QueueError e), turn, st)
        | Inr (text, references) \<Rightarrow>
        if lt_shuttingDown turn \<or> lt_activeSession turn \<noteq> qm_SessionID m \<or>
           lt_activeRun turn \<noteq> qm_RunID m \<or> qm_RunID m = []
        then (Inl ErrStaleRun, turn, st)
        else if \<not> lt_guidanceOpen turn \<or> tget (lt_controls turn) (qm_RunID m) = None
        then (Inl ErrGuidanceClosed, turn, st)
        else
          let nextq = current\<lparr>pq_Items := remove_at i (pq_Items current)\<rparr>;
              block = \<lparr>sb_Kind = ''user'', sb_State = ''guidance'', sb_RunID = qm_RunID m, sb_Content = text,
                sb_Attachments = qp_Attachments item, sb_Data = [(''sessionReferences'', references)], sb_Sequence = 0\<rparr>
          in case SavePromptQueueWithGuidance (qc_bytes cfg) io now (qm_SessionID m) (qm_ExpectedRevision m) nextq block st of
               (Inl e, st') \<Rightarrow> (Inl e, turn, st')
             | (Inr (saved, seq), st') \<Rightarrow>
                 (case control_enqueue \<lparr>tc_id = GuideControl (qm_RunID m) seq, tc_text = text,
                      tc_references = references, tc_attachments = qp_Attachments item\<rparr>
                    (the (tget (lt_controls turn) (qm_RunID m))) of
                    Inl e \<Rightarrow> (Inl e, turn, st')
                  | Inr pending \<Rightarrow>
                      (Inr saved, turn\<lparr>lt_controls := tput (qm_RunID m) pending (lt_controls turn)\<rparr>, st')))"

text \<open>
  \<open>MutatePromptQueue\<close> reads the queue and refuses a stale revision; what follows the read is
  \<open>finish_mutation\<close>, whose last component tells whether the coordinator is woken.
\<close>

definition trim_mutation :: "queue_mutation \<Rightarrow> queue_mutation" where
  "trim_mutation m = m\<lparr>qm_SessionID := TrimSpace (qm_SessionID m), qm_MutationID := TrimSpace (qm_MutationID m)\<rparr>"

definition begin_mutation :: "queue_config \<Rightarrow> queue_mutation \<Rightarrow> queue_store \<Rightarrow> queue_error + queue_mutation \<times> prompt_queue" where
  "begin_mutation cfg m0 st =
     (let m = trim_mutation m0
      in if qm_SessionID m = [] \<or> qm_MutationID m = [] \<or> qm_ExpectedRevision m < 0
         then Inl (ErrInvalidPromptQueueAction ''session, mutation ID, and revision are required'')
         else bindE (LoadPromptQueue (qc_bytes cfg) (qm_SessionID m) st) (\<lambda>current.
           if pq_Revision current \<noteq> qm_ExpectedRevision m
           then Inl (PromptQueueRevisionConflict (qm_ExpectedRevision m) current)
           else Inr (m, current)))"

definition finish_mutation ::
  "queue_config \<Rightarrow> string option \<Rightarrow> time \<Rightarrow> queue_mutation \<Rightarrow> prompt_queue \<Rightarrow> live_turn \<times> queue_store \<Rightarrow>
   ((queue_error + prompt_queue) \<times> bool) \<times> live_turn \<times> queue_store" where
  "finish_mutation cfg io now m current = (\<lambda>(turn, st).
     if TrimSpace (qm_Operation m) = ''guide'' then
       (case guideQueuedPrompt cfg io now m current (turn, st) of (r, turn', st') \<Rightarrow> ((r, False), turn', st'))
     else case mutation_plan cfg now m current of
       PlanReject e \<Rightarrow> ((Inl e, False), turn, st)
     | PlanUnchanged \<Rightarrow> ((Inr current, False), turn, st)
     | PlanSave nextq wake \<Rightarrow>
         (case SavePromptQueueCAS (qc_bytes cfg) io now (qm_SessionID m) (qm_ExpectedRevision m) nextq st of
            (Inl e, st') \<Rightarrow> ((Inl e, False), turn, st')
          | (Inr saved, st') \<Rightarrow> ((Inr saved, wake), turn, st')))"

definition MutatePromptQueue ::
  "queue_config \<Rightarrow> string option \<Rightarrow> time \<Rightarrow> queue_mutation \<Rightarrow> live_turn \<times> queue_store \<Rightarrow>
   ((queue_error + prompt_queue) \<times> bool) \<times> live_turn \<times> queue_store" where
  "MutatePromptQueue cfg io now m = (\<lambda>(turn, st).
     case begin_mutation cfg m st of
       Inl e \<Rightarrow> ((Inl e, False), turn, st)
     | Inr (m', current) \<Rightarrow> finish_mutation cfg io now m' current (turn, st))"

section \<open>The coordinator\<close>

definition maxProjectionDetailBytes :: nat where
  "maxProjectionDetailBytes = 4096"

definition boundedProjectionText :: "string \<Rightarrow> string" where
  "boundedProjectionText value =
     (if length value \<le> maxProjectionDetailBytes then value else take maxProjectionDetailBytes value)"

definition dispatch_candidates :: "prompt_queue list \<Rightarrow> prompt_queue list" where
  "dispatch_candidates queues = filter (\<lambda>queue.
     \<not> (pq_State queue \<noteq> PromptQueueActive \<or> length (pq_Items queue) = 0 \<or>
        qp_State (hd (pq_Items queue)) \<noteq> QueuedPromptQueued)) queues"

text \<open>The order of candidates: age of the head item, then session id, then item id.\<close>

definition candidate_key :: "prompt_queue \<Rightarrow> time \<times> string \<times> string" where
  "candidate_key queue = (qp_CreatedAt (hd (pq_Items queue)), pq_SessionID queue, qp_ID (hd (pq_Items queue)))"

definition select_candidate :: "prompt_queue list \<Rightarrow> prompt_queue option" where
  "select_candidate queues =
     (case sort_key candidate_key (dispatch_candidates queues) of [] \<Rightarrow> None | queue # _ \<Rightarrow> Some queue)"

definition claimed_queue :: "time \<Rightarrow> prompt_queue \<Rightarrow> prompt_queue" where
  "claimed_queue now queue = (let item = hd (pq_Items queue) in
     queue\<lparr>pq_Items := item\<lparr>qp_State := QueuedPromptDispatching,
        qp_Attempts := s64_wrap (qp_Attempts item + 1), qp_UpdatedAt := now\<rparr> # tl (pq_Items queue)\<rparr>)"

text \<open>
  How the item of a dispatch is settled: removed once its run has started, queued again when
  another run was active, or marked as failed. \<open>settle_queue\<close> is the body of the retry loops of
  \<open>consumeDispatchedPrompt\<close> and \<open>updateDispatchedPrompt\<close>.
\<close>

datatype settlement = SettleConsume string | SettleReset | SettleFail string

fun settle_items :: "settlement \<Rightarrow> time \<Rightarrow> nat \<Rightarrow> queued_prompt list \<Rightarrow> queued_prompt list" where
  "settle_items (SettleConsume runID) now i items = remove_at i (items[i := (items ! i)\<lparr>qp_RunID := runID\<rparr>])"
| "settle_items SettleReset now i items = items[i := (items ! i)
     \<lparr>qp_State := QueuedPromptQueued, qp_RunID := [], qp_Error := [], qp_UpdatedAt := now\<rparr>]"
| "settle_items (SettleFail reason) now i items = items[i := (items ! i)
     \<lparr>qp_State := QueuedPromptFailed, qp_RunID := [], qp_Error := boundedProjectionText reason, qp_UpdatedAt := now\<rparr>]"

definition settle_queue :: "settlement \<Rightarrow> time \<Rightarrow> string \<Rightarrow> prompt_queue \<Rightarrow> prompt_queue option" where
  "settle_queue s now itemID queue =
     (case promptQueueItemIndex (pq_Items queue) itemID of
        None \<Rightarrow> None
      | Some i \<Rightarrow>
          if qp_State (pq_Items queue ! i) \<noteq> QueuedPromptDispatching then None
          else Some (queue\<lparr>pq_Items := settle_items s now i (pq_Items queue)\<rparr>))"

text \<open>The repair after a restart.\<close>

definition block_items :: "session_block list \<Rightarrow> string list" where
  "block_items blocks = filter (\<lambda>iid. iid \<noteq> [])
     (map (\<lambda>b. case map_of (sb_Data b) ''queueItemId'' of None \<Rightarrow> [] | Some iid \<Rightarrow> iid) blocks)"

text \<open>\<^verbatim>\<open>QueueItemRuns\<close>: the session and item of every run whose metadata names an item.\<close>

definition QueueItemRuns :: "(string \<times> string) list \<Rightarrow> (string \<times> string) list" where
  "QueueItemRuns metadata = map (\<lambda>(sid, iid). (TrimSpace sid, TrimSpace iid))
     (filter (\<lambda>(sid, iid). TrimSpace iid \<noteq> []) metadata)"

fun reconcile_items :: "time \<Rightarrow> (string \<Rightarrow> bool) \<Rightarrow> queued_prompt list \<Rightarrow> queued_prompt list \<times> bool" where
  "reconcile_items now consumed [] = ([], False)"
| "reconcile_items now consumed (item # items) =
     (let (rest, changed) = reconcile_items now consumed items
      in if qp_State item \<noteq> QueuedPromptDispatching then (item # rest, changed)
         else if consumed (qp_ID item) then (rest, True)
         else (item\<lparr>qp_State := QueuedPromptQueued, qp_RunID := [], qp_Error := [], qp_UpdatedAt := now\<rparr> # rest, True))"

definition item_consumed :: "(string \<times> string) list \<Rightarrow> queue_store \<Rightarrow> string \<Rightarrow> string \<Rightarrow> bool" where
  "item_consumed durable st sessionID iid \<longleftrightarrow>
     iid \<in> set (block_items (qs_blocks st sessionID)) \<or> (sessionID, iid) \<in> set durable"

text \<open>The repair reads the projection, that is the blocks of the active branch only.\<close>

definition item_shown :: "(string \<times> string) list \<Rightarrow> queue_store \<Rightarrow> string \<Rightarrow> string \<Rightarrow> bool" where
  "item_shown durable st sessionID iid \<longleftrightarrow>
     iid \<in> set (block_items (visible_blocks st sessionID)) \<or> (sessionID, iid) \<in> set durable"

text \<open>One queue of the loop: nothing to do, or the queue to save.\<close>

definition reconcile_queue :: "time \<Rightarrow> (string \<times> string) list \<Rightarrow> queue_store \<Rightarrow> prompt_queue \<Rightarrow> prompt_queue option" where
  "reconcile_queue now durable st queue =
     (let (items, changed) = reconcile_items now (item_shown durable st (pq_SessionID queue)) (pq_Items queue)
      in if changed then Some (queue\<lparr>pq_Items := items\<rparr>) else None)"

definition pause_queue :: "string \<Rightarrow> prompt_queue \<Rightarrow> prompt_queue option" where
  "pause_queue reason queue =
     (if length (pq_Items queue) = 0 \<or> pq_State queue = PromptQueuePaused then None
      else Some (queue\<lparr>pq_State := PromptQueuePaused, pq_PauseReason := reason\<rparr>))"

section \<open>The system\<close>

text \<open>
  The coordinator, the calls of clients and the pauses at the end of a run interleave at their
  accesses to the store: every call keeps the queue it has read until it writes. The recovery
  metadata of runs (\<^verbatim>\<open>queue_item_id\<close> in the run that \<^verbatim>\<open>StartConfiguredTurn\<close> records, or
  \<^verbatim>\<open>queueItemId\<close> in the user's block) is written before the turn runs. A turn of the coding agent
  records its run first; a team records the block only.
\<close>

datatype queue_phase =
    PhaseStartup
  | PhaseReconcile "(string \<times> string) list" "prompt_queue list"
  | PhaseWait
  | PhaseDispatch
  | PhasePicked prompt_queue
  | PhaseClaimed string string
  | PhaseRecorded string string
  | PhaseSettling settlement string string nat prompt_queue

datatype queue_call =
    MutationCall queue_mutation prompt_queue
  | PauseCall string string nat prompt_queue

record queue_system =
  sy_store :: queue_store
  sy_turn :: live_turn
  sy_metadata :: "(string \<times> string) list"
  sy_calls :: "queue_call list"
  sy_phase :: queue_phase
  sy_wake :: bool

definition turn_busy :: "live_turn \<Rightarrow> bool" where
  "turn_busy turn \<longleftrightarrow> lt_shuttingDown turn \<or> lt_activeRun turn \<noteq> []"

definition idle_turn :: live_turn where
  "idle_turn = \<lparr>lt_shuttingDown = False, lt_activeSession = [], lt_activeRun = [],
     lt_guidanceOpen = False, lt_controls = []\<rparr>"

text \<open>How the callers of a save tell its outcomes apart.\<close>

datatype save_outcome = SaveOk queue_store | SaveConflict | SaveError

definition try_save :: "queue_config \<Rightarrow> string option \<Rightarrow> time \<Rightarrow> prompt_queue \<Rightarrow> queue_store \<Rightarrow> save_outcome" where
  "try_save cfg io now queue st =
     (case SavePromptQueueCAS (qc_bytes cfg) io now (pq_SessionID queue) (pq_Revision queue) queue st of
        (Inr _, st') \<Rightarrow> SaveOk st'
      | (Inl (PromptQueueRevisionConflict _ _), _) \<Rightarrow> SaveConflict
      | (Inl _, _) \<Rightarrow> SaveError)"

text \<open>\<^verbatim>\<open>pausePromptQueue\<close>: a pass of its loop reads the queue, the next access writes it.\<close>

definition pause_pass :: "queue_config \<Rightarrow> string \<Rightarrow> string \<Rightarrow> nat \<Rightarrow> queue_store \<Rightarrow> queue_call list" where
  "pause_pass cfg sessionID reason n st =
     (if n = 0 \<or> blank sessionID then []
      else case LoadPromptQueue (qc_bytes cfg) sessionID st of
        Inl _ \<Rightarrow> []
      | Inr queue \<Rightarrow> (case pause_queue reason queue of
            None \<Rightarrow> [] | Some _ \<Rightarrow> [PauseCall sessionID reason n queue]))"

definition pause_write ::
  "queue_config \<Rightarrow> string option \<Rightarrow> time \<Rightarrow> string \<Rightarrow> string \<Rightarrow> nat \<Rightarrow> prompt_queue \<Rightarrow> queue_store \<Rightarrow> queue_call list \<times> queue_store" where
  "pause_write cfg io now sessionID reason n queue st =
     (case pause_queue reason queue of
        None \<Rightarrow> ([], st)
      | Some paused \<Rightarrow> (case try_save cfg io now paused st of
            SaveOk st' \<Rightarrow> ([], st')
          | SaveConflict \<Rightarrow> (pause_pass cfg sessionID reason (n - 1) st, st)
          | SaveError \<Rightarrow> ([], st)))"

text \<open>A failed item lets the coordinator look for the next one.\<close>

fun settled_phase :: "settlement \<Rightarrow> queue_phase" where
  "settled_phase (SettleFail _) = PhaseDispatch"
| "settled_phase _ = PhaseWait"

text \<open>\<^verbatim>\<open>consumeDispatchedPrompt\<close> and \<^verbatim>\<open>updateDispatchedPrompt\<close>, in the same way.\<close>

definition settle_pass ::
  "queue_config \<Rightarrow> settlement \<Rightarrow> time \<Rightarrow> string \<Rightarrow> string \<Rightarrow> nat \<Rightarrow> queue_store \<Rightarrow> queue_phase" where
  "settle_pass cfg how now sessionID itemID n st =
     (if n = 0 then settled_phase how
      else case LoadPromptQueue (qc_bytes cfg) sessionID st of
        Inl _ \<Rightarrow> settled_phase how
      | Inr queue \<Rightarrow> (case settle_queue how now itemID queue of
            None \<Rightarrow> settled_phase how
          | Some _ \<Rightarrow> PhaseSettling how sessionID itemID n queue))"

definition settle_write ::
  "queue_config \<Rightarrow> string option \<Rightarrow> time \<Rightarrow> settlement \<Rightarrow> string \<Rightarrow> string \<Rightarrow> nat \<Rightarrow> prompt_queue \<Rightarrow> queue_store \<Rightarrow>
   queue_phase \<times> queue_store" where
  "settle_write cfg io now how sessionID itemID n queue st =
     (case settle_queue how now itemID queue of
        None \<Rightarrow> (settled_phase how, st)
      | Some settled \<Rightarrow> (case try_save cfg io now settled st of
            SaveOk st' \<Rightarrow> (settled_phase how, st')
          | SaveConflict \<Rightarrow> (settle_pass cfg how now sessionID itemID (n - 1) st, st)
          | SaveError \<Rightarrow> (settled_phase how, st)))"

definition reconcile_write ::
  "queue_config \<Rightarrow> string option \<Rightarrow> time \<Rightarrow> (string \<times> string) list \<Rightarrow> prompt_queue \<Rightarrow> prompt_queue list \<Rightarrow> queue_store \<Rightarrow>
   queue_phase \<times> queue_store" where
  "reconcile_write cfg io now durable queue queues st =
     (case reconcile_queue now durable st queue of
        None \<Rightarrow> (PhaseReconcile durable queues, st)
      | Some repaired \<Rightarrow> (case try_save cfg io now repaired st of
            SaveOk st' \<Rightarrow> (PhaseReconcile durable queues, st')
          | SaveConflict \<Rightarrow> (PhaseReconcile durable queues, st)
          | SaveError \<Rightarrow> (PhaseWait, st)))"

definition dispatch_pick :: "queue_config \<Rightarrow> live_turn \<Rightarrow> queue_store \<Rightarrow> queue_phase" where
  "dispatch_pick cfg turn st =
     (if turn_busy turn then PhaseWait
      else case ListPromptQueues (qc_bytes cfg) st of
        Inl _ \<Rightarrow> PhaseWait
      | Inr queues \<Rightarrow> (case select_candidate queues of None \<Rightarrow> PhaseWait | Some queue \<Rightarrow> PhasePicked queue))"

definition dispatch_claim :: "queue_config \<Rightarrow> string option \<Rightarrow> time \<Rightarrow> prompt_queue \<Rightarrow> queue_store \<Rightarrow> queue_phase \<times> queue_store" where
  "dispatch_claim cfg io now queue st =
     (case try_save cfg io now (claimed_queue now queue) st of
        SaveOk st' \<Rightarrow> (PhaseClaimed (pq_SessionID queue) (qp_ID (hd (pq_Items queue))), st')
      | _ \<Rightarrow> (PhaseWait, st))"

text \<open>What a step did to an item, for the properties of histories.\<close>

datatype queue_label =
    Silent
  | ItemAdmitted string string
  | ItemWithdrawn string string
  | TurnStarted string string
  | RunlessBlock string string
  | BranchMoved string

text \<open>The item a successful mutation admits to dispatch (enqueue, retry) or withdraws (remove, guide).\<close>

definition mutation_label :: "queue_mutation \<Rightarrow> queue_label" where
  "mutation_label m = (let op = TrimSpace (qm_Operation m) in
     if op = ''enqueue'' then ItemAdmitted (qm_SessionID m) (TrimSpace (qp_ID (qm_Item m)))
     else if op = ''retry'' then ItemAdmitted (qm_SessionID m) (TrimSpace (qm_ItemID m))
     else if op = ''remove'' \<or> op = ''guide'' then ItemWithdrawn (qm_SessionID m) (TrimSpace (qm_ItemID m))
     else Silent)"

definition written_label :: "queue_mutation \<Rightarrow> queue_store \<Rightarrow> queue_store \<Rightarrow> queue_label" where
  "written_label m st st' = (if qs_rows st' = qs_rows st then Silent else mutation_label m)"

definition names_item :: "session_block \<Rightarrow> bool" where
  "names_item block \<longleftrightarrow> block_items [block] \<noteq> []"

text \<open>
  \<open>block_recorded\<close> tells a block with no run recorded before it (\<open>RunlessBlock\<close>), and \<open>branch_moved\<close> is
  the navigation of a client to another entry of the session's graph.
  \<open>crash\<close> can strike at every moment and loses all that is not in the store; \<open>environment\<close> is what
  the rest of the service does to the live turn, the sessions and their transcripts.
\<close>

inductive queue_step :: "queue_config \<Rightarrow> queue_system \<Rightarrow> queue_label \<Rightarrow> queue_system \<Rightarrow> bool" for cfg where
  mutation_begins: "begin_mutation cfg m0 (sy_store s) = Inr (m, current) \<Longrightarrow>
     queue_step cfg s Silent (s\<lparr>sy_calls := sy_calls s @ [MutationCall m current]\<rparr>)"
| mutation_ends: "sy_calls s = xs @ MutationCall m current # ys \<Longrightarrow>
     finish_mutation cfg io now m current (sy_turn s, sy_store s) = ((r, wake), turn', st') \<Longrightarrow>
     queue_step cfg s (written_label m (sy_store s) st')
       (s\<lparr>sy_calls := xs @ ys, sy_turn := turn', sy_store := st', sy_wake := sy_wake s \<or> wake\<rparr>)"
| pause_begins: "queue_step cfg s Silent
     (s\<lparr>sy_calls := sy_calls s @ pause_pass cfg sessionID reason 4 (sy_store s)\<rparr>)"
| pause_ends: "sy_calls s = xs @ PauseCall sessionID reason n queue # ys \<Longrightarrow>
     pause_write cfg io now sessionID reason n queue (sy_store s) = (calls, st') \<Longrightarrow>
     queue_step cfg s Silent (s\<lparr>sy_calls := xs @ calls @ ys, sy_store := st'\<rparr>)"
| reconcile_begins: "sy_phase s = PhaseStartup \<Longrightarrow>
     ListPromptQueues (qc_bytes cfg) (sy_store s) = Inr queues \<Longrightarrow>
     queue_step cfg s Silent (s\<lparr>sy_phase := PhaseReconcile (QueueItemRuns (sy_metadata s)) queues\<rparr>)"
| reconcile_ends: "sy_phase s = PhaseStartup \<or> (\<exists>durable queues. sy_phase s = PhaseReconcile durable queues) \<Longrightarrow>
     queue_step cfg s Silent (s\<lparr>sy_phase := PhaseWait\<rparr>)"
| reconciles_queue: "sy_phase s = PhaseReconcile durable (queue # queues) \<Longrightarrow>
     reconcile_write cfg io now durable queue queues (sy_store s) = (phase', st') \<Longrightarrow>
     queue_step cfg s Silent (s\<lparr>sy_phase := phase', sy_store := st'\<rparr>)"
| wakes: "sy_phase s = PhaseWait \<Longrightarrow> sy_wake s \<Longrightarrow>
     queue_step cfg s Silent (s\<lparr>sy_phase := PhaseDispatch, sy_wake := False\<rparr>)"
| picks: "sy_phase s = PhaseDispatch \<Longrightarrow>
     queue_step cfg s Silent (s\<lparr>sy_phase := dispatch_pick cfg (sy_turn s) (sy_store s)\<rparr>)"
| pick_fails: "sy_phase s = PhaseDispatch \<Longrightarrow> queue_step cfg s Silent (s\<lparr>sy_phase := PhaseWait\<rparr>)"
| claims: "sy_phase s = PhasePicked queue \<Longrightarrow>
     dispatch_claim cfg io now queue (sy_store s) = (phase', st') \<Longrightarrow>
     queue_step cfg s Silent (s\<lparr>sy_phase := phase', sy_store := st'\<rparr>)"
| start_refused: "sy_phase s = PhaseClaimed sid iid \<Longrightarrow>
     queue_step cfg s Silent (s\<lparr>sy_phase := settle_pass cfg SettleReset now sid iid 4 (sy_store s)\<rparr>)"
| start_fails: "sy_phase s = PhaseClaimed sid iid \<or> sy_phase s = PhaseRecorded sid iid \<Longrightarrow>
     queue_step cfg s Silent (s\<lparr>sy_phase := settle_pass cfg (SettleFail reason) now sid iid 4 (sy_store s)\<rparr>)"
| run_recorded: "sy_phase s = PhaseClaimed sid iid \<or> sy_phase s = PhaseRecorded sid iid \<Longrightarrow>
     queue_step cfg s Silent (s\<lparr>sy_metadata := sy_metadata s @ [(sid, iid)], sy_phase := PhaseRecorded sid iid\<rparr>)"
| block_recorded: "sy_phase s = PhaseClaimed sid iid \<or> sy_phase s = PhaseRecorded sid iid \<Longrightarrow>
     map_of (sb_Data block) ''queueItemId'' = Some iid \<Longrightarrow>
     queue_step cfg s (if sy_phase s = PhaseClaimed sid iid then RunlessBlock sid iid else Silent)
       (s\<lparr>sy_store := snd (append_block sid block (sy_store s)), sy_phase := PhaseRecorded sid iid\<rparr>)"
| starts: "sy_phase s = PhaseRecorded sid iid \<Longrightarrow>
     queue_step cfg s (TurnStarted sid iid)
       (s\<lparr>sy_phase := settle_pass cfg (SettleConsume runID) now sid iid 4 (sy_store s)\<rparr>)"
| settles: "sy_phase s = PhaseSettling how sid iid n queue \<Longrightarrow>
     settle_write cfg io now how sid iid n queue (sy_store s) = (phase', st') \<Longrightarrow>
     queue_step cfg s Silent (s\<lparr>sy_phase := phase', sy_store := st'\<rparr>)"
| environment: "queue_step cfg s Silent (s\<lparr>sy_turn := turn', sy_wake := sy_wake s \<or> wake\<rparr>)"
| session_created: "queue_step cfg s Silent
     (s\<lparr>sy_store := (sy_store s)\<lparr>qs_sessions := sid # qs_sessions (sy_store s)\<rparr>\<rparr>)"
| transcript_grows: "\<not> names_item block \<Longrightarrow>
     queue_step cfg s Silent (s\<lparr>sy_store := snd (append_block sid block (sy_store s))\<rparr>)"
| branch_moved: "queue_step cfg s (BranchMoved sid)
     (s\<lparr>sy_store := (sy_store s)\<lparr>qs_branch := (qs_branch (sy_store s))(sid := branch)\<rparr>\<rparr>)"
| crash: "queue_step cfg s Silent
     (s\<lparr>sy_turn := idle_turn, sy_calls := [], sy_phase := PhaseStartup, sy_wake := True\<rparr>)"

definition queue_start :: queue_system where
  "queue_start = \<lparr>sy_store = \<lparr>qs_sessions = [], qs_rows = [], qs_blocks = (\<lambda>_. []), qs_branch = (\<lambda>_. [])\<rparr>, sy_turn = idle_turn,
     sy_metadata = [], sy_calls = [], sy_phase = PhaseStartup, sy_wake = True\<rparr>"

inductive queue_history :: "queue_config \<Rightarrow> queue_label list \<Rightarrow> queue_system \<Rightarrow> bool" for cfg where
  history_empty: "queue_history cfg [] queue_start"
| history_step: "queue_history cfg ls s \<Longrightarrow> queue_step cfg s l s' \<Longrightarrow> queue_history cfg (ls @ [l]) s'"

section \<open>Validity of a queue\<close>

definition item_ok :: "queued_prompt \<Rightarrow> bool" where
  "item_ok item \<longleftrightarrow> validate_queue_item [] item = None"

lemma validate_queue_item_None:
  "validate_queue_item ids item = None \<longleftrightarrow> item_ok item \<and> TrimSpace (qp_ID item) \<notin> set ids"
  by (auto simp: item_ok_def validate_queue_item_def Let_def split: option.splits prompt_state.splits)

lemma validate_queue_items_None:
  "validate_queue_items ids items = None \<longleftrightarrow>
     list_all item_ok items \<and> distinct (map (TrimSpace \<circ> qp_ID) items) \<and>
     set ids \<inter> set (map (TrimSpace \<circ> qp_ID) items) = {}"
proof (induction ids items rule: validate_queue_items.induct)
  case (2 ids item items)
  show ?case
  proof (cases "validate_queue_item ids item")
    case None
    then have "item_ok item" "TrimSpace (qp_ID item) \<notin> set ids"
      by (simp_all add: validate_queue_item_None)
    then show ?thesis using 2 [OF None] by (auto simp: None)
  next
    case (Some e)
    then have "\<not> (item_ok item \<and> TrimSpace (qp_ID item) \<notin> set ids)"
      using validate_queue_item_None [of ids item] by auto
    then show ?thesis by (auto simp: Some)
  qed
qed simp

lemma validatePromptQueue_None:
  "validatePromptQueue q = None \<longleftrightarrow> pq_Version q = PromptQueueVersion \<and> \<not> blank (pq_SessionID q) \<and>
     0 \<le> pq_Revision q \<and> (pq_State q = PromptQueueActive \<or> pq_State q = PromptQueuePaused) \<and>
     length (pq_Items q) \<le> MaxPromptQueueItems \<and> list_all item_ok (pq_Items q) \<and>
     distinct (map (TrimSpace \<circ> qp_ID) (pq_Items q))"
  by (auto simp: validatePromptQueue_def validate_queue_items_None)

lemma id_char_printable: "id_char c \<Longrightarrow> printable c"
  by (auto simp: id_char_def printable_def Let_def)

lemma item_ok_id: "item_ok item \<Longrightarrow> TrimSpace (TrimSpace (qp_ID item)) = TrimSpace (qp_ID item) \<and> TrimSpace (qp_ID item) \<noteq> []"
  by (auto simp: item_ok_def validate_queue_item_def Let_def validPromptQueueItemID_def split: if_splits)

section \<open>The store\<close>

definition row_items :: "queue_store \<Rightarrow> string \<Rightarrow> queued_prompt list" where
  "row_items st sid = (case tget (qs_rows st) sid of None \<Rightarrow> [] | Some row \<Rightarrow> qr_Items row)"

definition row_revision :: "queue_store \<Rightarrow> string \<Rightarrow> int" where
  "row_revision st sid = (case tget (qs_rows st) sid of None \<Rightarrow> 0 | Some row \<Rightarrow> qr_Revision row)"

definition row_queue :: "string \<Rightarrow> queue_row \<Rightarrow> prompt_queue" where
  "row_queue sid row = \<lparr>pq_Version = PromptQueueVersion, pq_SessionID = sid,
     pq_Revision = qr_Revision row, pq_State = qr_State row, pq_PauseReason = qr_PauseReason row,
     pq_Items = qr_Items row, pq_UpdatedAt = qr_UpdatedAt row\<rparr>"

definition queue_row_ok :: "doc_size \<Rightarrow> string \<Rightarrow> queue_row \<Rightarrow> bool" where
  "queue_row_ok bytes sid row \<longleftrightarrow> TrimSpace sid = sid \<and> 1 \<le> qr_Revision row \<and> qr_Revision row < 2 ^ 63 \<and>
     bytes (qr_Items row) \<le> MaxPromptQueueDocument \<and> validatePromptQueue (row_queue sid row) = None"

definition rows_ok :: "doc_size \<Rightarrow> queue_store \<Rightarrow> bool" where
  "rows_ok bytes st \<longleftrightarrow> table_ok (qs_rows st) \<and> (\<forall>sid row. tget (qs_rows st) sid = Some row \<longrightarrow> queue_row_ok bytes sid row)"

lemma decode_row_ok: "queue_row_ok bytes sid row \<Longrightarrow> decodePromptQueueRow bytes sid row = Inr (row_queue sid row)"
  by (simp add: queue_row_ok_def decodePromptQueueRow_def row_queue_def)

lemma load_ok:
  assumes "rows_ok bytes st" and "\<not> blank sid"
  shows "\<exists>q. LoadPromptQueue bytes sid st = Inr q \<and> pq_SessionID q = TrimSpace sid \<and>
    pq_Items q = row_items st (TrimSpace sid) \<and> pq_Revision q = row_revision st (TrimSpace sid) \<and>
    validatePromptQueue q = None"
proof (cases "tget (qs_rows st) (TrimSpace sid)")
  case None
  with assms(2) show ?thesis
    by (simp add: LoadPromptQueue_def loadPromptQueueWithQueries_def blank_def emptyPromptQueue_def
      row_items_def row_revision_def validatePromptQueue_None MaxPromptQueueItems_def)
next
  case (Some row)
  with assms have "queue_row_ok bytes (TrimSpace sid) row" by (simp add: rows_ok_def)
  with Some assms(2) show ?thesis
    by (simp add: LoadPromptQueue_def loadPromptQueueWithQueries_def blank_def decode_row_ok
      row_items_def row_revision_def) (simp add: row_queue_def queue_row_ok_def)
qed

text \<open>What a successful save has checked and done.\<close>

lemma queue_save_Inr:
  assumes "savePromptQueueCAS bytes io now sid0 expected q g st = (Inr (saved, seq), st')"
    and "rows_ok bytes st"
  defines "sid \<equiv> TrimSpace sid0"
  shows "sid \<noteq> []" and "0 \<le> expected" and "row_revision st sid = expected"
    and "row_revision st' sid = expected + 1" and "row_items st' sid = pq_Items q"
    and "pq_Items saved = pq_Items q" and "pq_Revision saved = expected + 1" and "pq_SessionID saved = sid"
    and "\<And>k. k \<noteq> sid \<Longrightarrow> tget (qs_rows st') k = tget (qs_rows st) k"
    and "qs_sessions st' = qs_sessions st"
    and "rows_ok bytes st'" and "list_all item_ok (pq_Items q)"
    and "distinct (map (TrimSpace \<circ> qp_ID) (pq_Items q))"
    and "g = None \<Longrightarrow> qs_blocks st' = qs_blocks st \<and> qs_branch st' = qs_branch st"
    and "g = Some block \<Longrightarrow> st' = snd (append_block sid block (st\<lparr>qs_rows := qs_rows st'\<rparr>)) \<and>
       seq = fst (append_block sid block (st\<lparr>qs_rows := qs_rows st'\<rparr>))"
proof -
  define queue where "queue = q\<lparr>pq_Version := PromptQueueVersion, pq_SessionID := sid,
              pq_Revision := s64_wrap (expected + 1), pq_UpdatedAt := now,
              pq_State := (if pq_State q = PromptQueueOther [] then PromptQueueActive
                           else pq_State q)\<rparr>"
  define row where "row = \<lparr>qr_Revision = pq_Revision queue, qr_State = pq_State queue,
              qr_PauseReason = pq_PauseReason queue, qr_Items = pq_Items queue, qr_UpdatedAt = now\<rparr>"
  define written where "written = (if expected = 0
              then tinsert_ignore (\<lambda>_. False) sid row (qs_rows st)
              else tupdate_where sid (\<lambda>old. qr_Revision old = expected) row (qs_rows st))"
  have facts: "sid \<noteq> []" "0 \<le> expected" "validatePromptQueue queue = None" "\<not> bytes (pq_Items queue) > MaxPromptQueueDocument"
    "fst written \<noteq> 0" "saved = queue"
    "case g of None \<Rightarrow> st' = st\<lparr>qs_rows := snd written\<rparr> | Some b \<Rightarrow> (seq, st') = append_block sid b (st\<lparr>qs_rows := snd written\<rparr>)"
    using assms(1) unfolding savePromptQueueCAS_def Let_def sid_def [symmetric] queue_def [symmetric] row_def [symmetric] written_def [symmetric]
    by (auto split: if_splits option.splits sum.splits prod.splits)
  show "sid \<noteq> []" "0 \<le> expected" by (rule facts)+
  show rev: "row_revision st sid = expected"
    using facts(5) unfolding written_def row_revision_def
    by (auto simp: tinsert_ignore_def tupdate_where_def split: if_splits option.splits)
  have put: "snd written = tput sid row (qs_rows st)"
    using facts(5) unfolding written_def
    by (auto simp: tinsert_ignore_def tupdate_where_def split: if_splits option.splits)
  have rows': "qs_rows st' = tput sid row (qs_rows st)" and "qs_sessions st' = qs_sessions st"
    using facts(7) put by (auto simp: append_block_def Let_def split: option.splits)
  show "qs_sessions st' = qs_sessions st" by fact
  show "\<And>k. k \<noteq> sid \<Longrightarrow> tget (qs_rows st') k = tget (qs_rows st) k" by (simp add: rows')
  have lt: "expected < 2 ^ 63"
  proof (cases "tget (qs_rows st) sid")
    case None
    with rev show ?thesis by (simp add: row_revision_def)
  next
    case (Some r)
    with assms(2) have "queue_row_ok bytes sid r" by (simp add: rows_ok_def)
    with rev Some show ?thesis by (simp add: row_revision_def queue_row_ok_def)
  qed
  have "0 \<le> s64_wrap (expected + 1)" using facts(3) by (simp add: validatePromptQueue_None queue_def)
  with lt facts(2) have wrap: "s64_wrap (expected + 1) = expected + 1 \<and> expected + 1 < 2 ^ 63"
    by (cases "expected + 1 = 2 ^ 63") (auto simp: s64_wrap_def s64_wrap_id [unfolded s64_wrap_def])
  then show "row_revision st' sid = expected + 1"
    by (simp add: row_revision_def rows' row_def queue_def)
  show "row_items st' sid = pq_Items q" by (simp add: row_items_def rows' row_def queue_def)
  show "pq_Items saved = pq_Items q" "pq_Revision saved = expected + 1" "pq_SessionID saved = sid"
    using wrap by (simp_all add: facts(6) queue_def)
  show "list_all item_ok (pq_Items q)" "distinct (map (TrimSpace \<circ> qp_ID) (pq_Items q))"
    using facts(3) by (simp_all add: validatePromptQueue_None queue_def)
  have "queue_row_ok bytes sid row"
    using facts(2,3,4) wrap unfolding queue_row_ok_def validatePromptQueue_None
    by (simp add: row_def row_queue_def queue_def sid_def)
  then show "rows_ok bytes st'" using assms(2) by (auto simp: rows_ok_def rows')
  show "g = None \<Longrightarrow> qs_blocks st' = qs_blocks st \<and> qs_branch st' = qs_branch st" using facts(7) by simp
  show "g = Some block \<Longrightarrow> st' = snd (append_block sid block (st\<lparr>qs_rows := qs_rows st'\<rparr>)) \<and>
       seq = fst (append_block sid block (st\<lparr>qs_rows := qs_rows st'\<rparr>))"
    using facts(7) by (simp add: rows' put) (metis fst_conv snd_conv)
qed

lemma queue_save_Inl: "savePromptQueueCAS bytes io now sid0 expected q g st = (Inl e, st') \<Longrightarrow> st' = st"
  by (auto simp: savePromptQueueCAS_def Let_def split: if_splits option.splits sum.splits prod.splits)

section \<open>Positions in a queue\<close>

lemma promptQueueItemIndex_from_Some:
  "promptQueueItemIndex_from n items iid = Some i \<Longrightarrow>
     n \<le> i \<and> i - n < length items \<and> qp_ID (items ! (i - n)) = iid \<and> (\<forall>j < i - n. qp_ID (items ! j) \<noteq> iid)"
proof (induction n items iid rule: promptQueueItemIndex_from.induct)
  case (2 n item items iid)
  show ?case
  proof (cases "qp_ID item = iid")
    case True
    with 2(2) show ?thesis by simp
  next
    case False
    with 2 have "Suc n \<le> i" "i - Suc n < length items" "qp_ID (items ! (i - Suc n)) = iid"
      "\<forall>j < i - Suc n. qp_ID (items ! j) \<noteq> iid" by auto
    moreover from this have "i - n = Suc (i - Suc n)" by simp
    ultimately show ?thesis using False by (auto simp: nth_Cons split: nat.splits)
  qed
qed simp

lemma promptQueueItemIndex_from_None:
  "promptQueueItemIndex_from n items iid = None \<longleftrightarrow> iid \<notin> qp_ID ` set items"
  by (induction n items iid rule: promptQueueItemIndex_from.induct) auto

lemma index_Some:
  assumes "promptQueueItemIndex items iid = Some i"
  shows "i < length items" and "qp_ID (items ! i) = TrimSpace iid" and "\<forall>j < i. qp_ID (items ! j) \<noteq> TrimSpace iid"
  using promptQueueItemIndex_from_Some [of 0 items "TrimSpace iid" i] assms
  by (simp_all add: promptQueueItemIndex_def)

lemma index_None: "promptQueueItemIndex items iid = None \<longleftrightarrow> TrimSpace iid \<notin> qp_ID ` set items"
  by (simp add: promptQueueItemIndex_def promptQueueItemIndex_from_None)

lemma split_at: "i < length xs \<Longrightarrow> xs = take i xs @ xs ! i # drop (Suc i) xs"
  by (rule id_take_nth_drop)

lemma set_remove_at: "set (remove_at i xs) \<subseteq> set xs"
  by (auto simp: remove_at_def dest: in_set_takeD in_set_dropD)

lemma set_remove_at_keeps: "i < length xs \<Longrightarrow> set xs = insert (xs ! i) (set (remove_at i xs))"
  by (subst split_at) (auto simp: remove_at_def)

lemma filter_remove_at: "i < length xs \<Longrightarrow> \<not> P (xs ! i) \<Longrightarrow> filter P (remove_at i xs) = filter P xs"
  using arg_cong [OF split_at [of i xs], of "filter P"] by (simp add: remove_at_def)

lemma filter_update_at: "i < length xs \<Longrightarrow> \<not> P (xs ! i) \<Longrightarrow> \<not> P y \<Longrightarrow> filter P (xs[i := y]) = filter P xs"
  using arg_cong [OF split_at [of i xs], of "filter P"] by (simp add: upd_conv_take_nth_drop)

lemma set_insert_at: "set (insert_at i x xs) = insert x (set xs)"
proof -
  have "set xs = set (take i xs) \<union> set (drop i xs)" by (metis append_take_drop_id set_append)
  then show ?thesis by (simp add: insert_at_def)
qed

lemma filter_insert_at: "\<not> P x \<Longrightarrow> filter P (insert_at i x xs) = filter P xs"
  by (simp add: insert_at_def) (metis append_take_drop_id filter_append)

lemma map_update_at: "i < length xs \<Longrightarrow> f y = f (xs ! i) \<Longrightarrow> map f (xs[i := y]) = map f xs"
  by (simp add: map_update list_update_same_conv)

lemma map_remove_at: "map f (remove_at i xs) = remove_at i (map f xs)"
  by (simp add: remove_at_def take_map drop_map)

lemma map_insert_at: "map f (insert_at i x xs) = insert_at i (f x) (map f xs)"
  by (simp add: insert_at_def take_map drop_map)

lemma remove_at_first: "i < length xs \<Longrightarrow> \<forall>j < i. xs ! j \<noteq> xs ! i \<Longrightarrow> remove_at i xs = remove1 (xs ! i) xs"
proof (induction xs arbitrary: i)
  case (Cons x xs)
  show ?case
  proof (cases i)
    case 0
    then show ?thesis by (simp add: remove_at_def)
  next
    case (Suc k)
    with Cons.prems have "x \<noteq> xs ! k" "\<forall>j < k. xs ! j \<noteq> xs ! k" by auto
    with Cons Suc show ?thesis by (simp add: remove_at_def)
  qed
qed simp

lemma insert_at_first:
  "i < length xs \<Longrightarrow> \<forall>j < i. xs ! j \<noteq> xs ! i \<Longrightarrow>
     insert_at i x xs = takeWhile (\<lambda>y. y \<noteq> xs ! i) xs @ x # dropWhile (\<lambda>y. y \<noteq> xs ! i) xs"
proof (induction xs arbitrary: i)
  case (Cons y xs)
  show ?case
  proof (cases i)
    case 0
    then show ?thesis by (simp add: insert_at_def)
  next
    case (Suc k)
    with Cons.prems have "y \<noteq> xs ! k" "\<forall>j < k. xs ! j \<noteq> xs ! k" by auto
    with Cons Suc show ?thesis by (simp add: insert_at_def)
  qed
qed simp

section \<open>What mutations do to the items\<close>

definition dispatching :: "queued_prompt \<Rightarrow> bool" where
  "dispatching item \<longleftrightarrow> qp_State item = QueuedPromptDispatching"

lemma editable_not_dispatching: "editableQueuedPrompt (qp_State item) \<Longrightarrow> \<not> dispatching item"
  by (auto simp: editableQueuedPrompt_def dispatching_def)

text \<open>The effect of a mutation on the sequence of item ids.\<close>

definition id_effect :: "queue_mutation \<Rightarrow> string list \<Rightarrow> string list" where
  "id_effect m ids =
     (let op = TrimSpace (qm_Operation m); target = TrimSpace (qm_ItemID m); before = TrimSpace (qm_BeforeID m);
          rest = remove1 target ids
      in if op = ''enqueue'' then ids @ [TrimSpace (qp_ID (qm_Item m))]
         else if op = ''remove'' \<or> op = ''guide'' then rest
         else if op = ''reorder'' then
           (if qm_BeforeID m = [] then rest @ [target]
            else takeWhile (\<lambda>i. i \<noteq> before) rest @ target # dropWhile (\<lambda>i. i \<noteq> before) rest)
         else ids)"

lemma ids_remove_at:
  assumes "promptQueueItemIndex items iid = Some i"
  shows "map qp_ID (remove_at i items) = remove1 (TrimSpace iid) (map qp_ID items)"
  using index_Some [OF assms] remove_at_first [of i "map qp_ID items"]
  by (simp add: map_remove_at)

lemma ids_insert_at:
  assumes "promptQueueItemIndex items iid = Some i"
  shows "map qp_ID (insert_at i x items) =
    takeWhile (\<lambda>y. y \<noteq> TrimSpace iid) (map qp_ID items) @ qp_ID x # dropWhile (\<lambda>y. y \<noteq> TrimSpace iid) (map qp_ID items)"
  using index_Some [OF assms] insert_at_first [of i "map qp_ID items" "qp_ID x"]
  by (simp add: map_insert_at)

text \<open>How the items of the queue to save arise from the items read.\<close>

definition mutates :: "queue_mutation \<Rightarrow> queued_prompt list \<Rightarrow> queued_prompt list \<Rightarrow> bool" where
  "mutates m items items' \<longleftrightarrow>
     map qp_ID items' = id_effect m (map qp_ID items) \<and>
     filter dispatching items' = filter dispatching items \<and>
     (\<forall>item' \<in> set items'.
        (\<exists>item \<in> set items. qp_ID item = qp_ID item' \<and> qp_State item = qp_State item') \<or>
        mutation_label m = ItemAdmitted (qm_SessionID m) (qp_ID item') \<and> qp_State item' = QueuedPromptQueued) \<and>
     (\<forall>sid iid. mutation_label m = ItemAdmitted sid iid \<longrightarrow>
        sid = qm_SessionID m \<and> iid \<in> qp_ID ` set items' \<and> TrimSpace iid = iid)"

lemma enqueue_mutates:
  "enqueue_plan cfg now m q = PlanSave q' wake \<Longrightarrow> TrimSpace (qm_Operation m) = ''enqueue'' \<Longrightarrow>
     mutates m (pq_Items q) (pq_Items q') \<and> pq_SessionID q' = pq_SessionID q \<and> pq_Revision q' = pq_Revision q"
  by (auto simp: enqueue_plan_def mutates_def id_effect_def mutation_label_def dispatching_def Let_def
      split: if_splits option.splits)

lemma update_mutates:
  assumes "update_plan cfg now m q = PlanSave q' wake" and op: "TrimSpace (qm_Operation m) = ''update''"
  shows "mutates m (pq_Items q) (pq_Items q') \<and> pq_SessionID q' = pq_SessionID q \<and> pq_Revision q' = pq_Revision q"
proof -
  obtain i where i: "promptQueueItemIndex (pq_Items q) (firstNonempty [qm_ItemID m, qp_ID (qm_Item m)]) = Some i"
    and ed: "editableQueuedPrompt (qp_State (pq_Items q ! i))"
    and q': "q' = q\<lparr>pq_Items := (pq_Items q)[i := (pq_Items q ! i)
              \<lparr>qp_Text := TrimSpace (qp_Text (qm_Item m)), qp_Attachments := qp_Attachments (qm_Item m),
               qp_UpdatedAt := now\<rparr>]\<rparr>"
    using assms(1) by (auto simp: update_plan_def split: if_splits option.splits)
  note len = index_Some(1) [OF i]
  show ?thesis using len editable_not_dispatching [OF ed] op unfolding mutates_def q'
    by (auto simp: id_effect_def mutation_label_def map_update_at filter_update_at dispatching_def Let_def
        dest!: subsetD [OF set_update_subset_insert])
qed

lemma retry_mutates:
  assumes "retry_plan now m q = PlanSave q' wake" and op: "TrimSpace (qm_Operation m) = ''retry''"
    and "\<forall>item \<in> set (pq_Items q). TrimSpace (qp_ID item) = qp_ID item"
  shows "mutates m (pq_Items q) (pq_Items q') \<and> pq_SessionID q' = pq_SessionID q \<and> pq_Revision q' = pq_Revision q"
proof -
  obtain i where i: "promptQueueItemIndex (pq_Items q) (qm_ItemID m) = Some i"
    and st: "qp_State (pq_Items q ! i) = QueuedPromptFailed"
    and q': "q' = q\<lparr>pq_Items := (pq_Items q)[i := (pq_Items q ! i)
       \<lparr>qp_State := QueuedPromptQueued, qp_RunID := [], qp_Error := [], qp_UpdatedAt := now\<rparr>]\<rparr>"
    using assms(1) by (auto simp: retry_plan_def split: if_splits option.splits)
  note ix = index_Some(1,2) [OF i]
  have "qp_ID (pq_Items q ! i) \<in> qp_ID ` set (pq_Items q)" by (rule imageI) (rule nth_mem [OF ix(1)])
  then have "TrimSpace (qm_ItemID m) \<in> qp_ID ` set (pq_Items q')"
    using ix unfolding q' by (simp add: map_update_at flip: set_map)
  then show ?thesis using ix st op unfolding mutates_def q'
    by (auto simp: id_effect_def mutation_label_def map_update_at filter_update_at dispatching_def Let_def
        dest!: subsetD [OF set_update_subset_insert])
qed

lemma remove_mutates:
  assumes i: "promptQueueItemIndex (pq_Items q) (qm_ItemID m) = Some i"
    and ed: "editableQueuedPrompt (qp_State (pq_Items q ! i))"
    and op: "TrimSpace (qm_Operation m) = ''remove'' \<or> TrimSpace (qm_Operation m) = ''guide''"
  shows "mutates m (pq_Items q) (remove_at i (pq_Items q))"
  using index_Some(1) [OF i] editable_not_dispatching [OF ed] op ids_remove_at [OF i] unfolding mutates_def
  by (auto simp: id_effect_def mutation_label_def filter_remove_at Let_def dest: subsetD [OF set_remove_at])

lemma reorder_mutates:
  assumes "reorder_plan now m q = PlanSave q' wake" and op: "TrimSpace (qm_Operation m) = ''reorder''"
  shows "mutates m (pq_Items q) (pq_Items q') \<and> pq_SessionID q' = pq_SessionID q \<and> pq_Revision q' = pq_Revision q"
proof -
  obtain i b where i: "promptQueueItemIndex (pq_Items q) (qm_ItemID m) = Some i"
    and ed: "editableQueuedPrompt (qp_State (pq_Items q ! i))"
    and b: "(if qm_BeforeID m = [] then Some (length (remove_at i (pq_Items q)))
       else promptQueueItemIndex (remove_at i (pq_Items q)) (qm_BeforeID m)) = Some b"
    and q': "q' = q\<lparr>pq_Items := insert_at b ((pq_Items q ! i)\<lparr>qp_UpdatedAt := now\<rparr>) (remove_at i (pq_Items q))\<rparr>"
    using assms(1) by (auto simp: reorder_plan_def Let_def split: if_splits option.splits)
  note ix = index_Some(1,2) [OF i]
  let ?x = "(pq_Items q ! i)\<lparr>qp_UpdatedAt := now\<rparr>" and ?rest = "remove_at i (pq_Items q)"
  have x: "qp_ID ?x = TrimSpace (qm_ItemID m)" "\<not> dispatching ?x" "qp_State ?x = qp_State (pq_Items q ! i)"
    using ix editable_not_dispatching [OF ed] by (simp_all add: dispatching_def)
  have "map qp_ID (insert_at b ?x ?rest) = id_effect m (map qp_ID (pq_Items q))"
  proof (cases "qm_BeforeID m = []")
    case True
    with b have "insert_at b ?x ?rest = ?rest @ [?x]" by (simp add: insert_at_def)
    with True op x(1) ids_remove_at [OF i] show ?thesis by (simp add: id_effect_def Let_def)
  next
    case False
    with b have "promptQueueItemIndex ?rest (qm_BeforeID m) = Some b" by simp
    from ids_insert_at [OF this, of ?x] False op x(1) ids_remove_at [OF i] show ?thesis
      by (simp add: id_effect_def Let_def)
  qed
  moreover have "filter dispatching (insert_at b ?x ?rest) = filter dispatching (pq_Items q)"
    using x(2) ix(1) editable_not_dispatching [OF ed] by (simp add: filter_insert_at filter_remove_at)
  moreover have "\<forall>item' \<in> set (insert_at b ?x ?rest).
      \<exists>item \<in> set (pq_Items q). qp_ID item = qp_ID item' \<and> qp_State item = qp_State item'"
    using ix(1) by (auto simp: set_insert_at dest: subsetD [OF set_remove_at])
  ultimately show ?thesis using op unfolding mutates_def q' by (simp add: mutation_label_def Let_def)
qed

lemma mutation_plan_mutates:
  assumes "mutation_plan cfg now m q = PlanSave q' wake"
    and "\<forall>item \<in> set (pq_Items q). TrimSpace (qp_ID item) = qp_ID item"
  shows "mutates m (pq_Items q) (pq_Items q') \<and> pq_SessionID q' = pq_SessionID q \<and> pq_Revision q' = pq_Revision q"
proof -
  let ?op = "TrimSpace (qm_Operation m)"
  have same: "mutates m items items" if "?op = ''pause'' \<or> ?op = ''resume''" for items
    using that by (auto simp: mutates_def id_effect_def mutation_label_def Let_def)
  consider "?op = ''enqueue''" | "?op = ''update''" | "?op = ''remove''" | "?op = ''reorder''" | "?op = ''retry''"
    | "?op = ''pause''" | "?op = ''resume''"
    using assms(1) by (auto simp: mutation_plan_def Let_def split: if_splits)
  then show ?thesis
  proof cases
    case 1
    with assms(1) enqueue_mutates show ?thesis by (simp add: mutation_plan_def)
  next
    case 2
    with assms(1) update_mutates show ?thesis by (simp add: mutation_plan_def)
  next
    case 3
    with assms(1) obtain i where i: "promptQueueItemIndex (pq_Items q) (qm_ItemID m) = Some i"
      "editableQueuedPrompt (qp_State (pq_Items q ! i))" "q' = q\<lparr>pq_Items := remove_at i (pq_Items q)\<rparr>"
      by (auto simp: mutation_plan_def remove_plan_def Let_def split: if_splits option.splits)
    with remove_mutates [OF i(1,2)] 3 show ?thesis by simp
  next
    case 4
    with assms(1) reorder_mutates show ?thesis by (simp add: mutation_plan_def)
  next
    case 5
    with assms retry_mutates show ?thesis by (simp add: mutation_plan_def)
  next
    case 6
    with assms(1) same show ?thesis by (auto simp: mutation_plan_def Let_def)
  next
    case 7
    with assms(1) same show ?thesis by (auto simp: mutation_plan_def Let_def)
  qed
qed

end
