(* ===== verification/Prompt_Queue_Invariant.thy ===== *)
theory Prompt_Queue_Invariant
  imports Prompt_Queue
begin

text \<open>
  The invariant of the prompt queues: queues that were read stay related to the rows they were read
  from, every write goes through one compare-and-swap, and over every history the turns and the
  admissions of an item are counted against each other.
\<close>

section \<open>Snapshots and writes\<close>

text \<open>
  A queue that was read stays related to the store: the revision of its row only grows, and as long
  as it has not grown the items are still the ones that were read.
\<close>

definition snapshot :: "queue_store \<Rightarrow> prompt_queue \<Rightarrow> bool" where
  "snapshot st q \<longleftrightarrow> TrimSpace (pq_SessionID q) = pq_SessionID q \<and> pq_Revision q \<le> row_revision st (pq_SessionID q) \<and>
     (pq_Revision q = row_revision st (pq_SessionID q) \<longrightarrow> pq_Items q = row_items st (pq_SessionID q))"

definition stored_ok :: "doc_size \<Rightarrow> queue_store \<Rightarrow> bool" where
  "stored_ok bytes st \<longleftrightarrow> rows_ok bytes st \<and> (\<forall>sid. \<forall>item \<in> set (row_items st sid). TrimSpace (qp_ID item) = qp_ID item)"

text \<open>Transcripts only grow, and unless the branch of a session is moved so does what it shows.\<close>

definition visible_items :: "queue_store \<Rightarrow> string \<Rightarrow> string set" where
  "visible_items st sid = set (block_items (visible_blocks st sid))"

definition blocks_grow :: "queue_store \<Rightarrow> queue_store \<Rightarrow> bool" where
  "blocks_grow st st' \<longleftrightarrow> (\<forall>k. set (block_items (qs_blocks st k)) \<subseteq> set (block_items (qs_blocks st' k)))"

definition transcript_grows :: "queue_store \<Rightarrow> queue_store \<Rightarrow> bool" where
  "transcript_grows st st' \<longleftrightarrow> blocks_grow st st' \<and> (\<forall>k. visible_items st k \<subseteq> visible_items st' k)"

lemma transcript_same: "qs_blocks st' = qs_blocks st \<Longrightarrow> qs_branch st' = qs_branch st \<Longrightarrow> transcript_grows st st'"
  by (simp add: transcript_grows_def blocks_grow_def visible_items_def visible_blocks_def)

definition row_write :: "string \<Rightarrow> queued_prompt list \<Rightarrow> queue_store \<Rightarrow> queue_store \<Rightarrow> bool" where
  "row_write sid items st st' \<longleftrightarrow> TrimSpace sid = sid \<and> row_revision st' sid = row_revision st sid + 1 \<and> row_items st' sid = items \<and>
     (\<forall>k. k \<noteq> sid \<longrightarrow> tget (qs_rows st') k = tget (qs_rows st) k) \<and>
     transcript_grows st st'"

lemma row_write_other: "row_write sid items st st' \<Longrightarrow> k \<noteq> sid \<Longrightarrow> row_items st' k = row_items st k \<and> row_revision st' k = row_revision st k"
  by (simp add: row_write_def row_items_def row_revision_def)

lemma snapshot_write: "snapshot st q \<Longrightarrow> row_write sid items st st' \<Longrightarrow> snapshot st' q"
  using row_write_other [of sid items st st' "pq_SessionID q"]
  by (cases "pq_SessionID q = sid") (auto simp: snapshot_def row_write_def)

lemma block_items_append: "block_items (xs @ ys) = block_items xs @ block_items ys"
  by (simp add: block_items_def)

lemma block_items_mono: "set xs \<subseteq> set ys \<Longrightarrow> set (block_items xs) \<subseteq> set (block_items ys)"
  by (auto simp: block_items_def)

lemma append_block_rows:
  "qs_rows (snd (append_block sid b st)) = qs_rows st"
  "transcript_grows st (snd (append_block sid b st))"
proof -
  let ?st' = "snd (append_block sid b st)"
  show "qs_rows ?st' = qs_rows st" by (simp add: append_block_def Let_def)
  have "set (qs_blocks st k) \<subseteq> set (qs_blocks ?st' k)" "set (visible_blocks st k) \<subseteq> set (visible_blocks ?st' k)" for k
    by (auto simp: append_block_def Let_def visible_blocks_def)
  then show "transcript_grows st ?st'"
    using block_items_mono unfolding transcript_grows_def blocks_grow_def visible_items_def by blast
qed

lemma append_block_shows:
  "map_of (sb_Data block) ''queueItemId'' = Some iid \<Longrightarrow> iid \<noteq> [] \<Longrightarrow> iid \<in> visible_items (snd (append_block sid block st)) sid"
  by (simp add: append_block_def Let_def visible_items_def visible_blocks_def block_items_def)

lemma row_write_save:
  assumes "savePromptQueueCAS bytes io now sid expected q g st = (Inr (saved, seq), st')" and "stored_ok bytes st"
  shows "row_write (TrimSpace sid) (pq_Items q) st st'" and "row_revision st (TrimSpace sid) = expected"
    and "(\<And>item. item \<in> set (pq_Items q) \<Longrightarrow> TrimSpace (qp_ID item) = qp_ID item) \<Longrightarrow> stored_ok bytes st'"
proof -
  have r: "rows_ok bytes st" using assms(2) by (simp add: stored_ok_def)
  note save = queue_save_Inr [OF assms(1) r]
  have "transcript_grows st st'"
  proof (cases g)
    case None
    with save(14) show ?thesis by (simp add: transcript_same)
  next
    case (Some b)
    let ?st = "st\<lparr>qs_rows := qs_rows st'\<rparr>"
    have "transcript_grows ?st st'"
      using append_block_rows(2) [of ?st "TrimSpace sid" b] save(15) [OF Some] by metis
    then show ?thesis by (simp add: transcript_grows_def blocks_grow_def visible_items_def visible_blocks_def)
  qed
  with save show w: "row_write (TrimSpace sid) (pq_Items q) st st'" by (simp add: row_write_def)
  show "row_revision st (TrimSpace sid) = expected" by (rule save(3))
  assume t: "\<And>item. item \<in> set (pq_Items q) \<Longrightarrow> TrimSpace (qp_ID item) = qp_ID item"
  have "TrimSpace (qp_ID item) = qp_ID item" if "item \<in> set (row_items st' k)" for k item
    using that t assms(2) row_write_other [OF w, of k] save(5)
    by (cases "k = TrimSpace sid") (auto simp: stored_ok_def)
  with save(11) show "stored_ok bytes st'" by (simp add: stored_ok_def)
qed

lemma try_save_Ok:
  assumes "try_save cfg io now q' st = SaveOk st'" and "stored_ok (qc_bytes cfg) st"
    and "snapshot st q" and "pq_SessionID q' = pq_SessionID q" and "pq_Revision q' = pq_Revision q"
    and "\<And>item'. item' \<in> set (pq_Items q') \<Longrightarrow> \<exists>item \<in> set (pq_Items q). qp_ID item = qp_ID item'"
  shows "row_write (pq_SessionID q) (pq_Items q') st st'" and "pq_Items q = row_items st (pq_SessionID q)"
    and "stored_ok (qc_bytes cfg) st'"
proof -
  obtain saved seq where s: "savePromptQueueCAS (qc_bytes cfg) io now (pq_SessionID q) (pq_Revision q) q' None st = (Inr (saved, seq), st')"
    using assms(1,4,5) by (auto simp: try_save_def SavePromptQueueCAS_def split: sum.splits prod.splits queue_error.splits)
  have t: "TrimSpace (pq_SessionID q) = pq_SessionID q" using assms(3) by (simp add: snapshot_def)
  note w = row_write_save [OF s assms(2), unfolded t]
  from w(1) show "row_write (pq_SessionID q) (pq_Items q') st st'" by simp
  from w(2) assms(3) show eq: "pq_Items q = row_items st (pq_SessionID q)" by (simp add: snapshot_def)
  show "stored_ok (qc_bytes cfg) st'"
    using w(3) assms(2,6) eq unfolding stored_ok_def by metis
qed

lemma load_snapshot:
  assumes "LoadPromptQueue bytes sid st = Inr q" and "stored_ok bytes st"
  shows "snapshot st q" and "pq_SessionID q = TrimSpace sid" and "pq_SessionID q \<noteq> []"
proof -
  have "\<not> blank sid" using assms(1) by (auto simp: LoadPromptQueue_def blank_def Let_def)
  with load_ok [of bytes st sid] assms show "snapshot st q" "pq_SessionID q = TrimSpace sid" "pq_SessionID q \<noteq> []"
    by (auto simp: stored_ok_def snapshot_def blank_def)
qed

lemma load_queues_snapshot:
  "load_queues bytes sids st = Inr qs \<Longrightarrow> stored_ok bytes st \<Longrightarrow> q \<in> set qs \<Longrightarrow> snapshot st q \<and> pq_SessionID q \<noteq> []"
  by (induction sids arbitrary: qs) (auto simp: bindE_eq_Inr dest: load_snapshot)

section \<open>Dispatch, settlement and repair\<close>

lemma select_candidate_in:
  "select_candidate qs = Some q \<Longrightarrow> q \<in> set qs \<and> pq_State q = PromptQueueActive \<and> pq_Items q \<noteq> [] \<and>
     qp_State (hd (pq_Items q)) = QueuedPromptQueued"
proof -
  assume "select_candidate qs = Some q"
  then obtain rest where "sort_key candidate_key (dispatch_candidates qs) = q # rest"
    by (auto simp: select_candidate_def split: list.splits)
  then have "q \<in> set (sort_key candidate_key (dispatch_candidates qs))" by simp
  then show ?thesis by (simp add: dispatch_candidates_def)
qed

lemma claimed_queue_items:
  assumes "pq_Items q \<noteq> []"
  shows "map qp_ID (pq_Items (claimed_queue now q)) = map qp_ID (pq_Items q)"
    and "\<exists>item. pq_Items (claimed_queue now q) = item # tl (pq_Items q) \<and> qp_ID item = qp_ID (hd (pq_Items q)) \<and> dispatching item"
  using assms by (cases "pq_Items q"; auto simp: claimed_queue_def dispatching_def Let_def)+

lemma settle_queue_facts:
  assumes "settle_queue how now iid q = Some q'"
  shows "pq_SessionID q' = pq_SessionID q" and "pq_Revision q' = pq_Revision q"
    and "\<And>item'. item' \<in> set (pq_Items q') \<Longrightarrow> item' \<in> set (pq_Items q) \<or>
       qp_ID item' = TrimSpace iid \<and> (qp_State item' = QueuedPromptFailed \<or> how = SettleReset) \<and>
       qp_ID item' \<in> qp_ID ` set (pq_Items q)"
    and "\<And>item. item \<in> set (pq_Items q) \<Longrightarrow> qp_ID item \<in> qp_ID ` set (pq_Items q') \<or>
       (\<exists>r. how = SettleConsume r) \<and> qp_ID item = TrimSpace iid"
proof -
  obtain i where i: "promptQueueItemIndex (pq_Items q) iid = Some i"
    and q': "q' = q\<lparr>pq_Items := settle_items how now i (pq_Items q)\<rparr>"
    using assms by (auto simp: settle_queue_def split: option.splits if_splits)
  note ix = index_Some(1,2) [OF i]
  have mem: "TrimSpace iid \<in> qp_ID ` set (pq_Items q)" using ix by (metis image_eqI nth_mem)
  show "pq_SessionID q' = pq_SessionID q" "pq_Revision q' = pq_Revision q" by (simp_all add: q')
  have rm: "remove_at i ((pq_Items q)[i := x]) = remove_at i (pq_Items q)" for x
    by (simp add: remove_at_def)
  show "item' \<in> set (pq_Items q) \<or> qp_ID item' = TrimSpace iid \<and> (qp_State item' = QueuedPromptFailed \<or> how = SettleReset) \<and>
       qp_ID item' \<in> qp_ID ` set (pq_Items q)" if "item' \<in> set (pq_Items q')" for item'
    using that ix mem unfolding q'
    by (cases how) (auto simp: rm dest!: subsetD [OF set_update_subset_insert] subsetD [OF set_remove_at])
  show "qp_ID item \<in> qp_ID ` set (pq_Items q') \<or> (\<exists>r. how = SettleConsume r) \<and> qp_ID item = TrimSpace iid"
    if "item \<in> set (pq_Items q)" for item
  proof (cases how)
    case (SettleConsume r)
    then show ?thesis using that set_remove_at_keeps [OF ix(1)] ix(2) by (auto simp: q' rm)
  next
    case SettleReset
    then have "map qp_ID (pq_Items q') = map qp_ID (pq_Items q)" using ix(1) by (simp add: q' map_update_at)
    then show ?thesis using that by (metis image_eqI set_map)
  next
    case (SettleFail r)
    then have "map qp_ID (pq_Items q') = map qp_ID (pq_Items q)" using ix(1) by (simp add: q' map_update_at)
    then show ?thesis using that by (metis image_eqI set_map)
  qed
qed

lemma reconcile_items_in:
  "reconcile_items now consumed items = (items', changed) \<Longrightarrow> item' \<in> set items' \<Longrightarrow> item' \<in> set items \<or>
      qp_State item' = QueuedPromptQueued \<and> \<not> consumed (qp_ID item') \<and> qp_ID item' \<in> qp_ID ` set items"
proof (induction items arbitrary: items' changed)
  case (Cons a items)
  obtain rest c where r: "reconcile_items now consumed items = (rest, c)" by fastforce
  from Cons.IH [OF r] Cons.prems r show ?case by (auto simp: Let_def split: if_splits)
qed simp

lemma reconcile_items_out:
  "reconcile_items now consumed items = (items', changed) \<Longrightarrow> item \<in> set items \<Longrightarrow>
     qp_ID item \<in> qp_ID ` set items' \<or> consumed (qp_ID item)"
proof (induction items arbitrary: items' changed)
  case (Cons a items)
  obtain rest c where r: "reconcile_items now consumed items = (rest, c)" by fastforce
  from Cons.IH [OF r] Cons.prems r show ?case by (auto simp: Let_def split: if_splits)
qed simp

lemma reconcile_queue_facts:
  assumes "reconcile_queue now durable st q = Some q'"
  shows "pq_SessionID q' = pq_SessionID q" and "pq_Revision q' = pq_Revision q"
    and "item' \<in> set (pq_Items q') \<Longrightarrow> item' \<in> set (pq_Items q) \<or> qp_State item' = QueuedPromptQueued \<and>
       \<not> item_shown durable st (pq_SessionID q) (qp_ID item') \<and> qp_ID item' \<in> qp_ID ` set (pq_Items q)"
    and "item \<in> set (pq_Items q) \<Longrightarrow> qp_ID item \<in> qp_ID ` set (pq_Items q') \<or>
       item_shown durable st (pq_SessionID q) (qp_ID item)"
proof -
  obtain items where r: "reconcile_items now (item_shown durable st (pq_SessionID q)) (pq_Items q) = (items, True)"
    and q': "q' = q\<lparr>pq_Items := items\<rparr>"
    using assms by (auto simp: reconcile_queue_def split: prod.splits if_splits)
  show "pq_SessionID q' = pq_SessionID q" "pq_Revision q' = pq_Revision q" by (simp_all add: q')
  show "item' \<in> set (pq_Items q') \<Longrightarrow> item' \<in> set (pq_Items q) \<or> qp_State item' = QueuedPromptQueued \<and>
       \<not> item_shown durable st (pq_SessionID q) (qp_ID item') \<and> qp_ID item' \<in> qp_ID ` set (pq_Items q)"
    "item \<in> set (pq_Items q) \<Longrightarrow> qp_ID item \<in> qp_ID ` set (pq_Items q') \<or>
       item_shown durable st (pq_SessionID q) (qp_ID item)"
    using reconcile_items_in [OF r] reconcile_items_out [OF r] unfolding q' by auto
qed

lemma pause_queue_facts: "pause_queue reason q = Some q' \<Longrightarrow> pq_Items q' = pq_Items q \<and> pq_SessionID q' = pq_SessionID q \<and> pq_Revision q' = pq_Revision q"
  by (auto simp: pause_queue_def split: if_splits)

lemma guidance_Inl: "SavePromptQueueWithGuidance bytes io now sid expected q block st = (Inl e, st') \<Longrightarrow> st' = st"
  by (auto simp: SavePromptQueueWithGuidance_def dest: queue_save_Inl split: if_splits)

lemma guide_saves:
  assumes "guideQueuedPrompt cfg io now m q (turn, st) = (r, turn', st')" and "st' \<noteq> st"
  shows "\<exists>i block saved seq. promptQueueItemIndex (pq_Items q) (qm_ItemID m) = Some i \<and>
    editableQueuedPrompt (qp_State (pq_Items q ! i)) \<and>
    SavePromptQueueWithGuidance (qc_bytes cfg) io now (qm_SessionID m) (qm_ExpectedRevision m)
      (q\<lparr>pq_Items := remove_at i (pq_Items q)\<rparr>) block st = (Inr (saved, seq), st')"
  using assms by (auto simp: guideQueuedPrompt_def Let_def dest: guidance_Inl
    split: option.splits if_splits sum.splits prod.splits)

text \<open>A call of a client either leaves the rows alone or writes what its mutation made of the items it read.\<close>

lemma finish_mutation_write:
  assumes "finish_mutation cfg io now m q (turn, st) = ((r, wake), turn', st')" and "stored_ok (qc_bytes cfg) st"
    and "snapshot st q" and "qm_SessionID m = pq_SessionID q" and "qm_ExpectedRevision m = pq_Revision q"
  shows "st' = st \<or> (\<exists>items'. row_write (pq_SessionID q) items' st st' \<and> mutates m (row_items st (pq_SessionID q)) items' \<and>
     stored_ok (qc_bytes cfg) st')"
proof -
  let ?sid = "pq_SessionID q"
  have t: "TrimSpace ?sid = ?sid" using assms(3) by (simp add: snapshot_def)
  have trimmed: "\<forall>item \<in> set (row_items st ?sid). TrimSpace (qp_ID item) = qp_ID item" using assms(2) by (simp add: stored_ok_def)
  have wr: "row_write ?sid (pq_Items q') st st' \<and> mutates m (row_items st ?sid) (pq_Items q') \<and> stored_ok (qc_bytes cfg) st'"
    if s: "savePromptQueueCAS (qc_bytes cfg) io now ?sid (pq_Revision q) q' g st = (Inr (saved, seq), st')"
      and mu: "\<And>items. items = pq_Items q \<Longrightarrow> \<forall>item \<in> set items. TrimSpace (qp_ID item) = qp_ID item \<Longrightarrow> mutates m items (pq_Items q')"
    for q' g saved seq
  proof -
    note w = row_write_save [OF s assms(2), unfolded t]
    have eq: "pq_Items q = row_items st ?sid" using w(2) assms(3) by (simp add: snapshot_def)
    with mu trimmed have m: "mutates m (row_items st ?sid) (pq_Items q')" by simp
    then have "TrimSpace (qp_ID item) = qp_ID item" if "item \<in> set (pq_Items q')" for item
      using that trimmed unfolding mutates_def by metis
    with w m show ?thesis by blast
  qed
  show ?thesis
  proof (cases "TrimSpace (qm_Operation m) = ''guide''")
    case False
    show ?thesis
    proof (cases "mutation_plan cfg now m q")
      case (PlanSave q' w)
      show ?thesis
      proof (cases "savePromptQueueCAS (qc_bytes cfg) io now ?sid (pq_Revision q) q' None st")
        case (Pair res st2)
        show ?thesis
        proof (cases res)
          case (Inl e)
          with Pair queue_save_Inl have "st2 = st" by blast
          with assms(1,4,5) False PlanSave Pair Inl show ?thesis
            by (simp add: finish_mutation_def SavePromptQueueCAS_def)
        next
          case (Inr p)
          then obtain saved seq where p: "res = Inr (saved, seq)" by (cases p) simp
          with assms(1,4,5) False PlanSave Pair have "st2 = st'"
            by (simp add: finish_mutation_def SavePromptQueueCAS_def)
          with wr [of q' None saved seq] p Pair mutation_plan_mutates [OF PlanSave] show ?thesis by blast
        qed
      qed
    qed (use assms(1) False in \<open>auto simp: finish_mutation_def\<close>)
  next
    case True
    then obtain r0 where g: "guideQueuedPrompt cfg io now m q (turn, st) = (r0, turn', st')"
      using assms(1) by (auto simp: finish_mutation_def split: prod.splits)
    show ?thesis
    proof (cases "st' = st")
      case False
      from guide_saves [OF g False] obtain i block saved seq where i: "promptQueueItemIndex (pq_Items q) (qm_ItemID m) = Some i"
        and ed: "editableQueuedPrompt (qp_State (pq_Items q ! i))"
        and s: "SavePromptQueueWithGuidance (qc_bytes cfg) io now (qm_SessionID m) (qm_ExpectedRevision m)
           (q\<lparr>pq_Items := remove_at i (pq_Items q)\<rparr>) block st = (Inr (saved, seq), st')"
        by blast
      from s assms(4,5) have s': "savePromptQueueCAS (qc_bytes cfg) io now ?sid (pq_Revision q)
           (q\<lparr>pq_Items := remove_at i (pq_Items q)\<rparr>) (Some block) st = (Inr (saved, seq), st')"
        by (auto simp: SavePromptQueueWithGuidance_def split: if_splits)
      show ?thesis using wr [OF s'] remove_mutates [OF i ed] True by auto
    qed simp
  qed
qed

section \<open>The invariant of a history\<close>

definition admissions :: "queue_label list \<Rightarrow> string \<Rightarrow> string \<Rightarrow> nat" where
  "admissions ls sid iid = count_list ls (ItemAdmitted sid iid)"

text \<open>
  The repair sees a turn that was started through the recorded run or through the block, which it finds
  only on the active branch. Once a session has started a turn that left the block only, and its branch
  has been moved, its turns are no longer counted.
\<close>

definition unsure :: "queue_label list \<Rightarrow> string \<Rightarrow> bool" where
  "unsure ls sid \<longleftrightarrow> BranchMoved sid \<in> set ls \<and> (\<exists>iid. RunlessBlock sid iid \<in> set ls)"

definition turns :: "queue_label list \<Rightarrow> string \<Rightarrow> string \<Rightarrow> nat" where
  "turns ls sid iid = (if unsure ls sid then 0 else count_list ls (TurnStarted sid iid))"

text \<open>A run or a block of the transcript names the item; and the repair will find it.\<close>

definition recorded :: "(string \<times> string) list \<Rightarrow> queue_store \<Rightarrow> string \<Rightarrow> string \<Rightarrow> bool" where
  "recorded metadata st sid iid \<longleftrightarrow> item_consumed (QueueItemRuns metadata) st sid iid"

definition sure :: "queue_label list \<Rightarrow> (string \<times> string) list \<Rightarrow> queue_store \<Rightarrow> string \<Rightarrow> string \<Rightarrow> bool" where
  "sure ls durable st sid iid \<longleftrightarrow> unsure ls sid \<or> (sid, iid) \<in> set durable \<or>
     (\<exists>i. RunlessBlock sid i \<in> set ls) \<and> iid \<in> visible_items st sid"

text \<open>What a step does to the transcripts.\<close>

definition transcript_step :: "queue_label \<Rightarrow> queue_store \<Rightarrow> queue_store \<Rightarrow> bool" where
  "transcript_step l st st' \<longleftrightarrow> blocks_grow st st' \<and> (\<forall>k. l = BranchMoved k \<or> visible_items st k \<subseteq> visible_items st' k)"

lemma transcript_grows_step: "transcript_grows st st' \<Longrightarrow> transcript_step l st st'"
  by (simp add: transcript_grows_def transcript_step_def)

lemma unsure_snoc: "unsure ls sid \<Longrightarrow> unsure (ls @ [l]) sid"
  by (auto simp: unsure_def)

lemma sure_step: "sure ls durable st sid iid \<Longrightarrow> transcript_step l st st' \<Longrightarrow> sure (ls @ [l]) (durable @ extra) st' sid iid"
  unfolding sure_def transcript_step_def unsure_def by auto

lemma sure_more: "sure ls durable st sid iid \<Longrightarrow> set durable \<subseteq> set more_runs \<Longrightarrow> sure ls more_runs st sid iid"
  by (auto simp: sure_def)

lemma sure_shown: "sure ls durable st sid iid \<Longrightarrow> 0 < turns ls sid iid \<Longrightarrow> item_shown durable st sid iid"
  by (auto simp: sure_def turns_def item_shown_def visible_items_def split: if_split_asm)

lemma shown_consumed: "item_shown durable st sid iid \<Longrightarrow> item_consumed durable st sid iid"
  using block_items_mono [of "visible_blocks st sid" "qs_blocks st sid"]
  by (auto simp: item_shown_def item_consumed_def visible_blocks_def)

lemma runs_mono: "set (QueueItemRuns metadata) \<subseteq> set (QueueItemRuns (metadata @ extra))"
  by (auto simp: QueueItemRuns_def)

lemma consumed_mono: "item_consumed durable st sid iid \<Longrightarrow> blocks_grow st st' \<Longrightarrow> set durable \<subseteq> set more_runs \<Longrightarrow>
    item_consumed more_runs st' sid iid"
  by (auto simp: item_consumed_def blocks_grow_def)

lemma recorded_mono: "recorded metadata st sid iid \<Longrightarrow> blocks_grow st st' \<Longrightarrow> recorded (metadata @ extra) st' sid iid"
  unfolding recorded_def by (rule consumed_mono [OF _ _ runs_mono])

lemma recorded_write: "recorded metadata st sid iid \<Longrightarrow> transcript_grows st st' \<Longrightarrow> recorded metadata st' sid iid"
  using recorded_mono [of metadata st sid iid st' "[]"] by (simp add: transcript_grows_def)

lemma admissions_snoc: "admissions (ls @ [l]) sid iid = admissions ls sid iid + (if l = ItemAdmitted sid iid then 1 else 0)"
  by (simp add: admissions_def)

lemma turns_snoc_le: "l \<noteq> TurnStarted sid iid \<Longrightarrow> turns (ls @ [l]) sid iid \<le> turns ls sid iid"
  by (auto simp: turns_def dest: unsure_snoc)

text \<open>Labels that neither start a turn nor make a session unsure.\<close>

definition quiet :: "queue_label \<Rightarrow> bool" where
  "quiet l \<longleftrightarrow> (\<forall>k iid. l \<noteq> TurnStarted k iid \<and> l \<noteq> RunlessBlock k iid \<and> l \<noteq> BranchMoved k)"

lemma turns_quiet: "quiet l \<Longrightarrow> turns (ls @ [l]) sid iid = turns ls sid iid"
  unfolding quiet_def turns_def unsure_def by auto

lemma turns_silent [simp]: "turns (ls @ [Silent]) sid iid = turns ls sid iid"
  by (rule turns_quiet) (simp add: quiet_def)

lemma admissions_silent [simp]: "admissions (ls @ [Silent]) sid iid = admissions ls sid iid"
  by (simp add: admissions_snoc)

lemma sure_silent [simp]: "sure (ls @ [Silent]) durable st sid iid = sure ls durable st sid iid"
  by (simp add: sure_def unsure_def)

lemma turns_start:
  "turns (ls @ [TurnStarted sid iid]) k i \<le> turns ls k i + (if k = sid \<and> i = iid then 1 else 0)"
  by (auto simp: turns_def unsure_def)

definition counts_ok :: "queue_label list \<Rightarrow> (string \<times> string) list \<Rightarrow> queue_store \<Rightarrow> bool" where
  "counts_ok ls metadata st \<longleftrightarrow>
     (\<forall>sid iid. turns ls sid iid \<le> admissions ls sid iid \<and>
        (0 < turns ls sid iid \<longrightarrow> sure ls (QueueItemRuns metadata) st sid iid) \<and>
        (0 < admissions ls sid iid \<longrightarrow> iid \<in> qp_ID ` set (row_items st sid) \<or> ItemWithdrawn sid iid \<in> set ls \<or>
           recorded metadata st sid iid)) \<and>
     (\<forall>sid. \<forall>item \<in> set (row_items st sid). 1 \<le> admissions ls sid (qp_ID item) \<and>
        (qp_State item = QueuedPromptQueued \<longrightarrow> turns ls sid (qp_ID item) < admissions ls sid (qp_ID item)))"

text \<open>The coordinator owns the item it has claimed.\<close>

definition owns_item :: "queue_label list \<Rightarrow> queue_store \<Rightarrow> string \<Rightarrow> string \<Rightarrow> bool" where
  "owns_item ls st sid iid \<longleftrightarrow> turns ls sid iid < admissions ls sid iid \<and> TrimSpace sid = sid \<and> sid \<noteq> [] \<and> TrimSpace iid = iid \<and>
     iid \<noteq> [] \<and> (\<exists>item \<in> set (row_items st sid). qp_ID item = iid \<and> dispatching item)"

fun call_ok :: "queue_store \<Rightarrow> queue_call \<Rightarrow> bool" where
  "call_ok st (MutationCall m q) \<longleftrightarrow> snapshot st q \<and> qm_SessionID m = pq_SessionID q \<and> qm_ExpectedRevision m = pq_Revision q"
| "call_ok st (PauseCall sid reason n q) \<longleftrightarrow> snapshot st q"

fun phase_ok :: "queue_label list \<Rightarrow> (string \<times> string) list \<Rightarrow> queue_store \<Rightarrow> queue_phase \<Rightarrow> bool" where
  "phase_ok ls metadata st PhaseStartup \<longleftrightarrow> True"
| "phase_ok ls metadata st (PhaseReconcile durable qs) \<longleftrightarrow> (\<forall>q \<in> set qs. snapshot st q) \<and>
     set durable \<subseteq> set (QueueItemRuns metadata) \<and>
     (\<forall>sid iid. 0 < turns ls sid iid \<longrightarrow> sure ls durable st sid iid)"
| "phase_ok ls metadata st PhaseWait \<longleftrightarrow> True"
| "phase_ok ls metadata st PhaseDispatch \<longleftrightarrow> True"
| "phase_ok ls metadata st (PhasePicked q) \<longleftrightarrow> snapshot st q \<and> pq_SessionID q \<noteq> [] \<and> pq_Items q \<noteq> [] \<and>
     qp_State (hd (pq_Items q)) = QueuedPromptQueued"
| "phase_ok ls metadata st (PhaseClaimed sid iid) \<longleftrightarrow> owns_item ls st sid iid"
| "phase_ok ls metadata st (PhaseRecorded sid iid) \<longleftrightarrow> owns_item ls st sid iid \<and> recorded metadata st sid iid \<and>
     sure ls (QueueItemRuns metadata) st sid iid"
| "phase_ok ls metadata st (PhaseSettling how sid iid n q) \<longleftrightarrow> snapshot st q \<and> pq_SessionID q = sid \<and> TrimSpace iid = iid \<and>
     (how = SettleReset \<longrightarrow> turns ls sid iid < admissions ls sid iid) \<and>
     ((\<exists>r. how = SettleConsume r) \<longrightarrow> recorded metadata st sid iid)"

definition queue_inv :: "queue_config \<Rightarrow> queue_label list \<Rightarrow> queue_system \<Rightarrow> bool" where
  "queue_inv cfg ls s \<longleftrightarrow> stored_ok (qc_bytes cfg) (sy_store s) \<and> counts_ok ls (sy_metadata s) (sy_store s) \<and>
     (\<forall>c \<in> set (sy_calls s). call_ok (sy_store s) c) \<and> phase_ok ls (sy_metadata s) (sy_store s) (sy_phase s)"

subsection \<open>Writing a row\<close>

lemma counts_write:
  assumes c: "counts_ok ls metadata st" and w: "row_write sid items' st st'"
    and origin: "\<And>item'. item' \<in> set items' \<Longrightarrow>
       (qp_ID item' \<in> qp_ID ` set (row_items st sid) \<or> l = ItemAdmitted sid (qp_ID item')) \<and>
       (qp_State item' = QueuedPromptQueued \<longrightarrow>
          (\<exists>item \<in> set (row_items st sid). qp_ID item = qp_ID item' \<and> qp_State item = QueuedPromptQueued) \<or>
          turns ls sid (qp_ID item') < admissions ls sid (qp_ID item') \<or> l = ItemAdmitted sid (qp_ID item'))"
    and gone: "\<And>item. item \<in> set (row_items st sid) \<Longrightarrow>
       qp_ID item \<in> qp_ID ` set items' \<or> l = ItemWithdrawn sid (qp_ID item) \<or> recorded metadata st' sid (qp_ID item)"
    and adm: "\<And>k iid. l = ItemAdmitted k iid \<Longrightarrow> k = sid \<and> iid \<in> qp_ID ` set items'"
    and quiet: "quiet l"
  shows "counts_ok (ls @ [l]) metadata st'"
proof -
  have grows: "transcript_grows st st'" using w by (simp add: row_write_def)
  then have rec: "recorded metadata st k iid \<Longrightarrow> recorded metadata st' k iid" for k iid
    by (rule recorded_write [rotated])
  have su: "sure ls (QueueItemRuns metadata) st k iid \<Longrightarrow> sure (ls @ [l]) (QueueItemRuns metadata) st' k iid" for k iid
    using sure_step [OF _ transcript_grows_step [OF grows], of ls "QueueItemRuns metadata" k iid l "[]"] by simp
  have items: "row_items st' sid = items'" using w by (simp add: row_write_def)
  have other: "k \<noteq> sid \<Longrightarrow> row_items st' k = row_items st k" for k using row_write_other [OF w] by simp
  have t: "turns (ls @ [l]) k iid = turns ls k iid" for k iid using turns_quiet [OF quiet] .
  have a: "admissions ls k iid \<le> admissions (ls @ [l]) k iid" for k iid by (simp add: admissions_snoc)
  show ?thesis unfolding counts_ok_def
  proof (intro conjI allI ballI impI)
    fix k iid
    show "turns (ls @ [l]) k iid \<le> admissions (ls @ [l]) k iid"
      using c a [of k iid] unfolding counts_ok_def t by (meson le_trans)
    show "sure (ls @ [l]) (QueueItemRuns metadata) st' k iid" if "0 < turns (ls @ [l]) k iid"
      using that c su unfolding counts_ok_def t by blast
    show "iid \<in> qp_ID ` set (row_items st' k) \<or> ItemWithdrawn k iid \<in> set (ls @ [l]) \<or> recorded metadata st' k iid"
      if pos: "0 < admissions (ls @ [l]) k iid"
    proof (cases "l = ItemAdmitted k iid")
      case True
      with adm items show ?thesis by blast
    next
      case False
      with pos have "0 < admissions ls k iid" by (simp add: admissions_snoc)
      with c have "iid \<in> qp_ID ` set (row_items st k) \<or> ItemWithdrawn k iid \<in> set ls \<or> recorded metadata st k iid"
        unfolding counts_ok_def by blast
      then show ?thesis
      proof (elim disjE)
        assume "iid \<in> qp_ID ` set (row_items st k)"
        then show ?thesis using gone other items by (cases "k = sid") auto
      qed (auto dest: rec)
    qed
  next
    fix k item assume m: "item \<in> set (row_items st' k)"
    have old: "1 \<le> admissions ls k (qp_ID i) \<and> (qp_State i = QueuedPromptQueued \<longrightarrow> turns ls k (qp_ID i) < admissions ls k (qp_ID i))"
      if "i \<in> set (row_items st k)" for i using that c unfolding counts_ok_def by blast
    have le: "turns ls k (qp_ID item) \<le> admissions ls k (qp_ID item)" using c unfolding counts_ok_def by blast
    show "1 \<le> admissions (ls @ [l]) k (qp_ID item)"
    proof (cases "k = sid")
      case True
      with m items origin show ?thesis using old by (fastforce simp: admissions_snoc)
    next
      case False
      with m other old a show ?thesis by (metis le_trans)
    qed
    show "turns (ls @ [l]) k (qp_ID item) < admissions (ls @ [l]) k (qp_ID item)" if q: "qp_State item = QueuedPromptQueued"
    proof (cases "k = sid")
      case True
      with m items origin q consider i where "i \<in> set (row_items st sid)" "qp_ID i = qp_ID item" "qp_State i = QueuedPromptQueued"
        | "turns ls sid (qp_ID item) < admissions ls sid (qp_ID item)" | "l = ItemAdmitted sid (qp_ID item)" by blast
      then show ?thesis
      proof cases
        case (1 i)
        with old [of i] True a [of k "qp_ID item"] show ?thesis by (simp add: t)
      next
        case 2
        with True a [of k "qp_ID item"] show ?thesis by (simp add: t)
      next
        case 3
        with True le t [of k "qp_ID item"] show ?thesis by (simp add: admissions_snoc)
      qed
    next
      case False
      with m other q old a [of k "qp_ID item"] show ?thesis unfolding t by (metis less_le_trans)
    qed
  qed
qed

lemma owns_write:
  assumes "owns_item ls st sid iid" and "row_write k items' st st'"
    and "filter dispatching items' = filter dispatching (row_items st k)" and "quiet l"
  shows "owns_item (ls @ [l]) st' sid iid"
proof -
  have "set (filter dispatching (row_items st' sid)) = set (filter dispatching (row_items st sid))"
    using assms(2,3) row_write_other [OF assms(2), of sid] by (cases "sid = k") (auto simp: row_write_def)
  then have "{i \<in> set (row_items st' sid). dispatching i} = {i \<in> set (row_items st sid). dispatching i}" by simp
  with assms(1,4) show ?thesis unfolding owns_item_def
    by (auto simp: turns_quiet admissions_snoc less_SucI)
qed

text \<open>A write that leaves the dispatching items alone disturbs no phase.\<close>

lemma phase_write:
  assumes "phase_ok ls metadata st p" and w: "row_write k items' st st'"
    and "filter dispatching items' = filter dispatching (row_items st k)" and ns: "quiet l"
  shows "phase_ok (ls @ [l]) metadata st' p"
proof -
  have grows: "transcript_grows st st'" using w by (simp add: row_write_def)
  then have rec: "recorded metadata st j iid \<Longrightarrow> recorded metadata st' j iid" for j iid
    by (rule recorded_write [rotated])
  have con: "sure ls d st j iid \<Longrightarrow> sure (ls @ [l]) d st' j iid" for d j iid
    using sure_step [OF _ transcript_grows_step [OF grows], of ls d j iid l "[]"] by simp
  have t: "turns (ls @ [l]) j iid = turns ls j iid" for j iid using turns_quiet [OF ns] .
  have a: "turns ls j iid < admissions ls j iid \<Longrightarrow> turns ls j iid < admissions (ls @ [l]) j iid" for j iid
    by (simp add: admissions_snoc)
  show ?thesis using assms(1) snapshot_write [OF _ w] owns_write [OF _ w assms(3) ns] rec con t a
    by (cases p) auto
qed

lemma call_ok_mono: "call_ok st c \<Longrightarrow> (\<And>q. snapshot st q \<Longrightarrow> snapshot st' q) \<Longrightarrow> call_ok st' c"
  by (cases c) auto

lemma calls_write: "\<forall>c \<in> set cs. call_ok st c \<Longrightarrow> row_write k items' st st' \<Longrightarrow> \<forall>c \<in> set cs. call_ok st' c"
  by (blast intro: call_ok_mono snapshot_write)

text \<open>Steps that write no row, and neither start a turn nor admit an item.\<close>

definition calm :: "queue_label \<Rightarrow> bool" where
  "calm l \<longleftrightarrow> (\<forall>k iid. l \<noteq> TurnStarted k iid \<and> l \<noteq> ItemAdmitted k iid)"

lemma counts_silent:
  assumes "counts_ok ls metadata st" and "qs_rows st' = qs_rows st" and step: "transcript_step l st st'" and l: "calm l"
  shows "counts_ok (ls @ [l]) (metadata @ extra) st'"
proof -
  have rec: "recorded metadata st j iid \<Longrightarrow> recorded (metadata @ extra) st' j iid" for j iid
    using recorded_mono step by (simp add: transcript_step_def)
  have su: "sure ls (QueueItemRuns metadata) st j iid \<Longrightarrow> sure (ls @ [l]) (QueueItemRuns (metadata @ extra)) st' j iid" for j iid
    using sure_more [OF sure_step [OF _ step, of ls "QueueItemRuns metadata" j iid "[]"] ] runs_mono by simp
  have r: "row_items st' k = row_items st k" for k using assms(2) by (simp add: row_items_def)
  have le: "turns (ls @ [l]) k iid \<le> turns ls k iid" for k iid using l turns_snoc_le by (simp add: calm_def)
  have a: "admissions (ls @ [l]) k iid = admissions ls k iid" for k iid
    using l by (simp add: calm_def admissions_snoc)
  show ?thesis unfolding counts_ok_def r a
  proof (intro conjI allI ballI impI)
    fix k iid
    show "turns (ls @ [l]) k iid \<le> admissions ls k iid"
      using assms(1) le [of k iid] unfolding counts_ok_def by (meson le_trans)
    show "sure (ls @ [l]) (QueueItemRuns (metadata @ extra)) st' k iid" if "0 < turns (ls @ [l]) k iid"
      using assms(1) su that le [of k iid] unfolding counts_ok_def by (meson less_le_trans)
    show "iid \<in> qp_ID ` set (row_items st k) \<or> ItemWithdrawn k iid \<in> set (ls @ [l]) \<or> recorded (metadata @ extra) st' k iid"
      if "0 < admissions ls k iid"
      using assms(1) rec that unfolding counts_ok_def by auto
  next
    fix k item assume "item \<in> set (row_items st k)"
    then show "1 \<le> admissions ls k (qp_ID item)" using assms(1) unfolding counts_ok_def by blast
    show "turns (ls @ [l]) k (qp_ID item) < admissions ls k (qp_ID item)" if "qp_State item = QueuedPromptQueued"
      using assms(1) \<open>item \<in> set (row_items st k)\<close> that le [of k "qp_ID item"] unfolding counts_ok_def by (meson le_less_trans)
  qed
qed

lemma snapshot_rows: "snapshot st q \<Longrightarrow> qs_rows st' = qs_rows st \<Longrightarrow> snapshot st' q"
  by (simp add: snapshot_def row_revision_def row_items_def)

lemma owns_calm:
  assumes "owns_item ls st sid iid" and "qs_rows st' = qs_rows st" and "calm l"
  shows "owns_item (ls @ [l]) st' sid iid"
proof -
  have "turns (ls @ [l]) sid iid \<le> turns ls sid iid" "admissions (ls @ [l]) sid iid = admissions ls sid iid"
    using assms(3) turns_snoc_le by (simp_all add: calm_def admissions_snoc)
  with assms(1,2) show ?thesis by (simp add: owns_item_def row_items_def)
qed

lemma phase_silent:
  assumes "phase_ok ls metadata st p" and rows: "qs_rows st' = qs_rows st"
    and step: "transcript_step l st st'" and l: "calm l"
  shows "phase_ok (ls @ [l]) (metadata @ extra) st' p"
proof -
  have rec: "recorded metadata st j iid \<Longrightarrow> recorded (metadata @ extra) st' j iid" for j iid
    using recorded_mono step by (simp add: transcript_step_def)
  have con: "sure ls d st j iid \<Longrightarrow> sure (ls @ [l]) d st' j iid" for d j iid
    using sure_step [OF _ step, of ls d j iid "[]"] by simp
  have su: "sure ls (QueueItemRuns metadata) st j iid \<Longrightarrow> sure (ls @ [l]) (QueueItemRuns (metadata @ extra)) st' j iid" for j iid
    using sure_more [OF con runs_mono] by blast
  have le: "turns (ls @ [l]) j iid \<le> turns ls j iid" for j iid using l turns_snoc_le by (simp add: calm_def)
  then have pos: "0 < turns (ls @ [l]) j iid \<Longrightarrow> 0 < turns ls j iid" for j iid by (meson less_le_trans)
  have lt: "turns ls j iid < admissions ls j iid \<Longrightarrow> turns (ls @ [l]) j iid < admissions (ls @ [l]) j iid" for j iid
    using le [of j iid] l by (simp add: admissions_snoc calm_def)
  have runs: "set (QueueItemRuns metadata) \<subseteq> set (QueueItemRuns (metadata @ extra))" by (rule runs_mono)
  show ?thesis
  proof (cases p)
    case (PhaseReconcile durable qs)
    with assms(1) snapshot_rows [OF _ rows] con pos runs show ?thesis by (simp, blast)
  qed (use assms(1) snapshot_rows [OF _ rows] rec su owns_calm [OF _ rows l] lt in auto)
qed

lemma calls_rows: "\<forall>c \<in> set cs. call_ok st c \<Longrightarrow> qs_rows st' = qs_rows st \<Longrightarrow> \<forall>c \<in> set cs. call_ok st' c"
  by (blast intro: call_ok_mono snapshot_rows)

lemma stored_rows: "stored_ok bytes st \<Longrightarrow> qs_rows st' = qs_rows st \<Longrightarrow> stored_ok bytes st'"
  by (simp add: stored_ok_def rows_ok_def row_items_def)

lemma inv_silent:
  assumes "queue_inv cfg ls s" and "qs_rows (sy_store s') = qs_rows (sy_store s)"
    and "transcript_step l (sy_store s) (sy_store s')" and "calm l"
    and "sy_metadata s' = sy_metadata s @ extra"
    and "\<And>c. c \<in> set (sy_calls s') \<Longrightarrow> c \<in> set (sy_calls s) \<or> call_ok (sy_store s') c"
    and "sy_phase s' = sy_phase s \<or> phase_ok (ls @ [l]) (sy_metadata s') (sy_store s') (sy_phase s')"
  shows "queue_inv cfg (ls @ [l]) s'"
  using assms calls_rows [OF _ assms(2), of "sy_calls s"] stored_rows [OF _ assms(2)]
    counts_silent [OF _ assms(2-4)] phase_silent [OF _ assms(2-4)]
  unfolding queue_inv_def by metis

lemma inv_write:
  assumes inv: "queue_inv cfg ls s" and w: "row_write sid items' (sy_store s) (sy_store s')"
    and stored: "stored_ok (qc_bytes cfg) (sy_store s')" and meta: "sy_metadata s' = sy_metadata s"
    and origin: "\<And>item'. item' \<in> set items' \<Longrightarrow>
       (qp_ID item' \<in> qp_ID ` set (row_items (sy_store s) sid) \<or> l = ItemAdmitted sid (qp_ID item')) \<and>
       (qp_State item' = QueuedPromptQueued \<longrightarrow>
          (\<exists>item \<in> set (row_items (sy_store s) sid). qp_ID item = qp_ID item' \<and> qp_State item = QueuedPromptQueued) \<or>
          turns ls sid (qp_ID item') < admissions ls sid (qp_ID item') \<or> l = ItemAdmitted sid (qp_ID item'))"
    and gone: "\<And>item. item \<in> set (row_items (sy_store s) sid) \<Longrightarrow>
       qp_ID item \<in> qp_ID ` set items' \<or> l = ItemWithdrawn sid (qp_ID item) \<or>
       recorded (sy_metadata s) (sy_store s') sid (qp_ID item)"
    and adm: "\<And>k iid. l = ItemAdmitted k iid \<Longrightarrow> k = sid \<and> iid \<in> qp_ID ` set items'"
    and ns: "quiet l"
    and calls: "\<And>c. c \<in> set (sy_calls s') \<Longrightarrow> c \<in> set (sy_calls s) \<or> call_ok (sy_store s') c"
    and phase: "sy_phase s' = sy_phase s \<and> filter dispatching items' = filter dispatching (row_items (sy_store s) sid) \<or>
       phase_ok (ls @ [l]) (sy_metadata s) (sy_store s') (sy_phase s')"
  shows "queue_inv cfg (ls @ [l]) s'"
proof -
  have i: "counts_ok ls (sy_metadata s) (sy_store s)" "\<forall>c \<in> set (sy_calls s). call_ok (sy_store s) c"
    "phase_ok ls (sy_metadata s) (sy_store s) (sy_phase s)"
    using inv by (simp_all add: queue_inv_def)
  have "counts_ok (ls @ [l]) (sy_metadata s) (sy_store s')"
    by (rule counts_write [OF i(1) w origin gone adm ns])
  moreover have "\<forall>c \<in> set (sy_calls s'). call_ok (sy_store s') c" using calls calls_write [OF i(2) w] by blast
  moreover have "phase_ok (ls @ [l]) (sy_metadata s) (sy_store s') (sy_phase s')"
    using phase phase_write [OF i(3) w _ ns] by auto
  ultimately show ?thesis using stored meta by (simp add: queue_inv_def)
qed

lemma stored_item:
  assumes "stored_ok bytes st" and "item \<in> set (row_items st sid)"
  shows "TrimSpace (qp_ID item) = qp_ID item" and "qp_ID item \<noteq> []" and "TrimSpace sid = sid"
    and "item2 \<in> set (row_items st sid) \<Longrightarrow> qp_ID item2 = qp_ID item \<Longrightarrow> item2 = item"
proof -
  show t: "TrimSpace (qp_ID item) = qp_ID item" using assms by (auto simp: stored_ok_def)
  obtain row where row: "tget (qs_rows st) sid = Some row" using assms(2)
    by (cases "tget (qs_rows st) sid") (auto simp: row_items_def)
  with assms(1) have ok: "queue_row_ok bytes sid row" by (simp add: stored_ok_def rows_ok_def)
  then show "TrimSpace sid = sid" by (simp add: queue_row_ok_def)
  have items: "row_items st sid = qr_Items row" using row by (simp add: row_items_def)
  with ok have v: "list_all item_ok (row_items st sid)" "distinct (map (TrimSpace \<circ> qp_ID) (row_items st sid))"
    by (simp_all add: queue_row_ok_def validatePromptQueue_None row_queue_def)
  from v(1) assms(2) have "item_ok item" by (simp add: list_all_iff)
  with item_ok_id [of item] t show "qp_ID item \<noteq> []" by simp
  show "item2 = item" if "item2 \<in> set (row_items st sid)" "qp_ID item2 = qp_ID item"
    using that assms(2) v(2) by (auto simp: distinct_map inj_on_def)
qed

lemma set_insert_While: "set (takeWhile P xs @ y # dropWhile P xs) = insert y (set xs)"
  by (metis Un_insert_right list.simps(15) set_append takeWhile_dropWhile_id)

lemma id_effect_loses:
  assumes "x \<in> set ids" and "x \<notin> set (id_effect m ids)"
  shows "mutation_label m = ItemWithdrawn (qm_SessionID m) x"
proof -
  let ?op = "TrimSpace (qm_Operation m)" and ?t = "TrimSpace (qm_ItemID m)"
  have rest: "x \<in> set (remove1 ?t ids)" if "x \<noteq> ?t" using that assms(1) by simp
  consider "?op = ''enqueue''" | "?op = ''remove''" | "?op = ''guide''" | "?op = ''reorder''"
    | "?op \<noteq> ''enqueue''" "?op \<noteq> ''remove''" "?op \<noteq> ''guide''" "?op \<noteq> ''reorder''" by blast
  then show ?thesis
  proof cases
    case 1
    with assms show ?thesis by (simp add: id_effect_def)
  next
    case 2
    with assms(2) rest show ?thesis by (auto simp: id_effect_def mutation_label_def)
  next
    case 3
    with assms(2) rest show ?thesis by (auto simp: id_effect_def mutation_label_def)
  next
    case 4
    then have "set (id_effect m ids) = insert ?t (set (remove1 ?t ids))"
      by (simp add: id_effect_def Let_def set_insert_While del: set_append) simp
    with assms(2) rest show ?thesis by blast
  next
    case 5
    with assms show ?thesis by (simp add: id_effect_def)
  qed
qed

lemma mutation_label_quiet: "quiet (mutation_label m)"
  by (auto simp: quiet_def mutation_label_def Let_def)

lemma silent_labels [simp]: "quiet Silent" "calm Silent"
  by (simp_all add: quiet_def calm_def)

lemma transcript_step_refl [simp]: "transcript_step l st st"
  by (simp add: transcript_step_def blocks_grow_def)

lemma settle_pass_ok:
  assumes "stored_ok (qc_bytes cfg) st" and "TrimSpace sid = sid" and "TrimSpace iid = iid"
    and "how = SettleReset \<Longrightarrow> turns ls sid iid < admissions ls sid iid"
    and "\<And>r. how = SettleConsume r \<Longrightarrow> recorded metadata st sid iid"
  shows "phase_ok ls metadata st (settle_pass cfg how now sid iid n st)"
proof -
  have "phase_ok ls metadata st (settled_phase how)" by (cases how) auto
  with assms load_snapshot [OF _ assms(1), of sid] show ?thesis
    by (auto simp: settle_pass_def split: sum.split option.split)
qed

lemma pause_pass_ok:
  assumes "stored_ok (qc_bytes cfg) st" and "c \<in> set (pause_pass cfg sid reason n st)"
  shows "call_ok st c"
  using assms load_snapshot [OF _ assms(1), of sid] by (auto simp: pause_pass_def split: sum.splits option.splits if_splits)

subsection \<open>The steps\<close>

lemma inv_parts:
  assumes "queue_inv cfg ls s"
  shows "stored_ok (qc_bytes cfg) (sy_store s)" and "counts_ok ls (sy_metadata s) (sy_store s)"
    and "c \<in> set (sy_calls s) \<Longrightarrow> call_ok (sy_store s) c" and "phase_ok ls (sy_metadata s) (sy_store s) (sy_phase s)"
  using assms by (simp_all add: queue_inv_def)

lemma row_item_counts:
  assumes "queue_inv cfg ls s" and "item \<in> set (row_items (sy_store s) sid)"
  shows "1 \<le> admissions ls sid (qp_ID item)"
    and "qp_State item = QueuedPromptQueued \<Longrightarrow> turns ls sid (qp_ID item) < admissions ls sid (qp_ID item)"
  using inv_parts(2) [OF assms(1)] assms(2) by (auto simp: counts_ok_def)

lemma step_mutation_begins:
  assumes inv: "queue_inv cfg ls s" and b: "begin_mutation cfg m0 (sy_store s) = Inr (m, q)"
  shows "queue_inv cfg (ls @ [Silent]) (s\<lparr>sy_calls := sy_calls s @ [MutationCall m q]\<rparr>)"
proof -
  have m: "m = trim_mutation m0" and l: "LoadPromptQueue (qc_bytes cfg) (qm_SessionID m) (sy_store s) = Inr q"
    and r: "pq_Revision q = qm_ExpectedRevision m"
    using b by (auto simp: begin_mutation_def Let_def bindE_eq_Inr split: if_splits)
  have "call_ok (sy_store s) (MutationCall m q)"
    using load_snapshot [OF l inv_parts(1) [OF inv]] m r by (simp add: trim_mutation_def)
  then show ?thesis by (intro inv_silent [OF inv, where extra = "[]"]) auto
qed

lemma step_mutation_ends:
  assumes inv: "queue_inv cfg ls s" and c: "sy_calls s = xs @ MutationCall m q # ys"
    and f: "finish_mutation cfg io now m q (sy_turn s, sy_store s) = ((r, wake), turn', st')"
  shows "queue_inv cfg (ls @ [written_label m (sy_store s) st'])
    (s\<lparr>sy_calls := xs @ ys, sy_turn := turn', sy_store := st', sy_wake := sy_wake s \<or> wake\<rparr>)"
proof -
  let ?sid = "pq_SessionID q"
  have ok: "snapshot (sy_store s) q" "qm_SessionID m = ?sid" "qm_ExpectedRevision m = pq_Revision q"
    using inv_parts(3) [OF inv, of "MutationCall m q"] c by auto
  from finish_mutation_write [OF f inv_parts(1) [OF inv] ok] show ?thesis
  proof
    assume "st' = sy_store s"
    then show ?thesis using c by (simp add: written_label_def) (intro inv_silent [OF inv, where extra = "[]"]; auto)
  next
    assume "\<exists>items'. row_write ?sid items' (sy_store s) st' \<and> mutates m (row_items (sy_store s) ?sid) items' \<and> stored_ok (qc_bytes cfg) st'"
    then obtain items' where w: "row_write ?sid items' (sy_store s) st'"
      and mu: "mutates m (row_items (sy_store s) ?sid) items'" and st: "stored_ok (qc_bytes cfg) st'" by blast
    have "qs_rows st' \<noteq> qs_rows (sy_store s)" using w by (auto simp: row_write_def row_revision_def)
    then have l: "written_label m (sy_store s) st' = mutation_label m" by (simp add: written_label_def)
    have gone: "qp_ID item \<in> qp_ID ` set items' \<or> mutation_label m = ItemWithdrawn ?sid (qp_ID item)"
      if "item \<in> set (row_items (sy_store s) ?sid)" for item
    proof (rule disjCI)
      assume n: "mutation_label m \<noteq> ItemWithdrawn ?sid (qp_ID item)"
      have "qp_ID item \<in> set (map qp_ID (row_items (sy_store s) ?sid))" using that by simp
      with n ok(2) id_effect_loses [of "qp_ID item" "map qp_ID (row_items (sy_store s) ?sid)" m]
      have "qp_ID item \<in> set (id_effect m (map qp_ID (row_items (sy_store s) ?sid)))" by metis
      then show "qp_ID item \<in> qp_ID ` set items'" using mu unfolding mutates_def by (metis set_map)
    qed
    let ?s' = "s\<lparr>sy_calls := xs @ ys, sy_turn := turn', sy_store := st', sy_wake := sy_wake s \<or> wake\<rparr>"
    show ?thesis unfolding l
    proof (rule inv_write [OF inv, of ?sid items'])
      show "(qp_ID item' \<in> qp_ID ` set (row_items (sy_store s) ?sid) \<or> mutation_label m = ItemAdmitted ?sid (qp_ID item')) \<and>
         (qp_State item' = QueuedPromptQueued \<longrightarrow>
          (\<exists>item \<in> set (row_items (sy_store s) ?sid). qp_ID item = qp_ID item' \<and> qp_State item = QueuedPromptQueued) \<or>
          turns ls ?sid (qp_ID item') < admissions ls ?sid (qp_ID item') \<or> mutation_label m = ItemAdmitted ?sid (qp_ID item'))"
        if "item' \<in> set items'" for item'
        using that mu ok(2) unfolding mutates_def by (metis imageI)
      show "qp_ID item \<in> qp_ID ` set items' \<or> mutation_label m = ItemWithdrawn ?sid (qp_ID item) \<or>
          recorded (sy_metadata s) (sy_store ?s') ?sid (qp_ID item)"
        if "item \<in> set (row_items (sy_store s) ?sid)" for item using gone [OF that] by blast
      show "k = ?sid \<and> iid \<in> qp_ID ` set items'" if "mutation_label m = ItemAdmitted k iid" for k iid
        using that mu ok(2) unfolding mutates_def by metis
      show "sy_phase ?s' = sy_phase s \<and> filter dispatching items' = filter dispatching (row_items (sy_store s) ?sid) \<or>
          phase_ok (ls @ [mutation_label m]) (sy_metadata s) (sy_store ?s') (sy_phase ?s')"
        using mu unfolding mutates_def by simp
    qed (use w st c mutation_label_quiet in auto)
  qed
qed

lemma step_pause_ends:
  assumes inv: "queue_inv cfg ls s" and c: "sy_calls s = xs @ PauseCall sid reason n q # ys"
    and p: "pause_write cfg io now sid reason n q (sy_store s) = (calls, st')"
  shows "queue_inv cfg (ls @ [Silent]) (s\<lparr>sy_calls := xs @ calls @ ys, sy_store := st'\<rparr>)"
proof -
  note stored = inv_parts(1) [OF inv]
  have snap: "snapshot (sy_store s) q" using inv_parts(3) [OF inv, of "PauseCall sid reason n q"] c by simp
  consider (same) "st' = sy_store s" "calls = [] \<or> calls = pause_pass cfg sid reason (n - 1) (sy_store s)"
    | (saved) q' where "pause_queue reason q = Some q'" "try_save cfg io now q' (sy_store s) = SaveOk st'" "calls = []"
    using p by (auto simp: pause_write_def split: option.splits save_outcome.splits)
  then show ?thesis
  proof cases
    case same
    with pause_pass_ok [OF stored] c show ?thesis
      by (intro inv_silent [OF inv, where extra = "[]"]) auto
  next
    case (saved q')
    note facts = pause_queue_facts [OF saved(1)]
    note w = try_save_Ok [OF saved(2) stored snap]
    have ok: "row_write (pq_SessionID q) (pq_Items q) (sy_store s) st'" "pq_Items q = row_items (sy_store s) (pq_SessionID q)"
      "stored_ok (qc_bytes cfg) st'"
      using w facts by auto
    show ?thesis
      by (rule inv_write [OF inv, of "pq_SessionID q" "pq_Items q"]) (use ok saved(3) c in auto)
  qed
qed

lemma step_reconcile:
  assumes inv: "queue_inv cfg ls s" and ph: "sy_phase s = PhaseReconcile durable (q # qs)"
    and r: "reconcile_write cfg io now durable q qs (sy_store s) = (phase', st')"
  shows "queue_inv cfg (ls @ [Silent]) (s\<lparr>sy_phase := phase', sy_store := st'\<rparr>)"
proof -
  note stored = inv_parts(1) [OF inv]
  let ?sid = "pq_SessionID q"
  have snaps: "\<forall>p \<in> set (q # qs). snapshot (sy_store s) p" and dur: "set durable \<subseteq> set (QueueItemRuns (sy_metadata s))"
    and su: "\<forall>sid iid. 0 < turns ls sid iid \<longrightarrow> sure ls durable (sy_store s) sid iid"
    using inv_parts(4) [OF inv] ph by auto
  have st: "\<forall>sid iid. 0 < turns ls sid iid \<longrightarrow> item_shown durable (sy_store s) sid iid"
    using su sure_shown by blast
  consider (same) "st' = sy_store s" "phase' = PhaseWait \<or> phase' = PhaseReconcile durable qs"
    | (saved) q' where "reconcile_queue now durable (sy_store s) q = Some q'"
      "try_save cfg io now q' (sy_store s) = SaveOk st'" "phase' = PhaseReconcile durable qs"
    using r by (auto simp: reconcile_write_def split: option.splits save_outcome.splits)
  then show ?thesis
  proof cases
    case same
    have "phase_ok (ls @ [Silent]) (sy_metadata s) (sy_store s) phase'"
      using same(2) snaps dur su by auto
    with same(1) show ?thesis by (intro inv_silent [OF inv, where extra = "[]"]) auto
  next
    case (saved q')
    note facts = reconcile_queue_facts [OF saved(1)]
    note w = try_save_Ok [OF saved(2) stored _ facts(1,2)]
    have snap: "snapshot (sy_store s) q" using snaps by simp
    have origin: "\<exists>item \<in> set (pq_Items q). qp_ID item = qp_ID item'" if "item' \<in> set (pq_Items q')" for item'
      using facts(3) [OF that] by (metis image_iff)
    have ok: "row_write ?sid (pq_Items q') (sy_store s) st'" and items: "pq_Items q = row_items (sy_store s) ?sid"
      and stored': "stored_ok (qc_bytes cfg) st'"
      using w [OF snap origin] by auto
    have grows: "transcript_grows (sy_store s) st'" using ok by (simp add: row_write_def)
    then have con: "item_shown durable (sy_store s) k iid \<Longrightarrow> recorded (sy_metadata s) st' k iid" for k iid
      using consumed_mono [OF shown_consumed _ dur] by (simp add: recorded_def transcript_grows_def)
    have su': "sure ls durable st' k iid" if "0 < turns ls k iid" for k iid
      using su that sure_step [OF _ transcript_grows_step [OF grows], of ls durable k iid Silent "[]"] by simp
    let ?s' = "s\<lparr>sy_phase := phase', sy_store := st'\<rparr>"
    show ?thesis
    proof (rule inv_write [OF inv, of ?sid "pq_Items q'"])
      show "(qp_ID item' \<in> qp_ID ` set (row_items (sy_store s) ?sid) \<or> Silent = ItemAdmitted ?sid (qp_ID item')) \<and>
         (qp_State item' = QueuedPromptQueued \<longrightarrow>
          (\<exists>item \<in> set (row_items (sy_store s) ?sid). qp_ID item = qp_ID item' \<and> qp_State item = QueuedPromptQueued) \<or>
          turns ls ?sid (qp_ID item') < admissions ls ?sid (qp_ID item') \<or> Silent = ItemAdmitted ?sid (qp_ID item'))"
        if m: "item' \<in> set (pq_Items q')" for item'
      proof -
        obtain item where item: "item \<in> set (row_items (sy_store s) ?sid)" "qp_ID item = qp_ID item'"
          using origin [OF m] items by auto
        have "1 \<le> admissions ls ?sid (qp_ID item')" using row_item_counts(1) [OF inv item(1)] item(2) by simp
        with facts(3) [OF m] st item items show ?thesis by (metis image_eqI less_le_trans neq0_conv zero_less_one)
      qed
      show "qp_ID item \<in> qp_ID ` set (pq_Items q') \<or> Silent = ItemWithdrawn ?sid (qp_ID item) \<or>
          recorded (sy_metadata s) (sy_store ?s') ?sid (qp_ID item)"
        if "item \<in> set (row_items (sy_store s) ?sid)" for item
        using facts(4) [of item] that items con by auto
      show "sy_phase ?s' = sy_phase s \<and> filter dispatching (pq_Items q') = filter dispatching (row_items (sy_store s) ?sid) \<or>
          phase_ok (ls @ [Silent]) (sy_metadata s) (sy_store ?s') (sy_phase ?s')"
        using saved(3) snaps dur su' snapshot_write [OF _ ok] by simp
    qed (use ok stored' in auto)
  qed
qed

lemma step_claims:
  assumes inv: "queue_inv cfg ls s" and ph: "sy_phase s = PhasePicked q"
    and r: "dispatch_claim cfg io now q (sy_store s) = (phase', st')"
  shows "queue_inv cfg (ls @ [Silent]) (s\<lparr>sy_phase := phase', sy_store := st'\<rparr>)"
proof -
  note stored = inv_parts(1) [OF inv]
  let ?sid = "pq_SessionID q" and ?q' = "claimed_queue now q"
  have snap: "snapshot (sy_store s) q" and ne: "?sid \<noteq> []" "pq_Items q \<noteq> []" and hd: "qp_State (hd (pq_Items q)) = QueuedPromptQueued"
    using inv_parts(4) [OF inv] ph by auto
  consider (same) "st' = sy_store s" "phase' = PhaseWait"
    | (saved) "try_save cfg io now ?q' (sy_store s) = SaveOk st'" "phase' = PhaseClaimed ?sid (qp_ID (hd (pq_Items q)))"
    using r by (auto simp: dispatch_claim_def split: save_outcome.splits)
  then show ?thesis
  proof cases
    case same
    then show ?thesis by (intro inv_silent [OF inv, where extra = "[]"]) auto
  next
    case saved
    have ids: "map qp_ID (pq_Items ?q') = map qp_ID (pq_Items q)" by (rule claimed_queue_items(1) [OF ne(2)])
    then have idset: "qp_ID ` set (pq_Items ?q') = qp_ID ` set (pq_Items q)" by (metis set_map)
    obtain item where item: "pq_Items ?q' = item # tl (pq_Items q)" "qp_ID item = qp_ID (hd (pq_Items q))" "dispatching item"
      using claimed_queue_items(2) [OF ne(2)] by blast
    have "pq_SessionID ?q' = ?sid" "pq_Revision ?q' = pq_Revision q" by (simp_all add: claimed_queue_def Let_def)
    note w = try_save_Ok [OF saved(1) stored snap this]
    have origin: "\<exists>i \<in> set (pq_Items q). qp_ID i = qp_ID item'" if "item' \<in> set (pq_Items ?q')" for item'
      using that idset by (metis image_iff)
    have ok: "row_write ?sid (pq_Items ?q') (sy_store s) st'" and items: "pq_Items q = row_items (sy_store s) ?sid"
      and stored': "stored_ok (qc_bytes cfg) st'"
      using w origin by auto
    have mem: "hd (pq_Items q) \<in> set (row_items (sy_store s) ?sid)" using ne(2) items by (metis hd_in_set)
    have row': "row_items st' ?sid = pq_Items ?q'" using ok by (simp add: row_write_def)
    have own: "owns_item (ls @ [Silent]) st' ?sid (qp_ID (hd (pq_Items q)))"
      using row_item_counts(2) [OF inv mem hd] stored_item(1,2,3) [OF stored mem] ne(1) item row'
      by (simp add: owns_item_def)
    show ?thesis
    proof (rule inv_write [OF inv, of ?sid "pq_Items ?q'"])
      show "(qp_ID item' \<in> qp_ID ` set (row_items (sy_store s) ?sid) \<or> Silent = ItemAdmitted ?sid (qp_ID item')) \<and>
         (qp_State item' = QueuedPromptQueued \<longrightarrow>
          (\<exists>item \<in> set (row_items (sy_store s) ?sid). qp_ID item = qp_ID item' \<and> qp_State item = QueuedPromptQueued) \<or>
          turns ls ?sid (qp_ID item') < admissions ls ?sid (qp_ID item') \<or> Silent = ItemAdmitted ?sid (qp_ID item'))"
        if m: "item' \<in> set (pq_Items ?q')" for item'
        using m item ne(2) items origin [OF m] by (auto simp: dispatching_def dest: list.set_sel(2))
    qed (use ok stored' saved(2) own idset items in auto)
  qed
qed

lemma step_settles:
  assumes inv: "queue_inv cfg ls s" and ph: "sy_phase s = PhaseSettling how sid iid n q"
    and r: "settle_write cfg io now how sid iid n q (sy_store s) = (phase', st')"
  shows "queue_inv cfg (ls @ [Silent]) (s\<lparr>sy_phase := phase', sy_store := st'\<rparr>)"
proof -
  note stored = inv_parts(1) [OF inv]
  have snap: "snapshot (sy_store s) q" and sid: "pq_SessionID q = sid" and iid: "TrimSpace iid = iid"
    and reset: "how = SettleReset \<Longrightarrow> turns ls sid iid < admissions ls sid iid"
    and consume: "\<And>r. how = SettleConsume r \<Longrightarrow> recorded (sy_metadata s) (sy_store s) sid iid"
    using inv_parts(4) [OF inv] ph by auto
  have trim: "TrimSpace sid = sid" using snap sid by (simp add: snapshot_def)
  have settled: "phase_ok (ls @ [Silent]) (sy_metadata s) st'' (settled_phase how)" for st'' by (cases how) auto
  consider (same) "st' = sy_store s" "phase' = settled_phase how \<or> phase' = settle_pass cfg how now sid iid (n - 1) (sy_store s)"
    | (saved) q' where "settle_queue how now iid q = Some q'" "try_save cfg io now q' (sy_store s) = SaveOk st'" "phase' = settled_phase how"
    using r by (auto simp: settle_write_def split: option.splits save_outcome.splits)
  then show ?thesis
  proof cases
    case same
    have "phase_ok (ls @ [Silent]) (sy_metadata s) (sy_store s) (settle_pass cfg how now sid iid (n - 1) (sy_store s))"
      by (rule settle_pass_ok [OF stored trim iid]) (use reset consume in auto)
    with same settled [of "sy_store s"] show ?thesis by (intro inv_silent [OF inv, where extra = "[]"]) auto
  next
    case (saved q')
    note facts = settle_queue_facts [OF saved(1)]
    have origin: "\<exists>item \<in> set (pq_Items q). qp_ID item = qp_ID item'" if "item' \<in> set (pq_Items q')" for item'
      using facts(3) [OF that] by (metis image_iff)
    note w = try_save_Ok [OF saved(2) stored snap facts(1,2) origin, unfolded sid]
    have ok: "row_write sid (pq_Items q') (sy_store s) st'" and items: "pq_Items q = row_items (sy_store s) sid"
      and stored': "stored_ok (qc_bytes cfg) st'"
      using w by auto
    have grows: "transcript_grows (sy_store s) st'" using ok by (simp add: row_write_def)
    show ?thesis
    proof (rule inv_write [OF inv, of sid "pq_Items q'"])
      show "(qp_ID item' \<in> qp_ID ` set (row_items (sy_store s) sid) \<or> Silent = ItemAdmitted sid (qp_ID item')) \<and>
         (qp_State item' = QueuedPromptQueued \<longrightarrow>
          (\<exists>item \<in> set (row_items (sy_store s) sid). qp_ID item = qp_ID item' \<and> qp_State item = QueuedPromptQueued) \<or>
          turns ls sid (qp_ID item') < admissions ls sid (qp_ID item') \<or> Silent = ItemAdmitted sid (qp_ID item'))"
        if m: "item' \<in> set (pq_Items q')" for item'
        using facts(3) [OF m] items reset iid by auto
      show "qp_ID item \<in> qp_ID ` set (pq_Items q') \<or> Silent = ItemWithdrawn sid (qp_ID item) \<or>
          recorded (sy_metadata s) (sy_store (s\<lparr>sy_phase := phase', sy_store := st'\<rparr>)) sid (qp_ID item)"
        if "item \<in> set (row_items (sy_store s) sid)" for item
        using facts(4) [of item] that items consume iid recorded_write [OF _ grows, of "sy_metadata s" sid iid]
        by auto
    qed (use ok stored' saved(3) settled in auto)
  qed
qed

lemma owned_facts:
  assumes "queue_inv cfg ls s" and "sy_phase s = PhaseClaimed sid iid \<or> sy_phase s = PhaseRecorded sid iid"
  shows "owns_item ls (sy_store s) sid iid" and "TrimSpace sid = sid" and "TrimSpace iid = iid" and "iid \<noteq> []"
    and "turns ls sid iid < admissions ls sid iid"
proof -
  show o: "owns_item ls (sy_store s) sid iid" using inv_parts(4) [OF assms(1)] assms(2) by auto
  then show "TrimSpace sid = sid" "TrimSpace iid = iid" "iid \<noteq> []" "turns ls sid iid < admissions ls sid iid"
    by (simp_all add: owns_item_def)
qed

lemma step_settle_begins:
  assumes inv: "queue_inv cfg ls s" and ph: "sy_phase s = PhaseClaimed sid iid \<or> sy_phase s = PhaseRecorded sid iid"
    and how: "how = SettleReset \<or> how = SettleFail reason"
  shows "queue_inv cfg (ls @ [Silent]) (s\<lparr>sy_phase := settle_pass cfg how now sid iid 4 (sy_store s)\<rparr>)"
proof -
  note own = owned_facts [OF inv ph]
  have "phase_ok (ls @ [Silent]) (sy_metadata s) (sy_store s) (settle_pass cfg how now sid iid 4 (sy_store s))"
    by (rule settle_pass_ok [OF inv_parts(1) [OF inv] own(2,3)])
      (use own(5) how in auto)
  then show ?thesis by (intro inv_silent [OF inv, where extra = "[]"]) auto
qed

lemma owns_silent:
  "owns_item ls st sid iid \<Longrightarrow> qs_rows st' = qs_rows st \<Longrightarrow> owns_item (ls @ [Silent]) st' sid iid"
  by (simp add: owns_item_def row_items_def)

lemma step_run_recorded:
  assumes inv: "queue_inv cfg ls s" and ph: "sy_phase s = PhaseClaimed sid iid \<or> sy_phase s = PhaseRecorded sid iid"
  shows "queue_inv cfg (ls @ [Silent]) (s\<lparr>sy_metadata := sy_metadata s @ [(sid, iid)], sy_phase := PhaseRecorded sid iid\<rparr>)"
proof -
  note own = owned_facts [OF inv ph]
  have "recorded (sy_metadata s @ [(sid, iid)]) (sy_store s) sid iid"
    "sure (ls @ [Silent]) (QueueItemRuns (sy_metadata s @ [(sid, iid)])) (sy_store s) sid iid"
    using own(2,3,4) by (simp_all add: recorded_def item_consumed_def sure_def QueueItemRuns_def)
  with owns_silent [OF own(1), of "sy_store s"] show ?thesis
    by (intro inv_silent [OF inv, where extra = "[(sid, iid)]"]) auto
qed

lemma step_block_recorded:
  assumes inv: "queue_inv cfg ls s" and ph: "sy_phase s = PhaseClaimed sid iid \<or> sy_phase s = PhaseRecorded sid iid"
    and b: "map_of (sb_Data block) ''queueItemId'' = Some iid"
    and l: "l = (if sy_phase s = PhaseClaimed sid iid then RunlessBlock sid iid else Silent)"
  shows "queue_inv cfg (ls @ [l])
    (s\<lparr>sy_store := snd (append_block sid block (sy_store s)), sy_phase := PhaseRecorded sid iid\<rparr>)"
proof -
  let ?st' = "snd (append_block sid block (sy_store s))"
  note own = owned_facts [OF inv ph]
  note step = transcript_grows_step [OF append_block_rows(2)]
  have calm: "calm l" by (simp add: l calm_def)
  have rec: "recorded (sy_metadata s) ?st' sid iid"
    using own(4) b by (simp add: recorded_def item_consumed_def append_block_def Let_def block_items_def)
  have sure: "sure (ls @ [l]) (QueueItemRuns (sy_metadata s)) ?st' sid iid"
  proof (cases "sy_phase s = PhaseClaimed sid iid")
    case True
    with append_block_shows [OF b own(4)] show ?thesis by (auto simp: sure_def l)
  next
    case False
    with ph inv_parts(4) [OF inv] have "sure ls (QueueItemRuns (sy_metadata s)) (sy_store s) sid iid" by simp
    from sure_step [OF this step, of l "[]" sid block] show ?thesis by simp
  qed
  from owns_calm [OF own(1) append_block_rows(1) calm, of sid block] rec sure show ?thesis
    by (intro inv_silent [OF inv _ _ calm, where extra = "[]"]) (simp_all add: append_block_rows step)
qed

lemma step_branch_moved:
  assumes inv: "queue_inv cfg ls s"
  shows "queue_inv cfg (ls @ [BranchMoved sid])
    (s\<lparr>sy_store := (sy_store s)\<lparr>qs_branch := (qs_branch (sy_store s))(sid := branch)\<rparr>\<rparr>)"
proof -
  have "calm (BranchMoved sid)" by (simp add: calm_def)
  moreover have "transcript_step (BranchMoved sid) (sy_store s) ((sy_store s)\<lparr>qs_branch := (qs_branch (sy_store s))(sid := branch)\<rparr>)"
    by (auto simp: transcript_step_def blocks_grow_def visible_items_def visible_blocks_def)
  ultimately show ?thesis by (intro inv_silent [OF inv, where extra = "[]"]) auto
qed

lemma step_starts:
  assumes inv: "queue_inv cfg ls s" and ph: "sy_phase s = PhaseRecorded sid iid"
  shows "queue_inv cfg (ls @ [TurnStarted sid iid])
    (s\<lparr>sy_phase := settle_pass cfg (SettleConsume runID) now sid iid 4 (sy_store s)\<rparr>)"
proof -
  note stored = inv_parts(1) [OF inv]
  have ph': "sy_phase s = PhaseClaimed sid iid \<or> sy_phase s = PhaseRecorded sid iid" using ph by simp
  note own = owned_facts [OF inv ph']
  have rec: "recorded (sy_metadata s) (sy_store s) sid iid" "sure ls (QueueItemRuns (sy_metadata s)) (sy_store s) sid iid"
    using inv_parts(4) [OF inv] ph by simp_all
  let ?l = "TurnStarted sid iid"
  have su: "sure (ls @ [?l]) d st k i = sure ls d st k i" for d st k i by (simp add: sure_def unsure_def)
  have adm: "admissions (ls @ [?l]) k i = admissions ls k i" for k i by (simp add: admissions_snoc)
  have other: "turns (ls @ [?l]) k i = turns ls k i" if "(k, i) \<noteq> (sid, iid)" for k i
    using that by (auto simp: turns_def unsure_def)
  have one: "turns (ls @ [?l]) sid iid \<le> Suc (turns ls sid iid)"
    by (auto simp: turns_def unsure_def)
  obtain it where it: "it \<in> set (row_items (sy_store s) sid)" "qp_ID it = iid" "dispatching it"
    using own(1) by (auto simp: owns_item_def)
  have not_queued: "qp_State item \<noteq> QueuedPromptQueued" if "item \<in> set (row_items (sy_store s) sid)" "qp_ID item = iid" for item
    using stored_item(4) [OF stored it(1) that(1)] that(2) it by (auto simp: dispatching_def)
  have "counts_ok (ls @ [?l]) (sy_metadata s) (sy_store s)"
    unfolding counts_ok_def su adm
  proof (intro conjI allI ballI impI)
    fix k i
    note c = inv_parts(2) [OF inv, unfolded counts_ok_def]
    show "turns (ls @ [?l]) k i \<le> admissions ls k i"
      using c one own(5) other [of k i] by (cases "(k, i) = (sid, iid)") auto
    show "sure ls (QueueItemRuns (sy_metadata s)) (sy_store s) k i" if "0 < turns (ls @ [?l]) k i"
      using c rec(2) that other [of k i] by (cases "(k, i) = (sid, iid)") auto
    show "i \<in> qp_ID ` set (row_items (sy_store s) k) \<or> ItemWithdrawn k i \<in> set (ls @ [?l]) \<or> recorded (sy_metadata s) (sy_store s) k i"
      if "0 < admissions ls k i" using c that by auto
  next
    fix k item assume m: "item \<in> set (row_items (sy_store s) k)"
    note c = inv_parts(2) [OF inv, unfolded counts_ok_def]
    show "1 \<le> admissions ls k (qp_ID item)" using c m by blast
    show "turns (ls @ [?l]) k (qp_ID item) < admissions ls k (qp_ID item)" if q: "qp_State item = QueuedPromptQueued"
    proof -
      have "(k, qp_ID item) \<noteq> (sid, iid)" using not_queued m q by auto
      with c m q other [of k "qp_ID item"] show ?thesis by metis
    qed
  qed
  moreover have "phase_ok (ls @ [TurnStarted sid iid]) (sy_metadata s) (sy_store s)
      (settle_pass cfg (SettleConsume runID) now sid iid 4 (sy_store s))"
    by (rule settle_pass_ok [OF stored own(2,3)]) (use rec in auto)
  ultimately show ?thesis using inv by (simp add: queue_inv_def)
qed

lemma step_reconcile_begins:
  assumes inv: "queue_inv cfg ls s" and l: "ListPromptQueues (qc_bytes cfg) (sy_store s) = Inr queues"
  shows "queue_inv cfg (ls @ [Silent]) (s\<lparr>sy_phase := PhaseReconcile (QueueItemRuns (sy_metadata s)) queues\<rparr>)"
proof -
  have "snapshot (sy_store s) q" if "q \<in> set queues" for q
    using load_queues_snapshot [OF _ inv_parts(1) [OF inv] that] l by (simp add: ListPromptQueues_def)
  moreover have "sure ls (QueueItemRuns (sy_metadata s)) (sy_store s) sid iid" if "0 < turns ls sid iid" for sid iid
    using that inv_parts(2) [OF inv] by (simp add: counts_ok_def)
  ultimately show ?thesis by (intro inv_silent [OF inv, where extra = "[]"]) auto
qed

lemma step_picks:
  assumes inv: "queue_inv cfg ls s"
  shows "queue_inv cfg (ls @ [Silent]) (s\<lparr>sy_phase := dispatch_pick cfg (sy_turn s) (sy_store s)\<rparr>)"
proof -
  have "phase_ok (ls @ [Silent]) (sy_metadata s) (sy_store s) (dispatch_pick cfg (sy_turn s) (sy_store s))"
    using load_queues_snapshot [OF _ inv_parts(1) [OF inv]]
    by (auto simp: dispatch_pick_def ListPromptQueues_def split: sum.split option.split dest!: select_candidate_in)
  then show ?thesis by (intro inv_silent [OF inv, where extra = "[]"]) auto
qed

text \<open>The invariant survives every step.\<close>

lemma queue_inv_step:
  assumes "queue_step cfg s l s'" and inv: "queue_inv cfg ls s"
  shows "queue_inv cfg (ls @ [l]) s'"
  using assms(1)
proof cases
  case (mutation_begins m0 m current)
  then show ?thesis using step_mutation_begins [OF inv] by simp
next
  case (mutation_ends xs m current ys io now r wake turn' st')
  then show ?thesis using step_mutation_ends [OF inv] by simp
next
  case (pause_begins sessionID reason)
  then show ?thesis using pause_pass_ok [OF inv_parts(1) [OF inv]]
    by (simp, intro inv_silent [OF inv, where extra = "[]"]) auto
next
  case (pause_ends xs sessionID reason n queue ys io now calls st')
  then show ?thesis using step_pause_ends [OF inv] by simp
next
  case (reconcile_begins queues)
  then show ?thesis using step_reconcile_begins [OF inv] by simp
next
  case reconcile_ends
  then show ?thesis by (simp, intro inv_silent [OF inv, where extra = "[]"]) auto
next
  case (reconciles_queue durable queue queues io now phase' st')
  then show ?thesis using step_reconcile [OF inv] by simp
next
  case wakes
  then show ?thesis by (simp, intro inv_silent [OF inv, where extra = "[]"]) auto
next
  case picks
  then show ?thesis using step_picks [OF inv] by simp
next
  case pick_fails
  then show ?thesis by (simp, intro inv_silent [OF inv, where extra = "[]"]) auto
next
  case (claims queue io now phase' st')
  then show ?thesis using step_claims [OF inv] by simp
next
  case (start_refused sid iid now)
  then show ?thesis using step_settle_begins [OF inv, of sid iid SettleReset] by simp
next
  case (start_fails sid iid reason now)
  then show ?thesis using step_settle_begins [OF inv, of sid iid "SettleFail reason"] by simp
next
  case (run_recorded sid iid)
  then show ?thesis using step_run_recorded [OF inv] by simp
next
  case (block_recorded sid iid block)
  then show ?thesis using step_block_recorded [OF inv, of sid iid block l] by simp
next
  case (starts sid iid runID now)
  then show ?thesis using step_starts [OF inv] by simp
next
  case (settles how sid iid n queue io now phase' st')
  then show ?thesis using step_settles [OF inv] by simp
next
  case (environment turn' wake)
  then show ?thesis by (simp, intro inv_silent [OF inv, where extra = "[]"]) auto
next
  case (session_created sid)
  have "transcript_grows (sy_store s) (sy_store s')" by (rule transcript_same) (simp_all add: session_created)
  from transcript_grows_step [OF this] show ?thesis unfolding session_created(1)
    by (intro inv_silent [OF inv, where extra = "[]"]) (simp_all add: session_created)
next
  case (transcript_grows block sid)
  have "calm Silent" by simp
  with transcript_grows show ?thesis using transcript_grows_step [OF append_block_rows(2)]
    by (simp, intro inv_silent [OF inv, where extra = "[]"]) (auto simp: append_block_rows)
next
  case (branch_moved sid branch)
  then show ?thesis using step_branch_moved [OF inv] by simp
next
  case crash
  then show ?thesis by (simp, intro inv_silent [OF inv, where extra = "[]"]) auto
qed

lemma queue_inv_start: "queue_inv cfg [] queue_start"
  by (simp add: queue_inv_def queue_start_def stored_ok_def rows_ok_def counts_ok_def row_items_def turns_def admissions_def)

lemma queue_history_inv: "queue_history cfg ls s \<Longrightarrow> queue_inv cfg ls s"
  by (induction rule: queue_history.induct) (auto intro: queue_inv_start queue_inv_step)

end
