(* ===== verification/Prompt_Queue_Theorems.thy ===== *)
theory Prompt_Queue_Theorems
  imports Prompt_Queue_Invariant
begin

text \<open>
  What the prompt queues guarantee: at most one turn per admission, no prompt lost without a trace,
  queues that always load, saves that never overwrite each other, mutations with exactly their
  effect, and dispatch of the oldest head. One property shows a prompt that is lost all the same,
  because the repair after a crash cannot tell the attempts of an item apart.
\<close>

section \<open>Optimistic concurrency\<close>

definition queue_cas :: "doc_size \<Rightarrow> queue_store \<Rightarrow> string \<Rightarrow> nat \<Rightarrow> time \<times> prompt_queue \<Rightarrow> queue_store option" where
  "queue_cas bytes st sid n r =
     (if TrimSpace sid \<noteq> sid then None
      else case SavePromptQueueCAS bytes None (fst r) sid (int n) (snd r) st of
        (Inl _, _) \<Rightarrow> None
      | (Inr _, st') \<Rightarrow> Some st')"

lemma queue_cas_Some:
  assumes "queue_cas bytes st sid n r = Some st'" and "rows_ok bytes st"
  shows "TrimSpace sid = sid" and "row_revision st sid = int n" and "row_revision st' sid = int n + 1"
    and "k \<noteq> sid \<Longrightarrow> row_revision st' k = row_revision st k" and "rows_ok bytes st'"
proof -
  show t: "TrimSpace sid = sid" using assms(1) by (simp add: queue_cas_def split: if_splits)
  obtain saved seq where "savePromptQueueCAS bytes None (fst r) sid (int n) (snd r) None st = (Inr (saved, seq), st')"
    using assms(1) by (auto simp: queue_cas_def SavePromptQueueCAS_def split: if_splits sum.splits prod.splits)
  from queue_save_Inr [OF this assms(2)] t
  show "row_revision st sid = int n" "row_revision st' sid = int n + 1" "rows_ok bytes st'"
    "k \<noteq> sid \<Longrightarrow> row_revision st' k = row_revision st k"
    by (simp_all add: row_revision_def)
qed

interpretation pq: versioned_store "rows_ok bytes" "\<lambda>st sid. nat (row_revision st sid)" "queue_cas bytes" for bytes
proof unfold_locales
  fix st sid n r st' k assume r: "rows_ok bytes st" and c: "queue_cas bytes st sid n r = Some st'"
  note facts = queue_cas_Some [OF c r]
  show "nat (row_revision st sid) = n" "nat (row_revision st' sid) = n + 1" "rows_ok bytes st'"
    using facts by simp_all
  show "k \<noteq> sid \<Longrightarrow> nat (row_revision st' k) = nat (row_revision st k)" using facts(4) by simp
qed

text \<open>The save writes the queue it returns.\<close>

lemma save_row:
  assumes "savePromptQueueCAS bytes io now sid0 expected q g st = (Inr (saved, seq), st')"
  shows "tget (qs_rows st') (TrimSpace sid0) = Some \<lparr>qr_Revision = pq_Revision saved, qr_State = pq_State saved,
      qr_PauseReason = pq_PauseReason saved, qr_Items = pq_Items saved, qr_UpdatedAt = pq_UpdatedAt saved\<rparr>"
    and "pq_Version saved = PromptQueueVersion"
  using assms by (auto simp: savePromptQueueCAS_def append_block_def tinsert_ignore_def tupdate_where_def Let_def
    split: if_splits option.splits sum.splits prod.splits)

lemma save_loads:
  assumes "savePromptQueueCAS bytes io now sid expected q g st = (Inr (saved, seq), st')" and "rows_ok bytes st"
  shows "loadPromptQueueWithQueries bytes (TrimSpace sid) st' = Inr saved"
proof -
  note row = save_row [OF assms(1)] and save = queue_save_Inr [OF assms]
  from row(1) save(11) have "queue_row_ok bytes (TrimSpace sid) \<lparr>qr_Revision = pq_Revision saved, qr_State = pq_State saved,
      qr_PauseReason = pq_PauseReason saved, qr_Items = pq_Items saved, qr_UpdatedAt = pq_UpdatedAt saved\<rparr>"
    by (simp add: rows_ok_def)
  from decode_row_ok [OF this] row save(8) show ?thesis
    by (simp add: loadPromptQueueWithQueries_def row_queue_def)
qed

lemma save_again:
  assumes "savePromptQueueCAS bytes io now sid expected q None st = (Inr (saved, seq), st1)" and "rows_ok bytes st1"
    and "row_revision st1 (TrimSpace sid) = expected + 1" and "loadPromptQueueWithQueries bytes (TrimSpace sid) st2 = Inr current"
    and "row_revision st2 (TrimSpace sid) = expected + 1"
  shows "savePromptQueueCAS bytes io now sid expected q None st2 = (Inl (PromptQueueRevisionConflict expected current), st2)"
proof -
  have "0 \<le> expected" using assms(1) by (auto simp: savePromptQueueCAS_def Let_def split: if_splits)
  with assms(5) obtain row where "tget (qs_rows st2) (TrimSpace sid) = Some row" "qr_Revision row = expected + 1"
    by (cases "tget (qs_rows st2) (TrimSpace sid)") (auto simp: row_revision_def)
  then have w: "fst (tinsert_ignore (\<lambda>_. False) (TrimSpace sid) r (qs_rows st2)) = 0"
    "fst (tupdate_where (TrimSpace sid) (\<lambda>old. qr_Revision old = expected) r (qs_rows st2)) = 0" for r
    by (simp_all add: tinsert_ignore_def tupdate_where_def)
  show ?thesis using assms(1,4) unfolding savePromptQueueCAS_def Let_def
    by (auto simp: w split: if_splits option.splits)
qed

text \<open>Of two clients that save against the same revision the second is refused, with the queue
  that the first one saved and that reading the session returns.\<close>

theorem queue_save_conflict:
  assumes "queue_history cfg ls s"
    and "SavePromptQueueCAS (qc_bytes cfg) io1 now1 sid n q1 (sy_store s) = (Inr saved1, st1)"
    and "SavePromptQueueCAS (qc_bytes cfg) io2 now2 sid n q2 (sy_store s) = (Inr saved2, st2)"
  shows "LoadPromptQueue (qc_bytes cfg) sid st1 = Inr saved1 \<and>
    SavePromptQueueCAS (qc_bytes cfg) io2 now2 sid n q2 st1 = (Inl (PromptQueueRevisionConflict n saved1), st1)"
proof -
  have r: "rows_ok (qc_bytes cfg) (sy_store s)"
    using inv_parts(1) [OF queue_history_inv [OF assms(1)]] by (simp add: stored_ok_def)
  obtain seq1 where s1: "savePromptQueueCAS (qc_bytes cfg) io1 now1 sid n q1 None (sy_store s) = (Inr (saved1, seq1), st1)"
    using assms(2) by (auto simp: SavePromptQueueCAS_def split: sum.splits prod.splits)
  obtain seq2 where s2: "savePromptQueueCAS (qc_bytes cfg) io2 now2 sid n q2 None (sy_store s) = (Inr (saved2, seq2), st2)"
    using assms(3) by (auto simp: SavePromptQueueCAS_def split: sum.splits prod.splits)
  note one = queue_save_Inr [OF s1 r] and two = queue_save_Inr [OF s2 r]
  note load = save_loads [OF s1 r]
  from save_again [OF s2 two(11) two(4) load one(4)] load one(1) show ?thesis
    by (simp add: SavePromptQueueCAS_def LoadPromptQueue_def)
qed

section \<open>Mutations and dispatch\<close>

text \<open>C16. A successful mutation has on the item ids exactly the effect of its operation, bumps the
  revision the client named, and changes no dispatching item and no other session's queue; when
  nothing is written the prompt was there already or was to be moved before itself.\<close>

theorem queue_mutation_effect:
  assumes "queue_history cfg ls s" and "sid = TrimSpace (qm_SessionID m)"
    and "MutatePromptQueue cfg io now m (turn, sy_store s) = ((Inr saved, wake), turn', st')"
  shows "(if st' = sy_store s
      then TrimSpace (qm_Operation m) = ''enqueue'' \<and> TrimSpace (qp_ID (qm_Item m)) \<in> qp_ID ` set (row_items st' sid) \<or>
           TrimSpace (qm_Operation m) = ''reorder'' \<and> qm_ItemID m = qm_BeforeID m
      else map qp_ID (row_items st' sid) = id_effect m (map qp_ID (row_items (sy_store s) sid)) \<and>
           filter dispatching (row_items st' sid) = filter dispatching (row_items (sy_store s) sid) \<and>
           row_revision (sy_store s) sid = qm_ExpectedRevision m \<and> row_revision st' sid = qm_ExpectedRevision m + 1) \<and>
    (\<forall>k. k \<noteq> sid \<longrightarrow> tget (qs_rows st') k = tget (qs_rows (sy_store s)) k)"
proof -
  note stored = inv_parts(1) [OF queue_history_inv [OF assms(1)]]
  obtain m' q where b: "begin_mutation cfg m (sy_store s) = Inr (m', q)"
    and f: "finish_mutation cfg io now m' q (turn, sy_store s) = ((Inr saved, wake), turn', st')"
    using assms(3) by (auto simp: MutatePromptQueue_def split: sum.splits prod.splits)
  have m': "m' = trim_mutation m" and l: "LoadPromptQueue (qc_bytes cfg) sid (sy_store s) = Inr q"
    and rev: "pq_Revision q = qm_ExpectedRevision m"
    using b assms(2) by (auto simp: begin_mutation_def trim_mutation_def Let_def bindE_eq_Inr split: if_splits)
  note q = load_snapshot [OF l stored]
  have sid: "pq_SessionID q = sid" using q(2) assms(2) by simp
  have "\<not> blank sid" using q(3) sid assms(2) by (auto simp: blank_def)
  with load_ok [of "qc_bytes cfg" "sy_store s" sid] l stored assms(2)
  have loaded: "pq_Items q = row_items (sy_store s) sid" "pq_Revision q = row_revision (sy_store s) sid"
    by (auto simp: stored_ok_def)
  have op: "qm_Operation m' = qm_Operation m" "qm_Item m' = qm_Item m" "qm_ItemID m' = qm_ItemID m" "qm_BeforeID m' = qm_BeforeID m"
    by (simp_all add: m' trim_mutation_def)
  have ef: "id_effect m' ids = id_effect m ids" for ids by (simp only: id_effect_def op)
  have calls: "qm_SessionID m' = pq_SessionID q" "qm_ExpectedRevision m' = pq_Revision q"
    using sid rev assms(2) by (simp_all add: m' trim_mutation_def)
  show ?thesis
  proof (cases "st' = sy_store s")
    case False
    with finish_mutation_write [OF f stored q(1) calls] sid obtain items'
      where w: "row_write sid items' (sy_store s) st'" "mutates m' (row_items (sy_store s) sid) items'" by auto
    with False loaded rev show ?thesis by (auto simp: row_write_def mutates_def ef)
  next
    case True
    have no_write: False if "savePromptQueueCAS (qc_bytes cfg) io now (qm_SessionID m') (qm_ExpectedRevision m') q' g (sy_store s) = (Inr (x, y), st')" for q' g x y
      using row_write_save(1) [OF that stored] True by (simp add: row_write_def)
    have "TrimSpace (qm_Operation m) \<noteq> ''guide''"
    proof
      assume "TrimSpace (qm_Operation m) = ''guide''"
      with f op(1) have "guideQueuedPrompt cfg io now m' q (turn, sy_store s) = (Inr saved, turn', st')"
        by (simp add: finish_mutation_def split: prod.splits)
      then show False using no_write
        by (auto simp: guideQueuedPrompt_def SavePromptQueueWithGuidance_def Let_def
          split: option.splits if_splits sum.splits prod.splits)
    qed
    with f op(1) no_write have "mutation_plan cfg now m' q = PlanUnchanged"
      by (auto simp: finish_mutation_def SavePromptQueueCAS_def split: queue_plan.splits sum.splits prod.splits)
    then have "TrimSpace (qm_Operation m) = ''enqueue'' \<and> TrimSpace (qp_ID (qm_Item m)) \<in> qp_ID ` set (pq_Items q) \<or>
           TrimSpace (qm_Operation m) = ''reorder'' \<and> qm_ItemID m = qm_BeforeID m"
      using op index_None [of "pq_Items q" "TrimSpace (qp_ID (qm_Item m))"]
      by (auto simp: mutation_plan_def enqueue_plan_def update_plan_def remove_plan_def reorder_plan_def retry_plan_def Let_def
        split: if_splits option.splits)
    with True loaded show ?thesis by simp
  qed
qed

section \<open>Histories\<close>


text \<open>C10. No prompt is lost silently: an admitted prompt is still in the queue of its session, or a
  client has withdrawn it, or a run or a block of the transcript is recorded under its id.\<close>

theorem queue_keeps_prompts:
  assumes "queue_history cfg ls s" and "ItemAdmitted sid iid \<in> set ls"
  shows "iid \<in> qp_ID ` set (row_items (sy_store s) sid) \<or>
    ItemWithdrawn sid iid \<in> set ls \<or> item_consumed (QueueItemRuns (sy_metadata s)) (sy_store s) sid iid"
proof -
  have "0 < admissions ls sid iid" using assms(2) by (simp add: admissions_def count_list_0_iff neq0_conv [symmetric] del: neq0_conv)
  with inv_parts(2) [OF queue_history_inv [OF assms(1)]] show ?thesis
    unfolding counts_ok_def recorded_def by blast
qed

text \<open>C38. In every reachable state the queue of each session loads: the row passes the validation
  that reading it repeats, so that one bad queue cannot stop the dispatch of all of them.\<close>

theorem queue_always_loads:
  assumes "queue_history cfg ls s" and "\<not> blank sid"
  shows "\<exists>q. LoadPromptQueue (qc_bytes cfg) sid (sy_store s) = Inr q \<and> validatePromptQueue q = None"
  using load_ok [OF _ assms(2)] inv_parts(1) [OF queue_history_inv [OF assms(1)]]
  unfolding stored_ok_def by blast

section \<open>Executable histories\<close>

text \<open>The moves of a scripted history; a call is finished in the order of its begin.\<close>

datatype queue_move =
    MoveSession string
  | MoveBegin queue_mutation
  | MoveEnd time
  | MoveReconcile
  | MoveRepair time
  | MoveReconciled
  | MoveWake
  | MovePick
  | MoveClaim time
  | MoveRecord
  | MoveBlock
  | MoveBranch string "int list"
  | MoveFail string time
  | MoveStart string time
  | MoveSettle time
  | MoveCrash

text \<open>The block of \<^verbatim>\<open>userTurnBlock\<close>.\<close>

definition user_turn_block :: "string \<Rightarrow> session_block" where
  "user_turn_block iid = \<lparr>sb_Kind = ''user'', sb_State = [], sb_RunID = ''t1'', sb_Content = ''fix it'', sb_Attachments = [],
     sb_Data = [(''queueItemId'', iid)], sb_Sequence = 0\<rparr>"

fun run_move :: "queue_config \<Rightarrow> queue_move \<Rightarrow> queue_system \<Rightarrow> (queue_label \<times> queue_system) option" where
  "run_move cfg (MoveSession sid) s =
     Some (Silent, s\<lparr>sy_store := (sy_store s)\<lparr>qs_sessions := sid # qs_sessions (sy_store s)\<rparr>\<rparr>)"
| "run_move cfg (MoveBegin m0) s = (case begin_mutation cfg m0 (sy_store s) of
     Inl _ \<Rightarrow> None | Inr (m, q) \<Rightarrow> Some (Silent, s\<lparr>sy_calls := sy_calls s @ [MutationCall m q]\<rparr>))"
| "run_move cfg (MoveEnd now) s = (case sy_calls s of
     MutationCall m q # ys \<Rightarrow> (case finish_mutation cfg None now m q (sy_turn s, sy_store s) of
         ((r, wake), turn', st') \<Rightarrow> Some (written_label m (sy_store s) st',
           s\<lparr>sy_calls := ys, sy_turn := turn', sy_store := st', sy_wake := sy_wake s \<or> wake\<rparr>))
   | _ \<Rightarrow> None)"
| "run_move cfg MoveReconcile s = (case (sy_phase s, ListPromptQueues (qc_bytes cfg) (sy_store s)) of
     (PhaseStartup, Inr queues) \<Rightarrow> Some (Silent, s\<lparr>sy_phase := PhaseReconcile (QueueItemRuns (sy_metadata s)) queues\<rparr>)
   | _ \<Rightarrow> None)"
| "run_move cfg (MoveRepair now) s = (case sy_phase s of
     PhaseReconcile durable (q # qs) \<Rightarrow> (case reconcile_write cfg None now durable q qs (sy_store s) of
         (phase', st') \<Rightarrow> Some (Silent, s\<lparr>sy_phase := phase', sy_store := st'\<rparr>))
   | _ \<Rightarrow> None)"
| "run_move cfg MoveReconciled s = (case sy_phase s of
     PhaseReconcile _ [] \<Rightarrow> Some (Silent, s\<lparr>sy_phase := PhaseWait\<rparr>) | _ \<Rightarrow> None)"
| "run_move cfg MoveWake s =
     (if sy_phase s = PhaseWait \<and> sy_wake s then Some (Silent, s\<lparr>sy_phase := PhaseDispatch, sy_wake := False\<rparr>) else None)"
| "run_move cfg MovePick s =
     (if sy_phase s = PhaseDispatch then Some (Silent, s\<lparr>sy_phase := dispatch_pick cfg (sy_turn s) (sy_store s)\<rparr>) else None)"
| "run_move cfg (MoveClaim now) s = (case sy_phase s of
     PhasePicked q \<Rightarrow> (case dispatch_claim cfg None now q (sy_store s) of
         (phase', st') \<Rightarrow> Some (Silent, s\<lparr>sy_phase := phase', sy_store := st'\<rparr>))
   | _ \<Rightarrow> None)"
| "run_move cfg MoveRecord s = (case sy_phase s of
     PhaseClaimed sid iid \<Rightarrow> Some (Silent, s\<lparr>sy_metadata := sy_metadata s @ [(sid, iid)], sy_phase := PhaseRecorded sid iid\<rparr>)
   | _ \<Rightarrow> None)"
| "run_move cfg MoveBlock s = (case sy_phase s of
     PhaseClaimed sid iid \<Rightarrow> Some (RunlessBlock sid iid,
       s\<lparr>sy_store := snd (append_block sid (user_turn_block iid) (sy_store s)), sy_phase := PhaseRecorded sid iid\<rparr>)
   | _ \<Rightarrow> None)"
| "run_move cfg (MoveBranch sid branch) s =
     Some (BranchMoved sid, s\<lparr>sy_store := (sy_store s)\<lparr>qs_branch := (qs_branch (sy_store s))(sid := branch)\<rparr>\<rparr>)"
| "run_move cfg (MoveFail reason now) s = (case sy_phase s of
     PhaseRecorded sid iid \<Rightarrow> Some (Silent, s\<lparr>sy_phase := settle_pass cfg (SettleFail reason) now sid iid 4 (sy_store s)\<rparr>)
   | _ \<Rightarrow> None)"
| "run_move cfg (MoveStart runID now) s = (case sy_phase s of
     PhaseRecorded sid iid \<Rightarrow> Some (TurnStarted sid iid,
       s\<lparr>sy_phase := settle_pass cfg (SettleConsume runID) now sid iid 4 (sy_store s)\<rparr>)
   | _ \<Rightarrow> None)"
| "run_move cfg (MoveSettle now) s = (case sy_phase s of
     PhaseSettling how sid iid n q \<Rightarrow> (case settle_write cfg None now how sid iid n q (sy_store s) of
         (phase', st') \<Rightarrow> Some (Silent, s\<lparr>sy_phase := phase', sy_store := st'\<rparr>))
   | _ \<Rightarrow> None)"
| "run_move cfg MoveCrash s =
     Some (Silent, s\<lparr>sy_turn := idle_turn, sy_calls := [], sy_phase := PhaseStartup, sy_wake := True\<rparr>)"

lemma run_move_step: "run_move cfg mv s = Some (l, s') \<Longrightarrow> queue_step cfg s l s'"
proof (induction cfg mv s rule: run_move.induct)
  case (3 cfg now s)
  then obtain m q ys where c: "sy_calls s = [] @ MutationCall m q # ys"
    by (auto split: list.splits queue_call.splits)
  obtain r wake turn' st' where f: "finish_mutation cfg None now m q (sy_turn s, sy_store s) = ((r, wake), turn', st')"
    by (metis surj_pair)
  from mutation_ends [OF c f] 3 c f show ?case by simp
next
  case (11 cfg s)
  then obtain sid iid where p: "sy_phase s = PhaseClaimed sid iid" and r: "l = RunlessBlock sid iid"
    "s' = s\<lparr>sy_store := snd (append_block sid (user_turn_block iid) (sy_store s)), sy_phase := PhaseRecorded sid iid\<rparr>"
    by (auto split: queue_phase.splits)
  have "map_of (sb_Data (user_turn_block iid)) ''queueItemId'' = Some iid" by (simp add: user_turn_block_def)
  from block_recorded [OF disjI1 [OF p] this, of cfg] p r show ?case by simp
qed (auto intro: queue_step.intros split: sum.splits prod.splits list.splits queue_phase.splits if_splits)

fun queue_script :: "queue_config \<Rightarrow> queue_move list \<Rightarrow> queue_label list \<times> queue_system \<Rightarrow> (queue_label list \<times> queue_system) option" where
  "queue_script cfg [] (ls, s) = Some (ls, s)"
| "queue_script cfg (mv # mvs) (ls, s) = (case run_move cfg mv s of
     None \<Rightarrow> None | Some (l, s') \<Rightarrow> queue_script cfg mvs (ls @ [l], s'))"

lemma queue_script_history:
  "queue_script cfg mvs (ls, s) = Some (ls', s') \<Longrightarrow> queue_history cfg ls s \<Longrightarrow> queue_history cfg ls' s'"
  by (induction mvs arbitrary: ls s) (auto dest: run_move_step intro: history_step split: option.splits)

definition plain_config :: queue_config where
  "plain_config = \<lparr>qc_bytes = int \<circ> length, qc_owns = (\<lambda>_ _. True), qc_resolve = (\<lambda>_ text. Inr (text, []))\<rparr>"

definition sample_item :: queued_prompt where
  "sample_item = \<lparr>qp_ID = ''p1'', qp_Text = ''fix it'', qp_Attachments = [], qp_State = QueuedPromptQueued, qp_RunID = [],
     qp_Error = [], qp_Attempts = 0, qp_CreatedAt = 0, qp_UpdatedAt = 0\<rparr>"

definition sample_mutation :: "string \<Rightarrow> int \<Rightarrow> queue_mutation" where
  "sample_mutation op revision = \<lparr>qm_Operation = op, qm_SessionID = ''s'', qm_MutationID = ''m'', qm_ExpectedRevision = revision,
     qm_Item = sample_item, qm_ItemID = ''p1'', qm_BeforeID = [], qm_PauseReason = [], qm_RunID = []\<rparr>"

text \<open>A prompt is enqueued, claimed and started.\<close>

definition sample_start :: "queue_move list" where
  "sample_start = [MoveSession ''s'', MoveBegin (sample_mutation ''enqueue'' 0), MoveEnd 5, MoveReconcile, MoveRepair 6, MoveReconciled,
     MoveWake, MovePick, MoveClaim 7, MoveRecord, MoveStart ''r1'' 8, MoveSettle 9]"

text \<open>The run of a prompt is recorded but its start fails; it is retried, claimed, and the daemon crashes.\<close>

definition sample_retry :: "queue_move list" where
  "sample_retry = [MoveSession ''s'', MoveBegin (sample_mutation ''enqueue'' 0), MoveEnd 5, MoveReconcile, MoveRepair 6, MoveReconciled,
     MoveWake, MovePick, MoveClaim 7, MoveRecord, MoveFail ''persist user turn'' 8, MoveSettle 9,
     MoveBegin (sample_mutation ''retry'' 3), MoveEnd 10, MovePick, MoveClaim 11,
     MoveCrash, MoveReconcile, MoveRepair 12, MoveReconciled]"

text \<open>A team's turn is started, the client goes back to the start of the session, and the daemon crashes
  before the item is removed from the queue.\<close>

definition sample_navigation :: "queue_move list" where
  "sample_navigation = [MoveSession ''s'', MoveBegin (sample_mutation ''enqueue'' 0), MoveEnd 5, MoveReconcile, MoveRepair 6, MoveReconciled,
     MoveWake, MovePick, MoveClaim 7, MoveBlock, MoveStart ''t1'' 8, MoveBranch ''s'' [], MoveCrash, MoveReconcile, MoveRepair 9,
     MoveReconciled, MoveWake, MovePick, MoveClaim 10, MoveBlock, MoveStart ''t2'' 11]"

lemma sample_navigation_labels:
  "map_option (\<lambda>(ls, s). (count_list ls (ItemAdmitted ''s'' ''p1''), count_list ls (TurnStarted ''s'' ''p1'')))
     (queue_script plain_config sample_navigation ([], queue_start)) = Some (1, 2)"
  by code_simp

lemma sample_start_labels:
  "map_option fst (queue_script plain_config sample_start ([], queue_start)) =
     Some [Silent, Silent, ItemAdmitted ''s'' ''p1'', Silent, Silent, Silent, Silent, Silent, Silent, Silent, TurnStarted ''s'' ''p1'', Silent]"
  by code_simp

lemma sample_retry_result:
  "map_option (\<lambda>(ls, s). (ls, row_items (sy_store s) ''s'', sy_phase s)) (queue_script plain_config sample_retry ([], queue_start)) =
     Some ([Silent, Silent, ItemAdmitted ''s'' ''p1'', Silent, Silent, Silent, Silent, Silent, Silent, Silent, Silent, Silent,
       Silent, ItemAdmitted ''s'' ''p1'', Silent, Silent, Silent, Silent, Silent, Silent], [], PhaseWait)"
  by code_simp

definition dispatchable :: "queue_row \<Rightarrow> bool" where
  "dispatchable row \<longleftrightarrow> qr_State row = PromptQueueActive \<and> qr_Items row \<noteq> [] \<and>
     qp_State (hd (qr_Items row)) = QueuedPromptQueued"

definition row_age :: "string \<Rightarrow> queue_row \<Rightarrow> time \<times> string \<times> string" where
  "row_age sid row = (qp_CreatedAt (hd (qr_Items row)), sid, qp_ID (hd (qr_Items row)))"

lemma load_queues_rows:
  assumes "rows_ok bytes st" and "set sids \<subseteq> fst ` set (qs_rows st)"
  shows "load_queues bytes sids st = Inr (map (\<lambda>sid. row_queue sid (the (tget (qs_rows st) sid))) sids)"
  using assms(2)
proof (induction sids)
  case (Cons sid sids)
  then obtain row where row: "tget (qs_rows st) sid = Some row" 
    by (metis image_iff list.set_intros(1) map_of_eq_None_iff not_Some_eq subsetD tget_def)
  with assms(1) have ok: "queue_row_ok bytes sid row" by (simp add: rows_ok_def)
  then have t: "TrimSpace sid = sid" "sid \<noteq> []"
    by (auto simp: queue_row_ok_def validatePromptQueue_None row_queue_def)
  have "LoadPromptQueue bytes sid st = Inr (row_queue sid row)"
    using t row decode_row_ok [OF ok] by (simp add: LoadPromptQueue_def loadPromptQueueWithQueries_def)
  with Cons row show ?case by simp
qed simp

lemma ListPromptQueues_rows:
  assumes "rows_ok bytes st"
  shows "\<exists>qs. ListPromptQueues bytes st = Inr qs \<and>
    set qs = {row_queue sid row | sid row. tget (qs_rows st) sid = Some row}"
proof -
  let ?sids = "sort (map fst (qs_rows st))"
  have l: "ListPromptQueues bytes st = Inr (map (\<lambda>sid. row_queue sid (the (tget (qs_rows st) sid))) ?sids)"
    using load_queues_rows [OF assms, of ?sids] by (simp add: ListPromptQueues_def)
  have keys: "sid \<in> fst ` set (qs_rows st) \<longleftrightarrow> (\<exists>row. tget (qs_rows st) sid = Some row)" for sid
    by (metis map_of_eq_None_iff not_Some_eq tget_def)
  have "set (map (\<lambda>sid. row_queue sid (the (tget (qs_rows st) sid))) ?sids) =
      {row_queue sid row | sid row. tget (qs_rows st) sid = Some row}"
  proof (intro equalityI subsetI)
    fix q assume "q \<in> set (map (\<lambda>sid. row_queue sid (the (tget (qs_rows st) sid))) ?sids)"
    then obtain sid where "sid \<in> fst ` set (qs_rows st)" "q = row_queue sid (the (tget (qs_rows st) sid))" by auto
    with keys show "q \<in> {row_queue sid row | sid row. tget (qs_rows st) sid = Some row}" by fastforce
  next
    fix q assume "q \<in> {row_queue sid row | sid row. tget (qs_rows st) sid = Some row}"
    then obtain sid row where r: "tget (qs_rows st) sid = Some row" "q = row_queue sid row" by blast
    then have "sid \<in> set ?sids" using keys by auto
    with r show "q \<in> set (map (\<lambda>sid. row_queue sid (the (tget (qs_rows st) sid))) ?sids)" by force
  qed
  with l show ?thesis by blast
qed

lemma select_candidate_least:
  assumes "select_candidate qs = Some q" and "p \<in> set (dispatch_candidates qs)"
  shows "candidate_key q \<le> candidate_key p"
proof -
  obtain rest where s: "sort_key candidate_key (dispatch_candidates qs) = q # rest"
    using assms(1) by (auto simp: select_candidate_def split: list.splits)
  have "p \<in> set (q # rest)" using assms(2) by (simp flip: s)
  moreover have "sorted (map candidate_key (q # rest))" by (simp flip: s)
  ultimately show ?thesis by auto
qed

lemma select_candidate_None: "select_candidate qs = None \<longleftrightarrow> dispatch_candidates qs = []"
  by (metis list.simps(4) option.simps(3) list.exhaust list.simps(5) length_sort length_0_conv select_candidate_def)

lemma candidate_rows:
  assumes "set qs = {row_queue sid row | sid row. tget rows sid = Some row}"
  shows "set (dispatch_candidates qs) = {row_queue sid row | sid row. tget rows sid = Some row \<and> dispatchable row}"
  using assms by (auto simp: dispatch_candidates_def dispatchable_def row_queue_def)

text \<open>C32. In every reachable state the coordinator picks, if no run is active and a queue is active
  with a queued head, the oldest of these heads, ties broken by session and item; otherwise it waits.\<close>

theorem dispatch_oldest_first:
  assumes "queue_history cfg ls s"
  shows "case dispatch_pick cfg turn (sy_store s) of
      PhasePicked q \<Rightarrow> \<not> turn_busy turn \<and>
        (\<exists>row. tget (qs_rows (sy_store s)) (pq_SessionID q) = Some row \<and> dispatchable row \<and>
           q = row_queue (pq_SessionID q) row \<and>
           (\<forall>sid other. tget (qs_rows (sy_store s)) sid = Some other \<longrightarrow> dispatchable other \<longrightarrow>
              row_age (pq_SessionID q) row \<le> row_age sid other))
    | phase \<Rightarrow> phase = PhaseWait \<and>
        (turn_busy turn \<or> (\<forall>sid row. tget (qs_rows (sy_store s)) sid = Some row \<longrightarrow> \<not> dispatchable row))"
proof -
  let ?rows = "qs_rows (sy_store s)"
  have "rows_ok (qc_bytes cfg) (sy_store s)"
    using inv_parts(1) [OF queue_history_inv [OF assms]] by (simp add: stored_ok_def)
  from ListPromptQueues_rows [OF this] obtain qs where l: "ListPromptQueues (qc_bytes cfg) (sy_store s) = Inr qs"
    and "set qs = {row_queue sid row | sid row. tget ?rows sid = Some row}" by blast
  note cand = candidate_rows [OF this(2)]
  show ?thesis
  proof (cases "turn_busy turn \<or> select_candidate qs = None")
    case True
    then have "dispatch_pick cfg turn (sy_store s) = PhaseWait" using l by (auto simp: dispatch_pick_def)
    moreover have "\<not> dispatchable row" if "\<not> turn_busy turn" "tget ?rows sid = Some row" for sid row
      using True that cand unfolding select_candidate_None by auto
    ultimately show ?thesis by auto
  next
    case False
    then obtain q where q: "select_candidate qs = Some q" by auto
    then have "q \<in> set (dispatch_candidates qs)"
      by (auto simp: dispatch_candidates_def dest: select_candidate_in)
    then obtain sid row where r: "q = row_queue sid row" "tget ?rows sid = Some row" "dispatchable row"
      unfolding cand by blast
    have key: "candidate_key (row_queue k r') = row_age k r'" for k r'
      by (simp add: candidate_key_def row_age_def row_queue_def)
    have "row_age sid row \<le> row_age k other" if "tget ?rows k = Some other" "dispatchable other" for k other
    proof -
      have "row_queue k other \<in> set (dispatch_candidates qs)" unfolding cand using that by blast
      from select_candidate_least [OF q this] show ?thesis by (simp add: r(1) key)
    qed
    moreover have "pq_SessionID q = sid" by (simp add: r(1) row_queue_def)
    moreover have "dispatch_pick cfg turn (sy_store s) = PhasePicked q" using False q l by (simp add: dispatch_pick_def)
    ultimately show ?thesis using False r by simp
  qed
qed

text \<open>A retried prompt can be lost: the repair after a crash takes a run that was recorded for an
  earlier attempt, whose start had failed, for the one that the crash cut off.\<close>

theorem queue_drops_retried_prompt:
  "\<exists>ls s. queue_history plain_config ls s \<and> sy_phase s = PhaseWait \<and> row_items (sy_store s) ''s'' = [] \<and>
     count_list ls (ItemAdmitted ''s'' ''p1'') = 2 \<and>
     (\<forall>sid iid. TurnStarted sid iid \<notin> set ls \<and> ItemWithdrawn sid iid \<notin> set ls)"
proof -
  obtain ls s where r: "queue_script plain_config sample_retry ([], queue_start) = Some (ls, s)"
    and f: "ls = [Silent, Silent, ItemAdmitted ''s'' ''p1'', Silent, Silent, Silent, Silent, Silent, Silent, Silent, Silent, Silent,
       Silent, ItemAdmitted ''s'' ''p1'', Silent, Silent, Silent, Silent, Silent, Silent]"
      "row_items (sy_store s) ''s'' = []" "sy_phase s = PhaseWait"
    using sample_retry_result by (auto simp: map_option_case split: option.splits)
  have "queue_history plain_config ls s" by (rule queue_script_history [OF r history_empty])
  with f show ?thesis by (intro exI [of _ ls] exI [of _ s]) simp
qed

text \<open>A prompt that was enqueued once can run twice.\<close>

theorem queue_restarts_after_navigation:
  "\<exists>ls s. queue_history plain_config ls s \<and> count_list ls (ItemAdmitted ''s'' ''p1'') = 1 \<and>
     count_list ls (TurnStarted ''s'' ''p1'') = 2"
proof -
  obtain ls s where r: "queue_script plain_config sample_navigation ([], queue_start) = Some (ls, s)"
    and c: "count_list ls (ItemAdmitted ''s'' ''p1'') = 1" "count_list ls (TurnStarted ''s'' ''p1'') = 2"
    using sample_navigation_labels by (auto simp: map_option_case split: option.splits)
  from queue_script_history [OF r history_empty] c show ?thesis by blast
qed

section \<open>Witnesses\<close>

text \<open>The history of one prompt, up to the moment its turn has started.\<close>

lemma sample_start_history:
  "\<exists>s. queue_history plain_config [Silent, Silent, ItemAdmitted ''s'' ''p1'', Silent, Silent, Silent, Silent, Silent, Silent, Silent,
     TurnStarted ''s'' ''p1'', Silent] s"
proof -
  obtain ls s where r: "queue_script plain_config sample_start ([], queue_start) = Some (ls, s)"
    and f: "ls = [Silent, Silent, ItemAdmitted ''s'' ''p1'', Silent, Silent, Silent, Silent, Silent, Silent, Silent, TurnStarted ''s'' ''p1'', Silent]"
    using sample_start_labels by auto
  from queue_script_history [OF r history_empty] f show ?thesis by blast
qed


lemma queue_keeps_prompts_witness:
  "\<exists>ls s. queue_history plain_config ls s \<and> ItemAdmitted ''s'' ''p1'' \<in> set ls \<and>
     (''p1'' \<in> qp_ID ` set (row_items (sy_store s) ''s'') \<or> ItemWithdrawn ''s'' ''p1'' \<in> set ls \<or>
      item_consumed (QueueItemRuns (sy_metadata s)) (sy_store s) ''s'' ''p1'')"
proof -
  obtain s where h: "queue_history plain_config [Silent, Silent, ItemAdmitted ''s'' ''p1'', Silent, Silent, Silent, Silent, Silent, Silent, Silent,
     TurnStarted ''s'' ''p1'', Silent] s" (is "queue_history _ ?ls s")
    using sample_start_history by blast
  have "ItemAdmitted ''s'' ''p1'' \<in> set ?ls" by simp
  with h queue_keeps_prompts [OF h this] show ?thesis by blast
qed

lemma queue_always_loads_witness:
  "\<exists>ls s. queue_history plain_config ls s \<and> \<not> blank ''s'' \<and>
     (\<exists>q. LoadPromptQueue (qc_bytes plain_config) ''s'' (sy_store s) = Inr q \<and> validatePromptQueue q = None)"
proof -
  have b: "\<not> blank ''s''" by code_simp
  from sample_start_history obtain ls s where h: "queue_history plain_config ls s" by blast
  from queue_always_loads [OF h b] h b show ?thesis by blast
qed

definition sample_queue :: prompt_queue where
  "sample_queue = \<lparr>pq_Version = 1, pq_SessionID = ''s'', pq_Revision = 0, pq_State = PromptQueueActive, pq_PauseReason = [],
     pq_Items = [sample_item\<lparr>qp_CreatedAt := 5, qp_UpdatedAt := 5\<rparr>], pq_UpdatedAt = 0\<rparr>"

definition sample_system :: queue_system where
  "sample_system = queue_start\<lparr>sy_store := (sy_store queue_start)\<lparr>qs_sessions := [''s'']\<rparr>\<rparr>"

lemma sample_system_history: "queue_history plain_config [Silent] sample_system"
proof -
  have "queue_step plain_config queue_start Silent sample_system"
    using session_created [of plain_config queue_start "''s''"] by (simp add: sample_system_def queue_start_def)
  with history_step [OF history_empty this] show ?thesis by simp
qed

lemma sample_saves:
  "isl (fst (SavePromptQueueCAS (qc_bytes plain_config) None 5 ''s'' 0 sample_queue (sy_store sample_system))) = False"
  "isl (fst (SavePromptQueueCAS (qc_bytes plain_config) None 6 ''s'' 0 sample_queue (sy_store sample_system))) = False"
  by code_simp+

lemma queue_save_conflict_witness:
  "\<exists>saved st1. LoadPromptQueue (qc_bytes plain_config) ''s'' st1 = Inr saved \<and>
     SavePromptQueueCAS (qc_bytes plain_config) None 6 ''s'' 0 sample_queue st1 = (Inl (PromptQueueRevisionConflict 0 saved), st1)"
proof -
  have ex: "\<exists>saved st'. x = (Inr saved, st')" if "isl (fst x) = False" for x :: "(queue_error + prompt_queue) \<times> queue_store"
    using that by (cases x; cases "fst x") auto
  from ex [OF sample_saves(1)] ex [OF sample_saves(2)] obtain saved1 st1 saved2 st2
    where "SavePromptQueueCAS (qc_bytes plain_config) None 5 ''s'' 0 sample_queue (sy_store sample_system) = (Inr saved1, st1)"
      "SavePromptQueueCAS (qc_bytes plain_config) None 6 ''s'' 0 sample_queue (sy_store sample_system) = (Inr saved2, st2)" by blast
  from queue_save_conflict [OF sample_system_history this] show ?thesis by blast
qed

lemma sample_enqueues:
  "(case MutatePromptQueue plain_config None 5 (sample_mutation ''enqueue'' 0) (idle_turn, sy_store sample_system) of
      ((r, _), _, st') \<Rightarrow> \<not> isl r \<and> row_revision st' ''s'' = 1)"
  by code_simp

lemma queue_mutation_effect_witness:
  "\<exists>st'. row_revision st' ''s'' = 1 \<and> map qp_ID (row_items st' ''s'') = [''p1''] \<and>
     filter dispatching (row_items st' ''s'') = []"
proof -
  let ?m = "sample_mutation ''enqueue'' 0"
  obtain saved wake turn' st' where r: "MutatePromptQueue plain_config None 5 ?m (idle_turn, sy_store sample_system) = ((Inr saved, wake), turn', st')"
    and rev: "row_revision st' ''s'' = 1"
    using sample_enqueues
    by (cases "MutatePromptQueue plain_config None 5 ?m (idle_turn, sy_store sample_system)"; cases "fst (fst (MutatePromptQueue plain_config None 5 ?m (idle_turn, sy_store sample_system)))") auto
  have sid: "''s'' = TrimSpace (qm_SessionID ?m)" by code_simp
  have rev0: "row_revision (sy_store sample_system) ''s'' = 0" "row_items (sy_store sample_system) ''s'' = []" by code_simp+
  then have ne: "st' \<noteq> sy_store sample_system" using rev by auto
  have ids: "id_effect ?m [] = [''p1'']" by code_simp
  from queue_mutation_effect [OF sample_system_history sid r] ne rev0 ids rev show ?thesis by auto
qed

lemma sample_picks:
  "(case queue_script plain_config (take 3 sample_start) ([], queue_start) of None \<Rightarrow> False
    | Some (ls, s) \<Rightarrow> (case dispatch_pick plain_config idle_turn (sy_store s) of
        PhasePicked q \<Rightarrow> map qp_ID (pq_Items q) = [''p1''] | _ \<Rightarrow> False))"
  by code_simp

lemma dispatch_oldest_first_witness:
  "\<exists>ls s q row. queue_history plain_config ls s \<and> dispatch_pick plain_config idle_turn (sy_store s) = PhasePicked q \<and>
     tget (qs_rows (sy_store s)) (pq_SessionID q) = Some row \<and> dispatchable row \<and> map qp_ID (pq_Items q) = [''p1'']"
proof -
  obtain ls s where r: "queue_script plain_config (take 3 sample_start) ([], queue_start) = Some (ls, s)"
    and c: "case dispatch_pick plain_config idle_turn (sy_store s) of PhasePicked q \<Rightarrow> map qp_ID (pq_Items q) = [''p1''] | _ \<Rightarrow> False"
    using sample_picks by (auto split: option.splits)
  then obtain q where p: "dispatch_pick plain_config idle_turn (sy_store s) = PhasePicked q" and i: "map qp_ID (pq_Items q) = [''p1'']"
    by (cases "dispatch_pick plain_config idle_turn (sy_store s)") auto
  have h: "queue_history plain_config ls s" by (rule queue_script_history [OF r history_empty])
  obtain row where "tget (qs_rows (sy_store s)) (pq_SessionID q) = Some row" "dispatchable row"
    using dispatch_oldest_first [OF h, of idle_turn] unfolding p queue_phase.case by blast
  with h p i show ?thesis by (intro exI conjI) assumption+
qed

end
