(* ===== verification/Go_Strings.thy ===== *)
theory Go_Strings
  imports Prelude
begin

text \<open>
  The functions of Go's packages \<^verbatim>\<open>strings\<close>, \<^verbatim>\<open>strconv\<close>, \<^verbatim>\<open>path\<close> and \<^verbatim>\<open>path/filepath\<close> the components
  use, on the bytes of a string. Paths are those of a Unix system, where \<^verbatim>\<open>filepath.Clean\<close> is
  \<^verbatim>\<open>path.Clean\<close> and \<^verbatim>\<open>filepath.ToSlash\<close> the identity.
\<close>

section \<open>Strings\<close>

definition HasPrefix :: "string \<Rightarrow> string \<Rightarrow> bool" where
  "HasPrefix text p \<longleftrightarrow> take (length p) text = p"

definition HasSuffix :: "string \<Rightarrow> string \<Rightarrow> bool" where
  "HasSuffix text q \<longleftrightarrow> length q \<le> length text \<and> drop (length text - length q) text = q"

definition TrimPrefix :: "string \<Rightarrow> string \<Rightarrow> string" where
  "TrimPrefix text p = (if HasPrefix text p then drop (length p) text else text)"

definition TrimSuffix :: "string \<Rightarrow> string \<Rightarrow> string" where
  "TrimSuffix text q = (if HasSuffix text q then take (length text - length q) text else text)"

definition ContainsAny :: "string \<Rightarrow> string \<Rightarrow> bool" where
  "ContainsAny text chars \<longleftrightarrow> list_ex (\<lambda>c. c \<in> set chars) text"

fun Contains :: "string \<Rightarrow> string \<Rightarrow> bool" where
  "Contains [] sub \<longleftrightarrow> sub = []"
| "Contains (c # cs) sub \<longleftrightarrow> HasPrefix (c # cs) sub \<or> Contains cs sub"

text \<open>\<^verbatim>\<open>strings.Trim\<close> with a cutset of ASCII characters.\<close>

definition Trim :: "string \<Rightarrow> string \<Rightarrow> string" where
  "Trim text cutset = rev (dropWhile (\<lambda>c. c \<in> set cutset) (rev (dropWhile (\<lambda>c. c \<in> set cutset) text)))"

fun Join :: "string list \<Rightarrow> string \<Rightarrow> string" where
  "Join [] sep = []"
| "Join [part] sep = part"
| "Join (part # parts) sep = part @ sep @ Join parts sep"

text \<open>\<^verbatim>\<open>strings.Split\<close> at a character.\<close>

fun Split :: "char \<Rightarrow> string \<Rightarrow> string list" where
  "Split sep [] = [[]]"
| "Split sep (c # cs) =
     (if c = sep then [] # Split sep cs
      else case Split sep cs of [] \<Rightarrow> [[c]] | part # parts \<Rightarrow> (c # part) # parts)"

text \<open>\<^verbatim>\<open>strings.Cut\<close>: around the first instance of \<open>sep\<close>.\<close>

fun Cut :: "string \<Rightarrow> string \<Rightarrow> (string \<times> string) option" where
  "Cut [] sep = (if sep = [] then Some ([], []) else None)"
| "Cut (c # cs) sep =
     (if HasPrefix (c # cs) sep then Some ([], drop (length sep) (c # cs))
      else map_option (\<lambda>(left, right). (c # left, right)) (Cut cs sep))"

text \<open>\<^verbatim>\<open>strings.ReplaceAll\<close> of a string that is not empty.\<close>

function ReplaceAll :: "string \<Rightarrow> string \<Rightarrow> string \<Rightarrow> string" where
  "ReplaceAll [] old new = []"
| "ReplaceAll (c # cs) old new =
     (if old \<noteq> [] \<and> HasPrefix (c # cs) old then new @ ReplaceAll (drop (length old) (c # cs)) old new
      else c # ReplaceAll cs old new)"
  by pat_completeness auto
termination
  by (relation "measure (\<lambda>(s, old, new). length s)") (auto simp: neq_Nil_conv)

text \<open>\<^verbatim>\<open>strings.TrimRight\<close> with a cutset of ASCII characters.\<close>

definition TrimRight :: "string \<Rightarrow> string \<Rightarrow> string" where
  "TrimRight text cutset = rev (dropWhile (\<lambda>c. c \<in> set cutset) (rev text))"

definition lower_char :: "char \<Rightarrow> char" where
  "lower_char c = (let n = of_char c :: nat in if 65 \<le> n \<and> n \<le> 90 then char_of (n + 32) else c)"

section \<open>Paths\<close>

text \<open>\<^verbatim>\<open>path.Clean\<close>: \<open>out\<close> is the stack of the elements kept so far.\<close>

definition clean_step :: "bool \<Rightarrow> string list \<Rightarrow> string \<Rightarrow> string list" where
  "clean_step rooted out part =
     (if part = [] \<or> part = ''.'' then out
      else if part = ''..'' then
        (case out of
           [] \<Rightarrow> if rooted then [] else [''..'']
         | last_part # rest \<Rightarrow> if last_part = ''..'' then ''..'' # out else rest)
      else part # out)"

definition path_Clean :: "string \<Rightarrow> string" where
  "path_Clean p =
     (if p = [] then ''.''
      else let rooted = (hd p = CHR ''/'');
               out = Join (rev (foldl (clean_step rooted) [] (Split (CHR ''/'') p))) ''/''
           in if rooted then CHR ''/'' # out else if out = [] then ''.'' else out)"

text \<open>\<^verbatim>\<open>filepath.Base\<close>.\<close>

definition path_Base :: "string \<Rightarrow> string" where
  "path_Base p =
     (if p = [] then ''.''
      else let stripped = rev (dropWhile (\<lambda>c. c = CHR ''/'') (rev p));
               base = rev (takeWhile (\<lambda>c. c \<noteq> CHR ''/'') (rev stripped))
           in if base = [] then ''/'' else base)"

definition path_Ext :: "string \<Rightarrow> string" where
  "path_Ext base = (if CHR ''.'' \<in> set base then CHR ''.'' # rev (takeWhile (\<lambda>c. c \<noteq> CHR ''.'') (rev base)) else [])"

text \<open>\<^verbatim>\<open>filepath.Ext\<close> of a path, and \<^verbatim>\<open>filepath.Rel\<close> of two absolute paths.\<close>

definition filepath_Ext :: "string \<Rightarrow> string" where
  "filepath_Ext p = path_Ext (rev (takeWhile (\<lambda>c. c \<noteq> CHR ''/'') (rev p)))"

fun rel_parts :: "string list \<Rightarrow> string list \<Rightarrow> string list" where
  "rel_parts (b # bs) (t # ts) = (if b = t then rel_parts bs ts else replicate (length (b # bs)) ''..'' @ t # ts)"
| "rel_parts bs ts = replicate (length bs) ''..'' @ ts"

definition filepath_Rel :: "string \<Rightarrow> string \<Rightarrow> string" where
  "filepath_Rel base target =
     (let parts = (\<lambda>p. filter (\<lambda>e. e \<noteq> []) (Split (CHR ''/'') (path_Clean p)));
          rel = rel_parts (parts base) (parts target)
      in if rel = [] then ''.'' else Join rel ''/'')"

section \<open>Numbers\<close>

text \<open>\<^verbatim>\<open>strconv.Atoi\<close>: an optional sign and decimal digits that fit an \<^verbatim>\<open>int\<close>.\<close>

definition digit_char :: "char \<Rightarrow> bool" where
  "digit_char c \<longleftrightarrow> c \<in> set ''0123456789''"

definition Atoi :: "string \<Rightarrow> int option" where
  "Atoi s =
     (let negative = HasPrefix s ''-'';
          digits = (if negative \<or> HasPrefix s ''+'' then drop 1 s else s)
      in if digits = [] \<or> \<not> list_all digit_char digits then None
         else let v = (if negative then - int (un_Itoa digits) else int (un_Itoa digits))
           in if - (2 ^ 63) \<le> v \<and> v < 2 ^ 63 then Some v else None)"

section \<open>Lemmas\<close>

lemma HasPrefix_append [simp]: "HasPrefix (p @ s) p"
  by (simp add: HasPrefix_def)

lemma HasPrefix_Nil [simp]: "HasPrefix s []"
  by (simp add: HasPrefix_def)

lemma HasPrefix_Cons [simp]: "HasPrefix (c # cs) (p # ps) \<longleftrightarrow> c = p \<and> HasPrefix cs ps" "\<not> HasPrefix [] (p # ps)"
  by (auto simp: HasPrefix_def)

lemma HasPrefix_iff: "HasPrefix s p \<longleftrightarrow> (\<exists>r. s = p @ r)"
  by (metis HasPrefix_append HasPrefix_def append_take_drop_id)

lemma TrimPrefix_append [simp]: "TrimPrefix (p @ s) p = s"
  by (simp add: TrimPrefix_def)

lemma HasSuffix_append [simp]: "HasSuffix (s @ q) q"
  by (simp add: HasSuffix_def)

lemma HasSuffix_iff: "HasSuffix s q \<longleftrightarrow> (\<exists>r. s = r @ q)"
  by (metis HasSuffix_append HasSuffix_def append_take_drop_id)

lemma HasPrefix_one: "HasPrefix s [c] \<longleftrightarrow> s \<noteq> [] \<and> hd s = c"
  by (cases s) auto

lemma HasSuffix_one: "HasSuffix s [c] \<longleftrightarrow> s \<noteq> [] \<and> last s = c"
  by (cases s rule: rev_cases) (auto simp: HasSuffix_iff)

lemma TrimSuffix_append [simp]: "TrimSuffix (s @ q) q = s"
  by (simp add: TrimSuffix_def)

lemma Split_Nil_iff [simp]: "Split sep s \<noteq> []"
  by (induction s) (auto split: list.split)

lemma Split_free: "sep \<notin> set s \<Longrightarrow> Split sep s = [s]"
  by (induction s) auto

lemma Split_append: "sep \<notin> set s \<Longrightarrow> Split sep (s @ sep # t) = s # Split sep t"
  by (induction s) auto

lemma Split_Join: "parts \<noteq> [] \<Longrightarrow> \<forall>p \<in> set parts. sep \<notin> set p \<Longrightarrow> Split sep (Join parts [sep]) = parts"
  by (induction parts "[sep]" rule: Join.induct) (auto simp: Split_free Split_append)

lemma Join_Split: "Join (Split sep s) [sep] = s"
proof (induction s)
  case (Cons c cs)
  obtain part parts where p: "Split sep cs = part # parts" by (cases "Split sep cs") auto
  with Cons show ?case by (cases parts) auto
qed simp

lemma Split_parts: "p \<in> set (Split sep s) \<Longrightarrow> sep \<notin> set p"
proof (induction s arbitrary: p)
  case (Cons c cs)
  then show ?case by (cases "Split sep cs") (auto split: if_splits)
qed simp

lemma Cut_free: "hd sep \<notin> set s \<Longrightarrow> sep \<noteq> [] \<Longrightarrow> Cut (s @ sep @ t) sep = Some (s, t)"
proof (induction s)
  case Nil
  then show ?case by (cases sep) (simp_all add: HasPrefix_iff)
next
  case (Cons c s)
  then show ?case by (cases sep) auto
qed

lemma digit_charI:
  assumes "48 \<le> (of_char c :: nat) \<and> (of_char c :: nat) < 58"
  shows "digit_char c"
proof -
  define n where "n = (of_char c :: nat)"
  then have c: "c = char_of n" by simp
  from assms have "n = 48 \<or> n = 49 \<or> n = 50 \<or> n = 51 \<or> n = 52 \<or> n = 53 \<or> n = 54 \<or> n = 55 \<or> n = 56 \<or> n = 57"
    unfolding n_def by arith
  then show ?thesis unfolding c digit_char_def by (elim disjE; hypsubst; code_simp)
qed

lemma Atoi_Itoa: "n < 2 ^ 63 \<Longrightarrow> Atoi (Itoa n) = Some (int n)"
proof -
  assume n: "n < 2 ^ 63"
  have digits: "list_all digit_char (Itoa n)"
    unfolding list_all_iff by (blast intro: digit_charI dest: Itoa_digits)
  have "Itoa n \<noteq> []" by (subst Itoa.simps) simp
  then obtain c cs where c: "Itoa n = c # cs" by (cases "Itoa n") auto
  with digits have "c \<noteq> CHR ''-'' \<and> c \<noteq> CHR ''+''" by (auto simp: digit_char_def)
  with digits n c show ?thesis using un_Itoa_Itoa [of n] by (simp add: Atoi_def)
qed

end
