(* ===== verification/Work_Contracts.thy ===== *)
theory Work_Contracts
  imports Go_Strings
begin

text \<open>
  The versioned records of a verified claim and their validation,
  \<^verbatim>\<open>internal/session/work_contracts.go\<close>: the work specification with its criteria, the
  verification plan, the verification result, intents, observations and work revisions.

  The hexadecimal SHA-256 of bytes (\<open>ce_sha\<close>), \<^verbatim>\<open>strings.ToLower\<close> with its Unicode tables
  (\<open>ce_lower\<close>) and the JSON text of a value (\<open>ce_work_json\<close>, \<open>ce_result_json\<close> with its decoder
  and the encodings of a revision) are arguments; no theorem depends on which functions they are
  unless it says so. Paths are those of a Unix system, where
  \<^verbatim>\<open>filepath.Clean\<close> is \<^verbatim>\<open>path.Clean\<close> and \<^verbatim>\<open>filepath.ToSlash\<close> the identity.
\<close>

section \<open>Data\<close>

definition WorkContractVersionV1 :: int where
  "WorkContractVersionV1 = 1"

datatype claim_error = ErrNoVerificationResult | ErrContextArtifactNotFound | ErrInvalidWorkContract string | ClaimError string

record source_ref =
  sr_Kind :: string
  sr_ID :: string
  sr_Range :: string
  sr_SHA256 :: string

record revision_file =
  rf_Path :: string
  rf_SHA256 :: string
  rf_Observed :: bool
  rf_Touched :: bool

record criterion =
  cr_ID :: string
  cr_Text :: string
  cr_Origin :: string
  cr_Required :: bool
  cr_Sources :: "source_ref list"

record work_revision =
  wr_Version :: int
  wr_ID :: string
  wr_SessionID :: string
  wr_CanonicalUserSequence :: int
  wr_TodoRevision :: int
  wr_SemanticRevision :: int
  wr_ApprovedPlanID :: string
  wr_ConstraintDigest :: string
  wr_Constraints :: "criterion list"
  wr_GitHEAD :: string
  wr_Files :: "revision_file list"
  wr_SnapshotHash :: string
  wr_CreatedAt :: time

record work_spec =
  ws_Version :: int
  ws_ID :: string
  ws_SessionID :: string
  ws_RunID :: string
  ws_Goal :: string
  ws_ApprovedPlanID :: string
  ws_Criteria :: "criterion list"
  ws_Constraints :: "criterion list"
  ws_AllowedSideEffects :: "string list"
  ws_CreatedAt :: time

record action_intent =
  ai_Version :: int
  ai_ID :: string
  ai_WorkSpecID :: string
  ai_SessionID :: string
  ai_RunID :: string
  ai_AgentID :: string
  ai_ToolCallID :: string
  ai_Kind :: string
  ai_Name :: string
  ai_ArgumentsHash :: string
  ai_RevisionID :: string
  ai_SnapshotHash :: string
  ai_Sources :: "source_ref list"
  ai_CreatedAt :: time

record file_observation =
  fo_Path :: string
  fo_BeforeSHA256 :: string
  fo_AfterSHA256 :: string
  fo_State :: string

record observation_envelope =
  oe_Version :: int
  oe_ID :: string
  oe_IntentID :: string
  oe_SessionID :: string
  oe_RunID :: string
  oe_ToolCallID :: string
  oe_RevisionID :: string
  oe_SnapshotHash :: string
  oe_Status :: string
  oe_ExitStatus :: "int option"
  oe_ContentPresence :: string
  oe_Truncation :: string
  oe_SchemaValidity :: string
  oe_Retryability :: string
  oe_FreshAt :: time
  oe_RawSHA256 :: string
  oe_RawRef :: "source_ref option"
  oe_Files :: "file_observation list"
  oe_Sources :: "source_ref list"

record verification_check =
  vc_ID :: string
  vc_CriterionIDs :: "string list"
  vc_Kind :: string
  vc_Command :: "string list"
  vc_CWD :: string
  vc_Environment :: "(string \<times> string) list"
  vc_ArtifactRef :: string
  vc_TimeoutMS :: int

record verification_plan =
  vp_Version :: int
  vp_ID :: string
  vp_WorkSpecID :: string
  vp_RevisionID :: string
  vp_SnapshotHash :: string
  vp_Checks :: "verification_check list"
  vp_CreatedAt :: time

record criterion_result =
  res_CriterionID :: string
  res_Status :: string
  res_Evidence :: "source_ref list"
  res_Reason :: string

record verification_result =
  vr_Version :: int
  vr_ID :: string
  vr_PlanID :: string
  vr_WorkSpecID :: string
  vr_RevisionID :: string
  vr_SnapshotHash :: string
  vr_Status :: string
  vr_Criteria :: "criterion_result list"
  vr_CompletedAt :: time

type_synonym work_payload =
  "int \<times> string \<times> string \<times> string \<times> string \<times> criterion list \<times> criterion list \<times> string list"

record contract_env =
  ce_sha :: "string \<Rightarrow> string"
  ce_lower :: "string \<Rightarrow> string"
  ce_work_json :: "work_payload \<Rightarrow> string"
  ce_constraints_json :: "criterion list \<Rightarrow> string"
  ce_snapshot_json :: "string \<times> revision_file list \<Rightarrow> string"
  ce_identity_json :: "string \<times> int \<times> int \<times> int \<times> string \<times> string \<times> string \<Rightarrow> string"
  ce_disposition_json :: "string \<times> string \<times> string \<times> string \<Rightarrow> string"
  ce_string_json :: "string \<Rightarrow> string"
  ce_revision_json :: "work_revision \<Rightarrow> string"
  ce_revision_decode :: "string \<Rightarrow> work_revision option"
  ce_spec_json :: "work_spec \<Rightarrow> string"
  ce_plan_json :: "verification_plan \<Rightarrow> string"
  ce_intent_json :: "action_intent \<Rightarrow> string"
  ce_intent_decode :: "string \<Rightarrow> action_intent option"
  ce_observation_json :: "observation_envelope \<Rightarrow> string"
  ce_result_json :: "verification_result \<Rightarrow> string"
  ce_result_decode :: "string \<Rightarrow> verification_result option"

section \<open>Validation\<close>

definition requireV1 :: "int \<Rightarrow> string \<Rightarrow> claim_error option" where
  "requireV1 version vid =
     (if version \<noteq> WorkContractVersionV1 \<or> vid = [] then Some (ErrInvalidWorkContract ''requires version and id'') else None)"

definition oneOf :: "string \<Rightarrow> string list \<Rightarrow> bool" where
  "oneOf text allowed \<longleftrightarrow> text \<in> set allowed"

definition validate_source :: "source_ref \<Rightarrow> claim_error option" where
  "validate_source v =
     (if blank (sr_Kind v) \<or> blank (sr_ID v)
      then Some (ErrInvalidWorkContract ''source reference requires kind and id'') else None)"

text \<open>The characters of \<^verbatim>\<open>hex.DecodeString\<close>, and those that \<^verbatim>\<open>strings.ToLower\<close> leaves alone.\<close>

definition hex_char :: "char \<Rightarrow> bool" where
  "hex_char c \<longleftrightarrow> c \<in> set ''0123456789abcdefABCDEF''"

definition lower_hex :: "char \<Rightarrow> bool" where
  "lower_hex c \<longleftrightarrow> c \<in> set ''0123456789abcdef''"

definition validateDigest :: "string \<Rightarrow> claim_error option" where
  "validateDigest text =
     (if text = [] then None
      else if \<not> (list_all hex_char text \<and> even (length text)) \<or> length text div 2 \<noteq> 32 \<or> \<not> list_all lower_hex text
      then Some (ErrInvalidWorkContract ''invalid sha256'') else None)"

definition first_error :: "claim_error option list \<Rightarrow> claim_error option" where
  "first_error errors = (case List.find (\<lambda>e. e \<noteq> None) errors of None \<Rightarrow> None | Some e \<Rightarrow> e)"

definition validateSourceDigest :: "source_ref \<Rightarrow> claim_error option" where
  "validateSourceDigest source =
     (case validate_source source of Some e \<Rightarrow> Some e | None \<Rightarrow> validateDigest (sr_SHA256 source))"

definition sourceKey :: "source_ref \<Rightarrow> string" where
  "sourceKey s = sr_Kind s @ [CHR 0x00] @ sr_ID s @ [CHR 0x00] @ sr_Range s @ [CHR 0x00] @ sr_SHA256 s"

fun validate_source_list :: "string list \<Rightarrow> source_ref list \<Rightarrow> claim_error option" where
  "validate_source_list seen [] = None"
| "validate_source_list seen (s # ss) =
     (case validateSourceDigest s of Some e \<Rightarrow> Some e
      | None \<Rightarrow> if sourceKey s \<in> set seen then Some (ErrInvalidWorkContract ''duplicate source reference'')
          else validate_source_list (sourceKey s # seen) ss)"

definition validateCriterionSources :: "source_ref list \<Rightarrow> claim_error option" where
  "validateCriterionSources sources = validate_source_list [] sources"

definition canonicalCriteria :: "criterion list \<Rightarrow> criterion list" where
  "canonicalCriteria criteria =
     sort_key cr_ID (map (\<lambda>c. c\<lparr>cr_Sources := sort_key sourceKey (cr_Sources c)\<rparr>) criteria)"

definition CanonicalWorkSpecID :: "contract_env \<Rightarrow> work_spec \<Rightarrow> string" where
  "CanonicalWorkSpecID env v = ''work:'' @ take 16 (ce_sha env (ce_work_json env
     (ws_Version v, TrimSpace (ws_SessionID v), TrimSpace (ws_RunID v), TrimSpace (ws_Goal v),
      TrimSpace (ws_ApprovedPlanID v), canonicalCriteria (ws_Criteria v), canonicalCriteria (ws_Constraints v),
      ws_AllowedSideEffects v)))"

definition CanonicalVerificationPlanID :: "contract_env \<Rightarrow> verification_plan \<Rightarrow> string" where
  "CanonicalVerificationPlanID env v = ''verification:'' @
     take 16 (ce_sha env (vp_WorkSpecID v @ '':'' @ vp_RevisionID v @ '':'' @ vp_SnapshotHash v))"

text \<open>Criteria in order; the ids of earlier ones are carried along and returned.\<close>

fun validate_ordered :: "string list \<Rightarrow> criterion list \<Rightarrow> claim_error + string list" where
  "validate_ordered seen [] = Inr seen"
| "validate_ordered seen (c # cs) =
     (if cr_ID c = [] \<or> blank (cr_Text c) \<or> (cr_Origin c \<noteq> ''explicit'' \<and> cr_Origin c \<noteq> ''inferred'')
      then Inl (ErrInvalidWorkContract ''invalid criterion'')
      else if cr_ID c \<in> set seen then Inl (ErrInvalidWorkContract ''duplicate criterion'')
      else case first_error (map validateSourceDigest (cr_Sources c)) of
        Some e \<Rightarrow> Inl e
      | None \<Rightarrow> validate_ordered (cr_ID c # seen) cs)"

definition validate_work :: "contract_env \<Rightarrow> work_spec \<Rightarrow> claim_error option" where
  "validate_work env v =
     (case requireV1 (ws_Version v) (ws_ID v) of Some e \<Rightarrow> Some e | None \<Rightarrow>
      if ws_ID v \<noteq> CanonicalWorkSpecID env v
      then Some (ErrInvalidWorkContract ''work spec identity does not match canonical content'')
      else if ws_SessionID v = [] \<or> blank (ws_Goal v) \<or> IsZero (ws_CreatedAt v) \<or> length (ws_Criteria v) = 0
      then Some (ErrInvalidWorkContract ''work spec requires session_id, goal, created_at, and criteria'')
      else case validate_ordered [] (ws_Criteria v) of
        Inl e \<Rightarrow> Some e
      | Inr seen \<Rightarrow> (case validate_ordered seen (ws_Constraints v) of Inl e \<Rightarrow> Some e | Inr _ \<Rightarrow> None))"

fun validate_refs :: "string list \<Rightarrow> string list \<Rightarrow> claim_error option" where
  "validate_refs seen [] = None"
| "validate_refs seen (c # cs) =
     (if c = [] then Some (ErrInvalidWorkContract ''empty criterion reference'')
      else if c \<in> set seen then Some (ErrInvalidWorkContract ''duplicate criterion reference'')
      else validate_refs (c # seen) cs)"

fun validate_checks :: "string list \<Rightarrow> verification_check list \<Rightarrow> claim_error option" where
  "validate_checks seen [] = None"
| "validate_checks seen (c # cs) =
     (if vc_ID c = [] \<or> vc_Kind c = [] \<or> length (vc_CriterionIDs c) = 0 \<or> vc_TimeoutMS c < 0
      then Some (ErrInvalidWorkContract ''invalid verification check'')
      else if vc_ID c \<in> set seen then Some (ErrInvalidWorkContract ''duplicate verification check'')
      else case validate_refs [] (vc_CriterionIDs c) of
        Some e \<Rightarrow> Some e
      | None \<Rightarrow> validate_checks (vc_ID c # seen) cs)"

definition validate_plan :: "contract_env \<Rightarrow> verification_plan \<Rightarrow> claim_error option" where
  "validate_plan env v =
     (case requireV1 (vp_Version v) (vp_ID v) of Some e \<Rightarrow> Some e | None \<Rightarrow>
      if HasPrefix (vp_ID v) ''verification:'' \<and> vp_ID v \<noteq> CanonicalVerificationPlanID env v
      then Some (ErrInvalidWorkContract ''verification plan identity mismatch'')
      else if vp_WorkSpecID v = [] \<or> vp_RevisionID v = [] \<or> vp_SnapshotHash v = [] \<or>
         length (vp_Checks v) = 0 \<or> IsZero (vp_CreatedAt v)
      then Some (ErrInvalidWorkContract ''incomplete verification plan'')
      else validate_checks [] (vp_Checks v))"

fun validate_results :: "string list \<Rightarrow> criterion_result list \<Rightarrow> claim_error option" where
  "validate_results seen [] = None"
| "validate_results seen (r # rs) =
     (if res_CriterionID r = [] \<or> \<not> oneOf (res_Status r) [''pass'', ''fail'', ''uncertain''] \<or> length (res_Evidence r) = 0
      then Some (ErrInvalidWorkContract ''invalid criterion result'')
      else if res_CriterionID r \<in> set seen then Some (ErrInvalidWorkContract ''duplicate criterion result'')
      else case validateCriterionSources (res_Evidence r) of
        Some e \<Rightarrow> Some e
      | None \<Rightarrow> validate_results (res_CriterionID r # seen) rs)"

definition validate_result :: "verification_result \<Rightarrow> claim_error option" where
  "validate_result v =
     (case requireV1 (vr_Version v) (vr_ID v) of Some e \<Rightarrow> Some e | None \<Rightarrow>
      if vr_PlanID v = [] \<or> vr_WorkSpecID v = [] \<or> vr_RevisionID v = [] \<or> vr_SnapshotHash v = [] \<or>
         \<not> oneOf (vr_Status v) [''pass'', ''fail'', ''uncertain''] \<or> length (vr_Criteria v) = 0 \<or> IsZero (vr_CompletedAt v)
      then Some (ErrInvalidWorkContract ''incomplete verification result'')
      else validate_results [] (vr_Criteria v))"

definition validate_intent :: "action_intent \<Rightarrow> claim_error option" where
  "validate_intent v =
     (case requireV1 (ai_Version v) (ai_ID v) of Some e \<Rightarrow> Some e | None \<Rightarrow>
      if ai_WorkSpecID v = [] \<or> ai_SessionID v = [] \<or> ai_RunID v = [] \<or> ai_Kind v = [] \<or> ai_Name v = [] \<or>
         IsZero (ai_CreatedAt v)
      then Some (ErrInvalidWorkContract ''incomplete action intent'')
      else case validateDigest (ai_ArgumentsHash v) of
        Some e \<Rightarrow> Some e
      | None \<Rightarrow> validateCriterionSources (ai_Sources v))"

section \<open>Paths\<close>

definition validRelativePath :: "string \<Rightarrow> bool" where
  "validRelativePath p \<longleftrightarrow> (let clean = path_Clean (TrimSpace p) in
     clean \<noteq> [] \<and> clean \<noteq> ''.'' \<and> clean \<noteq> ''..'' \<and> \<not> HasPrefix clean ''../'' \<and> \<not> HasPrefix clean ''/'')"

definition validate_observed_file :: "file_observation \<Rightarrow> claim_error option" where
  "validate_observed_file f =
     (if \<not> validRelativePath (fo_Path f) \<or>
         \<not> oneOf (fo_State f) [''observed'', ''created'', ''modified'', ''deleted'', ''unknown'']
      then Some (ErrInvalidWorkContract ''invalid file observation'')
      else case validateDigest (fo_BeforeSHA256 f) of
        Some e \<Rightarrow> Some e
      | None \<Rightarrow> validateDigest (fo_AfterSHA256 f))"

definition validate_observation :: "observation_envelope \<Rightarrow> claim_error option" where
  "validate_observation v =
     (case requireV1 (oe_Version v) (oe_ID v) of Some e \<Rightarrow> Some e | None \<Rightarrow>
      if oe_SessionID v = [] \<or> oe_RunID v = [] \<or>
         \<not> oneOf (oe_Status v) [''completed'', ''failed'', ''timeout'', ''cancelled'', ''unknown''] \<or>
         \<not> oneOf (oe_ContentPresence v) [''present'', ''empty'', ''missing''] \<or>
         \<not> oneOf (oe_Truncation v) [''none'', ''truncated'', ''spilled'', ''unknown''] \<or>
         \<not> oneOf (oe_SchemaValidity v) [''valid'', ''invalid'', ''unknown''] \<or>
         \<not> oneOf (oe_Retryability v) [''retryable'', ''terminal'', ''unknown'']
      then Some (ErrInvalidWorkContract ''invalid observation reliability metadata'')
      else first_error ([validateDigest (oe_RawSHA256 v),
         case oe_RawRef v of None \<Rightarrow> None | Some r \<Rightarrow> validate_source r,
         validateCriterionSources (oe_Sources v)] @ map validate_observed_file (oe_Files v)))"

section \<open>Work revisions\<close>

definition digestJSON_constraints :: "contract_env \<Rightarrow> criterion list \<Rightarrow> string" where
  "digestJSON_constraints env cs = ce_sha env (ce_constraints_json env cs)"

definition digestJSON_snapshot :: "contract_env \<Rightarrow> string \<Rightarrow> revision_file list \<Rightarrow> string" where
  "digestJSON_snapshot env head files = ce_sha env (ce_snapshot_json env (head, files))"

fun revision_constraints :: "string list \<Rightarrow> criterion list \<Rightarrow> claim_error + criterion list" where
  "revision_constraints seen [] = Inr []"
| "revision_constraints seen (c # cs) =
     (if cr_Origin c \<noteq> ''explicit'' then revision_constraints seen cs
      else if cr_ID c = [] \<or> blank (cr_Text c) then Inl (ErrInvalidWorkContract ''invalid revision constraint'')
      else if cr_ID c \<in> set seen then Inl (ErrInvalidWorkContract ''duplicate revision constraint'')
      else case first_error (map validate_source (cr_Sources c)) of
        Some e \<Rightarrow> Inl e
      | None \<Rightarrow> bindE (revision_constraints (cr_ID c # seen) cs) (\<lambda>rest. Inr (c # rest)))"

definition canonicalRevisionConstraints :: "criterion list \<Rightarrow> claim_error + criterion list" where
  "canonicalRevisionConstraints criteria =
     bindE (revision_constraints [] criteria) (\<lambda>result. Inr (sort_key cr_ID result))"

fun revision_files :: "string list \<Rightarrow> revision_file list \<Rightarrow> claim_error + revision_file list" where
  "revision_files seen [] = Inr []"
| "revision_files seen (f # fs) =
     (if blank (rf_SHA256 f) \<or> \<not> validRelativePath (rf_Path f) \<or> (\<not> rf_Observed f \<and> \<not> rf_Touched f) \<or>
         validateDigest (rf_SHA256 f) \<noteq> None
      then Inl (ErrInvalidWorkContract ''invalid work revision file'')
      else let f' = f\<lparr>rf_Path := path_Clean (TrimSpace (rf_Path f)), rf_SHA256 := map lower_char (rf_SHA256 f)\<rparr>
        in if rf_Path f' \<in> set seen then Inl (ErrInvalidWorkContract ''duplicate work revision file'')
           else bindE (revision_files (rf_Path f' # seen) fs) (\<lambda>rest. Inr (f' # rest)))"

definition canonicalRevisionFiles :: "revision_file list \<Rightarrow> claim_error + revision_file list" where
  "canonicalRevisionFiles files =
     (if length files > 4096 then Inl (ErrInvalidWorkContract ''too many work revision files'')
      else bindE (revision_files [] files) (\<lambda>result. Inr (sort_key rf_Path result)))"

definition revision_id :: "contract_env \<Rightarrow> work_revision \<Rightarrow> string" where
  "revision_id env v = ''work-revision:'' @ take 24 (ce_sha env (ce_identity_json env
     (wr_SessionID v, wr_CanonicalUserSequence v, wr_TodoRevision v, wr_SemanticRevision v,
      TrimSpace (wr_ApprovedPlanID v), wr_ConstraintDigest v, wr_SnapshotHash v)))"

text \<open>
  \<^verbatim>\<open>"work-revision:" + digestJSON(..)[:24]\<close> slices the digest, not the concatenation. The files
  are canonical when each position of the canonical list agrees with the given one.
\<close>

definition validate_revision :: "contract_env \<Rightarrow> work_revision \<Rightarrow> claim_error option" where
  "validate_revision env v =
     (case requireV1 (wr_Version v) (wr_ID v) of Some e \<Rightarrow> Some e | None \<Rightarrow>
      if wr_SessionID v = [] \<or> wr_CanonicalUserSequence v < 0 \<or> wr_TodoRevision v < 0 \<or> wr_SemanticRevision v < 0 \<or>
         wr_ConstraintDigest v = [] \<or> wr_SnapshotHash v = [] \<or> IsZero (wr_CreatedAt v)
      then Some (ErrInvalidWorkContract ''incomplete work revision'')
      else case canonicalRevisionConstraints (wr_Constraints v) of
        Inl e \<Rightarrow> Some e
      | Inr constraints \<Rightarrow>
      if wr_ConstraintDigest v \<noteq> digestJSON_constraints env constraints
      then Some (ErrInvalidWorkContract ''work revision constraint digest mismatch'')
      else case canonicalRevisionFiles (wr_Files v) of
        Inl e \<Rightarrow> Some e
      | Inr files \<Rightarrow>
      if \<not> (length files \<le> length (wr_Files v) \<and> list_all2 (=) files (take (length files) (wr_Files v)))
      then Some (ErrInvalidWorkContract ''work revision files are not canonical'')
      else if wr_SnapshotHash v \<noteq> digestJSON_snapshot env (TrimSpace (wr_GitHEAD v)) files
      then Some (ErrInvalidWorkContract ''work revision snapshot hash mismatch'')
      else if wr_ID v \<noteq> revision_id env v
      then Some (ErrInvalidWorkContract ''work revision identity mismatch'')
      else None)"

end
