(* ===== verification/Work_Criteria.thy ===== *)
theory Work_Criteria
  imports Work_Contracts Store_Interfaces
begin

text \<open>
  The compiler of criteria, \<^verbatim>\<open>internal/verification/compiler.go\<close>: explicit criteria of the user, the
  plan and the Todo, then inferred ones, become a work specification and a verification plan with
  one check per criterion. The Todo list is that of \<^verbatim>\<open>internal/session/todo.go\<close>.

  The lemmas show what the comment of \<^verbatim>\<open>CompileCriteria\<close> promises: inferred criteria never replace,
  weaken or rename explicit ones, and every explicit candidate has a criterion.
\<close>

section \<open>Data\<close>

record todo_item =
  item_ID :: string
  item_Content :: string
  item_Status :: string
  item_SubagentRunID :: string

record todo_phase =
  phase_ID :: string
  phase_Title :: string
  phase_Items :: "todo_item list"

record todo_list =
  todo_Goal :: string
  todo_Revision :: int
  todo_Phases :: "todo_phase list"
  todo_UpdatedAt :: time

record criterion_input =
  ci_ID :: string
  ci_Text :: string
  ci_Required :: bool
  ci_Sources :: "source_ref list"

record compile_input =
  in_SessionID :: string
  in_RunID :: string
  in_Goal :: string
  in_GoalSource :: source_ref
  in_ApprovedPlanID :: string
  in_UserCriteria :: "criterion_input list"
  in_PlanCriteria :: "criterion_input list"
  in_InferredCriteria :: "criterion_input list"
  in_Todo :: todo_list
  in_RevisionID :: string
  in_SnapshotHash :: string
  in_CreatedAt :: time

section \<open>Strings\<close>

text \<open>
  \<^verbatim>\<open>strings.Fields\<close>: the maximal runs of bytes without white space; \<open>cur\<close> holds the current run
  backwards.
\<close>

function fields_from :: "string \<Rightarrow> string \<Rightarrow> string list" where
  "fields_from cur s =
     (case strip_one space_seqs s of
        Some r \<Rightarrow> if length r < length s then (if cur = [] then [] else [rev cur]) @ fields_from [] r else []
      | None \<Rightarrow> (case s of [] \<Rightarrow> if cur = [] then [] else [rev cur] | c # t \<Rightarrow> fields_from (c # cur) t))"
  by pat_completeness auto
termination
  by (relation "measure (\<lambda>(cur, s). length s)") auto

declare fields_from.simps [simp del]

definition Fields :: "string \<Rightarrow> string list" where
  "Fields s = fields_from [] s"

definition normalizeCriterionText :: "contract_env \<Rightarrow> string \<Rightarrow> string" where
  "normalizeCriterionText env text = ce_lower env (Join (Fields text) '' '')"

definition shortHash :: "contract_env \<Rightarrow> string \<Rightarrow> string" where
  "shortHash env text = take 16 (ce_sha env text)"

section \<open>Compilation\<close>

fun merge_seen :: "string list \<Rightarrow> source_ref list \<Rightarrow> source_ref list" where
  "merge_seen seen [] = []"
| "merge_seen seen (s # ss) =
     (if sr_Kind s = [] \<or> sr_ID s = [] \<or> sourceKey s \<in> set seen then merge_seen seen ss
      else s # merge_seen (sourceKey s # seen) ss)"

definition mergeSources :: "source_ref list \<Rightarrow> source_ref list \<Rightarrow> source_ref list" where
  "mergeSources existing additions =
     sort_key sourceKey (existing @ merge_seen (map sourceKey existing) additions)"

text \<open>The criteria compiled so far with the index \<^verbatim>\<open>byText\<close> of their normalized texts.\<close>

type_synonym compiled = "criterion list \<times> (string, nat) table"

definition merge_into :: "criterion_input \<Rightarrow> criterion \<Rightarrow> criterion" where
  "merge_into candidate c = c\<lparr>cr_Sources := mergeSources (cr_Sources c) (ci_Sources candidate),
     cr_Required := cr_Required c \<or> ci_Required candidate\<rparr>"

definition appendCriterion ::
  "contract_env \<Rightarrow> string \<Rightarrow> criterion_input \<Rightarrow> compiled \<Rightarrow> claim_error + compiled" where
  "appendCriterion env origin candidate acc =
     (let (criteria, byText) = acc; text = TrimSpace (ci_Text candidate) in
      if text = [] then Inl (ClaimError (''verification: empty '' @ origin @ '' criterion''))
      else let normalized = normalizeCriterionText env text in
        case tget byText normalized of
          Some index \<Rightarrow>
            if origin = ''inferred'' then Inr (criteria, byText)
            else Inr (criteria[index := merge_into candidate (criteria ! index)], byText)
        | None \<Rightarrow>
            let trimmed = TrimSpace (ci_ID candidate);
                cid = (if trimmed = [] then origin @ '':'' @ shortHash env text else trimmed)
            in Inr (criteria @ [\<lparr>cr_ID = cid, cr_Text = text, cr_Origin = origin,
                 cr_Required = ci_Required candidate, cr_Sources = mergeSources [] (ci_Sources candidate)\<rparr>],
               tput normalized (length criteria) byText))"

fun append_all ::
  "contract_env \<Rightarrow> string \<Rightarrow> criterion_input list \<Rightarrow> compiled \<Rightarrow> claim_error + compiled" where
  "append_all env origin [] acc = Inr acc"
| "append_all env origin (c # cs) acc = bindE (appendCriterion env origin c acc) (append_all env origin cs)"

definition todo_criteria :: "todo_list \<Rightarrow> criterion_input list" where
  "todo_criteria todo =
     map (\<lambda>item. \<lparr>ci_ID = ''todo:'' @ item_ID item, ci_Text = item_Content item, ci_Required = True,
         ci_Sources = [\<lparr>sr_Kind = ''todo'', sr_ID = FormatInt (todo_Revision todo) @ '':'' @ item_ID item,
           sr_Range = [], sr_SHA256 = []\<rparr>]\<rparr>)
       (filter (\<lambda>item. item_Status item \<noteq> ''cancelled'' \<and> \<not> blank (item_Content item))
         (concat (map phase_Items (todo_Phases todo))))"

definition explicit_criteria :: "compile_input \<Rightarrow> criterion_input list" where
  "explicit_criteria input =
     (let explicit = in_UserCriteria input @ in_PlanCriteria input @ todo_criteria (in_Todo input) in
      if length explicit = 0
      then [\<lparr>ci_ID = ''goal'', ci_Text = TrimSpace (in_Goal input), ci_Required = True, ci_Sources = [in_GoalSource input]\<rparr>]
      else explicit)"

definition criterion_checks :: "criterion list \<Rightarrow> verification_check list" where
  "criterion_checks criteria =
     map (\<lambda>c. \<lparr>vc_ID = ''criterion:'' @ cr_ID c, vc_CriterionIDs = [cr_ID c], vc_Kind = ''criterion'',
       vc_Command = [], vc_CWD = [], vc_Environment = [], vc_ArtifactRef = [], vc_TimeoutMS = 0\<rparr>) criteria"

definition compiled_work :: "contract_env \<Rightarrow> compile_input \<Rightarrow> criterion list \<Rightarrow> work_spec" where
  "compiled_work env input criteria =
     (let work = \<lparr>ws_Version = WorkContractVersionV1, ws_ID = [], ws_SessionID = in_SessionID input,
        ws_RunID = in_RunID input, ws_Goal = TrimSpace (in_Goal input),
        ws_ApprovedPlanID = TrimSpace (in_ApprovedPlanID input), ws_Criteria = criteria, ws_Constraints = [],
        ws_AllowedSideEffects = [], ws_CreatedAt = in_CreatedAt input\<rparr>
      in work\<lparr>ws_ID := CanonicalWorkSpecID env work\<rparr>)"

definition compiled_plan :: "contract_env \<Rightarrow> compile_input \<Rightarrow> criterion list \<Rightarrow> verification_plan" where
  "compiled_plan env input criteria =
     (let work = compiled_work env input criteria in
      \<lparr>vp_Version = WorkContractVersionV1,
       vp_ID = ''verification:'' @ shortHash env (ws_ID work @ '':'' @ in_RevisionID input @ '':'' @ in_SnapshotHash input),
       vp_WorkSpecID = ws_ID work, vp_RevisionID = in_RevisionID input, vp_SnapshotHash = in_SnapshotHash input,
       vp_Checks = criterion_checks criteria, vp_CreatedAt = in_CreatedAt input\<rparr>)"

definition CompileCriteria ::
  "contract_env \<Rightarrow> compile_input \<Rightarrow> claim_error + work_spec \<times> verification_plan" where
  "CompileCriteria env input =
     (if in_SessionID input = [] \<or> in_RunID input = [] \<or> blank (in_Goal input) \<or> in_RevisionID input = [] \<or>
         in_SnapshotHash input = [] \<or> IsZero (in_CreatedAt input)
      then Inl (ClaimError ''verification: incomplete criteria compiler input'')
      else bindE (append_all env ''explicit'' (explicit_criteria input) ([], [])) (\<lambda>acc.
        bindE (append_all env ''inferred'' (in_InferredCriteria input) acc) (\<lambda>(criteria, byText).
        case validate_work env (compiled_work env input criteria) of
          Some e \<Rightarrow> Inl e
        | None \<Rightarrow> (case validate_plan env (compiled_plan env input criteria) of
            Some e \<Rightarrow> Inl e
          | None \<Rightarrow> Inr (compiled_work env input criteria, compiled_plan env input criteria)))))"

section \<open>Appending candidates\<close>

abbreviation ctext :: "contract_env \<Rightarrow> criterion \<Rightarrow> string" where
  "ctext env c \<equiv> normalizeCriterionText env (cr_Text c)"

text \<open>\<open>byText\<close> indexes exactly the normalized texts of the criteria.\<close>

definition compiled_ok :: "contract_env \<Rightarrow> compiled \<Rightarrow> bool" where
  "compiled_ok env acc \<longleftrightarrow>
     (\<forall>k i. tget (snd acc) k = Some i \<longleftrightarrow> i < length (fst acc) \<and> ctext env (fst acc ! i) = k)"

lemma compiled_ok_Nil [simp]: "compiled_ok env ([], [])"
  by (simp add: compiled_ok_def)

lemma compiled_ok_distinct: "compiled_ok env acc \<Longrightarrow> distinct (map (ctext env) (fst acc))"
  unfolding compiled_ok_def distinct_conv_nth by simp (metis option.inject)

lemma merge_into_simps [simp]:
  "cr_ID (merge_into candidate c) = cr_ID c" "cr_Text (merge_into candidate c) = cr_Text c"
  "cr_Origin (merge_into candidate c) = cr_Origin c"
  "cr_Required (merge_into candidate c) = (cr_Required c \<or> ci_Required candidate)"
  "cr_Sources (merge_into candidate c) = mergeSources (cr_Sources c) (ci_Sources candidate)"
  by (simp_all add: merge_into_def)

text \<open>The three outcomes: an inferred duplicate, an explicit duplicate, a new criterion.\<close>

lemma appendCriterion_cases:
  assumes ok: "compiled_ok env (cs, bt)" and app: "appendCriterion env origin cand (cs, bt) = Inr acc'"
  obtains i where "origin = ''inferred''" "acc' = (cs, bt)" "i < length cs"
      "ctext env (cs ! i) = normalizeCriterionText env (TrimSpace (ci_Text cand))"
  | i where "origin \<noteq> ''inferred''" "acc' = (cs[i := merge_into cand (cs ! i)], bt)" "i < length cs"
      "ctext env (cs ! i) = normalizeCriterionText env (TrimSpace (ci_Text cand))"
  | c where "fst acc' = cs @ [c]" "cr_Text c = TrimSpace (ci_Text cand)" "cr_Origin c = origin"
      "cr_Required c = ci_Required cand" "cr_Sources c = mergeSources [] (ci_Sources cand)"
      "snd acc' = tput (ctext env c) (length cs) bt" "ctext env c \<notin> ctext env ` set cs"
proof -
  let ?n = "normalizeCriterionText env (TrimSpace (ci_Text cand))"
  show ?thesis
  proof (cases "tget bt ?n")
    case None
    have "?n \<notin> ctext env ` set cs"
    proof
      assume "?n \<in> ctext env ` set cs"
      then obtain i where "i < length cs" "ctext env (cs ! i) = ?n" by (auto simp: in_set_conv_nth)
      with ok have "tget bt ?n = Some i" by (simp add: compiled_ok_def)
      with None show False by simp
    qed
    with None app that(3) show ?thesis
      by (auto simp: appendCriterion_def Let_def split: if_splits)
  next
    case (Some i)
    then have "i < length cs" "ctext env (cs ! i) = ?n"
      using ok unfolding compiled_ok_def by auto
    with Some app that(1,2) show ?thesis
      by (auto simp: appendCriterion_def Let_def split: if_splits)
  qed
qed

lemma appendCriterion_ok:
  assumes ok: "compiled_ok env (cs, bt)" and app: "appendCriterion env origin cand (cs, bt) = Inr acc'"
  shows "compiled_ok env acc'"
  using ok app
proof (cases rule: appendCriterion_cases)
  case (2 i)
  have "ctext env (cs[i := merge_into cand (cs ! i)] ! j) = ctext env (cs ! j)" for j
    using 2(3) by (cases "i = j") simp_all
  with ok 2 show ?thesis by (simp add: compiled_ok_def)
next
  case (3 c)
  show ?thesis unfolding compiled_ok_def
  proof (intro allI)
    fix k i
    show "tget (snd acc') k = Some i \<longleftrightarrow> i < length (fst acc') \<and> ctext env (fst acc' ! i) = k"
    proof (cases "k = ctext env c")
      case True
      have "ctext env (cs ! i) \<noteq> ctext env c" if "i < length cs"
        using 3(7) that by (metis imageI nth_mem)
      with True 3(1,6) show ?thesis by (auto simp: nth_append less_Suc_eq)
    next
      case False
      with ok 3 show ?thesis by (auto simp: compiled_ok_def nth_append less_Suc_eq)
    qed
  qed
qed (use ok in simp)

lemma mergeSources_set: "set (mergeSources ex add) = set ex \<union> set (merge_seen (map sourceKey ex) add)"
  by (simp add: mergeSources_def)

lemma merge_seen_keys:
  "sr_Kind s \<noteq> [] \<Longrightarrow> sr_ID s \<noteq> [] \<Longrightarrow> s \<in> set add \<Longrightarrow>
     sourceKey s \<in> set seen \<union> sourceKey ` set (merge_seen seen add)"
  by (induction seen add rule: merge_seen.induct) auto

lemma mergeSources_keeps:
  "s \<in> set ex \<Longrightarrow> sourceKey s \<in> sourceKey ` set (mergeSources ex add)"
  "sr_Kind s \<noteq> [] \<Longrightarrow> sr_ID s \<noteq> [] \<Longrightarrow> s \<in> set add \<Longrightarrow>
     sourceKey s \<in> sourceKey ` set (mergeSources ex add)"
  using merge_seen_keys [of s add "map sourceKey ex"] by (auto simp: mergeSources_set)

text \<open>A candidate is covered when a criterion of its text has its obligation and its sources.\<close>

definition covers :: "contract_env \<Rightarrow> criterion_input \<Rightarrow> criterion \<Rightarrow> bool" where
  "covers env cand c \<longleftrightarrow> ctext env c = normalizeCriterionText env (TrimSpace (ci_Text cand)) \<and>
     (ci_Required cand \<longrightarrow> cr_Required c) \<and>
     (\<forall>s \<in> set (ci_Sources cand). sr_Kind s \<noteq> [] \<and> sr_ID s \<noteq> [] \<longrightarrow> sourceKey s \<in> sourceKey ` set (cr_Sources c))"

lemma covers_merge_into: "covers env cand c \<Longrightarrow> covers env cand (merge_into other c)"
  unfolding covers_def using mergeSources_keeps(1)
  by simp (metis (no_types, lifting) image_iff)

lemma appendCriterion_covers:
  assumes ok: "compiled_ok env (cs, bt)" and app: "appendCriterion env origin cand (cs, bt) = Inr acc'"
    and "origin \<noteq> ''inferred''"
  shows "\<exists>c \<in> set (fst acc'). covers env cand c"
  using ok app
proof (cases rule: appendCriterion_cases)
  case (2 i)
  then have "covers env cand (merge_into cand (cs ! i))"
    by (auto simp: covers_def mergeSources_keeps)
  with 2 show ?thesis by (auto intro!: bexI [OF _ set_update_memI])
next
  case (3 c)
  then have "covers env cand c" by (auto simp: covers_def mergeSources_keeps)
  with 3 show ?thesis by auto
qed (use assms in simp)

lemma appendCriterion_keeps_cover:
  assumes ok: "compiled_ok env (cs, bt)" and app: "appendCriterion env origin other (cs, bt) = Inr acc'"
    and cov: "\<exists>c \<in> set cs. covers env cand c"
  shows "\<exists>c \<in> set (fst acc'). covers env cand c"
  using ok app
proof (cases rule: appendCriterion_cases)
  case (2 i)
  from cov obtain j where j: "j < length cs" "covers env cand (cs ! j)" by (auto simp: in_set_conv_nth)
  then have "covers env cand (cs[i := merge_into other (cs ! i)] ! j)"
    using 2(3) by (cases "i = j") (simp_all add: covers_merge_into)
  with 2 j show ?thesis by (metis fst_conv length_list_update nth_mem)
qed (use cov in auto)

section \<open>Appending lists of candidates\<close>

lemma append_all_ok: "append_all env origin cands acc = Inr acc' \<Longrightarrow> compiled_ok env acc \<Longrightarrow> compiled_ok env acc'"
  by (induction cands arbitrary: acc) (auto simp: bindE_eq_Inr dest: appendCriterion_ok)

lemma append_all_keeps_cover:
  "append_all env origin cands acc = Inr acc' \<Longrightarrow> compiled_ok env acc \<Longrightarrow>
     \<exists>c \<in> set (fst acc). covers env cand c \<Longrightarrow> \<exists>c \<in> set (fst acc'). covers env cand c"
proof (induction cands arbitrary: acc)
  case (Cons x xs)
  obtain cs bt where acc: "acc = (cs, bt)" by (cases acc)
  from Cons.prems(1) obtain a where a: "appendCriterion env origin x acc = Inr a"
    "append_all env origin xs a = Inr acc'" by (auto simp: bindE_eq_Inr)
  show ?case
    using Cons.IH [OF a(2)] a(1) Cons.prems(2,3) appendCriterion_ok [of env cs bt origin x a]
      appendCriterion_keeps_cover [of env cs bt origin x a cand] acc by auto
qed simp

lemma append_all_covers:
  "append_all env origin cands acc = Inr acc' \<Longrightarrow> compiled_ok env acc \<Longrightarrow> origin \<noteq> ''inferred'' \<Longrightarrow>
     cand \<in> set cands \<Longrightarrow> \<exists>c \<in> set (fst acc'). covers env cand c"
proof (induction cands arbitrary: acc)
  case (Cons x xs)
  obtain cs bt where acc: "acc = (cs, bt)" by (cases acc)
  from Cons.prems(1) obtain a where a: "appendCriterion env origin x acc = Inr a"
    "append_all env origin xs a = Inr acc'" by (auto simp: bindE_eq_Inr)
  have ok: "compiled_ok env a" using a(1) Cons.prems(2) acc appendCriterion_ok by metis
  show ?case
  proof (cases "cand = x")
    case True
    then have "\<exists>c \<in> set (fst a). covers env cand c"
      using appendCriterion_covers [of env cs bt origin x a] a(1) acc Cons.prems by simp
    then show ?thesis by (rule append_all_keeps_cover [OF a(2) ok])
  next
    case False
    with Cons.IH [OF a(2) ok] Cons.prems show ?thesis by simp
  qed
qed simp

lemma append_all_explicit:
  "append_all env ''explicit'' cands acc = Inr acc' \<Longrightarrow> compiled_ok env acc \<Longrightarrow>
     \<forall>c \<in> set (fst acc). cr_Origin c = ''explicit'' \<Longrightarrow> \<forall>c \<in> set (fst acc'). cr_Origin c = ''explicit''"
proof (induction cands arbitrary: acc)
  case (Cons x xs)
  obtain cs bt where acc: "acc = (cs, bt)" by (cases acc)
  from Cons.prems(1) obtain a where a: "appendCriterion env ''explicit'' x (cs, bt) = Inr a"
    "append_all env ''explicit'' xs a = Inr acc'" using acc by (auto simp: bindE_eq_Inr)
  have ok: "compiled_ok env (cs, bt)" using Cons.prems acc by simp
  from ok a(1) have "\<forall>c \<in> set (fst a). cr_Origin c = ''explicit''"
    by (cases rule: appendCriterion_cases)
      (use Cons.prems(3) acc in \<open>auto dest!: set_update_subset_insert [THEN subsetD]\<close>)
  with Cons.IH [OF a(2)] appendCriterion_ok [OF ok a(1)] show ?case by simp
qed simp

lemma append_all_inferred:
  "append_all env ''inferred'' cands acc = Inr acc' \<Longrightarrow> compiled_ok env acc \<Longrightarrow>
     \<exists>extra. fst acc' = fst acc @ extra \<and> (\<forall>c \<in> set extra. cr_Origin c = ''inferred'')"
proof (induction cands arbitrary: acc)
  case (Cons x xs)
  obtain cs bt where acc: "acc = (cs, bt)" by (cases acc)
  from Cons.prems(1) obtain a where a: "appendCriterion env ''inferred'' x (cs, bt) = Inr a"
    "append_all env ''inferred'' xs a = Inr acc'" using acc by (auto simp: bindE_eq_Inr)
  have ok: "compiled_ok env (cs, bt)" using Cons.prems acc by simp
  from Cons.IH [OF a(2) appendCriterion_ok [OF ok a(1)]] obtain extra
    where extra: "fst acc' = fst a @ extra" "\<forall>c \<in> set extra. cr_Origin c = ''inferred''" by blast
  from ok a(1) have "\<exists>new. fst a = cs @ new \<and> (\<forall>c \<in> set new. cr_Origin c = ''inferred'')"
    by (cases rule: appendCriterion_cases) auto
  with extra acc show ?case by auto
qed simp

section \<open>Compiling\<close>

lemma validate_ordered_append:
  "validate_ordered seen (xs @ ys) = bindE (validate_ordered seen xs) (\<lambda>seen'. validate_ordered seen' ys)"
  by (induction seen xs rule: validate_ordered.induct) (auto split: option.splits)

lemma validate_checks_append: "validate_checks seen (xs @ ys) = None \<Longrightarrow> validate_checks seen xs = None"
  by (induction seen xs rule: validate_checks.induct) (auto split: option.splits if_splits)

lemma compiled_work_simps [simp]:
  "ws_Criteria (compiled_work env input cs) = cs" "ws_SessionID (compiled_work env input cs) = in_SessionID input"
  "CanonicalWorkSpecID env (compiled_work env input cs) = ws_ID (compiled_work env input cs)"
  by (simp_all add: compiled_work_def Let_def CanonicalWorkSpecID_def)

lemma compiled_plan_simps [simp]:
  "vp_Checks (compiled_plan env input cs) = criterion_checks cs"
  "vp_WorkSpecID (compiled_plan env input cs) = ws_ID (compiled_work env input cs)"
  "vp_ID (compiled_plan env input cs) = CanonicalVerificationPlanID env (compiled_plan env input cs)"
  by (simp_all add: compiled_plan_def Let_def CanonicalVerificationPlanID_def shortHash_def)

lemma compiled_work_valid:
  "validate_work env (compiled_work env input cs) = None \<longleftrightarrow>
     in_SessionID input \<noteq> [] \<and> \<not> blank (TrimSpace (in_Goal input)) \<and> \<not> IsZero (in_CreatedAt input) \<and> cs \<noteq> [] \<and>
     (\<exists>seen. validate_ordered [] cs = Inr seen)"
  unfolding validate_work_def
  by (auto simp: requireV1_def compiled_work_def Let_def CanonicalWorkSpecID_def split: sum.splits)

lemma compiled_plan_valid:
  "validate_plan env (compiled_plan env input cs) = None \<longleftrightarrow>
     in_RevisionID input \<noteq> [] \<and> in_SnapshotHash input \<noteq> [] \<and> cs \<noteq> [] \<and> \<not> IsZero (in_CreatedAt input) \<and>
     validate_checks [] (criterion_checks cs) = None"
  unfolding validate_plan_def compiled_plan_simps
  by (auto simp: requireV1_def compiled_plan_def Let_def CanonicalVerificationPlanID_def compiled_work_def
    CanonicalWorkSpecID_def criterion_checks_def)

lemma explicit_criteria_inferred [simp]:
  "explicit_criteria (input\<lparr>in_InferredCriteria := cs\<rparr>) = explicit_criteria input"
  by (simp add: explicit_criteria_def)

lemma explicit_criteria_nonempty: "explicit_criteria input \<noteq> []"
  by (simp add: explicit_criteria_def Let_def)

text \<open>What a successful compilation consists of.\<close>

lemma CompileCriteria_Inr:
  assumes "CompileCriteria env input = Inr (work, plan)"
  obtains cs0 bt0 extra bt where
    "append_all env ''explicit'' (explicit_criteria input) ([], []) = Inr (cs0, bt0)"
    "append_all env ''inferred'' (in_InferredCriteria input) (cs0, bt0) = Inr (cs0 @ extra, bt)"
    "compiled_ok env (cs0, bt0)" "compiled_ok env (cs0 @ extra, bt)"
    "\<forall>c \<in> set cs0. cr_Origin c = ''explicit''" "\<forall>c \<in> set extra. cr_Origin c = ''inferred''"
    "work = compiled_work env input (cs0 @ extra)" "plan = compiled_plan env input (cs0 @ extra)"
    "validate_work env work = None" "validate_plan env plan = None"
proof -
  from assms obtain cs0 bt0 cs bt where a: "append_all env ''explicit'' (explicit_criteria input) ([], []) = Inr (cs0, bt0)"
    and b: "append_all env ''inferred'' (in_InferredCriteria input) (cs0, bt0) = Inr (cs, bt)"
    and v: "work = compiled_work env input cs" "plan = compiled_plan env input cs"
      "validate_work env work = None" "validate_plan env plan = None"
    by (auto simp: CompileCriteria_def bindE_eq_Inr split: if_splits option.splits)
  have ok0: "compiled_ok env (cs0, bt0)" by (rule append_all_ok [OF a]) simp
  have ok: "compiled_ok env (cs, bt)" by (rule append_all_ok [OF b ok0])
  from append_all_inferred [OF b ok0] obtain extra where "cs = cs0 @ extra" "\<forall>c \<in> set extra. cr_Origin c = ''inferred''"
    by auto
  moreover have "\<forall>c \<in> set cs0. cr_Origin c = ''explicit''" using append_all_explicit [OF a] by simp
  ultimately show ?thesis using that a b ok0 ok v by metis
qed

lemma append_all_nonempty:
  assumes "append_all env ''explicit'' cands ([], []) = Inr (cs, bt)" and "cands \<noteq> []"
  shows "cs \<noteq> []"
proof -
  obtain cand where "cand \<in> set cands" using assms(2) by (cases cands) auto
  from append_all_covers [OF assms(1) _ _ this] show ?thesis by fastforce
qed

text \<open>An obligation is kept when an explicit criterion of the compiled work has its text, is required
  when the obligation is, carries its well-formed sources and has a check of its own in the plan.\<close>

definition obligation_kept ::
  "contract_env \<Rightarrow> work_spec \<Rightarrow> verification_plan \<Rightarrow> string \<Rightarrow> bool \<Rightarrow> source_ref list \<Rightarrow> bool" where
  "obligation_kept env work plan text required sources \<longleftrightarrow> (\<exists>c \<in> set (ws_Criteria work).
     normalizeCriterionText env (cr_Text c) = normalizeCriterionText env (TrimSpace text) \<and>
     cr_Origin c = ''explicit'' \<and> (required \<longrightarrow> cr_Required c) \<and>
     (\<forall>s \<in> set sources. sr_Kind s \<noteq> [] \<and> sr_ID s \<noteq> [] \<longrightarrow> sourceKey s \<in> sourceKey ` set (cr_Sources c)) \<and>
     (\<exists>check \<in> set (vp_Checks plan). vc_CriterionIDs check = [cr_ID c] \<and> vc_Kind check = ''criterion''))"

text \<open>Every explicit candidate is an obligation that is kept.\<close>

theorem compile_covers_candidates:
  assumes "CompileCriteria env input = Inr (work, plan)" and "cand \<in> set (explicit_criteria input)"
  shows "obligation_kept env work plan (ci_Text cand) (ci_Required cand) (ci_Sources cand)"
proof -
  from assms(1) obtain cs0 bt0 extra bt where
    a: "append_all env ''explicit'' (explicit_criteria input) ([], []) = Inr (cs0, bt0)"
    and o: "\<forall>c \<in> set cs0. cr_Origin c = ''explicit''"
    and w: "work = compiled_work env input (cs0 @ extra)" "plan = compiled_plan env input (cs0 @ extra)"
    by (rule CompileCriteria_Inr)
  from append_all_covers [OF a _ _ assms(2)] obtain c where c: "c \<in> set cs0" "covers env cand c" by auto
  have "\<exists>check \<in> set (vp_Checks plan). vc_CriterionIDs check = [cr_ID c] \<and> vc_Kind check = ''criterion''"
    using w(2) c(1) by (auto simp: criterion_checks_def image_Un bex_Un)
  moreover have "cr_Origin c = ''explicit''" "c \<in> set (ws_Criteria work)" using c(1) o w(1) by simp_all
  ultimately show ?thesis using c(2) unfolding covers_def obligation_kept_def by blast
qed

text \<open>An item of the Todo list is open when it is neither cancelled nor blank.\<close>

definition open_item :: "todo_list \<Rightarrow> todo_item \<Rightarrow> bool" where
  "open_item todo item \<longleftrightarrow> (\<exists>phase \<in> set (todo_Phases todo). item \<in> set (phase_Items phase)) \<and>
     item_Status item \<noteq> ''cancelled'' \<and> \<not> blank (item_Content item)"

definition item_source :: "todo_list \<Rightarrow> todo_item \<Rightarrow> source_ref" where
  "item_source todo item = \<lparr>sr_Kind = ''todo'', sr_ID = FormatInt (todo_Revision todo) @ '':'' @ item_ID item,
     sr_Range = [], sr_SHA256 = []\<rparr>"

lemma compile_keeps_items:
  assumes "CompileCriteria env input = Inr (work, plan)" and "open_item (in_Todo input) item"
  shows "obligation_kept env work plan (item_Content item) True [item_source (in_Todo input) item]"
proof -
  let ?cand = "\<lparr>ci_ID = ''todo:'' @ item_ID item, ci_Text = item_Content item, ci_Required = True,
    ci_Sources = [item_source (in_Todo input) item]\<rparr>"
  have "item \<in> set (filter (\<lambda>item. item_Status item \<noteq> ''cancelled'' \<and> \<not> blank (item_Content item))
      (concat (map phase_Items (todo_Phases (in_Todo input)))))"
    using assms(2) unfolding open_item_def by auto
  then have "?cand \<in> set (todo_criteria (in_Todo input))"
    unfolding todo_criteria_def item_source_def set_map by (rule imageI)
  then have "?cand \<in> set (explicit_criteria input)" by (auto simp: explicit_criteria_def Let_def)
  from compile_covers_candidates [OF assms(1) this] show ?thesis by simp
qed

lemma compile_keeps_goal:
  assumes "CompileCriteria env input = Inr (work, plan)"
    and "in_UserCriteria input = []" "in_PlanCriteria input = []" "\<nexists>item. open_item (in_Todo input) item"
  shows "obligation_kept env work plan (in_Goal input) True [in_GoalSource input]"
proof -
  let ?cand = "\<lparr>ci_ID = ''goal'', ci_Text = TrimSpace (in_Goal input), ci_Required = True, ci_Sources = [in_GoalSource input]\<rparr>"
  have "todo_criteria (in_Todo input) = []"
    using assms(4) unfolding todo_criteria_def open_item_def by (auto simp: filter_empty_conv)
  then have "?cand \<in> set (explicit_criteria input)" using assms(2,3) by (simp add: explicit_criteria_def)
  from compile_covers_candidates [OF assms(1) this] show ?thesis by (simp add: obligation_kept_def)
qed

lemma compile_keeps_scope:
  assumes "CompileCriteria env input = Inr (work, plan)"
  shows "\<exists>work0 plan0 extra.
    CompileCriteria env (input\<lparr>in_InferredCriteria := []\<rparr>) = Inr (work0, plan0) \<and>
    ws_Criteria work = ws_Criteria work0 @ extra \<and>
    (\<forall>c \<in> set (ws_Criteria work0). cr_Origin c = ''explicit'') \<and>
    (\<forall>c \<in> set extra. cr_Origin c = ''inferred'') \<and>
    distinct (map (\<lambda>c. normalizeCriterionText env (cr_Text c)) (ws_Criteria work))"
proof -
  let ?input = "input\<lparr>in_InferredCriteria := []\<rparr>"
  from assms obtain cs0 bt0 extra bt where
    a: "append_all env ''explicit'' (explicit_criteria input) ([], []) = Inr (cs0, bt0)"
    and ok: "compiled_ok env (cs0 @ extra, bt)"
    and o: "\<forall>c \<in> set cs0. cr_Origin c = ''explicit''" "\<forall>c \<in> set extra. cr_Origin c = ''inferred''"
    and w: "work = compiled_work env input (cs0 @ extra)" "plan = compiled_plan env input (cs0 @ extra)"
    and v: "validate_work env work = None" "validate_plan env plan = None"
    by (rule CompileCriteria_Inr)
  have ne: "cs0 \<noteq> []" by (rule append_all_nonempty [OF a explicit_criteria_nonempty])
  from v(1) ne have v1: "validate_work env (compiled_work env ?input cs0) = None"
    unfolding w compiled_work_valid by (auto simp: validate_ordered_append bindE_eq_Inr)
  from v(2) ne have v2: "validate_plan env (compiled_plan env ?input cs0) = None"
    unfolding w compiled_plan_valid by (auto simp: criterion_checks_def dest: validate_checks_append)
  from assms a v1 v2 have "CompileCriteria env ?input = Inr (compiled_work env ?input cs0, compiled_plan env ?input cs0)"
    by (auto simp: CompileCriteria_def split: if_splits)
  with o w compiled_ok_distinct [OF ok] show ?thesis by auto
qed

text \<open>C0. Inferred criteria never replace, weaken or rename explicit scope, and no explicit obligation
  is lost: whenever the compiler succeeds, every criterion of the user, every criterion of the
  approved plan and every open item of the Todo list, or the goal when there is none of them, has an
  explicit criterion of its text, required when the obligation is, with its sources and with a
  check in the plan. The compiler also succeeds without the inferred criteria, its criteria begin
  with exactly those it compiles then, and what follows is inferred and repeats no text.\<close>

theorem compile_keeps_explicit:
  assumes "CompileCriteria env input = Inr (work, plan)"
  shows "(\<forall>cand \<in> set (in_UserCriteria input).
      obligation_kept env work plan (ci_Text cand) (ci_Required cand) (ci_Sources cand)) \<and>
    (\<forall>cand \<in> set (in_PlanCriteria input).
      obligation_kept env work plan (ci_Text cand) (ci_Required cand) (ci_Sources cand)) \<and>
    (\<forall>item. open_item (in_Todo input) item \<longrightarrow>
      obligation_kept env work plan (item_Content item) True [item_source (in_Todo input) item]) \<and>
    (in_UserCriteria input = [] \<and> in_PlanCriteria input = [] \<and> (\<nexists>item. open_item (in_Todo input) item) \<longrightarrow>
      obligation_kept env work plan (in_Goal input) True [in_GoalSource input]) \<and>
    (\<exists>work0 plan0 extra.
      CompileCriteria env (input\<lparr>in_InferredCriteria := []\<rparr>) = Inr (work0, plan0) \<and>
      ws_Criteria work = ws_Criteria work0 @ extra \<and>
      (\<forall>c \<in> set (ws_Criteria work0). cr_Origin c = ''explicit'') \<and>
      (\<forall>c \<in> set extra. cr_Origin c = ''inferred'') \<and>
      distinct (map (\<lambda>c. normalizeCriterionText env (cr_Text c)) (ws_Criteria work)))"
proof -
  have ex: "cand \<in> set (explicit_criteria input)"
    if "cand \<in> set (in_UserCriteria input) \<union> set (in_PlanCriteria input)" for cand
    using that by (auto simp: explicit_criteria_def Let_def)
  show ?thesis
    using ex compile_keeps_scope [OF assms] compile_keeps_items [OF assms] compile_keeps_goal [OF assms]
      compile_covers_candidates [OF assms]
    by (intro conjI) blast+
qed

section \<open>A compilation\<close>

text \<open>A Todo with an open and a cancelled item, a user criterion and two inferred ones, one of which
  only differs from the user's in case and spacing.\<close>

definition ex_contract_env :: contract_env where
  "ex_contract_env = \<lparr>ce_sha = (\<lambda>s. replicate 64 (CHR ''a'')), ce_lower = map lower_char, ce_work_json = (\<lambda>_. []),
     ce_constraints_json = (\<lambda>_. []), ce_snapshot_json = (\<lambda>_. []), ce_identity_json = (\<lambda>_. []), ce_disposition_json = (\<lambda>_. []),
     ce_string_json = (\<lambda>s. s), ce_revision_json = wr_ID, ce_revision_decode = (\<lambda>_. None),
     ce_spec_json = ws_ID, ce_plan_json = vp_ID, ce_intent_json = ai_ID, ce_intent_decode = (\<lambda>_. None),
     ce_observation_json = oe_ID,
     ce_result_json = (\<lambda>r. vr_ID r), ce_result_decode = (\<lambda>_. None)\<rparr>"

definition ex_todo :: todo_list where
  "ex_todo = \<lparr>todo_Goal = ''ship'', todo_Revision = 3, todo_Phases = [\<lparr>phase_ID = ''p'', phase_Title = ''Build'',
     phase_Items = [\<lparr>item_ID = ''a'', item_Content = ''write tests'', item_Status = ''pending'', item_SubagentRunID = []\<rparr>,
       \<lparr>item_ID = ''b'', item_Content = ''old'', item_Status = ''cancelled'', item_SubagentRunID = []\<rparr>]\<rparr>],
     todo_UpdatedAt = 5\<rparr>"

definition ex_candidate :: "string \<Rightarrow> string \<Rightarrow> criterion_input" where
  "ex_candidate i t = \<lparr>ci_ID = i, ci_Text = t, ci_Required = True,
     ci_Sources = [\<lparr>sr_Kind = ''user'', sr_ID = ''1'', sr_Range = [], sr_SHA256 = []\<rparr>]\<rparr>"

definition ex_input :: compile_input where
  "ex_input = \<lparr>in_SessionID = ''s'', in_RunID = ''r'', in_Goal = ''ship'',
     in_GoalSource = \<lparr>sr_Kind = ''session_block'', sr_ID = ''1'', sr_Range = [], sr_SHA256 = []\<rparr>,
     in_ApprovedPlanID = [], in_UserCriteria = [ex_candidate ''u'' ''Keep API''], in_PlanCriteria = [],
     in_InferredCriteria = [ex_candidate ''i'' ''keep  api'', ex_candidate [] ''lint''], in_Todo = ex_todo,
     in_RevisionID = ''rev'', in_SnapshotHash = ''snap'', in_CreatedAt = 7\<rparr>"

definition ex_compiled :: "claim_error + work_spec \<times> verification_plan" where
  "ex_compiled = CompileCriteria ex_contract_env ex_input"

lemma ex_compiled_eval: "case ex_compiled of Inr (w, p) \<Rightarrow>
    map cr_ID (ws_Criteria w) = [''u'', ''todo:a'', ''inferred:aaaaaaaaaaaaaaaa''] | Inl _ \<Rightarrow> False"
  by code_simp

lemma ex_compiled_split: obtains w p where "CompileCriteria ex_contract_env ex_input = Inr (w, p)"
    "map cr_ID (ws_Criteria w) = [''u'', ''todo:a'', ''inferred:aaaaaaaaaaaaaaaa'']"
  using ex_compiled_eval by (auto simp: ex_compiled_def split: sum.splits)

theorem compile_keeps_explicit_witness:
  "\<exists>w p. CompileCriteria ex_contract_env ex_input = Inr (w, p) \<and> length (ws_Criteria w) = 3 \<and>
     obligation_kept ex_contract_env w p ''Keep API'' True [\<lparr>sr_Kind = ''user'', sr_ID = ''1'', sr_Range = [], sr_SHA256 = []\<rparr>]"
proof -
  obtain w p where c: "CompileCriteria ex_contract_env ex_input = Inr (w, p)"
    "map cr_ID (ws_Criteria w) = [''u'', ''todo:a'', ''inferred:aaaaaaaaaaaaaaaa'']" by (rule ex_compiled_split)
  then have "length (ws_Criteria w) = 3" by (metis length_map length_Cons list.size(3) numeral_3_eq_3)
  moreover have "\<forall>cand \<in> set (in_UserCriteria ex_input).
      obligation_kept ex_contract_env w p (ci_Text cand) (ci_Required cand) (ci_Sources cand)"
    using compile_keeps_explicit [OF c(1)] by (rule conjunct1)
  then have "obligation_kept ex_contract_env w p ''Keep API'' True [\<lparr>sr_Kind = ''user'', sr_ID = ''1'', sr_Range = [], sr_SHA256 = []\<rparr>]"
    by (simp add: ex_input_def ex_candidate_def)
  ultimately show ?thesis using c(1) by blast
qed

theorem compile_covers_candidates_witness:
  "\<exists>w p. CompileCriteria ex_contract_env ex_input = Inr (w, p) \<and>
     obligation_kept ex_contract_env w p ''write tests'' True
       [\<lparr>sr_Kind = ''todo'', sr_ID = FormatInt 3 @ '':a'', sr_Range = [], sr_SHA256 = []\<rparr>]"
proof -
  obtain w p where c: "CompileCriteria ex_contract_env ex_input = Inr (w, p)" by (rule ex_compiled_split)
  let ?cand = "\<lparr>ci_ID = ''todo:a'', ci_Text = ''write tests'', ci_Required = True,
    ci_Sources = [\<lparr>sr_Kind = ''todo'', sr_ID = FormatInt 3 @ '':a'', sr_Range = [], sr_SHA256 = []\<rparr>]\<rparr>"
  have "?cand \<in> set (explicit_criteria ex_input)" by code_simp
  from compile_covers_candidates [OF c this] c show ?thesis by auto
qed

end
