(* ===== verification/Check_Commands.thy ===== *)
theory Check_Commands
  imports Work_Criteria
begin

text \<open>
  How the runtime recognises that a verification command was run, in
  \<^verbatim>\<open>internal/app/work_evidence.go\<close>: the check's argument vector is printed as a shell command
  (\<^verbatim>\<open>shellCommand\<close>, \<^verbatim>\<open>shellQuote\<close>) and compared with the text of a recorded shell call after one layer of
  parentheses or of \<^verbatim>\<open>eval '...'\<close> was removed.

  The reference is \<open>sh_read\<close>, the reading of a command line by a POSIX shell on the fragment without
  expansions: tokens with the quoting of every character, the subshell \<open>( cd DIR && COMMAND )\<close>, the
  assignments before the command word and the reserved words. It yields nothing as soon as an
  unquoted character or word has another meaning.
\<close>

section \<open>Printing a command\<close>

definition shell_safe :: "char \<Rightarrow> bool" where
  "shell_safe c \<longleftrightarrow> (let n = of_char c :: nat in 97 \<le> n \<and> n \<le> 122 \<or> 65 \<le> n \<and> n \<le> 90 \<or> 48 \<le> n \<and> n \<le> 57) \<or>
     c \<in> set ''_./:@%+=,-''"

text \<open>\<^verbatim>\<open>strings.ReplaceAll(value, "'", "'\"'\"'")\<close>.\<close>

definition escape_quotes :: "string \<Rightarrow> string" where
  "escape_quotes text = concat (map (\<lambda>c. if c = CHR 0x27 then [CHR 0x27, CHR 0x22, CHR 0x27, CHR 0x22, CHR 0x27] else [c]) text)"

definition shellQuote :: "string \<Rightarrow> string" where
  "shellQuote text =
     (if text \<noteq> [] \<and> list_all shell_safe text then text
      else [CHR 0x27] @ escape_quotes text @ [CHR 0x27])"

text \<open>The environment is a map: its entries have distinct keys and come in the order of the keys.\<close>

definition shell_parts :: "(string \<times> string) list \<Rightarrow> string list \<Rightarrow> string list" where
  "shell_parts environment command =
     map (\<lambda>(k, v). k @ ''='' @ shellQuote v) (sort_key fst environment) @ map shellQuote command"

definition shellCommand :: "(string \<times> string) list \<Rightarrow> string \<Rightarrow> string list \<Rightarrow> string" where
  "shellCommand environment cwd command =
     (let joined = Join (shell_parts environment command) '' '' in
      if \<not> blank cwd then ''(cd '' @ shellQuote cwd @ '' && '' @ joined @ '')'' else joined)"

definition shellCommandForCheck :: "verification_check \<Rightarrow> string" where
  "shellCommandForCheck check = shellCommand (vc_Environment check) (vc_CWD check) (vc_Command check)"

section \<open>Recognising a command\<close>

definition unwrapShellCommand :: "string \<Rightarrow> string" where
  "unwrapShellCommand text =
     (let command = TrimSpace text;
          command = (if length command \<ge> 2 \<and> HasPrefix command ''('' \<and> HasSuffix command '')''
            then TrimSpace (butlast (tl command)) else command);
          literal = TrimSuffix (TrimPrefix command (''eval '' @ [CHR 0x27])) [CHR 0x27]
      in if HasPrefix command (''eval '' @ [CHR 0x27]) \<and>
            HasSuffix (TrimPrefix command (''eval '' @ [CHR 0x27])) [CHR 0x27] \<and> CHR 0x27 \<notin> set literal
         then TrimSpace literal else command)"

definition isFrontendTestCheck :: "verification_check \<Rightarrow> bool" where
  "isFrontendTestCheck check \<longleftrightarrow> vc_Kind check = ''command'' \<and> HasSuffix (vc_ID check) ''-test'' \<and>
     length (vc_Command check) = 3 \<and> vc_Command check ! 1 = ''run'' \<and> vc_Command check ! 2 = ''test''"

definition isFrontendTestPath :: "contract_env \<Rightarrow> string \<Rightarrow> bool" where
  "isFrontendTestPath env path \<longleftrightarrow>
     (let base = ce_lower env (path_Base path) in Contains base ''.test.'' \<or> Contains base ''.spec.'')"

definition vitest_runner :: "string \<Rightarrow> string" where
  "vitest_runner tool =
     (if tool = ''bun'' then ''bunx vitest'' else if tool = ''npm'' then ''npx vitest''
      else if tool = ''pnpm'' then ''pnpm exec vitest'' else if tool = ''yarn'' then ''yarn exec vitest'' else [])"

text \<open>The loop over the touched test files; \<open>found\<close> is \<^verbatim>\<open>foundTest\<close>.\<close>

fun covers_test_files ::
  "contract_env \<Rightarrow> string \<Rightarrow> string \<Rightarrow> bool \<Rightarrow> revision_file list \<Rightarrow> bool" where
  "covers_test_files env cwd command found [] = found"
| "covers_test_files env cwd command found (f # fs) =
     (if \<not> rf_Touched f \<or> \<not> isFrontendTestPath env (rf_Path f) then covers_test_files env cwd command found fs
      else let path = path_Clean (rf_Path f) in
        if cwd \<noteq> [] \<and> \<not> HasPrefix path (path_Clean cwd @ ''/'') then covers_test_files env cwd command found fs
        else let path = (if cwd \<noteq> [] then TrimPrefix path (path_Clean cwd @ ''/'') else path) in
          if \<not> list_ex (\<lambda>token. Trim token [CHR 0x27, CHR 0x22] = path) (Fields command) then False
          else covers_test_files env cwd command True fs)"

definition frontendTestCommandCoversFiles ::
  "contract_env \<Rightarrow> verification_check \<Rightarrow> string \<Rightarrow> revision_file list \<Rightarrow> bool" where
  "frontendTestCommandCoversFiles env check command files =
     (if length files = 0 then False
      else if ContainsAny command ('';&|<>`$'' @ [CHR 0x5C, CHR 0x0A, CHR 0x0D]) then False
      else if \<not> HasPrefix command (vitest_runner (vc_Command check ! 0) @ '' '') \<and>
         \<not> HasPrefix command (shellCommand [] [] (vc_Command check) @ '' '') then False
      else covers_test_files env (vc_CWD check) command False files)"

text \<open>The working directory is entered by one of two prefixes, the quoted one first.\<close>

definition strip_cd :: "string \<Rightarrow> string \<Rightarrow> string option" where
  "strip_cd cwd body =
     (if HasPrefix body (''cd '' @ shellQuote cwd @ '' && '')
      then Some (TrimSpace (TrimPrefix body (''cd '' @ shellQuote cwd @ '' && '')))
      else if HasPrefix body (''cd '' @ cwd @ '' && '')
      then Some (TrimSpace (TrimPrefix body (''cd '' @ cwd @ '' && '')))
      else None)"

definition commandMatchesCheck ::
  "contract_env \<Rightarrow> verification_check \<Rightarrow> revision_file list \<Rightarrow> string \<Rightarrow> bool" where
  "commandMatchesCheck env check files text =
     (let actual = unwrapShellCommand text in
      if actual = shellCommandForCheck check then True
      else case (if vc_CWD check \<noteq> [] then strip_cd (vc_CWD check) actual else Some actual) of
        None \<Rightarrow> False
      | Some body \<Rightarrow>
          if body = shellCommand (vc_Environment check) [] (vc_Command check) then True
          else if \<not> isFrontendTestCheck check then False
          else frontendTestCommandCoversFiles env check body files)"

section \<open>How a shell reads a command\<close>

text \<open>A token keeps with every character of a word whether it was quoted: quoting decides whether a
  word is an assignment or a reserved word.\<close>

type_synonym sh_word = "(char \<times> bool) list"

datatype sh_token = Word sh_word | OpenParen | CloseParen | AndAnd

datatype sh_mode = Bare | Single | Double

definition sh_special :: "char \<Rightarrow> bool" where
  "sh_special c \<longleftrightarrow> c \<in> set (''|&;<>()$`*?[]#~!{}'' @ [CHR 0x5C, CHR 0x0A, CHR 0x0D])"

definition sh_blank :: "char \<Rightarrow> bool" where
  "sh_blank c \<longleftrightarrow> c = CHR 0x20 \<or> c = CHR 0x09"

text \<open>The word being read is kept reversed; \<open>None\<close> is no word, which differs from the empty word \<open>''''\<close>.\<close>

definition sh_acc :: "sh_word option \<Rightarrow> sh_word" where
  "sh_acc cur = (case cur of None \<Rightarrow> [] | Some w \<Rightarrow> w)"

definition sh_emit :: "sh_word option \<Rightarrow> sh_token list option \<Rightarrow> sh_token list option" where
  "sh_emit cur rest = (case rest of None \<Rightarrow> None
     | Some ts \<Rightarrow> Some (case cur of None \<Rightarrow> ts | Some w \<Rightarrow> Word (rev w) # ts))"

definition sh_op :: "sh_token \<Rightarrow> sh_token list option \<Rightarrow> sh_token list option" where
  "sh_op t rest = (case rest of None \<Rightarrow> None | Some ts \<Rightarrow> Some (t # ts))"

fun sh_scan :: "sh_mode \<Rightarrow> sh_word option \<Rightarrow> string \<Rightarrow> sh_token list option" where
  "sh_scan Bare cur [] = sh_emit cur (Some [])"
| "sh_scan Bare cur (c # cs) =
     (if sh_blank c then sh_emit cur (sh_scan Bare None cs)
      else if c = CHR 0x27 then sh_scan Single (Some (sh_acc cur)) cs
      else if c = CHR 0x22 then sh_scan Double (Some (sh_acc cur)) cs
      else if c = CHR ''('' then sh_emit cur (sh_op OpenParen (sh_scan Bare None cs))
      else if c = CHR '')'' then sh_emit cur (sh_op CloseParen (sh_scan Bare None cs))
      else if c = CHR ''&'' then (case cs of [] \<Rightarrow> None | d # ds \<Rightarrow>
        if d = CHR ''&'' then sh_emit cur (sh_op AndAnd (sh_scan Bare None ds)) else None)
      else if sh_special c then None
      else sh_scan Bare (Some ((c, False) # sh_acc cur)) cs)"
| "sh_scan Single cur [] = None"
| "sh_scan Single cur (c # cs) =
     (if c = CHR 0x27 then sh_scan Bare cur cs else sh_scan Single (Some ((c, True) # sh_acc cur)) cs)"
| "sh_scan Double cur [] = None"
| "sh_scan Double cur (c # cs) =
     (if c = CHR 0x22 then sh_scan Bare cur cs
      else if c \<in> set (''$`!'' @ [CHR 0x5C]) then None
      else sh_scan Double (Some ((c, True) # sh_acc cur)) cs)"

text \<open>A name is a letter or an underscore followed by letters, digits and underscores.\<close>

definition sh_letter :: "char \<Rightarrow> bool" where
  "sh_letter c \<longleftrightarrow> (let n = of_char c :: nat in 97 \<le> n \<and> n \<le> 122 \<or> 65 \<le> n \<and> n \<le> 90) \<or> c = CHR ''_''"

definition sh_name_char :: "char \<Rightarrow> bool" where
  "sh_name_char c \<longleftrightarrow> sh_letter c \<or> (let n = of_char c :: nat in 48 \<le> n \<and> n \<le> 57)"

definition sh_name :: "string \<Rightarrow> bool" where
  "sh_name k \<longleftrightarrow> k \<noteq> [] \<and> sh_letter (hd k) \<and> list_all sh_name_char k"

text \<open>A word is an assignment when an unquoted name and an unquoted equality sign open it.\<close>

definition sh_assign :: "sh_word \<Rightarrow> (string \<times> string) option" where
  "sh_assign w =
     (let k = takeWhile (\<lambda>p. p \<noteq> (CHR ''='', False)) w in
      if length k < length w \<and> list_all (\<lambda>p. \<not> snd p) k \<and> sh_name (map fst k)
      then Some (map fst k, map fst (drop (Suc (length k)) w)) else None)"

fun sh_assignments :: "sh_word list \<Rightarrow> (string \<times> string) list \<times> sh_word list" where
  "sh_assignments [] = ([], [])"
| "sh_assignments (w # ws) = (case sh_assign w of None \<Rightarrow> ([], w # ws)
     | Some kv \<Rightarrow> (kv # fst (sh_assignments ws), snd (sh_assignments ws)))"

definition sh_reserved :: "string list" where
  "sh_reserved = [''case'', ''coproc'', ''do'', ''done'', ''elif'', ''else'', ''esac'', ''fi'', ''for'', ''function'',
     ''if'', ''in'', ''select'', ''then'', ''time'', ''until'', ''while'']"

definition sh_keyword :: "sh_word \<Rightarrow> bool" where
  "sh_keyword w \<longleftrightarrow> list_all (\<lambda>p. \<not> snd p) w \<and> List.member sh_reserved (map fst w)"

text \<open>A simple command: the leading assignments and the words; a reserved word has its meaning only
  as the first word.\<close>

fun sh_only_words :: "sh_token list \<Rightarrow> sh_word list option" where
  "sh_only_words [] = Some []"
| "sh_only_words (Word w # ts) = (case sh_only_words ts of None \<Rightarrow> None | Some ws \<Rightarrow> Some (w # ws))"
| "sh_only_words (_ # ts) = None"

definition sh_simple :: "sh_token list \<Rightarrow> ((string \<times> string) list \<times> string list) option" where
  "sh_simple ts = (case sh_only_words ts of None \<Rightarrow> None | Some [] \<Rightarrow> None
     | Some (w # ws) \<Rightarrow> if sh_keyword w then None
         else Some (fst (sh_assignments (w # ws)), map (map fst) (snd (sh_assignments (w # ws)))))"

text \<open>A command line of the fragment: the directory it enters (empty for none), the assignments and
  the words. An operand of \<^verbatim>\<open>cd\<close> that starts with a dash is an option.\<close>

definition sh_read :: "string \<Rightarrow> (string \<times> (string \<times> string) list \<times> string list) option" where
  "sh_read text = (case sh_scan Bare None text of None \<Rightarrow> None
     | Some (OpenParen # Word cd # Word dir # AndAnd # rest) \<Rightarrow>
         if map fst cd = ''cd'' \<and> \<not> HasPrefix (map fst dir) ''-'' \<and> rest \<noteq> [] \<and> last rest = CloseParen
         then (case sh_simple (butlast rest) of None \<Rightarrow> None | Some r \<Rightarrow> Some (map fst dir, r)) else None
     | Some ts \<Rightarrow> (case sh_simple ts of None \<Rightarrow> None | Some r \<Rightarrow> Some ([], r)))"

section \<open>Round trip\<close>

lemma shell_safe_plain:
  assumes "shell_safe c"
  shows "\<not> sh_blank c" "c \<noteq> CHR 0x27" "c \<noteq> CHR 0x22" "\<not> sh_special c"
    "c \<noteq> CHR ''(''" "c \<noteq> CHR '')''" "c \<noteq> CHR ''&''"
proof -
  have "sh_blank c \<or> c = CHR 0x27 \<or> c = CHR 0x22 \<or> sh_special c \<Longrightarrow> \<not> shell_safe c"
    by (auto simp: sh_blank_def sh_special_def shell_safe_def)
  with assms show "\<not> sh_blank c" "c \<noteq> CHR 0x27" "c \<noteq> CHR 0x22" "\<not> sh_special c" by blast+
  then show "c \<noteq> CHR ''(''" "c \<noteq> CHR '')''" "c \<noteq> CHR ''&''" by (auto simp: sh_special_def)
qed

lemma scan_safe_char:
  "shell_safe c \<Longrightarrow> sh_scan Bare cur (c # cs) = sh_scan Bare (Some ((c, False) # sh_acc cur)) cs"
  by (simp add: shell_safe_plain)

definition unquoted :: "string \<Rightarrow> sh_word" where
  "unquoted w = map (\<lambda>c. (c, False)) w"

definition marked :: "string \<Rightarrow> sh_word" where
  "marked w = (if w \<noteq> [] \<and> list_all shell_safe w then unquoted w else map (\<lambda>c. (c, True)) w)"

lemma map_fst_unquoted [simp]: "map fst (unquoted w) = w"
  by (simp add: unquoted_def comp_def)

lemma map_fst_marked [simp]: "map fst (marked w) = w"
  by (simp add: marked_def comp_def)

lemma sh_acc_Some [simp]: "sh_acc (Some w) = w"
  by (simp add: sh_acc_def)

lemma scan_safe:
  "list_all shell_safe w \<Longrightarrow> w \<noteq> [] \<Longrightarrow> sh_scan Bare cur (w @ rest) = sh_scan Bare (Some (rev (unquoted w) @ sh_acc cur)) rest"
proof (induction w arbitrary: cur)
  case (Cons c w)
  then have step: "sh_scan Bare cur ((c # w) @ rest) = sh_scan Bare (Some ((c, False) # sh_acc cur)) (w @ rest)"
    by (simp add: scan_safe_char del: sh_scan.simps)
  show ?case
  proof (cases "w = []")
    case True
    with step show ?thesis by (simp add: unquoted_def del: sh_scan.simps)
  next
    case False
    with Cons.IH [of "Some ((c, False) # sh_acc cur)"] Cons.prems step show ?thesis
      by (simp add: unquoted_def del: sh_scan.simps)
  qed
qed simp

lemma scan_escaped:
  "sh_scan Single (Some acc) (escape_quotes w @ CHR 0x27 # rest) =
     sh_scan Bare (Some (rev (map (\<lambda>c. (c, True)) w) @ acc)) rest"
proof (induction w arbitrary: acc)
  case Nil
  then show ?case by (simp add: escape_quotes_def)
next
  case (Cons c w)
  show ?case
  proof (cases "c = CHR 0x27")
    case True
    then have "sh_scan Single (Some acc) (escape_quotes (c # w) @ CHR 0x27 # rest) =
        sh_scan Single (Some ((c, True) # acc)) (escape_quotes w @ CHR 0x27 # rest)"
      by (simp add: escape_quotes_def sh_blank_def)
    with Cons.IH show ?thesis by simp
  next
    case False
    then have "sh_scan Single (Some acc) (escape_quotes (c # w) @ CHR 0x27 # rest) =
        sh_scan Single (Some ((c, True) # acc)) (escape_quotes w @ CHR 0x27 # rest)"
      by (simp add: escape_quotes_def)
    with Cons.IH show ?thesis by simp
  qed
qed

text \<open>A quoted argument extends the word it stands in by exactly the argument.\<close>

lemma scan_quote: "sh_scan Bare cur (shellQuote w @ rest) = sh_scan Bare (Some (rev (marked w) @ sh_acc cur)) rest"
proof (cases "w \<noteq> [] \<and> list_all shell_safe w")
  case True
  then show ?thesis by (simp add: shellQuote_def marked_def scan_safe del: sh_scan.simps)
next
  case False
  then have q: "shellQuote w = CHR 0x27 # escape_quotes w @ [CHR 0x27]" by (auto simp: shellQuote_def)
  from False have m: "marked w = map (\<lambda>c. (c, True)) w" by (simp only: marked_def if_False)
  have "sh_scan Bare cur (shellQuote w @ rest) = sh_scan Single (Some (sh_acc cur)) (escape_quotes w @ CHR 0x27 # rest)"
    by (simp add: q sh_blank_def)
  then show ?thesis unfolding m by (simp only: scan_escaped)
qed

lemma scan_blank: "sh_scan Bare cur (CHR '' '' # rest) = sh_emit cur (sh_scan Bare None rest)"
  by (simp add: sh_blank_def)

text \<open>Printed words: each is scanned as the word it stands for.\<close>

definition prints :: "string \<Rightarrow> sh_word \<Rightarrow> bool" where
  "prints printed w \<longleftrightarrow> (\<forall>rest. sh_scan Bare None (printed @ rest) = sh_scan Bare (Some (rev w)) rest)"

lemma prints_quote: "prints (shellQuote w) (marked w)"
  by (simp add: prints_def scan_quote sh_acc_def)

lemma sh_name_safe:
  assumes "sh_name k"
  shows "k \<noteq> []" "list_all shell_safe k" "CHR ''='' \<notin> set k"
proof -
  have c: "sh_name_char c \<Longrightarrow> shell_safe c \<and> c \<noteq> CHR ''=''" for c
    by (auto simp: sh_name_char_def sh_letter_def shell_safe_def Let_def)
  from assms show "k \<noteq> []" by (simp add: sh_name_def)
  from assms c show "list_all shell_safe k" "CHR ''='' \<notin> set k"
    by (auto simp: sh_name_def list_all_iff)
qed

lemma prints_assignment:
  assumes "sh_name k"
  shows "prints (k @ ''='' @ shellQuote v) (unquoted (k @ ''='') @ marked v)"
proof -
  have "list_all shell_safe (k @ ''='')" using sh_name_safe [OF assms] by (simp add: shell_safe_def)
  then have "sh_scan Bare None ((k @ ''='') @ shellQuote v @ rest) = sh_scan Bare (Some (rev (unquoted (k @ ''='') @ marked v))) rest" for rest
    by (subst scan_safe) (simp_all add: scan_quote sh_acc_def del: sh_scan.simps)
  then show ?thesis by (simp add: prints_def del: sh_scan.simps)
qed
lemma scan_join:
  assumes "list_all2 prints ps ws" and "ps \<noteq> []"
    and "\<And>w. sh_scan Bare (Some w) rest = Some (Word (rev w) # ts)"
  shows "sh_scan Bare None (Join ps '' '' @ rest) = Some (map Word ws @ ts)"
  using assms(1,2)
proof (induction ps ws rule: list_all2_induct)
  case (Cons p ps w ws)
  then have p: "sh_scan Bare None (p @ more) = sh_scan Bare (Some (rev w)) more" for more
    by (simp add: prints_def)
  show ?case
  proof (cases ps)
    case Nil
    with Cons.hyps have "ws = []" by simp
    with Nil p [of rest] assms(3) [of "rev w"] show ?thesis by (simp del: sh_scan.simps)
  next
    case (Cons q qs)
    then have "sh_scan Bare None (Join ps '' '' @ rest) = Some (map Word ws @ ts)" using Cons.IH by simp
    with Cons p [of "CHR '' '' # Join ps '' '' @ rest"] show ?thesis
      by (simp add: scan_blank sh_emit_def del: sh_scan.simps)
  qed
qed simp

lemma only_words: "sh_only_words (map Word ws) = Some ws"
  by (induction ws) simp_all

lemma takeWhile_unquoted:
  "CHR ''='' \<notin> set k \<Longrightarrow> takeWhile (\<lambda>p. p \<noteq> (CHR ''='', False)) (unquoted k @ (CHR ''='', False) # w) = unquoted k"
  by (induction k) (auto simp: unquoted_def)

lemma assign_printed:
  assumes "sh_name k"
  shows "sh_assign (unquoted (k @ ''='') @ marked v) = Some (k, v)"
proof -
  have w: "unquoted (k @ ''='') @ marked v = unquoted k @ (CHR ''='', False) # marked v" by (simp add: unquoted_def)
  have u: "list_all (\<lambda>p. \<not> snd p) (unquoted k)" by (simp add: unquoted_def list_all_iff)
  show ?thesis using assms u
    by (simp add: sh_assign_def w takeWhile_unquoted [OF sh_name_safe(3) [OF assms]])
qed

text \<open>A first word that is printed without quotes must not read as an assignment or a reserved word.\<close>

definition command_word :: "string \<Rightarrow> bool" where
  "command_word w \<longleftrightarrow> \<not> (CHR ''='' \<in> set w \<and> sh_name (takeWhile (\<lambda>c. c \<noteq> CHR ''='') w)) \<and>
     \<not> List.member sh_reserved w"

lemma takeWhile_eq_unquoted:
  "takeWhile (\<lambda>p. p \<noteq> (CHR ''='', False)) (unquoted w) = unquoted (takeWhile (\<lambda>c. c \<noteq> CHR ''='') w)"
  by (induction w) (auto simp: unquoted_def)

lemma length_takeWhile_mem: "length (takeWhile (\<lambda>c. c \<noteq> x) w) < length w \<Longrightarrow> x \<in> set w"
  by (induction w) (auto split: if_splits)

lemma assign_command_word:
  assumes "command_word w"
  shows "sh_assign (marked w) = None"
proof (cases "w \<noteq> [] \<and> list_all shell_safe w")
  case True
  then have m: "marked w = unquoted w" by (simp add: marked_def)
  have len: "length (unquoted x) = length x" for x by (simp add: unquoted_def)
  from assms show ?thesis
    using length_takeWhile_mem [of "CHR ''=''" w]
    by (auto simp: sh_assign_def m takeWhile_eq_unquoted command_word_def len Let_def)
next
  case False
  then have m: "marked w = map (\<lambda>c. (c, True)) w" by (simp only: marked_def if_False)
  have "takeWhile (\<lambda>p. p \<noteq> (CHR ''='', False)) (marked w) = marked w"
    by (rule takeWhile_eq_all_conv [THEN iffD2]) (auto simp: m)
  then have "sh_assign (marked w) = (if length (marked w) < length (marked w) \<and> list_all (\<lambda>p. \<not> snd p) (marked w) \<and> sh_name w
      then Some (w, map fst (drop (Suc (length (marked w))) (marked w))) else None)"
    by (simp only: sh_assign_def Let_def map_fst_marked)
  then show ?thesis by simp
qed

lemma keyword_command_word:
  assumes "command_word w"
  shows "\<not> sh_keyword (marked w)"
  using assms by (simp add: sh_keyword_def command_word_def)

lemma keyword_assignment:
  assumes "sh_name k"
  shows "\<not> sh_keyword (unquoted (k @ ''='') @ marked v)"
proof
  assume "sh_keyword (unquoted (k @ ''='') @ marked v)"
  then have "k @ ''='' @ v \<in> set sh_reserved" by (simp add: sh_keyword_def)
  then have "\<exists>r \<in> set sh_reserved. CHR ''='' \<in> set r" by (rule bexI [rotated]) simp
  then show False by (simp add: sh_reserved_def)
qed

definition assign_word :: "string \<times> string \<Rightarrow> sh_word" where
  "assign_word kv = unquoted (fst kv @ ''='') @ marked (snd kv)"

definition env_ok :: "(string \<times> string) list \<Rightarrow> bool" where
  "env_ok environment \<longleftrightarrow> list_all (\<lambda>(k, v). sh_name k) environment"

lemma assignments_printed:
  assumes "list_all (\<lambda>(k, v). sh_name k) kvs" and "command_word w"
  shows "sh_assignments (map assign_word kvs @ marked w # ws) = (kvs, marked w # ws)"
  using assms(1)
proof (induction kvs)
  case Nil
  then show ?case by (simp add: assign_command_word [OF assms(2)])
next
  case (Cons kv kvs)
  then have "sh_assign (assign_word kv) = Some kv" by (auto simp: assign_word_def assign_printed)
  with Cons show ?case by simp
qed

lemma simple_printed:
  assumes "list_all (\<lambda>(k, v). sh_name k) kvs" and "command_word w"
  shows "sh_simple (map Word (map assign_word kvs @ map marked (w # ws))) = Some (kvs, w # ws)"
proof -
  let ?all = "map assign_word kvs @ marked w # map marked ws"
  obtain h t where h: "?all = h # t" by (cases ?all) auto
  have "\<not> sh_keyword h"
    using h assms keyword_command_word keyword_assignment
    by (cases kvs) (auto simp: assign_word_def)
  moreover have "sh_assignments (h # t) = (kvs, marked w # map marked ws)"
    using assignments_printed [OF assms, of "map marked ws"] h by simp
  ultimately show ?thesis using h by (simp add: sh_simple_def only_words comp_def)
qed

lemma parts_prints:
  assumes "env_ok environment"
  shows "list_all2 prints (shell_parts environment command) (map assign_word (sort_key fst environment) @ map marked command)"
proof -
  have "\<forall>p \<in> set (sort_key fst environment). prints (fst p @ ''='' @ shellQuote (snd p)) (assign_word p)"
    using assms prints_assignment by (auto simp: env_ok_def list_all_iff assign_word_def)
  then have "list_all2 prints (map (\<lambda>(k, v). k @ ''='' @ shellQuote v) (sort_key fst environment))
      (map assign_word (sort_key fst environment))"
    unfolding list_all2_map1 list_all2_map2 split_beta by (intro list.rel_refl_strong) blast
  moreover have "list_all2 prints (map shellQuote command) (map marked command)"
    by (simp add: list_all2_map1 list_all2_map2 list.rel_refl_strong prints_quote)
  ultimately show ?thesis unfolding shell_parts_def by (rule list_all2_appendI)
qed

lemma body_scan:
  assumes "env_ok environment" "command \<noteq> []"
    and "\<And>w. sh_scan Bare (Some w) rest = Some (Word (rev w) # ts)"
  shows "sh_scan Bare None (Join (shell_parts environment command) '' '' @ rest) =
    Some (map Word (map assign_word (sort_key fst environment) @ map marked command) @ ts)"
  by (rule scan_join [OF parts_prints [OF assms(1)] _ assms(3)]) (simp add: shell_parts_def assms(2))

lemma body_simple:
  assumes "env_ok environment" "command \<noteq> []" "command_word (hd command)"
  shows "sh_simple (map Word (map assign_word (sort_key fst environment) @ map marked command)) =
    Some (sort_key fst environment, command)"
proof -
  obtain w ws where c: "command = w # ws" using assms(2) by (cases command) auto
  have "list_all (\<lambda>(k, v). sh_name k) (sort_key fst environment)"
    using assms(1) by (simp add: env_ok_def list_all_iff)
  from simple_printed [OF this, of w ws] assms(3) c show ?thesis by simp
qed

lemma read_body:
  assumes "env_ok environment" "command \<noteq> []" "command_word (hd command)"
  shows "sh_read (Join (shell_parts environment command) '' '') = Some ([], sort_key fst environment, command)"
proof -
  let ?ts = "map Word (map assign_word (sort_key fst environment) @ map marked command)"
  have s: "sh_scan Bare None (Join (shell_parts environment command) '' '') = Some ?ts"
    using body_scan [OF assms(1,2), of "[]" "[]"] by (simp add: sh_emit_def)
  have "sh_read (Join (shell_parts environment command) '' '') =
      (case sh_simple ?ts of None \<Rightarrow> None | Some r \<Rightarrow> Some ([], r))"
    unfolding sh_read_def s using assms(2)
    by (cases "sort_key fst environment"; cases command) (simp_all del: sort_key_simps)
  then show ?thesis by (simp only: body_simple [OF assms] option.simps)
qed

text \<open>The directory a printed command enters: none when the check's directory is blank.\<close>

definition entered :: "string \<Rightarrow> string" where
  "entered cwd = (if blank cwd then [] else cwd)"

lemma read_subshell:
  assumes "env_ok environment" "command \<noteq> []" "command_word (hd command)" "\<not> HasPrefix cwd ''-''"
  shows "sh_read (''(cd '' @ shellQuote cwd @ '' && '' @ Join (shell_parts environment command) '' '' @ '')'') =
    Some (cwd, sort_key fst environment, command)"
proof -
  let ?b = "Join (shell_parts environment command) '' '' @ '')''"
  let ?ts = "map Word (map assign_word (sort_key fst environment) @ map marked command)"
  have b: "sh_scan Bare None ?b = Some (?ts @ [CloseParen])"
    by (rule body_scan [OF assms(1,2)]) (simp add: sh_emit_def sh_op_def sh_blank_def)
  have amp: "sh_scan Bare (Some w) ('' && '' @ ?b) = Some (Word (rev w) # AndAnd # ?ts @ [CloseParen])" for w
    using b by (simp add: sh_blank_def sh_emit_def sh_op_def)
  have dir: "sh_scan Bare None (shellQuote cwd @ '' && '' @ ?b) = Some (Word (marked cwd) # AndAnd # ?ts @ [CloseParen])"
    unfolding scan_quote amp by (simp add: sh_acc_def)
  have cd: "sh_scan Bare None (''cd'' @ x) = sh_scan Bare (Some (rev (unquoted ''cd''))) x" for x
    by (subst scan_safe) (simp_all add: shell_safe_def sh_acc_def del: sh_scan.simps)
  have "sh_scan Bare None (''(cd '' @ shellQuote cwd @ '' && '' @ ?b) =
      sh_emit None (sh_op OpenParen (sh_scan Bare None (''cd'' @ CHR '' '' # shellQuote cwd @ '' && '' @ ?b)))"
    by (simp add: sh_blank_def)
  also have "\<dots> = Some (OpenParen # Word (unquoted ''cd'') # Word (marked cwd) # AndAnd # ?ts @ [CloseParen])"
    unfolding cd scan_blank dir by (simp add: sh_emit_def sh_op_def)
  finally have s: "sh_scan Bare None (''(cd '' @ shellQuote cwd @ '' && '' @ ?b) =
    Some (OpenParen # Word (unquoted ''cd'') # Word (marked cwd) # AndAnd # ?ts @ [CloseParen])" .
  have bl: "butlast (?ts @ [CloseParen]) = ?ts" by (rule butlast_snoc)
  have "sh_read (''(cd '' @ shellQuote cwd @ '' && '' @ ?b) =
      (case sh_simple (butlast (?ts @ [CloseParen])) of None \<Rightarrow> None | Some r \<Rightarrow> Some (map fst (marked cwd), r))"
    unfolding sh_read_def s using assms(4) by (simp del: map_append butlast_snoc)
  then show ?thesis by (simp only: bl body_simple [OF assms(1-3)] option.simps map_fst_marked)
qed


text \<open>Quoting keeps an equality sign unquoted, so a check whose argument vector starts with one is printed as
  a command that sets a variable and runs the rest.\<close>

theorem command_read_as_assignment:
  "sh_read (shellCommand [] [] [''GOWORK=off'', ''go'', ''test'']) = Some ([], [(''GOWORK'', ''off'')], [''go'', ''test''])"
  by code_simp

text \<open>Evidence is not taken from another command: unless the check is a front-end test, a recorded
  command satisfies it only if, after one layer of parentheses or eval, it is the check's command
  verbatim in a subshell entering the check's directory, or what remains after entering that
  directory is read as exactly the check's environment and arguments.\<close>

theorem matched_command_words:
  assumes "commandMatchesCheck env check files text" and "env_ok (vc_Environment check)"
    and "vc_Command check \<noteq> []" and "command_word (hd (vc_Command check))"
    and "\<not> isFrontendTestCheck check"
  shows "(\<exists>body. sh_read body = Some ([], sort_key fst (vc_Environment check), vc_Command check) \<and>
      (if blank (vc_CWD check) then unwrapShellCommand text = body \<or>
           (vc_CWD check \<noteq> [] \<and> strip_cd (vc_CWD check) (unwrapShellCommand text) = Some body)
       else unwrapShellCommand text = ''(cd '' @ shellQuote (vc_CWD check) @ '' && '' @ body @ '')'' \<or>
         strip_cd (vc_CWD check) (unwrapShellCommand text) = Some body))"
proof -
  let ?body = "Join (shell_parts (vc_Environment check) (vc_Command check)) '' ''"
  have words: "sh_read ?body = Some ([], sort_key fst (vc_Environment check), vc_Command check)"
    by (rule read_body [OF assms(2-4)])
  have body: "shellCommand (vc_Environment check) [] (vc_Command check) = ?body"
    by (simp add: shellCommand_def)
  have full: "shellCommandForCheck check = (if blank (vc_CWD check) then ?body
      else ''(cd '' @ shellQuote (vc_CWD check) @ '' && '' @ ?body @ '')'')"
    by (simp add: shellCommandForCheck_def shellCommand_def Let_def)
  from assms(1,5) full body have "unwrapShellCommand text = shellCommandForCheck check \<or>
      (if vc_CWD check \<noteq> [] then strip_cd (vc_CWD check) (unwrapShellCommand text) = Some ?body
       else unwrapShellCommand text = ?body)"
    by (auto simp: commandMatchesCheck_def Let_def split: if_splits option.splits)
  with words full show ?thesis by (auto split: if_splits)
qed

section \<open>A check\<close>

text \<open>An argument with a blank and a quote, and a recorded call that wraps the command in \<^verbatim>\<open>eval\<close>.\<close>

definition ex_check :: verification_check where
  "ex_check = \<lparr>vc_ID = ''go-test'', vc_CriterionIDs = [''u''], vc_Kind = ''command'', vc_Command = [''go'', ''test'', ''./...''],
     vc_CWD = [], vc_Environment = [(''GOWORK'', ''off'')], vc_ArtifactRef = [], vc_TimeoutMS = 300000\<rparr>"


theorem matched_command_words_witness:
  "\<exists>body. sh_read body = Some ([], [(''GOWORK'', ''off'')], [''go'', ''test'', ''./...'']) \<and>
     unwrapShellCommand (''  eval '' @ [CHR 0x27] @ ''GOWORK=off go test ./...'' @ [CHR 0x27]) = body"
proof -
  let ?text = "''  eval '' @ [CHR 0x27] @ ''GOWORK=off go test ./...'' @ [CHR 0x27]"
  have m: "commandMatchesCheck ex_contract_env ex_check [] ?text" by code_simp
  have e: "env_ok (vc_Environment ex_check)" "vc_Command ex_check \<noteq> []" "command_word (hd (vc_Command ex_check))"
    by code_simp+
  have f: "\<not> isFrontendTestCheck ex_check" by code_simp
  from matched_command_words [OF m e f] show ?thesis by (simp add: ex_check_def)
qed

end
