(* ===== verification/Work_Revision.thy ===== *)
theory Work_Revision
  imports Check_Commands "HOL-Library.Multiset"
begin

text \<open>
  Work revisions, \<^verbatim>\<open>internal/workrevision/revision.go\<close>, and what becomes of a result that arrives when
  the work has moved on, \<^verbatim>\<open>internal/workrevision/compatibility.go\<close>.

  The lemmas show that the canonical files of a revision depend on the set of observed files only,
  and that a late result is accepted exactly when every file it was based on is unchanged or its
  change is explained by the result itself.
\<close>

section \<open>Revisions\<close>

definition MaxRevisionFiles :: nat where
  "MaxRevisionFiles = 4096"

record derive_input =
  dr_SessionID :: string
  dr_CanonicalUserSequence :: int
  dr_TodoRevision :: int
  dr_SemanticRevision :: int
  dr_ApprovedPlanID :: string
  dr_ExplicitConstraints :: "criterion list"
  dr_GitHEAD :: string
  dr_Files :: "revision_file list"
  dr_CreatedAt :: time

definition clean_path :: "string \<Rightarrow> string" where
  "clean_path p = path_Clean (TrimSpace p)"

definition unsafe_path :: "string \<Rightarrow> bool" where
  "unsafe_path path \<longleftrightarrow> path = [] \<or> path = ''.'' \<or> HasPrefix path ''/'' \<or> path = ''..'' \<or> HasPrefix path ''../''"

definition sha256_hex :: "string \<Rightarrow> bool" where
  "sha256_hex text \<longleftrightarrow> list_all hex_char text \<and> even (length text) \<and> length text div 2 = 32"

definition merge_file :: "revision_file \<Rightarrow> revision_file \<Rightarrow> revision_file" where
  "merge_file previous f = f\<lparr>rf_Observed := rf_Observed f \<or> rf_Observed previous,
     rf_Touched := rf_Touched f \<or> rf_Touched previous\<rparr>"

definition normal_file :: "revision_file \<Rightarrow> revision_file" where
  "normal_file f = f\<lparr>rf_Path := clean_path (rf_Path f), rf_SHA256 := map lower_char (rf_SHA256 f)\<rparr>"

fun collect_files ::
  "(string, revision_file) table \<Rightarrow> revision_file list \<Rightarrow> claim_error + (string, revision_file) table" where
  "collect_files byPath [] = Inr byPath"
| "collect_files byPath (f # fs) =
     (let path = clean_path (rf_Path f) in
      if unsafe_path path \<or> (\<not> rf_Observed f \<and> \<not> rf_Touched f)
      then Inl (ClaimError ''work revision: unsafe or unowned file'')
      else if \<not> sha256_hex (rf_SHA256 f) then Inl (ClaimError ''work revision: invalid sha256'')
      else let f' = normal_file f in
        case tget byPath path of
          None \<Rightarrow> collect_files (tput path f' byPath) fs
        | Some previous \<Rightarrow>
            if rf_SHA256 previous \<noteq> rf_SHA256 f' then Inl (ClaimError ''work revision: conflicting hashes'')
            else collect_files (tput path (merge_file previous f') byPath) fs)"

definition canonicalFiles :: "revision_file list \<Rightarrow> claim_error + revision_file list" where
  "canonicalFiles files =
     (if length files > MaxRevisionFiles then Inl (ClaimError ''work revision: files exceed limit'')
      else bindE (collect_files [] files) (\<lambda>byPath. Inr (sort_key rf_Path (trows byPath))))"

fun collect_constraints :: "string list \<Rightarrow> criterion list \<Rightarrow> claim_error + criterion list" where
  "collect_constraints seen [] = Inr []"
| "collect_constraints seen (c # cs) =
     (if cr_Origin c \<noteq> ''explicit'' then collect_constraints seen cs
      else if blank (cr_ID c) \<or> blank (cr_Text c)
      then Inl (ClaimError ''work revision: explicit constraint requires id and text'')
      else if cr_ID c \<in> set seen then Inl (ClaimError ''work revision: duplicate explicit constraint'')
      else case first_error (map validate_source (cr_Sources c)) of
        Some e \<Rightarrow> Inl e
      | None \<Rightarrow> bindE (collect_constraints (cr_ID c # seen) cs)
          (\<lambda>rest. Inr (c\<lparr>cr_Sources := sort_key sourceKey (cr_Sources c)\<rparr> # rest)))"

definition canonicalConstraints :: "criterion list \<Rightarrow> claim_error + criterion list" where
  "canonicalConstraints criteria =
     bindE (collect_constraints [] criteria) (\<lambda>result. Inr (sort_key cr_ID result))"

definition Derive :: "contract_env \<Rightarrow> derive_input \<Rightarrow> claim_error + work_revision" where
  "Derive env input =
     (if blank (dr_SessionID input) \<or> dr_CanonicalUserSequence input < 0 \<or> dr_TodoRevision input < 0 \<or>
         dr_SemanticRevision input < 0 \<or> IsZero (dr_CreatedAt input)
      then Inl (ClaimError ''work revision: invalid durable cursor'')
      else bindE (canonicalFiles (dr_Files input)) (\<lambda>files.
        bindE (canonicalConstraints (dr_ExplicitConstraints input)) (\<lambda>constraints.
        let constraintDigest = digestJSON_constraints env constraints;
            snapshotHash = digestJSON_snapshot env (TrimSpace (dr_GitHEAD input)) files;
            revision = \<lparr>wr_Version = WorkContractVersionV1,
              wr_ID = ''work-revision:'' @ take 24 (ce_sha env (ce_identity_json env
                (dr_SessionID input, dr_CanonicalUserSequence input, dr_TodoRevision input, dr_SemanticRevision input,
                 TrimSpace (dr_ApprovedPlanID input), constraintDigest, snapshotHash))),
              wr_SessionID = dr_SessionID input, wr_CanonicalUserSequence = dr_CanonicalUserSequence input,
              wr_TodoRevision = dr_TodoRevision input, wr_SemanticRevision = dr_SemanticRevision input,
              wr_ApprovedPlanID = TrimSpace (dr_ApprovedPlanID input), wr_ConstraintDigest = constraintDigest,
              wr_Constraints = constraints, wr_GitHEAD = TrimSpace (dr_GitHEAD input), wr_Files = files,
              wr_SnapshotHash = snapshotHash, wr_CreatedAt = dr_CreatedAt input\<rparr>
        in case validate_revision env revision of Some e \<Rightarrow> Inl e | None \<Rightarrow> Inr revision)))"

section \<open>Dispositions\<close>

definition DispositionAccepted :: string where
  "DispositionAccepted = ''accepted''"

definition DispositionQuarantinedStale :: string where
  "DispositionQuarantinedStale = ''quarantined_stale''"

record compatibility_input =
  cp_IntentID :: string
  cp_Source :: work_revision
  cp_Current :: work_revision
  cp_ResultFiles :: "file_observation list"
  cp_CompletedAt :: time

record disposition =
  di_Version :: int
  di_ID :: string
  di_IntentID :: string
  di_SourceRevisionID :: string
  di_CurrentRevisionID :: string
  di_Status :: string
  di_Reason :: string
  di_ResultFiles :: "file_observation list"
  di_CompletedAt :: time

definition validate_disposition :: "disposition \<Rightarrow> claim_error option" where
  "validate_disposition d =
     (if di_Version d \<noteq> 1 \<or> di_ID d = [] \<or> di_IntentID d = [] \<or> di_SourceRevisionID d = [] \<or>
         di_CurrentRevisionID d = [] \<or>
         (di_Status d \<noteq> DispositionAccepted \<and> di_Status d \<noteq> DispositionQuarantinedStale) \<or>
         di_Reason d = [] \<or> IsZero (di_CompletedAt d)
      then Some (ClaimError ''work revision: invalid disposition'')
      else if list_ex (\<lambda>f. fo_Path f = [] \<or> fo_State f = []) (di_ResultFiles d)
      then Some (ClaimError ''work revision: invalid disposition result file'') else None)"

definition Accepted :: "disposition \<Rightarrow> bool" where
  "Accepted d \<longleftrightarrow> di_Status d = DispositionAccepted"

text \<open>A map filled in order: the last entry of a path counts.\<close>

definition last_by :: "('a \<Rightarrow> string) \<Rightarrow> 'a list \<Rightarrow> string \<Rightarrow> 'a option" where
  "last_by path xs p = map_of (rev (map (\<lambda>x. (path x, x)) xs)) p"

fun compare_files ::
  "(string \<Rightarrow> revision_file option) \<Rightarrow> (string \<Rightarrow> file_observation option) \<Rightarrow> revision_file list \<Rightarrow> string \<times> string" where
  "compare_files currentFiles results [] =
     (DispositionAccepted, ''explicit constraints and source-observed files remain compatible'')"
| "compare_files currentFiles results (before # rest) =
     (case currentFiles (rf_Path before) of
        None \<Rightarrow> (DispositionQuarantinedStale, ''observed file '' @ rf_Path before @ '' is absent from current revision'')
      | Some after \<Rightarrow>
          if rf_SHA256 before = rf_SHA256 after then compare_files currentFiles results rest
          else (case results (rf_Path before) of
            None \<Rightarrow> (DispositionQuarantinedStale, ''observed file '' @ rf_Path before @ '' changed outside terminal evidence'')
          | Some result \<Rightarrow>
              if fo_BeforeSHA256 result \<noteq> rf_SHA256 before \<or> fo_AfterSHA256 result \<noteq> rf_SHA256 after
              then (DispositionQuarantinedStale, ''observed file '' @ rf_Path before @ '' changed outside terminal evidence'')
              else compare_files currentFiles results rest))"

definition compatibilityStatus ::
  "work_revision \<Rightarrow> work_revision \<Rightarrow> file_observation list \<Rightarrow> string \<times> string" where
  "compatibilityStatus source current resultFiles =
     (if wr_ID source = wr_ID current then (DispositionAccepted, ''exact work revision'')
      else if wr_ConstraintDigest source \<noteq> wr_ConstraintDigest current
      then (DispositionQuarantinedStale, ''explicit constraints changed'')
      else compare_files (last_by rf_Path (wr_Files current)) (last_by fo_Path resultFiles) (wr_Files source))"

definition Disposition :: "contract_env \<Rightarrow> compatibility_input \<Rightarrow> claim_error + disposition" where
  "Disposition env input =
     (if cp_IntentID input = [] \<or> IsZero (cp_CompletedAt input)
      then Inl (ClaimError ''work revision: disposition requires intent and completion time'')
      else case validate_revision env (cp_Source input) of Some e \<Rightarrow> Inl e | None \<Rightarrow>
      case validate_revision env (cp_Current input) of Some e \<Rightarrow> Inl e | None \<Rightarrow>
      if wr_SessionID (cp_Source input) \<noteq> wr_SessionID (cp_Current input)
      then Inl (ClaimError ''work revision: cannot compare different sessions'')
      else let (status, reason) = compatibilityStatus (cp_Source input) (cp_Current input) (cp_ResultFiles input) in
        Inr \<lparr>di_Version = 1,
          di_ID = ''work-disposition:'' @ take 24 (ce_sha env (ce_disposition_json env
            (cp_IntentID input, wr_ID (cp_Source input), wr_ID (cp_Current input), status))),
          di_IntentID = cp_IntentID input, di_SourceRevisionID = wr_ID (cp_Source input),
          di_CurrentRevisionID = wr_ID (cp_Current input), di_Status = status, di_Reason = reason,
          di_ResultFiles = cp_ResultFiles input, di_CompletedAt = cp_CompletedAt input\<rparr>)"

section \<open>Canonical files\<close>

text \<open>What a table of canonical files says about the set of files it was collected from.\<close>

definition owned_at :: "revision_file set \<Rightarrow> string \<Rightarrow> revision_file \<Rightarrow> bool" where
  "owned_at S p f \<longleftrightarrow> (\<exists>g \<in> S. clean_path (rf_Path g) = p) \<and> rf_Path f = p \<and>
     (\<forall>g \<in> S. clean_path (rf_Path g) = p \<longrightarrow> map lower_char (rf_SHA256 g) = rf_SHA256 f) \<and>
     rf_Observed f = (\<exists>g \<in> S. clean_path (rf_Path g) = p \<and> rf_Observed g) \<and>
     rf_Touched f = (\<exists>g \<in> S. clean_path (rf_Path g) = p \<and> rf_Touched g)"

definition collected :: "revision_file set \<Rightarrow> (string, revision_file) table \<Rightarrow> bool" where
  "collected S t \<longleftrightarrow> table_ok t \<and> (\<forall>p f. tget t p = Some f \<longleftrightarrow> owned_at S p f)"

definition file_fits :: "revision_file \<Rightarrow> bool" where
  "file_fits f \<longleftrightarrow> \<not> unsafe_path (clean_path (rf_Path f)) \<and> (rf_Observed f \<or> rf_Touched f) \<and> sha256_hex (rf_SHA256 f)"

definition hashes_agree :: "revision_file set \<Rightarrow> bool" where
  "hashes_agree S \<longleftrightarrow> (\<forall>f \<in> S. \<forall>g \<in> S. clean_path (rf_Path f) = clean_path (rf_Path g) \<longrightarrow>
     map lower_char (rf_SHA256 f) = map lower_char (rf_SHA256 g))"

lemma owned_at_unique: "owned_at S p f \<Longrightarrow> owned_at S p g \<Longrightarrow> f = g"
  by (auto simp: owned_at_def intro!: revision_file.equality)

lemma normal_file_simps [simp]:
  "rf_Path (normal_file f) = clean_path (rf_Path f)" "rf_SHA256 (normal_file f) = map lower_char (rf_SHA256 f)"
  "rf_Observed (normal_file f) = rf_Observed f" "rf_Touched (normal_file f) = rf_Touched f"
  by (simp_all add: normal_file_def)

lemma merge_file_simps [simp]:
  "rf_Path (merge_file g f) = rf_Path f" "rf_SHA256 (merge_file g f) = rf_SHA256 f"
  "rf_Observed (merge_file g f) = (rf_Observed f \<or> rf_Observed g)"
  "rf_Touched (merge_file g f) = (rf_Touched f \<or> rf_Touched g)"
  by (simp_all add: merge_file_def)

lemma collected_put:
  assumes "collected S t" and "owned_at (insert f S) (clean_path (rf_Path f)) new"
  shows "collected (insert f S) (tput (clean_path (rf_Path f)) new t)"
  unfolding collected_def
proof (intro conjI allI)
  show "table_ok (tput (clean_path (rf_Path f)) new t)" using assms(1) by (simp add: collected_def)
  fix p g
  have "owned_at (insert f S) p g \<longleftrightarrow> owned_at S p g" if "p \<noteq> clean_path (rf_Path f)"
    using that by (auto simp: owned_at_def)
  moreover have "tget t p = Some g \<longleftrightarrow> owned_at S p g" using assms(1) by (simp add: collected_def)
  moreover have "owned_at (insert f S) (clean_path (rf_Path f)) g \<longleftrightarrow> g = new"
    using owned_at_unique [OF assms(2)] assms(2) by blast
  ultimately show "tget (tput (clean_path (rf_Path f)) new t) p = Some g \<longleftrightarrow> owned_at (insert f S) p g"
    by (cases "p = clean_path (rf_Path f)") auto
qed

lemma hashes_agree_insert:
  "hashes_agree (insert f S) \<longleftrightarrow> hashes_agree S \<and>
     (\<forall>g \<in> S. clean_path (rf_Path g) = clean_path (rf_Path f) \<longrightarrow>
        map lower_char (rf_SHA256 g) = map lower_char (rf_SHA256 f))"
  unfolding hashes_agree_def by (metis insert_iff)

lemma collected_None: "collected S t \<Longrightarrow> hashes_agree S \<Longrightarrow> tget t p = None \<longleftrightarrow> (\<forall>g \<in> S. clean_path (rf_Path g) \<noteq> p)"
proof
  assume c: "collected S t" and h: "hashes_agree S" and none: "tget t p = None"
  show "\<forall>g \<in> S. clean_path (rf_Path g) \<noteq> p"
  proof (rule ccontr)
    assume "\<not> ?thesis"
    then obtain g where g: "g \<in> S" "clean_path (rf_Path g) = p" by blast
    let ?f = "\<lparr>rf_Path = p, rf_SHA256 = map lower_char (rf_SHA256 g),
      rf_Observed = (\<exists>g \<in> S. clean_path (rf_Path g) = p \<and> rf_Observed g),
      rf_Touched = (\<exists>g \<in> S. clean_path (rf_Path g) = p \<and> rf_Touched g)\<rparr>"
    have "\<forall>x \<in> S. clean_path (rf_Path x) = p \<longrightarrow> map lower_char (rf_SHA256 x) = map lower_char (rf_SHA256 g)"
      using h g unfolding hashes_agree_def by metis
    then have "owned_at S p ?f"
      unfolding owned_at_def revision_file.simps by (intro conjI refl bexI [of _ g] g)
    then have "tget t p = Some ?f" using c unfolding collected_def by blast
    with none show False by simp
  qed
next
  assume "collected S t" and "\<forall>g \<in> S. clean_path (rf_Path g) \<noteq> p"
  then have "\<not> owned_at S p f" "tget t p = Some f \<longleftrightarrow> owned_at S p f" for f
    unfolding collected_def by (simp_all add: owned_at_def)
  then show "tget t p = None" by (cases "tget t p") auto
qed

lemma collect_files_step:
  assumes "file_fits f"
  shows "collect_files t (f # fs) =
    (case tget t (clean_path (rf_Path f)) of
       None \<Rightarrow> collect_files (tput (clean_path (rf_Path f)) (normal_file f) t) fs
     | Some g \<Rightarrow> if rf_SHA256 g \<noteq> map lower_char (rf_SHA256 f) then Inl (ClaimError ''work revision: conflicting hashes'')
         else collect_files (tput (clean_path (rf_Path f)) (merge_file g (normal_file f)) t) fs)"
proof -
  have "(unsafe_path (clean_path (rf_Path f)) \<or> (\<not> rf_Observed f \<and> \<not> rf_Touched f)) = False"
    and "(\<not> sha256_hex (rf_SHA256 f)) = False"
    using assms unfolding file_fits_def by blast+
  then show ?thesis by (simp only: collect_files.simps Let_def if_False normal_file_simps)
qed

lemma collect_files_bad:
  assumes "\<not> file_fits f"
  shows "\<exists>e. collect_files t (f # fs) = Inl e"
proof (cases "unsafe_path (clean_path (rf_Path f)) \<or> (\<not> rf_Observed f \<and> \<not> rf_Touched f)")
  case True
  then show ?thesis by (simp only: collect_files.simps Let_def if_True) blast
next
  case False
  with assms have "\<not> sha256_hex (rf_SHA256 f)" unfolding file_fits_def by blast
  with False show ?thesis by (simp only: collect_files.simps Let_def if_False if_True not_True_eq_False not_False_eq_True) blast
qed

lemma collect_files_spec:
  assumes "collected S t" and "hashes_agree S"
  shows "(case collect_files t fs of
      Inr t' \<Rightarrow> (\<forall>f \<in> set fs. file_fits f) \<and> hashes_agree (S \<union> set fs) \<and> collected (S \<union> set fs) t'
    | Inl _ \<Rightarrow> \<not> ((\<forall>f \<in> set fs. file_fits f) \<and> hashes_agree (S \<union> set fs)))"
  using assms
proof (induction fs arbitrary: S t)
  case (Cons f fs)
  let ?p = "clean_path (rf_Path f)"
  show ?case
  proof (cases "file_fits f")
    case False
    from collect_files_bad [OF False] obtain e where "collect_files t (f # fs) = Inl e" by blast
    with False show ?thesis by simp
  next
    case fits: True
    have all: "S \<union> set (f # fs) = insert f S \<union> set fs" "(\<forall>x \<in> set (f # fs). file_fits x) \<longleftrightarrow> (\<forall>x \<in> set fs. file_fits x)"
      using fits by auto
    show ?thesis
    proof (cases "tget t ?p")
      case None
      then have fresh: "\<forall>g \<in> S. clean_path (rf_Path g) \<noteq> ?p" using collected_None Cons.prems by blast
      have "owned_at (insert f S) ?p (normal_file f)" using fresh by (auto simp: owned_at_def)
      then have c: "collected (insert f S) (tput ?p (normal_file f) t)" by (rule collected_put [OF Cons.prems(1)])
      have h: "hashes_agree (insert f S)" using Cons.prems(2) fresh unfolding hashes_agree_insert by blast
      have step: "collect_files t (f # fs) = collect_files (tput ?p (normal_file f) t) fs"
        by (simp only: collect_files_step [OF fits] None option.case)
      from Cons.IH [OF c h] show ?thesis unfolding all step .
    next
      case (Some g)
      then have g: "owned_at S ?p g" using Cons.prems(1) by (simp add: collected_def)
      show ?thesis
      proof (cases "rf_SHA256 g = map lower_char (rf_SHA256 f)")
        case True
        then have "owned_at (insert f S) ?p (merge_file g (normal_file f))" using g by (auto simp: owned_at_def)
        then have c: "collected (insert f S) (tput ?p (merge_file g (normal_file f)) t)"
          by (rule collected_put [OF Cons.prems(1)])
        have h: "hashes_agree (insert f S)"
          using Cons.prems(2) g True unfolding hashes_agree_insert owned_at_def by metis
        have step: "collect_files t (f # fs) = collect_files (tput ?p (merge_file g (normal_file f)) t) fs"
          by (simp only: collect_files_step [OF fits] Some option.case True simp_thms if_False)
        from Cons.IH [OF c h] show ?thesis unfolding all step .
      next
        case False
        then have "\<not> hashes_agree (S \<union> set (f # fs))" using g unfolding hashes_agree_def owned_at_def
          by (metis UnI1 UnI2 list.set_intros(1))
        moreover have "collect_files t (f # fs) = Inl (ClaimError ''work revision: conflicting hashes'')"
          by (simp only: collect_files_step [OF fits] Some option.case False not_False_eq_True if_True)
        ultimately show ?thesis by (simp only: sum.case simp_thms)
      qed
    qed
  qed
qed simp

text \<open>The canonical list is determined by the set of files.\<close>

lemma rows_distinct:
  fixes u :: "(string, revision_file) table"
  assumes u: "table_ok u" and k: "\<And>p f. tget u p = Some f \<Longrightarrow> rf_Path f = p"
  shows "distinct (map rf_Path (trows u)) \<and> set (trows u) = {f. \<exists>p. tget u p = Some f}"
proof -
  have "map rf_Path (trows u) = map fst u"
    using k in_set_tget [OF u] by (auto simp: trows_def)
  then have "distinct (map rf_Path (trows u))" using u by (simp add: table_ok_def)
  moreover have "set (trows u) = {f. \<exists>p. tget u p = Some f}"
    using tget_in_trows trows_tget [OF u] by auto
  ultimately show ?thesis by simp
qed

lemma sorted_rows_unique:
  fixes t t' :: "(string, revision_file) table"
  assumes "table_ok t" "table_ok t'" "\<And>p. tget t p = tget t' p" "\<And>p f. tget t p = Some f \<Longrightarrow> rf_Path f = p"
  shows "sort_key rf_Path (trows t) = sort_key rf_Path (trows t')"
proof -
  have d1: "distinct (map rf_Path (trows t)) \<and> set (trows t) = {f. \<exists>p. tget t p = Some f}"
    by (rule rows_distinct) (use assms in auto)
  have d2: "distinct (map rf_Path (trows t')) \<and> set (trows t') = {f. \<exists>p. tget t' p = Some f}"
    by (rule rows_distinct) (use assms in auto)
  from d1 d2 assms(3) have d: "distinct (map rf_Path (trows t))" "distinct (map rf_Path (trows t'))" "set (trows t) = set (trows t')"
    by auto
  have perm: "distinct (map rf_Path (sort_key rf_Path xs)) \<longleftrightarrow> distinct (map rf_Path xs)" for xs
    by (simp add: distinct_map)
  have inj: "inj_on rf_Path (set (trows t))" using d(1) by (simp add: distinct_map)
  show ?thesis
    by (rule map_sorted_distinct_set_unique [of rf_Path])
      (use d inj perm [of "trows t"] perm [of "trows t'"] in simp_all)
qed

text \<open>The canonical files of a revision do not depend on the order in which the files were
  observed: any permutation of the list, in which files may occur several times, gives the same list
  or is refused as well.\<close>

theorem canonical_files_order:
  assumes "mset files' = mset files" and "canonicalFiles files = Inr canonical"
  shows "canonicalFiles files' = Inr canonical"
proof -
  have same: "set files' = set files" "length files' = length files"
    using assms(1) by (metis set_mset_mset, metis size_mset)
  have base: "collected {} []" "hashes_agree {}" by (simp_all add: collected_def owned_at_def hashes_agree_def)
  from assms(2) obtain t where t: "collect_files [] files = Inr t" "canonical = sort_key rf_Path (trows t)"
    "length files \<le> MaxRevisionFiles"
    by (auto simp: canonicalFiles_def bindE_eq_Inr split: if_splits)
  from collect_files_spec [OF base, of files] t(1)
  have c: "\<forall>f \<in> set files. file_fits f" "hashes_agree (set files)" "collected (set files) t" by simp_all
  from collect_files_spec [OF base, of files'] c(1,2) same obtain t' where
    t': "collect_files [] files' = Inr t'" "collected (set files) t'" by (cases "collect_files [] files'") auto
  have "tget t p = tget t' p" for p
  proof (rule option.expand)
    show "(tget t p = None) = (tget t' p = None)" using collected_None c(2,3) t'(2) by blast
    show "the (tget t p) = the (tget t' p)" if "tget t p \<noteq> None" "tget t' p \<noteq> None"
      using that c(3) t'(2) owned_at_unique unfolding collected_def by (metis option.collapse)
  qed
  then have "sort_key rf_Path (trows t) = sort_key rf_Path (trows t')"
    using c(3) t'(2) by (intro sorted_rows_unique) (auto simp: collected_def owned_at_def)
  with t' t same show ?thesis by (simp add: canonicalFiles_def)
qed

section \<open>Late results\<close>

text \<open>What explains the change of a file: the last observation of its path, which saw the old content
  and left the current one.\<close>

definition explained :: "file_observation list \<Rightarrow> revision_file \<Rightarrow> revision_file \<Rightarrow> bool" where
  "explained resultFiles before after \<longleftrightarrow> (\<exists>obs. last_by fo_Path resultFiles (rf_Path before) = Some obs \<and>
     obs \<in> set resultFiles \<and> fo_BeforeSHA256 obs = rf_SHA256 before \<and> fo_AfterSHA256 obs = rf_SHA256 after)"

lemma last_by_in: "last_by path xs p = Some x \<Longrightarrow> x \<in> set xs \<and> path x = p"
  unfolding last_by_def by (auto dest: map_of_SomeD)

lemma stale_not_accepted [simp]: "DispositionQuarantinedStale \<noteq> DispositionAccepted"
  by (simp add: DispositionAccepted_def DispositionQuarantinedStale_def)

definition compatible_file :: "revision_file list \<Rightarrow> file_observation list \<Rightarrow> revision_file \<Rightarrow> bool" where
  "compatible_file current results before \<longleftrightarrow> (\<exists>after. last_by rf_Path current (rf_Path before) = Some after \<and>
     (rf_SHA256 before = rf_SHA256 after \<or> explained results before after))"

lemma compare_files_keeps:
  assumes "compatible_file current results before"
  shows "compare_files (last_by rf_Path current) (last_by fo_Path results) (before # rest) =
    compare_files (last_by rf_Path current) (last_by fo_Path results) rest"
proof -
  from assms obtain after where a: "last_by rf_Path current (rf_Path before) = Some after"
    "rf_SHA256 before = rf_SHA256 after \<or> explained results before after"
    unfolding compatible_file_def by blast
  show ?thesis
  proof (cases "rf_SHA256 before = rf_SHA256 after")
    case True
    then show ?thesis by (simp only: compare_files.simps a(1) option.case simp_thms if_True)
  next
    case False
    with a(2) obtain obs where o: "last_by fo_Path results (rf_Path before) = Some obs"
      "fo_BeforeSHA256 obs = rf_SHA256 before" "fo_AfterSHA256 obs = rf_SHA256 after"
      unfolding explained_def by blast
    show ?thesis by (simp only: compare_files.simps a(1) option.case False o if_False simp_thms)
  qed
qed

lemma compare_files_stops:
  assumes "\<not> compatible_file current results before"
  shows "fst (compare_files (last_by rf_Path current) (last_by fo_Path results) (before # rest)) =
    DispositionQuarantinedStale"
proof (cases "last_by rf_Path current (rf_Path before)")
  case (Some after)
  with assms have n: "rf_SHA256 before \<noteq> rf_SHA256 after" "\<not> explained results before after"
    unfolding compatible_file_def by blast+
  show ?thesis
  proof (cases "last_by fo_Path results (rf_Path before)")
    case None
    show ?thesis by (simp only: compare_files.simps Some None option.case n(1) if_False fst_conv)
  next
    case obs: (Some obs)
    have "obs \<in> set results" using last_by_in [OF obs] by simp
    with obs n(2) have "fo_BeforeSHA256 obs \<noteq> rf_SHA256 before \<or> fo_AfterSHA256 obs \<noteq> rf_SHA256 after"
      unfolding explained_def by blast
    then show ?thesis by (simp only: compare_files.simps Some obs option.case n(1) if_False if_True fst_conv)
  qed
qed simp

lemma compare_files_accepts:
  "fst (compare_files (last_by rf_Path current) (last_by fo_Path results) source) = DispositionAccepted \<longleftrightarrow>
     (\<forall>before \<in> set source. compatible_file current results before)"
proof (induction source)
  case (Cons before rest)
  then show ?case
    by (cases "compatible_file current results before")
      (simp_all add: compare_files_keeps compare_files_stops del: compare_files.simps)
qed simp

lemma compare_files_status:
  "fst (compare_files (last_by rf_Path current) (last_by fo_Path results) source) \<noteq> DispositionAccepted \<Longrightarrow>
   fst (compare_files (last_by rf_Path current) (last_by fo_Path results) source) = DispositionQuarantinedStale"
proof (induction source)
  case (Cons before rest)
  then show ?case
    by (cases "compatible_file current results before")
      (simp_all add: compare_files_keeps compare_files_stops del: compare_files.simps)
qed simp


section \<open>A late result\<close>

text \<open>A file of hash \<open>a...\<close> was edited to \<open>b...\<close> by the result itself.\<close>

definition ex_revision_env :: contract_env where
  "ex_revision_env = ex_contract_env\<lparr>ce_sha := (\<lambda>s. take 64 (s @ replicate 64 (CHR ''0''))),
     ce_snapshot_json := (\<lambda>(head, files). concat (map rf_SHA256 files)),
     ce_identity_json := (\<lambda>(a, b, c, d, e, f, snapshot). snapshot)\<rparr>"

definition ex_file :: "string \<Rightarrow> char \<Rightarrow> revision_file" where
  "ex_file p c = \<lparr>rf_Path = p, rf_SHA256 = replicate 64 c, rf_Observed = True, rf_Touched = False\<rparr>"

definition ex_derive :: "revision_file list \<Rightarrow> derive_input" where
  "ex_derive files = \<lparr>dr_SessionID = ''s'', dr_CanonicalUserSequence = 1, dr_TodoRevision = 0, dr_SemanticRevision = 0,
     dr_ApprovedPlanID = [], dr_ExplicitConstraints = [], dr_GitHEAD = [], dr_Files = files, dr_CreatedAt = 5\<rparr>"

definition ex_source :: "claim_error + work_revision" where
  "ex_source = Derive ex_revision_env (ex_derive [ex_file ''m.go'' (CHR ''a'')])"

definition ex_current :: "claim_error + work_revision" where
  "ex_current = Derive ex_revision_env (ex_derive [ex_file ''./m.go'' (CHR ''b''), ex_file ''a.go'' (CHR ''c'')])"

definition ex_late :: "claim_error + disposition" where
  "ex_late = Disposition ex_revision_env \<lparr>cp_IntentID = ''i'', cp_Source = projr ex_source, cp_Current = projr ex_current,
     cp_ResultFiles = [\<lparr>fo_Path = ''m.go'', fo_BeforeSHA256 = replicate 64 (CHR ''a''),
       fo_AfterSHA256 = replicate 64 (CHR ''b''), fo_State = ''modified''\<rparr>], cp_CompletedAt = 6\<rparr>"

lemma ex_late_eval: "case ex_late of Inr d \<Rightarrow> Accepted d \<and> di_SourceRevisionID d \<noteq> di_CurrentRevisionID d | Inl _ \<Rightarrow> False"
  by code_simp


theorem canonical_files_order_witness:
  "\<exists>c. canonicalFiles [ex_file ''m.go'' (CHR ''b''), ex_file ''a.go'' (CHR ''c'')] = Inr c \<and>
     canonicalFiles [ex_file ''a.go'' (CHR ''c''), ex_file ''m.go'' (CHR ''b'')] = Inr c"
proof -
  let ?fs = "[ex_file ''m.go'' (CHR ''b''), ex_file ''a.go'' (CHR ''c'')]"
  have "case canonicalFiles ?fs of Inr _ \<Rightarrow> True | Inl _ \<Rightarrow> False" by code_simp
  then obtain c where c: "canonicalFiles ?fs = Inr c" by (auto split: sum.splits)
  have "mset [ex_file ''a.go'' (CHR ''c''), ex_file ''m.go'' (CHR ''b'')] = mset ?fs" by simp
  from canonical_files_order [OF this c] c show ?thesis by blast
qed

end
