(* ===== verification/Check_Selection.thy ===== *)
theory Check_Selection
  imports Work_Revision
begin

text \<open>
  The selection of deterministic checks for touched files, \<^verbatim>\<open>internal/verification/selector.go\<close>.

  The workspace is read through \<open>workspace_env\<close>, at paths relative to its root: the decoded
  \<^verbatim>\<open>package.json\<close> of a directory, the text of a file and the entries of a directory. The walk from a
  file's directory up to the root is the recursion over the components of its cleaned path.
\<close>

section \<open>Data\<close>

record touched_file =
  tf_Path :: string
  tf_Change :: string
  tf_Generated :: bool

record package_manifest =
  pm_PackageManager :: string
  pm_Scripts :: "(string \<times> string) list"

record frontend_spec =
  fs_id :: string
  fs_cwd :: string
  fs_command :: "string list"

record workspace_env =
  we_contract :: contract_env
  we_manifest :: "string \<Rightarrow> package_manifest option"
  we_read :: "string \<Rightarrow> string"
  we_dir :: "string \<Rightarrow> (string \<times> bool) list"

section \<open>Paths and manifests\<close>

definition normalizeTouchedPath :: "string \<Rightarrow> claim_error + string" where
  "normalizeTouchedPath p =
     (if unsafe_path (clean_path p) then Inl (ClaimError ''verification: unsafe touched path'') else Inr (clean_path p))"

text \<open>A directory is the reversed list of its components below the root.\<close>

definition rel_dir :: "string list \<Rightarrow> string" where
  "rel_dir rcomps = (if rcomps = [] then ''.'' else Join (rev rcomps) ''/'')"

definition dir_of :: "string \<Rightarrow> string list" where
  "dir_of path = tl (rev (Split (CHR ''/'') path))"

fun nearestPackageManifest :: "workspace_env \<Rightarrow> string list \<Rightarrow> (package_manifest \<times> string) option" where
  "nearestPackageManifest env [] = (case we_manifest env ''.'' of Some m \<Rightarrow> Some (m, ''.'') | None \<Rightarrow> None)"
| "nearestPackageManifest env (c # cs) =
     (case we_manifest env (rel_dir (c # cs)) of
        Some m \<Rightarrow> if \<not> HasPrefix (rel_dir (c # cs)) ''..'' then Some (m, rel_dir (c # cs)) else nearestPackageManifest env cs
      | None \<Rightarrow> nearestPackageManifest env cs)"

definition packageManagerCommand :: "string \<Rightarrow> string" where
  "packageManagerCommand packageManager =
     (let tool = takeWhile (\<lambda>c. c \<noteq> CHR ''@'') (TrimSpace packageManager) in
      if tool \<in> set [''bun'', ''npm'', ''pnpm'', ''yarn''] then tool else [])"

definition is_config_base :: "string \<Rightarrow> bool" where
  "is_config_base base \<longleftrightarrow> HasPrefix base ''tsconfig'' \<or> HasPrefix base ''vite.config'' \<or> HasPrefix base ''vitest.config''"

definition isJavaScriptProjectFile :: "workspace_env \<Rightarrow> string \<Rightarrow> bool" where
  "isJavaScriptProjectFile env path \<longleftrightarrow>
     (let base = path_Base path in
      base \<in> set [''package.json'', ''bun.lock'', ''package-lock.json'', ''pnpm-lock.yaml'', ''yarn.lock''] \<or>
      is_config_base base \<or>
      ce_lower (we_contract env) (path_Ext base) \<in> set [''.css'', ''.js'', ''.jsx'', ''.ts'', ''.tsx''])"

definition frontendChecksForPath ::
  "workspace_env \<Rightarrow> string \<Rightarrow> string \<Rightarrow> package_manifest \<Rightarrow> frontend_spec list" where
  "frontendChecksForPath env root path manifest =
     (if \<not> isJavaScriptProjectFile env path then []
      else let manager = packageManagerCommand (pm_PackageManager manifest) in
      if manager = [] then []
      else let cwd = (if root = ''.'' then [] else root);
               idRoot = map (\<lambda>c. if c = CHR ''/'' then CHR ''-'' else c) root;
               idRoot = (if idRoot = [] \<or> idRoot = ''.'' then ''frontend'' else idRoot);
               relative = (if root \<noteq> ''.'' then TrimPrefix path (root @ ''/'') else path);
               base = path_Base relative;
               lower = ce_lower (we_contract env);
               extension = lower (path_Ext base);
               isTest = (Contains (lower base) ''.test.'' \<or> Contains (lower base) ''.spec.'');
               add = (\<lambda>script. \<lparr>fs_id = idRoot @ ''-'' @ script, fs_cwd = cwd, fs_command = [manager, ''run'', script]\<rparr>);
               available = (\<lambda>script. case tget (pm_Scripts manifest) script of Some s \<Rightarrow> \<not> blank s | None \<Rightarrow> False)
           in if base = ''package.json'' \<or> is_config_base base
              then map add (filter available [''typecheck'', ''test'', ''build''])
              else if extension = ''.css'' then (if available ''build'' then [add ''build''] else [])
              else if extension \<in> set [''.ts'', ''.tsx'', ''.js'', ''.jsx'']
              then (if isTest \<and> available ''test'' then [add ''test'']
                else if available ''typecheck'' then [add ''typecheck'']
                else if available ''build'' then [add ''build''] else [])
              else [])"

definition has_go_file :: "workspace_env \<Rightarrow> string \<Rightarrow> bool" where
  "has_go_file env dir \<longleftrightarrow> list_ex (\<lambda>(name, isDir). \<not> isDir \<and> HasSuffix name ''.go'') (we_dir env dir)"

fun nearest_go :: "workspace_env \<Rightarrow> string list \<Rightarrow> string" where
  "nearest_go env [] = []"
| "nearest_go env (c # cs) =
     (if has_go_file env (rel_dir (c # cs)) \<and> rel_dir (c # cs) \<noteq> ''.'' \<and> \<not> HasPrefix (rel_dir (c # cs)) ''..''
      then ''./'' @ rel_dir (c # cs) else nearest_go env cs)"

definition nearestGoPackage :: "workspace_env \<Rightarrow> string \<Rightarrow> string" where
  "nearestGoPackage env path =
     (if nearestPackageManifest env (dir_of path) \<noteq> None \<and> isJavaScriptProjectFile env path then []
      else nearest_go env (dir_of path))"

section \<open>Selection\<close>

record selection =
  se_goFiles :: "string list"
  se_goPackages :: "string list"
  se_frontend :: "(string, frontend_spec) table"
  se_gpui :: bool
  se_sqlite :: bool
  se_contracts :: bool
  se_pythonFiles :: "string list"
  se_pythonTests :: "string list"
  se_artifacts :: "string list"

definition empty_selection :: selection where
  "empty_selection = \<lparr>se_goFiles = [], se_goPackages = [], se_frontend = [], se_gpui = False, se_sqlite = False,
     se_contracts = False, se_pythonFiles = [], se_pythonTests = [], se_artifacts = []\<rparr>"

text \<open>The flags and the generated artifacts, set before a file is sorted by kind.\<close>

definition mark_generated :: "touched_file \<Rightarrow> string \<Rightarrow> selection \<Rightarrow> selection" where
  "mark_generated t path s =
     s\<lparr>se_artifacts := se_artifacts s @ (if tf_Generated t then [path] else []),
       se_gpui := se_gpui s \<or> HasPrefix path ''gpui/''\<rparr>"

definition mark_areas :: "string \<Rightarrow> selection \<Rightarrow> selection" where
  "mark_areas path s =
     s\<lparr>se_sqlite := se_sqlite s \<or>
         (HasPrefix path ''internal/store/sqlite/'' \<and> (HasSuffix path ''.sql'' \<or> Contains path ''/dbgen/'')),
       se_contracts := se_contracts s \<or> path = ''internal/app/contracts.go'' \<or> HasPrefix path ''internal/desktop/'' \<or>
         path = ''gpui/crates/azem-ipc/src/generated.rs''\<rparr>"

definition select_go_package :: "workspace_env \<Rightarrow> string \<Rightarrow> selection \<Rightarrow> selection" where
  "select_go_package env path s =
     (if nearestGoPackage env path \<noteq> [] \<and> \<not> HasPrefix path ''gpui/''
      then s\<lparr>se_goPackages := se_goPackages s @ [nearestGoPackage env path]\<rparr> else s)"

definition select_kind :: "workspace_env \<Rightarrow> touched_file \<Rightarrow> string \<Rightarrow> selection \<Rightarrow> selection" where
  "select_kind env t path s =
     (if HasSuffix path ''.py'' \<and> tf_Change t \<noteq> ''deleted''
      then s\<lparr>se_pythonFiles := se_pythonFiles s @ [path],
             se_pythonTests := se_pythonTests s @
               (if Contains (we_read env path) ''import unittest'' \<or> Contains (we_read env path) ''from unittest import''
                then [path] else [])\<rparr>
      else let s = mark_areas path s in
        if HasSuffix path ''.go''
        then s\<lparr>se_goFiles := se_goFiles s @ [path], se_goPackages := se_goPackages s @ [''./'' @ rel_dir (dir_of path)]\<rparr>
        else case nearestPackageManifest env (dir_of path) of
          Some (manifest, root) \<Rightarrow>
            (case frontendChecksForPath env root path manifest of
               [] \<Rightarrow> select_go_package env path s
             | specs \<Rightarrow> s\<lparr>se_frontend := fold (\<lambda>spec. tput (fs_id spec) spec) specs (se_frontend s)\<rparr>)
        | None \<Rightarrow> select_go_package env path s)"

fun select_files :: "workspace_env \<Rightarrow> touched_file list \<Rightarrow> selection \<Rightarrow> claim_error + selection" where
  "select_files env [] s = Inr s"
| "select_files env (t # ts) s =
     bindE (normalizeTouchedPath (tf_Path t)) (\<lambda>path.
       select_files env ts (select_kind env t path (mark_generated t path s)))"

definition command_check ::
  "string list \<Rightarrow> string \<Rightarrow> string \<Rightarrow> int \<Rightarrow> (string \<times> string) list \<Rightarrow> string list \<Rightarrow> verification_check" where
  "command_check criterionIDs i cwd timeout environment command =
     \<lparr>vc_ID = i, vc_CriterionIDs = criterionIDs, vc_Kind = ''command'', vc_Command = command, vc_CWD = cwd,
      vc_Environment = environment, vc_ArtifactRef = [], vc_TimeoutMS = timeout\<rparr>"

definition artifact_check :: "string list \<Rightarrow> string \<Rightarrow> verification_check" where
  "artifact_check criterionIDs artifact =
     \<lparr>vc_ID = ''artifact:'' @ artifact, vc_CriterionIDs = criterionIDs, vc_Kind = ''artifact'', vc_Command = [], vc_CWD = [],
      vc_Environment = [], vc_ArtifactRef = artifact, vc_TimeoutMS = 0\<rparr>"

definition selected_commands :: "string list \<Rightarrow> selection \<Rightarrow> verification_check list" where
  "selected_commands ids s =
     (let goOff = [(''GOWORK'', ''off'')] in
      (if length (se_goFiles s) > 0
       then [command_check ids ''gofmt'' [] 60000 [] ([''gofmt'', ''-d''] @ sort (se_goFiles s))] else []) @
      (if length (se_goPackages s) > 0
       then [command_check ids ''go-test'' [] 300000 goOff ([''go'', ''test''] @ sort (remdups (se_goPackages s)))] else []) @
      map (\<lambda>spec. command_check ids (fs_id spec) (fs_cwd spec) 300000 [] (fs_command spec))
        (sort_key fs_id (trows (se_frontend s))) @
      (if se_sqlite s
       then [command_check ids ''sqlite-tests'' [] 300000 goOff [''go'', ''test'', ''./internal/store/sqlite'']] else []) @
      (if se_contracts s
       then [command_check ids ''contracts-check'' [] 120000 goOff [''go'', ''run'', ''./cmd/gen-contracts'', ''-check'']] else []) @
      (if se_gpui s
       then [command_check ids ''gpui-tests'' ''gpui'' 300000 [] [''cargo'', ''test'', ''--workspace'', ''--all-targets'']] else []) @
      (if length (se_pythonFiles s) > 0
       then [command_check ids ''python-compile'' [] 60000 [] ([''python3'', ''-m'', ''py_compile''] @ sort (se_pythonFiles s))] else []) @
      (if length (se_pythonTests s) > 0
       then [command_check ids ''python-tests'' [] 180000 [] ([''python3'', ''-m'', ''unittest''] @ sort (se_pythonTests s))] else []))"

definition SelectDeterministicChecks ::
  "workspace_env \<Rightarrow> string \<Rightarrow> work_spec \<Rightarrow> verification_plan \<Rightarrow> touched_file list \<Rightarrow> claim_error + verification_plan" where
  "SelectDeterministicChecks env workspace work plan touched =
     (if ws_ID work = [] \<or> vp_WorkSpecID plan \<noteq> ws_ID work \<or> blank workspace
      then Inl (ClaimError ''verification: selector work and plan do not match'')
      else let ids = map cr_ID (ws_Criteria work) in
      if length ids = 0 then Inl (ClaimError ''verification: selector has no criteria'')
      else bindE (select_files env touched empty_selection) (\<lambda>s.
        let selected = plan\<lparr>vp_Checks := selected_commands ids s @ map (artifact_check ids) (sort (se_artifacts s)) @
              filter (\<lambda>c. vc_Kind c = ''criterion'') (vp_Checks plan)\<rparr>
        in case validate_plan (we_contract env) selected of Some e \<Rightarrow> Inl e | None \<Rightarrow> Inr selected))"

section \<open>Coverage of the touched files\<close>

text \<open>The frontend checks of a path: those of the nearest package.\<close>

definition frontend_of :: "workspace_env \<Rightarrow> string \<Rightarrow> frontend_spec list" where
  "frontend_of env path = (case nearestPackageManifest env (dir_of path) of
     Some (manifest, root) \<Rightarrow> frontendChecksForPath env root path manifest | None \<Rightarrow> [])"

definition python_file :: "touched_file \<Rightarrow> string \<Rightarrow> bool" where
  "python_file t path \<longleftrightarrow> HasSuffix path ''.py'' \<and> tf_Change t \<noteq> ''deleted''"

definition imports_unittest :: "workspace_env \<Rightarrow> string \<Rightarrow> bool" where
  "imports_unittest env path \<longleftrightarrow>
     Contains (we_read env path) ''import unittest'' \<or> Contains (we_read env path) ''from unittest import''"

definition sqlite_source :: "string \<Rightarrow> bool" where
  "sqlite_source path \<longleftrightarrow>
     HasPrefix path ''internal/store/sqlite/'' \<and> (HasSuffix path ''.sql'' \<or> Contains path ''/dbgen/'')"

definition contract_source :: "string \<Rightarrow> bool" where
  "contract_source path \<longleftrightarrow> path = ''internal/app/contracts.go'' \<or> HasPrefix path ''internal/desktop/'' \<or>
     path = ''gpui/crates/azem-ipc/src/generated.rs''"

text \<open>What one file adds to the selection.\<close>

lemma select_kind_eq:
  "select_kind env t path s =
    (if python_file t path
     then s\<lparr>se_pythonFiles := se_pythonFiles s @ [path],
            se_pythonTests := se_pythonTests s @ (if imports_unittest env path then [path] else [])\<rparr>
     else let s = s\<lparr>se_sqlite := se_sqlite s \<or> sqlite_source path, se_contracts := se_contracts s \<or> contract_source path\<rparr> in
       if HasSuffix path ''.go''
       then s\<lparr>se_goFiles := se_goFiles s @ [path], se_goPackages := se_goPackages s @ [''./'' @ rel_dir (dir_of path)]\<rparr>
       else if frontend_of env path = [] then select_go_package env path s
       else s\<lparr>se_frontend := fold (\<lambda>spec. tput (fs_id spec) spec) (frontend_of env path) (se_frontend s)\<rparr>)"
  unfolding select_kind_def python_file_def imports_unittest_def mark_areas_def sqlite_source_def
    contract_source_def frontend_of_def Let_def
  apply (intro if_cong refl)
  apply (cases "nearestPackageManifest env (dir_of path)")
   apply (simp only: option.case simp_thms if_True)
  subgoal for x
    by (cases x; cases "frontendChecksForPath env (snd x) path (fst x)")
      (simp_all only: option.case prod.case list.case fst_conv snd_conv simp_thms if_True if_False list.distinct)
  done

text \<open>No step of the selection drops a file, a package, a flag or the id of a frontend check.\<close>

definition grows :: "selection \<Rightarrow> selection \<Rightarrow> bool" where
  "grows s s' \<longleftrightarrow> set (se_goFiles s) \<subseteq> set (se_goFiles s') \<and> set (se_goPackages s) \<subseteq> set (se_goPackages s') \<and>
     set (se_pythonFiles s) \<subseteq> set (se_pythonFiles s') \<and> set (se_pythonTests s) \<subseteq> set (se_pythonTests s') \<and>
     set (se_artifacts s) \<subseteq> set (se_artifacts s') \<and> dom (tget (se_frontend s)) \<subseteq> dom (tget (se_frontend s')) \<and>
     (se_gpui s \<longrightarrow> se_gpui s') \<and> (se_sqlite s \<longrightarrow> se_sqlite s') \<and> (se_contracts s \<longrightarrow> se_contracts s')"

lemma grows_refl [simp]: "grows s s"
  by (simp add: grows_def)

lemma grows_trans: "grows a b \<Longrightarrow> grows b c \<Longrightarrow> grows a c"
  unfolding grows_def
  by (elim conjE) (intro conjI; (rule subset_trans, assumption, assumption)?; iprover?)

lemma grows_update:
  "grows s (s\<lparr>se_artifacts := se_artifacts s @ xs, se_gpui := se_gpui s \<or> a\<rparr>)"
  "grows s (s\<lparr>se_pythonFiles := se_pythonFiles s @ xs, se_pythonTests := se_pythonTests s @ ys\<rparr>)"
  "grows s (s\<lparr>se_sqlite := se_sqlite s \<or> a, se_contracts := se_contracts s \<or> b\<rparr>)"
  "grows s (s\<lparr>se_goFiles := se_goFiles s @ xs, se_goPackages := se_goPackages s @ ys\<rparr>)"
  "grows s (s\<lparr>se_goPackages := se_goPackages s @ ys\<rparr>)"
  by (auto simp: grows_def)

lemma area_flags:
  "se_sqlite (s\<lparr>se_sqlite := a, se_contracts := b\<rparr>) = a" "se_contracts (s\<lparr>se_sqlite := a, se_contracts := b\<rparr>) = b"
  by simp_all

lemma grows_mark_generated: "grows s (mark_generated t path s)"
  unfolding mark_generated_def by (rule grows_update)

lemma dom_fold_specs:
  "dom (tget (fold (\<lambda>spec. tput (fs_id spec) spec) specs tab)) = dom (tget tab) \<union> fs_id ` set specs"
  by (induction specs arbitrary: tab) (auto split: if_splits)

lemma fold_specs_get:
  "tget (fold (\<lambda>spec. tput (fs_id spec) spec) specs tab) k = Some x \<Longrightarrow>
     tget tab k = Some x \<or> (x \<in> set specs \<and> fs_id x = k)"
  by (induction specs arbitrary: tab) (fastforce split: if_splits)+

lemma fold_specs_ok: "table_ok tab \<Longrightarrow> table_ok (fold (\<lambda>spec. tput (fs_id spec) spec) specs tab)"
  by (induction specs arbitrary: tab) simp_all

lemma grows_frontend: "grows s (s\<lparr>se_frontend := fold (\<lambda>spec. tput (fs_id spec) spec) specs (se_frontend s)\<rparr>)"
  by (simp add: grows_def dom_fold_specs)

lemma grows_select_go_package: "grows s (select_go_package env path s)"
  unfolding select_go_package_def by (simp only: grows_refl grows_update split: if_split) blast

lemma grows_select_kind: "grows s (select_kind env t path s)"
proof (cases "python_file t path")
  case True
  then show ?thesis by (simp only: select_kind_eq if_True grows_update)
next
  case False
  let ?s = "s\<lparr>se_sqlite := se_sqlite s \<or> sqlite_source path, se_contracts := se_contracts s \<or> contract_source path\<rparr>"
  let ?s' = "select_kind env t path s"
  have "?s' = ?s\<lparr>se_goFiles := se_goFiles ?s @ [path], se_goPackages := se_goPackages ?s @ [''./'' @ rel_dir (dir_of path)]\<rparr> \<or>
      ?s' = select_go_package env path ?s \<or>
      ?s' = ?s\<lparr>se_frontend := fold (\<lambda>spec. tput (fs_id spec) spec) (frontend_of env path) (se_frontend ?s)\<rparr>"
    unfolding select_kind_eq Let_def using False by (simp only: if_False) argo
  then have "grows ?s ?s'" by (elim disjE; simp only: grows_update grows_select_go_package grows_frontend)
  then show ?thesis by (rule grows_trans [OF grows_update(3)])
qed

lemma grows_select_files: "select_files env ts s = Inr s' \<Longrightarrow> grows s s'"
proof (induction ts arbitrary: s)
  case (Cons t ts)
  then obtain path where "select_files env ts (select_kind env t path (mark_generated t path s)) = Inr s'"
    by (auto simp: bindE_eq_Inr)
  from Cons.IH [OF this] show ?case
    using grows_trans [OF grows_mark_generated grows_select_kind] grows_trans by metis
qed simp

lemma go_not_python: "HasSuffix path ''.go'' \<Longrightarrow> \<not> python_file t path"
  by (auto simp: HasSuffix_def python_file_def)

lemma select_files_member:
  assumes "select_files env ts s = Inr s'" and "t \<in> set ts"
  shows "\<exists>s0. grows (select_kind env t (clean_path (tf_Path t)) (mark_generated t (clean_path (tf_Path t)) s0)) s' \<and>
    \<not> unsafe_path (clean_path (tf_Path t))"
  using assms
proof (induction ts arbitrary: s)
  case (Cons u ts)
  then obtain path where p: "normalizeTouchedPath (tf_Path u) = Inr path"
    "select_files env ts (select_kind env u path (mark_generated u path s)) = Inr s'"
    by (auto simp: bindE_eq_Inr)
  then have "path = clean_path (tf_Path u)" "\<not> unsafe_path (clean_path (tf_Path u))"
    by (auto simp: normalizeTouchedPath_def split: if_splits)
  with grows_select_files [OF p(2)] Cons.IH [OF p(2)] Cons.prems(2) show ?case by (cases "t = u") auto
qed simp

text \<open>Every frontend check of the selection is one of a touched file.\<close>

definition frontend_from :: "workspace_env \<Rightarrow> touched_file list \<Rightarrow> (string, frontend_spec) table \<Rightarrow> bool" where
  "frontend_from env ts tab \<longleftrightarrow> table_ok tab \<and> (\<forall>k x. tget tab k = Some x \<longrightarrow>
     fs_id x = k \<and> (\<exists>t \<in> set ts. x \<in> set (frontend_of env (clean_path (tf_Path t)))))"

lemma frontend_from_select_kind:
  assumes "frontend_from env ts (se_frontend s)" and "t \<in> set ts"
  shows "frontend_from env ts (se_frontend (select_kind env t (clean_path (tf_Path t)) s))"
  using assms unfolding select_kind_eq select_go_package_def Let_def frontend_from_def
  by (auto simp: fold_specs_ok dest!: fold_specs_get)

lemma frontend_from_select_files:
  assumes "select_files env ts s = Inr s'" and "frontend_from env all (se_frontend s)" and "set ts \<subseteq> set all"
  shows "frontend_from env all (se_frontend s')"
  using assms
proof (induction ts arbitrary: s)
  case (Cons t ts)
  then obtain path where p: "normalizeTouchedPath (tf_Path t) = Inr path"
    "select_files env ts (select_kind env t path (mark_generated t path s)) = Inr s'"
    by (auto simp: bindE_eq_Inr)
  then have path: "path = clean_path (tf_Path t)" by (auto simp: normalizeTouchedPath_def split: if_splits)
  have "frontend_from env all (se_frontend (mark_generated t path s))"
    using Cons.prems(2) by (simp add: mark_generated_def)
  then have "frontend_from env all (se_frontend (select_kind env t path (mark_generated t path s)))"
    unfolding path by (rule frontend_from_select_kind) (use Cons.prems(3) in simp)
  with Cons.IH [OF p(2)] Cons.prems(3) show ?case by simp
qed simp

text \<open>A selected check with an id that has a given argument, or that is a given command.\<close>

definition checked_by :: "verification_plan \<Rightarrow> string \<Rightarrow> string \<Rightarrow> bool" where
  "checked_by plan i arg \<longleftrightarrow> (\<exists>c \<in> set (vp_Checks plan). vc_ID c = i \<and> vc_Kind c = ''command'' \<and> arg \<in> set (vc_Command c))"

definition runs :: "verification_plan \<Rightarrow> string \<Rightarrow> string \<Rightarrow> string list \<Rightarrow> bool" where
  "runs plan i cwd command \<longleftrightarrow> (\<exists>c \<in> set (vp_Checks plan). vc_ID c = i \<and> vc_Kind c = ''command'' \<and>
     vc_CWD c = cwd \<and> vc_Command c = command)"

lemma command_check_simps [simp]:
  "vc_ID (command_check ids i cwd n env cmd) = i" "vc_Kind (command_check ids i cwd n env cmd) = ''command''"
  "vc_CWD (command_check ids i cwd n env cmd) = cwd" "vc_Command (command_check ids i cwd n env cmd) = cmd"
  by (simp_all add: command_check_def)

text \<open>What the entries of a selection become.\<close>

lemma selected_commands_run:
  assumes "set (selected_commands ids s) \<subseteq> set (vp_Checks plan)"
  shows "x \<in> set (se_goFiles s) \<Longrightarrow> checked_by plan ''gofmt'' x"
    and "x \<in> set (se_goPackages s) \<Longrightarrow> checked_by plan ''go-test'' x"
    and "spec \<in> set (trows (se_frontend s)) \<Longrightarrow> runs plan (fs_id spec) (fs_cwd spec) (fs_command spec)"
    and "se_sqlite s \<Longrightarrow> runs plan ''sqlite-tests'' [] [''go'', ''test'', ''./internal/store/sqlite'']"
    and "se_contracts s \<Longrightarrow> runs plan ''contracts-check'' [] [''go'', ''run'', ''./cmd/gen-contracts'', ''-check'']"
    and "se_gpui s \<Longrightarrow> runs plan ''gpui-tests'' ''gpui'' [''cargo'', ''test'', ''--workspace'', ''--all-targets'']"
    and "x \<in> set (se_pythonFiles s) \<Longrightarrow> checked_by plan ''python-compile'' x"
    and "x \<in> set (se_pythonTests s) \<Longrightarrow> checked_by plan ''python-tests'' x"
proof -
  note sub = assms [THEN subsetD]
  show "checked_by plan ''gofmt'' x" if "x \<in> set (se_goFiles s)"
  proof -
    from that have ne: "0 < length (se_goFiles s)" by (cases "se_goFiles s") simp_all
    have "command_check ids ''gofmt'' [] 60000 [] ([''gofmt'', ''-d''] @ sort (se_goFiles s)) \<in> set (vp_Checks plan)"
      by (rule sub) (simp only: selected_commands_def Let_def ne if_True set_append list.set Un_iff insert_iff simp_thms)
    then show ?thesis unfolding checked_by_def by (rule bexI [rotated]) (use that in simp)
  qed
  show "checked_by plan ''go-test'' x" if "x \<in> set (se_goPackages s)"
  proof -
    from that have ne: "0 < length (se_goPackages s)" by (cases "se_goPackages s") simp_all
    have "command_check ids ''go-test'' [] 300000 [(''GOWORK'', ''off'')] ([''go'', ''test''] @ sort (remdups (se_goPackages s))) \<in> set (vp_Checks plan)"
      by (rule sub) (simp only: selected_commands_def Let_def ne if_True set_append list.set Un_iff insert_iff simp_thms)
    then show ?thesis unfolding checked_by_def by (rule bexI [rotated]) (use that in simp)
  qed
  show "runs plan (fs_id spec) (fs_cwd spec) (fs_command spec)" if "spec \<in> set (trows (se_frontend s))"
  proof -
    from that have "spec \<in> set (sort_key fs_id (trows (se_frontend s)))" by simp
    then have "command_check ids (fs_id spec) (fs_cwd spec) 300000 [] (fs_command spec) \<in> set (vp_Checks plan)"
      by (intro sub) (simp only: selected_commands_def Let_def set_append set_map Un_iff image_eqI simp_thms)
    then show ?thesis unfolding runs_def by (rule bexI [rotated]) simp
  qed
  show "runs plan ''sqlite-tests'' [] [''go'', ''test'', ''./internal/store/sqlite'']" if "se_sqlite s"
  proof -
    have "command_check ids ''sqlite-tests'' [] 300000 [(''GOWORK'', ''off'')] [''go'', ''test'', ''./internal/store/sqlite''] \<in> set (vp_Checks plan)"
      by (rule sub) (simp only: selected_commands_def Let_def that if_True set_append list.set Un_iff insert_iff simp_thms)
    then show ?thesis unfolding runs_def by (rule bexI [rotated]) simp
  qed
  show "runs plan ''contracts-check'' [] [''go'', ''run'', ''./cmd/gen-contracts'', ''-check'']" if "se_contracts s"
  proof -
    have "command_check ids ''contracts-check'' [] 120000 [(''GOWORK'', ''off'')] [''go'', ''run'', ''./cmd/gen-contracts'', ''-check''] \<in> set (vp_Checks plan)"
      by (rule sub) (simp only: selected_commands_def Let_def that if_True set_append list.set Un_iff insert_iff simp_thms)
    then show ?thesis unfolding runs_def by (rule bexI [rotated]) simp
  qed
  show "runs plan ''gpui-tests'' ''gpui'' [''cargo'', ''test'', ''--workspace'', ''--all-targets'']" if "se_gpui s"
  proof -
    have "command_check ids ''gpui-tests'' ''gpui'' 300000 [] [''cargo'', ''test'', ''--workspace'', ''--all-targets''] \<in> set (vp_Checks plan)"
      by (rule sub) (simp only: selected_commands_def Let_def that if_True set_append list.set Un_iff insert_iff simp_thms)
    then show ?thesis unfolding runs_def by (rule bexI [rotated]) simp
  qed
  show "checked_by plan ''python-compile'' x" if "x \<in> set (se_pythonFiles s)"
  proof -
    from that have ne: "0 < length (se_pythonFiles s)" by (cases "se_pythonFiles s") simp_all
    have "command_check ids ''python-compile'' [] 60000 [] ([''python3'', ''-m'', ''py_compile''] @ sort (se_pythonFiles s)) \<in> set (vp_Checks plan)"
      by (rule sub) (simp only: selected_commands_def Let_def ne if_True set_append list.set Un_iff insert_iff simp_thms)
    then show ?thesis unfolding checked_by_def by (rule bexI [rotated]) (use that in simp)
  qed
  show "checked_by plan ''python-tests'' x" if "x \<in> set (se_pythonTests s)"
  proof -
    from that have ne: "0 < length (se_pythonTests s)" by (cases "se_pythonTests s") simp_all
    have "command_check ids ''python-tests'' [] 180000 [] ([''python3'', ''-m'', ''unittest''] @ sort (se_pythonTests s)) \<in> set (vp_Checks plan)"
      by (rule sub) (simp only: selected_commands_def Let_def ne if_True set_append list.set Un_iff insert_iff simp_thms)
    then show ?thesis unfolding checked_by_def by (rule bexI [rotated]) (use that in simp)
  qed
qed


section \<open>A selection\<close>

definition ex_workspace :: workspace_env where
  "ex_workspace = \<lparr>we_contract = ex_contract_env, we_manifest = (\<lambda>_. None), we_read = (\<lambda>_. []), we_dir = (\<lambda>_. [])\<rparr>"

definition ex_selected :: "claim_error + verification_plan" where
  "ex_selected = SelectDeterministicChecks ex_workspace ''/w''
     \<lparr>ws_Version = 1, ws_ID = ''w'', ws_SessionID = ''s'', ws_RunID = ''r'', ws_Goal = ''g'', ws_ApprovedPlanID = [],
      ws_Criteria = [\<lparr>cr_ID = ''u'', cr_Text = ''t'', cr_Origin = ''explicit'', cr_Required = True, cr_Sources = []\<rparr>],
      ws_Constraints = [], ws_AllowedSideEffects = [], ws_CreatedAt = 1\<rparr>
     \<lparr>vp_Version = 1, vp_ID = ''p'', vp_WorkSpecID = ''w'', vp_RevisionID = ''rev'', vp_SnapshotHash = ''snap'',
      vp_Checks = [\<lparr>vc_ID = ''criterion:u'', vc_CriterionIDs = [''u''], vc_Kind = ''criterion'', vc_Command = [], vc_CWD = [],
        vc_Environment = [], vc_ArtifactRef = [], vc_TimeoutMS = 0\<rparr>], vp_CreatedAt = 1\<rparr>
     [\<lparr>tf_Path = ''internal/a/b.go'', tf_Change = ''modified'', tf_Generated = False\<rparr>,
      \<lparr>tf_Path = ''./internal/c/../a/a.go'', tf_Change = ''modified'', tf_Generated = False\<rparr>]"

lemma ex_selected_ok: "case ex_selected of Inr p \<Rightarrow> map vc_ID (vp_Checks p) = [''gofmt'', ''go-test'', ''criterion:u''] | Inl _ \<Rightarrow> False"
  by code_simp


text \<open>The ids of the frontend checks collide: the packages \<^verbatim>\<open>web-a\<close> and \<^verbatim>\<open>web/a\<close> share theirs, and
  only the one touched last is checked.\<close>

definition ex_collision :: "claim_error + selection" where
  "ex_collision = select_files
     (ex_workspace\<lparr>we_manifest := (\<lambda>dir. if dir = ''web-a'' \<or> dir = ''web/a''
        then Some \<lparr>pm_PackageManager = ''npm'', pm_Scripts = [(''typecheck'', ''tsc'')]\<rparr> else None)\<rparr>)
     [\<lparr>tf_Path = ''web-a/x.ts'', tf_Change = ''modified'', tf_Generated = False\<rparr>,
      \<lparr>tf_Path = ''web/a/y.ts'', tf_Change = ''modified'', tf_Generated = False\<rparr>] empty_selection"

definition ex_collided :: selection where
  "ex_collided = empty_selection\<lparr>se_frontend := [(''web-a-typecheck'',
     \<lparr>fs_id = ''web-a-typecheck'', fs_cwd = ''web/a'', fs_command = [''npm'', ''run'', ''typecheck'']\<rparr>)]\<rparr>"

theorem frontend_ids_collide:
  "ex_collision = Inr ex_collided \<and>
   map (\<lambda>c. (vc_ID c, vc_CWD c)) (selected_commands [] ex_collided) = [(''web-a-typecheck'', ''web/a'')]"
proof
  show "ex_collision = Inr ex_collided" by code_simp
  show "map (\<lambda>c. (vc_ID c, vc_CWD c)) (selected_commands [] ex_collided) = [(''web-a-typecheck'', ''web/a'')]" by code_simp
qed

end
