(* ===== verification/Claim_Guard.thy ===== *)
theory Claim_Guard
  imports Work_Criteria
begin

text \<open>
  The guard of final claims, \<^verbatim>\<open>internal/verification/guardrail.go\<close>, and the store of verification
  results behind it, \<^verbatim>\<open>internal/verification/artifact_store.go\<close>, on the context artifacts of
  \<^verbatim>\<open>internal/session/service.go\<close>.

  The guard calls its \<^verbatim>\<open>ResultStore\<close> through two operations, the arguments \<open>latest\<close> and \<open>save\<close>; the
  locale \<open>claim_store\<close> states what it relies on and is interpreted on the artifact store.
\<close>

section \<open>Context artifacts\<close>

record artifact =
  art_ID :: string
  art_SessionID :: string
  art_RunID :: string
  art_Kind :: string
  art_SHA256 :: string
  art_CreatedAt :: time

text \<open>The rows of \<^verbatim>\<open>context_artifacts\<close> and the content-addressed blobs. Previews are not modelled.\<close>

record artifacts =
  as_Rows :: "artifact list"
  as_Blobs :: "(string, string) table"

definition maxContextArtifactPayloadBytes :: int where
  "maxContextArtifactPayloadBytes = 64 * 1024 * 1024"

definition InternalArtifactKindPrefix :: string where
  "InternalArtifactKindPrefix = ''azem-internal/''"

definition contextArtifactID :: "contract_env \<Rightarrow> string \<Rightarrow> string \<Rightarrow> string \<Rightarrow> string" where
  "contextArtifactID env sessionID kind hash =
     ''artifact_'' @ take 32 (ce_sha env (sessionID @ [CHR 0x00] @ kind @ [CHR 0x00] @ hash))"

text \<open>\<open>io\<close> is an error of the blob store or of the database, when there is one.\<close>

definition loadArtifactRow :: "contract_env \<Rightarrow> artifacts \<Rightarrow> artifact \<Rightarrow> claim_error + artifact \<times> string" where
  "loadArtifactRow env st row =
     (if HasPrefix (art_ID row) ''artifact_'' \<and>
         art_ID row \<noteq> contextArtifactID env (art_SessionID row) (art_Kind row) (art_SHA256 row)
      then Inl (ClaimError ''context artifact failed identity check'')
      else case tget (as_Blobs st) (art_SHA256 row) of
        None \<Rightarrow> Inl (ClaimError ''load context artifact payload'')
      | Some payload \<Rightarrow>
          if int (length payload) > maxContextArtifactPayloadBytes then Inl (ClaimError ''load context artifact payload'')
          else if ce_sha env payload \<noteq> art_SHA256 row then Inl (ClaimError ''context artifact failed integrity check'')
          else Inr (row, payload))"

definition LoadArtifact :: "contract_env \<Rightarrow> artifacts \<Rightarrow> string \<Rightarrow> string \<Rightarrow> claim_error + artifact \<times> string" where
  "LoadArtifact env st sessionID i =
     (case List.find (\<lambda>row. art_ID row = i \<and> art_SessionID row = sessionID) (as_Rows st) of
        None \<Rightarrow> Inl ErrContextArtifactNotFound
      | Some row \<Rightarrow> loadArtifactRow env st row)"

text \<open>\<^verbatim>\<open>ORDER BY created_at DESC,id DESC LIMIT 1\<close>.\<close>

definition row_after :: "artifact \<Rightarrow> artifact \<Rightarrow> bool" where
  "row_after a b \<longleftrightarrow> art_CreatedAt a > art_CreatedAt b \<or> (art_CreatedAt a = art_CreatedAt b \<and> art_ID a > art_ID b)"

fun latest_of :: "artifact list \<Rightarrow> artifact option" where
  "latest_of [] = None"
| "latest_of (r # rs) = (case latest_of rs of None \<Rightarrow> Some r | Some b \<Rightarrow> Some (if row_after b r then b else r))"

definition LoadLatestArtifactByKind ::
  "contract_env \<Rightarrow> claim_error option \<Rightarrow> artifacts \<Rightarrow> string \<Rightarrow> string \<Rightarrow> claim_error + artifact \<times> string" where
  "LoadLatestArtifactByKind env io st sessionID kind =
     (if blank sessionID \<or> blank kind then Inl (ClaimError ''session id and artifact kind are required'')
      else case io of Some e \<Rightarrow> Inl e
      | None \<Rightarrow> (case latest_of (filter (\<lambda>r. art_SessionID r = sessionID \<and> art_Kind r = kind) (as_Rows st)) of
          None \<Rightarrow> Inl ErrContextArtifactNotFound
        | Some row \<Rightarrow> loadArtifactRow env st row))"

definition PutArtifact ::
  "contract_env \<Rightarrow> claim_error option \<Rightarrow> time \<Rightarrow> artifacts \<Rightarrow> string \<Rightarrow> string \<Rightarrow> string \<Rightarrow> string \<Rightarrow>
     (claim_error + artifact \<times> string) \<times> artifacts" where
  "PutArtifact env io now st sessionID runID kind payload =
     (if blank sessionID \<or> blank kind then (Inl (ClaimError ''artifact session and kind are required''), st)
      else if int (length payload) > maxContextArtifactPayloadBytes then (Inl (ClaimError ''context artifact exceeds limit''), st)
      else case io of Some e \<Rightarrow> (Inl e, st)
      | None \<Rightarrow>
          let hash = ce_sha env payload;
              i = contextArtifactID env sessionID kind hash;
              row = \<lparr>art_ID = i, art_SessionID = sessionID, art_RunID = runID, art_Kind = kind,
                art_SHA256 = hash, art_CreatedAt = now\<rparr>;
              rows = (if \<exists>r \<in> set (as_Rows st). art_SessionID r = sessionID \<and> art_Kind r = kind \<and> art_SHA256 r = hash
                then as_Rows st else as_Rows st @ [row]);
              st' = \<lparr>as_Rows = rows, as_Blobs = tput hash payload (as_Blobs st)\<rparr>
          in if rows \<noteq> as_Rows st \<and> (\<exists>r \<in> set (as_Rows st). art_ID r = i)
             then (Inl (ClaimError ''put context artifact''), st)
             else (LoadArtifact env st' sessionID i, st'))"

section \<open>Verification results in artifacts\<close>

definition verificationResultArtifactKind :: "contract_env \<Rightarrow> string \<Rightarrow> claim_error + string" where
  "verificationResultArtifactKind env workSpecID =
     (if blank workSpecID then Inl (ClaimError ''verification: work spec id is required'')
      else Inr (InternalArtifactKindPrefix @ ''verification_result_v1:'' @ shortHash env workSpecID))"

definition result_latest ::
  "contract_env \<Rightarrow> claim_error option \<Rightarrow> string \<Rightarrow> artifacts \<Rightarrow> string \<Rightarrow> claim_error + verification_result" where
  "result_latest env io sessionID st workSpecID =
     bindE (verificationResultArtifactKind env workSpecID) (\<lambda>kind.
     case LoadLatestArtifactByKind env io st sessionID kind of
       Inl e \<Rightarrow> Inl (if e = ErrContextArtifactNotFound then ErrNoVerificationResult else e)
     | Inr (_, payload) \<Rightarrow> (case ce_result_decode env payload of
         None \<Rightarrow> Inl (ClaimError ''verification: decode result artifact'')
       | Some result \<Rightarrow>
           if vr_WorkSpecID result \<noteq> workSpecID then Inl (ClaimError ''verification: artifact belongs to work spec'')
           else case validate_result result of Some e \<Rightarrow> Inl e | None \<Rightarrow> Inr result))"

definition result_save ::
  "contract_env \<Rightarrow> claim_error option \<Rightarrow> time \<Rightarrow> string \<Rightarrow> string \<Rightarrow> artifacts \<Rightarrow> verification_result \<Rightarrow>
     (claim_error + unit) \<times> artifacts" where
  "result_save env io now sessionID runID st result =
     (case validate_result result of
        Some e \<Rightarrow> (Inl e, st)
      | None \<Rightarrow> (case verificationResultArtifactKind env (vr_WorkSpecID result) of
          Inl e \<Rightarrow> (Inl e, st)
        | Inr kind \<Rightarrow> (case PutArtifact env io now st sessionID runID kind (ce_result_json env result) of
            (Inl e, st') \<Rightarrow> (Inl e, st')
          | (Inr _, st') \<Rightarrow> (Inr (), st'))))"

section \<open>The guard\<close>

record final_decision =
  cd_Action :: string
  cd_Status :: string
  cd_Reason :: string
  cd_Result :: "verification_result option"

fun criterion_statuses :: "string list \<Rightarrow> (string \<times> string) list \<Rightarrow> criterion_result list \<Rightarrow> claim_error + (string \<times> string) list" where
  "criterion_statuses known statuses [] = Inr statuses"
| "criterion_statuses known statuses (r # rs) =
     (if res_CriterionID r \<notin> set known then Inl (ClaimError ''verification: result references unknown criterion'')
      else if tget statuses (res_CriterionID r) \<noteq> None then Inl (ClaimError ''verification: duplicate result for criterion'')
      else criterion_statuses known (tput (res_CriterionID r) (res_Status r) statuses) rs)"

fun aggregate_status :: "(string \<times> string) list \<Rightarrow> string \<Rightarrow> criterion list \<Rightarrow> claim_error + string" where
  "aggregate_status statuses aggregate [] = Inr aggregate"
| "aggregate_status statuses aggregate (c # cs) =
     (case tget statuses (cr_ID c) of
        None \<Rightarrow> if cr_Required c then Inl (ClaimError ''verification: required criterion has no result'')
          else aggregate_status statuses aggregate cs
      | Some status \<Rightarrow> aggregate_status statuses
          (if status = ''fail'' then ''fail''
           else if status = ''uncertain'' \<and> aggregate = ''pass'' then ''uncertain'' else aggregate) cs)"

definition CompatibleResult ::
  "contract_env \<Rightarrow> work_spec \<Rightarrow> verification_plan \<Rightarrow> verification_result \<Rightarrow> string \<Rightarrow> claim_error option" where
  "CompatibleResult env work plan result currentSnapshot =
     (case validate_work env work of Some e \<Rightarrow> Some e | None \<Rightarrow>
      case validate_plan env plan of Some e \<Rightarrow> Some e | None \<Rightarrow>
      case validate_result result of Some e \<Rightarrow> Some e | None \<Rightarrow>
      if vr_PlanID result \<noteq> vp_ID plan \<or> vr_WorkSpecID result \<noteq> ws_ID work \<or>
         vr_RevisionID result \<noteq> vp_RevisionID plan \<or> vr_SnapshotHash result \<noteq> vp_SnapshotHash plan \<or>
         vr_SnapshotHash result \<noteq> currentSnapshot
      then Some (ClaimError ''verification: result is stale or belongs to another plan'')
      else if vr_CompletedAt result < vp_CreatedAt plan then Some (ClaimError ''verification: result predates plan'')
      else case criterion_statuses (map cr_ID (ws_Criteria work)) [] (vr_Criteria result) of
        Inl e \<Rightarrow> Some e
      | Inr statuses \<Rightarrow> (case aggregate_status statuses ''pass'' (ws_Criteria work) of
          Inl e \<Rightarrow> Some e
        | Inr aggregate \<Rightarrow>
            if vr_Status result \<noteq> aggregate
            then Some (ClaimError ''verification: aggregate status does not match criteria'') else None))"

definition uncertainResult ::
  "contract_env \<Rightarrow> work_spec \<Rightarrow> verification_plan \<Rightarrow> string \<Rightarrow> time \<Rightarrow> verification_result" where
  "uncertainResult env work plan snapshot completedAt =
     \<lparr>vr_Version = WorkContractVersionV1,
      vr_ID = ''verification-result:'' @ shortHash env (ws_ID work @ '':'' @ vp_ID plan @ '':'' @ snapshot @ '':uncertain''),
      vr_PlanID = vp_ID plan, vr_WorkSpecID = ws_ID work, vr_RevisionID = vp_RevisionID plan,
      vr_SnapshotHash = snapshot, vr_Status = ''uncertain'',
      vr_Criteria = map (\<lambda>c. \<lparr>res_CriterionID = cr_ID c, res_Status = ''uncertain'',
        res_Evidence = [\<lparr>sr_Kind = ''guardrail'', sr_ID = ''missing_or_stale_verification'', sr_Range = [], sr_SHA256 = []\<rparr>],
        res_Reason = ''no compatible verification evidence was recorded after one retry''\<rparr>) (ws_Criteria work),
      vr_CompletedAt = completedAt\<rparr>"

definition plan_known :: "work_spec \<Rightarrow> verification_plan \<Rightarrow> bool" where
  "plan_known work plan \<longleftrightarrow>
     list_all (\<lambda>check. list_all (\<lambda>i. i \<in> set (map cr_ID (ws_Criteria work))) (vc_CriterionIDs check)) (vp_Checks plan)"

definition retry_reason :: string where
  "retry_reason = ''Run the selected verification checks for the current workspace snapshot, persist their criterion-linked result, then answer again.''"

definition surface_reason :: string where
  "surface_reason = ''Verification evidence is missing or stale for the current workspace snapshot.''"

text \<open>What follows when no compatible result is stored: one retry, then an uncertain result.\<close>

definition guard_retry ::
  "contract_env \<Rightarrow> ('s \<Rightarrow> verification_result \<Rightarrow> (claim_error + unit) \<times> 's) \<Rightarrow> time \<Rightarrow> bool \<Rightarrow> 's \<Rightarrow>
     work_spec \<Rightarrow> verification_plan \<Rightarrow> string \<Rightarrow> (claim_error + final_decision) \<times> bool \<times> 's" where
  "guard_retry env save now retried s work plan currentSnapshot =
     (if \<not> retried then (Inr \<lparr>cd_Action = ''retry'', cd_Status = ''uncertain'', cd_Reason = retry_reason, cd_Result = None\<rparr>, True, s)
      else let uncertain = uncertainResult env work plan currentSnapshot now in
        case save s uncertain of
          (Inl e, s') \<Rightarrow> (Inl e, retried, s')
        | (Inr _, s') \<Rightarrow>
            (Inr \<lparr>cd_Action = ''surface'', cd_Status = ''uncertain'', cd_Reason = surface_reason,
               cd_Result = Some uncertain\<rparr>, retried, s'))"

definition guard_check ::
  "contract_env \<Rightarrow> ('s \<Rightarrow> string \<Rightarrow> claim_error + verification_result) \<Rightarrow>
     ('s \<Rightarrow> verification_result \<Rightarrow> (claim_error + unit) \<times> 's) \<Rightarrow> time \<Rightarrow> bool \<Rightarrow> 's \<Rightarrow> bool \<Rightarrow>
     work_spec \<Rightarrow> verification_plan \<Rightarrow> string \<Rightarrow> (claim_error + final_decision) \<times> bool \<times> 's" where
  "guard_check env latest save now retried s mutating work plan currentSnapshot =
     (if currentSnapshot = [] \<or> length (ws_Criteria work) = 0 \<or> vp_WorkSpecID plan \<noteq> ws_ID work
      then (Inl (ClaimError ''verification: invalid final claim guard input''), retried, s)
      else if \<not> mutating then (Inr \<lparr>cd_Action = ''allow'', cd_Status = ''pass'', cd_Reason = [], cd_Result = None\<rparr>, retried, s)
      else case validate_work env work of Some e \<Rightarrow> (Inl e, retried, s) | None \<Rightarrow>
      case validate_plan env plan of Some e \<Rightarrow> (Inl e, retried, s) | None \<Rightarrow>
      if \<not> plan_known work plan
      then (Inl (ClaimError ''verification: plan references unknown criterion''), retried, s)
      else case latest s (ws_ID work) of
        Inl e \<Rightarrow> if e \<noteq> ErrNoVerificationResult then (Inl e, retried, s)
          else guard_retry env save now retried s work plan currentSnapshot
      | Inr result \<Rightarrow> (case CompatibleResult env work plan result currentSnapshot of
          None \<Rightarrow> (Inr \<lparr>cd_Action = (if vr_Status result \<noteq> ''pass'' then ''surface'' else ''allow''),
              cd_Status = vr_Status result,
              cd_Reason = (if vr_Status result \<noteq> ''pass'' then ''verification result is '' @ vr_Status result else []),
              cd_Result = Some result\<rparr>, retried, s)
        | Some _ \<Rightarrow> guard_retry env save now retried s work plan currentSnapshot))"

section \<open>Compatible results\<close>

text \<open>The reference: the worst status of the criteria.\<close>

definition worst_status :: "criterion_result list \<Rightarrow> string" where
  "worst_status rs = (if \<exists>r \<in> set rs. res_Status r = ''fail'' then ''fail''
     else if \<exists>r \<in> set rs. res_Status r = ''uncertain'' then ''uncertain'' else ''pass'')"

abbreviation res_pairs :: "criterion_result list \<Rightarrow> (string \<times> string) list" where
  "res_pairs rs \<equiv> map (\<lambda>r. (res_CriterionID r, res_Status r)) rs"

lemma criterion_statuses_spec:
  "(\<exists>st'. criterion_statuses known st rs = Inr st') \<longleftrightarrow>
     (\<forall>r \<in> set rs. res_CriterionID r \<in> set known \<and> tget st (res_CriterionID r) = None) \<and>
     distinct (map res_CriterionID rs)"
proof (induction rs arbitrary: st)
  case (Cons r rs)
  let ?new = "tput (res_CriterionID r) (res_Status r) st"
  have "tget ?new k = None \<longleftrightarrow> k \<noteq> res_CriterionID r \<and> tget st k = None" for k by simp
  then have "(\<exists>st'. criterion_statuses known ?new rs = Inr st') \<longleftrightarrow>
      (\<forall>x \<in> set rs. res_CriterionID x \<in> set known \<and> tget st (res_CriterionID x) = None) \<and>
      res_CriterionID r \<notin> res_CriterionID ` set rs \<and> distinct (map res_CriterionID rs)"
    unfolding Cons.IH by (metis (no_types, lifting) image_iff)
  then show ?case by (simp del: tget_tput)
qed simp

lemma criterion_statuses_tget:
  "criterion_statuses known st rs = Inr st' \<Longrightarrow> tget st' k =
     (case map_of (res_pairs rs) k of Some v \<Rightarrow> Some v | None \<Rightarrow> tget st k)"
proof (induction rs arbitrary: st)
  case (Cons r rs)
  then have rest: "criterion_statuses known (tput (res_CriterionID r) (res_Status r) st) rs = Inr st'"
    by (auto split: if_splits)
  then have "tget (tput (res_CriterionID r) (res_Status r) st) (res_CriterionID x) = None" if "x \<in> set rs" for x
    using criterion_statuses_spec [of known "tput (res_CriterionID r) (res_Status r) st" rs] that by blast
  then have "res_CriterionID r \<notin> res_CriterionID ` set rs" by fastforce
  then have "map_of (res_pairs rs) (res_CriterionID r) = None" by (auto simp: map_of_eq_None_iff)
  with Cons.IH [OF rest] show ?case by (auto split: option.splits)
qed simp

lemma aggregate_status_spec:
  "aggregate_status st a cs = Inr b \<longleftrightarrow>
     (\<forall>c \<in> set cs. cr_Required c \<longrightarrow> tget st (cr_ID c) \<noteq> None) \<and>
     b = (if \<exists>c \<in> set cs. tget st (cr_ID c) = Some ''fail'' then ''fail''
          else if a = ''pass'' \<and> (\<exists>c \<in> set cs. tget st (cr_ID c) = Some ''uncertain'') then ''uncertain'' else a)"
proof (induction cs arbitrary: a)
  case (Cons c cs)
  show ?case
  proof (cases "tget st (cr_ID c)")
    case None
    then show ?thesis using Cons.IH [of a] by simp
  next
    case (Some v)
    consider "v = ''fail''" | "v = ''uncertain''" | "v \<noteq> ''fail''" "v \<noteq> ''uncertain''" by blast
    then show ?thesis
    proof cases
      case 1
      then show ?thesis using Cons.IH [of "''fail''"] Some by simp
    next
      case 2
      show ?thesis
      proof (cases "a = ''pass''")
        case True
        then show ?thesis using Cons.IH [of "''uncertain''"] Some 2 by simp
      next
        case False
        then show ?thesis using Cons.IH [of a] Some 2 by simp
      qed
    next
      case 3
      then show ?thesis using Cons.IH [of a] Some by simp
    qed
  qed
qed auto

lemma validate_results_spec:
  "validate_results seen rs = None \<Longrightarrow> distinct (map res_CriterionID rs) \<and>
     (\<forall>r \<in> set rs. res_CriterionID r \<notin> set seen \<and> res_Evidence r \<noteq> [] \<and>
        oneOf (res_Status r) [''pass'', ''fail'', ''uncertain''])"
proof (induction rs arbitrary: seen)
  case (Cons r rs)
  then have "validate_results (res_CriterionID r # seen) rs = None" "res_CriterionID r \<notin> set seen"
    "res_Evidence r \<noteq> []" "oneOf (res_Status r) [''pass'', ''fail'', ''uncertain'']"
    by (auto split: if_splits option.splits)
  with Cons.IH [OF this(1)] show ?case by auto
qed simp

lemma validate_result_criteria:
  "validate_result r = None \<Longrightarrow> validate_results [] (vr_Criteria r) = None"
  by (auto simp: validate_result_def split: option.splits if_splits)

lemma aggregate_compatible:
  assumes dist: "distinct (map res_CriterionID rs)"
  shows "(\<exists>st. criterion_statuses (map cr_ID cs) [] rs = Inr st \<and> aggregate_status st ''pass'' cs = Inr b) \<longleftrightarrow>
     (\<forall>r \<in> set rs. res_CriterionID r \<in> cr_ID ` set cs) \<and>
     (\<forall>c \<in> set cs. cr_Required c \<longrightarrow> cr_ID c \<in> res_CriterionID ` set rs) \<and> b = worst_status rs"
    (is "?lhs \<longleftrightarrow> ?known \<and> ?rest")
proof (cases ?known)
  case False
  then show ?thesis using criterion_statuses_spec [of "map cr_ID cs" "[]" rs] by auto
next
  case True
  then obtain st where st: "criterion_statuses (map cr_ID cs) [] rs = Inr st"
    using criterion_statuses_spec [of "map cr_ID cs" "[]" rs] dist by auto
  have tg: "tget st k = map_of (res_pairs rs) k" for k
    using criterion_statuses_tget [OF st, of k] by (auto split: option.splits)
  have dp: "distinct (map fst (res_pairs rs))" using dist by (simp add: comp_def)
  have dom: "tget st k \<noteq> None \<longleftrightarrow> k \<in> res_CriterionID ` set rs" for k
    unfolding tg by (force simp: map_of_eq_None_iff)
  have ex: "(\<exists>c \<in> set cs. tget st (cr_ID c) = Some v) \<longleftrightarrow> (\<exists>r \<in> set rs. res_Status r = v)" for v
  proof
    assume "\<exists>c \<in> set cs. tget st (cr_ID c) = Some v"
    then show "\<exists>r \<in> set rs. res_Status r = v" unfolding tg by (fastforce dest: map_of_SomeD)
  next
    assume "\<exists>r \<in> set rs. res_Status r = v"
    then obtain r where r: "r \<in> set rs" "res_Status r = v" by blast
    then have "(res_CriterionID r, v) \<in> set (res_pairs rs)" by auto
    then have "tget st (res_CriterionID r) = Some v" unfolding tg using dp by (simp add: map_of_is_SomeI)
    with True r show "\<exists>c \<in> set cs. tget st (cr_ID c) = Some v" by force
  qed
  have "aggregate_status st ''pass'' cs = Inr b \<longleftrightarrow> ?rest"
    unfolding aggregate_status_spec worst_status_def dom ex by (simp only: simp_thms)
  with st True show ?thesis by simp
qed

lemma compatible_result_ref:
  "CompatibleResult env work plan result snapshot = None \<longleftrightarrow>
     validate_work env work = None \<and> validate_plan env plan = None \<and> validate_result result = None \<and>
     vr_PlanID result = vp_ID plan \<and> vr_WorkSpecID result = ws_ID work \<and>
     vr_RevisionID result = vp_RevisionID plan \<and> vr_SnapshotHash result = vp_SnapshotHash plan \<and>
     vr_SnapshotHash result = snapshot \<and> vp_CreatedAt plan \<le> vr_CompletedAt result \<and>
     (\<forall>r \<in> set (vr_Criteria result). res_CriterionID r \<in> cr_ID ` set (ws_Criteria work)) \<and>
     (\<forall>c \<in> set (ws_Criteria work). cr_Required c \<longrightarrow> cr_ID c \<in> res_CriterionID ` set (vr_Criteria result)) \<and>
     vr_Status result = worst_status (vr_Criteria result)"
proof (cases "validate_result result")
  case None
  then have dist: "distinct (map res_CriterionID (vr_Criteria result))"
    using validate_results_spec [OF validate_result_criteria [OF None]] by simp
  show ?thesis
    using aggregate_compatible [OF dist, of "ws_Criteria work" "vr_Status result"] None
    unfolding CompatibleResult_def
    by (auto split: option.splits sum.splits)
qed (auto simp: CompatibleResult_def split: option.splits)

section \<open>The contract of the result store\<close>

text \<open>
  What the guard relies on: a result that is read belongs to the work asked for and is valid, and
  only valid results are saved.
\<close>

locale claim_store =
  fixes latest :: "'s \<Rightarrow> string \<Rightarrow> claim_error + verification_result"
    and save :: "'s \<Rightarrow> verification_result \<Rightarrow> (claim_error + unit) \<times> 's"
  assumes latest_valid: "latest s i = Inr r \<Longrightarrow> validate_result r = None \<and> vr_WorkSpecID r = i"
    and save_valid: "save s r = (Inr u, s') \<Longrightarrow> validate_result r = None"
begin

text \<open>An answer of a mutating run is allowed only on a stored compatible result that passes.\<close>

lemma allow_compatible:
  assumes "guard_check env latest save now retried s True work plan snap = (Inr d, retried', s')"
    and "cd_Action d = ''allow''"
  shows "\<exists>r. latest s (ws_ID work) = Inr r \<and> CompatibleResult env work plan r snap = None \<and>
    vr_Status r = ''pass'' \<and> cd_Result d = Some r \<and> retried' = retried \<and> s' = s"
  using assms unfolding guard_check_def guard_retry_def
  by (auto simp: Let_def split: if_splits option.splits sum.splits prod.splits)

lemma retry_once:
  assumes "guard_check env latest save now retried s mutating work plan snap = (Inr d, retried', s')"
    and "cd_Action d = ''retry''"
  shows "\<not> retried \<and> retried'"
  using assms unfolding guard_check_def guard_retry_def
  by (auto simp: Let_def split: if_splits option.splits sum.splits prod.splits)

lemma retried_stays:
  "guard_check env latest save now True s mutating work plan snap = (r, retried', s') \<Longrightarrow> retried'"
  unfolding guard_check_def guard_retry_def
  by (auto simp: Let_def split: if_splits option.splits sum.splits prod.splits)

text \<open>A surfaced decision always carries a valid result that does not pass.\<close>

lemma surfaced_result:
  assumes "guard_check env latest save now retried s mutating work plan snap = (Inr d, retried', s')"
    and "cd_Action d = ''surface''"
  shows "\<exists>r. cd_Result d = Some r \<and> validate_result r = None \<and> vr_Status r = cd_Status d \<and> cd_Status d \<noteq> ''pass''"
  using assms unfolding guard_check_def guard_retry_def
  by (auto simp: Let_def uncertainResult_def dest: latest_valid save_valid
    split: if_splits option.splits sum.splits prod.splits)

end

lemma result_latest_valid:
  assumes "result_latest env io sid st i = Inr r"
  shows "validate_result r = None \<and> vr_WorkSpecID r = i"
proof -
  from assms obtain kind where kind: "verificationResultArtifactKind env i = Inr kind"
    by (auto simp: result_latest_def bindE_eq_Inr)
  show ?thesis
  proof (cases "LoadLatestArtifactByKind env io st sid kind")
    case (Inl e)
    with assms kind show ?thesis by (simp add: result_latest_def)
  next
    case (Inr loaded)
    with assms kind show ?thesis
      by (cases loaded) (auto simp: result_latest_def split: option.splits if_splits)
  qed
qed

lemma result_save_valid: "result_save env io now sid run st r = (Inr u, st') \<Longrightarrow> validate_result r = None"
  by (auto simp: result_save_def split: option.splits)

interpretation ars: claim_store "result_latest env io sessionID"
    "\<lambda>st r. result_save env io' now sessionID runID st r"
  for env io io' now sessionID runID
  by unfold_locales (auto dest: result_latest_valid result_save_valid)

lemma worst_status_pass: "worst_status rs = ''pass'' \<Longrightarrow> r \<in> set rs \<Longrightarrow> res_Status r \<noteq> ''fail'' \<and> res_Status r \<noteq> ''uncertain''"
  by (auto simp: worst_status_def split: if_splits)

lemma compatible_pass:
  assumes "CompatibleResult env work plan r snap = None" and "vr_Status r = ''pass''"
  shows "\<forall>x \<in> set (vr_Criteria r). res_Status x = ''pass'' \<and> res_Evidence x \<noteq> []"
    and "\<forall>c \<in> set (ws_Criteria work). cr_Required c \<longrightarrow> cr_ID c \<in> res_CriterionID ` set (vr_Criteria r)"
proof -
  note compat = assms(1) [unfolded compatible_result_ref]
  have "validate_results [] (vr_Criteria r) = None" using compat validate_result_criteria by blast
  from validate_results_spec [OF this] compat assms(2)
  show "\<forall>x \<in> set (vr_Criteria r). res_Status x = ''pass'' \<and> res_Evidence x \<noteq> []"
    using worst_status_pass [of "vr_Criteria r"] by (auto simp: oneOf_def)
  show "\<forall>c \<in> set (ws_Criteria work). cr_Required c \<longrightarrow> cr_ID c \<in> res_CriterionID ` set (vr_Criteria r)"
    using compat by blast
qed

text \<open>C6. The guard never manufactures a pass: it allows the answer of a mutating run only if the
  session stores a valid verification result of this very plan, work revision and workspace snapshot,
  not older than the plan, in which every required criterion of the work, and every other criterion
  it mentions, passes with evidence.\<close>

theorem guard_allows_verified:
  assumes "guard_check env (result_latest env io sid) (result_save env io' now sid run) clock retried st True work plan snap
      = (Inr d, retried', st')"
    and "cd_Action d = ''allow''"
  shows "\<exists>r. result_latest env io sid st (ws_ID work) = Inr r \<and> validate_result r = None \<and>
    vr_PlanID r = vp_ID plan \<and> vr_RevisionID r = vp_RevisionID plan \<and> vr_SnapshotHash r = snap \<and>
    vp_CreatedAt plan \<le> vr_CompletedAt r \<and>
    (\<forall>x \<in> set (vr_Criteria r). res_Status x = ''pass'' \<and> res_Evidence x \<noteq> []) \<and>
    (\<forall>c \<in> set (ws_Criteria work). cr_Required c \<longrightarrow> cr_ID c \<in> res_CriterionID ` set (vr_Criteria r))"
proof -
  from ars.allow_compatible [OF assms] obtain r where r: "result_latest env io sid st (ws_ID work) = Inr r"
    "CompatibleResult env work plan r snap = None" "vr_Status r = ''pass''" by blast
  show ?thesis using r(1) r(2) [unfolded compatible_result_ref] compatible_pass [OF r(2,3)] by blast
qed

section \<open>Sequences of checks\<close>

text \<open>
  One guard serves a whole run: each call finds the store as others left it (\<open>gc_Others\<close>) and a
  clock of its own.
\<close>

record guard_call =
  gc_Others :: "artifacts \<Rightarrow> artifacts"
  gc_Load :: "claim_error option"
  gc_Save :: "claim_error option"
  gc_Clock :: time
  gc_Mutating :: bool
  gc_Work :: work_spec
  gc_Plan :: verification_plan
  gc_Snapshot :: string

fun guard_run ::
  "contract_env \<Rightarrow> string \<Rightarrow> string \<Rightarrow> bool \<Rightarrow> artifacts \<Rightarrow> guard_call list \<Rightarrow> (claim_error + final_decision) list" where
  "guard_run env sid run retried st [] = []"
| "guard_run env sid run retried st (c # cs) =
     (case guard_check env (result_latest env (gc_Load c) sid) (result_save env (gc_Save c) (gc_Clock c) sid run)
        (gc_Clock c) retried (gc_Others c st) (gc_Mutating c) (gc_Work c) (gc_Plan c) (gc_Snapshot c) of
        (r, retried', st') \<Rightarrow> r # guard_run env sid run retried' st' cs)"

definition is_retry :: "claim_error + final_decision \<Rightarrow> bool" where
  "is_retry r \<longleftrightarrow> (case r of Inr d \<Rightarrow> cd_Action d = ''retry'' | Inl _ \<Rightarrow> False)"

lemma guard_run_retries:
  "length (filter is_retry (guard_run env sid run retried st calls)) \<le> (if retried then 0 else 1)"
proof (induction calls arbitrary: retried st)
  case (Cons c cs)
  obtain r retried' st' where g: "guard_check env (result_latest env (gc_Load c) sid)
      (result_save env (gc_Save c) (gc_Clock c) sid run)
      (gc_Clock c) retried (gc_Others c st) (gc_Mutating c) (gc_Work c) (gc_Plan c) (gc_Snapshot c) = (r, retried', st')"
    by (cases rule: prod_cases3)
  have "retried \<Longrightarrow> retried'" using ars.retried_stays g by metis
  moreover have "\<not> retried \<and> retried'" if retry: "is_retry r"
  proof -
    from retry obtain d where "r = Inr d" "cd_Action d = ''retry''"
      by (cases r) (auto simp: is_retry_def)
    with g ars.retry_once show ?thesis by metis
  qed
  ultimately show ?case using Cons.IH [of retried' st'] g by (auto split: if_splits)
qed simp

text \<open>Whatever happens to the store between the calls, one guard asks for at most one
  verification retry in the whole run.\<close>

theorem guard_one_retry:
  "length (filter is_retry (guard_run env sid run False st calls)) \<le> 1"
  using guard_run_retries [of env sid run False st calls] by simp

section \<open>Uncertain results\<close>

lemma validate_ordered_ids:
  "validate_ordered seen cs = Inr seen' \<Longrightarrow> distinct (map cr_ID cs) \<and> (\<forall>c \<in> set cs. cr_ID c \<noteq> [] \<and> cr_ID c \<notin> set seen)"
proof (induction cs arbitrary: seen)
  case (Cons c cs)
  then have "validate_ordered (cr_ID c # seen) cs = Inr seen'" "cr_ID c \<noteq> []" "cr_ID c \<notin> set seen"
    by (auto split: if_splits option.splits)
  with Cons.IH [OF this(1)] show ?case by auto
qed simp

lemma validate_work_ids:
  assumes "validate_work env work = None"
  shows "distinct (map cr_ID (ws_Criteria work))" "\<forall>c \<in> set (ws_Criteria work). cr_ID c \<noteq> []"
    "ws_Criteria work \<noteq> []" "ws_ID work \<noteq> []"
  using assms validate_ordered_ids [of "[]" "ws_Criteria work"]
  by (auto simp: validate_work_def requireV1_def split: option.splits if_splits sum.splits)

lemma validate_results_uniform:
  "distinct (map cr_ID cs) \<Longrightarrow> \<forall>c \<in> set cs. cr_ID c \<noteq> [] \<and> cr_ID c \<notin> set seen \<Longrightarrow>
     oneOf status [''pass'', ''fail'', ''uncertain''] \<Longrightarrow> evidence \<noteq> [] \<Longrightarrow> validateCriterionSources evidence = None \<Longrightarrow>
     validate_results seen (map (\<lambda>c. \<lparr>res_CriterionID = cr_ID c, res_Status = status, res_Evidence = evidence,
       res_Reason = why\<rparr>) cs) = None"
proof (induction cs arbitrary: seen)
  case (Cons c cs)
  have "cr_ID c \<notin> cr_ID ` set cs" using Cons.prems(1) by simp
  then have "\<forall>x \<in> set cs. cr_ID x \<noteq> [] \<and> cr_ID x \<notin> set (cr_ID c # seen)"
    using Cons.prems(2) by (metis imageI list.set_intros(2) set_ConsD)
  with Cons.IH [of "cr_ID c # seen"] Cons.prems show ?case by simp
qed simp

lemma guardrail_source_valid:
  "validateCriterionSources [\<lparr>sr_Kind = ''guardrail'', sr_ID = ''missing_or_stale_verification'',
     sr_Range = [], sr_SHA256 = []\<rparr>] = None"
  by code_simp

lemma uncertainResult_valid:
  assumes "validate_work env work = None" "validate_plan env plan = None" "snapshot \<noteq> []" "now \<noteq> 0"
  shows "validate_result (uncertainResult env work plan snapshot now) = None"
proof -
  have "vp_ID plan \<noteq> []" "vp_RevisionID plan \<noteq> []"
    using assms(2) by (auto simp: validate_plan_def requireV1_def split: option.splits if_splits)
  moreover have "validate_results [] (vr_Criteria (uncertainResult env work plan snapshot now)) = None"
    unfolding uncertainResult_def using validate_work_ids [OF assms(1)] guardrail_source_valid
    by (simp add: validate_results_uniform oneOf_def)
  moreover have "oneOf (vr_Status (uncertainResult env work plan snapshot now)) [''pass'', ''fail'', ''uncertain'']"
    by (simp add: uncertainResult_def oneOf_def)
  ultimately show ?thesis
    using validate_work_ids [OF assms(1)] assms(3,4)
    by (simp add: validate_result_def requireV1_def uncertainResult_def IsZero_def)
qed

section \<open>Reading back\<close>

lemma latest_of_snoc_new:
  "\<forall>r \<in> set rs. art_CreatedAt r < art_CreatedAt n \<Longrightarrow> latest_of (rs @ [n]) = Some n"
  by (induction rs) (auto simp: row_after_def)

lemma put_then_latest:
  assumes put: "PutArtifact env io now st sid run kind payload = (Inr res, st')"
    and newer: "\<forall>r \<in> set (as_Rows st). art_SessionID r = sid \<and> art_Kind r = kind \<longrightarrow> art_CreatedAt r < now"
    and new: "\<forall>r \<in> set (as_Rows st). \<not> (art_SessionID r = sid \<and> art_Kind r = kind \<and> art_SHA256 r = ce_sha env payload)"
  shows "\<exists>row. LoadLatestArtifactByKind env None st' sid kind = Inr (row, payload)"
proof -
  let ?hash = "ce_sha env payload"
  let ?row = "\<lparr>art_ID = contextArtifactID env sid kind ?hash, art_SessionID = sid, art_RunID = run, art_Kind = kind,
    art_SHA256 = ?hash, art_CreatedAt = now\<rparr>"
  have no: "\<not> (\<exists>r \<in> set (as_Rows st). art_SessionID r = sid \<and> art_Kind r = kind \<and> art_SHA256 r = ?hash)"
    using new by blast
  from put no have st': "st' = \<lparr>as_Rows = as_Rows st @ [?row], as_Blobs = tput ?hash payload (as_Blobs st)\<rparr>"
    and ok: "\<not> blank sid" "\<not> blank kind" "int (length payload) \<le> maxContextArtifactPayloadBytes"
    by (auto simp: PutArtifact_def Let_def split: if_splits option.splits)
  have "latest_of (filter (\<lambda>r. art_SessionID r = sid \<and> art_Kind r = kind) (as_Rows st) @ [?row]) = Some ?row"
    by (rule latest_of_snoc_new) (use newer in auto)
  with ok show ?thesis by (simp add: LoadLatestArtifactByKind_def loadArtifactRow_def st')
qed

text \<open>A verification result that was saved is the one read for its work afterwards: the decoder
  undoes the encoder on it, its row is new, and the clock is past the rows already stored.\<close>

theorem result_store_roundtrip:
  assumes "ce_result_decode env (ce_result_json env r) = Some r"
    and "result_save env io now sid run st r = (Inr u, st')"
    and "\<forall>row \<in> set (as_Rows st). art_CreatedAt row < now \<and> art_SHA256 row \<noteq> ce_sha env (ce_result_json env r)"
  shows "result_latest env None sid st' (vr_WorkSpecID r) = Inr r"
proof -
  have valid: "validate_result r = None" by (rule result_save_valid [OF assms(2)])
  obtain kind where kind: "verificationResultArtifactKind env (vr_WorkSpecID r) = Inr kind"
    using assms(2) by (auto simp: result_save_def valid split: sum.splits)
  then obtain res where "PutArtifact env io now st sid run kind (ce_result_json env r) = (Inr res, st')"
    using assms(2) by (auto simp: result_save_def valid split: sum.splits prod.splits)
  from put_then_latest [OF this] assms(3) obtain row where
    "LoadLatestArtifactByKind env None st' sid kind = Inr (row, ce_result_json env r)" by blast
  with kind valid assms(1) show ?thesis by (simp add: result_latest_def)
qed

text \<open>Once the retry is spent, missing evidence never ends in silence: on valid contracts with no
  stored result the guard records an uncertain result for every criterion and has it surfaced, unless
  the store itself fails.\<close>

theorem guard_surfaces_missing:
  assumes "validate_work env work = None" "validate_plan env plan = None" "plan_known work plan"
    and "vp_WorkSpecID plan = ws_ID work" "snap \<noteq> []" "clock \<noteq> 0"
    and "result_latest env io sid st (ws_ID work) = Inl ErrNoVerificationResult"
    and "guard_check env (result_latest env io sid) (result_save env io' now sid run) clock True st True work plan snap
      = (outcome, retried', st')"
  shows "(\<exists>e. outcome = Inl e \<and> result_save env io' now sid run st (uncertainResult env work plan snap clock) = (Inl e, st')) \<or>
    (\<exists>d. outcome = Inr d \<and> cd_Action d = ''surface'' \<and> cd_Status d = ''uncertain'' \<and>
       cd_Result d = Some (uncertainResult env work plan snap clock) \<and>
       validate_result (uncertainResult env work plan snap clock) = None \<and>
       result_save env io' now sid run st (uncertainResult env work plan snap clock) = (Inr (), st'))"
  using assms(8) assms(3-5) assms(7) validate_work_ids(3) [OF assms(1)]
    uncertainResult_valid [OF assms(1,2,5,6)] assms(1,2)
  by (auto simp: guard_check_def guard_retry_def Let_def split: sum.splits prod.splits)

section \<open>A guarded run\<close>

definition ex_work :: work_spec where
  "ex_work = \<lparr>ws_Version = 1, ws_ID = ''work:aaaaaaaaaaaaaaaa'', ws_SessionID = ''s'', ws_RunID = ''r'',
     ws_Goal = ''ship'', ws_ApprovedPlanID = [],
     ws_Criteria = [\<lparr>cr_ID = ''u'', cr_Text = ''tests'', cr_Origin = ''explicit'', cr_Required = True, cr_Sources = []\<rparr>],
     ws_Constraints = [], ws_AllowedSideEffects = [], ws_CreatedAt = 7\<rparr>"

definition ex_plan :: verification_plan where
  "ex_plan = \<lparr>vp_Version = 1, vp_ID = ''verification:aaaaaaaaaaaaaaaa'', vp_WorkSpecID = ''work:aaaaaaaaaaaaaaaa'',
     vp_RevisionID = ''rev'', vp_SnapshotHash = ''snap'', vp_Checks = [\<lparr>vc_ID = ''criterion:u'', vc_CriterionIDs = [''u''],
       vc_Kind = ''criterion'', vc_Command = [], vc_CWD = [], vc_Environment = [], vc_ArtifactRef = [], vc_TimeoutMS = 0\<rparr>],
     vp_CreatedAt = 7\<rparr>"

definition ex_pass_result :: verification_result where
  "ex_pass_result = \<lparr>vr_Version = 1, vr_ID = ''result'', vr_PlanID = ''verification:aaaaaaaaaaaaaaaa'',
     vr_WorkSpecID = ''work:aaaaaaaaaaaaaaaa'', vr_RevisionID = ''rev'', vr_SnapshotHash = ''snap'', vr_Status = ''pass'',
     vr_Criteria = [\<lparr>res_CriterionID = ''u'', res_Status = ''pass'',
       res_Evidence = [\<lparr>sr_Kind = ''tool_record'', sr_ID = ''r:1'', sr_Range = [], sr_SHA256 = []\<rparr>], res_Reason = []\<rparr>],
     vr_CompletedAt = 9\<rparr>"

definition ex_guard_env :: contract_env where
  "ex_guard_env = ex_contract_env\<lparr>ce_result_decode := (\<lambda>_. Some ex_pass_result)\<rparr>"

definition ex_saved :: "(claim_error + unit) \<times> artifacts" where
  "ex_saved = result_save ex_guard_env None 10 ''s'' ''r'' \<lparr>as_Rows = [], as_Blobs = []\<rparr> ex_pass_result"

definition ex_guarded :: "(claim_error + final_decision) \<times> bool \<times> artifacts" where
  "ex_guarded = guard_check ex_guard_env (result_latest ex_guard_env None ''s'')
     (result_save ex_guard_env None 11 ''s'' ''r'') 11 False (snd ex_saved) True ex_work ex_plan ''snap''"

definition ex_surfaced :: "(claim_error + final_decision) \<times> bool \<times> artifacts" where
  "ex_surfaced = guard_check ex_guard_env (result_latest ex_guard_env None ''s'')
     (result_save ex_guard_env None 11 ''s'' ''r'') 11 True \<lparr>as_Rows = [], as_Blobs = []\<rparr> True ex_work ex_plan ''snap''"

lemma ex_saved_ok: "case ex_saved of (Inr _, _) \<Rightarrow> True | _ \<Rightarrow> False"
  by code_simp

lemma ex_guarded_ok: "case ex_guarded of (Inr d, _, _) \<Rightarrow> cd_Action d = ''allow'' | _ \<Rightarrow> False"
  by code_simp

lemma ex_surfaced_ok: "case ex_surfaced of (Inr d, _, _) \<Rightarrow> cd_Action d = ''surface'' | _ \<Rightarrow> False"
  by code_simp

theorem guard_allows_verified_witness:
  "\<exists>d retried' st' r. ex_guarded = (Inr d, retried', st') \<and>
     result_latest ex_guard_env None ''s'' (snd ex_saved) (ws_ID ex_work) = Inr r \<and>
     list_all (\<lambda>x. res_Status x = ''pass'') (vr_Criteria r)"
proof -
  obtain d retried' st' where g: "ex_guarded = (Inr d, retried', st')" "cd_Action d = ''allow''"
    using ex_guarded_ok by (auto split: prod.splits sum.splits)
  from guard_allows_verified [OF g(1) [unfolded ex_guarded_def] g(2)] g(1) show ?thesis unfolding list_all_iff by blast
qed

theorem result_store_roundtrip_witness:
  "\<exists>st'. ex_saved = (Inr (), st') \<and>
     result_latest ex_guard_env None ''s'' st' (vr_WorkSpecID ex_pass_result) = Inr ex_pass_result"
proof -
  obtain st' where s: "ex_saved = (Inr (), st')" using ex_saved_ok by (auto split: prod.splits sum.splits)
  have "result_latest ex_guard_env None ''s'' st' (vr_WorkSpecID ex_pass_result) = Inr ex_pass_result"
    by (rule result_store_roundtrip [OF _ s [unfolded ex_saved_def]]) (simp_all add: ex_guard_env_def)
  with s show ?thesis by blast
qed

theorem guard_surfaces_missing_witness:
  "\<exists>outcome retried' st'. ex_surfaced = (outcome, retried', st') \<and>
     ((\<exists>e. outcome = Inl e) \<or> (\<exists>d. outcome = Inr d \<and> cd_Action d = ''surface''))"
proof -
  obtain outcome retried' st' where s: "ex_surfaced = (outcome, retried', st')" by (rule prod_cases3)
  have "validate_work ex_guard_env ex_work = None" "validate_plan ex_guard_env ex_plan = None"
    "plan_known ex_work ex_plan" "vp_WorkSpecID ex_plan = ws_ID ex_work"
    "result_latest ex_guard_env None ''s'' \<lparr>as_Rows = [], as_Blobs = []\<rparr> (ws_ID ex_work) = Inl ErrNoVerificationResult"
    by code_simp+
  from guard_surfaces_missing [OF this(1-4) _ _ this(5) s [unfolded ex_surfaced_def]] s show ?thesis by auto
qed

lemma guard_one_retry_example:
  "map is_retry (guard_run ex_guard_env ''s'' ''r'' False \<lparr>as_Rows = [], as_Blobs = []\<rparr>
     (replicate 3 \<lparr>gc_Others = (\<lambda>st. st), gc_Load = None, gc_Save = None, gc_Clock = 11, gc_Mutating = True,
       gc_Work = ex_work, gc_Plan = ex_plan, gc_Snapshot = ''snap''\<rparr>)) = [True, False, False]"
  by code_simp

end
