(* ===== verification/Revision_Store.thy ===== *)
theory Revision_Store
  imports Work_Revision Claim_Guard
begin

text \<open>
  The durable store of work revisions and of what is bound to them, \<^verbatim>\<open>internal/workrevision/store.go\<close>,
  on the context artifacts: intents, observations, plans and dispositions are stored only against the
  latest durable revision of the session.

  \<open>lio\<close> and \<open>pio\<close> are the errors of loading and of storing, when there are any.
\<close>

section \<open>Artifacts by prefix\<close>

text \<open>\<^verbatim>\<open>kind LIKE prefix || '%'\<close>: an underscore of the prefix matches any character, and ASCII
  letters match in either case.\<close>

fun like_prefix :: "string \<Rightarrow> string \<Rightarrow> bool" where
  "like_prefix [] text = True"
| "like_prefix (c # cs) [] = False"
| "like_prefix (c # cs) (d # ds) = ((c = CHR ''_'' \<or> lower_char c = lower_char d) \<and> like_prefix cs ds)"

definition LoadLatestArtifactByKindPrefix ::
  "contract_env \<Rightarrow> claim_error option \<Rightarrow> artifacts \<Rightarrow> string \<Rightarrow> string \<Rightarrow> claim_error + artifact \<times> string" where
  "LoadLatestArtifactByKindPrefix env lio st sessionID kindPrefix =
     (if blank sessionID \<or> blank kindPrefix then Inl (ClaimError ''session id and artifact kind prefix are required'')
      else case lio of Some e \<Rightarrow> Inl e
      | None \<Rightarrow> (case latest_of (filter (\<lambda>r. art_SessionID r = sessionID \<and> like_prefix kindPrefix (art_Kind r)) (as_Rows st)) of
          None \<Rightarrow> Inl ErrContextArtifactNotFound
        | Some row \<Rightarrow> loadArtifactRow env st row))"

section \<open>Revisions\<close>

definition shortID :: "contract_env \<Rightarrow> string \<Rightarrow> string" where
  "shortID env text = take 24 (ce_sha env (ce_string_json env text))"

definition revisionArtifactPrefix :: string where
  "revisionArtifactPrefix = InternalArtifactKindPrefix @ ''work_revision_v1:''"

definition revisionArtifactKind :: "contract_env \<Rightarrow> string \<Rightarrow> string" where
  "revisionArtifactKind env revisionID = revisionArtifactPrefix @ shortID env revisionID"

definition decodeRevision :: "contract_env \<Rightarrow> string \<Rightarrow> string \<Rightarrow> string \<Rightarrow> claim_error + work_revision" where
  "decodeRevision env sid payload expectedID =
     (case ce_revision_decode env payload of
        None \<Rightarrow> Inl (ClaimError ''work revision: decode artifact'')
      | Some revision \<Rightarrow> (case validate_revision env revision of
          Some e \<Rightarrow> Inl e
        | None \<Rightarrow>
            if wr_SessionID revision \<noteq> sid \<or> (expectedID \<noteq> [] \<and> wr_ID revision \<noteq> expectedID)
            then Inl (ClaimError ''work revision: artifact identity mismatch'') else Inr revision))"

definition LatestRevision :: "contract_env \<Rightarrow> claim_error option \<Rightarrow> string \<Rightarrow> artifacts \<Rightarrow> claim_error + work_revision" where
  "LatestRevision env lio sid st =
     bindE (LoadLatestArtifactByKindPrefix env lio st sid revisionArtifactPrefix)
       (\<lambda>(row, payload). decodeRevision env sid payload [])"

definition Revision ::
  "contract_env \<Rightarrow> claim_error option \<Rightarrow> string \<Rightarrow> artifacts \<Rightarrow> string \<Rightarrow> claim_error + work_revision" where
  "Revision env lio sid st revisionID =
     (if blank revisionID then Inl (ClaimError ''work revision: revision id is required'')
      else bindE (LoadLatestArtifactByKind env lio st sid (revisionArtifactKind env revisionID))
        (\<lambda>(row, payload). decodeRevision env sid payload revisionID))"

text \<open>\<^verbatim>\<open>save\<close>: the value was found valid and encoded.\<close>

definition store_save ::
  "contract_env \<Rightarrow> claim_error option \<Rightarrow> time \<Rightarrow> string \<Rightarrow> string \<Rightarrow> string \<Rightarrow> claim_error option \<Rightarrow> string \<Rightarrow>
     artifacts \<Rightarrow> (claim_error + unit) \<times> artifacts" where
  "store_save env pio now sid run kind invalid payload st =
     (case invalid of Some e \<Rightarrow> (Inl e, st)
      | None \<Rightarrow> (case PutArtifact env pio now st sid run kind payload of
          (Inl e, st') \<Rightarrow> (Inl e, st')
        | (Inr _, st') \<Rightarrow> (Inr (), st')))"

definition SaveRevision ::
  "contract_env \<Rightarrow> claim_error option \<Rightarrow> time \<Rightarrow> string \<Rightarrow> string \<Rightarrow> work_revision \<Rightarrow> artifacts \<Rightarrow>
     (claim_error + unit) \<times> artifacts" where
  "SaveRevision env pio now sid run revision st =
     (if wr_SessionID revision \<noteq> sid \<or> validate_revision env revision \<noteq> None
      then (Inl (ClaimError ''work revision: invalid revision for session''), st)
      else store_save env pio now sid run (revisionArtifactKind env (wr_ID revision))
        (validate_revision env revision) (ce_revision_json env revision) st)"

definition requireCurrentRevision ::
  "contract_env \<Rightarrow> claim_error option \<Rightarrow> string \<Rightarrow> artifacts \<Rightarrow> string \<Rightarrow> string \<Rightarrow> claim_error + unit" where
  "requireCurrentRevision env lio sid st revisionID snapshotHash =
     bindE (LatestRevision env lio sid st) (\<lambda>current.
       if revisionID = [] \<or> revisionID \<noteq> wr_ID current \<or> (snapshotHash \<noteq> [] \<and> snapshotHash \<noteq> wr_SnapshotHash current)
       then Inl (ClaimError ''work revision: artifact is stale relative to latest durable revision'') else Inr ())"

text \<open>What is common to the four bound values: the guards, then the current revision, then the save.\<close>

definition save_bound ::
  "contract_env \<Rightarrow> claim_error option \<Rightarrow> claim_error option \<Rightarrow> time \<Rightarrow> string \<Rightarrow> string \<Rightarrow> string \<times> string \<Rightarrow>
     string \<Rightarrow> claim_error option \<Rightarrow> string \<Rightarrow> artifacts \<Rightarrow> (claim_error + unit) \<times> artifacts" where
  "save_bound env lio pio now sid run bound kind invalid payload st =
     (case requireCurrentRevision env lio sid st (fst bound) (snd bound) of
        Inl e \<Rightarrow> (Inl e, st)
      | Inr _ \<Rightarrow> store_save env pio now sid run (InternalArtifactKindPrefix @ kind) invalid payload st)"

definition SaveIntent ::
  "contract_env \<Rightarrow> claim_error option \<Rightarrow> claim_error option \<Rightarrow> time \<Rightarrow> string \<Rightarrow> string \<Rightarrow> action_intent \<Rightarrow> artifacts \<Rightarrow>
     (claim_error + unit) \<times> artifacts" where
  "SaveIntent env lio pio now sid run intent st =
     (if ai_SessionID intent \<noteq> sid \<or> ai_RunID intent \<noteq> run
      then (Inl (ClaimError ''work revision: intent is not bound to this run''), st)
      else save_bound env lio pio now sid run (ai_RevisionID intent, ai_SnapshotHash intent)
        (''action_intent_v1:'' @ shortID env (ai_ID intent)) (validate_intent intent) (ce_intent_json env intent) st)"

definition SaveObservation ::
  "contract_env \<Rightarrow> claim_error option \<Rightarrow> claim_error option \<Rightarrow> time \<Rightarrow> string \<Rightarrow> string \<Rightarrow> observation_envelope \<Rightarrow> artifacts \<Rightarrow>
     (claim_error + unit) \<times> artifacts" where
  "SaveObservation env lio pio now sid run obs st =
     (if oe_SessionID obs \<noteq> sid \<or> oe_RunID obs \<noteq> run
      then (Inl (ClaimError ''work revision: observation is not bound to this run''), st)
      else save_bound env lio pio now sid run (oe_RevisionID obs, oe_SnapshotHash obs)
        (''observation_envelope_v1:'' @ shortID env (oe_ID obs)) (validate_observation obs) (ce_observation_json env obs) st)"

definition SaveVerificationPlan ::
  "contract_env \<Rightarrow> claim_error option \<Rightarrow> claim_error option \<Rightarrow> time \<Rightarrow> string \<Rightarrow> string \<Rightarrow> verification_plan \<Rightarrow> artifacts \<Rightarrow>
     (claim_error + unit) \<times> artifacts" where
  "SaveVerificationPlan env lio pio now sid run plan st =
     (if vp_RevisionID plan = [] \<or> vp_SnapshotHash plan = []
      then (Inl (ClaimError ''work revision: verification plan is unbound''), st)
      else save_bound env lio pio now sid run (vp_RevisionID plan, vp_SnapshotHash plan)
        (''verification_plan_v1:'' @ shortID env (vp_ID plan)) (validate_plan env plan) (ce_plan_json env plan) st)"

definition Intent ::
  "contract_env \<Rightarrow> claim_error option \<Rightarrow> string \<Rightarrow> string \<Rightarrow> artifacts \<Rightarrow> string \<Rightarrow> claim_error + action_intent" where
  "Intent env lio sid run st intentID =
     bindE (LoadLatestArtifactByKind env lio st sid (InternalArtifactKindPrefix @ ''action_intent_v1:'' @ shortID env intentID))
       (\<lambda>(row, payload). case ce_intent_decode env payload of
          None \<Rightarrow> Inl (ClaimError ''work revision: decode intent payload'')
        | Some intent \<Rightarrow>
            if ai_ID intent \<noteq> intentID \<or> ai_SessionID intent \<noteq> sid \<or> ai_RunID intent \<noteq> run
            then Inl (ClaimError ''work revision: intent payload is not bound to this session and run'') else Inr intent)"

definition BindIntent :: "contract_env \<Rightarrow> work_revision \<Rightarrow> action_intent \<Rightarrow> claim_error + action_intent" where
  "BindIntent env revision intent =
     (case validate_revision env revision of Some e \<Rightarrow> Inl e
      | None \<Rightarrow>
          if ai_SessionID intent \<noteq> wr_SessionID revision then Inl (ClaimError ''work revision: intent session mismatch'')
          else let bound = intent\<lparr>ai_RevisionID := wr_ID revision, ai_SnapshotHash := wr_SnapshotHash revision\<rparr>
            in case validate_intent bound of Some e \<Rightarrow> Inl e | None \<Rightarrow> Inr bound)"

definition SaveDisposition ::
  "contract_env \<Rightarrow> (disposition \<Rightarrow> string) \<Rightarrow> claim_error option \<Rightarrow> claim_error option \<Rightarrow> time \<Rightarrow> string \<Rightarrow> string \<Rightarrow>
     disposition \<Rightarrow> artifacts \<Rightarrow> (claim_error + unit) \<times> artifacts" where
  "SaveDisposition env json lio pio now sid run d st =
     (case validate_disposition d of Some e \<Rightarrow> (Inl e, st) | None \<Rightarrow>
      case requireCurrentRevision env lio sid st (di_CurrentRevisionID d) [] of Inl e \<Rightarrow> (Inl e, st) | Inr _ \<Rightarrow>
      case Revision env lio sid st (di_SourceRevisionID d) of Inl e \<Rightarrow> (Inl e, st) | Inr _ \<Rightarrow>
      case Intent env lio sid run st (di_IntentID d) of Inl e \<Rightarrow> (Inl e, st) | Inr _ \<Rightarrow>
      store_save env pio now sid run (InternalArtifactKindPrefix @ ''work_disposition_v1:'' @ shortID env (di_IntentID d))
        (validate_disposition d) (json d) st)"

section \<open>Persisting the contracts of a run\<close>

definition shortEvidenceHash :: "contract_env \<Rightarrow> string \<Rightarrow> string" where
  "shortEvidenceHash env text = take 24 (ce_sha env text)"

definition putEvidenceArtifactIfChanged ::
  "contract_env \<Rightarrow> claim_error option \<Rightarrow> claim_error option \<Rightarrow> time \<Rightarrow> string \<Rightarrow> string \<Rightarrow> string \<Rightarrow> string \<Rightarrow> artifacts \<Rightarrow>
     (claim_error + unit) \<times> artifacts" where
  "putEvidenceArtifactIfChanged env lio pio now sid run kind payload st =
     (case LoadLatestArtifactByKind env lio st sid kind of
        Inr (row, current) \<Rightarrow> if current = payload then (Inr (), st)
          else (case PutArtifact env pio now st sid run kind payload of
            (Inl e, st') \<Rightarrow> (Inl e, st') | (Inr _, st') \<Rightarrow> (Inr (), st'))
      | Inl e \<Rightarrow> if e \<noteq> ErrContextArtifactNotFound then (Inl e, st)
          else (case PutArtifact env pio now st sid run kind payload of
            (Inl e, st') \<Rightarrow> (Inl e, st') | (Inr _, st') \<Rightarrow> (Inr (), st')))"

definition then_do ::
  "(claim_error + unit) \<times> 's \<Rightarrow> ('s \<Rightarrow> (claim_error + unit) \<times> 's) \<Rightarrow> (claim_error + unit) \<times> 's" where
  "then_do r f = (case r of (Inl e, s) \<Rightarrow> (Inl e, s) | (Inr _, s) \<Rightarrow> f s)"

definition persistRuntimeContracts ::
  "contract_env \<Rightarrow> claim_error option \<Rightarrow> claim_error option \<Rightarrow> time \<Rightarrow> string \<Rightarrow> string \<Rightarrow>
     work_spec \<Rightarrow> work_revision \<Rightarrow> verification_plan \<Rightarrow> artifacts \<Rightarrow> (claim_error + unit) \<times> artifacts" where
  "persistRuntimeContracts env lio pio now sid run work revision plan st =
     (if blank sid \<or> blank run then (Inl (ClaimError ''work revision: store requires session service, session id, and run id''), st)
      else then_do (then_do (then_do
        (case LatestRevision env lio sid st of
           Inr latest \<Rightarrow> if wr_ID latest \<noteq> wr_ID revision then SaveRevision env pio now sid run revision st else (Inr (), st)
         | Inl _ \<Rightarrow> SaveRevision env pio now sid run revision st)
        (putEvidenceArtifactIfChanged env lio pio now sid run
          (InternalArtifactKindPrefix @ ''work_spec_v1:'' @ shortEvidenceHash env (ws_ID work)) (ce_spec_json env work)))
        (SaveVerificationPlan env lio pio now sid run plan))
        (putEvidenceArtifactIfChanged env lio pio now sid run
          (InternalArtifactKindPrefix @ ''verification_plan_v1_live:'' @ shortEvidenceHash env (vp_ID plan)) (ce_plan_json env plan)))"

section \<open>Only against the latest revision\<close>

lemma LatestRevision_valid:
  "LatestRevision env lio sid st = Inr revision \<Longrightarrow> validate_revision env revision = None \<and> wr_SessionID revision = sid"
  by (auto simp: LatestRevision_def decodeRevision_def bindE_eq_Inr split: prod.splits option.splits if_splits)

lemma save_bound_current:
  assumes "save_bound env lio pio now sid run bound kind invalid payload st = (Inr u, st')"
  shows "\<exists>current. LatestRevision env lio sid st = Inr current \<and> fst bound = wr_ID current \<and>
    (snd bound = [] \<or> snd bound = wr_SnapshotHash current) \<and> invalid = None"
proof -
  from assms obtain v where r: "requireCurrentRevision env lio sid st (fst bound) (snd bound) = Inr v"
    by (auto simp: save_bound_def split: sum.splits)
  with assms have "invalid = None"
    by (auto simp: save_bound_def store_save_def split: option.splits)
  with r show ?thesis
    by (auto simp: requireCurrentRevision_def bindE_eq_Inr split: if_splits)
qed

end
