(* ===== verification/Work_Evidence.thy ===== *)
theory Work_Evidence
  imports Check_Selection Revision_Store
begin

text \<open>
  The evidence of a running agent, \<^verbatim>\<open>internal/app/work_evidence.go\<close>: the snapshot of goal, Todo, files
  and tool records, the evaluation of the selected checks against the records, and the output
  guardrail that composes them with the guard of final claims.

  The JSON fields the code reads from a tool record, the hashing of a workspace file and the presence
  of git metadata are arguments (\<open>evidence_env\<close>), as are the files of the workspace.
\<close>

section \<open>Data\<close>

record file_obs =
  ob_Path :: string
  ob_Operation :: string
  ob_SHA256 :: string

record tool_record =
  tr_RunID :: string
  tr_ToolCallID :: string
  tr_Name :: string
  tr_Arguments :: string
  tr_State :: string
  tr_Content :: string
  tr_Structured :: string
  tr_Observations :: "file_obs list"
  tr_StartedAt :: time
  tr_CompletedAt :: time

record block =
  bk_Sequence :: int
  bk_RunID :: string
  bk_Kind :: string
  bk_Content :: string

datatype hash_outcome = Hashed string | NotExist | HashFailed

record evidence_env =
  ev_contract :: contract_env
  ev_command_arg :: "string \<Rightarrow> string option"
  ev_go_test_args :: "string \<Rightarrow> (string list \<times> (string \<times> string) list) option"
  ev_output :: "string \<Rightarrow> string option"
  ev_kind :: "string \<Rightarrow> string option"
  ev_sections :: "string \<Rightarrow> nat option"
  ev_changed :: "string \<Rightarrow> bool option option"
  ev_path :: "string \<Rightarrow> string option"
  ev_hash :: "string \<Rightarrow> int \<Rightarrow> int \<Rightarrow> hash_outcome \<times> int \<times> int"
  ev_workspace :: workspace_env
  ev_root :: string
  ev_git :: bool

record evidence_snapshot =
  es_work :: work_spec
  es_revision :: work_revision
  es_plan :: verification_plan
  es_todo :: todo_list
  es_records :: "tool_record list"
  es_goalSource :: source_ref
  es_mutating :: bool
  es_latestMutationAt :: time
  es_captureErrors :: "string list"

record check_state =
  ch_status :: string
  ch_missing :: "string list"
  ch_failed :: "string list"
  ch_evidence :: "source_ref list"

section \<open>Deriving the snapshot\<close>

definition no_block :: block where
  "no_block = \<lparr>bk_Sequence = 0, bk_RunID = [], bk_Kind = [], bk_Content = []\<rparr>"

definition is_user :: "block \<Rightarrow> bool" where
  "is_user b \<longleftrightarrow> bk_Kind b = ''user''"

definition runtimeGoal :: "block list \<Rightarrow> string \<Rightarrow> string \<times> source_ref \<times> int" where
  "runtimeGoal blocks runID =
     (let latestUserSequence = fold (\<lambda>b m. if is_user b \<and> bk_Sequence b > m then bk_Sequence b else m) blocks 0;
          goal = fold (\<lambda>b g. if is_user b \<and> bk_RunID b = runID \<and> \<not> blank (bk_Content b) then b else g) blocks no_block;
          goal = (if blank (bk_Content goal)
            then (case List.find (\<lambda>b. is_user b \<and> \<not> blank (bk_Content b)) (rev blocks) of Some b \<Rightarrow> b | None \<Rightarrow> goal)
            else goal)
      in if blank (bk_Content goal)
         then (''Complete run '' @ runID, \<lparr>sr_Kind = ''run'', sr_ID = runID, sr_Range = [], sr_SHA256 = []\<rparr>, latestUserSequence)
         else (TrimSpace (bk_Content goal),
           \<lparr>sr_Kind = ''session_block'', sr_ID = FormatInt (bk_Sequence goal), sr_Range = [], sr_SHA256 = []\<rparr>, latestUserSequence))"

definition recordsForRuns :: "tool_record list \<Rightarrow> string list \<Rightarrow> tool_record list" where
  "recordsForRuns records runIDs =
     sort_key (\<lambda>r. (tr_StartedAt r, tr_ToolCallID r))
       (filter (\<lambda>r. tr_RunID r \<noteq> [] \<and> tr_RunID r \<in> set runIDs) records)"

definition toolRecordMutated :: "evidence_env \<Rightarrow> tool_record \<Rightarrow> bool" where
  "toolRecordMutated env record \<longleftrightarrow>
     (if tr_Name record \<in> set [''coding.edit_hashline'', ''coding.replace'', ''coding.write_file'', ''coding.delete_file'',
          ''generate_image'', ''tts''] then True
      else if tr_Name record = ''ast_edit''
      then (case ev_sections env (tr_Structured record) of Some n \<Rightarrow> n > 0 | None \<Rightarrow> False)
      else if tr_Name record = ''coding.gofmt''
      then (case ev_changed env (tr_Structured record) of
          Some (Some changed) \<Rightarrow> changed
        | _ \<Rightarrow> \<not> Contains (ce_lower (ev_contract env) (tr_Content record)) ''already formatted'')
      else False)"

definition fileObservationMutated :: "file_obs \<Rightarrow> bool \<Rightarrow> bool" where
  "fileObservationMutated ob recordMutated \<longleftrightarrow>
     (if ob_Operation ob = ''read'' then False else if ob_Operation ob = ''format'' then recordMutated else True)"

definition isDirectoryRead :: "evidence_env \<Rightarrow> tool_record \<Rightarrow> bool" where
  "isDirectoryRead env record \<longleftrightarrow> tr_Name record = ''coding.read_file'' \<and> ev_kind env (tr_Structured record) = Some ''directory''"

text \<open>Who owns a path (observed, touched), whether anything mutated, and when last.\<close>

type_synonym ownership = "(string, bool \<times> bool) table \<times> bool \<times> time"

definition own_observation :: "tool_record \<Rightarrow> bool \<Rightarrow> file_obs \<Rightarrow> ownership \<Rightarrow> ownership" where
  "own_observation record recordMutated ob st =
     (let (owned, mutating, latest) = st; path = clean_path (ob_Path ob) in
      if unsafe_path path then st
      else let (observed, touched) = (case tget owned path of Some e \<Rightarrow> e | None \<Rightarrow> (False, False)) in
        if \<not> fileObservationMutated ob recordMutated then (tput path (True, touched) owned, mutating, latest)
        else (tput path (observed, True) owned, True, max latest (tr_CompletedAt record)))"

definition own_record :: "evidence_env \<Rightarrow> tool_record \<Rightarrow> ownership \<Rightarrow> ownership" where
  "own_record env record st =
     (if tr_State record \<noteq> ''completed'' \<or> isDirectoryRead env record then st
      else let recordMutated = toolRecordMutated env record; (owned, mutating, latest) = st in
        fold (own_observation record recordMutated) (tr_Observations record)
          (if recordMutated then (owned, True, max latest (tr_CompletedAt record)) else (owned, mutating, latest)))"

fun hash_files ::
  "evidence_env \<Rightarrow> (string \<times> bool \<times> bool) list \<Rightarrow> int \<Rightarrow> int \<Rightarrow> revision_file list \<times> string list" where
  "hash_files env [] remaining media = ([], [])"
| "hash_files env ((path, observed, touched) # rest) remaining media =
     (let (outcome, remaining', media') = ev_hash env path remaining media;
          (files, errors) = hash_files env rest remaining' media'
      in case outcome of
           HashFailed \<Rightarrow> (files, (''Capture current bytes for '' @ path) # errors)
         | Hashed digest \<Rightarrow> (\<lparr>rf_Path = path, rf_SHA256 = digest, rf_Observed = observed, rf_Touched = touched\<rparr> # files, errors)
         | NotExist \<Rightarrow> (\<lparr>rf_Path = path, rf_SHA256 = ce_sha (ev_contract env) (''deleted'' @ [CHR 0x00] @ path),
             rf_Observed = observed, rf_Touched = touched\<rparr> # files, errors))"

definition maxWorkspaceTotalBytes :: int where
  "maxWorkspaceTotalBytes = 8 * 1024 * 1024"

definition runtimeRevisionFiles ::
  "evidence_env \<Rightarrow> tool_record list \<Rightarrow> revision_file list \<times> bool \<times> time \<times> string list" where
  "runtimeRevisionFiles env records =
     (let (owned, mutating, latest) = fold (own_record env) records ([], False, 0);
          (files, errors) = hash_files env (sort_key fst owned) maxWorkspaceTotalBytes (32 * 1024 * 1024)
      in (files, mutating, latest, errors))"

definition plan_criteria :: "verification_plan \<Rightarrow> string list" where
  "plan_criteria plan = rev (remdups (rev (concat (map vc_CriterionIDs (vp_Checks plan)))))"

definition readback_check :: "string list \<Rightarrow> string \<Rightarrow> verification_check" where
  "readback_check criterionIDs path = \<lparr>vc_ID = ''readback:'' @ path, vc_CriterionIDs = criterionIDs, vc_Kind = ''artifact'',
     vc_Command = [], vc_CWD = [], vc_Environment = [], vc_ArtifactRef = ''file:'' @ path, vc_TimeoutMS = 0\<rparr>"

definition addRuntimeReadbackChecks :: "bool \<Rightarrow> verification_plan \<Rightarrow> revision_file list \<Rightarrow> verification_plan" where
  "addRuntimeReadbackChecks git plan files =
     (let criterionIDs = plan_criteria plan;
          touched = map rf_Path (filter rf_Touched files);
          checks = rev (map (readback_check criterionIDs) touched) @ vp_Checks plan;
          gitCheck = \<lparr>vc_ID = ''git-diff-check'', vc_CriterionIDs = criterionIDs, vc_Kind = ''command'',
            vc_Command = [''git'', ''diff'', ''--check'', ''--''] @ touched, vc_CWD = [], vc_Environment = [],
            vc_ArtifactRef = [], vc_TimeoutMS = 60000\<rparr>
      in plan\<lparr>vp_Checks := if length touched > 0 \<and> git then gitCheck # checks else checks\<rparr>)"

record projection =
  pj_Blocks :: "block list"
  pj_ToolRecords :: "tool_record list"
  pj_CreatedAt :: time

text \<open>\<open>clock\<close> gives the two readings of \<^verbatim>\<open>time.Now\<close>: for a session without a creation time, and for the
  revision, which is also the creation time of the plan.\<close>

definition deriveRuntimeEvidence ::
  "evidence_env \<Rightarrow> time \<times> time \<Rightarrow> projection \<Rightarrow> todo_list \<Rightarrow> string \<Rightarrow> string \<Rightarrow> string list \<Rightarrow>
     claim_error + evidence_snapshot" where
  "deriveRuntimeEvidence env clock pj todo sessionID runID relatedRunIDs =
     (let (goal, goalSource, sequence) = runtimeGoal (pj_Blocks pj) runID;
          createdAt = (if IsZero (pj_CreatedAt pj) then fst clock else pj_CreatedAt pj);
          input = \<lparr>in_SessionID = sessionID, in_RunID = runID, in_Goal = goal, in_GoalSource = goalSource,
            in_ApprovedPlanID = [], in_UserCriteria = [], in_PlanCriteria = [], in_InferredCriteria = [], in_Todo = todo,
            in_RevisionID = ''pending'', in_SnapshotHash = ''pending'', in_CreatedAt = createdAt\<rparr>
      in bindE (CompileCriteria (ev_contract env) input) (\<lambda>(placeholderWork, _).
         let records = recordsForRuns (pj_ToolRecords pj) relatedRunIDs;
             (files, mutating, latestMutationAt, captureErrors) = runtimeRevisionFiles env records
         in bindE (Derive (ev_contract env) \<lparr>dr_SessionID = sessionID, dr_CanonicalUserSequence = sequence,
              dr_TodoRevision = todo_Revision todo, dr_SemanticRevision = 0, dr_ApprovedPlanID = [],
              dr_ExplicitConstraints = ws_Criteria placeholderWork, dr_GitHEAD = [], dr_Files = files,
              dr_CreatedAt = snd clock\<rparr>) (\<lambda>revision.
         bindE (CompileCriteria (ev_contract env)
           (input\<lparr>in_RevisionID := wr_ID revision, in_SnapshotHash := wr_SnapshotHash revision,
              in_CreatedAt := wr_CreatedAt revision\<rparr>)) (\<lambda>(work, plan).
         bindE (if \<not> blank (ev_root env)
                then SelectDeterministicChecks (ev_workspace env) (ev_root env) work plan
                  (map (\<lambda>f. \<lparr>tf_Path = rf_Path f, tf_Change = ''modified'', tf_Generated = False\<rparr>)
                    (filter rf_Touched (wr_Files revision)))
                else Inr plan) (\<lambda>plan.
         let plan = (if mutating then addRuntimeReadbackChecks (ev_git env) plan (wr_Files revision) else plan) in
         Inr \<lparr>es_work = work, es_revision = revision, es_plan = plan, es_todo = todo, es_records = records,
           es_goalSource = goalSource, es_mutating = mutating, es_latestMutationAt = latestMutationAt,
           es_captureErrors = captureErrors\<rparr>)))))"

section \<open>Evaluating the checks\<close>

definition toolCommand :: "evidence_env \<Rightarrow> tool_record \<Rightarrow> string" where
  "toolCommand env record =
     (if tr_Name record = ''coding.shell''
      then (case ev_command_arg env (tr_Arguments record) of Some c \<Rightarrow> TrimSpace c | None \<Rightarrow> [])
      else if tr_Name record = ''coding.go_test''
      then (case ev_go_test_args env (tr_Arguments record) of
          Some (args, environment) \<Rightarrow> shellCommand environment [] args
        | None \<Rightarrow> [])
      else [])"

definition matchingCommandRecordForFiles ::
  "evidence_env \<Rightarrow> verification_check \<Rightarrow> revision_file list \<Rightarrow> tool_record list \<Rightarrow> time \<Rightarrow> tool_record option" where
  "matchingCommandRecordForFiles env check files records after =
     List.find (\<lambda>record. \<not> tr_StartedAt record < after \<and> tr_State record \<noteq> ''running'' \<and>
       commandMatchesCheck (ev_contract env) check files (toolCommand env record)) (rev records)"

definition formatted :: "evidence_env \<Rightarrow> string \<Rightarrow> string \<Rightarrow> tool_record \<Rightarrow> bool" where
  "formatted env path sha record \<longleftrightarrow> tr_Name record = ''coding.gofmt'' \<and> tr_State record = ''completed'' \<and>
     (case ev_path env (tr_Structured record) of Some p \<Rightarrow> path_Clean p = path | None \<Rightarrow> False) \<and>
     list_ex (\<lambda>ob. ob_Operation ob = ''format'' \<and> path_Clean (ob_Path ob) = path \<and> ob_SHA256 ob = sha) (tr_Observations record)"

definition latest_formatted :: "evidence_env \<Rightarrow> string \<Rightarrow> string \<Rightarrow> tool_record list \<Rightarrow> tool_record option" where
  "latest_formatted env path sha records = fold (\<lambda>record matched. if formatted env path sha record \<and>
     (case matched of None \<Rightarrow> True | Some m \<Rightarrow> tr_CompletedAt m < tr_CompletedAt record) then Some record else matched) records None"

text \<open>The loop over the formatted files; nothing once a file has no record.\<close>

fun gofmt_matches ::
  "evidence_env \<Rightarrow> (string \<Rightarrow> string) \<Rightarrow> tool_record list \<Rightarrow> string list \<Rightarrow> string list \<Rightarrow> tool_record list option" where
  "gofmt_matches env currentSHA records seen [] = Some []"
| "gofmt_matches env currentSHA records seen (raw # paths) =
     (let path = path_Clean raw in
      if path = ''.'' then None
      else if path \<in> set seen then gofmt_matches env currentSHA records seen paths
      else if currentSHA path = [] then None
      else case latest_formatted env path (currentSHA path) records of
        None \<Rightarrow> None
      | Some record \<Rightarrow> map_option (\<lambda>rs. record # rs) (gofmt_matches env currentSHA records (path # seen) paths))"

definition matchingGofmtRecords ::
  "evidence_env \<Rightarrow> verification_check \<Rightarrow> revision_file list \<Rightarrow> tool_record list \<Rightarrow> tool_record list \<times> bool" where
  "matchingGofmtRecords env check files records =
     (if length (vc_Command check) < 3 \<or> path_Base (vc_Command check ! 0) \<noteq> ''gofmt'' \<or> vc_Command check ! 1 \<noteq> ''-d''
      then ([], False)
      else let currentSHA = (\<lambda>path. case last_by (\<lambda>f. path_Clean (rf_Path f)) files path of
             Some f \<Rightarrow> rf_SHA256 f | None \<Rightarrow> [])
        in (case gofmt_matches env currentSHA records [] (drop 2 (vc_Command check)) of
              None \<Rightarrow> [] | Some matches \<Rightarrow> matches, True))"

definition fileMutationBoundary :: "evidence_env \<Rightarrow> string \<Rightarrow> tool_record list \<Rightarrow> time" where
  "fileMutationBoundary env path records = fold (\<lambda>record after.
     if tr_State record \<noteq> ''completed'' then after
     else let mutated = toolRecordMutated env record;
              affectsFile = (mutated \<and> length (tr_Observations record) = 0 \<or>
                list_ex (\<lambda>ob. path_Clean (ob_Path ob) = path \<and> fileObservationMutated ob mutated) (tr_Observations record))
       in if affectsFile \<and> tr_CompletedAt record > after then tr_CompletedAt record else after) records 0"

definition readback_of :: "string \<Rightarrow> string \<Rightarrow> time \<Rightarrow> tool_record \<Rightarrow> bool" where
  "readback_of path sha after record \<longleftrightarrow> tr_State record = ''completed'' \<and> \<not> tr_StartedAt record < after \<and>
     list_ex (\<lambda>ob. ob_Operation ob = ''read'' \<and> path_Clean (ob_Path ob) = path \<and> ob_SHA256 ob = sha) (tr_Observations record)"

definition matchingReadbackRecord ::
  "evidence_env \<Rightarrow> string \<Rightarrow> revision_file list \<Rightarrow> tool_record list \<Rightarrow> tool_record option" where
  "matchingReadbackRecord env path files records =
     (let sha = (case List.find (\<lambda>f. rf_Path f = path) files of Some f \<Rightarrow> rf_SHA256 f | None \<Rightarrow> []) in
      if sha = [] then None
      else List.find (readback_of path sha (fileMutationBoundary env path records)) (rev records))"

definition structuredToolOutput :: "evidence_env \<Rightarrow> tool_record \<Rightarrow> string" where
  "structuredToolOutput env record = (case ev_output env (tr_Structured record) of Some o' \<Rightarrow> o' | None \<Rightarrow> tr_Content record)"

definition commandOutputMustBeEmpty :: "verification_check \<Rightarrow> bool" where
  "commandOutputMustBeEmpty check \<longleftrightarrow> vc_ID check = ''gofmt'' \<or> vc_ID check = ''git-diff-check''"

definition checkInstruction :: "verification_check \<Rightarrow> string" where
  "checkInstruction check =
     (if vc_Kind check = ''command'' then shellCommandForCheck check
      else if HasPrefix (vc_ArtifactRef check) ''file:''
      then ''Read back '' @ TrimPrefix (vc_ArtifactRef check) ''file:'' @ '' with coding.read_file''
      else vc_ID check)"

definition appendUniqueSource :: "source_ref list \<Rightarrow> source_ref \<Rightarrow> source_ref list" where
  "appendUniqueSource sources s = (if s \<in> set sources then sources else sources @ [s])"

definition record_source :: "tool_record \<Rightarrow> source_ref" where
  "record_source r = \<lparr>sr_Kind = ''tool_record'', sr_ID = tr_RunID r @ '':'' @ tr_ToolCallID r, sr_Range = [], sr_SHA256 = []\<rparr>"

definition check_missing :: "verification_check \<Rightarrow> check_state \<Rightarrow> check_state" where
  "check_missing check state = state\<lparr>ch_status := [], ch_missing := ch_missing state @ [checkInstruction check]\<rparr>"

definition check_record :: "evidence_env \<Rightarrow> verification_check \<Rightarrow> tool_record \<Rightarrow> check_state \<Rightarrow> check_state" where
  "check_record env check record state =
     (let state = state\<lparr>ch_evidence := appendUniqueSource (ch_evidence state) (record_source record)\<rparr> in
      if tr_State record \<noteq> ''completed'' \<or>
         (commandOutputMustBeEmpty check \<and> \<not> blank (structuredToolOutput env record))
      then state\<lparr>ch_status := ''fail'', ch_failed := ch_failed state @ [checkInstruction check]\<rparr> else state)"

definition evaluate_check :: "evidence_env \<Rightarrow> evidence_snapshot \<Rightarrow> verification_check \<Rightarrow> check_state \<Rightarrow> check_state" where
  "evaluate_check env snap check state =
     (if vc_Kind check = ''criterion'' then state
      else if vc_Kind check = ''command'' then
        (case matchingCommandRecordForFiles env check (wr_Files (es_revision snap)) (es_records snap) (es_latestMutationAt snap) of
           Some record \<Rightarrow> check_record env check record state
         | None \<Rightarrow> (case matchingGofmtRecords env check (wr_Files (es_revision snap)) (es_records snap) of
             (formatters, True) \<Rightarrow>
               if length formatters = 0 then check_missing check state
               else state\<lparr>ch_evidence := foldl (\<lambda>e r. appendUniqueSource e (record_source r)) (ch_evidence state) formatters\<rparr>
           | (_, False) \<Rightarrow> check_missing check state))
      else (case (if vc_Kind check = ''artifact'' \<and> HasPrefix (vc_ArtifactRef check) ''file:''
                  then matchingReadbackRecord env (TrimPrefix (vc_ArtifactRef check) ''file:'')
                    (wr_Files (es_revision snap)) (es_records snap) else None) of
          None \<Rightarrow> check_missing check state
        | Some record \<Rightarrow> check_record env check record state))"

definition evaluateRuntimeChecks :: "evidence_env \<Rightarrow> evidence_snapshot \<Rightarrow> check_state" where
  "evaluateRuntimeChecks env snap =
     (let state = fold (evaluate_check env snap) (vp_Checks (es_plan snap))
            \<lparr>ch_status = ''pass'', ch_missing = [], ch_failed = [], ch_evidence = []\<rparr>
      in if length (ch_missing state) > 0 \<and> ch_status state \<noteq> ''fail'' then state\<lparr>ch_status := []\<rparr> else state)"

definition runtimeVerificationResult ::
  "evidence_env \<Rightarrow> evidence_snapshot \<Rightarrow> string \<Rightarrow> source_ref list \<Rightarrow> time \<Rightarrow> verification_result" where
  "runtimeVerificationResult env snap status evidence completedAt =
     \<lparr>vr_Version = WorkContractVersionV1,
      vr_ID = ''verification-result:'' @ shortEvidenceHash (ev_contract env)
        (ws_ID (es_work snap) @ [CHR 0x00] @ vp_ID (es_plan snap) @ [CHR 0x00] @ wr_SnapshotHash (es_revision snap) @ [CHR 0x00] @ status),
      vr_PlanID = vp_ID (es_plan snap), vr_WorkSpecID = ws_ID (es_work snap), vr_RevisionID = wr_ID (es_revision snap),
      vr_SnapshotHash = wr_SnapshotHash (es_revision snap), vr_Status = status,
      vr_Criteria = map (\<lambda>c. \<lparr>res_CriterionID = cr_ID c, res_Status = status, res_Evidence = evidence, res_Reason = []\<rparr>)
        (ws_Criteria (es_work snap)),
      vr_CompletedAt = completedAt\<rparr>"

section \<open>The guardrail\<close>

datatype guard_output = AllowOutput | RetryOutput string | BlockOutput string

definition incompleteTodoItems :: "todo_list \<Rightarrow> todo_item list" where
  "incompleteTodoItems todo =
     filter (\<lambda>item. item_Status item = ''pending'' \<or> item_Status item = ''in_progress'') (concat (map phase_Items (todo_Phases todo)))"

definition guardrailTodoItems :: "todo_list \<Rightarrow> bool \<Rightarrow> todo_item list" where
  "guardrailTodoItems todo enforceSessionTodo = (if \<not> enforceSessionTodo then [] else incompleteTodoItems todo)"

definition unfinishedTodoRetryMessage :: "todo_item list \<Rightarrow> string" where
  "unfinishedTodoRetryMessage items =
     ''[Host] This run still has unfinished Todo items. You may not finish until every item is completed or cancelled.'' @ [CHR 0x0A] @
     concat (map (\<lambda>item. ''- '' @ (if blank (item_Status item) then ''pending'' else TrimSpace (item_Status item)) @ '': '' @
       TrimSpace (item_Content item) @ [CHR 0x0A]) items) @
     ''Continue the current in_progress item. Do not write a final answer yet.''"

definition verificationCommandGuidance :: string where
  "verificationCommandGuidance =
     ''Run each listed command verbatim in a separate coding.shell call, preserving its working directory and environment. '' @
     ''Do not append echo, join separate checks with ; or &&, or substitute a different package manager; the tool already records the exit status. '' @
     ''Resolve the listed missing checks before retrying completion. ''"

definition verificationRetryMessage :: "string list \<Rightarrow> string" where
  "verificationRetryMessage missing =
     (let missing = (if length missing = 0 then [''Record current criterion-linked verification evidence''] else missing) in
      ''Before answering, complete exactly one verification retry for the current workspace snapshot. '' @
      ''Continue the same run; this is host-owned verification, not a new user request. '' @
      ''Do not initialize or replace the session Todo for this retry. If an existing Todo has open items, update those items in place. '' @
      ''After these checks, answer the original user request using the implementation and verified evidence from the entire run, including work completed before this retry. '' @
      ''The final report must not describe this retry as a separate user turn or imply that earlier implementation and checks did not happen. '' @
      verificationCommandGuidance @ ''Run or perform each missing check, inspect failures, and only then answer:'' @ [CHR 0x0A] @ ''- '' @
      Join missing ([CHR 0x0A] @ ''- ''))"

definition surfaceVerificationOutput :: "string \<Rightarrow> guard_output" where
  "surfaceVerificationOutput reason =
     BlockOutput (if blank reason then ''Verification evidence is missing, stale, or failed for the current workspace snapshot.''
       else TrimSpace reason)"

text \<open>
  One evaluation of the output guardrail on a derived snapshot. \<open>ticks\<close> are the completion time of the
  result, the clock of the guard and that of the store; \<open>retried\<close> is the guard's flag.
\<close>

definition capture_failed :: "evidence_snapshot \<Rightarrow> check_state \<Rightarrow> check_state" where
  "capture_failed snap state =
     (if length (es_captureErrors snap) > 0
      then state\<lparr>ch_missing := ch_missing state @ es_captureErrors snap, ch_status := []\<rparr> else state)"

definition guardrail_decide ::
  "evidence_snapshot \<Rightarrow> check_state \<Rightarrow> (claim_error + final_decision) \<times> bool \<times> artifacts \<Rightarrow>
     (claim_error + guard_output) \<times> bool \<times> artifacts" where
  "guardrail_decide snap state outcome =
     (case outcome of
        (Inl e, retried, st) \<Rightarrow> (Inl e, retried, st)
      | (Inr d, retried, st) \<Rightarrow>
          (Inr (if cd_Action d = ''allow'' then AllowOutput
            else if cd_Action d = ''retry'' then RetryOutput (verificationRetryMessage (ch_missing state))
            else if cd_Action d = ''surface'' then surfaceVerificationOutput (cd_Reason d)
            else BlockOutput ''invalid verification guard decision''), retried, st))"

definition verification_guardrail ::
  "evidence_env \<Rightarrow> claim_error option \<Rightarrow> claim_error option \<Rightarrow> time \<times> time \<times> time \<Rightarrow> string \<Rightarrow> string \<Rightarrow> bool \<Rightarrow>
     claim_error + evidence_snapshot \<Rightarrow> bool \<Rightarrow> artifacts \<Rightarrow> (claim_error + guard_output) \<times> bool \<times> artifacts" where
  "verification_guardrail env lio pio ticks sid run enforceTodo derived retried st =
     (case derived of Inl e \<Rightarrow> (Inl e, retried, st) | Inr snap \<Rightarrow>
      let (completed, clock, now) = ticks; contract = ev_contract env in
      case persistRuntimeContracts contract lio pio now sid run (es_work snap) (es_revision snap) (es_plan snap) st of
        (Inl e, st) \<Rightarrow> (Inl e, retried, st)
      | (Inr _, st) \<Rightarrow>
      if length (guardrailTodoItems (es_todo snap) enforceTodo) > 0
      then (Inr (RetryOutput (unfinishedTodoRetryMessage (guardrailTodoItems (es_todo snap) enforceTodo))), retried, st)
      else if \<not> es_mutating snap then (Inr AllowOutput, retried, st)
      else let state = capture_failed snap (evaluateRuntimeChecks env snap) in
      case (if ch_status state = ''pass'' \<or> ch_status state = ''fail''
            then result_save contract pio now sid run st
              (runtimeVerificationResult env snap (ch_status state) (ch_evidence state) completed)
            else (Inr (), st)) of
        (Inl e, st) \<Rightarrow> (Inl e, retried, st)
      | (Inr _, st) \<Rightarrow>
          guardrail_decide snap state (guard_check contract (result_latest contract lio sid) (result_save contract pio now sid run)
            clock retried st True (es_work snap) (es_plan snap) (wr_SnapshotHash (es_revision snap))))"

definition runtimeEvidenceStatus ::
  "evidence_env \<Rightarrow> claim_error option \<Rightarrow> string \<Rightarrow> string \<Rightarrow> claim_error + evidence_snapshot \<Rightarrow> artifacts \<Rightarrow> string" where
  "runtimeEvidenceStatus env lio sid run derived st =
     (case derived of Inl e \<Rightarrow> [] | Inr snap \<Rightarrow>
      if \<not> es_mutating snap then []
      else if blank sid \<or> blank run then []
      else case result_latest (ev_contract env) lio sid st (ws_ID (es_work snap)) of
        Inl e \<Rightarrow> if e = ErrNoVerificationResult then ''provisional'' else ''stale''
      | Inr result \<Rightarrow>
          if CompatibleResult (ev_contract env) (es_work snap) (es_plan snap) result (wr_SnapshotHash (es_revision snap)) \<noteq> None
          then ''stale''
          else if vr_Status result = ''pass'' then ''verified'' else ''stale'')"

definition verifyTodoCompletion :: "evidence_env \<Rightarrow> claim_error + evidence_snapshot \<Rightarrow> claim_error option" where
  "verifyTodoCompletion env derived =
     (case derived of Inl e \<Rightarrow> Some e | Inr snap \<Rightarrow>
      if \<not> es_mutating snap then None
      else let state = evaluateRuntimeChecks env snap in
      if ch_status state = ''pass'' \<and> length (es_captureErrors snap) = 0 then None
      else let missing = ch_missing state @ ch_failed state @ es_captureErrors snap;
               missing = (if length missing = 0
                 then [''Inspect and fix the failed verification checks before marking this item done''] else missing)
        in Some (ClaimError (''keep the final Todo item in progress; complete verification before calling done. '' @
             verificationCommandGuidance @ [CHR 0x0A] @ ''- '' @ Join missing ([CHR 0x0A] @ ''- ''))))"

end
