(* ===== verification/Claim_Theorems.thy ===== *)
theory Claim_Theorems
  imports Work_Evidence
begin

text \<open>
  What the composition of evidence, guard and store guarantees about the answers of a run.

  Three hypotheses come from the environment: the JSON decoder undoes the encoder on verification
  results, it refuses the encodings of the three other contracts (it is strict about unknown fields),
  and the results already stored are older than the plan, which is created by the evaluation itself.
\<close>

section \<open>Evaluation\<close>

definition check_satisfied :: "evidence_env \<Rightarrow> evidence_snapshot \<Rightarrow> verification_check \<Rightarrow> bool" where
  "check_satisfied env snap check \<longleftrightarrow>
     vc_Kind check = ''criterion'' \<or>
     (vc_Kind check = ''command'' \<and>
       ((\<exists>tr \<in> set (es_records snap). tr_State tr = ''completed'' \<and>
           es_latestMutationAt snap \<le> tr_StartedAt tr \<and>
           commandMatchesCheck (ev_contract env) check (wr_Files (es_revision snap)) (toolCommand env tr) \<and>
           (commandOutputMustBeEmpty check \<longrightarrow> blank (structuredToolOutput env tr))) \<or>
        (fst (matchingGofmtRecords env check (wr_Files (es_revision snap)) (es_records snap)) \<noteq> []))) \<or>
     (vc_Kind check = ''artifact'' \<and> HasPrefix (vc_ArtifactRef check) ''file:'' \<and>
       (\<exists>tr \<in> set (es_records snap).
          matchingReadbackRecord env (TrimPrefix (vc_ArtifactRef check) ''file:'') (wr_Files (es_revision snap))
            (es_records snap) = Some tr))"

lemma check_missing_status: "ch_status (check_missing check state) = []"
  by (simp add: check_missing_def)

lemma check_record_status: "ch_status (check_record env check tr state) = ''pass'' \<Longrightarrow>
    ch_status state = ''pass'' \<and> tr_State tr = ''completed'' \<and>
    (commandOutputMustBeEmpty check \<longrightarrow> blank (structuredToolOutput env tr))"
  by (auto simp: check_record_def Let_def split: if_splits)

lemma find_rev_SomeD: "List.find P (rev xs) = Some x \<Longrightarrow> x \<in> set xs \<and> P x"
  by (auto simp: find_Some_iff) (metis nth_mem set_rev length_rev)

lemma evaluate_check_pass:
  assumes "ch_status (evaluate_check env snap check state) = ''pass''"
  shows "ch_status state = ''pass'' \<and> check_satisfied env snap check"
proof -
  let ?files = "wr_Files (es_revision snap)" and ?records = "es_records snap"
  consider (criterion) "vc_Kind check = ''criterion''"
    | (command) "vc_Kind check \<noteq> ''criterion''" "vc_Kind check = ''command''"
    | (other) "vc_Kind check \<noteq> ''criterion''" "vc_Kind check \<noteq> ''command''" by blast
  then show ?thesis
  proof cases
    case criterion
    with assms show ?thesis by (simp add: evaluate_check_def check_satisfied_def)
  next
    case command
    show ?thesis
    proof (cases "matchingCommandRecordForFiles env check ?files ?records (es_latestMutationAt snap)")
      case None
      obtain rs known where g: "matchingGofmtRecords env check ?files ?records = (rs, known)" by (cases rule: prod.exhaust)
      from assms command None g have "known" "rs \<noteq> []" "ch_status state = ''pass''"
        by (auto simp: evaluate_check_def check_missing_status split: bool.splits if_splits)
      with command g show ?thesis by (simp add: check_satisfied_def)
    next
      case (Some tr)
      with assms command have "ch_status (check_record env check tr state) = ''pass''"
        by (simp add: evaluate_check_def)
      note rec = check_record_status [OF this]
      from Some have "tr \<in> set ?records" "\<not> tr_StartedAt tr < es_latestMutationAt snap"
        "commandMatchesCheck (ev_contract env) check ?files (toolCommand env tr)"
        unfolding matchingCommandRecordForFiles_def by (auto dest!: find_rev_SomeD)
      with rec command show ?thesis unfolding check_satisfied_def by (metis not_less)
    qed
  next
    case other
    let ?path = "TrimPrefix (vc_ArtifactRef check) ''file:''"
    from assms other obtain tr where rec: "vc_Kind check = ''artifact''" "HasPrefix (vc_ArtifactRef check) ''file:''"
      "matchingReadbackRecord env ?path ?files ?records = Some tr"
      "ch_status (check_record env check tr state) = ''pass''"
      by (auto simp: evaluate_check_def check_missing_status split: option.splits if_splits)
    then have "tr \<in> set ?records"
      by (auto simp: matchingReadbackRecord_def Let_def dest!: find_rev_SomeD split: if_splits)
    with rec other check_record_status [OF rec(4)] show ?thesis by (auto simp: check_satisfied_def)
  qed
qed

lemma evaluate_fold_pass:
  "ch_status (fold (evaluate_check env snap) checks state) = ''pass'' \<Longrightarrow>
     ch_status state = ''pass'' \<and> (\<forall>check \<in> set checks. check_satisfied env snap check)"
proof (induction checks arbitrary: state)
  case (Cons check checks)
  from Cons.IH [of "evaluate_check env snap check state"] Cons.prems evaluate_check_pass [of env snap check state] show ?case by simp
qed simp

lemma evaluate_pass:
  assumes "ch_status (evaluateRuntimeChecks env snap) = ''pass''"
  shows "\<forall>check \<in> set (vp_Checks (es_plan snap)). check_satisfied env snap check"
  using assms evaluate_fold_pass unfolding evaluateRuntimeChecks_def Let_def
  by (auto split: if_splits)

lemma capture_failed_pass:
  "ch_status (capture_failed snap state) = ''pass'' \<Longrightarrow> es_captureErrors snap = [] \<and> ch_status state = ''pass''"
  by (auto simp: capture_failed_def split: if_splits)

section \<open>What the store can return\<close>

definition stored_payloads :: "artifacts \<Rightarrow> string set" where
  "stored_payloads st = set (trows (as_Blobs st))"

definition results_before :: "contract_env \<Rightarrow> artifacts \<Rightarrow> time \<Rightarrow> bool" where
  "results_before env st t \<longleftrightarrow>
     (\<forall>p \<in> stored_payloads st. case ce_result_decode env p of None \<Rightarrow> True | Some r \<Rightarrow> vr_CompletedAt r < t)"

lemma put_payloads: "PutArtifact env pio now st sid run kind payload = (r, st') \<Longrightarrow>
    stored_payloads st' \<subseteq> insert payload (stored_payloads st)"
  using set_trows_tput [of "ce_sha env payload" payload "as_Blobs st"]
  by (auto simp: PutArtifact_def Let_def stored_payloads_def split: if_splits option.splits)

lemma load_payload: "loadArtifactRow env st row = Inr (row', p) \<Longrightarrow> p \<in> stored_payloads st"
  by (auto simp: loadArtifactRow_def stored_payloads_def intro: tget_in_trows split: if_splits option.splits)

lemma latest_payload: "LoadLatestArtifactByKind env lio st sid kind = Inr (row, p) \<Longrightarrow> p \<in> stored_payloads st"
  by (auto simp: LoadLatestArtifactByKind_def dest: load_payload split: if_splits option.splits)

lemma result_latest_stored:
  assumes "result_latest env lio sid st i = Inr r"
  shows "\<exists>p \<in> stored_payloads st. ce_result_decode env p = Some r"
proof -
  from assms obtain kind where kind: "verificationResultArtifactKind env i = Inr kind"
    by (auto simp: result_latest_def bindE_eq_Inr)
  show ?thesis
  proof (cases "LoadLatestArtifactByKind env lio st sid kind")
    case (Inl e)
    with assms kind show ?thesis by (simp add: result_latest_def)
  next
    case (Inr loaded)
    with assms kind latest_payload show ?thesis
      by (cases loaded) (auto simp: result_latest_def split: option.splits if_splits)
  qed
qed

text \<open>A compatible result is not older than the plan.\<close>

lemma stale_results_incompatible:
  assumes "results_before env st (vp_CreatedAt plan)" and "result_latest env lio sid st i = Inr r"
  shows "CompatibleResult env work plan r snap \<noteq> None"
proof -
  from result_latest_stored [OF assms(2)] obtain p where "p \<in> stored_payloads st" "ce_result_decode env p = Some r" by blast
  with assms(1) have "vr_CompletedAt r < vp_CreatedAt plan" unfolding results_before_def by fastforce
  then show ?thesis unfolding compatible_result_ref by auto
qed

section \<open>What an evaluation stores\<close>

definition adds_only :: "string set \<Rightarrow> artifacts \<Rightarrow> artifacts \<Rightarrow> bool" where
  "adds_only S st st' \<longleftrightarrow> stored_payloads st' \<subseteq> S \<union> stored_payloads st"

lemma adds_only_refl [simp]: "adds_only S st st"
  by (simp add: adds_only_def)

lemma adds_only_trans: "adds_only S a b \<Longrightarrow> adds_only S b c \<Longrightarrow> adds_only S a c"
  unfolding adds_only_def by blast

lemma put_adds: "PutArtifact env pio now st sid run kind payload = (r, st') \<Longrightarrow> payload \<in> S \<Longrightarrow> adds_only S st st'"
  using put_payloads unfolding adds_only_def by blast

lemma store_save_adds:
  "store_save env pio now sid run kind invalid payload st = (r, st') \<Longrightarrow> payload \<in> S \<Longrightarrow> adds_only S st st'"
  by (auto simp: store_save_def intro: put_adds split: option.splits prod.splits sum.splits)

lemma SaveRevision_adds:
  "SaveRevision env pio now sid run revision st = (r, st') \<Longrightarrow> ce_revision_json env revision \<in> S \<Longrightarrow> adds_only S st st'"
  by (auto simp: SaveRevision_def intro: store_save_adds split: if_splits)

lemma SaveVerificationPlan_adds:
  "SaveVerificationPlan env lio pio now sid run plan st = (r, st') \<Longrightarrow> ce_plan_json env plan \<in> S \<Longrightarrow> adds_only S st st'"
  by (auto simp: SaveVerificationPlan_def save_bound_def intro: store_save_adds split: if_splits sum.splits)

lemma putEvidence_adds:
  "putEvidenceArtifactIfChanged env lio pio now sid run kind payload st = (r, st') \<Longrightarrow> payload \<in> S \<Longrightarrow> adds_only S st st'"
  by (auto simp: putEvidenceArtifactIfChanged_def intro: put_adds split: if_splits sum.splits prod.splits)

lemma then_do_adds:
  assumes "then_do r f = (x, st')" and "adds_only S st (snd r)" and "\<And>a y b. f a = (y, b) \<Longrightarrow> adds_only S a b"
  shows "adds_only S st st'"
  using assms by (cases r) (auto simp: then_do_def intro: adds_only_trans split: sum.splits)

lemma persist_adds:
  assumes "persistRuntimeContracts env lio pio now sid run work revision plan st = (r, st')"
  shows "adds_only {ce_revision_json env revision, ce_spec_json env work, ce_plan_json env plan} st st'"
    (is "adds_only ?S st st'")
proof (cases "blank sid \<or> blank run")
  case False
  let ?first = "case LatestRevision env lio sid st of
      Inr latest \<Rightarrow> if wr_ID latest \<noteq> wr_ID revision then SaveRevision env pio now sid run revision st else (Inr (), st)
    | Inl _ \<Rightarrow> SaveRevision env pio now sid run revision st"
  let ?spec = "putEvidenceArtifactIfChanged env lio pio now sid run
    (InternalArtifactKindPrefix @ ''work_spec_v1:'' @ shortEvidenceHash env (ws_ID work)) (ce_spec_json env work)"
  let ?save = "SaveVerificationPlan env lio pio now sid run plan"
  let ?live = "putEvidenceArtifactIfChanged env lio pio now sid run
    (InternalArtifactKindPrefix @ ''verification_plan_v1_live:'' @ shortEvidenceHash env (vp_ID plan)) (ce_plan_json env plan)"
  have whole: "then_do (then_do (then_do ?first ?spec) ?save) ?live = (r, st')"
    using assms False unfolding persistRuntimeContracts_def by simp
  have one: "adds_only ?S st (snd ?first)"
    by (auto split: sum.splits intro: SaveRevision_adds [OF surjective_pairing])
  have two: "adds_only ?S st (snd (then_do ?first ?spec))"
    by (rule then_do_adds [OF surjective_pairing one]) (auto intro: putEvidence_adds)
  have three: "adds_only ?S st (snd (then_do (then_do ?first ?spec) ?save))"
    by (rule then_do_adds [OF surjective_pairing two]) (auto intro: SaveVerificationPlan_adds)
  show ?thesis
    by (rule then_do_adds [OF whole three]) (auto intro: putEvidence_adds)
qed (use assms in \<open>simp add: persistRuntimeContracts_def\<close>)

lemma result_save_adds:
  "result_save env pio now sid run st r = (x, st') \<Longrightarrow> adds_only {ce_result_json env r} st st'"
  by (auto simp: result_save_def intro: put_adds split: option.splits sum.splits prod.splits)

section \<open>Answers\<close>

text \<open>The documented behaviour of the JSON codec that the composition relies on.\<close>

definition evaluated_result :: "evidence_env \<Rightarrow> evidence_snapshot \<Rightarrow> time \<Rightarrow> verification_result" where
  "evaluated_result env snap completed =
     (let state = capture_failed snap (evaluateRuntimeChecks env snap)
      in runtimeVerificationResult env snap (ch_status state) (ch_evidence state) completed)"

definition json_ok :: "evidence_env \<Rightarrow> evidence_snapshot \<Rightarrow> time \<Rightarrow> bool" where
  "json_ok env snap completed \<longleftrightarrow>
     (let c = ev_contract env; r = evaluated_result env snap completed in
      ce_result_decode c (ce_result_json c r) = Some r \<and>
      ce_result_decode c (ce_revision_json c (es_revision snap)) = None \<and>
      ce_result_decode c (ce_spec_json c (es_work snap)) = None \<and>
      ce_result_decode c (ce_plan_json c (es_plan snap)) = None)"

lemma persist_results_before:
  assumes "persistRuntimeContracts (ev_contract env) lio pio now sid run (es_work snap) (es_revision snap) (es_plan snap) st
      = (r, st')"
    and "json_ok env snap completed" and "results_before (ev_contract env) st t"
  shows "results_before (ev_contract env) st' t"
  using persist_adds [OF assms(1)] assms(2,3)
  unfolding results_before_def adds_only_def json_ok_def Let_def by fastforce

text \<open>The guard accepts what this evaluation saved, or what was stored before and is not older.\<close>

lemma save_then_allow:
  assumes save: "result_save env pio now sid run st1 r = (Inr u, st2)"
    and allow: "guard_check env (result_latest env lio sid) (result_save env pio now sid run) clock retried st2 True work plan snap
      = (Inr d, retried', st3)" "cd_Action d = ''allow''"
    and old: "results_before env st1 (vp_CreatedAt plan)"
    and codec: "ce_result_decode env (ce_result_json env r) = Some r"
  shows "vr_Status r = ''pass''"
proof -
  from ars.allow_compatible [OF allow] obtain r' where r': "result_latest env lio sid st2 (ws_ID work) = Inr r'"
    "CompatibleResult env work plan r' snap = None" "vr_Status r' = ''pass''" by blast
  from result_latest_stored [OF r'(1)] obtain p where p: "p \<in> stored_payloads st2" "ce_result_decode env p = Some r'" by blast
  have "\<not> vr_CompletedAt r' < vp_CreatedAt plan" using r'(2) unfolding compatible_result_ref by auto
  with p(2) old have "p \<notin> stored_payloads st1" unfolding results_before_def by fastforce
  with p(1) result_save_adds [OF save] have "p = ce_result_json env r" unfolding adds_only_def by blast
  with p(2) codec r'(3) show ?thesis by simp
qed

lemma guardrail_allows:
  assumes run: "verification_guardrail env lio pio (completed, clock, now) sid run enforce (Inr snap) retried st
      = (Inr AllowOutput, retried', st')"
    and mut: "es_mutating snap"
    and codec: "json_ok env snap completed"
    and old: "results_before (ev_contract env) st (vp_CreatedAt (es_plan snap))"
  shows "guardrailTodoItems (es_todo snap) enforce = [] \<and>
    ch_status (capture_failed snap (evaluateRuntimeChecks env snap)) = ''pass''"
proof -
  let ?c = "ev_contract env" and ?state = "capture_failed snap (evaluateRuntimeChecks env snap)"
  obtain r1 st1 where persist: "persistRuntimeContracts ?c lio pio now sid run (es_work snap) (es_revision snap) (es_plan snap) st
      = (r1, st1)" by (cases rule: prod.exhaust)
  with run obtain u where r1: "r1 = Inr u" by (cases r1) (auto simp: verification_guardrail_def Let_def)
  have old1: "results_before ?c st1 (vp_CreatedAt (es_plan snap))"
    by (rule persist_results_before [OF persist codec old])
  have todo: "guardrailTodoItems (es_todo snap) enforce = []"
    using run persist r1 by (auto simp: verification_guardrail_def Let_def split: if_splits)
  let ?result = "runtimeVerificationResult env snap (ch_status ?state) (ch_evidence ?state) completed"
  let ?saved = "if ch_status ?state = ''pass'' \<or> ch_status ?state = ''fail'' then result_save ?c pio now sid run st1 ?result else (Inr (), st1)"
  obtain r2 st2 where saved: "?saved = (r2, st2)" by (cases rule: prod.exhaust)
  obtain outcome retried2 st3 where g: "guard_check ?c (result_latest ?c lio sid) (result_save ?c pio now sid run) clock retried st2
      True (es_work snap) (es_plan snap) (wr_SnapshotHash (es_revision snap)) = (outcome, retried2, st3)" by (cases rule: prod_cases3)
  have rest: "(case r2 of Inl e \<Rightarrow> (Inl e, retried, st2)
      | Inr _ \<Rightarrow> guardrail_decide snap ?state (outcome, retried2, st3)) = (Inr AllowOutput, retried', st')"
    using run persist r1 todo mut saved g by (cases r2) (simp_all add: verification_guardrail_def Let_def)
  then obtain v d where r2: "r2 = Inr v" and d: "outcome = Inr d" "cd_Action d = ''allow''"
    by (auto simp: guardrail_decide_def surfaceVerificationOutput_def split: sum.splits if_splits)
  have "ch_status ?state = ''pass''"
  proof (rule ccontr)
    assume np: "ch_status ?state \<noteq> ''pass''"
    show False
    proof (cases "ch_status ?state = ''fail''")
      case True
      with saved r2 have "result_save ?c pio now sid run st1 ?result = (Inr v, st2)" by simp
      from save_then_allow [OF this g [unfolded d(1)] d(2) old1] codec
      have "vr_Status ?result = ''pass''" by (simp add: json_ok_def evaluated_result_def Let_def)
      with True show False by (simp add: runtimeVerificationResult_def)
    next
      case False
      with np saved have "st2 = st1" by simp
      with ars.allow_compatible [OF g [unfolded d(1)] d(2)] stale_results_incompatible [OF old1] show False by blast
    qed
  qed
  with todo show ?thesis by simp
qed

text \<open>C5. An answer claiming finished work is let through only on evidence gathered for the present
  state of the workspace: when the guardrail allows the output of a run that changed files, no Todo
  item is open (where the session enforces it), every file could be captured, and every check of the
  plan is satisfied by a completed record of this very evaluation: a command run after the last
  change, a formatted file, or a file read back.\<close>

theorem answer_needs_evidence:
  assumes "verification_guardrail env lio pio (completed, clock, now) sid run enforce (Inr snap) retried st
      = (Inr AllowOutput, retried', st')"
    and "es_mutating snap"
    and "json_ok env snap completed"
    and "results_before (ev_contract env) st (vp_CreatedAt (es_plan snap))"
  shows "(enforce \<longrightarrow> incompleteTodoItems (es_todo snap) = []) \<and> es_captureErrors snap = [] \<and>
    (\<forall>check \<in> set (vp_Checks (es_plan snap)). check_satisfied env snap check)"
proof -
  from guardrail_allows [OF assms]
  have "guardrailTodoItems (es_todo snap) enforce = []" "es_captureErrors snap = []"
    "ch_status (evaluateRuntimeChecks env snap) = ''pass''"
    using capture_failed_pass by blast+
  with evaluate_pass [of env snap] show ?thesis by (auto simp: guardrailTodoItems_def)
qed

section \<open>Derived snapshots\<close>

lemma compiled_plan_created [simp]: "vp_CreatedAt (compiled_plan env input cs) = in_CreatedAt input"
  by (simp add: compiled_plan_def Let_def)

lemma CompileCriteria_created: "CompileCriteria env input = Inr (work, plan) \<Longrightarrow> vp_CreatedAt plan = in_CreatedAt input"
  by (erule CompileCriteria_Inr) simp

lemma Derive_created: "Derive env input = Inr revision \<Longrightarrow> wr_CreatedAt revision = dr_CreatedAt input"
  by (auto simp: Derive_def Let_def bindE_eq_Inr split: if_splits option.splits)

lemma Select_created: "SelectDeterministicChecks env root work plan touched = Inr plan' \<Longrightarrow> vp_CreatedAt plan' = vp_CreatedAt plan"
  by (auto simp: SelectDeterministicChecks_def Let_def bindE_eq_Inr split: if_splits option.splits)

lemma readback_simps [simp]: "vp_CreatedAt (addRuntimeReadbackChecks git plan files) = vp_CreatedAt plan"
  by (simp add: addRuntimeReadbackChecks_def Let_def)

lemma readback_added:
  "f \<in> set files \<Longrightarrow> rf_Touched f \<Longrightarrow>
     readback_check (plan_criteria plan) (rf_Path f) \<in> set (vp_Checks (addRuntimeReadbackChecks git plan files))"
  by (auto simp: addRuntimeReadbackChecks_def Let_def)

lemma canonicalFiles_distinct: "canonicalFiles files = Inr r \<Longrightarrow> distinct (map rf_Path r)"
proof -
  assume "canonicalFiles files = Inr r"
  then obtain t where t: "collect_files [] files = Inr t" "r = sort_key rf_Path (trows t)"
    by (auto simp: canonicalFiles_def bindE_eq_Inr split: if_splits)
  have base: "collected {} []" "hashes_agree {}" by (simp_all add: collected_def owned_at_def hashes_agree_def)
  from collect_files_spec [OF base, of files] t(1) have "collected (set files) t" by simp
  then have "distinct (map rf_Path (trows t))"
    using rows_distinct [of t] by (auto simp: collected_def owned_at_def)
  then show ?thesis using t(2) by (simp add: distinct_map)
qed

lemma find_by_path:
  "f \<in> set files \<Longrightarrow> distinct (map rf_Path files) \<Longrightarrow> List.find (\<lambda>g. rf_Path g = rf_Path f) files = Some f"
proof (induction files)
  case (Cons g files)
  then show ?case by (cases "g = f") (auto simp: rev_image_eqI)
qed simp

lemma Derive_distinct: "Derive env input = Inr revision \<Longrightarrow> distinct (map rf_Path (wr_Files revision))"
  by (auto simp: Derive_def Let_def bindE_eq_Inr dest: canonicalFiles_distinct split: if_splits option.splits)

lemma derived_parts:
  assumes "deriveRuntimeEvidence env clock pj todo sid run related = Inr snap"
  shows "vp_CreatedAt (es_plan snap) = snd clock"
    and "es_mutating snap \<Longrightarrow> f \<in> set (wr_Files (es_revision snap)) \<Longrightarrow> rf_Touched f \<Longrightarrow>
      \<exists>ids. readback_check ids (rf_Path f) \<in> set (vp_Checks (es_plan snap))"
    and "distinct (map rf_Path (wr_Files (es_revision snap)))"
proof -
  obtain goal goalSource sequence where goal: "runtimeGoal (pj_Blocks pj) run = (goal, goalSource, sequence)"
    by (cases rule: prod_cases3)
  obtain files mutating latest errors where
    files: "runtimeRevisionFiles env (recordsForRuns (pj_ToolRecords pj) related) = (files, mutating, latest, errors)"
    by (cases rule: prod_cases4)
  let ?c = "ev_contract env"
  from assms goal files obtain work0 :: work_spec and revision work plan plan' where
    rev: "Derive ?c \<lparr>dr_SessionID = sid, dr_CanonicalUserSequence = sequence,
       dr_TodoRevision = todo_Revision todo, dr_SemanticRevision = 0, dr_ApprovedPlanID = [],
       dr_ExplicitConstraints = ws_Criteria work0, dr_GitHEAD = [], dr_Files = files, dr_CreatedAt = snd clock\<rparr> = Inr revision"
    and comp: "CompileCriteria ?c \<lparr>in_SessionID = sid, in_RunID = run, in_Goal = goal, in_GoalSource = goalSource,
       in_ApprovedPlanID = [], in_UserCriteria = [], in_PlanCriteria = [], in_InferredCriteria = [], in_Todo = todo,
       in_RevisionID = wr_ID revision, in_SnapshotHash = wr_SnapshotHash revision,
       in_CreatedAt = wr_CreatedAt revision\<rparr> = Inr (work, plan)"
    and sel: "(if \<not> blank (ev_root env)
       then SelectDeterministicChecks (ev_workspace env) (ev_root env) work plan
         (map (\<lambda>f. \<lparr>tf_Path = rf_Path f, tf_Change = ''modified'', tf_Generated = False\<rparr>) (filter rf_Touched (wr_Files revision)))
       else Inr plan) = Inr plan'"
    and snap_eq: "\<lparr>es_work = work, es_revision = revision,
       es_plan = (if mutating then addRuntimeReadbackChecks (ev_git env) plan' (wr_Files revision) else plan'),
       es_todo = todo, es_records = recordsForRuns (pj_ToolRecords pj) related, es_goalSource = goalSource,
       es_mutating = mutating, es_latestMutationAt = latest, es_captureErrors = errors\<rparr> = snap"
    unfolding deriveRuntimeEvidence_def Let_def bindE_eq_Inr
    by (simp only: bindE_eq_Inr prod.case split_paired_Ex sum.inject compile_input.update_convs) blast
  have snap: "es_plan snap = (if mutating then addRuntimeReadbackChecks (ev_git env) plan' (wr_Files revision) else plan')"
    "es_revision snap = revision" "es_mutating snap = mutating"
    unfolding snap_eq [symmetric] by simp_all
  have "vp_CreatedAt plan' = vp_CreatedAt plan"
    using sel by (auto dest: Select_created split: if_splits)
  then have "vp_CreatedAt plan' = snd clock"
    using CompileCriteria_created [OF comp] Derive_created [OF rev] by simp
  then show "vp_CreatedAt (es_plan snap) = snd clock" by (simp add: snap)
  show "\<exists>ids. readback_check ids (rf_Path f) \<in> set (vp_Checks (es_plan snap))"
    if "es_mutating snap" "f \<in> set (wr_Files (es_revision snap))" "rf_Touched f"
  proof -
    have "es_plan snap = addRuntimeReadbackChecks (ev_git env) plan' (wr_Files (es_revision snap))"
      using that(1) snap by simp
    with readback_added [OF that(2,3)] show ?thesis by metis
  qed
  show "distinct (map rf_Path (wr_Files (es_revision snap)))"
    using Derive_distinct [OF rev] snap by simp
qed

text \<open>C19. A file the run touched must have been read back as it is now: an answer is let through only if,
  for every touched file of the derived snapshot, a completed tool record that started after the last
  mutation of that file observed exactly its current hash by reading it. In particular a touched file
  that no longer exists, whose hash is a marker no read can produce, blocks the answer for good.\<close>

theorem answer_reads_back:
  assumes "deriveRuntimeEvidence env ticks pj todo sid run related = Inr snap"
    and "verification_guardrail env lio pio (completed, clock, now) sid run enforce (Inr snap) retried st
      = (Inr AllowOutput, retried', st')"
    and "es_mutating snap" and "json_ok env snap completed" and "results_before (ev_contract env) st (snd ticks)"
    and "f \<in> set (wr_Files (es_revision snap))" and "rf_Touched f"
  shows "\<exists>tr \<in> set (es_records snap).
    readback_of (rf_Path f) (rf_SHA256 f) (fileMutationBoundary env (rf_Path f) (es_records snap)) tr"
proof -
  note parts = derived_parts [OF assms(1)]
  obtain ids where check: "readback_check ids (rf_Path f) \<in> set (vp_Checks (es_plan snap))"
    using parts(2) assms(3,6,7) by blast
  have "results_before (ev_contract env) st (vp_CreatedAt (es_plan snap))" using assms(5) parts(1) by simp
  with guardrail_allows [OF assms(2-4)] capture_failed_pass evaluate_pass check
  have "check_satisfied env snap (readback_check ids (rf_Path f))" by blast
  then obtain tr where tr: "tr \<in> set (es_records snap)"
    "matchingReadbackRecord env (rf_Path f) (wr_Files (es_revision snap)) (es_records snap) = Some tr"
    by (auto simp: check_satisfied_def readback_check_def TrimPrefix_def HasPrefix_def)
  have "List.find (\<lambda>g. rf_Path g = rf_Path f) (wr_Files (es_revision snap)) = Some f"
    using assms(6) parts(3) by (rule find_by_path)
  with tr(2) have "readback_of (rf_Path f) (rf_SHA256 f) (fileMutationBoundary env (rf_Path f) (es_records snap)) tr"
    by (auto simp: matchingReadbackRecord_def Let_def dest!: find_rev_SomeD split: if_splits)
  with tr(1) show ?thesis by blast
qed


text \<open>A change outside the files of the workspace ends in an error instead of a decision: when a
  mutating run has no check but the criteria, its result passes without evidence, is refused by the
  store, and the guardrail fails, whatever the state of the store and of the retry.\<close>

theorem guardrail_fails_without_checks:
  assumes "es_mutating snap" and "es_captureErrors snap = []" and "guardrailTodoItems (es_todo snap) enforce = []"
    and "\<forall>check \<in> set (vp_Checks (es_plan snap)). vc_Kind check = ''criterion''"
    and "ws_Criteria (es_work snap) \<noteq> []"
  shows "\<exists>e st'. verification_guardrail env lio pio ticks sid run enforce (Inr snap) retried st = (Inl e, retried, st')"
proof -
  let ?pass = "\<lparr>ch_status = ''pass'', ch_missing = [], ch_failed = [], ch_evidence = []\<rparr>"
  have "fold (evaluate_check env snap) checks s = s" if "\<forall>check \<in> set checks. vc_Kind check = ''criterion''" for checks s
    using that by (induction checks arbitrary: s) (simp_all add: evaluate_check_def)
  then have state: "capture_failed snap (evaluateRuntimeChecks env snap) = ?pass"
    using assms(2,4) by (simp add: evaluateRuntimeChecks_def capture_failed_def)
  obtain c cs where cs: "ws_Criteria (es_work snap) = c # cs" using assms(5) by (cases "ws_Criteria (es_work snap)") auto
  have "validate_result (runtimeVerificationResult env snap ''pass'' [] completed) \<noteq> None" for completed
    using cs by (auto simp: validate_result_def runtimeVerificationResult_def split: option.splits)
  then obtain e where e: "validate_result (runtimeVerificationResult env snap ''pass'' [] (fst ticks)) = Some e" by blast
  obtain r st1 where persist: "persistRuntimeContracts (ev_contract env) lio pio (snd (snd ticks)) sid run
      (es_work snap) (es_revision snap) (es_plan snap) st = (r, st1)" by (cases rule: prod.exhaust)
  show ?thesis
    using persist assms(1,3) state e
    by (cases r) (simp_all add: verification_guardrail_def Let_def split_beta result_save_def)
qed

end
