(* ===== verification/Claim_Witnesses.thy ===== *)
theory Claim_Witnesses
  imports Claim_Theorems
begin

text \<open>
  A run that writes \<^verbatim>\<open>m.txt\<close> and reads it back, through derivation and guardrail: the theorems of
  \<^verbatim>\<open>Claim_Theorems\<close> at concrete inputs.
\<close>

section \<open>The run\<close>

definition hash_b :: string where
  "hash_b = replicate 64 (CHR ''b'')"

definition ex_answer_criterion :: criterion where
  "ex_answer_criterion = \<lparr>cr_ID = ''goal'', cr_Text = ''fix'', cr_Origin = ''explicit'', cr_Required = True,
     cr_Sources = [\<lparr>sr_Kind = ''session_block'', sr_ID = ''1'', sr_Range = [], sr_SHA256 = []\<rparr>]\<rparr>"

definition ex_answer_work :: work_spec where
  "ex_answer_work = \<lparr>ws_Version = 1, ws_ID = ''work:w000000000000000'', ws_SessionID = ''s'', ws_RunID = ''r'', ws_Goal = ''fix'',
     ws_ApprovedPlanID = [], ws_Criteria = [ex_answer_criterion], ws_Constraints = [], ws_AllowedSideEffects = [],
     ws_CreatedAt = 10\<rparr>"

definition ex_answer_revision :: work_revision where
  "ex_answer_revision = \<lparr>wr_Version = 1, wr_ID = ''work-revision:'' @ take 24 hash_b, wr_SessionID = ''s'',
     wr_CanonicalUserSequence = 1, wr_TodoRevision = 0, wr_SemanticRevision = 0, wr_ApprovedPlanID = [],
     wr_ConstraintDigest = replicate 64 (CHR ''0''), wr_Constraints = [ex_answer_criterion], wr_GitHEAD = [],
     wr_Files = [\<lparr>rf_Path = ''m.txt'', rf_SHA256 = hash_b, rf_Observed = True, rf_Touched = True\<rparr>],
     wr_SnapshotHash = hash_b, wr_CreatedAt = 10\<rparr>"

definition ex_answer_checks :: "verification_check list" where
  "ex_answer_checks = [readback_check [''goal''] ''m.txt'',
     \<lparr>vc_ID = ''criterion:goal'', vc_CriterionIDs = [''goal''], vc_Kind = ''criterion'', vc_Command = [], vc_CWD = [],
      vc_Environment = [], vc_ArtifactRef = [], vc_TimeoutMS = 0\<rparr>]"

definition ex_answer_plan :: verification_plan where
  "ex_answer_plan = \<lparr>vp_Version = 1, vp_ID = ''verification:work:w0000000000'', vp_WorkSpecID = ''work:w000000000000000'',
     vp_RevisionID = ''work-revision:'' @ take 24 hash_b, vp_SnapshotHash = hash_b, vp_Checks = ex_answer_checks,
     vp_CreatedAt = 10\<rparr>"

definition ex_answer_result :: verification_result where
  "ex_answer_result = \<lparr>vr_Version = 1,
     vr_ID = ''verification-result:00000'' @ [CHR 0x00] @ ''verification:work:'',
     vr_PlanID = ''verification:work:w0000000000'', vr_WorkSpecID = ''work:w000000000000000'',
     vr_RevisionID = ''work-revision:'' @ take 24 hash_b, vr_SnapshotHash = hash_b, vr_Status = ''pass'',
     vr_Criteria = [\<lparr>res_CriterionID = ''goal'', res_Status = ''pass'',
       res_Evidence = [\<lparr>sr_Kind = ''tool_record'', sr_ID = ''r:2'', sr_Range = [], sr_SHA256 = []\<rparr>], res_Reason = []\<rparr>],
     vr_CompletedAt = 11\<rparr>"

definition ex_answer_contract :: contract_env where
  "ex_answer_contract = ex_revision_env\<lparr>ce_sha := (\<lambda>s. take 64 ((if CHR 0x00 \<in> set s then drop 16 s else s) @ replicate 64 (CHR ''0''))),
     ce_work_json := (\<lambda>_. ''w''), ce_revision_json := (\<lambda>_. ''R''),
     ce_revision_decode := (\<lambda>p. if p = ''R'' then Some ex_answer_revision else None), ce_spec_json := (\<lambda>_. ''S''),
     ce_plan_json := (\<lambda>_. ''P''), ce_result_json := (\<lambda>_. ''V''),
     ce_result_decode := (\<lambda>p. if p = ''V'' then Some ex_answer_result else None)\<rparr>"

definition ex_evidence :: evidence_env where
  "ex_evidence = \<lparr>ev_contract = ex_answer_contract, ev_command_arg = (\<lambda>_. None), ev_go_test_args = (\<lambda>_. None),
     ev_output = (\<lambda>_. None), ev_kind = (\<lambda>_. None), ev_sections = (\<lambda>_. None), ev_changed = (\<lambda>_. None), ev_path = (\<lambda>_. None),
     ev_hash = (\<lambda>path r m. (Hashed hash_b, r, m)),
     ev_workspace = \<lparr>we_contract = ex_answer_contract, we_manifest = (\<lambda>_. None), we_read = (\<lambda>_. []), we_dir = (\<lambda>_. [])\<rparr>,
     ev_root = [], ev_git = False\<rparr>"

definition ex_tool :: "string \<Rightarrow> string \<Rightarrow> string \<Rightarrow> time \<Rightarrow> tool_record" where
  "ex_tool i tool op t = \<lparr>tr_RunID = ''r'', tr_ToolCallID = i, tr_Name = tool, tr_Arguments = [], tr_State = ''completed'',
     tr_Content = [], tr_Structured = [], tr_Observations = [\<lparr>ob_Path = ''m.txt'', ob_Operation = op, ob_SHA256 = hash_b\<rparr>],
     tr_StartedAt = t, tr_CompletedAt = t + 1\<rparr>"

definition ex_projection :: projection where
  "ex_projection = \<lparr>pj_Blocks = [\<lparr>bk_Sequence = 1, bk_RunID = ''r'', bk_Kind = ''user'', bk_Content = ''fix''\<rparr>],
     pj_ToolRecords = [ex_tool ''2'' ''coding.read_file'' ''read'' 6, ex_tool ''1'' ''coding.write_file'' ''write'' 4],
     pj_CreatedAt = 2\<rparr>"

definition ex_no_todo :: todo_list where
  "ex_no_todo = \<lparr>todo_Goal = [], todo_Revision = 0, todo_Phases = [], todo_UpdatedAt = 0\<rparr>"

definition ex_answer_snap :: evidence_snapshot where
  "ex_answer_snap = \<lparr>es_work = ex_answer_work, es_revision = ex_answer_revision, es_plan = ex_answer_plan, es_todo = ex_no_todo,
     es_records = [ex_tool ''1'' ''coding.write_file'' ''write'' 4, ex_tool ''2'' ''coding.read_file'' ''read'' 6],
     es_goalSource = \<lparr>sr_Kind = ''session_block'', sr_ID = ''1'', sr_Range = [], sr_SHA256 = []\<rparr>, es_mutating = True,
     es_latestMutationAt = 5, es_captureErrors = []\<rparr>"

definition no_artifacts :: artifacts where
  "no_artifacts = \<lparr>as_Rows = [], as_Blobs = []\<rparr>"

definition ex_answer :: "(claim_error + guard_output) \<times> bool \<times> artifacts" where
  "ex_answer = verification_guardrail ex_evidence None None (11, 12, 13) ''s'' ''r'' True (Inr ex_answer_snap) False no_artifacts"

lemma ex_derived: "deriveRuntimeEvidence ex_evidence (9, 10) ex_projection ex_no_todo ''s'' ''r'' [''r''] = Inr ex_answer_snap"
  by code_simp

lemma ex_answer_allowed: "fst ex_answer = Inr AllowOutput"
  by code_simp

lemma ex_json_ok: "json_ok ex_evidence ex_answer_snap 11"
  by code_simp

lemma ex_nothing_stored: "results_before c no_artifacts t"
  by (simp add: results_before_def no_artifacts_def stored_payloads_def trows_def)

lemma ex_answer_split: obtains retried' st' where
    "verification_guardrail ex_evidence None None (11, 12, 13) ''s'' ''r'' True (Inr ex_answer_snap) False no_artifacts =
      (Inr AllowOutput, retried', st')"
  using ex_answer_allowed unfolding ex_answer_def by (metis prod.collapse)

section \<open>Witnesses\<close>

theorem answer_needs_evidence_witness:
  "fst ex_answer = Inr AllowOutput \<and> list_all (check_satisfied ex_evidence ex_answer_snap) ex_answer_checks"
proof -
  obtain retried' st' where run:
    "verification_guardrail ex_evidence None None (11, 12, 13) ''s'' ''r'' True (Inr ex_answer_snap) False no_artifacts =
      (Inr AllowOutput, retried', st')" by (rule ex_answer_split)
  have "es_mutating ex_answer_snap" "vp_Checks (es_plan ex_answer_snap) = ex_answer_checks"
    by (simp_all add: ex_answer_snap_def ex_answer_plan_def)
  with answer_needs_evidence [OF run _ ex_json_ok ex_nothing_stored] ex_answer_allowed show ?thesis by (simp add: list_all_iff)
qed

theorem answer_reads_back_witness:
  "\<exists>tr \<in> set (es_records ex_answer_snap).
     readback_of ''m.txt'' hash_b (fileMutationBoundary ex_evidence ''m.txt'' (es_records ex_answer_snap)) tr"
proof -
  obtain retried' st' where run:
    "verification_guardrail ex_evidence None None (11, 12, 13) ''s'' ''r'' True (Inr ex_answer_snap) False no_artifacts =
      (Inr AllowOutput, retried', st')" by (rule ex_answer_split)
  let ?f = "\<lparr>rf_Path = ''m.txt'', rf_SHA256 = hash_b, rf_Observed = True, rf_Touched = True\<rparr>"
  have "es_mutating ex_answer_snap" "?f \<in> set (wr_Files (es_revision ex_answer_snap))"
    by (simp_all add: ex_answer_snap_def ex_answer_revision_def)
  from answer_reads_back [OF ex_derived run this(1) ex_json_ok ex_nothing_stored this(2)] show ?thesis by simp
qed


theorem guardrail_fails_without_checks_witness:
  "\<exists>e st'. verification_guardrail ex_evidence None None (11, 12, 13) ''s'' ''r'' True
     (Inr (ex_answer_snap\<lparr>es_plan := ex_answer_plan\<lparr>vp_Checks := tl ex_answer_checks\<rparr>\<rparr>)) False no_artifacts = (Inl e, False, st')"
  by (rule guardrail_fails_without_checks)
    (simp_all add: ex_answer_snap_def ex_answer_checks_def ex_answer_work_def guardrailTodoItems_def incompleteTodoItems_def
      ex_no_todo_def)

end
