(* ===== verification/Hashline_Patch.thy ===== *)
theory Hashline_Patch
  imports Go_Strings
begin

text \<open>
  The patch language of the edit tool: the parser of \<^verbatim>\<open>internal/agent/hashline_edit.go\<close>.

  A patch names files by their path and a tag of their contents, and edits them by hunks that put,
  cut, paste, move or remove. The reference is a printer of patches: what it prints is parsed back to
  the same patch. The input is valid UTF-8, as the JSON decoder delivers it; a regular expression is
  the scan it denotes.
\<close>

section \<open>Data\<close>

record hashline_locator =
  loc_kind :: string
  loc_start :: nat
  loc_end :: nat

record hashline_op =
  op_kind :: string
  op_locator :: hashline_locator
  op_body :: "string list"
  op_register :: string
  op_dest :: string
  op_sequence :: nat

record hashline_section =
  sec_path :: string
  sec_tag :: string
  sec_ops :: "hashline_op list"

definition locator0 :: hashline_locator where
  "locator0 = \<lparr>loc_kind = [], loc_start = 0, loc_end = 0\<rparr>"

definition op0 :: hashline_op where
  "op0 = \<lparr>op_kind = [], op_locator = locator0, op_body = [], op_register = [], op_dest = [], op_sequence = 0\<rparr>"

section \<open>The regular expressions\<close>

definition tag_char :: "char \<Rightarrow> bool" where
  "tag_char c \<longleftrightarrow> c \<in> set ''0123456789ABCDEF''"

definition register_char :: "char \<Rightarrow> bool" where
  "register_char c \<longleftrightarrow> (let n = of_char c :: nat in
     65 \<le> n \<and> n \<le> 90 \<or> 97 \<le> n \<and> n \<le> 122 \<or> 48 \<le> n \<and> n \<le> 57 \<or> n = 95 \<or> n = 45)"

text \<open>\<^verbatim>\<open>^\[([^#\r\n]+)#([0-9A-F]{4})\]$\<close>\<close>

definition hashlineSectionHeader :: "string \<Rightarrow> (string \<times> string) option" where
  "hashlineSectionHeader line =
     (case line of
        [] \<Rightarrow> None
      | c # rest \<Rightarrow>
          let path = takeWhile (\<lambda>x. x \<noteq> CHR ''#'') rest;
              after = dropWhile (\<lambda>x. x \<noteq> CHR ''#'') rest;
              tag = take 4 (drop 1 after)
          in if c = CHR ''['' \<and> path \<noteq> [] \<and> CHR 0x0D \<notin> set path \<and> CHR 0x0A \<notin> set path \<and>
                length after = 6 \<and> list_all tag_char tag \<and> drop 5 after = '']''
             then Some (path, tag) else None)"

text \<open>\<^verbatim>\<open>^PUT (.+):$\<close>\<close>

definition hashlinePutBody :: "string \<Rightarrow> string option" where
  "hashlinePutBody line =
     (if HasPrefix line ''PUT '' \<and> HasSuffix (drop 4 line) '':'' \<and> length (drop 4 line) > 1
      then Some (TrimSuffix (drop 4 line) '':'') else None)"

text \<open>\<^verbatim>\<open>(.+?)(?: @([A-Za-z0-9_-]+))?$\<close>: the shortest first group after which the rest matches.\<close>

fun register_suffix :: "string \<Rightarrow> string option" where
  "register_suffix (c # d # name) =
     (if c = CHR '' '' \<and> d = CHR ''@'' \<and> name \<noteq> [] \<and> list_all register_char name then Some name else None)"
| "register_suffix _ = None"

fun lazy_register :: "string \<Rightarrow> (string \<times> string) option" where
  "lazy_register [] = None"
| "lazy_register (c # cs) =
     (case register_suffix cs of
        Some name \<Rightarrow> Some ([c], name)
      | None \<Rightarrow> if cs = [] then Some ([c], [])
          else map_option (\<lambda>(group, name). (c # group, name)) (lazy_register cs))"

definition hashlinePutRegister :: "string \<Rightarrow> (string \<times> string) option" where
  "hashlinePutRegister line = (if HasPrefix line ''PUT '' then lazy_register (drop 4 line) else None)"

definition hashlineCut :: "string \<Rightarrow> (string \<times> string) option" where
  "hashlineCut line = (if HasPrefix line ''CUT '' then lazy_register (drop 4 line) else None)"

section \<open>Quoted strings\<close>

text \<open>\<^verbatim>\<open>strconv.Unquote\<close> of a double-quoted string; the argument is what follows the opening quote.\<close>

definition hex_value :: "char \<Rightarrow> nat option" where
  "hex_value c = (let n = of_char c :: nat in
     if 48 \<le> n \<and> n \<le> 57 then Some (n - 48) else if 97 \<le> n \<and> n \<le> 102 then Some (n - 87)
     else if 65 \<le> n \<and> n \<le> 70 then Some (n - 55) else None)"

fun digits_value :: "nat \<Rightarrow> nat \<Rightarrow> string \<Rightarrow> nat option" where
  "digits_value base acc [] = Some acc"
| "digits_value base acc (c # cs) =
     (case hex_value c of Some v \<Rightarrow> if v < base then digits_value base (acc * base + v) cs else None | None \<Rightarrow> None)"

definition utf8_encode :: "nat \<Rightarrow> string" where
  "utf8_encode r =
     (if r < 128 then [char_of r]
      else if r < 2048 then [char_of (192 + r div 64), char_of (128 + r mod 64)]
      else if r < 65536 then [char_of (224 + r div 4096), char_of (128 + r div 64 mod 64), char_of (128 + r mod 64)]
      else [char_of (240 + r div 262144), char_of (128 + r div 4096 mod 64), char_of (128 + r div 64 mod 64), char_of (128 + r mod 64)])"

definition simple_escape :: "char \<Rightarrow> char option" where
  "simple_escape c = map_of
     [(CHR ''a'', CHR 0x07), (CHR ''b'', CHR 0x08), (CHR ''f'', CHR 0x0C), (CHR ''n'', CHR 0x0A), (CHR ''r'', CHR 0x0D),
      (CHR ''t'', CHR 0x09), (CHR ''v'', CHR 0x0B), (CHR 0x5C, CHR 0x5C), (CHR 0x22, CHR 0x22)] c"

text \<open>An escape sequence after its backslash: the bytes it stands for and how many it takes.\<close>

definition numeric_escape :: "nat \<Rightarrow> string \<Rightarrow> (nat \<Rightarrow> bool) \<Rightarrow> (nat \<Rightarrow> string) \<Rightarrow> (string \<times> nat) option" where
  "numeric_escape n cs ok encode =
     (if length cs < n then None
      else case digits_value 16 0 (take n cs) of
        Some v \<Rightarrow> if ok v then Some (encode v, Suc n) else None | None \<Rightarrow> None)"

definition unquote_escape :: "string \<Rightarrow> (string \<times> nat) option" where
  "unquote_escape s =
     (case s of [] \<Rightarrow> None
      | c # cs \<Rightarrow> (case simple_escape c of Some r \<Rightarrow> Some ([r], 1)
        | None \<Rightarrow>
            if c = CHR ''x'' then numeric_escape 2 cs (\<lambda>_. True) (\<lambda>v. [char_of v])
            else if c = CHR ''u'' then numeric_escape 4 cs (\<lambda>v. v < 55296 \<or> 57344 \<le> v) utf8_encode
            else if c = CHR ''U'' then numeric_escape 8 cs (\<lambda>v. v < 55296 \<or> 57344 \<le> v \<and> v \<le> 1114111) utf8_encode
            else if length s < 3 then None
            else case digits_value 8 0 (take 3 s) of
              Some v \<Rightarrow> if v \<le> 255 then Some ([char_of v], 3) else None | None \<Rightarrow> None))"

function unquote_rest :: "string \<Rightarrow> string option" where
  "unquote_rest [] = None"
| "unquote_rest (c # cs) =
     (if c = CHR 0x22 then (if cs = [] then Some [] else None)
      else if c = CHR 0x0A then None
      else if c = CHR 0x5C then
        (case unquote_escape cs of
           Some (bytes, n) \<Rightarrow> map_option (append bytes) (unquote_rest (drop n cs)) | None \<Rightarrow> None)
      else map_option (Cons c) (unquote_rest cs))"
  by pat_completeness auto
termination
  by (relation "measure length") auto

section \<open>The parser\<close>

definition positiveLine :: "string \<Rightarrow> string + nat" where
  "positiveLine s =
     (case Atoi s of Some v \<Rightarrow> if v \<le> 0 then Inl ''line identifiers are positive integers'' else Inr (nat v)
      | None \<Rightarrow> Inl ''line identifiers are positive integers'')"

definition at_line :: "string \<Rightarrow> string \<Rightarrow> string + hashline_locator" where
  "at_line kind digits = bindE (positiveLine digits) (\<lambda>n. Inr \<lparr>loc_kind = kind, loc_start = n, loc_end = 0\<rparr>)"

definition parse_range :: "string \<Rightarrow> string \<Rightarrow> string + hashline_locator" where
  "parse_range left right =
     bindE (positiveLine left) (\<lambda>start.
     case positiveLine right of
       Inr end_line \<Rightarrow> if end_line < start then Inl ''range end must be at or after its start''
         else Inr \<lparr>loc_kind = ''range'', loc_start = start, loc_end = end_line\<rparr>
     | Inl _ \<Rightarrow> Inl ''range end must be at or after its start'')"

definition parseHashlineLocator :: "string \<Rightarrow> bool \<Rightarrow> string + hashline_locator" where
  "parseHashlineLocator text allowGap =
     (let s = TrimSpace text in
      if s = ''>$'' \<and> allowGap then Inr \<lparr>loc_kind = ''tail'', loc_start = 0, loc_end = 0\<rparr>
      else if HasPrefix s ''>'' \<and> HasSuffix s ''*'' \<and> allowGap then at_line ''after_block'' (TrimSuffix (TrimPrefix s ''>'') ''*'')
      else if HasPrefix s ''<'' \<and> allowGap then at_line ''before'' (TrimPrefix s ''<'')
      else if HasPrefix s ''>'' \<and> allowGap then at_line ''after'' (TrimPrefix s ''>'')
      else if HasSuffix s ''*'' then at_line ''block'' (TrimSuffix s ''*'')
      else case Cut s ''.='' of Some (left, right) \<Rightarrow> parse_range left right | None \<Rightarrow> Inl ''invalid locator'')"

definition parseMoveDestination :: "string \<Rightarrow> string + string" where
  "parseMoveDestination s =
     (case s of
        [] \<Rightarrow> Inl ''MV requires a destination''
      | c # cs \<Rightarrow>
          if c = CHR 0x22 then (case unquote_rest cs of Some d \<Rightarrow> Inr d | None \<Rightarrow> Inl ''invalid quoted MV destination'')
          else if c = CHR 0x27 then
            (if length s < 2 \<or> last s \<noteq> CHR 0x27 then Inl ''invalid quoted MV destination'' else Inr (butlast cs))
          else Inr s)"

text \<open>An operation and whether rows with its body follow.\<close>

definition parseHashlinePatchOp :: "string \<Rightarrow> nat \<Rightarrow> string + hashline_op \<times> bool" where
  "parseHashlinePatchOp line sequence =
     (case hashlinePutBody line of
        Some loc \<Rightarrow> bindE (parseHashlineLocator loc True) (\<lambda>l.
          Inr (op0\<lparr>op_kind := ''put'', op_locator := l, op_sequence := sequence\<rparr>, True))
      | None \<Rightarrow> (case hashlinePutRegister line of
        Some (loc, name) \<Rightarrow> bindE (parseHashlineLocator loc True) (\<lambda>l.
          if (loc_kind l = ''range'' \<or> loc_kind l = ''block'') \<and> name = [] then Inl ''range/block register PUT requires @name''
          else Inr (op0\<lparr>op_kind := ''paste'', op_locator := l, op_register := name, op_sequence := sequence\<rparr>, False))
      | None \<Rightarrow> (case hashlineCut line of
        Some (loc, name) \<Rightarrow> (case parseHashlineLocator loc False of
          Inr l \<Rightarrow> if loc_kind l \<noteq> ''range'' \<and> loc_kind l \<noteq> ''block'' then Inl ''CUT requires N.=M or N*''
            else Inr (op0\<lparr>op_kind := ''cut'', op_locator := l, op_register := name, op_sequence := sequence\<rparr>, False)
        | Inl _ \<Rightarrow> Inl ''CUT requires N.=M or N*'')
      | None \<Rightarrow>
        if line = ''REM'' then Inr (op0\<lparr>op_kind := ''remove'', op_sequence := sequence\<rparr>, False)
        else if HasPrefix line ''MV '' then bindE (parseMoveDestination (TrimSpace (TrimPrefix line ''MV ''))) (\<lambda>d.
          Inr (op0\<lparr>op_kind := ''move'', op_dest := d, op_sequence := sequence\<rparr>, False))
        else Inl ''unrecognized hunk'')))"

text \<open>The rows of a body: the lines that start with a plus.\<close>

definition body_row :: "string \<Rightarrow> bool" where
  "body_row line \<longleftrightarrow> HasPrefix line ''+''"

definition is_header :: "string \<Rightarrow> bool" where
  "is_header line \<longleftrightarrow> hashlineSectionHeader line \<noteq> None"

text \<open>The hunks of a section, up to the next header; with them the next sequence number and the lines left.\<close>

function parse_ops :: "nat \<Rightarrow> string list \<Rightarrow> string + hashline_op list \<times> nat \<times> string list" where
  "parse_ops sequence [] = Inr ([], sequence, [])"
| "parse_ops sequence (line # rest) =
     (if is_header line then Inr ([], sequence, line # rest)
      else if line = [] then Inl ''blank lines are not valid between hunks''
      else bindE (parseHashlinePatchOp line sequence) (\<lambda>(operation, consumesBody).
        if consumesBody
        then let body = map tl (takeWhile body_row rest) in
          if body = [] then Inl ''PUT body requires at least one + row''
          else bindE (parse_ops (Suc sequence) (dropWhile body_row rest)) (\<lambda>(ops, left).
            Inr (operation\<lparr>op_body := body\<rparr> # ops, left))
        else bindE (parse_ops (Suc sequence) rest) (\<lambda>(ops, left). Inr (operation # ops, left))))"
  by pat_completeness auto
termination
  by (relation "measure (\<lambda>(n, ls). length ls)") (auto simp: length_dropWhile_le le_imp_less_Suc)

lemma parse_ops_shorter: "parse_ops n ls = Inr (ops, m, left) \<Longrightarrow> length left \<le> length ls"
proof (induction n ls arbitrary: ops m left rule: parse_ops.induct)
  case (2 n line rest)
  show ?case
  proof (cases "is_header line \<or> line = []")
    case True
    with "2.prems" show ?thesis by (auto split: if_splits)
  next
    case False
    with "2.prems" obtain operation consumesBody where p: "parseHashlinePatchOp line n = Inr (operation, consumesBody)"
      by (auto simp: bindE_eq_Inr)
    let ?rest = "if consumesBody then dropWhile body_row rest else rest"
    from "2.prems" False p obtain ops' where "parse_ops (Suc n) ?rest = Inr (ops', m, left)"
      and "consumesBody \<longrightarrow> takeWhile body_row rest \<noteq> []"
      by (auto simp: bindE_eq_Inr Let_def split: if_splits)
    with "2.IH" False p have "length left \<le> length ?rest" by (auto split: if_splits)
    also have "\<dots> \<le> length rest" by (simp add: length_dropWhile_le)
    finally show ?thesis by simp
  qed
qed simp

function parse_sections :: "nat \<Rightarrow> string list \<Rightarrow> string + hashline_section list" where
  "parse_sections sequence [] = Inr []"
| "parse_sections sequence (line # rest) =
     (case hashlineSectionHeader line of
        None \<Rightarrow> Inl ''expected [PATH#TAG] section header''
      | Some (path, tag) \<Rightarrow> (case parse_ops sequence rest of
          Inl e \<Rightarrow> Inl e
        | Inr (ops, sequence', left) \<Rightarrow>
            if ops = [] then Inl ''section has no hunks''
            else bindE (parse_sections sequence' left) (\<lambda>sections.
              Inr (\<lparr>sec_path = path, sec_tag = tag, sec_ops = ops\<rparr> # sections))))"
  by pat_completeness auto
termination
  by (relation "measure (\<lambda>(n, ls). length ls)") (auto dest: parse_ops_shorter)

definition normalize_newlines :: "string \<Rightarrow> string" where
  "normalize_newlines text = ReplaceAll (ReplaceAll text [CHR 0x0D, CHR 0x0A] [CHR 0x0A]) [CHR 0x0D] [CHR 0x0A]"

definition parseHashlinePatch :: "string \<Rightarrow> string + hashline_section list" where
  "parseHashlinePatch input =
     (let lines = Split (CHR 0x0A) (normalize_newlines input) in
      if length lines < 3 \<or> lines ! 0 \<noteq> ''*** Begin Patch'' then Inl ''patch must begin with *** Begin Patch''
      else let e = length lines - 1; end_line = (if lines ! e = [] then e - 1 else e) in
        if end_line = 0 \<or> lines ! end_line \<noteq> ''*** End Patch'' then Inl ''patch must end with *** End Patch''
        else bindE (parse_sections 0 (drop 1 (take end_line lines))) (\<lambda>sections.
          if sections = [] then Inl ''patch has no file sections'' else Inr sections))"


section \<open>The printer\<close>

definition print_locator :: "hashline_locator \<Rightarrow> string" where
  "print_locator l =
     (let n = Itoa (loc_start l) in
      if loc_kind l = ''range'' then n @ ''.='' @ Itoa (loc_end l)
      else if loc_kind l = ''block'' then n @ ''*''
      else if loc_kind l = ''before'' then ''<'' @ n
      else if loc_kind l = ''after'' then ''>'' @ n
      else if loc_kind l = ''after_block'' then ''>'' @ n @ ''*''
      else ''>$'')"

definition print_register :: "string \<Rightarrow> string" where
  "print_register name = (if name = [] then [] else '' @'' @ name)"

definition print_op :: "hashline_op \<Rightarrow> string list" where
  "print_op op =
     (let loc = print_locator (op_locator op) in
      if op_kind op = ''put'' then (''PUT '' @ loc @ '':'') # map (Cons (CHR ''+'')) (op_body op)
      else if op_kind op = ''paste'' then [''PUT '' @ loc @ print_register (op_register op)]
      else if op_kind op = ''cut'' then [''CUT '' @ loc @ print_register (op_register op)]
      else if op_kind op = ''remove'' then [''REM'']
      else [''MV '' @ op_dest op])"

definition print_section :: "hashline_section \<Rightarrow> string list" where
  "print_section sec = (''['' @ sec_path sec @ ''#'' @ sec_tag sec @ '']'') # concat (map print_op (sec_ops sec))"

definition print_lines :: "hashline_section list \<Rightarrow> string list" where
  "print_lines sections = ''*** Begin Patch'' # concat (map print_section sections) @ [''*** End Patch'']"

text \<open>The patches a printer can express: no line break inside a line, identifiers of the given form.\<close>

definition one_line :: "string \<Rightarrow> bool" where
  "one_line s \<longleftrightarrow> CHR 0x0A \<notin> set s \<and> CHR 0x0D \<notin> set s"

definition locator_ok :: "bool \<Rightarrow> hashline_locator \<Rightarrow> bool" where
  "locator_ok allowGap l \<longleftrightarrow>
     (loc_kind l = ''tail'' \<and> allowGap \<and> loc_start l = 0 \<and> loc_end l = 0) \<or>
     (loc_kind l \<in> {''before'', ''after'', ''after_block''} \<and> allowGap \<and> 0 < loc_start l \<and> loc_start l < 2 ^ 63 \<and> loc_end l = 0) \<or>
     (loc_kind l = ''block'' \<and> 0 < loc_start l \<and> loc_start l < 2 ^ 63 \<and> loc_end l = 0) \<or>
     (loc_kind l = ''range'' \<and> 0 < loc_start l \<and> loc_start l \<le> loc_end l \<and> loc_end l < 2 ^ 63)"

definition op_ok :: "nat \<Rightarrow> hashline_op \<Rightarrow> bool" where
  "op_ok n op \<longleftrightarrow> op_sequence op = n \<and> list_all register_char (op_register op) \<and>
     (if op_kind op = ''put''
      then locator_ok True (op_locator op) \<and> op_body op \<noteq> [] \<and> list_all one_line (op_body op) \<and> op_register op = [] \<and> op_dest op = []
      else if op_kind op = ''paste''
      then locator_ok True (op_locator op) \<and> op_body op = [] \<and> op_dest op = [] \<and>
        (loc_kind (op_locator op) \<in> {''range'', ''block''} \<longrightarrow> op_register op \<noteq> [])
      else if op_kind op = ''cut'' then locator_ok False (op_locator op) \<and> op_body op = [] \<and> op_dest op = []
      else op_locator op = locator0 \<and> op_body op = [] \<and> op_register op = [] \<and>
        (if op_kind op = ''remove'' then op_dest op = []
         else op_kind op = ''move'' \<and> op_dest op \<noteq> [] \<and> one_line (op_dest op) \<and> TrimSpace (op_dest op) = op_dest op \<and>
           hd (op_dest op) \<noteq> CHR 0x22 \<and> hd (op_dest op) \<noteq> CHR 0x27))"

fun ops_ok :: "nat \<Rightarrow> hashline_op list \<Rightarrow> bool" where
  "ops_ok n [] \<longleftrightarrow> True"
| "ops_ok n (op # ops) \<longleftrightarrow> op_ok n op \<and> ops_ok (Suc n) ops"

definition section_ok :: "hashline_section \<Rightarrow> bool" where
  "section_ok sec \<longleftrightarrow> sec_path sec \<noteq> [] \<and> CHR ''#'' \<notin> set (sec_path sec) \<and> one_line (sec_path sec) \<and>
     length (sec_tag sec) = 4 \<and> list_all tag_char (sec_tag sec) \<and> sec_ops sec \<noteq> []"

fun sections_ok :: "nat \<Rightarrow> hashline_section list \<Rightarrow> bool" where
  "sections_ok n [] \<longleftrightarrow> True"
| "sections_ok n (sec # secs) \<longleftrightarrow> section_ok sec \<and> ops_ok n (sec_ops sec) \<and> sections_ok (n + length (sec_ops sec)) secs"

section \<open>What is printed is parsed\<close>

lemma Itoa_digit: "c \<in> set (Itoa n) \<Longrightarrow> c \<in> set ''0123456789''"
  using digit_charI [OF Itoa_digits] by (simp add: digit_char_def)

lemma Itoa_free: "c \<notin> set ''0123456789'' \<Longrightarrow> c \<notin> set (Itoa n)"
  using Itoa_digit by blast

lemma Itoa_nonempty [simp]: "Itoa n \<noteq> []"
  by (subst Itoa.simps) simp

lemma positiveLine_Itoa: "0 < n \<Longrightarrow> n < 2 ^ 63 \<Longrightarrow> positiveLine (Itoa n) = Inr n"
  by (simp add: positiveLine_def Atoi_Itoa)

definition locator_char :: "char \<Rightarrow> bool" where
  "locator_char c \<longleftrightarrow> c \<in> set ''0123456789.=*<>$''"

lemma locator_char_printable: "locator_char c \<Longrightarrow> printable c"
  unfolding locator_char_def by (simp only: list.set) (elim insertE; (hypsubst, code_simp)?; simp)

lemma print_locator_chars: "list_all locator_char (print_locator l)"
proof -
  have "list_all locator_char (Itoa n)" for n
    unfolding list_all_iff locator_char_def using Itoa_digit by fastforce
  then show ?thesis unfolding print_locator_def by (simp add: Let_def locator_char_def)
qed

lemma print_locator_nonempty: "print_locator l \<noteq> []"
  by (simp add: print_locator_def Let_def)

lemma print_locator_trim: "TrimSpace (print_locator l) = print_locator l"
  using print_locator_chars locator_char_printable
  by (intro TrimSpace_printable) (auto simp: list_all_iff)

lemma Itoa_ends:
  assumes "c \<notin> set ''0123456789''"
  shows "hd (Itoa n) \<noteq> c" and "last (Itoa n) \<noteq> c"
proof -
  have "hd (Itoa n) \<in> set ''0123456789''" and "last (Itoa n) \<in> set ''0123456789''"
    by (rule Itoa_digit [of _ n], simp)+
  with assms show "hd (Itoa n) \<noteq> c" and "last (Itoa n) \<noteq> c" by metis+
qed

lemma locator_okE:
  assumes "locator_ok allowGap l"
  obtains "l = \<lparr>loc_kind = ''tail'', loc_start = 0, loc_end = 0\<rparr>" and allowGap
  | k n where "l = \<lparr>loc_kind = k, loc_start = n, loc_end = 0\<rparr>" and "k \<in> {''before'', ''after'', ''after_block''}"
      and "0 < n" and "n < 2 ^ 63" and allowGap
  | n where "l = \<lparr>loc_kind = ''block'', loc_start = n, loc_end = 0\<rparr>" and "0 < n" and "n < 2 ^ 63"
  | n m where "l = \<lparr>loc_kind = ''range'', loc_start = n, loc_end = m\<rparr>" and "0 < n" and "n \<le> m" and "m < 2 ^ 63"
  using assms unfolding locator_ok_def by (cases l) fastforce

lemma parse_print_locator:
  assumes "locator_ok allowGap l"
  shows "parseHashlineLocator (print_locator l) allowGap = Inr l"
  using assms
proof (cases rule: locator_okE)
  case (2 k n)
  from 2(3,4) have n: "at_line kind (Itoa n) = Inr \<lparr>loc_kind = kind, loc_start = n, loc_end = 0\<rparr>" for kind
    by (simp add: at_line_def positiveLine_Itoa)
  have dollar: "Itoa n \<noteq> ''$''" using Itoa_ends(1) [of "CHR ''$''" n] by (cases "Itoa n") auto
  have trim: "TrimSpace (print_locator l) = print_locator l" by (rule print_locator_trim)
  from 2(2) consider "k = ''before''" | "k = ''after''" | "k = ''after_block''" by blast
  then show ?thesis
  proof cases
    case 1
    with 2 have l: "print_locator l = ''<'' @ Itoa n" by (simp add: print_locator_def)
    from trim [unfolded l] 1 2 n show ?thesis unfolding l
      by (simp add: parseHashlineLocator_def Let_def TrimPrefix_def)
  next
    case k: 2
    with 2 have l: "print_locator l = ''>'' @ Itoa n" by (simp add: print_locator_def)
    from trim [unfolded l] k 2 n dollar show ?thesis unfolding l
      by (simp add: parseHashlineLocator_def Let_def TrimPrefix_def HasSuffix_one Itoa_ends)
  next
    case 3
    with 2 have l: "print_locator l = ''>'' @ Itoa n @ ''*''" by (simp add: print_locator_def)
    have "TrimSuffix (Itoa n @ ''*'') ''*'' = Itoa n" by (rule TrimSuffix_append)
    with trim [unfolded l] 3 2 n show ?thesis unfolding l
      by (simp add: parseHashlineLocator_def Let_def TrimPrefix_def HasSuffix_one)
  qed
next
  case (3 n)
  then have l: "print_locator l = Itoa n @ ''*''" by (simp add: print_locator_def)
  have "TrimSuffix (Itoa n @ ''*'') ''*'' = Itoa n" by (rule TrimSuffix_append)
  with print_locator_trim [of l, unfolded l] 3 show ?thesis unfolding l
    by (auto simp: parseHashlineLocator_def Let_def HasPrefix_one HasSuffix_one Itoa_ends at_line_def positiveLine_Itoa
      append_eq_Cons_conv)
next
  case (4 n m)
  then have l: "print_locator l = Itoa n @ ''.='' @ Itoa m" by (simp add: print_locator_def)
  have cut: "Cut (Itoa n @ ''.='' @ Itoa m) ''.='' = Some (Itoa n, Itoa m)"
    by (intro Cut_free) (auto dest: Itoa_digit)
  have "Itoa n @ ''.='' @ Itoa m \<noteq> ''>$''" using Itoa_ends(1) [of "CHR ''>''" n] by (cases "Itoa n") auto
  with print_locator_trim [of l, unfolded l] 4 cut show ?thesis unfolding l
    by (simp add: parseHashlineLocator_def Let_def HasPrefix_one HasSuffix_one Itoa_ends parse_range_def positiveLine_Itoa)
qed (simp add: parseHashlineLocator_def print_locator_trim, simp add: print_locator_def)

lemma register_suffix_None: "s = [] \<or> hd s \<noteq> CHR '' '' \<Longrightarrow> register_suffix s = None"
  by (cases s rule: register_suffix.cases) auto

lemma lazy_register_plain: "s \<noteq> [] \<Longrightarrow> CHR '' '' \<notin> set s \<Longrightarrow> lazy_register s = Some (s, [])"
proof (induction s)
  case (Cons c cs)
  then have "register_suffix cs = None" by (cases cs) (auto intro: register_suffix_None)
  with Cons show ?case by (cases "cs = []") auto
qed simp

lemma lazy_register_named:
  "s \<noteq> [] \<Longrightarrow> CHR '' '' \<notin> set s \<Longrightarrow> name \<noteq> [] \<Longrightarrow> list_all register_char name \<Longrightarrow>
     lazy_register (s @ '' @'' @ name) = Some (s, name)"
proof (induction s)
  case (Cons c cs)
  show ?case
  proof (cases "cs = []")
    case True
    with Cons.prems show ?thesis by simp
  next
    case False
    then have "register_suffix (cs @ '' @'' @ name) = None"
      using Cons.prems by (intro register_suffix_None) (cases cs; auto)
    with Cons False show ?thesis by simp
  qed
qed simp

lemma locator_no_blank: "CHR '' '' \<notin> set (print_locator l)" "CHR '':'' \<notin> set (print_locator l)"
  proof -
  have "\<not> locator_char (CHR '' '')" "\<not> locator_char (CHR '':'')" by (simp_all add: locator_char_def)
  with print_locator_chars [of l] show "CHR '' '' \<notin> set (print_locator l)" "CHR '':'' \<notin> set (print_locator l)"
    by (auto simp: list_all_iff)
qed

lemma lazy_register_print:
  "list_all register_char name \<Longrightarrow> lazy_register (print_locator l @ print_register name) = Some (print_locator l, name)"
  using lazy_register_plain [OF print_locator_nonempty locator_no_blank(1), of l]
    lazy_register_named [OF print_locator_nonempty locator_no_blank(1), of name l]
  by (cases "name = []") (simp_all add: print_register_def)

lemma hashlinePutBody_print: "hashlinePutBody (''PUT '' @ print_locator l @ '':'') = Some (print_locator l)"
proof -
  have "TrimSuffix (print_locator l @ '':'') '':'' = print_locator l" by (rule TrimSuffix_append)
  then show ?thesis by (simp add: hashlinePutBody_def HasSuffix_one print_locator_nonempty)
qed

lemma hashlinePutBody_register:
  assumes "list_all register_char name"
  shows "hashlinePutBody (''PUT '' @ print_locator l @ print_register name) = None"
proof -
  have "\<not> register_char (CHR '':'')" by code_simp
  with assms have "CHR '':'' \<notin> set name" by (auto simp: list_all_iff)
  then have "last (print_locator l @ print_register name) \<noteq> CHR '':''"
    using locator_no_blank(2) [of l] print_locator_nonempty [of l]
    by (auto simp: print_register_def dest!: last_in_set [of "print_locator l"] last_in_set [of name])
  then show ?thesis by (simp add: hashlinePutBody_def HasSuffix_one)
qed

text \<open>The first line of a printed hunk.\<close>

definition op_line :: "hashline_op \<Rightarrow> string" where
  "op_line op = hd (print_op op)"

lemma op_kinds: "op_ok n op \<Longrightarrow> op_kind op \<in> {''put'', ''paste'', ''cut'', ''remove'', ''move''}"
  by (auto simp: op_ok_def split: if_splits)

lemma parse_print_op:
  assumes "op_ok n op"
  shows "parseHashlinePatchOp (op_line op) n = Inr (op\<lparr>op_body := []\<rparr>, op_kind op = ''put'')"
proof -
  obtain k l b r d q where op: "op = \<lparr>op_kind = k, op_locator = l, op_body = b, op_register = r, op_dest = d, op_sequence = q\<rparr>"
    by (cases op)
  have cut: "hashlinePutBody (''CUT '' @ s) = None" "hashlinePutRegister (''CUT '' @ s) = None" for s
    by (simp_all add: hashlinePutBody_def hashlinePutRegister_def)
  have other: "hashlinePutBody s = None" "hashlinePutRegister s = None" "hashlineCut s = None"
    if "\<not> HasPrefix s ''PUT ''" "\<not> HasPrefix s ''CUT ''" for s
    using that by (simp_all add: hashlinePutBody_def hashlinePutRegister_def hashlineCut_def)
  from op_kinds [OF assms] consider "k = ''put''" | "k = ''paste''" | "k = ''cut''" | "k = ''remove''" | "k = ''move''"
    by (auto simp: op)
  then show ?thesis
  proof cases
    case 1
    with assms parse_print_locator [of True l] hashlinePutBody_print [of l] show ?thesis
      by (simp add: op op_ok_def op_line_def print_op_def parseHashlinePatchOp_def op0_def)
  next
    case 2
    with assms parse_print_locator [of True l] hashlinePutBody_register [of r l] lazy_register_print [of r l] show ?thesis
      by (auto simp: op op_ok_def op_line_def print_op_def parseHashlinePatchOp_def op0_def hashlinePutRegister_def)
  next
    case 3
    with assms parse_print_locator [of False l] cut [of "print_locator l @ print_register r"] lazy_register_print [of r l]
    show ?thesis
      by (auto simp: op op_ok_def op_line_def print_op_def parseHashlinePatchOp_def op0_def hashlineCut_def locator_ok_def)
  next
    case 4
    with assms other [of "''REM''"] show ?thesis
      by (simp add: op op_ok_def op_line_def print_op_def parseHashlinePatchOp_def op0_def)
  next
    case 5
    with assms have d: "d \<noteq> []" "TrimSpace d = d" "hd d \<noteq> CHR 0x22" "hd d \<noteq> CHR 0x27" by (auto simp: op op_ok_def)
    then have "parseMoveDestination d = Inr d" by (cases d) (simp_all add: parseMoveDestination_def)
    with 5 assms d other [of "''MV '' @ d"] show ?thesis
      by (simp add: op op_ok_def op_line_def print_op_def parseHashlinePatchOp_def op0_def TrimPrefix_def)
  qed
qed

lemma print_op_line: "op_ok n op \<Longrightarrow> print_op op = op_line op # map (Cons (CHR ''+'')) (op_body op)"
  by (auto simp: op_ok_def op_line_def print_op_def Let_def split: if_splits)

lemma op_line_shape:
  assumes "op_ok n op"
  shows "op_line op \<noteq> []" and "\<not> is_header (op_line op)" and "\<not> body_row (op_line op)"
proof -
  have "\<exists>c cs. op_line op = c # cs \<and> c \<in> {CHR ''P'', CHR ''C'', CHR ''R'', CHR ''M''}"
    by (auto simp: op_line_def print_op_def Let_def)
  then show "op_line op \<noteq> []" "\<not> is_header (op_line op)" "\<not> body_row (op_line op)"
    by (auto simp: is_header_def hashlineSectionHeader_def body_row_def Let_def)
qed

lemma header_shape: "is_header line \<Longrightarrow> line \<noteq> [] \<and> \<not> body_row line"
  by (cases line) (auto simp: is_header_def hashlineSectionHeader_def body_row_def Let_def split: if_splits)

text \<open>Lines at which the rows of a body and the hunks of a section end.\<close>

definition stops :: "string list \<Rightarrow> bool" where
  "stops ls \<longleftrightarrow> ls = [] \<or> is_header (hd ls)"

lemma take_body:
  assumes "ls = [] \<or> \<not> body_row (hd ls)"
  shows "takeWhile body_row (map (Cons (CHR ''+'')) body @ ls) = map (Cons (CHR ''+'')) body"
    and "dropWhile body_row (map (Cons (CHR ''+'')) body @ ls) = ls"
  using assms by (induction body) (cases ls; simp add: body_row_def)+

lemma parse_print_ops:
  "ops_ok n ops \<Longrightarrow> stops rest \<Longrightarrow> parse_ops n (concat (map print_op ops) @ rest) = Inr (ops, n + length ops, rest)"
proof (induction ops arbitrary: n)
  case Nil
  then show ?case by (cases rest) (auto simp: stops_def)
next
  case (Cons op ops)
  let ?later = "concat (map print_op ops) @ rest"
  from Cons.prems have ok: "op_ok n op" "ops_ok (Suc n) ops" by simp_all
  have later: "?later = [] \<or> \<not> body_row (hd ?later)"
  proof (cases ops)
    case Nil
    with Cons.prems(2) show ?thesis by (auto simp: stops_def dest: header_shape)
  next
    case (Cons op' ops')
    with ok(2) have "op_ok (Suc n) op'" by simp
    from op_line_shape(3) [OF this] print_op_line [OF this] Cons show ?thesis by simp
  qed
  have IH: "parse_ops (Suc n) ?later = Inr (ops, Suc n + length ops, rest)"
    by (rule Cons.IH [OF ok(2) Cons.prems(2)])
  have body: "op_kind op = ''put'' \<longleftrightarrow> op_body op \<noteq> []" using ok(1) by (auto simp: op_ok_def split: if_splits)
  have lines: "concat (map print_op (op # ops)) @ rest = op_line op # map (Cons (CHR ''+'')) (op_body op) @ ?later"
    by (simp add: print_op_line [OF ok(1)])
  have empty: "op_body op = [] \<Longrightarrow> op\<lparr>op_body := []\<rparr> = op" by (cases op) simp
  have tails: "map (tl \<circ> (#) (CHR ''+'')) b = b" for b :: "string list" by (induction b) auto
  show ?case unfolding lines
    using op_line_shape [OF ok(1)] parse_print_op [OF ok(1)] IH body take_body [OF later, of "op_body op"] empty tails
    by (cases "op_body op = []") (simp_all add: Let_def)
qed

lemma header_print:
  assumes "section_ok sec"
  shows "hashlineSectionHeader (''['' @ sec_path sec @ ''#'' @ sec_tag sec @ '']'') = Some (sec_path sec, sec_tag sec)"
proof -
  have path: "\<forall>x \<in> set (sec_path sec). x \<noteq> CHR ''#''" using assms by (auto simp: section_ok_def)
  have "takeWhile (\<lambda>x. x \<noteq> CHR ''#'') (sec_path sec @ ''#'' @ sec_tag sec @ '']'') = sec_path sec"
    "dropWhile (\<lambda>x. x \<noteq> CHR ''#'') (sec_path sec @ ''#'' @ sec_tag sec @ '']'') = ''#'' @ sec_tag sec @ '']''"
    using path by (simp_all add: takeWhile_append dropWhile_append)
  moreover have "take 4 (sec_tag sec @ '']'') = sec_tag sec" "drop 4 (sec_tag sec @ '']'') = '']''" "length (sec_tag sec) = 4"
    using assms by (simp_all add: section_ok_def)
  ultimately show ?thesis using assms
    by (simp add: hashlineSectionHeader_def section_ok_def one_line_def eval_nat_numeral)
qed

lemma parse_print_sections: "sections_ok n secs \<Longrightarrow> parse_sections n (concat (map print_section secs)) = Inr secs"
proof (induction secs arbitrary: n)
  case (Cons sec secs)
  let ?later = "concat (map print_section secs)"
  from Cons.prems have ok: "section_ok sec" "ops_ok n (sec_ops sec)" "sections_ok (n + length (sec_ops sec)) secs" by simp_all
  have "stops ?later"
  proof (cases secs)
    case (Cons sec' secs')
    with ok(3) have "section_ok sec'" by simp
    from header_print [OF this] Cons show ?thesis by (simp add: stops_def print_section_def is_header_def)
  qed (simp add: stops_def)
  note ops = parse_print_ops [OF ok(2) this]
  have lines: "concat (map print_section (sec # secs)) =
      (''['' @ sec_path sec @ ''#'' @ sec_tag sec @ '']'') # (concat (map print_op (sec_ops sec)) @ ?later)"
    by (simp add: print_section_def)
  show ?case unfolding lines parse_sections.simps header_print [OF ok(1)]
    using ops Cons.IH [OF ok(3)] ok(1) by (simp add: section_ok_def)
qed simp

text \<open>Whatever the line ends of the input are.\<close>

lemma ReplaceAll_free: "x \<in> set old \<Longrightarrow> x \<notin> set s \<Longrightarrow> ReplaceAll s old new = s"
proof (induction s)
  case (Cons c cs)
  then have "\<not> HasPrefix (c # cs) old" by (auto simp: HasPrefix_iff) (metis in_set_conv_decomp UnCI set_append set_ConsD)
  with Cons show ?case by simp
qed simp

lemma ReplaceAll_append: "old \<noteq> [] \<Longrightarrow> hd old \<notin> set s \<Longrightarrow> ReplaceAll (s @ t) old new = s @ ReplaceAll t old new"
  by (induction s) (cases old; auto)+

lemma normalize_Join:
  assumes "nl \<in> {[CHR 0x0A], [CHR 0x0D, CHR 0x0A], [CHR 0x0D]}" and "\<forall>l \<in> set ls. one_line l"
  shows "normalize_newlines (Join ls nl) = Join ls [CHR 0x0A]"
proof -
  have free: "CHR 0x0D \<notin> set l" "CHR 0x0A \<notin> set l" if "l \<in> set ls" for l using assms(2) that by (auto simp: one_line_def)
  have crlf: "ReplaceAll (Join ms [CHR 0x0D, CHR 0x0A]) [CHR 0x0D, CHR 0x0A] [CHR 0x0A] = Join ms [CHR 0x0A]"
    if "set ms \<subseteq> set ls" for ms
    using that by (induction ms "[CHR 0x0D, CHR 0x0A]" rule: Join.induct) (auto simp: ReplaceAll_free [of "CHR 0x0D"] ReplaceAll_append free)
  have cr: "ReplaceAll (Join ms [CHR 0x0D]) [CHR 0x0D] [CHR 0x0A] = Join ms [CHR 0x0A]" if "set ms \<subseteq> set ls" for ms
    using that by (induction ms "[CHR 0x0D]" rule: Join.induct) (auto simp: ReplaceAll_free [of "CHR 0x0D"] ReplaceAll_append free)
  have lf': "CHR 0x0A \<notin> set (Join ms [CHR 0x0D])" if "set ms \<subseteq> set ls" for ms
    using that by (induction ms "[CHR 0x0D]" rule: Join.induct) (auto simp: free)
  have none: "ReplaceAll (Join ls [CHR 0x0D]) [CHR 0x0D, CHR 0x0A] [CHR 0x0A] = Join ls [CHR 0x0D]"
    by (rule ReplaceAll_free [OF _ lf']) simp_all
  have lf: "CHR 0x0D \<notin> set (Join ms [CHR 0x0A])" if "set ms \<subseteq> set ls" for ms
    using that by (induction ms "[CHR 0x0A]" rule: Join.induct) (auto simp: free)
  from assms(1) crlf [of ls] cr [of ls] none lf [of ls] show ?thesis
    by (auto simp: normalize_newlines_def ReplaceAll_free [of "CHR 0x0D"])
qed

lemma chars_one_line:
  assumes "list_all P s" and "\<not> P (CHR 0x0A)" and "\<not> P (CHR 0x0D)"
  shows "one_line s"
  using assms by (auto simp: one_line_def list_all_iff)

lemma one_line_append [simp]: "one_line (s @ t) \<longleftrightarrow> one_line s \<and> one_line t"
  by (auto simp: one_line_def)

lemma one_line_Cons [simp]: "one_line (c # s) \<longleftrightarrow> c \<noteq> CHR 0x0A \<and> c \<noteq> CHR 0x0D \<and> one_line s"
  by (auto simp: one_line_def)

lemma one_line_Nil [simp]: "one_line []"
  by (simp add: one_line_def)

lemma one_line_parts:
  "one_line (print_locator l)" "list_all register_char r \<Longrightarrow> one_line r" "list_all tag_char t \<Longrightarrow> one_line t"
proof -
  show "one_line (print_locator l)"
    by (rule chars_one_line [OF print_locator_chars]) (simp_all add: locator_char_def)
  show "one_line r" if "list_all register_char r"
    by (rule chars_one_line [OF that]) code_simp+
  show "one_line t" if "list_all tag_char t"
    by (rule chars_one_line [OF that]) (simp_all add: tag_char_def)
qed

lemma op_one_line:
  assumes "op_ok n op" and "l \<in> set (print_op op)"
  shows "one_line l"
proof -
  from assms(1) have parts: "one_line (op_register op)" "\<forall>b \<in> set (op_body op). one_line b"
    "op_kind op = ''move'' \<Longrightarrow> one_line (op_dest op)"
    using one_line_parts(2) by (auto simp: op_ok_def list_all_iff split: if_splits)
  from op_kinds [OF assms(1)] assms(2) parts show ?thesis
    by (auto simp: print_op_def print_register_def one_line_parts(1) Let_def split: if_splits)
qed

lemma ops_one_line: "ops_ok n ops \<Longrightarrow> l \<in> set (concat (map print_op ops)) \<Longrightarrow> one_line l"
  by (induction ops arbitrary: n) (auto dest: op_one_line)

lemma sections_one_line: "sections_ok n secs \<Longrightarrow> l \<in> set (concat (map print_section secs)) \<Longrightarrow> one_line l"
proof (induction secs arbitrary: n)
  case (Cons sec secs)
  then have ok: "section_ok sec" "ops_ok n (sec_ops sec)" "sections_ok (n + length (sec_ops sec)) secs" by simp_all
  from Cons.prems(2) consider "l = ''['' @ sec_path sec @ ''#'' @ sec_tag sec @ '']''"
    | "l \<in> set (concat (map print_op (sec_ops sec)))" | "l \<in> set (concat (map print_section secs))"
    by (auto simp: print_section_def)
  then show ?case
  proof cases
    case 1
    with ok(1) show ?thesis by (simp add: section_ok_def one_line_parts)
  next
    case 2
    then show ?thesis by (rule ops_one_line [OF ok(2)])
  next
    case 3
    then show ?thesis by (rule Cons.IH [OF ok(3)])
  qed
qed simp

text \<open>C27. The patch language is unambiguous: every patch whose names, tags, locators and rows fit on
  their lines is parsed back from its printed form, hunk by hunk with their order, whether its lines
  end in LF, CRLF or CR and whether or not the last line is ended.\<close>

theorem patch_roundtrip:
  assumes "sections \<noteq> []" and "sections_ok 0 sections"
    and "nl \<in> {[CHR 0x0A], [CHR 0x0D, CHR 0x0A], [CHR 0x0D]}" and "ending \<in> {[], [[]]}"
  shows "parseHashlinePatch (Join (print_lines sections @ ending) nl) = Inr sections"
proof -
  let ?mid = "concat (map print_section sections)"
  let ?ls = "print_lines sections @ ending"
  have "one_line l" if "l \<in> set ?ls" for l
    using that assms(4) sections_one_line [OF assms(2)] by (auto simp: print_lines_def)
  then have lines: "Split (CHR 0x0A) (normalize_newlines (Join ?ls nl)) = ?ls"
    by (subst normalize_Join [OF assms(3)]) (auto intro!: Split_Join simp: print_lines_def one_line_def)
  have "?mid \<noteq> []" using assms(1) by (cases sections) (simp_all add: print_section_def)
  then have mid: "0 < length ?mid" by simp
  have ls: "?ls = ''*** Begin Patch'' # ?mid @ ''*** End Patch'' # ending" by (simp add: print_lines_def)
  show ?thesis
    unfolding parseHashlinePatch_def Let_def lines
    using assms(1,4) mid parse_print_sections [OF assms(2)] unfolding ls
    by (auto simp: nth_append nth_Cons')
qed

definition ex_patch :: "hashline_section list" where
  "ex_patch = [\<lparr>sec_path = ''a.go'', sec_tag = ''0C1F'', sec_ops =
     [op0\<lparr>op_kind := ''put'', op_locator := \<lparr>loc_kind = ''range'', loc_start = 2, loc_end = 3\<rparr>, op_body := [''x'', []]\<rparr>,
      op0\<lparr>op_kind := ''cut'', op_locator := \<lparr>loc_kind = ''block'', loc_start = 7, loc_end = 0\<rparr>, op_register := ''r'', op_sequence := 1\<rparr>,
      op0\<lparr>op_kind := ''move'', op_dest := ''b.go'', op_sequence := 2\<rparr>]\<rparr>]"

theorem patch_roundtrip_witness:
  "parseHashlinePatch (Join (print_lines ex_patch @ [[]]) [CHR 0x0D, CHR 0x0A]) = Inr ex_patch"
proof (rule patch_roundtrip)
  have "list_all register_char ''r''" by code_simp
  moreover have "TrimSpace ''b.go'' = ''b.go''" by code_simp
  ultimately show "sections_ok 0 ex_patch"
    by (simp add: ex_patch_def op0_def locator0_def section_ok_def op_ok_def locator_ok_def tag_char_def)
qed (simp_all add: ex_patch_def)

end
