(* ===== verification/Hashline_Apply.thy ===== *)
theory Hashline_Apply
  imports Prelude "HOL-Library.Multiset"
begin

text \<open>
  The application of the edits of one file: \<^verbatim>\<open>applyHashlineActions\<close> of
  \<^verbatim>\<open>internal/agent/hashline_edit.go\<close>. Every line number names the original file; the code checks that
  no two edits touch each other and writes the result in one pass.

  The reference, \<open>bottom_up\<close>, splices the edits into the file one at a time from the last line to the
  first, so that the line numbers above an edit stay those of the original.
\<close>

section \<open>The pass over the lines\<close>

record hashline_action =
  act_start :: nat
  act_end :: nat
  act_gap :: nat
  act_body :: "string list"
  act_sequence :: nat
  act_replace :: bool

definition overlapping :: "hashline_action \<Rightarrow> hashline_action \<Rightarrow> bool" where
  "overlapping a existing \<longleftrightarrow> act_start a \<le> act_end existing \<and> act_start existing \<le> act_end a"

definition inside :: "hashline_action \<Rightarrow> hashline_action \<Rightarrow> bool" where
  "inside a existing \<longleftrightarrow> act_gap a \<ge> act_start existing \<and> act_gap a < act_end existing"

text \<open>The loop over the replacements; \<open>ranges\<close> are the ones accepted so far.\<close>

fun collect_ranges :: "hashline_action list \<Rightarrow> hashline_action list \<Rightarrow> string + hashline_action list" where
  "collect_ranges ranges [] = Inr ranges"
| "collect_ranges ranges (a # as) =
     (if \<not> act_replace a then collect_ranges ranges as
      else if list_ex (overlapping a) ranges then Inl ''overlapping ranges''
      else collect_ranges (ranges @ [a]) as)"

fun collect_insertions :: "hashline_action list \<Rightarrow> hashline_action list \<Rightarrow> hashline_action list \<Rightarrow> string + hashline_action list" where
  "collect_insertions ranges ins [] = Inr ins"
| "collect_insertions ranges ins (a # as) =
     (if act_replace a then collect_insertions ranges ins as
      else if list_ex (inside a) ranges then Inl ''insertion gap lies inside replacement''
      else collect_insertions ranges (ins @ [a]) as)"

text \<open>The maps \<^verbatim>\<open>replacements\<close> (by first line, the last one wins) and \<^verbatim>\<open>insertions\<close> (by gap, sorted).\<close>

definition replacement_at :: "hashline_action list \<Rightarrow> nat \<Rightarrow> hashline_action option" where
  "replacement_at ranges line = List.find (\<lambda>a. act_start a = line) (rev ranges)"

definition insertions_at :: "hashline_action list \<Rightarrow> nat \<Rightarrow> hashline_action list" where
  "insertions_at ins gap = sort_key act_sequence (filter (\<lambda>a. act_gap a = gap) ins)"

definition appendGap :: "hashline_action list \<Rightarrow> nat \<Rightarrow> string list" where
  "appendGap ins gap = concat (map act_body (insertions_at ins gap))"

text \<open>The output loop from \<open>line\<close> on. A replacement that ended before it started would never end it.\<close>

partial_function (option) emit_lines ::
  "string list \<Rightarrow> hashline_action list \<Rightarrow> hashline_action list \<Rightarrow> nat \<Rightarrow> string list option" where
  "emit_lines lines ranges ins line =
     (if line > length lines then Some []
      else case replacement_at ranges line of
        Some a \<Rightarrow> Option.bind (emit_lines lines ranges ins (act_end a + 1))
          (\<lambda>rest. Some (act_body a @ appendGap ins (act_end a) @ rest))
      | None \<Rightarrow> Option.bind (emit_lines lines ranges ins (line + 1))
          (\<lambda>rest. Some (lines ! (line - 1) # appendGap ins line @ rest)))"

declare emit_lines.simps [code]

definition applyHashlineActions :: "string list \<Rightarrow> hashline_action list \<Rightarrow> (string + string list) option" where
  "applyHashlineActions lines actions =
     (case collect_ranges [] actions of Inl e \<Rightarrow> Some (Inl e)
      | Inr ranges \<Rightarrow> (case collect_insertions ranges [] actions of Inl e \<Rightarrow> Some (Inl e)
        | Inr ins \<Rightarrow> map_option (\<lambda>rest. Inr (appendGap ins 0 @ rest)) (emit_lines lines ranges ins 1)))"

section \<open>The reference\<close>

definition edit_lo :: "hashline_action \<Rightarrow> nat" where
  "edit_lo a = (if act_replace a then act_start a - 1 else act_gap a)"

definition edit_hi :: "hashline_action \<Rightarrow> nat" where
  "edit_hi a = (if act_replace a then act_end a else act_gap a)"

definition splice_edit :: "hashline_action \<Rightarrow> string list \<Rightarrow> string list" where
  "splice_edit a xs = take (edit_lo a) xs @ act_body a @ drop (edit_hi a) xs"

text \<open>By position; at one position the insertions in their order, then the replacement below them.\<close>

definition edit_order :: "hashline_action list \<Rightarrow> hashline_action list" where
  "edit_order actions = sort_key edit_lo
     (sort_key act_sequence (filter (\<lambda>a. \<not> act_replace a) actions) @ filter act_replace actions)"

definition bottom_up :: "string list \<Rightarrow> hashline_action list \<Rightarrow> string list" where
  "bottom_up lines actions = foldr splice_edit (edit_order actions) lines"

text \<open>The actions that locators resolve to, and those that do not touch each other.\<close>

definition action_fits :: "nat \<Rightarrow> hashline_action \<Rightarrow> bool" where
  "action_fits n a \<longleftrightarrow> (if act_replace a then 1 \<le> act_start a \<and> act_start a \<le> act_end a \<and> act_end a \<le> n else act_gap a \<le> n)"

definition apart :: "hashline_action \<Rightarrow> hashline_action \<Rightarrow> bool" where
  "apart a b \<longleftrightarrow> (\<not> act_replace a \<and> \<not> act_replace b) \<or> edit_hi a \<le> edit_lo b \<or> edit_hi b \<le> edit_lo a"

fun all_apart :: "hashline_action list \<Rightarrow> bool" where
  "all_apart [] \<longleftrightarrow> True"
| "all_apart (a # as) \<longleftrightarrow> list_all (apart a) as \<and> all_apart as"

section \<open>Collecting\<close>

lemma overlapping_apart:
  assumes "action_fits n a" and "action_fits n b" and "act_replace a" and "act_replace b"
  shows "overlapping a b \<longleftrightarrow> \<not> apart a b"
  using assms by (auto simp: overlapping_def apart_def edit_lo_def edit_hi_def action_fits_def)

lemma inside_apart:
  assumes "action_fits n b" and "\<not> act_replace a" and "act_replace b"
  shows "inside a b \<longleftrightarrow> \<not> apart a b"
  using assms by (auto simp: inside_def apart_def edit_lo_def edit_hi_def action_fits_def)

lemma apart_sym: "apart a b \<longleftrightarrow> apart b a"
  by (auto simp: apart_def)

lemma apart_insertions: "\<not> act_replace a \<Longrightarrow> \<not> act_replace b \<Longrightarrow> apart a b"
  by (simp add: apart_def)

lemma all_apart_append: "all_apart (xs @ ys) \<longleftrightarrow> all_apart xs \<and> all_apart ys \<and> list_all (\<lambda>x. list_all (apart x) ys) xs"
  by (induction xs) auto

lemma collect_ranges_spec:
  assumes "list_all (action_fits n) (ranges @ as)" and "list_all act_replace ranges" and "all_apart ranges"
  shows "collect_ranges ranges as =
    (if all_apart (ranges @ filter act_replace as) then Inr (ranges @ filter act_replace as) else Inl ''overlapping ranges'')"
  using assms
proof (induction ranges as rule: collect_ranges.induct)
  case (2 ranges a as)
  show ?case
  proof (cases "act_replace a")
    case True
    have "list_ex (overlapping a) ranges \<longleftrightarrow> \<not> list_all (\<lambda>x. apart x a) ranges"
      using 2(3,4) overlapping_apart [of n a] apart_sym True by (auto simp: list_ex_iff list_all_iff)
    with 2 True show ?thesis by (auto simp: all_apart_append list_all_iff)
  next
    case False
    with 2 show ?thesis by simp
  qed
qed simp

lemma collect_insertions_spec:
  assumes "list_all (action_fits n) (ranges @ as)" and "list_all act_replace ranges"
  shows "collect_insertions ranges ins as =
    (if list_all (\<lambda>a. list_all (apart a) ranges) (filter (\<lambda>a. \<not> act_replace a) as)
     then Inr (ins @ filter (\<lambda>a. \<not> act_replace a) as) else Inl ''insertion gap lies inside replacement'')"
  using assms
proof (induction ranges ins as rule: collect_insertions.induct)
  case (2 ranges ins a as)
  show ?case
  proof (cases "act_replace a")
    case False
    have "list_ex (inside a) ranges \<longleftrightarrow> \<not> list_all (apart a) ranges"
      using 2(3,4) inside_apart [of n _ a] False by (auto simp: list_ex_iff list_all_iff)
    with 2 False show ?thesis by auto
  next
    case True
    with 2 show ?thesis by simp
  qed
qed simp

lemma all_apart_split:
  "all_apart as \<longleftrightarrow> all_apart (filter act_replace as) \<and>
     list_all (\<lambda>a. list_all (apart a) (filter act_replace as)) (filter (\<lambda>a. \<not> act_replace a) as)"
proof (induction as)
  case (Cons a as)
  show ?case
  proof (cases "act_replace a")
    case True
    have "list_all (apart a) as \<longleftrightarrow> list_all (apart a) (filter act_replace as) \<and>
        list_all (\<lambda>b. apart b a) (filter (\<lambda>b. \<not> act_replace b) as)"
      unfolding list_all_iff apart_sym [of _ a] by auto
    with Cons True show ?thesis by (auto simp: list_all_iff)
  next
    case False
    have "list_all (apart a) as \<longleftrightarrow> list_all (apart a) (filter act_replace as)"
      using apart_insertions [OF False] unfolding list_all_iff by auto
    with Cons False show ?thesis by (auto simp: list_all_iff)
  qed
qed simp

section \<open>The walk\<close>

text \<open>The edits in their order from the cursor \<open>c\<close> on, each line before an edit copied.\<close>

fun walk :: "string list \<Rightarrow> nat \<Rightarrow> hashline_action list \<Rightarrow> string list" where
  "walk lines c [] = drop c lines"
| "walk lines c (a # as) = take (edit_lo a - c) (drop c lines) @ act_body a @ walk lines (edit_hi a) as"

fun ascending :: "nat \<Rightarrow> hashline_action list \<Rightarrow> bool" where
  "ascending c [] \<longleftrightarrow> True"
| "ascending c (a # as) \<longleftrightarrow> c \<le> edit_lo a \<and> edit_lo a \<le> edit_hi a \<and> ascending (edit_hi a) as"

lemma foldr_splice_walk:
  "ascending c as \<Longrightarrow> \<forall>a \<in> set as. edit_hi a \<le> length lines \<Longrightarrow> c \<le> length lines \<Longrightarrow>
     foldr splice_edit as lines = take c lines @ walk lines c as"
proof (induction as arbitrary: c)
  case (Cons a as)
  then have IH: "foldr splice_edit as lines = take (edit_hi a) lines @ walk lines (edit_hi a) as" by simp
  from Cons.prems have "c \<le> edit_lo a" "edit_lo a \<le> edit_hi a" "edit_hi a \<le> length lines" by auto
  then have "take (edit_lo a) lines = take c lines @ take (edit_lo a - c) (drop c lines)"
    by (metis le_add_diff_inverse take_add)
  with IH \<open>edit_lo a \<le> edit_hi a\<close> \<open>edit_hi a \<le> length lines\<close> show ?case by (simp add: splice_edit_def [of a] min_def)
qed simp

text \<open>The edits at and above a position.\<close>

definition from_on :: "nat \<Rightarrow> hashline_action list \<Rightarrow> hashline_action list" where
  "from_on c as = filter (\<lambda>a. c \<le> edit_lo a) as"

lemma from_on_split:
  assumes "sorted (map edit_lo as)"
  shows "from_on c as = filter (\<lambda>a. edit_lo a = c) as @ from_on (Suc c) as"
  using assms
proof (induction as)
  case (Cons a as)
  have "filter (\<lambda>a. edit_lo a = c) as = []" if "c < edit_lo a"
    using Cons.prems that by (force simp: filter_empty_conv)
  with Cons show ?case by (cases "edit_lo a" c rule: linorder_cases) (auto simp: from_on_def)
qed (simp add: from_on_def)

lemma filter_order:
  "filter (\<lambda>a. edit_lo a = c) (edit_order actions) =
     insertions_at (filter (\<lambda>a. \<not> act_replace a) actions) c @ filter (\<lambda>a. edit_lo a = c) (filter act_replace actions)"
proof -
  let ?ins = "filter (\<lambda>a. \<not> act_replace a) actions"
  have "filter (\<lambda>a. edit_lo a = c) (edit_order actions) =
      filter (\<lambda>a. edit_lo a = c) (sort_key act_sequence ?ins) @ filter (\<lambda>a. edit_lo a = c) (filter act_replace actions)"
    unfolding edit_order_def by (simp add: sort_key_stable del: filter_filter)
  also have "filter (\<lambda>a. edit_lo a = c) (sort_key act_sequence ?ins) = sort_key act_sequence (filter (\<lambda>a. edit_lo a = c) ?ins)"
    by (rule filter_sort)
  also have "filter (\<lambda>a. edit_lo a = c) ?ins = filter (\<lambda>a. act_gap a = c) ?ins"
    by (rule filter_cong) (auto simp: edit_lo_def)
  finally show ?thesis by (simp add: insertions_at_def)
qed

lemma sorted_edit_order: "sorted (map edit_lo (edit_order actions))"
  by (simp add: edit_order_def)

lemma set_edit_order: "set (edit_order actions) = set actions"
  by (auto simp: edit_order_def)

lemma walk_insertions:
  "\<forall>a \<in> set ins. edit_lo a = c \<and> edit_hi a = c \<Longrightarrow> c \<le> length lines \<Longrightarrow>
     walk lines c (ins @ as) = concat (map act_body ins) @ walk lines c as"
  by (induction ins) auto

lemma walk_skip:
  assumes "\<forall>a \<in> set as. Suc c \<le> edit_lo a" and "c < length lines"
  shows "walk lines c as = lines ! c # walk lines (Suc c) as"
proof (cases as)
  case (Cons a rest)
  with assms have "take (edit_lo a - c) (drop c lines) = lines ! c # take (edit_lo a - Suc c) (drop (Suc c) lines)"
    by (metis Cons_nth_drop_Suc Suc_diff_le diff_Suc_Suc list.set_intros(1) take_Suc_Cons)
  with Cons show ?thesis by simp
qed (use assms in \<open>simp add: Cons_nth_drop_Suc\<close>)

lemma ascending_insertions:
  "\<forall>a \<in> set ins. edit_lo a = c \<and> edit_hi a = c \<Longrightarrow> ascending c (ins @ as) \<longleftrightarrow> ascending c as"
  by (induction ins) auto

lemma ascending_mono: "ascending c as \<Longrightarrow> b \<le> c \<Longrightarrow> ascending b as"
  by (cases as) auto

lemma all_apart_pair: "all_apart as \<Longrightarrow> a \<in> set as \<Longrightarrow> b \<in> set as \<Longrightarrow> a \<noteq> b \<Longrightarrow> apart a b"
  by (induction as) (auto simp: list_all_iff apart_sym)

lemma unique_replacement:
  "all_apart rs \<Longrightarrow> list_all (action_fits n) rs \<Longrightarrow> list_all act_replace rs \<Longrightarrow> a \<in> set rs \<Longrightarrow>
     filter (\<lambda>b. edit_lo b = edit_lo a) rs = [a]"
proof (induction rs)
  case (Cons b rs)
  have other: "edit_lo x \<noteq> edit_lo y" if "apart x y" "action_fits n x" "action_fits n y" "act_replace x" "act_replace y" for x y
    using that by (auto simp: apart_def action_fits_def edit_lo_def edit_hi_def)
  show ?case
  proof (cases "a = b")
    case True
    with Cons.prems have "\<forall>y \<in> set rs. edit_lo y \<noteq> edit_lo b" by (fastforce simp: list_all_iff dest: other)
    with True show ?thesis by (simp add: filter_empty_conv)
  next
    case False
    with Cons.prems have "edit_lo b \<noteq> edit_lo a" using other [of b a] by (auto simp: list_all_iff)
    with Cons False show ?thesis by simp
  qed
qed simp

lemma replacement_at_Some: "replacement_at ranges line = Some a \<Longrightarrow> a \<in> set ranges \<and> act_start a = line"
  unfolding replacement_at_def by (auto dest: find_SomeD)

lemma replacement_at_None: "replacement_at ranges line = None \<Longrightarrow> a \<in> set ranges \<Longrightarrow> act_start a \<noteq> line"
  unfolding replacement_at_def by (auto simp: find_None_iff)

text \<open>What is left to write at the cursor \<open>c\<close> once the insertions there are written.\<close>

definition todo_at :: "hashline_action list \<Rightarrow> nat \<Rightarrow> hashline_action list" where
  "todo_at actions c = filter (\<lambda>a. edit_lo a = c) (filter act_replace actions) @ from_on (Suc c) (edit_order actions)"

lemma from_on_todo:
  "from_on c (edit_order actions) = insertions_at (filter (\<lambda>a. \<not> act_replace a) actions) c @ todo_at actions c"
  using from_on_split [OF sorted_edit_order, of c actions] filter_order [of c actions] by (simp add: todo_at_def)

lemma insertions_at_edits:
  "a \<in> set (insertions_at (filter (\<lambda>a. \<not> act_replace a) actions) c) \<Longrightarrow> edit_lo a = c \<and> edit_hi a = c"
  by (auto simp: insertions_at_def edit_lo_def edit_hi_def)

lemma walk_from_on:
  assumes "c \<le> length lines"
  shows "walk lines c (from_on c (edit_order actions)) =
    appendGap (filter (\<lambda>a. \<not> act_replace a) actions) c @ walk lines c (todo_at actions c)"
  unfolding from_on_todo appendGap_def using assms by (intro walk_insertions) (auto dest: insertions_at_edits)

lemma ascending_from_on:
  "ascending c (from_on c (edit_order actions)) \<longleftrightarrow> ascending c (todo_at actions c)"
  unfolding from_on_todo by (intro ascending_insertions) (auto dest: insertions_at_edits)

lemma emit_walk:
  assumes fits: "list_all (action_fits (length lines)) actions" and apart: "all_apart actions" and "c \<le> length lines"
  defines "ranges \<equiv> filter act_replace actions" and "ins \<equiv> filter (\<lambda>a. \<not> act_replace a) actions"
  shows "emit_lines lines ranges ins (Suc c) = Some (walk lines c (todo_at actions c)) \<and> ascending c (todo_at actions c)"
  using assms(3)
proof (induction "length lines - c" arbitrary: c rule: less_induct)
  case less
  have ranges: "a \<in> set actions \<and> act_replace a \<and> 1 \<le> act_start a \<and> act_start a \<le> act_end a \<and> act_end a \<le> length lines"
    if "a \<in> set ranges" for a using that fits by (auto simp: ranges_def action_fits_def list_all_iff)
  have pairs: "apart a b" if "a \<in> set ranges" "b \<in> set actions" "a \<noteq> b" for a b
    using all_apart_pair [OF apart] that ranges by blast
  show ?case
  proof (cases "c = length lines")
    case True
    have "edit_lo a \<le> length lines \<and> (act_replace a \<longrightarrow> edit_lo a < length lines)" if "a \<in> set actions" for a
      using fits that by (fastforce simp: list_all_iff action_fits_def edit_lo_def)
    with True have "todo_at actions c = []"
      by (fastforce simp: todo_at_def from_on_def filter_empty_conv set_edit_order)
    with True show ?thesis by (simp add: emit_lines.simps)
  next
    case False
    with less.prems have c: "c < length lines" by simp
    show ?thesis
    proof (cases "replacement_at ranges (Suc c)")
      case None
      then have "filter (\<lambda>a. edit_lo a = c) ranges = []"
        using ranges by (fastforce simp: filter_empty_conv edit_lo_def dest: replacement_at_None)
      then have todo: "todo_at actions c = from_on (Suc c) (edit_order actions)" by (simp add: todo_at_def ranges_def)
      have IH: "emit_lines lines ranges ins (Suc (Suc c)) = Some (walk lines (Suc c) (todo_at actions (Suc c)))"
        "ascending (Suc c) (todo_at actions (Suc c))"
        using less.hyps [of "Suc c"] c by auto
      have "walk lines c (todo_at actions c) = lines ! c # appendGap ins (Suc c) @ walk lines (Suc c) (todo_at actions (Suc c))"
        unfolding todo using c by (subst walk_skip) (auto simp: from_on_def walk_from_on [unfolded from_on_def] ins_def)
      moreover have "ascending c (todo_at actions c)"
        unfolding todo using IH(2) ascending_from_on ascending_mono by (metis le_SucI order_refl)
      ultimately show ?thesis using c None IH(1) by (subst emit_lines.simps) simp
    next
      case (Some a)
      from replacement_at_Some [OF Some] have a: "a \<in> set ranges" "act_start a = Suc c" by auto
      from ranges [OF a(1)] a(2) have lo: "edit_lo a = c" "edit_hi a = act_end a" "c < act_end a" "act_end a \<le> length lines"
        by (auto simp: edit_lo_def edit_hi_def)
      have "all_apart ranges" using apart all_apart_split unfolding ranges_def by blast
      from unique_replacement [OF this _ _ a(1), of "length lines"] fits lo(1)
      have one: "filter (\<lambda>a. edit_lo a = c) ranges = [a]" by (auto simp: ranges_def list_all_iff)
      have skip: "from_on (Suc c) (edit_order actions) = from_on (act_end a) (edit_order actions)"
        unfolding from_on_def
      proof (rule filter_cong [OF refl])
        fix b assume "b \<in> set (edit_order actions)"
        then have b: "b \<in> set actions" by (simp add: set_edit_order)
        show "Suc c \<le> edit_lo b \<longleftrightarrow> act_end a \<le> edit_lo b"
        proof (cases "a = b")
          case False
          from pairs [OF a(1) b False] lo ranges [OF a(1)] fits b show ?thesis
            by (auto simp: apart_def list_all_iff action_fits_def edit_lo_def edit_hi_def split: if_splits)
        qed (use lo in auto)
      qed
      have IH: "emit_lines lines ranges ins (Suc (act_end a)) = Some (walk lines (act_end a) (todo_at actions (act_end a)))"
        "ascending (act_end a) (todo_at actions (act_end a))"
        using less.hyps [of "act_end a"] lo c by auto
      have todo: "todo_at actions c = a # from_on (act_end a) (edit_order actions)"
        using one skip by (simp add: todo_at_def ranges_def)
      show ?thesis unfolding todo
        using IH lo c Some walk_from_on [OF lo(4), of actions] ascending_from_on [of "act_end a" actions]
        by (subst emit_lines.simps) (simp add: ins_def)
    qed
  qed
qed

lemma apply_refines:
  assumes "list_all (action_fits (length lines)) actions"
  shows "if all_apart actions then applyHashlineActions lines actions = Some (Inr (bottom_up lines actions))
    else \<exists>e. applyHashlineActions lines actions = Some (Inl e)"
proof -
  let ?ranges = "filter act_replace actions" and ?ins = "filter (\<lambda>a. \<not> act_replace a) actions"
  have fits: "list_all (action_fits (length lines)) (?ranges @ actions)" using assms by (auto simp: list_all_iff)
  have ranges: "collect_ranges [] actions = (if all_apart ?ranges then Inr ?ranges else Inl ''overlapping ranges'')"
    using collect_ranges_spec [of "length lines" "[]" actions] assms by simp
  have all: "list_all act_replace ?ranges" by (simp add: list_all_iff)
  have ins: "collect_insertions ?ranges [] actions = (if list_all (\<lambda>a. list_all (apart a) ?ranges) ?ins
      then Inr ?ins else Inl ''insertion gap lies inside replacement'')"
    using collect_insertions_spec [OF fits all, of "[]"] by simp
  show ?thesis
  proof (cases "all_apart actions")
    case True
    from emit_walk [OF assms True, of 0] have emit: "emit_lines lines ?ranges ?ins 1 = Some (walk lines 0 (todo_at actions 0))"
      and asc: "ascending 0 (edit_order actions)"
      using ascending_from_on [of 0 actions] by (simp_all add: from_on_def)
    have "\<forall>a \<in> set (edit_order actions). edit_hi a \<le> length lines"
      using assms by (auto simp: set_edit_order list_all_iff action_fits_def edit_hi_def)
    with asc have "bottom_up lines actions = walk lines 0 (edit_order actions)"
      by (simp add: bottom_up_def foldr_splice_walk [where c = 0])
    also have "\<dots> = appendGap ?ins 0 @ walk lines 0 (todo_at actions 0)"
      using walk_from_on [of 0 lines actions] by (simp add: from_on_def)
    finally show ?thesis
      using True all_apart_split [of actions] ranges ins emit by (simp add: applyHashlineActions_def)
  next
    case False
    with all_apart_split [of actions] ranges ins show ?thesis
      by (auto simp: applyHashlineActions_def)
  qed
qed

text \<open>C24. The single pass is the step by step edit: for edits that lie within the file, the pass always
  ends; it refuses the edits exactly when two of them touch each other, and otherwise writes the file
  that splicing the edits in one at a time, from the bottom up, gives.\<close>

theorem apply_bottom_up:
  assumes "list_all (action_fits (length lines)) actions"
  shows "if all_apart actions then applyHashlineActions lines actions = Some (Inr (bottom_up lines actions))
    else \<exists>e. applyHashlineActions lines actions = Some (Inl e)"
  by (rule apply_refines [OF assms])

definition ex_put :: "nat \<Rightarrow> nat \<Rightarrow> string \<Rightarrow> nat \<Rightarrow> hashline_action" where
  "ex_put start end_line row n = \<lparr>act_start = start, act_end = end_line, act_gap = 0, act_body = [row], act_sequence = n, act_replace = True\<rparr>"

definition ex_insert :: "nat \<Rightarrow> string \<Rightarrow> nat \<Rightarrow> hashline_action" where
  "ex_insert gap row n = \<lparr>act_start = 0, act_end = 0, act_gap = gap, act_body = [row], act_sequence = n, act_replace = False\<rparr>"

theorem apply_bottom_up_witness:
  "applyHashlineActions [''a'', ''b'', ''c'', ''d''] [ex_insert 3 ''x'' 0, ex_put 2 3 ''y'' 1, ex_insert 3 ''z'' 2] =
     Some (Inr [''a'', ''y'', ''x'', ''z'', ''d''])"
proof -
  let ?as = "[ex_insert 3 ''x'' 0, ex_put 2 3 ''y'' 1, ex_insert 3 ''z'' 2]"
  have "list_all (action_fits (length [''a'', ''b'', ''c'', ''d''])) ?as" "all_apart ?as"
    "bottom_up [''a'', ''b'', ''c'', ''d''] ?as = [''a'', ''y'', ''x'', ''z'', ''d'']"
    by code_simp+
  with apply_bottom_up [OF this(1)] show ?thesis by simp
qed

section \<open>Nothing is lost\<close>

text \<open>The original lines an edit replaces.\<close>

definition replaced_lines :: "string list \<Rightarrow> hashline_action \<Rightarrow> string list" where
  "replaced_lines lines a = drop (edit_lo a) (take (edit_hi a) lines)"

lemma replaced_split:
  "c \<le> edit_lo a \<Longrightarrow> edit_lo a \<le> edit_hi a \<Longrightarrow> edit_hi a \<le> length lines \<Longrightarrow>
     drop c lines = take (edit_lo a - c) (drop c lines) @ replaced_lines lines a @ drop (edit_hi a) lines"
  unfolding replaced_lines_def by (metis append_take_drop_id drop_drop drop_take le_add_diff_inverse2)

lemma walk_conserves:
  "ascending c as \<Longrightarrow> \<forall>a \<in> set as. edit_hi a \<le> length lines \<Longrightarrow>
     mset (walk lines c as) + (\<Sum>a\<leftarrow>as. mset (replaced_lines lines a)) = mset (drop c lines) + (\<Sum>a\<leftarrow>as. mset (act_body a))"
proof (induction as arbitrary: c)
  case (Cons a as)
  then have lo: "c \<le> edit_lo a" "edit_lo a \<le> edit_hi a" "edit_hi a \<le> length lines" by auto
  from Cons have IH: "mset (walk lines (edit_hi a) as) + (\<Sum>a\<leftarrow>as. mset (replaced_lines lines a)) =
      mset (drop (edit_hi a) lines) + (\<Sum>a\<leftarrow>as. mset (act_body a))" by simp
  have "mset (drop c lines) = mset (take (edit_lo a - c) (drop c lines)) + mset (replaced_lines lines a) + mset (drop (edit_hi a) lines)"
    by (subst replaced_split [OF lo]) simp
  with IH show ?case by (simp add: ac_simps)
qed simp

lemma bottom_up_walk:
  assumes "list_all (action_fits (length lines)) actions" and "all_apart actions"
  shows "ascending 0 (edit_order actions)" and "\<forall>a \<in> set (edit_order actions). edit_hi a \<le> length lines"
    and "bottom_up lines actions = walk lines 0 (edit_order actions)"
proof -
  from emit_walk [OF assms, of 0] show asc: "ascending 0 (edit_order actions)"
    using ascending_from_on [of 0 actions] by (simp add: from_on_def)
  show hi: "\<forall>a \<in> set (edit_order actions). edit_hi a \<le> length lines"
    using assms(1) by (auto simp: set_edit_order list_all_iff action_fits_def edit_hi_def)
  from asc hi show "bottom_up lines actions = walk lines 0 (edit_order actions)"
    by (simp add: bottom_up_def foldr_splice_walk [where c = 0])
qed

lemma mset_edit_order: "mset (edit_order actions) = mset actions"
  by (simp add: edit_order_def)

lemma sum_edit_order: "(\<Sum>a\<leftarrow>edit_order actions. f a) = (\<Sum>a\<leftarrow>actions. f a)" for f :: "hashline_action \<Rightarrow> 'a :: comm_monoid_add"
  by (metis mset_edit_order mset_map sum_mset_sum_list)

text \<open>C28. Editing loses no line: the lines of the result and the lines the edits replace are, as a
  multiset, the lines of the file and the bodies of the edits. A hunk that is pasted where another was
  cut only moves its lines.\<close>

theorem edits_conserve_lines:
  assumes "list_all (action_fits (length lines)) actions" and "applyHashlineActions lines actions = Some (Inr result)"
  shows "mset result + (\<Sum>a\<leftarrow>actions. mset (replaced_lines lines a)) = mset lines + (\<Sum>a\<leftarrow>actions. mset (act_body a))"
proof -
  have ok: "all_apart actions" and result: "result = bottom_up lines actions"
    using apply_refines [OF assms(1)] assms(2) by (auto split: if_splits)
  show ?thesis
    using walk_conserves [OF bottom_up_walk(1,2) [OF assms(1) ok]] bottom_up_walk(3) [OF assms(1) ok]
    by (simp add: result sum_edit_order)
qed

theorem edits_conserve_lines_witness:
  "applyHashlineActions [''a'', ''b'', ''c''] [ex_put 1 1 ''x'' 0, ex_insert 3 ''a'' 1] = Some (Inr [''x'', ''b'', ''c'', ''a'']) \<and>
   mset [''x'', ''b'', ''c'', ''a''] + mset [''a''] = mset [''a'', ''b'', ''c''] + (mset [''x''] + mset [''a''])"
proof -
  let ?as = "[ex_put 1 1 ''x'' 0, ex_insert 3 ''a'' 1]" and ?ls = "[''a'', ''b'', ''c'']"
  have fits: "list_all (action_fits (length ?ls)) ?as" by code_simp
  have eval: "all_apart ?as" "bottom_up ?ls ?as = [''x'', ''b'', ''c'', ''a'']"
    "map (replaced_lines ?ls) ?as = [[''a''], []]" "map act_body ?as = [[''x''], [''a'']]"
    by code_simp+
  from apply_refines [OF fits] eval(1,2) have run: "applyHashlineActions ?ls ?as = Some (Inr [''x'', ''b'', ''c'', ''a''])" by simp
  from edits_conserve_lines [OF fits run] eval(3,4) run show ?thesis by simp
qed

section \<open>What changed\<close>

fun common_prefix :: "string list \<Rightarrow> string list \<Rightarrow> nat" where
  "common_prefix (a # as) (b # bs) = (if a = b then Suc (common_prefix as bs) else 0)"
| "common_prefix _ _ = 0"

text \<open>The lines \<^verbatim>\<open>compactHashlineDiff\<close> prints with a minus and with a plus.\<close>

definition changed_lines :: "string list \<Rightarrow> string list \<Rightarrow> string list \<times> string list" where
  "changed_lines old new =
     (let p = common_prefix old new;
          q = common_prefix (rev (drop p old)) (rev (drop p new))
      in (take (length old - p - q) (drop p old), take (length new - p - q) (drop p new)))"

definition firstChanged :: "string list \<Rightarrow> string list \<Rightarrow> nat" where
  "firstChanged old new = (if old = new then 0 else Suc (common_prefix old new))"

lemma common_prefix_take: "take (common_prefix as bs) as = take (common_prefix as bs) bs"
  by (induction as bs rule: common_prefix.induct) auto

lemma common_prefix_le: "common_prefix as bs \<le> length as \<and> common_prefix as bs \<le> length bs"
  by (induction as bs rule: common_prefix.induct) auto

end
