(* ===== verification/Hashline_Blocks.thy ===== *)
theory Hashline_Blocks
  imports Go_Strings
begin

text \<open>
  The lines a block locator names: \<^verbatim>\<open>resolveHashlineBlock\<close> of \<^verbatim>\<open>internal/agent/hashline_edit.go\<close> with the
  resolvers for Markdown sections, indented blocks and braces.

  The syntax nodes of a Go file come from Go's parser, the argument \<open>he_go_nodes\<close>: the first and last
  lines of the nodes that span a block, in the order of the traversal, or nothing when the file has no
  declarations. \<open>he_lower\<close> is \<^verbatim>\<open>strings.ToLower\<close>. The scanners compare with ASCII characters only, so that
  scanning bytes instead of runes makes no difference. Line numbers start at 1.
\<close>

record hashline_env =
  he_lower :: "string \<Rightarrow> string"
  he_go_nodes :: "string \<Rightarrow> string \<Rightarrow> (nat \<times> nat) list option"

section \<open>Go\<close>

text \<open>The smallest node that starts at the line and has more than one; the first of equal ones.\<close>

definition better_node :: "nat \<Rightarrow> nat \<times> nat \<Rightarrow> (nat \<times> nat) option \<Rightarrow> (nat \<times> nat) option" where
  "better_node line node best =
     (let (start, end_line) = node in
      if start = line \<and> end_line > start \<and> (case best of None \<Rightarrow> True | Some (s, e) \<Rightarrow> end_line - start < e - s)
      then Some node else best)"

definition resolveGoHashlineBlock :: "hashline_env \<Rightarrow> string \<Rightarrow> string \<Rightarrow> nat \<Rightarrow> (nat \<times> nat) option" where
  "resolveGoHashlineBlock env path text line =
     (case he_go_nodes env path text of None \<Rightarrow> None | Some nodes \<Rightarrow> fold (better_node line) nodes None)"

section \<open>Markdown\<close>

definition heading_level :: "string \<Rightarrow> nat" where
  "heading_level s = length (takeWhile (\<lambda>c. c = CHR ''#'') s)"

definition is_heading :: "string \<Rightarrow> bool" where
  "is_heading s \<longleftrightarrow> heading_level s > 0 \<and> heading_level s < length s \<and> s ! heading_level s = CHR '' ''"

text \<open>The number of lines up to the next heading of at most this level.\<close>

definition section_lines :: "nat \<Rightarrow> string list \<Rightarrow> nat" where
  "section_lines level rest =
     length (takeWhile (\<lambda>l. let candidate = TrimSpace l in \<not> (is_heading candidate \<and> heading_level candidate \<le> level)) rest)"

definition resolveMarkdownHashlineBlock :: "string list \<Rightarrow> nat \<Rightarrow> (nat \<times> nat) option" where
  "resolveMarkdownHashlineBlock lines line =
     (let trimmed = TrimSpace (lines ! (line - 1)) in
      if \<not> is_heading trimmed then None
      else let end_line = line + section_lines (heading_level trimmed) (drop line lines)
        in if end_line > line then Some (line, end_line) else None)"

section \<open>Indentation\<close>

fun leadingIndent :: "string \<Rightarrow> nat" where
  "leadingIndent [] = 0"
| "leadingIndent (c # cs) =
     (if c = CHR '' '' then Suc (leadingIndent cs) else if c = CHR 0x09 then 4 + leadingIndent cs else 0)"

text \<open>The lines of a block after its header: blank ones and deeper ones, without blank ones at the end.\<close>

definition indented_lines :: "nat \<Rightarrow> string list \<Rightarrow> string list" where
  "indented_lines indent rest =
     rev (dropWhile blank (rev (takeWhile (\<lambda>l. blank l \<or> leadingIndent l > indent) rest)))"

definition resolveIndentedHashlineBlock :: "string list \<Rightarrow> nat \<Rightarrow> (nat \<times> nat) option" where
  "resolveIndentedHashlineBlock lines line =
     (let decorators = length (takeWhile (\<lambda>l. HasPrefix (TrimSpace l) ''@'') (drop (line - 1) lines));
          construct = line - 1 + decorators
      in if construct \<ge> length lines then None
         else let trimmed = TrimSpace (lines ! construct) in
           if \<not> HasSuffix trimmed '':'' \<and> \<not> HasSuffix trimmed ''|'' \<and> \<not> HasSuffix trimmed ''>'' then None
           else let body = indented_lines (leadingIndent (lines ! construct)) (drop (construct + 1) lines)
             in if body = [] then None else Some (line, construct + 1 + length body))"

section \<open>Braces\<close>

text \<open>The scanner's state between two characters: \<open>bs_quote\<close> is the open quote.\<close>

record brace_state =
  bs_depth :: nat
  bs_opened :: bool
  bs_quote :: "char option"
  bs_escaped :: bool
  bs_comment :: bool

datatype brace_scan = Scanning brace_state | Closed | NoBlock

text \<open>The loop over the characters of one line.\<close>

fun scan_line :: "brace_state \<Rightarrow> string \<Rightarrow> brace_scan" where
  "scan_line st [] = Scanning st"
| "scan_line st (c # cs) =
     (if bs_comment st then
        (case cs of
           d # ds \<Rightarrow> if c = CHR ''*'' \<and> d = CHR ''/'' then scan_line (st\<lparr>bs_comment := False\<rparr>) ds else scan_line st cs
         | [] \<Rightarrow> Scanning st)
      else case bs_quote st of
        Some q \<Rightarrow>
          if bs_escaped st then scan_line (st\<lparr>bs_escaped := False\<rparr>) cs
          else if c = CHR 0x5C then scan_line (st\<lparr>bs_escaped := True\<rparr>) cs
          else if c = q then scan_line (st\<lparr>bs_quote := None\<rparr>) cs
          else scan_line st cs
      | None \<Rightarrow>
          if c = CHR ''/'' \<and> HasPrefix cs ''/'' then Scanning st
          else if c = CHR ''/'' \<and> HasPrefix cs ''*'' then scan_line (st\<lparr>bs_comment := True\<rparr>) (tl cs)
          else if c = CHR 0x27 \<or> c = CHR 0x22 \<or> c = CHR 0x60 then scan_line (st\<lparr>bs_quote := Some c\<rparr>) cs
          else if \<not> bs_opened st \<and> (c = CHR ''}'' \<or> c = CHR '';'') then NoBlock
          else if c = CHR ''{'' then scan_line (st\<lparr>bs_opened := True, bs_depth := Suc (bs_depth st)\<rparr>) cs
          else if c = CHR ''}'' \<and> bs_opened st
          then (if bs_depth st - 1 = 0 then Closed else scan_line (st\<lparr>bs_depth := bs_depth st - 1\<rparr>) cs)
          else scan_line st cs)"

text \<open>The loop over the lines: \<open>k\<close> lines were scanned before; the last line of the block.\<close>

fun scan_lines :: "brace_state \<Rightarrow> nat \<Rightarrow> string list \<Rightarrow> nat option" where
  "scan_lines st k [] = None"
| "scan_lines st k (l # ls) =
     (case scan_line st l of
        NoBlock \<Rightarrow> None
      | Closed \<Rightarrow> Some k
      | Scanning st' \<Rightarrow> if \<not> bs_opened st' \<and> k \<ge> 9 then None else scan_lines st' (Suc k) ls)"

definition brace_start :: brace_state where
  "brace_start = \<lparr>bs_depth = 0, bs_opened = False, bs_quote = None, bs_escaped = False, bs_comment = False\<rparr>"

definition resolveBraceHashlineBlock :: "string list \<Rightarrow> nat \<Rightarrow> (nat \<times> nat) option" where
  "resolveBraceHashlineBlock lines line =
     (case scan_lines brace_start 0 (drop (line - 1) lines) of
        Some k \<Rightarrow> if line + k > line then Some (line, line + k) else None
      | None \<Rightarrow> None)"

section \<open>Choosing a resolver\<close>

definition orelse :: "'a option \<Rightarrow> 'a option \<Rightarrow> 'a option" where
  "orelse a b = (case a of Some x \<Rightarrow> Some x | None \<Rightarrow> b)"

definition resolveHashlineBlock :: "hashline_env \<Rightarrow> string \<Rightarrow> string \<Rightarrow> nat \<Rightarrow> string + nat \<times> nat" where
  "resolveHashlineBlock env path text line =
     (let lines = Split (CHR 0x0A) text; extension = he_lower env (filepath_Ext path) in
      if line \<le> 0 \<or> line > length lines then Inl ''block line is outside the file''
      else case
        orelse (if extension = ''.go'' then resolveGoHashlineBlock env path text line else None)
        (orelse (if extension = ''.md'' \<or> extension = ''.markdown'' then resolveMarkdownHashlineBlock lines line else None)
        (orelse (if extension = ''.py'' \<or> extension = ''.yaml'' \<or> extension = ''.yml'' then resolveIndentedHashlineBlock lines line else None)
        (orelse (resolveBraceHashlineBlock lines line) (resolveIndentedHashlineBlock lines line))))
      of Some block \<Rightarrow> Inr block
       | None \<Rightarrow> Inl ''line does not begin a multi-line syntactic block'')"

section \<open>Blocks lie within the file\<close>

lemma better_node_line:
  "fold (better_node line) nodes best = Some (s, e) \<Longrightarrow> best = Some (s, e) \<or> (s = line \<and> line < e \<and> (s, e) \<in> set nodes)"
proof (induction nodes arbitrary: best)
  case (Cons node nodes)
  have "better_node line node best = best \<or> better_node line node best = Some node \<and> fst node = line \<and> line < snd node"
    by (auto simp: better_node_def split: prod.splits)
  with Cons.IH [of "better_node line node best"] Cons.prems show ?case by auto
qed simp

lemma markdown_within:
  assumes "resolveMarkdownHashlineBlock lines line = Some (s, e)" and "line \<le> length lines"
  shows "s = line \<and> line < e \<and> e \<le> length lines"
proof -
  obtain level where e: "s = line" "e = line + section_lines level (drop line lines)" "line < e"
    using assms(1) unfolding resolveMarkdownHashlineBlock_def Let_def by (auto split: if_splits)
  have "section_lines level (drop line lines) \<le> length (drop line lines)"
    unfolding section_lines_def by (rule length_takeWhile_le)
  with e assms(2) show ?thesis by simp
qed

lemma indented_lines_length: "length (indented_lines i rest) \<le> length rest"
  unfolding indented_lines_def
  by (metis length_dropWhile_le length_rev length_takeWhile_le order_trans)

lemma indented_within:
  assumes "resolveIndentedHashlineBlock lines line = Some (s, e)" and "0 < line"
  shows "s = line \<and> line < e \<and> e \<le> length lines"
proof -
  define c where "c = line - 1 + length (takeWhile (\<lambda>l. HasPrefix (TrimSpace l) ''@'') (drop (line - 1) lines))"
  define body where "body = indented_lines (leadingIndent (lines ! c)) (drop (c + 1) lines)"
  have c: "c < length lines" "body \<noteq> []" "s = line" "e = c + 1 + length body"
    using assms(1) unfolding resolveIndentedHashlineBlock_def Let_def c_def [symmetric] body_def [symmetric]
    by (simp_all split: if_split_asm)
  have "length body \<le> length lines - (c + 1)" unfolding body_def using indented_lines_length [of _ "drop (c + 1) lines"] by simp
  moreover have "line - 1 \<le> c" unfolding c_def by simp
  ultimately show ?thesis using c assms(2) by (cases body) auto
qed

lemma scan_lines_bounds: "scan_lines st k ls = Some j \<Longrightarrow> k \<le> j \<and> j < k + length ls"
proof (induction ls arbitrary: st k)
  case (Cons l ls)
  show ?case
  proof (cases "scan_line st l")
    case (Scanning st')
    with Cons.prems have "scan_lines st' (Suc k) ls = Some j" by (auto split: if_splits)
    from Cons.IH [OF this] show ?thesis by simp
  qed (use Cons.prems in simp_all)
qed simp

lemma brace_within:
  assumes "resolveBraceHashlineBlock lines line = Some (s, e)" and "0 < line"
  shows "s = line \<and> line < e \<and> e \<le> length lines"
proof -
  obtain k where k: "scan_lines brace_start 0 (drop (line - 1) lines) = Some k" "s = line" "e = line + k" "line < e"
    using assms(1) by (auto simp: resolveBraceHashlineBlock_def split: option.splits if_splits)
  with scan_lines_bounds [OF k(1)] assms(2) show ?thesis by simp
qed

lemma orelse_Some: "orelse a b = Some x \<longleftrightarrow> a = Some x \<or> (a = None \<and> b = Some x)"
  by (cases a) (auto simp: orelse_def)

text \<open>
  Whichever resolver is chosen, the block starts at the line that was named, has more than one line and
  ends within the file, provided the nodes the Go parser reports do (they do not when a \<^verbatim>\<open>//line\<close>
  directive shifts the reported lines).
\<close>

lemma block_within:
  assumes "resolveHashlineBlock env path text line = Inr (s, e)"
    and "\<And>nodes node. he_go_nodes env path text = Some nodes \<Longrightarrow> node \<in> set nodes \<Longrightarrow> snd node \<le> length (Split (CHR 0x0A) text)"
  shows "s = line \<and> 0 < line \<and> line < e \<and> e \<le> length (Split (CHR 0x0A) text)"
proof -
  let ?lines = "Split (CHR 0x0A) text"
  have go: "s = line \<and> line < e \<and> e \<le> length ?lines" if "resolveGoHashlineBlock env path text line = Some (s, e)"
    using that assms(2) better_node_line [of line _ None] by (fastforce simp: resolveGoHashlineBlock_def split: option.splits)
  from assms(1) have line: "0 < line" "line \<le> length ?lines" by (auto simp: resolveHashlineBlock_def Let_def split: if_splits)
  with assms(1) consider "resolveGoHashlineBlock env path text line = Some (s, e)"
    | "resolveMarkdownHashlineBlock ?lines line = Some (s, e)" | "resolveIndentedHashlineBlock ?lines line = Some (s, e)"
    | "resolveBraceHashlineBlock ?lines line = Some (s, e)"
    by (auto simp: resolveHashlineBlock_def Let_def orelse_Some split: option.splits if_splits)
  then show ?thesis
    using line go markdown_within [of ?lines line s e] indented_within [of ?lines line s e] brace_within [of ?lines line s e]
    by cases auto
qed

end
