(* ===== verification/Hashline_Edit.thy ===== *)
theory Hashline_Edit
  imports Hashline_Patch Hashline_Apply Hashline_Blocks Store_Interfaces "HOL-Library.Word"
begin

unbundle bit_operations_syntax

text \<open>
  The edit tool of \<^verbatim>\<open>internal/agent/hashline_edit.go\<close>: a patch is prepared against the files it names,
  committed by renaming temporary files over them with a rollback when a step fails, and its registers
  are kept in a bounded clipboard.

  The workspace is the function from relative paths to regular files; directories and symbolic links
  are not part of it. An error of the operating system is an argument (\<open>edit_io\<close>), also when it comes
  from a cancelled context. The errors of \<^verbatim>\<open>Chmod\<close> and \<^verbatim>\<open>Write\<close> on a temporary file are arguments of their own,
  because the code does not see them: it assigns them to a variable of the inner scope. The maps of the code are walked in the order of insertion, on which nothing
  depends but the error that is reported first. The tool holds \<^verbatim>\<open>editMu\<close>, and its concurrency group
  excludes other edits, so that a call is one step.
\<close>

section \<open>Files and tags\<close>

record hfile =
  hf_data :: string
  hf_mode :: nat

type_synonym hworkspace = "string \<Rightarrow> hfile option"

definition normalizeHashlineText :: "string \<Rightarrow> string" where
  "normalizeHashlineText payload = normalize_newlines (TrimPrefix payload [CHR 0xEF, CHR 0xBB, CHR 0xBF])"

definition split_lines :: "string \<Rightarrow> string list" where
  "split_lines text = Split (CHR 0x0A) text"

text \<open>\<^verbatim>\<open>fnv.New32a\<close> and the four hexadecimal digits of its low half.\<close>

definition fnv32a :: "string \<Rightarrow> 32 word" where
  "fnv32a text = foldl (\<lambda>h c. (h XOR word_of_int (of_char c)) * 16777619) 2166136261 text"

definition hex_digit :: "int \<Rightarrow> char" where
  "hex_digit n = ''0123456789ABCDEF'' ! nat n"

definition computeHashlineTag :: "string \<Rightarrow> string" where
  "computeHashlineTag text =
     (let ls = map (\<lambda>l. TrimRight l [CHR '' '', CHR 0x09, CHR 0x0D]) (split_lines text);
          n = uint (fnv32a (Join ls [CHR 0x0A])) mod 65536
      in [hex_digit (n div 4096), hex_digit (n div 256 mod 16), hex_digit (n div 16 mod 16), hex_digit (n mod 16)])"

definition workspaceRelativePath :: "string \<Rightarrow> string \<Rightarrow> string + string" where
  "workspaceRelativePath root input =
     (let candidate = path_Clean input;
          candidate = (if HasPrefix candidate ''/'' then filepath_Rel root candidate else candidate)
      in if candidate = ''.'' \<or> candidate = ''..'' \<or> HasPrefix candidate ''../'' then Inl ''write target escapes workspace''
         else Inr candidate)"

section \<open>The clipboard\<close>

definition maxHashlineRegistersPerScope :: nat where
  "maxHashlineRegistersPerScope = 64"

definition maxHashlineRegisterBytes :: int where
  "maxHashlineRegisterBytes = 64 * 1024 * 1024"

record clip_scope =
  cl_values :: "(string, string list) table"
  cl_order :: "string list"

type_synonym clipboard = "(string, clip_scope) table"

definition empty_scope :: clip_scope where
  "empty_scope = \<lparr>cl_values = [], cl_order = []\<rparr>"

definition scope_of :: "clipboard \<Rightarrow> string \<Rightarrow> clip_scope" where
  "scope_of clip scope = (case tget clip scope of Some s \<Rightarrow> s | None \<Rightarrow> empty_scope)"

definition clipboard_load :: "clipboard \<Rightarrow> string \<Rightarrow> string \<Rightarrow> string list option" where
  "clipboard_load clip scope name = tget (cl_values (scope_of clip scope)) name"

definition hashlineRegisterBytes :: "(string, string list) table \<Rightarrow> int" where
  "hashlineRegisterBytes values = sum_list (map (\<lambda>(name, ls). sum_list (map (\<lambda>l. int (length l) + 1) ls)) values)"

definition store_register :: "string \<times> string list \<Rightarrow> clip_scope \<Rightarrow> clip_scope" where
  "store_register r s =
     (let (name, ls) = r in
      \<lparr>cl_values = tput name ls (cl_values s),
       cl_order = (if tget (cl_values s) name = None then cl_order s @ [name] else cl_order s)\<rparr>)"

text \<open>The loop that drops the oldest registers; \<open>None\<close> when it indexes the empty order.\<close>

fun evict_registers :: "(string, string list) table \<Rightarrow> string list \<Rightarrow> clip_scope option" where
  "evict_registers values [] = (if hashlineRegisterBytes values > maxHashlineRegisterBytes then None else Some \<lparr>cl_values = values, cl_order = []\<rparr>)"
| "evict_registers values (oldest # order) =
     (if length (oldest # order) > maxHashlineRegistersPerScope \<or> hashlineRegisterBytes values > maxHashlineRegisterBytes
      then evict_registers (tdelete oldest values) order else Some \<lparr>cl_values = values, cl_order = oldest # order\<rparr>)"

definition clipboard_commit :: "clipboard \<Rightarrow> string \<Rightarrow> (string, string list) table \<Rightarrow> clipboard option" where
  "clipboard_commit clip scope values =
     (if values = [] then Some clip
      else let s = fold store_register values (scope_of clip scope) in
        map_option (\<lambda>s'. tput scope s' clip) (evict_registers (cl_values s) (cl_order s)))"

section \<open>Preparing a patch\<close>

record edit_io =
  io_hash :: hashline_env
  io_root :: string
  io_open :: "string option"
  io_read :: "string \<Rightarrow> string option"
  io_lstat :: "string \<Rightarrow> string option"
  io_temp :: "string \<Rightarrow> string option"
  io_chmod :: "string \<Rightarrow> nat option"
  io_write :: "string \<Rightarrow> nat option"
  io_rename :: "string \<Rightarrow> string option"
  io_remove :: "string \<Rightarrow> string option"
  io_restore :: "string \<Rightarrow> string option"
  io_cleanup :: "string \<Rightarrow> bool"

record prepared_file =
  pf_source :: string
  pf_destination :: string
  pf_tag :: string
  pf_rawOriginal :: string
  pf_original :: string
  pf_final :: string
  pf_originalLines :: "string list"
  pf_actions :: "hashline_action list"
  pf_mode :: nat
  pf_remove :: bool
  pf_move :: bool
  pf_firstChanged :: nat
  pf_diff :: string

definition resolveHashlineRange :: "hashline_env \<Rightarrow> string \<Rightarrow> string \<Rightarrow> string list \<Rightarrow> hashline_locator \<Rightarrow> string + nat \<times> nat" where
  "resolveHashlineRange env path text lines loc =
     (if loc_kind loc = ''range'' then
        (if loc_start loc > length lines \<or> loc_end loc > length lines then Inl ''range is outside the file''
         else Inr (loc_start loc, loc_end loc))
      else if loc_kind loc = ''block'' then resolveHashlineBlock env path text (loc_start loc)
      else Inl ''locator is not a range or block'')"

definition action0 :: "nat \<Rightarrow> string list \<Rightarrow> nat \<Rightarrow> hashline_action" where
  "action0 gap body n = \<lparr>act_start = 0, act_end = 0, act_gap = gap, act_body = body, act_sequence = n, act_replace = False\<rparr>"

definition replace_action :: "nat \<Rightarrow> nat \<Rightarrow> string list \<Rightarrow> nat \<Rightarrow> hashline_action" where
  "replace_action s e body n = \<lparr>act_start = s, act_end = e, act_gap = 0, act_body = body, act_sequence = n, act_replace = True\<rparr>"

definition resolveHashlineAction ::
  "hashline_env \<Rightarrow> string \<Rightarrow> string \<Rightarrow> string list \<Rightarrow> hashline_locator \<Rightarrow> string list \<Rightarrow> nat \<Rightarrow> string + hashline_action" where
  "resolveHashlineAction env path text lines loc body n =
     (let k = loc_kind loc in
      if k = ''range'' \<or> k = ''block'' then
        bindE (resolveHashlineRange env path text lines loc) (\<lambda>(s, e). Inr (replace_action s e body n))
      else if k = ''before'' then
        (if loc_start loc > length lines then Inl ''line is outside the file'' else Inr (action0 (loc_start loc - 1) body n))
      else if k = ''after'' then
        (if loc_start loc > length lines then Inl ''line is outside the file'' else Inr (action0 (loc_start loc) body n))
      else if k = ''tail'' then Inr (action0 (length lines) body n)
      else if k = ''after_block'' then
        bindE (resolveHashlineBlock env path text (loc_start loc)) (\<lambda>(s, e). Inr (action0 e body n))
      else Inl ''unsupported locator'')"

text \<open>The registers while a patch is prepared: the named ones it cut and the anonymous one.\<close>

record registers =
  rg_pending :: "(string, string list) table"
  rg_anonymous :: "string list option"

definition paste_value :: "clipboard \<Rightarrow> string \<Rightarrow> registers \<Rightarrow> string \<Rightarrow> string list option" where
  "paste_value clip scope regs name =
     (if name = [] then rg_anonymous regs
      else case tget (rg_pending regs) name of Some v \<Rightarrow> Some v | None \<Rightarrow> clipboard_load clip scope name)"

definition add_action :: "prepared_file \<Rightarrow> hashline_action \<Rightarrow> prepared_file" where
  "add_action f a = f\<lparr>pf_actions := pf_actions f @ [a]\<rparr>"

text \<open>What ends the preparation: an error the call returns, or a panic of the runtime.\<close>

datatype prepare_fault = Refused string | Panicked

definition refusing :: "string + 'a \<Rightarrow> prepare_fault + 'a" where
  "refusing r = (case r of Inl e \<Rightarrow> Inl (Refused e) | Inr x \<Rightarrow> Inr x)"

text \<open>Slicing the lines beyond their end panics; a block resolved by Go's parser may end there.\<close>

definition prepare_cut :: "edit_io \<Rightarrow> hashline_op \<Rightarrow> prepared_file \<times> registers \<Rightarrow> prepare_fault + prepared_file \<times> registers" where
  "prepare_cut io op st =
     (let (f, regs) = st in
      bindE (refusing (resolveHashlineRange (io_hash io) (pf_source f) (pf_original f) (pf_originalLines f) (op_locator op))) (\<lambda>(s, e).
        if e > length (pf_originalLines f) then Inl Panicked
        else let captured = drop (s - 1) (take e (pf_originalLines f));
                 regs' = (if op_register op = [] then regs\<lparr>rg_anonymous := Some captured\<rparr>
                   else regs\<lparr>rg_pending := tput (op_register op) captured (rg_pending regs)\<rparr>)
          in Inr (add_action f (replace_action s e [] (op_sequence op)), regs')))"

definition prepare_insert :: "edit_io \<Rightarrow> hashline_op \<Rightarrow> string list \<Rightarrow> prepared_file \<Rightarrow> prepare_fault + prepared_file" where
  "prepare_insert io op body f =
     bindE (refusing (resolveHashlineAction (io_hash io) (pf_source f) (pf_original f) (pf_originalLines f) (op_locator op) body (op_sequence op)))
       (\<lambda>a. Inr (add_action f a))"

text \<open>One hunk; \<open>hunks\<close> is the number of hunks of its section.\<close>

definition prepare_op ::
  "edit_io \<Rightarrow> clipboard \<Rightarrow> string \<Rightarrow> nat \<Rightarrow> hashline_op \<Rightarrow> prepared_file \<times> registers \<Rightarrow> prepare_fault + prepared_file \<times> registers" where
  "prepare_op io clip scope hunks op st =
     (let (f, regs) = st; k = op_kind op in
      if k = ''put'' then bindE (prepare_insert io op (op_body op) f) (\<lambda>f'. Inr (f', regs))
      else if k = ''cut'' then prepare_cut io op st
      else if k = ''paste'' then
        (case paste_value clip scope regs (op_register op) of
           None \<Rightarrow> Inl (Refused ''register is empty'')
         | Some body \<Rightarrow> bindE (prepare_insert io op body f) (\<lambda>f'. Inr (f', regs)))
      else if k = ''remove'' then
        (if pf_move f \<or> pf_remove f \<or> pf_actions f \<noteq> [] \<or> hunks \<noteq> 1 then Inl (Refused ''REM must be the only hunk'')
         else Inr (f\<lparr>pf_remove := True\<rparr>, regs))
      else if k = ''move'' then
        (if pf_move f \<or> pf_remove f then Inl (Refused ''conflicting MV/REM hunks'')
         else bindE (refusing (workspaceRelativePath (io_root io) (op_dest op))) (\<lambda>d.
           Inr (f\<lparr>pf_destination := d, pf_move := d \<noteq> pf_source f\<rparr>, regs)))
      else Inr st)"

fun prepare_ops ::
  "edit_io \<Rightarrow> clipboard \<Rightarrow> string \<Rightarrow> nat \<Rightarrow> hashline_op list \<Rightarrow> prepared_file \<times> registers \<Rightarrow> prepare_fault + prepared_file \<times> registers" where
  "prepare_ops io clip scope hunks [] st = Inr st"
| "prepare_ops io clip scope hunks (op # ops) st =
     bindE (prepare_op io clip scope hunks op st) (prepare_ops io clip scope hunks ops)"

text \<open>The file of a section: read, checked against the tag and entered when it is named first.\<close>

definition open_file :: "edit_io \<Rightarrow> hworkspace \<Rightarrow> string \<Rightarrow> string \<Rightarrow> string + prepared_file" where
  "open_file io fs path tag =
     (case io_read io path of Some e \<Rightarrow> Inl e
      | None \<Rightarrow> (case fs path of None \<Rightarrow> Inl ''file does not exist''
        | Some file \<Rightarrow>
            let text = normalizeHashlineText (hf_data file) in
            if computeHashlineTag text \<noteq> tag then Inl ''stale tag''
            else Inr \<lparr>pf_source = path, pf_destination = path, pf_tag = tag, pf_rawOriginal = hf_data file,
              pf_original = text, pf_final = [], pf_originalLines = split_lines text, pf_actions = [],
              pf_mode = hf_mode file, pf_remove = False, pf_move = False, pf_firstChanged = 0, pf_diff = []\<rparr>))"

definition section_file :: "edit_io \<Rightarrow> hworkspace \<Rightarrow> (string, prepared_file) table \<Rightarrow> string \<Rightarrow> string \<Rightarrow> string + prepared_file" where
  "section_file io fs byPath path tag =
     (case tget byPath path of
        None \<Rightarrow> open_file io fs path tag
      | Some f \<Rightarrow> if pf_tag f \<noteq> tag then Inl ''duplicate section uses a different tag'' else Inr f)"

fun prepare_sections ::
  "edit_io \<Rightarrow> hworkspace \<Rightarrow> clipboard \<Rightarrow> string \<Rightarrow> hashline_section list \<Rightarrow> (string, prepared_file) table \<times> registers \<Rightarrow>
     prepare_fault + (string, prepared_file) table \<times> registers" where
  "prepare_sections io fs clip scope [] st = Inr st"
| "prepare_sections io fs clip scope (sec # secs) (byPath, regs) =
     bindE (refusing (workspaceRelativePath (io_root io) (sec_path sec))) (\<lambda>path.
     bindE (refusing (section_file io fs byPath path (sec_tag sec))) (\<lambda>f.
     bindE (prepare_ops io clip scope (length (sec_ops sec)) (sec_ops sec) (f, regs)) (\<lambda>(f', regs').
       prepare_sections io fs clip scope secs (tput path f' byPath, regs'))))"

definition firstChangedHashlineLine :: "string \<Rightarrow> string \<Rightarrow> nat" where
  "firstChangedHashlineLine before after =
     (if before = after then 0 else Suc (common_prefix (split_lines before) (split_lines after)))"

definition compactHashlineDiff :: "string \<Rightarrow> string \<Rightarrow> string" where
  "compactHashlineDiff before after =
     (if before = after then []
      else let (minus, plus) = changed_lines (split_lines before) (split_lines after) in
        TrimSuffix (concat (map (\<lambda>l. ''-'' @ l @ [CHR 0x0A]) minus @ map (\<lambda>l. ''+'' @ l @ [CHR 0x0A]) plus)) [CHR 0x0A])"

text \<open>The final contents of a file; the outer option is \<open>None\<close> when the pass over its lines does not end.\<close>

definition finish_file :: "prepared_file \<Rightarrow> (string + prepared_file) option" where
  "finish_file f =
     (if pf_remove f
      then Some (Inr (f\<lparr>pf_final := [], pf_firstChanged := 1, pf_diff := compactHashlineDiff (pf_original f) []\<rparr>))
      else map_option (\<lambda>r. case r of Inl e \<Rightarrow> Inl e
        | Inr ls \<Rightarrow> let final = Join ls [CHR 0x0A] in
            Inr (f\<lparr>pf_final := final, pf_firstChanged := firstChangedHashlineLine (pf_original f) final,
              pf_diff := compactHashlineDiff (pf_original f) final\<rparr>))
        (applyHashlineActions (pf_originalLines f) (pf_actions f)))"

fun finish_files :: "prepared_file list \<Rightarrow> (string + prepared_file list) option" where
  "finish_files [] = Some (Inr [])"
| "finish_files (f # fs) =
     (case finish_file f of
        None \<Rightarrow> None
      | Some (Inl e) \<Rightarrow> Some (Inl e)
      | Some (Inr f') \<Rightarrow> map_option (\<lambda>r. bindE r (\<lambda>fs'. Inr (f' # fs'))) (finish_files fs))"

definition file_mutated :: "prepared_file \<Rightarrow> bool" where
  "file_mutated f \<longleftrightarrow> pf_remove f \<or> pf_final f \<noteq> pf_original f \<or> pf_move f"

fun check_destinations ::
  "edit_io \<Rightarrow> hworkspace \<Rightarrow> string list \<Rightarrow> string list \<Rightarrow> prepared_file list \<Rightarrow> string option" where
  "check_destinations io fs sources outputs [] = None"
| "check_destinations io fs sources outputs (f # files) =
     (let d = pf_destination f in
      if pf_remove f then check_destinations io fs sources outputs files
      else if d \<in> set outputs then Some ''two files write one destination''
      else if d \<noteq> pf_source f \<and> io_lstat io d = None \<and> fs d \<noteq> None \<and> d \<notin> set sources then Some ''MV destination already exists''
      else if d \<noteq> pf_source f \<and> io_lstat io d \<noteq> None then io_lstat io d
      else check_destinations io fs sources (d # outputs) files)"

definition validateHashlineDestinations :: "edit_io \<Rightarrow> hworkspace \<Rightarrow> prepared_file list \<Rightarrow> string option" where
  "validateHashlineDestinations io fs prepared = check_destinations io fs (map pf_source prepared) [] prepared"

definition preparePatch ::
  "edit_io \<Rightarrow> hworkspace \<Rightarrow> clipboard \<Rightarrow> string \<Rightarrow> hashline_section list \<Rightarrow>
     (prepare_fault + prepared_file list \<times> (string, string list) table) option" where
  "preparePatch io fs clip scope patch =
     (case prepare_sections io fs clip scope patch ([], \<lparr>rg_pending = [], rg_anonymous = None\<rparr>) of
        Inl e \<Rightarrow> Some (Inl e)
      | Inr (byPath, regs) \<Rightarrow> (case finish_files (map snd byPath) of
          None \<Rightarrow> None
        | Some (Inl e) \<Rightarrow> Some (Inl (Refused e))
        | Some (Inr prepared) \<Rightarrow>
            if \<not> list_ex file_mutated prepared \<and> rg_pending regs = [] then Some (Inl (Refused ''patch produced no file or register change''))
            else case validateHashlineDestinations io fs prepared of
              Some e \<Rightarrow> Some (Inl (Refused e)) | None \<Rightarrow> Some (Inr (prepared, rg_pending regs))))"

section \<open>Committing a patch\<close>

text \<open>A failed commit, and one whose rollback failed as well.\<close>

datatype commit_error = CommitFailed string | RollbackFailed string "string list"

text \<open>The outcome of a step: the error, the workspace and the destinations whose temporary file remains.\<close>

type_synonym commit_result = "commit_error option \<times> hworkspace \<times> string list"

definition commit_outputs :: "prepared_file list \<Rightarrow> (string, prepared_file) table" where
  "commit_outputs prepared = fold (\<lambda>f t. if pf_remove f then t else tput (pf_destination f) f t) prepared []"

definition commit_originals :: "prepared_file list \<Rightarrow> (string, hfile) table" where
  "commit_originals prepared =
     fold (\<lambda>f t. tput (pf_source f) \<lparr>hf_data = pf_rawOriginal f, hf_mode = pf_mode f\<rparr> t) prepared []"

text \<open>The contents of every source are compared once more.\<close>

fun changed_source :: "edit_io \<Rightarrow> hworkspace \<Rightarrow> prepared_file list \<Rightarrow> string option" where
  "changed_source io fs [] = None"
| "changed_source io fs (f # files) =
     (if io_read io (pf_source f) \<noteq> None \<or> map_option hf_data (fs (pf_source f)) \<noteq> Some (pf_rawOriginal f)
      then Some ''file changed while the patch was prepared'' else changed_source io fs files)"

definition cleanupHashlineTemps :: "edit_io \<Rightarrow> string list \<Rightarrow> string list" where
  "cleanupHashlineTemps io temps = filter (\<lambda>d. \<not> io_cleanup io d) temps"

text \<open>Writing the temporary files. What stops the loop is the error of the directory, of the creation, of
  \<^verbatim>\<open>Sync\<close> or of \<^verbatim>\<open>Close\<close> (\<open>io_temp\<close>); the file it happens to is removed with the others.\<close>

fun write_temps :: "edit_io \<Rightarrow> string list \<Rightarrow> string list \<Rightarrow> string option \<times> string list" where
  "write_temps io temps [] = (None, temps)"
| "write_temps io temps (d # ds) =
     (case io_temp io d of
        Some e \<Rightarrow> (Some e, cleanupHashlineTemps io temps)
      | None \<Rightarrow> write_temps io (temps @ [d]) ds)"

text \<open>What the temporary file of a destination then holds. After \<^verbatim>\<open>if err := writer.Chmod(...); err == nil\<close> the
  outer \<^verbatim>\<open>err\<close> is still that of the creation, so a failed \<^verbatim>\<open>Chmod\<close> leaves an empty file of the mode it was
  created with, and a failed \<^verbatim>\<open>Write\<close> leaves what was written before it failed.\<close>

definition temp_file :: "edit_io \<Rightarrow> string \<Rightarrow> prepared_file \<Rightarrow> hfile" where
  "temp_file io d f =
     (case io_chmod io d of
        Some created \<Rightarrow> \<lparr>hf_data = [], hf_mode = created\<rparr>
      | None \<Rightarrow> (case io_write io d of
          Some written \<Rightarrow> \<lparr>hf_data = take written (pf_final f), hf_mode = pf_mode f\<rparr>
        | None \<Rightarrow> \<lparr>hf_data = pf_final f, hf_mode = pf_mode f\<rparr>))"

text \<open>One path of \<^verbatim>\<open>rollbackHashlineFiles\<close>: what was created is removed, what was there is written back.\<close>

definition restore_path :: "edit_io \<Rightarrow> (string, hfile) table \<Rightarrow> string \<Rightarrow> hworkspace \<times> string list \<Rightarrow> hworkspace \<times> string list" where
  "restore_path io originals path st =
     (let (fs, failures) = st in
      case io_restore io path of
        Some e \<Rightarrow> (if tget originals path = None \<and> fs path = None then (fs, failures) else (fs, failures @ [e]))
      | None \<Rightarrow> (fs(path := tget originals path), failures))"

definition rollbackHashlineFiles :: "edit_io \<Rightarrow> (string, hfile) table \<Rightarrow> string list \<Rightarrow> hworkspace \<Rightarrow> hworkspace \<times> string list" where
  "rollbackHashlineFiles io originals mutated fs = fold (restore_path io originals) (rev (remdups (rev mutated))) (fs, [])"

definition combineRollbackError :: "string \<Rightarrow> string list \<Rightarrow> commit_error" where
  "combineRollbackError e failures = (if failures = [] then CommitFailed e else RollbackFailed e failures)"

definition abort_commit :: "edit_io \<Rightarrow> (string, hfile) table \<Rightarrow> string list \<Rightarrow> string list \<Rightarrow> string \<Rightarrow> hworkspace \<Rightarrow> commit_result" where
  "abort_commit io originals mutated temps e fs =
     (let (fs', failures) = rollbackHashlineFiles io originals mutated fs in
      (Some (combineRollbackError e failures), fs', cleanupHashlineTemps io temps))"

text \<open>The renames, in the order of the destinations; then the sources that nothing was written to go.\<close>

fun remove_sources ::
  "edit_io \<Rightarrow> (string, hfile) table \<Rightarrow> (string, prepared_file) table \<Rightarrow> prepared_file list \<Rightarrow> string list \<Rightarrow> hworkspace \<Rightarrow> commit_result" where
  "remove_sources io originals outputs [] mutated fs = (None, fs, [])"
| "remove_sources io originals outputs (f # files) mutated fs =
     (if tget outputs (pf_source f) \<noteq> None then remove_sources io originals outputs files mutated fs
      else case io_remove io (pf_source f) of
        Some e \<Rightarrow> abort_commit io originals mutated [] e fs
      | None \<Rightarrow> remove_sources io originals outputs files (mutated @ [pf_source f]) (fs(pf_source f := None)))"

fun rename_outputs ::
  "edit_io \<Rightarrow> (string, hfile) table \<Rightarrow> (string, prepared_file) table \<Rightarrow> prepared_file list \<Rightarrow> string list \<Rightarrow> string list \<Rightarrow>
     hworkspace \<Rightarrow> commit_result" where
  "rename_outputs io originals outputs prepared [] mutated fs = remove_sources io originals outputs prepared mutated fs"
| "rename_outputs io originals outputs prepared (d # ds) mutated fs =
     (case io_rename io d of
        Some e \<Rightarrow> abort_commit io originals mutated (d # ds) e fs
      | None \<Rightarrow> rename_outputs io originals outputs prepared ds (mutated @ [d])
          (fs(d := map_option (temp_file io d) (tget outputs d))))"

definition commitPatchLocal :: "edit_io \<Rightarrow> prepared_file list \<Rightarrow> hworkspace \<Rightarrow> commit_result" where
  "commitPatchLocal io prepared fs =
     (case changed_source io fs prepared of
        Some e \<Rightarrow> (Some (CommitFailed e), fs, [])
      | None \<Rightarrow>
          let outputs = commit_outputs prepared in
          case write_temps io [] (map fst outputs) of
            (Some e, temps) \<Rightarrow> (Some (CommitFailed e), fs, temps)
          | (None, _) \<Rightarrow>
              rename_outputs io (commit_originals prepared) outputs prepared (sort (map fst outputs)) [] fs)"

section \<open>The tool call\<close>

datatype edit_result = Rejected commit_error | Crashed | Edited "prepared_file list"

text \<open>\<open>input\<close> is \<open>None\<close> when the arguments do not decode; \<open>Crashed\<close> is a panic. The result \<open>None\<close> is a call that does not return.\<close>

definition edit_execute ::
  "edit_io \<Rightarrow> string \<Rightarrow> string option \<Rightarrow> hworkspace \<times> clipboard \<Rightarrow> (edit_result \<times> hworkspace \<times> clipboard \<times> string list) option" where
  "edit_execute io scope input st =
     (let (fs, clip) = st; reject = (\<lambda>e. Some (Rejected (CommitFailed e), fs, clip, [])) in
      case input of None \<Rightarrow> reject ''decode arguments''
      | Some text \<Rightarrow> (case parseHashlinePatch text of
          Inl e \<Rightarrow> reject e
        | Inr patch \<Rightarrow> (case io_open io of
            Some e \<Rightarrow> reject e
          | None \<Rightarrow> (case preparePatch io fs clip scope patch of
              None \<Rightarrow> None
            | Some (Inl (Refused e)) \<Rightarrow> reject e
            | Some (Inl Panicked) \<Rightarrow> Some (Crashed, fs, clip, [])
            | Some (Inr (prepared, pending)) \<Rightarrow> (case commitPatchLocal io prepared fs of
                (Some e, fs', temps) \<Rightarrow> Some (Rejected e, fs', clip, temps)
              | (None, fs', temps) \<Rightarrow>
                  map_option (\<lambda>clip'. (Edited prepared, fs', clip', temps)) (clipboard_commit clip scope pending))))))"

end
