(* ===== verification/Hashline_Prepare.thy ===== *)
theory Hashline_Prepare
  imports Hashline_Edit
begin

text \<open>
  Lemmas on the first half of the edit tool: its clipboard stays bounded, every parsed range is one, and
  what a patch prepares agrees with the files it was read from.
\<close>

section \<open>The clipboard\<close>

definition clip_scope_ok :: "clip_scope \<Rightarrow> bool" where
  "clip_scope_ok s \<longleftrightarrow> table_ok (cl_values s) \<and> distinct (cl_order s) \<and> set (cl_order s) = fst ` set (cl_values s)"

definition clip_scope_bounded :: "clip_scope \<Rightarrow> bool" where
  "clip_scope_bounded s \<longleftrightarrow> length (cl_order s) \<le> maxHashlineRegistersPerScope \<and>
     length (cl_values s) \<le> maxHashlineRegistersPerScope \<and> hashlineRegisterBytes (cl_values s) \<le> maxHashlineRegisterBytes"

definition clipboard_ok :: "clipboard \<Rightarrow> bool" where
  "clipboard_ok clip \<longleftrightarrow> (\<forall>scope s. tget clip scope = Some s \<longrightarrow> clip_scope_ok s \<and> clip_scope_bounded s)"

lemma in_keys: "k \<in> fst ` set t \<longleftrightarrow> tget t k \<noteq> None"
  unfolding tget_def by (simp add: map_of_eq_None_iff)

lemma store_register_ok: "clip_scope_ok s \<Longrightarrow> clip_scope_ok (store_register r s)"
  by (cases r) (auto simp: store_register_def clip_scope_ok_def in_keys [symmetric] table_ok_tput set_eq_iff in_keys tget_tput)

lemma fold_store_ok: "clip_scope_ok s \<Longrightarrow> clip_scope_ok (fold store_register rs s)"
  by (induction rs arbitrary: s) (auto intro: store_register_ok)

lemma evict_ok:
  assumes "clip_scope_ok \<lparr>cl_values = vs, cl_order = order\<rparr>"
  shows "\<exists>s. evict_registers vs order = Some s \<and> clip_scope_ok s \<and> clip_scope_bounded s \<and> (\<exists>dropped. order = dropped @ cl_order s)"
  using assms
proof (induction vs order rule: evict_registers.induct)
  case (1 vs)
  then have "vs = []" by (auto simp: clip_scope_ok_def)
  with 1 show ?case by (simp add: clip_scope_bounded_def hashlineRegisterBytes_def maxHashlineRegisterBytes_def)
next
  case (2 vs oldest order)
  show ?case
  proof (cases "length (oldest # order) > maxHashlineRegistersPerScope \<or> hashlineRegisterBytes vs > maxHashlineRegisterBytes")
    case True
    have "clip_scope_ok \<lparr>cl_values = tdelete oldest vs, cl_order = order\<rparr>"
      using 2(2) by (auto simp: clip_scope_ok_def table_ok_tdelete set_eq_iff in_keys tget_tdelete)
    from 2(1) [OF True this] True show ?thesis by (metis append_Cons evict_registers.simps(2))
  next
    case False
    from 2(2) have d: "distinct (map fst vs)" "distinct (oldest # order)" "set (map fst vs) = set (oldest # order)"
      by (simp_all add: clip_scope_ok_def table_ok_def)
    have "length vs = length (oldest # order)"
      using distinct_card [OF d(1)] distinct_card [OF d(2)] unfolding d(3) by simp
    with 2(2) False show ?thesis by (simp add: clip_scope_bounded_def)
  qed
qed

lemma commit_scope:
  assumes "clipboard_ok clip"
  shows "\<exists>clip'. clipboard_commit clip scope regs = Some clip' \<and> clipboard_ok clip'"
proof (cases "regs = []")
  case True
  with assms show ?thesis by (simp add: clipboard_commit_def)
next
  case False
  have "clip_scope_ok (scope_of clip scope)"
    using assms by (auto simp: clipboard_ok_def scope_of_def empty_scope_def clip_scope_ok_def split: option.split)
  from fold_store_ok [OF this, of regs]
  have "clip_scope_ok \<lparr>cl_values = cl_values (fold store_register regs (scope_of clip scope)),
      cl_order = cl_order (fold store_register regs (scope_of clip scope))\<rparr>" by (simp add: clip_scope_ok_def)
  from evict_ok [OF this] obtain s where "evict_registers (cl_values (fold store_register regs (scope_of clip scope)))
      (cl_order (fold store_register regs (scope_of clip scope))) = Some s" "clip_scope_ok s" "clip_scope_bounded s" by blast
  with False assms show ?thesis by (auto simp: clipboard_commit_def Let_def clipboard_ok_def tget_tput)
qed

section \<open>What a parsed locator names\<close>

definition locator_bounds :: "hashline_locator \<Rightarrow> bool" where
  "locator_bounds l \<longleftrightarrow> (loc_kind l = ''range'' \<longrightarrow> 0 < loc_start l \<and> loc_start l \<le> loc_end l)"

lemma positiveLine_pos: "positiveLine s = Inr n \<Longrightarrow> 0 < n"
  by (auto simp: positiveLine_def split: option.splits if_splits)

lemma at_line_bounds: "at_line k s = Inr l \<Longrightarrow> k \<noteq> ''range'' \<Longrightarrow> locator_bounds l"
  by (auto simp: at_line_def bindE_eq_Inr locator_bounds_def)

lemma parse_range_bounds: "parse_range s t = Inr l \<Longrightarrow> locator_bounds l"
proof -
  assume r: "parse_range s t = Inr l"
  then obtain m where m: "positiveLine s = Inr m" by (auto simp: parse_range_def bindE_eq_Inr)
  with r obtain n where "positiveLine t = Inr n" "\<not> n < m" "l = \<lparr>loc_kind = ''range'', loc_start = m, loc_end = n\<rparr>"
    by (auto simp: parse_range_def split: sum.splits if_split_asm)
  with positiveLine_pos [OF m] show ?thesis by (simp add: locator_bounds_def)
qed

lemma if_InrE: "(if c then a else b) = Inr l \<Longrightarrow> (a = Inr l \<Longrightarrow> P) \<Longrightarrow> (b = Inr l \<Longrightarrow> P) \<Longrightarrow> P"
  by (cases c) auto

lemma parse_locator_bounds: "parseHashlineLocator s g = Inr l \<Longrightarrow> locator_bounds l"
  unfolding parseHashlineLocator_def Let_def
  by (elim if_InrE)
    (force simp: locator_bounds_def, (erule at_line_bounds, simp)+, simp add: parse_range_bounds split: option.split_asm prod.split_asm)

lemma parse_op_bounds:
  assumes "parseHashlinePatchOp line n = Inr (op, b)"
  shows "locator_bounds (op_locator op)"
proof -
  have zero: "locator_bounds locator0" by (simp add: locator_bounds_def locator0_def)
  from assms show ?thesis
    unfolding parseHashlinePatchOp_def
    by (auto simp: bindE_eq_Inr op0_def zero dest: parse_locator_bounds split: option.splits sum.splits prod.splits if_splits)
qed

lemma parse_ops_bounds: "parse_ops n ls = Inr (ops, m, rest) \<Longrightarrow> op \<in> set ops \<Longrightarrow> locator_bounds (op_locator op)"
proof (induction n ls arbitrary: ops m rest rule: parse_ops.induct)
  case (2 n line lines)
  show ?case
  proof (cases "is_header line \<or> line = []")
    case True
    with "2.prems" show ?thesis by (auto split: if_split_asm)
  next
    case False
    with "2.prems" obtain operation consumesBody where p: "parseHashlinePatchOp line n = Inr (operation, consumesBody)"
      by (auto simp: bindE_eq_Inr)
    let ?rest = "if consumesBody then dropWhile body_row lines else lines"
    from "2.prems" False p obtain ops' body where t: "parse_ops (Suc n) ?rest = Inr (ops', m, rest)"
      and o: "ops = operation\<lparr>op_body := body\<rparr> # ops' \<or> ops = operation # ops'"
      and rows: "consumesBody \<longrightarrow> takeWhile body_row lines \<noteq> []"
      by (auto simp: bindE_eq_Inr Let_def split: if_split_asm)
    have "locator_bounds (op_locator op)" if "op \<in> set ops'"
      using "2.IH" False p t that rows by (cases consumesBody) (auto simp: Let_def split: if_split_asm)
    with o "2.prems"(2) parse_op_bounds [OF p] show ?thesis by auto
  qed
qed simp

lemma parse_sections_bounds:
  "parse_sections n ls = Inr secs \<Longrightarrow> sec \<in> set secs \<Longrightarrow> op \<in> set (sec_ops sec) \<Longrightarrow> locator_bounds (op_locator op)"
proof (induction n ls arbitrary: secs rule: parse_sections.induct)
  case (2 n line lines)
  then obtain path tag ops m left where p: "hashlineSectionHeader line = Some (path, tag)" "parse_ops n lines = Inr (ops, m, left)" "ops \<noteq> []"
    by (auto split: option.split_asm sum.split_asm if_split_asm)
  with "2.prems" obtain secs' where "parse_sections m left = Inr secs'" "secs = \<lparr>sec_path = path, sec_tag = tag, sec_ops = ops\<rparr> # secs'"
    by (auto simp: bindE_eq_Inr)
  with "2.prems" "2.IH" p parse_ops_bounds [OF p(2)] show ?case by auto
qed simp

section \<open>Actions fit their file\<close>

definition nodes_within :: "hashline_env \<Rightarrow> bool" where
  "nodes_within env \<longleftrightarrow> (\<forall>path text nodes. he_go_nodes env path text = Some nodes \<longrightarrow>
     (\<forall>node \<in> set nodes. snd node \<le> length (split_lines text)))"

lemma block_fits:
  "nodes_within env \<Longrightarrow> resolveHashlineBlock env path text line = Inr (s, e) \<Longrightarrow>
     0 < s \<and> s \<le> e \<and> e \<le> length (split_lines text)"
  using block_within [of env path "text" line s e] unfolding nodes_within_def split_lines_def by auto

lemma range_fits:
  assumes "nodes_within env" and "locator_bounds loc"
    and "resolveHashlineRange env path text (split_lines text) loc = Inr (s, e)"
  shows "0 < s \<and> s \<le> e \<and> e \<le> length (split_lines text)"
  using assms block_fits [OF assms(1)]
  by (auto simp: resolveHashlineRange_def locator_bounds_def split: if_split_asm)

lemma action_resolved_fits:
  assumes "nodes_within env" and "locator_bounds loc"
    and "resolveHashlineAction env path text (split_lines text) loc body n = Inr a"
  shows "action_fits (length (split_lines text)) a"
  using assms(3) block_fits [OF assms(1), of path "text" "loc_start loc"] range_fits [OF assms(1,2), of path "text"]
  by (auto simp: resolveHashlineAction_def Let_def bindE_eq_Inr action_fits_def replace_action_def action0_def Suc_le_eq
    split: if_split_asm)

section \<open>What the hunks of a patch ask for\<close>

text \<open>The hunks of a patch in its order, each with the path of its section.\<close>

definition section_hunks :: "edit_io \<Rightarrow> hashline_section \<Rightarrow> (string \<times> hashline_op) list" where
  "section_hunks io sec =
     (case workspaceRelativePath (io_root io) (sec_path sec) of Inl e \<Rightarrow> [] | Inr path \<Rightarrow> map (Pair path) (sec_ops sec))"

definition patch_hunks :: "edit_io \<Rightarrow> hashline_section list \<Rightarrow> (string \<times> hashline_op) list" where
  "patch_hunks io patch = concat (map (section_hunks io) patch)"

definition path_text :: "hworkspace \<Rightarrow> string \<Rightarrow> string" where
  "path_text fs path = (case fs path of None \<Rightarrow> [] | Some file \<Rightarrow> normalizeHashlineText (hf_data file))"

definition hunk_range :: "edit_io \<Rightarrow> hworkspace \<Rightarrow> string \<Rightarrow> hashline_op \<Rightarrow> string + nat \<times> nat" where
  "hunk_range io fs path op =
     resolveHashlineRange (io_hash io) path (path_text fs path) (split_lines (path_text fs path)) (op_locator op)"

definition hunk_insert :: "edit_io \<Rightarrow> hworkspace \<Rightarrow> string \<Rightarrow> hashline_op \<Rightarrow> string list \<Rightarrow> string + hashline_action" where
  "hunk_insert io fs path op body =
     resolveHashlineAction (io_hash io) path (path_text fs path) (split_lines (path_text fs path)) (op_locator op) body (op_sequence op)"

text \<open>The lines a CUT takes: those of its range, as the file had them before the patch.\<close>

definition cut_lines :: "edit_io \<Rightarrow> hworkspace \<Rightarrow> string \<times> hashline_op \<Rightarrow> string list" where
  "cut_lines io fs h = (case hunk_range io fs (fst h) (snd h) of Inl e \<Rightarrow> []
     | Inr (s, e) \<Rightarrow> drop (s - 1) (take e (split_lines (path_text fs (fst h)))))"

text \<open>What was last cut into a register by the hunks before this one.\<close>

definition last_cut :: "edit_io \<Rightarrow> hworkspace \<Rightarrow> (string \<times> hashline_op) list \<Rightarrow> string \<Rightarrow> string list option" where
  "last_cut io fs before name =
     map_option (cut_lines io fs) (List.find (\<lambda>h. op_kind (snd h) = ''cut'' \<and> op_register (snd h) = name) (rev before))"

text \<open>What a register holds at a hunk: the last cut into it, or for a named one the clipboard's lines.\<close>

definition pasted_lines ::
  "edit_io \<Rightarrow> hworkspace \<Rightarrow> clipboard \<Rightarrow> string \<Rightarrow> (string \<times> hashline_op) list \<Rightarrow> string \<Rightarrow> string list option" where
  "pasted_lines io fs clip scope before name =
     (case last_cut io fs before name of Some ls \<Rightarrow> Some ls
      | None \<Rightarrow> if name = [] then None else clipboard_load clip scope name)"

text \<open>The edit of a hunk, given the hunks before it.\<close>

definition hunk_action ::
  "edit_io \<Rightarrow> hworkspace \<Rightarrow> clipboard \<Rightarrow> string \<Rightarrow> (string \<times> hashline_op) list \<Rightarrow> string \<times> hashline_op \<Rightarrow> hashline_action \<Rightarrow> bool" where
  "hunk_action io fs clip scope before h a \<longleftrightarrow>
     (let (path, op) = h in
      if op_kind op = ''cut'' then (\<exists>s e. hunk_range io fs path op = Inr (s, e) \<and> a = replace_action s e [] (op_sequence op))
      else if op_kind op = ''paste'' then
        (\<exists>body. pasted_lines io fs clip scope before (op_register op) = Some body \<and> hunk_insert io fs path op body = Inr a)
      else hunk_insert io fs path op (op_body op) = Inr a)"

definition edits_of :: "string \<Rightarrow> string \<times> hashline_op \<Rightarrow> bool" where
  "edits_of path h \<longleftrightarrow> fst h = path \<and> op_kind (snd h) \<in> {''put'', ''cut'', ''paste''}"

text \<open>The edits of one file among the hunks, each with the hunks before it.\<close>

fun file_hunks ::
  "string \<Rightarrow> (string \<times> hashline_op) list \<Rightarrow> (string \<times> hashline_op) list \<Rightarrow> ((string \<times> hashline_op) list \<times> string \<times> hashline_op) list" where
  "file_hunks path before [] = []"
| "file_hunks path before (h # hs) =
     (if edits_of path h then (before, h) # file_hunks path (before @ [h]) hs else file_hunks path (before @ [h]) hs)"

definition removes :: "string \<Rightarrow> string \<times> hashline_op \<Rightarrow> bool" where
  "removes path h \<longleftrightarrow> fst h = path \<and> op_kind (snd h) = ''remove''"

definition moves :: "string \<Rightarrow> string \<times> hashline_op \<Rightarrow> bool" where
  "moves path h \<longleftrightarrow> fst h = path \<and> op_kind (snd h) = ''move''"

text \<open>Where the hunks send a file: to the destination of the last move, or nowhere.\<close>

definition destined :: "edit_io \<Rightarrow> (string \<times> hashline_op) list \<Rightarrow> string \<Rightarrow> string \<Rightarrow> bool" where
  "destined io hs path d \<longleftrightarrow> (case List.find (moves path) (rev hs) of None \<Rightarrow> d = path
     | Some h \<Rightarrow> workspaceRelativePath (io_root io) (op_dest (snd h)) = Inr d)"

text \<open>A prepared file carries out the hunks: its edits are exactly those the hunks give for it, in their
  order; it goes exactly when a hunk removes it; and it is written where the last move says.\<close>

definition carries_out ::
  "edit_io \<Rightarrow> hworkspace \<Rightarrow> clipboard \<Rightarrow> string \<Rightarrow> (string \<times> hashline_op) list \<Rightarrow> prepared_file \<Rightarrow> bool" where
  "carries_out io fs clip scope hs f \<longleftrightarrow>
     list_all2 (\<lambda>(before, h) a. hunk_action io fs clip scope before h a) (file_hunks (pf_source f) [] hs) (pf_actions f) \<and>
     (pf_remove f \<longleftrightarrow> list_ex (removes (pf_source f)) hs) \<and>
     destined io hs (pf_source f) (pf_destination f)"

lemma destined_snoc:
  "destined io (hs @ [h]) path d = (if moves path h then workspaceRelativePath (io_root io) (op_dest (snd h)) = Inr d else destined io hs path d)"
  by (simp add: destined_def)

lemma file_hunks_append: "file_hunks path before (xs @ ys) = file_hunks path before xs @ file_hunks path (before @ xs) ys"
  by (induction xs arbitrary: before) simp_all

lemma file_hunks_snoc: "file_hunks path [] (hs @ [h]) = file_hunks path [] hs @ (if edits_of path h then [(hs, h)] else [])"
  by (simp add: file_hunks_append)

lemma file_hunks_other: "(\<And>h. h \<in> set hs \<Longrightarrow> fst h \<noteq> path) \<Longrightarrow> file_hunks path before hs = []"
  by (induction hs arbitrary: before) (auto simp: edits_of_def)

lemma find_append: "List.find P (xs @ ys) = (case List.find P xs of None \<Rightarrow> List.find P ys | Some x \<Rightarrow> Some x)"
  by (induction xs) simp_all

text \<open>Hunks on other files change nothing.\<close>

lemma carries_out_other:
  assumes "\<And>h. h \<in> set more_hunks \<Longrightarrow> fst h \<noteq> pf_source f"
  shows "carries_out io fs clip scope (hs @ more_hunks) f = carries_out io fs clip scope hs f"
proof -
  have "List.find (moves (pf_source f)) (rev more_hunks) = None" "\<not> list_ex (removes (pf_source f)) more_hunks"
    using assms by (fastforce simp: find_None_iff moves_def removes_def list_ex_iff)+
  then show ?thesis by (simp add: carries_out_def file_hunks_append file_hunks_other [OF assms] destined_def find_append)
qed

section \<open>What is prepared agrees with the files\<close>

text \<open>The record of a file agrees with what the workspace holds at its source, and its actions fit it.\<close>

definition file_ok :: "hworkspace \<Rightarrow> prepared_file \<Rightarrow> bool" where
  "file_ok fs f \<longleftrightarrow> fs (pf_source f) = Some \<lparr>hf_data = pf_rawOriginal f, hf_mode = pf_mode f\<rparr> \<and>
     pf_original f = normalizeHashlineText (pf_rawOriginal f) \<and> pf_originalLines f = split_lines (pf_original f) \<and>
     pf_tag f = computeHashlineTag (pf_original f) \<and> list_all (action_fits (length (pf_originalLines f))) (pf_actions f) \<and>
     (pf_move f \<longleftrightarrow> pf_destination f \<noteq> pf_source f)"

lemma file_ok_text: "file_ok fs f \<Longrightarrow> pf_original f = path_text fs (pf_source f) \<and> pf_originalLines f = split_lines (path_text fs (pf_source f))"
  by (simp add: file_ok_def path_text_def)

lemma open_file_ok:
  "open_file io fs path tag = Inr f \<Longrightarrow>
     file_ok fs f \<and> pf_source f = path \<and> pf_tag f = tag \<and> pf_actions f = [] \<and> \<not> pf_remove f \<and> pf_destination f = path"
  by (auto simp: open_file_def file_ok_def Let_def split: option.split_asm if_split_asm)

lemma open_file_carries_out:
  assumes "open_file io fs path tag = Inr f" and "\<And>h. h \<in> set hs \<Longrightarrow> fst h \<noteq> path"
  shows "carries_out io fs clip scope hs f"
proof -
  have "carries_out io fs clip scope [] f" using open_file_ok [OF assms(1)] by (simp add: carries_out_def destined_def)
  with carries_out_other [of hs f io fs clip scope "[]"] assms(2) open_file_ok [OF assms(1)] show ?thesis by simp
qed

text \<open>The registers hold what the hunks before cut.\<close>

definition regs_ok :: "edit_io \<Rightarrow> hworkspace \<Rightarrow> (string \<times> hashline_op) list \<Rightarrow> registers \<Rightarrow> bool" where
  "regs_ok io fs hs regs \<longleftrightarrow> rg_anonymous regs = last_cut io fs hs [] \<and>
     (\<forall>name. name \<noteq> [] \<longrightarrow> tget (rg_pending regs) name = last_cut io fs hs name)"

lemma paste_value_spec: "regs_ok io fs hs regs \<Longrightarrow> paste_value clip scope regs name = pasted_lines io fs clip scope hs name"
  by (auto simp: paste_value_def pasted_lines_def regs_ok_def split: option.split)

lemma last_cut_snoc:
  "last_cut io fs (hs @ [h]) name =
     (if op_kind (snd h) = ''cut'' \<and> op_register (snd h) = name then Some (cut_lines io fs h) else last_cut io fs hs name)"
  by (simp add: last_cut_def)

lemma regs_ok_other: "op_kind (snd h) \<noteq> ''cut'' \<Longrightarrow> regs_ok io fs hs regs \<Longrightarrow> regs_ok io fs (hs @ [h]) regs"
  by (simp add: regs_ok_def last_cut_snoc)

lemma hunk_action_fits:
  assumes "nodes_within (io_hash io)" and "locator_bounds (op_locator op)" and "hunk_action io fs clip scope hs (path, op) a"
  shows "action_fits (length (split_lines (path_text fs path))) a"
proof -
  have cut: "action_fits (length (split_lines text)) (replace_action s e [] n)"
    if "resolveHashlineRange (io_hash io) path text (split_lines text) (op_locator op) = Inr (s, e)" for "text" s e n
    using range_fits [OF assms(1,2) that] by (simp add: action_fits_def replace_action_def Suc_le_eq)
  from assms(3) show ?thesis
    unfolding hunk_action_def hunk_range_def hunk_insert_def
    by (auto dest: cut action_resolved_fits [OF assms(1,2)] split: if_split_asm)
qed

text \<open>What a run of hunks leaves of a file.\<close>

definition same_file :: "prepared_file \<Rightarrow> prepared_file \<Rightarrow> bool" where
  "same_file f g \<longleftrightarrow> pf_source g = pf_source f \<and> pf_tag g = pf_tag f"

text \<open>A hunk adds its action, or removes or moves the file; the registers follow.\<close>

lemma carries_out_add:
  assumes "carries_out io fs clip scope hs f" and "op_kind op \<in> {''put'', ''cut'', ''paste''}"
    and "hunk_action io fs clip scope hs (pf_source f, op) a"
  shows "carries_out io fs clip scope (hs @ [(pf_source f, op)]) (add_action f a)"
proof -
  have "\<not> moves (pf_source f) (pf_source f, op)" "\<not> removes (pf_source f) (pf_source f, op)" "edits_of (pf_source f) (pf_source f, op)"
    using assms(2) by (auto simp: moves_def removes_def edits_of_def)
  with assms(1,3) show ?thesis
    by (simp add: carries_out_def file_hunks_snoc destined_snoc add_action_def list_all2_appendI)
qed

lemma file_ok_add:
  assumes "file_ok fs f" and "action_fits (length (split_lines (path_text fs (pf_source f)))) a"
  shows "file_ok fs (add_action f a)"
proof -
  have "action_fits (length (pf_originalLines f)) a" using assms(2) file_ok_text [OF assms(1)] by simp
  moreover have "list_all (action_fits (length (pf_originalLines f))) (pf_actions f)"
    using assms(1) unfolding file_ok_def by blast
  ultimately have acts: "list_all (action_fits (length (pf_originalLines f))) (pf_actions f @ [a])" by simp
  have fields: "pf_source (add_action f a) = pf_source f" "pf_rawOriginal (add_action f a) = pf_rawOriginal f"
    "pf_mode (add_action f a) = pf_mode f" "pf_original (add_action f a) = pf_original f"
    "pf_originalLines (add_action f a) = pf_originalLines f" "pf_tag (add_action f a) = pf_tag f"
    "pf_actions (add_action f a) = pf_actions f @ [a]" "pf_move (add_action f a) = pf_move f"
    "pf_destination (add_action f a) = pf_destination f" by (simp_all add: add_action_def)
  from assms(1) acts show ?thesis unfolding file_ok_def fields by blast
qed

lemma prepare_insert_step:
  assumes "nodes_within (io_hash io)" and "locator_bounds (op_locator op)" and "file_ok fs f"
    and "carries_out io fs clip scope hs f" and "op_kind op = ''put'' \<or> op_kind op = ''paste''"
    and "op_kind op = ''put'' \<Longrightarrow> body = op_body op"
    and "op_kind op = ''paste'' \<Longrightarrow> pasted_lines io fs clip scope hs (op_register op) = Some body"
    and "prepare_insert io op body f = Inr g"
  shows "file_ok fs g \<and> same_file f g \<and> carries_out io fs clip scope (hs @ [(pf_source f, op)]) g"
proof -
  from assms(8) obtain a where a: "hunk_insert io fs (pf_source f) op body = Inr a" "g = add_action f a"
    using file_ok_text [OF assms(3)] by (auto simp: prepare_insert_def hunk_insert_def bindE_eq_Inr refusing_def split: sum.split_asm)
  have h: "hunk_action io fs clip scope hs (pf_source f, op) a"
    using a(1) assms(5-7) unfolding hunk_action_def by (elim disjE) simp_all
  show ?thesis
    using carries_out_add [OF assms(4) _ h] file_ok_add [OF assms(3) hunk_action_fits [OF assms(1,2) h]] assms(5) a(2)
    by (auto simp: same_file_def add_action_def)
qed

lemma prepare_cut_step:
  assumes "nodes_within (io_hash io)" and "locator_bounds (op_locator op)" and "file_ok fs f"
    and "carries_out io fs clip scope hs f" and "regs_ok io fs hs regs" and "op_kind op = ''cut''"
    and "prepare_cut io op (f, regs) = Inr (g, regs')"
  shows "file_ok fs g \<and> same_file f g \<and> carries_out io fs clip scope (hs @ [(pf_source f, op)]) g \<and>
    regs_ok io fs (hs @ [(pf_source f, op)]) regs'"
proof -
  from assms(7) obtain s e where r: "hunk_range io fs (pf_source f) op = Inr (s, e)" "g = add_action f (replace_action s e [] (op_sequence op))"
    and regs': "regs' = (if op_register op = [] then regs\<lparr>rg_anonymous := Some (cut_lines io fs (pf_source f, op))\<rparr>
        else regs\<lparr>rg_pending := tput (op_register op) (cut_lines io fs (pf_source f, op)) (rg_pending regs)\<rparr>)"
    using file_ok_text [OF assms(3)]
    by (auto simp: prepare_cut_def hunk_range_def cut_lines_def Let_def bindE_eq_Inr refusing_def split: sum.split_asm if_split_asm)
  have h: "hunk_action io fs clip scope hs (pf_source f, op) (replace_action s e [] (op_sequence op))"
    using r(1) assms(6) by (simp add: hunk_action_def)
  have "regs_ok io fs (hs @ [(pf_source f, op)]) regs'"
    using assms(5,6) unfolding regs' by (auto simp: regs_ok_def last_cut_snoc)
  then show ?thesis
    using carries_out_add [OF assms(4) _ h] file_ok_add [OF assms(3) hunk_action_fits [OF assms(1,2) h]] assms(6) r(2)
    by (auto simp: same_file_def add_action_def)
qed

lemma prepare_op_step:
  assumes "nodes_within (io_hash io)" and "locator_bounds (op_locator op)" and "file_ok fs f"
    and "carries_out io fs clip scope hs f" and "regs_ok io fs hs regs"
    and "prepare_op io clip scope n op (f, regs) = Inr (g, regs')"
  shows "file_ok fs g \<and> same_file f g \<and> carries_out io fs clip scope (hs @ [(pf_source f, op)]) g \<and>
    regs_ok io fs (hs @ [(pf_source f, op)]) regs'"
proof -
  let ?h = "(pf_source f, op)"
  have upd: "file_ok fs (f\<lparr>pf_remove := True\<rparr>)" "file_ok fs (f\<lparr>pf_destination := d, pf_move := d \<noteq> pf_source f\<rparr>)" for d
    using assms(3) unfolding file_ok_def by auto
  consider "op_kind op = ''put''" | "op_kind op = ''cut''" | "op_kind op = ''paste''" | "op_kind op = ''remove''" | "op_kind op = ''move''"
    | "op_kind op \<notin> {''put'', ''cut'', ''paste'', ''remove'', ''move''}" by blast
  then show ?thesis
  proof cases
    case 1
    with assms(6) have "prepare_insert io op (op_body op) f = Inr g" "regs' = regs" by (auto simp: prepare_op_def bindE_eq_Inr)
    with prepare_insert_step [OF assms(1-4), of "op_body op" g] regs_ok_other [of ?h io fs hs regs] assms(5) 1 show ?thesis by simp
  next
    case 2
    with assms(6) prepare_cut_step [OF assms(1-5) 2] show ?thesis by (simp add: prepare_op_def)
  next
    case 3
    with assms(6) obtain body where "paste_value clip scope regs (op_register op) = Some body"
      "prepare_insert io op body f = Inr g" "regs' = regs" by (auto simp: prepare_op_def bindE_eq_Inr split: option.split_asm)
    with prepare_insert_step [OF assms(1-4), of body g] regs_ok_other [of ?h io fs hs regs] assms(5) paste_value_spec [OF assms(5)] 3
    show ?thesis by simp
  next
    case 4
    then have "g = f\<lparr>pf_remove := True\<rparr>" "regs' = regs" using assms(6) by (auto simp: prepare_op_def split: if_split_asm)
    moreover have "edits_of p ?h = False" "moves p ?h = False" "removes (pf_source f) ?h" for p
      using 4 by (simp_all add: edits_of_def moves_def removes_def)
    ultimately show ?thesis using upd(1) assms(4,5) regs_ok_other [of ?h io fs hs regs] 4
      by (simp add: carries_out_def file_hunks_snoc destined_snoc same_file_def)
  next
    case 5
    then obtain d where d: "workspaceRelativePath (io_root io) (op_dest op) = Inr d" "regs' = regs"
      "g = f\<lparr>pf_destination := d, pf_move := d \<noteq> pf_source f\<rparr>"
      using assms(6) by (auto simp: prepare_op_def bindE_eq_Inr refusing_def split: if_split_asm sum.split_asm)
    moreover have "edits_of p ?h = False" "moves (pf_source f) ?h" "removes p ?h = False" for p
      using 5 by (simp_all add: edits_of_def moves_def removes_def)
    ultimately show ?thesis using upd(2) [of d] assms(4,5) regs_ok_other [of ?h io fs hs regs] 5
      by (simp add: carries_out_def file_hunks_snoc destined_snoc same_file_def)
  next
    case 6
    then have "g = f" "regs' = regs" using assms(6) by (auto simp: prepare_op_def)
    moreover have "edits_of p ?h = False" "moves p ?h = False" "removes p ?h = False" for p
      using 6 by (simp_all add: edits_of_def moves_def removes_def)
    ultimately show ?thesis using assms(3-5) regs_ok_other [of ?h io fs hs regs] 6
      by (simp add: carries_out_def file_hunks_snoc destined_snoc same_file_def)
  qed
qed

lemma prepare_ops_step:
  assumes "nodes_within (io_hash io)"
  shows "list_all (\<lambda>op. locator_bounds (op_locator op)) ops \<Longrightarrow> file_ok fs f \<Longrightarrow> carries_out io fs clip scope hs f \<Longrightarrow>
     regs_ok io fs hs regs \<Longrightarrow> prepare_ops io clip scope n ops (f, regs) = Inr (g, regs') \<Longrightarrow>
     file_ok fs g \<and> same_file f g \<and> carries_out io fs clip scope (hs @ map (Pair (pf_source f)) ops) g \<and>
     regs_ok io fs (hs @ map (Pair (pf_source f)) ops) regs'"
proof (induction ops arbitrary: f regs hs)
  case (Cons op ops)
  from Cons.prems(5) obtain f1 r1 where one: "prepare_op io clip scope n op (f, regs) = Inr (f1, r1)"
    and rest: "prepare_ops io clip scope n ops (f1, r1) = Inr (g, regs')" by (auto simp: bindE_eq_Inr)
  from prepare_op_step [OF assms _ Cons.prems(2-4) one] Cons.prems(1)
  have s: "file_ok fs f1" "same_file f f1" "carries_out io fs clip scope (hs @ [(pf_source f, op)]) f1"
    "regs_ok io fs (hs @ [(pf_source f, op)]) r1" by simp_all
  from Cons.IH [OF _ s(1,3,4) rest] Cons.prems(1) s(2) show ?case by (simp add: same_file_def)
qed (simp add: same_file_def)

text \<open>No panic when Go's nodes lie within their files.\<close>

lemma bindE_eq_Inl_cases: "bindE r k = Inl e \<longleftrightarrow> r = Inl e \<or> (\<exists>x. r = Inr x \<and> k x = Inl e)"
  by (cases r) simp_all

lemma refusing_never_panics [simp]: "refusing r \<noteq> Inl Panicked"
  by (simp add: refusing_def split: sum.split)

lemma prepare_op_returns:
  assumes "nodes_within (io_hash io)" and "locator_bounds (op_locator op)" and "file_ok fs f"
  shows "prepare_op io clip scope n op (f, regs) \<noteq> Inl Panicked"
proof
  assume p: "prepare_op io clip scope n op (f, regs) = Inl Panicked"
  have ins: "prepare_insert io op body f \<noteq> Inl Panicked" for body
    by (simp add: prepare_insert_def bindE_eq_Inl_cases)
  from p ins have "prepare_cut io op (f, regs) = Inl Panicked"
    by (auto simp: prepare_op_def Let_def bindE_eq_Inl_cases split: if_split_asm option.split_asm)
  then obtain s e where "resolveHashlineRange (io_hash io) (pf_source f) (pf_original f) (pf_originalLines f) (op_locator op) = Inr (s, e)"
    "e > length (pf_originalLines f)"
    by (auto simp: prepare_cut_def Let_def bindE_eq_Inl_cases refusing_def split: if_split_asm sum.split_asm)
  with range_fits [OF assms(1,2), of "pf_source f" "pf_original f" s e] file_ok_text [OF assms(3)] show False by simp
qed

lemma prepare_ops_return:
  assumes "nodes_within (io_hash io)"
  shows "list_all (\<lambda>op. locator_bounds (op_locator op)) ops \<Longrightarrow> file_ok fs f \<Longrightarrow> carries_out io fs clip scope hs f \<Longrightarrow>
     regs_ok io fs hs regs \<Longrightarrow> prepare_ops io clip scope n ops (f, regs) \<noteq> Inl Panicked"
proof (induction ops arbitrary: f regs hs)
  case (Cons op ops)
  then have op: "locator_bounds (op_locator op)" by simp
  have "prepare_ops io clip scope n ops (f1, r1) \<noteq> Inl Panicked" if "prepare_op io clip scope n op (f, regs) = Inr (f1, r1)" for f1 r1
  proof -
    from prepare_op_step [OF assms op Cons.prems(2-4) that]
    have "file_ok fs f1" "carries_out io fs clip scope (hs @ [(pf_source f, op)]) f1" "regs_ok io fs (hs @ [(pf_source f, op)]) r1" by simp_all
    with Cons.IH [of f1 "hs @ [(pf_source f, op)]" r1] Cons.prems(1) show ?thesis by simp
  qed
  with prepare_op_returns [OF assms op Cons.prems(2)] show ?case by (auto simp: bindE_eq_Inl_cases)
qed simp

text \<open>The files entered so far, after the hunks \<open>hs\<close>.\<close>

definition files_ok :: "edit_io \<Rightarrow> hworkspace \<Rightarrow> clipboard \<Rightarrow> string \<Rightarrow> (string \<times> hashline_op) list \<Rightarrow> (string, prepared_file) table \<Rightarrow> bool" where
  "files_ok io fs clip scope hs t \<longleftrightarrow> table_ok t \<and>
     (\<forall>path f. tget t path = Some f \<longrightarrow> pf_source f = path \<and> file_ok fs f \<and> carries_out io fs clip scope hs f) \<and>
     (\<forall>h \<in> set hs. tget t (fst h) \<noteq> None)"

definition extends_files :: "(string, prepared_file) table \<Rightarrow> (string, prepared_file) table \<Rightarrow> bool" where
  "extends_files t u \<longleftrightarrow> (\<forall>path f. tget t path = Some f \<longrightarrow> (\<exists>g. tget u path = Some g \<and> same_file f g))"

text \<open>The file of a section, with the tag the section gives.\<close>

definition section_for :: "edit_io \<Rightarrow> hashline_section \<Rightarrow> prepared_file \<Rightarrow> bool" where
  "section_for io sec f \<longleftrightarrow> workspaceRelativePath (io_root io) (sec_path sec) = Inr (pf_source f) \<and> pf_tag f = sec_tag sec"

lemma section_file_ok:
  assumes "files_ok io fs clip scope hs t" and "section_file io fs t path tag = Inr f"
  shows "file_ok fs f \<and> pf_source f = path \<and> pf_tag f = tag \<and> carries_out io fs clip scope hs f \<and>
    (tget t path = None \<or> tget t path = Some f)"
proof (cases "tget t path")
  case None
  then have "fst h \<noteq> path" if "h \<in> set hs" for h using assms(1) that by (auto simp: files_ok_def)
  with None assms(2) open_file_carries_out [of io fs path tag f hs clip scope] open_file_ok [of io fs path tag f] show ?thesis
    by (simp add: section_file_def)
next
  case (Some g)
  with assms show ?thesis by (auto simp: section_file_def files_ok_def split: if_split_asm)
qed

lemma files_ok_tput:
  assumes "files_ok io fs clip scope hs t" and "file_ok fs g" and "pf_source g = path"
    and "carries_out io fs clip scope (hs @ map (Pair path) ops) g"
  shows "files_ok io fs clip scope (hs @ map (Pair path) ops) (tput path g t)"
proof -
  have "carries_out io fs clip scope (hs @ map (Pair path) ops) f" if "tget t p = Some f" "p \<noteq> path" for p f
  proof -
    from assms(1) that have "pf_source f = p" "carries_out io fs clip scope hs f" by (simp_all add: files_ok_def)
    moreover have "fst h \<noteq> pf_source f" if "h \<in> set (map (Pair path) ops)" for h
      using that \<open>p \<noteq> path\<close> \<open>pf_source f = p\<close> by auto
    ultimately show ?thesis using carries_out_other [of "map (Pair path) ops" f io fs clip scope hs] by blast
  qed
  with assms show ?thesis by (auto simp: files_ok_def tget_tput)
qed

lemma prepare_sections_ok:
  assumes "nodes_within (io_hash io)"
  shows "list_all (\<lambda>sec. list_all (\<lambda>op. locator_bounds (op_locator op)) (sec_ops sec)) secs \<Longrightarrow> files_ok io fs clip scope hs t \<Longrightarrow>
     regs_ok io fs hs regs \<Longrightarrow> prepare_sections io fs clip scope secs (t, regs) = Inr (u, regs') \<Longrightarrow>
     files_ok io fs clip scope (hs @ patch_hunks io secs) u \<and> extends_files t u \<and>
     (\<forall>sec \<in> set secs. \<exists>path f. tget u path = Some f \<and> section_for io sec f) \<and>
     (\<forall>path. tget u path \<noteq> None \<longrightarrow> tget t path \<noteq> None \<or>
        (\<exists>sec \<in> set secs. workspaceRelativePath (io_root io) (sec_path sec) = Inr path))"
proof (induction secs arbitrary: t regs hs)
  case Nil
  then show ?case by (simp add: patch_hunks_def extends_files_def same_file_def)
next
  case (Cons sec secs)
  from Cons.prems(4) obtain path f g rg where path: "workspaceRelativePath (io_root io) (sec_path sec) = Inr path"
    and f: "section_file io fs t path (sec_tag sec) = Inr f"
    and g: "prepare_ops io clip scope (length (sec_ops sec)) (sec_ops sec) (f, regs) = Inr (g, rg)"
    and rest: "prepare_sections io fs clip scope secs (tput path g t, rg) = Inr (u, regs')"
    by (auto simp: bindE_eq_Inr refusing_def split: sum.split_asm)
  note fo = section_file_ok [OF Cons.prems(2) f]
  have go: "file_ok fs g" "same_file f g" "carries_out io fs clip scope (hs @ map (Pair path) (sec_ops sec)) g"
    "regs_ok io fs (hs @ map (Pair path) (sec_ops sec)) rg"
    using prepare_ops_step [OF assms _ _ _ Cons.prems(3) g] Cons.prems(1) fo by auto
  have names: "pf_source g = path" "pf_tag g = sec_tag sec" using fo go(2) by (auto simp: same_file_def)
  have hunks: "patch_hunks io (sec # secs) = map (Pair path) (sec_ops sec) @ patch_hunks io secs"
    by (simp add: patch_hunks_def section_hunks_def path)
  have bounds: "list_all (\<lambda>sec. list_all (\<lambda>op. locator_bounds (op_locator op)) (sec_ops sec)) secs" using Cons.prems(1) by simp
  note IH = Cons.IH [OF bounds files_ok_tput [OF Cons.prems(2) go(1) names(1) go(3)] go(4) rest]
  then have IH1: "files_ok io fs clip scope (hs @ patch_hunks io (sec # secs)) u" by (simp add: hunks)
  from IH have ext: "extends_files (tput path g t) u" by blast
  then obtain k where k: "tget u path = Some k" "same_file g k" unfolding extends_files_def by (metis tget_tput)
  then have "section_for io sec k" using path names by (simp add: section_for_def same_file_def)
  moreover have "extends_files t u"
    unfolding extends_files_def
  proof (intro allI impI)
    fix p e assume e: "tget t p = Some e"
    show "\<exists>g'. tget u p = Some g' \<and> same_file e g'"
    proof (cases "p = path")
      case True
      with e fo have "e = f" by simp
      with True k go(2) show ?thesis by (auto simp: same_file_def)
    next
      case False
      with e have "tget (tput path g t) p = Some e" by simp
      with ext show ?thesis unfolding extends_files_def by blast
    qed
  qed
  ultimately show ?case using IH IH1 k path by (auto simp: tget_tput split: if_split_asm)
qed

lemma prepare_sections_return:
  assumes "nodes_within (io_hash io)"
  shows "list_all (\<lambda>sec. list_all (\<lambda>op. locator_bounds (op_locator op)) (sec_ops sec)) secs \<Longrightarrow> files_ok io fs clip scope hs t \<Longrightarrow>
     regs_ok io fs hs regs \<Longrightarrow> prepare_sections io fs clip scope secs (t, regs) \<noteq> Inl Panicked"
proof (induction secs arbitrary: t regs hs)
  case (Cons sec secs)
  have bounds: "list_all (\<lambda>op. locator_bounds (op_locator op)) (sec_ops sec)"
    "list_all (\<lambda>sec. list_all (\<lambda>op. locator_bounds (op_locator op)) (sec_ops sec)) secs" using Cons.prems(1) by simp_all
  show ?case
  proof
    assume p: "prepare_sections io fs clip scope (sec # secs) (t, regs) = Inl Panicked"
    then obtain path f where "workspaceRelativePath (io_root io) (sec_path sec) = Inr path"
      and f: "section_file io fs t path (sec_tag sec) = Inr f"
      and r: "bindE (prepare_ops io clip scope (length (sec_ops sec)) (sec_ops sec) (f, regs))
        (\<lambda>(f', regs'). prepare_sections io fs clip scope secs (tput path f' t, regs')) = Inl Panicked"
      by (auto simp: bindE_eq_Inl_cases refusing_def split: sum.split_asm)
    from section_file_ok [OF Cons.prems(2) f]
    have fo: "file_ok fs f" "pf_source f = path" "carries_out io fs clip scope hs f" by simp_all
    from r prepare_ops_return [OF assms bounds(1) fo(1,3) Cons.prems(3)] obtain g rg
      where g: "prepare_ops io clip scope (length (sec_ops sec)) (sec_ops sec) (f, regs) = Inr (g, rg)"
        and rest: "prepare_sections io fs clip scope secs (tput path g t, rg) = Inl Panicked"
      by (auto simp: bindE_eq_Inl_cases)
    from prepare_ops_step [OF assms bounds(1) fo(1,3) Cons.prems(3) g]
    have go: "file_ok fs g" "pf_source g = path" "carries_out io fs clip scope (hs @ map (Pair path) (sec_ops sec)) g"
      "regs_ok io fs (hs @ map (Pair path) (sec_ops sec)) rg" by (simp_all add: fo(2) same_file_def)
    from Cons.IH [OF bounds(2) files_ok_tput [OF Cons.prems(2) go(1-3)] go(4)] rest show False by simp
  qed
qed simp

section \<open>What preparePatch returns\<close>

text \<open>The final contents are the edits applied from the bottom up, or empty for a file that goes.\<close>

definition finished :: "prepared_file \<Rightarrow> bool" where
  "finished f \<longleftrightarrow> (if pf_remove f then pf_final f = []
     else all_apart (pf_actions f) \<and> pf_final f = Join (bottom_up (pf_originalLines f) (pf_actions f)) [CHR 0x0A])"

lemma file_ok_finish [simp]: "file_ok fs (f\<lparr>pf_final := a, pf_firstChanged := b, pf_diff := c\<rparr>) = file_ok fs f"
  by (simp add: file_ok_def)

text \<open>The last loop leaves alone what the sections said.\<close>

definition finishes :: "prepared_file \<Rightarrow> prepared_file \<Rightarrow> bool" where
  "finishes f g \<longleftrightarrow> same_file f g \<and> pf_actions g = pf_actions f \<and> pf_remove g = pf_remove f \<and>
     pf_destination g = pf_destination f"

lemma finish_file_ok:
  assumes "file_ok fs f"
  shows "(\<exists>e. finish_file f = Some (Inl e)) \<or> (\<exists>g. finish_file f = Some (Inr g) \<and> file_ok fs g \<and> finished g \<and> finishes f g)"
proof (cases "pf_remove f")
  case True
  with assms show ?thesis by (simp add: finish_file_def finished_def finishes_def same_file_def)
next
  case False
  have "list_all (action_fits (length (pf_originalLines f))) (pf_actions f)" using assms unfolding file_ok_def by blast
  from apply_refines [OF this] False assms show ?thesis
    by (cases "all_apart (pf_actions f)") (auto simp: finish_file_def finished_def finishes_def same_file_def Let_def)
qed

lemma finish_files_ok:
  "list_all (file_ok fs) files \<Longrightarrow> (\<exists>e. finish_files files = Some (Inl e)) \<or>
     (\<exists>gs. finish_files files = Some (Inr gs) \<and> list_all (file_ok fs) gs \<and> list_all finished gs \<and> list_all2 finishes files gs)"
proof (induction files)
  case (Cons f files)
  from finish_file_ok [of fs f] Cons.prems Cons.IH show ?case by fastforce
qed simp

lemma list_all2_mem: "list_all2 P xs ys \<Longrightarrow> x \<in> set xs \<Longrightarrow> \<exists>y \<in> set ys. P x y"
  by (induction rule: list_all2_induct) auto

lemma list_all2_mem_right: "list_all2 P xs ys \<Longrightarrow> y \<in> set ys \<Longrightarrow> \<exists>x \<in> set xs. P x y"
  by (induction rule: list_all2_induct) auto

lemma list_all2_finishes_source: "list_all2 finishes files gs \<Longrightarrow> map pf_source gs = map pf_source files"
  by (induction rule: list_all2_induct) (auto simp: finishes_def same_file_def)

text \<open>No two files are written to one place, and none over a file that the patch does not name.\<close>

definition destinations_ok :: "hworkspace \<Rightarrow> prepared_file list \<Rightarrow> bool" where
  "destinations_ok fs files \<longleftrightarrow> distinct (map pf_destination (filter (\<lambda>f. \<not> pf_remove f) files)) \<and>
     (\<forall>f \<in> set files. \<not> pf_remove f \<longrightarrow> pf_destination f \<notin> pf_source ` set files \<longrightarrow> fs (pf_destination f) = None)"

lemma check_destinations_ok:
  "check_destinations io fs sources outputs files = None \<Longrightarrow> pf_source ` set files \<subseteq> set sources \<Longrightarrow>
     distinct (map pf_destination (filter (\<lambda>f. \<not> pf_remove f) files)) \<and>
     set (map pf_destination (filter (\<lambda>f. \<not> pf_remove f) files)) \<inter> set outputs = {} \<and>
     (\<forall>f \<in> set files. \<not> pf_remove f \<longrightarrow> pf_destination f \<notin> set sources \<longrightarrow> fs (pf_destination f) = None)"
proof (induction files arbitrary: outputs)
  case (Cons f files)
  show ?case
  proof (cases "pf_remove f")
    case False
    with Cons.prems have "check_destinations io fs sources (pf_destination f # outputs) files = None"
      and new: "pf_destination f \<notin> set outputs"
      and free: "pf_destination f \<notin> set sources \<longrightarrow> fs (pf_destination f) = None"
      by (auto simp: Let_def split: if_split_asm)
    from Cons.IH [OF this(1)] Cons.prems(2) new free False show ?thesis by auto
  qed (use Cons in auto)
qed simp

definition prepared_ok :: "hworkspace \<Rightarrow> prepared_file list \<Rightarrow> bool" where
  "prepared_ok fs files \<longleftrightarrow> distinct (map pf_source files) \<and> list_all (file_ok fs) files \<and> list_all finished files \<and>
     destinations_ok fs files"

text \<open>Each section names one of the files, no other file is there, and every file carries out the hunks.\<close>

definition sections_match ::
  "edit_io \<Rightarrow> hworkspace \<Rightarrow> clipboard \<Rightarrow> string \<Rightarrow> hashline_section list \<Rightarrow> prepared_file list \<Rightarrow> bool" where
  "sections_match io fs clip scope secs files \<longleftrightarrow>
     (\<forall>sec \<in> set secs. \<exists>f \<in> set files. section_for io sec f) \<and>
     (\<forall>f \<in> set files. (\<exists>sec \<in> set secs. section_for io sec f) \<and> carries_out io fs clip scope (patch_hunks io secs) f)"

lemma files_ok_rows: "files_ok io fs clip scope hs t \<Longrightarrow> list_all (file_ok fs) (map snd t) \<and> map pf_source (map snd t) = map fst t"
  by (auto simp: files_ok_def list_all_iff in_set_tget)

lemma carries_out_finishes: "finishes f g \<Longrightarrow> carries_out io fs clip scope hs f \<Longrightarrow> carries_out io fs clip scope hs g"
  by (simp add: finishes_def same_file_def carries_out_def)

lemma section_for_finishes: "finishes f g \<Longrightarrow> section_for io sec f \<Longrightarrow> section_for io sec g"
  by (simp add: finishes_def same_file_def section_for_def)

lemma sections_match_files:
  assumes "files_ok io fs clip scope (patch_hunks io secs) t" and "list_all2 finishes (map snd t) files"
    and "\<forall>sec \<in> set secs. \<exists>path f. tget t path = Some f \<and> section_for io sec f"
    and "\<forall>path. tget t path \<noteq> None \<longrightarrow> (\<exists>sec \<in> set secs. workspaceRelativePath (io_root io) (sec_path sec) = Inr path)"
  shows "sections_match io fs clip scope secs files"
proof -
  have row: "f \<in> set (map snd t) \<longleftrightarrow> (\<exists>path. tget t path = Some f)" for f
    using assms(1) by (force simp: files_ok_def in_set_tget [symmetric])
  have "\<exists>g \<in> set files. section_for io sec g" if "sec \<in> set secs" for sec
    using assms(3) that row list_all2_mem [OF assms(2)] section_for_finishes by metis
  moreover have "(\<exists>sec \<in> set secs. section_for io sec g) \<and> carries_out io fs clip scope (patch_hunks io secs) g"
    if "g \<in> set files" for g
  proof -
    from list_all2_mem_right [OF assms(2) that] row obtain path f where f: "tget t path = Some f" "finishes f g" by blast
    with assms(1) have src: "pf_source f = path" and c: "carries_out io fs clip scope (patch_hunks io secs) f"
      by (simp_all add: files_ok_def)
    from assms(4) f(1) obtain sec where sec: "sec \<in> set secs" "workspaceRelativePath (io_root io) (sec_path sec) = Inr path" by blast
    with assms(3) obtain p h where "tget t p = Some h" "section_for io sec h" by blast
    with assms(1) sec(2) f(1) have "section_for io sec f" by (auto simp: section_for_def files_ok_def)
    with sec(1) f(2) c show ?thesis using section_for_finishes carries_out_finishes by blast
  qed
  ultimately show ?thesis unfolding sections_match_def by blast
qed

lemma preparePatch_ok:
  assumes "nodes_within (io_hash io)"
    and "list_all (\<lambda>sec. list_all (\<lambda>op. locator_bounds (op_locator op)) (sec_ops sec)) patch"
  shows "(\<exists>e. preparePatch io fs clip scope patch = Some (Inl (Refused e))) \<or>
    (\<exists>files pending. preparePatch io fs clip scope patch = Some (Inr (files, pending)) \<and> prepared_ok fs files \<and> sections_match io fs clip scope patch files)"
proof -
  let ?start = "([], \<lparr>rg_pending = [], rg_anonymous = None\<rparr>)"
  have start: "files_ok io fs clip scope [] []" "regs_ok io fs [] \<lparr>rg_pending = [], rg_anonymous = None\<rparr>"
    by (simp_all add: files_ok_def regs_ok_def last_cut_def)
  show ?thesis
  proof (cases "prepare_sections io fs clip scope patch ?start")
    case (Inl e)
    with prepare_sections_return [OF assms start] obtain message where "e = Refused message" by (cases e) auto
    with Inl show ?thesis by (simp add: preparePatch_def)
  next
    case (Inr r)
    obtain t regs where r: "r = (t, regs)" by (cases r)
    note t = prepare_sections_ok [OF assms start Inr [unfolded r]]
    then have rows: "list_all (file_ok fs) (map snd t)" "map pf_source (map snd t) = map fst t"
      using files_ok_rows [of io fs clip scope "patch_hunks io patch" t] by auto
    from finish_files_ok [OF rows(1)] consider e where "finish_files (map snd t) = Some (Inl e)"
      | gs where "finish_files (map snd t) = Some (Inr gs)" "list_all (file_ok fs) gs" "list_all finished gs" "list_all2 finishes (map snd t) gs"
      by blast
    then show ?thesis
    proof cases
      case 1
      with Inr r show ?thesis by (simp add: preparePatch_def)
    next
      case 2
      have src: "map pf_source gs = map fst t" using list_all2_finishes_source [OF 2(4)] rows(2) by simp
      then have "distinct (map pf_source gs)" using t by (simp add: files_ok_def table_ok_def)
      then have "prepared_ok fs gs" if "validateHashlineDestinations io fs gs = None"
        using check_destinations_ok [OF that [unfolded validateHashlineDestinations_def]] 2(2,3)
        by (simp add: prepared_ok_def destinations_ok_def)
      moreover have "sections_match io fs clip scope patch gs"
        by (rule sections_match_files [OF _ 2(4)]) (use t in simp_all)
      ultimately show ?thesis
        using Inr r 2(1) by (cases "validateHashlineDestinations io fs gs") (auto simp: preparePatch_def)
    qed
  qed
qed

end
