(* ===== verification/Hashline_Commit.thy ===== *)
theory Hashline_Commit
  imports Hashline_Prepare
begin

text \<open>
  Lemmas on the second half of the edit tool: a commit that succeeds writes exactly what was prepared,
  and a commit that fails is undone.
\<close>

section \<open>The tables of a commit\<close>

lemma find_unique:
  "distinct (map g (filter Q xs)) \<Longrightarrow> f \<in> set xs \<Longrightarrow> Q f \<Longrightarrow> List.find (\<lambda>x. Q x \<and> g x = g f) xs = Some f"
  by (induction xs) (auto split: if_split_asm)

lemma find_rev_distinct:
  assumes "distinct (map g (filter Q xs))"
  shows "List.find (\<lambda>x. Q x \<and> g x = p) (rev xs) = List.find (\<lambda>x. Q x \<and> g x = p) xs"
proof (cases "\<exists>f \<in> set xs. Q f \<and> g f = p")
  case True
  then obtain f where "f \<in> set xs" "Q f" "p = g f" by blast
  moreover from assms have "distinct (map g (filter Q (rev xs)))" by (simp add: rev_filter [symmetric] rev_map [symmetric])
  ultimately show ?thesis using find_unique [OF assms] find_unique [of g Q "rev xs" f] by simp
next
  case False
  then have "List.find (\<lambda>x. Q x \<and> g x = p) (rev xs) = None" "List.find (\<lambda>x. Q x \<and> g x = p) xs = None"
    by (auto simp: find_None_iff)
  then show ?thesis by simp
qed

text \<open>The file that is written to a path.\<close>

definition written_to :: "prepared_file list \<Rightarrow> string \<Rightarrow> prepared_file option" where
  "written_to files p = List.find (\<lambda>f. \<not> pf_remove f \<and> pf_destination f = p) files"

lemma commit_outputs_last: "tget (commit_outputs files) p = written_to (rev files) p"
  unfolding commit_outputs_def written_to_def by (induction files rule: rev_induct) auto

lemma commit_outputs_get: "destinations_ok fs files \<Longrightarrow> tget (commit_outputs files) p = written_to files p"
  using find_rev_distinct [of pf_destination "\<lambda>f. \<not> pf_remove f" files p]
  by (simp add: commit_outputs_last destinations_ok_def written_to_def)

lemma fold_tput_originals:
  "list_all (file_ok fs) files \<Longrightarrow>
     tget (fold (\<lambda>f t. tput (pf_source f) \<lparr>hf_data = pf_rawOriginal f, hf_mode = pf_mode f\<rparr> t) files t) p =
       (if p \<in> pf_source ` set files then fs p else tget t p)"
  by (induction files arbitrary: t) (auto simp: file_ok_def)

lemma commit_originals_get:
  "list_all (file_ok fs) files \<Longrightarrow> tget (commit_originals files) p = (if p \<in> pf_source ` set files then fs p else None)"
  unfolding commit_originals_def by (simp add: fold_tput_originals)

section \<open>Undoing\<close>

text \<open>What was mutated can be restored, and nothing else was touched.\<close>

definition undoable :: "(string, hfile) table \<Rightarrow> hworkspace \<Rightarrow> string list \<Rightarrow> hworkspace \<Rightarrow> bool" where
  "undoable originals before mutated now \<longleftrightarrow>
     (\<forall>p. if p \<in> set mutated then tget originals p = before p else now p = before p)"

lemma undoable_step:
  "undoable originals before mutated now \<Longrightarrow> tget originals p = before p \<Longrightarrow> undoable originals before (mutated @ [p]) (now(p := file))"
  by (simp add: undoable_def)

lemma restore_path_failures: "restore_path io originals p (now, failures) = (now', []) \<Longrightarrow>
    failures = [] \<and> now' = now(p := tget originals p)"
  by (auto simp: restore_path_def Let_def fun_upd_idem split: option.split_asm if_split_asm)

lemma rollback_restores:
  "fold (restore_path io originals) ps (now, failures) = (now', []) \<Longrightarrow>
     failures = [] \<and> (\<forall>p. now' p = (if p \<in> set ps then tget originals p else now p))"
proof (induction ps arbitrary: now failures)
  case (Cons q ps)
  obtain now1 failures1 where step: "restore_path io originals q (now, failures) = (now1, failures1)" by fastforce
  with Cons.prems have "fold (restore_path io originals) ps (now1, failures1) = (now', [])" by simp
  from Cons.IH [OF this] step restore_path_failures [of io originals q now failures now1] show ?case by auto
qed simp

lemma abort_undoes:
  assumes "undoable originals before mutated now"
    and "abort_commit io originals mutated temps e now = (Some (CommitFailed e'), now', temps')"
  shows "now' = before"
proof -
  obtain failures where r: "rollbackHashlineFiles io originals mutated now = (now', failures)"
    and "combineRollbackError e failures = CommitFailed e'"
    using assms(2) by (auto simp: abort_commit_def split: prod.split_asm)
  then have "failures = []" by (auto simp: combineRollbackError_def split: if_split_asm)
  with r rollback_restores [of io originals "rev (remdups (rev mutated))" now "[]" now'] assms(1)
  show ?thesis by (intro ext) (auto simp: rollbackHashlineFiles_def undoable_def split: if_split_asm)
qed

lemma abort_never_succeeds: "abort_commit io originals mutated temps e now \<noteq> (None, now', temps')"
  by (auto simp: abort_commit_def split: prod.split)

section \<open>The two loops\<close>

text \<open>A step of the commit: it succeeds with nothing left behind, or fails and is undone, or says that it could not be.\<close>

definition step_ok :: "hworkspace \<Rightarrow> hworkspace \<Rightarrow> commit_result \<Rightarrow> bool" where
  "step_ok before after r \<longleftrightarrow>
     (case r of
        (None, now, temps) \<Rightarrow> now = after \<and> temps = []
      | (Some (CommitFailed e), now, temps) \<Rightarrow> now = before
      | (Some (RollbackFailed e failures), now, temps) \<Rightarrow> failures \<noteq> [])"

lemma abort_step_ok:
  assumes "undoable originals before mutated now"
  shows "step_ok before after (abort_commit io originals mutated temps e now)"
proof -
  obtain r now' temps' where r: "abort_commit io originals mutated temps e now = (r, now', temps')" by (cases "abort_commit io originals mutated temps e now")
  have "failures \<noteq> []" if "r = Some (RollbackFailed e' failures)" for e' failures
    using r that by (auto simp: abort_commit_def combineRollbackError_def split: prod.split_asm if_split_asm)
  with r abort_undoes [OF assms, of io temps e] abort_never_succeeds [of io originals mutated temps e now now' temps'] show ?thesis
    by (auto simp: step_ok_def split: option.split commit_error.split)
qed

definition without :: "(string, prepared_file) table \<Rightarrow> prepared_file list \<Rightarrow> hworkspace \<Rightarrow> hworkspace" where
  "without outputs files now p = (if p \<in> pf_source ` set files \<and> tget outputs p = None then None else now p)"

lemma without_Cons:
  "without outputs (f # files) now =
     (if tget outputs (pf_source f) = None then without outputs files (now(pf_source f := None)) else without outputs files now)"
  by (rule ext) (auto simp: without_def)

lemma without_Nil: "without outputs [] now = now"
  by (rule ext) (simp add: without_def)

lemma remove_sources_ok:
  "undoable originals before mutated now \<Longrightarrow> \<forall>f \<in> set files. tget originals (pf_source f) = before (pf_source f) \<Longrightarrow>
     step_ok before (without outputs files now) (remove_sources io originals outputs files mutated now)"
proof (induction files arbitrary: mutated now)
  case (Cons f files)
  have "undoable originals before (mutated @ [pf_source f]) (now(pf_source f := None))"
    using Cons.prems by (simp add: undoable_step)
  from Cons.IH [OF this] Cons.IH [OF Cons.prems(1)] Cons.prems show ?case
    by (cases "tget outputs (pf_source f)"; cases "io_remove io (pf_source f)") (simp_all add: without_Cons abort_step_ok del: fun_upd_apply)
qed (simp add: step_ok_def without_Nil)

definition renamed :: "edit_io \<Rightarrow> (string, prepared_file) table \<Rightarrow> string list \<Rightarrow> hworkspace \<Rightarrow> hworkspace" where
  "renamed io outputs ds now p =
     (if p \<in> set ds then map_option (temp_file io p) (tget outputs p) else now p)"

lemma rename_outputs_ok:
  "undoable originals before mutated now \<Longrightarrow> \<forall>d \<in> set ds. tget originals d = before d \<Longrightarrow>
     \<forall>f \<in> set files. tget originals (pf_source f) = before (pf_source f) \<Longrightarrow>
     step_ok before (without outputs files (renamed io outputs ds now))
       (rename_outputs io originals outputs files ds mutated now)"
proof (induction ds arbitrary: mutated now)
  case Nil
  have "renamed io outputs [] now = now" by (rule ext) (simp add: renamed_def)
  with remove_sources_ok [OF Nil(1,3), of outputs io] show ?case by simp
next
  case (Cons d ds)
  show ?case
  proof (cases "io_rename io d")
    case None
    let ?now = "now(d := map_option (temp_file io d) (tget outputs d))"
    have "undoable originals before (mutated @ [d]) ?now" using Cons.prems by (simp add: undoable_step)
    moreover have "renamed io outputs (d # ds) now = renamed io outputs ds ?now" by (rule ext) (simp add: renamed_def)
    ultimately show ?thesis using None Cons.IH [of "mutated @ [d]" ?now] Cons.prems by (simp del: fun_upd_apply)
  qed (use Cons.prems in \<open>simp add: abort_step_ok\<close>)
qed

section \<open>The commit\<close>

text \<open>The workspace a patch asks for, up to what the temporary files really hold.\<close>

definition edited_workspace :: "edit_io \<Rightarrow> prepared_file list \<Rightarrow> hworkspace \<Rightarrow> hworkspace" where
  "edited_workspace io files fs p =
     (case written_to files p of
        Some f \<Rightarrow> Some (temp_file io p f)
      | None \<Rightarrow> if p \<in> pf_source ` set files then None else fs p)"

lemma commit_ok:
  assumes "prepared_ok fs files"
  shows "step_ok fs (edited_workspace io files fs) (commitPatchLocal io files fs)"
proof -
  have files: "list_all (file_ok fs) files" and dest: "destinations_ok fs files" using assms by (auto simp: prepared_ok_def)
  let ?outputs = "commit_outputs files" and ?originals = "commit_originals files"
  have out: "tget ?outputs p = written_to files p" for p using commit_outputs_get [OF dest] .
  have "tget ?originals d = fs d" if "tget ?outputs d \<noteq> None" for d
  proof -
    from that obtain f where "f \<in> set files" "\<not> pf_remove f" "pf_destination f = d"
      unfolding out written_to_def by (auto simp: find_Some_iff in_set_conv_nth)
    with dest show ?thesis unfolding commit_originals_get [OF files] by (auto simp: destinations_ok_def)
  qed
  then have ds: "\<forall>d \<in> set (sort (map fst ?outputs)). tget ?originals d = fs d" using in_keys [of _ ?outputs] by simp
  have src: "\<forall>f \<in> set files. tget ?originals (pf_source f) = fs (pf_source f)" by (simp add: commit_originals_get [OF files])
  have "undoable ?originals fs [] fs" by (simp add: undoable_def)
  from rename_outputs_ok [OF this ds src]
  have "step_ok fs (without ?outputs files (renamed io ?outputs (sort (map fst ?outputs)) fs))
    (rename_outputs io ?originals ?outputs files (sort (map fst ?outputs)) [] fs)" .
  moreover have "without ?outputs files (renamed io ?outputs (sort (map fst ?outputs)) fs) = edited_workspace io files fs"
    using in_keys [of _ ?outputs] by (intro ext) (auto simp: without_def renamed_def edited_workspace_def out split: option.split)
  ultimately show ?thesis
    by (auto simp: commitPatchLocal_def Let_def step_ok_def [of fs _ "(Some _, _)"] split: option.split prod.split)
qed

section \<open>The call\<close>

lemma parsed_bounds:
  assumes "parseHashlinePatch patch_text = Inr patch"
  shows "list_all (\<lambda>sec. list_all (\<lambda>op. locator_bounds (op_locator op)) (sec_ops sec)) patch"
proof -
  from assms obtain n ls where "parse_sections n ls = Inr patch"
    by (auto simp: parseHashlinePatch_def Let_def bindE_eq_Inr split: if_split_asm)
  from parse_sections_bounds [OF this] show ?thesis by (simp add: list_all_iff)
qed

text \<open>The host on which no \<^verbatim>\<open>Chmod\<close> and no \<^verbatim>\<open>Write\<close> of a temporary file fails.\<close>

definition writes_ok :: "edit_io \<Rightarrow> bool" where
  "writes_ok io \<longleftrightarrow> io_chmod io = (\<lambda>_. None) \<and> io_write io = (\<lambda>_. None)"

lemma temp_file_ok: "writes_ok io \<Longrightarrow> temp_file io d f = \<lparr>hf_data = pf_final f, hf_mode = pf_mode f\<rparr>"
  by (simp add: writes_ok_def temp_file_def)

text \<open>Every call returns, either with the patch carried out or with an error and the clipboard as it was.\<close>

lemma execute_cases:
  assumes "nodes_within (io_hash io)" and "clipboard_ok clip"
  shows "(\<exists>e temps. edit_execute io scope input (fs, clip) = Some (Rejected (CommitFailed e), fs, clip, temps)) \<or>
    (\<exists>e failures fs' temps. failures \<noteq> [] \<and>
       edit_execute io scope input (fs, clip) = Some (Rejected (RollbackFailed e failures), fs', clip, temps)) \<or>
    (\<exists>patch_text patch files clip'. input = Some patch_text \<and> parseHashlinePatch patch_text = Inr patch \<and> prepared_ok fs files \<and>
       sections_match io fs clip scope patch files \<and> clipboard_ok clip' \<and>
       edit_execute io scope input (fs, clip) = Some (Edited files, edited_workspace io files fs, clip', []))"
proof (cases "input = None \<or> io_open io \<noteq> None \<or> (\<exists>e. parseHashlinePatch (the input) = Inl e)")
  case True
  then show ?thesis by (auto simp: edit_execute_def Let_def split: option.split sum.split)
next
  case False
  then obtain patch_text patch where p: "input = Some patch_text" "parseHashlinePatch patch_text = Inr patch" "io_open io = None"
    by (cases "parseHashlinePatch (the input)") auto
  from preparePatch_ok [OF assms(1) parsed_bounds [OF p(2)], of fs clip scope]
  consider e where "preparePatch io fs clip scope patch = Some (Inl (Refused e))"
    | files pending where "preparePatch io fs clip scope patch = Some (Inr (files, pending))" "prepared_ok fs files" "sections_match io fs clip scope patch files"
    by blast
  then show ?thesis
  proof cases
    case 1
    with p show ?thesis by (simp add: edit_execute_def)
  next
    case 2
    obtain r fs' temps where c: "commitPatchLocal io files fs = (r, fs', temps)" by (cases "commitPatchLocal io files fs")
    obtain clip' where clip': "clipboard_commit clip scope pending = Some clip'" "clipboard_ok clip'" using commit_scope [OF assms(2)] by blast
    from commit_ok [OF 2(2), of io] c p 2 clip' show ?thesis
      by (cases r) (auto simp: step_ok_def edit_execute_def split: commit_error.split_asm)
  qed
qed

end
