(* ===== verification/Hashline_Theorems.thy ===== *)
theory Hashline_Theorems
  imports Hashline_Commit
begin

text \<open>
  What the edit tool guarantees: a call carries out its whole patch or changes nothing, it edits only
  the contents its tags name, and its clipboard stays bounded. The examples at the end are calls on
  which the tool does what its user may not expect.
\<close>

section \<open>All or nothing\<close>


text \<open>A file of two lines that end in CRLF, and a host on which nothing fails.\<close>

definition hl_env :: hashline_env where
  "hl_env = \<lparr>he_lower = map lower_char, he_go_nodes = (\<lambda>_ _. None)\<rparr>"

definition hl_io :: edit_io where
  "hl_io = \<lparr>io_hash = hl_env, io_root = ''/w'', io_open = None, io_read = (\<lambda>_. None), io_lstat = (\<lambda>_. None), io_temp = (\<lambda>_. None),
     io_chmod = (\<lambda>_. None), io_write = (\<lambda>_. None), io_rename = (\<lambda>_. None), io_remove = (\<lambda>_. None), io_restore = (\<lambda>_. None), io_cleanup = (\<lambda>_. True)\<rparr>"

definition hl_raw :: string where
  "hl_raw = [CHR ''x'', CHR 0x0D, CHR 0x0A, CHR ''y'']"

definition hl_files :: hworkspace where
  "hl_files p = (if p = ''a.c'' then Some \<lparr>hf_data = hl_raw, hf_mode = 420\<rparr>
     else if p = ''k'' then Some \<lparr>hf_data = ''k'', hf_mode = 384\<rparr> else None)"

definition hl_input :: "string list \<Rightarrow> string option" where
  "hl_input hunks = Some (Join ([''*** Begin Patch'', ''[a.c#968A]''] @ hunks @ [''*** End Patch'']) [CHR 0x0A])"

lemma hl_nodes: "nodes_within (io_hash hl_io)"
  by (simp add: nodes_within_def hl_io_def hl_env_def)

lemma hl_writes: "writes_ok hl_io"
  by (simp add: writes_ok_def hl_io_def)

lemma hl_clipboard: "clipboard_ok []"
  by (simp add: clipboard_ok_def)

text \<open>The second rename of a patch that moves one file and rewrites the other fails.\<close>

definition hl_failing :: edit_io where
  "hl_failing = hl_io\<lparr>io_rename := (\<lambda>d. if d = ''b'' then Some ''no space'' else None)\<rparr>"

definition hl_two_files :: "string option" where
  "hl_two_files = hl_input [''PUT 2.=2:'', ''+z'', ''[k#'' @ computeHashlineTag ''k'' @ '']'', ''MV b'']"


section \<open>The effect\<close>


text \<open>C9. A patch is applied only to the contents it was written for, and its hunks are the edits:
  after a successful call every section names a prepared file and carries the tag of what that file held
  before; and the edits of every prepared file are exactly those of the hunks that name it, in their
  order, each on the lines its locator names: the rows of a PUT, nothing for a CUT, and for a PUT from a
  register the lines last cut into it by an earlier hunk of the patch, or the clipboard's when there is
  none. A file is removed exactly when one of its hunks says so, and moved where its last MV says. The
  edits of a removed file have no effect: a later section may still give it some
  (\<open>removed_file_drops_hunks\<close> below).\<close>

theorem edit_matches_patch:
  assumes "nodes_within (io_hash io)" and "clipboard_ok clip"
    and "edit_execute io scope input (fs, clip) = Some (Edited files, fs', clip', temps)"
  shows "\<exists>patch_text patch. input = Some patch_text \<and> parseHashlinePatch patch_text = Inr patch \<and>
    (\<forall>sec \<in> set patch. \<exists>f \<in> set files. \<exists>file. workspaceRelativePath (io_root io) (sec_path sec) = Inr (pf_source f) \<and>
       fs (pf_source f) = Some file \<and> sec_tag sec = computeHashlineTag (normalizeHashlineText (hf_data file))) \<and>
    (\<forall>f \<in> set files.
       (\<exists>sec \<in> set patch. workspaceRelativePath (io_root io) (sec_path sec) = Inr (pf_source f)) \<and>
       list_all2 (\<lambda>(before, h) a. hunk_action io fs clip scope before h a)
         (file_hunks (pf_source f) [] (patch_hunks io patch)) (pf_actions f) \<and>
       (pf_remove f \<longleftrightarrow> list_ex (removes (pf_source f)) (patch_hunks io patch)) \<and>
       destined io (patch_hunks io patch) (pf_source f) (pf_destination f))"
proof -
  from execute_cases [OF assms(1,2), of scope input fs] assms(3) obtain patch_text patch
    where p: "input = Some patch_text" "parseHashlinePatch patch_text = Inr patch"
      and ok: "prepared_ok fs files" and m: "sections_match io fs clip scope patch files" by auto
  have "\<exists>f \<in> set files. \<exists>file. workspaceRelativePath (io_root io) (sec_path sec) = Inr (pf_source f) \<and>
      fs (pf_source f) = Some file \<and> sec_tag sec = computeHashlineTag (normalizeHashlineText (hf_data file))" if "sec \<in> set patch" for sec
  proof -
    from m that obtain f where f: "f \<in> set files" "section_for io sec f" by (auto simp: sections_match_def)
    with ok have "file_ok fs f" by (auto simp: prepared_ok_def list_all_iff)
    with f show ?thesis by (intro bexI [of _ f]) (auto simp: section_for_def file_ok_def)
  qed
  moreover have "(\<exists>sec \<in> set patch. workspaceRelativePath (io_root io) (sec_path sec) = Inr (pf_source f)) \<and>
      carries_out io fs clip scope (patch_hunks io patch) f" if "f \<in> set files" for f
    using m that by (auto simp: sections_match_def section_for_def)
  ultimately show ?thesis using p unfolding carries_out_def by blast
qed

text \<open>The two sections of one patch on the host where nothing fails.\<close>

lemma hl_two_run: "\<exists>files fs' clip' temps.
    edit_execute hl_io ''s'' hl_two_files (hl_files, []) = Some (Edited files, fs', clip', temps) \<and>
    map (\<lambda>f. (pf_source f, pf_destination f, pf_remove f)) files = [(''a.c'', ''a.c'', False), (''k'', ''b'', False)] \<and>
    map pf_actions files = [[replace_action 2 2 [''z''] 0], []]"
proof -
  have "case edit_execute hl_io ''s'' hl_two_files (hl_files, []) of Some (Edited files, _) \<Rightarrow>
      map (\<lambda>f. (pf_source f, pf_destination f, pf_remove f)) files = [(''a.c'', ''a.c'', False), (''k'', ''b'', False)] \<and>
      map pf_actions files = [[replace_action 2 2 [''z''] 0], []] | _ \<Rightarrow> False"
    by code_simp
  then show ?thesis
    by (cases "edit_execute hl_io ''s'' hl_two_files (hl_files, [])") (auto split: prod.split_asm edit_result.split_asm)
qed


theorem edit_matches_patch_witness:
  "\<exists>files fs' clip' temps. edit_execute hl_io ''s'' hl_two_files (hl_files, []) = Some (Edited files, fs', clip', temps) \<and>
     ''k'' \<in> pf_source ` set files"
proof -
  from hl_two_run obtain files fs' clip' temps where
    run: "edit_execute hl_io ''s'' hl_two_files (hl_files, []) = Some (Edited files, fs', clip', temps)" by (elim exE conjE)
  from edit_matches_patch [OF hl_nodes hl_clipboard run] obtain patch_text patch
    where p: "hl_two_files = Some patch_text" "parseHashlinePatch patch_text = Inr patch"
      and m: "\<forall>sec \<in> set patch. \<exists>f \<in> set files. workspaceRelativePath (io_root hl_io) (sec_path sec) = Inr (pf_source f)"
    by fast
  have "map (\<lambda>sec. workspaceRelativePath (io_root hl_io) (sec_path sec)) (projr (parseHashlinePatch (the hl_two_files))) = [Inr ''a.c'', Inr ''k'']"
    by code_simp
  with p have "Inr ''k'' \<in> (\<lambda>sec. workspaceRelativePath (io_root hl_io) (sec_path sec)) ` set patch"
    by (metis list.set_intros option.sel set_map sum.sel(2))
  with m run show ?thesis by fastforce
qed

section \<open>The clipboard over many calls\<close>

text \<open>A history of calls, each with its own host, scope and arguments; other writers may change the workspace between them.\<close>

fun edit_history :: "(edit_io \<times> string \<times> string option \<times> hworkspace) list \<Rightarrow> clipboard \<Rightarrow> clipboard option" where
  "edit_history [] clip = Some clip"
| "edit_history ((io, scope, input, fs) # calls) clip =
     (case edit_execute io scope input (fs, clip) of
        None \<Rightarrow> None | Some (r, fs', clip', temps) \<Rightarrow> edit_history calls clip')"

lemma edit_history_ok:
  "list_all (\<lambda>(io, scope, input, fs). nodes_within (io_hash io)) calls \<Longrightarrow> clipboard_ok clip \<Longrightarrow>
     \<exists>clip'. edit_history calls clip = Some clip' \<and> clipboard_ok clip'"
proof (induction calls arbitrary: clip)
  case (Cons call calls)
  obtain io scope input fs where call: "call = (io, scope, input, fs)" by (cases call)
  with Cons.prems have "nodes_within (io_hash io)" by simp
  from execute_cases [OF this Cons.prems(2), of scope input fs] obtain r fs' clip' temps
    where "edit_execute io scope input (fs, clip) = Some (r, fs', clip', temps)" "clipboard_ok clip'"
    using Cons.prems(2) by (elim disjE exE conjE) blast+
  with Cons call show ?case by auto
qed simp

text \<open>C29. However many calls are made, and whatever they cut, every scope of the clipboard holds at
  most 64 registers and at most 64 MiB, its order names exactly the registers it holds, once each, and
  the eviction never runs out of registers to drop.\<close>

theorem clipboard_bounded:
  assumes "list_all (\<lambda>(io, scope, input, fs). nodes_within (io_hash io)) calls"
  shows "\<exists>clip. edit_history calls [] = Some clip \<and>
    (\<forall>scope s. tget clip scope = Some s \<longrightarrow>
       length (cl_values s) \<le> maxHashlineRegistersPerScope \<and> hashlineRegisterBytes (cl_values s) \<le> maxHashlineRegisterBytes \<and>
       distinct (cl_order s) \<and> set (cl_order s) = fst ` set (cl_values s))"
  using edit_history_ok [OF assms hl_clipboard] by (auto simp: clipboard_ok_def clip_scope_ok_def clip_scope_bounded_def)

theorem clipboard_bounded_witness:
  "map_option (\<lambda>clip. clipboard_load clip ''s'' ''r'')
     (edit_history [(hl_io, ''s'', hl_input [''CUT 2.=2 @r''], hl_files)] []) = Some (Some [''y''])"
proof -
  let ?calls = "[(hl_io, ''s'', hl_input [''CUT 2.=2 @r''], hl_files)]"
  have "list_all (\<lambda>(io, scope, input, fs). nodes_within (io_hash io)) ?calls" by (simp add: hl_nodes)
  from clipboard_bounded [OF this] obtain clip where "edit_history ?calls [] = Some clip" by blast
  moreover have "map_option (\<lambda>clip. clipboard_load clip ''s'' ''r'') (edit_history ?calls []) = Some (Some [''y''])" by code_simp
  ultimately show ?thesis by simp
qed

section \<open>Surprises\<close>

text \<open>A patch that only moves a file does not keep its contents: CRLF line ends (and a byte order
  mark) are rewritten, although the diff that is reported for the file is empty.\<close>

theorem move_rewrites_line_ends:
  "case edit_execute hl_io ''s'' (hl_input [''MV b.c'']) (hl_files, []) of
     Some (Edited [f], fs', _, _) \<Rightarrow> pf_diff f = [] \<and> pf_firstChanged f = 0 \<and>
       map_option hf_data (fs' ''b.c'') = Some [CHR ''x'', CHR 0x0A, CHR ''y''] \<and> map_option hf_data (hl_files ''a.c'') = Some hl_raw
   | _ \<Rightarrow> False"
  by code_simp

text \<open>REM is only required to be the one hunk of its own section: a later section for the same file
  may put lines into it, and the call succeeds, removes the file and drops those lines.\<close>

theorem removed_file_drops_hunks:
  "case edit_execute hl_io ''s'' (hl_input [''REM'', ''[a.c#968A]'', ''PUT >$:'', ''+z'']) (hl_files, []) of
     Some (Edited [f], fs', _, _) \<Rightarrow> map act_body (pf_actions f) = [[''z'']] \<and> pf_remove f \<and> fs' ''a.c'' = None
   | _ \<Rightarrow> False"
  by code_simp

text \<open>A \<^verbatim>\<open>Write\<close> that fails after one byte, on a full disk for instance: its error is assigned to the inner
  \<^verbatim>\<open>err\<close> and lost, so that the truncated file replaces the source and the call reports success. After a
  failed \<^verbatim>\<open>Chmod\<close> nothing is written at all.\<close>

theorem swallowed_write_truncates:
  "case edit_execute (hl_io\<lparr>io_write := (\<lambda>_. Some 1)\<rparr>) ''s'' (hl_input [''PUT 2.=2:'', ''+z'']) (hl_files, []) of
     Some (Edited [f], fs', _, temps) \<Rightarrow> pf_final f = [CHR ''x'', CHR 0x0A, CHR ''z''] \<and> fs' ''a.c'' = Some \<lparr>hf_data = ''x'', hf_mode = 420\<rparr> \<and> temps = []
   | _ \<Rightarrow> False"
  "case edit_execute (hl_io\<lparr>io_chmod := (\<lambda>_. Some 384)\<rparr>) ''s'' (hl_input [''PUT 2.=2:'', ''+z'']) (hl_files, []) of
     Some (Edited [f], fs', _, temps) \<Rightarrow> pf_final f = [CHR ''x'', CHR 0x0A, CHR ''z''] \<and> fs' ''a.c'' = Some \<lparr>hf_data = [], hf_mode = 384\<rparr> \<and> temps = []
   | _ \<Rightarrow> False"
  by code_simp+

text \<open>A \<^verbatim>\<open>//line\<close> directive shifts the lines Go's parser reports, so that a block may end beyond its file:
  cutting such a block slices out of range.\<close>

definition shifted_io :: edit_io where
  "shifted_io = hl_io\<lparr>io_hash := \<lparr>he_lower = map lower_char, he_go_nodes = (\<lambda>_ _. Some [(1, 9)])\<rparr>\<rparr>"

definition shifted_files :: hworkspace where
  "shifted_files p = (if p = ''m.go'' then Some \<lparr>hf_data = ''k'', hf_mode = 420\<rparr> else None)"

theorem shifted_block_panics:
  "case edit_execute shifted_io ''s'' (Some (Join [''*** Begin Patch'', ''[m.go#'' @ computeHashlineTag ''k'' @ '']'', ''CUT 1*'', ''*** End Patch''] [CHR 0x0A]))
      (shifted_files, []) of Some (Crashed, _) \<Rightarrow> True | _ \<Rightarrow> False"
  by code_simp

end
