(* ===== verification/Work_Guidance.thy ===== *)
theory Work_Guidance
  imports Complex_Main Work_Evidence
begin

text \<open>
  What happens to work in flight when the user's constraints change, \<^verbatim>\<open>internal/workrevision/guidance.go\<close>
  and \<^verbatim>\<open>projection.go\<close>, with the rest of \<^verbatim>\<open>store.go\<close> and of the contracts, and the evidence status of a
  run (\<^verbatim>\<open>app/work_evidence.go\<close>).
\<close>

section \<open>Experience and routing\<close>

record experience_candidate =
  xc_Version :: int
  xc_ID :: string
  xc_Workspace :: string
  xc_Kind :: string
  xc_Content :: string
  xc_Scope :: string
  xc_Confidence :: string
  xc_Status :: string
  xc_ExpiresAt :: "time option"
  xc_Supersedes :: "string list"
  xc_Evidence :: "source_ref list"
  xc_CreatedAt :: time

definition validate_experience :: "experience_candidate \<Rightarrow> claim_error option" where
  "validate_experience v =
     (case requireV1 (xc_Version v) (xc_ID v) of Some e \<Rightarrow> Some e | None \<Rightarrow>
      if xc_Workspace v = [] \<or> xc_Kind v = [] \<or> xc_Content v = [] \<or> xc_Scope v = [] \<or> xc_Status v \<noteq> ''candidate'' \<or>
         length (xc_Evidence v) = 0 \<or> IsZero (xc_CreatedAt v)
      then Some (ErrInvalidWorkContract ''incomplete experience candidate'')
      else first_error (map validate_source (xc_Evidence v)))"

text \<open>A \<^verbatim>\<open>float64\<close>: a number, or one of the values \<^verbatim>\<open>finite\<close> rejects.\<close>

datatype float64 = Finite rat | NotFinite

fun finite_float :: "float64 \<Rightarrow> bool" where
  "finite_float (Finite x) = True"
| "finite_float NotFinite = False"

fun within_unit :: "float64 \<Rightarrow> bool" where
  "within_unit (Finite x) \<longleftrightarrow> \<not> x < 0 \<and> \<not> x > 1"
| "within_unit NotFinite \<longleftrightarrow> False"

record route_outcome =
  ro_Version :: int
  ro_ID :: string
  ro_WorkSpecID :: string
  ro_TaskID :: string
  ro_TaskClass :: string
  ro_Repository :: string
  ro_Toolchain :: string
  ro_PolicyVersion :: string
  ro_Provider :: string
  ro_Model :: string
  ro_Budget :: string
  ro_Split :: string
  ro_Status :: string
  ro_Correctness :: string
  ro_CriterionCoverage :: float64
  ro_PredictedSuccess :: float64
  ro_FalsePass :: bool
  ro_FalseFail :: bool
  ro_InputTokens :: int
  ro_OutputTokens :: int
  ro_CacheReadTokens :: int
  ro_CacheWriteTokens :: int
  ro_CostMicros :: int
  ro_LatencyMS :: int
  ro_Retries :: int
  ro_Recovered :: bool
  ro_SafetyEvents :: "string list"
  ro_RetentionEvents :: "string list"
  ro_Evidence :: "source_ref list"
  ro_CompletedAt :: time

fun validate_evidence :: "string list \<Rightarrow> source_ref list \<Rightarrow> claim_error option" where
  "validate_evidence seen [] = None"
| "validate_evidence seen (source # sources) =
     (case validate_source source of Some e \<Rightarrow> Some e
      | None \<Rightarrow> if sourceKey source \<in> set seen then Some (ErrInvalidWorkContract ''duplicate route evidence'')
          else validate_evidence (sourceKey source # seen) sources)"

definition validate_route :: "route_outcome \<Rightarrow> claim_error option" where
  "validate_route v =
     (case requireV1 (ro_Version v) (ro_ID v) of Some e \<Rightarrow> Some e | None \<Rightarrow>
      if ro_WorkSpecID v = [] \<or> ro_Provider v = [] \<or> ro_Model v = [] \<or>
         \<not> oneOf (ro_Status v) [''pass'', ''fail'', ''uncertain'', ''cancelled''] \<or> IsZero (ro_CompletedAt v)
      then Some (ErrInvalidWorkContract ''incomplete route outcome'')
      else if ro_Correctness v \<noteq> [] \<and> \<not> oneOf (ro_Correctness v) [''pass'', ''fail'', ''uncertain'']
      then Some (ErrInvalidWorkContract ''invalid route correctness'')
      else if \<not> finite_float (ro_CriterionCoverage v) \<or> \<not> finite_float (ro_PredictedSuccess v) \<or>
         \<not> within_unit (ro_CriterionCoverage v) \<or> \<not> within_unit (ro_PredictedSuccess v) \<or>
         (ro_FalsePass v \<and> ro_FalseFail v) \<or> ro_InputTokens v < 0 \<or> ro_OutputTokens v < 0 \<or> ro_CacheReadTokens v < 0 \<or>
         ro_CacheWriteTokens v < 0 \<or> ro_CostMicros v < 0 \<or> ro_LatencyMS v < 0 \<or> ro_Retries v < 0
      then Some (ErrInvalidWorkContract ''invalid route metrics'')
      else if ro_Status v = ''pass'' \<and>
         (ro_InputTokens v \<le> 0 \<or> ro_OutputTokens v \<le> 0 \<or> ro_CostMicros v \<le> 0 \<or> ro_LatencyMS v \<le> 0)
      then Some (ErrInvalidWorkContract ''passing route outcome requires complete positive accounting'')
      else validate_evidence [] (ro_Evidence v))"

section \<open>Guidance\<close>

definition GuidanceContinue :: string where "GuidanceContinue = ''continue''"
definition GuidanceCancel :: string where "GuidanceCancel = ''cancel''"
definition GuidanceContinueQuarantine :: string where "GuidanceContinueQuarantine = ''continue_then_quarantine''"

record active_intent =
  av_Intent :: action_intent
  av_SourceRevision :: work_revision
  av_CancelSafe :: bool

record guidance_decision =
  gd_Version :: int
  gd_ID :: string
  gd_IntentID :: string
  gd_SourceRevisionID :: string
  gd_CurrentRevisionID :: string
  gd_Action :: string
  gd_Reason :: string
  gd_CancelError :: string
  gd_PreserveTerminalEvidence :: bool
  gd_Sources :: "source_ref list"
  gd_CreatedAt :: time

definition validate_guidance :: "guidance_decision \<Rightarrow> claim_error option" where
  "validate_guidance d =
     (if gd_Version d \<noteq> 1 \<or> gd_ID d = [] \<or> gd_IntentID d = [] \<or> gd_SourceRevisionID d = [] \<or> gd_CurrentRevisionID d = [] \<or>
         (gd_Action d \<noteq> GuidanceContinue \<and> gd_Action d \<noteq> GuidanceCancel \<and> gd_Action d \<noteq> GuidanceContinueQuarantine) \<or>
         gd_Reason d = [] \<or> \<not> gd_PreserveTerminalEvidence d \<or> length (gd_Sources d) = 0 \<or> IsZero (gd_CreatedAt d)
      then Some (ClaimError ''work revision: invalid guidance decision'')
      else first_error (map validate_source (gd_Sources d)))"

text \<open>The callback that cancels an intent answers with an error or not at all; \<open>None\<close> when there is no callback.\<close>

type_synonym cancel_intent = "(string \<Rightarrow> string option) option"

text \<open>Action, reason and cancellation error of one intent, and whether the callback was called.\<close>

definition guide_action :: "work_revision \<Rightarrow> cancel_intent \<Rightarrow> active_intent \<Rightarrow> (string \<times> string \<times> string) \<times> bool" where
  "guide_action current cancel work =
     (let quarantine = ''explicit constraints changed; terminal evidence must be quarantined'' in
      if wr_ConstraintDigest (av_SourceRevision work) = wr_ConstraintDigest current
      then ((GuidanceContinue, ''explicit constraints remain compatible'', []), False)
      else if \<not> av_CancelSafe work then ((GuidanceContinueQuarantine, quarantine, []), False)
      else case cancel of
        None \<Rightarrow> ((GuidanceContinueQuarantine, quarantine, ''cancel callback unavailable''), False)
      | Some f \<Rightarrow> (case f (ai_ID (av_Intent work)) of
          Some e \<Rightarrow> ((GuidanceContinueQuarantine, quarantine, e), True)
        | None \<Rightarrow> ((GuidanceCancel, ''cancel-safe work became obsolete after explicit constraints changed'', []), True)))"

definition guide_decision ::
  "contract_env \<Rightarrow> (string \<times> string \<times> string \<Rightarrow> string) \<Rightarrow> time \<Rightarrow> work_revision \<Rightarrow> active_intent \<Rightarrow> string \<times> string \<times> string \<Rightarrow>
     guidance_decision" where
  "guide_decision env json now current work outcome =
     (let (action, reason, cancelError) = outcome; i = ai_ID (av_Intent work) in
      \<lparr>gd_Version = 1, gd_ID = ''guidance-decision:'' @ take 24 (ce_sha env (json (i, wr_ID current, action))),
       gd_IntentID = i, gd_SourceRevisionID = wr_ID (av_SourceRevision work), gd_CurrentRevisionID = wr_ID current,
       gd_Action = action, gd_Reason = reason, gd_CancelError = cancelError, gd_PreserveTerminalEvidence = True,
       gd_Sources = [\<lparr>sr_Kind = ''action_intent_v1'', sr_ID = i, sr_Range = [], sr_SHA256 = []\<rparr>,
         \<lparr>sr_Kind = ''work_revision_v1'', sr_ID = wr_ID current, sr_Range = [], sr_SHA256 = []\<rparr>],
       gd_CreatedAt = now\<rparr>)"

text \<open>The loop over the active intents; with its result the intents the callback was called for.\<close>

fun guide_loop ::
  "contract_env \<Rightarrow> (string \<times> string \<times> string \<Rightarrow> string) \<Rightarrow> time \<Rightarrow> work_revision \<Rightarrow> cancel_intent \<Rightarrow> active_intent list \<Rightarrow>
     (claim_error + guidance_decision list) \<times> string list" where
  "guide_loop env json now current cancel [] = (Inr [], [])"
| "guide_loop env json now current cancel (work # works) =
     (case validate_revision env (av_SourceRevision work) of Some e \<Rightarrow> (Inl e, [])
      | None \<Rightarrow>
          if ai_ID (av_Intent work) = [] \<or> ai_RevisionID (av_Intent work) \<noteq> wr_ID (av_SourceRevision work) \<or>
             ai_SnapshotHash (av_Intent work) \<noteq> wr_SnapshotHash (av_SourceRevision work)
          then (Inl (ClaimError ''work revision: active intent is not bound to its source revision''), [])
          else let (outcome, asked) = guide_action current cancel work;
                   called = (if asked then [ai_ID (av_Intent work)] else []);
                   decision = guide_decision env json now current work outcome
            in case validate_guidance decision of Some e \<Rightarrow> (Inl e, called)
               | None \<Rightarrow> (case guide_loop env json now current cancel works of
                   (Inl e, later) \<Rightarrow> (Inl e, called @ later)
                 | (Inr ds, later) \<Rightarrow> (Inr (decision # ds), called @ later)))"

definition HandleGuidance ::
  "contract_env \<Rightarrow> (string \<times> string \<times> string \<Rightarrow> string) \<Rightarrow> work_revision \<Rightarrow> active_intent list \<Rightarrow> cancel_intent \<Rightarrow> time \<Rightarrow>
     (claim_error + guidance_decision list) \<times> string list" where
  "HandleGuidance env json current active cancel now =
     (case validate_revision env current of Some e \<Rightarrow> (Inl e, [])
      | None \<Rightarrow> if IsZero now then (Inl (ClaimError ''work revision: guidance decision time is required''), [])
          else guide_loop env json now current cancel active)"

section \<open>Projection\<close>

definition EvidenceProvisional :: string where "EvidenceProvisional = ''provisional''"
definition EvidenceVerified :: string where "EvidenceVerified = ''verified''"
definition EvidenceStale :: string where "EvidenceStale = ''stale''"

definition ProjectionStatus :: "disposition option \<Rightarrow> verification_result option \<Rightarrow> string" where
  "ProjectionStatus d verification =
     (case d of None \<Rightarrow> EvidenceProvisional
      | Some d \<Rightarrow>
          if di_Status d = DispositionQuarantinedStale then EvidenceStale
          else if di_Status d = DispositionAccepted \<and>
            (case verification of None \<Rightarrow> False | Some v \<Rightarrow> vr_Status v = ''pass'' \<and> vr_RevisionID v = di_SourceRevisionID d)
          then EvidenceVerified else EvidenceProvisional)"

section \<open>The rest of the store\<close>

definition requireIntentRun :: "contract_env \<Rightarrow> claim_error option \<Rightarrow> string \<Rightarrow> string \<Rightarrow> artifacts \<Rightarrow> string \<Rightarrow> claim_error option" where
  "requireIntentRun env lio sid run st intentID = (case Intent env lio sid run st intentID of Inl e \<Rightarrow> Some e | Inr _ \<Rightarrow> None)"

definition SaveGuidanceDecision ::
  "contract_env \<Rightarrow> (guidance_decision \<Rightarrow> string) \<Rightarrow> claim_error option \<Rightarrow> claim_error option \<Rightarrow> time \<Rightarrow> string \<Rightarrow> string \<Rightarrow>
     guidance_decision \<Rightarrow> artifacts \<Rightarrow> (claim_error + unit) \<times> artifacts" where
  "SaveGuidanceDecision env json lio pio now sid run d st =
     (case validate_guidance d of Some e \<Rightarrow> (Inl e, st) | None \<Rightarrow>
      case requireCurrentRevision env lio sid st (gd_CurrentRevisionID d) [] of Inl e \<Rightarrow> (Inl e, st) | Inr _ \<Rightarrow>
      case Revision env lio sid st (gd_SourceRevisionID d) of Inl e \<Rightarrow> (Inl e, st) | Inr _ \<Rightarrow>
      case requireIntentRun env lio sid run st (gd_IntentID d) of Some e \<Rightarrow> (Inl e, st) | None \<Rightarrow>
      store_save env pio now sid run (InternalArtifactKindPrefix @ ''guidance_decision_v1:'' @ shortID env (gd_IntentID d))
        (validate_guidance d) (json d) st)"

definition SaveVerificationResult ::
  "contract_env \<Rightarrow> claim_error option \<Rightarrow> claim_error option \<Rightarrow> time \<Rightarrow> string \<Rightarrow> string \<Rightarrow> verification_result \<Rightarrow> artifacts \<Rightarrow>
     (claim_error + unit) \<times> artifacts" where
  "SaveVerificationResult env lio pio now sid run result st =
     (if vr_RevisionID result = [] \<or> vr_SnapshotHash result = []
      then (Inl (ClaimError ''work revision: verification result is unbound''), st)
      else save_bound env lio pio now sid run (vr_RevisionID result, vr_SnapshotHash result)
        (''verification_result_v1:'' @ shortID env (vr_ID result)) (validate_result result) (ce_result_json env result) st)"

definition checked :: "('a \<Rightarrow> claim_error option) \<Rightarrow> 'a \<Rightarrow> claim_error + 'a" where
  "checked validate v = (case validate v of Some e \<Rightarrow> Inl e | None \<Rightarrow> Inr v)"

definition BindObservation ::
  "work_revision \<Rightarrow> action_intent \<Rightarrow> observation_envelope \<Rightarrow> claim_error + observation_envelope" where
  "BindObservation revision intent obs =
     (if ai_RevisionID intent \<noteq> wr_ID revision \<or> ai_SnapshotHash intent \<noteq> wr_SnapshotHash revision \<or> oe_IntentID obs \<noteq> ai_ID intent \<or>
         oe_SessionID obs \<noteq> ai_SessionID intent \<or> oe_RunID obs \<noteq> ai_RunID intent
      then Inl (ClaimError ''work revision: observation intent mismatch'')
      else checked validate_observation (obs\<lparr>oe_RevisionID := wr_ID revision, oe_SnapshotHash := wr_SnapshotHash revision\<rparr>))"

definition BindVerificationPlan :: "contract_env \<Rightarrow> work_revision \<Rightarrow> verification_plan \<Rightarrow> claim_error + verification_plan" where
  "BindVerificationPlan env revision plan =
     checked (validate_plan env) (plan\<lparr>vp_RevisionID := wr_ID revision, vp_SnapshotHash := wr_SnapshotHash revision\<rparr>)"

definition BindVerificationResult ::
  "work_revision \<Rightarrow> verification_plan \<Rightarrow> verification_result \<Rightarrow> claim_error + verification_result" where
  "BindVerificationResult revision plan result =
     (if vp_RevisionID plan \<noteq> wr_ID revision \<or> vp_SnapshotHash plan \<noteq> wr_SnapshotHash revision \<or> vr_PlanID result \<noteq> vp_ID plan \<or>
         vr_WorkSpecID result \<noteq> vp_WorkSpecID plan
      then Inl (ClaimError ''work revision: verification result plan mismatch'')
      else checked validate_result (result\<lparr>vr_RevisionID := wr_ID revision, vr_SnapshotHash := wr_SnapshotHash revision\<rparr>))"

section \<open>The evidence status of a run\<close>

definition projectedEvidenceStatus :: "string \<Rightarrow> string" where
  "projectedEvidenceStatus status = (if status \<in> {''provisional'', ''verified'', ''stale''} then status else [])"

definition run_status_kind :: "contract_env \<Rightarrow> string \<Rightarrow> string" where
  "run_status_kind env run = InternalArtifactKindPrefix @ ''run_evidence_status_v1:'' @ shortEvidenceHash env run"

definition persistRunEvidenceStatus ::
  "contract_env \<Rightarrow> (int \<times> string \<times> string \<Rightarrow> string) \<Rightarrow> claim_error option \<Rightarrow> claim_error option \<Rightarrow> time \<Rightarrow> string \<Rightarrow> string \<Rightarrow> string \<Rightarrow>
     artifacts \<Rightarrow> (claim_error + unit) \<times> artifacts" where
  "persistRunEvidenceStatus env json lio pio now sid run status st =
     (if run = [] \<or> projectedEvidenceStatus status = [] then (Inr (), st)
      else putEvidenceArtifactIfChanged env lio pio now sid run (run_status_kind env run) (json (1, run, status)) st)"

definition loadRunEvidenceStatus ::
  "contract_env \<Rightarrow> (string \<Rightarrow> (int \<times> string \<times> string) option) \<Rightarrow> claim_error option \<Rightarrow> string \<Rightarrow> string \<Rightarrow> artifacts \<Rightarrow> string" where
  "loadRunEvidenceStatus env decode lio sid run st =
     (if run = [] then []
      else case LoadLatestArtifactByKind env lio st sid (run_status_kind env run) of
        Inl e \<Rightarrow> []
      | Inr (row, payload) \<Rightarrow> (case decode payload of
          Some (version, r, status) \<Rightarrow> if version \<noteq> 1 \<or> r \<noteq> run then [] else projectedEvidenceStatus status
        | None \<Rightarrow> []))"

section \<open>Decisions are sound\<close>

text \<open>What the decision about one intent has to be.\<close>

definition guided :: "work_revision \<Rightarrow> cancel_intent \<Rightarrow> active_intent \<Rightarrow> guidance_decision \<Rightarrow> bool" where
  "guided current cancel work d \<longleftrightarrow>
     gd_IntentID d = ai_ID (av_Intent work) \<and> gd_SourceRevisionID d = ai_RevisionID (av_Intent work) \<and>
     gd_CurrentRevisionID d = wr_ID current \<and> gd_PreserveTerminalEvidence d \<and>
     (let obsolete = (wr_ConstraintDigest (av_SourceRevision work) \<noteq> wr_ConstraintDigest current);
          cancelled = (av_CancelSafe work \<and> (case cancel of None \<Rightarrow> False | Some f \<Rightarrow> f (ai_ID (av_Intent work)) = None))
      in gd_Action d = (if \<not> obsolete then GuidanceContinue else if cancelled then GuidanceCancel else GuidanceContinueQuarantine))"

lemma guide_action_guided:
  assumes "ai_RevisionID (av_Intent work) = wr_ID (av_SourceRevision work)" and "guide_action current cancel work = (outcome, asked)"
  shows "guided current cancel work (guide_decision env json now current work outcome)"
  using assms by (auto simp: guided_def guide_action_def guide_decision_def Let_def split: if_split_asm option.split_asm option.split)

lemma guide_asked:
  "snd (guide_action current cancel work) \<longleftrightarrow>
     wr_ConstraintDigest (av_SourceRevision work) \<noteq> wr_ConstraintDigest current \<and> av_CancelSafe work \<and> cancel \<noteq> None"
  by (auto simp: guide_action_def Let_def split: option.split)

lemma guide_loop_sound:
  "guide_loop env json now current cancel active = (Inr ds, called) \<Longrightarrow>
     list_all2 (guided current cancel) active ds \<and>
     called = map (\<lambda>w. ai_ID (av_Intent w)) (filter (\<lambda>w. snd (guide_action current cancel w)) active)"
proof (induction active arbitrary: ds called)
  case (Cons work works)
  obtain outcome asked where a: "guide_action current cancel work = (outcome, asked)" by fastforce
  from Cons.prems a obtain ds' later where rest: "guide_loop env json now current cancel works = (Inr ds', later)"
    and bound: "ai_RevisionID (av_Intent work) = wr_ID (av_SourceRevision work)"
    and r: "ds = guide_decision env json now current work outcome # ds'"
      "called = (if asked then [ai_ID (av_Intent work)] else []) @ later"
    by (auto simp: Let_def split: option.split_asm if_split_asm sum.split_asm prod.split_asm)
  from Cons.IH [OF rest] guide_action_guided [OF bound a] r a show ?case by simp
qed simp

end
