(* ===== verification/Tool_Records.thy ===== *)
theory Tool_Records
  imports Go_Strings Store_Interfaces
begin

text \<open>
  The durable records of tool calls, \<^verbatim>\<open>internal/session/tool_records.go\<close> on the table
  \<^verbatim>\<open>session_tool_records\<close>. A call is recorded as running before its tool is executed and completed by a
  compare-and-set on that state; starting and finishing a call again are answered from the record.

  Finishing reads the record outside the transaction that completes it, so its two halves are steps of
  their own and other operations come between them. \<open>io\<close> is an error of the database, when there is
  one; \<open>high\<close> is the canonical high-water mark of the session. Long texts are moved to blobs that loading
  resolves again: a row holds the text itself.
\<close>

section \<open>Data\<close>

definition ToolRunning :: string where "ToolRunning = ''running''"
definition ToolCompleted :: string where "ToolCompleted = ''completed''"
definition ToolFailed :: string where "ToolFailed = ''failed''"
definition ToolInterrupted :: string where "ToolInterrupted = ''interrupted''"
definition ToolReconcileRequired :: string where "ToolReconcileRequired = ''reconcile_required''"

lemmas tool_states = ToolRunning_def ToolCompleted_def ToolFailed_def ToolInterrupted_def ToolReconcileRequired_def

record observed_file =
  of_Path :: string
  of_Operation :: string
  of_SHA256 :: string
  of_StartLine :: int
  of_EndLine :: int
  of_ErrorCode :: string

record call_record =
  trc_SessionID :: string
  trc_RunID :: string
  trc_ToolCallID :: string
  trc_AnchorSequence :: int
  trc_Name :: string
  trc_Arguments :: string
  trc_State :: string
  trc_Content :: string
  trc_Structured :: string
  trc_ArtifactID :: string
  trc_Observations :: "observed_file list"
  trc_StartedAt :: time
  trc_CompletedAt :: time

type_synonym tool_key = "string \<times> string \<times> string"
type_synonym call_records = "(tool_key, call_record) table"

definition call_key :: "call_record \<Rightarrow> tool_key" where
  "call_key r = (trc_SessionID r, trc_RunID r, trc_ToolCallID r)"

definition json_or :: "string \<Rightarrow> string \<Rightarrow> string" where
  "json_or dflt raw = (if raw = [] then dflt else raw)"

section \<open>Starting\<close>

text \<open>\<^verbatim>\<open>time.Time{}\<close> and \<^verbatim>\<open>completed_at=0\<close> are read back as the zero time.\<close>

definition running_record :: "time \<Rightarrow> string \<Rightarrow> call_record \<Rightarrow> call_record" where
  "running_record now sid r = r\<lparr>trc_SessionID := sid, trc_StartedAt := (if IsZero (trc_StartedAt r) then now else trc_StartedAt r),
     trc_State := ToolRunning, trc_CompletedAt := 0, trc_Arguments := json_or ''{}'' (trc_Arguments r),
     trc_Structured := json_or ''null'' (trc_Structured r)\<rparr>"

text \<open>\<^verbatim>\<open>RestartInterruptedSessionToolRecordCAS\<close>.\<close>

definition restart_row :: "call_record \<Rightarrow> call_record \<Rightarrow> call_record" where
  "restart_row record row = row\<lparr>trc_Name := trc_Name record, trc_Arguments := trc_Arguments record, trc_State := ToolRunning,
     trc_Content := [], trc_Structured := ''null'', trc_ArtifactID := [], trc_Observations := [],
     trc_StartedAt := trc_StartedAt record, trc_CompletedAt := 0\<rparr>"

definition start_row :: "call_record \<Rightarrow> call_records \<Rightarrow> (string + call_record) \<times> call_records" where
  "start_row record t =
     (case tget t (call_key record) of
        None \<Rightarrow> (Inr record, tput (call_key record) record t)
      | Some current \<Rightarrow>
          if trc_State current \<noteq> ToolInterrupted then (Inr current, t)
          else (Inr (record\<lparr>trc_AnchorSequence := trc_AnchorSequence current\<rparr>),
            tput (call_key record) (restart_row record current) t))"

definition startToolRecord ::
  "string option \<Rightarrow> time \<Rightarrow> int \<Rightarrow> string \<Rightarrow> call_record \<Rightarrow> int option \<Rightarrow> call_records \<Rightarrow> (string + call_record) \<times> call_records" where
  "startToolRecord io now high sessionID record anchorOverride t =
     (let sid = TrimSpace sessionID in
      if sid = [] \<or> blank (trc_RunID record) \<or> blank (trc_ToolCallID record) \<or> blank (trc_Name record)
      then (Inl ''start tool record: session, run, call, and name are required'', t)
      else case io of Some e \<Rightarrow> (Inl e, t)
      | None \<Rightarrow>
          let anchor = (case anchorOverride of Some a \<Rightarrow> a | None \<Rightarrow> high)
          in start_row ((running_record now sid record)\<lparr>trc_AnchorSequence := anchor\<rparr>) t)"

definition StartToolRecord ::
  "string option \<Rightarrow> time \<Rightarrow> int \<Rightarrow> string \<Rightarrow> call_record \<Rightarrow> call_records \<Rightarrow> (string + call_record) \<times> call_records" where
  "StartToolRecord io now high sessionID record t = startToolRecord io now high sessionID record None t"

definition StartToolRecordAt ::
  "string option \<Rightarrow> time \<Rightarrow> int \<Rightarrow> string \<Rightarrow> call_record \<Rightarrow> int \<Rightarrow> call_records \<Rightarrow> (string + call_record) \<times> call_records" where
  "StartToolRecordAt io now high sessionID record anchor t =
     (if anchor < -1 then (Inl ''start tool record: invalid anchor sequence'', t)
      else startToolRecord io now high sessionID record (Some anchor) t)"

section \<open>Finishing\<close>

definition sameTerminalToolRecord :: "call_record \<Rightarrow> call_record \<Rightarrow> bool" where
  "sameTerminalToolRecord l r \<longleftrightarrow> trc_State l = trc_State r \<and> trc_Name l = trc_Name r \<and> trc_Content l = trc_Content r \<and>
     trc_ArtifactID l = trc_ArtifactID r \<and> trc_Structured l = trc_Structured r"

definition terminal_state :: "string \<Rightarrow> bool" where
  "terminal_state s \<longleftrightarrow> s \<in> {ToolCompleted, ToolFailed, ToolInterrupted, ToolReconcileRequired}"

text \<open>The half before the transaction: an answer, or the record to be written.\<close>

datatype finish_answer = Answer "string + call_record" | Complete call_record

definition finish_known :: "time \<Rightarrow> call_record \<Rightarrow> call_record \<Rightarrow> finish_answer" where
  "finish_known now current record =
     (let record = record\<lparr>trc_Name := (if blank (trc_Name record) then trc_Name current else trc_Name record),
            trc_Structured := json_or ''null'' (trc_Structured record)\<rparr>
      in if trc_State current \<noteq> ToolRunning then
           (if sameTerminalToolRecord current record then Answer (Inr current)
            else Answer (Inl ''finish tool record: call is already finished''))
         else Complete (record\<lparr>trc_Arguments := trc_Arguments current, trc_AnchorSequence := trc_AnchorSequence current,
           trc_StartedAt := trc_StartedAt current,
           trc_CompletedAt := (if IsZero (trc_CompletedAt record) then now else trc_CompletedAt record)\<rparr>))"

text \<open>\<open>lio\<close> is an error of loading the record, \<open>io\<close> one of starting it.\<close>

definition finish_plan ::
  "string option \<Rightarrow> string option \<Rightarrow> time \<Rightarrow> int \<Rightarrow> string \<Rightarrow> call_record \<Rightarrow> call_records \<Rightarrow> finish_answer \<times> call_records" where
  "finish_plan lio io now high sessionID record t =
     (let sid = TrimSpace sessionID; record = record\<lparr>trc_SessionID := sid\<rparr> in
      if sid = [] \<or> blank (trc_RunID record) \<or> blank (trc_ToolCallID record)
      then (Answer (Inl ''finish tool record: session, run, and call are required''), t)
      else if \<not> terminal_state (trc_State record) then (Answer (Inl ''finish tool record: invalid terminal state''), t)
      else case lio of Some e \<Rightarrow> (Answer (Inl e), t)
      | None \<Rightarrow> (case tget t (call_key record) of
          Some current \<Rightarrow> (finish_known now current record, t)
        | None \<Rightarrow>
            if blank (trc_Name record) then (Answer (Inl ''finish tool record without start requires a name''), t)
            else (case StartToolRecord io now high sid
                \<lparr>trc_SessionID = [], trc_RunID = trc_RunID record, trc_ToolCallID = trc_ToolCallID record, trc_AnchorSequence = 0,
                 trc_Name = trc_Name record, trc_Arguments = trc_Arguments record, trc_State = [], trc_Content = [], trc_Structured = [],
                 trc_ArtifactID = [], trc_Observations = [], trc_StartedAt = trc_StartedAt record, trc_CompletedAt = 0\<rparr> t of
                (Inl e, t') \<Rightarrow> (Answer (Inl e), t')
              | (Inr started, t') \<Rightarrow> (finish_known now started record, t'))))"

text \<open>The transaction, \<^verbatim>\<open>CompleteSessionToolRecordCAS\<close>.\<close>

definition complete_row :: "call_record \<Rightarrow> call_record \<Rightarrow> call_record" where
  "complete_row record row = row\<lparr>trc_Name := trc_Name record, trc_State := trc_State record, trc_Content := trc_Content record,
     trc_Structured := trc_Structured record, trc_ArtifactID := trc_ArtifactID record, trc_Observations := trc_Observations record,
     trc_CompletedAt := trc_CompletedAt record\<rparr>"

definition finish_commit :: "string option \<Rightarrow> call_record \<Rightarrow> call_records \<Rightarrow> (string + call_record) \<times> call_records" where
  "finish_commit io record t =
     (case io of Some e \<Rightarrow> (Inl e, t)
      | None \<Rightarrow> (case tget t (call_key record) of
          Some row \<Rightarrow>
            if trc_State row = ToolRunning then (Inr record, tput (call_key record) (complete_row record row) t)
            else if sameTerminalToolRecord row record then (Inr row, t)
            else (Inl ''complete tool record: call state changed concurrently'', t)
        | None \<Rightarrow> (Inl ''complete tool record: call state changed concurrently'', t)))"

text \<open>Both halves with nothing between them.\<close>

definition FinishToolRecord ::
  "string option \<Rightarrow> string option \<Rightarrow> time \<Rightarrow> int \<Rightarrow> string \<Rightarrow> call_record \<Rightarrow> call_records \<Rightarrow> (string + call_record) \<times> call_records" where
  "FinishToolRecord lio io now high sessionID record t =
     (case finish_plan lio io now high sessionID record t of
        (Answer r, t') \<Rightarrow> (r, t')
      | (Complete record', t') \<Rightarrow> finish_commit io record' t')"

section \<open>Reading and interrupting\<close>

definition LoadToolRecord :: "string \<Rightarrow> string \<Rightarrow> string \<Rightarrow> call_records \<Rightarrow> call_record option" where
  "LoadToolRecord sessionID runID toolCallID t = tget t (sessionID, runID, toolCallID)"

definition listToolRecordsForRuns :: "string \<Rightarrow> string list option \<Rightarrow> call_records \<Rightarrow> call_record list" where
  "listToolRecordsForRuns sessionID runIDs t =
     sort_key (\<lambda>r. (trc_StartedAt r, trc_RunID r, trc_ToolCallID r))
       (filter (\<lambda>r. trc_SessionID r = sessionID \<and> (case runIDs of None \<Rightarrow> True | Some ids \<Rightarrow> trc_RunID r \<in> set ids)) (trows t))"

definition ListToolRecords :: "string \<Rightarrow> call_records \<Rightarrow> call_record list" where
  "ListToolRecords sessionID t = listToolRecordsForRuns sessionID None t"

definition interrupt_row :: "time \<Rightarrow> string \<Rightarrow> call_record \<Rightarrow> call_record" where
  "interrupt_row at runID row =
     (if trc_RunID row = runID \<and> trc_State row = ToolRunning then row\<lparr>trc_State := ToolInterrupted, trc_CompletedAt := at\<rparr> else row)"

definition InterruptRunningToolRecordsForRun ::
  "string option \<Rightarrow> time \<Rightarrow> string \<Rightarrow> time \<Rightarrow> call_records \<Rightarrow> string option \<times> call_records" where
  "InterruptRunningToolRecordsForRun io now runID at t =
     (if blank runID then (Some ''interrupt running tool records: run is required'', t)
      else case io of Some e \<Rightarrow> (Some e, t)
      | None \<Rightarrow> (None, map (\<lambda>(k, row). (k, interrupt_row (if IsZero at then now else at) (TrimSpace runID) row)) t))"

section \<open>Histories\<close>

text \<open>Any number of clients; the records that finishing calls still have to write are \<open>pending\<close>.\<close>

record call_world =
  cw_rows :: call_records
  cw_pending :: "call_record list"

inductive call_step :: "call_world \<Rightarrow> call_world \<Rightarrow> bool" where
  start: "startToolRecord io now high sid record anchor (cw_rows w) = (r, t) \<Longrightarrow> call_step w (w\<lparr>cw_rows := t\<rparr>)"
| answer: "finish_plan lio io now high sid record (cw_rows w) = (Answer r, t) \<Longrightarrow> call_step w (w\<lparr>cw_rows := t\<rparr>)"
| plan: "finish_plan lio io now high sid record (cw_rows w) = (Complete record', t) \<Longrightarrow>
    call_step w (w\<lparr>cw_rows := t, cw_pending := record' # cw_pending w\<rparr>)"
| commit: "record \<in> set (cw_pending w) \<Longrightarrow> finish_commit io record (cw_rows w) = (r, t) \<Longrightarrow>
    call_step w (w\<lparr>cw_rows := t, cw_pending := remove1 record (cw_pending w)\<rparr>)"
| interrupt: "InterruptRunningToolRecordsForRun io now runID at (cw_rows w) = (r, t) \<Longrightarrow> call_step w (w\<lparr>cw_rows := t\<rparr>)"
| crash: "call_step w (w\<lparr>cw_pending := []\<rparr>)"

inductive_cases call_stepE: "call_step w w'"

inductive call_reach :: "call_world \<Rightarrow> call_world \<Rightarrow> bool" where
  refl: "call_reach w w"
| step: "call_reach w w' \<Longrightarrow> call_step w' w'' \<Longrightarrow> call_reach w w''"

text \<open>What may happen to the row of a call in one step.\<close>

definition row_advances :: "call_record option \<Rightarrow> call_record option \<Rightarrow> bool" where
  "row_advances old new \<longleftrightarrow>
     (case (old, new) of
        (None, None) \<Rightarrow> True
      | (None, Some r) \<Rightarrow> trc_State r = ToolRunning
      | (Some r, None) \<Rightarrow> False
      | (Some r, Some r') \<Rightarrow> r' = r \<or>
          (trc_AnchorSequence r' = trc_AnchorSequence r \<and> call_key r' = call_key r \<and>
           (trc_State r = ToolRunning \<and> terminal_state (trc_State r') \<and> trc_StartedAt r' = trc_StartedAt r \<and> trc_Arguments r' = trc_Arguments r \<or>
            trc_State r = ToolInterrupted \<and> trc_State r' = ToolRunning \<and> trc_Content r' = [] \<and> trc_Observations r' = [])))"

definition calls_ok :: "call_records \<Rightarrow> bool" where
  "calls_ok t \<longleftrightarrow> table_ok t \<and> (\<forall>k r. tget t k = Some r \<longrightarrow> call_key r = k \<and> (trc_State r = ToolRunning \<or> terminal_state (trc_State r)))"

definition world_ok :: "call_world \<Rightarrow> bool" where
  "world_ok w \<longleftrightarrow> calls_ok (cw_rows w) \<and> (\<forall>r \<in> set (cw_pending w). terminal_state (trc_State r))"

lemma running_not_terminal [simp]: "\<not> terminal_state ToolRunning"
  by (simp add: terminal_state_def tool_states)

lemma interrupted_not_running [simp]: "ToolInterrupted \<noteq> ToolRunning" "ToolRunning \<noteq> ToolInterrupted" "terminal_state ToolInterrupted"
  by (simp_all add: terminal_state_def tool_states)

lemma row_advances_refl [simp]: "row_advances r r"
  by (auto simp: row_advances_def split: option.split)

definition advance :: "call_records \<Rightarrow> call_records \<Rightarrow> bool" where
  "advance t t' \<longleftrightarrow> calls_ok t' \<and> (\<forall>k. row_advances (tget t k) (tget t' k))"

lemma advance_refl: "calls_ok t \<Longrightarrow> advance t t"
  by (simp add: advance_def)

lemma advance_put:
  "calls_ok t \<Longrightarrow> call_key r = k \<Longrightarrow> trc_State r = ToolRunning \<or> terminal_state (trc_State r) \<Longrightarrow>
     row_advances (tget t k) (Some r) \<Longrightarrow> advance t (tput k r t)"
  by (auto simp: advance_def calls_ok_def)

lemma rows_key: "calls_ok t \<Longrightarrow> tget t k = Some r \<Longrightarrow> call_key r = k"
  unfolding calls_ok_def by blast

lemma start_row_advances:
  assumes "calls_ok t" and "trc_State record = ToolRunning" and "start_row record t = (r, t')"
  shows "advance t t'"
proof (cases "tget t (call_key record)")
  case None
  with assms show ?thesis by (auto simp: start_row_def advance_put row_advances_def)
next
  case (Some current)
  show ?thesis
  proof (cases "trc_State current = ToolInterrupted")
    case True
    have "call_key current = call_key record" using rows_key [OF assms(1) Some] .
    then have "call_key (restart_row record current) = call_key record" by (simp add: call_key_def restart_row_def)
    moreover have "row_advances (Some current) (Some (restart_row record current))"
      using True by (simp add: row_advances_def restart_row_def call_key_def)
    moreover have "trc_State (restart_row record current) = ToolRunning" by (simp add: restart_row_def)
    ultimately have "advance t (tput (call_key record) (restart_row record current) t)"
      using Some assms(1) by (simp add: advance_put)
    with assms(3) Some True show ?thesis by (auto simp: start_row_def)
  qed (use assms Some in \<open>auto simp: start_row_def advance_refl\<close>)
qed

lemma startToolRecord_row:
  assumes "startToolRecord io now high sid record anchor t = (r, t')"
  shows "t' = t \<or> (\<exists>record'. trc_State record' = ToolRunning \<and> start_row record' t = (r, t'))"
proof -
  let ?rec = "(running_record now (TrimSpace sid) record)
    \<lparr>trc_AnchorSequence := (case anchor of Some a \<Rightarrow> a | None \<Rightarrow> high)\<rparr>"
  have pick: "t' = t \<or> start_row ?rec t = (r, t')"
    if "(if c then (Inl e, t) else case io of Some e \<Rightarrow> (Inl e, t) | None \<Rightarrow> start_row ?rec t) = (r, t')" for c e
    using that by (cases c; cases io) simp_all
  have "trc_State ?rec = ToolRunning" by (simp add: running_record_def)
  with pick [OF assms [unfolded startToolRecord_def Let_def]] show ?thesis by blast
qed

lemma start_advances: "calls_ok t \<Longrightarrow> startToolRecord io now high sid record anchor t = (r, t') \<Longrightarrow> advance t t'"
  using startToolRecord_row start_row_advances advance_refl by metis

lemma finish_known_terminal:
  "finish_known now current record = Complete record' \<Longrightarrow> trc_State record' = trc_State record \<and> trc_State current = ToolRunning"
  by (auto simp: finish_known_def Let_def split: if_split_asm)

text \<open>An error before the record is known, or an answer on the record that is there or that was started.\<close>

lemma finish_plan_cases:
  assumes "finish_plan lio io now high sid record t = (p, t')"
  obtains e where "p = Answer (Inl e)" "t' = t"
    | rec e where "startToolRecord io now high (TrimSpace sid) rec None t = (Inl e, t')" "p = Answer (Inl e)"
    | rec current where "terminal_state (trc_State rec)" "p = finish_known now current rec" "t' = t"
    | rec rec' started where "startToolRecord io now high (TrimSpace sid) rec' None t = (Inr started, t')"
        "terminal_state (trc_State rec)" "p = finish_known now started rec"
proof -
  let ?rec = "record\<lparr>trc_SessionID := TrimSpace sid\<rparr>"
  consider "TrimSpace sid = [] \<or> blank (trc_RunID ?rec) \<or> blank (trc_ToolCallID ?rec)"
    | "\<not> (TrimSpace sid = [] \<or> blank (trc_RunID ?rec) \<or> blank (trc_ToolCallID ?rec))" "\<not> terminal_state (trc_State ?rec)"
    | e where "lio = Some e" | current where "lio = None" "tget t (call_key ?rec) = Some current"
    | "lio = None" "tget t (call_key ?rec) = None" "blank (trc_Name ?rec)"
    | "\<not> (TrimSpace sid = [] \<or> blank (trc_RunID ?rec) \<or> blank (trc_ToolCallID ?rec))" "terminal_state (trc_State ?rec)"
        "lio = None" "tget t (call_key ?rec) = None" "\<not> blank (trc_Name ?rec)"
    by (cases lio; cases "tget t (call_key ?rec)") blast+
  then show thesis
  proof cases
    case 6
    define fresh where "fresh = \<lparr>trc_SessionID = [], trc_RunID = trc_RunID ?rec, trc_ToolCallID = trc_ToolCallID ?rec, trc_AnchorSequence = 0,
      trc_Name = trc_Name ?rec, trc_Arguments = trc_Arguments ?rec, trc_State = [], trc_Content = [], trc_Structured = [],
      trc_ArtifactID = [], trc_Observations = [], trc_StartedAt = trc_StartedAt ?rec, trc_CompletedAt = 0\<rparr>"
    obtain r u where r: "startToolRecord io now high (TrimSpace sid) fresh None t = (r, u)" by fastforce
    with assms 6 show ?thesis
      using that(2) [of fresh] that(4) [of fresh _ ?rec]
      by (cases r) (auto simp: finish_plan_def Let_def StartToolRecord_def fresh_def)
  next
    case (4 current)
    show ?thesis
    proof (cases "p = finish_known now current ?rec \<and> terminal_state (trc_State ?rec)")
      case True
      with assms 4 that(3) [of ?rec current] that(1) show ?thesis
        by (auto simp: finish_plan_def Let_def split: if_split_asm)
    next
      case False
      with assms 4 that(1) show ?thesis by (auto simp: finish_plan_def Let_def split: if_split_asm)
    qed
  qed (use assms that(1) in \<open>auto simp: finish_plan_def Let_def split: if_split_asm\<close>)
qed

lemma finish_plan_advances:
  assumes "calls_ok t" and "finish_plan lio io now high sid record t = (p, t')"
  shows "advance t t' \<and> (\<forall>record'. p = Complete record' \<longrightarrow> terminal_state (trc_State record'))"
  using finish_plan_cases [OF assms(2)]
proof cases
  case (3 rec current)
  with finish_known_terminal [of now current rec] assms(1) advance_refl show ?thesis by metis
next
  case (4 rec rec' started)
  with finish_known_terminal [of now started rec] start_advances [OF assms(1)] show ?thesis by metis
next
  case (1 e)
  with assms(1) show ?thesis by (simp add: advance_refl)
next
  case (2 rec e)
  with start_advances [OF assms(1)] show ?thesis by blast
qed

lemma finish_commit_advances:
  assumes "calls_ok t" and "terminal_state (trc_State record)" and "finish_commit io record t = (r, t')"
  shows "advance t t'"
proof -
  have "t' = t \<or> (\<exists>row. tget t (call_key record) = Some row \<and> trc_State row = ToolRunning \<and>
      t' = tput (call_key record) (complete_row record row) t)"
    using assms(3) unfolding finish_commit_def by (simp split: option.split_asm if_split_asm)
  then consider "t' = t" | row where "tget t (call_key record) = Some row" "trc_State row = ToolRunning"
      "t' = tput (call_key record) (complete_row record row) t" by blast
  then show ?thesis
  proof cases
    case 2
    have "call_key row = call_key record" using rows_key [OF assms(1) 2(1)] .
    then have "call_key (complete_row record row) = call_key record" by (simp add: call_key_def complete_row_def)
    moreover have "row_advances (Some row) (Some (complete_row record row))"
      using 2(2) assms(2) by (simp add: row_advances_def complete_row_def call_key_def)
    moreover have "terminal_state (trc_State (complete_row record row))" using assms(2) by (simp add: complete_row_def)
    ultimately show ?thesis using 2 assms(1) by (simp add: advance_put)
  qed (simp add: assms(1) advance_refl)
qed

lemma tget_map_rows: "tget (map (\<lambda>(k, row). (k, f row)) t) k = map_option f (tget t k)"
  by (induction t) (auto simp: tget_def)

lemma interrupt_advances:
  assumes "calls_ok t" and "InterruptRunningToolRecordsForRun io now runID at t = (r, t')"
  shows "advance t t'"
proof -
  have "row_advances (tget t k) (map_option (interrupt_row a n) (tget t k))" for a n k
    by (auto simp: row_advances_def interrupt_row_def call_key_def split: option.split)
  moreover have "calls_ok (map (\<lambda>(k, row). (k, interrupt_row a n row)) t)" for a n
  proof -
    have "map fst (map (\<lambda>(k, row). (k, interrupt_row a n row)) t) = map fst t" by (simp add: comp_def split_def)
    with assms(1) have "table_ok (map (\<lambda>(k, row). (k, interrupt_row a n row)) t)" unfolding calls_ok_def table_ok_def by metis
    then show ?thesis
      using assms(1) unfolding calls_ok_def tget_map_rows by (fastforce simp: interrupt_row_def call_key_def)
  qed
  ultimately have "advance t (map (\<lambda>(k, row). (k, interrupt_row a n row)) t)" for a n
    by (simp add: advance_def tget_map_rows)
  with assms show ?thesis
    by (auto simp: InterruptRunningToolRecordsForRun_def advance_refl split: if_split_asm option.split_asm)
qed

lemma call_step_ok:
  assumes "call_step w w'" and "world_ok w"
  shows "world_ok w' \<and> (\<forall>k. row_advances (tget (cw_rows w) k) (tget (cw_rows w') k))"
proof -
  have rows: "calls_ok (cw_rows w)" and pending: "\<forall>r \<in> set (cw_pending w). terminal_state (trc_State r)"
    using assms(2) by (auto simp: world_ok_def)
  have "advance (cw_rows w) (cw_rows w') \<and> (\<forall>r \<in> set (cw_pending w'). terminal_state (trc_State r))"
    using assms(1)
  proof cases
    case start
    with rows pending start_advances show ?thesis by auto
  next
    case answer
    with rows pending finish_plan_advances show ?thesis by auto
  next
    case plan
    with rows pending finish_plan_advances show ?thesis by auto
  next
    case commit
    with rows pending finish_commit_advances show ?thesis by (auto dest: notin_set_remove1)
  next
    case interrupt
    with rows pending interrupt_advances show ?thesis by auto
  next
    case crash
    with rows show ?thesis by (simp add: advance_refl)
  qed
  then show ?thesis by (simp add: advance_def world_ok_def)
qed

lemma call_reach_ok: "call_reach w w' \<Longrightarrow> world_ok w \<Longrightarrow> world_ok w'"
  by (induction rule: call_reach.induct) (auto dest: call_step_ok)

text \<open>A finished call stays as it is.\<close>

definition settled_state :: "string \<Rightarrow> bool" where
  "settled_state s \<longleftrightarrow> terminal_state s \<and> s \<noteq> ToolInterrupted"

lemma settled_stays:
  "call_reach w w' \<Longrightarrow> world_ok w \<Longrightarrow> tget (cw_rows w) k = Some r \<Longrightarrow> settled_state (trc_State r) \<Longrightarrow> tget (cw_rows w') k = Some r"
proof (induction rule: call_reach.induct)
  case (step w w' w'')
  then have "tget (cw_rows w') k = Some r" "world_ok w'" by (auto intro: call_reach_ok)
  with call_step_ok [OF step.hyps(2)] step.prems(3) have "row_advances (Some r) (tget (cw_rows w'') k)" by metis
  with step.prems(3) show ?case by (auto simp: row_advances_def settled_state_def split: option.split_asm)
qed simp

end
