(* ===== verification/Tool_Timeline.thy ===== *)
theory Tool_Timeline
  imports Work_Guidance Tool_Records
begin

text \<open>
  The durable timeline of the tool calls of a run: \<^verbatim>\<open>internal/app/tool_timeline.go\<close>, with the intents and
  observations of \<^verbatim>\<open>app/work_evidence.go\<close> and the normalization of \<^verbatim>\<open>internal/observation\<close>.

  Before a tool is executed its intent is bound to the present revision and stored, and a running record
  is made; afterwards the record is finished and an observation with its disposition is stored.

  The fields the code decodes from JSON, the files and symbolic links of the workspace, and the errors
  of the stores are arguments (\<open>timeline_env\<close>).
\<close>

section \<open>Observed files\<close>

record tool_input =
  ti_Path :: string
  ti_Paths :: "string list"
  ti_Input :: string
  ti_StartLine :: int
  ti_EndLine :: int
  ti_OutputPath :: string

datatype hash_error = LimitError | HostNotExist | HostError

record timeline_env =
  tv_evidence :: evidence_env
  tv_blocks :: "block list"
  tv_todo :: todo_list
  tv_created :: time
  tv_json_valid :: "string \<Rightarrow> bool"
  tv_exit :: "string \<Rightarrow> (int \<times> string \<times> string) option"
  tv_input :: "string \<Rightarrow> tool_input"
  tv_section_paths :: "string \<Rightarrow> string list option"
  tv_payload :: "string \<times> string \<Rightarrow> string option"
  tv_utf8 :: "string \<Rightarrow> bool"
  tv_workspace :: string
  tv_abs :: "string option"
  tv_resolve :: "string \<Rightarrow> string option"
  tv_file :: "string \<Rightarrow> hash_error + string option"
  tv_disposition_json :: "disposition \<Rightarrow> string"

definition contract_of :: "timeline_env \<Rightarrow> contract_env" where
  "contract_of env = ev_contract (tv_evidence env)"

definition media_path :: "timeline_env \<Rightarrow> string \<Rightarrow> bool" where
  "media_path env path \<longleftrightarrow> ce_lower (contract_of env) (filepath_Ext path) \<in> {''.png'', ''.jpg'', ''.jpeg'', ''.gif'', ''.aiff'', ''.wav''}"

definition maxMediaBytes :: int where
  "maxMediaBytes = 32 * 1024 * 1024"

text \<open>The digest of a file, or an error, with the budgets that are left; the file is read once.\<close>

definition hashWorkspaceEvidence :: "timeline_env \<Rightarrow> string \<Rightarrow> int \<Rightarrow> int \<Rightarrow> (hash_error + string) \<times> int \<times> int" where
  "hashWorkspaceEvidence env path textRemaining mediaRemaining =
     (let media = media_path env path;
          remaining = (if media then mediaRemaining else textRemaining);
          fileLimit = (if media then maxMediaBytes else maxWorkspaceTotalBytes);
          fail = (\<lambda>e. (Inl e, textRemaining, mediaRemaining))
      in if \<not> validRelativePath path \<or> remaining \<le> 0 then fail LimitError
         else case tv_file env path of Inl e \<Rightarrow> fail e
         | Inr None \<Rightarrow> fail LimitError
         | Inr (Some text) \<Rightarrow>
             if int (length text) > min remaining fileLimit then fail LimitError
             else if media then (Inr (ce_sha (contract_of env) text), textRemaining, mediaRemaining - int (length text))
             else (Inr (ce_sha (contract_of env) text), textRemaining - int (length text), mediaRemaining))"

definition workspaceLimitOrCaptureCode :: "hash_error \<Rightarrow> string" where
  "workspaceLimitOrCaptureCode e = (if e = LimitError then ''limit_exceeded'' else ''capture_failed'')"

text \<open>\<^verbatim>\<open>filepath.Abs\<close> of the workspace is \<open>tv_abs\<close>; a symbolic link that does not resolve is left.\<close>

definition observationPathInWorkspace :: "timeline_env \<Rightarrow> string \<Rightarrow> string option" where
  "observationPathInWorkspace env raw =
     (let raw = TrimSpace raw; workspace = TrimSpace (tv_workspace env);
          resolve = (\<lambda>p. case tv_resolve env p of Some r \<Rightarrow> r | None \<Rightarrow> p);
          valid = (\<lambda>candidate. if validRelativePath candidate then Some candidate else None)
      in if raw = [] then None
         else if HasPrefix raw ''/'' then
           (if workspace = [] then None
            else case tv_abs env of None \<Rightarrow> None
            | Some top_dir \<Rightarrow> valid (filepath_Rel (resolve top_dir) (resolve (path_Clean raw))))
         else valid (path_Clean raw))"

definition hashline_path :: "string \<Rightarrow> string list" where
  "hashline_path line =
     (let line = TrimSpace line; pilcrow = [CHR 0xC2, CHR 0xB6];
          before_tag = (\<lambda>s. butlast (rev (dropWhile (\<lambda>c. c \<noteq> CHR ''#'') (rev s))))
      in if HasPrefix line pilcrow then
           (let text = TrimPrefix line pilcrow in if before_tag text \<noteq> [] then [before_tag text] else [])
         else if HasPrefix line ''['' \<and> length (before_tag line) > 1 then [drop 1 (before_tag line)] else [])"

definition hashlinePatchPaths :: "string \<Rightarrow> string list" where
  "hashlinePatchPaths input = concat (map hashline_path (Split (CHR 0x0A) input))"

text \<open>The operation of a tool; \<open>None\<close> when its calls do not touch files.\<close>

definition tool_operation :: "string \<Rightarrow> string option" where
  "tool_operation name =
     (if name = ''coding.read_file'' \<or> name = ''inspect_image'' then Some ''read''
      else if name = ''ast_edit'' \<or> name = ''coding.edit_hashline'' \<or> name = ''coding.replace'' then Some ''edit''
      else if name = ''generate_image'' \<or> name = ''tts'' \<or> name = ''coding.write_file'' then Some ''write''
      else if name = ''coding.delete_file'' then Some ''delete''
      else if name = ''coding.gofmt'' then Some ''format'' else None)"

definition requested_paths :: "timeline_env \<Rightarrow> string \<Rightarrow> string \<Rightarrow> tool_input \<Rightarrow> string \<Rightarrow> string list" where
  "requested_paths env name operation input structured =
     (let input = (if name = ''ast_edit'' then input\<lparr>ti_Path := [], ti_Paths := []\<rparr>
            else if name = ''generate_image'' \<or> name = ''tts'' then input\<lparr>ti_Path := ti_OutputPath input, ti_Paths := []\<rparr> else input);
          paths = ti_Paths input @ (if ti_Path input \<noteq> [] then [ti_Path input] else [])
      in if operation \<noteq> ''edit'' then paths
         else let paths = paths @ (case tv_section_paths env structured of Some ps \<Rightarrow> ps | None \<Rightarrow> []) in
           if length paths = 0 then hashlinePatchPaths (ti_Input input) else paths)"

fun observe_paths :: "(string \<Rightarrow> observed_file) \<Rightarrow> string list \<Rightarrow> string list \<Rightarrow> observed_file list" where
  "observe_paths observe seen [] = []"
| "observe_paths observe seen (p # ps) =
     (let path = path_Clean (TrimSpace p) in
      if path = ''.'' \<or> path = [] \<or> path \<in> set seen then observe_paths observe seen ps
      else observe path # observe_paths observe (path # seen) ps)"

definition requestedFileObservations :: "timeline_env \<Rightarrow> string \<Rightarrow> string \<Rightarrow> string \<Rightarrow> observed_file list" where
  "requestedFileObservations env name arguments structured =
     (if name = ''coding.read_file'' \<and> ev_kind (tv_evidence env) structured = Some ''directory'' then []
      else case tool_operation name of None \<Rightarrow> []
      | Some operation \<Rightarrow>
          if name = ''ast_edit'' \<and> (case ev_sections (tv_evidence env) structured of Some n \<Rightarrow> n = 0 | None \<Rightarrow> True) then []
          else let input = tv_input env arguments;
                   observe = (\<lambda>path. \<lparr>of_Path = path, of_Operation = operation, of_SHA256 = [],
                     of_StartLine = (if operation = ''read'' then ti_StartLine input else 0),
                     of_EndLine = (if operation = ''read'' then ti_EndLine input else 0), of_ErrorCode = []\<rparr>)
            in sort_key of_Path (observe_paths observe [] (requested_paths env name operation input structured)))"

fun hash_observations :: "timeline_env \<Rightarrow> int \<Rightarrow> int \<Rightarrow> observed_file list \<Rightarrow> observed_file list" where
  "hash_observations env remaining media [] = []"
| "hash_observations env remaining media (ob # obs) =
     (let (digest, remaining', media') = hashWorkspaceEvidence env (of_Path ob) remaining media;
          ob' = (if of_Operation ob = ''delete''
            then (case digest of Inl HostNotExist \<Rightarrow> ob
                  | Inl e \<Rightarrow> ob\<lparr>of_ErrorCode := workspaceLimitOrCaptureCode e\<rparr>
                  | Inr _ \<Rightarrow> ob\<lparr>of_ErrorCode := ''path_present''\<rparr>)
            else (case digest of Inl e \<Rightarrow> ob\<lparr>of_ErrorCode := workspaceLimitOrCaptureCode e\<rparr> | Inr d \<Rightarrow> ob\<lparr>of_SHA256 := d\<rparr>))
      in ob' # hash_observations env remaining' media' obs)"

definition fileObservations :: "timeline_env \<Rightarrow> string \<Rightarrow> string \<Rightarrow> string \<Rightarrow> bool \<Rightarrow> observed_file list" where
  "fileObservations env name arguments structured succeeded =
     (if \<not> succeeded \<or> blank (tv_workspace env) then []
      else hash_observations env maxWorkspaceTotalBytes maxMediaBytes
        (List.map_filter (\<lambda>ob. map_option (\<lambda>path. ob\<lparr>of_Path := path\<rparr>) (observationPathInWorkspace env (of_Path ob)))
          (requestedFileObservations env name arguments structured)))"

section \<open>Observations\<close>

record observation_metadata =
  om_ExitStatus :: "int option"
  om_TimedOut :: bool
  om_Cancelled :: bool
  om_RawAvailable :: "bool option"
  om_Truncated :: "bool option"
  om_Spilled :: "bool option"
  om_Retryable :: "bool option"
  om_FreshAt :: time

definition normalizeToolStatus :: "string \<Rightarrow> observation_metadata \<Rightarrow> string" where
  "normalizeToolStatus state metadata =
     (if om_TimedOut metadata then ''timeout'' else if om_Cancelled metadata then ''cancelled''
      else if state = ToolCompleted then ''completed'' else if state = ToolFailed then ''failed''
      else if state = ToolInterrupted then ''cancelled'' else ''unknown'')"

definition hasStructuredContent :: "string \<Rightarrow> bool" where
  "hasStructuredContent raw \<longleftrightarrow> TrimSpace raw \<notin> {[], ''null'', ''{}'', ''[]''}"

definition structuredValidity :: "(string \<Rightarrow> bool) \<Rightarrow> string \<Rightarrow> string" where
  "structuredValidity json_valid raw =
     (if TrimSpace raw = [] \<or> TrimSpace raw = ''null'' then ''unknown'' else if json_valid raw then ''valid'' else ''invalid'')"

definition normalize_observation :: "observed_file \<Rightarrow> file_observation" where
  "normalize_observation ob =
     (let file = \<lparr>fo_Path = TrimSpace (of_Path ob), fo_BeforeSHA256 = [], fo_AfterSHA256 = [], fo_State = ''unknown''\<rparr>; op = of_Operation ob in
      if op = ''read'' then file\<lparr>fo_State := ''observed'', fo_AfterSHA256 := of_SHA256 ob\<rparr>
      else if op = ''create'' \<or> op = ''created'' then file\<lparr>fo_State := ''created'', fo_AfterSHA256 := of_SHA256 ob\<rparr>
      else if op = ''write'' \<or> op = ''edit'' \<or> op = ''modify'' \<or> op = ''modified'' then file\<lparr>fo_State := ''modified'', fo_AfterSHA256 := of_SHA256 ob\<rparr>
      else if op = ''delete'' \<or> op = ''deleted'' then file\<lparr>fo_State := ''deleted'', fo_BeforeSHA256 := of_SHA256 ob\<rparr>
      else file)"

definition normalizeFileObservations :: "observed_file list \<Rightarrow> file_observation list" where
  "normalizeFileObservations obs = map normalize_observation (filter (\<lambda>ob. validRelativePath (TrimSpace (of_Path ob))) obs)"

text \<open>\<^verbatim>\<open>binary.BigEndian.PutUint64\<close> of a length.\<close>

definition length_prefix :: "string \<Rightarrow> string" where
  "length_prefix s = map (\<lambda>i. char_of (int (length s) div 256 ^ i mod 256)) (rev [0..<8])"

definition rawToolResultHash :: "contract_env \<Rightarrow> string \<Rightarrow> string \<Rightarrow> string" where
  "rawToolResultHash env content structured = ce_sha env (length_prefix content @ content @ length_prefix structured @ structured)"

definition file_source :: "observed_file \<Rightarrow> source_ref" where
  "file_source ob = \<lparr>sr_Kind = ''file'', sr_ID = of_Path ob, sr_Range = [], sr_SHA256 = of_SHA256 ob\<rparr>"

definition NormalizeToolObservation ::
  "contract_env \<Rightarrow> (string \<Rightarrow> bool) \<Rightarrow> call_record \<Rightarrow> observation_metadata \<Rightarrow> observation_envelope" where
  "NormalizeToolObservation env json_valid record metadata =
     (let rawAvailable = (case om_RawAvailable metadata of Some b \<Rightarrow> b | None \<Rightarrow> True);
          presence = (if \<not> rawAvailable then ''missing''
            else if trc_Content record \<noteq> [] \<or> hasStructuredContent (trc_Structured record) then ''present'' else ''empty'');
          truncation = (if om_Spilled metadata = Some True then ''spilled'' else if om_Truncated metadata = Some True then ''truncated''
            else if om_Spilled metadata \<noteq> None \<and> om_Truncated metadata \<noteq> None then ''none'' else ''unknown'');
          retryability = (case om_Retryable metadata of None \<Rightarrow> ''unknown'' | Some b \<Rightarrow> if b then ''retryable'' else ''terminal'');
          rawHash = rawToolResultHash env (trc_Content record) (trc_Structured record);
          recordID = Join [trc_SessionID record, trc_RunID record, trc_ToolCallID record] '':'';
          rawRef = \<lparr>sr_Kind = ''tool_record'', sr_ID = recordID, sr_Range = [], sr_SHA256 = rawHash\<rparr>
      in \<lparr>oe_Version = WorkContractVersionV1, oe_ID = ''observation:'' @ recordID, oe_IntentID = [],
          oe_SessionID = trc_SessionID record, oe_RunID = trc_RunID record, oe_ToolCallID = trc_ToolCallID record,
          oe_RevisionID = [], oe_SnapshotHash = [], oe_Status = normalizeToolStatus (trc_State record) metadata,
          oe_ExitStatus = om_ExitStatus metadata, oe_ContentPresence = presence, oe_Truncation = truncation,
          oe_SchemaValidity = structuredValidity json_valid (trc_Structured record), oe_Retryability = retryability,
          oe_FreshAt = (if IsZero (trc_CompletedAt record) then om_FreshAt metadata else trc_CompletedAt record),
          oe_RawSHA256 = rawHash, oe_RawRef = Some rawRef, oe_Files = normalizeFileObservations (trc_Observations record),
          oe_Sources = rawRef # (if trc_ArtifactID record \<noteq> []
              then [\<lparr>sr_Kind = ''artifact'', sr_ID = trc_ArtifactID record, sr_Range = [], sr_SHA256 = []\<rparr>] else []) @
            map file_source (filter (\<lambda>ob. of_Path ob \<noteq> [] \<and> validRelativePath (of_Path ob)) (trc_Observations record))\<rparr>)"

definition toolExitStatus :: "timeline_env \<Rightarrow> string \<Rightarrow> int option \<times> bool" where
  "toolExitStatus env raw =
     (if length raw = 0 then (None, False)
      else case tv_exit env raw of None \<Rightarrow> (None, False)
      | Some (exitCode, status, reason) \<Rightarrow> (Some exitCode, reason = ''timeout'' \<or> reason = ''idle_timeout'' \<or> status = ''timeout''))"

definition bindBeforeHashes :: "file_observation list \<Rightarrow> revision_file list \<Rightarrow> file_observation list" where
  "bindBeforeHashes files source =
     map (\<lambda>f. if fo_State f = ''modified'' \<or> fo_State f = ''deleted''
       then f\<lparr>fo_BeforeSHA256 := (case last_by rf_Path source (fo_Path f) of Some g \<Rightarrow> rf_SHA256 g | None \<Rightarrow> [])\<rparr> else f) files"

section \<open>Intents and observations of a call\<close>

record tool_call =
  mc_ID :: string
  mc_Name :: string
  mc_Arguments :: string

text \<open>The errors of loading and storing artifacts and of the records, the high-water mark, and the readings of the clock.\<close>

record store_io =
  so_load :: "claim_error option"
  so_put :: "claim_error option"
  so_record_load :: "string option"
  so_record :: "string option"
  so_high :: int
  so_clock :: "time \<times> time"
  so_created :: time
  so_now :: time

text \<open>The records of a run as the evidence reads them.\<close>

definition evidence_record :: "call_record \<Rightarrow> tool_record" where
  "evidence_record r = \<lparr>tr_RunID = trc_RunID r, tr_ToolCallID = trc_ToolCallID r, tr_Name = trc_Name r, tr_Arguments = trc_Arguments r,
     tr_State = trc_State r, tr_Content = trc_Content r, tr_Structured = trc_Structured r,
     tr_Observations = map (\<lambda>ob. \<lparr>ob_Path = of_Path ob, ob_Operation = of_Operation ob, ob_SHA256 = of_SHA256 ob\<rparr>) (trc_Observations r),
     tr_StartedAt = trc_StartedAt r, tr_CompletedAt = trc_CompletedAt r\<rparr>"

definition run_snapshot :: "timeline_env \<Rightarrow> store_io \<Rightarrow> string \<Rightarrow> string \<Rightarrow> call_records \<Rightarrow> claim_error + evidence_snapshot" where
  "run_snapshot env io sid run rows =
     (case so_load io of Some e \<Rightarrow> Inl e
      | None \<Rightarrow> deriveRuntimeEvidence (tv_evidence env) (so_clock io)
          \<lparr>pj_Blocks = tv_blocks env, pj_ToolRecords = map evidence_record (listToolRecordsForRuns sid (Some [run]) rows), pj_CreatedAt = tv_created env\<rparr>
          (tv_todo env) sid run [run])"

definition intent_id :: "contract_env \<Rightarrow> string \<Rightarrow> string \<Rightarrow> tool_call \<Rightarrow> string" where
  "intent_id env sid run call =
     ''intent:'' @ shortEvidenceHash env (sid @ [CHR 0x00] @ run @ [CHR 0x00] @ mc_ID call @ [CHR 0x00] @ mc_Name call)"

definition persistToolIntent ::
  "timeline_env \<Rightarrow> store_io \<Rightarrow> string \<Rightarrow> string \<Rightarrow> tool_call \<Rightarrow> call_records \<Rightarrow> artifacts \<Rightarrow> (claim_error + action_intent) \<times> artifacts" where
  "persistToolIntent env io sid run call rows st =
     (case run_snapshot env io sid run rows of Inl e \<Rightarrow> (Inl e, st) | Inr snap \<Rightarrow>
      let c = contract_of env in
      case persistRuntimeContracts c (so_load io) (so_put io) (so_now io) sid run (es_work snap) (es_revision snap) (es_plan snap) st of
        (Inl e, st) \<Rightarrow> (Inl e, st)
      | (Inr _, st) \<Rightarrow>
          let intent = \<lparr>ai_Version = WorkContractVersionV1, ai_ID = intent_id c sid run call, ai_WorkSpecID = ws_ID (es_work snap),
                ai_SessionID = sid, ai_RunID = run, ai_AgentID = [], ai_ToolCallID = mc_ID call,
                ai_Kind = (if HasPrefix (mc_Name call) ''subagent.'' then ''subagent'' else ''tool''), ai_Name = mc_Name call,
                ai_ArgumentsHash = (if length (mc_Arguments call) > 0 then ce_sha c (mc_Arguments call) else []),
                ai_RevisionID = [], ai_SnapshotHash = [], ai_Sources = [es_goalSource snap], ai_CreatedAt = so_created io\<rparr>
          in case BindIntent c (es_revision snap) intent of Inl e \<Rightarrow> (Inl e, st)
          | Inr intent \<Rightarrow> (case SaveIntent c (so_load io) (so_put io) (so_now io) sid run intent st of
              (Inl e, st) \<Rightarrow> (Inl e, st) | (Inr _, st) \<Rightarrow> (Inr intent, st)))"

definition loadToolIntent ::
  "contract_env \<Rightarrow> claim_error option \<Rightarrow> string \<Rightarrow> string \<Rightarrow> tool_call \<Rightarrow> artifacts \<Rightarrow> claim_error + action_intent" where
  "loadToolIntent env lio sid run call st =
     (if blank sid \<or> blank run then Inl (ClaimError ''work revision: store requires session service, session id, and run id'')
      else Intent env lio sid run st (intent_id env sid run call))"

definition observation_of ::
  "timeline_env \<Rightarrow> work_revision \<Rightarrow> work_revision \<Rightarrow> action_intent \<Rightarrow> call_record \<Rightarrow> observation_envelope" where
  "observation_of env source current intent record =
     (let (exit, timedOut) = toolExitStatus env (trc_Structured record);
          metadata = \<lparr>om_ExitStatus = exit, om_TimedOut = timedOut, om_Cancelled = (trc_State record = ToolInterrupted),
            om_RawAvailable = Some True, om_Truncated = None, om_Spilled = Some (trc_ArtifactID record \<noteq> []), om_Retryable = None,
            om_FreshAt = 0\<rparr>;
          envelope = NormalizeToolObservation (contract_of env) (tv_json_valid env) record metadata
      in envelope\<lparr>oe_IntentID := ai_ID intent, oe_RevisionID := wr_ID current, oe_SnapshotHash := wr_SnapshotHash current,
           oe_Files := bindBeforeHashes (oe_Files envelope) (wr_Files source)\<rparr>)"

definition persistToolObservation ::
  "timeline_env \<Rightarrow> store_io \<Rightarrow> string \<Rightarrow> string \<Rightarrow> action_intent \<Rightarrow> call_record \<Rightarrow> call_records \<Rightarrow> artifacts \<Rightarrow> (claim_error + unit) \<times> artifacts" where
  "persistToolObservation env io sid run intent record rows st =
     (if ai_ID intent = [] then (Inr (), st)
      else case run_snapshot env io sid run rows of Inl e \<Rightarrow> (Inl e, st) | Inr snap \<Rightarrow>
      let c = contract_of env in
      case persistRuntimeContracts c (so_load io) (so_put io) (so_now io) sid run (es_work snap) (es_revision snap) (es_plan snap) st of
        (Inl e, st) \<Rightarrow> (Inl e, st)
      | (Inr _, st) \<Rightarrow> (case Revision c (so_load io) sid st (ai_RevisionID intent) of Inl e \<Rightarrow> (Inl e, st)
      | Inr source \<Rightarrow>
          let envelope = observation_of env source (es_revision snap) intent record in
          case validate_observation envelope of Some e \<Rightarrow> (Inl e, st)
          | None \<Rightarrow> (case SaveObservation c (so_load io) (so_put io) (so_now io) sid run envelope st of
              (Inl e, st) \<Rightarrow> (Inl e, st)
            | (Inr _, st) \<Rightarrow> (case Disposition c \<lparr>cp_IntentID = ai_ID intent, cp_Source = source, cp_Current = es_revision snap,
                  cp_ResultFiles = oe_Files envelope, cp_CompletedAt = trc_CompletedAt record\<rparr> of
                Inl e \<Rightarrow> (Inl e, st)
              | Inr d \<Rightarrow> SaveDisposition c (tv_disposition_json env) (so_load io) (so_put io) (so_now io) sid run d st))))"

section \<open>The timeline\<close>

record timeline =
  tm_calls :: "(string, tool_call \<times> action_intent) table"
  tm_anchor :: "int option"

record timeline_state =
  ts_timeline :: timeline
  ts_rows :: call_records
  ts_artifacts :: artifacts

definition maxInlineToolRecordBytes :: int where
  "maxInlineToolRecordBytes = 64 * 1024"

definition maxToolRecordPreviewBytes :: int where
  "maxToolRecordPreviewBytes = 16 * 1024"

fun drop_invalid :: "(string \<Rightarrow> bool) \<Rightarrow> string \<Rightarrow> nat \<Rightarrow> string" where
  "drop_invalid utf8 s 0 = []"
| "drop_invalid utf8 s (Suc n) = (if utf8 (take (Suc n) s) then take (Suc n) s else drop_invalid utf8 s n)"

definition boundedUTF8 :: "(string \<Rightarrow> bool) \<Rightarrow> string \<Rightarrow> int \<Rightarrow> string" where
  "boundedUTF8 utf8 text bound =
     (if bound \<le> 0 \<or> int (length text) \<le> bound then text
      else drop_invalid utf8 text (nat bound) @ [CHR 0x0A] @ ''[tool result stored as artifact]'')"

definition timeline_start ::
  "timeline_env \<Rightarrow> store_io \<Rightarrow> string \<Rightarrow> string \<Rightarrow> tool_call \<Rightarrow> timeline_state \<Rightarrow> claim_error option \<times> timeline_state" where
  "timeline_start env io sid run call s =
     (case persistToolIntent env io sid run call (ts_rows s) (ts_artifacts s) of
        (Inl e, st) \<Rightarrow> (Some e, s\<lparr>ts_artifacts := st\<rparr>)
      | (Inr intent, st) \<Rightarrow>
          let tm = ts_timeline s;
              record = \<lparr>trc_SessionID = [], trc_RunID = run, trc_ToolCallID = mc_ID call, trc_AnchorSequence = 0, trc_Name = mc_Name call,
                trc_Arguments = mc_Arguments call, trc_State = [], trc_Content = [], trc_Structured = [], trc_ArtifactID = [],
                trc_Observations = [], trc_StartedAt = so_created io, trc_CompletedAt = 0\<rparr>;
              result = (case tm_anchor tm of
                Some anchor \<Rightarrow> StartToolRecordAt (so_record io) (so_created io) (so_high io) sid record anchor (ts_rows s)
              | None \<Rightarrow> StartToolRecord (so_record io) (so_created io) (so_high io) sid record (ts_rows s))
          in case result of
            (Inl e, rows) \<Rightarrow> (Some (ClaimError e), \<lparr>ts_timeline = tm\<lparr>tm_calls := tdelete (mc_ID call) (tm_calls tm)\<rparr>, ts_rows = rows, ts_artifacts = st\<rparr>)
          | (Inr _, rows) \<Rightarrow> (None, \<lparr>ts_timeline = tm\<lparr>tm_calls := tput (mc_ID call) (call, intent) (tm_calls tm)\<rparr>, ts_rows = rows, ts_artifacts = st\<rparr>))"

definition anchorAfter :: "int \<Rightarrow> timeline \<Rightarrow> timeline" where
  "anchorAfter n tm = tm\<lparr>tm_anchor := Some n\<rparr>"

record tool_result =
  rs_ToolCallID :: string
  rs_Name :: string
  rs_Content :: string
  rs_Structured :: string
  rs_IsError :: bool

definition no_intent :: action_intent where
  "no_intent = \<lparr>ai_Version = 0, ai_ID = [], ai_WorkSpecID = [], ai_SessionID = [], ai_RunID = [], ai_AgentID = [], ai_ToolCallID = [],
     ai_Kind = [], ai_Name = [], ai_ArgumentsHash = [], ai_RevisionID = [], ai_SnapshotHash = [], ai_Sources = [], ai_CreatedAt = 0\<rparr>"

text \<open>The call a result belongs to: from memory, or restored from the stores after a restart.\<close>

definition pending_call ::
  "timeline_env \<Rightarrow> store_io \<Rightarrow> string \<Rightarrow> string \<Rightarrow> string \<Rightarrow> timeline_state \<Rightarrow> claim_error + tool_call \<times> action_intent" where
  "pending_call env io sid run callID s =
     (case tget (tm_calls (ts_timeline s)) callID of Some p \<Rightarrow> Inr p
      | None \<Rightarrow> (case (if so_record_load io \<noteq> None then None else LoadToolRecord sid run callID (ts_rows s)) of
          None \<Rightarrow> Inr (\<lparr>mc_ID = [], mc_Name = [], mc_Arguments = []\<rparr>, no_intent)
        | Some current \<Rightarrow>
            let call = \<lparr>mc_ID = callID, mc_Name = trc_Name current, mc_Arguments = trc_Arguments current\<rparr> in
            bindE (loadToolIntent (contract_of env) (so_load io) sid run call (ts_artifacts s)) (\<lambda>intent. Inr (call, intent))))"

text \<open>Long results go to an artifact: its identifier with the contents that stay in the record.\<close>

definition spill_result ::
  "timeline_env \<Rightarrow> store_io \<Rightarrow> string \<Rightarrow> string \<Rightarrow> tool_result \<Rightarrow> artifacts \<Rightarrow> (claim_error + string \<times> string \<times> string) \<times> artifacts" where
  "spill_result env io sid run result st =
     (case tv_payload env (rs_Content result, rs_Structured result) of
        None \<Rightarrow> (Inl (ClaimError ''encode durable tool result''), st)
      | Some payload \<Rightarrow>
          if int (length payload) > maxInlineToolRecordBytes then
            (case PutArtifact (contract_of env) (so_put io) (so_now io) st sid run ''tool_result'' payload of
               (Inl e, st) \<Rightarrow> (Inl e, st)
             | (Inr (row, _), st) \<Rightarrow> (Inr (art_ID row, boundedUTF8 (tv_utf8 env) (rs_Content result) maxToolRecordPreviewBytes,
                 if int (length (rs_Structured result)) > maxInlineToolRecordBytes then [] else rs_Structured result), st))
          else (Inr ([], rs_Content result, rs_Structured result), st))"

definition timeline_finish ::
  "timeline_env \<Rightarrow> store_io \<Rightarrow> string \<Rightarrow> string \<Rightarrow> tool_result \<Rightarrow> timeline_state \<Rightarrow> (claim_error + string \<times> string) \<times> timeline_state" where
  "timeline_finish env io sid run result s =
     (let tm = ts_timeline s; callID = rs_ToolCallID result;
          s' = s\<lparr>ts_timeline := tm\<lparr>tm_calls := tdelete callID (tm_calls tm)\<rparr>\<rparr>
      in case pending_call env io sid run callID s of Inl e \<Rightarrow> (Inl e, s')
      | Inr (call, intent) \<Rightarrow> (case spill_result env io sid run result (ts_artifacts s) of
          (Inl e, st) \<Rightarrow> (Inl e, s'\<lparr>ts_artifacts := st\<rparr>)
        | (Inr (artifactID, content, structured), st) \<Rightarrow>
            let name = (if rs_Name result = [] then mc_Name call else rs_Name result);
                observations = fileObservations env name (mc_Arguments call) (rs_Structured result) (\<not> rs_IsError result);
                record = \<lparr>trc_SessionID = [], trc_RunID = run, trc_ToolCallID = callID, trc_AnchorSequence = 0, trc_Name = name,
                  trc_Arguments = [], trc_State = (if rs_IsError result then ToolFailed else ToolCompleted), trc_Content = content,
                  trc_Structured = structured, trc_ArtifactID = artifactID, trc_Observations = observations, trc_StartedAt = 0,
                  trc_CompletedAt = so_created io\<rparr>
            in case FinishToolRecord (so_record_load io) (so_record io) (so_created io) (so_high io) sid record (ts_rows s) of
              (Inl e, rows) \<Rightarrow> (Inl (ClaimError e), s'\<lparr>ts_rows := rows, ts_artifacts := st\<rparr>)
            | (Inr stored, rows) \<Rightarrow> (case persistToolObservation env io sid run intent stored rows st of
                (Inl e, st) \<Rightarrow> (Inl e, s'\<lparr>ts_rows := rows, ts_artifacts := st\<rparr>)
              | (Inr _, st) \<Rightarrow> (Inr (mc_Arguments call, name), s'\<lparr>ts_rows := rows, ts_artifacts := st\<rparr>))))"

end
