(* ===== verification/Tool_Timeline_Theorems.thy ===== *)
theory Tool_Timeline_Theorems
  imports Tool_Timeline Claim_Witnesses
begin

text \<open>
  What the durable timeline of tool calls promises: a call that has finished stays finished, a call is
  interrupted and restarted only as its states allow, what is recorded of a finished call is a valid
  observation, a restored intent is the one that was stored, and guidance decides every active intent.
\<close>

section \<open>The records of calls\<close>

definition no_calls :: call_world where
  "no_calls = \<lparr>cw_rows = [], cw_pending = []\<rparr>"

lemma no_calls_ok: "world_ok no_calls"
  by (simp add: world_ok_def calls_ok_def no_calls_def tget_def table_ok_def)

lemma finish_commit_settles:
  assumes "finish_commit io record t = (Inr r, t')" and "trc_State record \<noteq> ToolRunning"
  shows "\<exists>row. tget t' (call_key record) = Some row \<and> sameTerminalToolRecord row record"
  using assms by (auto simp: finish_commit_def sameTerminalToolRecord_def complete_row_def split: option.split_asm if_split_asm)

text \<open>C11. Once the transaction that finishes a call has succeeded, with the call completed, failed or in
  need of reconciliation, the record of the call has the state, name, content, structured result and
  artifact it was finished with for ever after: whatever starts, finishes, interruptions and crashes of
  any clients follow, on this call or on others, loading it returns that outcome.\<close>

theorem finished_call_durable:
  assumes "call_reach no_calls w" and "record \<in> set (cw_pending w)"
    and "finish_commit io record (cw_rows w) = (Inr r, t)" and "trc_State record \<noteq> ToolInterrupted"
    and "call_reach (w\<lparr>cw_rows := t, cw_pending := remove1 record (cw_pending w)\<rparr>) w'"
  shows "\<exists>row. LoadToolRecord (trc_SessionID record) (trc_RunID record) (trc_ToolCallID record) (cw_rows w') = Some row \<and>
     sameTerminalToolRecord row record"
proof -
  let ?v = "w\<lparr>cw_rows := t, cw_pending := remove1 record (cw_pending w)\<rparr>"
  have w: "world_ok w" using call_reach_ok [OF assms(1) no_calls_ok] .
  have v: "world_ok ?v" using call_step_ok [OF call_step.commit [OF assms(2,3)] w] by blast
  have fin: "terminal_state (trc_State record)" using w assms(2) by (simp add: world_ok_def)
  then have "trc_State record \<noteq> ToolRunning" using running_not_terminal by metis
  from finish_commit_settles [OF assms(3) this] obtain row where
    row: "tget t (call_key record) = Some row" "sameTerminalToolRecord row record" by blast
  have "settled_state (trc_State row)"
    using row(2) fin assms(4) by (simp add: settled_state_def sameTerminalToolRecord_def)
  with settled_stays [OF assms(5) v] row(1) have "tget (cw_rows w') (call_key record) = Some row" by simp
  with row(2) show ?thesis by (simp add: LoadToolRecord_def call_key_def)
qed

definition ex_new_call :: call_record where
  "ex_new_call = \<lparr>trc_SessionID = [], trc_RunID = ''r'', trc_ToolCallID = ''c'', trc_AnchorSequence = 0, trc_Name = ''coding.read_file'',
     trc_Arguments = [], trc_State = [], trc_Content = [], trc_Structured = [], trc_ArtifactID = [], trc_Observations = [],
     trc_StartedAt = 5, trc_CompletedAt = 0\<rparr>"

definition ex_call_result :: call_record where
  "ex_call_result = ex_new_call\<lparr>trc_State := ToolCompleted, trc_Content := ''ok'', trc_StartedAt := 0, trc_CompletedAt := 7\<rparr>"

definition ex_call_done :: call_record where
  "ex_call_done = ex_call_result\<lparr>trc_SessionID := ''s'', trc_AnchorSequence := 4, trc_Arguments := ''{}'', trc_Structured := ''null'',
     trc_StartedAt := 5\<rparr>"

definition ex_started_rows :: call_records where
  "ex_started_rows = snd (startToolRecord None 6 4 ''s'' ex_new_call None [])"

definition ex_planned :: call_world where
  "ex_planned = \<lparr>cw_rows = ex_started_rows, cw_pending = [ex_call_done]\<rparr>"

definition ex_finished :: call_world where
  "ex_finished = \<lparr>cw_rows = snd (finish_commit None ex_call_done ex_started_rows), cw_pending = []\<rparr>"

definition ex_interrupted_late :: call_world where
  "ex_interrupted_late = ex_finished\<lparr>cw_rows := snd (InterruptRunningToolRecordsForRun None 9 ''r'' 9 (cw_rows ex_finished))\<rparr>"

lemma ex_reach_started: "call_reach no_calls \<lparr>cw_rows = ex_started_rows, cw_pending = []\<rparr>"
proof -
  have "startToolRecord None 6 4 ''s'' ex_new_call None (cw_rows no_calls) = (fst (startToolRecord None 6 4 ''s'' ex_new_call None []), ex_started_rows)"
    by (simp add: ex_started_rows_def no_calls_def)
  from call_reach.step [OF call_reach.refl call_step.start [OF this]] show ?thesis by (simp add: no_calls_def)
qed

lemma ex_plan_step: "finish_plan None None 7 4 ''s'' ex_call_result ex_started_rows = (Complete ex_call_done, ex_started_rows)"
  by code_simp

lemma ex_reach_planned: "call_reach no_calls ex_planned"
proof -
  have "finish_plan None None 7 4 ''s'' ex_call_result (cw_rows \<lparr>cw_rows = ex_started_rows, cw_pending = []\<rparr>) = (Complete ex_call_done, ex_started_rows)"
    using ex_plan_step by simp
  from call_reach.step [OF ex_reach_started call_step.plan [OF this]] show ?thesis by (simp add: ex_planned_def)
qed

lemma ex_commit_step: "finish_commit None ex_call_done (cw_rows ex_planned) = (Inr ex_call_done, cw_rows ex_finished)"
  by code_simp

lemma ex_reach_late: "call_reach ex_finished ex_interrupted_late"
  using call_reach.step [OF call_reach.refl call_step.interrupt [OF surjective_pairing]]
  by (simp add: ex_interrupted_late_def)

theorem finished_call_durable_witness:
  "\<exists>row. LoadToolRecord ''s'' ''r'' ''c'' (cw_rows ex_interrupted_late) = Some row \<and> sameTerminalToolRecord row ex_call_done"
proof -
  have "ex_planned\<lparr>cw_rows := cw_rows ex_finished, cw_pending := remove1 ex_call_done (cw_pending ex_planned)\<rparr> = ex_finished"
    by (simp add: ex_planned_def ex_finished_def)
  with ex_reach_late have "call_reach (ex_planned\<lparr>cw_rows := cw_rows ex_finished, cw_pending := remove1 ex_call_done (cw_pending ex_planned)\<rparr>)
    ex_interrupted_late" by simp
  from finished_call_durable [OF ex_reach_planned _ ex_commit_step _ this] show ?thesis
    by (simp add: ex_planned_def ex_call_done_def ex_call_result_def ex_new_call_def tool_states)
qed

text \<open>C18. In every history of calls, whichever clients take part, one operation changes the row of a call
  only as its life allows: a row appears as running and is never removed; a running row becomes
  completed, failed, interrupted or in need of reconciliation and keeps its anchor, its start and its
  arguments; only an interrupted row runs again, with its anchor and without its old result.\<close>

theorem tool_call_lifecycle:
  assumes "call_reach no_calls w" and "call_step w w'"
  shows "row_advances (tget (cw_rows w) k) (tget (cw_rows w') k)"
  using call_step_ok [OF assms(2) call_reach_ok [OF assms(1) no_calls_ok]] by blast

theorem tool_call_lifecycle_witness:
  "row_advances (tget (cw_rows ex_planned) (''s'', ''r'', ''c'')) (tget (cw_rows ex_finished) (''s'', ''r'', ''c''))"
proof -
  have mem: "ex_call_done \<in> set (cw_pending ex_planned)" by (simp add: ex_planned_def)
  have "ex_planned\<lparr>cw_rows := cw_rows ex_finished, cw_pending := remove1 ex_call_done (cw_pending ex_planned)\<rparr> = ex_finished"
    by (simp add: ex_planned_def ex_finished_def)
  with call_step.commit [OF mem ex_commit_step] have "call_step ex_planned ex_finished" by simp
  from tool_call_lifecycle [OF ex_reach_planned this] show ?thesis .
qed

section \<open>Observations\<close>

lemma strip_one_keeps:
  "strip_one qs s = Some r \<Longrightarrow> \<forall>q \<in> set qs. \<forall>b \<in> set q. \<not> (33 \<le> b \<and> b \<le> 126) \<Longrightarrow> c \<in> set s \<Longrightarrow> printable c \<Longrightarrow> c \<in> set r"
proof (induction qs)
  case (Cons q qs)
  show ?case
  proof (cases "strip_prefix q s")
    case None
    with Cons show ?thesis by simp
  next
    case (Some r')
    with Cons.prems(1) have "r' = r" by simp
    with Some obtain p where p: "s = p @ r" "map of_char p = q" by (auto simp: strip_prefix_iff)
    have "c \<notin> set p"
    proof
      assume "c \<in> set p"
      then have "of_char c \<in> set q" using p(2) by auto
      with Cons.prems(2,4) show False by (auto simp: printable_def)
    qed
    with p Cons.prems(3) show ?thesis by simp
  qed
qed simp

lemma trim_left_keeps:
  "\<forall>q \<in> set qs. \<forall>b \<in> set q. \<not> (33 \<le> b \<and> b \<le> 126) \<Longrightarrow> c \<in> set s \<Longrightarrow> printable c \<Longrightarrow> c \<in> set (trim_left qs s)"
proof (induction qs s rule: trim_left.induct)
  case (1 qs s)
  show ?case
  proof (cases "strip_one qs s")
    case None
    with 1 show ?thesis by (simp add: trim_left_id)
  next
    case (Some r)
    with strip_one_keeps [OF Some] 1 show ?thesis by (subst trim_left.simps) auto
  qed
qed

lemma not_blank_printable: "c \<in> set s \<Longrightarrow> printable c \<Longrightarrow> \<not> blank s"
proof -
  have q: "\<forall>q \<in> set space_seqs. \<forall>b \<in> set q. \<not> (33 \<le> b \<and> b \<le> 126)"
    "\<forall>q \<in> set (map rev space_seqs). \<forall>b \<in> set q. \<not> (33 \<le> b \<and> b \<le> 126)" by (simp_all add: space_seqs_def)
  assume "c \<in> set s" "printable c"
  with trim_left_keeps [OF q(1)] trim_left_keeps [OF q(2)] have "c \<in> set (TrimSpace s)" by (simp add: TrimSpace_def)
  then show ?thesis by (auto simp: blank_def)
qed

lemma relative_not_blank: "validRelativePath p \<Longrightarrow> \<not> blank p"
  unfolding blank_def by (rule notI) (simp add: validRelativePath_def path_Clean_def)

lemma digest_no_nul: "validateDigest d = None \<Longrightarrow> CHR 0x00 \<notin> set d"
proof -
  assume "validateDigest d = None"
  then have "d = [] \<or> list_all lower_hex d" by (simp add: validateDigest_def split: if_split_asm)
  moreover have "\<not> lower_hex (CHR 0x00)" by (simp add: lower_hex_def)
  ultimately show ?thesis by (auto simp only: list_all_iff list.set empty_iff)
qed

lemma file_key_inj:
  assumes "validateDigest (of_SHA256 a) = None" and "validateDigest (of_SHA256 b) = None"
    and "sourceKey (file_source a) = sourceKey (file_source b)"
  shows "of_Path a = of_Path b"
proof -
  have tail: "p = q" if "p @ CHR 0x00 # s = q @ CHR 0x00 # t" "CHR 0x00 \<notin> set s" "CHR 0x00 \<notin> set t" for p q s t :: string
    using that by (auto simp: append_eq_append_conv2 append_eq_Cons_conv Cons_eq_append_conv)
  have "(of_Path a @ [CHR 0x00]) @ CHR 0x00 # of_SHA256 a = (of_Path b @ [CHR 0x00]) @ CHR 0x00 # of_SHA256 b"
    using assms(3) by (simp add: sourceKey_def file_source_def)
  from tail [OF this digest_no_nul [OF assms(1)] digest_no_nul [OF assms(2)]] show ?thesis by simp
qed

lemma files_distinct:
  "distinct (map of_Path fs) \<Longrightarrow> \<forall>ob \<in> set fs. validateDigest (of_SHA256 ob) = None \<and> P ob \<Longrightarrow>
     distinct (map sourceKey (map file_source fs))"
proof (induction fs)
  case (Cons ob fs)
  have "sourceKey (file_source ob) \<noteq> sourceKey (file_source a)" if "a \<in> set fs" for a
    using file_key_inj [of ob a] Cons.prems that by force
  then have "sourceKey (file_source ob) \<notin> set (map sourceKey (map file_source fs))" by force
  with Cons show ?case by simp
qed simp

lemma sources_valid:
  "\<forall>s \<in> set ss. validateSourceDigest s = None \<Longrightarrow> distinct (map sourceKey ss) \<Longrightarrow> set seen \<inter> sourceKey ` set ss = {} \<Longrightarrow>
     validate_source_list seen ss = None"
  by (induction ss arbitrary: seen) auto

lemma first_error_none: "\<forall>e \<in> set errors. e = None \<Longrightarrow> first_error errors = None"
  by (simp add: first_error_def split: option.split) (metis find_Some_iff nth_mem)

lemma bound_valid:
  assumes "f \<in> set (bindBeforeHashes (normalizeFileObservations obs) source)"
    and "\<forall>ob \<in> set obs. validateDigest (of_SHA256 ob) = None" and "\<forall>g \<in> set source. validateDigest (rf_SHA256 g) = None"
  shows "validate_observed_file f = None"
proof -
  have nil: "validateDigest [] = None" by (simp add: validateDigest_def)
  obtain ob where ob: "ob \<in> set obs" "validRelativePath (TrimSpace (of_Path ob))"
    and f: "f = (let f = normalize_observation ob in if fo_State f = ''modified'' \<or> fo_State f = ''deleted''
       then f\<lparr>fo_BeforeSHA256 := (case last_by rf_Path source (fo_Path f) of Some g \<Rightarrow> rf_SHA256 g | None \<Rightarrow> [])\<rparr> else f)"
    using assms(1) by (auto simp: bindBeforeHashes_def normalizeFileObservations_def Let_def)
  have sha: "validateDigest (of_SHA256 ob) = None" using ob(1) assms(2) by blast
  have prior: "validateDigest (case last_by rf_Path source p of Some g \<Rightarrow> rf_SHA256 g | None \<Rightarrow> []) = None" for p
    using last_by_in assms(3) nil by (fastforce split: option.split)
  show ?thesis
    using f ob(2) sha prior nil
    by (simp add: validate_observed_file_def normalize_observation_def Let_def oneOf_def)
qed

definition record_observable :: "call_record \<Rightarrow> bool" where
  "record_observable r \<longleftrightarrow> trc_SessionID r \<noteq> [] \<and> trc_RunID r \<noteq> [] \<and> (trc_ArtifactID r = [] \<or> \<not> blank (trc_ArtifactID r)) \<and>
     distinct (map of_Path (trc_Observations r)) \<and> list_all (\<lambda>ob. validateDigest (of_SHA256 ob) = None) (trc_Observations r)"

lemma ball_three: "P x \<Longrightarrow> list_all P ys \<Longrightarrow> (\<And>z. z \<in> set zs \<Longrightarrow> P (f z)) \<Longrightarrow> \<forall>s \<in> set (x # ys @ map f zs). P s"
  by (auto simp: list_all_iff)

lemma distinct_three: "x \<notin> set ys \<Longrightarrow> x \<notin> set zs \<Longrightarrow> set ys \<inter> set zs = {} \<Longrightarrow> distinct ys \<Longrightarrow> distinct zs \<Longrightarrow> distinct (x # ys @ zs)"
  by simp

lemma observation_sources_valid:
  assumes "record_observable r" and "validateDigest raw = None"
  shows "validateCriterionSources (\<lparr>sr_Kind = ''tool_record'', sr_ID = Join [trc_SessionID r, trc_RunID r, trc_ToolCallID r] '':'', sr_Range = [],
      sr_SHA256 = raw\<rparr> # (if trc_ArtifactID r \<noteq> []
        then [\<lparr>sr_Kind = ''artifact'', sr_ID = trc_ArtifactID r, sr_Range = [], sr_SHA256 = []\<rparr>] else []) @
      map file_source (filter (\<lambda>ob. of_Path ob \<noteq> [] \<and> validRelativePath (of_Path ob)) (trc_Observations r))) = None"
    (is "validateCriterionSources (?raw # ?art @ map file_source ?files) = None")
proof -
  have obs: "distinct (map of_Path ?files)" "\<forall>ob \<in> set ?files. validateDigest (of_SHA256 ob) = None \<and> validRelativePath (of_Path ob)"
    using assms(1) by (auto simp: record_observable_def list_all_iff distinct_map_filter)
  have "printable (CHR '':'')" "printable (CHR ''t'')" "printable (CHR ''a'')" "printable (CHR ''f'')" by code_simp+
  then have kinds: "\<not> blank ''tool_record''" "\<not> blank ''artifact''" "\<not> blank ''file''"
    and id: "\<not> blank (Join [trc_SessionID r, trc_RunID r, trc_ToolCallID r] '':'')"
    using not_blank_printable [of "CHR '':''" "Join [trc_SessionID r, trc_RunID r, trc_ToolCallID r] '':''"]
      not_blank_printable [of "CHR ''t''" "''tool_record''"] not_blank_printable [of "CHR ''a''" "''artifact''"]
      not_blank_printable [of "CHR ''f''" "''file''"] by simp_all
  have nil: "validateDigest [] = None" by (simp add: validateDigest_def)
  have fs: "validateSourceDigest (file_source ob) = None" if "ob \<in> set ?files" for ob
  proof -
    from that obs(2) have ob: "validateDigest (of_SHA256 ob) = None" "\<not> blank (of_Path ob)"
      using relative_not_blank by blast+
    then show ?thesis by (simp add: validateSourceDigest_def validate_source_def file_source_def kinds(3))
  qed
  have rs: "validateSourceDigest ?raw = None"
    using assms(2) kinds(1) id by (simp add: validateSourceDigest_def validate_source_def)
  have arts: "list_all (\<lambda>s. validateSourceDigest s = None) ?art"
  proof (cases "trc_ArtifactID r = []")
    case False
    then have "\<not> blank (trc_ArtifactID r)" using assms(1) unfolding record_observable_def by blast
    then show ?thesis by (simp add: validateSourceDigest_def validate_source_def kinds(2) nil)
  qed simp
  have valid: "\<forall>s \<in> set (?raw # ?art @ map file_source ?files). validateSourceDigest s = None"
    using rs arts by (rule ball_three [where P = "\<lambda>s. validateSourceDigest s = None"]) (rule fs)
  have files: "distinct (map sourceKey (map file_source ?files))"
    using files_distinct obs by blast
  have kind_of: "hd (sourceKey (file_source ob)) = CHR ''f''" for ob by (simp add: sourceKey_def file_source_def)
  have raw: "hd (sourceKey ?raw) = CHR ''t''" by (simp add: sourceKey_def)
  have art: "list_all (\<lambda>s. hd (sourceKey s) = CHR ''a'') ?art" "distinct (map sourceKey ?art)" by (simp_all add: sourceKey_def)
  have files_f: "hd x = CHR ''f''" if "x \<in> set (map sourceKey (map file_source ?files))" for x
    using that kind_of by fastforce
  have arts_a: "hd x = CHR ''a''" if "x \<in> set (map sourceKey ?art)" for x
    using that art(1) unfolding list_all_iff set_map by blast
  have differ: "CHR ''t'' \<noteq> CHR ''a''" "CHR ''t'' \<noteq> CHR ''f''" "CHR ''a'' \<noteq> CHR ''f''" by simp_all
  have apart1: "sourceKey ?raw \<notin> set (map sourceKey ?art)" using arts_a [of "sourceKey ?raw"] raw differ(1) by argo
  have apart2: "sourceKey ?raw \<notin> set (map sourceKey (map file_source ?files))" using files_f [of "sourceKey ?raw"] raw differ(2) by argo
  have "x \<notin> set (map sourceKey (map file_source ?files))" if "x \<in> set (map sourceKey ?art)" for x
    using arts_a [OF that] files_f [of x] differ(3) by argo
  then have apart3: "set (map sourceKey ?art) \<inter> set (map sourceKey (map file_source ?files)) = {}" unfolding disjoint_iff by blast
  have "distinct (map sourceKey (?raw # ?art @ map file_source ?files))"
    unfolding list.map(2) map_append by (rule distinct_three [OF apart1 apart2 apart3 art(2) files])
  from sources_valid [OF valid this] show ?thesis unfolding validateCriterionSources_def by simp
qed


text \<open>C17. Whatever a tool did - succeeded, failed, timed out, was interrupted, left nothing, or wrote a
  result too long to keep - the observation made of its finished record is accepted by the contract, as
  long as the files it recorded are listed once and the digests are digests: no such call can fail the
  run for its bookkeeping after it has been stored as finished.\<close>

theorem observation_accepted:
  assumes "\<forall>text. validateDigest (ce_sha (contract_of env) text) = None" and "record_observable record"
    and "list_all (\<lambda>f. validateDigest (rf_SHA256 f) = None) (wr_Files source)"
  shows "validate_observation (observation_of env source current intent record) = None"
proof -
  let ?o = "observation_of env source current intent record"
  have raw: "validateDigest (rawToolResultHash (contract_of env) (trc_Content record) (trc_Structured record)) = None"
    using assms(1) by (simp add: rawToolResultHash_def)
  have id: "\<not> blank (Join [trc_SessionID record, trc_RunID record, trc_ToolCallID record] '':'')" "\<not> blank ''tool_record''"
    by (rule not_blank_printable [of "CHR '':''"], simp, code_simp, rule not_blank_printable [of "CHR ''t''"], simp, code_simp)
  have sources: "validateCriterionSources (oe_Sources ?o) = None"
    using observation_sources_valid [OF assms(2) raw]
    by (simp add: observation_of_def NormalizeToolObservation_def Let_def split_def)
  have files: "\<forall>f \<in> set (oe_Files ?o). validate_observed_file f = None"
    using bound_valid [of _ "trc_Observations record" "wr_Files source"] assms(2,3)
    by (simp add: observation_of_def NormalizeToolObservation_def Let_def split_def record_observable_def list_all_iff)
  have meta: "requireV1 (oe_Version ?o) (oe_ID ?o) = None" "oe_SessionID ?o \<noteq> []" "oe_RunID ?o \<noteq> []"
    "oneOf (oe_Status ?o) [''completed'', ''failed'', ''timeout'', ''cancelled'', ''unknown'']"
    "oneOf (oe_ContentPresence ?o) [''present'', ''empty'', ''missing'']"
    "oneOf (oe_Truncation ?o) [''none'', ''truncated'', ''spilled'', ''unknown'']"
    "oneOf (oe_SchemaValidity ?o) [''valid'', ''invalid'', ''unknown'']"
    "oneOf (oe_Retryability ?o) [''retryable'', ''terminal'', ''unknown'']"
    "validateDigest (oe_RawSHA256 ?o) = None" "(case oe_RawRef ?o of None \<Rightarrow> None | Some r \<Rightarrow> validate_source r) = None"
    using assms(2) raw id
    by (simp_all add: observation_of_def NormalizeToolObservation_def Let_def split_def record_observable_def requireV1_def
      oneOf_def normalizeToolStatus_def structuredValidity_def validate_source_def)
  with sources files have "first_error ([validateDigest (oe_RawSHA256 ?o), case oe_RawRef ?o of None \<Rightarrow> None | Some r \<Rightarrow> validate_source r,
      validateCriterionSources (oe_Sources ?o)] @ map validate_observed_file (oe_Files ?o)) = None"
    by (intro first_error_none) auto
  with meta show ?thesis unfolding validate_observation_def by (simp only: option.case if_False simp_thms)
qed

section \<open>A run\<close>

definition ex_tool_input :: tool_input where
  "ex_tool_input = \<lparr>ti_Path = [], ti_Paths = [''m.txt'', ''/w/m.txt''], ti_Input = [], ti_StartLine = 0, ti_EndLine = 0, ti_OutputPath = []\<rparr>"

definition ex_timeline_env :: timeline_env where
  "ex_timeline_env = \<lparr>tv_evidence = ex_evidence\<lparr>ev_contract := ex_answer_contract\<lparr>ce_sha := (\<lambda>_. hash_b)\<rparr>\<rparr>,
     tv_blocks = pj_Blocks ex_projection, tv_todo = ex_no_todo, tv_created = 2, tv_json_valid = (\<lambda>_. True), tv_exit = (\<lambda>_. None),
     tv_input = (\<lambda>_. ex_tool_input), tv_section_paths = (\<lambda>_. None), tv_payload = (\<lambda>_. Some []), tv_utf8 = (\<lambda>_. True),
     tv_workspace = ''/w'', tv_abs = Some ''/w'', tv_resolve = Some, tv_file = (\<lambda>_. Inr (Some ''x'')), tv_disposition_json = (\<lambda>_. ''D'')\<rparr>"

definition ex_formatted :: call_record where
  "ex_formatted = \<lparr>trc_SessionID = ''s'', trc_RunID = ''r'', trc_ToolCallID = ''c'', trc_AnchorSequence = 0, trc_Name = ''coding.write_file'',
     trc_Arguments = [], trc_State = ToolCompleted, trc_Content = ''ok'', trc_Structured = [], trc_ArtifactID = [],
     trc_Observations = [\<lparr>of_Path = ''m.txt'', of_Operation = ''write'', of_SHA256 = hash_b, of_StartLine = 0, of_EndLine = 0, of_ErrorCode = []\<rparr>],
     trc_StartedAt = 5, trc_CompletedAt = 7\<rparr>"

theorem observation_accepted_witness:
  "validate_observation (observation_of ex_timeline_env ex_answer_revision ex_answer_revision no_intent ex_formatted) = None"
proof (rule observation_accepted)
  have "validateDigest hash_b = None" by code_simp
  then show "\<forall>text. validateDigest (ce_sha (contract_of ex_timeline_env) text) = None"
    by (simp add: contract_of_def ex_timeline_env_def)
  show "record_observable ex_formatted" by code_simp
  show "list_all (\<lambda>f. validateDigest (rf_SHA256 f) = None) (wr_Files ex_answer_revision)" by code_simp
qed


section \<open>Intents\<close>

text \<open>The rows of one kind; what is stored under another kind leaves them.\<close>

definition kind_rows :: "string \<Rightarrow> string \<Rightarrow> artifacts \<Rightarrow> artifact list" where
  "kind_rows sid kind st = filter (\<lambda>r. art_SessionID r = sid \<and> art_Kind r = kind) (as_Rows st)"

lemma put_other: "PutArtifact env io now st s run k payload = (r, st') \<Longrightarrow> k \<noteq> kind \<Longrightarrow> kind_rows sid kind st' = kind_rows sid kind st"
  by (auto simp: PutArtifact_def kind_rows_def Let_def split: if_split_asm option.split_asm)

lemma store_save_other:
  "store_save env io now s run k invalid payload st = (r, st') \<Longrightarrow> k \<noteq> kind \<Longrightarrow> kind_rows sid kind st' = kind_rows sid kind st"
  by (auto simp: store_save_def split: option.split_asm prod.split_asm sum.split_asm dest: put_other)

lemma save_bound_other:
  "save_bound env lio io now s run bound k invalid payload st = (r, st') \<Longrightarrow> InternalArtifactKindPrefix @ k \<noteq> kind \<Longrightarrow>
     kind_rows sid kind st' = kind_rows sid kind st"
  by (auto simp: save_bound_def split: sum.split_asm dest: store_save_other)

lemma put_changed_other:
  "putEvidenceArtifactIfChanged env lio io now s run k payload st = (r, st') \<Longrightarrow> k \<noteq> kind \<Longrightarrow>
     kind_rows sid kind st' = kind_rows sid kind st"
  by (auto simp: putEvidenceArtifactIfChanged_def split: prod.split_asm sum.split_asm if_split_asm dest: put_other)

lemma save_revision_other:
  "SaveRevision env io now s run revision st = (r, st') \<Longrightarrow> revisionArtifactKind env (wr_ID revision) \<noteq> kind \<Longrightarrow>
     kind_rows sid kind st' = kind_rows sid kind st"
  by (auto simp: SaveRevision_def split: if_split_asm dest: store_save_other)

lemma save_plan_other:
  "SaveVerificationPlan env lio io now s run plan st = (r, st') \<Longrightarrow>
     InternalArtifactKindPrefix @ ''verification_plan_v1:'' @ shortID env (vp_ID plan) \<noteq> kind \<Longrightarrow>
     kind_rows sid kind st' = kind_rows sid kind st"
  by (auto simp: SaveVerificationPlan_def split: if_split_asm dest: save_bound_other)

lemma then_do_other:
  assumes "then_do r f = (u, st')" and "kind_rows sid kind (snd r) = rows"
    and "\<And>s u s'. f s = (u, s') \<Longrightarrow> kind_rows sid kind s' = kind_rows sid kind s"
  shows "kind_rows sid kind st' = rows"
  using assms by (cases r; cases "fst r") (auto simp: then_do_def)

definition intent_kind :: "contract_env \<Rightarrow> string \<Rightarrow> string" where
  "intent_kind env i = InternalArtifactKindPrefix @ ''action_intent_v1:'' @ shortID env i"

lemma intent_kind_other:
  "revisionArtifactKind env r \<noteq> intent_kind env i" "InternalArtifactKindPrefix @ ''work_spec_v1:'' @ x \<noteq> intent_kind env i"
  "InternalArtifactKindPrefix @ ''verification_plan_v1:'' @ x \<noteq> intent_kind env i"
  "InternalArtifactKindPrefix @ ''verification_plan_v1_live:'' @ x \<noteq> intent_kind env i"
  by (simp_all add: intent_kind_def revisionArtifactKind_def revisionArtifactPrefix_def)

lemma contracts_other:
  assumes "persistRuntimeContracts env lio io now s run work revision plan st = (r, st')"
  shows "kind_rows sid (intent_kind env i) st' = kind_rows sid (intent_kind env i) st"
proof -
  let ?k = "kind_rows sid (intent_kind env i)"
  let ?first = "case LatestRevision env lio s st of
      Inr latest \<Rightarrow> if wr_ID latest \<noteq> wr_ID revision then SaveRevision env io now s run revision st else (Inr (), st)
    | Inl _ \<Rightarrow> SaveRevision env io now s run revision st"
  have first: "?k (snd ?first) = ?k st"
    using save_revision_other [OF surjective_pairing intent_kind_other(1)] by (simp split: sum.split)
  have later: "?k (snd (then_do a f)) = ?k st"
    if "?k (snd a) = ?k st" "\<And>s u s'. f s = (u, s') \<Longrightarrow> ?k s' = ?k s" for a f
    using then_do_other [OF surjective_pairing that(1)] that(2) by blast
  show ?thesis
  proof (cases "blank s \<or> blank run")
    case False
    have "st' = snd (then_do (then_do (then_do ?first
        (putEvidenceArtifactIfChanged env lio io now s run
          (InternalArtifactKindPrefix @ ''work_spec_v1:'' @ shortEvidenceHash env (ws_ID work)) (ce_spec_json env work)))
        (SaveVerificationPlan env lio io now s run plan))
        (putEvidenceArtifactIfChanged env lio io now s run
          (InternalArtifactKindPrefix @ ''verification_plan_v1_live:'' @ shortEvidenceHash env (vp_ID plan)) (ce_plan_json env plan)))"
      using assms False unfolding persistRuntimeContracts_def by (simp only: if_False snd_conv)
    also have "?k \<dots> = ?k st"
      by (intro later first put_changed_other save_plan_other) (assumption | rule intent_kind_other)+
    finally show ?thesis .
  qed (use assms in \<open>auto simp: persistRuntimeContracts_def\<close>)
qed

text \<open>C25. The intent of a call survives the process that announced it: when a call whose intent was never
  stored before is announced successfully, reading the intent back by the call's session, run, identifier and
  name - as finishing does after a restart - gives that very intent, bound to the revision the call was
  announced under.\<close>

theorem intent_restored:
  assumes "persistToolIntent env io sid run call rows st = (Inr intent, st')"
    and "ce_intent_decode (contract_of env) (ce_intent_json (contract_of env) intent) = Some intent"
    and "kind_rows sid (intent_kind (contract_of env) (intent_id (contract_of env) sid run call)) st = []"
  shows "loadToolIntent (contract_of env) None sid run call st' = Inr intent"
proof -
  let ?c = "contract_of env" let ?id = "intent_id ?c sid run call"
  obtain snap where snap: "run_snapshot env io sid run rows = Inr snap"
    using assms(1) by (auto simp: persistToolIntent_def split: sum.split_asm)
  obtain u st1 where contracts: "persistRuntimeContracts ?c (so_load io) (so_put io) (so_now io) sid run (es_work snap)
      (es_revision snap) (es_plan snap) st = (Inr u, st1)"
    using assms(1) snap by (auto simp: persistToolIntent_def Let_def split: sum.split_asm prod.split_asm)
  have save: "SaveIntent ?c (so_load io) (so_put io) (so_now io) sid run intent st1 = (Inr (), st')"
    and id: "ai_ID intent = ?id"
    using assms(1) snap contracts
    by (auto simp: persistToolIntent_def Let_def BindIntent_def split: sum.split_asm prod.split_asm option.split_asm if_split_asm)
  have bound: "ai_SessionID intent = sid" "ai_RunID intent = run" using save by (auto simp: SaveIntent_def split: if_split_asm)
  have ids: "\<not> blank sid" "\<not> blank run"
    using contracts by (auto simp: persistRuntimeContracts_def split: if_split_asm)
  obtain res where put: "PutArtifact ?c (so_put io) (so_now io) st1 sid run (intent_kind ?c ?id) (ce_intent_json ?c intent) = (Inr res, st')"
    using save id unfolding SaveIntent_def save_bound_def store_save_def intent_kind_def
    by (auto split: if_split_asm sum.split_asm prod.split_asm option.split_asm)
  have "kind_rows sid (intent_kind ?c ?id) st1 = []" using contracts_other [OF contracts] assms(3) by simp
  then have "\<forall>r \<in> set (as_Rows st1). \<not> (art_SessionID r = sid \<and> art_Kind r = intent_kind ?c ?id)"
    by (simp add: kind_rows_def filter_empty_conv)
  with put_then_latest [OF put] obtain row where
    "LoadLatestArtifactByKind ?c None st' sid (intent_kind ?c ?id) = Inr (row, ce_intent_json ?c intent)" by blast
  with assms(2) id bound ids show ?thesis
    by (simp add: loadToolIntent_def Intent_def intent_kind_def)
qed

definition ex_next_call :: tool_call where
  "ex_next_call = \<lparr>mc_ID = ''3'', mc_Name = ''coding.gofmt'', mc_Arguments = []\<rparr>"

definition ex_run_row :: "string \<Rightarrow> string \<Rightarrow> string \<Rightarrow> time \<Rightarrow> call_record" where
  "ex_run_row i tool op t = ex_formatted\<lparr>trc_ToolCallID := i, trc_Name := tool, trc_Content := [],
     trc_Observations := [\<lparr>of_Path = ''m.txt'', of_Operation = op, of_SHA256 = hash_b, of_StartLine = 0, of_EndLine = 0, of_ErrorCode = []\<rparr>],
     trc_StartedAt := t, trc_CompletedAt := t + 1\<rparr>"

definition ex_run_rows :: call_records where
  "ex_run_rows = [((''s'', ''r'', ''1''), ex_run_row ''1'' ''coding.write_file'' ''write'' 4),
     ((''s'', ''r'', ''2''), ex_run_row ''2'' ''coding.read_file'' ''read'' 6)]"

definition ex_intent :: action_intent where
  "ex_intent = \<lparr>ai_Version = 1, ai_ID = intent_id ex_answer_contract ''s'' ''r'' ex_next_call, ai_WorkSpecID = ws_ID ex_answer_work,
     ai_SessionID = ''s'', ai_RunID = ''r'', ai_AgentID = [], ai_ToolCallID = ''3'', ai_Kind = ''tool'', ai_Name = ''coding.gofmt'',
     ai_ArgumentsHash = [], ai_RevisionID = wr_ID ex_answer_revision, ai_SnapshotHash = wr_SnapshotHash ex_answer_revision,
     ai_Sources = [es_goalSource ex_answer_snap], ai_CreatedAt = 10\<rparr>"

definition ex_intent_env :: timeline_env where
  "ex_intent_env = ex_timeline_env\<lparr>tv_evidence := ex_evidence\<lparr>ev_contract := ex_answer_contract\<lparr>ce_intent_json := (\<lambda>_. ''I''),
     ce_intent_decode := (\<lambda>p. if p = ''I'' then Some ex_intent else None)\<rparr>\<rparr>\<rparr>"

definition ex_store_io :: store_io where
  "ex_store_io = \<lparr>so_load = None, so_put = None, so_record_load = None, so_record = None, so_high = 0, so_clock = (9, 10), so_created = 10,
     so_now = 11\<rparr>"

theorem intent_restored_witness:
  "loadToolIntent (contract_of ex_intent_env) None ''s'' ''r'' ex_next_call
     (snd (persistToolIntent ex_intent_env ex_store_io ''s'' ''r'' ex_next_call ex_run_rows no_artifacts)) = Inr ex_intent"
proof (rule intent_restored)
  have "fst (persistToolIntent ex_intent_env ex_store_io ''s'' ''r'' ex_next_call ex_run_rows no_artifacts) = Inr ex_intent"
    by code_simp
  then show "persistToolIntent ex_intent_env ex_store_io ''s'' ''r'' ex_next_call ex_run_rows no_artifacts =
    (Inr ex_intent, snd (persistToolIntent ex_intent_env ex_store_io ''s'' ''r'' ex_next_call ex_run_rows no_artifacts))"
    by (simp add: prod_eq_iff)
  show "ce_intent_decode (contract_of ex_intent_env) (ce_intent_json (contract_of ex_intent_env) ex_intent) = Some ex_intent"
    by (simp add: ex_intent_env_def contract_of_def)
  show "kind_rows ''s'' (intent_kind (contract_of ex_intent_env) (intent_id (contract_of ex_intent_env) ''s'' ''r'' ex_next_call)) no_artifacts = []"
    by (simp add: kind_rows_def no_artifacts_def)
qed

section \<open>Guidance\<close>

text \<open>C26. When the constraints of the user change, every active intent is decided, in order: work whose
  constraints are still those of the present revision continues; obsolete work is cancelled only where
  cancelling is safe and its cancellation succeeded; all other obsolete work goes on with its result
  to be quarantined. Every decision names the revisions it compared and keeps the terminal evidence, and
  cancellation is asked for exactly the obsolete intents that may be cancelled, once each and in order.\<close>

theorem guidance_sound:
  assumes "HandleGuidance env json current active cancel now = (Inr ds, called)"
  shows "list_all2 (guided current cancel) active ds \<and>
    called = map (\<lambda>w. ai_ID (av_Intent w)) (filter (\<lambda>w. wr_ConstraintDigest (av_SourceRevision w) \<noteq> wr_ConstraintDigest current \<and>
      av_CancelSafe w \<and> cancel \<noteq> None) active)"
proof -
  have "guide_loop env json now current cancel active = (Inr ds, called)"
    using assms by (simp add: HandleGuidance_def split: option.split_asm if_split_asm)
  from guide_loop_sound [OF this] show ?thesis by (simp add: guide_asked)
qed

definition ex_guidance_env :: contract_env where
  "ex_guidance_env = ex_answer_contract\<lparr>ce_constraints_json := (\<lambda>cs. concat (map cr_Text cs))\<rparr>"

definition ex_guided_revision :: "criterion list \<Rightarrow> work_revision" where
  "ex_guided_revision cs = (case Derive ex_guidance_env ((ex_derive [ex_file ''m.go'' (CHR ''a'')])\<lparr>dr_ExplicitConstraints := cs\<rparr>) of
     Inr r \<Rightarrow> r | Inl _ \<Rightarrow> ex_answer_revision)"

definition ex_active :: "string \<Rightarrow> criterion list \<Rightarrow> bool \<Rightarrow> active_intent" where
  "ex_active i cs safe = (let r = ex_guided_revision cs in
     \<lparr>av_Intent = ex_intent\<lparr>ai_ID := i, ai_RevisionID := wr_ID r, ai_SnapshotHash := wr_SnapshotHash r\<rparr>, av_SourceRevision = r, av_CancelSafe = safe\<rparr>)"

definition ex_actives :: "active_intent list" where
  "ex_actives = [ex_active ''a'' [ex_answer_criterion] True, ex_active ''b'' [] True, ex_active ''c'' [] False, ex_active ''d'' [] True]"

definition ex_guidance :: "(claim_error + guidance_decision list) \<times> string list" where
  "ex_guidance = HandleGuidance ex_guidance_env (\<lambda>(i, r, a). i) (ex_guided_revision [ex_answer_criterion]) ex_actives
     (Some (\<lambda>i. if i = ''d'' then Some ''busy'' else None)) 12"

lemma ex_guidance_decides:
  "map_sum (\<lambda>_. ()) (map gd_Action) (fst ex_guidance) =
     Inr [GuidanceContinue, GuidanceCancel, GuidanceContinueQuarantine, GuidanceContinueQuarantine]"
  by code_simp

theorem guidance_sound_witness: "snd ex_guidance = [''b'', ''d'']"
proof -
  obtain ds where "fst ex_guidance = Inr ds" using ex_guidance_decides by (cases "fst ex_guidance") auto
  then have "HandleGuidance ex_guidance_env (\<lambda>(i, r, a). i) (ex_guided_revision [ex_answer_criterion]) ex_actives
     (Some (\<lambda>i. if i = ''d'' then Some ''busy'' else None)) 12 = (Inr ds, snd ex_guidance)"
    by (simp add: ex_guidance_def prod_eq_iff)
  from guidance_sound [OF this] have "snd ex_guidance = map (\<lambda>w. ai_ID (av_Intent w)) (filter (\<lambda>w.
      wr_ConstraintDigest (av_SourceRevision w) \<noteq> wr_ConstraintDigest (ex_guided_revision [ex_answer_criterion]) \<and> av_CancelSafe w) ex_actives)"
    by simp
  also have "\<dots> = [''b'', ''d'']" by code_simp
  finally show ?thesis .
qed

section \<open>The status of a run\<close>

definition ex_status_contract :: contract_env where
  "ex_status_contract = ex_answer_contract\<lparr>ce_sha := (\<lambda>s. take 64 ((if CHR 0x00 \<in> set s then drop 50 s else s) @ replicate 64 (CHR ''0'')))\<rparr>"

text \<open>The evidence status of a run cannot return to a value it had. The status is stored as an artifact
  and the latest artifact is the status, but storing an artifact whose content is already stored under
  its kind keeps the row that is there, with its old time: a run that was verified, then stale, then
  verified again is read back as stale.\<close>

theorem status_not_restored:
  "let persist = (\<lambda>status now st. snd (persistRunEvidenceStatus ex_status_contract (\<lambda>(_, _, s). s) None None now ''s'' ''r'' status st));
       load = loadRunEvidenceStatus ex_status_contract (\<lambda>p. Some (1, ''r'', p)) None ''s'' ''r''
   in load (persist ''verified'' 1 no_artifacts) = ''verified'' \<and>
      load (persist ''stale'' 2 (persist ''verified'' 1 no_artifacts)) = ''stale'' \<and>
      load (persist ''verified'' 3 (persist ''stale'' 2 (persist ''verified'' 1 no_artifacts))) = ''stale''"
  by code_simp

end
