(* ===== verification/Todo_Plan.thy ===== *)
theory Todo_Plan
  imports Work_Evidence
begin

text \<open>
  The durable plan of a session, \<^verbatim>\<open>internal/session/todo.go\<close> on the table \<^verbatim>\<open>session_todos\<close>, with the
  tool that maintains it (\<^verbatim>\<open>app/todo_tool.go\<close>) and its other writers: the plan of a Cursor provider
  (\<^verbatim>\<open>app/cursor_exec_host.go\<close>), the RPC command \<^verbatim>\<open>set_todos\<close> (\<^verbatim>\<open>rpc/server.go\<close>) and the assignment of an
  item to a subagent (\<^verbatim>\<open>app/subagent_tools.go\<close>).

  \<open>lower\<close> is \<^verbatim>\<open>strings.ToLower\<close>, \<open>fresh\<close> the sequence of random identifiers, \<open>io\<close> an error of the database,
  when there is one. A revision counts updates.
\<close>

section \<open>Data\<close>

definition TodoPending :: string where "TodoPending = ''pending''"
definition TodoInProgress :: string where "TodoInProgress = ''in_progress''"
definition TodoCompleted :: string where "TodoCompleted = ''completed''"
definition TodoCancelled :: string where "TodoCancelled = ''cancelled''"

lemmas todo_states = TodoPending_def TodoInProgress_def TodoCompleted_def TodoCancelled_def

datatype todo_error = TodoError string | ErrTodoRevisionConflict

type_synonym todos = "(string, todo_list) table"

definition todo_items :: "todo_phase list \<Rightarrow> todo_item list" where
  "todo_items phases = concat (map phase_Items phases)"

section \<open>Normalization\<close>

record todo_norm =
  tn_ids :: "string list"
  tn_phases :: "string list"
  tn_contents :: "string list"
  tn_inProgress :: nat
  tn_next :: nat

definition todo_norm0 :: todo_norm where
  "todo_norm0 = \<lparr>tn_ids = [], tn_phases = [], tn_contents = [], tn_inProgress = 0, tn_next = 0\<rparr>"

text \<open>An identifier that is there, or the next random one.\<close>

definition todoID :: "(nat \<Rightarrow> string) \<Rightarrow> string \<Rightarrow> string \<Rightarrow> todo_norm \<Rightarrow> string \<times> todo_norm" where
  "todoID fresh kind i n = (if i = [] then (kind @ ''-'' @ fresh (tn_next n), n\<lparr>tn_next := Suc (tn_next n)\<rparr>) else (i, n))"

definition normalize_item ::
  "(string \<Rightarrow> string) \<Rightarrow> (nat \<Rightarrow> string) \<Rightarrow> todo_item \<Rightarrow> todo_norm \<Rightarrow> todo_error + todo_item \<times> todo_norm" where
  "normalize_item lower fresh item n =
     (let content = TrimSpace (item_Content item); key = lower content; (i, n') = todoID fresh ''item'' (item_ID item) n;
          status = (if item_Status item = [] then TodoPending else item_Status item)
      in if content = [] then Inl (TodoError ''todo item content is required'')
         else if key \<in> set (tn_contents n) then Inl (TodoError ''duplicate todo item'')
         else if i \<in> set (tn_ids n) then Inl (TodoError ''duplicate todo ID'')
         else if status \<notin> {TodoPending, TodoCompleted, TodoCancelled, TodoInProgress} then Inl (TodoError ''invalid todo status'')
         else Inr (item\<lparr>item_ID := i, item_Content := content, item_Status := status\<rparr>,
           n'\<lparr>tn_contents := key # tn_contents n, tn_ids := i # tn_ids n,
             tn_inProgress := tn_inProgress n + (if status = TodoInProgress then 1 else 0)\<rparr>))"

fun normalize_items ::
  "(string \<Rightarrow> string) \<Rightarrow> (nat \<Rightarrow> string) \<Rightarrow> todo_item list \<Rightarrow> todo_norm \<Rightarrow> todo_error + todo_item list \<times> todo_norm" where
  "normalize_items lower fresh [] n = Inr ([], n)"
| "normalize_items lower fresh (item # items) n =
     bindE (normalize_item lower fresh item n) (\<lambda>(item', n').
     bindE (normalize_items lower fresh items n') (\<lambda>(items', n''). Inr (item' # items', n'')))"

definition normalize_phase ::
  "(string \<Rightarrow> string) \<Rightarrow> (nat \<Rightarrow> string) \<Rightarrow> todo_phase \<Rightarrow> todo_norm \<Rightarrow> todo_error + todo_phase \<times> todo_norm" where
  "normalize_phase lower fresh phase n =
     (let title = TrimSpace (phase_Title phase); key = lower title; (i, n') = todoID fresh ''phase'' (phase_ID phase) n
      in if title = [] then Inl (TodoError ''todo phase title is required'')
         else if key \<in> set (tn_phases n) then Inl (TodoError ''duplicate todo phase'')
         else if i \<in> set (tn_ids n) then Inl (TodoError ''duplicate todo ID'')
         else bindE (normalize_items lower fresh (phase_Items phase) (n'\<lparr>tn_phases := key # tn_phases n, tn_ids := i # tn_ids n\<rparr>))
           (\<lambda>(items, n''). Inr (phase\<lparr>phase_ID := i, phase_Title := title, phase_Items := items\<rparr>, n'')))"

fun normalize_phases ::
  "(string \<Rightarrow> string) \<Rightarrow> (nat \<Rightarrow> string) \<Rightarrow> todo_phase list \<Rightarrow> todo_norm \<Rightarrow> todo_error + todo_phase list \<times> todo_norm" where
  "normalize_phases lower fresh [] n = Inr ([], n)"
| "normalize_phases lower fresh (phase # phases) n =
     bindE (normalize_phase lower fresh phase n) (\<lambda>(phase', n').
     bindE (normalize_phases lower fresh phases n') (\<lambda>(phases', n''). Inr (phase' # phases', n'')))"

definition normalizeTodo :: "(string \<Rightarrow> string) \<Rightarrow> (nat \<Rightarrow> string) \<Rightarrow> todo_list \<Rightarrow> todo_error + todo_list" where
  "normalizeTodo lower fresh todo =
     bindE (normalize_phases lower fresh (todo_Phases todo) todo_norm0) (\<lambda>(phases, n).
       if tn_inProgress n > 1 then Inl (TodoError ''only one todo item may be in progress'')
       else Inr (todo\<lparr>todo_Phases := phases\<rparr>))"

section \<open>The store\<close>

definition no_todo :: todo_list where
  "no_todo = \<lparr>todo_Goal = [], todo_Revision = 0, todo_Phases = [], todo_UpdatedAt = 0\<rparr>"

definition stored_todo :: "string \<Rightarrow> todos \<Rightarrow> todo_list" where
  "stored_todo sid t = (case tget t sid of None \<Rightarrow> no_todo | Some row \<Rightarrow> row)"

definition LoadTodo :: "string option \<Rightarrow> string \<Rightarrow> todos \<Rightarrow> todo_error + todo_list" where
  "LoadTodo io sid t = (case io of Some e \<Rightarrow> Inl (TodoError e) | None \<Rightarrow> Inr (stored_todo sid t))"

text \<open>Reading and the compare-and-swap are one transaction; the callback works on a copy.\<close>

definition UpdateTodo ::
  "(string \<Rightarrow> string) \<Rightarrow> (nat \<Rightarrow> string) \<Rightarrow> string option \<Rightarrow> time \<Rightarrow> string \<Rightarrow> int \<Rightarrow> (todo_list \<Rightarrow> todo_error + todo_list) \<Rightarrow>
     todos \<Rightarrow> (todo_error + todo_list) \<times> todos" where
  "UpdateTodo lower fresh io now sid expectedRevision fn t =
     (case io of Some e \<Rightarrow> (Inl (TodoError e), t)
      | None \<Rightarrow>
          let current = stored_todo sid t in
          if todo_Revision current \<noteq> expectedRevision then (Inl ErrTodoRevisionConflict, t)
          else case bindE (fn current) (normalizeTodo lower fresh) of
            Inl e \<Rightarrow> (Inl e, t)
          | Inr new \<Rightarrow>
              let new = new\<lparr>todo_Revision := todo_Revision new + 1, todo_UpdatedAt := now\<rparr>;
                  (changed, t') = (if tget t sid \<noteq> None then tupdate_where sid (\<lambda>row. todo_Revision row = expectedRevision) new t
                    else tinsert_ignore (\<lambda>_. False) sid new t)
              in if changed \<noteq> 1 then (Inl ErrTodoRevisionConflict, t) else (Inr new, t'))"

section \<open>Operations on a plan\<close>

record todo_op_input =
  tin_Op :: string
  tin_ExpectedRevision :: "int option"
  tin_Goal :: string
  tin_Phases :: "todo_phase list"
  tin_ItemID :: string
  tin_PhaseID :: string
  tin_Content :: string

text \<open>The first item that satisfies a predicate is changed.\<close>

fun change_item :: "(todo_item \<Rightarrow> bool) \<Rightarrow> (todo_item \<Rightarrow> todo_item) \<Rightarrow> todo_item list \<Rightarrow> todo_item list" where
  "change_item p f [] = []"
| "change_item p f (x # xs) = (if p x then f x # xs else x # change_item p f xs)"

fun change_first :: "(todo_item \<Rightarrow> bool) \<Rightarrow> (todo_item \<Rightarrow> todo_item) \<Rightarrow> todo_phase list \<Rightarrow> todo_phase list" where
  "change_first p f [] = []"
| "change_first p f (ph # phs) =
     (if list_ex p (phase_Items ph) then ph\<lparr>phase_Items := change_item p f (phase_Items ph)\<rparr> # phs else ph # change_first p f phs)"

definition set_status :: "(todo_item \<Rightarrow> bool) \<Rightarrow> string \<Rightarrow> todo_list \<Rightarrow> todo_list" where
  "set_status p status todo = todo\<lparr>todo_Phases := change_first p (\<lambda>i. i\<lparr>item_Status := status\<rparr>) (todo_Phases todo)\<rparr>"

definition advanceNext :: "todo_list \<Rightarrow> todo_list" where
  "advanceNext todo = set_status (\<lambda>i. item_Status i = TodoPending) TodoInProgress todo"

definition hasInProgress :: "todo_list \<Rightarrow> bool" where
  "hasInProgress todo \<longleftrightarrow> list_ex (\<lambda>i. item_Status i = TodoInProgress) (todo_items (todo_Phases todo))"

definition find_item :: "string \<Rightarrow> todo_list \<Rightarrow> todo_error + todo_item" where
  "find_item i todo = (case List.find (\<lambda>x. item_ID x = i) (todo_items (todo_Phases todo)) of
     None \<Rightarrow> Inl (TodoError ''todo item not found'') | Some x \<Rightarrow> Inr x)"

definition host_assigned :: "todo_phase list \<Rightarrow> todo_error option" where
  "host_assigned phases =
     (let item_error = (\<lambda>item. if item_ID item \<noteq> [] then Some (TodoError ''todo item IDs are host-assigned'')
            else if item_Status item \<noteq> [] then Some (TodoError ''todo item status is host-assigned'')
            else if item_SubagentRunID item \<noteq> [] then Some (TodoError ''subagentRunId is owned by subagent.spawn'') else None);
          phase_errors = (\<lambda>ph. (if phase_ID ph \<noteq> [] then Some (TodoError ''todo phase IDs are host-assigned'') else None)
            # map item_error (phase_Items ph))
      in case List.find (\<lambda>e. e \<noteq> None) (concat (map phase_errors phases)) of None \<Rightarrow> None | Some e \<Rightarrow> e)"

definition todo_init :: "todo_op_input \<Rightarrow> todo_list \<Rightarrow> todo_error + todo_list" where
  "todo_init input todo =
     (if blank (tin_Goal input) then Inl (TodoError ''goal is required'')
      else if length (tin_Phases input) = 0 then Inl (TodoError ''at least one todo phase is required'')
      else case host_assigned (tin_Phases input) of Some e \<Rightarrow> Inl e
      | None \<Rightarrow> Inr (advanceNext (todo\<lparr>todo_Goal := tin_Goal input,
          todo_Phases := map (\<lambda>ph. ph\<lparr>phase_Items := map (\<lambda>i. i\<lparr>item_Status := TodoPending\<rparr>) (phase_Items ph)\<rparr>) (tin_Phases input)\<rparr>)))"

definition todo_start :: "todo_op_input \<Rightarrow> todo_list \<Rightarrow> todo_error + todo_list" where
  "todo_start input todo = bindE (find_item (tin_ItemID input) todo) (\<lambda>item.
     if list_ex (\<lambda>other. item_Status other = TodoInProgress \<and> item_ID other \<noteq> item_ID item) (todo_items (todo_Phases todo))
     then Inl (TodoError ''todo item is already in progress'')
     else if item_Status item \<noteq> TodoPending then Inl (TodoError ''only pending items can start'')
     else Inr (set_status (\<lambda>i. item_ID i = tin_ItemID input) TodoInProgress todo))"

definition todo_done :: "todo_op_input \<Rightarrow> todo_list \<Rightarrow> todo_error + todo_list" where
  "todo_done input todo = bindE (find_item (tin_ItemID input) todo) (\<lambda>item.
     if item_Status item \<noteq> TodoInProgress then Inl (TodoError ''only the current item can be completed'')
     else Inr (advanceNext (set_status (\<lambda>i. item_ID i = tin_ItemID input) TodoCompleted todo)))"

definition todo_cancel :: "todo_op_input \<Rightarrow> todo_list \<Rightarrow> todo_error + todo_list" where
  "todo_cancel input todo = bindE (find_item (tin_ItemID input) todo) (\<lambda>item.
     if item_Status item = TodoCompleted \<or> item_Status item = TodoCancelled then Inl (TodoError ''todo item is already closed'')
     else let todo' = set_status (\<lambda>i. item_ID i = tin_ItemID input) TodoCancelled todo
       in Inr (if item_Status item = TodoInProgress then advanceNext todo' else todo'))"

fun append_item :: "string \<Rightarrow> todo_item \<Rightarrow> todo_phase list \<Rightarrow> todo_phase list option" where
  "append_item i item [] = None"
| "append_item i item (ph # phs) =
     (if phase_ID ph = i then Some (ph\<lparr>phase_Items := phase_Items ph @ [item]\<rparr> # phs)
      else map_option ((#) ph) (append_item i item phs))"

definition todo_append :: "todo_op_input \<Rightarrow> todo_list \<Rightarrow> todo_error + todo_list" where
  "todo_append input todo =
     (let content = TrimSpace (tin_Content input) in
      if content = [] then Inl (TodoError ''content is required'')
      else case append_item (tin_PhaseID input)
          \<lparr>item_ID = [], item_Content = content, item_Status = TodoPending, item_SubagentRunID = []\<rparr> (todo_Phases todo) of
        None \<Rightarrow> Inl (TodoError ''todo phase not found'')
      | Some phases \<Rightarrow>
          let todo' = todo\<lparr>todo_Phases := phases\<rparr> in Inr (if \<not> hasInProgress todo' then advanceNext todo' else todo'))"

fun remove_first :: "(todo_item \<Rightarrow> bool) \<Rightarrow> todo_item list \<Rightarrow> todo_item list" where
  "remove_first p [] = []"
| "remove_first p (x # xs) = (if p x then xs else x # remove_first p xs)"

fun remove_item :: "(todo_item \<Rightarrow> bool) \<Rightarrow> todo_phase list \<Rightarrow> todo_phase list" where
  "remove_item p [] = []"
| "remove_item p (ph # phs) =
     (if list_ex p (phase_Items ph) then ph\<lparr>phase_Items := remove_first p (phase_Items ph)\<rparr> # phs else ph # remove_item p phs)"

fun remove_phase :: "string \<Rightarrow> todo_phase list \<Rightarrow> todo_phase list" where
  "remove_phase i [] = []"
| "remove_phase i (ph # phs) = (if phase_ID ph = i then phs else ph # remove_phase i phs)"

definition todo_remove :: "todo_op_input \<Rightarrow> todo_list \<Rightarrow> todo_error + todo_list" where
  "todo_remove input todo =
     (let missing = Inl (TodoError ''item_id or phase_id not found'') in
      if tin_ItemID input \<noteq> [] then
        (case find_item (tin_ItemID input) todo of Inl _ \<Rightarrow> missing
         | Inr item \<Rightarrow> if item_Status item = TodoInProgress then Inl (TodoError ''cannot remove current item'')
             else Inr (todo\<lparr>todo_Phases := remove_item (\<lambda>i. item_ID i = tin_ItemID input) (todo_Phases todo)\<rparr>))
      else if tin_PhaseID input \<noteq> [] then
        (case List.find (\<lambda>ph. phase_ID ph = tin_PhaseID input) (todo_Phases todo) of None \<Rightarrow> missing
         | Some ph \<Rightarrow> if list_ex (\<lambda>i. item_Status i = TodoInProgress) (phase_Items ph)
             then Inl (TodoError ''cannot remove phase with current item'')
             else Inr (todo\<lparr>todo_Phases := remove_phase (tin_PhaseID input) (todo_Phases todo)\<rparr>))
      else missing)"

definition applyTodoOp :: "todo_op_input \<Rightarrow> todo_list \<Rightarrow> todo_error + todo_list" where
  "applyTodoOp input todo =
     (let op = tin_Op input in
      if op = ''init'' then todo_init input todo
      else if op = ''start'' then todo_start input todo
      else if op = ''done'' then todo_done input todo
      else if op = ''cancel'' then todo_cancel input todo
      else if op = ''append'' then todo_append input todo
      else if op = ''remove'' then todo_remove input todo
      else Inl (TodoError ''unsupported todo op''))"

section \<open>The tool\<close>

text \<open>A call fails, or returns the plan, with the outcome of verification where it was asked for.\<close>

datatype todo_result = TodoFailed todo_error | TodoSnapshot todo_list | TodoPreview todo_list "string option"

definition todoResult :: "todo_error + todo_list \<Rightarrow> todo_result" where
  "todoResult r = (case r of Inl e \<Rightarrow> TodoFailed e | Inr todo \<Rightarrow> TodoSnapshot todo)"

text \<open>\<open>gate\<close> is the verification callback with its answer, when the run has one. A call consults it at most once.\<close>

definition verificationPreview :: "string option option \<Rightarrow> todo_list \<Rightarrow> todo_result" where
  "verificationPreview gate todo =
     (case gate of None \<Rightarrow> TodoFailed (TodoError ''verification is unavailable for this run'') | Some e \<Rightarrow> TodoPreview todo e)"

definition todo_input_op :: "todo_op_input \<Rightarrow> todo_op_input" where
  "todo_input_op input =
     (if blank (tin_Op input) \<and> \<not> blank (tin_Goal input) \<and> length (tin_Phases input) > 0 then input\<lparr>tin_Op := ''init''\<rparr> else input)"

text \<open>The checks of a completion before the update: an answer, or go on.\<close>

definition before_done :: "string option \<Rightarrow> string option option \<Rightarrow> string \<Rightarrow> int \<Rightarrow> todo_op_input \<Rightarrow> todos \<Rightarrow> todo_error option" where
  "before_done lio gate sid expectedRevision input t =
     (if tin_Op input = ''done'' \<and> gate \<noteq> None then
        (case LoadTodo lio sid t of Inl e \<Rightarrow> Some e
         | Inr current \<Rightarrow>
             if todo_Revision current \<noteq> expectedRevision then Some ErrTodoRevisionConflict
             else case applyTodoOp input current of Inl e \<Rightarrow> Some e
             | Inr new \<Rightarrow> if length (incompleteTodoItems new) = 0 then map_option TodoError (the gate) else None)
      else None)"

text \<open>What a call does before its update: it is answered, or goes on to update an expected revision.\<close>

datatype todo_step = Answered todo_result | GoesOn int todo_op_input

definition todo_prepare :: "string option \<Rightarrow> string option option \<Rightarrow> string \<Rightarrow> todo_op_input option \<Rightarrow> todos \<Rightarrow> todo_step" where
  "todo_prepare lio gate sid arguments t =
     (case arguments of None \<Rightarrow> Answered (TodoFailed (TodoError ''decode arguments''))
      | Some input \<Rightarrow>
          let input = todo_input_op input in
          if blank (tin_Op input) then Answered (TodoFailed (TodoError ''op is required unless goal and phases define init''))
          else if tin_Op input = ''view'' \<or> tin_Op input = ''verify'' then
            (case LoadTodo lio sid t of Inl e \<Rightarrow> Answered (TodoFailed e)
             | Inr todo \<Rightarrow> Answered (if tin_Op input = ''verify'' then verificationPreview gate todo else TodoSnapshot todo))
          else case (case tin_ExpectedRevision input of Some n \<Rightarrow> Inr n
              | None \<Rightarrow> if tin_Op input = ''init'' then bindE (LoadTodo lio sid t) (\<lambda>current. Inr (todo_Revision current))
                  else Inl (TodoError ''expected_revision is required'')) of
            Inl e \<Rightarrow> Answered (TodoFailed e)
          | Inr expectedRevision \<Rightarrow> (case before_done lio gate sid expectedRevision input t of
              Some e \<Rightarrow> Answered (TodoFailed e) | None \<Rightarrow> GoesOn expectedRevision input))"

definition todo_commit ::
  "(string \<Rightarrow> string) \<Rightarrow> (nat \<Rightarrow> string) \<Rightarrow> string option \<Rightarrow> string option option \<Rightarrow> time \<Rightarrow> string \<Rightarrow> int \<Rightarrow> todo_op_input \<Rightarrow>
     todos \<Rightarrow> todo_result \<times> todos" where
  "todo_commit lower fresh io gate now sid expectedRevision input t =
     (case UpdateTodo lower fresh io now sid expectedRevision (applyTodoOp input) t of
        (Inr todo, t') \<Rightarrow>
          (if tin_Op input = ''done'' \<and> length (incompleteTodoItems todo) = 1 \<and> gate \<noteq> None then verificationPreview gate todo
           else TodoSnapshot todo, t')
      | (Inl e, t') \<Rightarrow> (TodoFailed e, t'))"

text \<open>Between reading the plan and updating it other writers may change it: \<open>t\<close> is the store the call reads, \<open>u\<close> the one it
  updates. The plan that is emitted as an event is the one of the result.\<close>

definition todo_Execute ::
  "(string \<Rightarrow> string) \<Rightarrow> (nat \<Rightarrow> string) \<Rightarrow> string option \<Rightarrow> string option \<Rightarrow> string option option \<Rightarrow> time \<Rightarrow> string \<Rightarrow>
     todo_op_input option \<Rightarrow> todos \<Rightarrow> todos \<Rightarrow> todo_result \<times> todos" where
  "todo_Execute lower fresh lio io gate now sid arguments t u =
     (case todo_prepare lio gate sid arguments t of
        Answered r \<Rightarrow> (r, u)
      | GoesOn expectedRevision input \<Rightarrow> todo_commit lower fresh io gate now sid expectedRevision input u)"

section \<open>Other writers\<close>

fun cursor_items :: "nat \<Rightarrow> (string \<times> string \<times> string) list \<Rightarrow> todo_item list" where
  "cursor_items n [] = []"
| "cursor_items n ((i, content, status) # items) =
     (let i = TrimSpace i; i = (if i = [] then ''cursor-'' @ FormatInt (int n + 1) else i) in
      \<lparr>item_ID = i, item_Content = content, item_Status = status, item_SubagentRunID = []\<rparr> # cursor_items (Suc n) items)"

definition cursor_plan :: "todo_item list \<Rightarrow> todo_list \<Rightarrow> todo_error + todo_list" where
  "cursor_plan items todo = Inr (todo\<lparr>todo_Goal := (if blank (todo_Goal todo) \<and> length items > 0 then ''Cursor task plan'' else todo_Goal todo),
     todo_Phases := (if length items = 0 then [] else [\<lparr>phase_ID = ''cursor'', phase_Title = ''Cursor'', phase_Items = items\<rparr>])\<rparr>)"

text \<open>Here, too, \<open>t\<close> is read and \<open>u\<close> updated.\<close>

definition syncTodos ::
  "(string \<Rightarrow> string) \<Rightarrow> (nat \<Rightarrow> string) \<Rightarrow> string option \<Rightarrow> string option \<Rightarrow> time \<Rightarrow> string \<Rightarrow> (string \<times> string \<times> string) list \<Rightarrow>
     string \<Rightarrow> todos \<Rightarrow> todos \<Rightarrow> (todo_error + todo_list) \<times> todos" where
  "syncTodos lower fresh lio io now sid snapshot providerError t u =
     (if \<not> blank providerError then (Inl (TodoError providerError), u)
      else case LoadTodo lio sid t of Inl e \<Rightarrow> (Inl e, u)
      | Inr current \<Rightarrow>
          UpdateTodo lower fresh io now sid (todo_Revision current) (cursor_plan (cursor_items 0 snapshot)) u)"

definition set_todos ::
  "(string \<Rightarrow> string) \<Rightarrow> (nat \<Rightarrow> string) \<Rightarrow> string option \<Rightarrow> string option \<Rightarrow> time \<Rightarrow> string \<Rightarrow> string \<Rightarrow> todo_phase list \<Rightarrow>
     todos \<Rightarrow> todos \<Rightarrow> (todo_error + todo_list) \<times> todos" where
  "set_todos lower fresh lio io now sid goal phases t u =
     (case LoadTodo lio sid t of Inl e \<Rightarrow> (Inl e, u)
      | Inr current \<Rightarrow> UpdateTodo lower fresh io now sid (todo_Revision current)
          (\<lambda>todo. Inr (todo\<lparr>todo_Goal := goal, todo_Phases := phases\<rparr>)) u)"

definition prepareSubagentTodoBinding :: "string option \<Rightarrow> string \<Rightarrow> string \<Rightarrow> todos \<Rightarrow> todo_error + int" where
  "prepareSubagentTodoBinding lio sid itemID t =
     (let itemID = TrimSpace itemID in if itemID = [] then Inr 0 else
      bindE (LoadTodo lio sid t) (\<lambda>todo. bindE (find_item itemID todo) (\<lambda>item.
       if item_Status item \<noteq> TodoPending \<and> item_Status item \<noteq> TodoInProgress then Inl (TodoError ''todo item is closed'')
       else if item_SubagentRunID item \<noteq> [] then Inl (TodoError ''todo item is already assigned'')
       else Inr (todo_Revision todo))))"

definition assign_item :: "string \<Rightarrow> string \<Rightarrow> todo_list \<Rightarrow> todo_error + todo_list" where
  "assign_item itemID runID todo = bindE (find_item itemID todo) (\<lambda>item.
     if item_SubagentRunID item \<noteq> [] then Inl (TodoError ''todo item is already assigned'')
     else Inr (todo\<lparr>todo_Phases := change_first (\<lambda>i. item_ID i = itemID) (\<lambda>i. i\<lparr>item_SubagentRunID := runID\<rparr>) (todo_Phases todo)\<rparr>))"

definition commitSubagentTodoBinding ::
  "(string \<Rightarrow> string) \<Rightarrow> (nat \<Rightarrow> string) \<Rightarrow> string option \<Rightarrow> time \<Rightarrow> string \<Rightarrow> string \<Rightarrow> string \<Rightarrow> int \<Rightarrow> todos \<Rightarrow>
     (todo_error + todo_list) \<times> todos" where
  "commitSubagentTodoBinding lower fresh io now sid itemID runID expectedRevision t =
     UpdateTodo lower fresh io now sid expectedRevision (assign_item itemID runID) t"

end
