(* ===== verification/Todo_Plan_Theorems.thy ===== *)
theory Todo_Plan_Theorems
  imports Todo_Plan
begin

text \<open>
  What the durable plan promises, whichever of its writers interleave: stored plans are well formed, a
  tool leaves no plan without a current item, only one of the writers that read a revision wins, and
  the tool closes a plan only after its verification passed.
\<close>

section \<open>Normalized plans\<close>

definition status_or_pending :: "string \<Rightarrow> string" where
  "status_or_pending s = (if s = [] then TodoPending else s)"

definition normalized_item :: "todo_item \<Rightarrow> todo_item \<Rightarrow> bool" where
  "normalized_item item item' \<longleftrightarrow> item_Content item' = TrimSpace (item_Content item) \<and> item_Content item' \<noteq> [] \<and>
     item_Status item' = status_or_pending (item_Status item) \<and> item_SubagentRunID item' = item_SubagentRunID item \<and>
     item_Status item' \<in> {TodoPending, TodoCompleted, TodoCancelled, TodoInProgress} \<and> (item_ID item \<noteq> [] \<longrightarrow> item_ID item' = item_ID item)"

definition in_progress :: "todo_item list \<Rightarrow> nat" where
  "in_progress items = length (filter (\<lambda>i. item_Status i = TodoInProgress) items)"

definition norm_ok :: "todo_norm \<Rightarrow> bool" where
  "norm_ok n \<longleftrightarrow> distinct (tn_ids n) \<and> distinct (tn_phases n) \<and> distinct (tn_contents n)"

lemma todoID_frame:
  "todoID fresh kind i n = (i', n') \<Longrightarrow> tn_ids n' = tn_ids n \<and> tn_phases n' = tn_phases n \<and> tn_contents n' = tn_contents n \<and>
     tn_inProgress n' = tn_inProgress n \<and> (i \<noteq> [] \<longrightarrow> i' = i)"
  by (auto simp: todoID_def split: if_split_asm)

lemma normalize_item_norm:
  assumes "normalize_item lower fresh item n = Inr (item', n')" and "norm_ok n"
  shows "normalized_item item item' \<and> norm_ok n' \<and> tn_phases n' = tn_phases n \<and> tn_ids n' = item_ID item' # tn_ids n \<and>
     tn_contents n' = lower (item_Content item') # tn_contents n \<and> tn_inProgress n' = tn_inProgress n + in_progress [item']"
proof -
  obtain i m where m: "todoID fresh ''item'' (item_ID item) n = (i, m)" by fastforce
  from assms(1) show ?thesis
    using assms(2) todoID_frame [OF m]
    by (simp add: normalize_item_def m Let_def normalized_item_def status_or_pending_def norm_ok_def in_progress_def
      split: if_split_asm) auto
qed

lemma normalize_items_norm:
  "normalize_items lower fresh items n = Inr (items', n') \<Longrightarrow> norm_ok n \<Longrightarrow>
     list_all2 normalized_item items items' \<and> norm_ok n' \<and> tn_phases n' = tn_phases n \<and> tn_ids n' = rev (map item_ID items') @ tn_ids n \<and>
     tn_contents n' = rev (map (\<lambda>i. lower (item_Content i)) items') @ tn_contents n \<and> tn_inProgress n' = tn_inProgress n + in_progress items'"
proof (induction items arbitrary: n items' n')
  case (Cons item items)
  from Cons.prems(1) obtain item' m xs where i: "normalize_item lower fresh item n = Inr (item', m)"
    and r: "normalize_items lower fresh items m = Inr (xs, n')" "items' = item' # xs"
    by (auto simp: bindE_eq_Inr)
  from normalize_item_norm [OF i Cons.prems(2)] Cons.IH [OF r(1)] r(2) show ?case by (simp add: in_progress_def)
qed (simp add: in_progress_def)

definition normalized_phase :: "todo_phase \<Rightarrow> todo_phase \<Rightarrow> bool" where
  "normalized_phase ph ph' \<longleftrightarrow> phase_Title ph' = TrimSpace (phase_Title ph) \<and> phase_Title ph' \<noteq> [] \<and>
     list_all2 normalized_item (phase_Items ph) (phase_Items ph')"

definition plan_ids :: "todo_phase list \<Rightarrow> string list" where
  "plan_ids phases = concat (map (\<lambda>ph. phase_ID ph # map item_ID (phase_Items ph)) phases)"

lemma normalize_phase_norm:
  assumes "normalize_phase lower fresh ph n = Inr (ph', n')" and "norm_ok n"
  shows "normalized_phase ph ph' \<and> norm_ok n' \<and> tn_phases n' = lower (phase_Title ph') # tn_phases n \<and>
     tn_ids n' = rev (plan_ids [ph']) @ tn_ids n \<and>
     tn_contents n' = rev (map (\<lambda>i. lower (item_Content i)) (phase_Items ph')) @ tn_contents n \<and>
     tn_inProgress n' = tn_inProgress n + in_progress (phase_Items ph')"
proof -
  obtain i m where m: "todoID fresh ''phase'' (phase_ID ph) n = (i, m)" by fastforce
  let ?m = "m\<lparr>tn_phases := lower (TrimSpace (phase_Title ph)) # tn_phases n, tn_ids := i # tn_ids n\<rparr>"
  from assms(1) m obtain xs where ok: "TrimSpace (phase_Title ph) \<noteq> []" "lower (TrimSpace (phase_Title ph)) \<notin> set (tn_phases n)"
      "i \<notin> set (tn_ids n)"
    and items: "normalize_items lower fresh (phase_Items ph) ?m = Inr (xs, n')"
    and ph': "ph' = ph\<lparr>phase_ID := i, phase_Title := TrimSpace (phase_Title ph), phase_Items := xs\<rparr>"
    by (auto simp: normalize_phase_def Let_def bindE_eq_Inr split: if_split_asm)
  have "norm_ok ?m" using assms(2) ok todoID_frame [OF m] by (simp add: norm_ok_def)
  from normalize_items_norm [OF items this] todoID_frame [OF m] ok(1) ph' show ?thesis
    by (simp add: normalized_phase_def plan_ids_def)
qed

lemma normalize_phases_norm:
  "normalize_phases lower fresh phases n = Inr (phases', n') \<Longrightarrow> norm_ok n \<Longrightarrow>
     list_all2 normalized_phase phases phases' \<and> norm_ok n' \<and>
     tn_phases n' = rev (map (\<lambda>ph. lower (phase_Title ph)) phases') @ tn_phases n \<and> tn_ids n' = rev (plan_ids phases') @ tn_ids n \<and>
     tn_contents n' = rev (map (\<lambda>i. lower (item_Content i)) (todo_items phases')) @ tn_contents n \<and>
     tn_inProgress n' = tn_inProgress n + in_progress (todo_items phases')"
proof (induction phases arbitrary: n phases' n')
  case (Cons ph phases)
  from Cons.prems(1) obtain ph' m xs where p: "normalize_phase lower fresh ph n = Inr (ph', m)"
    and r: "normalize_phases lower fresh phases m = Inr (xs, n')" "phases' = ph' # xs"
    by (auto simp: bindE_eq_Inr)
  from normalize_phase_norm [OF p Cons.prems(2)] Cons.IH [OF r(1)] r(2) show ?case
    by (simp add: in_progress_def todo_items_def plan_ids_def)
qed (simp add: in_progress_def todo_items_def plan_ids_def)

text \<open>A plan that may be stored.\<close>

definition todo_valid :: "(string \<Rightarrow> string) \<Rightarrow> todo_list \<Rightarrow> bool" where
  "todo_valid lower todo \<longleftrightarrow>
     (let phases = todo_Phases todo; items = todo_items phases in
      distinct (plan_ids phases) \<and> distinct (map (\<lambda>ph. lower (phase_Title ph)) phases) \<and> distinct (map (\<lambda>i. lower (item_Content i)) items) \<and>
      (\<forall>ph \<in> set phases. phase_Title ph \<noteq> [] \<and> TrimSpace (phase_Title ph) = phase_Title ph) \<and>
      (\<forall>i \<in> set items. item_Content i \<noteq> [] \<and> TrimSpace (item_Content i) = item_Content i \<and>
         item_Status i \<in> {TodoPending, TodoCompleted, TodoCancelled, TodoInProgress}) \<and>
      in_progress items \<le> 1)"

lemma normalized_item_right:
  "list_all2 normalized_item xs ys \<Longrightarrow> i \<in> set ys \<Longrightarrow> item_Content i \<noteq> [] \<and> TrimSpace (item_Content i) = item_Content i \<and>
     item_Status i \<in> {TodoPending, TodoCompleted, TodoCancelled, TodoInProgress}"
  by (induction xs ys rule: list_all2_induct) (auto simp: normalized_item_def)

lemma normalized_items:
  "list_all2 normalized_phase phases phases' \<Longrightarrow> list_all2 normalized_item (todo_items phases) (todo_items phases')"
  by (induction phases phases' rule: list_all2_induct) (auto simp: todo_items_def normalized_phase_def intro: list_all2_appendI)

lemma normalized_titles:
  "list_all2 normalized_phase phases phases' \<Longrightarrow> ph \<in> set phases' \<Longrightarrow> phase_Title ph \<noteq> [] \<and> TrimSpace (phase_Title ph) = phase_Title ph"
  by (induction phases phases' rule: list_all2_induct) (auto simp: normalized_phase_def)

lemma normalizeTodo_norm:
  assumes "normalizeTodo lower fresh todo = Inr todo'"
  shows "todo_valid lower todo'" "list_all2 normalized_item (todo_items (todo_Phases todo)) (todo_items (todo_Phases todo'))"
    "todo_Revision todo' = todo_Revision todo"
proof -
  from assms obtain phases n where p: "normalize_phases lower fresh (todo_Phases todo) todo_norm0 = Inr (phases, n)"
    and n: "tn_inProgress n \<le> 1" and t: "todo' = todo\<lparr>todo_Phases := phases\<rparr>"
    by (auto simp: normalizeTodo_def bindE_eq_Inr split: if_split_asm)
  have "norm_ok todo_norm0" by (simp add: norm_ok_def todo_norm0_def)
  note norm = normalize_phases_norm [OF p this]
  show "list_all2 normalized_item (todo_items (todo_Phases todo)) (todo_items (todo_Phases todo'))"
    using norm t normalized_items by simp
  then show "todo_valid lower todo'"
    using norm n t normalized_item_right normalized_titles
    by (fastforce simp: todo_valid_def Let_def norm_ok_def todo_norm0_def)
  show "todo_Revision todo' = todo_Revision todo" using t by simp
qed

section \<open>Writers\<close>

lemma UpdateTodo_cases:
  assumes "UpdateTodo lower fresh io now sid n fn t = (r, t')"
  obtains e where "r = Inl e" "t' = t"
    | todo todo' where "fn (stored_todo sid t) = Inr todo" "normalizeTodo lower fresh todo = Inr todo'"
        "todo_Revision (stored_todo sid t) = n" "r = Inr (todo'\<lparr>todo_Revision := todo_Revision todo' + 1, todo_UpdatedAt := now\<rparr>)"
        "t' = tput sid (todo'\<lparr>todo_Revision := todo_Revision todo' + 1, todo_UpdatedAt := now\<rparr>) t"
proof (cases io)
  case (Some e)
  with assms have "r = Inl (TodoError e)" "t' = t" by (simp_all add: UpdateTodo_def)
  then show thesis by (rule that(1))
next
  case None
  show thesis
  proof (cases "todo_Revision (stored_todo sid t) = n")
    case False
    with None assms have "r = Inl ErrTodoRevisionConflict" "t' = t" by (simp_all add: UpdateTodo_def Let_def)
    then show thesis by (rule that(1))
  next
    case rev: True
    show thesis
    proof (cases "bindE (fn (stored_todo sid t)) (normalizeTodo lower fresh)")
      case (Inl e)
      with None rev assms have "r = Inl e" "t' = t" by (simp_all add: UpdateTodo_def Let_def)
      then show thesis by (rule that(1))
    next
      case (Inr todo')
      then obtain todo where todo: "fn (stored_todo sid t) = Inr todo" "normalizeTodo lower fresh todo = Inr todo'"
        by (auto simp: bindE_eq_Inr)
      let ?new = "todo'\<lparr>todo_Revision := todo_Revision todo' + 1, todo_UpdatedAt := now\<rparr>"
      have "(if tget t sid \<noteq> None then tupdate_where sid (\<lambda>row. todo_Revision row = n) ?new t
        else tinsert_ignore (\<lambda>_. False) sid ?new t) = (1, tput sid ?new t)"
        using rev by (cases "tget t sid") (simp_all add: stored_todo_def tupdate_where_def tinsert_ignore_def)
      with None rev Inr assms have "r = Inr ?new" "t' = tput sid ?new t" by (simp_all add: UpdateTodo_def Let_def)
      with todo rev that(2) show thesis by blast
    qed
  qed
qed

definition keeps_revision :: "(todo_list \<Rightarrow> todo_error + todo_list) \<Rightarrow> bool" where
  "keeps_revision fn \<longleftrightarrow> (\<forall>x y. fn x = Inr y \<longrightarrow> todo_Revision y = todo_Revision x)"

lemma set_status_revision [simp]:
  "todo_Revision (set_status p s todo) = todo_Revision todo" "todo_Revision (advanceNext todo) = todo_Revision todo"
  by (simp_all add: set_status_def advanceNext_def)

lemma op_revision:
  "todo_init input x = Inr y \<Longrightarrow> todo_Revision y = todo_Revision x"
  "todo_start input x = Inr y \<Longrightarrow> todo_Revision y = todo_Revision x"
  "todo_done input x = Inr y \<Longrightarrow> todo_Revision y = todo_Revision x"
  "todo_cancel input x = Inr y \<Longrightarrow> todo_Revision y = todo_Revision x"
  "todo_append input x = Inr y \<Longrightarrow> todo_Revision y = todo_Revision x"
  "todo_remove input x = Inr y \<Longrightarrow> todo_Revision y = todo_Revision x"
  subgoal by (auto simp: todo_init_def split: if_split_asm option.split_asm)
  subgoal by (auto simp: todo_start_def bindE_eq_Inr split: if_split_asm)
  subgoal by (auto simp: todo_done_def bindE_eq_Inr split: if_split_asm)
  subgoal by (auto simp: todo_cancel_def bindE_eq_Inr Let_def split: if_split_asm)
  subgoal by (auto simp: todo_append_def Let_def split: if_split_asm option.split_asm)
  subgoal by (auto simp: todo_remove_def Let_def split: if_split_asm option.split_asm sum.split_asm)
  done

text \<open>The operation that is applied.\<close>

lemma applyTodoOp_op:
  assumes "applyTodoOp input x = Inr y"
  obtains "todo_init input x = Inr y" | "todo_start input x = Inr y" | "todo_done input x = Inr y"
    | "todo_cancel input x = Inr y" | "todo_append input x = Inr y" | "todo_remove input x = Inr y"
  using assms unfolding applyTodoOp_def Let_def by (metis Inl_Inr_False)

lemma applyTodoOp_revision: "keeps_revision (applyTodoOp input)"
  unfolding keeps_revision_def by (metis applyTodoOp_op op_revision)

text \<open>One step of a history: the update of a tool call, of the assignment of an item, or - when other writers take part -
  of a Cursor provider or of the RPC command.\<close>

inductive plan_step :: "(string \<Rightarrow> string) \<Rightarrow> bool \<Rightarrow> todos \<Rightarrow> todos \<Rightarrow> bool" for lower :: "string \<Rightarrow> string" and others :: bool where
  tool: "todo_commit lower fresh io gate now sid n input t = (r, t') \<Longrightarrow> plan_step lower others t t'"
| assign: "commitSubagentTodoBinding lower fresh io now sid item run n t = (r, t') \<Longrightarrow> plan_step lower others t t'"
| cursor: "others \<Longrightarrow> syncTodos lower fresh lio io now sid snapshot err old t = (r, t') \<Longrightarrow> plan_step lower others t t'"
| rpc: "others \<Longrightarrow> set_todos lower fresh lio io now sid goal phases old t = (r, t') \<Longrightarrow> plan_step lower others t t'"

inductive todo_reach :: "(string \<Rightarrow> string) \<Rightarrow> bool \<Rightarrow> todos \<Rightarrow> todos \<Rightarrow> bool" for lower :: "string \<Rightarrow> string" and others :: bool where
  refl: "todo_reach lower others t t"
| step: "todo_reach lower others t u \<Longrightarrow> plan_step lower others u v \<Longrightarrow> todo_reach lower others t v"

lemma todo_commit_update:
  "todo_commit lower fresh io gate now sid n input t = (r, t') \<Longrightarrow>
     \<exists>r. UpdateTodo lower fresh io now sid n (applyTodoOp input) t = (r, t')"
  by (auto simp: todo_commit_def split: prod.split_asm sum.split_asm)

lemma writers_keep_revision:
  "keeps_revision (cursor_plan items)" "keeps_revision (assign_item item run)"
  "keeps_revision (\<lambda>todo. Inr (todo\<lparr>todo_Goal := goal, todo_Phases := phases\<rparr>))"
  by (auto simp: keeps_revision_def cursor_plan_def assign_item_def bindE_eq_Inr split: if_split_asm)

lemma syncTodos_update:
  "syncTodos lower fresh lio io now sid snapshot err old t = (r, t') \<Longrightarrow>
     t' = t \<or> (\<exists>n. UpdateTodo lower fresh io now sid n (cursor_plan (cursor_items 0 snapshot)) t = (r, t'))"
  by (cases "LoadTodo lio sid old") (auto simp: syncTodos_def split: if_split_asm)

lemma set_todos_update:
  "set_todos lower fresh lio io now sid goal phases old t = (r, t') \<Longrightarrow>
     t' = t \<or> (\<exists>n. UpdateTodo lower fresh io now sid n (\<lambda>todo. Inr (todo\<lparr>todo_Goal := goal, todo_Phases := phases\<rparr>)) t = (r, t'))"
  by (cases "LoadTodo lio sid old") (auto simp: set_todos_def)

text \<open>Every step is one update that keeps the revision apart from counting it.\<close>

lemma plan_step_update:
  assumes "plan_step lower others t t'"
  shows "t' = t \<or> (\<exists>fresh io now sid n fn r. keeps_revision fn \<and> UpdateTodo lower fresh io now sid n fn t = (r, t'))"
  using assms
proof cases
  case (tool fresh io gate now sid n input r)
  obtain r' where "UpdateTodo lower fresh io now sid n (applyTodoOp input) t = (r', t')"
    using todo_commit_update [OF tool] by blast
  with applyTodoOp_revision show ?thesis by blast
next
  case assign
  with writers_keep_revision(2) show ?thesis unfolding commitSubagentTodoBinding_def by blast
next
  case cursor
  from syncTodos_update [OF cursor(2)] writers_keep_revision(1) show ?thesis by blast
next
  case rpc
  from set_todos_update [OF rpc(2)] writers_keep_revision(3) show ?thesis by blast
qed

lemma stored_tput [simp]: "stored_todo sid (tput k v t) = (if sid = k then v else stored_todo sid t)"
  by (simp add: stored_todo_def)

lemma update_row:
  assumes "UpdateTodo lower fresh io now k n fn t = (r, t')" and "keeps_revision fn"
  shows "stored_todo sid t' = stored_todo sid t \<or>
    todo_Revision (stored_todo sid t') = todo_Revision (stored_todo sid t) + 1 \<and> todo_valid lower (stored_todo sid t')"
  using UpdateTodo_cases [OF assms(1)]
proof cases
  case (2 todo todo')
  have "todo_Revision todo = todo_Revision (stored_todo k t)" using 2(1) assms(2) by (simp add: keeps_revision_def)
  moreover have "todo_valid lower (todo'\<lparr>todo_Revision := a, todo_UpdatedAt := b\<rparr>)" for a b
    using normalizeTodo_norm(1) [OF 2(2)] by (simp add: todo_valid_def)
  ultimately show ?thesis using 2(5) normalizeTodo_norm(3) [OF 2(2)] by simp
qed simp

lemma step_row:
  "plan_step lower others t t' \<Longrightarrow> stored_todo sid t' = stored_todo sid t \<or>
     todo_Revision (stored_todo sid t') = todo_Revision (stored_todo sid t) + 1 \<and> todo_valid lower (stored_todo sid t')"
  using plan_step_update update_row by metis

text \<open>Equal revisions are the same plan.\<close>

lemma reach_row:
  "todo_reach lower others t u \<Longrightarrow> stored_todo sid u = stored_todo sid t \<or>
     todo_Revision (stored_todo sid u) > todo_Revision (stored_todo sid t) \<and> todo_valid lower (stored_todo sid u)"
proof (induction rule: todo_reach.induct)
  case (step t u v)
  from step_row [OF step.hyps(2), of sid] step.IH show ?case by fastforce
qed simp


section \<open>The current item\<close>

text \<open>The statuses of a plan that has a current item whenever work is waiting.\<close>

definition plan_live :: "todo_item list \<Rightarrow> bool" where
  "plan_live items \<longleftrightarrow> (\<forall>i \<in> set items. item_Status i \<noteq> []) \<and>
     ((\<exists>i \<in> set items. item_Status i = TodoPending) \<longrightarrow> (\<exists>i \<in> set items. item_Status i = TodoInProgress))"

lemma todo_items_Cons [simp]: "todo_items (ph # phs) = phase_Items ph @ todo_items phs" and todo_items_Nil [simp]: "todo_items [] = []"
  by (simp_all add: todo_items_def)

lemma change_item_append: "change_item p f (xs @ ys) = (if list_ex p xs then change_item p f xs @ ys else xs @ change_item p f ys)"
  by (induction xs) auto

lemma change_item_none: "\<not> list_ex p xs \<Longrightarrow> change_item p f xs = xs"
  by (induction xs) auto

lemma items_change_first: "todo_items (change_first p f phs) = change_item p f (todo_items phs)"
  by (induction phs) (auto simp: change_item_append)

lemma items_set_status:
  "todo_items (todo_Phases (set_status p s todo)) = change_item p (\<lambda>i. i\<lparr>item_Status := s\<rparr>) (todo_items (todo_Phases todo))"
  by (simp add: set_status_def items_change_first)

text \<open>The first match is the only item that is changed.\<close>

lemma change_item_split:
  "list_ex p xs \<Longrightarrow> \<exists>us x vs. xs = us @ x # vs \<and> p x \<and> \<not> list_ex p us \<and> change_item p f xs = us @ f x # vs"
proof (induction xs)
  case (Cons a xs)
  show ?case
  proof (cases "p a")
    case True
    then have "a # xs = [] @ a # xs \<and> p a \<and> \<not> list_ex p [] \<and> change_item p f (a # xs) = [] @ f a # xs" by simp
    then show ?thesis by blast
  next
    case False
    with Cons obtain us x vs where "xs = us @ x # vs" "p x" "\<not> list_ex p us" "change_item p f xs = us @ f x # vs" by auto
    with False have "a # xs = (a # us) @ x # vs \<and> p x \<and> \<not> list_ex p (a # us) \<and> change_item p f (a # xs) = (a # us) @ f x # vs" by simp
    then show ?thesis by blast
  qed
qed simp

lemma find_item_split:
  assumes "find_item i todo = Inr item"
  shows "\<exists>us vs. todo_items (todo_Phases todo) = us @ item # vs \<and> item_ID item = i \<and> (\<forall>x \<in> set us. item_ID x \<noteq> i)"
proof -
  have f: "List.find (\<lambda>x. item_ID x = i) (todo_items (todo_Phases todo)) = Some item"
    using assms by (simp add: find_item_def split: option.split_asm)
  have "List.find P xs = Some x \<Longrightarrow> \<exists>us vs. xs = us @ x # vs \<and> P x \<and> (\<forall>y \<in> set us. \<not> P y)" for P :: "todo_item \<Rightarrow> bool" and xs x
  proof (induction xs)
    case (Cons a xs)
    show ?case
    proof (cases "P a")
      case True
      with Cons.prems have "a # xs = [] @ x # xs \<and> P x \<and> (\<forall>y \<in> set []. \<not> P y)" by simp
      then show ?thesis by blast
    next
      case False
      with Cons obtain us vs where "xs = us @ x # vs" "P x" "\<forall>y \<in> set us. \<not> P y" by auto
      with False have "a # xs = (a # us) @ x # vs \<and> P x \<and> (\<forall>y \<in> set (a # us). \<not> P y)" by simp
      then show ?thesis by blast
    qed
  qed simp
  from this [OF f] show ?thesis by blast
qed

lemma change_found:
  assumes "todo_items (todo_Phases todo) = us @ item # vs" and "item_ID item = i" and "\<forall>x \<in> set us. item_ID x \<noteq> i"
  shows "todo_items (todo_Phases (set_status (\<lambda>x. item_ID x = i) s todo)) = us @ item\<lparr>item_Status := s\<rparr> # vs"
proof -
  have "\<not> list_ex (\<lambda>x. item_ID x = i) us" using assms(3) by (simp add: list_ex_iff)
  then show ?thesis using assms(1,2) by (simp add: items_set_status change_item_append)
qed

lemma states_differ [simp]: "TodoInProgress \<noteq> TodoPending" "TodoPending \<noteq> TodoInProgress" "TodoCompleted \<noteq> TodoPending"
  "TodoCancelled \<noteq> TodoPending" "TodoInProgress \<noteq> []" "TodoPending \<noteq> []" "TodoCompleted \<noteq> []" "TodoCancelled \<noteq> []"
  by (simp_all add: todo_states)

lemma advance_live:
  assumes "\<forall>i \<in> set (todo_items (todo_Phases todo)). item_Status i \<noteq> []"
  shows "plan_live (todo_items (todo_Phases (advanceNext todo)))"
proof (cases "list_ex (\<lambda>i. item_Status i = TodoPending) (todo_items (todo_Phases todo))")
  case True
  obtain us x vs where x: "todo_items (todo_Phases todo) = us @ x # vs"
    "todo_items (todo_Phases (advanceNext todo)) = us @ x\<lparr>item_Status := TodoInProgress\<rparr> # vs"
    using change_item_split [OF True, of "\<lambda>i. i\<lparr>item_Status := TodoInProgress\<rparr>"] by (auto simp: advanceNext_def items_set_status)
  with assms show ?thesis by (simp add: plan_live_def)
next
  case False
  with assms show ?thesis by (simp add: advanceNext_def items_set_status change_item_none plan_live_def list_ex_iff)
qed

lemma remove_first_split:
  "todo_items (remove_item p phs) = remove_first p (todo_items phs)"
proof -
  have app: "remove_first p (xs @ ys) = (if list_ex p xs then remove_first p xs @ ys else xs @ remove_first p ys)" for xs ys
    by (induction xs) auto
  show ?thesis by (induction phs) (auto simp: app)
qed

lemma append_item_items:
  "append_item i x phs = Some phs' \<Longrightarrow> set (todo_items phs') = insert x (set (todo_items phs))"
  by (induction phs arbitrary: phs') (auto split: if_split_asm)

lemma remove_phase_items:
  "List.find (\<lambda>ph. phase_ID ph = i) phs = Some ph \<Longrightarrow> set (todo_items phs) = set (phase_Items ph) \<union> set (todo_items (remove_phase i phs))"
  by (induction phs) (auto split: if_split_asm)

text \<open>Every operation of the tool keeps a plan live.\<close>

lemma op_live:
  assumes "applyTodoOp input todo = Inr todo'" and live: "plan_live (todo_items (todo_Phases todo))"
  shows "plan_live (todo_items (todo_Phases todo'))"
  using assms(1)
proof (cases rule: applyTodoOp_op)
  case 1
  then have t: "todo' = advanceNext (todo\<lparr>todo_Goal := tin_Goal input, todo_Phases :=
      map (\<lambda>ph. ph\<lparr>phase_Items := map (\<lambda>i. i\<lparr>item_Status := TodoPending\<rparr>) (phase_Items ph)\<rparr>) (tin_Phases input)\<rparr>)" (is "_ = advanceNext ?new")
    by (auto simp: todo_init_def split: if_split_asm option.split_asm)
  have "\<forall>i \<in> set (todo_items (todo_Phases ?new)). item_Status i \<noteq> []" by (auto simp: todo_items_def)
  from advance_live [OF this] t show ?thesis by simp
next
  case 2
  then obtain item where f: "find_item (tin_ItemID input) todo = Inr item"
    and t: "todo' = set_status (\<lambda>i. item_ID i = tin_ItemID input) TodoInProgress todo"
    by (auto simp: todo_start_def bindE_eq_Inr split: if_split_asm)
  obtain us vs where "todo_items (todo_Phases todo) = us @ item # vs"
    "todo_items (todo_Phases todo') = us @ item\<lparr>item_Status := TodoInProgress\<rparr> # vs"
    using find_item_split [OF f] change_found t by blast
  with live show ?thesis by (simp add: plan_live_def)
next
  case 3
  then obtain item where f: "find_item (tin_ItemID input) todo = Inr item"
    and t: "todo' = advanceNext (set_status (\<lambda>i. item_ID i = tin_ItemID input) TodoCompleted todo)"
    by (auto simp: todo_done_def bindE_eq_Inr split: if_split_asm)
  obtain us vs where "todo_items (todo_Phases todo) = us @ item # vs"
    "todo_items (todo_Phases (set_status (\<lambda>i. item_ID i = tin_ItemID input) TodoCompleted todo)) = us @ item\<lparr>item_Status := TodoCompleted\<rparr> # vs"
    using find_item_split [OF f] change_found by blast
  with live have "\<forall>i \<in> set (todo_items (todo_Phases
      (set_status (\<lambda>i. item_ID i = tin_ItemID input) TodoCompleted todo))). item_Status i \<noteq> []" by (simp add: plan_live_def)
  with t advance_live show ?thesis by blast
next
  case 4
  then obtain item where f: "find_item (tin_ItemID input) todo = Inr item"
    and t: "todo' = (let u = set_status (\<lambda>i. item_ID i = tin_ItemID input) TodoCancelled todo in
      if item_Status item = TodoInProgress then advanceNext u else u)"
    by (auto simp: todo_cancel_def bindE_eq_Inr Let_def split: if_split_asm)
  obtain us vs where s: "todo_items (todo_Phases todo) = us @ item # vs"
    "todo_items (todo_Phases (set_status (\<lambda>i. item_ID i = tin_ItemID input) TodoCancelled todo)) = us @ item\<lparr>item_Status := TodoCancelled\<rparr> # vs"
    using find_item_split [OF f] change_found by blast
  show ?thesis
  proof (cases "item_Status item = TodoInProgress")
    case True
    have "\<forall>i \<in> set (us @ item\<lparr>item_Status := TodoCancelled\<rparr> # vs). item_Status i \<noteq> []" using live s(1) by (simp add: plan_live_def)
    with True t s(2) advance_live show ?thesis by (simp add: Let_def)
  next
    case False
    with t s live show ?thesis by (auto simp: plan_live_def Let_def)
  qed
next
  case 5
  then obtain phases where p: "append_item (tin_PhaseID input)
      \<lparr>item_ID = [], item_Content = TrimSpace (tin_Content input), item_Status = TodoPending, item_SubagentRunID = []\<rparr> (todo_Phases todo) = Some phases"
    and t: "todo' = (let u = todo\<lparr>todo_Phases := phases\<rparr> in if \<not> hasInProgress u then advanceNext u else u)"
    by (auto simp: todo_append_def Let_def split: if_split_asm option.split_asm)
  have "\<forall>i \<in> set (todo_items phases). item_Status i \<noteq> []" using append_item_items [OF p] live by (simp add: plan_live_def)
  with t advance_live [of "todo\<lparr>todo_Phases := phases\<rparr>"] show ?thesis
    by (auto simp: Let_def hasInProgress_def plan_live_def list_ex_iff)
next
  case 6
  then consider item where "find_item (tin_ItemID input) todo = Inr item" "item_Status item \<noteq> TodoInProgress"
      "todo' = todo\<lparr>todo_Phases := remove_item (\<lambda>i. item_ID i = tin_ItemID input) (todo_Phases todo)\<rparr>"
    | ph where "List.find (\<lambda>ph. phase_ID ph = tin_PhaseID input) (todo_Phases todo) = Some ph"
      "\<not> list_ex (\<lambda>i. item_Status i = TodoInProgress) (phase_Items ph)"
      "todo' = todo\<lparr>todo_Phases := remove_phase (tin_PhaseID input) (todo_Phases todo)\<rparr>"
    by (auto simp: todo_remove_def Let_def split: if_split_asm option.split_asm sum.split_asm)
  then show ?thesis
  proof cases
    case (1 item)
    obtain us vs where s: "todo_items (todo_Phases todo) = us @ item # vs" "item_ID item = tin_ItemID input"
      "\<forall>x \<in> set us. item_ID x \<noteq> tin_ItemID input" using find_item_split [OF 1(1)] by blast
    have "remove_first p (us @ item # vs) = us @ vs" if "p item" "\<forall>x \<in> set us. \<not> p x" for p using that by (induction us) auto
    with s have "todo_items (todo_Phases todo') = us @ vs" using 1(3) by (simp add: remove_first_split)
    with live s(1) 1(2) show ?thesis by (auto simp: plan_live_def)
  next
    case (2 ph)
    from remove_phase_items [OF 2(1)] 2(2,3) live show ?thesis by (auto simp: plan_live_def list_ex_iff)
  qed
qed

lemma normalized_status:
  "list_all2 normalized_item xs ys \<Longrightarrow> map item_Status ys = map (\<lambda>i. status_or_pending (item_Status i)) xs"
  by (induction xs ys rule: list_all2_induct) (auto simp: normalized_item_def)

lemma plan_live_status: "plan_live items \<longleftrightarrow> [] \<notin> item_Status ` set items \<and>
    (TodoPending \<in> item_Status ` set items \<longrightarrow> TodoInProgress \<in> item_Status ` set items)"
proof -
  have "s \<in> item_Status ` set items \<longleftrightarrow> (\<exists>i \<in> set items. item_Status i = s)" for s by auto
  then show ?thesis by (auto simp: plan_live_def)
qed

lemma normalized_live:
  assumes "list_all2 normalized_item xs ys" and "plan_live xs"
  shows "plan_live ys"
proof -
  have "\<forall>i \<in> set xs. status_or_pending (item_Status i) = item_Status i" using assms(2) by (simp add: plan_live_def status_or_pending_def)
  then have "map item_Status ys = map item_Status xs" using normalized_status [OF assms(1)] by simp
  then have "item_Status ` set ys = item_Status ` set xs" by (metis set_map)
  with assms(2) show ?thesis by (simp add: plan_live_status)
qed


lemma change_run_live:
  assumes "plan_live (todo_items phases)"
  shows "plan_live (todo_items (change_first p (\<lambda>i. i\<lparr>item_SubagentRunID := run\<rparr>) phases))"
proof (cases "list_ex p (todo_items phases)")
  case True
  obtain us x vs where "todo_items phases = us @ x # vs"
    "todo_items (change_first p (\<lambda>i. i\<lparr>item_SubagentRunID := run\<rparr>) phases) = us @ x\<lparr>item_SubagentRunID := run\<rparr> # vs"
    using change_item_split [OF True, of "\<lambda>i. i\<lparr>item_SubagentRunID := run\<rparr>"] by (auto simp: items_change_first)
  with assms show ?thesis by (simp add: plan_live_def)
qed (simp add: assms items_change_first change_item_none)

lemma update_live:
  assumes "UpdateTodo lower fresh io now k n fn t = (r, t')" and "plan_live (todo_items (todo_Phases (stored_todo sid t)))"
    and "\<And>x y. fn x = Inr y \<Longrightarrow> plan_live (todo_items (todo_Phases x)) \<Longrightarrow> plan_live (todo_items (todo_Phases y))"
  shows "plan_live (todo_items (todo_Phases (stored_todo sid t')))"
  using UpdateTodo_cases [OF assms(1)]
proof cases
  case (2 todo todo')
  show ?thesis
  proof (cases "sid = k")
    case True
    with assms(2) 2(1) assms(3) have "plan_live (todo_items (todo_Phases todo))" by blast
    with normalized_live [OF normalizeTodo_norm(2) [OF 2(2)]] 2(5) True show ?thesis by simp
  qed (use assms(2) 2(5) in simp)
qed (use assms(2) in simp)

lemma reach_live:
  "todo_reach lower False t u \<Longrightarrow> plan_live (todo_items (todo_Phases (stored_todo sid t))) \<Longrightarrow>
     plan_live (todo_items (todo_Phases (stored_todo sid u)))"
proof (induction rule: todo_reach.induct)
  case (step t u v)
  then have live: "plan_live (todo_items (todo_Phases (stored_todo sid u)))" by blast
  from step.hyps(2) show ?case
  proof cases
    case (tool fresh io gate now k n input r)
    obtain r' where "UpdateTodo lower fresh io now k n (applyTodoOp input) u = (r', v)" using todo_commit_update [OF tool] by blast
    from update_live [OF this live] op_live show ?thesis by blast
  next
    case (assign fresh io now k item run n r)
    have "plan_live (todo_items (todo_Phases y))" if "assign_item item run x = Inr y" "plan_live (todo_items (todo_Phases x))" for x y
      using that change_run_live by (auto simp: assign_item_def bindE_eq_Inr split: if_split_asm)
    with update_live [OF assign [unfolded commitSubagentTodoBinding_def] live] show ?thesis by blast
  qed auto
qed simp

section \<open>What is guaranteed\<close>

text \<open>C0. Whichever writers update the plans of the sessions - tool calls, assignments to subagents, Cursor
  providers, RPC clients - and in whatever order, every stored plan is well formed: no two phases or items
  share an identifier, no two phases a title and no two items a content that differ in case only, titles and
  contents are trimmed and present, statuses are known, and at most one item is in progress.\<close>

theorem todo_plan_valid:
  assumes "todo_reach lower True [] t"
  shows "todo_valid lower (stored_todo sid t)"
proof -
  have "todo_valid lower (stored_todo sid [])" by (simp add: stored_todo_def no_todo_def todo_valid_def plan_ids_def in_progress_def)
  with reach_row [OF assms, of sid] show ?thesis by metis
qed

text \<open>C0. A plan that only the tool maintains always has exactly one current item while work is open, and none
  otherwise: whatever operations succeed or fail, completing or cancelling the current item, appending to a
  finished plan and replacing the plan all leave the next open item in progress.\<close>

theorem todo_has_current:
  assumes "todo_reach lower False [] t"
  shows "length (filter (\<lambda>i. item_Status i = TodoInProgress) (todo_items (todo_Phases (stored_todo sid t)))) =
     (if incompleteTodoItems (stored_todo sid t) = [] then 0 else 1)"
proof -
  let ?items = "todo_items (todo_Phases (stored_todo sid t))"
  have "plan_live (todo_items (todo_Phases (stored_todo sid [])))" by (simp add: stored_todo_def no_todo_def plan_live_def)
  from reach_live [OF assms this] have live: "plan_live ?items" .
  have "todo_valid lower (stored_todo sid [])" by (simp add: stored_todo_def no_todo_def todo_valid_def plan_ids_def in_progress_def)
  with reach_row [OF assms, of sid] have "todo_valid lower (stored_todo sid t)" by metis
  then have one: "in_progress ?items \<le> 1" by (simp add: todo_valid_def Let_def)
  have open_items: "incompleteTodoItems (stored_todo sid t) = filter (\<lambda>i. item_Status i = TodoPending \<or> item_Status i = TodoInProgress) ?items"
    by (simp add: incompleteTodoItems_def todo_items_def todo_states)
  show ?thesis
  proof (cases "incompleteTodoItems (stored_todo sid t) = []")
    case True
    then have "\<forall>i \<in> set ?items. item_Status i \<noteq> TodoInProgress" unfolding open_items filter_empty_conv by blast
    with True show ?thesis by (simp add: filter_empty_conv)
  next
    case False
    with open_items live have "\<exists>i \<in> set ?items. item_Status i = TodoInProgress" by (auto simp: filter_empty_conv plan_live_def)
    then have "filter (\<lambda>i. item_Status i = TodoInProgress) ?items \<noteq> []" by (auto simp: filter_empty_conv)
    with one False show ?thesis by (simp add: in_progress_def le_Suc_eq)
  qed
qed

text \<open>C0. The last item of a plan is completed by the tool only when the verification of the run passed. A call
  of \<^verbatim>\<open>done\<close> reads the plan, consults the verification if nothing would be left open, and then updates the
  revision it expects; whatever the other writers do in between, a call that changed the plan and left
  nothing open was answered without an error by the verification.\<close>

theorem todo_completion_gated:
  assumes "todo_reach lower True t u" and "todo_Execute lower fresh lio io (Some answer) now sid (Some input) t u = (r, v)"
    and "tin_Op input = ''done''" and "v \<noteq> u" and "incompleteTodoItems (stored_todo sid v) = []"
  shows "answer = None"
proof -
  have op: "todo_input_op input = input" "\<not> blank (tin_Op input)" using assms(3) by (simp_all add: todo_input_op_def blank_def) code_simp+
  obtain n input' where go: "todo_prepare lio (Some answer) sid (Some input) t = GoesOn n input'"
    using assms(2,4) by (auto simp: todo_Execute_def split: todo_step.split_asm)
  then have in': "input' = input" and before: "before_done lio (Some answer) sid n input t = None"
    using op assms(3) by (auto simp: todo_prepare_def Let_def split: option.split_asm sum.split_asm if_split_asm)
  have "todo_commit lower fresh io (Some answer) now sid n input u = (r, v)"
    using assms(2) go in' by (simp add: todo_Execute_def)
  from todo_commit_update [OF this] obtain r' where upd: "UpdateTodo lower fresh io now sid n (applyTodoOp input) u = (r', v)"
    by blast
  from before assms(3) obtain new where cur: "todo_Revision (stored_todo sid t) = n" "applyTodoOp input (stored_todo sid t) = Inr new"
    and gate: "length (incompleteTodoItems new) = 0 \<longrightarrow> answer = None"
    by (auto simp: before_done_def LoadTodo_def split: sum.split_asm option.split_asm if_split_asm)
  from UpdateTodo_cases [OF upd] show ?thesis
  proof cases
    case (2 todo todo')
    have "stored_todo sid u = stored_todo sid t" using reach_row [OF assms(1), of sid] cur(1) 2(3) by auto
    with 2(1) cur(2) have todo: "todo = new" by simp
    have "map item_Status (todo_items (todo_Phases todo')) = map (\<lambda>i. status_or_pending (item_Status i)) (todo_items (todo_Phases new))"
      using normalized_status [OF normalizeTodo_norm(2) [OF 2(2)]] todo by simp
    moreover have "\<forall>s \<in> set (map item_Status (todo_items (todo_Phases todo'))). s \<noteq> TodoPending \<and> s \<noteq> TodoInProgress"
      using assms(5) 2(5) by (auto simp: incompleteTodoItems_def todo_items_def todo_states filter_empty_conv)
    ultimately have "\<forall>s \<in> set (map (\<lambda>i. status_or_pending (item_Status i)) (todo_items (todo_Phases new))). s \<noteq> TodoPending \<and> s \<noteq> TodoInProgress"
      by metis
    then have "\<forall>i \<in> set (todo_items (todo_Phases new)). status_or_pending (item_Status i) \<noteq> TodoPending \<and> status_or_pending (item_Status i) \<noteq> TodoInProgress"
      by (simp only: set_map ball_simps)
    then have "\<forall>i \<in> set (todo_items (todo_Phases new)). item_Status i \<noteq> TodoPending \<and> item_Status i \<noteq> TodoInProgress"
      by (metis status_or_pending_def)
    then have "incompleteTodoItems new = []" by (simp add: incompleteTodoItems_def todo_items_def todo_states filter_empty_conv)
    with gate show ?thesis by simp
  qed (use assms(4) in simp)
qed

section \<open>One winner\<close>

definition todo_cas ::
  "(string \<Rightarrow> string) \<Rightarrow> (nat \<Rightarrow> string) \<Rightarrow> time \<Rightarrow> todos \<Rightarrow> string \<Rightarrow> nat \<Rightarrow> todo_op_input \<Rightarrow> todos option" where
  "todo_cas lower fresh now t sid n input =
     (case UpdateTodo lower fresh None now sid (int n) (applyTodoOp input) t of (Inr _, t') \<Rightarrow> Some t' | (Inl _, _) \<Rightarrow> None)"

definition todo_revisions_ok :: "todos \<Rightarrow> bool" where
  "todo_revisions_ok t \<longleftrightarrow> (\<forall>sid. 0 \<le> todo_Revision (stored_todo sid t))"

lemma todo_cas_some:
  assumes "todo_cas lower fresh now t sid n input = Some t'"
  shows "todo_Revision (stored_todo sid t) = int n" "todo_Revision (stored_todo sid t') = int n + 1"
    "k \<noteq> sid \<Longrightarrow> stored_todo k t' = stored_todo k t"
proof -
  obtain x where upd: "UpdateTodo lower fresh None now sid (int n) (applyTodoOp input) t = (Inr x, t')"
    using assms by (auto simp: todo_cas_def split: prod.split_asm sum.split_asm)
  from UpdateTodo_cases [OF upd] obtain todo todo' where u: "applyTodoOp input (stored_todo sid t) = Inr todo"
    "normalizeTodo lower fresh todo = Inr todo'" "todo_Revision (stored_todo sid t) = int n"
    "t' = tput sid (todo'\<lparr>todo_Revision := todo_Revision todo' + 1, todo_UpdatedAt := now\<rparr>) t" by blast
  have "todo_Revision todo = todo_Revision (stored_todo sid t)" using u(1) applyTodoOp_revision by (simp add: keeps_revision_def)
  with u normalizeTodo_norm(3) [OF u(2)] show "todo_Revision (stored_todo sid t) = int n" "todo_Revision (stored_todo sid t') = int n + 1"
    "k \<noteq> sid \<Longrightarrow> stored_todo k t' = stored_todo k t" by simp_all
qed

interpretation todo_vs: versioned_store todo_revisions_ok "\<lambda>t sid. nat (todo_Revision (stored_todo sid t))"
  "todo_cas lower fresh now" for lower fresh now
proof
  fix s k n r s' k'
  assume ok: "todo_revisions_ok s" and c: "todo_cas lower fresh now s k n r = Some s'"
  note facts = todo_cas_some [OF c]
  show "nat (todo_Revision (stored_todo k s)) = n" using facts(1) by simp
  show "nat (todo_Revision (stored_todo k s')) = n + 1" using facts(2) by simp
  show "nat (todo_Revision (stored_todo k' s')) = nat (todo_Revision (stored_todo k' s))" if "k' \<noteq> k" using facts(3) that by simp
  show "todo_revisions_ok s'"
    unfolding todo_revisions_ok_def
  proof
    fix sid
    show "0 \<le> todo_Revision (stored_todo sid s')" using facts ok by (cases "sid = k") (auto simp: todo_revisions_ok_def)
  qed
qed

text \<open>C0. Of all the tool calls that read one revision of a plan and try to change it, in any order of their
  transactions, at most one succeeds: every revision of every plan is replaced once.\<close>

theorem todo_one_winner: "distinct (todo_vs.committed lower fresh now [] calls)"
  by (rule todo_vs.committed_distinct) (simp add: todo_revisions_ok_def stored_todo_def no_todo_def)

section \<open>A plan and its completion\<close>

text \<open>The plan of two items that a session starts with, and the calls that complete them.\<close>

definition ex_fresh :: "nat \<Rightarrow> string" where
  "ex_fresh n = replicate (Suc n) (CHR ''0'')"

definition ex_new_item :: "string \<Rightarrow> todo_item" where
  "ex_new_item content = \<lparr>item_ID = [], item_Content = content, item_Status = [], item_SubagentRunID = []\<rparr>"

definition ex_todo_op :: "string \<Rightarrow> int option \<Rightarrow> string \<Rightarrow> todo_op_input" where
  "ex_todo_op op revision item = \<lparr>tin_Op = op, tin_ExpectedRevision = revision, tin_Goal = ''ship'',
     tin_Phases = [\<lparr>phase_ID = [], phase_Title = ''work'', phase_Items = [ex_new_item ''code'', ex_new_item ''test'']\<rparr>],
     tin_ItemID = item, tin_PhaseID = [], tin_Content = []\<rparr>"

definition ex_commit :: "int \<Rightarrow> todo_op_input \<Rightarrow> todos \<Rightarrow> todos" where
  "ex_commit n input t = snd (todo_commit (map lower_char) ex_fresh None (Some None) 5 ''s'' n input t)"

definition ex_todos :: todos where
  "ex_todos = ex_commit 1 (ex_todo_op ''done'' (Some 1) ''item-00'') (ex_commit 0 (ex_todo_op ''init'' None []) [])"

lemma ex_todos_reach: "todo_reach (map lower_char) False [] ex_todos"
proof -
  have s: "plan_step (map lower_char) False t (ex_commit n input t)" for n input t
    unfolding ex_commit_def by (rule plan_step.tool) (rule prod.collapse [symmetric])
  show ?thesis unfolding ex_todos_def by (intro todo_reach.step [OF _ s] todo_reach.refl)
qed

text \<open>After the first item the second one is current.\<close>

theorem todo_has_current_witness:
  "length (filter (\<lambda>i. item_Status i = TodoInProgress) (todo_items (todo_Phases (stored_todo ''s'' ex_todos)))) = 1 \<and>
   map item_Content (incompleteTodoItems (stored_todo ''s'' ex_todos)) = [''test'']"
proof -
  have i: "map item_Content (incompleteTodoItems (stored_todo ''s'' ex_todos)) = [''test'']" by code_simp
  then have "incompleteTodoItems (stored_todo ''s'' ex_todos) \<noteq> []" by auto
  with todo_has_current [OF ex_todos_reach, of "''s''"] i show ?thesis by simp
qed

theorem todo_completion_gated_witness:
  "\<exists>r v. todo_Execute (map lower_char) ex_fresh None None (Some None) 6 ''s'' (Some (ex_todo_op ''done'' (Some 2) ''item-000'')) ex_todos ex_todos = (r, v) \<and>
     v \<noteq> ex_todos \<and> incompleteTodoItems (stored_todo ''s'' v) = [] \<and> (None :: string option) = None"
proof -
  let ?call = "todo_Execute (map lower_char) ex_fresh None None (Some None) 6 ''s'' (Some (ex_todo_op ''done'' (Some 2) ''item-000'')) ex_todos ex_todos"
  obtain r v where run: "?call = (r, v)" by fastforce
  have "map item_Content (incompleteTodoItems (stored_todo ''s'' ex_todos)) = [''test'']"
    "incompleteTodoItems (stored_todo ''s'' (snd ?call)) = []" by code_simp+
  then have finished: "incompleteTodoItems (stored_todo ''s'' v) = []" "v \<noteq> ex_todos" using run by auto
  have op: "tin_Op (ex_todo_op ''done'' (Some 2) ''item-000'') = ''done''" by (simp add: ex_todo_op_def)
  from todo_completion_gated [OF todo_reach.refl run op finished(2) finished(1)] run finished show ?thesis by blast
qed

text \<open>With a verification that fails the same call changes nothing.\<close>

lemma refused_completion:
  "snd (todo_Execute (map lower_char) ex_fresh None None (Some (Some ''tests failed'')) 6 ''s'' (Some (ex_todo_op ''done'' (Some 2) ''item-000'')) ex_todos ex_todos)
     = ex_todos"
  by code_simp

end
