(* ===== verification/Spec2Isabelle.thy ===== *)
theory Spec2Isabelle
  imports Admission Recovery Durable_Witnesses Event_Hub Team_Scheduler Event_Broker
    Terminal_Replay Attachment_Transfer Prompt_Queue_Theorems Claim_Witnesses Hashline_Theorems
    Tool_Timeline_Theorems Todo_Plan_Theorems
begin

text \<open>
  A verification of the core of azem, a coding agent that runs as a daemon with desktop and terminal
  clients (Go, under \<^verbatim>\<open>src/internal\<close>).

  \<^bold>\<open>The program.\<close> A prompt of a user waits in the durable \<^emph>\<open>prompt queue\<close> of its session until the
  coordinator claims it and starts a turn. The turn runs as a \<^emph>\<open>durable execution\<close>: an owner holds it
  under a lease with a fencing token and records every side effect as an \<^emph>\<open>attempt\<close> before it performs
  it. Work that is split among several agents is driven by the \<^emph>\<open>team\<close> scheduler; tasks are admitted
  against the limits of their session (\<^emph>\<open>admission\<close>), hold \<^emph>\<open>leases\<close> and \<^emph>\<open>resource claims\<close>, and note external
  effects in the \<^emph>\<open>side-effect ledger\<close>; after a crash, \<^emph>\<open>recovery\<close> quiesces what the dead process held.
  Before the answer of a run that changed the workspace is let through, the \<^emph>\<open>evidence guardrail\<close> compiles
  criteria, derives the revision of the work, selects deterministic checks for the touched files and
  looks for tool records that satisfy them. Files are changed by the \<^emph>\<open>edit tool\<close>, whose patches name the
  contents they were written for by a tag. What happens is reported through the \<^emph>\<open>event broker\<close> of the
  application and the \<^emph>\<open>event hub\<close> of the daemon, over a framed \<^emph>\<open>wire protocol\<close> that also carries the
  output of \<^emph>\<open>terminals\<close> and \<^emph>\<open>attachments\<close>.

  \<^bold>\<open>The theories.\<close> Definitions have the names of the Go functions and records the names of the Go fields
  behind a short prefix; a definition with a lower-case name of its own is a loop body, a closure or a
  branch of the function its comment names.

    \<^item> \<^verbatim>\<open>Prelude\<close>, \<^verbatim>\<open>Go_Strings\<close>, \<^verbatim>\<open>Store_Interfaces\<close>: times, 64-bit integers, the functions of \<^verbatim>\<open>strings\<close>,
      \<^verbatim>\<open>strconv\<close>, \<^verbatim>\<open>path\<close> and \<^verbatim>\<open>filepath\<close> that the code calls, tables; the locales
      \<open>keyed_table\<close>, \<open>versioned_store\<close> and \<open>guarded_system\<close>, which the stores below interpret.
    \<^item> \<^verbatim>\<open>Admission\<close>, \<^verbatim>\<open>Resource_Claims\<close>, \<^verbatim>\<open>Leases\<close>, \<^verbatim>\<open>Action_Attempts\<close>, \<^verbatim>\<open>Recovery\<close>: the control plane of the
      runtime (\<^verbatim>\<open>agentruntime\<close> and \<^verbatim>\<open>store/sqlite/stores_control_plane.go\<close>,
      \<^verbatim>\<open>stores_governance.go\<close>, \<^verbatim>\<open>recovery.go\<close>).
    \<^item> \<^verbatim>\<open>Durable_Model\<close>, \<^verbatim>\<open>Durable_Execution\<close>, \<^verbatim>\<open>Durable_Attempts\<close>: the backend of durable executions
      (\<^verbatim>\<open>store/sqlite/durable_backend.go\<close>, \<^verbatim>\<open>durable_execution.go\<close>, \<^verbatim>\<open>durable_attempt.go\<close>);
      \<^verbatim>\<open>Durable_Safety\<close>, \<^verbatim>\<open>Durable_Theorems\<close>, \<^verbatim>\<open>Durable_Takeover\<close>, \<^verbatim>\<open>Durable_Witnesses\<close>: what it guarantees.
    \<^item> \<^verbatim>\<open>Team_Scheduler\<close>: \<^verbatim>\<open>agent/scheduler.go\<close> and the replay of \<^verbatim>\<open>agent/team_runtime.go\<close>.
    \<^item> \<^verbatim>\<open>Prompt_Queue\<close>, \<^verbatim>\<open>Prompt_Queue_Invariant\<close>, \<^verbatim>\<open>Prompt_Queue_Theorems\<close>:
      \<^verbatim>\<open>session/prompt_queue.go\<close> and \<^verbatim>\<open>app/prompt_queue.go\<close>, with crashes between any two accesses.
    \<^item> \<^verbatim>\<open>Work_Contracts\<close>, \<^verbatim>\<open>Work_Criteria\<close>, \<^verbatim>\<open>Claim_Guard\<close>, \<^verbatim>\<open>Check_Commands\<close>, \<^verbatim>\<open>Work_Revision\<close>,
      \<^verbatim>\<open>Check_Selection\<close>, \<^verbatim>\<open>Revision_Store\<close>, \<^verbatim>\<open>Work_Evidence\<close>: the guardrail of final answers
      (\<^verbatim>\<open>session/work_contracts.go\<close>, \<^verbatim>\<open>verification\<close>, \<^verbatim>\<open>workrevision\<close>, \<^verbatim>\<open>app/work_evidence.go\<close> and the
      artifacts of \<^verbatim>\<open>session/service.go\<close>); \<^verbatim>\<open>Claim_Theorems\<close>, \<^verbatim>\<open>Claim_Witnesses\<close>: what it guarantees.
    \<^item> \<^verbatim>\<open>Tool_Records\<close> (\<^verbatim>\<open>session/tool_records.go\<close>), \<^verbatim>\<open>Work_Guidance\<close> (\<^verbatim>\<open>workrevision/guidance.go\<close>,
      \<^verbatim>\<open>projection.go\<close> and the rest of \<^verbatim>\<open>store.go\<close>), \<^verbatim>\<open>Tool_Timeline\<close> (\<^verbatim>\<open>app/tool_timeline.go\<close>,
      \<^verbatim>\<open>observation\<close>): the records, intents and observations of single tool calls, and what happens to work
      in flight when constraints change; \<^verbatim>\<open>Tool_Timeline_Theorems\<close>: what they guarantee.
    \<^item> \<^verbatim>\<open>Hashline_Patch\<close>, \<^verbatim>\<open>Hashline_Apply\<close>, \<^verbatim>\<open>Hashline_Blocks\<close>, \<^verbatim>\<open>Hashline_Edit\<close>: the edit tool
      (\<^verbatim>\<open>agent/hashline_edit.go\<close>), its parser, the application of edits, block locators, and the call with
      its commit, rollback and clipboard; \<^verbatim>\<open>Hashline_Prepare\<close>, \<^verbatim>\<open>Hashline_Commit\<close>, \<^verbatim>\<open>Hashline_Theorems\<close>: what
      it guarantees.
    \<^item> \<^verbatim>\<open>Event_Broker\<close> (\<^verbatim>\<open>app/event_broker.go\<close>), \<^verbatim>\<open>Event_Hub\<close>, \<^verbatim>\<open>Wire_Codec\<close>, \<^verbatim>\<open>Terminal_Replay\<close>,
      \<^verbatim>\<open>Attachment_Transfer\<close> (\<^verbatim>\<open>desktopipc\<close>): events, frames, terminals and uploads.

  \<^bold>\<open>What is shown.\<close> Each store has an invariant that every operation keeps, so that it holds in every
  reachable state, and its functional behaviour on success and on each refusal. Beyond that:

    \<^item> durable executions: owners that lost their lease are fenced off, an effect is executed again only
      after it was abandoned, settled outcomes never change, a takeover quarantines effects in flight;
    \<^item> prompt queue: over every interleaving of clients, coordinator and crashes a prompt starts at most
      one turn per admission, is not lost without a trace, and queues stay loadable;
    \<^item> guardrail: an answer of a mutating run passes only with a satisfying record for every selected
      check on the present contents of the workspace, and with every touched file read back; criteria of
      the user survive compilation; the shell text of a check denotes exactly its words;
    \<^item> tool calls: a call moves only through its states, a finished one stays finished, its observation is
      accepted, its intent survives a restart, and guidance decides every active intent;
    \<^item> control plane: limits are respected by concurrent reservations, exclusive claims exclude, a live
      lease is respected, recovery leaves nothing active;
    \<^item> edit tool: a call carries out its whole patch or changes nothing, only on the contents its tags
      name; one pass over a file equals splicing its edits from the bottom up; printed patches are parsed
      back; the clipboard stays bounded;
    \<^item> team: the control loop ends for every behaviour of its agents, and replays its own history;
    \<^item> events: a replay is complete or reported unavailable, a subscriber never loses an event silently,
      buffers are bounded, encoded frames decode to themselves, uploads arrive intact.

  \<^bold>\<open>Parameters and hypotheses.\<close> Code outside the repository is an argument of the definitions that use
  it: the hashing functions, JSON encoders and decoders, the \<^verbatim>\<open>durable\<close> package's hash and validation
  functions, Unicode lower-casing, the nodes of the Go parser, the outcome of input and output, the clock. Theorems that rely on one
  say so in a hypothesis (an encoder undone by its decoder, a clock that does not go back), and have a
  witness with concrete functions. A database transaction and a method under its mutex are one step;
  histories are lists or inductive relations of such steps.

  \<^bold>\<open>Bounds and fuel.\<close> Loops over input are structural recursions; the loops of the team and of the
  terminal buffer have a measure or an explicit bound that is proved sufficient, and the output loop of the
  edit tool is a partial function that is proved to return. \<^verbatim>\<open>int64\<close> and \<^verbatim>\<open>uint64\<close> wrap
  where the code adds to them. The limits of the code (64 queued prompts, 4096 revision files, the byte
  limits of buffers, frames and artifacts) are the constants of the source.

  \<^bold>\<open>Not modelled.\<close> SQL text and its drivers beyond the statements named above, generated query code,
  providers and their protocols, the language model loop of \<^verbatim>\<open>agent/service.go\<close>, rendering in the
  terminal and desktop clients, configuration, authentication, plugins, hooks and external processes:
  they are mostly input and output around code that is not in the repository.
\<close>

end
